(* ===== verification/Mpd_Prelude.thy ===== *)
theory Mpd_Prelude
  imports Main "HOL-Library.Word" "HOL-Library.Multiset" "HOL-Library.Monad_Syntax"
begin

text \<open>
  Shared vocabulary of the development.

  The program is C: reading past the end of an array, a failed \<^verbatim>\<open>assert()\<close> and a loop that
  never ends have no defined result.  Every operation of the model that can run into one of them
  returns an \<open>option\<close>, and \<open>None\<close> stands for exactly that outcome.  A theorem \<open>op s = Some s'\<close>
  therefore says that the operation ends, that all of its assertions hold and that all of its
  array accesses are in range.

  The theory holds the array accesses and the counted loops of the C code in that monad, the rules
  that reason about them, and the list lemmas on permutations and block moves which the queue
  proofs share.
\<close>

named_theorems c_simps \<open>evaluation of assertions, array accesses and counted loops\<close>

type_synonym u8 = "8 word"
type_synonym u16 = "16 word"
type_synonym u32 = "32 word"

text \<open>The value of an \<^verbatim>\<open>int\<close> expression converted to \<^verbatim>\<open>unsigned\<close> (32 bits).\<close>

definition to_unsigned :: "int \<Rightarrow> nat" where
  "to_unsigned x = nat (x mod 2 ^ 32)"

section \<open>Assertions and arrays\<close>

definition assert_that :: "bool \<Rightarrow> unit option" where
  "assert_that b = (if b then Some () else None)"

definition aget :: "'a list \<Rightarrow> nat \<Rightarrow> 'a option" where
  "aget xs i = (if i < length xs then Some (xs ! i) else None)"

definition aset :: "'a list \<Rightarrow> nat \<Rightarrow> 'a \<Rightarrow> 'a list option" where
  "aset xs i x = (if i < length xs then Some (xs[i := x]) else None)"

lemma assert_that_True [simp, c_simps]: "b \<Longrightarrow> assert_that b = Some ()"
  by (simp add: assert_that_def)

lemma assert_that_False [simp]: "\<not> b \<Longrightarrow> assert_that b = None"
  by (simp add: assert_that_def)

lemma assert_that_eq_Some [simp]: "assert_that b = Some u \<longleftrightarrow> b"
  by (simp add: assert_that_def)

lemma aget_in [simp, c_simps]: "i < length xs \<Longrightarrow> aget xs i = Some (xs ! i)"
  by (simp add: aget_def)

lemma aget_out [simp]: "length xs \<le> i \<Longrightarrow> aget xs i = None"
  by (simp add: aget_def)

lemma aset_in [simp, c_simps]: "i < length xs \<Longrightarrow> aset xs i x = Some (xs[i := x])"
  by (simp add: aset_def)

lemma aget_eq_Some: "aget xs i = Some x \<longleftrightarrow> i < length xs \<and> xs ! i = x"
  by (auto simp: aget_def)

section \<open>Counted loops\<close>

text \<open>
  \<open>for_each body is s\<close> runs the loop body for the loop counter taking the values \<open>is\<close> in turn; the
  state is threaded through and the loop fails as soon as one iteration fails.
\<close>

fun for_each :: "('i \<Rightarrow> 's \<Rightarrow> 's option) \<Rightarrow> 'i list \<Rightarrow> 's \<Rightarrow> 's option" where
  "for_each f [] s = Some s"
| "for_each f (i # is) s = f i s \<bind> for_each f is"

lemma for_each_append: "for_each f (xs @ ys) s = for_each f xs s \<bind> for_each f ys"
  by (induction xs arbitrary: s) (auto split: bind_splits)

text \<open>The loop rules: an invariant indexed by the loop counter, for counting up and down.\<close>

lemma for_each_upt:
  assumes "a \<le> b" and "Inv a s"
    and step: "\<And>i s. a \<le> i \<Longrightarrow> i < b \<Longrightarrow> Inv i s \<Longrightarrow> \<exists>s'. f i s = Some s' \<and> Inv (Suc i) s'"
  shows "\<exists>s'. for_each f [a..<b] s = Some s' \<and> Inv b s'"
  using assms(1) step
proof (induction b)
  case 0
  with assms(2) show ?case by simp
next
  case (Suc b)
  show ?case
  proof (cases "a = Suc b")
    case True
    with assms(2) show ?thesis by simp
  next
    case False
    with Suc.prems have ab: "a \<le> b" by simp
    with Suc obtain t where t: "for_each f [a..<b] s = Some t" "Inv b t"
      by (metis less_SucI)
    with Suc.prems(2) [of b t] ab obtain u where "f b t = Some u" "Inv (Suc b) u"
      by auto
    with t ab show ?thesis
      by (simp add: for_each_append)
  qed
qed

lemma for_each_downt:
  assumes "a \<le> b" and "Inv b s"
    and step: "\<And>i s. a \<le> i \<Longrightarrow> i < b \<Longrightarrow> Inv (Suc i) s \<Longrightarrow> \<exists>s'. f i s = Some s' \<and> Inv i s'"
  shows "\<exists>s'. for_each f (rev [a..<b]) s = Some s' \<and> Inv a s'"
  using assms
proof (induction b arbitrary: s)
  case 0
  then show ?case by simp
next
  case (Suc b)
  show ?case
  proof (cases "a = Suc b")
    case True
    with Suc.prems show ?thesis by simp
  next
    case False
    with Suc.prems(1) have ab: "a \<le> b" by simp
    from Suc.prems(3) [of b s] Suc.prems(2) ab obtain t where t: "f b s = Some t" "Inv b t"
      by auto
    from Suc.IH [OF ab t(2)] Suc.prems(3)
    obtain u where "for_each f (rev [a..<b]) t = Some u" "Inv a u" by auto
    with t ab show ?thesis by auto
  qed
qed

text \<open>The same for loops whose state is known exactly at every iteration.\<close>

lemma for_each_upt_eq:
  assumes "a \<le> b" and "\<And>i. a \<le> i \<Longrightarrow> i < b \<Longrightarrow> f i (F i) = Some (F (Suc i))"
  shows "for_each f [a..<b] (F a) = Some (F b)"
  using for_each_upt [where f = f and Inv = "\<lambda>i s. s = F i", OF assms(1) refl] assms(2) by auto

lemma for_each_downt_eq:
  assumes "a \<le> b" and "\<And>i. a \<le> i \<Longrightarrow> i < b \<Longrightarrow> f i (F (Suc i)) = Some (F i)"
  shows "for_each f (rev [a..<b]) (F b) = Some (F a)"
  using for_each_downt [where f = f and Inv = "\<lambda>i s. s = F i", OF assms(1) refl] assms(2) by auto

lemma for_each_map: "for_each f (map g xs) s = for_each (\<lambda>i. f (g i)) xs s"
  by (induction xs arbitrary: s) (auto split: bind_splits)

text \<open>Loops over an arbitrary sequence of counters, with an invariant that does not count.\<close>

lemma for_each_list:
  assumes "Inv s"
    and "\<And>i s. i \<in> set is \<Longrightarrow> Inv s \<Longrightarrow> \<exists>s'. f i s = Some s' \<and> Inv s'"
  shows "\<exists>s'. for_each f is s = Some s' \<and> Inv s'"
  using assms
proof (induction "is" arbitrary: s)
  case Nil
  then show ?case by simp
next
  case (Cons i "is")
  from Cons.prems(2) [of i s] Cons.prems(1) obtain t where t: "f i s = Some t" "Inv t"
    by auto
  from Cons.IH [OF t(2)] Cons.prems(2) obtain u where "for_each f is t = Some u" "Inv u"
    by auto
  with t show ?case by simp
qed

lemma for_each_list_inv:
  assumes "for_each f is s = Some s'" and "Inv s"
    and "\<And>i t t'. i \<in> set is \<Longrightarrow> Inv t \<Longrightarrow> f i t = Some t' \<Longrightarrow> Inv t'"
  shows "Inv s'"
  using assms
proof (induction "is" arbitrary: s)
  case Nil
  then show ?case by simp
next
  case (Cons i "is")
  from Cons.prems(1) obtain t where t: "f i s = Some t" "for_each f is t = Some s'"
    by (auto simp: bind_eq_Some_conv)
  with Cons.prems(2,3) have "Inv t" by (metis list.set_intros(1))
  with t(2) show ?case
    using Cons.prems(3) by (rule Cons.IH) auto
qed

section \<open>Word lemmas\<close>

lemma unat_inc_u32: "(v :: u32) < 0xffffffff \<Longrightarrow> unat (v + 1) = unat v + 1"
  by (simp add: word_less_nat_alt unat_word_ariths)

lemma inc_u32_le: "(v :: u32) < 0xffffffff \<Longrightarrow> v \<le> v + 1"
  by (simp add: word_le_nat_alt unat_inc_u32)

lemma unat_ucast_u8_u32 [simp]: "unat (ucast (w :: u8) :: u32) = unat w"
  by transfer (simp add: take_bit_take_bit)

section \<open>List lemmas\<close>

lemma list_eq_nthI:
  "length xs = n \<Longrightarrow> length ys = n \<Longrightarrow> (\<And>i. i < n \<Longrightarrow> xs ! i = ys ! i) \<Longrightarrow> xs = ys"
  by (simp add: list_eq_iff_nth_eq)

text \<open>
  Updating the one entry that holds a value is the same as mapping a function that differs from
  the identity (or from another function) on that value only.
\<close>

lemma map_update_unique:
  assumes "d < length xs"
    and "\<And>e. e < length xs \<Longrightarrow> e \<noteq> d \<Longrightarrow> xs ! e \<noteq> xs ! d"
    and "\<And>x. x \<noteq> xs ! d \<Longrightarrow> f x = g x"
  shows "(map f xs)[d := g (xs ! d)] = map g xs"
  using assms by (intro list_eq_nthI [where n = "length xs"]) (auto simp: nth_list_update)

lemma take_map_upt: "n \<le> length xs \<Longrightarrow> take n xs = map (\<lambda>i. xs ! i) [0..<n]"
  by (simp add: list_eq_iff_nth_eq)

lemma nth_image_take: "n \<le> length xs \<Longrightarrow> set (take n xs) = (\<lambda>i. xs ! i) ` {..<n}"
  by (simp add: take_map_upt atLeast0LessThan)

lemma map_add_upt_from: "map (\<lambda>j. j + k) [a..<b] = [a + k..<b + k]"
  by (simp add: list_eq_iff_nth_eq)

definition swap_at :: "nat \<Rightarrow> nat \<Rightarrow> 'a list \<Rightarrow> 'a list" where
  "swap_at i j xs = xs[i := xs ! j, j := xs ! i]"

lemma length_swap_at [simp]: "length (swap_at i j xs) = length xs"
  by (simp add: swap_at_def)

lemma nth_swap_at:
  "i < length xs \<Longrightarrow> j < length xs \<Longrightarrow>
   swap_at i j xs ! k = (if k = j then xs ! i else if k = i then xs ! j else xs ! k)"
  by (auto simp: swap_at_def nth_list_update)

lemma mset_swap_at [simp]:
  "i < length xs \<Longrightarrow> j < length xs \<Longrightarrow> mset (swap_at i j xs) = mset xs"
  by (simp add: swap_at_def mset_swap)

lemma take_swap_at:
  "i < n \<Longrightarrow> j < n \<Longrightarrow> n \<le> length xs \<Longrightarrow> take n (swap_at i j xs) = swap_at i j (take n xs)"
  by (simp add: swap_at_def take_update_swap)

end
