(* ===== verification/Tag_Pool.thy ===== *)
theory Tag_Pool
  imports Mpd_Prelude
begin

text \<open>
  The pool of tag values, \<^verbatim>\<open>src/tag_pool.c\<close>, with the types of \<^verbatim>\<open>src/tag.h\<close> it stores.

  Equal tag values of different songs share one allocation, which counts its references in eight
  bits.  The slots of the pool hang on the chains of a hash table.  A \<^verbatim>\<open>struct tag_item *\<close> is the
  address of the allocation together with its contents, which never change; following a pointer
  (\<open>slot_at\<close>) fails when no live slot has that address.  Fresh addresses come from a counter.

  The specification of the pool is the multiset of the references that are out: taking an item adds
  one, putting it back removes one.  The theory ends with this contract as a locale, the lemmas its
  clients use, and its interpretation on the pool.
\<close>

section \<open>Tag types\<close>

datatype tag_type =
    TAG_ARTIST | TAG_ARTIST_SORT | TAG_ALBUM | TAG_ALBUM_ARTIST | TAG_ALBUM_ARTIST_SORT | TAG_TITLE
  | TAG_TRACK | TAG_NAME | TAG_GENRE | TAG_DATE | TAG_COMPOSER | TAG_PERFORMER | TAG_COMMENT | TAG_DISC
  | TAG_MUSICBRAINZ_ARTISTID | TAG_MUSICBRAINZ_ALBUMID | TAG_MUSICBRAINZ_ALBUMARTISTID
  | TAG_MUSICBRAINZ_TRACKID
  | TAG_NUM_OF_ITEM_TYPES

text \<open>The numbers the compiler gives to the enumerators.\<close>

definition tag_types :: "tag_type list" where
  "tag_types =
     [TAG_ARTIST, TAG_ARTIST_SORT, TAG_ALBUM, TAG_ALBUM_ARTIST, TAG_ALBUM_ARTIST_SORT, TAG_TITLE,
      TAG_TRACK, TAG_NAME, TAG_GENRE, TAG_DATE, TAG_COMPOSER, TAG_PERFORMER, TAG_COMMENT, TAG_DISC,
      TAG_MUSICBRAINZ_ARTISTID, TAG_MUSICBRAINZ_ALBUMID, TAG_MUSICBRAINZ_ALBUMARTISTID,
      TAG_MUSICBRAINZ_TRACKID]"

fun tag_type_number :: "tag_type \<Rightarrow> nat" where
  "tag_type_number TAG_ARTIST = 0" | "tag_type_number TAG_ARTIST_SORT = 1"
| "tag_type_number TAG_ALBUM = 2" | "tag_type_number TAG_ALBUM_ARTIST = 3"
| "tag_type_number TAG_ALBUM_ARTIST_SORT = 4" | "tag_type_number TAG_TITLE = 5"
| "tag_type_number TAG_TRACK = 6" | "tag_type_number TAG_NAME = 7" | "tag_type_number TAG_GENRE = 8"
| "tag_type_number TAG_DATE = 9" | "tag_type_number TAG_COMPOSER = 10"
| "tag_type_number TAG_PERFORMER = 11" | "tag_type_number TAG_COMMENT = 12"
| "tag_type_number TAG_DISC = 13" | "tag_type_number TAG_MUSICBRAINZ_ARTISTID = 14"
| "tag_type_number TAG_MUSICBRAINZ_ALBUMID = 15"
| "tag_type_number TAG_MUSICBRAINZ_ALBUMARTISTID = 16"
| "tag_type_number TAG_MUSICBRAINZ_TRACKID = 17" | "tag_type_number TAG_NUM_OF_ITEM_TYPES = 18"

lemma tag_types_number:
  "i < 18 \<Longrightarrow> tag_type_number (tag_types ! i) = i"
  "t \<noteq> TAG_NUM_OF_ITEM_TYPES \<Longrightarrow> tag_types ! tag_type_number t = t"
  "t \<noteq> TAG_NUM_OF_ITEM_TYPES \<Longrightarrow> tag_type_number t < 18"
  by (auto simp: tag_types_def less_Suc_eq numeral_eq_Suc) (cases t; simp add: numeral_eq_Suc; fail)+

lemma length_tag_types [simp]: "length tag_types = 18"
  by (simp add: tag_types_def)

section \<open>The pool\<close>

record tag_item =
  ti_addr :: nat
  ti_type :: tag_type
  ti_value :: string

record slot =
  sl_ref :: u8
  sl_item :: tag_item

text \<open>The slots of a chain, from its head on; \<open>pool_next\<close> is the address of the next allocation.\<close>

record tag_pool =
  pool_slots :: "slot list list"
  pool_next :: nat

abbreviation NUM_SLOTS :: nat where
  "NUM_SLOTS \<equiv> 4096"

definition empty_pool :: tag_pool where
  "empty_pool = \<lparr>pool_slots = replicate NUM_SLOTS [], pool_next = 1\<rparr>"

text \<open>A \<^verbatim>\<open>char\<close> is signed: its value is extended with its sign before it is added.\<close>

definition char_value :: "char \<Rightarrow> u32" where
  "char_value c = (let n = of_char c :: int in word_of_int (if n < 128 then n else n - 256))"

definition hash_step :: "u32 \<Rightarrow> char \<Rightarrow> u32" where
  "hash_step h c = push_bit 5 h + h + char_value c"

definition calc_hash_n :: "tag_type \<Rightarrow> string \<Rightarrow> nat \<Rightarrow> u32" where
  "calc_hash_n type p len = xor (foldl hash_step 5381 (take len p)) (of_nat (tag_type_number type))"

text \<open>The hash of a string that ends with a zero byte, which the model's strings leave out.\<close>

definition calc_hash :: "tag_type \<Rightarrow> string \<Rightarrow> u32" where
  "calc_hash type p = xor (foldl hash_step 5381 p) (of_nat (tag_type_number type))"

definition bucket_n :: "tag_type \<Rightarrow> string \<Rightarrow> nat \<Rightarrow> nat" where
  "bucket_n type p len = unat (calc_hash_n type p len) mod NUM_SLOTS"

definition slot_at :: "tag_pool \<Rightarrow> nat \<Rightarrow> slot option" where
  "slot_at pool addr = List.find (\<lambda>s. ti_addr (sl_item s) = addr) (concat (pool_slots pool))"

definition set_ref :: "nat \<Rightarrow> u8 \<Rightarrow> tag_pool \<Rightarrow> tag_pool" where
  "set_ref addr r pool = pool\<lparr>pool_slots :=
     map (map (\<lambda>s. if ti_addr (sl_item s) = addr then s\<lparr>sl_ref := r\<rparr> else s)) (pool_slots pool)\<rparr>"

text \<open>A new slot becomes the head of its chain.\<close>

definition slot_alloc :: "nat \<Rightarrow> tag_type \<Rightarrow> string \<Rightarrow> tag_pool \<Rightarrow> (tag_item \<times> tag_pool) option" where
  "slot_alloc b type v pool = do {
     chain \<leftarrow> aget (pool_slots pool) b;
     let item = \<lparr>ti_addr = pool_next pool, ti_type = type, ti_value = v\<rparr>;
     Some (item, \<lparr>pool_slots = (pool_slots pool)[b := \<lparr>sl_ref = 1, sl_item = item\<rparr> # chain],
                  pool_next = pool_next pool + 1\<rparr>)
   }"

fun get_loop :: "tag_type \<Rightarrow> string \<Rightarrow> slot list \<Rightarrow> tag_item option option" where
  "get_loop type v [] = Some None"
| "get_loop type v (s # chain) =
     (if ti_type (sl_item s) = type \<and> length v = length (ti_value (sl_item s)) \<and> v = ti_value (sl_item s) \<and>
         sl_ref s < 0xff
      then do {
        assert_that (0 < sl_ref s);
        Some (Some (sl_item s))
      }
      else get_loop type v chain)"

definition ref_up :: "nat \<Rightarrow> tag_pool \<Rightarrow> tag_pool option" where
  "ref_up addr pool = do {
     s \<leftarrow> slot_at pool addr;
     Some (set_ref addr (sl_ref s + 1) pool)
   }"

definition tag_pool_get_item :: "tag_type \<Rightarrow> string \<Rightarrow> tag_pool \<Rightarrow> (tag_item \<times> tag_pool) option" where
  "tag_pool_get_item type v pool = do {
     let b = bucket_n type v (length v);
     chain \<leftarrow> aget (pool_slots pool) b;
     found \<leftarrow> get_loop type v chain;
     case found of
       Some item \<Rightarrow> do {
         pool \<leftarrow> ref_up (ti_addr item) pool;
         Some (item, pool)
       }
     | None \<Rightarrow> slot_alloc b type v pool
   }"

definition tag_pool_dup_item :: "tag_item \<Rightarrow> tag_pool \<Rightarrow> (tag_item \<times> tag_pool) option" where
  "tag_pool_dup_item item pool = do {
     s \<leftarrow> slot_at pool (ti_addr item);
     assert_that (0 < sl_ref s);
     if sl_ref s < 0xff then do {
       pool \<leftarrow> ref_up (ti_addr item) pool;
       Some (item, pool)
     }
     else slot_alloc (bucket_n (ti_type item) (ti_value item) (length (ti_value item)))
            (ti_type item) (ti_value item) pool
   }"

text \<open>The chain without the slot at an address, which must be on it.\<close>

fun unlink :: "nat \<Rightarrow> slot list \<Rightarrow> slot list option" where
  "unlink addr [] = None"
| "unlink addr (s # chain) =
     (if ti_addr (sl_item s) = addr then Some chain
      else do {
        chain \<leftarrow> unlink addr chain;
        Some (s # chain)
      })"

definition tag_pool_put_item :: "tag_item \<Rightarrow> tag_pool \<Rightarrow> tag_pool option" where
  "tag_pool_put_item item pool = do {
     s \<leftarrow> slot_at pool (ti_addr item);
     assert_that (0 < sl_ref s);
     let pool = set_ref (ti_addr item) (sl_ref s - 1) pool;
     if 0 < sl_ref s - 1 then Some pool
     else do {
       let b = unat (calc_hash (ti_type item) (ti_value item)) mod NUM_SLOTS;
       chain \<leftarrow> aget (pool_slots pool) b;
       chain \<leftarrow> unlink (ti_addr item) chain;
       Some (pool\<lparr>pool_slots := (pool_slots pool)[b := chain]\<rparr>)
     }
   }"

section \<open>The references that are out\<close>

definition slot_refs :: "slot \<Rightarrow> tag_item multiset" where
  "slot_refs s = replicate_mset (unat (sl_ref s)) (sl_item s)"

definition chain_refs :: "slot list \<Rightarrow> tag_item multiset" where
  "chain_refs chain = sum_list (map slot_refs chain)"

definition pool_refs :: "tag_pool \<Rightarrow> tag_item multiset" where
  "pool_refs pool = chain_refs (concat (pool_slots pool))"

text \<open>
  Every slot is on the chain of its hash and has a reference; no two slots share an address, and
  addresses still to come are not in use.
\<close>

definition slot_ok :: "nat \<Rightarrow> nat \<Rightarrow> slot \<Rightarrow> bool" where
  "slot_ok nxt b s \<longleftrightarrow> 0 < sl_ref s \<and> ti_addr (sl_item s) < nxt \<and>
     bucket_n (ti_type (sl_item s)) (ti_value (sl_item s)) (length (ti_value (sl_item s))) = b"

definition pool_ok :: "tag_pool \<Rightarrow> bool" where
  "pool_ok pool \<longleftrightarrow> length (pool_slots pool) = NUM_SLOTS \<and>
     distinct (map (\<lambda>s. ti_addr (sl_item s)) (concat (pool_slots pool))) \<and>
     (\<forall>b < NUM_SLOTS. \<forall>s \<in> set (pool_slots pool ! b). slot_ok (pool_next pool) b s)"

lemma bucket_n_less: "bucket_n t v n < NUM_SLOTS"
  by (simp add: bucket_n_def)

lemma calc_hash_bucket: "unat (calc_hash t v) mod NUM_SLOTS = bucket_n t v (length v)"
  by (simp add: calc_hash_def bucket_n_def calc_hash_n_def)

lemma chain_refs_simps [simp]:
  "chain_refs [] = {#}" "chain_refs (s # chain) = slot_refs s + chain_refs chain"
  "chain_refs (c1 @ c2) = chain_refs c1 + chain_refs c2"
  by (simp_all add: chain_refs_def)

lemma in_chain_refs: "item \<in># chain_refs chain \<longleftrightarrow> (\<exists>s \<in> set chain. sl_item s = item \<and> 0 < sl_ref s)"
  by (induction chain) (auto simp: slot_refs_def word_gt_0 unat_eq_0 simp flip: neq0_conv)

lemma concat_update:
  assumes "b < length xss"
  shows "concat xss = concat (take b xss) @ xss ! b @ concat (drop (Suc b) xss)"
    and "concat (xss[b := ys]) = concat (take b xss) @ ys @ concat (drop (Suc b) xss)"
  using assms by - (subst id_take_nth_drop [OF assms], simp, simp add: upd_conv_take_nth_drop)

lemma slot_at_iff:
  assumes "pool_ok pool"
  shows "slot_at pool a = Some s \<longleftrightarrow> s \<in> set (concat (pool_slots pool)) \<and> ti_addr (sl_item s) = a"
proof -
  have "List.find (\<lambda>s. f s = a) xs = Some s \<longleftrightarrow> s \<in> set xs \<and> f s = a"
    if "distinct (map f xs)" for f :: "slot \<Rightarrow> nat" and xs
    using that by (induction xs) (auto simp: image_iff)
  from this [of "\<lambda>s. ti_addr (sl_item s)"] assms show ?thesis by (simp add: slot_at_def pool_ok_def)
qed

lemma pool_slot:
  assumes "pool_ok pool" "s \<in> set (concat (pool_slots pool))"
  obtains b where "b < NUM_SLOTS" "s \<in> set (pool_slots pool ! b)" "slot_ok (pool_next pool) b s"
  using assms by (auto simp: pool_ok_def in_set_conv_nth [of _ "pool_slots pool"])

lemma out_slot:
  assumes "pool_ok pool" "item \<in># pool_refs pool"
  obtains s where "slot_at pool (ti_addr item) = Some s" "sl_item s = item" "0 < sl_ref s"
  using assms(2) slot_at_iff [OF assms(1)] by (auto simp: pool_refs_def in_chain_refs)

text \<open>Changing the counter of one slot.\<close>

lemma split_slot:
  assumes "pool_ok pool" "slot_at pool a = Some s"
  obtains xs ys where "concat (pool_slots pool) = xs @ s # ys"
    "\<forall>x \<in> set (xs @ ys). ti_addr (sl_item x) \<noteq> a" "ti_addr (sl_item s) = a"
proof -
  from assms have s: "s \<in> set (concat (pool_slots pool))" "ti_addr (sl_item s) = a" by (simp_all add: slot_at_iff)
  then obtain xs ys where c: "concat (pool_slots pool) = xs @ s # ys" by (auto simp only: in_set_conv_decomp)
  moreover have "distinct (map (\<lambda>s. ti_addr (sl_item s)) (concat (pool_slots pool)))" using assms(1) by (simp add: pool_ok_def)
  ultimately have "\<forall>x \<in> set (xs @ ys). ti_addr (sl_item x) \<noteq> a" using s(2) by (auto simp: image_iff)
  with c s(2) show thesis by (intro that)
qed

lemma concat_set_ref:
  "concat (pool_slots (set_ref a r pool)) =
   map (\<lambda>s. if ti_addr (sl_item s) = a then s\<lparr>sl_ref := r\<rparr> else s) (concat (pool_slots pool))"
  by (simp add: set_ref_def map_concat)

lemma pool_refs_set_ref:
  assumes "pool_ok pool" "slot_at pool a = Some s"
  shows "pool_refs (set_ref a r pool) + slot_refs s = pool_refs pool + replicate_mset (unat r) (sl_item s)"
proof -
  obtain xs ys where c: "concat (pool_slots pool) = xs @ s # ys" "ti_addr (sl_item s) = a"
    and o: "\<forall>x \<in> set (xs @ ys). ti_addr (sl_item x) \<noteq> a"
    by (rule split_slot [OF assms])
  have "map (\<lambda>s. if ti_addr (sl_item s) = a then s\<lparr>sl_ref := r\<rparr> else s) xs = xs"
    "map (\<lambda>s. if ti_addr (sl_item s) = a then s\<lparr>sl_ref := r\<rparr> else s) ys = ys"
    using o by (auto intro: map_idI)
  then show ?thesis by (simp add: pool_refs_def concat_set_ref c slot_refs_def)
qed

lemma pool_ok_set_ref:
  assumes "pool_ok pool" "0 < r"
  shows "pool_ok (set_ref a r pool)"
  using assms by (auto simp: pool_ok_def set_ref_def slot_ok_def comp_def map_concat [symmetric] if_distrib cong: if_cong)

lemma slot_alloc_ok:
  assumes "pool_ok pool" "b = bucket_n t v (length v)"
  shows "\<exists>item pool'. slot_alloc b t v pool = Some (item, pool') \<and> pool_ok pool' \<and>
    ti_type item = t \<and> ti_value item = v \<and> pool_refs pool' = add_mset item (pool_refs pool)"
proof -
  let ?i = "\<lparr>ti_addr = pool_next pool, ti_type = t, ti_value = v\<rparr>"
  let ?s = "\<lparr>sl_ref = 1, sl_item = ?i\<rparr>"
  let ?p = "\<lparr>pool_slots = (pool_slots pool)[b := ?s # pool_slots pool ! b], pool_next = pool_next pool + 1\<rparr>"
  have l: "b < length (pool_slots pool)" using assms by (simp add: pool_ok_def bucket_n_less)
  note c = concat_update [OF l]
  have new: "pool_next pool \<notin> (\<lambda>s. ti_addr (sl_item s)) ` set (concat (pool_slots pool))"
    by (auto simp del: set_concat elim!: pool_slot [OF assms(1)] simp: slot_ok_def)
  have "distinct (map (\<lambda>s. ti_addr (sl_item s)) (concat (pool_slots pool)))" using assms(1) by (simp add: pool_ok_def)
  with new have "distinct (map (\<lambda>s. ti_addr (sl_item s)) (?s # concat (pool_slots pool)))" by simp
  moreover have "mset (map (\<lambda>s. ti_addr (sl_item s)) (concat (pool_slots ?p))) =
      mset (map (\<lambda>s. ti_addr (sl_item s)) (?s # concat (pool_slots pool)))"
    by (simp only: tag_pool.simps c) simp
  ultimately have "distinct (map (\<lambda>s. ti_addr (sl_item s)) (concat (pool_slots ?p)))"
    using mset_eq_imp_distinct_iff by blast
  moreover have "slot_ok (pool_next ?p) i x" if "i < NUM_SLOTS" "x \<in> set (pool_slots ?p ! i)" for i x
    using that assms l by (cases "i = b") (fastforce simp: pool_ok_def slot_ok_def nth_list_update)+
  ultimately have "pool_ok ?p" using assms(1) by (simp add: pool_ok_def)
  moreover have "pool_refs ?p = add_mset ?i (pool_refs pool)"
    unfolding pool_refs_def by (simp only: tag_pool.simps c) (simp add: slot_refs_def)
  ultimately show ?thesis using l by (simp add: slot_alloc_def Let_def)
qed

lemma ref_up_ok:
  assumes "pool_ok pool" "slot_at pool a = Some s" "sl_ref s < 0xff"
  shows "\<exists>pool'. ref_up a pool = Some pool' \<and> pool_ok pool' \<and> pool_refs pool' = add_mset (sl_item s) (pool_refs pool)"
proof -
  have u: "unat (sl_ref s + 1) = Suc (unat (sl_ref s))"
    using assms(3) by (simp add: word_less_nat_alt unat_word_ariths)
  then have "0 < sl_ref s + 1" by (simp add: word_less_nat_alt)
  then have "pool_ok (set_ref a (sl_ref s + 1) pool)" using assms(1) by (rule pool_ok_set_ref [rotated])
  with pool_refs_set_ref [OF assms(1,2), of "sl_ref s + 1"] u assms(2) show ?thesis
    by (simp add: ref_up_def slot_refs_def)
qed

lemma get_loop_ok:
  "\<forall>s \<in> set chain. 0 < sl_ref s \<Longrightarrow>
   get_loop t v chain = Some None \<or>
   (\<exists>s \<in> set chain. get_loop t v chain = Some (Some (sl_item s)) \<and> ti_type (sl_item s) = t \<and>
      ti_value (sl_item s) = v \<and> sl_ref s < 0xff)"
  by (induction chain) auto

lemma tag_pool_get_item_ok:
  assumes "pool_ok pool"
  shows "\<exists>item pool'. tag_pool_get_item t v pool = Some (item, pool') \<and> pool_ok pool' \<and>
    ti_type item = t \<and> ti_value item = v \<and> pool_refs pool' = add_mset item (pool_refs pool)"
proof -
  let ?b = "bucket_n t v (length v)"
  let ?chain = "pool_slots pool ! ?b"
  have l: "?b < length (pool_slots pool)" using assms by (simp add: pool_ok_def bucket_n_less)
  have "\<forall>s \<in> set ?chain. 0 < sl_ref s"
    using assms bucket_n_less [of t v "length v"] unfolding pool_ok_def slot_ok_def by blast
  from get_loop_ok [OF this, of t v] show ?thesis
  proof (elim disjE bexE conjE)
    assume "get_loop t v ?chain = Some None"
    with slot_alloc_ok [OF assms refl, of t v] l show ?thesis by (simp add: tag_pool_get_item_def)
  next
    fix s assume s: "s \<in> set ?chain" "get_loop t v ?chain = Some (Some (sl_item s))" "ti_type (sl_item s) = t"
      "ti_value (sl_item s) = v" "sl_ref s < 0xff"
    then have "slot_at pool (ti_addr (sl_item s)) = Some s" using l by (auto simp: slot_at_iff [OF assms])
    from ref_up_ok [OF assms this s(5)] s l show ?thesis by (auto simp: tag_pool_get_item_def)
  qed
qed

lemma tag_pool_dup_item_ok:
  assumes "pool_ok pool" "item \<in># pool_refs pool"
  shows "\<exists>item' pool'. tag_pool_dup_item item pool = Some (item', pool') \<and> pool_ok pool' \<and>
    ti_type item' = ti_type item \<and> ti_value item' = ti_value item \<and> pool_refs pool' = add_mset item' (pool_refs pool)"
proof -
  obtain s where s: "slot_at pool (ti_addr item) = Some s" "sl_item s = item" "0 < sl_ref s"
    by (rule out_slot [OF assms])
  show ?thesis
    using ref_up_ok [OF assms(1) s(1)] slot_alloc_ok [OF assms(1) refl, of "ti_type item" "ti_value item"] s
    by (auto simp: tag_pool_dup_item_def)
qed

text \<open>Putting the last reference back takes the slot off its chain.\<close>

lemma unlink_ok:
  assumes "distinct (map (\<lambda>s. ti_addr (sl_item s)) chain)" "s \<in> set chain" "ti_addr (sl_item s) = a"
  shows "unlink a chain = Some (filter (\<lambda>s. ti_addr (sl_item s) \<noteq> a) chain)"
  using assms by (induction chain) (auto simp: image_iff intro!: filter_True [symmetric])

lemma distinct_bucket:
  "pool_ok pool \<Longrightarrow> b < NUM_SLOTS \<Longrightarrow> distinct (map (\<lambda>s. ti_addr (sl_item s)) (pool_slots pool ! b))"
  using concat_update(1) [of b "pool_slots pool"] by (simp add: pool_ok_def)

lemma only_bucket:
  assumes "pool_ok pool" "b < NUM_SLOTS" "s \<in> set (pool_slots pool ! b)" "i < NUM_SLOTS" "i \<noteq> b" "x \<in> set (pool_slots pool ! i)"
  shows "ti_addr (sl_item x) \<noteq> ti_addr (sl_item s)"
proof
  assume a: "ti_addr (sl_item x) = ti_addr (sl_item s)"
  have "slot_at pool (ti_addr (sl_item s)) = Some x" "slot_at pool (ti_addr (sl_item s)) = Some s"
    using assms a by (auto simp: slot_at_iff [OF assms(1)] pool_ok_def)
  then have "x = s" by simp
  moreover have "slot_ok (pool_next pool) b s" "slot_ok (pool_next pool) i x" using assms by (auto simp: pool_ok_def)
  ultimately show False using assms(5) by (simp add: slot_ok_def)
qed

text \<open>The pool without the slot at an address.\<close>

definition drop_slot :: "nat \<Rightarrow> tag_pool \<Rightarrow> tag_pool" where
  "drop_slot a pool = pool\<lparr>pool_slots := map (filter (\<lambda>s. ti_addr (sl_item s) \<noteq> a)) (pool_slots pool)\<rparr>"

lemma pool_ok_drop_slot: "pool_ok pool \<Longrightarrow> pool_ok (drop_slot a pool)"
  by (auto simp: pool_ok_def drop_slot_def filter_concat [symmetric] distinct_map_filter)

lemma pool_refs_drop_slot:
  assumes "pool_ok pool" "slot_at pool a = Some s"
  shows "pool_refs pool = pool_refs (drop_slot a pool) + slot_refs s"
proof -
  obtain xs ys where c: "concat (pool_slots pool) = xs @ s # ys" "ti_addr (sl_item s) = a"
    and o: "\<forall>x \<in> set (xs @ ys). ti_addr (sl_item x) \<noteq> a"
    by (rule split_slot [OF assms])
  then have "concat (pool_slots (drop_slot a pool)) = xs @ ys"
    by (simp add: drop_slot_def filter_concat [symmetric])
  then show ?thesis by (simp add: pool_refs_def c)
qed

lemma put_last:
  assumes "pool_ok pool" "slot_at pool a = Some s" "b = bucket_n (ti_type (sl_item s)) (ti_value (sl_item s)) (length (ti_value (sl_item s)))"
  shows "unlink a (pool_slots (set_ref a r pool) ! b) = Some (filter (\<lambda>s. ti_addr (sl_item s) \<noteq> a) (pool_slots pool ! b))"
    and "(set_ref a r pool)\<lparr>pool_slots := (pool_slots (set_ref a r pool))
      [b := filter (\<lambda>s. ti_addr (sl_item s) \<noteq> a) (pool_slots pool ! b)]\<rparr> = drop_slot a pool"
proof -
  let ?f = "\<lambda>s. if ti_addr (sl_item s) = a then s\<lparr>sl_ref := r\<rparr> else s"
  have l: "length (pool_slots pool) = NUM_SLOTS" "b < NUM_SLOTS" using assms by (simp_all add: pool_ok_def bucket_n_less)
  obtain b' where "b' < NUM_SLOTS" "s \<in> set (pool_slots pool ! b')" "slot_ok (pool_next pool) b' s" "ti_addr (sl_item s) = a"
    using assms(1,2) by (auto simp: slot_at_iff simp del: set_concat elim: pool_slot)
  with assms(3) have s: "s \<in> set (pool_slots pool ! b)" "ti_addr (sl_item s) = a" by (simp_all add: slot_ok_def)
  have "distinct (map (\<lambda>s. ti_addr (sl_item s)) (map ?f (pool_slots pool ! b)))"
    using distinct_bucket [OF assms(1) l(2)] by (simp add: comp_def if_distrib cong: if_cong)
  moreover have "?f s \<in> set (map ?f (pool_slots pool ! b))" using s by auto
  moreover have "filter (\<lambda>s. ti_addr (sl_item s) \<noteq> a) (map ?f xs) = filter (\<lambda>s. ti_addr (sl_item s) \<noteq> a) xs" for xs
    by (induction xs) auto
  ultimately show "unlink a (pool_slots (set_ref a r pool) ! b) = Some (filter (\<lambda>s. ti_addr (sl_item s) \<noteq> a) (pool_slots pool ! b))"
    using unlink_ok [of "map ?f (pool_slots pool ! b)" "?f s" a] l s(2) by (simp add: set_ref_def)
  have "map ?f (pool_slots pool ! i) = filter (\<lambda>s. ti_addr (sl_item s) \<noteq> a) (pool_slots pool ! i)"
    if "i < NUM_SLOTS" "i \<noteq> b" for i
    using only_bucket [OF assms(1) l(2) s(1) that] s(2) by (simp cong: map_cong filter_cong)
  then have "(map (map ?f) (pool_slots pool))[b := filter (\<lambda>s. ti_addr (sl_item s) \<noteq> a) (pool_slots pool ! b)] =
      map (filter (\<lambda>s. ti_addr (sl_item s) \<noteq> a)) (pool_slots pool)"
    using l by (auto simp: nth_list_update intro!: nth_equalityI)
  then show "(set_ref a r pool)\<lparr>pool_slots := (pool_slots (set_ref a r pool))
      [b := filter (\<lambda>s. ti_addr (sl_item s) \<noteq> a) (pool_slots pool ! b)]\<rparr> = drop_slot a pool"
    by (simp add: set_ref_def drop_slot_def)
qed

lemma tag_pool_put_item_ok:
  assumes "pool_ok pool" "item \<in># pool_refs pool"
  shows "\<exists>pool'. tag_pool_put_item item pool = Some pool' \<and> pool_ok pool' \<and> pool_refs pool = add_mset item (pool_refs pool')"
proof -
  obtain s where s: "slot_at pool (ti_addr item) = Some s" "sl_item s = item" "0 < sl_ref s"
    by (rule out_slot [OF assms])
  have u: "unat (sl_ref s) = Suc (unat (sl_ref s - 1))" using s(3) by (simp add: word_less_nat_alt unat_minus_one word_neq_0_conv)
  show ?thesis
  proof (cases "0 < sl_ref s - 1")
    case True
    with pool_refs_set_ref [OF assms(1) s(1), of "sl_ref s - 1"] pool_ok_set_ref [OF assms(1) True] s u show ?thesis
      by (simp add: tag_pool_put_item_def slot_refs_def)
  next
    case False
    let ?b = "bucket_n (ti_type item) (ti_value item) (length (ti_value item))"
    have "?b < length (pool_slots (set_ref (ti_addr item) (sl_ref s - 1) pool))"
      using assms(1) by (simp add: set_ref_def pool_ok_def bucket_n_less)
    with False put_last [OF assms(1) s(1), of ?b "sl_ref s - 1"] s
    have "tag_pool_put_item item pool = Some (drop_slot (ti_addr item) pool)"
      by (simp add: tag_pool_put_item_def calc_hash_bucket)
    moreover have "slot_refs s = {#item#}" using False u s(2) by (simp add: slot_refs_def word_gt_0)
    ultimately show ?thesis
      using pool_refs_drop_slot [OF assms(1) s(1)] pool_ok_drop_slot [OF assms(1)] by simp
  qed
qed

lemma empty_pool_ok: "pool_ok empty_pool" "pool_refs empty_pool = {#}"
  by (auto simp: pool_ok_def empty_pool_def pool_refs_def)

section \<open>The contract of the pool\<close>

text \<open>A loop that turns the elements of a list into results and threads a state through.\<close>

fun map_thread :: "('a \<Rightarrow> 's \<Rightarrow> ('b \<times> 's) option) \<Rightarrow> 'a list \<Rightarrow> 's \<Rightarrow> ('b list \<times> 's) option" where
  "map_thread f [] s = Some ([], s)"
| "map_thread f (x # xs) s = do {
     (y, s) \<leftarrow> f x s;
     (ys, s) \<leftarrow> map_thread f xs s;
     Some (y # ys, s)
   }"

locale item_pool =
  fixes ok :: "'p \<Rightarrow> bool"
    and refs :: "'p \<Rightarrow> 'i multiset"
    and contents :: "'i \<Rightarrow> 'c"
    and dup :: "'i \<Rightarrow> 'p \<Rightarrow> ('i \<times> 'p) option"
    and put :: "'i \<Rightarrow> 'p \<Rightarrow> 'p option"
  assumes dup_one: "ok p \<Longrightarrow> i \<in># refs p \<Longrightarrow>
      \<exists>i' p'. dup i p = Some (i', p') \<and> ok p' \<and> contents i' = contents i \<and> refs p' = add_mset i' (refs p)"
    and put_one: "ok p \<Longrightarrow> i \<in># refs p \<Longrightarrow> \<exists>p'. put i p = Some p' \<and> ok p' \<and> refs p = add_mset i (refs p')"
begin

lemma put_all:
  "ok p \<Longrightarrow> mset is \<subseteq># refs p \<Longrightarrow> \<exists>p'. for_each put is p = Some p' \<and> ok p' \<and> refs p = mset is + refs p'"
proof (induction "is" arbitrary: p)
  case (Cons i "is")
  then have "i \<in># refs p" by (simp add: mset_subset_eq_insertD)
  with put_one Cons.prems(1) obtain p' where p': "put i p = Some p'" "ok p'" "refs p = add_mset i (refs p')" by blast
  with Cons.prems(2) have "mset is \<subseteq># refs p'" by simp
  from Cons.IH [OF p'(2) this] p' show ?case by auto
qed simp

lemma dup_all:
  "ok p \<Longrightarrow> set is \<subseteq> set_mset (refs p) \<Longrightarrow>
   \<exists>is' p'. map_thread dup is p = Some (is', p') \<and> ok p' \<and> map contents is' = map contents is \<and>
     refs p' = mset is' + refs p"
proof (induction "is" arbitrary: p)
  case (Cons i "is")
  with dup_one [of p i] obtain i' p' where
    p': "dup i p = Some (i', p')" "ok p'" "contents i' = contents i" "refs p' = add_mset i' (refs p)" by auto
  with Cons.prems(2) have "set is \<subseteq> set_mset (refs p')" by auto
  from Cons.IH [OF p'(2) this] p' show ?case by auto
qed simp

text \<open>Copies that are put back leave no reference behind.\<close>

lemma dup_put_all:
  assumes "ok p" "set is \<subseteq> set_mset (refs p)"
  shows "\<exists>is' p' p''. map_thread dup is p = Some (is', p') \<and> for_each put is' p' = Some p'' \<and> ok p'' \<and> refs p'' = refs p"
proof -
  obtain is' p' where d: "map_thread dup is p = Some (is', p')" "ok p'" "refs p' = mset is' + refs p"
    using dup_all [OF assms] by blast
  then show ?thesis using put_all [of p' is'] by auto
qed

end

definition item_contents :: "tag_item \<Rightarrow> tag_type \<times> string" where
  "item_contents i = (ti_type i, ti_value i)"

interpretation tp: item_pool pool_ok pool_refs item_contents tag_pool_dup_item tag_pool_put_item
  by unfold_locales (auto simp: item_contents_def dest: tag_pool_dup_item_ok tag_pool_put_item_ok)

end
