(* ===== verification/Tag.thy ===== *)
theory Tag
  imports Tag_Pool
begin

text \<open>
  The meta data of songs, \<^verbatim>\<open>src/tag.c\<close> and \<^verbatim>\<open>src/tag.h\<close>.

  A tag holds pointers to items of the pool.  While a tag is filled in bulk mode its item array is the
  static array \<^verbatim>\<open>bulk.items\<close> of 64 entries, which only one tag may use at a time; \<open>tag_bulk\<close> says
  that \<^verbatim>\<open>tag->items == bulk.items\<close>.  The static variables of the library, \<^verbatim>\<open>bulk.busy\<close>,
  \<^verbatim>\<open>ignore_tag_items\<close> and the pool, are the record \<open>tag_lib\<close>; every function that touches one of them takes and
  returns it.  Locking the pool is not represented.

  Of GLib, the record \<open>tag_env\<close> holds \<^verbatim>\<open>g_utf8_validate\<close> (the number of valid bytes at the start of a
  string), \<^verbatim>\<open>g_convert\<close> from Latin-1 (\<open>None\<close> for \<^verbatim>\<open>NULL\<close>), \<^verbatim>\<open>g_ascii_strcasecmp\<close> and \<^verbatim>\<open>g_strstrip\<close>.
\<close>

record tag_env =
  te_validate :: "string \<Rightarrow> nat"
  te_convert :: "string \<Rightarrow> string option"
  te_strcasecmp :: "string \<Rightarrow> string \<Rightarrow> int"
  te_strstrip :: "string \<Rightarrow> string"

record tag =
  tag_time :: int
  tag_has_playlist :: bool
  tag_items :: "tag_item list"
  tag_bulk :: bool

record tag_lib =
  tl_pool :: tag_pool
  tl_busy :: bool
  tl_ignore :: "bool list"

abbreviation BULK_MAX :: nat where
  "BULK_MAX \<equiv> 64"

section \<open>Names of tag types\<close>

definition tag_item_names :: "string list" where
  "tag_item_names =
     [''Artist'', ''ArtistSort'', ''Album'', ''AlbumArtist'', ''AlbumArtistSort'', ''Title'', ''Track'', ''Name'',
      ''Genre'', ''Date'', ''Composer'', ''Performer'', ''Comment'', ''Disc'', ''MUSICBRAINZ_ARTISTID'',
      ''MUSICBRAINZ_ALBUMID'', ''MUSICBRAINZ_ALBUMARTISTID'', ''MUSICBRAINZ_TRACKID'']"

text \<open>Both parsers look for the first entry of the table that is equal to the name.\<close>

fun name_loop :: "(string \<Rightarrow> bool) \<Rightarrow> tag_type list \<Rightarrow> string list \<Rightarrow> tag_type" where
  "name_loop eq (t # ts) (n # ns) = (if eq n then t else name_loop eq ts ns)"
| "name_loop eq _ _ = TAG_NUM_OF_ITEM_TYPES"

definition tag_name_parse :: "string \<Rightarrow> tag_type" where
  "tag_name_parse name = name_loop (\<lambda>n. name = n) tag_types tag_item_names"

definition tag_name_parse_i :: "tag_env \<Rightarrow> string \<Rightarrow> tag_type" where
  "tag_name_parse_i E name = name_loop (\<lambda>n. te_strcasecmp E name n = 0) tag_types tag_item_names"

text \<open>
  The setting \<^verbatim>\<open>metadata_to_use\<close>.  The copy of the value is a buffer with its zero byte; \<open>s\<close> and \<open>c\<close> are
  positions in it, and a position behind the zero byte is out of the buffer.  A name that no type has
  ends the program (\<open>Inl\<close>).
\<close>

abbreviation NUL :: char where
  "NUL \<equiv> CHR 0x00"

definition c_str :: "string \<Rightarrow> string" where
  "c_str buf = takeWhile (\<lambda>c. c \<noteq> NUL) buf"

function metadata_loop :: "tag_env \<Rightarrow> string \<Rightarrow> nat \<Rightarrow> nat \<Rightarrow> bool list \<Rightarrow> (string + bool list) option" where
  "metadata_loop E buf c s ignore =
     (if length buf \<le> s then None
      else if buf ! s = CHR '','' \<or> buf ! s = NUL then
        let quit = (buf ! s = NUL);
            buf = buf[s := NUL];
            name = te_strstrip E (c_str (drop c buf))
        in if name = [] then (if quit then Some (Inr ignore) else metadata_loop E buf c s ignore)
           else let type = tag_name_parse_i E name
                in if type = TAG_NUM_OF_ITEM_TYPES then Some (Inl name)
                   else let ignore = ignore[tag_type_number type := False]
                        in if quit then Some (Inr ignore) else metadata_loop E buf (s + 1) (s + 2) ignore
      else metadata_loop E buf c (s + 1) ignore)"
  by pat_completeness auto
termination
  by (relation "measure (\<lambda>(E, buf, c, s, ignore). 2 * (length buf - s) + (if s < length buf \<and> buf ! s \<noteq> NUL then 1 else 0))")
    (auto simp: nth_list_update)

declare metadata_loop.simps [simp del]

definition tag_lib_init :: "tag_env \<Rightarrow> string option \<Rightarrow> tag_lib \<Rightarrow> (string + tag_lib) option" where
  "tag_lib_init E metadata_to_use lib = do {
     ignore \<leftarrow> aset (tl_ignore lib) (tag_type_number TAG_COMMENT) True;
     case metadata_to_use of
       None \<Rightarrow> Some (Inr (lib\<lparr>tl_ignore := ignore\<rparr>))
     | Some v \<Rightarrow> do {
         let ignore = replicate 18 True;
         if te_strcasecmp E v ''none'' = 0 then Some (Inr (lib\<lparr>tl_ignore := ignore\<rparr>))
         else do {
           r \<leftarrow> metadata_loop E (v @ [NUL]) 0 0 ignore;
           Some (map_sum id (\<lambda>ignore. lib\<lparr>tl_ignore := ignore\<rparr>) r)
         }
       }
   }"

section \<open>Building and freeing tags\<close>

definition tag_new :: tag where
  "tag_new = \<lparr>tag_time = -1, tag_has_playlist = False, tag_items = [], tag_bulk = False\<rparr>"

text \<open>The array of a tag in bulk mode is not on the heap and must not be reallocated.\<close>

definition tag_delete_item :: "tag_lib \<Rightarrow> tag \<Rightarrow> nat \<Rightarrow> (tag_lib \<times> tag) option" where
  "tag_delete_item lib tag idx = do {
     assert_that (idx < length (tag_items tag));
     pool \<leftarrow> tag_pool_put_item (tag_items tag ! idx) (tl_pool lib);
     assert_that (\<not> tag_bulk tag);
     Some (lib\<lparr>tl_pool := pool\<rparr>, tag\<lparr>tag_items := take idx (tag_items tag) @ drop (idx + 1) (tag_items tag)\<rparr>)
   }"

lemma tag_delete_item_shrinks:
  "tag_delete_item lib tag idx = Some (lib', tag') \<Longrightarrow>
   idx < length (tag_items tag) \<and> length (tag_items tag') = length (tag_items tag) - 1"
  by (auto simp: tag_delete_item_def bind_eq_Some_conv)

function clear_loop :: "tag_type \<Rightarrow> nat \<Rightarrow> tag_lib \<Rightarrow> tag \<Rightarrow> (tag_lib \<times> tag) option" where
  "clear_loop type i lib tag =
     (if i < length (tag_items tag)
      then if ti_type (tag_items tag ! i) = type
           then case tag_delete_item lib tag i of
               None \<Rightarrow> None
             | Some (lib, tag) \<Rightarrow> clear_loop type i lib tag
           else clear_loop type (i + 1) lib tag
      else Some (lib, tag))"
  by pat_completeness auto
termination
  by (relation "measure (\<lambda>(type, i, lib, tag). length (tag_items tag) - i)") (auto dest!: tag_delete_item_shrinks)

declare clear_loop.simps [simp del]

definition tag_clear_items_by_type :: "tag_lib \<Rightarrow> tag \<Rightarrow> tag_type \<Rightarrow> (tag_lib \<times> tag) option" where
  "tag_clear_items_by_type lib tag type = clear_loop type 0 lib tag"

definition tag_free :: "tag_lib \<Rightarrow> tag \<Rightarrow> tag_lib option" where
  "tag_free lib tag = do {
     pool \<leftarrow> for_each tag_pool_put_item (rev (tag_items tag)) (tl_pool lib);
     let lib = lib\<lparr>tl_pool := pool\<rparr>;
     if tag_bulk tag then do {
       assert_that (tl_busy lib);
       Some (lib\<lparr>tl_busy := False\<rparr>)
     }
     else Some lib
   }"

definition tag_dup :: "tag_lib \<Rightarrow> tag option \<Rightarrow> (tag_lib \<times> tag option) option" where
  "tag_dup lib tag = (case tag of
     None \<Rightarrow> Some (lib, None)
   | Some tag \<Rightarrow> do {
       (items, pool) \<leftarrow> map_thread tag_pool_dup_item (tag_items tag) (tl_pool lib);
       Some (lib\<lparr>tl_pool := pool\<rparr>,
         Some (tag_new\<lparr>tag_time := tag_time tag, tag_has_playlist := tag_has_playlist tag, tag_items := items\<rparr>))
     })"

definition tag_get_value :: "tag \<Rightarrow> tag_type \<Rightarrow> string option option" where
  "tag_get_value tag type = do {
     assert_that (type \<noteq> TAG_NUM_OF_ITEM_TYPES);
     Some (map_option ti_value (List.find (\<lambda>i. ti_type i = type) (tag_items tag)))
   }"

definition tag_has_type :: "tag \<Rightarrow> tag_type \<Rightarrow> bool option" where
  "tag_has_type tag type = do {
     v \<leftarrow> tag_get_value tag type;
     Some (v \<noteq> None)
   }"

text \<open>The items of \<open>base\<close> whose type \<open>add\<close> has not.\<close>

fun merge_loop :: "tag \<Rightarrow> tag_item list \<Rightarrow> tag_pool \<Rightarrow> (tag_item list \<times> tag_pool) option" where
  "merge_loop add [] pool = Some ([], pool)"
| "merge_loop add (i # base) pool = do {
     has \<leftarrow> tag_has_type add (ti_type i);
     if has then merge_loop add base pool
     else do {
       (i, pool) \<leftarrow> tag_pool_dup_item i pool;
       (items, pool) \<leftarrow> merge_loop add base pool;
       Some (i # items, pool)
     }
   }"

definition tag_merge :: "tag_lib \<Rightarrow> tag \<Rightarrow> tag \<Rightarrow> (tag_lib \<times> tag) option" where
  "tag_merge lib base add = do {
     let num_items = length (tag_items base) + length (tag_items add);
     (items1, pool) \<leftarrow> map_thread tag_pool_dup_item (tag_items add) (tl_pool lib);
     (items2, pool) \<leftarrow> merge_loop add (tag_items base) pool;
     let items = items1 @ items2;
     assert_that (length items \<le> num_items);
     assert_that (length items < num_items \<longrightarrow> 0 < length items);
     Some (lib\<lparr>tl_pool := pool\<rparr>,
       tag_new\<lparr>tag_time := if 0 < tag_time add then tag_time add else tag_time base, tag_items := items\<rparr>)
   }"

definition tag_merge_replace :: "tag_lib \<Rightarrow> tag option \<Rightarrow> tag option \<Rightarrow> (tag_lib \<times> tag option) option" where
  "tag_merge_replace lib base add = (case (base, add) of
     (_, None) \<Rightarrow> Some (lib, base)
   | (None, _) \<Rightarrow> Some (lib, add)
   | (Some b, Some a) \<Rightarrow> do {
       (lib, tag) \<leftarrow> tag_merge lib b a;
       lib \<leftarrow> tag_free lib b;
       lib \<leftarrow> tag_free lib a;
       Some (lib, Some tag)
     })"

definition tag_is_empty :: "tag \<Rightarrow> bool" where
  "tag_is_empty tag \<longleftrightarrow> tag_items tag = []"

definition tag_is_defined :: "tag \<Rightarrow> bool" where
  "tag_is_defined tag \<longleftrightarrow> \<not> tag_is_empty tag \<or> 0 \<le> tag_time tag"

definition tag_equal :: "tag option \<Rightarrow> tag option \<Rightarrow> bool" where
  "tag_equal tag1 tag2 = (case (tag1, tag2) of
     (None, None) \<Rightarrow> True
   | (Some a, Some b) \<Rightarrow>
       tag_time a = tag_time b \<and> length (tag_items a) = length (tag_items b) \<and>
       list_all2 (\<lambda>i j. ti_type i = ti_type j \<and> ti_value i = ti_value j) (tag_items a) (tag_items b)
   | _ \<Rightarrow> False)"

section \<open>Adding values\<close>

function patch_loop :: "tag_env \<Rightarrow> string \<Rightarrow> string \<Rightarrow> nat \<Rightarrow> string option" where
  "patch_loop E src dest pos =
     (if pos < length dest
      then let dest = dest[pos := CHR ''?''];
               rest = drop (pos + 1) src
           in if te_validate E rest = length rest then Some dest
              else patch_loop E src dest (pos + 1 + te_validate E rest)
      else None)"
  by pat_completeness auto
termination by (relation "measure (\<lambda>(E, src, dest, pos). length dest - pos)") auto

declare patch_loop.simps [simp del]

definition patch_utf8 :: "tag_env \<Rightarrow> string \<Rightarrow> nat \<Rightarrow> string option" where
  "patch_utf8 E src pos = patch_loop E src (c_str src) pos"

text \<open>\<open>Some None\<close> is the \<^verbatim>\<open>NULL\<close> that says that the string can stay.\<close>

definition fix_utf8 :: "tag_env \<Rightarrow> string \<Rightarrow> string option option" where
  "fix_utf8 E str =
     (if te_validate E str = length str then Some None
      else case te_convert E str of
        Some temp \<Rightarrow> Some (Some temp)
      | None \<Rightarrow> map_option Some (patch_utf8 E str (te_validate E str)))"

definition char_is_non_printable :: "char \<Rightarrow> bool" where
  "char_is_non_printable ch \<longleftrightarrow> (of_char ch :: nat) < 0x20"

text \<open>The copy ends at the first zero byte, so there must be none among the bytes to clear.\<close>

definition clear_non_printable :: "string \<Rightarrow> string option option" where
  "clear_non_printable p =
     (if list_ex char_is_non_printable p then do {
        assert_that (NUL \<notin> set p);
        Some (Some (map (\<lambda>c. if char_is_non_printable c then CHR '' '' else c) p))
      }
      else Some None)"

definition fix_tag_value :: "tag_env \<Rightarrow> string \<Rightarrow> string option option" where
  "fix_tag_value E p = do {
     utf8 \<leftarrow> fix_utf8 E p;
     let p = (case utf8 of None \<Rightarrow> p | Some u \<Rightarrow> c_str u);
     cleared \<leftarrow> clear_non_printable p;
     Some (case cleared of
         None \<Rightarrow> map_option c_str utf8
       | Some cleared \<Rightarrow> Some cleared)
   }"

definition tag_begin_add :: "tag_lib \<Rightarrow> tag \<Rightarrow> (tag_lib \<times> tag) option" where
  "tag_begin_add lib tag = do {
     assert_that (\<not> tl_busy lib);
     assert_that (\<not> tag_bulk tag \<and> tag_items tag = []);
     Some (lib\<lparr>tl_busy := True\<rparr>, tag\<lparr>tag_bulk := True\<rparr>)
   }"

definition tag_end_add :: "tag_lib \<Rightarrow> tag \<Rightarrow> (tag_lib \<times> tag) option" where
  "tag_end_add lib tag = do {
     assert_that (tag_bulk tag \<longrightarrow> length (tag_items tag) \<le> BULK_MAX);
     Some (lib\<lparr>tl_busy := False\<rparr>, tag\<lparr>tag_bulk := False\<rparr>)
   }"

text \<open>In bulk mode the new pointer is stored in the static array, as long as it is not full.\<close>

definition tag_add_item_internal :: "tag_env \<Rightarrow> tag_lib \<Rightarrow> tag \<Rightarrow> tag_type \<Rightarrow> string \<Rightarrow> (tag_lib \<times> tag) option" where
  "tag_add_item_internal E lib tag type v = do {
     p \<leftarrow> fix_tag_value E v;
     let v = (case p of None \<Rightarrow> v | Some p \<Rightarrow> p);
     let num_items = length (tag_items tag) + 1;
     let full = (BULK_MAX \<le> num_items);
     assert_that (tag_bulk tag \<and> full \<longrightarrow> tl_busy lib \<and> num_items - 1 \<le> BULK_MAX);
     (item, pool) \<leftarrow> tag_pool_get_item type v (tl_pool lib);
     Some (lib\<lparr>tl_pool := pool\<rparr>,
       tag\<lparr>tag_items := tag_items tag @ [item], tag_bulk := tag_bulk tag \<and> \<not> full\<rparr>)
   }"

definition tag_add_item_n :: "tag_env \<Rightarrow> tag_lib \<Rightarrow> tag \<Rightarrow> tag_type \<Rightarrow> string \<Rightarrow> (tag_lib \<times> tag) option" where
  "tag_add_item_n E lib tag type v = do {
     ignored \<leftarrow> aget (tl_ignore lib) (tag_type_number type);
     if ignored \<or> v = [] then Some (lib, tag)
     else tag_add_item_internal E lib tag type v
   }"

section \<open>Names\<close>

definition tag_name :: "tag_type \<Rightarrow> string" where
  "tag_name t = tag_item_names ! tag_type_number t"

lemma tag_name_parse_name: "t \<noteq> TAG_NUM_OF_ITEM_TYPES \<Longrightarrow> tag_name_parse (tag_name t) = t"
  by (cases t) (simp_all add: tag_name_parse_def tag_name_def tag_types_def tag_item_names_def)

lemma tag_name_parse_Some:
  assumes "tag_name_parse n \<noteq> TAG_NUM_OF_ITEM_TYPES"
  shows "n = tag_name (tag_name_parse n)"
  using assms
  by (simp add: tag_name_parse_def tag_types_def tag_item_names_def split: if_split_asm)
    (simp_all add: tag_name_def tag_item_names_def)

section \<open>Tags and the references they hold\<close>

type_synonym tag_contents = "(tag_type \<times> string) list"

definition tag_view :: "tag \<Rightarrow> tag_contents" where
  "tag_view tag = map item_contents (tag_items tag)"

text \<open>The library is in order: a sound pool, and an entry for every type.\<close>

definition lib_ok :: "tag_lib \<Rightarrow> bool" where
  "lib_ok lib \<longleftrightarrow> pool_ok (tl_pool lib) \<and> length (tl_ignore lib) = 18"

abbreviation lib_refs :: "tag_lib \<Rightarrow> tag_item multiset" where
  "lib_refs lib \<equiv> pool_refs (tl_pool lib)"

text \<open>What \<^verbatim>\<open>g_utf8_validate\<close> says of a string is at most its length, and no zero byte is valid.\<close>

definition utf8_checks :: "tag_env \<Rightarrow> bool" where
  "utf8_checks E \<longleftrightarrow> (\<forall>s. te_validate E s \<le> length s \<and> (NUL \<in> set s \<longrightarrow> te_validate E s < length s))"

text \<open>Values that are stored as they are.\<close>

definition clean_value :: "tag_env \<Rightarrow> string \<Rightarrow> bool" where
  "clean_value E v \<longleftrightarrow> v \<noteq> [] \<and> te_validate E v = length v \<and> list_all (\<lambda>c. \<not> char_is_non_printable c) v"

lemma fix_tag_value_clean: "clean_value E v \<Longrightarrow> fix_tag_value E v = Some None"
  by (auto simp: clean_value_def fix_tag_value_def fix_utf8_def clear_non_printable_def list_ex_iff list_all_iff)

lemma NUL_non_printable [simp]: "char_is_non_printable NUL"
  by (simp add: char_is_non_printable_def)

lemma NUL_c_str [simp]: "NUL \<notin> set (c_str s)"
  by (auto simp: c_str_def dest: set_takeWhileD)

lemma fix_tag_value_ok:
  assumes "utf8_checks E" "te_validate E v = length v \<or> te_convert E v \<noteq> None"
  shows "\<exists>p. fix_tag_value E v = Some p \<and>
    (let w = (case p of None \<Rightarrow> v | Some p \<Rightarrow> p) in list_all (\<lambda>c. \<not> char_is_non_printable c) w)"
proof -
  have "NUL \<notin> set v" if "te_validate E v = length v" using that assms(1) by (metis utf8_checks_def order_less_irrefl)
  with assms(2) show ?thesis
    by (auto simp: fix_tag_value_def fix_utf8_def clear_non_printable_def list_ex_iff list_all_iff Let_def
      char_is_non_printable_def split: option.splits)
qed

lemma tag_add_item_clean:
  assumes "lib_ok lib" "type \<noteq> TAG_NUM_OF_ITEM_TYPES" "\<not> tl_ignore lib ! tag_type_number type" "clean_value E v"
    "tag_bulk tag \<longrightarrow> tl_busy lib \<and> length (tag_items tag) \<le> BULK_MAX"
  shows "\<exists>item pool. tag_add_item_n E lib tag type v =
      Some (lib\<lparr>tl_pool := pool\<rparr>, tag\<lparr>tag_items := tag_items tag @ [item],
        tag_bulk := tag_bulk tag \<and> Suc (length (tag_items tag)) < BULK_MAX\<rparr>) \<and>
    pool_ok pool \<and> item_contents item = (type, v) \<and> pool_refs pool = add_mset item (lib_refs lib)"
proof -
  obtain item pool where "tag_pool_get_item type v (tl_pool lib) = Some (item, pool)" "pool_ok pool"
    "ti_type item = type" "ti_value item = v" "pool_refs pool = add_mset item (lib_refs lib)"
    using tag_pool_get_item_ok [of "tl_pool lib"] assms(1) unfolding lib_ok_def by blast
  then show ?thesis
    using assms tag_types_number(3) [OF assms(2)]
    by (intro exI [of _ item] exI [of _ pool])
      (simp add: tag_add_item_n_def tag_add_item_internal_def fix_tag_value_clean lib_ok_def item_contents_def
        Let_def clean_value_def not_le)
qed

text \<open>Copying, merging and freeing.\<close>

lemma tag_free_frees:
  assumes "lib_ok lib" "mset (tag_items tag) \<subseteq># lib_refs lib" "tag_bulk tag \<longrightarrow> tl_busy lib"
  shows "\<exists>lib'. tag_free lib tag = Some lib' \<and> lib_ok lib' \<and> tl_ignore lib' = tl_ignore lib \<and>
    lib_refs lib = mset (tag_items tag) + lib_refs lib'"
proof -
  obtain p where "for_each tag_pool_put_item (rev (tag_items tag)) (tl_pool lib) = Some p" "pool_ok p"
    "lib_refs lib = mset (tag_items tag) + pool_refs p"
    using tp.put_all [of "tl_pool lib" "rev (tag_items tag)"] assms by (auto simp: lib_ok_def)
  with assms show ?thesis by (cases "tag_bulk tag") (simp_all add: tag_free_def lib_ok_def Let_def)
qed

lemma tag_dup_copies:
  assumes "lib_ok lib" "set (tag_items tag) \<subseteq> set_mset (lib_refs lib)"
  shows "\<exists>lib' tag'. tag_dup lib (Some tag) = Some (lib', Some tag') \<and> lib_ok lib' \<and> tl_ignore lib' = tl_ignore lib \<and>
    tag_view tag' = tag_view tag \<and> tag_time tag' = tag_time tag \<and> tag_has_playlist tag' = tag_has_playlist tag \<and>
    lib_refs lib' = mset (tag_items tag') + lib_refs lib"
proof -
  obtain "is" p where "map_thread tag_pool_dup_item (tag_items tag) (tl_pool lib) = Some (is, p)" "pool_ok p"
    "map item_contents is = tag_view tag" "pool_refs p = mset is + lib_refs lib"
    using tp.dup_all [of "tl_pool lib" "tag_items tag"] assms by (auto simp: lib_ok_def tag_view_def)
  with assms(1) show ?thesis by (auto simp: tag_dup_def lib_ok_def tag_view_def)
qed

lemma tag_has_type_iff:
  "t \<noteq> TAG_NUM_OF_ITEM_TYPES \<Longrightarrow> tag_has_type tag t = Some (t \<in> fst ` set (tag_view tag))"
  using find_None_iff [of "\<lambda>i. ti_type i = t" "tag_items tag"]
  by (auto simp: tag_has_type_def tag_get_value_def tag_view_def item_contents_def image_iff simp del: not_None_eq)

definition types_ok :: "tag \<Rightarrow> bool" where
  "types_ok tag \<longleftrightarrow> TAG_NUM_OF_ITEM_TYPES \<notin> fst ` set (tag_view tag)"

lemma merge_loop_ok:
  assumes "pool_ok p" "set base \<subseteq> set_mset (pool_refs p)" "TAG_NUM_OF_ITEM_TYPES \<notin> ti_type ` set base"
  shows "\<exists>is p'. merge_loop add base p = Some (is, p') \<and> pool_ok p' \<and>
    map item_contents is = filter (\<lambda>(t, v). t \<notin> fst ` set (tag_view add)) (map item_contents base) \<and>
    pool_refs p' = mset is + pool_refs p"
  using assms
proof (induction base arbitrary: p)
  case (Cons i base)
  show ?case
  proof (cases "ti_type i \<in> fst ` set (tag_view add)")
    case True
    then have "tag_has_type add (ti_type i) = Some True" using Cons.prems by (subst tag_has_type_iff) auto
    with True Cons.IH [of p] Cons.prems show ?thesis by (simp add: item_contents_def)
  next
    case False
    obtain i' p' where i': "tag_pool_dup_item i p = Some (i', p')" "pool_ok p'" "item_contents i' = item_contents i"
      "pool_refs p' = add_mset i' (pool_refs p)"
      using tp.dup_one [of p i] Cons.prems by auto
    moreover have "set base \<subseteq> set_mset (pool_refs p')" using i'(4) Cons.prems by auto
    moreover have "tag_has_type add (ti_type i) = Some False" using Cons.prems False by (subst tag_has_type_iff) auto
    ultimately show ?thesis using False Cons.IH [of p'] Cons.prems(3) by (auto simp: item_contents_def)
  qed
qed simp

lemma tag_merge_ok:
  assumes "lib_ok lib" "set (tag_items base) \<union> set (tag_items add) \<subseteq> set_mset (lib_refs lib)" "types_ok base"
  shows "\<exists>lib' tag. tag_merge lib base add = Some (lib', tag) \<and> lib_ok lib' \<and> tl_ignore lib' = tl_ignore lib \<and> tl_busy lib' = tl_busy lib \<and>
    tag_view tag = tag_view add @ filter (\<lambda>(t, v). t \<notin> fst ` set (tag_view add)) (tag_view base) \<and>
    tag_time tag = (if 0 < tag_time add then tag_time add else tag_time base) \<and>
    \<not> tag_has_playlist tag \<and> \<not> tag_bulk tag \<and> lib_refs lib' = mset (tag_items tag) + lib_refs lib"
proof -
  obtain is1 p1 where 1: "map_thread tag_pool_dup_item (tag_items add) (tl_pool lib) = Some (is1, p1)" "pool_ok p1"
    "map item_contents is1 = tag_view add" "pool_refs p1 = mset is1 + lib_refs lib"
    using tp.dup_all [of "tl_pool lib" "tag_items add"] assms by (auto simp: lib_ok_def tag_view_def)
  obtain is2 p2 where 2: "merge_loop add (tag_items base) p1 = Some (is2, p2)" "pool_ok p2"
    "map item_contents is2 = filter (\<lambda>(t, v). t \<notin> fst ` set (tag_view add)) (tag_view base)"
    "pool_refs p2 = mset is2 + pool_refs p1"
    using merge_loop_ok [OF 1(2), of "tag_items base" add] assms 1(4)
    by (auto simp: tag_view_def types_ok_def item_contents_def image_image)
  have "length is1 = length (tag_items add)" using 1(3) by (metis length_map tag_view_def)
  moreover have "length is2 \<le> length (tag_items base)"
    using 2(3) by (metis length_filter_le length_map tag_view_def)
  moreover have "length is2 = length (tag_items base)" if "tag_items add = []"
    using 2(3) that by (metis (mono_tags, lifting) case_prodI2 empty_iff filter_True image_empty length_map list.map(1) list.set(1) tag_view_def)
  ultimately have "length is2 < length (tag_items base) \<longrightarrow> is1 = [] \<longrightarrow> is2 \<noteq> []" "length is1 = length (tag_items add)"
    "length is2 \<le> length (tag_items base)" by auto
  with 1 2 assms(1) show ?thesis
    by (simp add: tag_merge_def Let_def lib_ok_def tag_view_def tag_new_def)
qed

section \<open>The metadata setting\<close>

text \<open>Names separated by single commas.\<close>

fun comma_list :: "string list \<Rightarrow> string" where
  "comma_list [] = []"
| "comma_list [n] = n"
| "comma_list (n # ns) = n @ CHR '','' # comma_list ns"

definition name_ok :: "tag_env \<Rightarrow> string \<Rightarrow> bool" where
  "name_ok E n \<longleftrightarrow> n \<noteq> [] \<and> CHR '','' \<notin> set n \<and> NUL \<notin> set n \<and> te_strstrip E n \<noteq> [] \<and>
     tag_name_parse_i E (te_strstrip E n) \<noteq> TAG_NUM_OF_ITEM_TYPES"

definition use_types :: "tag_env \<Rightarrow> string list \<Rightarrow> bool list \<Rightarrow> bool list" where
  "use_types E ns ignore =
     foldl (\<lambda>ignore n. ignore[tag_type_number (tag_name_parse_i E (te_strstrip E n)) := False]) ignore ns"

lemma metadata_scan:
  assumes "\<forall>x \<in> set rest. x \<noteq> CHR '','' \<and> x \<noteq> NUL"
  shows "metadata_loop E (pre @ rest @ tail) c (length pre) ignore =
    metadata_loop E (pre @ rest @ tail) c (length pre + length rest) ignore"
  using assms
proof (induction rest arbitrary: pre)
  case (Cons x rest)
  then have "metadata_loop E (pre @ (x # rest) @ tail) c (length pre) ignore =
      metadata_loop E ((pre @ [x]) @ rest @ tail) c (length (pre @ [x])) ignore"
    by (subst metadata_loop.simps) (simp add: nth_append)
  also have "\<dots> = metadata_loop E ((pre @ [x]) @ rest @ tail) c (length (pre @ [x]) + length rest) ignore"
    using Cons.prems by (intro Cons.IH) simp
  finally show ?case by simp
qed simp

lemma c_str_append: "NUL \<notin> set n \<Longrightarrow> c_str (n @ NUL # rest) = n"
  by (simp add: c_str_def takeWhile_append)

lemma metadata_name:
  assumes "name_ok E n" "k \<le> length n" "sep = CHR '','' \<or> sep = NUL"
  shows "metadata_loop E (pre @ n @ sep # tail) (length pre) (length pre + k) ignore =
    (if sep = NUL then Some (Inr (use_types E [n] ignore))
     else metadata_loop E ((pre @ n @ [NUL]) @ tail) (length (pre @ n @ [NUL])) (length (pre @ n @ [NUL]) + 1) (use_types E [n] ignore))"
proof -
  have "metadata_loop E ((pre @ take k n) @ drop k n @ sep # tail) (length pre) (length (pre @ take k n)) ignore =
      metadata_loop E ((pre @ take k n) @ drop k n @ sep # tail) (length pre) (length (pre @ take k n) + length (drop k n)) ignore"
    using assms(1) by (intro metadata_scan) (auto simp: name_ok_def dest: in_set_dropD)
  moreover have "pre @ take k n @ drop k n @ sep # tail = pre @ n @ sep # tail"
    by (metis append_assoc append_take_drop_id)
  ultimately have "metadata_loop E (pre @ n @ sep # tail) (length pre) (length pre + k) ignore =
      metadata_loop E (pre @ n @ sep # tail) (length pre) (length pre + length n) ignore"
    using assms(2) by simp
  also have "\<dots> = (if sep = NUL then Some (Inr (use_types E [n] ignore))
     else metadata_loop E ((pre @ n @ [NUL]) @ tail) (length (pre @ n @ [NUL])) (length (pre @ n @ [NUL]) + 1) (use_types E [n] ignore))"
    using assms(1,3) c_str_append [of n tail]
    by (subst metadata_loop.simps) (auto simp: nth_append list_update_append name_ok_def use_types_def Let_def)
  finally show ?thesis .
qed

lemma metadata_names:
  assumes "ns \<noteq> []" "list_all (name_ok E) ns" "k \<le> 1"
  shows "metadata_loop E (pre @ comma_list ns @ [NUL]) (length pre) (length pre + k) ignore = Some (Inr (use_types E ns ignore))"
    and "metadata_loop E (pre @ comma_list ns @ [CHR '','', NUL]) (length pre) (length pre + k) ignore = None"
proof -
  have k: "k \<le> length n" if "name_ok E n" "k \<le> 1" for n k using that by (cases n) (auto simp: name_ok_def)
  show "metadata_loop E (pre @ comma_list ns @ [NUL]) (length pre) (length pre + k) ignore = Some (Inr (use_types E ns ignore))"
    using assms
  proof (induction ns arbitrary: pre k ignore rule: comma_list.induct)
    case (2 n)
    then show ?case using metadata_name [of E n k NUL pre "[]" ignore] k by simp
  next
    case (3 n m ns)
    from 3 show ?case using metadata_name [of E n k "CHR '',''" pre "comma_list (m # ns) @ [NUL]" ignore] k
      "3.IH" [of 1 "pre @ n @ [NUL]" "use_types E [n] ignore"] by (simp add: use_types_def)
  qed simp
  show "metadata_loop E (pre @ comma_list ns @ [CHR '','', NUL]) (length pre) (length pre + k) ignore = None"
    using assms
  proof (induction ns arbitrary: pre k ignore rule: comma_list.induct)
    case (2 n)
    then show ?case using metadata_name [of E n k "CHR '',''" pre "[NUL]" ignore] k
      by (simp add: metadata_loop.simps [of _ _ _ "Suc (Suc _)"])
  next
    case (3 n m ns)
    from 3 show ?case using metadata_name [of E n k "CHR '',''" pre "comma_list (m # ns) @ [CHR '','', NUL]" ignore] k
      "3.IH" [of 1 "pre @ n @ [NUL]" "use_types E [n] ignore"] by simp
  qed simp
qed

lemma use_types_nth:
  "length ignore = 18 \<Longrightarrow> list_all (name_ok E) ns \<Longrightarrow> t \<noteq> TAG_NUM_OF_ITEM_TYPES \<Longrightarrow>
   use_types E ns ignore ! tag_type_number t \<longleftrightarrow>
     ignore ! tag_type_number t \<and> t \<notin> (\<lambda>n. tag_name_parse_i E (te_strstrip E n)) ` set ns"
proof (induction ns arbitrary: ignore)
  case (Cons n ns)
  have "tag_type_number t' = tag_type_number t \<longleftrightarrow> t' = t" if "t' \<noteq> TAG_NUM_OF_ITEM_TYPES" for t'
    using that Cons.prems(3) tag_types_number(2) by metis
  with Cons.prems Cons.IH [of "ignore[tag_type_number (tag_name_parse_i E (te_strstrip E n)) := False]"] show ?case
    by (auto simp: use_types_def nth_list_update name_ok_def tag_types_number(3))
qed (simp add: use_types_def)

end
