(* ===== verification/Song.thy ===== *)
theory Song
  imports Tag Complex_Main
begin

text \<open>
  Songs, from \<^verbatim>\<open>src/song.h\<close> and \<^verbatim>\<open>src/song.c\<close>, with the part of \<^verbatim>\<open>struct directory\<close> they use.

  The code handles songs by pointer and compares them by pointer, so a song carries the address of
  its allocation (\<open>s_addr\<close>) and \<open>song_same\<close> is the comparison of two pointers.
\<close>

record directory =
  dir_path :: string
  dir_has_parent :: bool

record song =
  s_addr :: nat
  s_tag :: "tag option"
  s_parent :: "directory option"
  s_mtime :: int
  s_start_ms :: u32
  s_end_ms :: u32
  s_uri :: string

text \<open>The contents of a zeroed song pointer: no object is allocated at address 0.\<close>

definition null_song :: song where
  "null_song = \<lparr>s_addr = 0, s_tag = None, s_parent = None, s_mtime = 0,
     s_start_ms = 0, s_end_ms = 0, s_uri = []\<rparr>"

definition song_same :: "song \<Rightarrow> song \<Rightarrow> bool" where
  "song_same a b \<longleftrightarrow> s_addr a = s_addr b"

text \<open>Pointer comparison where either pointer may be \<^verbatim>\<open>NULL\<close>.\<close>

fun song_same_opt :: "song option \<Rightarrow> song option \<Rightarrow> bool" where
  "song_same_opt None None = True"
| "song_same_opt (Some a) (Some b) = song_same a b"
| "song_same_opt _ _ = False"

definition directory_is_root :: "directory \<Rightarrow> bool" where
  "directory_is_root d \<longleftrightarrow> \<not> dir_has_parent d"

definition directory_get_path :: "directory \<Rightarrow> string" where
  "directory_get_path d = dir_path d"

definition song_in_database :: "song \<Rightarrow> bool" where
  "song_in_database s \<longleftrightarrow> s_parent s \<noteq> None"

definition song_is_file :: "song \<Rightarrow> bool" where
  "song_is_file s \<longleftrightarrow> song_in_database s \<or> (s_uri s \<noteq> [] \<and> hd (s_uri s) = CHR ''/'')"

text \<open>\<open>addr\<close> is the address the allocation returned.\<close>

definition song_alloc :: "nat \<Rightarrow> string \<Rightarrow> directory option \<Rightarrow> song option" where
  "song_alloc addr uri parent = do {
     assert_that (uri \<noteq> []);
     Some \<lparr>s_addr = addr, s_tag = None, s_parent = parent, s_mtime = 0,
       s_start_ms = 0, s_end_ms = 0, s_uri = uri\<rparr>
   }"

definition song_remote_new :: "nat \<Rightarrow> string \<Rightarrow> song option" where
  "song_remote_new addr uri = song_alloc addr uri None"

definition song_file_new :: "nat \<Rightarrow> string \<Rightarrow> directory option \<Rightarrow> song option" where
  "song_file_new addr path parent = do {
     assert_that ((parent = None) = (path \<noteq> [] \<and> hd path = CHR ''/''));
     song_alloc addr path parent
   }"

definition song_replace_uri :: "nat \<Rightarrow> song \<Rightarrow> string \<Rightarrow> song option" where
  "song_replace_uri addr old_song uri = do {
     new_song \<leftarrow> song_alloc addr uri (s_parent old_song);
     Some (new_song\<lparr>s_tag := s_tag old_song, s_mtime := s_mtime old_song,
       s_start_ms := s_start_ms old_song, s_end_ms := s_end_ms old_song\<rparr>)
   }"

definition song_free :: "tag_lib \<Rightarrow> song \<Rightarrow> tag_lib option" where
  "song_free lib song = (case s_tag song of None \<Rightarrow> Some lib | Some tag \<Rightarrow> tag_free lib tag)"

text \<open>\<^verbatim>\<open>build_db_filename\<close> with two components joins them with a slash.\<close>

definition build_db_filename :: "string \<Rightarrow> string \<Rightarrow> string" where
  "build_db_filename c1 c2 = c1 @ ''/'' @ c2"

definition song_get_uri :: "song \<Rightarrow> string option" where
  "song_get_uri s = do {
     assert_that (s_uri s \<noteq> []);
     Some (case s_parent s of
       None \<Rightarrow> s_uri s
     | Some d \<Rightarrow> if directory_is_root d then s_uri s
                 else build_db_filename (directory_get_path d) (s_uri s))
   }"

text \<open>
  The play time in seconds.  The difference of the two millisecond marks is an \<^verbatim>\<open>unsigned\<close>
  subtraction; the quotients, which the code computes in \<^verbatim>\<open>double\<close>, are exact here.
\<close>

definition song_get_duration :: "song \<Rightarrow> real" where
  "song_get_duration s =
     (if s_end_ms s > 0 then of_nat (unat (s_end_ms s - s_start_ms s)) / 1000
      else case s_tag s of
        None \<Rightarrow> 0
      | Some t \<Rightarrow> of_int (tag_time t) - of_nat (unat (s_start_ms s)) / 1000)"

lemma song_same_refl [simp]: "song_same a a"
  by (simp add: song_same_def)

lemma song_same_opt_None [simp]:
  "song_same_opt None b \<longleftrightarrow> b = None" "song_same_opt a None \<longleftrightarrow> a = None"
  by (cases b; simp) (cases a; simp)

lemma song_same_opt_refl [simp]: "song_same_opt a a"
  by (cases a) simp_all

lemma song_alloc_in_database:
  "song_alloc addr uri parent = Some s \<Longrightarrow> song_in_database s \<longleftrightarrow> parent \<noteq> None"
  by (auto simp: song_alloc_def song_in_database_def bind_eq_Some_conv)

end
