(* ===== verification/Playqueue.thy ===== *)
theory Playqueue
  imports Song
begin

text \<open>
  The song queue of \<^verbatim>\<open>src/playqueue.h\<close> and \<^verbatim>\<open>src/playqueue.c\<close>: its state and all of its
  operations.  The three heap arrays of \<^verbatim>\<open>struct queue\<close> are lists of the length that was allocated
  for them; only their first \<open>q_length\<close> entries are in use.  Positions, order numbers and song ids
  are \<open>nat\<close>, version numbers and priorities are machine words.

  glib is a parameter: \<open>g_rand_int_range\<close> and \<open>g_qsort_with_data\<close> are the two functions the queue
  calls, and \<open>glib_ok\<close> states what their documentation promises.
\<close>

section \<open>State\<close>

abbreviation QUEUE_HASH_MULT :: nat where
  "QUEUE_HASH_MULT \<equiv> 4"

record queue_item =
  qi_song :: song
  qi_id :: nat
  qi_version :: u32
  qi_priority :: u8

text \<open>
  \<open>q_cur\<close> is the static variable of \<^verbatim>\<open>queue_generate_id\<close>.  \<open>q_freed\<close> logs the songs passed to
  \<^verbatim>\<open>song_free\<close>, the effect of the operations on memory they do not own any more.
\<close>

record 'g queue =
  q_max_length :: nat
  q_length :: nat
  q_version :: u32
  q_items :: "queue_item list"
  q_order :: "nat list"
  q_id_to_position :: "int list"
  q_repeat :: bool
  q_single :: bool
  q_consume :: bool
  q_random :: bool
  q_rand :: 'g
  q_cur :: nat
  q_freed :: "song list"

record 'g glib =
  g_rand_int_range :: "'g \<Rightarrow> nat \<Rightarrow> nat \<Rightarrow> nat \<times> 'g"
  g_qsort_with_data :: "(nat \<Rightarrow> nat \<Rightarrow> int) \<Rightarrow> nat list \<Rightarrow> nat list"

text \<open>
  What the glib documentation says of them: a random number of the half-open range; a sorting
  routine, for a comparison function that is a total preorder.
\<close>

definition total_preorder :: "(nat \<Rightarrow> nat \<Rightarrow> int) \<Rightarrow> bool" where
  "total_preorder cmp \<longleftrightarrow>
     (\<forall>a b. cmp a b \<le> 0 \<or> cmp b a \<le> 0) \<and>
     (\<forall>a b c. cmp a b \<le> 0 \<longrightarrow> cmp b c \<le> 0 \<longrightarrow> cmp a c \<le> 0)"

definition glib_ok :: "'g glib \<Rightarrow> bool" where
  "glib_ok G \<longleftrightarrow>
     (\<forall>r a b. a < b \<longrightarrow> a \<le> fst (g_rand_int_range G r a b) \<and> fst (g_rand_int_range G r a b) < b) \<and>
     (\<forall>cmp xs. total_preorder cmp \<longrightarrow>
        mset (g_qsort_with_data G cmp xs) = mset xs \<and>
        sorted_wrt (\<lambda>a b. cmp a b \<le> 0) (g_qsort_with_data G cmp xs))"

section \<open>Queries\<close>

definition queue_length :: "'g queue \<Rightarrow> nat option" where
  "queue_length q = do {
     assert_that (q_length q \<le> q_max_length q);
     Some (q_length q)
   }"

definition queue_is_empty :: "'g queue \<Rightarrow> bool" where
  "queue_is_empty q \<longleftrightarrow> q_length q = 0"

definition queue_is_full :: "'g queue \<Rightarrow> bool option" where
  "queue_is_full q = do {
     assert_that (q_length q \<le> q_max_length q);
     Some (q_max_length q \<le> q_length q)
   }"

definition queue_valid_position :: "'g queue \<Rightarrow> nat \<Rightarrow> bool" where
  "queue_valid_position q position \<longleftrightarrow> position < q_length q"

definition queue_valid_order :: "'g queue \<Rightarrow> nat \<Rightarrow> bool" where
  "queue_valid_order q ord \<longleftrightarrow> ord < q_length q"

definition queue_id_to_position :: "'g queue \<Rightarrow> nat \<Rightarrow> int option" where
  "queue_id_to_position q sid =
     (if q_max_length q * QUEUE_HASH_MULT \<le> sid then Some (-1)
      else do {
        p \<leftarrow> aget (q_id_to_position q) sid;
        assert_that (-1 \<le> p);
        assert_that (p < int (q_length q));
        Some p
      })"

definition queue_position_to_id :: "'g queue \<Rightarrow> nat \<Rightarrow> nat option" where
  "queue_position_to_id q position = do {
     assert_that (position < q_length q);
     item \<leftarrow> aget (q_items q) position;
     Some (qi_id item)
   }"

definition queue_order_to_position :: "'g queue \<Rightarrow> nat \<Rightarrow> nat option" where
  "queue_order_to_position q ord = do {
     assert_that (ord < q_length q);
     aget (q_order q) ord
   }"

text \<open>The search loop of \<^verbatim>\<open>queue_position_to_order\<close>; its assertion fails at the end of the queue.\<close>

function position_to_order_from :: "'g queue \<Rightarrow> nat \<Rightarrow> nat \<Rightarrow> nat option" where
  "position_to_order_from q position i =
     (if i < q_length q then do {
        p \<leftarrow> aget (q_order q) i;
        if p = position then Some i else position_to_order_from q position (Suc i)
      }
      else None)"
  by pat_completeness auto
termination
  by (relation "measure (\<lambda>(q, position, i). q_length q - i)") auto

definition queue_position_to_order :: "'g queue \<Rightarrow> nat \<Rightarrow> nat option" where
  "queue_position_to_order q position = do {
     assert_that (position < q_length q);
     position_to_order_from q position 0
   }"

definition queue_get_priority_at_position :: "'g queue \<Rightarrow> nat \<Rightarrow> u8 option" where
  "queue_get_priority_at_position q position = do {
     assert_that (position < q_length q);
     item \<leftarrow> aget (q_items q) position;
     Some (qi_priority item)
   }"

definition queue_get :: "'g queue \<Rightarrow> nat \<Rightarrow> song option" where
  "queue_get q position = do {
     assert_that (position < q_length q);
     item \<leftarrow> aget (q_items q) position;
     Some (qi_song item)
   }"

definition queue_get_order :: "'g queue \<Rightarrow> nat \<Rightarrow> song option" where
  "queue_get_order q ord = queue_order_to_position q ord \<bind> queue_get q"

definition queue_song_newer :: "'g queue \<Rightarrow> nat \<Rightarrow> u32 \<Rightarrow> bool option" where
  "queue_song_newer q position version = do {
     assert_that (position < q_length q);
     item \<leftarrow> aget (q_items q) position;
     Some (q_version q < version \<or> version \<le> qi_version item \<or> qi_version item = 0)
   }"

text \<open>The order number to play next; \<open>-1\<close> stops playback.\<close>

definition queue_next_order :: "'g queue \<Rightarrow> nat \<Rightarrow> int option" where
  "queue_next_order q ord = do {
     assert_that (ord < q_length q);
     Some (if q_single q \<and> q_repeat q \<and> \<not> q_consume q then int ord
           else if ord + 1 < q_length q then int ord + 1
           else if q_repeat q \<and> (0 < ord \<or> \<not> q_consume q) then 0
           else -1)
   }"

section \<open>Construction and destruction\<close>

definition zero_item :: queue_item where
  "zero_item = \<lparr>qi_song = null_song, qi_id = 0, qi_version = 0, qi_priority = 0\<rparr>"

text \<open>
  \<open>order_mem\<close> is what the fresh memory of the order array holds, \<open>rand\<close> the generator that
  \<^verbatim>\<open>g_rand_new\<close> returned; \<open>cur\<close> is the value of the static id counter.
\<close>

definition queue_init :: "nat list \<Rightarrow> 'g \<Rightarrow> nat \<Rightarrow> nat \<Rightarrow> 'g queue" where
  "queue_init order_mem rand cur max_length =
     \<lparr>q_max_length = max_length, q_length = 0, q_version = 1,
      q_items = replicate max_length zero_item, q_order = order_mem,
      q_id_to_position = replicate (max_length * QUEUE_HASH_MULT) (-1),
      q_repeat = False, q_single = False, q_consume = False, q_random = False,
      q_rand = rand, q_cur = cur, q_freed = []\<rparr>"

definition song_free_if_unowned :: "song \<Rightarrow> 'g queue \<Rightarrow> 'g queue" where
  "song_free_if_unowned s q = (if song_in_database s then q else q\<lparr>q_freed := q_freed q @ [s]\<rparr>)"

definition queue_clear_item :: "nat \<Rightarrow> 'g queue \<Rightarrow> 'g queue option" where
  "queue_clear_item i q = do {
     item \<leftarrow> aget (q_items q) i;
     ids \<leftarrow> aset (q_id_to_position q) (qi_id item) (-1);
     Some (song_free_if_unowned (qi_song item) q\<lparr>q_id_to_position := ids\<rparr>)
   }"

definition queue_clear :: "'g queue \<Rightarrow> 'g queue option" where
  "queue_clear q = do {
     q \<leftarrow> for_each queue_clear_item [0..<q_length q] q;
     Some (q\<lparr>q_length := 0\<rparr>)
   }"

section \<open>Version numbers\<close>

definition reset_version :: "nat \<Rightarrow> 'g queue \<Rightarrow> 'g queue option" where
  "reset_version i q = do {
     item \<leftarrow> aget (q_items q) i;
     items \<leftarrow> aset (q_items q) i (item\<lparr>qi_version := 0\<rparr>);
     Some (q\<lparr>q_items := items\<rparr>)
   }"

definition queue_increment_version :: "'g queue \<Rightarrow> 'g queue option" where
  "queue_increment_version q =
     (let q = q\<lparr>q_version := q_version q + 1\<rparr> in
      if 0x7fffffff \<le> q_version q then do {
        q \<leftarrow> for_each reset_version [0..<q_length q] q;
        Some (q\<lparr>q_version := 1\<rparr>)
      }
      else Some q)"

definition touch_item :: "nat \<Rightarrow> 'g queue \<Rightarrow> 'g queue option" where
  "touch_item i q = do {
     item \<leftarrow> aget (q_items q) i;
     items \<leftarrow> aset (q_items q) i (item\<lparr>qi_version := q_version q\<rparr>);
     Some (q\<lparr>q_items := items\<rparr>)
   }"

definition queue_modify :: "'g queue \<Rightarrow> nat \<Rightarrow> 'g queue option" where
  "queue_modify q ord = do {
     assert_that (ord < q_length q);
     position \<leftarrow> aget (q_order q) ord;
     q \<leftarrow> touch_item position q;
     queue_increment_version q
   }"

definition queue_modify_all :: "'g queue \<Rightarrow> 'g queue option" where
  "queue_modify_all q = do {
     q \<leftarrow> for_each touch_item [0..<q_length q] q;
     queue_increment_version q
   }"

section \<open>Adding and moving songs\<close>

text \<open>
  The search of \<^verbatim>\<open>queue_generate_id\<close> for an unused id.  It runs for ever when every id is in use;
  that there is always a free one is a theorem below.
\<close>

partial_function (option) generate_id_loop :: "nat \<Rightarrow> int list \<Rightarrow> nat \<Rightarrow> nat option" where
  "generate_id_loop limit table cur =
     (let cur = (cur + 1) mod 2 ^ 32; cur = (if limit \<le> cur then 0 else cur) in
      aget table cur \<bind> (\<lambda>p. if p \<noteq> -1 then generate_id_loop limit table cur else Some cur))"

definition queue_generate_id :: "'g queue \<Rightarrow> nat option" where
  "queue_generate_id q =
     generate_id_loop (q_max_length q * QUEUE_HASH_MULT) (q_id_to_position q) (q_cur q)"

definition queue_append :: "'g queue \<Rightarrow> song \<Rightarrow> u8 \<Rightarrow> (nat \<times> 'g queue) option" where
  "queue_append q song priority = do {
     sid \<leftarrow> queue_generate_id q;
     full \<leftarrow> queue_is_full q;
     assert_that (\<not> full);
     items \<leftarrow> aset (q_items q) (q_length q)
       \<lparr>qi_song = song, qi_id = sid, qi_version = q_version q, qi_priority = priority\<rparr>;
     ord \<leftarrow> aset (q_order q) (q_length q) (q_length q);
     ids \<leftarrow> aset (q_id_to_position q) sid (int (q_length q));
     Some (sid, q\<lparr>q_items := items, q_order := ord, q_id_to_position := ids,
                 q_length := q_length q + 1, q_cur := sid\<rparr>)
   }"

definition queue_swap :: "'g queue \<Rightarrow> nat \<Rightarrow> nat \<Rightarrow> 'g queue option" where
  "queue_swap q position1 position2 = do {
     item1 \<leftarrow> aget (q_items q) position1;
     item2 \<leftarrow> aget (q_items q) position2;
     items \<leftarrow> aset (q_items q) position1 item2;
     items \<leftarrow> aset items position2 item1;
     q \<leftarrow> touch_item position1 (q\<lparr>q_items := items\<rparr>);
     q \<leftarrow> touch_item position2 q;
     ids \<leftarrow> aset (q_id_to_position q) (qi_id item1) (int position2);
     ids \<leftarrow> aset ids (qi_id item2) (int position1);
     Some (q\<lparr>q_id_to_position := ids\<rparr>)
   }"

definition queue_swap_order :: "'g queue \<Rightarrow> nat \<Rightarrow> nat \<Rightarrow> 'g queue option" where
  "queue_swap_order q order1 order2 = do {
     tmp \<leftarrow> aget (q_order q) order1;
     p2 \<leftarrow> aget (q_order q) order2;
     ord \<leftarrow> aset (q_order q) order1 p2;
     ord \<leftarrow> aset ord order2 tmp;
     Some (q\<lparr>q_order := ord\<rparr>)
   }"

definition queue_move_song_to :: "'g queue \<Rightarrow> nat \<Rightarrow> nat \<Rightarrow> 'g queue option" where
  "queue_move_song_to q from to = do {
     item \<leftarrow> aget (q_items q) from;
     items \<leftarrow> aset (q_items q) to (item\<lparr>qi_version := q_version q\<rparr>);
     ids \<leftarrow> aset (q_id_to_position q) (qi_id item) (int to);
     Some (q\<lparr>q_items := items, q_id_to_position := ids\<rparr>)
   }"

text \<open>Writing a saved item back: \<^verbatim>\<open>id_to_position[item.id] = to; items[to] = item\<close>.\<close>

definition queue_put_item :: "'g queue \<Rightarrow> queue_item \<Rightarrow> nat \<Rightarrow> 'g queue option" where
  "queue_put_item q item to = do {
     ids \<leftarrow> aset (q_id_to_position q) (qi_id item) (int to);
     items \<leftarrow> aset (q_items q) to (item\<lparr>qi_version := q_version q\<rparr>);
     Some (q\<lparr>q_items := items, q_id_to_position := ids\<rparr>)
   }"

text \<open>The loops \<^verbatim>\<open>for (i = 0; i < queue->length; i++)\<close> that rewrite each entry of the order array.\<close>

definition map_order :: "(nat \<Rightarrow> nat) \<Rightarrow> 'g queue \<Rightarrow> 'g queue option" where
  "map_order f q = for_each (\<lambda>i q. do {
     p \<leftarrow> aget (q_order q) i;
     ord \<leftarrow> aset (q_order q) i (f p);
     Some (q\<lparr>q_order := ord\<rparr>)
   }) [0..<q_length q] q"

definition move_position :: "nat \<Rightarrow> nat \<Rightarrow> nat \<Rightarrow> nat" where
  "move_position from to p =
     (if from < p \<and> p \<le> to then p - 1
      else if p < from \<and> to \<le> p then p + 1
      else if from = p then to
      else p)"

definition queue_move :: "'g queue \<Rightarrow> nat \<Rightarrow> nat \<Rightarrow> 'g queue option" where
  "queue_move q from to = do {
     item \<leftarrow> aget (q_items q) from;
     q \<leftarrow> for_each (\<lambda>i q. queue_move_song_to q (i + 1) i) [from..<to] q;
     q \<leftarrow> for_each (\<lambda>i q. queue_move_song_to q (i - 1) i) (rev [to + 1..<from + 1]) q;
     q \<leftarrow> queue_put_item q item to;
     if q_random q then map_order (move_position from to) q else Some q
   }"

definition move_range_position :: "nat \<Rightarrow> nat \<Rightarrow> nat \<Rightarrow> nat \<Rightarrow> nat" where
  "move_range_position start end to p =
     (if end \<le> p \<and> p < to + end - start then p - (end - start)
      else if p < start \<and> to \<le> p then p + (end - start)
      else if start \<le> p \<and> p < end then p + to - start
      else p)"

text \<open>
  The local array \<^verbatim>\<open>items[end - start]\<close> must have a positive size: for \<open>end \<le> start\<close> the size is
  zero or wraps around, and the behaviour of the C code is undefined.
\<close>

definition queue_move_range :: "'g queue \<Rightarrow> nat \<Rightarrow> nat \<Rightarrow> nat \<Rightarrow> 'g queue option" where
  "queue_move_range q start end to = do {
     assert_that (start < end);
     assert_that (end \<le> length (q_items q));
     let items = map (\<lambda>i. q_items q ! i) [start..<end];
     q \<leftarrow> for_each (\<lambda>i q. queue_move_song_to q i (start + i - end)) [end..<end + to - start] q;
     q \<leftarrow> for_each (\<lambda>i q. queue_move_song_to q i (i + end - start)) (rev [to..<start]) q;
     q \<leftarrow> for_each (\<lambda>i q. queue_put_item q (items ! (i - start)) (to + i - start)) [start..<end] q;
     if q_random q then map_order (move_range_position start end to) q else Some q
   }"

definition queue_move_order :: "'g queue \<Rightarrow> nat \<Rightarrow> nat \<Rightarrow> 'g queue option" where
  "queue_move_order q from_order to_order = do {
     assert_that (from_order < q_length q);
     assert_that (to_order \<le> q_length q);
     from_position \<leftarrow> queue_order_to_position q from_order;
     q \<leftarrow> (if from_order < to_order
       then for_each (\<lambda>i q. do {
              p \<leftarrow> aget (q_order q) (i + 1);
              ord \<leftarrow> aset (q_order q) i p;
              Some (q\<lparr>q_order := ord\<rparr>)
            }) [from_order..<to_order] q
       else for_each (\<lambda>i q. do {
              p \<leftarrow> aget (q_order q) (i - 1);
              ord \<leftarrow> aset (q_order q) i p;
              Some (q\<lparr>q_order := ord\<rparr>)
            }) (rev [to_order + 1..<from_order + 1]) q);
     ord \<leftarrow> aset (q_order q) to_order from_position;
     Some (q\<lparr>q_order := ord\<rparr>)
   }"

section \<open>Removing songs\<close>

definition queue_delete :: "'g queue \<Rightarrow> nat \<Rightarrow> 'g queue option" where
  "queue_delete q position = do {
     assert_that (position < q_length q);
     song \<leftarrow> queue_get q position;
     q \<leftarrow> Some (song_free_if_unowned song q);
     sid \<leftarrow> queue_position_to_id q position;
     ord \<leftarrow> queue_position_to_order q position;
     q \<leftarrow> Some (q\<lparr>q_length := q_length q - 1\<rparr>);
     ids \<leftarrow> aset (q_id_to_position q) sid (-1);
     q \<leftarrow> Some (q\<lparr>q_id_to_position := ids\<rparr>);
     q \<leftarrow> for_each (\<lambda>i q. queue_move_song_to q (i + 1) i) [position..<q_length q] q;
     q \<leftarrow> for_each (\<lambda>i q. do {
            p \<leftarrow> aget (q_order q) (i + 1);
            xs \<leftarrow> aset (q_order q) i p;
            Some (q\<lparr>q_order := xs\<rparr>)
          }) [ord..<q_length q] q;
     map_order (\<lambda>p. if position < p then p - 1 else p) q
   }"

section \<open>Play order\<close>

definition queue_restore_order :: "'g queue \<Rightarrow> 'g queue option" where
  "queue_restore_order q = for_each (\<lambda>i q. do {
     ord \<leftarrow> aset (q_order q) i i;
     Some (q\<lparr>q_order := ord\<rparr>)
   }) [0..<q_length q] q"

definition queue_get_order_priority :: "'g queue \<Rightarrow> nat \<Rightarrow> u8 option" where
  "queue_get_order_priority q ord = do {
     assert_that (ord < q_length q);
     position \<leftarrow> aget (q_order q) ord;
     item \<leftarrow> aget (q_items q) position;
     Some (qi_priority item)
   }"

definition queue_item_compare_order_priority :: "'g queue \<Rightarrow> nat \<Rightarrow> nat \<Rightarrow> int" where
  "queue_item_compare_order_priority q ap bp =
     (let a = qi_priority (q_items q ! ap); b = qi_priority (q_items q ! bp) in
      if a = b then 0 else if b < a then -1 else 1)"

definition queue_sort_order_by_priority ::
    "'g glib \<Rightarrow> 'g queue \<Rightarrow> nat \<Rightarrow> nat \<Rightarrow> 'g queue option" where
  "queue_sort_order_by_priority G q start end = do {
     assert_that (q_random q);
     assert_that (start \<le> end);
     assert_that (end \<le> q_length q);
     assert_that (end \<le> length (q_order q));
     let xs = q_order q;
     let seg = take (end - start) (drop start xs);
     assert_that (list_all (\<lambda>p. p < length (q_items q)) seg);
     Some (q\<lparr>q_order := take start xs
       @ g_qsort_with_data G (queue_item_compare_order_priority q) seg
       @ drop end xs\<rparr>)
   }"

text \<open>\<open>queue_rand G q a b\<close> is \<^verbatim>\<open>g_rand_int_range(queue->rand, a, b)\<close>; it needs a non-empty range.\<close>

definition queue_rand :: "'g glib \<Rightarrow> 'g queue \<Rightarrow> nat \<Rightarrow> nat \<Rightarrow> (nat \<times> 'g queue) option" where
  "queue_rand G q a b = do {
     assert_that (a < b);
     let (r, g) = g_rand_int_range G (q_rand q) a b;
     Some (r, q\<lparr>q_rand := g\<rparr>)
   }"

definition queue_shuffle_order_range ::
    "'g glib \<Rightarrow> 'g queue \<Rightarrow> nat \<Rightarrow> nat \<Rightarrow> 'g queue option" where
  "queue_shuffle_order_range G q start end = do {
     assert_that (q_random q);
     assert_that (start \<le> end);
     assert_that (end \<le> q_length q);
     for_each (\<lambda>i q. do {
       (r, q) \<leftarrow> queue_rand G q i end;
       queue_swap_order q i r
     }) [start..<end] q
   }"

text \<open>The loop over the sorted range carries the start and the priority of the current group.\<close>

definition shuffle_group_step ::
    "'g glib \<Rightarrow> nat \<Rightarrow> nat \<times> u8 \<times> 'g queue \<Rightarrow> (nat \<times> u8 \<times> 'g queue) option" where
  "shuffle_group_step G i s = (case s of (group_start, group_priority, q) \<Rightarrow> do {
     priority \<leftarrow> queue_get_order_priority q i;
     assert_that (priority \<le> group_priority);
     if priority \<noteq> group_priority then do {
       q \<leftarrow> queue_shuffle_order_range G q group_start i;
       Some (i, priority, q)
     }
     else Some (group_start, group_priority, q)
   })"

definition queue_shuffle_order_range_with_priority ::
    "'g glib \<Rightarrow> 'g queue \<Rightarrow> nat \<Rightarrow> nat \<Rightarrow> 'g queue option" where
  "queue_shuffle_order_range_with_priority G q start end = do {
     assert_that (q_random q);
     assert_that (start \<le> end);
     assert_that (end \<le> q_length q);
     if start = end then Some q
     else do {
       q \<leftarrow> queue_sort_order_by_priority G q start end;
       group_priority \<leftarrow> queue_get_order_priority q start;
       (group_start, _, q) \<leftarrow>
         for_each (shuffle_group_step G) [start + 1..<end] (start, group_priority, q);
       queue_shuffle_order_range G q group_start end
     }
   }"

definition queue_shuffle_order :: "'g glib \<Rightarrow> 'g queue \<Rightarrow> 'g queue option" where
  "queue_shuffle_order G q = queue_shuffle_order_range_with_priority G q 0 (q_length q)"

definition queue_shuffle_order_first ::
    "'g glib \<Rightarrow> 'g queue \<Rightarrow> nat \<Rightarrow> nat \<Rightarrow> 'g queue option" where
  "queue_shuffle_order_first G q start end = do {
     (r, q) \<leftarrow> queue_rand G q start end;
     queue_swap_order q start r
   }"

definition queue_shuffle_order_last ::
    "'g glib \<Rightarrow> 'g queue \<Rightarrow> nat \<Rightarrow> nat \<Rightarrow> 'g queue option" where
  "queue_shuffle_order_last G q start end = do {
     (r, q) \<leftarrow> queue_rand G q start end;
     queue_swap_order q (end - 1) r
   }"

definition queue_shuffle_range ::
    "'g glib \<Rightarrow> 'g queue \<Rightarrow> nat \<Rightarrow> nat \<Rightarrow> 'g queue option" where
  "queue_shuffle_range G q start end = do {
     assert_that (start \<le> end);
     assert_that (end \<le> q_length q);
     for_each (\<lambda>i q. do {
       (ri, q) \<leftarrow> queue_rand G q i end;
       queue_swap q i ri
     }) [start..<end] q
   }"

section \<open>Priorities\<close>

function find_priority_from :: "'g queue \<Rightarrow> nat \<Rightarrow> u8 \<Rightarrow> nat \<Rightarrow> nat option" where
  "find_priority_from q ord priority exclude_order =
     (if ord < q_length q then do {
        position \<leftarrow> queue_order_to_position q ord;
        item \<leftarrow> aget (q_items q) position;
        if qi_priority item \<le> priority \<and> ord \<noteq> exclude_order then Some ord
        else find_priority_from q (Suc ord) priority exclude_order
      }
      else Some (q_length q))"
  by pat_completeness auto
termination
  by (relation "measure (\<lambda>(q, ord, _). q_length q - ord)") auto

definition queue_find_priority_order :: "'g queue \<Rightarrow> nat \<Rightarrow> u8 \<Rightarrow> nat \<Rightarrow> nat option" where
  "queue_find_priority_order q start_order priority exclude_order = do {
     assert_that (q_random q);
     assert_that (start_order \<le> q_length q);
     find_priority_from q start_order priority exclude_order
   }"

function count_priority_from :: "'g queue \<Rightarrow> nat \<Rightarrow> nat \<Rightarrow> u8 \<Rightarrow> nat option" where
  "count_priority_from q start_order ord priority =
     (if ord < q_length q then do {
        position \<leftarrow> queue_order_to_position q ord;
        item \<leftarrow> aget (q_items q) position;
        if qi_priority item \<noteq> priority then Some (ord - start_order)
        else count_priority_from q start_order (Suc ord) priority
      }
      else Some (q_length q - start_order))"
  by pat_completeness auto
termination
  by (relation "measure (\<lambda>(q, _, ord, _). q_length q - ord)") auto

definition queue_count_same_priority :: "'g queue \<Rightarrow> nat \<Rightarrow> u8 \<Rightarrow> nat option" where
  "queue_count_same_priority q start_order priority = do {
     assert_that (q_random q);
     assert_that (start_order \<le> q_length q);
     count_priority_from q start_order start_order priority
   }"

text \<open>
  The second half of \<^verbatim>\<open>queue_set_priority\<close>: move the item at order number \<open>ord\<close> to its priority
  group and shuffle it within the group.
\<close>

definition reorder_priority ::
    "'g glib \<Rightarrow> 'g queue \<Rightarrow> nat \<Rightarrow> u8 \<Rightarrow> int \<Rightarrow> 'g queue option" where
  "reorder_priority G q ord priority after_order = do {
     before_order \<leftarrow> queue_find_priority_order q (nat (after_order + 1)) priority ord;
     let new_order = (if ord < before_order then before_order - 1 else before_order);
     q \<leftarrow> queue_move_order q ord new_order;
     priority_count \<leftarrow> queue_count_same_priority q new_order priority;
     assert_that (1 \<le> priority_count);
     queue_shuffle_order_first G q new_order (new_order + priority_count)
   }"

text \<open>
  The checks before it: the current song is not moved, and a song that was already played only when
  it has been promoted above the current one.
\<close>

definition keeps_place :: "'g queue \<Rightarrow> nat \<Rightarrow> u8 \<Rightarrow> u8 \<Rightarrow> int \<Rightarrow> bool option" where
  "keeps_place q ord old_priority priority after_order =
     (if 0 \<le> after_order then
        if ord = nat after_order then Some True
        else if ord < nat after_order then do {
          after_position \<leftarrow> queue_order_to_position q (nat after_order);
          after_item \<leftarrow> aget (q_items q) after_position;
          Some (qi_priority after_item < old_priority \<or> priority \<le> qi_priority after_item)
        }
        else Some False
      else Some False)"

definition queue_set_priority ::
    "'g glib \<Rightarrow> 'g queue \<Rightarrow> nat \<Rightarrow> u8 \<Rightarrow> int \<Rightarrow> (bool \<times> 'g queue) option" where
  "queue_set_priority G q position priority after_order = do {
     assert_that (position < q_length q);
     item \<leftarrow> aget (q_items q) position;
     let old_priority = qi_priority item;
     if old_priority = priority then Some (False, q)
     else do {
       items \<leftarrow> aset (q_items q) position
         (item\<lparr>qi_version := q_version q, qi_priority := priority\<rparr>);
       q \<leftarrow> Some (q\<lparr>q_items := items\<rparr>);
       if \<not> q_random q then Some (True, q)
       else do {
         ord \<leftarrow> queue_position_to_order q position;
         skip \<leftarrow> keeps_place q ord old_priority priority after_order;
         if skip then Some (True, q)
         else do {
           q \<leftarrow> reorder_priority G q ord priority after_order;
           Some (True, q)
         }
       }
     }
   }"

definition set_priority_step ::
    "'g glib \<Rightarrow> u8 \<Rightarrow> int \<Rightarrow> nat \<Rightarrow> bool \<times> 'g queue \<Rightarrow> (bool \<times> 'g queue) option" where
  "set_priority_step G priority after_position i s = (case s of (modified, q) \<Rightarrow> do {
     after_order \<leftarrow> (if 0 \<le> after_position
       then map_option int (queue_position_to_order q (nat after_position))
       else Some (-1));
     (m, q) \<leftarrow> queue_set_priority G q i priority after_order;
     Some (modified \<or> m, q)
   })"

definition queue_set_priority_range ::
    "'g glib \<Rightarrow> 'g queue \<Rightarrow> nat \<Rightarrow> nat \<Rightarrow> u8 \<Rightarrow> int \<Rightarrow> (bool \<times> 'g queue) option" where
  "queue_set_priority_range G q start_position end_position priority after_order = do {
     assert_that (start_position \<le> end_position);
     assert_that (end_position \<le> q_length q);
     after_position \<leftarrow> (if 0 \<le> after_order
       then map_option int (queue_order_to_position q (nat after_order))
       else Some (-1));
     for_each (set_priority_step G priority after_position) [start_position..<end_position] (False, q)
   }"

end
