(* ===== verification/Playqueue_Inv.thy ===== *)
theory Playqueue_Inv
  imports Playqueue
begin

text \<open>
  The well-formedness invariant of the queue and the exact effect of the operations that move
  songs: every operation runs without a failed assertion or a stray array access on a well-formed
  queue, keeps it well-formed, and changes the list of songs in the way its name says.
\<close>

section \<open>The invariant\<close>

definition play_order :: "'g queue \<Rightarrow> nat list" where
  "play_order q = take (q_length q) (q_order q)"

definition arrays_ok :: "'g queue \<Rightarrow> bool" where
  "arrays_ok q \<longleftrightarrow>
     length (q_items q) = q_max_length q \<and>
     length (q_order q) = q_max_length q \<and>
     length (q_id_to_position q) = q_max_length q * QUEUE_HASH_MULT \<and>
     q_length q \<le> q_max_length q \<and>
     q_max_length q * QUEUE_HASH_MULT < 2 ^ 31"

text \<open>The order array lists every position once.\<close>

definition order_ok :: "'g queue \<Rightarrow> bool" where
  "order_ok q \<longleftrightarrow> mset (play_order q) = mset [0..<q_length q]"

text \<open>The id table inverts the ids of the items: the songs have distinct ids, and no id is stale.\<close>

definition owns :: "'g queue \<Rightarrow> nat \<Rightarrow> bool" where
  "owns q p \<longleftrightarrow>
     qi_id (q_items q ! p) < length (q_id_to_position q) \<and>
     q_id_to_position q ! qi_id (q_items q ! p) = int p"

definition ids_ok :: "'g queue \<Rightarrow> bool" where
  "ids_ok q \<longleftrightarrow>
     (\<forall>p < q_length q. owns q p) \<and>
     (\<forall>d < length (q_id_to_position q). let x = q_id_to_position q ! d in
        x \<noteq> -1 \<longrightarrow> 0 \<le> x \<and> x < int (q_length q) \<and> qi_id (q_items q ! nat x) = d)"

definition versions_ok :: "'g queue \<Rightarrow> bool" where
  "versions_ok q \<longleftrightarrow>
     1 \<le> q_version q \<and> q_version q < 0x7fffffff \<and>
     (\<forall>p < q_length q. qi_version (q_items q ! p) \<le> q_version q)"

definition queue_wf :: "'g queue \<Rightarrow> bool" where
  "queue_wf q \<longleftrightarrow> arrays_ok q \<and> order_ok q \<and> ids_ok q \<and> versions_ok q"

lemmas queue_wf_defs = queue_wf_def arrays_ok_def order_ok_def ids_ok_def versions_ok_def

text \<open>What clients see: the songs by position, and the ids in the order they are played.\<close>

definition item_key :: "queue_item \<Rightarrow> song \<times> nat \<times> u8" where
  "item_key it = (qi_song it, qi_id it, qi_priority it)"

definition queue_view :: "'g queue \<Rightarrow> (song \<times> nat \<times> u8) list" where
  "queue_view q = map item_key (take (q_length q) (q_items q))"

definition play_ids :: "'g queue \<Rightarrow> nat list" where
  "play_ids q = map (\<lambda>p. qi_id (q_items q ! p)) (play_order q)"

subsection \<open>Consequences\<close>

lemma queue_wfD:
  assumes "queue_wf q"
  shows "length (q_items q) = q_max_length q" "length (q_order q) = q_max_length q"
    "length (q_id_to_position q) = q_max_length q * QUEUE_HASH_MULT"
    "q_length q \<le> q_max_length q" "q_max_length q * QUEUE_HASH_MULT < 2 ^ 31"
  using assms by (auto simp: queue_wf_def arrays_ok_def)

lemma wf_in_range [simp]:
  assumes "queue_wf q" "p < q_length q"
  shows "p < length (q_items q)" "p < length (q_order q)" "p < q_max_length q"
  using queue_wfD [OF assms(1)] assms(2) by auto

lemma wf_owns: "queue_wf q \<Longrightarrow> p < q_length q \<Longrightarrow> owns q p"
  by (simp add: queue_wf_def ids_ok_def)

lemma wf_id_table:
  "queue_wf q \<Longrightarrow> d < length (q_id_to_position q) \<Longrightarrow> q_id_to_position q ! d \<noteq> -1 \<Longrightarrow>
   0 \<le> q_id_to_position q ! d \<and> q_id_to_position q ! d < int (q_length q) \<and>
   qi_id (q_items q ! nat (q_id_to_position q ! d)) = d"
  by (auto simp: queue_wf_def ids_ok_def Let_def)

lemma length_play_order [simp]: "queue_wf q \<Longrightarrow> length (play_order q) = q_length q"
  by (simp add: play_order_def queue_wfD)

lemma order_okD:
  assumes "order_ok q"
  shows "distinct (play_order q)" "set (play_order q) = {..<q_length q}"
proof -
  from assms have m: "mset (play_order q) = mset [0..<q_length q]"
    by (simp add: order_ok_def)
  show "distinct (play_order q)"
    using mset_eq_imp_distinct_iff [OF m] by simp
  show "set (play_order q) = {..<q_length q}"
    using mset_eq_setD [OF m] by (simp add: atLeast0LessThan)
qed

lemma order_okI:
  "distinct (play_order q) \<Longrightarrow> set (play_order q) = {..<q_length q} \<Longrightarrow> order_ok q"
  by (metis (no_types) atLeast0LessThan distinct_upt order_ok_def set_eq_iff_mset_eq_distinct
      set_upt)

lemma wf_order_less:
  assumes "queue_wf q" "i < q_length q"
  shows "q_order q ! i < q_length q"
proof -
  have "play_order q ! i \<in> set (play_order q)"
    using assms by simp
  then show ?thesis
    using assms order_okD(2) [of q] by (simp add: queue_wf_def play_order_def)
qed

lemma wf_order_inj:
  assumes "queue_wf q" "i < q_length q" "j < q_length q" "q_order q ! i = q_order q ! j"
  shows "i = j"
proof -
  have "distinct (play_order q)"
    using assms(1) by (simp add: queue_wf_def order_okD(1))
  moreover have "play_order q ! i = play_order q ! j"
    using assms by (simp add: play_order_def)
  ultimately show ?thesis
    using assms by (simp add: nth_eq_iff_index_eq)
qed

lemma wf_order_surj:
  assumes "queue_wf q" "p < q_length q"
  shows "\<exists>i < q_length q. q_order q ! i = p"
proof -
  have "p \<in> set (play_order q)"
    using assms order_okD(2) [of q] by (simp add: queue_wf_def)
  then obtain i where "i < length (play_order q)" "play_order q ! i = p"
    by (auto simp: in_set_conv_nth)
  then show ?thesis
    using assms by (auto simp: play_order_def)
qed

lemma owns_unique:
  assumes "queue_wf q" "p < q_length q" "d < length (q_id_to_position q)"
    "q_id_to_position q ! d = int p"
  shows "d = qi_id (q_items q ! p)"
  using wf_id_table [OF assms(1,3)] assms(4) by simp

text \<open>Ids are distinct: a song is addressed by exactly one id.\<close>

lemma wf_ids_inj:
  assumes "queue_wf q" "p < q_length q" "p' < q_length q"
    "qi_id (q_items q ! p) = qi_id (q_items q ! p')"
  shows "p = p'"
  using wf_owns [OF assms(1,2)] wf_owns [OF assms(1,3)] assms(4) by (simp add: owns_def)

lemma length_queue_view: "queue_wf q \<Longrightarrow> length (queue_view q) = q_length q"
  by (simp add: queue_view_def queue_wfD)

lemma nth_queue_view: "queue_wf q \<Longrightarrow> p < q_length q \<Longrightarrow> queue_view q ! p = item_key (q_items q ! p)"
  by (simp add: queue_view_def queue_wfD)

section \<open>The queries return\<close>

lemma queue_length_Some [simp]: "queue_wf q \<Longrightarrow> queue_length q = Some (q_length q)"
  by (simp add: queue_length_def queue_wfD)

lemma queue_is_full_Some [simp]:
  "queue_wf q \<Longrightarrow> queue_is_full q = Some (q_length q = q_max_length q)"
  using queue_wfD(4) [of q] by (auto simp: queue_is_full_def)

lemma queue_order_to_position_Some [simp]:
  "queue_wf q \<Longrightarrow> i < q_length q \<Longrightarrow> queue_order_to_position q i = Some (q_order q ! i)"
  by (simp add: queue_order_to_position_def)

lemma queue_get_Some [simp]:
  "queue_wf q \<Longrightarrow> p < q_length q \<Longrightarrow> queue_get q p = Some (qi_song (q_items q ! p))"
  using queue_wfD(1,4) [of q] by (simp add: queue_get_def)

lemma queue_position_to_id_Some [simp]:
  "queue_wf q \<Longrightarrow> p < q_length q \<Longrightarrow> queue_position_to_id q p = Some (qi_id (q_items q ! p))"
  using queue_wfD(1,4) [of q] by (simp add: queue_position_to_id_def)

lemma queue_get_order_Some [simp]:
  "queue_wf q \<Longrightarrow> i < q_length q \<Longrightarrow>
   queue_get_order q i = Some (qi_song (q_items q ! (q_order q ! i)))"
  by (simp add: queue_get_order_def wf_order_less)

declare position_to_order_from.simps [simp del]

lemma position_to_order_from_Some:
  assumes "q_length q \<le> length (q_order q)" "i \<le> k" "k < q_length q" "q_order q ! k = p"
    and "\<And>j. j < k \<Longrightarrow> q_order q ! j \<noteq> p"
  shows "position_to_order_from q p i = Some k"
  using assms(2)
proof (induction "k - i" arbitrary: i)
  case 0
  with assms show ?case
    by (simp add: position_to_order_from.simps [of q p i])
next
  case (Suc m)
  then have i: "i < k" by simp
  with Suc have "position_to_order_from q p (Suc i) = Some k" by simp
  with i assms show ?case
    by (simp add: position_to_order_from.simps [of q p i])
qed

lemma queue_position_to_order_Some:
  assumes "queue_wf q" "i < q_length q"
  shows "queue_position_to_order q (q_order q ! i) = Some i"
proof -
  have "position_to_order_from q (q_order q ! i) 0 = Some i"
    using assms wf_order_inj [OF assms(1)] queue_wfD(2,4) [OF assms(1)]
    by (intro position_to_order_from_Some) (auto, metis less_trans nat_neq_iff)
  then show ?thesis
    using assms by (simp add: queue_position_to_order_def wf_order_less)
qed

lemma queue_position_to_order_ex:
  assumes "queue_wf q" "p < q_length q"
  obtains i where "i < q_length q" "q_order q ! i = p" "queue_position_to_order q p = Some i"
  using wf_order_surj [OF assms] queue_position_to_order_Some [OF assms(1)] by metis

lemma queue_id_to_position_wf:
  assumes "queue_wf q"
  shows "queue_id_to_position q d =
    (if d < length (q_id_to_position q) then Some (q_id_to_position q ! d) else Some (-1))"
  using assms wf_id_table [OF assms, of d] queue_wfD [OF assms]
  by (cases "q_id_to_position q ! d = -1") (auto simp: queue_id_to_position_def)

section \<open>Moving items\<close>

text \<open>
  All moves are described by where each song goes: \<open>f\<close> maps the old position of a song to its new
  one, \<open>h\<close> gives the new contents of each slot.  \<open>placed f h q\<close> is the queue after such a move; the
  id table follows \<open>f\<close>.
\<close>

definition posmap :: "(nat \<Rightarrow> nat) \<Rightarrow> int \<Rightarrow> int" where
  "posmap f x = (if 0 \<le> x then int (f (nat x)) else x)"

definition touched :: "u32 \<Rightarrow> queue_item \<Rightarrow> queue_item" where
  "touched v it = it\<lparr>qi_version := v\<rparr>"

definition placed :: "(nat \<Rightarrow> nat) \<Rightarrow> (nat \<Rightarrow> queue_item) \<Rightarrow> 'g queue \<Rightarrow> 'g queue" where
  "placed f h q = q\<lparr>q_items := map h [0..<length (q_items q)],
                   q_id_to_position := map (posmap f) (q_id_to_position q)\<rparr>"

lemma item_key_touched [simp]: "item_key (touched v it) = item_key it"
  by (simp add: touched_def item_key_def)

lemma touched_sel [simp]:
  "qi_id (touched v it) = qi_id it" "qi_song (touched v it) = qi_song it"
  "qi_priority (touched v it) = qi_priority it" "qi_version (touched v it) = v"
  by (simp_all add: touched_def)

lemma item_key_eqD: "item_key a = item_key b \<Longrightarrow> qi_id a = qi_id b"
  by (simp add: item_key_def)

lemma placed_sel [simp]:
  "q_max_length (placed f h q) = q_max_length q" "q_length (placed f h q) = q_length q"
  "q_version (placed f h q) = q_version q" "q_order (placed f h q) = q_order q"
  "q_repeat (placed f h q) = q_repeat q" "q_single (placed f h q) = q_single q"
  "q_consume (placed f h q) = q_consume q" "q_random (placed f h q) = q_random q"
  "q_rand (placed f h q) = q_rand q" "q_cur (placed f h q) = q_cur q"
  "q_freed (placed f h q) = q_freed q"
  "length (q_items (placed f h q)) = length (q_items q)"
  "length (q_id_to_position (placed f h q)) = length (q_id_to_position q)"
  by (simp_all add: placed_def)

lemma nth_placed_items [simp]: "p < length (q_items q) \<Longrightarrow> q_items (placed f h q) ! p = h p"
  by (simp add: placed_def)

lemma placed_id: "placed (\<lambda>p. p) (\<lambda>p. q_items q ! p) q = q"
proof -
  have "posmap (\<lambda>p. p) = (\<lambda>x. x)"
    by (auto simp: posmap_def fun_eq_iff)
  then show ?thesis
    by (simp add: placed_def map_nth)
qed

lemma placed_refl:
  "(\<And>p. f p = p) \<Longrightarrow> (\<And>p. h p = q_items q ! p) \<Longrightarrow> placed f h q = q"
  using placed_id [of q] by (metis ext)

text \<open>One step of a move: the song from position \<open>s\<close>, now held in slot \<open>x\<close>, goes to slot \<open>y\<close>.\<close>

definition sole_owner :: "'g queue \<Rightarrow> nat \<Rightarrow> bool" where
  "sole_owner q s \<longleftrightarrow> owns q s \<and>
     (\<forall>d < length (q_id_to_position q). q_id_to_position q ! d = int s \<longrightarrow> d = qi_id (q_items q ! s))"

lemma wf_sole_owner: "queue_wf q \<Longrightarrow> p < q_length q \<Longrightarrow> sole_owner q p"
  by (auto simp: sole_owner_def wf_owns intro: owns_unique)

lemma posmap_update_table:
  assumes "sole_owner q s"
  shows "(map (posmap f) (q_id_to_position q))[qi_id (q_items q ! s) := int y] =
         map (posmap (f(s := y))) (q_id_to_position q)"
proof -
  let ?d = "qi_id (q_items q ! s)"
  have d: "?d < length (q_id_to_position q)" and at: "q_id_to_position q ! ?d = int s"
    using assms by (auto simp: sole_owner_def owns_def)
  have "(map (posmap f) (q_id_to_position q))[?d := posmap (f(s := y)) (q_id_to_position q ! ?d)] =
        map (posmap (f(s := y))) (q_id_to_position q)"
    using assms at by (intro map_update_unique [OF d]) (auto simp: sole_owner_def posmap_def)
  then show ?thesis
    by (simp add: at posmap_def)
qed

lemma map_upt_update:
  "y < n \<Longrightarrow> (map h [0..<n])[y := v] = map (h(y := v)) [0..<n]"
  by (simp add: list_eq_iff_nth_eq nth_list_update)

lemma move_song_to_placed:
  assumes "sole_owner q s" and "x < length (q_items q)" "y < length (q_items q)"
    and "qi_id (h x) = qi_id (q_items q ! s)"
  shows "queue_move_song_to (placed f h q) x y =
         Some (placed (f(s := y)) (h(y := touched (q_version q) (h x))) q)"
proof -
  have "qi_id (h x) < length (q_id_to_position q)"
    using assms(1,4) by (simp add: sole_owner_def owns_def)
  then show ?thesis
    using assms posmap_update_table [OF assms(1), of f y]
    by (simp add: queue_move_song_to_def placed_def map_upt_update touched_def)
qed

lemma put_item_placed:
  assumes "sole_owner q s" and "y < length (q_items q)" and "qi_id it = qi_id (q_items q ! s)"
  shows "queue_put_item (placed f h q) it y =
         Some (placed (f(s := y)) (h(y := touched (q_version q) it)) q)"
proof -
  have "qi_id it < length (q_id_to_position q)"
    using assms(1,3) by (simp add: sole_owner_def owns_def)
  then show ?thesis
    using assms posmap_update_table [OF assms(1), of f y]
    by (simp add: queue_put_item_def placed_def map_upt_update touched_def)
qed

text \<open>The two shifting loops, over a distance \<open>k\<close>.\<close>

definition shift_down_pos :: "nat \<Rightarrow> nat \<Rightarrow> nat \<Rightarrow> nat \<Rightarrow> nat" where
  "shift_down_pos k a b p = (if a + k \<le> p \<and> p < b + k then p - k else p)"

definition shift_down_items :: "'g queue \<Rightarrow> nat \<Rightarrow> nat \<Rightarrow> nat \<Rightarrow> nat \<Rightarrow> queue_item" where
  "shift_down_items q k a b p =
     (if a \<le> p \<and> p < b then touched (q_version q) (q_items q ! (p + k)) else q_items q ! p)"

lemma shift_down_loop:
  assumes "a \<le> b" "0 < k" "b + k \<le> length (q_items q)"
    and own: "\<And>s. a + k \<le> s \<Longrightarrow> s < b + k \<Longrightarrow> sole_owner q s"
  shows "for_each (\<lambda>i q. queue_move_song_to q (i + k) i) [a..<b] q =
         Some (placed (shift_down_pos k a b) (shift_down_items q k a b) q)"
proof -
  let ?F = "\<lambda>i. placed (shift_down_pos k a i) (shift_down_items q k a i) q"
  have "?F a = q"
    by (rule placed_refl) (auto simp: shift_down_pos_def shift_down_items_def)
  moreover have "for_each (\<lambda>i q. queue_move_song_to q (i + k) i) [a..<b] (?F a) = Some (?F b)"
  proof (rule for_each_upt_eq [OF assms(1)])
    fix i assume i: "a \<le> i" "i < b"
    have "queue_move_song_to (?F i) (i + k) i =
      Some (placed ((shift_down_pos k a i)(i + k := i))
        ((shift_down_items q k a i)(i := touched (q_version q) (shift_down_items q k a i (i + k)))) q)"
      using i assms by (intro move_song_to_placed own) (auto simp: shift_down_items_def)
    also have "(shift_down_pos k a i)(i + k := i) = shift_down_pos k a (Suc i)"
      using i by (auto simp: shift_down_pos_def fun_eq_iff)
    also have "(shift_down_items q k a i)(i := touched (q_version q) (shift_down_items q k a i (i + k)))
        = shift_down_items q k a (Suc i)"
      using i assms(2) by (auto simp: shift_down_items_def fun_eq_iff)
    finally show "queue_move_song_to (?F i) (i + k) i = Some (?F (Suc i))" .
  qed
  ultimately show ?thesis by simp
qed

definition shift_up_pos :: "nat \<Rightarrow> nat \<Rightarrow> nat \<Rightarrow> nat \<Rightarrow> nat" where
  "shift_up_pos k a b p = (if a \<le> p \<and> p < b then p + k else p)"

definition shift_up_items :: "'g queue \<Rightarrow> nat \<Rightarrow> nat \<Rightarrow> nat \<Rightarrow> nat \<Rightarrow> queue_item" where
  "shift_up_items q k a b p =
     (if a + k \<le> p \<and> p < b + k then touched (q_version q) (q_items q ! (p - k)) else q_items q ! p)"

lemma shift_up_loop:
  assumes "a \<le> b" "0 < k" "b + k \<le> length (q_items q)"
    and own: "\<And>s. a \<le> s \<Longrightarrow> s < b \<Longrightarrow> sole_owner q s"
  shows "for_each (\<lambda>i q. queue_move_song_to q i (i + k)) (rev [a..<b]) q =
         Some (placed (shift_up_pos k a b) (shift_up_items q k a b) q)"
proof -
  let ?F = "\<lambda>i. placed (shift_up_pos k i b) (shift_up_items q k i b) q"
  have "?F b = q"
    by (rule placed_refl) (auto simp: shift_up_pos_def shift_up_items_def)
  moreover have "for_each (\<lambda>i q. queue_move_song_to q i (i + k)) (rev [a..<b]) (?F b) = Some (?F a)"
  proof (rule for_each_downt_eq [OF assms(1)])
    fix i assume i: "a \<le> i" "i < b"
    have "queue_move_song_to (?F (Suc i)) i (i + k) =
      Some (placed ((shift_up_pos k (Suc i) b)(i := i + k))
        ((shift_up_items q k (Suc i) b)
           (i + k := touched (q_version q) (shift_up_items q k (Suc i) b i))) q)"
      using i assms by (intro move_song_to_placed own) (auto simp: shift_up_items_def)
    also have "(shift_up_pos k (Suc i) b)(i := i + k) = shift_up_pos k i b"
      using i by (auto simp: shift_up_pos_def fun_eq_iff)
    also have "(shift_up_items q k (Suc i) b)
           (i + k := touched (q_version q) (shift_up_items q k (Suc i) b i)) = shift_up_items q k i b"
      using i assms(2) by (auto simp: shift_up_items_def fun_eq_iff)
    finally show "queue_move_song_to (?F (Suc i)) i (i + k) = Some (?F i)" .
  qed
  ultimately show ?thesis by simp
qed

text \<open>The loop of \<^verbatim>\<open>queue_move_range\<close> that copies the saved block back.\<close>

definition put_pos :: "(nat \<Rightarrow> nat) \<Rightarrow> nat \<Rightarrow> nat \<Rightarrow> nat \<Rightarrow> nat \<Rightarrow> nat" where
  "put_pos f to a b p = (if a \<le> p \<and> p < b then to + p - a else f p)"

definition put_items ::
    "'g queue \<Rightarrow> (nat \<Rightarrow> queue_item) \<Rightarrow> nat \<Rightarrow> nat \<Rightarrow> nat \<Rightarrow> nat \<Rightarrow> queue_item" where
  "put_items q h to a b p =
     (if to \<le> p \<and> p < to + b - a then touched (q_version q) (q_items q ! (p + a - to)) else h p)"

lemma put_block_loop:
  assumes "a \<le> b" "to + b \<le> length (q_items q) + a"
    and own: "\<And>s. a \<le> s \<Longrightarrow> s < b \<Longrightarrow> sole_owner q s"
    and items: "\<And>s. a \<le> s \<Longrightarrow> s < b \<Longrightarrow> items ! (s - a) = q_items q ! s"
  shows "for_each (\<lambda>i q. queue_put_item q (items ! (i - a)) (to + i - a)) [a..<b] (placed f h q) =
         Some (placed (put_pos f to a b) (put_items q h to a b) q)"
proof -
  let ?F = "\<lambda>i. placed (put_pos f to a i) (put_items q h to a i) q"
  have "put_pos f to a a = f" "put_items q h to a a = h"
    by (auto simp: put_pos_def put_items_def fun_eq_iff)
  moreover have "for_each (\<lambda>i q. queue_put_item q (items ! (i - a)) (to + i - a)) [a..<b] (?F a)
      = Some (?F b)"
  proof (rule for_each_upt_eq [OF assms(1)])
    fix i assume i: "a \<le> i" "i < b"
    have "queue_put_item (?F i) (items ! (i - a)) (to + i - a) =
      Some (placed ((put_pos f to a i)(i := to + i - a))
        ((put_items q h to a i)(to + i - a := touched (q_version q) (items ! (i - a)))) q)"
      using i assms by (intro put_item_placed own) auto
    also have "(put_pos f to a i)(i := to + i - a) = put_pos f to a (Suc i)"
      using i by (auto simp: put_pos_def fun_eq_iff)
    also have "(put_items q h to a i)(to + i - a := touched (q_version q) (items ! (i - a)))
        = put_items q h to a (Suc i)"
      using i items [of i] by (auto simp: put_items_def fun_eq_iff)
    finally show "queue_put_item (?F i) (items ! (i - a)) (to + i - a) = Some (?F (Suc i))" .
  qed
  ultimately show ?thesis by simp
qed

section \<open>Relocations keep the queue well-formed\<close>

definition relocates :: "(nat \<Rightarrow> nat) \<Rightarrow> (nat \<Rightarrow> queue_item) \<Rightarrow> 'g queue \<Rightarrow> bool" where
  "relocates f h q \<longleftrightarrow>
     bij_betw f {..<q_length q} {..<q_length q} \<and>
     (\<forall>p < q_length q. item_key (h (f p)) = item_key (q_items q ! p)) \<and>
     (\<forall>p < q_length q. qi_version (h p) = q_version q \<or> h p = q_items q ! p)"

lemma relocatesI:
  assumes "\<And>p. p < q_length q \<Longrightarrow> f p < q_length q" "inj_on f {..<q_length q}"
    "\<And>p. p < q_length q \<Longrightarrow> item_key (h (f p)) = item_key (q_items q ! p)"
    "\<And>p. p < q_length q \<Longrightarrow> qi_version (h p) = q_version q \<or> h p = q_items q ! p"
  shows "relocates f h q"
proof -
  have "f ` {..<q_length q} \<subseteq> {..<q_length q}"
    using assms(1) by auto
  then have "bij_betw f {..<q_length q} {..<q_length q}"
    using assms(2) by (simp add: bij_betw_def endo_inj_surj)
  then show ?thesis
    using assms by (simp add: relocates_def)
qed

lemma relocates_less: "relocates f h q \<Longrightarrow> p < q_length q \<Longrightarrow> f p < q_length q"
  by (auto simp: relocates_def bij_betw_def)

lemma relocates_source:
  assumes "relocates f h q" "p < q_length q"
  obtains s where "s < q_length q" "f s = p" "item_key (h p) = item_key (q_items q ! s)"
proof -
  have "p \<in> f ` {..<q_length q}"
    using assms by (auto simp: relocates_def bij_betw_def)
  then show ?thesis
    using assms that by (auto simp: relocates_def)
qed

lemma placed_owns:
  assumes "queue_wf q" "relocates f h q" "p < q_length q"
  shows "owns (placed f h q) p"
proof -
  obtain s where s: "s < q_length q" "f s = p" "item_key (h p) = item_key (q_items q ! s)"
    using relocates_source [OF assms(2,3)] .
  have "owns q s" by (rule wf_owns [OF assms(1) s(1)])
  then show ?thesis
    using s assms by (simp add: owns_def placed_def posmap_def item_key_eqD [OF s(3)])
qed

lemma placed_ids_ok:
  assumes "queue_wf q" "relocates f h q"
  shows "ids_ok (placed f h q)"
proof -
  have "0 \<le> x \<and> x < int (q_length q) \<and> qi_id (q_items (placed f h q) ! nat x) = d"
    if d: "d < length (q_id_to_position q)" and x: "x = q_id_to_position (placed f h q) ! d" "x \<noteq> -1"
    for d x
  proof -
    define y where "y = q_id_to_position q ! d"
    have xy: "x = posmap f y" using d x(1) by (simp add: placed_def y_def)
    then have "y \<noteq> -1" using x(2) by (auto simp: posmap_def)
    then have y: "0 \<le> y" "nat y < q_length q" "qi_id (q_items q ! nat y) = d"
      using wf_id_table [OF assms(1) d] by (auto simp: y_def)
    have f: "f (nat y) < q_length q" using relocates_less [OF assms(2) y(2)] .
    have "qi_id (h (f (nat y))) = d"
      using assms(2) y by (metis item_key_eqD relocates_def)
    then show ?thesis
      using xy y(1) f assms(1) by (simp add: posmap_def)
  qed
  then show ?thesis
    using placed_owns [OF assms] by (simp add: ids_ok_def Let_def)
qed

lemma placed_wf:
  assumes "queue_wf q" "relocates f h q"
  shows "queue_wf (placed f h q)"
proof -
  have "versions_ok (placed f h q)"
    using assms by (auto simp: queue_wf_def versions_ok_def relocates_def)
  moreover have "order_ok (placed f h q)"
    using assms(1) by (simp add: queue_wf_def order_ok_def play_order_def)
  moreover have "arrays_ok (placed f h q)"
    using assms(1) by (simp add: queue_wf_def arrays_ok_def)
  ultimately show ?thesis
    using placed_ids_ok [OF assms] by (simp add: queue_wf_def)
qed

text \<open>Rewriting the order array.\<close>

definition with_order :: "(nat \<Rightarrow> nat) \<Rightarrow> 'g queue \<Rightarrow> 'g queue" where
  "with_order f q =
     q\<lparr>q_order := map f (take (q_length q) (q_order q)) @ drop (q_length q) (q_order q)\<rparr>"

lemma with_order_sel [simp]:
  "q_max_length (with_order f q) = q_max_length q" "q_length (with_order f q) = q_length q"
  "q_version (with_order f q) = q_version q" "q_items (with_order f q) = q_items q"
  "q_id_to_position (with_order f q) = q_id_to_position q"
  "q_repeat (with_order f q) = q_repeat q" "q_single (with_order f q) = q_single q"
  "q_consume (with_order f q) = q_consume q" "q_random (with_order f q) = q_random q"
  "q_rand (with_order f q) = q_rand q" "q_cur (with_order f q) = q_cur q"
  "q_freed (with_order f q) = q_freed q"
  "length (q_order (with_order f q)) = length (q_order q)"
  by (simp_all add: with_order_def)

lemma play_order_with_order:
  "q_length q \<le> length (q_order q) \<Longrightarrow> play_order (with_order f q) = map f (play_order q)"
  by (simp add: play_order_def with_order_def)

lemma map_order_eq:
  assumes "q_length q \<le> length (q_order q)"
  shows "map_order f q = Some (with_order f q)"
proof -
  let ?F = "\<lambda>i. q\<lparr>q_order := map f (take i (q_order q)) @ drop i (q_order q)\<rparr>"
  let ?body = "\<lambda>i q. do {
     p \<leftarrow> aget (q_order q) i;
     ord \<leftarrow> aset (q_order q) i (f p);
     Some (q\<lparr>q_order := ord\<rparr>)
   }"
  have "for_each ?body [0..<q_length q] (?F 0) = Some (?F (q_length q))"
  proof (rule for_each_upt_eq)
    fix i assume i: "i < q_length q"
    with assms have i': "i < length (q_order q)" by simp
    have "(map f (take i (q_order q)) @ drop i (q_order q))[i := f (q_order q ! i)] =
          map f (take (Suc i) (q_order q)) @ drop (Suc i) (q_order q)"
      using i' by (simp add: list_update_append take_Suc_conv_app_nth Cons_nth_drop_Suc [symmetric])
    then show "?body i (?F i) = Some (?F (Suc i))"
      using i' by (simp add: nth_append)
  qed simp
  then show ?thesis
    by (simp add: map_order_def with_order_def)
qed

lemma with_order_wf:
  assumes "queue_wf q" "bij_betw f {..<q_length q} {..<q_length q}"
  shows "queue_wf (with_order f q)"
proof -
  have po: "play_order (with_order f q) = map f (play_order q)"
    using queue_wfD [OF assms(1)] by (simp add: play_order_with_order)
  have d: "distinct (play_order q)" and s: "set (play_order q) = {..<q_length q}"
    using assms(1) by (auto simp: queue_wf_def order_okD)
  have "order_ok (with_order f q)"
    using assms(2) d s by (intro order_okI) (auto simp: po distinct_map bij_betw_def)
  then show ?thesis
    using assms(1) by (auto simp: queue_wf_defs owns_def)
qed

text \<open>Moving the songs and renumbering the order array alike leaves the play order unchanged.\<close>

lemma play_ids_relocated:
  assumes "queue_wf q" "relocates f h q"
  shows "play_ids (with_order f (placed f h q)) = play_ids q"
proof -
  have "play_order (with_order f (placed f h q)) = map f (play_order q)"
    using queue_wfD [OF assms(1)] by (simp add: play_order_with_order) (simp add: play_order_def)
  moreover have "qi_id (q_items (placed f h q) ! f p) = qi_id (q_items q ! p)"
    if "p \<in> set (play_order q)" for p
  proof -
    from that have p: "p < q_length q"
      using assms(1) order_okD(2) by (auto simp: queue_wf_def)
    then have "q_items (placed f h q) ! f p = h (f p)"
      using assms(1) relocates_less [OF assms(2) p] by simp
    then show ?thesis
      using assms(2) p by (metis item_key_eqD relocates_def)
  qed
  ultimately show ?thesis
    by (simp add: play_ids_def)
qed

end
