(* ===== verification/Playqueue_Moves.thy ===== *)
theory Playqueue_Moves
  imports Playqueue_Inv
begin

text \<open>
  The operations that move songs within the queue, add them and remove them: what each of them
  computes on a well-formed queue, and that it keeps the queue well-formed.
\<close>

section \<open>The moving operations\<close>

text \<open>The block move, on the list of songs: cut out \<open>[start, end)\<close> and put it back in front of \<open>to\<close>.\<close>

definition move_block :: "nat \<Rightarrow> nat \<Rightarrow> nat \<Rightarrow> 'a list \<Rightarrow> 'a list" where
  "move_block start end to xs =
     (let block = take (end - start) (drop start xs); rest = take start xs @ drop end xs
      in take to rest @ block @ drop to rest)"

definition moved_items :: "'g queue \<Rightarrow> nat \<Rightarrow> nat \<Rightarrow> nat \<Rightarrow> nat \<Rightarrow> queue_item" where
  "moved_items q start end to p =
     (if to \<le> p \<and> p < to + end - start then touched (q_version q) (q_items q ! (p + start - to))
      else if start \<le> p \<and> p < to then touched (q_version q) (q_items q ! (p + (end - start)))
      else if to + (end - start) \<le> p \<and> p < end
      then touched (q_version q) (q_items q ! (p - (end - start)))
      else q_items q ! p)"

text \<open>The queue after \<^verbatim>\<open>queue_move_range\<close>.\<close>

definition moved_range :: "'g queue \<Rightarrow> nat \<Rightarrow> nat \<Rightarrow> nat \<Rightarrow> 'g queue" where
  "moved_range q start end to =
     (let f = move_range_position start end to; q' = placed f (moved_items q start end to) q
      in if q_random q then with_order f q' else q')"

lemma move_range_items:
  assumes "queue_wf q" "0 < k" "start + k \<le> q_length q" "to + k \<le> q_length q"
    and items: "\<And>s. start \<le> s \<Longrightarrow> s < start + k \<Longrightarrow> items ! (s - start) = q_items q ! s"
  shows "do {
      q \<leftarrow> for_each (\<lambda>i q. queue_move_song_to q i (i - k)) [start + k..<to + k] q;
      q \<leftarrow> for_each (\<lambda>i q. queue_move_song_to q i (i + k)) (rev [to..<start]) q;
      for_each (\<lambda>i q. queue_put_item q (items ! (i - start)) (to + i - start)) [start..<start + k] q
    } = Some (placed (move_range_position start (start + k) to) (moved_items q start (start + k) to) q)"
  (is "?prog = _")
proof -
  let ?stop = "start + k"
  have len: "q_length q \<le> length (q_items q)" using queue_wfD [OF assms(1)] by simp
  have own: "sole_owner q s" if "s < q_length q" for s
    using wf_sole_owner [OF assms(1) that] .
  have put: "for_each (\<lambda>i q. queue_put_item q (items ! (i - start)) (to + i - start)) [start..<?stop]
      (placed f h q) = Some (placed (put_pos f to start ?stop) (put_items q h to start ?stop) q)" for f h
    using assms len by (intro put_block_loop own items) auto
  show ?thesis
  proof (cases "start \<le> to")
    case True
    have "for_each (\<lambda>i q. queue_move_song_to q i (i - k)) [?stop..<to + k] q
       = for_each (\<lambda>j q. queue_move_song_to q (j + k) j) [start..<to] q"
      by (simp add: for_each_map flip: map_add_upt_from)
    also have "\<dots> = Some (placed (shift_down_pos k start to) (shift_down_items q k start to) q)"
      using True assms len by (intro shift_down_loop own) auto
    finally have "?prog = Some (placed (put_pos (shift_down_pos k start to) to start ?stop)
        (put_items q (shift_down_items q k start to) to start ?stop) q)"
      using True by (simp add: put)
    moreover have "put_pos (shift_down_pos k start to) to start ?stop = move_range_position start ?stop to"
      using True by (auto simp: fun_eq_iff put_pos_def shift_down_pos_def move_range_position_def)
    moreover have "put_items q (shift_down_items q k start to) to start ?stop = moved_items q start ?stop to"
      using True by (auto simp: fun_eq_iff put_items_def shift_down_items_def moved_items_def)
    ultimately show ?thesis by simp
  next
    case False
    then have "for_each (\<lambda>i q. queue_move_song_to q i (i + k)) (rev [to..<start]) q =
        Some (placed (shift_up_pos k to start) (shift_up_items q k to start) q)"
      using assms len by (intro shift_up_loop own) auto
    then have "?prog = Some (placed (put_pos (shift_up_pos k to start) to start ?stop)
        (put_items q (shift_up_items q k to start) to start ?stop) q)"
      using False by (simp add: put)
    moreover have "put_pos (shift_up_pos k to start) to start ?stop = move_range_position start ?stop to"
      using False by (auto simp: fun_eq_iff put_pos_def shift_up_pos_def move_range_position_def)
    moreover have "put_items q (shift_up_items q k to start) to start ?stop = moved_items q start ?stop to"
      using False by (auto simp: fun_eq_iff put_items_def shift_up_items_def moved_items_def)
    ultimately show ?thesis by simp
  qed
qed

lemma queue_move_range_eq:
  assumes "queue_wf q" "start < end" "end \<le> q_length q" "to + end \<le> q_length q + start"
  shows "queue_move_range q start end to = Some (moved_range q start end to)"
proof -
  obtain k where k: "0 < k" "end = start + k"
    using assms(2) less_imp_add_positive by blast
  let ?items = "map (\<lambda>i. q_items q ! i) [start..<start + k]"
  have "?items ! (s - start) = q_items q ! s" if "start \<le> s" "s < start + k" for s
    using that by simp
  from move_range_items [OF assms(1) k(1) _ _ this, of to] assms k
  obtain q1 q2 where
    "for_each (\<lambda>i q. queue_move_song_to q i (i - k)) [start + k..<to + k] q = Some q1"
    "for_each (\<lambda>i q. queue_move_song_to q i (i + k)) (rev [to..<start]) q1 = Some q2"
    "for_each (\<lambda>i q. queue_put_item q (?items ! (i - start)) (to + i - start)) [start..<start + k] q2 =
       Some (placed (move_range_position start (start + k) to) (moved_items q start (start + k) to) q)"
    by (auto simp: bind_eq_Some_conv)
  then show ?thesis
    using assms queue_wfD [OF assms(1)] k
    by (simp add: queue_move_range_def moved_range_def map_order_eq Let_def add.commute [of k to])
qed

lemma move_range_position_inverse:
  assumes "0 < k" "p < n" "start + k \<le> n" "to + k \<le> n"
  shows "move_range_position to (to + k) start (move_range_position start (start + k) to p) = p"
proof -
  consider "start + k \<le> p" "p < to + k" | "p < start" "to \<le> p" | "start \<le> p" "p < start + k"
    | "p < start" "p < to" | "start + k \<le> p" "to + k \<le> p"
    by linarith
  then show ?thesis
    by cases (auto simp: move_range_position_def)
qed

lemma moved_items_position:
  assumes "0 < k" "p < n" "start + k \<le> n" "to + k \<le> n"
  shows "item_key (moved_items q start (start + k) to (move_range_position start (start + k) to p)) =
         item_key (q_items q ! p)"
proof -
  consider "start + k \<le> p" "p < to + k" | "p < start" "to \<le> p" | "start \<le> p" "p < start + k"
    | "p < start" "p < to" | "start + k \<le> p" "to + k \<le> p"
    by linarith
  then show ?thesis
    by cases (auto simp: move_range_position_def moved_items_def)
qed

lemma move_range_relocates:
  assumes "start < end" "end \<le> q_length q" "to + end \<le> q_length q + start"
  shows "relocates (move_range_position start end to) (moved_items q start end to) q"
proof -
  obtain k where k: "0 < k" "end = start + k"
    using assms(1) less_imp_add_positive by blast
  with assms have le: "start + k \<le> q_length q" "to + k \<le> q_length q" by auto
  show ?thesis
  proof (rule relocatesI)
    show "inj_on (move_range_position start end to) {..<q_length q}"
      using move_range_position_inverse [OF k(1) _ le] by (auto simp: k(2) intro: inj_on_inverseI)
    show "move_range_position start end to p < q_length q" if "p < q_length q" for p
      using that le k by (auto simp: move_range_position_def)
    show "item_key (moved_items q start end to (move_range_position start end to p)) =
          item_key (q_items q ! p)" if "p < q_length q" for p
      using moved_items_position [OF k(1) that le] by (simp add: k(2))
    show "qi_version (moved_items q start end to p) = q_version q \<or>
          moved_items q start end to p = q_items q ! p" for p
      by (simp add: moved_items_def)
  qed
qed

lemma nth_move_block:
  assumes "start + k \<le> length xs" "to + k \<le> length xs" "j < length xs"
  shows "move_block start (start + k) to xs ! j =
    (if j < to then if j < start then xs ! j else xs ! (j + k)
     else if j < to + k then xs ! (j + start - to)
     else if j < start + k then xs ! (j - k) else xs ! j)"
proof -
  define rest where "rest = take start xs @ drop (start + k) xs"
  have rest: "length rest = length xs - k"
    "\<And>i. i < length rest \<Longrightarrow> rest ! i = (if i < start then xs ! i else xs ! (i + k))"
    using assms(1) by (auto simp: rest_def nth_append add.commute)
  have mb: "move_block start (start + k) to xs = take to rest @ take k (drop start xs) @ drop to rest"
    by (simp add: move_block_def rest_def Let_def)
  consider "j < to" | "to \<le> j" "j < to + k" | "to + k \<le> j" by linarith
  then show ?thesis
  proof cases
    case 1
    then show ?thesis using assms rest by (simp add: mb nth_append)
  next
    case 2
    then have "start + (j - to) = j + start - to" "j - to < k" by auto
    with 2 show ?thesis using assms rest(1) by (simp add: mb nth_append)
  next
    case 3
    then have "\<not> j - to < k" by auto
    with 3 have "move_block start (start + k) to xs ! j = rest ! (j - k)"
      using assms rest(1) by (simp add: mb nth_append)
    with 3 show ?thesis using assms rest by auto
  qed
qed

lemma move_block_position:
  assumes "0 < k" "start + k \<le> length xs" "to + k \<le> length xs" "p < length xs"
  shows "move_block start (start + k) to xs ! move_range_position start (start + k) to p = xs ! p"
proof -
  consider "start + k \<le> p" "p < to + k" | "p < start" "to \<le> p" | "start \<le> p" "p < start + k"
    | "p < start" "p < to" | "start + k \<le> p" "to + k \<le> p"
    by linarith
  then show ?thesis
    using assms by cases (auto simp: move_range_position_def nth_move_block)
qed

lemma length_move_block [simp]:
  "start \<le> end \<Longrightarrow> end \<le> length xs \<Longrightarrow> length (move_block start end to xs) = length xs"
  by (auto simp: move_block_def Let_def min_def)

lemma queue_view_moved_range:
  assumes "queue_wf q" "start < end" "end \<le> q_length q" "to + end \<le> q_length q + start"
  shows "queue_view (moved_range q start end to) = move_block start end to (queue_view q)"
proof -
  let ?f = "move_range_position start end to" and ?q' = "moved_range q start end to"
  obtain k where k: "0 < k" "end = start + k"
    using assms(2) less_imp_add_positive by blast
  have rel: "relocates ?f (moved_items q start end to) q"
    using assms by (intro move_range_relocates)
  have items: "q_items ?q' = map (moved_items q start end to) [0..<length (q_items q)]"
    and len: "q_length ?q' = q_length q"
    by (simp_all add: moved_range_def Let_def placed_def)
  show ?thesis
  proof (rule list_eq_nthI [where n = "q_length q"])
    fix p assume p: "p < q_length q"
    obtain s where s: "s < q_length q" "?f s = p"
      "item_key (moved_items q start end to p) = item_key (q_items q ! s)"
      using relocates_source [OF rel p] .
    have "move_block start end to (queue_view q) ! ?f s = queue_view q ! s"
      using move_block_position [of k start "queue_view q" to s] assms k s
      by (simp add: length_queue_view)
    then show "queue_view ?q' ! p = move_block start end to (queue_view q) ! p"
      using s p assms(1) items len by (simp add: nth_queue_view) (simp add: queue_view_def)
  qed (use assms items len queue_wfD [OF assms(1)] in \<open>simp_all add: length_queue_view\<close>,
       simp add: queue_view_def)
qed

text \<open>Moving one song is moving a block of length one.\<close>

lemma queue_move_eq:
  assumes "queue_wf q" "from < q_length q" "to < q_length q"
  shows "queue_move q from to = queue_move_range q from (from + 1) to"
proof -
  let ?its = "[q_items q ! from]"
  have "?its ! (s - from) = q_items q ! s" if "from \<le> s" "s < from + 1" for s
    using that by (cases "s = from") auto
  from move_range_items [OF assms(1) zero_less_one _ _ this, of to] assms
  obtain q1 q2 where step:
    "for_each (\<lambda>i q. queue_move_song_to q i (i - 1)) [from + 1..<to + 1] q = Some q1"
    "for_each (\<lambda>i q. queue_move_song_to q i (i + 1)) (rev [to..<from]) q1 = Some q2"
    "for_each (\<lambda>i q. queue_put_item q (?its ! (i - from)) (to + i - from)) [from..<from + 1] q2 =
       Some (placed (move_range_position from (from + 1) to) (moved_items q from (from + 1) to) q)"
    by (auto simp: bind_eq_Some_conv)
  have "for_each (\<lambda>i q. queue_move_song_to q (i + 1) i) [from..<to] q = Some q1"
    using step(1) by (simp only: map_add_upt_from [symmetric] for_each_map add_diff_cancel_right')
  moreover have "for_each (\<lambda>i q. queue_move_song_to q (i - 1) i) (rev [to + 1..<from + 1]) q1 = Some q2"
    using step(2)
    by (simp only: map_add_upt_from [symmetric] rev_map for_each_map add_diff_cancel_right')
  moreover have "queue_put_item q2 (q_items q ! from) to =
       Some (placed (move_range_position from (from + 1) to) (moved_items q from (from + 1) to) q)"
    using step(3) by (simp split: bind_splits)
  moreover have "move_position from to = move_range_position from (from + 1) to"
    by (auto simp: fun_eq_iff move_position_def move_range_position_def)
  ultimately have "queue_move q from to = Some (moved_range q from (from + 1) to)"
    using assms queue_wfD [OF assms(1)]
    by (simp add: queue_move_def moved_range_def map_order_eq Let_def)
  then show ?thesis
    using assms by (simp add: queue_move_range_eq)
qed

subsection \<open>Swapping two songs\<close>

definition swap_position :: "nat \<Rightarrow> nat \<Rightarrow> nat \<Rightarrow> nat" where
  "swap_position p1 p2 p = (if p = p1 then p2 else if p = p2 then p1 else p)"

definition swapped_items :: "'g queue \<Rightarrow> nat \<Rightarrow> nat \<Rightarrow> nat \<Rightarrow> queue_item" where
  "swapped_items q p1 p2 p =
     (if p = p1 then touched (q_version q) (q_items q ! p2)
      else if p = p2 then touched (q_version q) (q_items q ! p1) else q_items q ! p)"

definition swapped :: "'g queue \<Rightarrow> nat \<Rightarrow> nat \<Rightarrow> 'g queue" where
  "swapped q p1 p2 = placed (swap_position p1 p2) (swapped_items q p1 p2) q"

lemma swap_table:
  assumes "sole_owner q p1" "sole_owner q p2"
  shows "(q_id_to_position q)[qi_id (q_items q ! p1) := int p2, qi_id (q_items q ! p2) := int p1] =
         map (posmap (swap_position p1 p2)) (q_id_to_position q)"
proof -
  have "map (posmap (\<lambda>p. p)) (q_id_to_position q) = q_id_to_position q"
    by (simp add: list_eq_iff_nth_eq posmap_def)
  then have "(q_id_to_position q)[qi_id (q_items q ! p1) := int p2, qi_id (q_items q ! p2) := int p1] =
      map (posmap ((\<lambda>p. p)(p1 := p2, p2 := p1))) (q_id_to_position q)"
    using posmap_update_table [OF assms(1), of "\<lambda>p. p" p2]
      posmap_update_table [OF assms(2), of "(\<lambda>p. p)(p1 := p2)" p1] by simp
  moreover have "(\<lambda>p. p)(p1 := p2, p2 := p1) = swap_position p1 p2"
    by (auto simp: swap_position_def fun_eq_iff)
  ultimately show ?thesis by simp
qed

lemma queue_swap_eq:
  assumes "queue_wf q" "p1 < q_length q" "p2 < q_length q"
  shows "queue_swap q p1 p2 = Some (swapped q p1 p2)"
proof -
  let ?i1 = "q_items q ! p1" and ?i2 = "q_items q ! p2"
  have own: "sole_owner q p1" "sole_owner q p2"
    using assms by (auto intro: wf_sole_owner)
  then have ids: "qi_id ?i1 < length (q_id_to_position q)" "qi_id ?i2 < length (q_id_to_position q)"
    by (auto simp: sole_owner_def owns_def)
  let ?its = "(q_items q)[p1 := ?i2, p2 := ?i1]"
  let ?its1 = "?its[p1 := touched (q_version q) (?its ! p1)]"
  let ?its2 = "?its1[p2 := touched (q_version q) (?its1 ! p2)]"
  have t1: "touch_item p1 (q\<lparr>q_items := ?its\<rparr>) = Some (q\<lparr>q_items := ?its1\<rparr>)"
    using assms by (simp add: touch_item_def touched_def)
  have t2: "touch_item p2 (q\<lparr>q_items := ?its1\<rparr>) = Some (q\<lparr>q_items := ?its2\<rparr>)"
    using assms by (simp add: touch_item_def touched_def)
  have its2: "?its2 = map (swapped_items q p1 p2) [0..<length (q_items q)]"
  proof (rule list_eq_nthI [where n = "length (q_items q)"])
    fix i assume "i < length (q_items q)"
    then show "?its2 ! i = map (swapped_items q p1 p2) [0..<length (q_items q)] ! i"
      using assms by (simp add: nth_list_update swapped_items_def)
  qed simp_all
  have "queue_swap q p1 p2 = Some (q\<lparr>q_items := ?its2, q_id_to_position :=
      (q_id_to_position q)[qi_id ?i1 := int p2, qi_id ?i2 := int p1]\<rparr>)"
    using assms ids t1 t2 by (simp add: queue_swap_def)
  then show ?thesis
    by (simp only: its2 swap_table [OF own] swapped_def placed_def)
qed

lemma swap_relocates:
  assumes "p1 < q_length q" "p2 < q_length q"
  shows "relocates (swap_position p1 p2) (swapped_items q p1 p2) q"
  using assms
  by (intro relocatesI) (auto simp: swap_position_def swapped_items_def inj_on_def split: if_splits)

lemma queue_view_swapped:
  assumes "queue_wf q" "p1 < q_length q" "p2 < q_length q"
  shows "queue_view (swapped q p1 p2) = swap_at p1 p2 (queue_view q)"
  using assms
  by (intro list_eq_nthI [where n = "q_length q"])
     (auto simp: queue_view_def swapped_def nth_swap_at swapped_items_def placed_def take_map
       queue_wfD)

lemma moved_range_wf:
  assumes "queue_wf q" "start < end" "end \<le> q_length q" "to + end \<le> q_length q + start"
  shows "queue_wf (moved_range q start end to)"
proof -
  note rel = move_range_relocates [OF assms(2-4)]
  have "bij_betw (move_range_position start end to) {..<q_length q} {..<q_length q}"
    using rel by (simp add: relocates_def)
  then show ?thesis
    using placed_wf [OF assms(1) rel] by (simp add: moved_range_def Let_def with_order_wf)
qed

lemma moved_range_sel [simp]:
  "q_length (moved_range q start end to) = q_length q" "q_random (moved_range q start end to) = q_random q"
  "q_max_length (moved_range q start end to) = q_max_length q" "q_version (moved_range q start end to) = q_version q"
  by (simp_all add: moved_range_def Let_def)

subsection \<open>Generating ids and appending\<close>

lemma generate_id_scan:
  assumes "length table = limit" "limit < 2 ^ 32" "c < limit" "d < limit" "table ! d = -1"
  shows "\<exists>c' < limit. table ! c' = -1 \<and>
    aget table c \<bind> (\<lambda>p. if p \<noteq> -1 then generate_id_loop limit table c else Some c) = Some c'"
  using assms(3)
proof (induction "if c \<le> d then d - c else limit - c + d" arbitrary: c rule: less_induct)
  case less
  show ?case
  proof (cases "table ! c = -1")
    case True
    with less.prems assms(1) show ?thesis by auto
  next
    case False
    define c1 where "c1 = (if limit \<le> c + 1 then 0 else c + 1)"
    have c1: "c1 < limit" using less.prems by (auto simp: c1_def)
    have "c \<noteq> d" using False assms(5) by auto
    then have "(if c1 \<le> d then d - c1 else limit - c1 + d) < (if c \<le> d then d - c else limit - c + d)"
      using less.prems assms(4) by (auto simp: c1_def)
    from less.hyps [OF this c1] obtain c' where c': "c' < limit" "table ! c' = -1"
      "aget table c1 \<bind> (\<lambda>p. if p \<noteq> -1 then generate_id_loop limit table c1 else Some c1) = Some c'"
      by auto
    have "generate_id_loop limit table c =
        aget table c1 \<bind> (\<lambda>p. if p \<noteq> -1 then generate_id_loop limit table c1 else Some c1)"
      using less.prems assms(2)
      by (subst generate_id_loop.simps) (simp add: c1_def Let_def cong: if_cong)
    with c' False less.prems assms(1) show ?thesis by auto
  qed
qed

lemma generate_id_loop_Some:
  assumes "length table = limit" "limit < 2 ^ 32" "d < limit" "table ! d = -1"
  shows "\<exists>c < limit. table ! c = -1 \<and> generate_id_loop limit table cur = Some c"
proof -
  define c where "c = (let c = (cur + 1) mod 2 ^ 32 in if limit \<le> c then 0 else c)"
  have c: "c < limit" using assms(3) by (auto simp: c_def Let_def)
  have "generate_id_loop limit table cur =
      aget table c \<bind> (\<lambda>p. if p \<noteq> -1 then generate_id_loop limit table c else Some c)"
    by (subst generate_id_loop.simps) (simp add: c_def Let_def cong: if_cong)
  then show ?thesis
    using generate_id_scan [OF assms(1,2) c assms(3,4)] by auto
qed

text \<open>The id table is four times as long as the queue, so an unused id is always found.\<close>

lemma free_id_exists:
  assumes "queue_wf q" "q_length q < q_max_length q"
  shows "\<exists>d < length (q_id_to_position q). q_id_to_position q ! d = -1"
proof -
  let ?ids = "(\<lambda>p. qi_id (q_items q ! p)) ` {..<q_length q}"
  have "card ?ids < card {..<length (q_id_to_position q)}"
    using card_image_le [of "{..<q_length q}" "\<lambda>p. qi_id (q_items q ! p)"] assms(2)
      queue_wfD(3) [OF assms(1)] by simp
  then obtain d where d: "d < length (q_id_to_position q)" "d \<notin> ?ids"
    by (metis card_mono finite_lessThan finite_imageI lessThan_iff not_less subsetI)
  have "q_id_to_position q ! d = -1"
  proof (rule ccontr)
    assume "q_id_to_position q ! d \<noteq> -1"
    from wf_id_table [OF assms(1) d(1) this] have "d \<in> ?ids"
      by (metis imageI int_nat_eq lessThan_iff nat_less_iff)
    with d(2) show False ..
  qed
  with d(1) show ?thesis by auto
qed

definition appended :: "'g queue \<Rightarrow> song \<Rightarrow> u8 \<Rightarrow> nat \<Rightarrow> 'g queue" where
  "appended q song priority sid =
     q\<lparr>q_items := (q_items q)[q_length q :=
         \<lparr>qi_song = song, qi_id = sid, qi_version = q_version q, qi_priority = priority\<rparr>],
       q_order := (q_order q)[q_length q := q_length q],
       q_id_to_position := (q_id_to_position q)[sid := int (q_length q)],
       q_length := q_length q + 1, q_cur := sid\<rparr>"

lemma queue_append_eq:
  assumes "queue_wf q" "q_length q < q_max_length q"
  obtains sid where "sid < length (q_id_to_position q)" "q_id_to_position q ! sid = -1"
    "queue_append q song priority = Some (sid, appended q song priority sid)"
proof -
  note len = queue_wfD [OF assms(1)]
  obtain d where d: "d < length (q_id_to_position q)" "q_id_to_position q ! d = -1"
    using free_id_exists [OF assms] by auto
  obtain sid where sid: "sid < length (q_id_to_position q)" "q_id_to_position q ! sid = -1"
    "queue_generate_id q = Some sid"
    using generate_id_loop_Some [of "q_id_to_position q" _ d "q_cur q"] d len
    by (auto simp: queue_generate_id_def)
  show ?thesis
    using sid assms len by (intro that [of sid]) (auto simp: queue_append_def appended_def)
qed

lemma appended_wf:
  assumes "queue_wf q" "q_length q < q_max_length q"
    and sid: "sid < length (q_id_to_position q)" "q_id_to_position q ! sid = -1"
  shows "queue_wf (appended q song priority sid)"
proof -
  let ?q = "appended q song priority sid" and ?n = "q_length q"
  note len = queue_wfD [OF assms(1)]
  have fresh: "qi_id (q_items q ! p) \<noteq> sid" if "p < ?n" for p
    using wf_owns [OF assms(1) that] sid by (auto simp: owns_def)
  have "play_order ?q = play_order q @ [?n]"
    using assms(2) len by (simp add: play_order_def appended_def take_Suc_conv_app_nth)
  then have "order_ok ?q"
    using assms(1) by (simp add: queue_wf_def order_ok_def appended_def)
  moreover have "arrays_ok ?q"
    using assms(1,2) by (simp add: queue_wf_def arrays_ok_def appended_def)
  moreover have "versions_ok ?q"
    using assms(1,2) len
    by (auto simp: queue_wf_def versions_ok_def appended_def nth_list_update less_Suc_eq)
  moreover have "ids_ok ?q"
    unfolding ids_ok_def Let_def
  proof (intro conjI allI impI)
    show "owns ?q p" if "p < q_length ?q" for p
      using that fresh [of p] wf_owns [OF assms(1), of p] sid assms(2) len
      by (cases "p = ?n") (auto simp: appended_def owns_def nth_list_update)
  next
    fix d assume d: "d < length (q_id_to_position ?q)" "q_id_to_position ?q ! d \<noteq> -1"
    show "0 \<le> q_id_to_position ?q ! d" "q_id_to_position ?q ! d < int (q_length ?q)"
      "qi_id (q_items ?q ! nat (q_id_to_position ?q ! d)) = d"
      using wf_id_table [OF assms(1), of d] d assms(2) sid len
      by (auto simp: appended_def nth_list_update split: if_splits)
  qed
  ultimately show ?thesis
    by (simp add: queue_wf_def)
qed

lemma queue_view_appended:
  assumes "queue_wf q" "q_length q < q_max_length q"
  shows "queue_view (appended q song priority sid) = queue_view q @ [(song, sid, priority)]"
  using assms queue_wfD [OF assms(1)]
  by (simp add: queue_view_def appended_def take_Suc_conv_app_nth item_key_def)

lemma play_ids_appended:
  assumes "queue_wf q" "q_length q < q_max_length q"
  shows "play_ids (appended q song priority sid) = play_ids q @ [sid]"
proof -
  have "play_order (appended q song priority sid) = play_order q @ [q_length q]"
    using assms queue_wfD [OF assms(1)]
    by (simp add: play_order_def appended_def take_Suc_conv_app_nth)
  moreover have "q_length q \<noteq> p" if "p \<in> set (play_order q)" for p
    using that assms(1) by (auto simp: queue_wf_def order_okD)
  ultimately show ?thesis
    using assms queue_wfD [OF assms(1)] by (simp add: play_ids_def) (simp add: appended_def)
qed

subsection \<open>Deleting a song\<close>

definition remove_nth :: "nat \<Rightarrow> 'a list \<Rightarrow> 'a list" where
  "remove_nth i xs = take i xs @ drop (Suc i) xs"

lemma length_remove_nth [simp]: "i < length xs \<Longrightarrow> length (remove_nth i xs) = length xs - 1"
  by (simp add: remove_nth_def)

lemma nth_remove_nth:
  "i < length xs \<Longrightarrow> j < length xs - 1 \<Longrightarrow>
   remove_nth i xs ! j = (if j < i then xs ! j else xs ! Suc j)"
  by (auto simp: remove_nth_def nth_append)

lemma map_remove_nth: "map f (remove_nth i xs) = remove_nth i (map f xs)"
  by (simp add: remove_nth_def take_map drop_map)

lemma remove_nth_distinct:
  assumes "distinct xs" "i < length xs"
  shows "distinct (remove_nth i xs)" "set (remove_nth i xs) = set xs - {xs ! i}"
proof -
  have xs: "xs = take i xs @ xs ! i # drop (Suc i) xs"
    using assms(2) by (rule id_take_nth_drop)
  then have "distinct (take i xs @ xs ! i # drop (Suc i) xs)" using assms(1) by metis
  then show "distinct (remove_nth i xs)" by (auto simp: remove_nth_def)
  have "set xs = set (take i xs @ xs ! i # drop (Suc i) xs)" using xs by metis
  then show "set (remove_nth i xs) = set xs - {xs ! i}"
    using \<open>distinct (take i xs @ xs ! i # drop (Suc i) xs)\<close> by (auto simp: remove_nth_def)
qed

definition dec_above :: "nat \<Rightarrow> nat \<Rightarrow> nat" where
  "dec_above position p = (if position < p then p - 1 else p)"

lemma dec_above_bij:
  assumes "position < n"
  shows "bij_betw (dec_above position) ({..<n} - {position}) {..<n - 1}"
  using assms
  by (intro bij_betw_byWitness [where f' = "\<lambda>p. if position \<le> p then p + 1 else p"])
     (auto simp: dec_above_def)

lemma shift_order_loop:
  assumes "a \<le> b" "b < length (q_order q)"
  shows "for_each (\<lambda>i q. do {
            p \<leftarrow> aget (q_order q) (i + 1);
            xs \<leftarrow> aset (q_order q) i p;
            Some (q\<lparr>q_order := xs\<rparr>)
          }) [a..<b] q =
         Some (q\<lparr>q_order := map (\<lambda>i. if a \<le> i \<and> i < b then q_order q ! (i + 1) else q_order q ! i)
                               [0..<length (q_order q)]\<rparr>)"
    (is "for_each ?body _ _ = _")
proof -
  let ?xs = "\<lambda>b. map (\<lambda>i. if a \<le> i \<and> i < b then q_order q ! (i + 1) else q_order q ! i)
      [0..<length (q_order q)]"
  have "?xs a = q_order q"
    by (intro list_eq_nthI [where n = "length (q_order q)"]) auto
  moreover have "for_each ?body [a..<b] (q\<lparr>q_order := ?xs a\<rparr>) = Some (q\<lparr>q_order := ?xs b\<rparr>)"
  proof (rule for_each_upt_eq [OF assms(1)])
    fix i assume i: "a \<le> i" "i < b"
    have "(?xs i)[i := q_order q ! (i + 1)] = ?xs (Suc i)"
      using i assms(2)
      by (intro list_eq_nthI [where n = "length (q_order q)"]) (auto simp: nth_list_update)
    then show "?body i (q\<lparr>q_order := ?xs i\<rparr>) = Some (q\<lparr>q_order := ?xs (Suc i)\<rparr>)"
      using i assms(2) by simp
  qed
  ultimately show ?thesis by simp
qed

text \<open>The queue without the song at \<open>position\<close>, which is played at order number \<open>ord\<close>.\<close>

definition deleted :: "'g queue \<Rightarrow> nat \<Rightarrow> nat \<Rightarrow> 'g queue" where
  "deleted q position ord =
     (let n = q_length q - 1; item = q_items q ! position;
          q1 = (song_free_if_unowned (qi_song item) q)\<lparr>q_length := n,
             q_id_to_position := (q_id_to_position q)[qi_id item := -1]\<rparr>;
          q2 = placed (shift_down_pos 1 position n) (shift_down_items q 1 position n) q1
      in with_order (dec_above position) (q2\<lparr>q_order :=
           map (\<lambda>i. if ord \<le> i \<and> i < n then q_order q ! (i + 1) else q_order q ! i)
             [0..<length (q_order q)]\<rparr>))"

lemma song_free_sel [simp]:
  "q_max_length (song_free_if_unowned s q) = q_max_length q"
  "q_length (song_free_if_unowned s q) = q_length q"
  "q_version (song_free_if_unowned s q) = q_version q"
  "q_items (song_free_if_unowned s q) = q_items q"
  "q_order (song_free_if_unowned s q) = q_order q"
  "q_id_to_position (song_free_if_unowned s q) = q_id_to_position q"
  "q_repeat (song_free_if_unowned s q) = q_repeat q" "q_single (song_free_if_unowned s q) = q_single q"
  "q_consume (song_free_if_unowned s q) = q_consume q" "q_random (song_free_if_unowned s q) = q_random q"
  "q_rand (song_free_if_unowned s q) = q_rand q" "q_cur (song_free_if_unowned s q) = q_cur q"
  by (simp_all add: song_free_if_unowned_def)

lemma song_free_wf [simp]: "queue_wf (song_free_if_unowned s q) \<longleftrightarrow> queue_wf q"
  by (simp add: queue_wf_defs play_order_def owns_def)

lemma queue_position_to_order_cong:
  assumes "q_length q' = q_length q" "q_order q' = q_order q"
  shows "queue_position_to_order q' p = queue_position_to_order q p"
proof -
  have "position_to_order_from q' p i = position_to_order_from q p i" for i
    using assms
    by (induction q p i rule: position_to_order_from.induct)
       (subst (1 2) position_to_order_from.simps, auto split: bind_splits)
  then show ?thesis
    using assms by (simp add: queue_position_to_order_def)
qed

lemma queue_delete_eq:
  assumes "queue_wf q" "ord < q_length q" "position = q_order q ! ord"
  shows "queue_delete q position = Some (deleted q position ord)"
proof -
  let ?n = "q_length q - 1" and ?item = "q_items q ! position"
  let ?q1 = "(song_free_if_unowned (qi_song ?item) q)\<lparr>q_length := ?n,
     q_id_to_position := (q_id_to_position q)[qi_id ?item := -1]\<rparr>"
  note len = queue_wfD [OF assms(1)]
  have pos: "position < q_length q" using assms wf_order_less by simp
  have sid: "qi_id ?item < length (q_id_to_position q)"
    using wf_owns [OF assms(1) pos] by (simp add: owns_def)
  have own: "sole_owner ?q1 s" if "position + 1 \<le> s" "s < ?n + 1" for s
  proof -
    from that have s: "s < q_length q" "s \<noteq> position" by auto
    then have "qi_id (q_items q ! s) \<noteq> qi_id ?item"
      using wf_ids_inj [OF assms(1) _ pos] by auto
    then show ?thesis
      using wf_sole_owner [OF assms(1) s(1)] sid
      by (simp add: sole_owner_def owns_def nth_list_update)
  qed
  have ord: "queue_position_to_order (song_free_if_unowned (qi_song ?item) q) position = Some ord"
    using queue_position_to_order_Some [OF assms(1,2)] assms(3)
      queue_position_to_order_cong [of "song_free_if_unowned (qi_song ?item) q" q] by simp
  have shift: "for_each (\<lambda>i q. queue_move_song_to q (i + 1) i) [position..<?n] ?q1 =
     Some (placed (shift_down_pos 1 position ?n) (shift_down_items ?q1 1 position ?n) ?q1)"
    using pos len assms(2) by (intro shift_down_loop own) auto
  have items: "shift_down_items ?q1 1 position ?n = shift_down_items q 1 position ?n"
    by (simp add: shift_down_items_def fun_eq_iff)
  let ?q2 = "placed (shift_down_pos 1 position ?n) (shift_down_items q 1 position ?n) ?q1"
  have "ord \<le> ?n" "?n < length (q_order ?q2)" using assms(2) len by auto
  note order = shift_order_loop [OF this]
  show ?thesis
    using assms pos sid ord shift [unfolded items] order len
    by (simp add: queue_delete_def map_order_eq deleted_def Let_def dec_above_def [abs_def] cong: if_cong)
qed

lemma deleted_sel [simp]:
  "q_length (deleted q position ord) = q_length q - 1"
  "q_max_length (deleted q position ord) = q_max_length q"
  "q_version (deleted q position ord) = q_version q"
  "q_repeat (deleted q position ord) = q_repeat q" "q_single (deleted q position ord) = q_single q"
  "q_consume (deleted q position ord) = q_consume q" "q_random (deleted q position ord) = q_random q"
  "length (q_items (deleted q position ord)) = length (q_items q)"
  "length (q_order (deleted q position ord)) = length (q_order q)"
  "length (q_id_to_position (deleted q position ord)) = length (q_id_to_position q)"
  by (simp_all add: deleted_def Let_def)

lemma nth_items_deleted:
  "p < length (q_items q) \<Longrightarrow>
   q_items (deleted q position ord) ! p = shift_down_items q 1 position (q_length q - 1) p"
  by (simp add: deleted_def Let_def placed_def)

lemma table_deleted:
  "q_id_to_position (deleted q position ord) =
   map (posmap (shift_down_pos 1 position (q_length q - 1)))
     ((q_id_to_position q)[qi_id (q_items q ! position) := -1])"
  by (simp add: deleted_def Let_def placed_def)

lemma play_order_deleted:
  assumes "queue_wf q" "ord < q_length q"
  shows "play_order (deleted q position ord) = map (dec_above position) (remove_nth ord (play_order q))"
proof -
  let ?n = "q_length q - 1"
  have "take ?n (map (\<lambda>i. if ord \<le> i \<and> i < ?n then q_order q ! (i + 1) else q_order q ! i)
      [0..<length (q_order q)]) = remove_nth ord (play_order q)"
    using assms queue_wfD [OF assms(1)]
    by (intro list_eq_nthI [where n = ?n]) (auto simp: nth_remove_nth play_order_def)
  then show ?thesis
    using queue_wfD [OF assms(1)]
    by (simp add: deleted_def Let_def play_order_with_order) (simp add: play_order_def)
qed

lemma deleted_ids_ok:
  assumes "queue_wf q" "position < q_length q"
  shows "ids_ok (deleted q position ord)"
  unfolding ids_ok_def Let_def
proof (intro conjI allI impI)
  let ?q = "deleted q position ord" and ?n = "q_length q - 1"
  fix p assume p: "p < q_length ?q"
  then have "p < length (q_items q)" using assms(1) by simp
  note item = nth_items_deleted [OF this, of position ord]
  define s where "s = (if position \<le> p then p + 1 else p)"
  have s: "s < q_length q" "s \<noteq> position" using p assms by (auto simp: s_def)
  have "qi_id (q_items ?q ! p) = qi_id (q_items q ! s)"
    using p by (simp add: item shift_down_items_def s_def)
  moreover have "qi_id (q_items q ! s) \<noteq> qi_id (q_items q ! position)"
    using wf_ids_inj [OF assms(1) s(1) assms(2)] s(2) by auto
  moreover have "shift_down_pos 1 position ?n s = p"
    using p by (auto simp: shift_down_pos_def s_def)
  ultimately show "owns ?q p"
    using wf_owns [OF assms(1) s(1)] by (simp add: owns_def table_deleted posmap_def)
next
  let ?q = "deleted q position ord" and ?n = "q_length q - 1"
  let ?x = "\<lambda>d. q_id_to_position ?q ! d"
  fix d assume d: "d < length (q_id_to_position ?q)" "?x d \<noteq> -1"
  define y where "y = q_id_to_position q ! d"
  have neq: "d \<noteq> qi_id (q_items q ! position)"
    using d by (auto simp: table_deleted posmap_def)
  with d have x: "?x d = posmap (shift_down_pos 1 position ?n) y"
    by (simp add: table_deleted y_def)
  with d have "y \<noteq> -1" by (auto simp: posmap_def)
  then have y: "0 \<le> y" "nat y < q_length q" "qi_id (q_items q ! nat y) = d"
    using wf_id_table [OF assms(1), of d] d by (auto simp: y_def)
  have ny: "nat y \<noteq> position" using y(3) neq by auto
  let ?p = "shift_down_pos 1 position ?n (nat y)"
  have p: "?p < ?n" using y(2) ny assms(2) by (auto simp: shift_down_pos_def)
  have "?p < length (q_items q)" using p assms(1) by simp
  moreover have "qi_id (shift_down_items q 1 position ?n ?p) = d"
    using y(2,3) ny by (auto simp: shift_down_items_def shift_down_pos_def)
  ultimately have "qi_id (q_items ?q ! ?p) = d"
    by (simp add: nth_items_deleted)
  then show "0 \<le> ?x d" "?x d < int (q_length ?q)" "qi_id (q_items ?q ! nat (?x d)) = d"
    using y(1) p by (simp_all add: x posmap_def)
qed

lemma deleted_wf:
  assumes "queue_wf q" "ord < q_length q" "position = q_order q ! ord"
  shows "queue_wf (deleted q position ord)"
proof -
  let ?q = "deleted q position ord"
  have pos: "position < q_length q" using assms wf_order_less by simp
  have po: "distinct (play_order q)" "set (play_order q) = {..<q_length q}"
    using assms(1) by (auto simp: queue_wf_def order_okD)
  have at: "play_order q ! ord = position" using assms by (simp add: play_order_def)
  note rem = remove_nth_distinct [OF po(1), of ord]
  have "order_ok ?q"
    using rem dec_above_bij [OF pos] assms(1,2)
    by (intro order_okI) (auto simp: play_order_deleted distinct_map po(2) at bij_betw_def)
  moreover have "arrays_ok ?q"
    using queue_wfD [OF assms(1)] by (simp add: arrays_ok_def)
  moreover have "versions_ok ?q"
    using assms(1) by (auto simp: queue_wf_def versions_ok_def nth_items_deleted shift_down_items_def)
  ultimately show ?thesis
    using deleted_ids_ok [OF assms(1) pos] by (simp add: queue_wf_def)
qed

lemma queue_view_deleted:
  assumes "queue_wf q" "position < q_length q" "queue_wf (deleted q position ord)"
  shows "queue_view (deleted q position ord) = remove_nth position (queue_view q)"
proof (rule list_eq_nthI [where n = "q_length q - 1"])
  fix p assume p: "p < q_length q - 1"
  then have "q_items (deleted q position ord) ! p = shift_down_items q 1 position (q_length q - 1) p"
    using assms(1) by (simp add: nth_items_deleted)
  then show "queue_view (deleted q position ord) ! p = remove_nth position (queue_view q) ! p"
    using p assms
    by (simp add: nth_queue_view nth_remove_nth length_queue_view shift_down_items_def)
qed (use assms in \<open>simp_all add: length_queue_view\<close>)

lemma play_ids_deleted:
  assumes "queue_wf q" "ord < q_length q" "position = q_order q ! ord"
  shows "play_ids (deleted q position ord) = remove_nth ord (play_ids q)"
proof -
  let ?q = "deleted q position ord"
  have pos: "position < q_length q" using assms wf_order_less by simp
  have po: "distinct (play_order q)" "set (play_order q) = {..<q_length q}"
    using assms(1) by (auto simp: queue_wf_def order_okD)
  have at: "play_order q ! ord = position" using assms by (simp add: play_order_def)
  have "qi_id (q_items ?q ! dec_above position p) = qi_id (q_items q ! p)"
    if "p \<in> set (remove_nth ord (play_order q))" for p
  proof -
    from that have p: "p < q_length q" "p \<noteq> position"
      using remove_nth_distinct(2) [OF po(1), of ord] assms po(2) at by auto
    then have "dec_above position p < length (q_items q)"
      using assms(1) by (auto simp: dec_above_def)
    then show ?thesis
      using p by (simp add: nth_items_deleted) (auto simp: shift_down_items_def dec_above_def)
  qed
  then show ?thesis
    using assms by (simp add: play_ids_def play_order_deleted map_remove_nth [symmetric] o_def cong: map_cong)
qed

end
