(* ===== verification/Playqueue_Order.thy ===== *)
theory Playqueue_Order
  imports Playqueue_Moves
begin

text \<open>
  Version numbers, the operations on the whole queue and the play order: what the \<^verbatim>\<open>plchanges\<close>
  protocol command relies on, and that the shuffling operations permute the play order without
  breaking the order of the priority groups.
\<close>

section \<open>Versions\<close>

definition map_items :: "(queue_item \<Rightarrow> queue_item) \<Rightarrow> 'g queue \<Rightarrow> 'g queue" where
  "map_items g q =
     q\<lparr>q_items := map g (take (q_length q) (q_items q)) @ drop (q_length q) (q_items q)\<rparr>"

lemma map_items_sel [simp]:
  "q_max_length (map_items g q) = q_max_length q" "q_length (map_items g q) = q_length q"
  "q_version (map_items g q) = q_version q" "q_order (map_items g q) = q_order q"
  "q_id_to_position (map_items g q) = q_id_to_position q"
  "q_repeat (map_items g q) = q_repeat q" "q_single (map_items g q) = q_single q"
  "q_consume (map_items g q) = q_consume q" "q_random (map_items g q) = q_random q"
  "length (q_items (map_items g q)) = length (q_items q)"
  by (simp_all add: map_items_def)

lemma nth_map_items [simp]:
  "p < q_length q \<Longrightarrow> q_length q \<le> length (q_items q) \<Longrightarrow>
   q_items (map_items g q) ! p = g (q_items q ! p)"
  by (simp add: map_items_def nth_append)

lemma map_items_loop:
  assumes "q_length q \<le> length (q_items q)"
    and body: "\<And>i its. i < length its \<Longrightarrow> length its = length (q_items q) \<Longrightarrow>
      body i (q\<lparr>q_items := its\<rparr>) = Some (q\<lparr>q_items := its[i := g (its ! i)]\<rparr>)"
  shows "for_each body [0..<q_length q] q = Some (map_items g q)"
proof -
  let ?its = "\<lambda>i. map g (take i (q_items q)) @ drop i (q_items q)"
  have "for_each body [0..<q_length q] (q\<lparr>q_items := ?its 0\<rparr>) =
      Some (q\<lparr>q_items := ?its (q_length q)\<rparr>)"
  proof (rule for_each_upt_eq [where F = "\<lambda>i. q\<lparr>q_items := ?its i\<rparr>"])
    fix i assume "i < q_length q"
    with assms(1) have i: "i < length (q_items q)" by simp
    have "(?its i)[i := g (?its i ! i)] = ?its (Suc i)"
      using i by (simp add: nth_append list_update_append take_Suc_conv_app_nth
          Cons_nth_drop_Suc [symmetric])
    then show "body i (q\<lparr>q_items := ?its i\<rparr>) = Some (q\<lparr>q_items := ?its (Suc i)\<rparr>)"
      using body [of i "?its i"] i by simp
  qed simp
  then show ?thesis by (simp add: map_items_def)
qed

definition incremented :: "'g queue \<Rightarrow> 'g queue" where
  "incremented q =
     (if 0x7fffffff \<le> q_version q + 1 then (map_items (touched 0) q)\<lparr>q_version := 1\<rparr>
      else q\<lparr>q_version := q_version q + 1\<rparr>)"

lemma queue_increment_version_eq:
  assumes "queue_wf q"
  shows "queue_increment_version q = Some (incremented q)"
proof -
  have "for_each reset_version [0..<q_length q] (q\<lparr>q_version := v\<rparr>) =
      Some (map_items (touched 0) (q\<lparr>q_version := v\<rparr>))" for v
    using map_items_loop [of "q\<lparr>q_version := v\<rparr>" reset_version "touched 0"] queue_wfD [OF assms]
    by (simp add: reset_version_def touched_def)
  then show ?thesis
    by (simp add: queue_increment_version_def incremented_def Let_def map_items_def)
qed

lemma incremented_sel [simp]:
  "q_max_length (incremented q) = q_max_length q" "q_length (incremented q) = q_length q"
  "q_order (incremented q) = q_order q"
  "q_id_to_position (incremented q) = q_id_to_position q"
  "q_repeat (incremented q) = q_repeat q" "q_single (incremented q) = q_single q"
  "q_consume (incremented q) = q_consume q" "q_random (incremented q) = q_random q"
  "length (q_items (incremented q)) = length (q_items q)"
  by (simp_all add: incremented_def)

lemma item_key_incremented [simp]:
  "queue_wf q \<Longrightarrow> p < q_length q \<Longrightarrow> item_key (q_items (incremented q) ! p) = item_key (q_items q ! p)"
  by (simp add: incremented_def queue_wfD)

lemma item_key_id: "item_key a = item_key b \<Longrightarrow> qi_id a = qi_id b \<and> qi_song a = qi_song b \<and>
    qi_priority a = qi_priority b"
  by (simp add: item_key_def)

text \<open>Queues that differ in flags, versions and the id counter only are equally well-formed.\<close>

lemma same_keys_wf:
  assumes "queue_wf q" "q_max_length q' = q_max_length q" "q_length q' = q_length q"
    "q_order q' = q_order q" "q_id_to_position q' = q_id_to_position q"
    "length (q_items q') = length (q_items q)"
    "\<And>p. p < q_length q \<Longrightarrow> item_key (q_items q' ! p) = item_key (q_items q ! p)"
    "versions_ok q'"
  shows "queue_wf q'"
proof -
  have same: "qi_id (q_items q' ! p) = qi_id (q_items q ! p)" if "p < q_length q" for p
    using assms(7) [OF that] by (simp add: item_key_def)
  have "ids_ok q'"
    using assms(1,3,5) same by (auto simp: queue_wf_def ids_ok_def owns_def Let_def)
  then show ?thesis
    using assms by (simp add: queue_wf_def arrays_ok_def order_ok_def play_order_def)
qed

lemma incremented_wf:
  assumes "queue_wf q"
  shows "queue_wf (incremented q)"
proof -
  have v: "1 \<le> q_version q" "q_version q < 0x7fffffff"
    and le: "\<And>p. p < q_length q \<Longrightarrow> qi_version (q_items q ! p) \<le> q_version q"
    using assms by (auto simp: queue_wf_def versions_ok_def)
  have up: "q_version q \<le> q_version q + 1" 
    using v(2) by (intro inc_u32_le) (simp add: word_less_nat_alt)
  then have "versions_ok (incremented q)"
    using v le queue_wfD [OF assms]
    by (auto simp: versions_ok_def incremented_def intro: order_trans)
  then show ?thesis
    using assms by (intro same_keys_wf [OF assms]) auto
qed

lemma queue_view_incremented:
  assumes "queue_wf q"
  shows "queue_view (incremented q) = queue_view q"
  using incremented_wf [OF assms] assms
  by (intro list_eq_nthI [where n = "q_length q"]) (auto simp: length_queue_view nth_queue_view)

lemma play_order_incremented [simp]: "play_order (incremented q) = play_order q"
  by (simp add: play_order_def)

text \<open>
  \<open>stamped q q'\<close>: every slot of \<open>q'\<close> either is the same item as in \<open>q\<close> or carries the version
  number of \<open>q\<close>.  It is what the editing operations guarantee, and it composes.
\<close>

definition stamped :: "'g queue \<Rightarrow> 'g queue \<Rightarrow> bool" where
  "stamped q q' \<longleftrightarrow> q_version q' = q_version q \<and>
     (\<forall>p < q_length q'. (p < q_length q \<and> q_items q' ! p = q_items q ! p) \<or>
        qi_version (q_items q' ! p) = q_version q)"

lemma stamped_refl [simp]: "stamped q q"
  by (simp add: stamped_def)

lemma stamped_trans: "stamped q q1 \<Longrightarrow> stamped q1 q2 \<Longrightarrow> stamped q q2"
  unfolding stamped_def by metis

text \<open>A client that knows version \<open>v\<close> is told of every slot that changed since.\<close>

lemma stamped_newer:
  assumes "stamped q q'" "queue_wf q'" "p < q_length q'" "v \<le> q_version q"
    and "q_length q \<le> p \<or> item_key (q_items q' ! p) \<noteq> item_key (q_items q ! p)"
  shows "queue_song_newer (incremented q') p v = Some True"
proof -
  have "qi_version (q_items q' ! p) = q_version q" "q_version q' = q_version q"
    using assms(1,3,5) by (auto simp: stamped_def)
  then have "qi_version (q_items (incremented q') ! p) = 0 \<or>
      v \<le> qi_version (q_items (incremented q') ! p)"
    using assms(2-4) queue_wfD [OF assms(2)] by (auto simp: incremented_def)
  then show ?thesis
    using assms(2,3) queue_wfD [OF assms(2)] by (auto simp: queue_song_newer_def)
qed

lemma relocated_stamped:
  assumes "queue_wf q" "relocates f h q"
  shows "stamped q (placed f h q)"
  using assms by (auto simp: stamped_def relocates_def)

lemma appended_stamped:
  assumes "queue_wf q" "q_length q < q_max_length q"
  shows "stamped q (appended q song priority sid)"
  using assms queue_wfD [OF assms(1)]
  by (auto simp: stamped_def appended_def nth_list_update less_Suc_eq)

lemma deleted_stamped:
  assumes "queue_wf q"
  shows "stamped q (deleted q position ord)"
  using assms queue_wfD [OF assms]
  by (auto simp: stamped_def nth_items_deleted shift_down_items_def)

lemma stamped_cong:
  "stamped q q' \<Longrightarrow> q_version q'' = q_version q' \<Longrightarrow> q_length q'' = q_length q' \<Longrightarrow>
   q_items q'' = q_items q' \<Longrightarrow> stamped q q''"
  by (simp add: stamped_def)

section \<open>Marking songs as modified\<close>

lemma touch_item_eq:
  "i < length (q_items q) \<Longrightarrow>
   touch_item i q = Some (q\<lparr>q_items := (q_items q)[i := touched (q_version q) (q_items q ! i)]\<rparr>)"
  by (simp add: touch_item_def touched_def)

lemma touch_item_wf:
  assumes "queue_wf q" "p < q_length q"
  shows "queue_wf (q\<lparr>q_items := (q_items q)[p := touched (q_version q) (q_items q ! p)]\<rparr>)"
  using assms
  by (intro same_keys_wf [OF assms(1)])
     (auto simp: nth_list_update queue_wf_def versions_ok_def)

lemma queue_modify_eq:
  assumes "queue_wf q" "ord < q_length q"
  obtains q' where "queue_modify q ord = Some q'" "queue_wf q'" "queue_view q' = queue_view q"
    "play_order q' = play_order q" "q_length q' = q_length q" "q_random q' = q_random q"
proof -
  let ?p = "q_order q ! ord"
  let ?q = "q\<lparr>q_items := (q_items q)[?p := touched (q_version q) (q_items q ! ?p)]\<rparr>"
  have p: "?p < q_length q" using assms by (rule wf_order_less)
  have wf: "queue_wf ?q" using assms(1) p by (rule touch_item_wf)
  have view: "queue_view ?q = queue_view q"
    using wf assms(1) p
    by (intro list_eq_nthI [where n = "q_length q"])
       (auto simp: length_queue_view nth_queue_view nth_list_update)
  have "queue_modify q ord = Some (incremented ?q)"
    using assms p wf by (simp add: queue_modify_def touch_item_eq queue_increment_version_eq)
  with that [of "incremented ?q"] wf view show ?thesis
    by (simp add: incremented_wf queue_view_incremented) (simp add: play_order_def)
qed

lemma queue_modify_all_eq:
  assumes "queue_wf q"
  shows "queue_modify_all q = Some (incremented (map_items (touched (q_version q)) q))"
    "queue_wf (map_items (touched (q_version q)) q)"
proof -
  let ?q = "map_items (touched (q_version q)) q"
  note len = queue_wfD [OF assms]
  have "for_each touch_item [0..<q_length q] q = Some ?q"
    using len by (intro map_items_loop) (auto simp: touch_item_eq)
  moreover show wf: "queue_wf ?q"
    using len assms
    by (intro same_keys_wf [OF assms]) (auto simp: queue_wf_def versions_ok_def)
  ultimately show "queue_modify_all q = Some (incremented ?q)"
    by (simp add: queue_modify_all_def queue_increment_version_eq)
qed

section \<open>The whole queue\<close>

lemma queue_init_wf:
  assumes "length order_mem = max_length" "max_length * QUEUE_HASH_MULT < 2 ^ 31"
  shows "queue_wf (queue_init order_mem rand cur max_length)"
  using assms by (simp add: queue_init_def queue_wf_defs play_order_def)

text \<open>Clearing frees the songs the database does not own, in order, and releases all ids.\<close>

definition unowned :: "'g queue \<Rightarrow> song list" where
  "unowned q = filter (\<lambda>s. \<not> song_in_database s) (map qi_song (take (q_length q) (q_items q)))"

lemma queue_clear_loop:
  assumes "queue_wf q" "k \<le> q_length q"
  shows "for_each queue_clear_item [0..<k] q = Some (q\<lparr>
      q_freed := q_freed q @
        filter (\<lambda>s. \<not> song_in_database s) (map qi_song (take k (q_items q))),
      q_id_to_position := map (\<lambda>x. if 0 \<le> x \<and> x < int k then -1 else x) (q_id_to_position q)\<rparr>)"
    (is "_ = Some (?F k)")
proof -
  have "q\<lparr>q_id_to_position := q_id_to_position q, q_freed := q_freed q\<rparr> = q" by simp
  then have "?F 0 = q" by (simp add: map_idI)
  moreover have "for_each queue_clear_item [0..<k] (?F 0) = Some (?F k)"
  proof (rule for_each_upt_eq [where F = ?F])
    fix i assume "i < k"
    with assms have i: "i < q_length q" by simp
    let ?it = "q_items q ! i"
    have own: "sole_owner q i" using assms(1) i by (rule wf_sole_owner)
    then have d: "qi_id ?it < length (q_id_to_position q)" "q_id_to_position q ! qi_id ?it = int i"
      by (auto simp: sole_owner_def owns_def)
    let ?f = "\<lambda>k x. if 0 \<le> x \<and> x < int k then -1 else x"
    have "(map (?f i) (q_id_to_position q))[qi_id ?it := ?f (Suc i) (q_id_to_position q ! qi_id ?it)] =
        map (?f (Suc i)) (q_id_to_position q)"
    proof (rule map_update_unique [OF d(1)])
      fix e assume "e < length (q_id_to_position q)" "e \<noteq> qi_id ?it"
      then show "q_id_to_position q ! e \<noteq> q_id_to_position q ! qi_id ?it"
        using own d(2) by (auto simp: sole_owner_def)
    next
      fix x :: int assume "x \<noteq> q_id_to_position q ! qi_id ?it"
      then show "?f i x = ?f (Suc i) x" using d(2) by auto
    qed
    then have "(map (?f i) (q_id_to_position q))[qi_id ?it := -1] = map (?f (Suc i)) (q_id_to_position q)"
      by (simp add: d(2))
    then show "queue_clear_item i (?F i) = Some (?F (Suc i))"
      using i d assms(1)
      by (simp add: queue_clear_item_def song_free_if_unowned_def take_Suc_conv_app_nth)
  qed simp
  ultimately show ?thesis by simp
qed

lemma queue_clear_eq:
  assumes "queue_wf q"
  shows "queue_clear q = Some (q\<lparr>q_freed := q_freed q @ unowned q,
     q_id_to_position := replicate (length (q_id_to_position q)) (-1), q_length := 0\<rparr>)"
proof -
  have "map (\<lambda>x. if 0 \<le> x \<and> x < int (q_length q) then -1 else x) (q_id_to_position q) =
      replicate (length (q_id_to_position q)) (-1)"
    using wf_id_table [OF assms] by (intro replicate_eqI) (auto simp: in_set_conv_nth)
  then show ?thesis
    using queue_clear_loop [OF assms order_refl] by (simp add: queue_clear_def unowned_def)
qed

lemma queue_clear_wf:
  assumes "queue_wf q" "queue_clear q = Some q'"
  shows "queue_wf q'"
  using assms by (auto simp: queue_clear_eq queue_wf_defs play_order_def)

end
