(* ===== verification/Playqueue_Shuffle.thy ===== *)
theory Playqueue_Shuffle
  imports Playqueue_Order
begin

text \<open>
  The operations on the play order: swapping, restoring and shuffling it.  The priorities along the
  play order are the key notion: shuffling within a group of equal priority leaves them unchanged.
\<close>

section \<open>Reorderings\<close>

text \<open>\<open>q'\<close> is \<open>q\<close> with its play order permuted and its random generator advanced.\<close>

definition reordered :: "'g queue \<Rightarrow> 'g queue \<Rightarrow> bool" where
  "reordered q q' \<longleftrightarrow>
     q' = q\<lparr>q_order := q_order q', q_rand := q_rand q'\<rparr> \<and>
     length (q_order q') = length (q_order q) \<and>
     mset (play_order q') = mset (play_order q)"

definition play_prios :: "'g queue \<Rightarrow> u8 list" where
  "play_prios q = map (\<lambda>p. qi_priority (q_items q ! p)) (play_order q)"

lemma reordered_refl [simp]: "reordered q q"
  by (simp add: reordered_def)

lemma reordered_sel:
  assumes "reordered q q'"
  shows "q_max_length q' = q_max_length q" "q_length q' = q_length q" "q_version q' = q_version q"
    "q_items q' = q_items q" "q_id_to_position q' = q_id_to_position q" "q_repeat q' = q_repeat q"
    "q_single q' = q_single q" "q_consume q' = q_consume q" "q_random q' = q_random q"
    "q_cur q' = q_cur q" "q_freed q' = q_freed q" "length (q_order q') = length (q_order q)"
proof -
  obtain xs g where "q' = q\<lparr>q_order := xs, q_rand := g\<rparr>"
    using assms by (auto simp: reordered_def)
  then show "q_max_length q' = q_max_length q" "q_length q' = q_length q" "q_version q' = q_version q"
    "q_items q' = q_items q" "q_id_to_position q' = q_id_to_position q" "q_repeat q' = q_repeat q"
    "q_single q' = q_single q" "q_consume q' = q_consume q" "q_random q' = q_random q"
    "q_cur q' = q_cur q" "q_freed q' = q_freed q"
    by simp_all
  show "length (q_order q') = length (q_order q)"
    using assms by (simp add: reordered_def)
qed

lemma reordered_trans:
  assumes "reordered q q1" "reordered q1 q2"
  shows "reordered q q2"
proof -
  have "q2 = q1\<lparr>q_order := q_order q2, q_rand := q_rand q2\<rparr>"
    using assms(2) by (simp add: reordered_def)
  also have "\<dots> = q\<lparr>q_order := q_order q1, q_rand := q_rand q1\<rparr>\<lparr>q_order := q_order q2, q_rand := q_rand q2\<rparr>"
    using assms(1) by (metis reordered_def)
  finally show ?thesis
    using assms by (simp add: reordered_def)
qed

lemma reordered_wf:
  assumes "reordered q q'" "queue_wf q"
  shows "queue_wf q'"
proof -
  note sel = reordered_sel [OF assms(1)]
  have "order_ok q'"
    using assms sel(2) by (simp add: queue_wf_def order_ok_def reordered_def)
  moreover have "arrays_ok q'" "versions_ok q'"
    using assms(2) sel by (simp_all add: queue_wf_def arrays_ok_def versions_ok_def)
  moreover have "ids_ok q'"
    using assms(2) sel by (auto simp: queue_wf_def ids_ok_def owns_def)
  ultimately show ?thesis by (simp add: queue_wf_def)
qed

lemma reordered_view: "reordered q q' \<Longrightarrow> queue_view q' = queue_view q"
  by (simp add: queue_view_def reordered_sel)

lemma reordered_play_ids: "reordered q q' \<Longrightarrow> mset (play_ids q') = mset (play_ids q)"
  by (simp add: play_ids_def reordered_sel(4)) (metis mset_map reordered_def)

lemma reordered_stamped: "reordered q q' \<Longrightarrow> stamped q q'"
  by (simp add: stamped_def reordered_sel)

lemma length_play_prios [simp]: "queue_wf q \<Longrightarrow> length (play_prios q) = q_length q"
  by (simp add: play_prios_def)

lemma nth_play_prios:
  "queue_wf q \<Longrightarrow> i < q_length q \<Longrightarrow> play_prios q ! i = qi_priority (q_items q ! (q_order q ! i))"
  by (simp add: play_prios_def play_order_def)

subsection \<open>Single swaps\<close>

lemma queue_swap_order_eq:
  assumes "queue_wf q" "i < q_length q" "j < q_length q"
  shows "queue_swap_order q i j = Some (q\<lparr>q_order := swap_at i j (q_order q)\<rparr>)"
  using assms by (simp add: queue_swap_order_def swap_at_def)

lemma play_order_swap:
  assumes "queue_wf q" "i < q_length q" "j < q_length q"
  shows "play_order (q\<lparr>q_order := swap_at i j (q_order q)\<rparr>) = swap_at i j (play_order q)"
  using assms queue_wfD [OF assms(1)] by (simp add: play_order_def take_swap_at)

lemma swap_order_reordered:
  assumes "queue_wf q" "i < q_length q" "j < q_length q"
  shows "reordered q (q\<lparr>q_order := swap_at i j (q_order q), q_rand := g\<rparr>)"
proof -
  have "play_order (q\<lparr>q_order := swap_at i j (q_order q), q_rand := g\<rparr>) = swap_at i j (play_order q)"
    using play_order_swap [OF assms] by (simp add: play_order_def)
  then show ?thesis
    using assms by (simp add: reordered_def)
qed

lemma map_swap_at: "i < length xs \<Longrightarrow> j < length xs \<Longrightarrow> map f (swap_at i j xs) = swap_at i j (map f xs)"
  by (simp add: swap_at_def map_update)

lemma swap_at_same: "i < length xs \<Longrightarrow> j < length xs \<Longrightarrow> xs ! i = xs ! j \<Longrightarrow> swap_at i j xs = xs"
  by (intro list_eq_nthI [where n = "length xs"]) (auto simp: nth_swap_at)

lemma swap_order_prios:
  assumes "queue_wf q" "i < q_length q" "j < q_length q" "play_prios q ! i = play_prios q ! j"
  shows "play_prios (q\<lparr>q_order := swap_at i j (q_order q), q_rand := g\<rparr>) = play_prios q"
proof -
  have "play_order (q\<lparr>q_order := swap_at i j (q_order q), q_rand := g\<rparr>) = swap_at i j (play_order q)"
    using play_order_swap [OF assms(1-3)] by (simp add: play_order_def)
  then have "play_prios (q\<lparr>q_order := swap_at i j (q_order q), q_rand := g\<rparr>) =
      swap_at i j (play_prios q)"
    using assms by (simp add: play_prios_def map_swap_at)
  then show ?thesis
    using assms by (simp add: swap_at_same)
qed

text \<open>A swap with a randomly chosen partner, the step all shuffles are made of.\<close>

lemma rand_swap:
  assumes "glib_ok G" "queue_wf q" "a < b" "b \<le> q_length q" "i < q_length q"
  obtains r g where "a \<le> r" "r < b"
    "queue_rand G q a b = Some (r, q\<lparr>q_rand := g\<rparr>)"
    "queue_swap_order (q\<lparr>q_rand := g\<rparr>) i r = Some (q\<lparr>q_order := swap_at i r (q_order q), q_rand := g\<rparr>)"
proof -
  obtain r g where rg: "g_rand_int_range G (q_rand q) a b = (r, g)"
    by (cases "g_rand_int_range G (q_rand q) a b")
  with assms(1,3) have r: "a \<le> r" "r < b"
    by (auto simp: glib_ok_def) (metis fst_conv)+
  moreover have "queue_rand G q a b = Some (r, q\<lparr>q_rand := g\<rparr>)"
    using rg assms(3) by (simp add: queue_rand_def)
  moreover have "queue_swap_order (q\<lparr>q_rand := g\<rparr>) i r =
      Some (q\<lparr>q_order := swap_at i r (q_order q), q_rand := g\<rparr>)"
    using assms r by (simp add: queue_swap_order_def swap_at_def)
  ultimately show ?thesis using that by blast
qed

subsection \<open>Restoring the order\<close>

lemma queue_restore_order_eq:
  assumes "queue_wf q"
  obtains q' where "queue_restore_order q = Some q'" "reordered q q'" "play_order q' = [0..<q_length q]"
    "q_rand q' = q_rand q"
proof -
  let ?F = "\<lambda>i. q\<lparr>q_order := [0..<i] @ drop i (q_order q)\<rparr>"
  note len = queue_wfD [OF assms]
  let ?body = "\<lambda>i q. do { ord \<leftarrow> aset (q_order q) i i; Some (q\<lparr>q_order := ord\<rparr>) }"
  have "for_each ?body [0..<q_length q] (?F 0) = Some (?F (q_length q))"
  proof (rule for_each_upt_eq [where F = ?F])
    fix i assume i: "i < q_length q"
    then have "([0..<i] @ drop i (q_order q))[i := i] = [0..<Suc i] @ drop (Suc i) (q_order q)"
      using assms by (simp add: list_update_append Cons_nth_drop_Suc [symmetric])
    then show "?body i (?F i) = Some (?F (Suc i))"
      using i len by simp
  qed simp
  then have "queue_restore_order q = Some (?F (q_length q))"
    by (simp add: queue_restore_order_def)
  moreover have po: "play_order (?F (q_length q)) = [0..<q_length q]"
    by (simp add: play_order_def)
  moreover have "reordered q (?F (q_length q))"
    using assms len po by (simp add: reordered_def queue_wf_def order_ok_def)
  ultimately show ?thesis
    using that by simp
qed

section \<open>Shuffling\<close>

text \<open>Shuffling a range permutes the play order; in a group of equal priority the priorities stay.\<close>

lemma queue_shuffle_order_range_eq:
  assumes "glib_ok G" "queue_wf q" "q_random q" "start \<le> end" "end \<le> q_length q"
    and prio: "\<And>i. start \<le> i \<Longrightarrow> i < end \<Longrightarrow> play_prios q ! i = c"
  obtains q' where "queue_shuffle_order_range G q start end = Some q'" "reordered q q'"
    "play_prios q' = play_prios q"
proof -
  let ?body = "\<lambda>i q. do { (r, q) \<leftarrow> queue_rand G q i end; queue_swap_order q i r }"
  have "\<exists>q'. for_each ?body [start..<end] q = Some q' \<and> (reordered q q' \<and> play_prios q' = play_prios q)"
  proof (rule for_each_list)
    fix i t assume i: "i \<in> set [start..<end]" and t: "reordered q t \<and> play_prios t = play_prios q"
    have wf: "queue_wf t" using t reordered_wf assms(2) by blast
    have len: "q_length t = q_length q" using t reordered_sel(2) by blast
    obtain r g where r: "i \<le> r" "r < end" "queue_rand G t i end = Some (r, t\<lparr>q_rand := g\<rparr>)"
      "queue_swap_order (t\<lparr>q_rand := g\<rparr>) i r = Some (t\<lparr>q_order := swap_at i r (q_order t), q_rand := g\<rparr>)"
      using rand_swap [OF assms(1) wf, of i "end" i] i assms(5) len by auto
    let ?t = "t\<lparr>q_order := swap_at i r (q_order t), q_rand := g\<rparr>"
    have "play_prios t ! i = play_prios t ! r"
      using t prio [of i] prio [of r] i r by simp
    then have "play_prios ?t = play_prios t"
      using i r assms(5) len by (intro swap_order_prios [OF wf]) auto
    moreover have "reordered t ?t"
      using i r assms(5) len by (intro swap_order_reordered [OF wf]) auto
    ultimately show "\<exists>s'. ?body i t = Some s' \<and> (reordered q s' \<and> play_prios s' = play_prios q)"
      using r t by (auto intro: reordered_trans)
  qed simp
  then show ?thesis
    using that assms by (auto simp: queue_shuffle_order_range_def)
qed

lemma compare_total_preorder: "total_preorder (queue_item_compare_order_priority q)"
  by (auto simp: total_preorder_def queue_item_compare_order_priority_def Let_def)

lemma compare_le_0:
  "queue_item_compare_order_priority q a b \<le> 0 \<longleftrightarrow>
   qi_priority (q_items q ! b) \<le> qi_priority (q_items q ! a)"
  by (auto simp: queue_item_compare_order_priority_def Let_def)

lemma queue_sort_order_eq:
  assumes "glib_ok G" "queue_wf q" "q_random q" "start \<le> end" "end \<le> q_length q"
  obtains q' where "queue_sort_order_by_priority G q start end = Some q'" "reordered q q'"
    "sorted_wrt (\<ge>) (take (end - start) (drop start (play_prios q')))"
proof -
  define seg where "seg = take (end - start) (drop start (q_order q))"
  define seg' where "seg' = g_qsort_with_data G (queue_item_compare_order_priority q) seg"
  let ?xs = "take start (q_order q) @ seg' @ drop end (q_order q)"
  let ?q = "q\<lparr>q_order := ?xs\<rparr>"
  note len = queue_wfD [OF assms(2)]
  have s: "mset seg' = mset seg" "sorted_wrt (\<lambda>a b. queue_item_compare_order_priority q a b \<le> 0) seg'"
    using assms(1) compare_total_preorder [of q] by (auto simp: glib_ok_def seg'_def)
  have lseg: "length seg = end - start" using assms(4,5) len by (simp add: seg_def)
  with s(1) have lseg': "length seg' = end - start" by (metis size_mset)
  have "set seg \<subseteq> set (play_order q)"
    using set_drop_subset [of start "take end (q_order q)"]
      set_take_subset_set_take [OF assms(5), of "q_order q"]
    by (simp add: seg_def play_order_def drop_take)
  then have "\<forall>p \<in> set seg. p < q_length q"
    using assms(2) by (auto simp: queue_wf_def order_okD)
  then have inr: "list_all (\<lambda>p. p < length (q_items q)) seg"
    using assms(2) by (simp add: list_all_iff)
  have split: "q_order q = take start (q_order q) @ seg @ drop end (q_order q)"
    using assms(4) unfolding seg_def
    by (metis append_take_drop_id drop_drop le_add_diff_inverse2)
  have po: "play_order ?q = take start (q_order q) @ seg' @ take (q_length q - end) (drop end (q_order q))"
    using assms(4,5) lseg' len by (simp add: play_order_def)
  have po0: "play_order q = take start (q_order q) @ seg @ take (q_length q - end) (drop end (q_order q))"
    using assms(4,5) lseg len by (subst (1) play_order_def, subst split) simp
  have "reordered q ?q"
    using s(1) lseg' assms(4,5) len by (simp add: reordered_def po po0)
  moreover have "queue_sort_order_by_priority G q start end = Some ?q"
    using assms len inr by (simp add: queue_sort_order_by_priority_def seg_def seg'_def Let_def)
  moreover have "take (end - start) (drop start (play_prios ?q)) =
      map (\<lambda>p. qi_priority (q_items q ! p)) seg'"
    using assms(4,5) lseg' len by (simp add: play_prios_def po)
  moreover have "sorted_wrt (\<ge>) (map (\<lambda>p. qi_priority (q_items q ! p)) seg')"
    using s(2) by (simp add: sorted_wrt_map compare_le_0)
  ultimately show ?thesis
    using that by simp
qed

lemma queue_get_order_priority_Some:
  assumes "queue_wf q" "i < q_length q"
  shows "queue_get_order_priority q i = Some (play_prios q ! i)"
  using assms wf_order_less [OF assms]
  by (simp add: queue_get_order_priority_def nth_play_prios)

text \<open>
  The loop over the priority groups: the songs of the current group all have the priority
  \<open>group_priority\<close>, and the priorities along the play order are never changed.
\<close>

lemma shuffle_group_step_eq:
  assumes "glib_ok G" "queue_wf q" "q_random q" "start \<le> gs" "gs < i" "i < q_length q"
    and t: "reordered q t" "play_prios t = play_prios q"
    and grp: "\<And>j. gs \<le> j \<Longrightarrow> j < i \<Longrightarrow> play_prios q ! j = gp"
    and desc: "play_prios q ! i \<le> gp"
  obtains gs' gp' t' where "shuffle_group_step G i (gs, gp, t) = Some (gs', gp', t')"
    "start \<le> gs'" "gs' < Suc i" "reordered q t'" "play_prios t' = play_prios q"
    "\<And>j. gs' \<le> j \<Longrightarrow> j < Suc i \<Longrightarrow> play_prios q ! j = gp'"
proof -
  have wf: "queue_wf t" using reordered_wf t(1) assms(2) by blast
  note sel = reordered_sel [OF t(1)]
  have get: "queue_get_order_priority t i = Some (play_prios q ! i)"
    using queue_get_order_priority_Some [OF wf, of i] assms(6) sel(2) t(2) by simp
  show ?thesis
  proof (cases "play_prios q ! i = gp")
    case True
    then have "shuffle_group_step G i (gs, gp, t) = Some (gs, gp, t)"
      by (simp add: shuffle_group_step_def get)
    then show ?thesis
      using that [of gs gp t] assms True grp by (auto simp: less_Suc_eq)
  next
    case False
    have pt: "play_prios t ! j = gp" if "gs \<le> j" "j < i" for j
      using grp [OF that] t(2) by simp
    have rt: "q_random t" "gs \<le> i" "i \<le> q_length t" using assms(3,5,6) sel by simp_all
    obtain t' where t': "queue_shuffle_order_range G t gs i = Some t'" "reordered t t'"
      "play_prios t' = play_prios t"
      using queue_shuffle_order_range_eq [OF assms(1) wf rt pt] by blast
    then have "shuffle_group_step G i (gs, gp, t) = Some (i, play_prios q ! i, t')"
      using False desc by (simp add: shuffle_group_step_def get)
    then show ?thesis
    proof (rule that)
      show "play_prios t' = play_prios q" using t'(3) t(2) by (rule trans)
      show "start \<le> i" using assms(4,5) by simp
      show "play_prios q ! j = play_prios q ! i" if "i \<le> j" "j < Suc i" for j
        using that by (metis le_antisym less_Suc_eq_le)
    qed (simp_all add: reordered_trans [OF t(1) t'(2)])
  qed
qed

lemma queue_shuffle_order_eq:
  assumes "glib_ok G" "queue_wf q" "q_random q"
  obtains q' where "queue_shuffle_order G q = Some q'" "reordered q q'" "sorted_wrt (\<ge>) (play_prios q')"
proof (cases "q_length q = 0")
  case True
  then show ?thesis
    using that [of q] assms
    by (simp add: queue_shuffle_order_def queue_shuffle_order_range_with_priority_def play_prios_def
        play_order_def)
next
  case False
  let ?n = "q_length q"
  obtain s where s: "queue_sort_order_by_priority G q 0 ?n = Some s" "reordered q s"
    "sorted_wrt (\<ge>) (take ?n (play_prios s))"
    using queue_sort_order_eq [OF assms, of 0 ?n] by auto
  have wf: "queue_wf s" using s(2) assms(2) reordered_wf by blast
  note sel = reordered_sel [OF s(2)]
  have sorted: "sorted_wrt (\<ge>) (play_prios s)" using s(3) wf sel(2) by simp
  have get: "queue_get_order_priority s 0 = Some (play_prios s ! 0)"
    using queue_get_order_priority_Some [OF wf, of 0] False sel(2) by simp
  let ?Inv = "\<lambda>i (gs, gp, t). gs < i \<and> reordered s t \<and> play_prios t = play_prios s \<and>
      (\<forall>j. gs \<le> j \<longrightarrow> j < i \<longrightarrow> play_prios s ! j = gp)"
  have "\<exists>u. for_each (shuffle_group_step G) [1..<?n] (0, play_prios s ! 0, s) = Some u \<and> ?Inv ?n u"
  proof (rule for_each_upt)
    fix i u assume i: "1 \<le> i" "i < ?n" and u: "?Inv i u"
    obtain gs gp t where u': "u = (gs, gp, t)" by (cases u)
    have "play_prios s ! i \<le> play_prios s ! gs"
      using sorted i u u' wf sel(2) by (auto simp: sorted_wrt_iff_nth_less)
    then have "play_prios s ! i \<le> gp" using u u' by auto
    then obtain gs' gp' t' where "shuffle_group_step G i (gs, gp, t) = Some (gs', gp', t')"
      "gs' < Suc i" "reordered s t'" "play_prios t' = play_prios s"
      "\<And>j. gs' \<le> j \<Longrightarrow> j < Suc i \<Longrightarrow> play_prios s ! j = gp'"
      using shuffle_group_step_eq [OF assms(1) wf _ le0, of gs i t gp] u u' i sel assms(3) by auto
    then show "\<exists>u'. shuffle_group_step G i u = Some u' \<and> ?Inv (Suc i) u'"
      by (auto simp: u')
  qed (use False in \<open>auto simp: less_Suc_eq\<close>)
  then obtain gs gp t where t: "for_each (shuffle_group_step G) [1..<?n] (0, play_prios s ! 0, s) =
      Some (gs, gp, t)" "gs < ?n" "reordered s t" "play_prios t = play_prios s"
      "\<And>j. gs \<le> j \<Longrightarrow> j < ?n \<Longrightarrow> play_prios s ! j = gp"
    by auto
  have wt: "queue_wf t" using reordered_wf t(3) wf by blast
  obtain q' where q': "queue_shuffle_order_range G t gs ?n = Some q'" "reordered t q'"
    "play_prios q' = play_prios t"
    using queue_shuffle_order_range_eq [OF assms(1) wt, of gs ?n gp] t assms(3) sel
      reordered_sel [OF t(3)] by auto
  have "queue_shuffle_order G q = Some q'"
    using assms False s(1) get t(1) q'(1)
    by (simp add: queue_shuffle_order_def queue_shuffle_order_range_with_priority_def)
  moreover have "reordered q q'" using s(2) t(3) q'(2) reordered_trans by blast
  ultimately show ?thesis
    using that sorted t(4) q'(3) by simp
qed

lemma queue_shuffle_order_last_eq:
  assumes "glib_ok G" "queue_wf q" "start < q_length q"
  obtains r g where "start \<le> r" "r < q_length q"
    "queue_shuffle_order_last G q start (q_length q) =
       Some (q\<lparr>q_order := swap_at (q_length q - 1) r (q_order q), q_rand := g\<rparr>)"
    "reordered q (q\<lparr>q_order := swap_at (q_length q - 1) r (q_order q), q_rand := g\<rparr>)"
proof -
  from assms(3) have last: "q_length q - 1 < q_length q" by simp
  obtain r g where r: "start \<le> r" "r < q_length q"
    "queue_rand G q start (q_length q) = Some (r, q\<lparr>q_rand := g\<rparr>)"
    "queue_swap_order (q\<lparr>q_rand := g\<rparr>) (q_length q - 1) r =
       Some (q\<lparr>q_order := swap_at (q_length q - 1) r (q_order q), q_rand := g\<rparr>)"
    using rand_swap [OF assms order_refl last] .
  then show ?thesis
    using that [of r g] swap_order_reordered [OF assms(2) last r(2), of g]
    by (simp add: queue_shuffle_order_last_def)
qed

section \<open>Shuffling positions\<close>

lemma queue_shuffle_range_eq:
  assumes "glib_ok G" "queue_wf q" "start \<le> end" "end \<le> q_length q"
  obtains q' where "queue_shuffle_range G q start end = Some q'" "queue_wf q'" "stamped q q'"
    "mset (queue_view q') = mset (queue_view q)" "play_order q' = play_order q"
    "q_length q' = q_length q" "q_random q' = q_random q" "q_max_length q' = q_max_length q"
    "\<And>p. p < q_length q \<Longrightarrow> p < start \<or> end \<le> p \<Longrightarrow> q_items q' ! p = q_items q ! p"
proof -
  let ?body = "\<lambda>i q. do { (ri, q) \<leftarrow> queue_rand G q i end; queue_swap q i ri }"
  let ?Inv = "\<lambda>t. queue_wf t \<and> stamped q t \<and> mset (queue_view t) = mset (queue_view q) \<and>
      play_order t = play_order q \<and> q_length t = q_length q \<and> q_random t = q_random q \<and>
      q_max_length t = q_max_length q \<and>
      (\<forall>p. p < q_length q \<longrightarrow> p < start \<or> end \<le> p \<longrightarrow> q_items t ! p = q_items q ! p)"
  have "\<exists>q'. for_each ?body [start..<end] q = Some q' \<and> ?Inv q'"
  proof (rule for_each_list)
    fix i t assume i: "i \<in> set [start..<end]" and t: "?Inv t"
    have wf: "queue_wf t" using t by simp
    have ie: "i < end" "i < q_length t" using i assms(4) t by auto
    have et: "end \<le> q_length t" using assms(4) t by simp
    obtain r g where r: "i \<le> r" "r < end" "queue_rand G t i end = Some (r, t\<lparr>q_rand := g\<rparr>)"
      using rand_swap [OF assms(1) wf ie(1) et ie(2)] by blast
    let ?t = "t\<lparr>q_rand := g\<rparr>" and ?t' = "swapped (t\<lparr>q_rand := g\<rparr>) i r"
    have len: "i < q_length ?t" "r < q_length ?t" using r ie assms(4) t by auto
    have "reordered t ?t" by (simp add: reordered_def play_order_def)
    then have wt: "queue_wf ?t" using wf by (rule reordered_wf)
    note rel = swap_relocates [OF len]
    have "queue_wf ?t'"
      unfolding swapped_def by (rule placed_wf [OF wt rel])
    moreover have "stamped q ?t'"
      using relocated_stamped [OF wt rel] t by (simp add: swapped_def stamped_def) metis
    moreover have "mset (queue_view ?t') = mset (queue_view q)"
    proof -
      have "queue_view ?t = queue_view t" by (simp add: queue_view_def)
      then have "queue_view ?t' = swap_at i r (queue_view t)"
        using queue_view_swapped [OF wt len] by simp
      moreover have "i < length (queue_view t)" "r < length (queue_view t)"
        using len wf by (simp_all add: length_queue_view)
      ultimately show ?thesis using t by (metis mset_swap_at)
    qed
    moreover have "q_items ?t' ! p = q_items q ! p" if "p < q_length q" "p < start \<or> end \<le> p" for p
      using that t i r ie wf by (auto simp: swapped_def swapped_items_def)
    ultimately show "\<exists>s'. ?body i t = Some s' \<and> ?Inv s'"
      using r(3) queue_swap_eq [OF wt len] t
      by (auto simp: play_order_def swapped_def)
  qed (use assms(2) in simp)
  then show ?thesis
    using that assms by (auto simp: queue_shuffle_range_def)
qed

end
