(* ===== verification/Playqueue_Priority.thy ===== *)
theory Playqueue_Priority
  imports Playqueue_Shuffle
begin

text \<open>
  Song priorities.  In random mode the songs that are still to be played, those behind the current
  song in the play order, are sorted by descending priority.  \<^verbatim>\<open>queue_set_priority\<close> keeps that
  order: it takes the song out of the play order and puts it back at the end of the songs with a
  higher priority, then swaps it into a random place within its new group.
\<close>

section \<open>Inserting into a list\<close>

definition put_nth :: "nat \<Rightarrow> 'a \<Rightarrow> 'a list \<Rightarrow> 'a list" where
  "put_nth i x xs = take i xs @ x # drop i xs"

lemma nth_put_nth:
  "i \<le> length xs \<Longrightarrow> j \<le> length xs \<Longrightarrow>
   put_nth i x xs ! j = (if j < i then xs ! j else if j = i then x else xs ! (j - 1))"
  by (auto simp: put_nth_def nth_append nth_Cons')

lemma length_put_nth [simp]: "i \<le> length xs \<Longrightarrow> length (put_nth i x xs) = Suc (length xs)"
  by (simp add: put_nth_def)

lemma mset_put_remove: "i < length xs \<Longrightarrow> k < length xs \<Longrightarrow>
    mset (put_nth k (xs ! i) (remove_nth i xs)) = mset xs"
proof -
  assume i: "i < length xs"
  have "mset xs = mset (take i xs @ xs ! i # drop (Suc i) xs)"
    using id_take_nth_drop [OF i] by metis
  moreover have "mset (put_nth k (xs ! i) (remove_nth i xs)) = add_mset (xs ! i) (mset (remove_nth i xs))"
    by (metis append_take_drop_id mset.simps(2) mset_append put_nth_def union_mset_add_mset_right)
  ultimately show ?thesis by (simp add: remove_nth_def)
qed

lemma map_put_nth: "map f (put_nth i x xs) = put_nth i (f x) (map f xs)"
  by (simp add: put_nth_def take_map drop_map)

lemma sorted_dropD:
  "sorted_wrt P (drop a xs) \<Longrightarrow> a \<le> i \<Longrightarrow> i < j \<Longrightarrow> j < length xs \<Longrightarrow> P (xs ! i) (xs ! j)"
  using sorted_wrt_nth_less [of P "drop a xs" "i - a" "j - a"] by simp

text \<open>Inserting at the place found keeps a descending list descending.\<close>

lemma sorted_put_nth:
  fixes x :: "'a :: linorder"
  assumes "sorted_wrt (\<ge>) (drop a xs)" "a \<le> k" "k \<le> length xs"
    and "\<And>j. a \<le> j \<Longrightarrow> j < k \<Longrightarrow> x \<le> xs ! j"
    and "k < length xs \<Longrightarrow> xs ! k \<le> x"
  shows "sorted_wrt (\<ge>) (drop a (put_nth k x xs))"
proof -
  have s: "xs ! j \<le> xs ! i" if "a \<le> i" "i < j" "j < length xs" for i j
    using sorted_dropD [OF assms(1) that] .
  have ge: "xs ! j \<le> x" if "k \<le> j" "j < length xs" for j
    using assms(2,5) s [of k j] that by (cases "j = k") force+
  have "put_nth k x xs ! j \<le> put_nth k x xs ! i" if "a \<le> i" "i < j" "j \<le> length xs" for i j
    using that assms(2-4) s [of i j] s [of i "j - 1"] s [of "i - 1" "j - 1"] ge [of "j - 1"]
    by (auto simp: nth_put_nth)
  then show ?thesis
    using assms(3) by (auto simp: sorted_wrt_iff_nth_less)
qed

lemma sorted_remove_nth:
  assumes "sorted_wrt (\<ge>) (drop a xs)" "i < length xs"
  shows "sorted_wrt (\<ge>) (drop (if i < a then a - 1 else a) (remove_nth i xs))"
proof -
  have s: "xs ! k \<le> xs ! j" if "a \<le> j" "j < k" "k < length xs" for j k
    using sorted_dropD [OF assms(1) that] .
  have "remove_nth i xs ! k \<le> remove_nth i xs ! j"
    if "(if i < a then a - 1 else a) \<le> j" "j < k" "k < length xs - 1" for j k
    using that assms(2) s by (auto simp: nth_remove_nth split: if_splits)
  then show ?thesis
    using assms(2) by (auto simp: sorted_wrt_iff_nth_less)
qed

section \<open>Moving within the play order\<close>

lemma shift_order_up_loop:
  assumes "a \<le> b" "b < length (q_order q)"
  shows "for_each (\<lambda>i q. do {
            p \<leftarrow> aget (q_order q) (i - 1);
            xs \<leftarrow> aset (q_order q) i p;
            Some (q\<lparr>q_order := xs\<rparr>)
          }) (rev [a + 1..<b + 1]) q =
         Some (q\<lparr>q_order := map (\<lambda>i. if a < i \<and> i \<le> b then q_order q ! (i - 1) else q_order q ! i)
                               [0..<length (q_order q)]\<rparr>)"
    (is "for_each ?body _ _ = _")
proof -
  let ?xs = "\<lambda>a. map (\<lambda>i. if a \<le> i \<and> i \<le> b then q_order q ! (i - 1) else q_order q ! i)
      [0..<length (q_order q)]"
  have "?xs (b + 1) = q_order q"
    by (intro list_eq_nthI [where n = "length (q_order q)"]) auto
  moreover have "for_each ?body (rev [a + 1..<b + 1]) (q\<lparr>q_order := ?xs (b + 1)\<rparr>) =
      Some (q\<lparr>q_order := ?xs (a + 1)\<rparr>)"
  proof (rule for_each_downt_eq)
    fix i assume i: "a + 1 \<le> i" "i < b + 1"
    have "(?xs (Suc i))[i := q_order q ! (i - 1)] = ?xs i"
      using i assms(2)
      by (intro list_eq_nthI [where n = "length (q_order q)"]) (auto simp: nth_list_update)
    then show "?body i (q\<lparr>q_order := ?xs (Suc i)\<rparr>) = Some (q\<lparr>q_order := ?xs i\<rparr>)"
      using i assms(2) by (auto simp: Suc_le_eq)
  qed (use assms(1) in simp)
  ultimately show ?thesis by (simp add: Suc_le_eq)
qed

definition order_moved :: "'g queue \<Rightarrow> nat \<Rightarrow> nat \<Rightarrow> 'g queue" where
  "order_moved q from_order to_order =
     q\<lparr>q_order := put_nth to_order (q_order q ! from_order) (remove_nth from_order (q_order q))\<rparr>"

lemma queue_move_order_eq:
  assumes "queue_wf q" "from_order < q_length q" "to_order < q_length q"
  shows "queue_move_order q from_order to_order = Some (order_moved q from_order to_order)"
proof -
  let ?xs = "q_order q" and ?n = "length (q_order q)"
  have n: "from_order < ?n" "to_order < ?n" using assms by simp_all
  show ?thesis
  proof (cases "from_order < to_order")
    case True
    have "(map (\<lambda>i. if from_order \<le> i \<and> i < to_order then ?xs ! (i + 1) else ?xs ! i) [0..<?n])
        [to_order := ?xs ! from_order] = put_nth to_order (?xs ! from_order) (remove_nth from_order ?xs)"
      using n True
      by (intro list_eq_nthI [where n = ?n]) (auto simp: nth_put_nth nth_remove_nth nth_list_update)
    then show ?thesis
      using True assms n shift_order_loop [of from_order to_order q]
      by (simp add: queue_move_order_def order_moved_def)
  next
    case False
    have "(map (\<lambda>i. if to_order < i \<and> i \<le> from_order then ?xs ! (i - 1) else ?xs ! i) [0..<?n])
        [to_order := ?xs ! from_order] = put_nth to_order (?xs ! from_order) (remove_nth from_order ?xs)"
      using n False
      by (intro list_eq_nthI [where n = ?n]) (auto simp: nth_put_nth nth_remove_nth nth_list_update)
    then show ?thesis
      using False assms n shift_order_up_loop [of to_order from_order q]
      by (simp add: queue_move_order_def order_moved_def)
  qed
qed

lemma play_order_moved:
  assumes "queue_wf q" "i < q_length q" "k < q_length q"
  shows "play_order (order_moved q i k) = put_nth k (play_order q ! i) (remove_nth i (play_order q))"
  using assms queue_wfD [OF assms(1)]
  by (intro list_eq_nthI [where n = "q_length q"])
     (auto simp: play_order_def order_moved_def nth_put_nth nth_remove_nth)

lemma order_moved_reordered:
  assumes "queue_wf q" "i < q_length q" "k < q_length q"
  shows "reordered q (order_moved q i k)"
  using assms queue_wfD [OF assms(1)] play_order_moved [OF assms]
  by (simp add: reordered_def mset_put_remove) (simp add: order_moved_def)

lemma play_prios_moved:
  assumes "queue_wf q" "i < q_length q" "k < q_length q"
  shows "play_prios (order_moved q i k) = put_nth k (play_prios q ! i) (remove_nth i (play_prios q))"
  using assms
  by (simp add: play_prios_def play_order_moved map_put_nth map_remove_nth)
     (simp add: order_moved_def)

section \<open>Searching the play order\<close>

declare find_priority_from.simps [simp del] count_priority_from.simps [simp del]

lemma find_priority_from_Some:
  assumes "queue_wf q" "a \<le> q_length q"
  obtains k where "find_priority_from q a pr ex = Some k" "a \<le> k" "k \<le> q_length q"
    "\<And>j. a \<le> j \<Longrightarrow> j < k \<Longrightarrow> j = ex \<or> pr < play_prios q ! j"
    "k < q_length q \<Longrightarrow> k \<noteq> ex \<and> play_prios q ! k \<le> pr"
  using assms
proof (induction "q_length q - a" arbitrary: a thesis)
  case 0
  then have "a = q_length q" by simp
  then show ?case
    using 0(2) [of a] by (simp add: find_priority_from.simps)
next
  case (Suc d)
  then have a: "a < q_length q" by simp
  have p: "q_order q ! a < q_length q" using Suc.prems(2) a by (rule wf_order_less)
  let ?stop = "play_prios q ! a \<le> pr \<and> a \<noteq> ex"
  have step: "find_priority_from q a pr ex =
      (if ?stop then Some a else find_priority_from q (Suc a) pr ex)"
    using a p Suc.prems(2) by (subst find_priority_from.simps) (simp add: nth_play_prios)
  show ?case
  proof (cases ?stop)
    case True
    then show ?thesis
      using Suc.prems(1) [of a] step a by simp
  next
    case False
    have "d = q_length q - Suc a" "Suc a \<le> q_length q" using Suc.hyps(2) a by simp_all
    then obtain k where k: "find_priority_from q (Suc a) pr ex = Some k" "Suc a \<le> k" "k \<le> q_length q"
      "\<And>j. Suc a \<le> j \<Longrightarrow> j < k \<Longrightarrow> j = ex \<or> pr < play_prios q ! j"
      "k < q_length q \<Longrightarrow> k \<noteq> ex \<and> play_prios q ! k \<le> pr"
      using Suc.hyps(1) Suc.prems(2) by blast
    show ?thesis
    proof (rule Suc.prems(1))
      show "find_priority_from q a pr ex = Some k" using k(1) step False by simp
      show "j = ex \<or> pr < play_prios q ! j" if "a \<le> j" "j < k" for j
        using k(4) [of j] False that by (cases "j = a") auto
    qed (use k in auto)
  qed
qed

lemma count_priority_from_Some:
  assumes "queue_wf q" "s \<le> a" "a \<le> q_length q"
    and "\<And>j. s \<le> j \<Longrightarrow> j < a \<Longrightarrow> play_prios q ! j = pr"
  obtains c where "count_priority_from q s a pr = Some c" "a \<le> s + c" "s + c \<le> q_length q"
    "\<And>j. s \<le> j \<Longrightarrow> j < s + c \<Longrightarrow> play_prios q ! j = pr"
    "s + c < q_length q \<Longrightarrow> play_prios q ! (s + c) \<noteq> pr"
  using assms
proof (induction "q_length q - a" arbitrary: a thesis)
  case 0
  then have "a = q_length q" by simp
  then show ?case
    using 0(2) [of "a - s"] 0(4,6) by (simp add: count_priority_from.simps)
next
  case (Suc d)
  then have a: "a < q_length q" by simp
  have p: "q_order q ! a < q_length q" using Suc.prems(2) a by (rule wf_order_less)
  have step: "count_priority_from q s a pr =
      (if play_prios q ! a \<noteq> pr then Some (a - s) else count_priority_from q s (Suc a) pr)"
    using a p Suc.prems(2) by (subst count_priority_from.simps) (simp add: nth_play_prios)
  show ?case
  proof (cases "play_prios q ! a = pr")
    case False
    then show ?thesis
      using Suc.prems(1) [of "a - s"] Suc.prems(3,5) step a by simp
  next
    case True
    have d: "d = q_length q - Suc a" "s \<le> Suc a" "Suc a \<le> q_length q"
      using Suc.hyps(2) Suc.prems(3) a by simp_all
    have j: "play_prios q ! j = pr" if "s \<le> j" "j < Suc a" for j
      using Suc.prems(5) [of j] True that by (cases "j = a") auto
    obtain c where c: "count_priority_from q s (Suc a) pr = Some c" "Suc a \<le> s + c" "s + c \<le> q_length q"
      "\<And>j. s \<le> j \<Longrightarrow> j < s + c \<Longrightarrow> play_prios q ! j = pr"
      "s + c < q_length q \<Longrightarrow> play_prios q ! (s + c) \<noteq> pr"
      using Suc.hyps(1) [OF d(1) _ Suc.prems(2) d(2,3) j] by blast
    then show ?thesis
      using Suc.prems(1) [of c] step True by simp
  qed
qed

section \<open>Reordering one song\<close>

text \<open>
  \<open>sorted_after q a\<close>: the songs from order number \<open>a\<close> on are sorted by descending priority.
\<close>

definition sorted_after :: "'g queue \<Rightarrow> nat \<Rightarrow> bool" where
  "sorted_after q a \<longleftrightarrow> sorted_wrt (\<ge>) (drop a (play_prios q))"

text \<open>
  The song at order number \<open>ord\<close> has just been given the priority \<open>pr\<close>; the others behind \<open>a\<close> are
  sorted.  Putting it back makes all of them sorted, and the songs in front of \<open>a\<close> keep their
  places (one place further to the front, when the song came from there).
\<close>

lemma reorder_priority_eq:
  fixes a ord :: nat
  defines "a' \<equiv> if ord < a then a - 1 else a"
  assumes G: "glib_ok G" and wf: "queue_wf q" and rnd: "q_random q"
    and ord: "ord < q_length q" and a: "a \<le> q_length q" "ao + 1 = int a"
    and pr: "play_prios q ! ord = pr"
    and sorted: "sorted_wrt (\<ge>) (drop a' (remove_nth ord (play_prios q)))"
  obtains q' where "reorder_priority G q ord pr ao = Some q'" "reordered q q'" "sorted_after q' a'"
    "\<And>j. j < a' \<Longrightarrow> q_order q' ! j = remove_nth ord (play_order q) ! j"
proof -
  let ?P = "play_prios q" and ?n = "q_length q"
  obtain k where k: "find_priority_from q a pr ord = Some k" "a \<le> k" "k \<le> ?n"
    "\<And>j. a \<le> j \<Longrightarrow> j < k \<Longrightarrow> j = ord \<or> pr < ?P ! j"
    "k < ?n \<Longrightarrow> k \<noteq> ord \<and> ?P ! k \<le> pr"
    using find_priority_from_Some [OF wf a(1)] by blast
  have find: "queue_find_priority_order q (nat (ao + 1)) pr ord = Some k"
    using rnd a k(1) by (simp add: queue_find_priority_order_def)
  define m where "m = (if ord < k then k - 1 else k)"
  have m: "m < ?n" "a' \<le> m" using k(2,3,5) ord by (auto simp: m_def a'_def)
  let ?R = "remove_nth ord ?P" and ?q = "order_moved q ord m"
  have lP: "length ?P = ?n" using wf by simp
  have ge: "pr \<le> ?P ! j" if "a \<le> j" "j < k" "j \<noteq> ord" for j
    using k(4) [of j] that by auto
  have gt: "pr \<le> ?R ! j" if "a' \<le> j" "j < m" for j
    using that ge [of j] ge [of "Suc j"] k(3) ord lP
    by (cases "j < ord") (auto simp: nth_remove_nth m_def a'_def split: if_splits)
  have le: "?R ! m \<le> pr" if "m < length ?R"
    using that k(3,5) ord lP by (auto simp: nth_remove_nth m_def split: if_splits)
  have re: "reordered q ?q" using order_moved_reordered [OF wf ord m(1)] .
  have wf': "queue_wf ?q" using re wf by (rule reordered_wf)
  note sel = reordered_sel [OF re]
  have prios: "play_prios ?q = put_nth m pr ?R"
    using play_prios_moved [OF wf ord m(1)] pr by simp
  have mr: "m \<le> length ?R" using m ord lP by simp
  have srt: "sorted_after ?q a'"
    unfolding sorted_after_def prios using sorted m(2) mr gt le by (rule sorted_put_nth)
  have at_m: "play_prios ?q ! m = pr" using mr by (simp add: prios nth_put_nth)
  have mn: "m \<le> Suc m" "Suc m \<le> q_length ?q" using m sel by simp_all
  have "play_prios ?q ! j = pr" if "m \<le> j" "j < Suc m" for j
    using that at_m by (metis le_antisym less_Suc_eq_le)
  then obtain c where c: "count_priority_from ?q m (Suc m) pr = Some c" "Suc m \<le> m + c"
    "m + c \<le> q_length ?q" "\<And>j. m \<le> j \<Longrightarrow> j < m + c \<Longrightarrow> play_prios ?q ! j = pr"
    using count_priority_from_Some [OF wf' mn] by blast
  have "count_priority_from ?q m m pr = count_priority_from ?q m (Suc m) pr"
    using m sel wf wf' at_m wf_order_less [OF wf', of m]
    by (subst count_priority_from.simps) (simp add: nth_play_prios)
  with c(1) have count: "queue_count_same_priority ?q m pr = Some c"
    using rnd m sel by (simp add: queue_count_same_priority_def)
  have mc: "m < m + c" "m < q_length ?q" using c(2) m(1) sel by simp_all
  obtain r g where r: "m \<le> r" "r < m + c" "queue_rand G ?q m (m + c) = Some (r, ?q\<lparr>q_rand := g\<rparr>)"
    "queue_swap_order (?q\<lparr>q_rand := g\<rparr>) m r =
       Some (?q\<lparr>q_order := swap_at m r (q_order ?q), q_rand := g\<rparr>)"
    using rand_swap [OF G wf' mc(1) c(3) mc(2)] by blast
  let ?q' = "?q\<lparr>q_order := swap_at m r (q_order ?q), q_rand := g\<rparr>"
  have rn: "r < q_length ?q" using r(2) c(3) by simp
  show ?thesis
  proof (rule that)
    show "reorder_priority G q ord pr ao = Some ?q'"
      using find queue_move_order_eq [OF wf ord m(1)] count c(2) r(3,4)
      by (simp add: reorder_priority_def queue_shuffle_order_first_def flip: m_def)
    show "reordered q ?q'"
      using re swap_order_reordered [OF wf' mc(2) rn] by (rule reordered_trans)
    have "play_prios ?q' = play_prios ?q"
      using c(4) r at_m by (intro swap_order_prios [OF wf' mc(2) rn]) simp
    then show "sorted_after ?q' a'" using srt by (simp add: sorted_after_def)
    show "q_order ?q' ! j = remove_nth ord (play_order q) ! j" if "j < a'" for j
    proof -
      have lo: "m < length (q_order ?q)" "r < length (q_order ?q)" using wf' mc(2) rn by simp_all
      have jm: "j < m" using that m(2) by simp
      then have "q_order ?q' ! j = q_order ?q ! j"
        using r(1) lo by (simp add: nth_swap_at)
      also have "\<dots> = play_order ?q ! j" using jm m sel by (simp add: play_order_def)
      also have "\<dots> = remove_nth ord (play_order q) ! j"
        using jm m ord wf by (simp add: play_order_moved nth_put_nth)
      finally show ?thesis .
    qed
  qed
qed

section \<open>Setting the priority of songs\<close>

text \<open>
  \<open>c\<close> is the position of the current song, or -1 when there is none, and \<open>a\<close> is the order number of
  the first song behind it.
\<close>

definition upcoming_from :: "'g queue \<Rightarrow> int \<Rightarrow> nat \<Rightarrow> bool" where
  "upcoming_from q c a \<longleftrightarrow>
     (if c < 0 then a = 0 else 0 < a \<and> a \<le> q_length q \<and> q_order q ! (a - 1) = nat c)"

definition with_priority :: "'g queue \<Rightarrow> nat \<Rightarrow> u8 \<Rightarrow> 'g queue" where
  "with_priority q position priority =
     q\<lparr>q_items := (q_items q)[position :=
        (q_items q ! position)\<lparr>qi_version := q_version q, qi_priority := priority\<rparr>]\<rparr>"

definition set_key_priority :: "nat \<Rightarrow> u8 \<Rightarrow> (song \<times> nat \<times> u8) list \<Rightarrow> (song \<times> nat \<times> u8) list" where
  "set_key_priority position priority ks =
     ks[position := (case ks ! position of (s, d, _) \<Rightarrow> (s, d, priority))]"

lemma with_priority_sel [simp]:
  "q_max_length (with_priority q p v) = q_max_length q" "q_length (with_priority q p v) = q_length q"
  "q_version (with_priority q p v) = q_version q" "q_order (with_priority q p v) = q_order q"
  "q_id_to_position (with_priority q p v) = q_id_to_position q"
  "q_random (with_priority q p v) = q_random q" "play_order (with_priority q p v) = play_order q"
  "length (q_items (with_priority q p v)) = length (q_items q)"
  by (simp_all add: with_priority_def play_order_def)

lemma with_priority_wf:
  assumes "queue_wf q" "p < q_length q"
  shows "queue_wf (with_priority q p v)"
proof -
  have same: "qi_id (q_items (with_priority q p v) ! i) = qi_id (q_items q ! i)" if "i < q_length q" for i
    using assms that by (simp add: with_priority_def nth_list_update)
  have "versions_ok (with_priority q p v)" "arrays_ok (with_priority q p v)"
    "order_ok (with_priority q p v)"
    using assms by (auto simp: queue_wf_def arrays_ok_def order_ok_def versions_ok_def with_priority_def
        play_order_def nth_list_update)
  moreover have "ids_ok (with_priority q p v)"
    using assms(1) same by (auto simp: queue_wf_def ids_ok_def owns_def Let_def)
  ultimately show ?thesis by (simp add: queue_wf_def)
qed

lemma with_priority_stamped: "queue_wf q \<Longrightarrow> p < q_length q \<Longrightarrow> stamped q (with_priority q p v)"
  by (auto simp: stamped_def with_priority_def nth_list_update)

lemma queue_view_with_priority:
  assumes "queue_wf q" "p < q_length q"
  shows "queue_view (with_priority q p v) = set_key_priority p v (queue_view q)"
  using assms with_priority_wf [OF assms, of v] 
  by (intro list_eq_nthI [where n = "q_length q"])
     (auto simp: set_key_priority_def length_queue_view nth_queue_view nth_list_update item_key_def
       with_priority_def)

lemma play_prios_with_priority:
  assumes "queue_wf q" "i < q_length q"
  shows "play_prios (with_priority q (q_order q ! i) v) = (play_prios q)[i := v]"
proof -
  have p: "q_order q ! i < q_length q" using assms by (rule wf_order_less)
  have "play_prios (with_priority q (q_order q ! i) v) ! j = (play_prios q)[i := v] ! j"
    if "j < q_length q" for j
  proof -
    have "q_order q ! i = q_order q ! j \<longleftrightarrow> i = j"
      using wf_order_inj [OF assms(1)] assms(2) that by metis
    then show ?thesis
      using assms p that with_priority_wf [OF assms(1) p, of v]
      by (cases "i = j") (simp_all add: nth_play_prios with_priority_def)
  qed
  then show ?thesis
    using assms with_priority_wf [OF assms(1) p, of v]
    by (intro list_eq_nthI [where n = "q_length q"]) simp_all
qed

lemma remove_nth_update [simp]: "remove_nth i (xs[i := x]) = remove_nth i xs"
  by (simp add: remove_nth_def)

text \<open>
  The two outcomes for a song whose priority really changes: it keeps its place (in sequential mode,
  when it is the current song, or when it has been played and would not come before the current song
  again), or it is put back into the play order.
\<close>

definition stays_in_place :: "'g queue \<Rightarrow> nat \<Rightarrow> u8 \<Rightarrow> nat \<Rightarrow> bool" where
  "stays_in_place q ord priority a \<longleftrightarrow> \<not> q_random q \<or> ord + 1 = a \<or>
     ord + 1 < a \<and> (play_prios q ! (a - 1) < play_prios q ! ord \<or> priority \<le> play_prios q ! (a - 1))"

lemma queue_set_priority_cases:
  assumes "queue_wf q" "ord < q_length q" "a \<le> q_length q"
    and "qi_priority (q_items q ! (q_order q ! ord)) \<noteq> pr"
  shows "queue_set_priority G q (q_order q ! ord) pr (int a - 1) =
     (let q1 = with_priority q (q_order q ! ord) pr in
      if stays_in_place q ord pr a then Some (True, q1)
      else do { q' \<leftarrow> reorder_priority G q1 ord pr (int a - 1); Some (True, q') })"
proof -
  let ?p = "q_order q ! ord" and ?q1 = "with_priority q (q_order q ! ord) pr"
  have p: "?p < q_length q" using assms(1,2) by (rule wf_order_less)
  have wf1: "queue_wf ?q1" using assms(1) p by (rule with_priority_wf)
  have o1: "queue_position_to_order ?q1 ?p = Some ord"
    using queue_position_to_order_Some [OF wf1, of ord] assms(2) by simp
  have q1: "q\<lparr>q_items := (q_items q)[?p := (q_items q ! ?p)
      \<lparr>qi_version := q_version q, qi_priority := pr\<rparr>]\<rparr> = ?q1"
    by (simp add: with_priority_def)
  have skip: "keeps_place ?q1 ord (qi_priority (q_items q ! ?p)) pr (int a - 1) =
      Some (stays_in_place q ord pr a)" if "q_random q"
  proof (cases "ord + 1 < a")
    case True
    have a1: "nat (int a - 1) = a - 1" "a - 1 < q_length q" "ord < a - 1" "ord \<noteq> a - 1"
      using True assms(3) by auto
    have ap: "q_order q ! (a - 1) < q_length q" using assms(1) a1(2) by (rule wf_order_less)
    have "q_order q ! (a - 1) \<noteq> ?p"
      using wf_order_inj [OF assms(1) a1(2) assms(2)] True by fastforce
    then have "q_items ?q1 ! (q_order q ! (a - 1)) = q_items q ! (q_order q ! (a - 1))"
      by (simp add: with_priority_def)
    then show ?thesis
      using True a1 ap wf1 assms that
      by (simp add: keeps_place_def stays_in_place_def nth_play_prios)
  qed (use that in \<open>auto simp: keeps_place_def stays_in_place_def\<close>)
  show ?thesis
  proof (cases "q_random q")
    case True
    then show ?thesis
      using assms p o1 skip [OF True] by (simp add: queue_set_priority_def q1 Let_def)
  next
    case False
    then show ?thesis
      using assms p by (simp add: queue_set_priority_def q1 Let_def stays_in_place_def)
  qed
qed

lemma upcoming_from_le: "upcoming_from q c a \<Longrightarrow> a \<le> q_length q"
  by (auto simp: upcoming_from_def split: if_splits)

text \<open>One song.  Its new priority is the only thing the view shows; the songs still to come stay sorted.\<close>

lemma queue_set_priority_eq:
  assumes G: "glib_ok G" and wf: "queue_wf q" and pos: "position < q_length q"
    and cur: "upcoming_from q c a" and srt: "q_random q \<longrightarrow> sorted_after q a"
  obtains m q' a' where "queue_set_priority G q position pr (int a - 1) = Some (m, q')"
    "queue_wf q'" "stamped q q'" "queue_view q' = set_key_priority position pr (queue_view q)"
    "upcoming_from q' c a'" "q_random q \<longrightarrow> sorted_after q' a'"
    "q_random q' = q_random q" "q_length q' = q_length q"
    "m \<longleftrightarrow> qi_priority (q_items q ! position) \<noteq> pr" "\<not> q_random q \<longrightarrow> q_order q' = q_order q"
proof -
  let ?q1 = "with_priority q position pr"
  obtain ord where ord: "ord < q_length q" "q_order q ! ord = position"
    using wf_order_surj [OF wf pos] by blast
  have wf1: "queue_wf ?q1" using wf pos by (rule with_priority_wf)
  have P1: "play_prios ?q1 = (play_prios q)[ord := pr]"
    using play_prios_with_priority [OF wf ord(1)] ord(2) by simp
  have an: "a \<le> q_length q" using cur by (rule upcoming_from_le)
  have view: "queue_view ?q1 = set_key_priority position pr (queue_view q)"
    using queue_view_with_priority [OF wf pos] .
  have lP: "length (play_prios q) = q_length q" using wf by simp
  consider "qi_priority (q_items q ! position) = pr"
    | "qi_priority (q_items q ! position) \<noteq> pr" "stays_in_place q ord pr a"
    | "qi_priority (q_items q ! position) \<noteq> pr" "\<not> stays_in_place q ord pr a" by blast
  then show ?thesis
  proof cases
    case 1
    have "set_key_priority position pr (queue_view q) = queue_view q"
      using 1 pos wf by (simp add: set_key_priority_def nth_queue_view item_key_def list_update_same_conv
          length_queue_view)
    moreover have "queue_set_priority G q position pr (int a - 1) = Some (False, q)"
      using 1 pos wf by (simp add: queue_set_priority_def)
    ultimately show ?thesis
      using that [of False q a] 1 wf cur srt by simp
  next
    case 2
    have "sorted_after ?q1 a" if "q_random q"
      using 2(2) srt that P1 by (auto simp: sorted_after_def stays_in_place_def)
    moreover have "upcoming_from ?q1 c a"
      using cur by (simp add: upcoming_from_def cong: if_cong)
    ultimately show ?thesis
      using that [of True ?q1 a] queue_set_priority_cases [OF wf ord(1) an] 2 ord(2) wf1 view
        with_priority_stamped [OF wf pos]
      by simp
  next
    case 3
    let ?a = "if ord < a then a - 1 else a"
    from 3(2) have rnd: "q_random q" and na: "ord + 1 \<noteq> a" by (auto simp: stays_in_place_def)
    have "sorted_wrt (\<ge>) (drop ?a (remove_nth ord (play_prios ?q1)))"
      using sorted_remove_nth [of a "play_prios q" ord] srt rnd ord(1) lP by (simp add: P1 sorted_after_def)
    moreover have "play_prios ?q1 ! ord = pr" using P1 ord(1) lP by simp
    ultimately obtain q' where q': "reorder_priority G ?q1 ord pr (int a - 1) = Some q'"
      "reordered ?q1 q'" "sorted_after q' ?a"
      "\<And>j. j < ?a \<Longrightarrow> q_order q' ! j = remove_nth ord (play_order ?q1) ! j"
      using reorder_priority_eq [OF G wf1, of ord a "int a - 1" pr] rnd ord(1) an by auto
    note sel = reordered_sel [OF q'(2)]
    have "upcoming_from q' c ?a"
    proof (cases "c < 0")
      case True
      then show ?thesis using cur by (simp add: upcoming_from_def)
    next
      case False
      then have a: "0 < a" "q_order q ! (a - 1) = nat c" using cur by (auto simp: upcoming_from_def)
      have "Suc (a - Suc (Suc 0)) = a - Suc 0" if "ord < a" using that na by arith
      then have "q_order q' ! (?a - 1) = q_order q ! (a - 1)"
        using q'(4) [of "?a - 1"] a(1) na ord(1) an length_play_order [OF wf]
        by (cases "ord < a") (auto simp: nth_remove_nth play_order_def)
      then show ?thesis
        using False a na an sel by (auto simp: upcoming_from_def)
    qed
    moreover have "queue_set_priority G q position pr (int a - 1) = Some (True, q')"
      using queue_set_priority_cases [OF wf ord(1) an] 3 ord(2) q'(1) by simp
    moreover have "queue_view q' = set_key_priority position pr (queue_view q)"
      using view reordered_view [OF q'(2)] by simp
    moreover have "stamped q q'"
      using with_priority_stamped [OF wf pos] reordered_stamped [OF q'(2)] by (rule stamped_trans)
    ultimately show ?thesis
      using that [of True q' ?a] 3(1) rnd q'(3) reordered_wf [OF q'(2) wf1] sel by simp
  qed
qed

text \<open>The view after the songs at \<open>[start, end)\<close> were given a priority.\<close>

definition set_view_priority ::
    "nat \<Rightarrow> nat \<Rightarrow> u8 \<Rightarrow> (song \<times> nat \<times> u8) list \<Rightarrow> (song \<times> nat \<times> u8) list" where
  "set_view_priority start end priority ks =
     map (\<lambda>(i, s, d, v). (s, d, if start \<le> i \<and> i < end then priority else v)) (enumerate 0 ks)"

lemma length_set_view_priority [simp]: "length (set_view_priority start end v ks) = length ks"
  by (simp add: set_view_priority_def)

lemma set_view_priority_Suc:
  assumes "start \<le> i" "i < length ks"
  shows "set_key_priority i v (set_view_priority start i v ks) = set_view_priority start (Suc i) v ks"
  using assms
  by (intro list_eq_nthI [where n = "length ks"])
     (auto simp: set_key_priority_def set_view_priority_def nth_list_update nth_enumerate_eq
       less_Suc_eq split: prod.splits)

lemma set_view_priority_empty [simp]: "set_view_priority start start v ks = ks"
  by (intro list_eq_nthI [where n = "length ks"])
     (auto simp: set_view_priority_def nth_enumerate_eq split: prod.splits)

lemma queue_set_priority_range_eq:
  assumes G: "glib_ok G" and wf: "queue_wf q" and rng: "start \<le> end" "end \<le> q_length q"
    and cur: "upcoming_from q c a" "-1 \<le> c" and srt: "q_random q \<longrightarrow> sorted_after q a"
  obtains m q' a' where "queue_set_priority_range G q start end pr (int a - 1) = Some (m, q')"
    "queue_wf q'" "stamped q q'" "queue_view q' = set_view_priority start end pr (queue_view q)"
    "upcoming_from q' c a'" "q_random q \<longrightarrow> sorted_after q' a'" "q_length q' = q_length q"
    "q_random q' = q_random q" "\<not> m \<longrightarrow> queue_view q' = queue_view q"
    "\<not> q_random q \<longrightarrow> q_order q' = q_order q"
proof -
  let ?Inv = "\<lambda>i (m, t). queue_wf t \<and> stamped q t \<and> q_length t = q_length q \<and> q_random t = q_random q \<and>
      queue_view t = set_view_priority start i pr (queue_view q) \<and> (\<not> m \<longrightarrow> queue_view t = queue_view q) \<and>
      (\<not> q_random q \<longrightarrow> q_order t = q_order q) \<and>
      (\<exists>a. upcoming_from t c a \<and> (q_random q \<longrightarrow> sorted_after t a))"
  have "\<exists>u. for_each (set_priority_step G pr c) [start..<end] (False, q) = Some u \<and> ?Inv end u"
  proof (rule for_each_upt)
    fix i u assume i: "start \<le> i" "i < end" and u: "?Inv i u"
    obtain m t where mt: "u = (m, t)" by (cases u)
    with u obtain b where t: "queue_wf t" "stamped q t" "q_length t = q_length q" "q_random t = q_random q"
      "queue_view t = set_view_priority start i pr (queue_view q)" "\<not> m \<longrightarrow> queue_view t = queue_view q"
      "\<not> q_random q \<longrightarrow> q_order t = q_order q"
      and b: "upcoming_from t c b" "q_random t \<longrightarrow> sorted_after t b" by auto
    have it: "i < q_length t" using i rng t(3) by simp
    obtain m' t' a' where t': "queue_set_priority G t i pr (int b - 1) = Some (m', t')"
      "queue_wf t'" "stamped t t'" "queue_view t' = set_key_priority i pr (queue_view t)"
      "upcoming_from t' c a'" "q_random t \<longrightarrow> sorted_after t' a'" "q_random t' = q_random t"
      "q_length t' = q_length t" "m' \<longleftrightarrow> qi_priority (q_items t ! i) \<noteq> pr"
      "\<not> q_random t \<longrightarrow> q_order t' = q_order t"
      using queue_set_priority_eq [OF G t(1) it b] .
    have after: "(if 0 \<le> c then map_option int (queue_position_to_order t (nat c)) else Some (-1)) =
        Some (int b - 1)"
    proof (cases "c < 0")
      case False
      then have b0: "0 < b" "b \<le> q_length t" "q_order t ! (b - 1) = nat c"
        using b(1) by (auto simp: upcoming_from_def)
      then have "queue_position_to_order t (nat c) = Some (b - 1)"
        using queue_position_to_order_Some [OF t(1), of "b - 1"] by simp
      then show ?thesis using False b0(1) by simp
    qed (use b(1) in \<open>simp add: upcoming_from_def\<close>)
    have li: "i < length (queue_view q)" using i rng wf by (simp add: length_queue_view)
    have same: "queue_view t' = queue_view t" if "\<not> m'"
      using that t'(4,9) it t(1)
      by (simp add: set_key_priority_def nth_queue_view item_key_def list_update_same_conv length_queue_view)
    have "set_priority_step G pr c i u = Some (m \<or> m', t')"
      by (simp add: set_priority_step_def mt after t'(1))
    moreover have "?Inv (Suc i) (m \<or> m', t')"
      using t t' same set_view_priority_Suc [OF i(1) li] by (auto intro: stamped_trans)
    ultimately show "\<exists>u'. set_priority_step G pr c i u = Some u' \<and> ?Inv (Suc i) u'" by blast
  qed (use wf rng cur srt in auto)
  then obtain u where u: "for_each (set_priority_step G pr c) [start..<end] (False, q) = Some u"
    "?Inv end u" by blast
  obtain m q' where "u = (m, q')" by (cases u)
  with u have mq: "for_each (set_priority_step G pr c) [start..<end] (False, q) = Some (m, q')"
    "?Inv end (m, q')" by blast+
  then obtain a' where "upcoming_from q' c a'" "q_random q \<longrightarrow> sorted_after q' a'" by auto
  moreover have "(if 0 \<le> int a - 1 then map_option int (queue_order_to_position q (nat (int a - 1)))
      else Some (-1)) = Some c"
    using cur wf by (auto simp: upcoming_from_def nat_diff_distrib split: if_splits)
  moreover from this have "queue_set_priority_range G q start end pr (int a - 1) = Some (m, q')"
    using mq(1) rng by (simp add: queue_set_priority_range_def)
  ultimately show ?thesis
    using that mq(2) by blast
qed

end
