(* ===== verification/Playqueue_Spec.thy ===== *)
theory Playqueue_Spec
  imports Playqueue_Priority
begin

text \<open>
  What the queue promises its clients.  The interface is a list of songs that can be edited and in
  which a song keeps the id it was given; \<open>song_list\<close> states it, and the queue of
  \<^verbatim>\<open>src/playqueue.c\<close> is shown to provide it.
\<close>

section \<open>The interface\<close>

type_synonym key = "song \<times> nat \<times> u8"

abbreviation key_id :: "key \<Rightarrow> nat" where
  "key_id k \<equiv> fst (snd k)"

text \<open>The requests of a client, and what they mean on a list of songs with their priorities.\<close>

datatype edit =
    Append song u8
  | Delete nat
  | Swap nat nat
  | Move nat nat
  | Move_Range nat nat nat
  | Clear

fun list_edit :: "nat \<Rightarrow> edit \<Rightarrow> (song \<times> u8) list \<Rightarrow> (song \<times> u8) list option" where
  "list_edit room (Append s v) xs = (if length xs < room then Some (xs @ [(s, v)]) else None)"
| "list_edit room (Delete p) xs = (if p < length xs then Some (remove_nth p xs) else None)"
| "list_edit room (Swap p1 p2) xs =
     (if p1 < length xs \<and> p2 < length xs then Some (swap_at p1 p2 xs) else None)"
| "list_edit room (Move from to) xs =
     (if from < length xs \<and> to < length xs then Some (move_block from (from + 1) to xs) else None)"
| "list_edit room (Move_Range start end to) xs =
     (if start < end \<and> end \<le> length xs \<and> to + end \<le> length xs + start
      then Some (move_block start end to xs) else None)"
| "list_edit room Clear xs = Some []"

definition without_id :: "key \<Rightarrow> song \<times> u8" where
  "without_id k = (fst k, snd (snd k))"

locale song_list =
  fixes inv :: "'q \<Rightarrow> bool" and view :: "'q \<Rightarrow> key list" and room :: "'q \<Rightarrow> nat"
    and apply_edit :: "edit \<Rightarrow> 'q \<Rightarrow> 'q option" and position_of :: "nat \<Rightarrow> 'q \<Rightarrow> int option"
  assumes edits: "inv q \<Longrightarrow> list_edit (room q) e (map without_id (view q)) = Some xs \<Longrightarrow>
      \<exists>q'. apply_edit e q = Some q' \<and> inv q' \<and> room q' = room q \<and> map without_id (view q') = xs"
    and found: "inv q \<Longrightarrow> p < length (view q) \<Longrightarrow> position_of (key_id (view q ! p)) q = Some (int p)"
    and missing: "inv q \<Longrightarrow> d \<notin> key_id ` set (view q) \<Longrightarrow> position_of d q = Some (-1)"
begin

text \<open>A sequence of requests each of which is in range is carried out to its end.\<close>

lemma run_edits:
  assumes "inv q" "for_each (list_edit (room q)) es (map without_id (view q)) = Some xs"
  shows "\<exists>q'. for_each apply_edit es q = Some q' \<and> inv q' \<and> room q' = room q \<and> map without_id (view q') = xs"
  using assms
proof (induction es arbitrary: q)
  case Nil
  then show ?case by simp
next
  case (Cons e es)
  then obtain ys where ys: "list_edit (room q) e (map without_id (view q)) = Some ys"
    "for_each (list_edit (room q)) es ys = Some xs"
    by (auto simp: bind_eq_Some_conv)
  obtain q1 where q1: "apply_edit e q = Some q1" "inv q1" "room q1 = room q" "map without_id (view q1) = ys"
    using edits [OF Cons.prems(1) ys(1)] by blast
  show ?case using Cons.IH [OF q1(2)] ys(2) q1 by auto
qed

lemma ids_distinct:
  assumes "inv q"
  shows "distinct (map key_id (view q))"
proof -
  have "i = j" if "i < length (view q)" "j < length (view q)" "key_id (view q ! i) = key_id (view q ! j)" for i j
    using found [OF assms that(1)] found [OF assms that(2)] that(3) by (metis of_nat_eq_iff option.inject)
  then have "\<forall>i < length (map key_id (view q)). \<forall>j < length (map key_id (view q)). i \<noteq> j \<longrightarrow>
      map key_id (view q) ! i \<noteq> map key_id (view q) ! j"
    by (metis length_map nth_map)
  then show ?thesis by (metis distinct_conv_nth)
qed

text \<open>A lookup is right whatever has happened before it.\<close>

lemma lookup_iff:
  assumes "inv q"
  shows "position_of d q = Some (int p) \<longleftrightarrow> p < length (view q) \<and> key_id (view q ! p) = d"
proof (cases "d \<in> key_id ` set (view q)")
  case True
  then obtain k where "d = key_id k" "k \<in> set (view q)" by (rule imageE)
  then obtain i where i: "i < length (view q)" "key_id (view q ! i) = d" by (auto simp: in_set_conv_nth)
  then have "position_of d q = Some (int i)" using found [OF assms] by metis
  then show ?thesis using i found [OF assms, of p] by (metis of_nat_eq_iff option.inject)
next
  case False
  then have "position_of d q = Some (-1)" using missing [OF assms] by metis
  moreover have "\<not> (p < length (view q) \<and> key_id (view q ! p) = d)" using False nth_mem by blast
  ultimately show ?thesis by simp
qed

end

section \<open>The queue provides it\<close>

fun queue_edit :: "edit \<Rightarrow> 'g queue \<Rightarrow> 'g queue option" where
  "queue_edit (Append s v) q = map_option snd (queue_append q s v)"
| "queue_edit (Delete p) q = queue_delete q p"
| "queue_edit (Swap p1 p2) q = queue_swap q p1 p2"
| "queue_edit (Move from to) q = queue_move q from to"
| "queue_edit (Move_Range start end to) q = queue_move_range q start end to"
| "queue_edit Clear q = queue_clear q"

lemma queue_delete_position:
  assumes "queue_wf q" "position < q_length q"
  obtains ord where "ord < q_length q" "position = q_order q ! ord"
    "queue_delete q position = Some (deleted q position ord)" "queue_wf (deleted q position ord)"
    "queue_view (deleted q position ord) = remove_nth position (queue_view q)"
proof -
  obtain ord where ord: "ord < q_length q" "position = q_order q ! ord"
    using wf_order_surj [OF assms] by metis
  have wf: "queue_wf (deleted q position ord)" by (rule deleted_wf [OF assms(1) ord])
  then show ?thesis
    using that ord queue_delete_eq [OF assms(1) ord] queue_view_deleted [OF assms wf] by simp
qed

lemma map_move_block: "map f (move_block start end to xs) = move_block start end to (map f xs)"
  by (simp add: move_block_def Let_def take_map drop_map)

lemma queue_move_range_spec:
  assumes "queue_wf q" "start < end" "end \<le> q_length q" "to + end \<le> q_length q + start"
  shows "\<exists>q'. queue_move_range q start end to = Some q' \<and> queue_wf q' \<and> q_max_length q' = q_max_length q \<and>
    queue_view q' = move_block start end to (queue_view q)"
  using queue_move_range_eq [OF assms] moved_range_wf [OF assms] queue_view_moved_range [OF assms] by simp

lemma queue_edit_refines:
  assumes wf: "queue_wf q" and e: "list_edit (q_max_length q) e (map without_id (queue_view q)) = Some xs"
  shows "\<exists>q'. queue_edit e q = Some q' \<and> queue_wf q' \<and> q_max_length q' = q_max_length q \<and>
    map without_id (queue_view q') = xs"
proof (cases e)
  case (Append s v)
  then have room: "q_length q < q_max_length q" and xs: "xs = map without_id (queue_view q) @ [(s, v)]"
    using e wf by (simp_all add: length_queue_view split: if_splits)
  obtain sid where sid: "sid < length (q_id_to_position q)" "q_id_to_position q ! sid = -1"
    "queue_append q s v = Some (sid, appended q s v sid)"
    using queue_append_eq [OF wf room] .
  then show ?thesis
    using Append xs appended_wf [OF wf room sid(1,2)] queue_view_appended [OF wf room]
    by (simp add: without_id_def) (simp add: appended_def)
next
  case (Delete p)
  then have p: "p < q_length q" and xs: "xs = remove_nth p (map without_id (queue_view q))"
    using e wf by (simp_all add: length_queue_view split: if_splits)
  obtain ord where "queue_delete q p = Some (deleted q p ord)" "queue_wf (deleted q p ord)"
    "queue_view (deleted q p ord) = remove_nth p (queue_view q)"
    using queue_delete_position [OF wf p] .
  then show ?thesis using Delete xs by (simp add: map_remove_nth)
next
  case (Swap p1 p2)
  then have p: "p1 < q_length q" "p2 < q_length q" and xs: "xs = swap_at p1 p2 (map without_id (queue_view q))"
    using e wf by (auto simp: length_queue_view split: if_splits)
  then show ?thesis
    using Swap queue_swap_eq [OF wf p] placed_wf [OF wf swap_relocates [OF p]] queue_view_swapped [OF wf p] wf
    by (simp add: map_swap_at length_queue_view) (simp add: swapped_def)
next
  case (Move i to)
  then have p: "i < q_length q" "to < q_length q" and xs: "xs = move_block i (i + 1) to (map without_id (queue_view q))"
    using e wf by (auto simp: length_queue_view split: if_splits)
  have "to + (i + 1) \<le> q_length q + i" "i + 1 \<le> q_length q" using p by simp_all
  then show ?thesis
    using Move xs queue_move_eq [OF wf p] queue_move_range_spec [OF wf, of "i" "i + 1" to]
    by (auto simp: map_move_block)
next
  case (Move_Range start stop to)
  then have p: "start < stop" "stop \<le> q_length q" "to + stop \<le> q_length q + start"
    and xs: "xs = move_block start stop to (map without_id (queue_view q))"
    using e wf by (auto simp: length_queue_view split: if_splits)
  show ?thesis
    using Move_Range xs queue_move_range_spec [OF wf p] by (auto simp: map_move_block)
next
  case Clear
  then show ?thesis
    using e queue_clear_eq [OF wf] queue_clear_wf [OF wf] by (simp add: queue_view_def)
qed

lemma queue_id_found:
  assumes "queue_wf q" "p < length (queue_view q)"
  shows "queue_id_to_position q (key_id (queue_view q ! p)) = Some (int p)"
proof -
  have p: "p < q_length q" using assms by (simp add: length_queue_view)
  have "owns q p" using wf_owns [OF assms(1) p] .
  then show ?thesis
    using assms(1) p by (simp add: queue_id_to_position_wf nth_queue_view item_key_def owns_def)
qed

lemma queue_id_missing:
  assumes "queue_wf q" "d \<notin> key_id ` set (queue_view q)"
  shows "queue_id_to_position q d = Some (-1)"
proof (cases "d < length (q_id_to_position q) \<and> q_id_to_position q ! d \<noteq> -1")
  case True
  then have d: "0 \<le> q_id_to_position q ! d" "q_id_to_position q ! d < int (q_length q)"
    "qi_id (q_items q ! nat (q_id_to_position q ! d)) = d"
    using wf_id_table [OF assms(1)] by auto
  then have n: "nat (q_id_to_position q ! d) < q_length q" by linarith
  then have "queue_view q ! nat (q_id_to_position q ! d) \<in> set (queue_view q)"
    using assms(1) by (simp add: length_queue_view)
  moreover have "key_id (queue_view q ! nat (q_id_to_position q ! d)) = d"
    using n d(3) assms(1) by (simp add: nth_queue_view item_key_def)
  ultimately show ?thesis using assms(2) by (metis imageI)
next
  case False
  then show ?thesis using assms(1) by (auto simp: queue_id_to_position_wf)
qed

interpretation pq: song_list queue_wf queue_view q_max_length queue_edit "\<lambda>d q. queue_id_to_position q d"
  by unfold_locales (simp_all add: queue_edit_refines queue_id_found queue_id_missing)

end
