(* ===== verification/Idle.thy ===== *)
theory Idle
  imports Mpd_Prelude
begin

text \<open>
  The idle flags of \<^verbatim>\<open>src/idle.c\<close> and \<^verbatim>\<open>src/idle.h\<close>: a set of subsystems that changed since the
  clients were last told, kept as one \<^verbatim>\<open>unsigned\<close>.  \<open>idle_add\<close> sets flags, \<open>idle_get\<close> takes them all.
\<close>

unbundle bit_operations_syntax

definition IDLE_DATABASE :: u32 where "IDLE_DATABASE = 0x1"
definition IDLE_STORED_PLAYLIST :: u32 where "IDLE_STORED_PLAYLIST = 0x2"
definition IDLE_PLAYLIST :: u32 where "IDLE_PLAYLIST = 0x4"
definition IDLE_PLAYER :: u32 where "IDLE_PLAYER = 0x8"
definition IDLE_MIXER :: u32 where "IDLE_MIXER = 0x10"
definition IDLE_OUTPUT :: u32 where "IDLE_OUTPUT = 0x20"
definition IDLE_OPTIONS :: u32 where "IDLE_OPTIONS = 0x40"
definition IDLE_STICKER :: u32 where "IDLE_STICKER = 0x80"
definition IDLE_UPDATE :: u32 where "IDLE_UPDATE = 0x100"
definition IDLE_SUBSCRIPTION :: u32 where "IDLE_SUBSCRIPTION = 0x200"
definition IDLE_MESSAGE :: u32 where "IDLE_MESSAGE = 0x400"

lemmas idle_flag_defs = IDLE_DATABASE_def IDLE_STORED_PLAYLIST_def IDLE_PLAYLIST_def IDLE_PLAYER_def
  IDLE_MIXER_def IDLE_OUTPUT_def IDLE_OPTIONS_def IDLE_STICKER_def IDLE_UPDATE_def
  IDLE_SUBSCRIPTION_def IDLE_MESSAGE_def

definition idle_names :: "string list" where
  "idle_names = [''database'', ''stored_playlist'', ''playlist'', ''player'', ''mixer'', ''output'',
     ''options'', ''sticker'', ''update'', ''subscription'', ''message'']"

definition idle_get_names :: "string list" where
  "idle_get_names = idle_names"

definition idle_add :: "u32 \<Rightarrow> u32 \<Rightarrow> u32 option" where
  "idle_add flags idle_flags = do {
     assert_that (flags \<noteq> 0);
     Some (idle_flags OR flags)
   }"

definition idle_get :: "u32 \<Rightarrow> u32 \<times> u32" where
  "idle_get idle_flags = (idle_flags, 0)"

text \<open>The flags as a set of bit numbers; the bit number is the index of the flag's name.\<close>

definition idle_set :: "u32 \<Rightarrow> nat set" where
  "idle_set flags = {n. bit flags n}"

lemma idle_add_set:
  assumes "idle_add flags old = Some new"
  shows "idle_set new = idle_set old \<union> idle_set flags"
  using assms by (auto simp: idle_add_def idle_set_def bit_or_iff bind_eq_Some_conv)

text \<open>Nothing is lost: what was added since the last \<open>idle_get\<close> is what the next one returns.\<close>

lemma idle_add_all:
  assumes "for_each idle_add fs old = Some new"
  shows "idle_set new = idle_set old \<union> (\<Union>f \<in> set fs. idle_set f)"
  using assms
  by (induction fs arbitrary: old) (auto simp: bind_eq_Some_conv dest!: idle_add_set)

end
