(* ===== verification/Audio_Format.thy ===== *)
theory Audio_Format
  imports Mpd_Prelude
begin

text \<open>
  PCM stream formats: \<^verbatim>\<open>src/audio_format.h\<close> and \<^verbatim>\<open>src/audio_format.c\<close>.  The \<^verbatim>\<open>format\<close> member of
  \<^verbatim>\<open>struct audio_format\<close> is an \<^verbatim>\<open>uint8_t\<close> that always holds a value of \<^verbatim>\<open>enum sample_format\<close>; it is
  a \<open>datatype\<close> here, so the unreachable defaults of the switches do not arise.
\<close>

datatype sample_format =
    SAMPLE_FORMAT_UNDEFINED
  | SAMPLE_FORMAT_S8
  | SAMPLE_FORMAT_S16
  | SAMPLE_FORMAT_S24_P32
  | SAMPLE_FORMAT_S32
  | SAMPLE_FORMAT_FLOAT
  | SAMPLE_FORMAT_DSD

abbreviation MAX_CHANNELS :: nat where
  "MAX_CHANNELS \<equiv> 8"

record audio_format =
  af_sample_rate :: u32
  af_format :: sample_format
  af_channels :: u8

definition audio_format_clear :: audio_format where
  "audio_format_clear = \<lparr>af_sample_rate = 0, af_format = SAMPLE_FORMAT_UNDEFINED, af_channels = 0\<rparr>"

definition audio_format_init :: "u32 \<Rightarrow> sample_format \<Rightarrow> u8 \<Rightarrow> audio_format" where
  "audio_format_init sample_rate format channels =
     \<lparr>af_sample_rate = sample_rate, af_format = format, af_channels = channels\<rparr>"

definition audio_format_defined :: "audio_format \<Rightarrow> bool" where
  "audio_format_defined af \<longleftrightarrow> af_sample_rate af \<noteq> 0"

definition audio_format_fully_defined :: "audio_format \<Rightarrow> bool" where
  "audio_format_fully_defined af \<longleftrightarrow>
     af_sample_rate af \<noteq> 0 \<and> af_format af \<noteq> SAMPLE_FORMAT_UNDEFINED \<and> af_channels af \<noteq> 0"

definition audio_format_mask_defined :: "audio_format \<Rightarrow> bool" where
  "audio_format_mask_defined af \<longleftrightarrow>
     af_sample_rate af \<noteq> 0 \<or> af_format af \<noteq> SAMPLE_FORMAT_UNDEFINED \<or> af_channels af \<noteq> 0"

definition audio_valid_sample_rate :: "u32 \<Rightarrow> bool" where
  "audio_valid_sample_rate sample_rate \<longleftrightarrow> sample_rate > 0 \<and> sample_rate < 1073741824"

fun audio_valid_sample_format :: "sample_format \<Rightarrow> bool" where
  "audio_valid_sample_format SAMPLE_FORMAT_UNDEFINED = False"
| "audio_valid_sample_format _ = True"

definition audio_valid_channel_count :: "u32 \<Rightarrow> bool" where
  "audio_valid_channel_count channels \<longleftrightarrow> channels \<ge> 1 \<and> channels \<le> 8"

definition audio_format_valid :: "audio_format \<Rightarrow> bool" where
  "audio_format_valid af \<longleftrightarrow>
     audio_valid_sample_rate (af_sample_rate af) \<and>
     audio_valid_sample_format (af_format af) \<and>
     audio_valid_channel_count (ucast (af_channels af))"

definition audio_format_mask_valid :: "audio_format \<Rightarrow> bool" where
  "audio_format_mask_valid af \<longleftrightarrow>
     (af_sample_rate af = 0 \<or> audio_valid_sample_rate (af_sample_rate af)) \<and>
     (af_format af = SAMPLE_FORMAT_UNDEFINED \<or> audio_valid_sample_format (af_format af)) \<and>
     (af_channels af = 0 \<or> audio_valid_channel_count (ucast (af_channels af)))"

definition audio_format_equals :: "audio_format \<Rightarrow> audio_format \<Rightarrow> bool" where
  "audio_format_equals a b \<longleftrightarrow>
     af_sample_rate a = af_sample_rate b \<and> af_format a = af_format b \<and> af_channels a = af_channels b"

definition audio_format_mask_apply :: "audio_format \<Rightarrow> audio_format \<Rightarrow> audio_format option" where
  "audio_format_mask_apply af msk = do {
     assert_that (audio_format_valid af);
     assert_that (audio_format_mask_valid msk);
     af \<leftarrow> Some (if af_sample_rate msk \<noteq> 0
                 then af\<lparr>af_sample_rate := af_sample_rate msk\<rparr> else af);
     af \<leftarrow> Some (if af_format msk \<noteq> SAMPLE_FORMAT_UNDEFINED
                 then af\<lparr>af_format := af_format msk\<rparr> else af);
     af \<leftarrow> Some (if af_channels msk \<noteq> 0
                 then af\<lparr>af_channels := af_channels msk\<rparr> else af);
     assert_that (audio_format_valid af);
     Some af
   }"

fun sample_format_size :: "sample_format \<Rightarrow> nat" where
  "sample_format_size SAMPLE_FORMAT_S8 = 1"
| "sample_format_size SAMPLE_FORMAT_S16 = 2"
| "sample_format_size SAMPLE_FORMAT_S24_P32 = 4"
| "sample_format_size SAMPLE_FORMAT_S32 = 4"
| "sample_format_size SAMPLE_FORMAT_FLOAT = 4"
| "sample_format_size SAMPLE_FORMAT_DSD = 1"
| "sample_format_size SAMPLE_FORMAT_UNDEFINED = 0"

definition audio_format_sample_size :: "audio_format \<Rightarrow> nat" where
  "audio_format_sample_size af = sample_format_size (af_format af)"

definition audio_format_frame_size :: "audio_format \<Rightarrow> nat" where
  "audio_format_frame_size af = audio_format_sample_size af * unat (af_channels af)"

text \<open>The product is computed in \<^verbatim>\<open>unsigned\<close>, modulo \<open>2\<^sup>3\<^sup>2\<close>, before it becomes a \<^verbatim>\<open>double\<close>.\<close>

definition audio_format_time_to_size :: "audio_format \<Rightarrow> u32" where
  "audio_format_time_to_size af = af_sample_rate af * of_nat (audio_format_frame_size af)"

fun sample_format_to_string :: "sample_format \<Rightarrow> string" where
  "sample_format_to_string SAMPLE_FORMAT_UNDEFINED = ''?''"
| "sample_format_to_string SAMPLE_FORMAT_S8 = ''8''"
| "sample_format_to_string SAMPLE_FORMAT_S16 = ''16''"
| "sample_format_to_string SAMPLE_FORMAT_S24_P32 = ''24''"
| "sample_format_to_string SAMPLE_FORMAT_S32 = ''32''"
| "sample_format_to_string SAMPLE_FORMAT_FLOAT = ''f''"
| "sample_format_to_string SAMPLE_FORMAT_DSD = ''dsd''"

section \<open>Properties\<close>

lemma audio_format_equals_iff: "audio_format_equals a b \<longleftrightarrow> a = b"
  by (auto simp: audio_format_equals_def intro: audio_format.equality)

lemma valid_mask_valid: "audio_format_valid af \<Longrightarrow> audio_format_mask_valid af"
  by (simp add: audio_format_valid_def audio_format_mask_valid_def)

lemma valid_fully_defined: "audio_format_valid af \<Longrightarrow> audio_format_fully_defined af"
  by (auto simp: audio_format_valid_def audio_format_fully_defined_def audio_valid_sample_rate_def
      audio_valid_channel_count_def)

text \<open>Applying a mask: a defined attribute of the mask wins, and no assertion fails.\<close>

lemma audio_format_mask_apply_Some:
  assumes "audio_format_valid af" "audio_format_mask_valid msk"
  shows "\<exists>af'. audio_format_mask_apply af msk = Some af' \<and> audio_format_valid af' \<and>
    af_sample_rate af' = (if af_sample_rate msk = 0 then af_sample_rate af else af_sample_rate msk) \<and>
    af_format af' = (if af_format msk = SAMPLE_FORMAT_UNDEFINED then af_format af else af_format msk) \<and>
    af_channels af' = (if af_channels msk = 0 then af_channels af else af_channels msk)"
  using assms
  by (auto simp: audio_format_mask_apply_def audio_format_valid_def audio_format_mask_valid_def)

lemma audio_format_frame_size_bounds:
  assumes "audio_format_valid af"
  shows "1 \<le> audio_format_frame_size af" "audio_format_frame_size af \<le> 32"
proof -
  have c: "1 \<le> unat (af_channels af)" "unat (af_channels af) \<le> 8"
    using assms by (auto simp: audio_format_valid_def audio_valid_channel_count_def word_le_nat_alt)
  have s: "1 \<le> sample_format_size (af_format af)" "sample_format_size (af_format af) \<le> 4"
    using assms by (cases "af_format af"; simp add: audio_format_valid_def)+
  show "1 \<le> audio_format_frame_size af"
    using c(1) s(1) by (simp add: audio_format_frame_size_def audio_format_sample_size_def Suc_le_eq)
  show "audio_format_frame_size af \<le> 32"
    using mult_le_mono [OF s(2) c(2)]
    by (simp add: audio_format_frame_size_def audio_format_sample_size_def)
qed

end
