(* ===== verification/Player_Control.thy ===== *)
theory Player_Control
  imports Song Idle Audio_Format
begin

text \<open>
  The interface to the player thread: \<^verbatim>\<open>src/player_control.h\<close> and \<^verbatim>\<open>src/player_control.c\<close>.

  The main thread and the player thread share one \<^verbatim>\<open>struct player_control\<close>.  A command is written
  into it, the player thread is woken up and the main thread waits until \<^verbatim>\<open>error\<close> is no longer
  \<^verbatim>\<open>PLAYER_ERROR_PENDING\<close>.  What the player thread does meanwhile is the function \<open>PT\<close>: it takes the
  structure as it was when the main thread began to wait and returns it as the main thread finds it
  when it wakes up, or \<open>None\<close> when that never happens.  \<open>pc_thread\<close> is the state of the player thread
  that the structure itself does not hold, and \<open>pc_idle_flags\<close> are the process-wide idle flags, which
  both threads set.
\<close>

section \<open>State\<close>

datatype player_state = PLAYER_STATE_STOP | PLAYER_STATE_PAUSE | PLAYER_STATE_PLAY

datatype player_command =
    PLAYER_COMMAND_NONE
  | PLAYER_COMMAND_EXIT
  | PLAYER_COMMAND_STOP
  | PLAYER_COMMAND_PAUSE
  | PLAYER_COMMAND_SEEK
  | PLAYER_COMMAND_CLOSE_AUDIO
  | PLAYER_COMMAND_UPDATE_AUDIO
  | PLAYER_COMMAND_QUEUE
  | PLAYER_COMMAND_CANCEL
  | PLAYER_COMMAND_REFRESH

datatype player_error =
    PLAYER_ERROR_NOERROR
  | PLAYER_ERROR_FILE
  | PLAYER_ERROR_AUDIO
  | PLAYER_ERROR_SYSTEM
  | PLAYER_ERROR_UNKTYPE
  | PLAYER_ERROR_FILENOTFOUND
  | PLAYER_ERROR_PENDING

text \<open>Floating point members are real numbers; \<open>None\<close> stands for the NaN that disables mixramp.\<close>

record 't player_control =
  pc_buffer_chunks :: nat
  pc_buffered_before_play :: nat
  pc_command :: player_command
  pc_state :: player_state
  pc_error :: player_error
  pc_bit_rate :: u16
  pc_audio_format :: audio_format
  pc_total_time :: real
  pc_elapsed_time :: real
  pc_next_song :: "song option"
  pc_errored_song :: "song option"
  pc_seek_where :: real
  pc_cross_fade_seconds :: real
  pc_mixramp_db :: real
  pc_mixramp_delay_seconds :: "real option"
  pc_total_play_time :: real
  pc_border_pause :: bool
  pc_idle_flags :: u32
  pc_thread :: 't

type_synonym 't player_thread = "'t player_control \<Rightarrow> 't player_control option"

record player_status =
  st_state :: player_state
  st_bit_rate :: u16
  st_audio_format :: audio_format
  st_total_time :: real
  st_elapsed_time :: real

section \<open>Operations\<close>

text \<open>The allocation is zeroed, so every member that is not set below is zero.\<close>

definition pc_new :: "nat \<Rightarrow> nat \<Rightarrow> u32 \<Rightarrow> 't \<Rightarrow> 't player_control" where
  "pc_new buffer_chunks buffered_before_play idle_flags thread =
     \<lparr>pc_buffer_chunks = buffer_chunks, pc_buffered_before_play = buffered_before_play,
      pc_command = PLAYER_COMMAND_NONE, pc_state = PLAYER_STATE_STOP,
      pc_error = PLAYER_ERROR_NOERROR, pc_bit_rate = 0, pc_audio_format = audio_format_clear,
      pc_total_time = 0, pc_elapsed_time = 0, pc_next_song = None, pc_errored_song = None,
      pc_seek_where = 0, pc_cross_fade_seconds = 0, pc_mixramp_db = 0,
      pc_mixramp_delay_seconds = None, pc_total_play_time = 0, pc_border_pause = False,
      pc_idle_flags = idle_flags, pc_thread = thread\<rparr>"

definition pc_idle_add :: "u32 \<Rightarrow> 't player_control \<Rightarrow> 't player_control option" where
  "pc_idle_add flags pc = do {
     fs \<leftarrow> idle_add flags (pc_idle_flags pc);
     Some (pc\<lparr>pc_idle_flags := fs\<rparr>)
   }"

definition pc_song_deleted :: "'t player_control \<Rightarrow> song \<Rightarrow> 't player_control" where
  "pc_song_deleted pc song =
     (if song_same_opt (pc_errored_song pc) (Some song)
      then pc\<lparr>pc_error := PLAYER_ERROR_NOERROR, pc_errored_song := None\<rparr>
      else pc)"

text \<open>
  The main thread leaves the waiting loop only when \<^verbatim>\<open>error\<close> has changed: an answer that leaves it
  pending is no answer.
\<close>

definition player_command ::
    "'t player_thread \<Rightarrow> 't player_control \<Rightarrow> player_command \<Rightarrow> 't player_control option" where
  "player_command PT pc cmd = do {
     assert_that (pc_command pc = PLAYER_COMMAND_NONE);
     pc \<leftarrow> Some (pc\<lparr>pc_command := cmd\<rparr>);
     pc \<leftarrow> Some (pc\<lparr>pc_error := PLAYER_ERROR_PENDING\<rparr>);
     pc \<leftarrow> PT pc;
     assert_that (pc_error pc \<noteq> PLAYER_ERROR_PENDING);
     Some (pc\<lparr>pc_command := PLAYER_COMMAND_NONE\<rparr>)
   }"

definition pc_enqueue_song ::
    "'t player_thread \<Rightarrow> 't player_control \<Rightarrow> song \<Rightarrow> 't player_control option" where
  "pc_enqueue_song PT pc song = do {
     assert_that (pc_next_song pc = None);
     player_command PT (pc\<lparr>pc_next_song := Some song\<rparr>) PLAYER_COMMAND_QUEUE
   }"

definition pc_play ::
    "'t player_thread \<Rightarrow> 't player_control \<Rightarrow> song \<Rightarrow> 't player_control option" where
  "pc_play PT pc song = do {
     pc \<leftarrow> (if pc_state pc \<noteq> PLAYER_STATE_STOP
           then player_command PT pc PLAYER_COMMAND_STOP else Some pc);
     assert_that (pc_next_song pc = None);
     pc \<leftarrow> pc_enqueue_song PT pc song;
     assert_that (pc_next_song pc = None);
     Some pc
   }"

definition pc_cancel :: "'t player_thread \<Rightarrow> 't player_control \<Rightarrow> 't player_control option" where
  "pc_cancel PT pc = do {
     pc \<leftarrow> player_command PT pc PLAYER_COMMAND_CANCEL;
     assert_that (pc_next_song pc = None);
     Some pc
   }"

definition pc_stop :: "'t player_thread \<Rightarrow> 't player_control \<Rightarrow> 't player_control option" where
  "pc_stop PT pc = do {
     pc \<leftarrow> player_command PT pc PLAYER_COMMAND_CLOSE_AUDIO;
     assert_that (pc_next_song pc = None);
     pc_idle_add IDLE_PLAYER pc
   }"

definition pc_update_audio :: "'t player_thread \<Rightarrow> 't player_control \<Rightarrow> 't player_control option" where
  "pc_update_audio PT pc = player_command PT pc PLAYER_COMMAND_UPDATE_AUDIO"

definition pc_kill :: "'t player_thread \<Rightarrow> 't player_control \<Rightarrow> 't player_control option" where
  "pc_kill PT pc = do {
     pc \<leftarrow> player_command PT pc PLAYER_COMMAND_EXIT;
     pc_idle_add IDLE_PLAYER pc
   }"

definition pc_pause :: "'t player_thread \<Rightarrow> 't player_control \<Rightarrow> 't player_control option" where
  "pc_pause PT pc =
     (if pc_state pc \<noteq> PLAYER_STATE_STOP then do {
        pc \<leftarrow> player_command PT pc PLAYER_COMMAND_PAUSE;
        pc_idle_add IDLE_PLAYER pc
      }
      else Some pc)"

definition pc_set_pause ::
    "'t player_thread \<Rightarrow> 't player_control \<Rightarrow> bool \<Rightarrow> 't player_control option" where
  "pc_set_pause PT pc pause_flag =
     (case pc_state pc of
        PLAYER_STATE_STOP \<Rightarrow> Some pc
      | PLAYER_STATE_PLAY \<Rightarrow> if pause_flag then pc_pause PT pc else Some pc
      | PLAYER_STATE_PAUSE \<Rightarrow> if \<not> pause_flag then pc_pause PT pc else Some pc)"

definition pc_set_border_pause :: "'t player_control \<Rightarrow> bool \<Rightarrow> 't player_control" where
  "pc_set_border_pause pc border_pause = pc\<lparr>pc_border_pause := border_pause\<rparr>"

text \<open>The caller's structure \<open>status\<close> keeps its other members when the player has stopped.\<close>

definition pc_get_status ::
    "'t player_thread \<Rightarrow> 't player_control \<Rightarrow> player_status \<Rightarrow>
     (player_status \<times> 't player_control) option" where
  "pc_get_status PT pc status = do {
     pc \<leftarrow> player_command PT pc PLAYER_COMMAND_REFRESH;
     status \<leftarrow> Some (status\<lparr>st_state := pc_state pc\<rparr>);
     if pc_state pc \<noteq> PLAYER_STATE_STOP
     then Some (status\<lparr>st_bit_rate := pc_bit_rate pc, st_audio_format := pc_audio_format pc,
            st_total_time := pc_total_time pc, st_elapsed_time := pc_elapsed_time pc\<rparr>, pc)
     else Some (status, pc)
   }"

definition pc_get_state :: "'t player_control \<Rightarrow> player_state" where
  "pc_get_state pc = pc_state pc"

definition pc_clear_error :: "'t player_control \<Rightarrow> 't player_control" where
  "pc_clear_error pc = pc\<lparr>pc_error := PLAYER_ERROR_NOERROR, pc_errored_song := None\<rparr>"

definition pc_get_error :: "'t player_control \<Rightarrow> player_error" where
  "pc_get_error pc = pc_error pc"

text \<open>\<^verbatim>\<open>song_get_uri\<close> reads through the pointer, which must not be \<^verbatim>\<open>NULL\<close>.\<close>

definition pc_errored_song_uri :: "'t player_control \<Rightarrow> string option" where
  "pc_errored_song_uri pc = pc_errored_song pc \<bind> song_get_uri"

text \<open>The message, or \<^verbatim>\<open>NULL\<close> (the inner \<open>None\<close>) when there was no error.\<close>

definition pc_get_error_message :: "'t player_control \<Rightarrow> string option option" where
  "pc_get_error_message pc =
     (case pc_error pc of
        PLAYER_ERROR_NOERROR \<Rightarrow> Some None
      | PLAYER_ERROR_FILENOTFOUND \<Rightarrow> do {
          uri \<leftarrow> pc_errored_song_uri pc;
          Some (Some (''file \"'' @ uri @ ''\" does not exist or is inaccessible''))
        }
      | PLAYER_ERROR_FILE \<Rightarrow> do {
          uri \<leftarrow> pc_errored_song_uri pc;
          Some (Some (''problems decoding \"'' @ uri @ ''\"''))
        }
      | PLAYER_ERROR_AUDIO \<Rightarrow> Some (Some ''problems opening audio device'')
      | PLAYER_ERROR_SYSTEM \<Rightarrow> Some (Some ''system error occurred'')
      | PLAYER_ERROR_UNKTYPE \<Rightarrow> do {
          uri \<leftarrow> pc_errored_song_uri pc;
          Some (Some (''file type of \"'' @ uri @ ''\" is unknown''))
        }
      | PLAYER_ERROR_PENDING \<Rightarrow> None)"

definition pc_seek ::
    "'t player_thread \<Rightarrow> 't player_control \<Rightarrow> song \<Rightarrow> real \<Rightarrow> (bool \<times> 't player_control) option" where
  "pc_seek PT pc song seek_time = do {
     pc \<leftarrow> Some (pc\<lparr>pc_next_song := Some song, pc_seek_where := seek_time\<rparr>);
     pc \<leftarrow> player_command PT pc PLAYER_COMMAND_SEEK;
     assert_that (pc_next_song pc = None);
     pc \<leftarrow> pc_idle_add IDLE_PLAYER pc;
     Some (True, pc)
   }"

definition pc_get_cross_fade :: "'t player_control \<Rightarrow> real" where
  "pc_get_cross_fade pc = pc_cross_fade_seconds pc"

definition pc_set_cross_fade :: "'t player_control \<Rightarrow> real \<Rightarrow> 't player_control option" where
  "pc_set_cross_fade pc cross_fade_seconds =
     pc_idle_add IDLE_OPTIONS (pc\<lparr>pc_cross_fade_seconds :=
       (if cross_fade_seconds < 0 then 0 else cross_fade_seconds)\<rparr>)"

definition pc_get_mixramp_db :: "'t player_control \<Rightarrow> real" where
  "pc_get_mixramp_db pc = pc_mixramp_db pc"

definition pc_set_mixramp_db :: "'t player_control \<Rightarrow> real \<Rightarrow> 't player_control option" where
  "pc_set_mixramp_db pc mixramp_db =
     pc_idle_add IDLE_OPTIONS (pc\<lparr>pc_mixramp_db := mixramp_db\<rparr>)"

definition pc_get_mixramp_delay :: "'t player_control \<Rightarrow> real option" where
  "pc_get_mixramp_delay pc = pc_mixramp_delay_seconds pc"

definition pc_set_mixramp_delay :: "'t player_control \<Rightarrow> real option \<Rightarrow> 't player_control option" where
  "pc_set_mixramp_delay pc mixramp_delay_seconds =
     pc_idle_add IDLE_OPTIONS (pc\<lparr>pc_mixramp_delay_seconds := mixramp_delay_seconds\<rparr>)"

definition pc_get_total_play_time :: "'t player_control \<Rightarrow> real" where
  "pc_get_total_play_time pc = pc_total_play_time pc"

section \<open>The contract with the player thread\<close>

text \<open>
  Between two commands the structure is at rest; a stopped player has no song enqueued.  A command is
  well-formed when \<^verbatim>\<open>next_song\<close> is set for those that name a song.
\<close>

definition pc_ok :: "'t player_control \<Rightarrow> bool" where
  "pc_ok pc \<longleftrightarrow> pc_command pc = PLAYER_COMMAND_NONE \<and> pc_error pc \<noteq> PLAYER_ERROR_PENDING \<and>
     (pc_state pc = PLAYER_STATE_STOP \<longrightarrow> pc_next_song pc = None)"

fun names_song :: "player_command \<Rightarrow> bool" where
  "names_song PLAYER_COMMAND_SEEK = True"
| "names_song PLAYER_COMMAND_QUEUE = True"
| "names_song _ = False"

definition request ::
    "'t player_control \<Rightarrow> player_command \<Rightarrow> song option \<Rightarrow> real \<Rightarrow> 't player_control" where
  "request pc cmd song where_to = pc\<lparr>
     pc_next_song := (case song of None \<Rightarrow> pc_next_song pc | Some s \<Rightarrow> Some s),
     pc_seek_where := where_to, pc_command := cmd, pc_error := PLAYER_ERROR_PENDING\<rparr>"

definition good_request :: "'t player_control \<Rightarrow> player_command \<Rightarrow> song option \<Rightarrow> bool" where
  "good_request pc cmd song \<longleftrightarrow> pc_ok pc \<and> cmd \<noteq> PLAYER_COMMAND_NONE \<and>
     (names_song cmd \<longleftrightarrow> song \<noteq> None) \<and>
     (cmd = PLAYER_COMMAND_QUEUE \<longrightarrow> pc_next_song pc = None)"

text \<open>The commands after which \<^verbatim>\<open>next_song\<close> has been consumed or dropped.\<close>

definition consumes :: "player_command \<Rightarrow> player_state \<Rightarrow> bool" where
  "consumes cmd state \<longleftrightarrow>
     cmd \<in> {PLAYER_COMMAND_STOP, PLAYER_COMMAND_CLOSE_AUDIO, PLAYER_COMMAND_CANCEL, PLAYER_COMMAND_SEEK} \<or>
     cmd = PLAYER_COMMAND_QUEUE \<and> state = PLAYER_STATE_STOP"

lemma pc_idle_add_eq:
  "flags \<noteq> 0 \<Longrightarrow> pc_idle_add flags pc = Some (pc\<lparr>pc_idle_flags := pc_idle_flags pc OR flags\<rparr>)"
  by (simp add: pc_idle_add_def idle_add_def)

lemma idle_flags_nonzero [simp]:
  "IDLE_PLAYER \<noteq> 0" "IDLE_PLAYLIST \<noteq> 0" "IDLE_OPTIONS \<noteq> 0"
  by (simp_all add: idle_flag_defs)

lemma pc_ok_updates [simp]:
  "pc_ok (pc\<lparr>pc_idle_flags := f\<rparr>) = pc_ok pc"
  "pc_ok (pc\<lparr>pc_border_pause := b\<rparr>) = pc_ok pc"
  "pc_ok (pc\<lparr>pc_seek_where := w\<rparr>) = pc_ok pc"
  by (simp_all add: pc_ok_def)

lemma pc_clear_error_ok: "pc_ok pc \<Longrightarrow> pc_ok (pc_clear_error pc)"
  by (simp add: pc_ok_def pc_clear_error_def)

lemma pc_song_deleted_ok: "pc_ok pc \<Longrightarrow> pc_ok (pc_song_deleted pc song)"
  by (simp add: pc_ok_def pc_song_deleted_def)

lemma pc_song_deleted_sel [simp]:
  "pc_next_song (pc_song_deleted pc song) = pc_next_song pc"
  "pc_state (pc_song_deleted pc song) = pc_state pc"
  by (simp_all add: pc_song_deleted_def)

lemma pc_clear_error_sel [simp]:
  "pc_next_song (pc_clear_error pc) = pc_next_song pc" "pc_state (pc_clear_error pc) = pc_state pc"
  by (simp_all add: pc_clear_error_def)

text \<open>
  What the comments of \<^verbatim>\<open>player_control.h\<close> and the assertions of \<^verbatim>\<open>player_control.c\<close> expect of the
  player thread.  \<open>rest\<close> is the thread's own invariant between commands; the main thread does not
  disturb it.  In the situations \<open>live\<close> the thread answers a command.  When it has answered, it is
  at rest again; if it has stopped it holds no song; \<^verbatim>\<open>next_song\<close> is gone after the commands that
  consume it and is never replaced by another song; and \<^verbatim>\<open>PLAYER_COMMAND_STOP\<close> has stopped it.
\<close>

locale player_thread =
  fixes answer :: "'t player_thread" and rest live :: "'t player_control \<Rightarrow> bool"
  assumes answers: "good_request pc cmd song \<Longrightarrow> rest pc \<Longrightarrow> live (request pc cmd song w) \<Longrightarrow>
      \<exists>pc'. answer (request pc cmd song w) = Some pc' \<and> pc_error pc' \<noteq> PLAYER_ERROR_PENDING"
    and at_rest: "good_request pc cmd song \<Longrightarrow> rest pc \<Longrightarrow> answer (request pc cmd song w) = Some pc' \<Longrightarrow>
      pc_error pc' \<noteq> PLAYER_ERROR_PENDING \<Longrightarrow>
      rest (pc'\<lparr>pc_command := PLAYER_COMMAND_NONE\<rparr>) \<and>
      (pc_state pc' = PLAYER_STATE_STOP \<longrightarrow> pc_next_song pc' = None)"
    and consumed: "good_request pc cmd song \<Longrightarrow> rest pc \<Longrightarrow> answer (request pc cmd song w) = Some pc' \<Longrightarrow>
      pc_error pc' \<noteq> PLAYER_ERROR_PENDING \<Longrightarrow> consumes cmd (pc_state pc) \<Longrightarrow> pc_next_song pc' = None"
    and kept: "good_request pc cmd song \<Longrightarrow> rest pc \<Longrightarrow> answer (request pc cmd song w) = Some pc' \<Longrightarrow>
      pc_error pc' \<noteq> PLAYER_ERROR_PENDING \<Longrightarrow>
      pc_next_song pc' = None \<or> pc_next_song pc' = pc_next_song (request pc cmd song w)"
    and stopped: "good_request pc cmd song \<Longrightarrow> rest pc \<Longrightarrow> answer (request pc cmd song w) = Some pc' \<Longrightarrow>
      pc_error pc' \<noteq> PLAYER_ERROR_PENDING \<Longrightarrow> cmd = PLAYER_COMMAND_STOP \<Longrightarrow> pc_state pc' = PLAYER_STATE_STOP"
    and frame: "rest (pc\<lparr>pc_idle_flags := f\<rparr>) = rest pc" "rest (pc\<lparr>pc_border_pause := b\<rparr>) = rest pc"
      "rest (pc\<lparr>pc_error := e\<rparr>) = rest pc" "rest (pc\<lparr>pc_errored_song := s\<rparr>) = rest pc"
begin

lemma command_returns:
  assumes "good_request pc cmd song" "rest pc" "live (request pc cmd song w)"
  obtains pc' where
    "player_command answer (pc\<lparr>pc_next_song := pc_next_song (request pc cmd song w),
       pc_seek_where := w\<rparr>) cmd = Some pc'" "pc_ok pc'" "rest pc'"
    "consumes cmd (pc_state pc) \<Longrightarrow> pc_next_song pc' = None"
    "pc_next_song pc' = None \<or> pc_next_song pc' = pc_next_song (request pc cmd song w)"
    "cmd = PLAYER_COMMAND_STOP \<Longrightarrow> pc_state pc' = PLAYER_STATE_STOP"
proof -
  obtain pc1 where pc1: "answer (request pc cmd song w) = Some pc1" "pc_error pc1 \<noteq> PLAYER_ERROR_PENDING"
    using answers [OF assms] by blast
  note laws = at_rest [OF assms(1,2) pc1] consumed [OF assms(1,2) pc1] kept [OF assms(1,2) pc1]
    stopped [OF assms(1,2) pc1]
  have "pc_command pc = PLAYER_COMMAND_NONE" using assms(1) by (simp add: good_request_def pc_ok_def)
  then have "player_command answer (pc\<lparr>pc_next_song := pc_next_song (request pc cmd song w),
       pc_seek_where := w\<rparr>) cmd = Some (pc1\<lparr>pc_command := PLAYER_COMMAND_NONE\<rparr>)"
    using pc1 by (simp add: player_command_def request_def)
  then show ?thesis
    using that laws pc1(2) by (auto simp: pc_ok_def)
qed

lemma plain_command_returns:
  assumes "pc_ok pc" "rest pc" "\<not> names_song cmd" "cmd \<noteq> PLAYER_COMMAND_NONE" "\<And>pc. live pc"
  obtains pc' where "player_command answer pc cmd = Some pc'" "pc_ok pc'" "rest pc'"
    "consumes cmd (pc_state pc) \<Longrightarrow> pc_next_song pc' = None"
    "pc_next_song pc' = None \<or> pc_next_song pc' = pc_next_song pc"
    "cmd = PLAYER_COMMAND_STOP \<Longrightarrow> pc_state pc' = PLAYER_STATE_STOP"
proof -
  have g: "good_request pc cmd None" using assms by (auto simp: good_request_def)
  have "pc\<lparr>pc_next_song := pc_next_song (request pc cmd None (pc_seek_where pc)),
      pc_seek_where := pc_seek_where pc\<rparr> = pc"
    by (simp add: request_def)
  with command_returns [OF g assms(2) assms(5), of "pc_seek_where pc"] that show ?thesis
    by (simp add: request_def) blast
qed

lemma song_command_returns:
  assumes "pc_ok pc" "rest pc" "names_song cmd" "cmd = PLAYER_COMMAND_QUEUE \<longrightarrow> pc_next_song pc = None"
    "\<And>pc. live pc"
  obtains pc' where "player_command answer (pc\<lparr>pc_next_song := Some song, pc_seek_where := w\<rparr>) cmd = Some pc'"
    "pc_ok pc'" "rest pc'" "consumes cmd (pc_state pc) \<Longrightarrow> pc_next_song pc' = None"
    "pc_next_song pc' = None \<or> pc_next_song pc' = Some song"
proof -
  have g: "good_request pc cmd (Some song)" using assms by (auto simp: good_request_def)
  have "pc_next_song (request pc cmd (Some song) w) = Some song" by (simp add: request_def)
  with command_returns [OF g assms(2) assms(5), of w] that show ?thesis by simp blast
qed

lemma pc_enqueue_song_returns:
  assumes "pc_ok pc" "rest pc" "pc_next_song pc = None" "\<And>pc. live pc"
  obtains pc' where "pc_enqueue_song answer pc song = Some pc'" "pc_ok pc'" "rest pc'"
    "pc_state pc = PLAYER_STATE_STOP \<Longrightarrow> pc_next_song pc' = None"
    "pc_next_song pc' = None \<or> pc_next_song pc' = Some song"
proof -
  have n: "names_song PLAYER_COMMAND_QUEUE"
    "PLAYER_COMMAND_QUEUE = PLAYER_COMMAND_QUEUE \<longrightarrow> pc_next_song pc = None"
    using assms(3) by simp_all
  have eq: "pc\<lparr>pc_next_song := Some song, pc_seek_where := pc_seek_where pc\<rparr> = pc\<lparr>pc_next_song := Some song\<rparr>"
    by simp
  show ?thesis
    using song_command_returns [OF assms(1,2) n assms(4), of "pc_seek_where pc" song] that assms(3)
    unfolding eq by (simp add: pc_enqueue_song_def consumes_def) blast
qed

lemma pc_play_returns:
  assumes "pc_ok pc" "rest pc" "\<And>pc. live pc"
  obtains pc' where "pc_play answer pc song = Some pc'" "pc_ok pc'" "rest pc'" "pc_next_song pc' = None"
proof -
  obtain pc1 where pc1: "(if pc_state pc \<noteq> PLAYER_STATE_STOP
      then player_command answer pc PLAYER_COMMAND_STOP else Some pc) = Some pc1"
    "pc_ok pc1" "rest pc1" "pc_state pc1 = PLAYER_STATE_STOP"
  proof (cases "pc_state pc = PLAYER_STATE_STOP")
    case True
    then show ?thesis using that [of pc] assms(1,2) by simp
  next
    case False
    obtain pc1 where "player_command answer pc PLAYER_COMMAND_STOP = Some pc1" "pc_ok pc1" "rest pc1"
      "pc_state pc1 = PLAYER_STATE_STOP"
      using plain_command_returns [OF assms(1,2) _ _ assms(3), of PLAYER_COMMAND_STOP] by auto
    then show ?thesis using that [of pc1] False by simp
  qed
  then have n: "pc_next_song pc1 = None" by (simp add: pc_ok_def)
  obtain pc' where "pc_enqueue_song answer pc1 song = Some pc'" "pc_ok pc'" "rest pc'" "pc_next_song pc' = None"
    using pc_enqueue_song_returns [OF pc1(2,3) n assms(3)] pc1(4) by metis
  then show ?thesis using that pc1(1) n by (simp add: pc_play_def)
qed

lemma pc_cancel_returns:
  assumes "pc_ok pc" "rest pc" "\<And>pc. live pc"
  obtains pc' where "pc_cancel answer pc = Some pc'" "pc_ok pc'" "rest pc'" "pc_next_song pc' = None"
proof -
  obtain pc' where "player_command answer pc PLAYER_COMMAND_CANCEL = Some pc'" "pc_ok pc'" "rest pc'"
    "pc_next_song pc' = None"
    using plain_command_returns [OF assms(1,2) _ _ assms(3), of PLAYER_COMMAND_CANCEL]
    by (auto simp: consumes_def)
  then show ?thesis using that by (simp add: pc_cancel_def)
qed

lemma pc_stop_returns:
  assumes "pc_ok pc" "rest pc" "\<And>pc. live pc"
  obtains pc' where "pc_stop answer pc = Some pc'" "pc_ok pc'" "rest pc'" "pc_next_song pc' = None"
proof -
  obtain pc' where "player_command answer pc PLAYER_COMMAND_CLOSE_AUDIO = Some pc'" "pc_ok pc'" "rest pc'"
    "pc_next_song pc' = None"
    using plain_command_returns [OF assms(1,2) _ _ assms(3), of PLAYER_COMMAND_CLOSE_AUDIO]
    by (auto simp: consumes_def)
  then show ?thesis using that by (simp add: pc_stop_def pc_idle_add_eq frame)
qed

lemma pc_pause_returns:
  assumes "pc_ok pc" "rest pc" "\<And>pc. live pc"
  obtains pc' where "pc_pause answer pc = Some pc'" "pc_ok pc'" "rest pc'"
    "pc_next_song pc' = None \<or> pc_next_song pc' = pc_next_song pc"
proof (cases "pc_state pc = PLAYER_STATE_STOP")
  case True
  then show ?thesis using that [of pc] assms(1,2) by (simp add: pc_pause_def)
next
  case False
  obtain pc' where "player_command answer pc PLAYER_COMMAND_PAUSE = Some pc'" "pc_ok pc'" "rest pc'"
    "pc_next_song pc' = None \<or> pc_next_song pc' = pc_next_song pc"
    using plain_command_returns [OF assms(1,2) _ _ assms(3), of PLAYER_COMMAND_PAUSE] by auto
  then show ?thesis using that False by (simp add: pc_pause_def pc_idle_add_eq frame)
qed

lemma pc_set_pause_returns:
  assumes "pc_ok pc" "rest pc" "\<And>pc. live pc"
  obtains pc' where "pc_set_pause answer pc flag = Some pc'" "pc_ok pc'" "rest pc'"
    "pc_next_song pc' = None \<or> pc_next_song pc' = pc_next_song pc"
  using that pc_pause_returns [OF assms] assms(1,2)
  by (cases "pc_state pc"; cases flag) (auto simp: pc_set_pause_def)

lemma pc_seek_returns:
  assumes "pc_ok pc" "rest pc" "\<And>pc. live pc"
  obtains pc' where "pc_seek answer pc song where_to = Some (True, pc')" "pc_ok pc'" "rest pc'" "pc_next_song pc' = None"
proof -
  obtain pc' where
    "player_command answer (pc\<lparr>pc_next_song := Some song, pc_seek_where := where_to\<rparr>)
       PLAYER_COMMAND_SEEK = Some pc'"
    "pc_ok pc'" "rest pc'" "pc_next_song pc' = None"
    using song_command_returns [OF assms(1,2) _ _ assms(3), of PLAYER_COMMAND_SEEK where_to song]
    by (auto simp: consumes_def)
  then show ?thesis using that by (simp add: pc_seek_def pc_idle_add_eq frame)
qed

lemma pc_get_status_returns:
  assumes "pc_ok pc" "rest pc" "\<And>pc. live pc"
  obtains st pc' where "pc_get_status answer pc st0 = Some (st, pc')" "pc_ok pc'" "rest pc'"
    "pc_next_song pc' = None \<or> pc_next_song pc' = pc_next_song pc" "st_state st = pc_state pc'"
proof -
  obtain pc' where "player_command answer pc PLAYER_COMMAND_REFRESH = Some pc'" "pc_ok pc'" "rest pc'"
    "pc_next_song pc' = None \<or> pc_next_song pc' = pc_next_song pc"
    using plain_command_returns [OF assms(1,2) _ _ assms(3), of PLAYER_COMMAND_REFRESH] by auto
  then show ?thesis
    using that by (cases "pc_state pc' = PLAYER_STATE_STOP") (simp_all add: pc_get_status_def)
qed

end

end
