(* ===== verification/Uri.thy ===== *)
theory Uri
  imports Mpd_Prelude "HOL-Library.Sublist"
begin

text \<open>
  URI helpers, \<^verbatim>\<open>src/uri.c\<close>.  A C string is the list of its characters in front of the terminator; a
  pointer into it is the suffix that starts there.
\<close>

section \<open>The string functions of the C library\<close>

text \<open>\<^verbatim>\<open>strchr\<close>, as the suffix that starts at the first occurrence.\<close>

fun strchr :: "string \<Rightarrow> char \<Rightarrow> string option" where
  "strchr [] c = None"
| "strchr (x # xs) c = (if x = c then Some (x # xs) else strchr xs c)"

fun strrchr :: "string \<Rightarrow> char \<Rightarrow> string option" where
  "strrchr [] c = None"
| "strrchr (x # xs) c = (case strrchr xs c of Some s \<Rightarrow> Some s
     | None \<Rightarrow> if x = c then Some (x # xs) else None)"

fun strstr :: "string \<Rightarrow> string \<Rightarrow> string option" where
  "strstr xs pat = (if prefix pat xs then Some xs
     else case xs of [] \<Rightarrow> None | _ # ys \<Rightarrow> strstr ys pat)"

declare strstr.simps [simp del]

text \<open>Advancing a pointer past the terminator leaves the string: there is nothing to read there.\<close>

definition advance :: "nat \<Rightarrow> string \<Rightarrow> string option" where
  "advance n p = (if n \<le> length p then Some (drop n p) else None)"

section \<open>Definitions\<close>

definition uri_has_scheme :: "string \<Rightarrow> bool" where
  "uri_has_scheme uri \<longleftrightarrow> strstr uri ''://'' \<noteq> None"

definition uri_get_suffix :: "string \<Rightarrow> string option" where
  "uri_get_suffix uri = do {
     suffix \<leftarrow> strrchr uri CHR ''.'';
     let suffix = tl suffix;
     if list_ex (\<lambda>c. c = CHR ''/'' \<or> c = CHR 0x5C) suffix then None else Some suffix
   }"

text \<open>
  The outer \<open>None\<close> is a read behind the terminator, the inner one the \<^verbatim>\<open>NULL\<close> that rejects the segment.
\<close>

definition verify_uri_segment :: "string \<Rightarrow> string option option" where
  "verify_uri_segment p = do {
     let dots = length (takeWhile (\<lambda>c. c = CHR ''.'') p);
     let p = dropWhile (\<lambda>c. c = CHR ''.'') p;
     if dots \<le> 2 \<and> (p = [] \<or> hd p = CHR ''/'') then Some None
     else do {
       p \<leftarrow> advance 1 p;
       Some (Some (case strchr p CHR ''/'' of Some q \<Rightarrow> q | None \<Rightarrow> []))
     }
   }"

lemma strchr_length: "strchr p c = Some q \<Longrightarrow> length q \<le> length p \<and> hd q = c \<and> q \<noteq> []"
  by (induction p c rule: strchr.induct) (auto split: if_splits)

lemma verify_uri_segment_shorter:
  assumes "verify_uri_segment p = Some (Some q)" shows "q = [] \<or> (length q < length p \<and> hd q = CHR ''/'')"
proof -
  let ?p = "dropWhile (\<lambda>c. c = CHR ''.'') p"
  from assms have "1 \<le> length ?p" "q = (case strchr (drop 1 ?p) CHR ''/'' of Some q \<Rightarrow> q | None \<Rightarrow> [])"
    by (auto simp: verify_uri_segment_def advance_def Let_def split: if_splits)
  moreover have "length ?p \<le> length p" by (simp add: length_dropWhile_le)
  ultimately show ?thesis
    using strchr_length [of "drop 1 ?p" "CHR ''/''" q] by (auto split: option.splits)
qed

function uri_safe_local :: "string \<Rightarrow> bool option" where
  "uri_safe_local uri =
     (case verify_uri_segment uri of
        None \<Rightarrow> None
      | Some None \<Rightarrow> Some False
      | Some (Some uri') \<Rightarrow>
          if uri' = [] then Some True
          else if hd uri' = CHR ''/'' then uri_safe_local (tl uri') else None)"
  by pat_completeness auto
termination
proof (relation "measure length")
  fix uri x uri' assume "verify_uri_segment uri = Some x" "x = Some uri'" "uri' \<noteq> []"
  then show "(tl uri', uri) \<in> measure length"
    using verify_uri_segment_shorter [of uri uri'] by auto
qed simp

declare uri_safe_local.simps [simp del]

definition uri_remove_auth :: "string \<Rightarrow> string option" where
  "uri_remove_auth uri = do {
     n \<leftarrow> (if take 7 uri = ''http://'' then Some 7
          else if take 8 uri = ''https://'' then Some 8 else None);
     let auth = drop n uri;
     let host = takeWhile (\<lambda>c. c \<noteq> CHR ''/'') auth;
     at \<leftarrow> strchr host CHR ''@'';
     let k = length host - length at;
     Some (take n uri @ drop (k + 1) auth)
   }"

section \<open>Properties\<close>

text \<open>The segments between the slashes.\<close>

fun segments :: "string \<Rightarrow> string list" where
  "segments [] = [[]]"
| "segments (c # cs) = (if c = CHR ''/'' then [] # segments cs
     else (c # hd (segments cs)) # tl (segments cs))"

definition all_dots :: "string \<Rightarrow> bool" where
  "all_dots s \<longleftrightarrow> list_all (\<lambda>c. c = CHR ''.'') s"

lemma segments_ne [simp]: "segments s \<noteq> []"
  by (induction s rule: segments.induct) auto

lemma segments_no_slash: "CHR ''/'' \<notin> set s \<Longrightarrow> segments s = [s]"
  by (induction s) auto

lemma segments_slash: "CHR ''/'' \<notin> set s \<Longrightarrow> segments (s @ CHR ''/'' # t) = s # segments t"
  by (induction s) auto

lemma strchr_None: "strchr p c = None \<longleftrightarrow> c \<notin> set p"
  by (induction p c rule: strchr.induct) auto

text \<open>The first segment of a string and what follows it.\<close>

lemma split_segment:
  obtains (last) "CHR ''/'' \<notin> set p" | (more) s t where "p = s @ CHR ''/'' # t" "CHR ''/'' \<notin> set s"
  using split_list_first [of "CHR ''/''" p] by blast

text \<open>One step of the check, for a segment that is not three or more dots.\<close>

lemma all_dots_replicate: "all_dots s \<longleftrightarrow> s = replicate (length s) CHR ''.''"
  by (induction s) (auto simp: all_dots_def)

lemma verify_last:
  assumes "CHR ''/'' \<notin> set s" "\<not> (all_dots s \<and> 2 < length s)"
  shows "verify_uri_segment s = Some (if all_dots s then None else Some [])"
proof (cases "all_dots s")
  case True
  then have dw: "dropWhile (\<lambda>c. c = CHR ''.'') s = []" and tw: "takeWhile (\<lambda>c. c = CHR ''.'') s = s"
    by (auto simp: all_dots_def list_all_iff)
  show ?thesis using True assms(2) by (simp add: verify_uri_segment_def dw tw)
next
  case False
  let ?p = "dropWhile (\<lambda>c. c = CHR ''.'') s"
  have "?p \<noteq> []" using False by (auto simp: all_dots_def list_all_iff)
  moreover have "hd ?p \<noteq> CHR ''/''"
    using assms(1) \<open>?p \<noteq> []\<close> hd_in_set set_dropWhileD by metis
  moreover have "CHR ''/'' \<notin> set (drop 1 ?p)"
    using assms(1) by (meson in_set_dropD set_dropWhileD)
  ultimately show ?thesis
    using False by (auto simp: verify_uri_segment_def advance_def Let_def Suc_le_eq strchr_None [symmetric])
qed

lemma verify_more:
  assumes "CHR ''/'' \<notin> set s" "\<not> (all_dots s \<and> 2 < length s)"
  shows "verify_uri_segment (s @ CHR ''/'' # t) = Some (if all_dots s then None else Some (CHR ''/'' # t))"
proof (cases "all_dots s")
  case True
  then have "dropWhile (\<lambda>c. c = CHR ''.'') (s @ CHR ''/'' # t) = CHR ''/'' # t"
    "takeWhile (\<lambda>c. c = CHR ''.'') (s @ CHR ''/'' # t) = s"
    by (auto simp: all_dots_def list_all_iff dropWhile_append3 takeWhile_append2)
  then show ?thesis using True assms(2) by (simp add: verify_uri_segment_def)
next
  case False
  then obtain x where x: "x \<in> set s" "x \<noteq> CHR ''.''" by (auto simp: all_dots_def list_all_iff)
  let ?d = "dropWhile (\<lambda>c. c = CHR ''.'')"
  have dw: "?d (s @ CHR ''/'' # t) = ?d s @ CHR ''/'' # t"
    using x by (simp add: dropWhile_append1)
  have ne: "?d s \<noteq> []" using x by (auto simp: dropWhile_eq_Nil_conv)
  have hd: "hd (?d s) \<noteq> CHR ''/''" and nos: "CHR ''/'' \<notin> set (tl (?d s))"
    using assms(1) ne set_dropWhileD [of _ "\<lambda>c. c = CHR ''.''" s] list.set_sel by metis+
  have "strchr (a @ CHR ''/'' # t) CHR ''/'' = Some (CHR ''/'' # t)" if "CHR ''/'' \<notin> set a" for a
    using that by (induction a) auto
  from this [OF nos] have "strchr (drop 1 (?d s @ CHR ''/'' # t)) CHR ''/'' = Some (CHR ''/'' # t)"
    using ne by (cases "?d s") auto
  then show ?thesis
    using False ne hd by (simp add: verify_uri_segment_def advance_def dw Let_def)
qed

text \<open>
  On URIs without a segment of three or more dots the check always ends, and it accepts exactly the
  URIs none of whose segments is empty, a dot or two dots.
\<close>

lemma uri_safe_local_iff:
  assumes "\<forall>s \<in> set (segments uri). \<not> (all_dots s \<and> 2 < length s)"
  shows "uri_safe_local uri = Some (\<forall>s \<in> set (segments uri). \<not> all_dots s)"
  using assms
proof (induction uri rule: uri_safe_local.induct)
  case (1 uri)
  show ?case
  proof (cases uri rule: split_segment)
    case last
    then have "segments uri = [uri]" by (rule segments_no_slash)
    with 1(2) last verify_last [of uri] show ?thesis
      by (subst uri_safe_local.simps) (simp split: if_splits)
  next
    case (more s t)
    then have seg: "segments uri = s # segments t" by (simp add: segments_slash)
    with 1(2) have v: "verify_uri_segment uri = Some (if all_dots s then None else Some (CHR ''/'' # t))"
      using more verify_more [of s t] by simp
    show ?thesis
    proof (cases "all_dots s")
      case True
      then show ?thesis using v seg by (subst uri_safe_local.simps) simp
    next
      case False
      then have "uri_safe_local t = Some (\<forall>s \<in> set (segments t). \<not> all_dots s)"
        using 1(1) [OF _ _ _ _] v seg 1(2) by simp
      then show ?thesis using v seg False by (subst uri_safe_local.simps) simp
    qed
  qed
qed

end
