(* ===== verification/Playlist.thy ===== *)
theory Playlist
  imports Playqueue Player_Control Uri
begin

text \<open>
  The playlist: the queue together with what is being played.  \<^verbatim>\<open>src/playlist.c\<close> (the current and the
  queued song, options, the events of the player), \<^verbatim>\<open>src/playlist_control.c\<close> (play, stop, next, seek)
  and \<^verbatim>\<open>src/playlist_edit.c\<close> (adding, removing and reordering songs).

  Every operation takes the playlist \<open>pl\<close> and the player control structure \<open>pc\<close> and returns both.
  \<open>G\<close> is glib, \<open>PT\<close> the player thread.  \<^verbatim>\<open>current\<close> and \<^verbatim>\<open>queued\<close> are order numbers or -1; where the code
  passes an \<^verbatim>\<open>int\<close> as an \<^verbatim>\<open>unsigned\<close>, \<open>to_unsigned\<close> converts it.  Parameters of type \<^verbatim>\<open>unsigned\<close> are
  \<open>nat\<close>.
\<close>

section \<open>State\<close>

record 'g playlist =
  pl_queue :: "'g queue"
  pl_playing :: bool
  pl_stop_on_error :: bool
  pl_error_count :: u32
  pl_current :: int
  pl_queued :: int

type_synonym ('g, 't) pstate = "'g playlist \<times> 't player_control"

datatype playlist_result =
    MPD_SUCCESS | MPD_ERR_FIRST | MPD_PERM | MPD_ACCESS | MPD_MISS_VALUE | MPD_INVAL
  | MPD_DUP | MPD_NOENT | MPD_3RD | MPD_NIMPL | MPD_DISABLED | MPD_UNKNOWN
  | PLAYLIST_ERRNO | PLAYLIST_DENIED | PLAYLIST_NO_SUCH_SONG | PLAYLIST_NO_SUCH_LIST | PLAYLIST_LIST_EXISTS | PLAYLIST_BAD_NAME
  | PLAYLIST_BAD_RANGE | PLAYLIST_NOT_PLAYING | PLAYLIST_TOO_LARGE | PLAYLIST_DISABLED | PLAYLIST_LAST | DB_FIRST
  | DB_DISABLED | DB_ACCESS | DB_CORRUPT | DB_MALFORM | DB_DUP | DB_ERRNO
  | DB_NOENT | CMD_QUOTE | MPD_ERR_LAST

definition playlist_init :: "nat list \<Rightarrow> 'g \<Rightarrow> nat \<Rightarrow> nat \<Rightarrow> 'g playlist" where
  "playlist_init order_mem rand cur max_length =
     \<lparr>pl_queue = queue_init order_mem rand cur max_length, pl_playing = False,
      pl_stop_on_error = False, pl_error_count = 0, pl_current = -1, pl_queued = -1\<rparr>"

definition order_to_position :: "'g playlist \<Rightarrow> int \<Rightarrow> nat option" where
  "order_to_position pl ord = queue_order_to_position (pl_queue pl) (to_unsigned ord)"

section \<open>The queued song\<close>

definition playlist_increment_version_all ::
    "'g playlist \<Rightarrow> 't player_control \<Rightarrow> ('g, 't) pstate option" where
  "playlist_increment_version_all pl pc = do {
     q \<leftarrow> queue_modify_all (pl_queue pl);
     pc \<leftarrow> pc_idle_add IDLE_PLAYLIST pc;
     Some (pl\<lparr>pl_queue := q\<rparr>, pc)
   }"

definition playlist_tag_changed ::
    "'g playlist \<Rightarrow> 't player_control \<Rightarrow> ('g, 't) pstate option" where
  "playlist_tag_changed pl pc =
     (if \<not> pl_playing pl then Some (pl, pc)
      else do {
        assert_that (0 \<le> pl_current pl);
        q \<leftarrow> queue_modify (pl_queue pl) (nat (pl_current pl));
        pc \<leftarrow> pc_idle_add IDLE_PLAYLIST pc;
        Some (pl\<lparr>pl_queue := q\<rparr>, pc)
      })"

definition playlist_queue_song_order ::
    "'t player_thread \<Rightarrow> 'g playlist \<Rightarrow> 't player_control \<Rightarrow> nat \<Rightarrow> ('g, 't) pstate option" where
  "playlist_queue_song_order PT pl pc ord = do {
     assert_that (queue_valid_order (pl_queue pl) ord);
     pl \<leftarrow> Some (pl\<lparr>pl_queued := int ord\<rparr>);
     song \<leftarrow> queue_get_order (pl_queue pl) ord;
     _ \<leftarrow> song_get_uri song;
     pc \<leftarrow> pc_enqueue_song PT pc song;
     Some (pl, pc)
   }"

text \<open>The result is the song, or \<^verbatim>\<open>NULL\<close> when none is queued.\<close>

definition playlist_get_queued_song :: "'g playlist \<Rightarrow> song option option" where
  "playlist_get_queued_song pl =
     (if \<not> pl_playing pl \<or> pl_queued pl < 0 then Some None
      else map_option Some (queue_get_order (pl_queue pl) (nat (pl_queued pl))))"

text \<open>
  \<^verbatim>\<open>playlist_update_queued_song\<close> in two parts: the order number of the next song, with the play order
  shuffled again at the end of a round in random mode, and handing that song to the player.
\<close>

definition next_order_shuffled :: "'g glib \<Rightarrow> 'g playlist \<Rightarrow> (int \<times> 'g playlist) option" where
  "next_order_shuffled G pl = do {
     next_order \<leftarrow> (if 0 \<le> pl_current pl
       then queue_next_order (pl_queue pl) (nat (pl_current pl)) else Some 0);
     if next_order = 0 \<and> q_random (pl_queue pl) \<and> \<not> q_single (pl_queue pl) then do {
       current_position \<leftarrow> order_to_position pl (pl_current pl);
       q \<leftarrow> queue_shuffle_order G (pl_queue pl);
       ord \<leftarrow> queue_position_to_order q current_position;
       Some (next_order, pl\<lparr>pl_queue := q, pl_current := int ord\<rparr>)
     }
     else Some (next_order, pl)
   }"

definition queue_next_song ::
    "'t player_thread \<Rightarrow> 'g playlist \<Rightarrow> 't player_control \<Rightarrow> song option \<Rightarrow> int \<Rightarrow>
     ('g, 't) pstate option" where
  "queue_next_song PT pl pc prev next_order = do {
     next_song \<leftarrow> (if 0 \<le> next_order
       then map_option Some (queue_get_order (pl_queue pl) (nat next_order)) else Some None);
     (pl, pc) \<leftarrow> (if prev \<noteq> None \<and> \<not> song_same_opt next_song prev then do {
         pc \<leftarrow> pc_cancel PT pc;
         Some (pl\<lparr>pl_queued := -1\<rparr>, pc)
       } else Some (pl, pc));
     if 0 \<le> next_order then
       if \<not> song_same_opt next_song prev
       then playlist_queue_song_order PT pl pc (nat next_order)
       else Some (pl\<lparr>pl_queued := next_order\<rparr>, pc)
     else Some (pl, pc)
   }"

definition playlist_update_queued_song ::
    "'g glib \<Rightarrow> 't player_thread \<Rightarrow> 'g playlist \<Rightarrow> 't player_control \<Rightarrow> song option \<Rightarrow>
     ('g, 't) pstate option" where
  "playlist_update_queued_song G PT pl pc prev =
     (if \<not> pl_playing pl then Some (pl, pc)
      else do {
        assert_that (\<not> queue_is_empty (pl_queue pl));
        assert_that ((pl_queued pl < 0) = (prev = None));
        (next_order, pl) \<leftarrow> next_order_shuffled G pl;
        queue_next_song PT pl pc prev next_order
      })"

definition playlist_play_order ::
    "'t player_thread \<Rightarrow> 'g playlist \<Rightarrow> 't player_control \<Rightarrow> int \<Rightarrow> ('g, 't) pstate option" where
  "playlist_play_order PT pl pc orderNum = do {
     pl \<leftarrow> Some (pl\<lparr>pl_playing := True, pl_queued := -1\<rparr>);
     song \<leftarrow> queue_get_order (pl_queue pl) (to_unsigned orderNum);
     _ \<leftarrow> song_get_uri song;
     pc \<leftarrow> pc_play PT pc song;
     Some (pl\<lparr>pl_current := orderNum\<rparr>, pc)
   }"

section \<open>Stopping and starting\<close>

definition playlist_stop ::
    "'g glib \<Rightarrow> 't player_thread \<Rightarrow> 'g playlist \<Rightarrow> 't player_control \<Rightarrow> ('g, 't) pstate option" where
  "playlist_stop G PT pl pc =
     (if \<not> pl_playing pl then Some (pl, pc)
      else do {
        pc \<leftarrow> pc_stop PT pc;
        pl \<leftarrow> Some (pl\<lparr>pl_queued := -1, pl_playing := False\<rparr>);
        if q_random (pl_queue pl) then do {
          current_position \<leftarrow> order_to_position pl (pl_current pl);
          q \<leftarrow> queue_shuffle_order G (pl_queue pl);
          ord \<leftarrow> queue_position_to_order q current_position;
          Some (pl\<lparr>pl_queue := q, pl_current := int ord\<rparr>, pc)
        }
        else Some (pl, pc)
      })"

text \<open>The selection of the song to play, once \<open>song\<close> is known to be -1 or a valid position.\<close>

definition play_selected ::
    "'t player_thread \<Rightarrow> 'g playlist \<Rightarrow> 't player_control \<Rightarrow> int \<Rightarrow> nat \<Rightarrow>
     (playlist_result \<times> ('g, 't) pstate) option" where
  "play_selected PT pl pc song i = do {
     (pl, i) \<leftarrow> (if q_random (pl_queue pl) then do {
         i \<leftarrow> (if 0 \<le> song then queue_position_to_order (pl_queue pl) (nat song) else Some i);
         pl \<leftarrow> Some (if \<not> pl_playing pl then pl\<lparr>pl_current := 0\<rparr> else pl);
         q \<leftarrow> queue_swap_order (pl_queue pl) i (to_unsigned (pl_current pl));
         Some (pl\<lparr>pl_queue := q\<rparr>, to_unsigned (pl_current pl))
       } else Some (pl, i));
     pl \<leftarrow> Some (pl\<lparr>pl_stop_on_error := False, pl_error_count := 0\<rparr>);
     st \<leftarrow> playlist_play_order PT pl pc (int i);
     Some (MPD_SUCCESS, st)
   }"

definition playlist_play ::
    "'t player_thread \<Rightarrow> 'g playlist \<Rightarrow> 't player_control \<Rightarrow> int \<Rightarrow>
     (playlist_result \<times> ('g, 't) pstate) option" where
  "playlist_play PT pl pc song = do {
     pc \<leftarrow> Some (pc_clear_error pc);
     if song = -1 then
       if queue_is_empty (pl_queue pl) then Some (MPD_SUCCESS, pl, pc)
       else if pl_playing pl then do {
         pc \<leftarrow> pc_set_pause PT pc False;
         Some (MPD_SUCCESS, pl, pc)
       }
       else play_selected PT pl pc song (if 0 \<le> pl_current pl then nat (pl_current pl) else 0)
     else if \<not> queue_valid_position (pl_queue pl) (to_unsigned song)
     then Some (PLAYLIST_BAD_RANGE, pl, pc)
     else play_selected PT pl pc song (to_unsigned song)
   }"

definition playlist_play_id ::
    "'t player_thread \<Rightarrow> 'g playlist \<Rightarrow> 't player_control \<Rightarrow> int \<Rightarrow>
     (playlist_result \<times> ('g, 't) pstate) option" where
  "playlist_play_id PT pl pc sid =
     (if sid = -1 then playlist_play PT pl pc sid
      else do {
        song \<leftarrow> queue_id_to_position (pl_queue pl) (to_unsigned sid);
        if song < 0 then Some (PLAYLIST_NO_SUCH_SONG, pl, pc)
        else playlist_play PT pl pc song
      })"

section \<open>Editing\<close>

definition playlist_increment_version ::
    "'g playlist \<Rightarrow> 't player_control \<Rightarrow> ('g, 't) pstate option" where
  "playlist_increment_version pl pc = do {
     q \<leftarrow> queue_increment_version (pl_queue pl);
     pc \<leftarrow> pc_idle_add IDLE_PLAYLIST pc;
     Some (pl\<lparr>pl_queue := q\<rparr>, pc)
   }"

definition playlist_clear ::
    "'g glib \<Rightarrow> 't player_thread \<Rightarrow> 'g playlist \<Rightarrow> 't player_control \<Rightarrow> ('g, 't) pstate option" where
  "playlist_clear G PT pl pc = do {
     (pl, pc) \<leftarrow> playlist_stop G PT pl pc;
     n \<leftarrow> queue_length (pl_queue pl);
     pc \<leftarrow> for_each (\<lambda>i pc. do {
         song \<leftarrow> queue_get (pl_queue pl) i;
         Some (if \<not> song_in_database song then pc_song_deleted pc song else pc)
       }) [0..<n] pc;
     q \<leftarrow> queue_clear (pl_queue pl);
     playlist_increment_version (pl\<lparr>pl_queue := q, pl_current := -1\<rparr>) pc
   }"

text \<open>In random mode the new song, the last one, is swapped into the songs still to be played.\<close>

definition shuffle_appended :: "'g glib \<Rightarrow> 'g playlist \<Rightarrow> 'g queue \<Rightarrow> 'g queue option" where
  "shuffle_appended G pl q =
     (if q_random q then do {
        let start = (if 0 \<le> pl_queued pl then nat (pl_queued pl + 1) else nat (pl_current pl + 1));
        n \<leftarrow> queue_length q;
        if start < n then queue_shuffle_order_last G q start n else Some q
      }
      else Some q)"

text \<open>The result carries the id of the new song.\<close>

definition playlist_append_song ::
    "'g glib \<Rightarrow> 't player_thread \<Rightarrow> 'g playlist \<Rightarrow> 't player_control \<Rightarrow> song \<Rightarrow>
     (playlist_result \<times> nat option \<times> ('g, 't) pstate) option" where
  "playlist_append_song G PT pl pc song = do {
     full \<leftarrow> queue_is_full (pl_queue pl);
     if full then Some (PLAYLIST_TOO_LARGE, None, pl, pc)
     else do {
       queued \<leftarrow> playlist_get_queued_song pl;
       (sid, q) \<leftarrow> queue_append (pl_queue pl) song 0;
       q \<leftarrow> shuffle_appended G pl q;
       (pl, pc) \<leftarrow> playlist_increment_version (pl\<lparr>pl_queue := q\<rparr>) pc;
       st \<leftarrow> playlist_update_queued_song G PT pl pc queued;
       Some (MPD_SUCCESS, Some sid, st)
     }
   }"

text \<open>
  \<open>db\<close> is the song database, \<open>addr\<close> the address of the allocation for a remote song; \<open>file_song\<close> is what
  \<^verbatim>\<open>song_file_load\<close> returned for the path.
\<close>

definition song_by_uri :: "(string \<Rightarrow> song option) \<Rightarrow> nat \<Rightarrow> string \<Rightarrow> song option option" where
  "song_by_uri db addr uri =
     (case db uri of
        Some song \<Rightarrow> Some (Some song)
      | None \<Rightarrow> if uri_has_scheme uri then map_option Some (song_remote_new addr uri) else Some None)"

definition playlist_append_uri ::
    "'g glib \<Rightarrow> 't player_thread \<Rightarrow> (string \<Rightarrow> song option) \<Rightarrow> nat \<Rightarrow> 'g playlist \<Rightarrow> 't player_control \<Rightarrow>
     string \<Rightarrow> (playlist_result \<times> nat option \<times> ('g, 't) pstate) option" where
  "playlist_append_uri G PT db addr pl pc uri = do {
     song \<leftarrow> song_by_uri db addr uri;
     case song of
       None \<Rightarrow> Some (PLAYLIST_NO_SUCH_SONG, None, pl, pc)
     | Some song \<Rightarrow> playlist_append_song G PT pl pc song
   }"

definition playlist_append_file ::
    "'g glib \<Rightarrow> 't player_thread \<Rightarrow> 'g playlist \<Rightarrow> 't player_control \<Rightarrow> song option \<Rightarrow>
     (playlist_result \<times> nat option \<times> ('g, 't) pstate) option" where
  "playlist_append_file G PT pl pc file_song =
     (case file_song of
        None \<Rightarrow> Some (PLAYLIST_NO_SUCH_SONG, None, pl, pc)
      | Some song \<Rightarrow> playlist_append_song G PT pl pc song)"

text \<open>After the songs were swapped, \<^verbatim>\<open>current\<close> or the play order follows them.\<close>

definition swap_follow_current ::
    "'g playlist \<Rightarrow> 'g queue \<Rightarrow> nat \<Rightarrow> nat \<Rightarrow> 'g playlist option" where
  "swap_follow_current pl q song1 song2 =
     (if q_random q then do {
        ord1 \<leftarrow> queue_position_to_order q song1;
        ord2 \<leftarrow> queue_position_to_order q song2;
        q \<leftarrow> queue_swap_order q ord1 ord2;
        Some (pl\<lparr>pl_queue := q\<rparr>)
      }
      else Some (pl\<lparr>pl_queue := q, pl_current :=
        (if pl_current pl = int song1 then int song2
         else if pl_current pl = int song2 then int song1 else pl_current pl)\<rparr>))"

definition playlist_swap_songs ::
    "'g glib \<Rightarrow> 't player_thread \<Rightarrow> 'g playlist \<Rightarrow> 't player_control \<Rightarrow> nat \<Rightarrow> nat \<Rightarrow>
     (playlist_result \<times> ('g, 't) pstate) option" where
  "playlist_swap_songs G PT pl pc song1 song2 =
     (if \<not> queue_valid_position (pl_queue pl) song1 \<or> \<not> queue_valid_position (pl_queue pl) song2
      then Some (PLAYLIST_BAD_RANGE, pl, pc)
      else do {
        queued \<leftarrow> playlist_get_queued_song pl;
        q \<leftarrow> queue_swap (pl_queue pl) song1 song2;
        pl \<leftarrow> swap_follow_current pl q song1 song2;
        (pl, pc) \<leftarrow> playlist_increment_version pl pc;
        st \<leftarrow> playlist_update_queued_song G PT pl pc queued;
        Some (MPD_SUCCESS, st)
      })"

definition playlist_swap_songs_id ::
    "'g glib \<Rightarrow> 't player_thread \<Rightarrow> 'g playlist \<Rightarrow> 't player_control \<Rightarrow> nat \<Rightarrow> nat \<Rightarrow>
     (playlist_result \<times> ('g, 't) pstate) option" where
  "playlist_swap_songs_id G PT pl pc id1 id2 = do {
     song1 \<leftarrow> queue_id_to_position (pl_queue pl) id1;
     song2 \<leftarrow> queue_id_to_position (pl_queue pl) id2;
     if song1 < 0 \<or> song2 < 0 then Some (PLAYLIST_NO_SUCH_SONG, pl, pc)
     else playlist_swap_songs G PT pl pc (nat song1) (nat song2)
   }"

definition playlist_set_priority ::
    "'g glib \<Rightarrow> 't player_thread \<Rightarrow> 'g playlist \<Rightarrow> 't player_control \<Rightarrow> nat \<Rightarrow> nat \<Rightarrow> u8 \<Rightarrow>
     (playlist_result \<times> ('g, 't) pstate) option" where
  "playlist_set_priority G PT pl pc start end priority = do {
     n \<leftarrow> queue_length (pl_queue pl);
     if n \<le> start then Some (PLAYLIST_BAD_RANGE, pl, pc)
     else do {
       let end = (if n < end then n else end);
       if end \<le> start then Some (MPD_SUCCESS, pl, pc)
       else do {
         current_position \<leftarrow> (if 0 \<le> pl_current pl
           then map_option int (order_to_position pl (pl_current pl)) else Some (-1));
         queued \<leftarrow> playlist_get_queued_song pl;
         (_, q) \<leftarrow> queue_set_priority_range G (pl_queue pl) start end priority (pl_current pl);
         (pl, pc) \<leftarrow> playlist_increment_version (pl\<lparr>pl_queue := q\<rparr>) pc;
         pl \<leftarrow> (if 0 \<le> current_position then do {
             ord \<leftarrow> queue_position_to_order (pl_queue pl) (nat current_position);
             Some (pl\<lparr>pl_current := int ord\<rparr>)
           } else Some pl);
         st \<leftarrow> playlist_update_queued_song G PT pl pc queued;
         Some (MPD_SUCCESS, st)
       }
     }
   }"

definition playlist_set_priority_id ::
    "'g glib \<Rightarrow> 't player_thread \<Rightarrow> 'g playlist \<Rightarrow> 't player_control \<Rightarrow> nat \<Rightarrow> u8 \<Rightarrow>
     (playlist_result \<times> ('g, 't) pstate) option" where
  "playlist_set_priority_id G PT pl pc song_id priority = do {
     song_position \<leftarrow> queue_id_to_position (pl_queue pl) song_id;
     if song_position < 0 then Some (PLAYLIST_NO_SUCH_SONG, pl, pc)
     else playlist_set_priority G PT pl pc (nat song_position) (nat song_position + 1) priority
   }"

text \<open>
  \<^verbatim>\<open>playlist_delete_internal\<close>: first what happens to playback when the current song goes away, then
  the removal.
\<close>

definition leave_deleted_song ::
    "'g glib \<Rightarrow> 't player_thread \<Rightarrow> 'g playlist \<Rightarrow> 't player_control \<Rightarrow> nat \<Rightarrow> song option \<Rightarrow>
     (song option \<times> ('g, 't) pstate) option" where
  "leave_deleted_song G PT pl pc songOrder queued =
     (if pl_playing pl \<and> pl_current pl = int songOrder then do {
        let paused = (pc_get_state pc = PLAYER_STATE_PAUSE);
        next_order \<leftarrow> queue_next_order (pl_queue pl) (nat (pl_current pl));
        pl \<leftarrow> Some (pl\<lparr>pl_current := (if next_order = int songOrder then -1 else next_order)\<rparr>);
        (pl, pc) \<leftarrow> (if 0 \<le> pl_current pl \<and> \<not> paused
          then playlist_play_order PT pl pc (pl_current pl)
          else do {
            (pl, pc) \<leftarrow> playlist_stop G PT pl pc;
            pc \<leftarrow> pc_stop PT pc;
            Some (pl\<lparr>pl_playing := False\<rparr>, pc)
          });
        Some (None, pl, pc)
      }
      else if pl_current pl = int songOrder then Some (queued, pl\<lparr>pl_current := -1\<rparr>, pc)
      else Some (queued, pl, pc))"

definition playlist_delete_internal ::
    "'g glib \<Rightarrow> 't player_thread \<Rightarrow> 'g playlist \<Rightarrow> 't player_control \<Rightarrow> nat \<Rightarrow> song option \<Rightarrow>
     (song option \<times> ('g, 't) pstate) option" where
  "playlist_delete_internal G PT pl pc song queued = do {
     n \<leftarrow> queue_length (pl_queue pl);
     assert_that (song < n);
     songOrder \<leftarrow> queue_position_to_order (pl_queue pl) song;
     (queued, pl, pc) \<leftarrow> leave_deleted_song G PT pl pc songOrder queued;
     s \<leftarrow> queue_get (pl_queue pl) song;
     pc \<leftarrow> Some (if \<not> song_in_database s then pc_song_deleted pc s else pc);
     q \<leftarrow> queue_delete (pl_queue pl) song;
     pl \<leftarrow> Some (pl\<lparr>pl_queue := q\<rparr>);
     pl \<leftarrow> Some (if int songOrder < pl_current pl then pl\<lparr>pl_current := pl_current pl - 1\<rparr> else pl);
     Some (queued, pl, pc)
   }"

definition playlist_delete ::
    "'g glib \<Rightarrow> 't player_thread \<Rightarrow> 'g playlist \<Rightarrow> 't player_control \<Rightarrow> nat \<Rightarrow>
     (playlist_result \<times> ('g, 't) pstate) option" where
  "playlist_delete G PT pl pc song = do {
     n \<leftarrow> queue_length (pl_queue pl);
     if n \<le> song then Some (PLAYLIST_BAD_RANGE, pl, pc)
     else do {
       queued \<leftarrow> playlist_get_queued_song pl;
       (queued, pl, pc) \<leftarrow> playlist_delete_internal G PT pl pc song queued;
       (pl, pc) \<leftarrow> playlist_increment_version pl pc;
       st \<leftarrow> playlist_update_queued_song G PT pl pc queued;
       Some (MPD_SUCCESS, st)
     }
   }"

definition playlist_delete_range ::
    "'g glib \<Rightarrow> 't player_thread \<Rightarrow> 'g playlist \<Rightarrow> 't player_control \<Rightarrow> nat \<Rightarrow> nat \<Rightarrow>
     (playlist_result \<times> ('g, 't) pstate) option" where
  "playlist_delete_range G PT pl pc start end = do {
     n \<leftarrow> queue_length (pl_queue pl);
     if n \<le> start then Some (PLAYLIST_BAD_RANGE, pl, pc)
     else do {
       let end = (if n < end then n else end);
       if end \<le> start then Some (MPD_SUCCESS, pl, pc)
       else do {
         queued \<leftarrow> playlist_get_queued_song pl;
         (queued, pl, pc) \<leftarrow> for_each
           (\<lambda>i (queued, pl, pc). playlist_delete_internal G PT pl pc i queued)
           (rev [start..<end]) (queued, pl, pc);
         (pl, pc) \<leftarrow> playlist_increment_version pl pc;
         st \<leftarrow> playlist_update_queued_song G PT pl pc queued;
         Some (MPD_SUCCESS, st)
       }
     }
   }"

definition playlist_delete_id ::
    "'g glib \<Rightarrow> 't player_thread \<Rightarrow> 'g playlist \<Rightarrow> 't player_control \<Rightarrow> nat \<Rightarrow>
     (playlist_result \<times> ('g, 't) pstate) option" where
  "playlist_delete_id G PT pl pc sid = do {
     song \<leftarrow> queue_id_to_position (pl_queue pl) sid;
     if song < 0 then Some (PLAYLIST_NO_SUCH_SONG, pl, pc)
     else playlist_delete G PT pl pc (nat song)
   }"

definition playlist_delete_song ::
    "'g glib \<Rightarrow> 't player_thread \<Rightarrow> 'g playlist \<Rightarrow> 't player_control \<Rightarrow> song \<Rightarrow> ('g, 't) pstate option" where
  "playlist_delete_song G PT pl pc song = do {
     n \<leftarrow> queue_length (pl_queue pl);
     (pl, pc) \<leftarrow> for_each (\<lambda>i (pl, pc). do {
         s \<leftarrow> queue_get (pl_queue pl) i;
         if song_same song s then map_option snd (playlist_delete G PT pl pc i) else Some (pl, pc)
       }) (rev [0..<n]) (pl, pc);
     Some (pl, pc_song_deleted pc song)
   }"

text \<open>
  \<^verbatim>\<open>playlist_move_range\<close>.  A negative \<open>to\<close> counts from the current song; without a current song it is
  passed on as it is, converted to \<^verbatim>\<open>unsigned\<close>.
\<close>

definition move_target :: "'g playlist \<Rightarrow> nat \<Rightarrow> int \<Rightarrow> int \<Rightarrow> int" where
  "move_target pl start to current_song =
     (if to < 0 \<and> 0 \<le> pl_current pl then
        let to' = (current_song + \<bar>to\<bar>) mod int (q_length (pl_queue pl))
        in if int start < to' then to' - 1 else to'
      else to)"

definition moved_current :: "nat \<Rightarrow> nat \<Rightarrow> int \<Rightarrow> int \<Rightarrow> int" where
  "moved_current start end to current =
     (if int start \<le> current \<and> to_unsigned current < end then current + (to - int start)
      else if int end \<le> current \<and> current \<le> to then current - (int end - int start)
      else if to \<le> current \<and> current < int start then current + (int end - int start)
      else current)"

definition playlist_move_range ::
    "'g glib \<Rightarrow> 't player_thread \<Rightarrow> 'g playlist \<Rightarrow> 't player_control \<Rightarrow> nat \<Rightarrow> nat \<Rightarrow> int \<Rightarrow>
     (playlist_result \<times> ('g, 't) pstate) option" where
  "playlist_move_range G PT pl pc start end to =
     (if \<not> queue_valid_position (pl_queue pl) start \<or>
         \<not> queue_valid_position (pl_queue pl) (to_unsigned (int end - 1))
      then Some (PLAYLIST_BAD_RANGE, pl, pc)
      else do {
        n \<leftarrow> queue_length (pl_queue pl);
        if 0 \<le> to \<and> n \<le> to_unsigned (to + int end - int start - 1) \<or> to < 0 \<and> int n < \<bar>to\<bar>
        then Some (PLAYLIST_BAD_RANGE, pl, pc)
        else if int start = to then Some (MPD_SUCCESS, pl, pc)
        else do {
          queued \<leftarrow> playlist_get_queued_song pl;
          current_song \<leftarrow> (if 0 \<le> pl_current pl
            then map_option int (order_to_position pl (pl_current pl)) else Some (-1));
          if to < 0 \<and> 0 \<le> pl_current pl \<and> start \<le> nat current_song \<and> nat current_song < end
          then Some (MPD_SUCCESS, pl, pc)
          else do {
            let to = move_target pl start to current_song;
            q \<leftarrow> queue_move_range (pl_queue pl) start end (to_unsigned to);
            pl \<leftarrow> Some (pl\<lparr>pl_queue := q\<rparr>);
            pl \<leftarrow> Some (if \<not> q_random q
              then pl\<lparr>pl_current := moved_current start end to (pl_current pl)\<rparr> else pl);
            (pl, pc) \<leftarrow> playlist_increment_version pl pc;
            st \<leftarrow> playlist_update_queued_song G PT pl pc queued;
            Some (MPD_SUCCESS, st)
          }
        }
      })"

definition playlist_move_id ::
    "'g glib \<Rightarrow> 't player_thread \<Rightarrow> 'g playlist \<Rightarrow> 't player_control \<Rightarrow> nat \<Rightarrow> int \<Rightarrow>
     (playlist_result \<times> ('g, 't) pstate) option" where
  "playlist_move_id G PT pl pc id1 to = do {
     song \<leftarrow> queue_id_to_position (pl_queue pl) id1;
     if song < 0 then Some (PLAYLIST_NO_SUCH_SONG, pl, pc)
     else playlist_move_range G PT pl pc (nat song) (nat song + 1) to
   }"

text \<open>The current song, when it lies in the range, becomes its first song and is not shuffled.\<close>

definition shuffle_keep_current :: "'g playlist \<Rightarrow> nat \<Rightarrow> nat \<Rightarrow> ('g playlist \<times> nat) option" where
  "shuffle_keep_current pl start end =
     (if pl_playing pl \<and> 0 \<le> pl_current pl then do {
        current_position \<leftarrow> order_to_position pl (pl_current pl);
        if start \<le> current_position \<and> current_position < end then do {
          q \<leftarrow> queue_swap (pl_queue pl) start current_position;
          current \<leftarrow> (if q_random q then map_option int (queue_position_to_order q start)
                    else Some (int start));
          Some (pl\<lparr>pl_queue := q, pl_current := current\<rparr>, start + 1)
        }
        else Some (pl, start)
      }
      else Some (pl\<lparr>pl_current := -1\<rparr>, start))"

definition playlist_shuffle ::
    "'g glib \<Rightarrow> 't player_thread \<Rightarrow> 'g playlist \<Rightarrow> 't player_control \<Rightarrow> nat \<Rightarrow> nat \<Rightarrow>
     ('g, 't) pstate option" where
  "playlist_shuffle G PT pl pc start end = do {
     n \<leftarrow> queue_length (pl_queue pl);
     let end = (if n < end then n else end);
     if end \<le> to_unsigned (int start + 1) then Some (pl, pc)
     else do {
       queued \<leftarrow> playlist_get_queued_song pl;
       (pl, start) \<leftarrow> shuffle_keep_current pl start end;
       q \<leftarrow> queue_shuffle_range G (pl_queue pl) start end;
       (pl, pc) \<leftarrow> playlist_increment_version (pl\<lparr>pl_queue := q\<rparr>) pc;
       playlist_update_queued_song G PT pl pc queued
     }
   }"

section \<open>Advancing\<close>

definition consume_order ::
    "'g glib \<Rightarrow> 't player_thread \<Rightarrow> 'g playlist \<Rightarrow> 't player_control \<Rightarrow> int \<Rightarrow> ('g, 't) pstate option" where
  "consume_order G PT pl pc ord =
     (if q_consume (pl_queue pl) then do {
        position \<leftarrow> order_to_position pl ord;
        map_option snd (playlist_delete G PT pl pc position)
      }
      else Some (pl, pc))"

definition playlist_next ::
    "'g glib \<Rightarrow> 't player_thread \<Rightarrow> 'g playlist \<Rightarrow> 't player_control \<Rightarrow> ('g, 't) pstate option" where
  "playlist_next G PT pl pc =
     (if \<not> pl_playing pl then Some (pl, pc)
      else do {
        assert_that (\<not> queue_is_empty (pl_queue pl));
        assert_that (queue_valid_order (pl_queue pl) (to_unsigned (pl_current pl)));
        let current = pl_current pl;
        pl \<leftarrow> Some (pl\<lparr>pl_stop_on_error := False\<rparr>);
        next_order \<leftarrow> queue_next_order (pl_queue pl) (to_unsigned (pl_current pl));
        (pl, pc) \<leftarrow> (if next_order < 0 then do {
            (pl, pc) \<leftarrow> playlist_stop G PT pl pc;
            Some (pl\<lparr>pl_current := -1\<rparr>, pc)
          }
          else do {
            q \<leftarrow> (if next_order = 0 \<and> q_random (pl_queue pl) then do {
                assert_that (q_repeat (pl_queue pl));
                queue_shuffle_order G (pl_queue pl)
              } else Some (pl_queue pl));
            playlist_play_order PT (pl\<lparr>pl_queue := q\<rparr>) pc next_order
          });
        consume_order G PT pl pc current
      })"

definition playlist_previous ::
    "'t player_thread \<Rightarrow> 'g playlist \<Rightarrow> 't player_control \<Rightarrow> ('g, 't) pstate option" where
  "playlist_previous PT pl pc =
     (if \<not> pl_playing pl then Some (pl, pc)
      else do {
        n \<leftarrow> queue_length (pl_queue pl);
        assert_that (0 < n);
        if 0 < pl_current pl then playlist_play_order PT pl pc (pl_current pl - 1)
        else if q_repeat (pl_queue pl) then playlist_play_order PT pl pc (int n - 1)
        else playlist_play_order PT pl pc (pl_current pl)
      })"

definition playlist_seek_song ::
    "'g glib \<Rightarrow> 't player_thread \<Rightarrow> 'g playlist \<Rightarrow> 't player_control \<Rightarrow> nat \<Rightarrow> real \<Rightarrow>
     (playlist_result \<times> ('g, 't) pstate) option" where
  "playlist_seek_song G PT pl pc song seek_time =
     (if \<not> queue_valid_position (pl_queue pl) song then Some (PLAYLIST_BAD_RANGE, pl, pc)
      else do {
        queued \<leftarrow> playlist_get_queued_song pl;
        i \<leftarrow> (if q_random (pl_queue pl) then queue_position_to_order (pl_queue pl) song else Some song);
        pc \<leftarrow> Some (pc_clear_error pc);
        pl \<leftarrow> Some (pl\<lparr>pl_stop_on_error := True, pl_error_count := 0\<rparr>);
        (pl, queued) \<leftarrow> Some (if \<not> pl_playing pl \<or> to_unsigned (pl_current pl) \<noteq> i
          then (pl\<lparr>pl_playing := True, pl_current := int i\<rparr>, None) else (pl, queued));
        s \<leftarrow> queue_get_order (pl_queue pl) i;
        (success, pc) \<leftarrow> pc_seek PT pc s seek_time;
        if \<not> success then do {
          st \<leftarrow> playlist_update_queued_song G PT pl pc queued;
          Some (PLAYLIST_NOT_PLAYING, st)
        }
        else do {
          st \<leftarrow> playlist_update_queued_song G PT (pl\<lparr>pl_queued := -1\<rparr>) pc None;
          Some (MPD_SUCCESS, st)
        }
      })"

definition playlist_seek_song_id ::
    "'g glib \<Rightarrow> 't player_thread \<Rightarrow> 'g playlist \<Rightarrow> 't player_control \<Rightarrow> nat \<Rightarrow> real \<Rightarrow>
     (playlist_result \<times> ('g, 't) pstate) option" where
  "playlist_seek_song_id G PT pl pc sid seek_time = do {
     song \<leftarrow> queue_id_to_position (pl_queue pl) sid;
     if song < 0 then Some (PLAYLIST_NO_SUCH_SONG, pl, pc)
     else playlist_seek_song G PT pl pc (nat song) seek_time
   }"

text \<open>\<open>status0\<close> is the uninitialised local structure; a conversion to \<^verbatim>\<open>int\<close> truncates towards zero.\<close>

definition c_trunc :: "real \<Rightarrow> int" where
  "c_trunc x = (if x < 0 then \<lceil>x\<rceil> else \<lfloor>x\<rfloor>)"

definition playlist_seek_current ::
    "'g glib \<Rightarrow> 't player_thread \<Rightarrow> player_status \<Rightarrow> 'g playlist \<Rightarrow> 't player_control \<Rightarrow> real \<Rightarrow> bool \<Rightarrow>
     (playlist_result \<times> ('g, 't) pstate) option" where
  "playlist_seek_current G PT status0 pl pc seek_time relative =
     (if \<not> pl_playing pl then Some (PLAYLIST_NOT_PLAYING, pl, pc)
      else do {
        (time, pc) \<leftarrow> (if relative then do {
            (status, pc) \<leftarrow> pc_get_status PT pc status0;
            if st_state status \<noteq> PLAYER_STATE_PLAY \<and> st_state status \<noteq> PLAYER_STATE_PAUSE
            then Some (None, pc)
            else Some (Some (seek_time + of_int (c_trunc (st_elapsed_time status))), pc)
          } else Some (Some seek_time, pc));
        case time of
          None \<Rightarrow> Some (PLAYLIST_NOT_PLAYING, pl, pc)
        | Some t \<Rightarrow>
            playlist_seek_song G PT pl pc (to_unsigned (pl_current pl)) (if t < 0 then 0 else t)
      })"

section \<open>Events of the player\<close>

definition playlist_song_started ::
    "'g glib \<Rightarrow> 't player_thread \<Rightarrow> 'g playlist \<Rightarrow> 't player_control \<Rightarrow> ('g, 't) pstate option" where
  "playlist_song_started G PT pl pc = do {
     assert_that (pc_next_song pc = None);
     assert_that (-1 \<le> pl_queued pl);
     let current = pl_current pl;
     pl \<leftarrow> Some (pl\<lparr>pl_current := pl_queued pl, pl_queued := -1\<rparr>);
     (pl, pc) \<leftarrow> consume_order G PT pl pc current;
     pc \<leftarrow> pc_idle_add IDLE_PLAYER pc;
     Some (pl, pc)
   }"

definition playlist_resume_playback ::
    "'g glib \<Rightarrow> 't player_thread \<Rightarrow> 'g playlist \<Rightarrow> 't player_control \<Rightarrow> ('g, 't) pstate option" where
  "playlist_resume_playback G PT pl pc = do {
     assert_that (pl_playing pl);
     assert_that (pc_get_state pc = PLAYER_STATE_STOP);
     let error = pc_get_error pc;
     pl \<leftarrow> Some (if error = PLAYER_ERROR_NOERROR then pl\<lparr>pl_error_count := 0\<rparr>
                 else pl\<lparr>pl_error_count := pl_error_count pl + 1\<rparr>);
     n \<leftarrow> queue_length (pl_queue pl);
     if pl_stop_on_error pl \<and> error \<noteq> PLAYER_ERROR_NOERROR \<or>
        error = PLAYER_ERROR_AUDIO \<or> error = PLAYER_ERROR_SYSTEM \<or>
        n \<le> unat (pl_error_count pl)
     then playlist_stop G PT pl pc
     else playlist_next G PT pl pc
   }"

definition playlist_sync ::
    "'g glib \<Rightarrow> 't player_thread \<Rightarrow> 'g playlist \<Rightarrow> 't player_control \<Rightarrow> ('g, 't) pstate option" where
  "playlist_sync G PT pl pc =
     (if \<not> pl_playing pl then Some (pl, pc)
      else if pc_get_state pc = PLAYER_STATE_STOP then playlist_resume_playback G PT pl pc
      else do {
        (pl, pc) \<leftarrow> (if pc_next_song pc = None \<and> pl_queued pl \<noteq> -1
          then playlist_song_started G PT pl pc else Some (pl, pc));
        if pc_next_song pc = None \<and> pl_queued pl < 0
        then playlist_update_queued_song G PT pl pc None
        else Some (pl, pc)
      })"

section \<open>Options\<close>

definition playlist_set_repeat ::
    "'g glib \<Rightarrow> 't player_thread \<Rightarrow> 'g playlist \<Rightarrow> 't player_control \<Rightarrow> bool \<Rightarrow> ('g, 't) pstate option" where
  "playlist_set_repeat G PT pl pc status =
     (if status = q_repeat (pl_queue pl) then Some (pl, pc)
      else do {
        pl \<leftarrow> Some (pl\<lparr>pl_queue := (pl_queue pl)\<lparr>q_repeat := status\<rparr>\<rparr>);
        pc \<leftarrow> Some (pc_set_border_pause pc (q_single (pl_queue pl) \<and> \<not> q_repeat (pl_queue pl)));
        queued \<leftarrow> playlist_get_queued_song pl;
        (pl, pc) \<leftarrow> playlist_update_queued_song G PT pl pc queued;
        pc \<leftarrow> pc_idle_add IDLE_OPTIONS pc;
        Some (pl, pc)
      })"

definition playlist_order :: "'g playlist \<Rightarrow> 'g playlist option" where
  "playlist_order pl = do {
     pl \<leftarrow> (if 0 \<le> pl_current pl then do {
         position \<leftarrow> order_to_position pl (pl_current pl);
         Some (pl\<lparr>pl_current := int position\<rparr>)
       } else Some pl);
     q \<leftarrow> queue_restore_order (pl_queue pl);
     Some (pl\<lparr>pl_queue := q\<rparr>)
   }"

definition playlist_set_single ::
    "'g glib \<Rightarrow> 't player_thread \<Rightarrow> 'g playlist \<Rightarrow> 't player_control \<Rightarrow> bool \<Rightarrow> ('g, 't) pstate option" where
  "playlist_set_single G PT pl pc status =
     (if status = q_single (pl_queue pl) then Some (pl, pc)
      else do {
        pl \<leftarrow> Some (pl\<lparr>pl_queue := (pl_queue pl)\<lparr>q_single := status\<rparr>\<rparr>);
        pc \<leftarrow> Some (pc_set_border_pause pc (q_single (pl_queue pl) \<and> \<not> q_repeat (pl_queue pl)));
        queued \<leftarrow> playlist_get_queued_song pl;
        (pl, pc) \<leftarrow> playlist_update_queued_song G PT pl pc queued;
        pc \<leftarrow> pc_idle_add IDLE_OPTIONS pc;
        Some (pl, pc)
      })"

definition playlist_set_consume ::
    "'g playlist \<Rightarrow> 't player_control \<Rightarrow> bool \<Rightarrow> ('g, 't) pstate option" where
  "playlist_set_consume pl pc status =
     (if status = q_consume (pl_queue pl) then Some (pl, pc)
      else do {
        pc \<leftarrow> pc_idle_add IDLE_OPTIONS pc;
        Some (pl\<lparr>pl_queue := (pl_queue pl)\<lparr>q_consume := status\<rparr>\<rparr>, pc)
      })"

definition shuffle_current_first :: "'g glib \<Rightarrow> 'g playlist \<Rightarrow> 'g playlist option" where
  "shuffle_current_first G pl = do {
     current_position \<leftarrow> (if pl_playing pl \<and> 0 \<le> pl_current pl
       then map_option int (order_to_position pl (pl_current pl)) else Some (-1));
     q \<leftarrow> queue_shuffle_order G (pl_queue pl);
     if 0 \<le> current_position then do {
       current_order \<leftarrow> queue_position_to_order q (nat current_position);
       q \<leftarrow> queue_swap_order q 0 current_order;
       Some (pl\<lparr>pl_queue := q, pl_current := 0\<rparr>)
     }
     else Some (pl\<lparr>pl_queue := q, pl_current := -1\<rparr>)
   }"

definition playlist_set_random ::
    "'g glib \<Rightarrow> 't player_thread \<Rightarrow> 'g playlist \<Rightarrow> 't player_control \<Rightarrow> bool \<Rightarrow> ('g, 't) pstate option" where
  "playlist_set_random G PT pl pc status =
     (if status = q_random (pl_queue pl) then Some (pl, pc)
      else do {
        queued \<leftarrow> playlist_get_queued_song pl;
        pl \<leftarrow> Some (pl\<lparr>pl_queue := (pl_queue pl)\<lparr>q_random := status\<rparr>\<rparr>);
        pl \<leftarrow> (if q_random (pl_queue pl) then shuffle_current_first G pl else playlist_order pl);
        (pl, pc) \<leftarrow> playlist_update_queued_song G PT pl pc queued;
        pc \<leftarrow> pc_idle_add IDLE_OPTIONS pc;
        Some (pl, pc)
      })"

section \<open>Queries\<close>

definition playlist_get_repeat :: "'g playlist \<Rightarrow> bool" where
  "playlist_get_repeat pl = q_repeat (pl_queue pl)"

definition playlist_get_random :: "'g playlist \<Rightarrow> bool" where
  "playlist_get_random pl = q_random (pl_queue pl)"

definition playlist_get_single :: "'g playlist \<Rightarrow> bool" where
  "playlist_get_single pl = q_single (pl_queue pl)"

definition playlist_get_consume :: "'g playlist \<Rightarrow> bool" where
  "playlist_get_consume pl = q_consume (pl_queue pl)"

definition playlist_get_current_song :: "'g playlist \<Rightarrow> int option" where
  "playlist_get_current_song pl =
     (if 0 \<le> pl_current pl then map_option int (order_to_position pl (pl_current pl)) else Some (-1))"

definition playlist_get_next_song :: "'g playlist \<Rightarrow> int option" where
  "playlist_get_next_song pl =
     (if 0 \<le> pl_current pl then
        if q_single (pl_queue pl) \<and> q_repeat (pl_queue pl)
        then map_option int (order_to_position pl (pl_current pl))
        else do {
          n \<leftarrow> queue_length (pl_queue pl);
          if pl_current pl + 1 < int n then map_option int (order_to_position pl (pl_current pl + 1))
          else if q_repeat (pl_queue pl) then map_option int (queue_order_to_position (pl_queue pl) 0)
          else Some (-1)
        }
      else Some (-1))"

definition playlist_get_version :: "'g playlist \<Rightarrow> u32" where
  "playlist_get_version pl = q_version (pl_queue pl)"

definition playlist_get_length :: "'g playlist \<Rightarrow> nat option" where
  "playlist_get_length pl = queue_length (pl_queue pl)"

definition playlist_get_song_id :: "'g playlist \<Rightarrow> nat \<Rightarrow> nat option" where
  "playlist_get_song_id pl song = queue_position_to_id (pl_queue pl) song"

end
