(* ===== verification/Playlist_Inv.thy ===== *)
theory Playlist_Inv
  imports Playlist Playqueue_Priority
begin

text \<open>
  The invariant of the playlist and the lemma every operation on it ends with: after the queue has
  been edited, \<^verbatim>\<open>playlist_update_queued_song\<close> returns, does not change which song is the current one,
  and makes the invariant hold again.
\<close>

section \<open>Invariant\<close>

definition songs_ok :: "'g queue \<Rightarrow> bool" where
  "songs_ok q \<longleftrightarrow> (\<forall>k \<in> set (queue_view q). s_uri (fst k) \<noteq> [])"

text \<open>In sequential mode order numbers are positions.\<close>

definition sequential_ok :: "'g queue \<Rightarrow> bool" where
  "sequential_ok q \<longleftrightarrow> (\<not> q_random q \<longrightarrow> play_order q = [0..<q_length q])"

definition playlist_ok :: "('t player_control \<Rightarrow> bool) \<Rightarrow> 'g playlist \<Rightarrow> 't player_control \<Rightarrow> bool" where
  "playlist_ok rest pl pc \<longleftrightarrow>
     queue_wf (pl_queue pl) \<and> songs_ok (pl_queue pl) \<and> sequential_ok (pl_queue pl) \<and> pc_ok pc \<and> rest pc \<and>
     -1 \<le> pl_current pl \<and> pl_current pl < int (q_length (pl_queue pl)) \<and>
     -1 \<le> pl_queued pl \<and> pl_queued pl < int (q_length (pl_queue pl)) \<and>
     (pl_playing pl \<longrightarrow> 0 \<le> pl_current pl) \<and>
     (\<not> pl_playing pl \<longrightarrow> pl_queued pl = -1) \<and>
     (pl_queued pl = -1 \<longrightarrow> pc_next_song pc = None)"

text \<open>The position and the id of the current song.\<close>

definition current_pos :: "'g playlist \<Rightarrow> nat option" where
  "current_pos pl = (if pl_current pl < 0 then None else Some (q_order (pl_queue pl) ! nat (pl_current pl)))"

definition current_id :: "'g playlist \<Rightarrow> nat option" where
  "current_id pl = map_option (\<lambda>p. qi_id (q_items (pl_queue pl) ! p)) (current_pos pl)"

text \<open>Handing over the next song changes the play order and the queued song only.\<close>

definition settled :: "'g playlist \<Rightarrow> 'g playlist \<Rightarrow> bool" where
  "settled pl pl' \<longleftrightarrow> reordered (pl_queue pl) (pl_queue pl') \<and> current_pos pl' = current_pos pl \<and>
     (\<not> q_random (pl_queue pl) \<longrightarrow> pl_queue pl' = pl_queue pl) \<and>
     pl_playing pl' = pl_playing pl \<and> pl_stop_on_error pl' = pl_stop_on_error pl \<and>
     pl_error_count pl' = pl_error_count pl"

lemma settled_refl [simp]: "settled pl pl"
  by (simp add: settled_def)

lemma settled_trans: "settled pl pl1 \<Longrightarrow> settled pl1 pl2 \<Longrightarrow> settled pl pl2"
  by (auto simp: settled_def reordered_sel(9) intro: reordered_trans)

lemma settled_queued [simp]: "settled pl (pl'\<lparr>pl_queued := k\<rparr>) = settled pl pl'"
  by (simp add: settled_def current_pos_def)

lemma settled_current_id: "settled pl pl' \<Longrightarrow> current_id pl' = current_id pl"
  using reordered_sel(4) [of "pl_queue pl" "pl_queue pl'"] by (simp add: settled_def current_id_def)

lemma to_unsigned_nat: "0 \<le> x \<Longrightarrow> x < 2 ^ 32 \<Longrightarrow> to_unsigned x = nat x"
  by (simp add: to_unsigned_def)

lemma to_unsigned_order:
  assumes "queue_wf q" "0 \<le> x" "x < int (q_length q)"
  shows "to_unsigned x = nat x" "nat x < q_length q"
proof -
  have "x < 2 ^ 32" using assms(3) queue_wfD(4,5) [OF assms(1)] by simp
  then show "to_unsigned x = nat x" using assms(2) by (simp add: to_unsigned_nat)
  show "nat x < q_length q" using assms(2,3) by linarith
qed

lemma order_to_position_Some:
  assumes "queue_wf (pl_queue pl)" "0 \<le> x" "x < int (q_length (pl_queue pl))"
  shows "order_to_position pl x = Some (q_order (pl_queue pl) ! nat x)"
  using to_unsigned_order [OF assms] assms(1) by (simp add: order_to_position_def)

lemma songs_ok_reordered: "reordered q q' \<Longrightarrow> songs_ok q' = songs_ok q"
  by (simp add: songs_ok_def reordered_view)

lemma song_uri:
  assumes "queue_wf q" "songs_ok q" "i < q_length q"
  shows "\<exists>u. song_get_uri (qi_song (q_items q ! (q_order q ! i))) = Some u"
proof -
  have p: "q_order q ! i < q_length q" using assms(1,3) by (rule wf_order_less)
  then have "queue_view q ! (q_order q ! i) \<in> set (queue_view q)"
    using assms(1) by (simp add: length_queue_view)
  then have "s_uri (qi_song (q_items q ! (q_order q ! i))) \<noteq> []"
    using assms(1,2) p by (auto simp: songs_ok_def nth_queue_view item_key_def)
  then show ?thesis by (simp add: song_get_uri_def)
qed

section \<open>Shuffling around the current song\<close>

text \<open>The play order is shuffled and \<^verbatim>\<open>current\<close> is looked up again.\<close>

lemma shuffle_keep_position:
  assumes "glib_ok G" "queue_wf (pl_queue pl)" "q_random (pl_queue pl)"
    "0 \<le> pl_current pl" "pl_current pl < int (q_length (pl_queue pl))"
  obtains q ord where "queue_shuffle_order G (pl_queue pl) = Some q"
    "order_to_position pl (pl_current pl) = Some (q_order (pl_queue pl) ! nat (pl_current pl))"
    "queue_position_to_order q (q_order (pl_queue pl) ! nat (pl_current pl)) = Some ord"
    "reordered (pl_queue pl) q" "ord < q_length q"
    "settled pl (pl\<lparr>pl_queue := q, pl_current := int ord\<rparr>)" "sorted_wrt (\<ge>) (play_prios q)"
proof -
  obtain q where q: "queue_shuffle_order G (pl_queue pl) = Some q" "reordered (pl_queue pl) q"
    "sorted_wrt (\<ge>) (play_prios q)"
    using queue_shuffle_order_eq [OF assms(1-3)] .
  let ?p = "q_order (pl_queue pl) ! nat (pl_current pl)"
  have "?p < q_length (pl_queue pl)"
    using to_unsigned_order [OF assms(2,4,5)] assms(2) by (intro wf_order_less) simp_all
  then have "?p < q_length q" using reordered_sel(2) [OF q(2)] by simp
  then obtain ord where "ord < q_length q" "q_order q ! ord = ?p" "queue_position_to_order q ?p = Some ord"
    using queue_position_to_order_ex [OF reordered_wf [OF q(2) assms(2)]] by blast
  then show ?thesis
    using that q order_to_position_Some [OF assms(2,4,5)] assms(3,4)
    by (simp add: settled_def current_pos_def)
qed

lemma queue_next_order_range:
  assumes "ord < q_length q"
  obtains n where "queue_next_order q ord = Some n" "-1 \<le> n" "n < int (q_length q)"
  using assms that by (auto simp: queue_next_order_def)

lemma next_order_shuffled_eq:
  assumes "glib_ok G" "queue_wf (pl_queue pl)"
    "0 \<le> pl_current pl" "pl_current pl < int (q_length (pl_queue pl))"
  obtains n pl' where "next_order_shuffled G pl = Some (n, pl')" "-1 \<le> n" "n < int (q_length (pl_queue pl))"
    "settled pl pl'" "pl_queued pl' = pl_queued pl"
    "0 \<le> pl_current pl'" "pl_current pl' < int (q_length (pl_queue pl))"
proof -
  have "nat (pl_current pl) < q_length (pl_queue pl)" using assms(3,4) by linarith
  then obtain n where n: "queue_next_order (pl_queue pl) (nat (pl_current pl)) = Some n"
    "-1 \<le> n" "n < int (q_length (pl_queue pl))"
    using queue_next_order_range by blast
  show ?thesis
  proof (cases "n = 0 \<and> q_random (pl_queue pl) \<and> \<not> q_single (pl_queue pl)")
    case True
    then have rnd: "q_random (pl_queue pl)" by simp
    obtain q ord where "queue_shuffle_order G (pl_queue pl) = Some q"
      "order_to_position pl (pl_current pl) = Some (q_order (pl_queue pl) ! nat (pl_current pl))"
      "queue_position_to_order q (q_order (pl_queue pl) ! nat (pl_current pl)) = Some ord"
      "reordered (pl_queue pl) q" "ord < q_length q"
      "settled pl (pl\<lparr>pl_queue := q, pl_current := int ord\<rparr>)"
      using shuffle_keep_position [OF assms(1,2) rnd assms(3,4)] .
    then show ?thesis
      using that [of n "pl\<lparr>pl_queue := q, pl_current := int ord\<rparr>"] True n assms(3)
      by (simp add: next_order_shuffled_def reordered_sel(2))
  next
    case False
    then have "next_order_shuffled G pl = Some (n, pl)"
      using n(1) assms(3) by (auto simp: next_order_shuffled_def)
    then show ?thesis using that n assms by simp
  qed
qed

section \<open>Queueing the next song\<close>

text \<open>
  The state in which the queued song is updated: everything but the range of \<^verbatim>\<open>queued\<close>, which may
  point anywhere after the queue has been edited.
\<close>

definition updatable ::
    "('t player_control \<Rightarrow> bool) \<Rightarrow> 'g playlist \<Rightarrow> 't player_control \<Rightarrow> song option \<Rightarrow> bool" where
  "updatable rest pl pc prev \<longleftrightarrow>
     queue_wf (pl_queue pl) \<and> songs_ok (pl_queue pl) \<and> sequential_ok (pl_queue pl) \<and> pc_ok pc \<and> rest pc \<and>
     -1 \<le> pl_current pl \<and> pl_current pl < int (q_length (pl_queue pl)) \<and> -1 \<le> pl_queued pl \<and>
     (pl_playing pl \<longrightarrow> 0 \<le> pl_current pl \<and> (pl_queued pl < 0 \<longleftrightarrow> prev = None)) \<and>
     (\<not> pl_playing pl \<longrightarrow> pl_queued pl = -1) \<and>
     (pl_queued pl = -1 \<longrightarrow> pc_next_song pc = None)"

abbreviation live_player :: "'t player_thread \<Rightarrow> ('t player_control \<Rightarrow> bool) \<Rightarrow> bool" where
  "live_player PT rest \<equiv> player_thread PT rest (\<lambda>_. True)"

lemma rest_frame:
  assumes "live_player PT rest"
  shows "rest (pc\<lparr>pc_idle_flags := f\<rparr>) = rest pc" "rest (pc\<lparr>pc_border_pause := b\<rparr>) = rest pc"
    "rest (pc\<lparr>pc_error := e\<rparr>) = rest pc" "rest (pc\<lparr>pc_errored_song := s\<rparr>) = rest pc"
  using player_thread.frame [OF assms] by auto

lemma rest_song_deleted: "live_player PT rest \<Longrightarrow> rest (pc_song_deleted pc s) = rest pc"
  by (simp add: pc_song_deleted_def rest_frame)

lemma rest_clear_error: "live_player PT rest \<Longrightarrow> rest (pc_clear_error pc) = rest pc"
  by (simp add: pc_clear_error_def rest_frame)

lemma queue_song_order_returns:
  assumes PT: "live_player PT rest" and "queue_wf (pl_queue pl)" "songs_ok (pl_queue pl)"
    "ord < q_length (pl_queue pl)" "pc_ok pc" "rest pc" "pc_next_song pc = None"
  obtains pc' where "playlist_queue_song_order PT pl pc ord = Some (pl\<lparr>pl_queued := int ord\<rparr>, pc')"
    "pc_ok pc'" "rest pc'"
proof -
  let ?s = "qi_song (q_items (pl_queue pl) ! (q_order (pl_queue pl) ! ord))"
  obtain pc' where "pc_enqueue_song PT pc ?s = Some pc'" "pc_ok pc'" "rest pc'"
    using player_thread.pc_enqueue_song_returns [OF PT assms(5,6,7), of ?s] by blast
  moreover obtain u where "song_get_uri ?s = Some u" using song_uri [OF assms(2-4)] by blast
  ultimately show ?thesis
    using that assms by (simp add: playlist_queue_song_order_def queue_valid_order_def)
qed

lemma queue_next_song_returns:
  assumes PT: "live_player PT rest" and wf: "queue_wf (pl_queue pl)" "songs_ok (pl_queue pl)"
    and pc: "pc_ok pc" "rest pc"
    and n: "-1 \<le> n" "n < int (q_length (pl_queue pl))"
    and q: "-1 \<le> pl_queued pl" "pl_queued pl < 0 \<longleftrightarrow> prev = None" "pl_queued pl = -1 \<longrightarrow> pc_next_song pc = None"
  obtains k pc' where "queue_next_song PT pl pc prev n = Some (pl\<lparr>pl_queued := k\<rparr>, pc')"
    "pc_ok pc'" "rest pc'" "-1 \<le> k" "k < int (q_length (pl_queue pl))" "k = -1 \<longrightarrow> pc_next_song pc' = None"
proof -
  have get: "map_option Some (queue_get_order (pl_queue pl) (nat n)) =
      Some (Some (qi_song (q_items (pl_queue pl) ! (q_order (pl_queue pl) ! nat n))))" if "0 \<le> n"
    using that n(2) wf(1) by (simp add: nat_less_iff)
  define ns where "ns = (if 0 \<le> n
    then Some (qi_song (q_items (pl_queue pl) ! (q_order (pl_queue pl) ! nat n))) else None)"
  have ns: "(if 0 \<le> n then map_option Some (queue_get_order (pl_queue pl) (nat n)) else Some None) = Some ns"
    by (auto simp: ns_def get)
  define new where "new \<longleftrightarrow> prev \<noteq> None \<and> \<not> song_same_opt ns prev"
  obtain pl1 pc1 where 1: "(if new then do { pc \<leftarrow> pc_cancel PT pc; Some (pl\<lparr>pl_queued := -1\<rparr>, pc) }
      else Some (pl, pc)) = Some (pl1, pc1)" "pc_ok pc1" "rest pc1"
    "pl1 = (if new then pl\<lparr>pl_queued := -1\<rparr> else pl)" "new \<or> prev = None \<longrightarrow> pc_next_song pc1 = None"
  proof (cases new)
    case True
    obtain pc1 where "pc_cancel PT pc = Some pc1" "pc_ok pc1" "rest pc1" "pc_next_song pc1 = None"
      using player_thread.pc_cancel_returns [OF PT pc] by blast
    then show ?thesis using that [of "pl\<lparr>pl_queued := -1\<rparr>" pc1] True by simp
  next
    case False
    have "prev = None \<longrightarrow> pc_next_song pc = None" using q by auto
    then show ?thesis using that [of pl pc] False pc by simp
  qed
  have prog: "queue_next_song PT pl pc prev n =
      (if 0 \<le> n then if \<not> song_same_opt ns prev then playlist_queue_song_order PT pl1 pc1 (nat n)
         else Some (pl1\<lparr>pl_queued := n\<rparr>, pc1)
       else Some (pl1, pc1))"
    by (simp only: queue_next_song_def ns Option.bind.simps 1(1) [unfolded new_def] prod.case)
  show ?thesis
  proof (cases "0 \<le> n \<and> \<not> song_same_opt ns prev")
    case True
    then have lt: "nat n < q_length (pl_queue pl1)" and nn: "pc_next_song pc1 = None"
      and wf1: "queue_wf (pl_queue pl1)" "songs_ok (pl_queue pl1)"
      using n(2) wf 1(4,5) by (auto simp: nat_less_iff new_def split: if_splits)
    obtain pc2 where "playlist_queue_song_order PT pl1 pc1 (nat n) = Some (pl1\<lparr>pl_queued := int (nat n)\<rparr>, pc2)"
      "pc_ok pc2" "rest pc2"
      using queue_song_order_returns [OF PT wf1 lt 1(2,3) nn] by blast
    then show ?thesis
      using that [of n pc2] True 1 n by (auto simp: prog new_def)
  next
    case False
    show ?thesis
    proof (cases "0 \<le> n")
      case True
      with False have same: "song_same_opt ns prev" by simp
      then have "prev \<noteq> None" using True by (cases prev) (simp_all add: ns_def)
      then show ?thesis
        using that [of n pc1] True False same 1 n by (auto simp: prog new_def)
    next
      case neg: False
      then have "ns = None" by (simp add: ns_def)
      then have pl1: "pl1 = pl\<lparr>pl_queued := -1\<rparr>" "pc_next_song pc1 = None"
        using 1(4,5) q(1,2) by (cases prev; simp add: new_def)+
      have "queue_next_song PT pl pc prev n = Some (pl\<lparr>pl_queued := -1\<rparr>, pc1)"
        using neg pl1(1) by (simp add: prog)
      then show ?thesis
        using 1(2,3) pl1(2) by (intro that [of "-1" pc1]) simp_all
    qed
  qed
qed

lemma playlist_okI:
  assumes "updatable rest pl pc prev" "settled pl pl'" "pc_ok pc'" "rest pc'"
    "-1 \<le> pl_current pl'" "pl_current pl' < int (q_length (pl_queue pl))"
    "pl_playing pl \<longrightarrow> 0 \<le> pl_current pl'" "-1 \<le> pl_queued pl'"
    "pl_queued pl' < int (q_length (pl_queue pl))" "\<not> pl_playing pl \<longrightarrow> pl_queued pl' = -1"
    "pl_queued pl' = -1 \<longrightarrow> pc_next_song pc' = None"
  shows "playlist_ok rest pl' pc'"
proof -
  have r: "reordered (pl_queue pl) (pl_queue pl')" and p: "pl_playing pl' = pl_playing pl"
    using assms(2) by (simp_all add: settled_def)
  have "queue_wf (pl_queue pl')" "songs_ok (pl_queue pl')"
    using r assms(1) by (auto simp: updatable_def reordered_wf songs_ok_reordered)
  moreover have "sequential_ok (pl_queue pl')"
    using assms(1,2) reordered_sel(9) [OF r] by (auto simp: updatable_def settled_def sequential_ok_def)
  ultimately show ?thesis
    using assms p reordered_sel(2) [OF r] by (simp add: playlist_ok_def)
qed

lemma update_queued_song_returns:
  assumes PT: "live_player PT rest" and G: "glib_ok G" and up: "updatable rest pl pc prev"
  obtains pl' pc' where "playlist_update_queued_song G PT pl pc prev = Some (pl', pc')"
    "playlist_ok rest pl' pc'" "settled pl pl'"
proof (cases "pl_playing pl")
  case False
  have "playlist_ok rest pl pc"
    using up False by (intro playlist_okI [OF up settled_refl]) (auto simp: updatable_def)
  then show ?thesis
    using that False by (simp add: playlist_update_queued_song_def)
next
  case True
  then have wf: "queue_wf (pl_queue pl)" "songs_ok (pl_queue pl)" and pc: "pc_ok pc" "rest pc"
    and cur: "0 \<le> pl_current pl" "pl_current pl < int (q_length (pl_queue pl))"
    and q: "-1 \<le> pl_queued pl" "pl_queued pl < 0 \<longleftrightarrow> prev = None" "pl_queued pl = -1 \<longrightarrow> pc_next_song pc = None"
    using up by (auto simp: updatable_def)
  obtain n pl1 where 1: "next_order_shuffled G pl = Some (n, pl1)" "-1 \<le> n" "n < int (q_length (pl_queue pl))"
    "settled pl pl1" "pl_queued pl1 = pl_queued pl"
    "0 \<le> pl_current pl1" "pl_current pl1 < int (q_length (pl_queue pl))"
    using next_order_shuffled_eq [OF G wf(1) cur] .
  have r: "reordered (pl_queue pl) (pl_queue pl1)" using 1(4) by (simp add: settled_def)
  have wf1: "queue_wf (pl_queue pl1)" "songs_ok (pl_queue pl1)"
    and len: "q_length (pl_queue pl1) = q_length (pl_queue pl)"
    using r wf by (auto simp: reordered_wf songs_ok_reordered reordered_sel(2))
  have q1: "-1 \<le> pl_queued pl1" "pl_queued pl1 < 0 \<longleftrightarrow> prev = None"
    "pl_queued pl1 = -1 \<longrightarrow> pc_next_song pc = None" "n < int (q_length (pl_queue pl1))"
    using q 1(3,5) len by simp_all
  obtain k pc' where k: "queue_next_song PT pl1 pc prev n = Some (pl1\<lparr>pl_queued := k\<rparr>, pc')"
    "pc_ok pc'" "rest pc'" "-1 \<le> k" "k < int (q_length (pl_queue pl1))" "k = -1 \<longrightarrow> pc_next_song pc' = None"
    using queue_next_song_returns [OF PT wf1 pc 1(2) q1(4,1,2,3)] .
  have "playlist_update_queued_song G PT pl pc prev = Some (pl1\<lparr>pl_queued := k\<rparr>, pc')"
    using True q cur 1(1) k(1) by (auto simp: playlist_update_queued_song_def queue_is_empty_def)
  moreover have "playlist_ok rest (pl1\<lparr>pl_queued := k\<rparr>) pc'"
    using True 1 k len by (intro playlist_okI [OF up, of "pl1\<lparr>pl_queued := k\<rparr>"]) simp_all
  ultimately show ?thesis
    using that 1(4) by simp
qed

section \<open>The end of an edit\<close>

lemma current_id_play_ids:
  assumes "queue_wf (pl_queue pl)" "pl_current pl < int (q_length (pl_queue pl))"
  shows "current_id pl = (if pl_current pl < 0 then None else Some (play_ids (pl_queue pl) ! nat (pl_current pl)))"
  using assms by (auto simp: current_id_def current_pos_def play_ids_def play_order_def nat_less_iff)

lemma play_ids_incremented:
  assumes "queue_wf q"
  shows "play_ids (incremented q) = play_ids q"
proof -
  have "qi_id (q_items (incremented q) ! p) = qi_id (q_items q ! p)" if "p \<in> set (play_order q)" for p
  proof -
    have "p < q_length q" using assms that by (auto simp: queue_wf_def order_okD)
    from item_key_id [OF item_key_incremented [OF assms this]] show ?thesis by simp
  qed
  then show ?thesis by (simp add: play_ids_def)
qed

lemma songs_ok_view: "queue_view q' = queue_view q \<Longrightarrow> songs_ok q' = songs_ok q"
  by (simp add: songs_ok_def)

text \<open>The state after an edit and its relation to the state in which the queue was edited.\<close>

definition finished :: "'g playlist \<Rightarrow> 'g playlist \<Rightarrow> bool" where
  "finished pl pl' \<longleftrightarrow> settled (pl\<lparr>pl_queue := incremented (pl_queue pl)\<rparr>) pl'"

lemma finishedD:
  assumes "finished pl pl'" "queue_wf (pl_queue pl)"
  shows "queue_view (pl_queue pl') = queue_view (pl_queue pl)"
    "pl_playing pl' = pl_playing pl" "q_length (pl_queue pl') = q_length (pl_queue pl)"
    "q_random (pl_queue pl') = q_random (pl_queue pl)" "current_pos pl' = current_pos pl"
    "pl_error_count pl' = pl_error_count pl" "pl_stop_on_error pl' = pl_stop_on_error pl"
    "q_version (pl_queue pl') = q_version (incremented (pl_queue pl))"
    "q_items (pl_queue pl') = q_items (incremented (pl_queue pl))"
proof -
  have r: "reordered (incremented (pl_queue pl)) (pl_queue pl')"
    using assms(1) by (simp add: finished_def settled_def)
  show "queue_view (pl_queue pl') = queue_view (pl_queue pl)"
    using reordered_view [OF r] queue_view_incremented [OF assms(2)] by simp
  show "q_length (pl_queue pl') = q_length (pl_queue pl)" "q_random (pl_queue pl') = q_random (pl_queue pl)"
    "q_version (pl_queue pl') = q_version (incremented (pl_queue pl))"
    "q_items (pl_queue pl') = q_items (incremented (pl_queue pl))"
    using reordered_sel [OF r] by simp_all
  show "pl_playing pl' = pl_playing pl" "current_pos pl' = current_pos pl"
    "pl_error_count pl' = pl_error_count pl" "pl_stop_on_error pl' = pl_stop_on_error pl"
    using assms(1) by (simp_all add: finished_def settled_def current_pos_def)
qed

lemma finished_current_id:
  assumes "finished pl pl'" "queue_wf (pl_queue pl)" "pl_current pl < int (q_length (pl_queue pl))"
  shows "current_id pl' = current_id pl"
proof -
  let ?pl = "pl\<lparr>pl_queue := incremented (pl_queue pl)\<rparr>"
  have "current_id pl' = current_id ?pl" using assms(1) settled_current_id by (auto simp: finished_def)
  also have "\<dots> = current_id pl"
    using assms(2,3) incremented_wf [OF assms(2)]
    by (simp add: current_id_play_ids play_ids_incremented)
  finally show ?thesis .
qed

lemma increment_version_eq:
  assumes "queue_wf (pl_queue pl)"
  shows "playlist_increment_version pl pc = Some (pl\<lparr>pl_queue := incremented (pl_queue pl)\<rparr>,
    pc\<lparr>pc_idle_flags := pc_idle_flags pc OR IDLE_PLAYLIST\<rparr>)"
  using assms by (simp add: playlist_increment_version_def queue_increment_version_eq pc_idle_add_eq)

lemma edit_finish:
  assumes PT: "live_player PT rest" and G: "glib_ok G" and up: "updatable rest pl pc prev"
  obtains pl1 pc1 pl' pc' where "playlist_increment_version pl pc = Some (pl1, pc1)"
    "playlist_update_queued_song G PT pl1 pc1 prev = Some (pl', pc')"
    "playlist_ok rest pl' pc'" "finished pl pl'"
proof -
  let ?pl = "pl\<lparr>pl_queue := incremented (pl_queue pl)\<rparr>"
  let ?pc = "pc\<lparr>pc_idle_flags := pc_idle_flags pc OR IDLE_PLAYLIST\<rparr>"
  have wf: "queue_wf (pl_queue pl)" using up by (simp add: updatable_def)
  have 1: "playlist_increment_version pl pc = Some (?pl, ?pc)"
    by (rule increment_version_eq [OF wf])
  have "updatable rest ?pl ?pc prev"
    using up incremented_wf [OF wf] songs_ok_view [OF queue_view_incremented [OF wf]]
    by (simp add: updatable_def sequential_ok_def rest_frame [OF PT])
  from update_queued_song_returns [OF PT G this] obtain pl' pc' where
    "playlist_update_queued_song G PT ?pl ?pc prev = Some (pl', pc')"
    "playlist_ok rest pl' pc'" "settled ?pl pl'" .
  then show ?thesis using that [OF 1] by (simp add: finished_def)
qed

end
