(* ===== verification/Sample.thy ===== *)
theory Sample
  imports Playlist_Inv
begin

text \<open>
  Concrete data on which the properties are tried: a library that sorts and draws numbers, a player
  thread that carries out every command at once, three songs, a queue that holds them and a playlist
  that plays the first one.
\<close>

section \<open>glib\<close>

fun insert_by :: "(nat \<Rightarrow> nat \<Rightarrow> int) \<Rightarrow> nat \<Rightarrow> nat list \<Rightarrow> nat list" where
  "insert_by cmp x [] = [x]"
| "insert_by cmp x (y # ys) = (if cmp x y \<le> 0 then x # y # ys else y # insert_by cmp x ys)"

fun sort_by :: "(nat \<Rightarrow> nat \<Rightarrow> int) \<Rightarrow> nat list \<Rightarrow> nat list" where
  "sort_by cmp [] = []"
| "sort_by cmp (x # xs) = insert_by cmp x (sort_by cmp xs)"

definition sample_glib :: "nat glib" where
  "sample_glib = \<lparr>g_rand_int_range = (\<lambda>r a b. (a + r mod (b - a), r + 1)), g_qsort_with_data = sort_by\<rparr>"

lemma mset_insert_by: "mset (insert_by cmp x ys) = add_mset x (mset ys)"
  by (induction ys) auto

lemma sorted_insert_by:
  assumes "total_preorder cmp" "sorted_wrt (\<lambda>a b. cmp a b \<le> 0) ys"
  shows "sorted_wrt (\<lambda>a b. cmp a b \<le> 0) (insert_by cmp x ys)"
  using assms(2)
proof (induction ys)
  case (Cons y ys)
  have "set (insert_by cmp x ys) = insert x (set ys)" for x ys
    using mset_insert_by [of cmp x ys] by (metis set_mset_add_mset_insert set_mset_mset)
  moreover have "cmp x y \<le> 0 \<or> cmp y x \<le> 0" "\<And>a. cmp x y \<le> 0 \<Longrightarrow> cmp y a \<le> 0 \<Longrightarrow> cmp x a \<le> 0"
    using assms(1) by (auto simp: total_preorder_def)
  ultimately show ?case using Cons by auto
qed simp

lemma sample_glib_ok: "glib_ok sample_glib"
proof -
  have m: "mset (sort_by cmp xs) = mset xs" for cmp xs by (induction xs) (auto simp: mset_insert_by)
  have s: "sorted_wrt (\<lambda>a b. cmp a b \<le> 0) (sort_by cmp xs)" if "total_preorder cmp" for cmp xs
    by (induction xs) (auto simp: sorted_insert_by [OF that])
  have r: "a + r mod (b - a) < b" if "a < b" for a b r :: nat
    using that mod_less_divisor [of "b - a" r] by linarith
  show ?thesis by (simp add: glib_ok_def sample_glib_def m s r)
qed

section \<open>A player thread\<close>

definition sample_thread :: "unit player_thread" where
  "sample_thread pc = Some (pc\<lparr>
     pc_command := PLAYER_COMMAND_NONE, pc_error := PLAYER_ERROR_NOERROR,
     pc_next_song := (if pc_command pc = PLAYER_COMMAND_QUEUE \<and> pc_state pc \<noteq> PLAYER_STATE_STOP \<or>
         pc_command pc \<in> {PLAYER_COMMAND_PAUSE, PLAYER_COMMAND_REFRESH, PLAYER_COMMAND_UPDATE_AUDIO}
       then pc_next_song pc else None),
     pc_state := (case pc_command pc of
         PLAYER_COMMAND_QUEUE \<Rightarrow> if pc_state pc = PLAYER_STATE_STOP then PLAYER_STATE_PLAY else pc_state pc
       | PLAYER_COMMAND_SEEK \<Rightarrow> if pc_state pc = PLAYER_STATE_STOP then PLAYER_STATE_PLAY else pc_state pc
       | PLAYER_COMMAND_PAUSE \<Rightarrow> (case pc_state pc of
             PLAYER_STATE_STOP \<Rightarrow> PLAYER_STATE_STOP
           | PLAYER_STATE_PLAY \<Rightarrow> PLAYER_STATE_PAUSE
           | PLAYER_STATE_PAUSE \<Rightarrow> PLAYER_STATE_PLAY)
       | PLAYER_COMMAND_STOP \<Rightarrow> PLAYER_STATE_STOP
       | PLAYER_COMMAND_CLOSE_AUDIO \<Rightarrow> PLAYER_STATE_STOP
       | PLAYER_COMMAND_EXIT \<Rightarrow> PLAYER_STATE_STOP
       | _ \<Rightarrow> pc_state pc)\<rparr>)"

lemma sample_thread_live: "live_player sample_thread (\<lambda>_. True)"
proof
  fix pc :: "unit player_control" and cmd song w pc'
  assume g: "good_request pc cmd song" and a: "sample_thread (request pc cmd song w) = Some pc'"
  show "pc_next_song pc' = None \<or> pc_next_song pc' = pc_next_song (request pc cmd song w)"
    using a by (auto simp: sample_thread_def)
  show "True \<and> (pc_state pc' = PLAYER_STATE_STOP \<longrightarrow> pc_next_song pc' = None)"
    using a g
    by (cases "pc_state pc"; cases cmd)
       (auto simp: sample_thread_def request_def good_request_def pc_ok_def)
qed (auto simp: sample_thread_def request_def consumes_def)

section \<open>Songs, queue and playlist\<close>

definition sample_song :: "nat \<Rightarrow> song" where
  "sample_song n = \<lparr>s_addr = n, s_tag = None, s_parent = None, s_mtime = 0,
     s_start_ms = 0, s_end_ms = 0, s_uri = ''http://a/'' @ replicate n CHR ''x''\<rparr>"

definition sample_items :: "queue_item list" where
  "sample_items = [
     \<lparr>qi_song = sample_song 1, qi_id = 0, qi_version = 1, qi_priority = 0\<rparr>,
     \<lparr>qi_song = sample_song 2, qi_id = 1, qi_version = 2, qi_priority = 7\<rparr>,
     \<lparr>qi_song = sample_song 3, qi_id = 2, qi_version = 2, qi_priority = 0\<rparr>,
     zero_item]"

definition sample_queue :: "bool \<Rightarrow> nat queue" where
  "sample_queue rnd = \<lparr>q_max_length = 4, q_length = 3, q_version = 2, q_items = sample_items,
     q_order = [0, 1, 2, 0],
     q_id_to_position = [0, 1, 2, -1, -1, -1, -1, -1, -1, -1, -1, -1, -1, -1, -1, -1],
     q_repeat = False, q_single = False, q_consume = False, q_random = rnd, q_rand = 3, q_cur = 2, q_freed = []\<rparr>"

lemma sample_queue_wf: "queue_wf (sample_queue rnd)"
proof -
  have a: "arrays_ok (sample_queue rnd)" by (simp add: arrays_ok_def sample_queue_def sample_items_def)
  have o: "order_ok (sample_queue rnd)" by (simp add: order_ok_def play_order_def sample_queue_def upt_rec)
  have i: "ids_ok (sample_queue rnd)"
    by (simp add: ids_ok_def owns_def sample_queue_def sample_items_def All_less_Suc numeral_eq_Suc)
  have v: "versions_ok (sample_queue rnd)"
    by (simp add: versions_ok_def sample_queue_def sample_items_def All_less_Suc numeral_3_eq_3)
  show ?thesis using a o i v by (simp add: queue_wf_def)
qed

lemma sample_queue_songs: "songs_ok (sample_queue rnd)"
  by (simp add: songs_ok_def sample_queue_def queue_view_def sample_items_def item_key_def sample_song_def)

lemma sample_queue_sequential: "sequential_ok (sample_queue rnd)"
  by (simp add: sequential_ok_def sample_queue_def play_order_def upt_rec)

lemma sample_queue_view:
  "queue_view (sample_queue rnd) = [(sample_song 1, 0, 0), (sample_song 2, 1, 7), (sample_song 3, 2, 0)]"
  by (simp add: sample_queue_def queue_view_def sample_items_def item_key_def)

text \<open>The first song is playing, nothing is queued; or playback is stopped.\<close>

definition sample_playlist :: "bool \<Rightarrow> bool \<Rightarrow> nat playlist" where
  "sample_playlist rnd playing = \<lparr>pl_queue = sample_queue rnd, pl_playing = playing, pl_stop_on_error = False,
     pl_error_count = 0, pl_current = 0, pl_queued = -1\<rparr>"

definition sample_pc :: "bool \<Rightarrow> unit player_control" where
  "sample_pc playing = (pc_new 10 2 0 ())\<lparr>pc_state := (if playing then PLAYER_STATE_PLAY else PLAYER_STATE_STOP)\<rparr>"

lemma sample_playlist_sel [simp]:
  "pl_queue (sample_playlist rnd playing) = sample_queue rnd" "pl_playing (sample_playlist rnd playing) = playing"
  "pl_current (sample_playlist rnd playing) = 0" "pl_queued (sample_playlist rnd playing) = -1"
  by (simp_all add: sample_playlist_def)

lemma sample_queue_sel [simp]:
  "q_length (sample_queue rnd) = 3" "q_random (sample_queue rnd) = rnd" "q_consume (sample_queue rnd) = False"
  "q_max_length (sample_queue rnd) = 4" "q_repeat (sample_queue rnd) = False" "q_single (sample_queue rnd) = False"
  "q_order (sample_queue rnd) = [0, 1, 2, 0]" "q_items (sample_queue rnd) = sample_items"
  "q_version (sample_queue rnd) = 2"
  by (simp_all add: sample_queue_def)

lemma sample_playlist_ok: "playlist_ok (\<lambda>_. True) (sample_playlist rnd playing) (sample_pc playing)"
  by (simp add: playlist_ok_def sample_queue_wf sample_queue_songs sample_queue_sequential sample_pc_def pc_ok_def
      pc_new_def)

end
