(* ===== verification/Queue_Theorems.thy ===== *)
theory Queue_Theorems
  imports Playqueue_Spec Sample
begin

text \<open>The properties of the queue, stated for its clients, each with an example.\<close>

text \<open>
  C1: The queue refines a list of songs.  Any sequence of append, delete, swap, move, move-range and
  clear requests, each in range on the list, runs to its end without a failed assertion or a stray
  array access, and the songs and priorities of the queue afterwards are those of the list.
\<close>

theorem queue_edits_refine:
  assumes "queue_wf q" "for_each (list_edit (q_max_length q)) es (map without_id (queue_view q)) = Some xs"
  shows "\<exists>q'. for_each queue_edit es q = Some q' \<and> queue_wf q' \<and> map without_id (queue_view q') = xs"
  using pq.run_edits [OF assms] by blast

lemma sample_edits:
  "for_each (list_edit (q_max_length (sample_queue True))) [Append (sample_song 4) 1, Move_Range 0 2 1, Delete 3]
     (map without_id (queue_view (sample_queue True))) =
   Some [(sample_song 3, 0), (sample_song 1, 0), (sample_song 2, 7)]"
  by (simp add: sample_queue_view without_id_def move_block_def remove_nth_def)

theorem queue_edits_refine_witness:
  "\<exists>q'. for_each queue_edit [Append (sample_song 4) 1, Move_Range 0 2 1, Delete 3] (sample_queue True) = Some q' \<and>
     queue_wf q' \<and> map without_id (queue_view q') = [(sample_song 3, 0), (sample_song 1, 0), (sample_song 2, 7)]"
  by (rule queue_edits_refine [OF sample_queue_wf sample_edits])



text \<open>
  C8: Appending to a queue that is not full terminates (the search for a free id comes to an end),
  gives the song an id no other song has, puts it at the end of the list and of the play order and
  moves nothing else.
\<close>

theorem queue_append_fresh:
  assumes "queue_wf q" "q_length q < q_max_length q"
  shows "\<exists>sid q'. queue_append q song priority = Some (sid, q') \<and> queue_wf q' \<and>
    sid \<notin> key_id ` set (queue_view q) \<and> queue_view q' = queue_view q @ [(song, sid, priority)] \<and>
    play_ids q' = play_ids q @ [sid]"
proof -
  obtain sid where sid: "sid < length (q_id_to_position q)" "q_id_to_position q ! sid = -1"
    "queue_append q song priority = Some (sid, appended q song priority sid)"
    using queue_append_eq [OF assms] .
  have wf: "queue_wf (appended q song priority sid)" by (rule appended_wf [OF assms sid(1,2)])
  have view: "queue_view (appended q song priority sid) = queue_view q @ [(song, sid, priority)]"
    by (rule queue_view_appended [OF assms])
  then have "sid \<notin> key_id ` set (queue_view q)" using pq.ids_distinct [OF wf] by auto
  then show ?thesis using sid(3) wf view play_ids_appended [OF assms] by blast
qed

theorem queue_append_fresh_witness:
  "\<exists>sid q'. queue_append (sample_queue True) (sample_song 4) 9 = Some (sid, q') \<and> queue_wf q' \<and>
    sid \<notin> key_id ` set (queue_view (sample_queue True)) \<and>
    queue_view q' = queue_view (sample_queue True) @ [(sample_song 4, sid, 9)] \<and>
    play_ids q' = play_ids (sample_queue True) @ [sid]"
  by (rule queue_append_fresh [OF sample_queue_wf]) simp

text \<open>
  Deleting a position removes exactly that song from the list and its entry from the play order;
  the other songs keep their ids, their list order and their play order.
\<close>

lemma queue_delete_removes:
  assumes "queue_wf q" "position < q_length q"
  shows "\<exists>q' ord. queue_delete q position = Some q' \<and> queue_wf q' \<and>
    ord < q_length q \<and> play_order q ! ord = position \<and>
    queue_view q' = remove_nth position (queue_view q) \<and> play_ids q' = remove_nth ord (play_ids q)"
proof -
  obtain ord where ord: "ord < q_length q" "position = q_order q ! ord"
    "queue_delete q position = Some (deleted q position ord)" "queue_wf (deleted q position ord)"
    "queue_view (deleted q position ord) = remove_nth position (queue_view q)"
    using queue_delete_position [OF assms] .
  have "play_order q ! ord = position" using ord(1,2) assms(1) by (simp add: play_order_def)
  then show ?thesis using ord play_ids_deleted [OF assms(1) ord(1,2)] by blast
qed

text \<open>
  Moving a range of songs moves that block of the list and nothing else; in random mode the songs
  are still played in the same order, and every slot whose song changed is marked with the current
  version.
\<close>

lemma queue_move_range_moves:
  assumes "queue_wf q" "start < end" "end \<le> q_length q" "to + end \<le> q_length q + start"
  shows "\<exists>q'. queue_move_range q start end to = Some q' \<and> queue_wf q' \<and>
    queue_view q' = move_block start end to (queue_view q) \<and> stamped q q' \<and>
    (q_random q \<longrightarrow> play_ids q' = play_ids q)"
proof -
  note rel = move_range_relocates [OF assms(2-4)]
  have "play_ids (moved_range q start end to) = play_ids q" if "q_random q"
    using that play_ids_relocated [OF assms(1) rel] by (simp add: moved_range_def Let_def)
  moreover have "stamped q (moved_range q start end to)"
    by (rule stamped_cong [OF relocated_stamped [OF assms(1) rel]]) (simp_all add: moved_range_def Let_def)
  ultimately show ?thesis
    using queue_move_range_eq [OF assms] moved_range_wf [OF assms] queue_view_moved_range [OF assms] by blast
qed

text \<open>
  Shuffling the play order keeps the list of songs, plays each of them exactly once, and plays
  songs of higher priority before songs of lower priority.  (glib's sort and random numbers are
  assumed to behave as documented.)
\<close>

lemma queue_shuffle_order_by_priority:
  assumes "glib_ok G" "queue_wf q" "q_random q"
  shows "\<exists>q'. queue_shuffle_order G q = Some q' \<and> queue_wf q' \<and> queue_view q' = queue_view q \<and>
    mset (play_ids q') = mset (play_ids q) \<and> sorted_wrt (\<ge>) (play_prios q')"
proof -
  obtain q' where "queue_shuffle_order G q = Some q'" "reordered q q'" "sorted_wrt (\<ge>) (play_prios q')"
    using queue_shuffle_order_eq [OF assms] .
  then show ?thesis using reordered_wf assms(2) reordered_view reordered_play_ids by blast
qed

text \<open>
  Shuffling a range permutes the songs of that range: the songs outside stay where they are, no
  song is lost or doubled, and every slot whose song changed is marked with the current version.
\<close>

lemma queue_shuffle_range_permutes:
  assumes "glib_ok G" "queue_wf q" "start \<le> end" "end \<le> q_length q"
  shows "\<exists>q'. queue_shuffle_range G q start end = Some q' \<and> queue_wf q' \<and>
    mset (queue_view q') = mset (queue_view q) \<and> stamped q q' \<and>
    (\<forall>p < q_length q. p < start \<or> end \<le> p \<longrightarrow> queue_view q' ! p = queue_view q ! p)"
proof -
  obtain q' where q': "queue_shuffle_range G q start end = Some q'" "queue_wf q'" "stamped q q'"
    "mset (queue_view q') = mset (queue_view q)" "play_order q' = play_order q"
    "q_length q' = q_length q" "q_random q' = q_random q" "q_max_length q' = q_max_length q"
    "\<And>p. p < q_length q \<Longrightarrow> p < start \<or> end \<le> p \<Longrightarrow> q_items q' ! p = q_items q ! p"
    using queue_shuffle_range_eq [OF assms] by blast
  have "queue_view q' ! p = queue_view q ! p" if "p < q_length q" "p < start \<or> end \<le> p" for p
    using that q'(2,6,9) assms(2) by (simp add: nth_queue_view)
  then show ?thesis using q'(1-4) by blast
qed

text \<open>
  Changing the priority of a range of songs sets exactly these priorities.  In random mode, when
  the songs behind the current one (at order number \<open>a - 1\<close>, or none if \<open>a\<close> is 0) were sorted by
  priority, they still are, and the current song stays current.
\<close>

lemma queue_set_priority_range_sorted:
  assumes "glib_ok G" "queue_wf q" "start \<le> end" "end \<le> q_length q"
    and "upcoming_from q c a" "-1 \<le> c" "q_random q \<longrightarrow> sorted_after q a"
  shows "\<exists>m q' a'. queue_set_priority_range G q start end pr (int a - 1) = Some (m, q') \<and> queue_wf q' \<and>
    queue_view q' = set_view_priority start end pr (queue_view q) \<and>
    upcoming_from q' c a' \<and> (q_random q \<longrightarrow> sorted_after q' a')"
proof -
  obtain m q' a' where "queue_set_priority_range G q start end pr (int a - 1) = Some (m, q')"
    "queue_wf q'" "stamped q q'" "queue_view q' = set_view_priority start end pr (queue_view q)"
    "upcoming_from q' c a'" "q_random q \<longrightarrow> sorted_after q' a'" "q_length q' = q_length q"
    "q_random q' = q_random q" "\<not> m \<longrightarrow> queue_view q' = queue_view q"
    "\<not> q_random q \<longrightarrow> q_order q' = q_order q"
    using queue_set_priority_range_eq [OF assms] .
  then show ?thesis by blast
qed

end
