(* ===== verification/Playlist_Edit.thy ===== *)
theory Playlist_Edit
  imports Playlist_Inv
begin

text \<open>
  The editing operations of the playlist: each of them returns, keeps the invariant, changes the list
  of songs as its name says and leaves the current song the current song.
\<close>

section \<open>Preparation\<close>

lemma get_queued_ok:
  assumes "playlist_ok rest pl pc"
  obtains prev where "playlist_get_queued_song pl = Some prev" "updatable rest pl pc prev"
proof (cases "pl_queued pl < 0")
  case True
  then show ?thesis
    using that [of None] assms by (auto simp: playlist_get_queued_song_def updatable_def playlist_ok_def)
next
  case False
  then have "pl_playing pl" "nat (pl_queued pl) < q_length (pl_queue pl)" "queue_wf (pl_queue pl)"
    using assms by (auto simp: playlist_ok_def nat_less_iff)
  then show ?thesis
    using that False assms by (auto simp: playlist_get_queued_song_def updatable_def playlist_ok_def)
qed

lemma updatableD:
  assumes "updatable rest pl pc prev"
  shows "queue_wf (pl_queue pl)" "songs_ok (pl_queue pl)" "sequential_ok (pl_queue pl)" "pc_ok pc" "rest pc"
    "pl_current pl < int (q_length (pl_queue pl))" "-1 \<le> pl_current pl"
  using assms by (simp_all add: updatable_def)

text \<open>An edit that keeps the range of \<^verbatim>\<open>current\<close> and its sign leads to an updatable state.\<close>

lemma updatable_edit:
  assumes "updatable rest pl pc prev" "queue_wf q" "songs_ok q" "sequential_ok q"
    "-1 \<le> c" "c < int (q_length q)" "0 \<le> c \<longleftrightarrow> 0 \<le> pl_current pl"
  shows "updatable rest (pl\<lparr>pl_queue := q, pl_current := c\<rparr>) pc prev"
  using assms by (auto simp: updatable_def)

lemma nth_play_ids:
  "queue_wf q \<Longrightarrow> i < q_length q \<Longrightarrow> play_ids q ! i = qi_id (q_items q ! (q_order q ! i))"
  by (simp add: play_ids_def play_order_def)

lemma sequential_order:
  "queue_wf q \<Longrightarrow> sequential_ok q \<Longrightarrow> \<not> q_random q \<Longrightarrow> i < q_length q \<Longrightarrow> q_order q ! i = i"
  by (auto simp: sequential_ok_def play_order_def dest!: arg_cong [where f = "\<lambda>xs. xs ! i"])

lemma songs_ok_subset: "set (queue_view q') \<subseteq> set (queue_view q) \<Longrightarrow> songs_ok q \<Longrightarrow> songs_ok q'"
  by (auto simp: songs_ok_def)

lemma sequential_placed: "sequential_ok q \<Longrightarrow> sequential_ok (placed f h q)"
  by (simp add: sequential_ok_def play_order_def)

section \<open>Swapping\<close>

lemma swap_random:
  assumes wf: "queue_wf q" and o: "o1 < q_length q" "o2 < q_length q"
  defines "s1 \<equiv> q_order q ! o1" and "s2 \<equiv> q_order q ! o2"
  shows "(swapped q s1 s2)\<lparr>q_order := swap_at o1 o2 (q_order q)\<rparr> =
    with_order (swap_position s1 s2) (swapped q s1 s2)"
proof -
  have len: "q_length q \<le> length (q_order q)" using queue_wfD [OF wf] by simp
  have "swap_at o1 o2 (q_order q) ! i = (map (swap_position s1 s2) (take (q_length q) (q_order q)) @
      drop (q_length q) (q_order q)) ! i" if "i < length (q_order q)" for i
  proof (cases "i < q_length q")
    case True
    have "q_order q ! i = s1 \<longleftrightarrow> i = o1" "q_order q ! i = s2 \<longleftrightarrow> i = o2"
      using wf_order_inj [OF wf True] o by (auto simp: s1_def s2_def)
    then show ?thesis
      using True o len
      by (auto simp: nth_swap_at nth_append swap_position_def s1_def s2_def)
  next
    case False
    then show ?thesis using o len that by (simp add: nth_swap_at nth_append)
  qed
  then have "swap_at o1 o2 (q_order q) = map (swap_position s1 s2) (take (q_length q) (q_order q)) @
      drop (q_length q) (q_order q)"
    using len by (intro list_eq_nthI [where n = "length (q_order q)"]) simp_all
  then show ?thesis by (simp add: with_order_def swapped_def)
qed

lemma swap_follow_random:
  assumes up: "updatable rest pl pc prev" and rnd: "q_random (pl_queue pl)"
    and s: "s1 < q_length (pl_queue pl)" "s2 < q_length (pl_queue pl)"
    and songs: "songs_ok (swapped (pl_queue pl) s1 s2)"
  obtains pl1 where "swap_follow_current pl (swapped (pl_queue pl) s1 s2) s1 s2 = Some pl1"
    "updatable rest pl1 pc prev" "queue_view (pl_queue pl1) = queue_view (swapped (pl_queue pl) s1 s2)"
    "current_id pl1 = current_id pl" "pl_playing pl1 = pl_playing pl"
proof -
  let ?q = "pl_queue pl" and ?q1 = "swapped (pl_queue pl) s1 s2"
  let ?q2 = "with_order (swap_position s1 s2) ?q1"
  note u = updatableD [OF up] and rel = swap_relocates [OF s]
  have wf1: "queue_wf ?q1" unfolding swapped_def by (rule placed_wf [OF u(1) rel])
  obtain o1 where o1: "o1 < q_length ?q" "q_order ?q ! o1 = s1" "queue_position_to_order ?q1 s1 = Some o1"
    using queue_position_to_order_ex [OF wf1, of s1] s by (auto simp: swapped_def)
  obtain o2 where o2: "o2 < q_length ?q" "q_order ?q ! o2 = s2" "queue_position_to_order ?q1 s2 = Some o2"
    using queue_position_to_order_ex [OF wf1, of s2] s by (auto simp: swapped_def)
  have sw: "queue_swap_order ?q1 o1 o2 = Some ?q2"
    using queue_swap_order_eq [OF wf1, of o1 o2] o1 o2 swap_random [OF u(1) o1(1) o2(1)]
    by (simp add: swapped_def)
  have wf2: "queue_wf ?q2"
    using wf1 rel by (intro with_order_wf) (auto simp: relocates_def swapped_def)
  have ids: "play_ids ?q2 = play_ids ?q" unfolding swapped_def by (rule play_ids_relocated [OF u(1) rel])
  have view2: "queue_view ?q2 = queue_view ?q1" by (simp add: queue_view_def)
  have len: "q_length ?q1 = q_length ?q" by (simp add: swapped_def)
  show ?thesis
  proof (rule that [of "pl\<lparr>pl_queue := ?q2\<rparr>"])
    show "swap_follow_current pl ?q1 s1 s2 = Some (pl\<lparr>pl_queue := ?q2\<rparr>)"
      using rnd o1 o2 sw by (simp add: swap_follow_current_def) (simp add: swapped_def)
    show "updatable rest (pl\<lparr>pl_queue := ?q2\<rparr>) pc prev"
      using updatable_edit [OF up wf2, of "pl_current pl"] songs songs_ok_view [OF view2] u rnd
      by (simp add: sequential_ok_def swapped_def)
    show "current_id (pl\<lparr>pl_queue := ?q2\<rparr>) = current_id pl"
      using u wf2 ids len by (simp add: current_id_play_ids)
  qed (simp_all add: view2)
qed

lemma swap_follow_sequential:
  assumes up: "updatable rest pl pc prev" and seq: "\<not> q_random (pl_queue pl)"
    and s: "s1 < q_length (pl_queue pl)" "s2 < q_length (pl_queue pl)"
    and songs: "songs_ok (swapped (pl_queue pl) s1 s2)"
  obtains pl1 where "swap_follow_current pl (swapped (pl_queue pl) s1 s2) s1 s2 = Some pl1"
    "updatable rest pl1 pc prev" "queue_view (pl_queue pl1) = queue_view (swapped (pl_queue pl) s1 s2)"
    "current_id pl1 = current_id pl" "pl_playing pl1 = pl_playing pl"
proof -
  let ?q1 = "swapped (pl_queue pl) s1 s2"
  define c where "c = (if pl_current pl = int s1 then int s2
    else if pl_current pl = int s2 then int s1 else pl_current pl)"
  note u = updatableD [OF up]
  have wf1: "queue_wf ?q1" unfolding swapped_def by (rule placed_wf [OF u(1) swap_relocates [OF s]])
  have ord: "q_order (pl_queue pl) ! i = i" if "i < q_length (pl_queue pl)" for i
    using sequential_order [OF u(1,3) seq that] .
  show ?thesis
  proof (rule that [of "pl\<lparr>pl_queue := ?q1, pl_current := c\<rparr>"])
    show "swap_follow_current pl ?q1 s1 s2 = Some (pl\<lparr>pl_queue := ?q1, pl_current := c\<rparr>)"
      using seq by (simp add: swap_follow_current_def swapped_def c_def)
    show "updatable rest (pl\<lparr>pl_queue := ?q1, pl_current := c\<rparr>) pc prev"
      using updatable_edit [OF up wf1 songs, of c] u seq s sequential_placed [OF u(3)]
      by (auto simp: c_def swapped_def)
    show "current_id (pl\<lparr>pl_queue := ?q1, pl_current := c\<rparr>) = current_id pl"
      using u s ord
      by (auto simp: current_id_def current_pos_def c_def swapped_def swapped_items_def nat_less_iff)
  qed simp_all
qed

text \<open>How every edit ends: the version is incremented and the queued song is updated.\<close>

lemma edit_returns:
  assumes PT: "live_player PT rest" and G: "glib_ok G" and up: "updatable rest pl1 pc prev"
  obtains pl2 pc2 pl' pc' where "playlist_increment_version pl1 pc = Some (pl2, pc2)"
    "playlist_update_queued_song G PT pl2 pc2 prev = Some (pl', pc')" "playlist_ok rest pl' pc'"
    "queue_view (pl_queue pl') = queue_view (pl_queue pl1)" "current_id pl' = current_id pl1"
    "pl_playing pl' = pl_playing pl1" "q_random (pl_queue pl') = q_random (pl_queue pl1)"
    "q_items (pl_queue pl') = q_items (incremented (pl_queue pl1))"
    "q_length (pl_queue pl') = q_length (pl_queue pl1)"
    "q_version (pl_queue pl') = q_version (incremented (pl_queue pl1))"
proof -
  obtain pl2 pc2 pl' pc' where fin: "playlist_increment_version pl1 pc = Some (pl2, pc2)"
    "playlist_update_queued_song G PT pl2 pc2 prev = Some (pl', pc')"
    "playlist_ok rest pl' pc'" "finished pl1 pl'"
    using edit_finish [OF PT G up] .
  note u = updatableD [OF up]
  show ?thesis
    using that [OF fin(1-3)] finishedD [OF fin(4) u(1)] finished_current_id [OF fin(4) u(1,6)] by simp
qed

lemma playlist_swap_songs_returns:
  assumes PT: "live_player PT rest" and G: "glib_ok G" and ok: "playlist_ok rest pl pc"
    and s: "s1 < q_length (pl_queue pl)" "s2 < q_length (pl_queue pl)"
  obtains pl' pc' where "playlist_swap_songs G PT pl pc s1 s2 = Some (MPD_SUCCESS, pl', pc')"
    "playlist_ok rest pl' pc'" "queue_view (pl_queue pl') = swap_at s1 s2 (queue_view (pl_queue pl))"
    "current_id pl' = current_id pl" "pl_playing pl' = pl_playing pl"
proof -
  obtain prev where prev: "playlist_get_queued_song pl = Some prev" "updatable rest pl pc prev"
    using get_queued_ok [OF ok] .
  note up = updatableD [OF prev(2)]
  let ?q1 = "swapped (pl_queue pl) s1 s2"
  have view1: "queue_view ?q1 = swap_at s1 s2 (queue_view (pl_queue pl))"
    by (rule queue_view_swapped [OF up(1) s])
  have songs1: "songs_ok ?q1"
    using up(2) view1 s up(1) by (intro songs_ok_subset [of ?q1 "pl_queue pl"])
      (auto simp: length_queue_view simp flip: set_mset_mset)
  obtain pl1 where pl1: "swap_follow_current pl ?q1 s1 s2 = Some pl1"
    "updatable rest pl1 pc prev" "queue_view (pl_queue pl1) = queue_view ?q1"
    "current_id pl1 = current_id pl" "pl_playing pl1 = pl_playing pl"
    using swap_follow_random [OF prev(2) _ s songs1] swap_follow_sequential [OF prev(2) _ s songs1] by metis
  obtain pl2 pc2 pl' pc' where fin: "playlist_increment_version pl1 pc = Some (pl2, pc2)"
    "playlist_update_queued_song G PT pl2 pc2 prev = Some (pl', pc')" "playlist_ok rest pl' pc'"
    "queue_view (pl_queue pl') = queue_view (pl_queue pl1)" "current_id pl' = current_id pl1"
    "pl_playing pl' = pl_playing pl1"
    using edit_returns [OF PT G pl1(2)] .
  have "playlist_swap_songs G PT pl pc s1 s2 = Some (MPD_SUCCESS, pl', pc')"
    using s prev(1) queue_swap_eq [OF up(1) s] pl1(1) fin(1,2)
    by (simp add: playlist_swap_songs_def queue_valid_position_def)
  then show ?thesis
    using that fin(3-6) pl1(3-5) view1 by simp
qed

section \<open>Adding a song\<close>

lemma sequential_appended:
  assumes "queue_wf q" "q_length q < q_max_length q" "sequential_ok q"
  shows "sequential_ok (appended q song prio sid)"
proof -
  have "length (q_order q) = q_max_length q" using queue_wfD [OF assms(1)] by simp
  then have "take (Suc (q_length q)) ((q_order q)[q_length q := q_length q]) = take (q_length q) (q_order q) @ [q_length q]"
    using assms(2) by (simp add: take_Suc_conv_app_nth)
  then show ?thesis
    using assms(3) by (simp add: sequential_ok_def appended_def play_order_def)
qed

text \<open>The new song is swapped into a random place behind the songs up to order number \<open>start\<close>.\<close>

lemma append_shuffled:
  assumes G: "glib_ok G" and wf: "queue_wf q" and rnd: "q_random q" and c: "c < start"
  obtains q' where "(if start < q_length q then queue_shuffle_order_last G q start (q_length q) else Some q) = Some q'"
    "reordered q q'" "\<And>i. i \<le> c \<Longrightarrow> i < q_length q \<Longrightarrow> q_order q' ! i = q_order q ! i"
proof (cases "start < q_length q")
  case False
  then show ?thesis using that [of q] by simp
next
  case True
  obtain r g where r: "start \<le> r" "r < q_length q"
    "queue_shuffle_order_last G q start (q_length q) =
       Some (q\<lparr>q_order := swap_at (q_length q - 1) r (q_order q), q_rand := g\<rparr>)"
    "reordered q (q\<lparr>q_order := swap_at (q_length q - 1) r (q_order q), q_rand := g\<rparr>)"
    using queue_shuffle_order_last_eq [OF G wf True] .
  have l: "q_length q - 1 < length (q_order q)" "r < length (q_order q)"
    using queue_wfD [OF wf] r(2) by simp_all
  show ?thesis
  proof (rule that [OF _ r(4)])
    fix i assume "i \<le> c"
    then show "q_order (q\<lparr>q_order := swap_at (q_length q - 1) r (q_order q), q_rand := g\<rparr>) ! i = q_order q ! i"
      using True r(1) c l by (auto simp: nth_swap_at)
  qed (use True r(3) in simp)
qed

lemma shuffle_appended_returns:
  assumes G: "glib_ok G" and wf: "queue_wf q"
    and order: "q_random q \<longrightarrow> pl_queued pl < 0 \<or> pl_current pl \<le> pl_queued pl"
    and cur: "-1 \<le> pl_current pl"
  obtains q' where "shuffle_appended G pl q = Some q'" "reordered q q'" "\<not> q_random q \<longrightarrow> q' = q"
    "\<And>i. int i \<le> pl_current pl \<Longrightarrow> i < q_length q \<Longrightarrow> q_order q' ! i = q_order q ! i"
proof (cases "q_random q")
  case False
  then show ?thesis using that [of q] by (simp add: shuffle_appended_def)
next
  case rnd: True
  define start where "start = (if 0 \<le> pl_queued pl then nat (pl_queued pl + 1) else nat (pl_current pl + 1))"
  have cs: "pl_current pl < int start" using order rnd cur by (auto simp: start_def)
  have eq: "shuffle_appended G pl q =
      (if start < q_length q then queue_shuffle_order_last G q start (q_length q) else Some q)"
    using rnd wf by (simp add: shuffle_appended_def start_def Let_def)
  show ?thesis
  proof (cases "pl_current pl < 0")
    case neg: True
    obtain q' where "shuffle_appended G pl q = Some q'" "reordered q q'"
    proof (cases "start < q_length q")
      case True
      show ?thesis using queue_shuffle_order_last_eq [OF G wf True] that True eq by metis
    qed (use that eq in simp)
    then show ?thesis using that [of q'] neg rnd by simp
  next
    case False
    then have "nat (pl_current pl) < start" using cs by linarith
    from append_shuffled [OF G wf rnd this] obtain q' where
      "shuffle_appended G pl q = Some q'" "reordered q q'"
      "\<And>i. i \<le> nat (pl_current pl) \<Longrightarrow> i < q_length q \<Longrightarrow> q_order q' ! i = q_order q ! i"
      using eq by metis
    then show ?thesis using that [of q'] rnd by simp
  qed
qed

lemma playlist_append_song_returns:
  assumes PT: "live_player PT rest" and G: "glib_ok G" and ok: "playlist_ok rest pl pc"
    and room: "q_length (pl_queue pl) < q_max_length (pl_queue pl)" and uri: "s_uri song \<noteq> []"
    and order: "q_random (pl_queue pl) \<longrightarrow> pl_queued pl < 0 \<or> pl_current pl \<le> pl_queued pl"
  obtains sid pl' pc' where
    "playlist_append_song G PT pl pc song = Some (MPD_SUCCESS, Some sid, pl', pc')"
    "playlist_ok rest pl' pc'"
    "queue_view (pl_queue pl') = queue_view (pl_queue pl) @ [(song, sid, 0)]"
    "current_id pl' = current_id pl" "pl_playing pl' = pl_playing pl"
    "q_random (pl_queue pl') = q_random (pl_queue pl)" "q_max_length (pl_queue pl') = q_max_length (pl_queue pl)"
proof -
  obtain prev where prev: "playlist_get_queued_song pl = Some prev" "updatable rest pl pc prev"
    using get_queued_ok [OF ok] .
  note up = updatableD [OF prev(2)]
  let ?q = "pl_queue pl" and ?c = "pl_current pl"
  obtain sid where sid: "sid < length (q_id_to_position ?q)" "q_id_to_position ?q ! sid = -1"
    "queue_append ?q song 0 = Some (sid, appended ?q song 0 sid)"
    using queue_append_eq [OF up(1) room] .
  let ?q1 = "appended ?q song 0 sid"
  have wf1: "queue_wf ?q1" by (rule appended_wf [OF up(1) room sid(1,2)])
  have len1: "q_length ?q1 = q_length ?q + 1" "q_random ?q1 = q_random ?q" by (simp_all add: appended_def)
  have order1: "q_random ?q1 \<longrightarrow> pl_queued pl < 0 \<or> ?c \<le> pl_queued pl" using order len1 by simp
  obtain q2 where q2: "shuffle_appended G pl ?q1 = Some q2"
    "reordered ?q1 q2" "\<not> q_random ?q1 \<longrightarrow> q2 = ?q1"
    "\<And>i. int i \<le> ?c \<Longrightarrow> i < q_length ?q1 \<Longrightarrow> q_order q2 ! i = q_order ?q1 ! i"
    using shuffle_appended_returns [OF G wf1 order1 up(7)] by blast
  have wf2: "queue_wf q2" using q2(2) wf1 by (rule reordered_wf)
  have view2: "queue_view q2 = queue_view ?q @ [(song, sid, 0)]"
    using reordered_view [OF q2(2)] queue_view_appended [OF up(1) room] by simp
  have seq2: "sequential_ok q2"
    using q2(3) sequential_appended [OF up(1) room up(3)] reordered_sel(9) [OF q2(2)]
    by (auto simp: sequential_ok_def)
  have up2: "updatable rest (pl\<lparr>pl_queue := q2\<rparr>) pc prev"
    using updatable_edit [OF prev(2) wf2 _ seq2, of ?c] up uri view2 reordered_sel(2) [OF q2(2)] len1
    by (auto simp: songs_ok_def)
  have cur2: "current_id (pl\<lparr>pl_queue := q2\<rparr>) = current_id pl"
    using up q2(4) [of "nat ?c"] reordered_sel(4) [OF q2(2)] len1 wf_order_less [OF up(1), of "nat ?c"]
    by (auto simp: current_id_def current_pos_def appended_def nat_less_iff)
  obtain pl3 pc3 pl' pc' where fin: "playlist_increment_version (pl\<lparr>pl_queue := q2\<rparr>) pc = Some (pl3, pc3)"
    "playlist_update_queued_song G PT pl3 pc3 prev = Some (pl', pc')" "playlist_ok rest pl' pc'"
    "queue_view (pl_queue pl') = queue_view (pl_queue (pl\<lparr>pl_queue := q2\<rparr>))"
    "current_id pl' = current_id (pl\<lparr>pl_queue := q2\<rparr>)" "pl_playing pl' = pl_playing (pl\<lparr>pl_queue := q2\<rparr>)"
    "q_random (pl_queue pl') = q_random (pl_queue (pl\<lparr>pl_queue := q2\<rparr>))"
    "q_items (pl_queue pl') = q_items (incremented (pl_queue (pl\<lparr>pl_queue := q2\<rparr>)))"
    by (rule edit_returns [OF PT G up2])
  have "playlist_append_song G PT pl pc song = Some (MPD_SUCCESS, Some sid, pl', pc')"
    using room up(1) prev(1) sid(3) q2(1) fin(1,2) by (simp add: playlist_append_song_def)
  moreover have "length (q_items (pl_queue pl')) = length (q_items ?q)"
    using fin(8) reordered_sel(4) [OF q2(2)] by (auto simp: incremented_def map_items_def appended_def min_def)
  then have "q_max_length (pl_queue pl') = q_max_length ?q"
    using queue_wfD(1) [OF up(1)] queue_wfD(1) [of "pl_queue pl'"] fin(3) by (simp add: playlist_ok_def)
  ultimately show ?thesis
    using that fin(3-7) view2 cur2 reordered_sel(9) [OF q2(2)] len1(2) by simp
qed

section \<open>Priorities\<close>

text \<open>The songs behind the current one are sorted by descending priority.\<close>

definition upcoming_sorted :: "'g playlist \<Rightarrow> bool" where
  "upcoming_sorted pl \<longleftrightarrow>
     (q_random (pl_queue pl) \<longrightarrow> sorted_after (pl_queue pl) (nat (pl_current pl + 1)))"

lemma upcoming_from_current:
  assumes "updatable rest pl pc prev"
  shows "upcoming_from (pl_queue pl) (case current_pos pl of None \<Rightarrow> -1 | Some p \<Rightarrow> int p)
    (nat (pl_current pl + 1))"
  using updatableD(6,7) [OF assms] by (auto simp: upcoming_from_def current_pos_def nat_add_distrib)

lemma songs_ok_set_priority:
  assumes "songs_ok q" "queue_view q' = set_view_priority s e v (queue_view q)"
  shows "songs_ok q'"
proof -
  have "s_uri (fst k) \<noteq> []" if k: "k \<in> set (queue_view q')" for k
  proof -
    obtain i where i: "i < length (queue_view q)" "k = queue_view q' ! i"
      using k assms(2) by (auto simp: in_set_conv_nth)
    then have "fst k = fst (queue_view q ! i)"
      using assms(2) by (auto simp: set_view_priority_def nth_enumerate_eq split: prod.splits)
    then show ?thesis using assms(1) i(1) by (auto simp: songs_ok_def)
  qed
  then show ?thesis by (simp add: songs_ok_def)
qed

lemma upcoming_from_order:
  assumes "upcoming_from q c a" "queue_wf q" "0 \<le> c"
  shows "queue_position_to_order q (nat c) = Some (a - 1)" "0 < a" "a \<le> q_length q"
  using assms queue_position_to_order_Some [OF assms(2), of "a - 1"] by (auto simp: upcoming_from_def)

lemma set_view_priority_ids:
  assumes "queue_wf q" "queue_wf q'" "q_length q' = q_length q" "p < q_length q"
    "queue_view q' = set_view_priority s e v (queue_view q)"
  shows "qi_id (q_items q' ! p) = qi_id (q_items q ! p)"
proof -
  have "fst (snd (queue_view q' ! p)) = fst (snd (queue_view q ! p))"
    using assms by (auto simp: set_view_priority_def nth_enumerate_eq length_queue_view split: prod.splits)
  then show ?thesis
    using assms nth_queue_view [OF assms(1,4)] nth_queue_view [OF assms(2), of p] by (simp add: item_key_def)
qed

text \<open>The queue after the priorities were set, and \<^verbatim>\<open>current\<close> looked up again in it.\<close>

lemma set_priority_edit:
  assumes G: "glib_ok G" and up: "updatable rest pl pc prev"
    and sorted: "upcoming_sorted pl" and rng: "start < end" "end \<le> q_length (pl_queue pl)"
  obtains c m q1 k where
    "(if 0 \<le> pl_current pl then map_option int (order_to_position pl (pl_current pl)) else Some (-1)) = Some c"
    "queue_set_priority_range G (pl_queue pl) start end prio (pl_current pl) = Some (m, q1)" "queue_wf q1"
    "queue_view q1 = set_view_priority start end prio (queue_view (pl_queue pl))"
    "0 \<le> c \<Longrightarrow> queue_position_to_order (incremented q1) (nat c) = Some (nat k)"
    "c < 0 \<Longrightarrow> k = pl_current pl" "-1 \<le> k" "0 \<le> k \<longleftrightarrow> 0 \<le> c"
    "updatable rest (pl\<lparr>pl_queue := q1, pl_current := k\<rparr>) pc prev"
    "current_id (pl\<lparr>pl_queue := q1, pl_current := k\<rparr>) = current_id pl"
proof -
  let ?q = "pl_queue pl" and ?a = "nat (pl_current pl + 1)"
  note u = updatableD [OF up]
  define c where "c = (case current_pos pl of None \<Rightarrow> -1 | Some p \<Rightarrow> int p)"
  have c: "upcoming_from ?q c ?a" "-1 \<le> c" "int ?a - 1 = pl_current pl" "0 \<le> c \<longleftrightarrow> 0 \<le> pl_current pl"
    using upcoming_from_current [OF up] u(7) by (auto simp: c_def current_pos_def split: option.splits)
  have srt: "q_random ?q \<longrightarrow> sorted_after ?q ?a" using sorted by (simp add: upcoming_sorted_def)
  obtain m q1 a1 where q1: "queue_set_priority_range G ?q start end prio (int ?a - 1) = Some (m, q1)"
    "queue_wf q1" "stamped ?q q1" "queue_view q1 = set_view_priority start end prio (queue_view ?q)"
    "upcoming_from q1 c a1" "q_random ?q \<longrightarrow> sorted_after q1 a1" "q_length q1 = q_length ?q"
    "q_random q1 = q_random ?q" "\<not> m \<longrightarrow> queue_view q1 = queue_view ?q" "\<not> q_random ?q \<longrightarrow> q_order q1 = q_order ?q"
    using queue_set_priority_range_eq [OF G u(1) less_imp_le [OF rng(1)] rng(2) c(1,2) srt] .
  let ?pl1 = "pl\<lparr>pl_queue := q1, pl_current := int a1 - 1\<rparr>"
  have a1: "0 \<le> c \<longleftrightarrow> 0 < a1" "a1 \<le> q_length q1"
    using q1(5) upcoming_from_le by (auto simp: upcoming_from_def split: if_splits)
  have inc: "upcoming_from (incremented q1) c a1" using q1(5) by (simp add: upcoming_from_def cong: if_cong)
  show ?thesis
  proof (rule that [of c m q1 "int a1 - 1"])
    show "(if 0 \<le> pl_current pl then map_option int (order_to_position pl (pl_current pl)) else Some (-1)) = Some c"
      using order_to_position_Some [OF u(1) _ u(6)] by (auto simp: c_def current_pos_def)
    show "queue_position_to_order (incremented q1) (nat c) = Some (nat (int a1 - 1))" if "0 \<le> c"
      using upcoming_from_order [OF inc incremented_wf [OF q1(2)] that] by (simp add: nat_diff_distrib)
    show "updatable rest ?pl1 pc prev"
      using updatable_edit [OF up q1(2), of "int a1 - 1"] u songs_ok_set_priority [OF u(2) q1(4)] q1(7,8,10) c(4) a1
      by (auto simp: sequential_ok_def play_order_def)
    have "current_pos ?pl1 = current_pos pl"
      using q1(5) c a1 by (auto simp: current_pos_def c_def upcoming_from_def nat_diff_distrib split: if_splits)
    moreover have "p < q_length ?q" if "current_pos pl = Some p" for p
      using that u(1,6) wf_order_less [OF u(1)] by (auto simp: current_pos_def nat_less_iff split: if_splits)
    ultimately show "current_id ?pl1 = current_id pl"
      using set_view_priority_ids [OF u(1) q1(2,7) _ q1(4)] by (cases "current_pos pl") (auto simp: current_id_def)
    show "int a1 - 1 = pl_current pl" if "c < 0" using that a1(1) c(4) u(7) by simp
  qed (use q1(1,2,4) c a1 in auto)
qed

lemma playlist_set_priority_returns:
  assumes PT: "live_player PT rest" and G: "glib_ok G" and ok: "playlist_ok rest pl pc"
    and sorted: "upcoming_sorted pl" and rng: "start < end" "end \<le> q_length (pl_queue pl)"
  obtains pl' pc' where "playlist_set_priority G PT pl pc start end prio = Some (MPD_SUCCESS, pl', pc')"
    "playlist_ok rest pl' pc'"
    "queue_view (pl_queue pl') = set_view_priority start end prio (queue_view (pl_queue pl))"
    "current_id pl' = current_id pl" "pl_playing pl' = pl_playing pl"
proof -
  obtain prev where prev: "playlist_get_queued_song pl = Some prev" "updatable rest pl pc prev"
    using get_queued_ok [OF ok] .
  note up = updatableD [OF prev(2)]
  obtain c m q1 k where
    e: "(if 0 \<le> pl_current pl then map_option int (order_to_position pl (pl_current pl)) else Some (-1)) = Some c"
    "queue_set_priority_range G (pl_queue pl) start end prio (pl_current pl) = Some (m, q1)" "queue_wf q1"
    "queue_view q1 = set_view_priority start end prio (queue_view (pl_queue pl))"
    "0 \<le> c \<Longrightarrow> queue_position_to_order (incremented q1) (nat c) = Some (nat k)"
    "c < 0 \<Longrightarrow> k = pl_current pl" "-1 \<le> k" "0 \<le> k \<longleftrightarrow> 0 \<le> c"
    "updatable rest (pl\<lparr>pl_queue := q1, pl_current := k\<rparr>) pc prev"
    "current_id (pl\<lparr>pl_queue := q1, pl_current := k\<rparr>) = current_id pl"
    using set_priority_edit [OF G prev(2) sorted rng] by blast
  let ?pl1 = "pl\<lparr>pl_queue := q1, pl_current := k\<rparr>"
  obtain pl2 pc2 pl' pc' where fin: "playlist_increment_version ?pl1 pc = Some (pl2, pc2)"
    "playlist_update_queued_song G PT pl2 pc2 prev = Some (pl', pc')" "playlist_ok rest pl' pc'"
    "queue_view (pl_queue pl') = queue_view (pl_queue ?pl1)" "current_id pl' = current_id ?pl1"
    "pl_playing pl' = pl_playing ?pl1"
    using edit_returns [OF PT G e(9)] .
  let ?pl = "pl\<lparr>pl_queue := incremented q1\<rparr>"
  have inc: "playlist_increment_version (pl\<lparr>pl_queue := q1\<rparr>) pc = Some (?pl, pc2)"
    "pl2 = ?pl\<lparr>pl_current := k\<rparr>"
    using increment_version_eq [of "pl\<lparr>pl_queue := q1\<rparr>" pc] increment_version_eq [of ?pl1 pc] e(3) fin(1) by auto
  have restore: "(if 0 \<le> c then do {
        ord \<leftarrow> queue_position_to_order (pl_queue ?pl) (nat c); Some (?pl\<lparr>pl_current := int ord\<rparr>)
      } else Some ?pl) = Some pl2"
    using e(5-8) inc(2) by (cases "0 \<le> c") simp_all
  have "playlist_set_priority G PT pl pc start end prio = Some (MPD_SUCCESS, pl', pc')"
    unfolding playlist_set_priority_def e(1)
    using rng up(1) prev(1) e(1,2) inc(1) restore fin(2)
    by (simp add: Let_def)
  then show ?thesis
    using that fin(3-6) e(4,10) by simp
qed

end
