(* ===== verification/Playlist_Play.thy ===== *)
theory Playlist_Play
  imports Playlist_Edit
begin

text \<open>
  Playback control and the removal of songs: the operations return, no assertion fails on the way,
  and the invariant of the playlist holds afterwards.
\<close>

section \<open>Playing an order number\<close>

lemma play_order_returns:
  assumes PT: "live_player PT rest"
    and q: "queue_wf (pl_queue pl)" "songs_ok (pl_queue pl)"
    and pc: "pc_ok pc" "rest pc" and n: "0 \<le> n" "n < int (q_length (pl_queue pl))"
  obtains pc' where
    "playlist_play_order PT pl pc n = Some (pl\<lparr>pl_playing := True, pl_queued := -1, pl_current := n\<rparr>, pc')"
    "pc_ok pc'" "rest pc'" "pc_next_song pc' = None"
proof -
  let ?s = "qi_song (q_items (pl_queue pl) ! (q_order (pl_queue pl) ! nat n))"
  note u = to_unsigned_order [OF q(1) n]
  obtain pc' where "pc_play PT pc ?s = Some pc'" "pc_ok pc'" "rest pc'" "pc_next_song pc' = None"
    using player_thread.pc_play_returns [OF PT pc, of ?s] by blast
  moreover obtain uri where "song_get_uri ?s = Some uri" using song_uri [OF q u(2)] by blast
  ultimately show ?thesis
    using that u q(1) by (simp add: playlist_play_order_def)
qed

lemma play_order_ok:
  assumes PT: "live_player PT rest" and up: "updatable rest pl pc prev"
    and n: "0 \<le> n" "n < int (q_length (pl_queue pl))"
  obtains pc' where
    "playlist_play_order PT pl pc n = Some (pl\<lparr>pl_playing := True, pl_queued := -1, pl_current := n\<rparr>, pc')"
    "playlist_ok rest (pl\<lparr>pl_playing := True, pl_queued := -1, pl_current := n\<rparr>) pc'"
proof -
  note u = updatableD [OF up]
  obtain pc' where
    "playlist_play_order PT pl pc n = Some (pl\<lparr>pl_playing := True, pl_queued := -1, pl_current := n\<rparr>, pc')"
    "pc_ok pc'" "rest pc'" "pc_next_song pc' = None"
    using play_order_returns [OF PT u(1,2,4,5) n] .
  then show ?thesis using that u n by (simp add: playlist_ok_def)
qed

section \<open>Stopping\<close>

lemma playlist_stop_returns:
  assumes PT: "live_player PT rest" and G: "glib_ok G" and up: "updatable rest pl pc prev"
  obtains pl' pc' where "playlist_stop G PT pl pc = Some (pl', pc')" "playlist_ok rest pl' pc'"
    "settled (pl\<lparr>pl_playing := False\<rparr>) pl'" "pl_current pl' < 0 \<longleftrightarrow> pl_current pl < 0"
    "\<not> q_random (pl_queue pl) \<longrightarrow> pl_current pl' = pl_current pl"
proof (cases "pl_playing pl")
  case False
  then have "playlist_ok rest pl pc" using up by (auto simp: updatable_def playlist_ok_def)
  then show ?thesis using that [of pl pc] False by (simp add: playlist_stop_def settled_def current_pos_def)
next
  case True
  note u = updatableD [OF up]
  have c: "0 \<le> pl_current pl" using True up by (simp add: updatable_def)
  obtain pc1 where pc1: "pc_stop PT pc = Some pc1" "pc_ok pc1" "rest pc1" "pc_next_song pc1 = None"
    using player_thread.pc_stop_returns [OF PT u(4,5)] by blast
  let ?pl = "pl\<lparr>pl_queued := -1, pl_playing := False\<rparr>"
  show ?thesis
  proof (cases "q_random (pl_queue pl)")
    case False
    have "playlist_ok rest ?pl pc1" using u pc1 by (simp add: playlist_ok_def)
    then show ?thesis
      using that [of ?pl pc1] True False pc1(1)
      by (simp add: playlist_stop_def settled_def current_pos_def)
  next
    case rnd: True
    have pre: "queue_wf (pl_queue ?pl)" "q_random (pl_queue ?pl)" "0 \<le> pl_current ?pl"
      "pl_current ?pl < int (q_length (pl_queue ?pl))"
      using u rnd c by simp_all
    obtain q ord where s: "queue_shuffle_order G (pl_queue ?pl) = Some q"
      "order_to_position ?pl (pl_current ?pl) = Some (q_order (pl_queue ?pl) ! nat (pl_current ?pl))"
      "queue_position_to_order q (q_order (pl_queue ?pl) ! nat (pl_current ?pl)) = Some ord"
      "reordered (pl_queue ?pl) q" "ord < q_length q" "settled ?pl (?pl\<lparr>pl_queue := q, pl_current := int ord\<rparr>)"
      using shuffle_keep_position [OF G pre] .
    let ?pl' = "?pl\<lparr>pl_queue := q, pl_current := int ord\<rparr>"
    have "queue_wf q" "songs_ok q" "q_random q"
      using s(4) u rnd by (auto simp: reordered_wf songs_ok_reordered reordered_sel(9))
    then have "playlist_ok rest ?pl' pc1"
      using pc1 s(5) by (simp add: playlist_ok_def sequential_ok_def)
    moreover have "playlist_stop G PT pl pc = Some (?pl', pc1)"
      using True rnd pc1(1) s(1-3) by (simp add: playlist_stop_def)
    moreover have "settled (pl\<lparr>pl_playing := False\<rparr>) ?pl'"
      using s(6) by (simp add: settled_def current_pos_def)
    ultimately show ?thesis using that rnd c by simp
  qed
qed

section \<open>Play, next, previous\<close>

lemma playlist_ok_updatable:
  assumes "playlist_ok rest pl pc" obtains prev where "updatable rest pl pc prev"
  using get_queued_ok [OF assms] by metis

lemma swap_order_ok:
  assumes up: "updatable rest pl pc prev" and rnd: "q_random (pl_queue pl)"
    and i: "i < q_length (pl_queue pl)" "j < q_length (pl_queue pl)"
  defines "q1 \<equiv> (pl_queue pl)\<lparr>q_order := swap_at i j (q_order (pl_queue pl))\<rparr>"
  shows "queue_swap_order (pl_queue pl) i j = Some q1" "queue_wf q1" "songs_ok q1" "sequential_ok q1"
    "queue_view q1 = queue_view (pl_queue pl)" "q_length q1 = q_length (pl_queue pl)"
    "q_order q1 ! j = q_order (pl_queue pl) ! i"
proof -
  note u = updatableD [OF up]
  show "queue_swap_order (pl_queue pl) i j = Some q1"
    using queue_swap_order_eq [OF u(1) i] by (simp add: q1_def)
  have r: "reordered (pl_queue pl) q1"
    using swap_order_reordered [OF u(1) i, of "q_rand (pl_queue pl)"] by (simp add: q1_def)
  then show "queue_wf q1" "songs_ok q1" "queue_view q1 = queue_view (pl_queue pl)"
    using u by (auto simp: reordered_wf songs_ok_reordered reordered_view)
  show "sequential_ok q1" "q_length q1 = q_length (pl_queue pl)" using rnd by (simp_all add: sequential_ok_def q1_def)
  show "q_order q1 ! j = q_order (pl_queue pl) ! i" using i u(1) by (simp add: q1_def nth_swap_at)
qed

text \<open>Selecting a song: afterwards it plays, at the position asked for.\<close>

lemma play_selected_returns:
  assumes PT: "live_player PT rest" and up: "updatable rest pl pc prev"
    and i: "i < q_length (pl_queue pl)" "0 \<le> song \<longrightarrow> song = int i"
  obtains pl' pc' where "play_selected PT pl pc song i = Some (MPD_SUCCESS, pl', pc')"
    "playlist_ok rest pl' pc'" "pl_playing pl'" "queue_view (pl_queue pl') = queue_view (pl_queue pl)"
    "current_pos pl' = Some (if 0 \<le> song then i else q_order (pl_queue pl) ! i)"
proof (cases "q_random (pl_queue pl)")
  case False
  note u = updatableD [OF up]
  have "updatable rest (pl\<lparr>pl_stop_on_error := False, pl_error_count := 0\<rparr>) pc prev"
    using up by (simp add: updatable_def)
  from play_order_ok [OF PT this, of "int i"] i(1) obtain pc' where
    "playlist_play_order PT (pl\<lparr>pl_stop_on_error := False, pl_error_count := 0\<rparr>) pc (int i) =
       Some (pl\<lparr>pl_stop_on_error := False, pl_error_count := 0, pl_playing := True, pl_queued := -1,
         pl_current := int i\<rparr>, pc')"
    "playlist_ok rest (pl\<lparr>pl_stop_on_error := False, pl_error_count := 0, pl_playing := True, pl_queued := -1,
         pl_current := int i\<rparr>) pc'" by auto
  then show ?thesis
    using that False sequential_order [OF u(1,3) False i(1)]
    by (simp add: play_selected_def current_pos_def)
next
  case True
  note u = updatableD [OF up]
  obtain k where k: "(if 0 \<le> song then queue_position_to_order (pl_queue pl) (nat song) else Some i) = Some k"
    "k < q_length (pl_queue pl)" "q_order (pl_queue pl) ! k = (if 0 \<le> song then i else q_order (pl_queue pl) ! i)"
  proof (cases "0 \<le> song")
    case True
    show ?thesis using queue_position_to_order_ex [OF u(1) i(1)] that True i(2) by (metis nat_int)
  qed (use that [of i] i(1) in simp)
  define pl1 where "pl1 = (if \<not> pl_playing pl then pl\<lparr>pl_current := 0\<rparr> else pl)"
  have up1: "updatable rest pl1 pc prev" "q_random (pl_queue pl1)" and q1: "pl_queue pl1 = pl_queue pl"
    and c1: "0 \<le> pl_current pl1" "pl_current pl1 < int (q_length (pl_queue pl1))"
    using up True i(1) by (auto simp: pl1_def updatable_def)
  note j = to_unsigned_order [OF updatableD(1) [OF up1(1)] c1]
  have k1: "k < q_length (pl_queue pl1)" using k(2) q1 by simp
  let ?j = "nat (pl_current pl1)"
  let ?q2 = "(pl_queue pl1)\<lparr>q_order := swap_at k ?j (q_order (pl_queue pl1))\<rparr>"
  note sw = swap_order_ok [OF up1 k1 j(2)]
  let ?pl2 = "pl1\<lparr>pl_queue := ?q2, pl_stop_on_error := False, pl_error_count := 0\<rparr>"
  have up2: "updatable rest ?pl2 pc prev"
    using updatable_edit [OF up1(1) sw(2-4), of "pl_current pl1"] c1 sw(6) by (simp add: updatable_def)
  have jr: "0 \<le> int ?j" "int ?j < int (q_length (pl_queue ?pl2))" using j(2) c1 by simp_all
  obtain pc' where
    p: "playlist_play_order PT ?pl2 pc (int ?j) =
       Some (?pl2\<lparr>pl_playing := True, pl_queued := -1, pl_current := int ?j\<rparr>, pc')"
    "playlist_ok rest (?pl2\<lparr>pl_playing := True, pl_queued := -1, pl_current := int ?j\<rparr>) pc'"
    using play_order_ok [OF PT up2 jr] .
  have "play_selected PT pl pc song i =
      Some (MPD_SUCCESS, ?pl2\<lparr>pl_playing := True, pl_queued := -1, pl_current := int ?j\<rparr>, pc')"
    using True k(1) sw(1) p(1) j(1) q1 by (simp add: play_selected_def flip: pl1_def)
  then show ?thesis
    using that p(2) sw(5,7) k(3) q1 c1(1) by (simp add: current_pos_def cong: if_cong)
qed

lemma playlist_play_returns:
  assumes PT: "live_player PT rest" and ok: "playlist_ok rest pl pc"
    and song: "-1 \<le> song" "song < int (q_length (pl_queue pl))"
  obtains pl' pc' where "playlist_play PT pl pc song = Some (MPD_SUCCESS, pl', pc')"
    "playlist_ok rest pl' pc'" "queue_view (pl_queue pl') = queue_view (pl_queue pl)"
    "pl_playing pl' \<longleftrightarrow> 0 < q_length (pl_queue pl)"
    "0 \<le> song \<longrightarrow> current_pos pl' = Some (nat song)"
proof -
  let ?pc = "pc_clear_error pc"
  obtain prev where "updatable rest pl pc prev" using playlist_ok_updatable [OF ok] .
  then have up: "updatable rest pl ?pc prev"
    by (simp add: updatable_def pc_clear_error_ok rest_clear_error [OF PT])
  have ok1: "playlist_ok rest pl ?pc"
    using ok by (simp add: playlist_ok_def pc_clear_error_ok rest_clear_error [OF PT])
  note u = updatableD [OF up]
  show ?thesis
  proof (cases "song = -1")
    case True
    show ?thesis
    proof (cases "q_length (pl_queue pl) = 0 \<or> pl_playing pl")
      case now: True
      obtain pc2 where pc2: "pc_set_pause PT ?pc False = Some pc2" "pc_ok pc2" "rest pc2"
        "pc_next_song pc2 = None \<or> pc_next_song pc2 = pc_next_song ?pc"
        using player_thread.pc_set_pause_returns [OF PT u(4,5)] by blast
      then have ok2: "playlist_ok rest pl pc2" using ok1 by (auto simp: playlist_ok_def)
      have empty: "\<not> pl_playing pl" if "q_length (pl_queue pl) = 0"
        using ok that by (auto simp: playlist_ok_def)
      show ?thesis
      proof (cases "q_length (pl_queue pl) = 0")
        case True
        then show ?thesis
          using that [of pl ?pc] \<open>song = -1\<close> ok1 empty by (simp add: playlist_play_def queue_is_empty_def)
      next
        case False
        then show ?thesis
          using that [of pl pc2] \<open>song = -1\<close> now pc2(1) ok2 by (simp add: playlist_play_def queue_is_empty_def)
      qed
    next
      case False
      define i where "i = (if 0 \<le> pl_current pl then nat (pl_current pl) else 0)"
      have i: "i < q_length (pl_queue pl)" "0 \<le> (-1 :: int) \<longrightarrow> -1 = int i"
        using u(6) False by (auto simp: i_def nat_less_iff)
      obtain pl' pc' where "play_selected PT pl ?pc (-1) i = Some (MPD_SUCCESS, pl', pc')"
        "playlist_ok rest pl' pc'" "pl_playing pl'" "queue_view (pl_queue pl') = queue_view (pl_queue pl)"
        using play_selected_returns [OF PT up i] by blast
      then show ?thesis
        using that True False by (simp add: playlist_play_def queue_is_empty_def i_def)
    qed
  next
    case False
    then have s: "0 \<le> song" using song(1) by simp
    note us = to_unsigned_order [OF u(1) s song(2)]
    have i: "0 \<le> song \<longrightarrow> song = int (nat song)" by simp
    obtain pl' pc' where "play_selected PT pl ?pc song (nat song) = Some (MPD_SUCCESS, pl', pc')"
      "playlist_ok rest pl' pc'" "pl_playing pl'" "queue_view (pl_queue pl') = queue_view (pl_queue pl)"
      "current_pos pl' = Some (if 0 \<le> song then nat song else q_order (pl_queue pl) ! nat song)"
      using play_selected_returns [OF PT up us(2) i] .
    then show ?thesis
      using that False s us by (simp add: playlist_play_def queue_valid_position_def)
  qed
qed

lemma playlist_previous_returns:
  assumes PT: "live_player PT rest" and ok: "playlist_ok rest pl pc"
  obtains pl' pc' where "playlist_previous PT pl pc = Some (pl', pc')" "playlist_ok rest pl' pc'"
    "pl_queue pl' = pl_queue pl" "pl_playing pl' = pl_playing pl"
    "pl_playing pl \<longrightarrow> pl_current pl' = (if 0 < pl_current pl then pl_current pl - 1
       else if q_repeat (pl_queue pl) then int (q_length (pl_queue pl)) - 1 else pl_current pl)"
proof (cases "pl_playing pl")
  case False
  then show ?thesis using that [of pl pc] ok by (simp add: playlist_previous_def)
next
  case True
  obtain prev where up: "updatable rest pl pc prev" using playlist_ok_updatable [OF ok] .
  note u = updatableD [OF up]
  define n where "n = (if 0 < pl_current pl then pl_current pl - 1
    else if q_repeat (pl_queue pl) then int (q_length (pl_queue pl)) - 1 else pl_current pl)"
  have c: "0 \<le> pl_current pl" using True ok by (simp add: playlist_ok_def)
  have n: "0 \<le> n" "n < int (q_length (pl_queue pl))" "0 < q_length (pl_queue pl)"
    using c u(6) by (auto simp: n_def)
  obtain pc' where
    "playlist_play_order PT pl pc n = Some (pl\<lparr>pl_playing := True, pl_queued := -1, pl_current := n\<rparr>, pc')"
    "playlist_ok rest (pl\<lparr>pl_playing := True, pl_queued := -1, pl_current := n\<rparr>) pc'"
    using play_order_ok [OF PT up n(1,2)] .
  then show ?thesis
    using that True n(3) u(1) by (auto simp: playlist_previous_def n_def split: if_splits)
qed

end
