(* ===== verification/Playlist_Delete.thy ===== *)
theory Playlist_Delete
  imports Playlist_Play
begin

text \<open>
  Removing songs.  The current song stays current when another one is removed; when the current song
  itself is removed in sequential mode, playback goes on with the next song, or stops.
\<close>

section \<open>The removal\<close>

lemma sequential_deleted:
  assumes "queue_wf q" "sequential_ok q" "ord < q_length q" "position = q_order q ! ord"
  shows "sequential_ok (deleted q position ord)"
proof (cases "q_random q")
  case True
  then show ?thesis by (simp add: sequential_ok_def)
next
  case False
  have po: "play_order q = [0..<q_length q]" using assms(2) False by (simp add: sequential_ok_def)
  have p: "position = ord" using sequential_order [OF assms(1,2) False assms(3)] assms(4) by simp
  have "map (dec_above ord) (remove_nth ord [0..<q_length q]) = [0..<q_length q - 1]"
    using assms(3)
    by (intro list_eq_nthI [where n = "q_length q - 1"]) (auto simp: nth_remove_nth dec_above_def)
  then show ?thesis
    using play_order_deleted [OF assms(1,3)] po p by (simp add: sequential_ok_def)
qed

definition after_removal :: "nat \<Rightarrow> int \<Rightarrow> int" where
  "after_removal ord c = (if int ord < c then c - 1 else c)"

lemma remove_edit:
  assumes up: "updatable rest pl pc prev" and ord: "ord < q_length (pl_queue pl)"
    and position: "position = q_order (pl_queue pl) ! ord" and other: "pl_current pl \<noteq> int ord"
  defines "pl1 \<equiv> pl\<lparr>pl_queue := deleted (pl_queue pl) position ord,
    pl_current := after_removal ord (pl_current pl)\<rparr>"
  shows "updatable rest pl1 pc prev" "current_id pl1 = current_id pl"
    "queue_view (pl_queue pl1) = remove_nth position (queue_view (pl_queue pl))"
    "current_pos pl1 = map_option (dec_above position) (current_pos pl)"
proof -
  let ?q = "pl_queue pl" and ?q1 = "deleted (pl_queue pl) position ord" and ?c = "pl_current pl"
  note u = updatableD [OF up]
  have wf1: "queue_wf ?q1" by (rule deleted_wf [OF u(1) ord position])
  have pn: "position < q_length ?q" using position u(1) ord by (simp add: wf_order_less)
  have view1: "queue_view ?q1 = remove_nth position (queue_view ?q)" by (rule queue_view_deleted [OF u(1) pn wf1])
  then show "queue_view (pl_queue pl1) = remove_nth position (queue_view ?q)" by (simp add: pl1_def)
  have songs1: "songs_ok ?q1"
    using u(2) set_take_subset [of position "queue_view ?q"] set_drop_subset [of "Suc position" "queue_view ?q"]
    by (intro songs_ok_subset [of ?q1 ?q]) (auto simp: view1 remove_nth_def)
  have seq1: "sequential_ok ?q1" by (rule sequential_deleted [OF u(1,3) ord position])
  have len1: "q_length ?q1 = q_length ?q - 1" by simp
  have c1: "-1 \<le> after_removal ord ?c" "after_removal ord ?c < int (q_length ?q1)"
    "0 \<le> after_removal ord ?c \<longleftrightarrow> 0 \<le> ?c"
    using u(6,7) other ord len1 by (auto simp: after_removal_def)
  show up1: "updatable rest pl1 pc prev"
    using updatable_edit [OF up wf1 songs1 seq1 c1] by (simp add: pl1_def)
  show "current_pos pl1 = map_option (dec_above position) (current_pos pl)"
  proof (cases "0 \<le> ?c")
    case True
    have i: "nat (after_removal ord ?c) < q_length ?q1" using c1 True by (simp add: nat_less_iff)
    then have "q_order ?q1 ! nat (after_removal ord ?c) = play_order ?q1 ! nat (after_removal ord ?c)"
      using wf1 by (simp add: play_order_def)
    also have "\<dots> = dec_above position (remove_nth ord (play_order ?q) ! nat (after_removal ord ?c))"
      using play_order_deleted [OF u(1) ord, of position] ord u(1) i by simp
    also have "remove_nth ord (play_order ?q) ! nat (after_removal ord ?c) = play_order ?q ! nat ?c"
      using True u(1,6) other ord
      by (auto simp: after_removal_def nth_remove_nth nat_less_iff Suc_nat_eq_nat_zadd1)
    also have "\<dots> = q_order ?q ! nat ?c"
      using True u(1,6) by (simp add: play_order_def nat_less_iff)
    finally show ?thesis using True c1(3) by (simp add: pl1_def current_pos_def)
  next
    case False
    then show ?thesis using c1(3) by (simp add: pl1_def current_pos_def)
  qed
  show "current_id pl1 = current_id pl"
  proof (cases "0 \<le> ?c")
    case True
    have lids: "length (play_ids ?q) = q_length ?q" using u(1) by (simp add: play_ids_def)
    have "play_ids ?q1 ! nat (after_removal ord ?c) = play_ids ?q ! nat ?c"
      using play_ids_deleted [OF u(1) ord position] True u(6) other ord lids
      by (auto simp: after_removal_def nth_remove_nth nat_less_iff Suc_nat_eq_nat_zadd1)
    then show ?thesis
      using current_id_play_ids [of pl1] current_id_play_ids [of pl] wf1 u(1,6) c1 True by (simp add: pl1_def)
  next
    case False
    then show ?thesis using c1(3) by (simp add: pl1_def current_id_def current_pos_def)
  qed
qed

section \<open>What happens to playback\<close>

lemma playlist_ok_unqueued: "playlist_ok rest pl pc \<Longrightarrow> pl_queued pl = -1 \<Longrightarrow> updatable rest pl pc None"
  by (auto simp: playlist_ok_def updatable_def)

lemma leave_stopping:
  assumes PT: "live_player PT rest" and up: "updatable rest pl pc prev"
    and p: "pl_playing pl" "\<not> q_random (pl_queue pl)"
    and c: "-1 \<le> c" "c < int (q_length (pl_queue pl))"
  obtains pc2 where "do {
      (pl, pc) \<leftarrow> playlist_stop G PT (pl\<lparr>pl_current := c\<rparr>) pc;
      pc \<leftarrow> pc_stop PT pc;
      Some (pl\<lparr>pl_playing := False\<rparr>, pc)
    } = Some (pl\<lparr>pl_current := c, pl_queued := -1, pl_playing := False\<rparr>, pc2)"
    "updatable rest (pl\<lparr>pl_current := c, pl_queued := -1, pl_playing := False\<rparr>) pc2 None"
proof -
  note u = updatableD [OF up]
  obtain pc1 where 1: "pc_stop PT pc = Some pc1" "pc_ok pc1" "rest pc1"
    using player_thread.pc_stop_returns [OF PT u(4,5)] by blast
  obtain pc2 where 2: "pc_stop PT pc1 = Some pc2" "pc_ok pc2" "rest pc2" "pc_next_song pc2 = None"
    using player_thread.pc_stop_returns [OF PT 1(2,3)] by blast
  show ?thesis
    using 1 2 p c u by (intro that [of pc2]) (simp_all add: playlist_stop_def updatable_def)
qed

lemma leave_deleted_song_returns:
  assumes PT: "live_player PT rest" and up: "updatable rest pl pc prev"
    and ord: "ord < q_length (pl_queue pl)"
    and seq: "pl_playing pl \<and> pl_current pl = int ord \<longrightarrow> \<not> q_random (pl_queue pl)"
  obtains prev' pl1 pc1 where "leave_deleted_song G PT pl pc ord prev = Some (prev', pl1, pc1)"
    "updatable rest pl1 pc1 prev'" "pl_queue pl1 = pl_queue pl" "pl_current pl1 \<noteq> int ord"
    "pl_current pl \<noteq> int ord \<longrightarrow> pl1 = pl"
proof (cases "pl_playing pl \<and> pl_current pl = int ord")
  case False
  show ?thesis
  proof (cases "pl_current pl = int ord")
    case True
    have "updatable rest (pl\<lparr>pl_current := -1\<rparr>) pc prev"
      using up False True by (simp add: updatable_def)
    then show ?thesis using that [of prev "pl\<lparr>pl_current := -1\<rparr>" pc] False True
      by (simp add: leave_deleted_song_def)
  next
    case other: False
    then show ?thesis using that [of prev pl pc] up by (simp add: leave_deleted_song_def)
  qed
next
  case True
  then have p: "pl_playing pl" "pl_current pl = int ord" "\<not> q_random (pl_queue pl)" using seq by simp_all
  obtain n where n: "queue_next_order (pl_queue pl) ord = Some n" "-1 \<le> n" "n < int (q_length (pl_queue pl))"
    using queue_next_order_range [OF ord] .
  define c where "c = (if n = int ord then -1 else n)"
  have c: "-1 \<le> c" "c < int (q_length (pl_queue pl))" "c \<noteq> int ord" using n by (simp_all add: c_def)
  have prog: "leave_deleted_song G PT pl pc ord prev = do {
      (pl, pc) \<leftarrow> (if 0 \<le> c \<and> pc_get_state pc \<noteq> PLAYER_STATE_PAUSE
        then playlist_play_order PT (pl\<lparr>pl_current := c\<rparr>) pc c
        else do {
          (pl, pc) \<leftarrow> playlist_stop G PT (pl\<lparr>pl_current := c\<rparr>) pc;
          pc \<leftarrow> pc_stop PT pc;
          Some (pl\<lparr>pl_playing := False\<rparr>, pc)
        });
      Some (None, pl, pc)
    }"
    using p n(1) by (simp add: leave_deleted_song_def c_def cong: if_cong)
  show ?thesis
  proof (cases "0 \<le> c \<and> pc_get_state pc \<noteq> PLAYER_STATE_PAUSE")
    case True
    have up1: "updatable rest (pl\<lparr>pl_current := c\<rparr>) pc prev"
      using up True c p(1) by (simp add: updatable_def)
    have cr: "0 \<le> c" "c < int (q_length (pl_queue (pl\<lparr>pl_current := c\<rparr>)))" using True c by simp_all
    obtain pc1 where 1: "playlist_play_order PT (pl\<lparr>pl_current := c\<rparr>) pc c =
        Some (pl\<lparr>pl_current := c, pl_playing := True, pl_queued := -1, pl_current := c\<rparr>, pc1)"
      "playlist_ok rest (pl\<lparr>pl_current := c, pl_playing := True, pl_queued := -1, pl_current := c\<rparr>) pc1"
      using play_order_ok [OF PT up1 cr] .
    show ?thesis
      using 1 True p c playlist_ok_unqueued [OF 1(2)]
      by (intro that [of None "pl\<lparr>pl_current := c, pl_playing := True, pl_queued := -1, pl_current := c\<rparr>" pc1])
        (simp_all add: prog)
  next
    case False
    obtain pc2 where 2: "do {
        (pl, pc) \<leftarrow> playlist_stop G PT (pl\<lparr>pl_current := c\<rparr>) pc;
        pc \<leftarrow> pc_stop PT pc;
        Some (pl\<lparr>pl_playing := False\<rparr>, pc)
      } = Some (pl\<lparr>pl_current := c, pl_queued := -1, pl_playing := False\<rparr>, pc2)"
      "updatable rest (pl\<lparr>pl_current := c, pl_queued := -1, pl_playing := False\<rparr>) pc2 None"
      using leave_stopping [OF PT up p(1,3) c(1,2)] .
    have "leave_deleted_song G PT pl pc ord prev =
        Some (None, pl\<lparr>pl_current := c, pl_queued := -1, pl_playing := False\<rparr>, pc2)"
      by (simp only: prog if_not_P [OF False] 2(1) Option.bind.simps prod.case)
    then show ?thesis
      using 2(2) p c by (intro that [of None "pl\<lparr>pl_current := c, pl_queued := -1, pl_playing := False\<rparr>" pc2]) simp_all
  qed
qed

section \<open>Deleting\<close>

lemma current_pos_order:
  assumes "updatable rest pl pc prev" "ord < q_length (pl_queue pl)"
  shows "current_pos pl = Some (q_order (pl_queue pl) ! ord) \<longleftrightarrow> pl_current pl = int ord"
proof -
  note u = updatableD [OF assms(1)]
  have "q_order (pl_queue pl) ! nat (pl_current pl) = q_order (pl_queue pl) ! ord \<longleftrightarrow> pl_current pl = int ord"
    if "0 \<le> pl_current pl"
    using wf_order_inj [OF u(1) _ assms(2), of "nat (pl_current pl)"] that u(6) by (auto simp: nat_less_iff)
  then show ?thesis by (auto simp: current_pos_def)
qed

lemma playlist_delete_internal_returns:
  assumes PT: "live_player PT rest" and up: "updatable rest pl pc prev"
    and song: "song < q_length (pl_queue pl)"
    and seq: "pl_playing pl \<and> current_pos pl = Some song \<longrightarrow> \<not> q_random (pl_queue pl)"
  obtains prev' pl1 pc1 where "playlist_delete_internal G PT pl pc song prev = Some (prev', pl1, pc1)"
    "updatable rest pl1 pc1 prev'" "queue_view (pl_queue pl1) = remove_nth song (queue_view (pl_queue pl))"
    "q_random (pl_queue pl1) = q_random (pl_queue pl)"
    "current_pos pl \<noteq> Some song \<longrightarrow> current_pos pl1 = map_option (dec_above song) (current_pos pl) \<and>
       current_id pl1 = current_id pl \<and> pl_playing pl1 = pl_playing pl"
proof -
  note u = updatableD [OF up]
  obtain ord where ord: "ord < q_length (pl_queue pl)" "q_order (pl_queue pl) ! ord = song"
    "queue_position_to_order (pl_queue pl) song = Some ord"
    using queue_position_to_order_ex [OF u(1) song] by blast
  have cur: "current_pos pl = Some song \<longleftrightarrow> pl_current pl = int ord"
    using current_pos_order [OF up ord(1)] ord(2) by simp
  then have seq': "pl_playing pl \<and> pl_current pl = int ord \<longrightarrow> \<not> q_random (pl_queue pl)"
    using seq by simp
  obtain prev' pl1 pc1 where 1: "leave_deleted_song G PT pl pc ord prev = Some (prev', pl1, pc1)"
    "updatable rest pl1 pc1 prev'" "pl_queue pl1 = pl_queue pl" "pl_current pl1 \<noteq> int ord"
    "pl_current pl \<noteq> int ord \<longrightarrow> pl1 = pl"
    using leave_deleted_song_returns [OF PT up ord(1) seq'] .
  define s where "s = qi_song (q_items (pl_queue pl) ! song)"
  define pc2 where "pc2 = (if \<not> song_in_database s then pc_song_deleted pc1 s else pc1)"
  have up2: "updatable rest pl1 pc2 prev'"
    using 1(2) by (simp add: pc2_def updatable_def rest_song_deleted [OF PT] pc_song_deleted_ok)
  have pre: "ord < q_length (pl_queue pl1)" "song = q_order (pl_queue pl1) ! ord" using 1(3) ord by simp_all
  note r = remove_edit [OF up2 pre 1(4)]
  let ?pl = "pl1\<lparr>pl_queue := deleted (pl_queue pl1) song ord, pl_current := after_removal ord (pl_current pl1)\<rparr>"
  have "playlist_delete_internal G PT pl pc song prev = Some (prev', ?pl, pc2)"
    using 1(1,3) u(1) ord song queue_delete_eq [OF u(1) ord(1) ord(2) [symmetric]]
    by (simp add: playlist_delete_internal_def after_removal_def pc2_def s_def)
  then show ?thesis
    using r 1(3,5) cur by (intro that [of prev' ?pl pc2]) auto
qed

lemma playlist_delete_returns:
  assumes PT: "live_player PT rest" and G: "glib_ok G" and ok: "playlist_ok rest pl pc"
    and song: "song < q_length (pl_queue pl)"
    and seq: "pl_playing pl \<and> current_pos pl = Some song \<longrightarrow> \<not> q_random (pl_queue pl)"
  obtains pl' pc' where "playlist_delete G PT pl pc song = Some (MPD_SUCCESS, pl', pc')"
    "playlist_ok rest pl' pc'" "queue_view (pl_queue pl') = remove_nth song (queue_view (pl_queue pl))"
    "q_random (pl_queue pl') = q_random (pl_queue pl)"
    "current_pos pl \<noteq> Some song \<longrightarrow> current_id pl' = current_id pl \<and> pl_playing pl' = pl_playing pl"
proof -
  obtain prev where prev: "playlist_get_queued_song pl = Some prev" "updatable rest pl pc prev"
    using get_queued_ok [OF ok] .
  obtain prev' pl1 pc1 where 1: "playlist_delete_internal G PT pl pc song prev = Some (prev', pl1, pc1)"
    "updatable rest pl1 pc1 prev'" "queue_view (pl_queue pl1) = remove_nth song (queue_view (pl_queue pl))"
    "q_random (pl_queue pl1) = q_random (pl_queue pl)"
    "current_pos pl \<noteq> Some song \<longrightarrow> current_pos pl1 = map_option (dec_above song) (current_pos pl) \<and>
       current_id pl1 = current_id pl \<and> pl_playing pl1 = pl_playing pl"
    using playlist_delete_internal_returns [OF PT prev(2) song seq] .
  note u1 = updatableD [OF 1(2)]
  obtain pl2 pc2 pl' pc' where 2: "playlist_increment_version pl1 pc1 = Some (pl2, pc2)"
    "playlist_update_queued_song G PT pl2 pc2 prev' = Some (pl', pc')"
    "playlist_ok rest pl' pc'" "finished pl1 pl'"
    using edit_finish [OF PT G 1(2)] .
  note f = finishedD [OF 2(4) u1(1)] finished_current_id [OF 2(4) u1(1,6)]
  have "playlist_delete G PT pl pc song = Some (MPD_SUCCESS, pl', pc')"
    using updatableD(1) [OF prev(2)] song prev(1) 1(1) 2(1,2) by (simp add: playlist_delete_def)
  then show ?thesis using that 2(3) 1 f by simp
qed

text \<open>
  A range is deleted from its end.  \<open>outside\<close>: the current song, if there is one, is not in the range.
\<close>

definition outside :: "nat \<Rightarrow> nat \<Rightarrow> 'g playlist \<Rightarrow> bool" where
  "outside start end pl \<longleftrightarrow> (\<forall>p. current_pos pl = Some p \<longrightarrow> p < start \<or> end \<le> p)"

lemma outside_step:
  assumes "outside start (Suc i) pl" "start \<le> i"
    "current_pos pl1 = map_option (dec_above i) (current_pos pl)"
  shows "outside start i pl1" "current_pos pl \<noteq> Some i"
  using assms by (auto simp: outside_def dec_above_def)

lemma remove_nth_range:
  assumes "i < n" "n \<le> length xs"
  shows "remove_nth i (take (Suc i) xs @ drop n xs) = take i xs @ drop n xs"
  using assms by (simp add: remove_nth_def min_def)

lemma delete_range_loop:
  fixes pl :: "'g playlist" and pc :: "'t player_control"
  assumes PT: "live_player PT rest" and up: "updatable rest pl pc prev"
    and r: "start \<le> end" "end \<le> q_length (pl_queue pl)"
    and seq: "\<not> q_random (pl_queue pl) \<or> outside start end pl"
  obtains prev' pl1 pc1 where
    "for_each (\<lambda>i (queued, pl, pc). playlist_delete_internal G PT pl pc i queued) (rev [start..<end])
       (prev, pl, pc) = Some (prev', pl1, pc1)"
    "updatable rest pl1 pc1 prev'"
    "queue_view (pl_queue pl1) = take start (queue_view (pl_queue pl)) @ drop end (queue_view (pl_queue pl))"
    "outside start end pl \<longrightarrow> current_id pl1 = current_id pl \<and> pl_playing pl1 = pl_playing pl"
proof -
  let ?v = "queue_view (pl_queue pl)"
  note u = updatableD [OF up]
  define Inv where "Inv i st \<longleftrightarrow> (case st of (queued, pl1 :: 'g playlist, pc1 :: 't player_control) \<Rightarrow> updatable rest pl1 pc1 queued \<and>
      queue_view (pl_queue pl1) = take i ?v @ drop end ?v \<and> q_random (pl_queue pl1) = q_random (pl_queue pl) \<and>
      (outside start end pl \<longrightarrow> outside start i pl1 \<and> current_id pl1 = current_id pl \<and>
         pl_playing pl1 = pl_playing pl))" for i st
  have "\<exists>st. for_each (\<lambda>i (queued, pl, pc). playlist_delete_internal G PT pl pc i queued) (rev [start..<end])
      (prev, pl, pc) = Some st \<and> Inv start st"
  proof (rule for_each_downt [OF r(1)])
    show "Inv end (prev, pl, pc)" using up by (simp add: Inv_def)
  next
    fix i st assume i: "start \<le> i" "i < end" and inv: "Inv (Suc i) st"
    obtain queued pl1 pc1 where st: "st = (queued, pl1, pc1)" by (cases st)
    have up1: "updatable rest pl1 pc1 queued" and view: "queue_view (pl_queue pl1) = take (Suc i) ?v @ drop end ?v"
      and rnd: "q_random (pl_queue pl1) = q_random (pl_queue pl)"
      and out: "outside start end pl \<Longrightarrow> outside start (Suc i) pl1"
      "outside start end pl \<Longrightarrow> current_id pl1 = current_id pl" "outside start end pl \<Longrightarrow> pl_playing pl1 = pl_playing pl"
      using inv by (simp_all add: Inv_def st)
    have len: "length ?v = q_length (pl_queue pl)" using u(1) by (simp add: length_queue_view)
    have il: "i < q_length (pl_queue pl1)"
      using arg_cong [OF view, of length] i r(2) len updatableD(1) [OF up1] by (simp add: length_queue_view)
    have s1: "pl_playing pl1 \<and> current_pos pl1 = Some i \<longrightarrow> \<not> q_random (pl_queue pl1)"
      using seq rnd out(1) i by (auto simp: outside_def)
    obtain queued2 pl2 pc2 where 2: "playlist_delete_internal G PT pl1 pc1 i queued = Some (queued2, pl2, pc2)"
      "updatable rest pl2 pc2 queued2" "queue_view (pl_queue pl2) = remove_nth i (queue_view (pl_queue pl1))"
      "q_random (pl_queue pl2) = q_random (pl_queue pl1)"
      "current_pos pl1 \<noteq> Some i \<longrightarrow> current_pos pl2 = map_option (dec_above i) (current_pos pl1) \<and>
         current_id pl2 = current_id pl1 \<and> pl_playing pl2 = pl_playing pl1"
      using playlist_delete_internal_returns [OF PT up1 il s1] .
    have view2: "queue_view (pl_queue pl2) = take i ?v @ drop end ?v"
      using 2(3) view remove_nth_range [OF i(2), of ?v] r(2) len by simp
    have out2: "outside start i pl2 \<and> current_id pl2 = current_id pl \<and> pl_playing pl2 = pl_playing pl"
      if o: "outside start end pl"
    proof -
      have "current_pos pl1 \<noteq> Some i" using out(1) [OF o] i(1) by (auto simp: outside_def)
      then show ?thesis using 2(5) outside_step(1) [OF out(1) [OF o] i(1), of pl2] out(2,3) [OF o] by simp
    qed
    show "\<exists>st'. (case st of (queued, pl, pc) \<Rightarrow> playlist_delete_internal G PT pl pc i queued) = Some st' \<and> Inv i st'"
      using 2(1,2,4) view2 rnd out2 by (simp add: st Inv_def)
  qed
  then obtain prev' pl1 pc1 where
    1: "for_each (\<lambda>i (queued, pl, pc). playlist_delete_internal G PT pl pc i queued) (rev [start..<end])
       (prev, pl, pc) = Some (prev', pl1, pc1)" "Inv start (prev', pl1, pc1)"
    by auto
  show ?thesis using 1(2) by (intro that [OF 1(1)]) (simp_all add: Inv_def)
qed

lemma playlist_delete_range_returns:
  assumes PT: "live_player PT rest" and G: "glib_ok G" and ok: "playlist_ok rest pl pc"
    and r: "start < end" "end \<le> q_length (pl_queue pl)"
    and seq: "\<not> q_random (pl_queue pl) \<or> outside start end pl"
  obtains pl' pc' where "playlist_delete_range G PT pl pc start end = Some (MPD_SUCCESS, pl', pc')"
    "playlist_ok rest pl' pc'"
    "queue_view (pl_queue pl') = take start (queue_view (pl_queue pl)) @ drop end (queue_view (pl_queue pl))"
    "outside start end pl \<longrightarrow> current_id pl' = current_id pl \<and> pl_playing pl' = pl_playing pl"
proof -
  obtain prev where prev: "playlist_get_queued_song pl = Some prev" "updatable rest pl pc prev"
    using get_queued_ok [OF ok] .
  have r': "start \<le> end" using r(1) by simp
  obtain prev' pl1 pc1 where 1:
    "for_each (\<lambda>i (queued, pl, pc). playlist_delete_internal G PT pl pc i queued) (rev [start..<end])
       (prev, pl, pc) = Some (prev', pl1, pc1)"
    "updatable rest pl1 pc1 prev'"
    "queue_view (pl_queue pl1) = take start (queue_view (pl_queue pl)) @ drop end (queue_view (pl_queue pl))"
    "outside start end pl \<longrightarrow> current_id pl1 = current_id pl \<and> pl_playing pl1 = pl_playing pl"
    using delete_range_loop [OF PT prev(2) r' r(2) seq] .
  note u1 = updatableD [OF 1(2)]
  obtain pl2 pc2 pl' pc' where 2: "playlist_increment_version pl1 pc1 = Some (pl2, pc2)"
    "playlist_update_queued_song G PT pl2 pc2 prev' = Some (pl', pc')"
    "playlist_ok rest pl' pc'" "finished pl1 pl'"
    using edit_finish [OF PT G 1(2)] .
  note f = finishedD [OF 2(4) u1(1)] finished_current_id [OF 2(4) u1(1,6)]
  have "playlist_delete_range G PT pl pc start end = Some (MPD_SUCCESS, pl', pc')"
    using updatableD(1) [OF prev(2)] r prev(1) 1(1) 2(1,2) by (simp add: playlist_delete_range_def)
  then show ?thesis using that 2(3) 1 f by simp
qed

end
