(* ===== verification/Playlist_Control.thy ===== *)
theory Playlist_Control
  imports Playlist_Delete
begin

text \<open>
  The operations that move on: skipping, consuming, seeking, the events of the player, the options and
  clearing the playlist.
\<close>

section \<open>Consuming a song\<close>

lemma consume_order_returns:
  assumes PT: "live_player PT rest" and G: "glib_ok G" and ok: "playlist_ok rest pl pc"
    and ord: "0 \<le> ord" "ord < int (q_length (pl_queue pl))"
    and other: "q_consume (pl_queue pl) \<longrightarrow> pl_current pl \<noteq> ord"
  obtains pl' pc' where "consume_order G PT pl pc ord = Some (pl', pc')" "playlist_ok rest pl' pc'"
    "queue_view (pl_queue pl') = (if q_consume (pl_queue pl)
       then remove_nth (q_order (pl_queue pl) ! nat ord) (queue_view (pl_queue pl)) else queue_view (pl_queue pl))"
    "current_id pl' = current_id pl" "pl_playing pl' = pl_playing pl"
proof (cases "q_consume (pl_queue pl)")
  case False
  then show ?thesis using that [of pl pc] ok by (simp add: consume_order_def)
next
  case True
  obtain prev where up: "updatable rest pl pc prev" using playlist_ok_updatable [OF ok] .
  note u = updatableD [OF up]
  let ?p = "q_order (pl_queue pl) ! nat ord"
  have n: "nat ord < q_length (pl_queue pl)" using ord by linarith
  have p: "?p < q_length (pl_queue pl)" using u(1) n by (rule wf_order_less)
  have other': "current_pos pl \<noteq> Some ?p" using current_pos_order [OF up n] other True ord(1) by auto
  then have seq: "pl_playing pl \<and> current_pos pl = Some ?p \<longrightarrow> \<not> q_random (pl_queue pl)" by simp
  obtain pl' pc' where "playlist_delete G PT pl pc ?p = Some (MPD_SUCCESS, pl', pc')"
    "playlist_ok rest pl' pc'" "queue_view (pl_queue pl') = remove_nth ?p (queue_view (pl_queue pl))"
    "q_random (pl_queue pl') = q_random (pl_queue pl)"
    "current_pos pl \<noteq> Some ?p \<longrightarrow> current_id pl' = current_id pl \<and> pl_playing pl' = pl_playing pl"
    using playlist_delete_returns [OF PT G ok p seq] .
  then show ?thesis
    using that True other' order_to_position_Some [OF u(1) ord] by (simp add: consume_order_def)
qed

section \<open>Skipping to the next song\<close>

lemma next_order_0_repeat: "queue_next_order q ord = Some 0 \<Longrightarrow> q_repeat q"
  by (auto simp: queue_next_order_def split: if_splits bind_splits)

lemma next_order_consume: "queue_next_order q ord = Some n \<Longrightarrow> q_consume q \<Longrightarrow> n \<noteq> int ord"
  by (auto simp: queue_next_order_def split: if_splits bind_splits)

text \<open>The first half of \<^verbatim>\<open>playlist_next\<close>, in the playing state: the next song or the end.\<close>

lemma next_song_returns:
  assumes PT: "live_player PT rest" and G: "glib_ok G" and up: "updatable rest pl pc prev"
    and p: "pl_playing pl" and n: "queue_next_order (pl_queue pl) (nat (pl_current pl)) = Some n"
  obtains pl1 pc1 where
    "(if n < 0 then do {
        (pl, pc) \<leftarrow> playlist_stop G PT pl pc;
        Some (pl\<lparr>pl_current := -1\<rparr>, pc)
      }
      else do {
        q \<leftarrow> (if n = 0 \<and> q_random (pl_queue pl) then do {
            assert_that (q_repeat (pl_queue pl));
            queue_shuffle_order G (pl_queue pl)
          } else Some (pl_queue pl));
        playlist_play_order PT (pl\<lparr>pl_queue := q\<rparr>) pc n
      }) = Some (pl1, pc1)"
    "playlist_ok rest pl1 pc1" "reordered (pl_queue pl) (pl_queue pl1)"
    "n < 0 \<longrightarrow> \<not> pl_playing pl1 \<and> pl_current pl1 = -1" "0 \<le> n \<longrightarrow> pl_playing pl1 \<and> pl_current pl1 = n"
    "0 < n \<or> \<not> q_random (pl_queue pl) \<longrightarrow> pl_queue pl1 = pl_queue pl"
proof (cases "n < 0")
  case True
  obtain pl1 pc1 where s: "playlist_stop G PT pl pc = Some (pl1, pc1)" "playlist_ok rest pl1 pc1"
    "settled (pl\<lparr>pl_playing := False\<rparr>) pl1"
    using playlist_stop_returns [OF PT G up] by blast
  have "\<not> pl_playing pl1" "reordered (pl_queue pl) (pl_queue pl1)"
    "\<not> q_random (pl_queue pl) \<longrightarrow> pl_queue pl1 = pl_queue pl"
    using s(3) by (simp_all add: settled_def)
  moreover have "playlist_ok rest (pl1\<lparr>pl_current := -1\<rparr>) pc1"
    using s(2) \<open>\<not> pl_playing pl1\<close> by (auto simp: playlist_ok_def)
  ultimately show ?thesis
    using s(1) True by (intro that [of "pl1\<lparr>pl_current := -1\<rparr>" pc1]) simp_all
next
  case False
  note u = updatableD [OF up]
  have c: "nat (pl_current pl) < q_length (pl_queue pl)"
    using p up by (simp add: updatable_def nat_less_iff)
  have nr: "0 \<le> n" "n < int (q_length (pl_queue pl))"
    using False n c queue_next_order_range [OF c] by auto
  obtain q where q: "(if n = 0 \<and> q_random (pl_queue pl) then do {
        assert_that (q_repeat (pl_queue pl));
        queue_shuffle_order G (pl_queue pl)
      } else Some (pl_queue pl)) = Some q" "reordered (pl_queue pl) q"
    "0 < n \<or> \<not> q_random (pl_queue pl) \<longrightarrow> q = pl_queue pl"
  proof (cases "n = 0 \<and> q_random (pl_queue pl)")
    case True
    then have rnd: "q_random (pl_queue pl)" by simp
    obtain q where "queue_shuffle_order G (pl_queue pl) = Some q" "reordered (pl_queue pl) q"
      "sorted_wrt (\<ge>) (play_prios q)"
      using queue_shuffle_order_eq [OF G u(1) rnd] .
    then show ?thesis
      using that [of q] True next_order_0_repeat [of "pl_queue pl" "nat (pl_current pl)"] n by simp
  qed (use that [of "pl_queue pl"] nr in auto)
  have up1: "updatable rest (pl\<lparr>pl_queue := q\<rparr>) pc prev"
  proof -
    have "sequential_ok q"
      using u(3) q(3) reordered_sel(9) [OF q(2)] by (cases "q_random (pl_queue pl)") (simp_all add: sequential_ok_def)
    then show ?thesis
      using up u(1,2) reordered_wf [OF q(2)] songs_ok_reordered [OF q(2)] reordered_sel(2) [OF q(2)]
      by (simp add: updatable_def)
  qed
  have nq: "n < int (q_length (pl_queue (pl\<lparr>pl_queue := q\<rparr>)))" using nr(2) reordered_sel(2) [OF q(2)] by simp
  obtain pc1 where "playlist_play_order PT (pl\<lparr>pl_queue := q\<rparr>) pc n =
      Some (pl\<lparr>pl_queue := q, pl_playing := True, pl_queued := -1, pl_current := n\<rparr>, pc1)"
    "playlist_ok rest (pl\<lparr>pl_queue := q, pl_playing := True, pl_queued := -1, pl_current := n\<rparr>) pc1"
    using play_order_ok [OF PT up1 nr(1) nq] .
  then show ?thesis
    using q nr(1) False
    by (intro that [of "pl\<lparr>pl_queue := q, pl_playing := True, pl_queued := -1, pl_current := n\<rparr>" pc1])
      (simp_all del: if_split)
qed

text \<open>
  Consuming in random mode is correct except at the end of a round, where the play order is shuffled
  before the consumed song is looked up in it.
\<close>

definition same_round :: "'g playlist \<Rightarrow> bool" where
  "same_round pl \<longleftrightarrow> (q_consume (pl_queue pl) \<and> q_random (pl_queue pl) \<longrightarrow>
     pl_current pl + 1 < int (q_length (pl_queue pl)))"

lemma playlist_next_returns:
  assumes PT: "live_player PT rest" and G: "glib_ok G" and ok: "playlist_ok rest pl pc"
    and p: "pl_playing pl" and n: "queue_next_order (pl_queue pl) (nat (pl_current pl)) = Some n"
    and round: "same_round pl"
  obtains pl' pc' where "playlist_next G PT pl pc = Some (pl', pc')" "playlist_ok rest pl' pc'"
    "queue_view (pl_queue pl') = (if q_consume (pl_queue pl)
       then remove_nth (q_order (pl_queue pl) ! nat (pl_current pl)) (queue_view (pl_queue pl))
       else queue_view (pl_queue pl))"
    "pl_playing pl' \<longleftrightarrow> 0 \<le> n" "n < 0 \<longrightarrow> current_id pl' = None"
    "0 \<le> n \<and> \<not> (q_random (pl_queue pl) \<and> n = 0) \<longrightarrow> current_id pl' = Some (play_ids (pl_queue pl) ! nat n)"
proof -
  let ?pl = "pl\<lparr>pl_stop_on_error := False\<rparr>" and ?q = "pl_queue pl" and ?c = "pl_current pl"
  obtain prev where up0: "updatable rest pl pc prev" using playlist_ok_updatable [OF ok] .
  then have up: "updatable rest ?pl pc prev" by (simp add: updatable_def)
  note u = updatableD [OF up0]
  have c: "0 \<le> ?c" "?c < int (q_length ?q)" using ok p by (simp_all add: playlist_ok_def)
  note tc = to_unsigned_order [OF u(1) c]
  have p': "pl_playing ?pl" and n': "queue_next_order (pl_queue ?pl) (nat (pl_current ?pl)) = Some n"
    using p n by simp_all
  obtain pl1 pc1 where 1:
    "(if n < 0 then do {
        (pl, pc) \<leftarrow> playlist_stop G PT ?pl pc;
        Some (pl\<lparr>pl_current := -1\<rparr>, pc)
      }
      else do {
        q \<leftarrow> (if n = 0 \<and> q_random (pl_queue ?pl) then do {
            assert_that (q_repeat (pl_queue ?pl));
            queue_shuffle_order G (pl_queue ?pl)
          } else Some (pl_queue ?pl));
        playlist_play_order PT (?pl\<lparr>pl_queue := q\<rparr>) pc n
      }) = Some (pl1, pc1)"
    "playlist_ok rest pl1 pc1" "reordered (pl_queue ?pl) (pl_queue pl1)"
    "n < 0 \<longrightarrow> \<not> pl_playing pl1 \<and> pl_current pl1 = -1" "0 \<le> n \<longrightarrow> pl_playing pl1 \<and> pl_current pl1 = n"
    "0 < n \<or> \<not> q_random (pl_queue ?pl) \<longrightarrow> pl_queue pl1 = pl_queue ?pl"
    using next_song_returns [OF PT G up p' n'] .
  have r: "q_consume (pl_queue pl1) = q_consume ?q" "q_length (pl_queue pl1) = q_length ?q"
    "queue_view (pl_queue pl1) = queue_view ?q"
    using 1(3) reordered_sel [OF 1(3)] reordered_view [OF 1(3)] by simp_all
  have c1: "?c < int (q_length (pl_queue pl1))" using c(2) r(2) by simp
  have other: "q_consume (pl_queue pl1) \<longrightarrow> pl_current pl1 \<noteq> ?c"
    using next_order_consume [OF n] 1(4,5) r(1) c(1) by (cases "n < 0") auto
  obtain pl' pc' where 2: "consume_order G PT pl1 pc1 ?c = Some (pl', pc')" "playlist_ok rest pl' pc'"
    "queue_view (pl_queue pl') = (if q_consume (pl_queue pl1)
       then remove_nth (q_order (pl_queue pl1) ! nat ?c) (queue_view (pl_queue pl1)) else queue_view (pl_queue pl1))"
    "current_id pl' = current_id pl1" "pl_playing pl' = pl_playing pl1"
    using consume_order_returns [OF PT G 1(2) c(1) c1 other] .
  have same: "pl_queue pl1 = ?q" if "q_consume ?q" "q_random ?q"
  proof -
    have "Suc (nat ?c) < q_length ?q" using round that c by (simp add: same_round_def)
    then have "0 < n" using n that(1) by (auto simp: queue_next_order_def split: if_splits bind_splits)
    then show ?thesis using 1(6) by simp
  qed
  show ?thesis
  proof (rule that [of pl' pc'])
    show "playlist_next G PT pl pc = Some (pl', pc')"
      using p c u(1) tc n 1(1) 2(1)
      by (simp add: playlist_next_def queue_is_empty_def queue_valid_order_def del: if_split)
    show "queue_view (pl_queue pl') = (if q_consume ?q then remove_nth (q_order ?q ! nat ?c) (queue_view ?q)
        else queue_view ?q)"
      using 2(3) r same 1(6) by (cases "q_random ?q") auto
    show "pl_playing pl' \<longleftrightarrow> 0 \<le> n" using 2(5) 1(4,5) by (cases "n < 0") auto
    show "n < 0 \<longrightarrow> current_id pl' = None" using 2(4) 1(4) by (simp add: current_id_def current_pos_def)
    show "0 \<le> n \<and> \<not> (q_random ?q \<and> n = 0) \<longrightarrow> current_id pl' = Some (play_ids ?q ! nat n)"
    proof
      assume a: "0 \<le> n \<and> \<not> (q_random ?q \<and> n = 0)"
      then have "pl_queue pl1 = ?q" "pl_current pl1 = n" using 1(5,6) by auto
      then show "current_id pl' = Some (play_ids ?q ! nat n)"
        using 2(4) 1(2) a current_id_play_ids [of pl1] by (simp add: playlist_ok_def)
    qed
  qed (rule 2(2))
qed

section \<open>Options\<close>

lemma flags_wf [simp]:
  "queue_wf (q\<lparr>q_repeat := b\<rparr>) = queue_wf q" "queue_wf (q\<lparr>q_single := b\<rparr>) = queue_wf q"
  "queue_wf (q\<lparr>q_consume := b\<rparr>) = queue_wf q" "queue_wf (q\<lparr>q_random := b\<rparr>) = queue_wf q"
  by (simp_all add: queue_wf_defs play_order_def owns_def)

lemma flags_view [simp]:
  "queue_view (q\<lparr>q_repeat := b\<rparr>) = queue_view q" "queue_view (q\<lparr>q_single := b\<rparr>) = queue_view q"
  "queue_view (q\<lparr>q_consume := b\<rparr>) = queue_view q" "queue_view (q\<lparr>q_random := b\<rparr>) = queue_view q"
  by (simp_all add: queue_view_def)

lemma flags_songs [simp]:
  "songs_ok (q\<lparr>q_repeat := b\<rparr>) = songs_ok q" "songs_ok (q\<lparr>q_single := b\<rparr>) = songs_ok q"
  "songs_ok (q\<lparr>q_consume := b\<rparr>) = songs_ok q" "songs_ok (q\<lparr>q_random := b\<rparr>) = songs_ok q"
  by (simp_all add: songs_ok_def)

lemma flags_sequential [simp]:
  "sequential_ok (q\<lparr>q_repeat := b\<rparr>) = sequential_ok q" "sequential_ok (q\<lparr>q_single := b\<rparr>) = sequential_ok q"
  "sequential_ok (q\<lparr>q_consume := b\<rparr>) = sequential_ok q"
  by (simp_all add: sequential_ok_def play_order_def)

lemma get_queued_song_flags:
  "playlist_get_queued_song (pl\<lparr>pl_queue := (pl_queue pl)\<lparr>q_repeat := b\<rparr>\<rparr>) = playlist_get_queued_song pl"
  "playlist_get_queued_song (pl\<lparr>pl_queue := (pl_queue pl)\<lparr>q_single := b\<rparr>\<rparr>) = playlist_get_queued_song pl"
  by (simp_all add: playlist_get_queued_song_def queue_get_order_def queue_order_to_position_def
      queue_get_def [abs_def])

lemma set_border_pause_ok:
  "live_player PT rest \<Longrightarrow> updatable rest pl pc prev \<Longrightarrow> updatable rest pl (pc_set_border_pause pc b) prev"
  by (simp add: updatable_def pc_set_border_pause_def pc_ok_def rest_frame)

lemma idle_options_ok:
  assumes "live_player PT rest" "playlist_ok rest pl pc"
  obtains pc' where "pc_idle_add IDLE_OPTIONS pc = Some pc'" "playlist_ok rest pl pc'"
  using assms that by (simp add: pc_idle_add_eq playlist_ok_def rest_frame)

text \<open>What every option change promises: the queue and the current song stay as they are.\<close>

lemma option_finish:
  assumes PT: "live_player PT rest" and G: "glib_ok G" and up: "updatable rest pl1 pc1 prev"
    and same: "queue_view (pl_queue pl1) = queue_view (pl_queue pl)" "current_id pl1 = current_id pl"
      "pl_playing pl1 = pl_playing pl"
  obtains pl' pc' where
    "do { (pl, pc) \<leftarrow> playlist_update_queued_song G PT pl1 pc1 prev; pc \<leftarrow> pc_idle_add IDLE_OPTIONS pc; Some (pl, pc) }
       = Some (pl', pc')"
    "playlist_ok rest pl' pc'" "queue_view (pl_queue pl') = queue_view (pl_queue pl)"
    "current_id pl' = current_id pl" "pl_playing pl' = pl_playing pl" "reordered (pl_queue pl1) (pl_queue pl')"
proof -
  obtain pl' pc2 where 2: "playlist_update_queued_song G PT pl1 pc1 prev = Some (pl', pc2)"
    "playlist_ok rest pl' pc2" "settled pl1 pl'"
    using update_queued_song_returns [OF PT G up] .
  obtain pc' where 3: "pc_idle_add IDLE_OPTIONS pc2 = Some pc'" "playlist_ok rest pl' pc'"
    using idle_options_ok [OF PT 2(2)] .
  have r: "reordered (pl_queue pl1) (pl_queue pl')" "pl_playing pl' = pl_playing pl1"
    using 2(3) by (simp_all add: settled_def)
  show ?thesis
    using 2(1) 3 r same settled_current_id [OF 2(3)] reordered_view [OF r(1)]
    by (intro that [of pl' pc']) simp_all
qed

lemma playlist_set_repeat_returns:
  assumes PT: "live_player PT rest" and G: "glib_ok G" and ok: "playlist_ok rest pl pc"
  obtains pl' pc' where "playlist_set_repeat G PT pl pc status = Some (pl', pc')" "playlist_ok rest pl' pc'"
    "q_repeat (pl_queue pl') = status" "queue_view (pl_queue pl') = queue_view (pl_queue pl)"
    "current_id pl' = current_id pl" "pl_playing pl' = pl_playing pl"
proof (cases "status = q_repeat (pl_queue pl)")
  case True
  show ?thesis using True ok by (intro that [of pl pc]) (simp_all add: playlist_set_repeat_def)
next
  case False
  obtain prev where prev: "playlist_get_queued_song pl = Some prev" "updatable rest pl pc prev"
    using get_queued_ok [OF ok] .
  let ?pl = "pl\<lparr>pl_queue := (pl_queue pl)\<lparr>q_repeat := status\<rparr>\<rparr>"
  let ?pc = "pc_set_border_pause pc (q_single (pl_queue pl) \<and> \<not> status)"
  have "updatable rest ?pl pc prev" using prev(2) by (simp add: updatable_def)
  then have up: "updatable rest ?pl ?pc prev" by (rule set_border_pause_ok [OF PT])
  have same: "queue_view (pl_queue ?pl) = queue_view (pl_queue pl)" "current_id ?pl = current_id pl"
      "pl_playing ?pl = pl_playing pl"
    by (simp_all add: current_id_def current_pos_def)
  obtain pl' pc' where 1:
    "do { (pl, pc) \<leftarrow> playlist_update_queued_song G PT ?pl ?pc prev; pc \<leftarrow> pc_idle_add IDLE_OPTIONS pc; Some (pl, pc) }
       = Some (pl', pc')"
    "playlist_ok rest pl' pc'" "queue_view (pl_queue pl') = queue_view (pl_queue pl)"
    "current_id pl' = current_id pl" "pl_playing pl' = pl_playing pl" "reordered (pl_queue ?pl) (pl_queue pl')"
    using option_finish [OF PT G up same] .
  have "playlist_set_repeat G PT pl pc status = Some (pl', pc')"
    using False 1(1) prev(1) by (simp add: playlist_set_repeat_def get_queued_song_flags)
  then show ?thesis using that 1(2-5) reordered_sel(6) [OF 1(6)] by simp
qed

lemma playlist_set_single_returns:
  assumes PT: "live_player PT rest" and G: "glib_ok G" and ok: "playlist_ok rest pl pc"
  obtains pl' pc' where "playlist_set_single G PT pl pc status = Some (pl', pc')" "playlist_ok rest pl' pc'"
    "q_single (pl_queue pl') = status" "queue_view (pl_queue pl') = queue_view (pl_queue pl)"
    "current_id pl' = current_id pl" "pl_playing pl' = pl_playing pl"
proof (cases "status = q_single (pl_queue pl)")
  case True
  show ?thesis using True ok by (intro that [of pl pc]) (simp_all add: playlist_set_single_def)
next
  case False
  obtain prev where prev: "playlist_get_queued_song pl = Some prev" "updatable rest pl pc prev"
    using get_queued_ok [OF ok] .
  let ?pl = "pl\<lparr>pl_queue := (pl_queue pl)\<lparr>q_single := status\<rparr>\<rparr>"
  let ?pc = "pc_set_border_pause pc (status \<and> \<not> q_repeat (pl_queue pl))"
  have "updatable rest ?pl pc prev" using prev(2) by (simp add: updatable_def)
  then have up: "updatable rest ?pl ?pc prev" by (rule set_border_pause_ok [OF PT])
  have same: "queue_view (pl_queue ?pl) = queue_view (pl_queue pl)" "current_id ?pl = current_id pl"
      "pl_playing ?pl = pl_playing pl"
    by (simp_all add: current_id_def current_pos_def)
  obtain pl' pc' where 1:
    "do { (pl, pc) \<leftarrow> playlist_update_queued_song G PT ?pl ?pc prev; pc \<leftarrow> pc_idle_add IDLE_OPTIONS pc; Some (pl, pc) }
       = Some (pl', pc')"
    "playlist_ok rest pl' pc'" "queue_view (pl_queue pl') = queue_view (pl_queue pl)"
    "current_id pl' = current_id pl" "pl_playing pl' = pl_playing pl" "reordered (pl_queue ?pl) (pl_queue pl')"
    using option_finish [OF PT G up same] .
  have "playlist_set_single G PT pl pc status = Some (pl', pc')"
    using False 1(1) prev(1) by (simp add: playlist_set_single_def get_queued_song_flags)
  then show ?thesis using that 1(2-5) reordered_sel(7) [OF 1(6)] by simp
qed

lemma playlist_set_consume_returns:
  assumes PT: "live_player PT rest" and ok: "playlist_ok rest pl pc"
  obtains pl' pc' where "playlist_set_consume pl pc status = Some (pl', pc')" "playlist_ok rest pl' pc'"
    "pl' = pl\<lparr>pl_queue := (pl_queue pl)\<lparr>q_consume := status\<rparr>\<rparr>"
proof -
  let ?pl = "pl\<lparr>pl_queue := (pl_queue pl)\<lparr>q_consume := status\<rparr>\<rparr>"
  have ok1: "playlist_ok rest ?pl pc" using ok by (simp add: playlist_ok_def)
  obtain pc' where "pc_idle_add IDLE_OPTIONS pc = Some pc'" "playlist_ok rest ?pl pc'"
    using idle_options_ok [OF PT ok1] .
  then show ?thesis
    using that [of ?pl pc] that [of ?pl pc'] ok1
    by (cases "status = q_consume (pl_queue pl)") (simp_all add: playlist_set_consume_def)
qed

text \<open>Switching to random mode keeps the current song and puts it first in the new play order.\<close>

lemma shuffle_current_first_returns:
  assumes G: "glib_ok G" and up: "updatable rest pl pc prev"
    and rnd: "q_random (pl_queue pl)"
  obtains pl1 where "shuffle_current_first G pl = Some pl1" "reordered (pl_queue pl) (pl_queue pl1)"
    "pl_playing pl1 = pl_playing pl" "pl_queued pl1 = pl_queued pl"
    "pl_current pl1 = (if pl_playing pl then 0 else -1)"
    "pl_playing pl \<longrightarrow> current_pos pl1 = current_pos pl"
proof -
  note u = updatableD [OF up]
  obtain q where q: "queue_shuffle_order G (pl_queue pl) = Some q" "reordered (pl_queue pl) q"
    using queue_shuffle_order_eq [OF G u(1) rnd] by blast
  show ?thesis
  proof (cases "pl_playing pl")
    case False
    then show ?thesis
      using that [of "pl\<lparr>pl_queue := q, pl_current := -1\<rparr>"] q by (simp add: shuffle_current_first_def)
  next
    case True
    then have c: "0 \<le> pl_current pl" using up by (simp add: updatable_def)
    let ?p = "q_order (pl_queue pl) ! nat (pl_current pl)"
    have wf: "queue_wf q" and len: "q_length q = q_length (pl_queue pl)"
      using q(2) u(1) by (auto simp: reordered_wf reordered_sel(2))
    have "?p < q_length (pl_queue pl)" using c u(1,6) by (simp add: wf_order_less nat_less_iff)
    then obtain ord where o: "ord < q_length q" "q_order q ! ord = ?p" "queue_position_to_order q ?p = Some ord"
      using queue_position_to_order_ex [OF wf, of ?p] len by auto
    have z: "0 < q_length q" using o(1) by simp
    let ?q2 = "q\<lparr>q_order := swap_at 0 ord (q_order q)\<rparr>"
    have sw: "queue_swap_order q 0 ord = Some ?q2" by (rule queue_swap_order_eq [OF wf z o(1)])
    have "reordered q ?q2" using swap_order_reordered [OF wf z o(1), of "q_rand q"] by simp
    then have r2: "reordered (pl_queue pl) ?q2" using q(2) reordered_trans by blast
    have "q_order ?q2 ! 0 = ?p"
      using o(1,2) queue_wfD [OF wf] by (auto simp: nth_swap_at)
    then show ?thesis
      using True c q(1) o(3) sw r2 order_to_position_Some [OF u(1) c u(6)]
      by (intro that [of "pl\<lparr>pl_queue := ?q2, pl_current := 0\<rparr>"])
        (simp_all add: shuffle_current_first_def current_pos_def)
  qed
qed

lemma playlist_order_returns:
  assumes u: "queue_wf (pl_queue pl)" "pl_current pl < int (q_length (pl_queue pl))" "-1 \<le> pl_current pl"
  obtains pl1 where "playlist_order pl = Some pl1" "reordered (pl_queue pl) (pl_queue pl1)"
    "pl_playing pl1 = pl_playing pl" "pl_queued pl1 = pl_queued pl" "current_pos pl1 = current_pos pl"
    "play_order (pl_queue pl1) = [0..<q_length (pl_queue pl1)]"
    "-1 \<le> pl_current pl1" "pl_current pl1 < int (q_length (pl_queue pl))"
    "0 \<le> pl_current pl1 \<longleftrightarrow> 0 \<le> pl_current pl"
proof -
  obtain q where q: "queue_restore_order (pl_queue pl) = Some q" "reordered (pl_queue pl) q"
    "play_order q = [0..<q_length (pl_queue pl)]"
    using queue_restore_order_eq [OF u(1)] by blast
  have len: "q_length q = q_length (pl_queue pl)" using reordered_sel(2) [OF q(2)] .
  define c where "c = (if 0 \<le> pl_current pl then int (q_order (pl_queue pl) ! nat (pl_current pl)) else pl_current pl)"
  have c: "-1 \<le> c" "c < int (q_length (pl_queue pl))" "0 \<le> c \<longleftrightarrow> 0 \<le> pl_current pl"
    using u wf_order_less [OF u(1), of "nat (pl_current pl)"] by (auto simp: c_def nat_less_iff)
  have "q_order q ! nat c = nat c" if "0 \<le> c"
  proof -
    have i: "nat c < q_length q" using that c(2) len by linarith
    then have "q_order q ! nat c = play_order q ! nat c" by (simp add: play_order_def)
    then show ?thesis using q(3) i len by simp
  qed
  then have pos: "current_pos (pl\<lparr>pl_queue := q, pl_current := c\<rparr>) = current_pos pl"
    using c(3) by (auto simp: current_pos_def c_def)
  have "playlist_order pl = Some (pl\<lparr>pl_queue := q, pl_current := c\<rparr>)"
    using q(1) order_to_position_Some [OF u(1) _ u(2)] by (simp add: playlist_order_def c_def)
  then show ?thesis
    using that [of "pl\<lparr>pl_queue := q, pl_current := c\<rparr>"] q(2,3) len pos c by simp
qed

lemma playlist_set_random_returns:
  assumes PT: "live_player PT rest" and G: "glib_ok G" and ok: "playlist_ok rest pl pc"
  obtains pl' pc' where "playlist_set_random G PT pl pc status = Some (pl', pc')" "playlist_ok rest pl' pc'"
    "q_random (pl_queue pl') = status" "queue_view (pl_queue pl') = queue_view (pl_queue pl)"
    "pl_playing pl \<longrightarrow> current_id pl' = current_id pl" "pl_playing pl' = pl_playing pl"
proof (cases "status = q_random (pl_queue pl)")
  case True
  show ?thesis using True ok by (intro that [of pl pc]) (simp_all add: playlist_set_random_def)
next
  case False
  obtain prev where prev: "playlist_get_queued_song pl = Some prev" "updatable rest pl pc prev"
    using get_queued_ok [OF ok] .
  let ?pl = "pl\<lparr>pl_queue := (pl_queue pl)\<lparr>q_random := status\<rparr>\<rparr>"
  have pos: "current_pos ?pl = current_pos pl" by (simp add: current_pos_def)
  obtain pl1 where 1: "(if q_random (pl_queue ?pl) then shuffle_current_first G ?pl else playlist_order ?pl) = Some pl1"
    "reordered (pl_queue ?pl) (pl_queue pl1)" "pl_playing pl1 = pl_playing pl"
    "pl_playing pl \<longrightarrow> current_pos pl1 = current_pos pl" "updatable rest pl1 pc prev"
  proof (cases status)
    case True
    have up: "updatable rest ?pl pc prev" using prev(2) True by (simp add: updatable_def sequential_ok_def)
    have rnd: "q_random (pl_queue ?pl)" using True by simp
    obtain pl1 where s: "shuffle_current_first G ?pl = Some pl1" "reordered (pl_queue ?pl) (pl_queue pl1)"
      "pl_playing pl1 = pl_playing ?pl" "pl_queued pl1 = pl_queued ?pl"
      "pl_current pl1 = (if pl_playing ?pl then 0 else -1)"
      "pl_playing ?pl \<longrightarrow> current_pos pl1 = current_pos ?pl"
      using shuffle_current_first_returns [OF G up rnd] .
    have "updatable rest pl1 pc prev"
      using up s reordered_wf [OF s(2)] songs_ok_reordered [OF s(2)] reordered_sel(2,9) [OF s(2)] True
      by (auto simp: updatable_def sequential_ok_def)
    then show ?thesis using that [of pl1] s True pos by simp
  next
    case False
    have pre: "queue_wf (pl_queue ?pl)" "pl_current ?pl < int (q_length (pl_queue ?pl))" "-1 \<le> pl_current ?pl"
      using prev(2) by (simp_all add: updatable_def)
    obtain pl1 where s: "playlist_order ?pl = Some pl1" "reordered (pl_queue ?pl) (pl_queue pl1)"
      "pl_playing pl1 = pl_playing ?pl" "pl_queued pl1 = pl_queued ?pl" "current_pos pl1 = current_pos ?pl"
      "play_order (pl_queue pl1) = [0..<q_length (pl_queue pl1)]"
      "-1 \<le> pl_current pl1" "pl_current pl1 < int (q_length (pl_queue ?pl))"
      "0 \<le> pl_current pl1 \<longleftrightarrow> 0 \<le> pl_current ?pl"
      using playlist_order_returns [OF pre] .
    have "updatable rest pl1 pc prev"
      using prev(2) s reordered_wf [OF s(2)] songs_ok_reordered [OF s(2)] reordered_sel(2) [OF s(2)]
      by (auto simp: updatable_def sequential_ok_def)
    then show ?thesis using that [of pl1] s False pos by simp
  qed
  obtain pl' pc2 where 2: "playlist_update_queued_song G PT pl1 pc prev = Some (pl', pc2)"
    "playlist_ok rest pl' pc2" "settled pl1 pl'"
    using update_queued_song_returns [OF PT G 1(5)] .
  obtain pc' where 3: "pc_idle_add IDLE_OPTIONS pc2 = Some pc'" "playlist_ok rest pl' pc'"
    using idle_options_ok [OF PT 2(2)] .
  have r: "reordered (pl_queue ?pl) (pl_queue pl')" "pl_playing pl' = pl_playing pl"
    "current_pos pl' = current_pos pl1"
    using 2(3) 1(2,3) by (auto simp: settled_def intro: reordered_trans)
  show ?thesis
  proof (rule that [of pl' pc'])
    show "playlist_set_random G PT pl pc status = Some (pl', pc')"
      using False prev(1) 1(1) 2(1) 3(1) by (cases status) (simp_all add: playlist_set_random_def)
    show "pl_playing pl \<longrightarrow> current_id pl' = current_id pl"
      using 1(4) r reordered_sel(4) [OF r(1)] by (simp add: current_id_def)
  qed (use 3(2) r reordered_sel(9) [OF r(1)] reordered_view [OF r(1)] in simp_all)
qed

section \<open>Clearing and modifying\<close>

lemma increment_version_ok:
  assumes PT: "live_player PT rest" and ok: "playlist_ok rest pl pc"
  obtains pl' pc' where "playlist_increment_version pl pc = Some (pl', pc')" "playlist_ok rest pl' pc'"
    "pl' = pl\<lparr>pl_queue := incremented (pl_queue pl)\<rparr>"
proof -
  have wf: "queue_wf (pl_queue pl)" using ok by (simp add: playlist_ok_def)
  let ?pl = "pl\<lparr>pl_queue := incremented (pl_queue pl)\<rparr>"
  let ?pc = "pc\<lparr>pc_idle_flags := pc_idle_flags pc OR IDLE_PLAYLIST\<rparr>"
  have "playlist_ok rest ?pl ?pc"
    using ok incremented_wf [OF wf] songs_ok_view [OF queue_view_incremented [OF wf]]
    by (simp add: playlist_ok_def sequential_ok_def rest_frame [OF PT])
  then show ?thesis using that increment_version_eq [OF wf] by blast
qed

lemma clear_songs_deleted:
  assumes PT: "live_player PT rest" and q: "queue_wf q" and pc: "pc_ok pc" "rest pc"
  obtains pc' where "for_each (\<lambda>i pc. do {
         song \<leftarrow> queue_get q i;
         Some (if \<not> song_in_database song then pc_song_deleted pc song else pc)
       }) [0..<q_length q] pc = Some pc'" "pc_ok pc'" "rest pc'" "pc_next_song pc' = pc_next_song pc"
proof -
  define Inv where "Inv pc1 \<longleftrightarrow> pc_ok pc1 \<and> rest pc1 \<and> pc_next_song pc1 = pc_next_song pc" for pc1
  have "\<exists>pc'. for_each (\<lambda>i pc. do {
         song \<leftarrow> queue_get q i;
         Some (if \<not> song_in_database song then pc_song_deleted pc song else pc)
       }) [0..<q_length q] pc = Some pc' \<and> Inv pc'"
    by (rule for_each_list) (use pc q in \<open>auto simp: Inv_def rest_song_deleted [OF PT] pc_song_deleted_ok\<close>)
  then show ?thesis using that by (auto simp: Inv_def)
qed

lemma playlist_clear_returns:
  assumes PT: "live_player PT rest" and G: "glib_ok G" and ok: "playlist_ok rest pl pc"
  obtains pl' pc' where "playlist_clear G PT pl pc = Some (pl', pc')" "playlist_ok rest pl' pc'"
    "q_length (pl_queue pl') = 0" "\<not> pl_playing pl'" "pl_current pl' = -1"
proof -
  obtain prev where up: "updatable rest pl pc prev" using playlist_ok_updatable [OF ok] .
  obtain pl1 pc1 where 1: "playlist_stop G PT pl pc = Some (pl1, pc1)" "playlist_ok rest pl1 pc1"
    "settled (pl\<lparr>pl_playing := False\<rparr>) pl1"
    using playlist_stop_returns [OF PT G up] by blast
  have p1: "\<not> pl_playing pl1" using 1(3) by (simp add: settled_def)
  have u: "queue_wf (pl_queue pl1)" "pc_ok pc1" "rest pc1" using 1(2) by (simp_all add: playlist_ok_def)
  obtain pc2 where 2: "for_each (\<lambda>i pc. do {
         song \<leftarrow> queue_get (pl_queue pl1) i;
         Some (if \<not> song_in_database song then pc_song_deleted pc song else pc)
       }) [0..<q_length (pl_queue pl1)] pc1 = Some pc2" "pc_ok pc2" "rest pc2" "pc_next_song pc2 = pc_next_song pc1"
    using clear_songs_deleted [OF PT u] .
  obtain q where q: "queue_clear (pl_queue pl1) = Some q" "queue_wf q" "q_length q = 0"
    using queue_clear_eq [OF u(1)] queue_clear_wf [OF u(1)] by simp
  let ?pl = "pl1\<lparr>pl_queue := q, pl_current := -1\<rparr>"
  have "playlist_ok rest ?pl pc2"
    using 1(2) 2 q p1 by (simp add: playlist_ok_def sequential_ok_def songs_ok_def queue_view_def play_order_def)
  then obtain pl' pc' where "playlist_increment_version ?pl pc2 = Some (pl', pc')" "playlist_ok rest pl' pc'"
    "pl' = ?pl\<lparr>pl_queue := incremented (pl_queue ?pl)\<rparr>"
    using increment_version_ok [OF PT] by blast
  then show ?thesis
    using that 1(1) u(1) 2(1) q p1 by (simp add: playlist_clear_def)
qed

lemma playlist_tag_changed_returns:
  assumes PT: "live_player PT rest" and ok: "playlist_ok rest pl pc"
  obtains pl' pc' where "playlist_tag_changed pl pc = Some (pl', pc')" "playlist_ok rest pl' pc'"
    "queue_view (pl_queue pl') = queue_view (pl_queue pl)"
proof (cases "pl_playing pl")
  case False
  then show ?thesis using that [of pl pc] ok by (simp add: playlist_tag_changed_def)
next
  case True
  then have c: "0 \<le> pl_current pl" "nat (pl_current pl) < q_length (pl_queue pl)" and wf: "queue_wf (pl_queue pl)"
    using ok by (auto simp: playlist_ok_def nat_less_iff)
  obtain q where q: "queue_modify (pl_queue pl) (nat (pl_current pl)) = Some q" "queue_wf q"
    "queue_view q = queue_view (pl_queue pl)" "play_order q = play_order (pl_queue pl)"
    "q_length q = q_length (pl_queue pl)" "q_random q = q_random (pl_queue pl)"
    using queue_modify_eq [OF wf c(2)] .
  have "playlist_ok rest (pl\<lparr>pl_queue := q\<rparr>) (pc\<lparr>pc_idle_flags := pc_idle_flags pc OR IDLE_PLAYLIST\<rparr>)"
    using ok q songs_ok_view [OF q(3)] by (simp add: playlist_ok_def sequential_ok_def rest_frame [OF PT])
  then show ?thesis
    using that True c q by (simp add: playlist_tag_changed_def pc_idle_add_eq)
qed

section \<open>Seeking\<close>

lemma playlist_seek_song_returns:
  assumes PT: "live_player PT rest" and G: "glib_ok G" and ok: "playlist_ok rest pl pc"
    and song: "song < q_length (pl_queue pl)"
  obtains pl' pc' where "playlist_seek_song G PT pl pc song t = Some (MPD_SUCCESS, pl', pc')"
    "playlist_ok rest pl' pc'" "queue_view (pl_queue pl') = queue_view (pl_queue pl)"
    "pl_playing pl'" "current_pos pl' = Some song"
proof -
  obtain prev where prev: "playlist_get_queued_song pl = Some prev" "updatable rest pl pc prev"
    using get_queued_ok [OF ok] .
  note u = updatableD [OF prev(2)]
  obtain i where i: "(if q_random (pl_queue pl) then queue_position_to_order (pl_queue pl) song else Some song) = Some i"
    "i < q_length (pl_queue pl)" "q_order (pl_queue pl) ! i = song"
  proof (cases "q_random (pl_queue pl)")
    case True
    show ?thesis using queue_position_to_order_ex [OF u(1) song] that True by auto
  next
    case False
    show ?thesis using that [of song] False song sequential_order [OF u(1,3) False song] by simp
  qed
  let ?pc = "pc_clear_error pc"
  define pl1 where "pl1 = pl\<lparr>pl_stop_on_error := True, pl_error_count := 0, pl_playing := True, pl_current := int i\<rparr>"
  have same: "pl\<lparr>pl_stop_on_error := True, pl_error_count := 0\<rparr> = pl1"
    if "pl_playing pl" "to_unsigned (pl_current pl) = i"
    using that to_unsigned_order(1) [OF u(1), of "pl_current pl"] ok
    by (simp add: pl1_def playlist_ok_def)
  let ?s = "qi_song (q_items (pl_queue pl) ! song)"
  have pc: "pc_ok ?pc" "rest ?pc" using u(4,5) by (simp_all add: pc_clear_error_ok rest_clear_error [OF PT])
  obtain pc1 where 1: "pc_seek PT ?pc ?s t = Some (True, pc1)" "pc_ok pc1" "rest pc1" "pc_next_song pc1 = None"
    using player_thread.pc_seek_returns [OF PT pc, of ?s t] by blast
  have up: "updatable rest (pl1\<lparr>pl_queued := -1\<rparr>) pc1 None"
    using prev(2) 1 i(2) by (simp add: updatable_def pl1_def)
  obtain pl' pc' where 2: "playlist_update_queued_song G PT (pl1\<lparr>pl_queued := -1\<rparr>) pc1 None = Some (pl', pc')"
    "playlist_ok rest pl' pc'" "settled (pl1\<lparr>pl_queued := -1\<rparr>) pl'"
    using update_queued_song_returns [OF PT G up] .
  have get: "queue_get_order (pl_queue pl) i = Some ?s" using u(1) i by simp
  have "playlist_seek_song G PT pl pc song t = Some (MPD_SUCCESS, pl', pc')"
  proof (cases "pl_playing pl \<and> to_unsigned (pl_current pl) = i")
    case True
    have "pl_queue pl1 = pl_queue pl" "pl_playing pl1" "to_unsigned (pl_current pl1) = i"
      using to_unsigned_order(1) [OF u(1), of "int i"] i(2) by (simp_all add: pl1_def)
    with True show ?thesis
      using song prev(1) i(1) 1(1) 2(1) get same
      by (simp add: playlist_seek_song_def queue_valid_position_def del: if_split)
  next
    case False
    then show ?thesis
      using song prev(1) i(1) 1(1) 2(1) [unfolded pl1_def] get
      by (simp add: playlist_seek_song_def queue_valid_position_def del: if_split)
  qed
  moreover have "reordered (pl_queue pl) (pl_queue pl')" using 2(3) by (simp add: settled_def pl1_def)
  ultimately show ?thesis
    using that 2 i(3) reordered_view by (auto simp: settled_def pl1_def current_pos_def)
qed

section \<open>Events of the player\<close>

text \<open>The player began to play the queued song, which becomes the current one.\<close>

lemma playlist_song_started_returns:
  assumes PT: "live_player PT rest" and G: "glib_ok G" and ok: "playlist_ok rest pl pc"
    and p: "pl_playing pl" and nxt: "pc_next_song pc = None" and queued: "pl_queued pl \<noteq> -1"
    and other: "q_consume (pl_queue pl) \<longrightarrow> pl_queued pl \<noteq> pl_current pl"
  obtains pl' pc' where "playlist_song_started G PT pl pc = Some (pl', pc')" "playlist_ok rest pl' pc'"
    "queue_view (pl_queue pl') = (if q_consume (pl_queue pl)
       then remove_nth (q_order (pl_queue pl) ! nat (pl_current pl)) (queue_view (pl_queue pl))
       else queue_view (pl_queue pl))"
    "pl_playing pl'" "current_id pl' = Some (play_ids (pl_queue pl) ! nat (pl_queued pl))"
proof -
  let ?pl = "pl\<lparr>pl_current := pl_queued pl, pl_queued := -1\<rparr>"
  have ok1: "playlist_ok rest ?pl pc" using ok nxt queued by (auto simp: playlist_ok_def)
  have c: "0 \<le> pl_current pl" "pl_current pl < int (q_length (pl_queue ?pl))"
    and k: "0 \<le> pl_queued pl" "pl_queued pl < int (q_length (pl_queue pl))" and wf: "queue_wf (pl_queue pl)"
    using ok p queued by (auto simp: playlist_ok_def)
  have other1: "q_consume (pl_queue ?pl) \<longrightarrow> pl_current ?pl \<noteq> pl_current pl" using other by simp
  obtain pl' pc1 where 1: "consume_order G PT ?pl pc (pl_current pl) = Some (pl', pc1)" "playlist_ok rest pl' pc1"
    "queue_view (pl_queue pl') = (if q_consume (pl_queue ?pl)
       then remove_nth (q_order (pl_queue ?pl) ! nat (pl_current pl)) (queue_view (pl_queue ?pl))
       else queue_view (pl_queue ?pl))"
    "current_id pl' = current_id ?pl" "pl_playing pl' = pl_playing ?pl"
    using consume_order_returns [OF PT G ok1 c other1] .
  let ?pc = "pc1\<lparr>pc_idle_flags := pc_idle_flags pc1 OR IDLE_PLAYER\<rparr>"
  have "playlist_song_started G PT pl pc = Some (pl', ?pc)"
    using nxt k 1(1) by (simp add: playlist_song_started_def pc_idle_add_eq)
  moreover have "playlist_ok rest pl' ?pc" using 1(2) by (simp add: playlist_ok_def rest_frame [OF PT])
  moreover have "current_id pl' = Some (play_ids (pl_queue pl) ! nat (pl_queued pl))"
    using 1(4) k current_id_play_ids [of ?pl] wf by simp
  ultimately show ?thesis using that 1 p by simp
qed

lemma playlist_next_ok:
  assumes "live_player PT rest" "glib_ok G" "playlist_ok rest pl pc" "same_round pl"
  obtains pl' pc' where "playlist_next G PT pl pc = Some (pl', pc')" "playlist_ok rest pl' pc'"
proof (cases "pl_playing pl")
  case True
  have "nat (pl_current pl) < q_length (pl_queue pl)"
    using assms(3) True by (simp add: playlist_ok_def nat_less_iff)
  then obtain n where n: "queue_next_order (pl_queue pl) (nat (pl_current pl)) = Some n"
    using queue_next_order_range by blast
  show ?thesis using playlist_next_returns [OF assms(1-3) True n assms(4)] that by blast
next
  case False
  then show ?thesis using that [of pl pc] assms(3) by (simp add: playlist_next_def)
qed

lemma playlist_resume_playback_returns:
  assumes PT: "live_player PT rest" and G: "glib_ok G" and ok: "playlist_ok rest pl pc"
    and p: "pl_playing pl" and stop: "pc_state pc = PLAYER_STATE_STOP" and round: "same_round pl"
  obtains pl' pc' where "playlist_resume_playback G PT pl pc = Some (pl', pc')" "playlist_ok rest pl' pc'"
proof -
  define pl1 where "pl1 = (if pc_get_error pc = PLAYER_ERROR_NOERROR then pl\<lparr>pl_error_count := 0\<rparr>
    else pl\<lparr>pl_error_count := pl_error_count pl + 1\<rparr>)"
  have ok1: "playlist_ok rest pl1 pc" and round1: "same_round pl1" and wf: "queue_wf (pl_queue pl1)"
    using ok round by (auto simp: pl1_def playlist_ok_def same_round_def)
  obtain prev where up: "updatable rest pl1 pc prev" using playlist_ok_updatable [OF ok1] .
  obtain pl2 pc2 where s: "playlist_stop G PT pl1 pc = Some (pl2, pc2)" "playlist_ok rest pl2 pc2"
    using playlist_stop_returns [OF PT G up] by blast
  obtain pl3 pc3 where n: "playlist_next G PT pl1 pc = Some (pl3, pc3)" "playlist_ok rest pl3 pc3"
    using playlist_next_ok [OF PT G ok1 round1] .
  have "playlist_resume_playback G PT pl pc = playlist_stop G PT pl1 pc \<or>
      playlist_resume_playback G PT pl pc = playlist_next G PT pl1 pc"
    using p stop wf by (simp add: playlist_resume_playback_def pc_get_state_def Let_def flip: pl1_def)
  then show ?thesis using that s n by metis
qed

text \<open>
  The handler of the player's events, run by the main loop.  Besides the end of a round in random
  consume mode, the queued song must not be the current one when songs are consumed.
\<close>

lemma playlist_sync_returns:
  assumes PT: "live_player PT rest" and G: "glib_ok G" and ok: "playlist_ok rest pl pc"
    and round: "same_round pl" and other: "q_consume (pl_queue pl) \<longrightarrow> pl_queued pl \<noteq> pl_current pl"
  obtains pl' pc' where "playlist_sync G PT pl pc = Some (pl', pc')" "playlist_ok rest pl' pc'"
proof -
  consider (idle) "\<not> pl_playing pl" | (stopped) "pl_playing pl" "pc_state pc = PLAYER_STATE_STOP"
    | (playing) "pl_playing pl" "pc_state pc \<noteq> PLAYER_STATE_STOP" by blast
  then show ?thesis
  proof cases
    case idle
    then show ?thesis using that [of pl pc] ok by (simp add: playlist_sync_def)
  next
    case stopped
    then show ?thesis
      using playlist_resume_playback_returns [OF PT G ok stopped round] that
      by (auto simp: playlist_sync_def pc_get_state_def)
  next
    case playing
    obtain pl1 pc1 where 1: "(if pc_next_song pc = None \<and> pl_queued pl \<noteq> -1
        then playlist_song_started G PT pl pc else Some (pl, pc)) = Some (pl1, pc1)" "playlist_ok rest pl1 pc1"
    proof (cases "pc_next_song pc = None \<and> pl_queued pl \<noteq> -1")
      case True
      then have n: "pc_next_song pc = None" "pl_queued pl \<noteq> -1" by simp_all
      show ?thesis using playlist_song_started_returns [OF PT G ok playing(1) n other] that True by (metis (full_types))
    qed (use that [of pl pc] ok in auto)
    have sync: "playlist_sync G PT pl pc = (if pc_next_song pc1 = None \<and> pl_queued pl1 < 0
        then playlist_update_queued_song G PT pl1 pc1 None else Some (pl1, pc1))"
      using playing 1(1) by (simp add: playlist_sync_def pc_get_state_def del: if_split)
    show ?thesis
    proof (cases "pc_next_song pc1 = None \<and> pl_queued pl1 < 0")
      case True
      then have "pl_queued pl1 = -1" using 1(2) by (simp add: playlist_ok_def)
      then have up: "updatable rest pl1 pc1 None" using 1(2) playlist_ok_unqueued by blast
      show ?thesis using update_queued_song_returns [OF PT G up] that True sync by metis
    next
      case False
      then show ?thesis using that sync 1(2) by auto
    qed
  qed
qed

lemma playlist_init_ok:
  assumes "length order_mem = max_length" "max_length * QUEUE_HASH_MULT < 2 ^ 31"
    "pc_ok pc" "rest pc" "pc_next_song pc = None"
  shows "playlist_ok rest (playlist_init order_mem rand cur max_length) pc"
  using assms queue_init_wf [OF assms(1,2)]
  by (simp add: playlist_ok_def playlist_init_def songs_ok_def sequential_ok_def queue_view_def play_order_def
      queue_init_def)

end
