(* ===== verification/Playlist_Move.thy ===== *)
theory Playlist_Move
  imports Playlist_Edit
begin

text \<open>Moving and shuffling songs of the playlist.\<close>

section \<open>Moving\<close>

text \<open>
  The adjustment of \<^verbatim>\<open>current\<close> agrees with the move of the songs, except for a current song behind the
  range that has to move up over it and ends behind \<open>to\<close>.
\<close>

definition follows_move :: "nat \<Rightarrow> nat \<Rightarrow> nat \<Rightarrow> int \<Rightarrow> bool" where
  "follows_move start end to c \<longleftrightarrow> \<not> (int end \<le> c \<and> int to < c \<and> c < int (to + end - start))"

lemma moved_current_eq:
  assumes "start < end" "0 \<le> c" "c < 2 ^ 32" "follows_move start end to c"
  shows "moved_current start end (int to) c = int (move_range_position start end to (nat c))"
proof -
  have u: "to_unsigned c = nat c" using assms by (simp add: to_unsigned_nat)
  show ?thesis
    using assms unfolding moved_current_def move_range_position_def u follows_move_def
    by (auto simp: nat_less_iff le_nat_iff)
qed

lemma moved_current_neg: "c = -1 \<Longrightarrow> moved_current start end (int to) c = -1"
  by (simp add: moved_current_def)

lemma set_move_block:
  assumes "start \<le> end" shows "set (move_block start end to xs) = set xs"
proof -
  define rest where "rest = take start xs @ drop end xs"
  let ?block = "take (end - start) (drop start xs)"
  have "xs = take start xs @ ?block @ drop end xs"
    using assms by (metis append_take_drop_id drop_drop le_add_diff_inverse2)
  then have s: "set xs = set rest \<union> set ?block"
    unfolding rest_def by (metis set_append sup_commute sup_left_commute)
  have "set (move_block start end to xs) = (set (take to rest) \<union> set (drop to rest)) \<union> set ?block"
    by (auto simp: move_block_def Let_def rest_def)
  also have "\<dots> = set rest \<union> set ?block" by (metis append_take_drop_id set_append)
  finally show ?thesis unfolding s .
qed

text \<open>The songs move and \<^verbatim>\<open>current\<close> follows them.\<close>

lemma move_edit:
  assumes up: "updatable rest pl pc prev"
    and rng: "start < end" "end \<le> q_length (pl_queue pl)" "to + end \<le> q_length (pl_queue pl) + start"
    and follow: "\<not> q_random (pl_queue pl) \<longrightarrow> follows_move start end to (pl_current pl)"
  defines "q1 \<equiv> moved_range (pl_queue pl) start end to"
  defines "pl1 \<equiv> (if \<not> q_random q1 then pl\<lparr>pl_queue := q1, pl_current := moved_current start end (int to) (pl_current pl)\<rparr>
    else pl\<lparr>pl_queue := q1\<rparr>)"
  shows "updatable rest pl1 pc prev" "current_id pl1 = current_id pl"
proof -
  let ?q = "pl_queue pl" and ?f = "move_range_position start end to" and ?c = "pl_current pl"
  note u = updatableD [OF up] and rel = move_range_relocates [OF rng]
  have wf1: "queue_wf q1" unfolding q1_def by (rule moved_range_wf [OF u(1) rng])
  have view1: "queue_view q1 = move_block start end to (queue_view ?q)"
    unfolding q1_def by (rule queue_view_moved_range [OF u(1) rng])
  have songs1: "songs_ok q1"
    using u(2) rng(1) by (simp add: songs_ok_def view1 set_move_block)
  have len1: "q_length q1 = q_length ?q" "q_random q1 = q_random ?q" by (simp_all add: q1_def)
  have seq1: "sequential_ok q1"
    using u(3) by (simp add: q1_def sequential_ok_def moved_range_def Let_def play_order_def)
  have c1: "0 \<le> moved_current start end (int to) ?c \<longleftrightarrow> 0 \<le> ?c"
    "-1 \<le> moved_current start end (int to) ?c" "moved_current start end (int to) ?c < int (q_length q1)"
    "?c \<ge> 0 \<longrightarrow> moved_current start end (int to) ?c = int (?f (nat ?c))" if "\<not> q_random ?q"
  proof -
    have fol: "follows_move start end to ?c" using follow that by simp
    show "0 \<le> moved_current start end (int to) ?c \<longleftrightarrow> 0 \<le> ?c" "-1 \<le> moved_current start end (int to) ?c"
      "moved_current start end (int to) ?c < int (q_length q1)"
      "?c \<ge> 0 \<longrightarrow> moved_current start end (int to) ?c = int (?f (nat ?c))"
      using moved_current_eq [OF rng(1) _ _ fol] moved_current_neg [of ?c start "end" to] u(6,7)
        relocates_less [OF rel, of "nat ?c"] queue_wfD(4,5) [OF u(1)] len1
      by (cases "0 \<le> ?c"; force simp: nat_less_iff)+
  qed
  show "updatable rest pl1 pc prev"
    using updatable_edit [OF up wf1 songs1 seq1, of "if q_random ?q then ?c else moved_current start end (int to) ?c"]
      c1 u(6,7) len1 by (cases "q_random ?q") (simp_all add: pl1_def)
  show "current_id pl1 = current_id pl"
  proof (cases "q_random ?q")
    case True
    have "play_ids q1 = play_ids ?q"
      using play_ids_relocated [OF u(1) rel] True by (simp add: q1_def moved_range_def Let_def)
    then show ?thesis
      using u wf1 len1 True by (simp add: pl1_def current_id_play_ids)
  next
    case False
    show ?thesis
    proof (cases "0 \<le> ?c")
      case True
      have n: "nat ?c < q_length ?q" using True u(6) by linarith
      have o1: "q_order q1 ! ?f (nat ?c) = ?f (nat ?c)" "q_order ?q ! nat ?c = nat ?c"
        using sequential_order [OF wf1 seq1] sequential_order [OF u(1,3)] False len1 n relocates_less [OF rel n]
        by simp_all
      have "item_key (q_items q1 ! ?f (nat ?c)) = item_key (q_items ?q ! nat ?c)"
        using rel n False relocates_less [OF rel n] wf_in_range(1) [OF u(1)]
        by (simp add: q1_def moved_range_def Let_def relocates_def)
      then show ?thesis
        using c1 [OF False] True False len1 o1
        by (simp add: pl1_def current_id_def current_pos_def item_key_def)
    next
      case neg: False
      then show ?thesis using c1 [OF False] False len1 by (simp add: pl1_def current_id_def current_pos_def)
    qed
  qed
qed

lemma playlist_move_range_returns:
  assumes PT: "live_player PT rest" and G: "glib_ok G" and ok: "playlist_ok rest pl pc"
    and rng: "start < end" "end \<le> q_length (pl_queue pl)" "to + end \<le> q_length (pl_queue pl) + start"
    and follow: "\<not> q_random (pl_queue pl) \<longrightarrow> follows_move start end to (pl_current pl)"
  obtains pl' pc' where "playlist_move_range G PT pl pc start end (int to) = Some (MPD_SUCCESS, pl', pc')"
    "playlist_ok rest pl' pc'"
    "queue_view (pl_queue pl') = move_block start end to (queue_view (pl_queue pl))"
    "current_id pl' = current_id pl" "pl_playing pl' = pl_playing pl"
proof -
  obtain prev where prev: "playlist_get_queued_song pl = Some prev" "updatable rest pl pc prev"
    using get_queued_ok [OF ok] .
  note up = updatableD [OF prev(2)]
  let ?q = "pl_queue pl"
  have n: "int (q_length ?q) < 2 ^ 32" using queue_wfD(4,5) [OF up(1)] by simp
  have u1: "to_unsigned (int end - 1) = end - 1"
    using rng n by (subst to_unsigned_nat) auto
  have u2: "to_unsigned (int to + int end - int start - 1) = to + end - start - 1"
    using rng n by (subst to_unsigned_nat) auto
  have u3: "to_unsigned (int to) = to" using rng n by (subst to_unsigned_nat) auto
  have args: "queue_valid_position ?q start" "queue_valid_position ?q (to_unsigned (int end - 1))"
    "\<not> q_length ?q \<le> to_unsigned (int to + int end - int start - 1)"
    using rng by (auto simp: queue_valid_position_def u1 u2)
  show ?thesis
  proof (cases "start = to")
    case True
    have "move_block start end start (queue_view ?q) = queue_view ?q"
      using rng(1,2) up(1)
      by (simp add: move_block_def Let_def length_queue_view)
         (metis append_take_drop_id drop_drop less_imp_le le_add_diff_inverse2)
    then show ?thesis
      using that [of pl pc] True args ok up(1) by (simp add: playlist_move_range_def)
  next
    case False
    have target: "move_target pl start (int to) cs = int to" for cs by (simp add: move_target_def)
    obtain cs where cs: "(if 0 \<le> pl_current pl then map_option int (order_to_position pl (pl_current pl))
        else Some (-1)) = Some cs"
      using order_to_position_Some [OF up(1) _ up(6)] by (cases "0 \<le> pl_current pl") simp_all
    define pl1 where "pl1 = (if \<not> q_random (moved_range ?q start end to)
      then pl\<lparr>pl_queue := moved_range ?q start end to, pl_current := moved_current start end (int to) (pl_current pl)\<rparr>
      else pl\<lparr>pl_queue := moved_range ?q start end to\<rparr>)"
    have up1: "updatable rest pl1 pc prev" and cur1: "current_id pl1 = current_id pl"
      using move_edit [OF prev(2) rng follow] by (simp_all add: pl1_def)
    obtain pl2 pc2 pl' pc' where fin: "playlist_increment_version pl1 pc = Some (pl2, pc2)"
      "playlist_update_queued_song G PT pl2 pc2 prev = Some (pl', pc')" "playlist_ok rest pl' pc'"
      "queue_view (pl_queue pl') = queue_view (pl_queue pl1)" "current_id pl' = current_id pl1"
      "pl_playing pl' = pl_playing pl1"
      using edit_returns [OF PT G up1] .
    have pl1': "(if \<not> q_random (moved_range ?q start end to)
        then (pl\<lparr>pl_queue := moved_range ?q start end to\<rparr>)\<lparr>pl_current := moved_current start end (int to)
          (pl_current (pl\<lparr>pl_queue := moved_range ?q start end to\<rparr>))\<rparr>
        else pl\<lparr>pl_queue := moved_range ?q start end to\<rparr>) = pl1"
      by (simp add: pl1_def)
    have "playlist_move_range G PT pl pc start end (int to) = Some (MPD_SUCCESS, pl', pc')"
      unfolding playlist_move_range_def
      using args False up(1) prev(1) cs queue_move_range_eq [OF up(1) rng] fin(1,2) pl1'
      by (simp add: target u3)
    moreover have "queue_view (pl_queue pl1) = move_block start end to (queue_view ?q)"
      "pl_playing pl1 = pl_playing pl"
      using queue_view_moved_range [OF up(1) rng] by (simp_all add: pl1_def)
    ultimately show ?thesis
      using that fin(3-6) cur1 by simp
  qed
qed

section \<open>Shuffling\<close>

text \<open>The current song is brought to the front of the range and stays current.\<close>

lemma shuffle_keep_current_returns:
  assumes up: "updatable rest pl pc prev" and rng: "start < end" "end \<le> q_length (pl_queue pl)"
    and play: "pl_playing pl"
  obtains pl1 start1 where "shuffle_keep_current pl start end = Some (pl1, start1)"
    "updatable rest pl1 pc prev" "current_id pl1 = current_id pl" "start1 \<in> {start, start + 1}"
    "mset (queue_view (pl_queue pl1)) = mset (queue_view (pl_queue pl))"
    "q_length (pl_queue pl1) = q_length (pl_queue pl)" "pl_playing pl1 = pl_playing pl"
    "\<And>p. current_pos pl1 = Some p \<Longrightarrow> p < start1 \<or> end \<le> p"
proof -
  let ?q = "pl_queue pl"
  note u = updatableD [OF up]
  have c: "0 \<le> pl_current pl" using up play by (simp add: updatable_def)
  define p where "p = q_order ?q ! nat (pl_current pl)"
  have p: "order_to_position pl (pl_current pl) = Some p" "current_pos pl = Some p"
    using order_to_position_Some [OF u(1) c u(6)] c by (simp_all add: p_def current_pos_def)
  have pn: "p < q_length ?q" using to_unsigned_order(2) [OF u(1) c u(6)] u(1) by (simp add: p_def wf_order_less)
  show ?thesis
  proof (cases "start \<le> p \<and> p < end")
    case False
    then have "shuffle_keep_current pl start end = Some (pl, start)"
      using play c p(1) by (auto simp: shuffle_keep_current_def)
    then show ?thesis using that [of pl start] up False p(2) by auto
  next
    case True
    have s: "start < q_length ?q" using rng by simp
    let ?q1 = "swapped ?q start p"
    have wf1: "queue_wf ?q1"
      unfolding swapped_def by (rule placed_wf [OF u(1) swap_relocates [OF s pn]])
    have len: "q_length ?q1 = q_length ?q" "q_random ?q1 = q_random ?q" by (simp_all add: swapped_def)
    have view1: "queue_view ?q1 = swap_at start p (queue_view ?q)" by (rule queue_view_swapped [OF u(1) s pn])
    then have mv: "mset (queue_view ?q1) = mset (queue_view ?q)" using s pn u(1) by (simp add: length_queue_view)
    have songs1: "songs_ok ?q1" using u(2) mset_eq_setD [OF mv] by (simp add: songs_ok_def)
    have seq1: "sequential_ok ?q1" unfolding swapped_def by (rule sequential_placed [OF u(3)])
    obtain k where k: "k < q_length ?q1" "q_order ?q1 ! k = start" "queue_position_to_order ?q1 start = Some k"
      using queue_position_to_order_ex [OF wf1, of start] s len by auto
    define c1 where "c1 = (if q_random ?q1 then int k else int start)"
    have oc: "q_order ?q1 ! nat c1 = start" "0 \<le> c1" "c1 < int (q_length ?q1)"
      using k sequential_order [OF wf1 seq1, of start] s len by (auto simp: c1_def)
    let ?pl1 = "pl\<lparr>pl_queue := ?q1, pl_current := c1\<rparr>"
    show ?thesis
    proof (rule that [of ?pl1 "start + 1"])
      show "shuffle_keep_current pl start end = Some (?pl1, start + 1)"
        using True play c p(1) queue_swap_eq [OF u(1) s pn] k(3)
        by (auto simp: shuffle_keep_current_def c1_def)
      show "updatable rest ?pl1 pc prev"
        using updatable_edit [OF up wf1 songs1 seq1, of c1] oc c by simp
      show "current_id ?pl1 = current_id pl"
        using oc c p(2) s u(1) by (auto simp: current_id_def current_pos_def p_def swapped_def swapped_items_def)
      show "q < start + 1 \<or> end \<le> q" if "current_pos ?pl1 = Some q" for q
        using that oc by (auto simp: current_pos_def)
    qed (use mv len in simp_all)
  qed
qed

lemma playlist_shuffle_returns:
  assumes PT: "live_player PT rest" and G: "glib_ok G" and ok: "playlist_ok rest pl pc"
    and rng: "start + 1 < end" "end \<le> q_length (pl_queue pl)"
  obtains pl' pc' where "playlist_shuffle G PT pl pc start end = Some (pl', pc')" "playlist_ok rest pl' pc'"
    "mset (queue_view (pl_queue pl')) = mset (queue_view (pl_queue pl))"
    "pl_playing pl \<longrightarrow> current_id pl' = current_id pl" "pl_playing pl' = pl_playing pl"
proof -
  obtain prev where prev: "playlist_get_queued_song pl = Some prev" "updatable rest pl pc prev"
    using get_queued_ok [OF ok] .
  note up = updatableD [OF prev(2)]
  have se: "start < end" using rng by simp
  obtain pl1 start1 where 1: "shuffle_keep_current pl start end = Some (pl1, start1)"
    "updatable rest pl1 pc prev" "pl_playing pl \<longrightarrow> current_id pl1 = current_id pl" "start1 \<in> {start, start + 1}"
    "mset (queue_view (pl_queue pl1)) = mset (queue_view (pl_queue pl))"
    "q_length (pl_queue pl1) = q_length (pl_queue pl)" "pl_playing pl1 = pl_playing pl"
    "\<And>p. current_pos pl1 = Some p \<Longrightarrow> p < start1 \<or> end \<le> p"
  proof (cases "pl_playing pl")
    case True
    show ?thesis
      using shuffle_keep_current_returns [OF prev(2) se rng(2) True] that by metis
  next
    case False
    then have "updatable rest (pl\<lparr>pl_current := -1\<rparr>) pc prev" using prev(2) by (auto simp: updatable_def)
    then show ?thesis
      using that [of "pl\<lparr>pl_current := -1\<rparr>" start] False
      by (simp add: shuffle_keep_current_def current_pos_def)
  qed
  note up1 = updatableD [OF 1(2)]
  have r1: "start1 \<le> end" "end \<le> q_length (pl_queue pl1)" using 1(4,6) rng by auto
  obtain q2 where q2: "queue_shuffle_range G (pl_queue pl1) start1 end = Some q2" "queue_wf q2"
    "stamped (pl_queue pl1) q2" "mset (queue_view q2) = mset (queue_view (pl_queue pl1))"
    "play_order q2 = play_order (pl_queue pl1)" "q_length q2 = q_length (pl_queue pl1)"
    "q_random q2 = q_random (pl_queue pl1)" "q_max_length q2 = q_max_length (pl_queue pl1)"
    "\<And>p. p < q_length (pl_queue pl1) \<Longrightarrow> p < start1 \<or> end \<le> p \<Longrightarrow> q_items q2 ! p = q_items (pl_queue pl1) ! p"
    using queue_shuffle_range_eq [OF G up1(1) r1] by blast
  let ?pl2 = "pl1\<lparr>pl_queue := q2\<rparr>"
  have songs2: "songs_ok q2" using up1(2) mset_eq_setD [OF q2(4)] by (simp add: songs_ok_def)
  have seq2: "sequential_ok q2" using up1(3) q2(5-7) by (simp add: sequential_ok_def)
  have up2: "updatable rest ?pl2 pc prev"
    using updatable_edit [OF 1(2) q2(2) songs2 seq2, of "pl_current pl1"] up1(6,7) q2(6) by simp
  have cur2: "current_id ?pl2 = current_id pl1"
  proof (cases "pl_current pl1 < 0")
    case False
    let ?i = "nat (pl_current pl1)"
    have i: "?i < q_length (pl_queue pl1)" using False up1(6) by linarith
    have "q_order q2 ! ?i = q_order (pl_queue pl1) ! ?i"
      using q2(5,6) i by (metis nth_take play_order_def)
    then show ?thesis
      using False 1(8) q2(9) wf_order_less [OF up1(1) i] by (auto simp: current_id_def current_pos_def)
  qed (simp add: current_id_def current_pos_def)
  obtain pl3 pc3 pl' pc' where fin: "playlist_increment_version ?pl2 pc = Some (pl3, pc3)"
    "playlist_update_queued_song G PT pl3 pc3 prev = Some (pl', pc')" "playlist_ok rest pl' pc'"
    "queue_view (pl_queue pl') = queue_view (pl_queue ?pl2)" "current_id pl' = current_id ?pl2"
    "pl_playing pl' = pl_playing ?pl2"
    using edit_returns [OF PT G up2] .
  have u: "to_unsigned (int start + 1) = start + 1"
    using rng queue_wfD(4,5) [OF up(1)] by (subst to_unsigned_nat) auto
  have "playlist_shuffle G PT pl pc start end = Some (pl', pc')"
    using rng up(1) prev(1) 1(1) q2(1) fin(1,2) by (simp add: playlist_shuffle_def u Let_def)
  then show ?thesis
    using that fin(3-6) cur2 1(3,5,7) q2(4) by simp
qed

end
