(* ===== verification/Playlist_Machine.thy ===== *)
theory Playlist_Machine
  imports Playlist_Control Playlist_Move
begin

text \<open>
  The playlist as a state machine: the operations clients and the main loop call, in any order, with
  the player thread working in between.  \<open>admissible\<close> excludes the situations in which an operation
  goes wrong; everything else is allowed, invalid arguments included.
\<close>

section \<open>Requests\<close>

datatype playlist_request =
    Play int
  | Stop
  | Next
  | Previous
  | Seek nat real
  | Add song
  | Delete_Song nat
  | Delete_Songs nat nat
  | Swap_Songs nat nat
  | Move_Songs nat nat nat
  | Shuffle nat nat
  | Set_Priority nat nat u8
  | Set_Random bool
  | Set_Repeat bool
  | Set_Single bool
  | Set_Consume bool
  | Clear_All
  | Tag_Changed
  | Sync

fun serve :: "'g glib \<Rightarrow> 't player_thread \<Rightarrow> playlist_request \<Rightarrow> ('g, 't) pstate \<Rightarrow> ('g, 't) pstate option" where
  "serve G PT (Play song) (pl, pc) = map_option snd (playlist_play PT pl pc song)"
| "serve G PT Stop (pl, pc) = playlist_stop G PT pl pc"
| "serve G PT Next (pl, pc) = playlist_next G PT pl pc"
| "serve G PT Previous (pl, pc) = playlist_previous PT pl pc"
| "serve G PT (Seek song t) (pl, pc) = map_option snd (playlist_seek_song G PT pl pc song t)"
| "serve G PT (Add song) (pl, pc) = map_option (snd \<circ> snd) (playlist_append_song G PT pl pc song)"
| "serve G PT (Delete_Song song) (pl, pc) = map_option snd (playlist_delete G PT pl pc song)"
| "serve G PT (Delete_Songs start end) (pl, pc) = map_option snd (playlist_delete_range G PT pl pc start end)"
| "serve G PT (Swap_Songs s1 s2) (pl, pc) = map_option snd (playlist_swap_songs G PT pl pc s1 s2)"
| "serve G PT (Move_Songs start end to) (pl, pc) = map_option snd (playlist_move_range G PT pl pc start end (int to))"
| "serve G PT (Shuffle start end) (pl, pc) = playlist_shuffle G PT pl pc start end"
| "serve G PT (Set_Priority start end v) (pl, pc) = map_option snd (playlist_set_priority G PT pl pc start end v)"
| "serve G PT (Set_Random b) (pl, pc) = playlist_set_random G PT pl pc b"
| "serve G PT (Set_Repeat b) (pl, pc) = playlist_set_repeat G PT pl pc b"
| "serve G PT (Set_Single b) (pl, pc) = playlist_set_single G PT pl pc b"
| "serve G PT (Set_Consume b) (pl, pc) = playlist_set_consume pl pc b"
| "serve G PT Clear_All (pl, pc) = playlist_clear G PT pl pc"
| "serve G PT Tag_Changed (pl, pc) = playlist_tag_changed pl pc"
| "serve G PT Sync (pl, pc) = playlist_sync G PT pl pc"

fun admissible :: "playlist_request \<Rightarrow> 'g playlist \<Rightarrow> bool" where
  "admissible (Play song) pl \<longleftrightarrow> -1 \<le> song \<and> song < 2 ^ 31"
| "admissible (Add song) pl \<longleftrightarrow> s_uri song \<noteq> [] \<and>
     (q_random (pl_queue pl) \<longrightarrow> pl_queued pl < 0 \<or> pl_current pl \<le> pl_queued pl)"
| "admissible (Delete_Song song) pl \<longleftrightarrow>
     (pl_playing pl \<and> current_pos pl = Some song \<longrightarrow> \<not> q_random (pl_queue pl))"
| "admissible (Delete_Songs start end) pl \<longleftrightarrow>
     \<not> q_random (pl_queue pl) \<or> outside start (min end (q_length (pl_queue pl))) pl"
| "admissible (Move_Songs start end to) pl \<longleftrightarrow>
     start < end \<and> end \<le> q_length (pl_queue pl) \<and> to + end \<le> q_length (pl_queue pl) + start \<and>
     (\<not> q_random (pl_queue pl) \<longrightarrow> follows_move start end to (pl_current pl))"
| "admissible (Shuffle start end) pl \<longleftrightarrow> start + 1 < 2 ^ 32"
| "admissible (Set_Priority start end v) pl \<longleftrightarrow> upcoming_sorted pl"
| "admissible Next pl \<longleftrightarrow> same_round pl"
| "admissible Sync pl \<longleftrightarrow> same_round pl \<and> (q_consume (pl_queue pl) \<longrightarrow> pl_queued pl \<noteq> pl_current pl)"
| "admissible _ pl \<longleftrightarrow> True"

section \<open>Invalid arguments\<close>

lemma play_bad_range:
  assumes ok: "playlist_ok rest pl pc" and song: "int (q_length (pl_queue pl)) \<le> song" "song < 2 ^ 31"
  shows "playlist_play PT pl pc song = Some (PLAYLIST_BAD_RANGE, pl, pc_clear_error pc)"
proof -
  have "to_unsigned song = nat song" "song \<noteq> -1" using song by (simp_all add: to_unsigned_nat)
  then show ?thesis using song by (simp add: playlist_play_def queue_valid_position_def nat_less_iff)
qed

lemma seek_bad_range:
  "q_length (pl_queue pl) \<le> song \<Longrightarrow> playlist_seek_song G PT pl pc song t = Some (PLAYLIST_BAD_RANGE, pl, pc)"
  by (simp add: playlist_seek_song_def queue_valid_position_def)

lemma append_too_large:
  "queue_wf (pl_queue pl) \<Longrightarrow> q_length (pl_queue pl) = q_max_length (pl_queue pl) \<Longrightarrow>
   playlist_append_song G PT pl pc song = Some (PLAYLIST_TOO_LARGE, None, pl, pc)"
  by (simp add: playlist_append_song_def)

lemma delete_bad_range:
  "queue_wf (pl_queue pl) \<Longrightarrow> q_length (pl_queue pl) \<le> song \<Longrightarrow>
   playlist_delete G PT pl pc song = Some (PLAYLIST_BAD_RANGE, pl, pc)"
  by (simp add: playlist_delete_def)

lemma delete_range_bad_range:
  assumes "queue_wf (pl_queue pl)"
  shows "q_length (pl_queue pl) \<le> start \<Longrightarrow>
      playlist_delete_range G PT pl pc start end = Some (PLAYLIST_BAD_RANGE, pl, pc)"
    "start < q_length (pl_queue pl) \<Longrightarrow> end \<le> start \<Longrightarrow>
      playlist_delete_range G PT pl pc start end = Some (MPD_SUCCESS, pl, pc)"
  using assms by (simp_all add: playlist_delete_range_def)

lemma swap_bad_range:
  "q_length (pl_queue pl) \<le> s1 \<or> q_length (pl_queue pl) \<le> s2 \<Longrightarrow>
   playlist_swap_songs G PT pl pc s1 s2 = Some (PLAYLIST_BAD_RANGE, pl, pc)"
  by (auto simp: playlist_swap_songs_def queue_valid_position_def)

lemma set_priority_bad_range:
  assumes "queue_wf (pl_queue pl)"
  shows "q_length (pl_queue pl) \<le> start \<Longrightarrow>
      playlist_set_priority G PT pl pc start end v = Some (PLAYLIST_BAD_RANGE, pl, pc)"
    "start < q_length (pl_queue pl) \<Longrightarrow> end \<le> start \<Longrightarrow>
      playlist_set_priority G PT pl pc start end v = Some (MPD_SUCCESS, pl, pc)"
  using assms by (simp_all add: playlist_set_priority_def)

text \<open>The end of a range is cut off at the length of the queue.\<close>

lemma delete_range_cut:
  assumes "queue_wf (pl_queue pl)" "start < q_length (pl_queue pl)"
  shows "playlist_delete_range G PT pl pc start end =
    playlist_delete_range G PT pl pc start (min end (q_length (pl_queue pl)))"
  using assms by (simp add: playlist_delete_range_def min_def)

lemma set_priority_cut:
  assumes "queue_wf (pl_queue pl)" "start < q_length (pl_queue pl)"
  shows "playlist_set_priority G PT pl pc start end v =
    playlist_set_priority G PT pl pc start (min end (q_length (pl_queue pl))) v"
  using assms by (simp add: playlist_set_priority_def min_def)

lemma shuffle_cut:
  assumes "queue_wf (pl_queue pl)"
  shows "playlist_shuffle G PT pl pc start end =
    playlist_shuffle G PT pl pc start (min end (q_length (pl_queue pl)))"
  using assms by (simp add: playlist_shuffle_def min_def)

section \<open>Every admissible request is served\<close>

definition served ::
    "'g glib \<Rightarrow> 't player_thread \<Rightarrow> ('t player_control \<Rightarrow> bool) \<Rightarrow> playlist_request \<Rightarrow> ('g, 't) pstate \<Rightarrow> bool" where
  "served G PT rest r st \<longleftrightarrow> (\<exists>pl' pc'. serve G PT r st = Some (pl', pc') \<and> playlist_ok rest pl' pc')"

lemma servedI: "serve G PT r st = Some (pl', pc') \<Longrightarrow> playlist_ok rest pl' pc' \<Longrightarrow> served G PT rest r st"
  by (auto simp: served_def)

lemma served_play:
  assumes PT: "live_player PT rest" and ok: "playlist_ok rest pl pc" and adm: "admissible (Play song) pl"
  shows "served G PT rest (Play song) (pl, pc)"
proof (cases "song < int (q_length (pl_queue pl))")
  case True
  have s: "-1 \<le> song" using adm by simp
  obtain pl' pc' where "playlist_play PT pl pc song = Some (MPD_SUCCESS, pl', pc')" "playlist_ok rest pl' pc'"
    using playlist_play_returns [OF PT ok s True] by blast
  then show ?thesis by (auto intro: servedI)
next
  case False
  have "playlist_ok rest pl (pc_clear_error pc)"
    using ok by (simp add: playlist_ok_def pc_clear_error_ok rest_clear_error [OF PT])
  then show ?thesis using play_bad_range [OF ok, of song PT] False adm by (auto intro: servedI)
qed

lemma served_ranges:
  assumes PT: "live_player PT rest" and G: "glib_ok G" and ok: "playlist_ok rest pl pc"
  shows "admissible (Delete_Songs start end) pl \<Longrightarrow> served G PT rest (Delete_Songs start end) (pl, pc)"
    "admissible (Set_Priority start end v) pl \<Longrightarrow> served G PT rest (Set_Priority start end v) (pl, pc)"
    "admissible (Shuffle start end) pl \<Longrightarrow> served G PT rest (Shuffle start end) (pl, pc)"
proof -
  let ?n = "q_length (pl_queue pl)" and ?e = "min end (q_length (pl_queue pl))"
  have wf: "queue_wf (pl_queue pl)" using ok by (simp add: playlist_ok_def)
  have en: "?e \<le> ?n" by simp
  show "served G PT rest (Delete_Songs start end) (pl, pc)" if adm: "admissible (Delete_Songs start end) pl"
  proof (cases "start < ?e")
    case True
    have out: "\<not> q_random (pl_queue pl) \<or> outside start ?e pl" using adm by simp
    obtain pl' pc' where "playlist_delete_range G PT pl pc start ?e = Some (MPD_SUCCESS, pl', pc')"
      "playlist_ok rest pl' pc'"
      using playlist_delete_range_returns [OF PT G ok True en out] by blast
    then show ?thesis using delete_range_cut [OF wf, of start G PT pc "end"] True by (auto intro: servedI)
  next
    case False
    then show ?thesis
      using ok by (cases "?n \<le> start") (auto intro!: servedI simp: not_le delete_range_bad_range [OF wf])
  qed
  show "served G PT rest (Set_Priority start end v) (pl, pc)" if adm: "admissible (Set_Priority start end v) pl"
  proof (cases "start < ?e")
    case True
    have srt: "upcoming_sorted pl" using adm by simp
    obtain pl' pc' where "playlist_set_priority G PT pl pc start ?e v = Some (MPD_SUCCESS, pl', pc')"
      "playlist_ok rest pl' pc'"
      using playlist_set_priority_returns [OF PT G ok srt True en] by blast
    then show ?thesis using set_priority_cut [OF wf, of start G PT pc "end" v] True by (auto intro: servedI)
  next
    case False
    then show ?thesis
      using ok by (cases "?n \<le> start") (auto intro!: servedI simp: not_le set_priority_bad_range [OF wf])
  qed
  show "served G PT rest (Shuffle start end) (pl, pc)" if adm: "admissible (Shuffle start end) pl"
  proof (cases "start + 1 < ?e")
    case True
    obtain pl' pc' where "playlist_shuffle G PT pl pc start ?e = Some (pl', pc')" "playlist_ok rest pl' pc'"
      using playlist_shuffle_returns [OF PT G ok True en] by blast
    then show ?thesis using shuffle_cut [OF wf, of G PT pc start "end"] by (auto intro: servedI)
  next
    case False
    have "to_unsigned (int start + 1) = start + 1" using adm by (simp add: to_unsigned_def nat_eq_iff)
    then have "playlist_shuffle G PT pl pc start ?e = Some (pl, pc)" using False wf by (auto simp: playlist_shuffle_def Let_def)
    then show ?thesis using shuffle_cut [OF wf, of G PT pc start "end"] ok by (auto intro: servedI)
  qed
qed

lemma served_songs:
  assumes PT: "live_player PT rest" and G: "glib_ok G" and ok: "playlist_ok rest pl pc"
  shows "served G PT rest (Seek song t) (pl, pc)"
    "admissible (Add s) pl \<Longrightarrow> served G PT rest (Add s) (pl, pc)"
    "admissible (Delete_Song song) pl \<Longrightarrow> served G PT rest (Delete_Song song) (pl, pc)"
    "served G PT rest (Swap_Songs s1 s2) (pl, pc)"
    "admissible (Move_Songs start end to) pl \<Longrightarrow> served G PT rest (Move_Songs start end to) (pl, pc)"
proof -
  let ?n = "q_length (pl_queue pl)"
  have wf: "queue_wf (pl_queue pl)" using ok by (simp add: playlist_ok_def)
  show "served G PT rest (Seek song t) (pl, pc)"
  proof (cases "song < ?n")
    case True
    obtain pl' pc' where "playlist_seek_song G PT pl pc song t = Some (MPD_SUCCESS, pl', pc')"
      "playlist_ok rest pl' pc'"
      using playlist_seek_song_returns [OF PT G ok True] by blast
    then show ?thesis by (auto intro: servedI)
  qed (use ok in \<open>auto intro!: servedI simp: seek_bad_range\<close>)
  show "served G PT rest (Add s) (pl, pc)" if adm: "admissible (Add s) pl"
  proof (cases "?n < q_max_length (pl_queue pl)")
    case True
    have a: "s_uri s \<noteq> []" "q_random (pl_queue pl) \<longrightarrow> pl_queued pl < 0 \<or> pl_current pl \<le> pl_queued pl"
      using adm by simp_all
    obtain sid pl' pc' where "playlist_append_song G PT pl pc s = Some (MPD_SUCCESS, Some sid, pl', pc')"
      "playlist_ok rest pl' pc'"
      using playlist_append_song_returns [OF PT G ok True a] by blast
    then show ?thesis by (auto intro: servedI)
  next
    case False
    then have "?n = q_max_length (pl_queue pl)" using queue_wfD(4) [OF wf] by simp
    then show ?thesis using ok by (auto intro!: servedI simp: append_too_large [OF wf])
  qed
  show "served G PT rest (Delete_Song song) (pl, pc)" if adm: "admissible (Delete_Song song) pl"
  proof (cases "song < ?n")
    case True
    have a: "pl_playing pl \<and> current_pos pl = Some song \<longrightarrow> \<not> q_random (pl_queue pl)" using adm by simp
    obtain pl' pc' where "playlist_delete G PT pl pc song = Some (MPD_SUCCESS, pl', pc')" "playlist_ok rest pl' pc'"
      using playlist_delete_returns [OF PT G ok True a] by blast
    then show ?thesis by (auto intro: servedI)
  qed (use ok in \<open>auto intro!: servedI simp: delete_bad_range [OF wf]\<close>)
  show "served G PT rest (Swap_Songs s1 s2) (pl, pc)"
  proof (cases "s1 < ?n \<and> s2 < ?n")
    case True
    then have s: "s1 < ?n" "s2 < ?n" by simp_all
    obtain pl' pc' where "playlist_swap_songs G PT pl pc s1 s2 = Some (MPD_SUCCESS, pl', pc')"
      "playlist_ok rest pl' pc'"
      using playlist_swap_songs_returns [OF PT G ok s] by blast
    then show ?thesis by (auto intro: servedI)
  next
    case False
    then have "?n \<le> s1 \<or> ?n \<le> s2" by auto
    then show ?thesis using ok by (auto intro!: servedI simp: swap_bad_range)
  qed
  show "served G PT rest (Move_Songs start end to) (pl, pc)" if adm: "admissible (Move_Songs start end to) pl"
  proof -
    have a: "start < end" "end \<le> ?n" "to + end \<le> ?n + start"
      "\<not> q_random (pl_queue pl) \<longrightarrow> follows_move start end to (pl_current pl)"
      using adm by simp_all
    obtain pl' pc' where "playlist_move_range G PT pl pc start end (int to) = Some (MPD_SUCCESS, pl', pc')"
      "playlist_ok rest pl' pc'"
      using playlist_move_range_returns [OF PT G ok a] by blast
    then show ?thesis by (auto intro: servedI)
  qed
qed

lemma served_modes:
  assumes PT: "live_player PT rest" and G: "glib_ok G" and ok: "playlist_ok rest pl pc"
  shows "served G PT rest (Set_Random b) (pl, pc)" "served G PT rest (Set_Repeat b) (pl, pc)"
    "served G PT rest (Set_Single b) (pl, pc)" "served G PT rest (Set_Consume b) (pl, pc)"
    "served G PT rest Clear_All (pl, pc)" "served G PT rest Tag_Changed (pl, pc)"
    "served G PT rest Stop (pl, pc)" "served G PT rest Previous (pl, pc)"
proof -
  obtain prev where up: "updatable rest pl pc prev" using playlist_ok_updatable [OF ok] .
  show "served G PT rest (Set_Random b) (pl, pc)"
    by (rule playlist_set_random_returns [OF PT G ok, of b]) (simp add: served_def)
  show "served G PT rest (Set_Repeat b) (pl, pc)"
    by (rule playlist_set_repeat_returns [OF PT G ok, of b]) (simp add: served_def)
  show "served G PT rest (Set_Single b) (pl, pc)"
    by (rule playlist_set_single_returns [OF PT G ok, of b]) (simp add: served_def)
  show "served G PT rest (Set_Consume b) (pl, pc)"
    by (rule playlist_set_consume_returns [OF PT ok, of b]) (simp add: served_def)
  show "served G PT rest Clear_All (pl, pc)"
    by (rule playlist_clear_returns [OF PT G ok]) (simp add: served_def)
  show "served G PT rest Tag_Changed (pl, pc)"
    by (rule playlist_tag_changed_returns [OF PT ok]) (simp add: served_def)
  show "served G PT rest Stop (pl, pc)"
    by (rule playlist_stop_returns [OF PT G up]) (simp add: served_def)
  show "served G PT rest Previous (pl, pc)"
    by (rule playlist_previous_returns [OF PT ok]) (simp add: served_def)
qed

lemma admissible_served:
  assumes PT: "live_player PT rest" and G: "glib_ok G" and ok: "playlist_ok rest pl pc" and adm: "admissible r pl"
  shows "served G PT rest r (pl, pc)"
proof (cases r)
  case (Play song)
  then show ?thesis using served_play [OF PT ok] adm by simp
next
  case Next
  have "same_round pl" using adm Next by simp
  then show ?thesis unfolding Next by (rule playlist_next_ok [OF PT G ok]) (simp add: served_def)
next
  case Sync
  have "same_round pl" "q_consume (pl_queue pl) \<longrightarrow> pl_queued pl \<noteq> pl_current pl" using adm Sync by simp_all
  then show ?thesis unfolding Sync by (rule playlist_sync_returns [OF PT G ok]) (simp add: served_def)
qed (use served_songs [OF PT G ok] served_ranges [OF PT G ok] served_modes [OF PT G ok] adm in simp_all)

section \<open>Runs\<close>

text \<open>
  A run starts with a fresh playlist.  Between two requests the player thread may do anything its
  contract allows: change state, consume \<^verbatim>\<open>next_song\<close>, report an error.
\<close>

definition player_moves :: "('t player_control \<Rightarrow> bool) \<Rightarrow> 't player_control \<Rightarrow> 't player_control \<Rightarrow> bool" where
  "player_moves rest pc pc' \<longleftrightarrow> pc_ok pc' \<and> rest pc' \<and>
     (pc_next_song pc' = None \<or> pc_next_song pc' = pc_next_song pc)"

inductive run ::
    "'g glib \<Rightarrow> 't player_thread \<Rightarrow> ('t player_control \<Rightarrow> bool) \<Rightarrow> ('g, 't) pstate \<Rightarrow> bool"
  for G PT rest where
  start: "\<lbrakk>length order_mem = max_length; max_length * QUEUE_HASH_MULT < 2 ^ 31;
      pc_ok pc; rest pc; pc_next_song pc = None\<rbrakk> \<Longrightarrow>
    run G PT rest (playlist_init order_mem rand cur max_length, pc)"
| request: "run G PT rest (pl, pc) \<Longrightarrow> admissible r pl \<Longrightarrow> serve G PT r (pl, pc) = Some st \<Longrightarrow> run G PT rest st"
| player: "run G PT rest (pl, pc) \<Longrightarrow> player_moves rest pc pc' \<Longrightarrow> run G PT rest (pl, pc')"

inductive_cases runE: "run G PT rest (pl, pc)"

lemma run_ok:
  assumes PT: "live_player PT rest" and G: "glib_ok G" and run: "run G PT rest st"
  shows "playlist_ok rest (fst st) (snd st)"
  using run
proof induction
  case (start order_mem max_length pc rand cur)
  then show ?case using playlist_init_ok by simp
next
  case (request pl pc r st)
  then show ?case using admissible_served [OF PT G _ request.hyps(2), of pc] by (auto simp: served_def)
next
  case (player pl pc pc')
  then show ?case by (auto simp: playlist_ok_def player_moves_def)
qed

end
