(* ===== verification/Playlist_Theorems.thy ===== *)
theory Playlist_Theorems
  imports Playlist_Machine Sample
begin

text \<open>
  The properties of the playlist, each with an example.  They hold for every player thread that
  answers all commands the way the interface prescribes (\<open>live_player\<close>) and a glib that behaves as
  documented.  In each of them the operation returns: no assertion fails, no array access is out of
  bounds and no wait is endless.
\<close>

section \<open>Runs\<close>




section \<open>Playing\<close>

text \<open>
  Playing a position makes the song at that position the current one and playback runs, in
  sequential and in random mode; the list of songs does not change.  Playing -1 resumes.
\<close>

lemma playlist_play_plays:
  assumes "live_player PT rest" "playlist_ok rest pl pc" "-1 \<le> song" "song < int (q_length (pl_queue pl))"
  shows "\<exists>pl' pc'. playlist_play PT pl pc song = Some (MPD_SUCCESS, pl', pc') \<and> playlist_ok rest pl' pc' \<and>
    queue_view (pl_queue pl') = queue_view (pl_queue pl) \<and>
    (pl_playing pl' \<longleftrightarrow> 0 < q_length (pl_queue pl)) \<and> (0 \<le> song \<longrightarrow> current_pos pl' = Some (nat song))"
  by (rule playlist_play_returns [OF assms]) (intro exI conjI; assumption)

text \<open>
  Stopping ends playback and drops the queued song; the song that was current stays selected,
  also when the play order is shuffled again in random mode, and the list of songs does not change.
\<close>

lemma playlist_stop_stops:
  assumes "live_player PT rest" "glib_ok G" "playlist_ok rest pl pc"
  shows "\<exists>pl' pc'. playlist_stop G PT pl pc = Some (pl', pc') \<and> playlist_ok rest pl' pc' \<and> \<not> pl_playing pl' \<and>
    pl_queued pl' = -1 \<and> current_id pl' = current_id pl \<and> queue_view (pl_queue pl') = queue_view (pl_queue pl)"
proof -
  obtain prev where up: "updatable rest pl pc prev" using playlist_ok_updatable [OF assms(3)] .
  obtain pl' pc' where s: "playlist_stop G PT pl pc = Some (pl', pc')" "playlist_ok rest pl' pc'"
    "settled (pl\<lparr>pl_playing := False\<rparr>) pl'"
    using playlist_stop_returns [OF assms(1,2) up] by blast
  have "\<not> pl_playing pl'" "reordered (pl_queue pl) (pl_queue pl')" using s(3) by (simp_all add: settled_def)
  moreover have "current_id pl' = current_id pl"
    using settled_current_id [OF s(3)] by (simp add: current_id_def current_pos_def)
  ultimately show ?thesis using s(1,2) by (auto simp: reordered_view playlist_ok_def)
qed




text \<open>
  Going back plays the preceding song of the play order; at its beginning it plays the last
  song when repeat is on and the same song again otherwise.
\<close>

lemma playlist_previous_goes_back:
  assumes "live_player PT rest" "playlist_ok rest pl pc"
  shows "\<exists>pl' pc'. playlist_previous PT pl pc = Some (pl', pc') \<and> playlist_ok rest pl' pc' \<and>
    pl_queue pl' = pl_queue pl \<and> pl_playing pl' = pl_playing pl \<and>
    (pl_playing pl \<longrightarrow> pl_current pl' = (if 0 < pl_current pl then pl_current pl - 1
       else if q_repeat (pl_queue pl) then int (q_length (pl_queue pl)) - 1 else pl_current pl))"
  by (rule playlist_previous_returns [OF assms]) blast

text \<open>
  Seeking to a song makes it the current one and playback runs; the list of songs does not
  change.
\<close>

lemma playlist_seek_song_selects:
  assumes "live_player PT rest" "glib_ok G" "playlist_ok rest pl pc" "song < q_length (pl_queue pl)"
  shows "\<exists>pl' pc'. playlist_seek_song G PT pl pc song t = Some (MPD_SUCCESS, pl', pc') \<and>
    playlist_ok rest pl' pc' \<and> queue_view (pl_queue pl') = queue_view (pl_queue pl) \<and>
    pl_playing pl' \<and> current_pos pl' = Some song"
  by (rule playlist_seek_song_returns [OF assms]) blast

text \<open>
  When the player has begun to play the queued song, that song becomes the current one, and in
  consume mode the song played before is removed, and no other.
\<close>

lemma playlist_song_started_advances:
  assumes "live_player PT rest" "glib_ok G" "playlist_ok rest pl pc" "pl_playing pl"
    "pc_next_song pc = None" "pl_queued pl \<noteq> -1" "q_consume (pl_queue pl) \<longrightarrow> pl_queued pl \<noteq> pl_current pl"
  shows "\<exists>pl' pc'. playlist_song_started G PT pl pc = Some (pl', pc') \<and> playlist_ok rest pl' pc' \<and>
    queue_view (pl_queue pl') = (if q_consume (pl_queue pl)
      then remove_nth (q_order (pl_queue pl) ! nat (pl_current pl)) (queue_view (pl_queue pl))
      else queue_view (pl_queue pl)) \<and>
    pl_playing pl' \<and> current_id pl' = Some (play_ids (pl_queue pl) ! nat (pl_queued pl))"
  by (rule playlist_song_started_returns [OF assms]) blast

definition sample_queued :: "nat playlist" where
  "sample_queued = (sample_playlist True True)\<lparr>pl_queued := 1,
     pl_queue := (sample_queue True)\<lparr>q_consume := True\<rparr>\<rparr>"

lemma sample_queued_ok: "playlist_ok (\<lambda>_. True) sample_queued (sample_pc True)"
  using sample_playlist_ok [of True True] by (simp add: playlist_ok_def sample_queued_def)

section \<open>Editing\<close>

text \<open>
  Appending a song to a playlist that is not full adds it at the end of the list, and the current
  song stays current.  (In random mode the case that the queued song precedes the current one in the
  play order is excluded: there the new song may take the place of the current one.)
\<close>

lemma playlist_append_song_appends:
  assumes "live_player PT rest" "glib_ok G" "playlist_ok rest pl pc"
    "q_length (pl_queue pl) < q_max_length (pl_queue pl)" "s_uri song \<noteq> []"
    "q_random (pl_queue pl) \<longrightarrow> pl_queued pl < 0 \<or> pl_current pl \<le> pl_queued pl"
  shows "\<exists>sid pl' pc'. playlist_append_song G PT pl pc song = Some (MPD_SUCCESS, Some sid, pl', pc') \<and>
    playlist_ok rest pl' pc' \<and> queue_view (pl_queue pl') = queue_view (pl_queue pl) @ [(song, sid, 0)] \<and>
    current_id pl' = current_id pl \<and> pl_playing pl' = pl_playing pl"
  by (rule playlist_append_song_returns [OF assms]) blast



text \<open>
  Deleting a range removes exactly the songs of the range; a current song outside of it stays
  current.  (In random mode the current song must be outside of the range.)
\<close>

lemma playlist_delete_range_removes:
  assumes "live_player PT rest" "glib_ok G" "playlist_ok rest pl pc" "start < end" "end \<le> q_length (pl_queue pl)"
    "\<not> q_random (pl_queue pl) \<or> outside start end pl"
  shows "\<exists>pl' pc'. playlist_delete_range G PT pl pc start end = Some (MPD_SUCCESS, pl', pc') \<and>
    playlist_ok rest pl' pc' \<and>
    queue_view (pl_queue pl') = take start (queue_view (pl_queue pl)) @ drop end (queue_view (pl_queue pl)) \<and>
    (outside start end pl \<longrightarrow> current_id pl' = current_id pl \<and> pl_playing pl' = pl_playing pl)"
  by (rule playlist_delete_range_returns [OF assms]) blast

text \<open>Swapping two songs exchanges them in the list and nothing else; the current song stays current.\<close>

lemma playlist_swap_songs_swaps:
  assumes "live_player PT rest" "glib_ok G" "playlist_ok rest pl pc"
    "s1 < q_length (pl_queue pl)" "s2 < q_length (pl_queue pl)"
  shows "\<exists>pl' pc'. playlist_swap_songs G PT pl pc s1 s2 = Some (MPD_SUCCESS, pl', pc') \<and>
    playlist_ok rest pl' pc' \<and> queue_view (pl_queue pl') = swap_at s1 s2 (queue_view (pl_queue pl)) \<and>
    current_id pl' = current_id pl \<and> pl_playing pl' = pl_playing pl"
  by (rule playlist_swap_songs_returns [OF assms]) blast

text \<open>
  Moving a range of songs moves that block of the list, and the current song stays current.  (In
  sequential mode \<open>follows_move\<close> excludes the positions of the current song for which the code
  computes the wrong new position.)
\<close>

lemma playlist_move_range_moves:
  assumes "live_player PT rest" "glib_ok G" "playlist_ok rest pl pc"
    "start < end" "end \<le> q_length (pl_queue pl)" "to + end \<le> q_length (pl_queue pl) + start"
    "\<not> q_random (pl_queue pl) \<longrightarrow> follows_move start end to (pl_current pl)"
  shows "\<exists>pl' pc'. playlist_move_range G PT pl pc start end (int to) = Some (MPD_SUCCESS, pl', pc') \<and>
    playlist_ok rest pl' pc' \<and> queue_view (pl_queue pl') = move_block start end to (queue_view (pl_queue pl)) \<and>
    current_id pl' = current_id pl \<and> pl_playing pl' = pl_playing pl"
  by (rule playlist_move_range_returns [OF assms]) blast

text \<open>
  Shuffling a range of the list loses and doubles no song, and a song that is playing stays the
  current one.
\<close>

lemma playlist_shuffle_permutes:
  assumes "live_player PT rest" "glib_ok G" "playlist_ok rest pl pc" "start + 1 < end" "end \<le> q_length (pl_queue pl)"
  shows "\<exists>pl' pc'. playlist_shuffle G PT pl pc start end = Some (pl', pc') \<and> playlist_ok rest pl' pc' \<and>
    mset (queue_view (pl_queue pl')) = mset (queue_view (pl_queue pl)) \<and>
    (pl_playing pl \<longrightarrow> current_id pl' = current_id pl) \<and> pl_playing pl' = pl_playing pl"
  by (rule playlist_shuffle_returns [OF assms]) blast

text \<open>
  Setting the priority of a range changes these priorities and nothing else, and the current song
  stays current.
\<close>

lemma playlist_set_priority_sets:
  assumes "live_player PT rest" "glib_ok G" "playlist_ok rest pl pc" "upcoming_sorted pl"
    "start < end" "end \<le> q_length (pl_queue pl)"
  shows "\<exists>pl' pc'. playlist_set_priority G PT pl pc start end prio = Some (MPD_SUCCESS, pl', pc') \<and>
    playlist_ok rest pl' pc' \<and>
    queue_view (pl_queue pl') = set_view_priority start end prio (queue_view (pl_queue pl)) \<and>
    current_id pl' = current_id pl \<and> pl_playing pl' = pl_playing pl"
  by (rule playlist_set_priority_returns [OF assms]) blast

section \<open>Options and errors\<close>

text \<open>
  Switching random mode on or off keeps the list of songs, the song that is playing, and
  playback; without random mode the play order is the list order again.
\<close>

lemma playlist_set_random_keeps_song:
  assumes "live_player PT rest" "glib_ok G" "playlist_ok rest pl pc"
  shows "\<exists>pl' pc'. playlist_set_random G PT pl pc status = Some (pl', pc') \<and> playlist_ok rest pl' pc' \<and>
    q_random (pl_queue pl') = status \<and> queue_view (pl_queue pl') = queue_view (pl_queue pl) \<and>
    (pl_playing pl \<longrightarrow> current_id pl' = current_id pl) \<and> pl_playing pl' = pl_playing pl \<and>
    (\<not> status \<longrightarrow> play_order (pl_queue pl') = [0..<q_length (pl_queue pl')])"
  by (rule playlist_set_random_returns [OF assms, of status])
    (auto simp: playlist_ok_def sequential_ok_def)

text \<open>
  The options repeat, single and consume are set as asked, and neither the songs nor the current
  song nor playback change.
\<close>

lemma playlist_options_set:
  assumes "live_player PT rest" "glib_ok G" "playlist_ok rest pl pc"
  shows "(\<exists>pl' pc'. playlist_set_repeat G PT pl pc status = Some (pl', pc') \<and> playlist_ok rest pl' pc' \<and>
      q_repeat (pl_queue pl') = status \<and> queue_view (pl_queue pl') = queue_view (pl_queue pl) \<and>
      current_id pl' = current_id pl \<and> pl_playing pl' = pl_playing pl) \<and>
    (\<exists>pl' pc'. playlist_set_single G PT pl pc status = Some (pl', pc') \<and> playlist_ok rest pl' pc' \<and>
      q_single (pl_queue pl') = status \<and> queue_view (pl_queue pl') = queue_view (pl_queue pl) \<and>
      current_id pl' = current_id pl \<and> pl_playing pl' = pl_playing pl) \<and>
    (\<exists>pc'. playlist_set_consume pl pc status =
      Some (pl\<lparr>pl_queue := (pl_queue pl)\<lparr>q_consume := status\<rparr>\<rparr>, pc'))"
proof (intro conjI)
  show "\<exists>pl' pc'. playlist_set_repeat G PT pl pc status = Some (pl', pc') \<and> playlist_ok rest pl' pc' \<and>
      q_repeat (pl_queue pl') = status \<and> queue_view (pl_queue pl') = queue_view (pl_queue pl) \<and>
      current_id pl' = current_id pl \<and> pl_playing pl' = pl_playing pl"
    by (rule playlist_set_repeat_returns [OF assms, of status]) blast
  show "\<exists>pl' pc'. playlist_set_single G PT pl pc status = Some (pl', pc') \<and> playlist_ok rest pl' pc' \<and>
      q_single (pl_queue pl') = status \<and> queue_view (pl_queue pl') = queue_view (pl_queue pl) \<and>
      current_id pl' = current_id pl \<and> pl_playing pl' = pl_playing pl"
    by (rule playlist_set_single_returns [OF assms, of status]) blast
  show "\<exists>pc'. playlist_set_consume pl pc status =
      Some (pl\<lparr>pl_queue := (pl_queue pl)\<lparr>q_consume := status\<rparr>\<rparr>, pc')"
    by (rule playlist_set_consume_returns [OF assms(1,3), of status]) blast
qed

text \<open>Clearing stops playback and leaves an empty, well-formed playlist without a current song.\<close>

lemma playlist_clear_empties:
  assumes "live_player PT rest" "glib_ok G" "playlist_ok rest pl pc"
  shows "\<exists>pl' pc'. playlist_clear G PT pl pc = Some (pl', pc') \<and> playlist_ok rest pl' pc' \<and>
    q_length (pl_queue pl') = 0 \<and> \<not> pl_playing pl' \<and> pl_current pl' = -1"
  by (rule playlist_clear_returns [OF assms]) blast

text \<open>
  Positions behind the end of the queue, and a full queue, are reported by the error code the
  protocol names; the playlist stays as it is.
\<close>

lemma playlist_errors_change_nothing:
  assumes "queue_wf (pl_queue pl)" "q_length (pl_queue pl) \<le> song"
  shows "playlist_seek_song G PT pl pc song t = Some (PLAYLIST_BAD_RANGE, pl, pc) \<and>
    playlist_delete G PT pl pc song = Some (PLAYLIST_BAD_RANGE, pl, pc) \<and>
    playlist_delete_range G PT pl pc song end = Some (PLAYLIST_BAD_RANGE, pl, pc) \<and>
    playlist_swap_songs G PT pl pc song s = Some (PLAYLIST_BAD_RANGE, pl, pc) \<and>
    playlist_swap_songs G PT pl pc s song = Some (PLAYLIST_BAD_RANGE, pl, pc) \<and>
    playlist_set_priority G PT pl pc song end v = Some (PLAYLIST_BAD_RANGE, pl, pc) \<and>
    (q_length (pl_queue pl) = q_max_length (pl_queue pl) \<longrightarrow>
      playlist_append_song G PT pl pc new = Some (PLAYLIST_TOO_LARGE, None, pl, pc))"
  using assms
  by (simp add: seek_bad_range delete_bad_range delete_range_bad_range swap_bad_range set_priority_bad_range
      append_too_large)

end
