(* ===== verification/Player_Task.thy ===== *)
theory Player_Task
  imports Player_Control
begin

text \<open>
  The player thread, \<^verbatim>\<open>src/player_thread.c\<close>: how it takes commands out of \<^verbatim>\<open>struct player_control\<close>,
  when it is waiting in \<^verbatim>\<open>player_task\<close> and when it is playing in the loop of \<^verbatim>\<open>do_play\<close>, and what
  one round of that loop does to the shared structure.

  The decoder thread and the audio outputs are asked for answers (has the decoder failed, did the
  device open, is the pipe empty, ...); they are the functions of the record \<open>'e outside\<close>, each of
  which answers from the state \<open>'e\<close> of that outside world and advances it.  Music pipes are tracked
  as far as the code compares them: does the decoder write to no pipe, to the pipe being played, or
  to the pipe of the next song.
\<close>

section \<open>State\<close>

datatype xfade_state = XFADE_DISABLED | XFADE_UNKNOWN | XFADE_ENABLED

datatype dc_pipe = DC_NO_PIPE | DC_CURRENT_PIPE | DC_NEXT_PIPE

record player =
  p_buffering :: bool
  p_decoder_starting :: bool
  p_paused :: bool
  p_queued :: bool
  p_output_open :: bool
  p_song :: "song option"
  p_xfade :: xfade_state
  p_cross_fading :: bool
  p_cross_fade_chunks :: nat
  p_play_audio_format :: audio_format
  p_elapsed_time :: real

text \<open>
  \<open>th_player\<close> is the local variable of \<^verbatim>\<open>do_play\<close> while it runs; \<open>None\<close> means the thread is in the
  loop of \<^verbatim>\<open>player_task\<close>.  The \<open>dc_\<close> members are those of \<^verbatim>\<open>struct decoder_control\<close> the thread writes.
\<close>

record 'e thread =
  th_player :: "player option"
  th_dc_pipe :: dc_pipe
  th_dc_song :: "song option"
  th_dc_start_ms :: u32
  th_dc_end_ms :: u32
  th_exited :: bool
  th_outside :: 'e

record 'e outside =
  o_decoder_has_failed :: "'e \<Rightarrow> bool \<times> 'e"
  o_decoder_is_starting :: "'e \<Rightarrow> bool \<times> 'e"
  o_decoder_is_idle :: "'e \<Rightarrow> bool \<times> 'e"
  o_dc_seek :: "'e \<Rightarrow> bool \<times> 'e"
  o_dc_in_audio_format :: "'e \<Rightarrow> audio_format \<times> 'e"
  o_dc_out_audio_format :: "'e \<Rightarrow> audio_format \<times> 'e"
  o_dc_total_time :: "'e \<Rightarrow> real \<times> 'e"
  o_audio_output_all_open :: "'e \<Rightarrow> bool \<times> 'e"
  o_audio_output_all_wait :: "'e \<Rightarrow> bool \<times> 'e"
  o_audio_output_all_check :: "'e \<Rightarrow> nat \<times> 'e"
  o_audio_output_all_get_elapsed_time :: "'e \<Rightarrow> real \<times> 'e"
  o_audio_output_all_play :: "'e \<Rightarrow> bool \<times> 'e"
  o_music_pipe_size :: "'e \<Rightarrow> nat \<times> 'e"
  o_next_chunk_ready :: "'e \<Rightarrow> bool \<times> 'e"
  o_chunk_bit_rate :: "'e \<Rightarrow> u16 \<times> 'e"
  o_chunk_length :: "'e \<Rightarrow> nat \<times> 'e"
  o_cross_fade_calc :: "'e \<Rightarrow> nat \<times> 'e"

type_synonym 'e pcontrol = "'e thread player_control"

definition ask :: "('e \<Rightarrow> 'b \<times> 'e) \<Rightarrow> 'e pcontrol \<Rightarrow> 'b \<times> 'e pcontrol" where
  "ask f pc = (let (b, e) = f (th_outside (pc_thread pc)) in
     (b, pc\<lparr>pc_thread := (pc_thread pc)\<lparr>th_outside := e\<rparr>\<rparr>))"

section \<open>Answering the main thread\<close>

definition player_command_finished_locked :: "'e pcontrol \<Rightarrow> 'e pcontrol option" where
  "player_command_finished_locked pc = do {
     assert_that (pc_command pc \<noteq> PLAYER_COMMAND_NONE);
     pc \<leftarrow> Some (pc\<lparr>pc_command := PLAYER_COMMAND_NONE\<rparr>);
     Some (if pc_error pc = PLAYER_ERROR_PENDING then pc\<lparr>pc_error := PLAYER_ERROR_NOERROR\<rparr> else pc)
   }"

definition player_command_finished :: "'e pcontrol \<Rightarrow> 'e pcontrol option" where
  "player_command_finished pc = player_command_finished_locked pc"

section \<open>Decoder\<close>

text \<open>The seek offset is converted from \<^verbatim>\<open>double\<close> to \<^verbatim>\<open>unsigned\<close> and added with wrap-around.\<close>

definition player_dc_start :: "player \<Rightarrow> dc_pipe \<Rightarrow> 'e pcontrol \<Rightarrow> 'e pcontrol option" where
  "player_dc_start player pipe pc = do {
     assert_that (p_queued player \<or> pc_command pc = PLAYER_COMMAND_SEEK);
     song \<leftarrow> pc_next_song pc;
     let start_ms = (if pc_command pc = PLAYER_COMMAND_SEEK
       then s_start_ms song + word_of_int \<lfloor>pc_seek_where pc * 1000\<rfloor> else s_start_ms song);
     Some (pc\<lparr>pc_thread := (pc_thread pc)\<lparr>th_dc_pipe := pipe, th_dc_song := Some song,
       th_dc_start_ms := start_ms, th_dc_end_ms := s_end_ms song\<rparr>\<rparr>)
   }"

definition player_dc_at_current_song :: "'e pcontrol \<Rightarrow> bool" where
  "player_dc_at_current_song pc \<longleftrightarrow> th_dc_pipe (pc_thread pc) = DC_CURRENT_PIPE"

definition player_dc_at_next_song :: "'e pcontrol \<Rightarrow> bool" where
  "player_dc_at_next_song pc \<longleftrightarrow>
     th_dc_pipe (pc_thread pc) \<noteq> DC_NO_PIPE \<and> \<not> player_dc_at_current_song pc"

definition player_dc_stop :: "'e pcontrol \<Rightarrow> 'e pcontrol" where
  "player_dc_stop pc = pc\<lparr>pc_thread := (pc_thread pc)\<lparr>th_dc_pipe := DC_NO_PIPE\<rparr>\<rparr>"

definition player_wait_for_decoder ::
    "'e outside \<Rightarrow> player \<Rightarrow> 'e pcontrol \<Rightarrow> (bool \<times> player \<times> 'e pcontrol) option" where
  "player_wait_for_decoder E player pc = do {
     assert_that (p_queued player \<or> pc_command pc = PLAYER_COMMAND_SEEK);
     song \<leftarrow> pc_next_song pc;
     player \<leftarrow> Some (player\<lparr>p_queued := False\<rparr>);
     let (failed, pc) = ask (o_decoder_has_failed E) pc;
     if failed then
       Some (False, player, pc\<lparr>pc_errored_song := th_dc_song (pc_thread pc),
         pc_error := PLAYER_ERROR_FILE, pc_next_song := None\<rparr>)
     else
       Some (True, player\<lparr>p_song := Some song, p_elapsed_time := 0, p_decoder_starting := True\<rparr>,
         pc\<lparr>pc_total_time := song_get_duration song, pc_bit_rate := 0,
            pc_audio_format := audio_format_clear, pc_next_song := None\<rparr>)
   }"

definition real_song_duration :: "song \<Rightarrow> real \<Rightarrow> real" where
  "real_song_duration song decoder_duration =
     (if decoder_duration \<le> 0 then song_get_duration song
      else if s_end_ms song > 0 \<and> of_nat (unat (s_end_ms song)) / 1000 < decoder_duration
      then of_nat (unat (s_end_ms song - s_start_ms song)) / 1000
      else decoder_duration - of_nat (unat (s_start_ms song)) / 1000)"

definition player_open_output ::
    "'e outside \<Rightarrow> player \<Rightarrow> 'e pcontrol \<Rightarrow> (bool \<times> player \<times> 'e pcontrol) option" where
  "player_open_output E player pc = do {
     assert_that (audio_format_defined (p_play_audio_format player));
     assert_that (pc_state pc = PLAYER_STATE_PLAY \<or> pc_state pc = PLAYER_STATE_PAUSE);
     let (ok, pc) = ask (o_audio_output_all_open E) pc;
     if ok then do {
       pc \<leftarrow> pc_idle_add IDLE_PLAYER (pc\<lparr>pc_state := PLAYER_STATE_PLAY\<rparr>);
       Some (True, player\<lparr>p_output_open := True, p_paused := False\<rparr>, pc)
     }
     else do {
       pc \<leftarrow> pc_idle_add IDLE_PLAYER
         (pc\<lparr>pc_error := PLAYER_ERROR_AUDIO, pc_state := PLAYER_STATE_PAUSE\<rparr>);
       Some (False, player\<lparr>p_output_open := False, p_paused := True\<rparr>, pc)
     }
   }"

definition player_check_decoder_startup ::
    "'e outside \<Rightarrow> player \<Rightarrow> 'e pcontrol \<Rightarrow> (bool \<times> player \<times> 'e pcontrol) option" where
  "player_check_decoder_startup E player pc = do {
     assert_that (p_decoder_starting player);
     let (failed, pc) = ask (o_decoder_has_failed E) pc;
     let (starting, pc) = (if failed then (False, pc) else ask (o_decoder_is_starting E) pc);
     if failed then
       Some (False, player, pc\<lparr>pc_errored_song := th_dc_song (pc_thread pc),
         pc_error := PLAYER_ERROR_FILE\<rparr>)
     else if \<not> starting then do {
       let (drained, pc) = (if p_output_open player then ask (o_audio_output_all_wait E) pc
                            else (True, pc));
       if \<not> drained then Some (True, player, pc)
       else do {
         song \<leftarrow> th_dc_song (pc_thread pc);
         let (total, pc) = ask (o_dc_total_time E) pc;
         let (in_format, pc) = ask (o_dc_in_audio_format E) pc;
         pc \<leftarrow> pc_idle_add IDLE_PLAYER
           (pc\<lparr>pc_total_time := real_song_duration song total, pc_audio_format := in_format\<rparr>);
         let (out_format, pc) = ask (o_dc_out_audio_format E) pc;
         player \<leftarrow> Some (player\<lparr>p_play_audio_format := out_format, p_decoder_starting := False\<rparr>);
         if \<not> p_paused player then do {
           (_, player, pc) \<leftarrow> player_open_output E player pc;
           Some (True, player, pc)
         }
         else Some (True, player, pc)
       }
     }
     else Some (True, player, pc)
   }"

section \<open>Commands while playing\<close>

text \<open>The loop that waits for the decoder to start up; it may wait for ever.\<close>

partial_function (option) wait_decoder_startup ::
    "'e outside \<Rightarrow> player \<Rightarrow> 'e pcontrol \<Rightarrow> (bool \<times> player \<times> 'e pcontrol) option" where
  "wait_decoder_startup E player pc =
     (if p_decoder_starting player then do {
        (ok, player, pc) \<leftarrow> player_check_decoder_startup E player pc;
        if ok then wait_decoder_startup E player pc else Some (False, player, pc)
      }
      else Some (True, player, pc))"

definition seek_prepare ::
    "'e outside \<Rightarrow> player \<Rightarrow> 'e pcontrol \<Rightarrow> (bool \<times> player \<times> 'e pcontrol) option" where
  "seek_prepare E player pc = do {
     song \<leftarrow> pc_next_song pc;
     let (idle, pc) = ask (o_decoder_is_idle E) pc;
     if \<not> song_same_opt (if idle then None else th_dc_song (pc_thread pc)) (Some song) then do {
       pc \<leftarrow> player_dc_start player DC_CURRENT_PIPE (player_dc_stop pc);
       player_wait_for_decoder E player pc
     }
     else Some (True, player\<lparr>p_queued := False\<rparr>,
       pc\<lparr>pc_next_song := None, pc_thread := (pc_thread pc)\<lparr>th_dc_pipe := DC_CURRENT_PIPE\<rparr>\<rparr>)
   }"

definition clamp_seek :: "real \<Rightarrow> real \<Rightarrow> real" where
  "clamp_seek where_to total_time =
     (let w = (if where_to > total_time then total_time - 1 / 10 else where_to)
      in if w < 0 then 0 else w)"

definition player_seek_decoder ::
    "'e outside \<Rightarrow> player \<Rightarrow> 'e pcontrol \<Rightarrow> (player \<times> 'e pcontrol) option" where
  "player_seek_decoder E player pc = do {
     (ok, player, pc) \<leftarrow> seek_prepare E player pc;
     (ok, player, pc) \<leftarrow> (if ok then wait_decoder_startup E player pc else Some (False, player, pc));
     if \<not> ok then do { pc \<leftarrow> player_command_finished pc; Some (player, pc) }
     else do {
       let w = clamp_seek (pc_seek_where pc) (pc_total_time pc);
       let (sought, pc) = ask (o_dc_seek E) pc;
       if \<not> sought then do { pc \<leftarrow> player_command_finished pc; Some (player, pc) }
       else do {
         pc \<leftarrow> player_command_finished pc;
         Some (player\<lparr>p_elapsed_time := w, p_xfade := XFADE_UNKNOWN, p_buffering := True\<rparr>, pc)
       }
     }
   }"

definition player_process_command ::
    "'e outside \<Rightarrow> player \<Rightarrow> 'e pcontrol \<Rightarrow> (player \<times> 'e pcontrol) option" where
  "player_process_command E player pc =
     (case pc_command pc of
        PLAYER_COMMAND_NONE \<Rightarrow> Some (player, pc)
      | PLAYER_COMMAND_STOP \<Rightarrow> Some (player, pc)
      | PLAYER_COMMAND_EXIT \<Rightarrow> Some (player, pc)
      | PLAYER_COMMAND_CLOSE_AUDIO \<Rightarrow> Some (player, pc)
      | PLAYER_COMMAND_UPDATE_AUDIO \<Rightarrow> do {
          pc \<leftarrow> player_command_finished_locked pc;
          Some (player, pc)
        }
      | PLAYER_COMMAND_QUEUE \<Rightarrow> do {
          assert_that (pc_next_song pc \<noteq> None);
          assert_that (\<not> p_queued player);
          assert_that (\<not> player_dc_at_next_song pc);
          pc \<leftarrow> player_command_finished_locked pc;
          Some (player\<lparr>p_queued := True\<rparr>, pc)
        }
      | PLAYER_COMMAND_PAUSE \<Rightarrow> do {
          player \<leftarrow> Some (player\<lparr>p_paused := \<not> p_paused player\<rparr>);
          (player, pc) \<leftarrow>
            (if p_paused player then Some (player, pc\<lparr>pc_state := PLAYER_STATE_PAUSE\<rparr>)
             else if \<not> audio_format_defined (p_play_audio_format player)
             then Some (player, pc\<lparr>pc_state := PLAYER_STATE_PLAY\<rparr>)
             else do {
               (_, player, pc) \<leftarrow> player_open_output E player pc;
               Some (player, pc)
             });
          pc \<leftarrow> player_command_finished_locked pc;
          Some (player, pc)
        }
      | PLAYER_COMMAND_SEEK \<Rightarrow> player_seek_decoder E player pc
      | PLAYER_COMMAND_CANCEL \<Rightarrow>
          if pc_next_song pc = None then Some (player, pc\<lparr>pc_command := PLAYER_COMMAND_STOP\<rparr>)
          else do {
            pc \<leftarrow> Some (if player_dc_at_next_song pc then player_dc_stop pc else pc);
            pc \<leftarrow> player_command_finished_locked (pc\<lparr>pc_next_song := None\<rparr>);
            Some (player\<lparr>p_queued := False\<rparr>, pc)
          }
      | PLAYER_COMMAND_REFRESH \<Rightarrow> do {
          let pc = (if p_output_open player \<and> \<not> p_paused player
                    then snd (ask (o_audio_output_all_check E) pc) else pc);
          let (elapsed, pc) = ask (o_audio_output_all_get_elapsed_time E) pc;
          pc \<leftarrow> player_command_finished_locked
            (pc\<lparr>pc_elapsed_time := (if elapsed < 0 then p_elapsed_time player else elapsed)\<rparr>);
          Some (player, pc)
        })"

section \<open>Playing\<close>

definition player_song_border ::
    "'e outside \<Rightarrow> player \<Rightarrow> 'e pcontrol \<Rightarrow> (bool \<times> player \<times> 'e pcontrol) option" where
  "player_song_border E player pc = do {
     player \<leftarrow> Some (player\<lparr>p_xfade := XFADE_UNKNOWN\<rparr>);
     song \<leftarrow> p_song player;
     _ \<leftarrow> song_get_uri song;
     pc \<leftarrow> Some (pc\<lparr>pc_thread := (pc_thread pc)\<lparr>th_dc_pipe := DC_CURRENT_PIPE\<rparr>\<rparr>);
     (ok, player, pc) \<leftarrow> player_wait_for_decoder E player pc;
     if \<not> ok then Some (False, player, pc)
     else if pc_border_pause pc then do {
       pc \<leftarrow> pc_idle_add IDLE_PLAYER (pc\<lparr>pc_state := PLAYER_STATE_PAUSE\<rparr>);
       Some (True, player\<lparr>p_paused := True\<rparr>, pc)
     }
     else Some (True, player, pc)
   }"

text \<open>
  \<^verbatim>\<open>play_next_chunk\<close>.  The chunk is taken from the pipe and mixed with the chunk of the next song
  when a cross-fade is running; the PCM data and the tags travel through the outside world.  The
  result is ignored by the caller.
\<close>

definition cross_fade_step ::
    "'e outside \<Rightarrow> player \<Rightarrow> 'e pcontrol \<Rightarrow> bool \<times> player \<times> 'e pcontrol" where
  "cross_fade_step E player pc =
     (let (position, pc) = ask (o_music_pipe_size E) pc in
      if p_xfade player = XFADE_ENABLED \<and> player_dc_at_next_song pc \<and>
         position \<le> p_cross_fade_chunks player
      then let (other, pc) = ask (o_next_chunk_ready E) pc;
               player = (if \<not> p_cross_fading player
                 then player\<lparr>p_cross_fade_chunks := position, p_cross_fading := True\<rparr> else player)
           in if other then (True, player, pc)
              else let (idle, pc) = ask (o_decoder_is_idle E) pc in
                if idle then (True, player\<lparr>p_xfade := XFADE_DISABLED\<rparr>, pc)
                else (False, player, pc)
      else (True, player, pc))"

definition play_chunk ::
    "'e outside \<Rightarrow> player \<Rightarrow> 'e pcontrol \<Rightarrow> bool \<times> 'e pcontrol" where
  "play_chunk E player pc =
     (let (len, pc) = ask (o_chunk_length E) pc in
      if len = 0 then (True, pc)
      else let (rate, pc) = ask (o_chunk_bit_rate E) pc;
               pc = pc\<lparr>pc_bit_rate := rate\<rparr>;
               (ok, pc) = ask (o_audio_output_all_play E) pc
           in if \<not> ok then (False, pc)
              else (True, pc\<lparr>pc_total_play_time := pc_total_play_time pc +
                of_nat len / of_nat (unat (audio_format_time_to_size (p_play_audio_format player)))\<rparr>))"

definition play_next_chunk ::
    "'e outside \<Rightarrow> player \<Rightarrow> 'e pcontrol \<Rightarrow> (bool \<times> player \<times> 'e pcontrol) option" where
  "play_next_chunk E player pc = do {
     let (room, pc) = ask (o_audio_output_all_wait E) pc;
     if \<not> room then Some (True, player, pc)
     else do {
       let (ready, player, pc) = cross_fade_step E player pc;
       if \<not> ready then Some (True, player, pc)
       else do {
         let (ok, pc) = play_chunk E player pc;
         if \<not> ok then do {
           pc \<leftarrow> pc_idle_add IDLE_PLAYER
             (pc\<lparr>pc_error := PLAYER_ERROR_AUDIO, pc_state := PLAYER_STATE_PAUSE\<rparr>);
           Some (False, player\<lparr>p_paused := True\<rparr>, pc)
         }
         else Some (True, player, pc)
       }
     }
   }"

text \<open>\<^verbatim>\<open>player_send_silence\<close> writes zeroed samples to the pipe and always succeeds.\<close>

definition player_send_silence :: "player \<Rightarrow> unit option" where
  "player_send_silence player = do {
     assert_that (p_output_open player);
     assert_that (audio_format_defined (p_play_audio_format player))
   }"

text \<open>The first part of \<^verbatim>\<open>do_play\<close>: start the decoder and acknowledge the command.\<close>

definition do_play_begin :: "'e outside \<Rightarrow> 'e pcontrol \<Rightarrow> 'e pcontrol option" where
  "do_play_begin E pc = do {
     let player = \<lparr>p_buffering = True, p_decoder_starting = False, p_paused = False, p_queued = True,
       p_output_open = False, p_song = None, p_xfade = XFADE_UNKNOWN, p_cross_fading = False,
       p_cross_fade_chunks = 0, p_play_audio_format = audio_format_clear, p_elapsed_time = 0\<rparr>;
     pc \<leftarrow> player_dc_start player DC_CURRENT_PIPE pc;
     (ok, player, pc) \<leftarrow> player_wait_for_decoder E player pc;
     if \<not> ok then player_command_finished (player_dc_stop pc)
     else do {
       pc \<leftarrow> Some (pc\<lparr>pc_state := PLAYER_STATE_PLAY\<rparr>);
       player \<leftarrow> Some (if pc_command pc = PLAYER_COMMAND_SEEK
         then player\<lparr>p_elapsed_time := pc_seek_where pc\<rparr> else player);
       pc \<leftarrow> player_command_finished_locked pc;
       Some (pc\<lparr>pc_thread := (pc_thread pc)\<lparr>th_player := Some player\<rparr>\<rparr>)
     }
   }"

text \<open>
  One round of the loop of \<^verbatim>\<open>do_play\<close>, behind \<^verbatim>\<open>player_process_command\<close>.  The first component says
  whether the loop goes on.
\<close>

definition round_cross_fade :: "'e outside \<Rightarrow> player \<Rightarrow> 'e pcontrol \<Rightarrow> player \<times> 'e pcontrol" where
  "round_cross_fade E player pc =
     (let (starting, pc) = ask (o_decoder_is_starting E) pc in
      if \<not> pc_border_pause pc \<and> player_dc_at_next_song pc \<and> p_xfade player = XFADE_UNKNOWN \<and> \<not> starting
      then let (chunks, pc) = ask (o_cross_fade_calc E) pc in
        if chunks > 0
        then (player\<lparr>p_cross_fade_chunks := chunks, p_xfade := XFADE_ENABLED, p_cross_fading := False\<rparr>, pc)
        else (player\<lparr>p_cross_fade_chunks := chunks, p_xfade := XFADE_DISABLED\<rparr>, pc)
      else (player, pc))"

definition round_play ::
    "'e outside \<Rightarrow> player \<Rightarrow> 'e pcontrol \<Rightarrow> (bool \<times> player \<times> 'e pcontrol) option" where
  "round_play E player pc = do {
     let (size, pc) = ask (o_music_pipe_size E) pc;
     let (busy, pc) = (if size = 0 then ask (o_audio_output_all_check E) pc else (0, pc));
     let (idle, pc) = ask (o_decoder_is_idle E) pc;
     if p_paused player then Some (True, player, pc)
     else if size > 0 then do {
       (_, player, pc) \<leftarrow> play_next_chunk E player pc;
       Some (True, player, pc)
     }
     else if busy > 0 then Some (True, player, pc)
     else if player_dc_at_next_song pc then player_song_border E player pc
     else if idle then do {
       let (size, pc) = ask (o_music_pipe_size E) pc;
       Some (size > 0, player, pc)
     }
     else if p_output_open player then do {
       player_send_silence player;
       Some (True, player, pc)
     }
     else Some (True, player, pc)
   }"

definition do_play_round ::
    "'e outside \<Rightarrow> player \<Rightarrow> 'e pcontrol \<Rightarrow> (bool \<times> player \<times> 'e pcontrol) option" where
  "do_play_round E player pc = do {
     let (size, pc) = ask (o_music_pipe_size E) pc;
     let (idle, pc) = ask (o_decoder_is_idle E) pc;
     if p_buffering player \<and> size < pc_buffered_before_play pc \<and> \<not> idle then do {
       let (busy, pc) = (if \<not> p_paused player \<and> p_output_open player
                         then ask (o_audio_output_all_check E) pc else (4, pc));
       (if busy < 4 then player_send_silence player else Some ());
       Some (True, player, pc)
     }
     else do {
       player \<leftarrow> Some (player\<lparr>p_buffering := False\<rparr>);
       if p_decoder_starting player then player_check_decoder_startup E player pc
       else do {
         let (idle, pc) = ask (o_decoder_is_idle E) pc;
         pc \<leftarrow> (if idle \<and> p_queued player \<and> player_dc_at_current_song pc
               then player_dc_start player DC_NEXT_PIPE pc else Some pc);
         let (player, pc) = round_cross_fade E player pc;
         round_play E player pc
       }
     }
   }"

text \<open>The last part of \<^verbatim>\<open>do_play\<close>, behind the loop; the thread is back in \<^verbatim>\<open>player_task\<close>.\<close>

definition do_play_end :: "player \<Rightarrow> 'e pcontrol \<Rightarrow> 'e pcontrol option" where
  "do_play_end player pc = do {
     pc \<leftarrow> Some (player_dc_stop pc);
     pc \<leftarrow> (if p_queued player then do {
              assert_that (pc_next_song pc \<noteq> None);
              Some (pc\<lparr>pc_next_song := None\<rparr>)
            } else Some pc);
     Some (pc\<lparr>pc_state := PLAYER_STATE_STOP,
       pc_thread := (pc_thread pc)\<lparr>th_player := None\<rparr>\<rparr>)
   }"

text \<open>
  After the switch of \<^verbatim>\<open>player_task\<close> the command is dropped and the thread waits for the next signal.
\<close>

definition player_task_wait :: "'e pcontrol \<Rightarrow> 'e pcontrol" where
  "player_task_wait pc = pc\<lparr>pc_command := PLAYER_COMMAND_NONE\<rparr>"

definition player_task_command :: "'e outside \<Rightarrow> 'e pcontrol \<Rightarrow> 'e pcontrol option" where
  "player_task_command E pc =
     (case pc_command pc of
        PLAYER_COMMAND_SEEK \<Rightarrow> do { assert_that (pc_next_song pc \<noteq> None); do_play_begin E pc }
      | PLAYER_COMMAND_QUEUE \<Rightarrow> do { assert_that (pc_next_song pc \<noteq> None); do_play_begin E pc }
      | PLAYER_COMMAND_STOP \<Rightarrow> player_command_finished_locked (pc\<lparr>pc_next_song := None\<rparr>)
      | PLAYER_COMMAND_PAUSE \<Rightarrow> player_command_finished_locked (pc\<lparr>pc_next_song := None\<rparr>)
      | PLAYER_COMMAND_CLOSE_AUDIO \<Rightarrow> player_command_finished_locked pc
      | PLAYER_COMMAND_UPDATE_AUDIO \<Rightarrow> player_command_finished_locked pc
      | PLAYER_COMMAND_EXIT \<Rightarrow> do {
          pc \<leftarrow> player_command_finished pc;
          Some (pc\<lparr>pc_thread := (pc_thread pc)\<lparr>th_exited := True\<rparr>\<rparr>)
        }
      | PLAYER_COMMAND_CANCEL \<Rightarrow> player_command_finished_locked (pc\<lparr>pc_next_song := None\<rparr>)
      | PLAYER_COMMAND_REFRESH \<Rightarrow> player_command_finished_locked pc
      | PLAYER_COMMAND_NONE \<Rightarrow> Some pc)"

text \<open>
  One command, as the main thread sees it: the structure as it is when the thread has acknowledged
  the command, or when it has gone to sleep without doing so.
\<close>

definition player_answer :: "'e outside \<Rightarrow> 'e thread player_thread" where
  "player_answer E pc =
     (if th_exited (pc_thread pc) then None
      else case th_player (pc_thread pc) of
        None \<Rightarrow> map_option player_task_wait (player_task_command E pc)
      | Some player \<Rightarrow> do {
          (player, pc) \<leftarrow> player_process_command E player pc;
          if pc_command pc \<in> {PLAYER_COMMAND_STOP, PLAYER_COMMAND_EXIT, PLAYER_COMMAND_CLOSE_AUDIO}
          then map_option player_task_wait (do_play_end player pc)
          else Some (pc\<lparr>pc_thread := (pc_thread pc)\<lparr>th_player := Some player\<rparr>\<rparr>)
        })"

text \<open>Between two commands: one more round, or the end of playback, when the thread is playing.\<close>

definition player_step :: "'e outside \<Rightarrow> 'e pcontrol \<Rightarrow> 'e pcontrol option" where
  "player_step E pc =
     (case th_player (pc_thread pc) of
        None \<Rightarrow> Some pc
      | Some player \<Rightarrow> do {
          (go_on, player, pc) \<leftarrow> do_play_round E player pc;
          if go_on then Some (pc\<lparr>pc_thread := (pc_thread pc)\<lparr>th_player := Some player\<rparr>\<rparr>)
          else map_option player_task_wait (do_play_end player pc)
        })"

end
