(* ===== verification/Player_Task_Inv.thy ===== *)
theory Player_Task_Inv
  imports Player_Task
begin

text \<open>
  The player thread keeps its side of the contract: whenever it answers a command, the laws of the
  locale \<open>player_thread\<close> hold, and on its own it never does anything to \<^verbatim>\<open>next_song\<close> but consume it.
  The situations in which it does not answer are named by \<open>thread_live\<close>.
\<close>

section \<open>The invariant of the thread\<close>

definition thread_rest :: "'e pcontrol \<Rightarrow> bool" where
  "thread_rest pc \<longleftrightarrow>
     (case th_player (pc_thread pc) of
        None \<Rightarrow> pc_state pc = PLAYER_STATE_STOP \<and> pc_next_song pc = None
      | Some p \<Rightarrow> pc_state pc \<noteq> PLAYER_STATE_STOP \<and> (p_queued p \<longleftrightarrow> pc_next_song pc \<noteq> None) \<and>
          (player_dc_at_next_song pc \<longrightarrow> p_queued p))"

definition thread_live :: "'e pcontrol \<Rightarrow> bool" where
  "thread_live pc \<longleftrightarrow> \<not> th_exited (pc_thread pc) \<and>
     (th_player (pc_thread pc) \<noteq> None \<longrightarrow>
        pc_command pc \<notin> {PLAYER_COMMAND_STOP, PLAYER_COMMAND_EXIT, PLAYER_COMMAND_CLOSE_AUDIO,
          PLAYER_COMMAND_SEEK} \<and>
        (pc_command pc = PLAYER_COMMAND_CANCEL \<longrightarrow> pc_next_song pc \<noteq> None))"

lemma askE:
  obtains b e where "ask f pc = (b, pc\<lparr>pc_thread := (pc_thread pc)\<lparr>th_outside := e\<rparr>\<rparr>)"
  by (cases "f (th_outside (pc_thread pc))") (simp add: ask_def)

text \<open>What asking the outside world and most of the thread's work leave alone.\<close>

definition steady :: "player \<Rightarrow> 'e pcontrol \<Rightarrow> player \<Rightarrow> 'e pcontrol \<Rightarrow> bool" where
  "steady p pc p' pc' \<longleftrightarrow> p_queued p' = p_queued p \<and> pc_next_song pc' = pc_next_song pc \<and>
     th_dc_pipe (pc_thread pc') = th_dc_pipe (pc_thread pc) \<and>
     th_player (pc_thread pc') = th_player (pc_thread pc) \<and>
     th_exited (pc_thread pc') = th_exited (pc_thread pc) \<and>
     pc_command pc' = pc_command pc \<and>
     (pc_state pc' = PLAYER_STATE_STOP \<longrightarrow> pc_state pc = PLAYER_STATE_STOP) \<and>
     (pc_error pc' = PLAYER_ERROR_PENDING \<longrightarrow> pc_error pc = PLAYER_ERROR_PENDING)"

lemma steady_refl [simp]: "steady p pc p pc"
  by (simp add: steady_def)

lemma steady_trans: "steady p pc p1 pc1 \<Longrightarrow> steady p1 pc1 p2 pc2 \<Longrightarrow> steady p pc p2 pc2"
  by (simp add: steady_def)

lemma ask_steady: "ask f pc = (b, pc') \<Longrightarrow> steady p pc p pc'"
  by (auto simp: ask_def steady_def split: prod.splits)

lemma open_output_steady:
  assumes "player_open_output E p pc = Some (ok, p', pc')"
  shows "steady p pc p' pc'"
  using assms
  by (auto simp: player_open_output_def ask_def steady_def pc_idle_add_eq bind_eq_Some_conv
      split: prod.splits if_splits)

lemma check_decoder_startup_steady:
  assumes "player_check_decoder_startup E p pc = Some (ok, p', pc')"
  shows "steady p pc p' pc'"
proof -
  obtain b e where 1: "ask (o_decoder_has_failed E) pc = (b, pc\<lparr>pc_thread := (pc_thread pc)\<lparr>th_outside := e\<rparr>\<rparr>)"
    by (rule askE)
  show ?thesis
  proof (cases b)
    case True
    then show ?thesis
      using assms 1 by (auto simp: player_check_decoder_startup_def steady_def bind_eq_Some_conv)
  next
    case False
    then show ?thesis
      using assms 1
      by (auto simp: player_check_decoder_startup_def bind_eq_Some_conv ask_def pc_idle_add_eq steady_def
          split: prod.splits if_splits dest!: open_output_steady)
  qed
qed

lemma wait_decoder_startup_steady:
  assumes "wait_decoder_startup E p pc = Some (ok, p', pc')"
  shows "steady p pc p' pc'"
proof -
  have "steady p pc (fst (snd r)) (snd (snd r))" if "wait_decoder_startup E p pc = Some r" for p pc r
    using that
  proof (rule wait_decoder_startup.raw_induct [where
        P = "\<lambda>E p pc r. steady p pc (fst (snd r)) (snd (snd r))", rotated])
    fix loop E p pc r
    assume IH: "\<And>E p pc r. loop E p pc = Some r \<Longrightarrow> steady p pc (fst (snd r)) (snd (snd r))"
      and "(if p_decoder_starting p then do {
        (ok, player, pc) \<leftarrow> player_check_decoder_startup E p pc;
        if ok then loop E player pc else Some (False, player, pc)
      } else Some (True, p, pc)) = Some r"
    then show "steady p pc (fst (snd r)) (snd (snd r))"
      by (auto simp: bind_eq_Some_conv split: if_splits
          dest!: check_decoder_startup_steady IH intro: steady_trans)
  qed
  from this [OF assms] show ?thesis by simp
qed

lemma finishedE:
  assumes "player_command_finished_locked pc = Some pc'"
  obtains e where "e \<noteq> PLAYER_ERROR_PENDING"
    "pc' = pc\<lparr>pc_command := PLAYER_COMMAND_NONE, pc_error := e\<rparr>"
  using assms
  by (auto simp: player_command_finished_locked_def bind_eq_Some_conv split: if_splits)

section \<open>The laws\<close>

text \<open>The conclusions of the contract, for the answer \<open>pc'\<close> to the command \<open>cmd\<close> issued on \<open>pc\<close>.\<close>

definition meets :: "'e pcontrol \<Rightarrow> player_command \<Rightarrow> song option \<Rightarrow> 'e pcontrol \<Rightarrow> bool" where
  "meets pc cmd song pc' \<longleftrightarrow>
     thread_rest (pc'\<lparr>pc_command := PLAYER_COMMAND_NONE\<rparr>) \<and>
     (pc_state pc' = PLAYER_STATE_STOP \<longrightarrow> pc_next_song pc' = None) \<and>
     (consumes cmd (pc_state pc) \<longrightarrow> pc_next_song pc' = None) \<and>
     (pc_next_song pc' = None \<or> pc_next_song pc' = (if song = None then pc_next_song pc else song)) \<and>
     (cmd = PLAYER_COMMAND_STOP \<longrightarrow> pc_state pc' = PLAYER_STATE_STOP)"

text \<open>A thread in \<^verbatim>\<open>do_play\<close> with nothing queued, or one back in \<^verbatim>\<open>player_task\<close>, meets all of them.\<close>

lemma meets_nothing_queued:
  assumes "pc_next_song pc' = None" "cmd = PLAYER_COMMAND_STOP \<longrightarrow> pc_state pc' = PLAYER_STATE_STOP"
    "case th_player (pc_thread pc') of None \<Rightarrow> pc_state pc' = PLAYER_STATE_STOP
       | Some p \<Rightarrow> pc_state pc' \<noteq> PLAYER_STATE_STOP \<and> \<not> p_queued p \<and> \<not> player_dc_at_next_song pc'"
  shows "meets pc cmd song pc'"
  using assms by (auto simp: meets_def thread_rest_def player_dc_at_next_song_def
      player_dc_at_current_song_def split: option.splits)

lemma wait_for_decoder_outcome:
  assumes "player_wait_for_decoder E p pc = Some (ok, p', pc')"
  shows "\<not> p_queued p'" "pc_next_song pc' = None" "pc_state pc' = pc_state pc"
    "th_dc_pipe (pc_thread pc') = th_dc_pipe (pc_thread pc)"
    "th_player (pc_thread pc') = th_player (pc_thread pc)" "pc_command pc' = pc_command pc"
    "th_exited (pc_thread pc') = th_exited (pc_thread pc)"
  using assms
  by (auto simp: player_wait_for_decoder_def bind_eq_Some_conv ask_def split: prod.splits if_splits)

lemma do_play_begin_meets:
  assumes "do_play_begin E pc1 = Some pc'" "th_player (pc_thread pc1) = None"
    "pc_state pc1 = PLAYER_STATE_STOP" "cmd \<noteq> PLAYER_COMMAND_STOP"
  shows "meets pc cmd song (player_task_wait pc')"
proof -
  from assms(1) obtain p0 pc2 ok p3 pc3 where
    2: "player_dc_start p0 DC_CURRENT_PIPE pc1 = Some pc2" and
    3: "player_wait_for_decoder E p0 pc2 = Some (ok, p3, pc3)" and
    4: "(if \<not> ok then player_command_finished (player_dc_stop pc3)
     else do {
       pc \<leftarrow> Some (pc3\<lparr>pc_state := PLAYER_STATE_PLAY\<rparr>);
       player \<leftarrow> Some (if pc_command pc = PLAYER_COMMAND_SEEK
         then p3\<lparr>p_elapsed_time := pc_seek_where pc\<rparr> else p3);
       pc \<leftarrow> player_command_finished_locked pc;
       Some (pc\<lparr>pc_thread := (pc_thread pc)\<lparr>th_player := Some player\<rparr>\<rparr>)
     }) = Some pc'"
    unfolding do_play_begin_def by (auto simp: bind_eq_Some_conv Let_def)
  have pipe: "th_dc_pipe (pc_thread pc2) = DC_CURRENT_PIPE" "pc_state pc2 = pc_state pc1"
    "th_player (pc_thread pc2) = th_player (pc_thread pc1)"
    using 2 by (auto simp: player_dc_start_def bind_eq_Some_conv Let_def)
  note w = wait_for_decoder_outcome [OF 3]
  show ?thesis
  proof (cases ok)
    case False
    then have f: "player_command_finished_locked (player_dc_stop pc3) = Some pc'"
      using 4 by (simp add: player_command_finished_def)
    obtain e where "pc' = (player_dc_stop pc3)\<lparr>pc_command := PLAYER_COMMAND_NONE, pc_error := e\<rparr>"
      using f by (rule finishedE)
    then show ?thesis
      using w pipe assms(2-4)
      by (intro meets_nothing_queued) (simp_all add: player_task_wait_def player_dc_stop_def)
  next
    case True
    then obtain pc4 p4 where f: "player_command_finished_locked (pc3\<lparr>pc_state := PLAYER_STATE_PLAY\<rparr>) = Some pc4"
      and pc': "pc' = pc4\<lparr>pc_thread := (pc_thread pc4)\<lparr>th_player := Some p4\<rparr>\<rparr>" and "\<not> p_queued p4"
      using 4 w(1) by (auto simp: bind_eq_Some_conv split: if_splits)
    then show ?thesis
      using w pipe assms(4)
      by (elim finishedE, intro meets_nothing_queued)
         (simp_all add: player_task_wait_def player_dc_at_next_song_def player_dc_at_current_song_def)
  qed
qed

lemma finished_locked_meets:
  assumes "player_command_finished_locked pc1 = Some pc'" "th_player (pc_thread pc1) = None"
    "pc_state pc1 = PLAYER_STATE_STOP" "pc_next_song pc1 = None"
  shows "meets pc cmd song (player_task_wait pc')"
proof -
  obtain e where "pc' = pc1\<lparr>pc_command := PLAYER_COMMAND_NONE, pc_error := e\<rparr>"
    using assms(1) by (rule finishedE)
  then show ?thesis
    using assms(2-4) by (intro meets_nothing_queued) (simp_all add: player_task_wait_def)
qed

text \<open>Commands that arrive while the thread waits in \<^verbatim>\<open>player_task\<close>.\<close>

lemma idle_meets:
  assumes "th_player (pc_thread pc) = None" "thread_rest pc" "good_request pc cmd song"
    "player_task_command E (request pc cmd song w) = Some pc'"
  shows "meets pc cmd song (player_task_wait pc')"
proof -
  let ?r = "request pc cmd song w"
  have r: "th_player (pc_thread ?r) = None" "pc_state ?r = PLAYER_STATE_STOP" "pc_command ?r = cmd"
    "\<not> names_song cmd \<Longrightarrow> pc_next_song ?r = None"
    using assms(1-3) by (auto simp: thread_rest_def request_def good_request_def)
  have n: "cmd \<noteq> PLAYER_COMMAND_NONE" using assms(3) by (simp add: good_request_def)
  show ?thesis
  proof (cases "names_song cmd")
    case True
    then have "do_play_begin E ?r = Some pc'" "cmd \<noteq> PLAYER_COMMAND_STOP"
      using assms(4) r(3) by (cases cmd; auto simp: player_task_command_def bind_eq_Some_conv)+
    then show ?thesis using r do_play_begin_meets by blast
  next
    case False
    show ?thesis
    proof (cases "cmd = PLAYER_COMMAND_EXIT")
      case True
      then obtain pc1 where pc1: "player_command_finished_locked ?r = Some pc1"
        "pc' = pc1\<lparr>pc_thread := (pc_thread pc1)\<lparr>th_exited := True\<rparr>\<rparr>"
        using assms(4) r(3) by (auto simp: player_task_command_def player_command_finished_def bind_eq_Some_conv)
      have "meets pc cmd song (player_task_wait pc1)"
        using finished_locked_meets [OF pc1(1) r(1,2)] r(4) False by blast
      then show ?thesis
        by (auto simp: pc1(2) meets_def thread_rest_def player_task_wait_def player_dc_at_next_song_def
            player_dc_at_current_song_def split: option.splits)
    next
      case no_exit: False
      have "player_task_command E ?r = player_command_finished_locked ?r \<or>
          player_task_command E ?r = player_command_finished_locked (?r\<lparr>pc_next_song := None\<rparr>)"
        using r(3) n False no_exit by (cases cmd) (simp_all add: player_task_command_def)
      then show ?thesis
        using assms(4) r(1,2) r(4) [OF False] finished_locked_meets [of ?r pc' pc cmd song]
          finished_locked_meets [of "?r\<lparr>pc_next_song := None\<rparr>" pc' pc cmd song]
        by (elim disjE) simp_all
    qed
  qed
qed

text \<open>
  Commands that arrive while the thread is in \<^verbatim>\<open>do_play\<close>.  The commands that end playback drop out
  of the loop before they are acknowledged.
\<close>

definition ends_playback :: "player_command \<Rightarrow> bool" where
  "ends_playback cmd \<longleftrightarrow>
     cmd \<in> {PLAYER_COMMAND_STOP, PLAYER_COMMAND_EXIT, PLAYER_COMMAND_CLOSE_AUDIO}"

lemma do_play_end_eq:
  assumes "do_play_end p pc = Some pc'" "p_queued p \<longleftrightarrow> pc_next_song pc \<noteq> None"
  shows "pc' = pc\<lparr>pc_next_song := None, pc_state := PLAYER_STATE_STOP,
    pc_thread := (pc_thread pc)\<lparr>th_dc_pipe := DC_NO_PIPE, th_player := None\<rparr>\<rparr>"
  using assms
  by (cases "p_queued p") (auto simp: do_play_end_def player_dc_stop_def bind_eq_Some_conv)

lemma do_play_end_error: "do_play_end p pc = Some pc' \<Longrightarrow> pc_error pc' = pc_error pc"
  by (auto simp: do_play_end_def player_dc_stop_def bind_eq_Some_conv split: if_splits)

lemma seek_outcome:
  assumes "player_seek_decoder E p pc = Some (p', pc')"
  shows "\<not> p_queued p'" "pc_next_song pc' = None" "th_dc_pipe (pc_thread pc') = DC_CURRENT_PIPE"
    "pc_command pc' = PLAYER_COMMAND_NONE" "pc_state pc \<noteq> PLAYER_STATE_STOP \<longrightarrow> pc_state pc' \<noteq> PLAYER_STATE_STOP"
proof -
  from assms obtain ok p1 pc1 where prep: "seek_prepare E p pc = Some (ok, p1, pc1)"
    by (auto simp: player_seek_decoder_def bind_eq_Some_conv)
  have "\<not> p_queued p1 \<and> pc_next_song pc1 = None \<and> th_dc_pipe (pc_thread pc1) = DC_CURRENT_PIPE \<and>
      pc_state pc1 = pc_state pc"
  proof -
    obtain song where song: "pc_next_song pc = Some song"
      using prep by (auto simp: seek_prepare_def bind_eq_Some_conv)
    obtain idle pc0 where ask0: "ask (o_decoder_is_idle E) pc = (idle, pc0)"
      by (cases "ask (o_decoder_is_idle E) pc")
    have st0: "pc_state pc0 = pc_state pc" using ask0 by (auto simp: ask_def split: prod.splits)
    show ?thesis
    proof (cases "song_same_opt (if idle then None else th_dc_song (pc_thread pc0)) (Some song)")
      case True
      then show ?thesis using prep song ask0 st0 by (auto simp: seek_prepare_def)
    next
      case False
      then obtain pc2 where
        2: "player_dc_start p DC_CURRENT_PIPE (player_dc_stop pc0) = Some pc2"
           "player_wait_for_decoder E p pc2 = Some (ok, p1, pc1)"
        using prep song ask0 by (auto simp: seek_prepare_def bind_eq_Some_conv)
      from 2(1) have "th_dc_pipe (pc_thread pc2) = DC_CURRENT_PIPE" "pc_state pc2 = pc_state pc0"
        by (auto simp: player_dc_start_def player_dc_stop_def bind_eq_Some_conv Let_def)
      then show ?thesis using wait_for_decoder_outcome [OF 2(2)] st0 by simp
    qed
  qed
  note 1 = this
  from assms prep obtain ok2 p2 pc2 where
    2: "(if ok then wait_decoder_startup E p1 pc1 else Some (False, p1, pc1)) = Some (ok2, p2, pc2)" and
    3: "(if \<not> ok2 then do { pc \<leftarrow> player_command_finished pc2; Some (p2, pc) }
     else do {
       let w = clamp_seek (pc_seek_where pc2) (pc_total_time pc2);
       let (sought, pc) = ask (o_dc_seek E) pc2;
       if \<not> sought then do { pc \<leftarrow> player_command_finished pc; Some (p2, pc) }
       else do {
         pc \<leftarrow> player_command_finished pc;
         Some (p2\<lparr>p_elapsed_time := w, p_xfade := XFADE_UNKNOWN, p_buffering := True\<rparr>, pc)
       }
     }) = Some (p', pc')"
    by (auto simp: player_seek_decoder_def bind_eq_Some_conv)
  have "steady p1 pc1 p2 pc2"
    using 2 by (auto split: if_splits dest: wait_decoder_startup_steady)
  then show "\<not> p_queued p'" "pc_next_song pc' = None" "th_dc_pipe (pc_thread pc') = DC_CURRENT_PIPE"
    "pc_command pc' = PLAYER_COMMAND_NONE"
    "pc_state pc \<noteq> PLAYER_STATE_STOP \<longrightarrow> pc_state pc' \<noteq> PLAYER_STATE_STOP"
    using 3 1
    by (auto simp: steady_def player_command_finished_def bind_eq_Some_conv ask_def Let_def
        split: if_splits prod.splits elim!: finishedE)
qed

text \<open>The commands that leave the queued song alone.\<close>

lemma process_steady:
  assumes "player_process_command E p pc = Some (p', pc')"
    "pc_command pc \<in> {PLAYER_COMMAND_UPDATE_AUDIO, PLAYER_COMMAND_PAUSE, PLAYER_COMMAND_REFRESH}"
  obtains pc1 e where "steady p pc p' pc1" "pc' = pc1\<lparr>pc_command := PLAYER_COMMAND_NONE, pc_error := e\<rparr>"
proof (cases "pc_command pc")
  case PLAYER_COMMAND_UPDATE_AUDIO
  then show ?thesis
    using assms(1) that [of pc] by (auto simp: player_process_command_def bind_eq_Some_conv elim!: finishedE)
next
  case PLAYER_COMMAND_PAUSE
  let ?p = "p\<lparr>p_paused := \<not> p_paused p\<rparr>"
  from PLAYER_COMMAND_PAUSE assms(1) obtain pc1 where
    1: "(if p_paused ?p then Some (?p, pc\<lparr>pc_state := PLAYER_STATE_PAUSE\<rparr>)
         else if \<not> audio_format_defined (p_play_audio_format ?p)
         then Some (?p, pc\<lparr>pc_state := PLAYER_STATE_PLAY\<rparr>)
         else do { (_, player, pc) \<leftarrow> player_open_output E ?p pc; Some (player, pc) }) = Some (p', pc1)"
    and fin: "player_command_finished_locked pc1 = Some pc'"
    by (auto simp: player_process_command_def bind_eq_Some_conv)
  have "steady ?p pc p' pc1"
    using 1 by (auto simp: bind_eq_Some_conv split: if_splits dest: open_output_steady) (auto simp: steady_def)
  then have "steady p pc p' pc1" by (simp add: steady_def)
  then show ?thesis using that fin by (elim finishedE) blast
next
  case PLAYER_COMMAND_REFRESH
  let ?pc0 = "if p_output_open p \<and> \<not> p_paused p then snd (ask (o_audio_output_all_check E) pc) else pc"
  obtain elapsed pc1 where ask1: "ask (o_audio_output_all_get_elapsed_time E) ?pc0 = (elapsed, pc1)"
    by (cases "ask (o_audio_output_all_get_elapsed_time E) ?pc0")
  let ?pc1 = "pc1\<lparr>pc_elapsed_time := (if elapsed < 0 then p_elapsed_time p else elapsed)\<rparr>"
  have "steady p pc p ?pc0"
    using ask_steady [of "o_audio_output_all_check E" pc _ _ p, OF prod.collapse [symmetric]] by simp
  with ask_steady [OF ask1, of p] have "steady p pc p ?pc1" by (simp add: steady_def)
  moreover have "player_command_finished_locked ?pc1 = Some pc'" "p' = p"
    using assms(1) PLAYER_COMMAND_REFRESH ask1
    by (auto simp: player_process_command_def bind_eq_Some_conv Let_def)
  ultimately show ?thesis using that by (elim finishedE) blast
qed (use assms(2) in auto)

lemma playing_eq:
  assumes "th_player (pc_thread pc) = Some p" "\<not> th_exited (pc_thread pc)"
    "player_process_command E p (request pc cmd song w) = Some (p', pc1)"
  shows "player_answer E (request pc cmd song w) =
    (if ends_playback (pc_command pc1) then map_option player_task_wait (do_play_end p' pc1)
     else Some (pc1\<lparr>pc_thread := (pc_thread pc1)\<lparr>th_player := Some p'\<rparr>\<rparr>))"
  using assms by (simp add: player_answer_def request_def ends_playback_def)

text \<open>A command that ends playback leaves \<^verbatim>\<open>error\<close> pending: the main thread is never told.\<close>

lemma ends_playback_pending:
  assumes "th_player (pc_thread pc) = Some p" "\<not> th_exited (pc_thread pc)"
    "ends_playback cmd \<or> cmd = PLAYER_COMMAND_CANCEL \<and> pc_next_song pc = None \<and> song = None"
    "player_answer E (request pc cmd song w) = Some pc'"
  shows "pc_error pc' = PLAYER_ERROR_PENDING"
proof -
  let ?r = "request pc cmd song w"
  have r: "pc_command ?r = cmd" "pc_error ?r = PLAYER_ERROR_PENDING" by (simp_all add: request_def)
  have "\<exists>pc1. player_process_command E p ?r = Some (p, pc1) \<and> ends_playback (pc_command pc1) \<and>
      pc_error pc1 = PLAYER_ERROR_PENDING"
    using assms(3) by (auto simp: ends_playback_def player_process_command_def request_def)
  then obtain pc1 where pc1: "player_process_command E p ?r = Some (p, pc1)"
    "ends_playback (pc_command pc1)" "pc_error pc1 = PLAYER_ERROR_PENDING" by blast
  with assms(4) playing_eq [OF assms(1,2) pc1(1)] obtain pc2 where
    "do_play_end p pc1 = Some pc2" "pc' = player_task_wait pc2" by auto
  then show ?thesis
    using pc1(3) by (simp add: player_task_wait_def do_play_end_error)
qed

lemma playing_steady_meets:
  assumes "th_player (pc_thread pc) = Some p" "thread_rest pc" "\<not> names_song cmd"
    "steady p (request pc cmd None w) p' pc1" "cmd \<noteq> PLAYER_COMMAND_STOP" "\<not> consumes cmd (pc_state pc)"
  shows "meets pc cmd None (pc1\<lparr>pc_command := PLAYER_COMMAND_NONE, pc_error := e,
    pc_thread := (pc_thread pc1)\<lparr>th_player := Some p'\<rparr>\<rparr>)"
  using assms
  by (auto simp: meets_def thread_rest_def steady_def request_def player_dc_at_next_song_def
      player_dc_at_current_song_def)

lemma playing_meets:
  assumes p: "th_player (pc_thread pc) = Some p" "\<not> th_exited (pc_thread pc)" and rest: "thread_rest pc"
    and good: "good_request pc cmd song"
    and ans: "player_answer E (request pc cmd song w) = Some pc'" "pc_error pc' \<noteq> PLAYER_ERROR_PENDING"
  shows "meets pc cmd song pc'"
proof -
  let ?r = "request pc cmd song w"
  have st: "pc_state pc \<noteq> PLAYER_STATE_STOP" using rest p(1) by (simp add: thread_rest_def)
  have r: "pc_command ?r = cmd" "th_player (pc_thread ?r) = Some p" "pc_state ?r = pc_state pc"
    "th_dc_pipe (pc_thread ?r) = th_dc_pipe (pc_thread pc)"
    using p by (simp_all add: request_def)
  have sn: "names_song cmd \<longleftrightarrow> song \<noteq> None" "cmd \<noteq> PLAYER_COMMAND_NONE"
    using good by (simp_all add: good_request_def)
  have not_end: "\<not> ends_playback cmd" "cmd = PLAYER_COMMAND_CANCEL \<Longrightarrow> song = None \<Longrightarrow> pc_next_song pc \<noteq> None"
    using ends_playback_pending [OF p _ ans(1)] ans(2) by auto
  from ans(1) obtain p' pc1 where pp: "player_process_command E p ?r = Some (p', pc1)"
    using p by (auto simp: player_answer_def request_def bind_eq_Some_conv)
  have eq: "pc' = pc1\<lparr>pc_thread := (pc_thread pc1)\<lparr>th_player := Some p'\<rparr>\<rparr>"
    if "pc_command pc1 = PLAYER_COMMAND_NONE"
    using ans(1) playing_eq [OF p pp] that by (simp add: ends_playback_def)
  consider (plain) "cmd \<in> {PLAYER_COMMAND_UPDATE_AUDIO, PLAYER_COMMAND_PAUSE, PLAYER_COMMAND_REFRESH}"
    | (queue) "cmd = PLAYER_COMMAND_QUEUE" | (seek) "cmd = PLAYER_COMMAND_SEEK"
    | (cancel) "cmd = PLAYER_COMMAND_CANCEL"
    using not_end(1) sn(2) by (cases cmd) (auto simp: ends_playback_def)
  then show ?thesis
  proof cases
    case plain
    then have song: "song = None" "\<not> names_song cmd" using sn(1) by auto
    obtain pc2 e where pc2: "steady p ?r p' pc2" "pc1 = pc2\<lparr>pc_command := PLAYER_COMMAND_NONE, pc_error := e\<rparr>"
      using process_steady [OF pp] plain r(1) by auto
    then show ?thesis
      using playing_steady_meets [OF p(1) rest song(2), of w p' pc2 e] plain song(1) eq
      by (auto simp: consumes_def)
  next
    case queue
    then obtain s where s: "song = Some s" using sn(1) by auto
    have nq: "\<not> p_queued p" "\<not> player_dc_at_next_song pc"
      using good rest p(1) queue by (auto simp: good_request_def thread_rest_def)
    obtain e where "p' = p\<lparr>p_queued := True\<rparr>"
      "pc1 = ?r\<lparr>pc_command := PLAYER_COMMAND_NONE, pc_error := e\<rparr>"
      using pp queue r(1) by (auto simp: player_process_command_def bind_eq_Some_conv elim!: finishedE)
    then show ?thesis
      using eq s queue st r by (auto simp: meets_def thread_rest_def consumes_def request_def)
  next
    case seek
    have sk: "player_seek_decoder E p ?r = Some (p', pc1)"
      using pp seek r(1) by (simp add: player_process_command_def)
    show ?thesis
      using eq [OF seek_outcome(4) [OF sk]] seek_outcome [OF sk] st r seek
      by (intro meets_nothing_queued)
         (auto simp: player_dc_at_next_song_def player_dc_at_current_song_def)
  next
    case cancel
    then have song: "song = None" using sn(1) by auto
    then have nn: "pc_next_song ?r \<noteq> None" using not_end(2) cancel by (simp add: request_def)
    obtain e where e: "p' = p\<lparr>p_queued := False\<rparr>"
      "pc1 = (if player_dc_at_next_song ?r then player_dc_stop ?r else ?r)
         \<lparr>pc_next_song := None, pc_command := PLAYER_COMMAND_NONE, pc_error := e\<rparr>"
      using pp cancel r(1) nn
      by (auto simp: player_process_command_def bind_eq_Some_conv elim!: finishedE)
    then have "pc_command pc1 = PLAYER_COMMAND_NONE" by simp
    then show ?thesis
      using eq e st r cancel
      by (intro meets_nothing_queued)
         (auto simp: player_dc_stop_def player_dc_at_next_song_def player_dc_at_current_song_def)
  qed
qed

section \<open>The contract holds\<close>

lemma answer_meets:
  assumes "thread_rest pc" "good_request pc cmd song"
    "player_answer E (request pc cmd song w) = Some pc'" "pc_error pc' \<noteq> PLAYER_ERROR_PENDING"
  shows "meets pc cmd song pc'"
proof (cases "th_player (pc_thread pc)")
  case None
  have "\<not> th_exited (pc_thread pc)" using assms(3) by (simp add: player_answer_def request_def split: if_splits)
  then obtain pc1 where "player_task_command E (request pc cmd song w) = Some pc1" "pc' = player_task_wait pc1"
    using assms(3) None by (auto simp: player_answer_def request_def)
  then show ?thesis using idle_meets [OF None assms(1,2)] by simp
next
  case (Some p)
  have "\<not> th_exited (pc_thread pc)" using assms(3) by (simp add: player_answer_def request_def split: if_splits)
  then show ?thesis using playing_meets [OF Some _ assms] by blast
qed

lemma finished_Some:
  "pc_command pc \<noteq> PLAYER_COMMAND_NONE \<Longrightarrow> \<exists>pc'. player_command_finished_locked pc = Some pc' \<and>
     pc_error pc' \<noteq> PLAYER_ERROR_PENDING"
  by (simp add: player_command_finished_locked_def)

lemma do_play_begin_answers:
  assumes "pc_next_song pc = Some s" "pc_command pc \<noteq> PLAYER_COMMAND_NONE"
  shows "\<exists>pc'. do_play_begin E pc = Some pc' \<and> pc_error pc' \<noteq> PLAYER_ERROR_PENDING"
  using assms
  by (auto simp: do_play_begin_def player_dc_start_def player_wait_for_decoder_def ask_def Let_def
      player_dc_stop_def player_command_finished_def player_command_finished_locked_def split: prod.splits)

lemma thread_answers:
  assumes good: "good_request pc cmd song" and rest: "thread_rest pc"
    and live: "thread_live (request pc cmd song w)"
  shows "\<exists>pc'. player_answer E (request pc cmd song w) = Some pc' \<and> pc_error pc' \<noteq> PLAYER_ERROR_PENDING"
proof (cases "th_player (pc_thread pc)")
  case None
  let ?r = "request pc cmd song w"
  have r: "pc_command ?r = cmd" "\<not> th_exited (pc_thread ?r)" "th_player (pc_thread ?r) = None"
    "cmd \<noteq> PLAYER_COMMAND_NONE" "names_song cmd \<Longrightarrow> \<exists>s. pc_next_song ?r = Some s"
    using live None good by (auto simp: thread_live_def request_def good_request_def)
  have "\<exists>pc'. player_task_command E ?r = Some pc' \<and> pc_error pc' \<noteq> PLAYER_ERROR_PENDING"
    using r do_play_begin_answers [of ?r _ E]
    by (cases cmd) (fastforce simp: player_task_command_def player_command_finished_def
        player_command_finished_locked_def)+
  then show ?thesis using r by (auto simp: player_answer_def player_task_wait_def)
next
  case (Some p)
  let ?r = "request pc cmd song w"
  have r: "pc_command ?r = cmd" "\<not> th_exited (pc_thread ?r)" "th_player (pc_thread ?r) = Some p"
    "cmd \<noteq> PLAYER_COMMAND_NONE" "cmd = PLAYER_COMMAND_QUEUE \<Longrightarrow> pc_next_song ?r \<noteq> None"
    "\<not> ends_playback cmd" "cmd \<noteq> PLAYER_COMMAND_SEEK"
    "cmd = PLAYER_COMMAND_CANCEL \<Longrightarrow> pc_next_song ?r \<noteq> None"
    using live Some good by (auto simp: thread_live_def request_def good_request_def ends_playback_def)
  have q: "\<not> p_queued p \<and> \<not> player_dc_at_next_song ?r" if "cmd = PLAYER_COMMAND_QUEUE"
    using good rest Some that
    by (auto simp: good_request_def thread_rest_def request_def player_dc_at_next_song_def
        player_dc_at_current_song_def)
  have s: "pc_state ?r = PLAYER_STATE_PLAY \<or> pc_state ?r = PLAYER_STATE_PAUSE"
    using rest Some by (cases "pc_state pc") (auto simp: thread_rest_def request_def)
  have "\<exists>p' pc1. player_process_command E p ?r = Some (p', pc1) \<and> pc_command pc1 = PLAYER_COMMAND_NONE \<and>
      pc_error pc1 \<noteq> PLAYER_ERROR_PENDING"
    using r q s
    by (cases cmd)
       (auto simp: player_process_command_def player_command_finished_locked_def ends_playback_def
         player_open_output_def pc_idle_add_eq ask_def player_dc_stop_def Let_def split: prod.splits)
  then obtain p' pc1 where pc1: "player_process_command E p ?r = Some (p', pc1)"
    "pc_command pc1 = PLAYER_COMMAND_NONE" "pc_error pc1 \<noteq> PLAYER_ERROR_PENDING" by blast
  then show ?thesis
    using playing_eq [OF Some _ pc1(1)] r(2) by (simp add: request_def ends_playback_def)
qed

lemma meetsD:
  assumes "meets pc cmd song pc'"
  shows "thread_rest (pc'\<lparr>pc_command := PLAYER_COMMAND_NONE\<rparr>) \<and>
      (pc_state pc' = PLAYER_STATE_STOP \<longrightarrow> pc_next_song pc' = None)"
    "consumes cmd (pc_state pc) \<Longrightarrow> pc_next_song pc' = None"
    "pc_next_song pc' = None \<or> pc_next_song pc' = pc_next_song (request pc cmd song w)"
    "cmd = PLAYER_COMMAND_STOP \<Longrightarrow> pc_state pc' = PLAYER_STATE_STOP"
  using assms by (auto simp: meets_def request_def split: option.splits if_splits)

lemma thread_rest_frame [simp]:
  "thread_rest (pc\<lparr>pc_idle_flags := f\<rparr>) = thread_rest pc" "thread_rest (pc\<lparr>pc_border_pause := b\<rparr>) = thread_rest pc"
  "thread_rest (pc\<lparr>pc_error := e\<rparr>) = thread_rest pc" "thread_rest (pc\<lparr>pc_errored_song := s\<rparr>) = thread_rest pc"
  by (simp_all add: thread_rest_def player_dc_at_next_song_def player_dc_at_current_song_def
      cong: option.case_cong)

interpretation pt: player_thread "player_answer E" thread_rest thread_live for E
  by unfold_locales
     (erule (2) thread_answers,
      erule (1) meetsD(1) [OF answer_meets, rotated], assumption+,
      erule (1) meetsD(2) [OF answer_meets, rotated], assumption+,
      erule (1) meetsD(3) [OF answer_meets, rotated], assumption+,
      erule (1) meetsD(4) [OF answer_meets, rotated], assumption+, simp_all)

section \<open>The thread on its own\<close>

definition playing_rest :: "player \<Rightarrow> 'e pcontrol \<Rightarrow> bool" where
  "playing_rest p pc \<longleftrightarrow> pc_state pc \<noteq> PLAYER_STATE_STOP \<and> (p_queued p \<longleftrightarrow> pc_next_song pc \<noteq> None) \<and>
     (player_dc_at_next_song pc \<longrightarrow> p_queued p)"

text \<open>What a round of the loop may do to the shared structure.\<close>

definition advances :: "player \<Rightarrow> 'e pcontrol \<Rightarrow> player \<Rightarrow> 'e pcontrol \<Rightarrow> bool" where
  "advances p pc p' pc' \<longleftrightarrow>
     (playing_rest p pc \<longrightarrow> playing_rest p' pc') \<and>
     (pc_next_song pc' = None \<or> pc_next_song pc' = pc_next_song pc) \<and>
     th_player (pc_thread pc') = th_player (pc_thread pc) \<and>
     th_exited (pc_thread pc') = th_exited (pc_thread pc) \<and>
     pc_command pc' = pc_command pc \<and>
     (pc_error pc' = PLAYER_ERROR_PENDING \<longrightarrow> pc_error pc = PLAYER_ERROR_PENDING)"

lemma advances_trans: "advances p pc p1 pc1 \<Longrightarrow> advances p1 pc1 p2 pc2 \<Longrightarrow> advances p pc p2 pc2"
  by (auto simp: advances_def)

lemma steady_advances: "steady p pc p' pc' \<Longrightarrow> advances p pc p' pc'"
  by (auto simp: steady_def advances_def playing_rest_def player_dc_at_next_song_def
      player_dc_at_current_song_def)

lemma ask_advances: "ask f pc = (b, pc') \<Longrightarrow> advances p pc p pc'"
  by (rule steady_advances, rule ask_steady)

lemma cross_fade_step_steady:
  assumes "cross_fade_step E p pc = (b, p', pc')" shows "steady p pc p' pc'"
  using assms by (auto simp: cross_fade_step_def ask_def Let_def steady_def split: prod.splits if_splits)

lemma play_chunk_steady:
  assumes "play_chunk E p pc = (b, pc')" shows "steady p pc p pc'"
  using assms by (auto simp: play_chunk_def ask_def Let_def steady_def split: prod.splits if_splits)

lemma play_next_chunk_steady:
  assumes "play_next_chunk E p pc = Some (b, p', pc')" shows "steady p pc p' pc'"
proof -
  obtain room pc1 where 1: "ask (o_audio_output_all_wait E) pc = (room, pc1)"
    by (cases "ask (o_audio_output_all_wait E) pc")
  obtain ready p2 pc2 where 2: "cross_fade_step E p pc1 = (ready, p2, pc2)"
    by (cases "cross_fade_step E p pc1")
  obtain ok pc3 where 3: "play_chunk E p2 pc2 = (ok, pc3)" by (cases "play_chunk E p2 pc2")
  have s2: "steady p pc p2 pc2" using ask_steady [OF 1] cross_fade_step_steady [OF 2] by (rule steady_trans)
  have s3: "steady p pc p2 pc3" using s2 play_chunk_steady [OF 3] by (rule steady_trans)
  show ?thesis
    using assms 1 2 3 ask_steady [OF 1, of p] s2 s3
    by (auto simp: play_next_chunk_def pc_idle_add_eq split: if_splits) (auto simp: steady_def)
qed

lemma song_border_advances:
  assumes "player_song_border E p pc = Some (b, p', pc')" shows "advances p pc p' pc'"
proof -
  let ?pc = "pc\<lparr>pc_thread := (pc_thread pc)\<lparr>th_dc_pipe := DC_CURRENT_PIPE\<rparr>\<rparr>"
  obtain ok p1 pc1 where w: "player_wait_for_decoder E (p\<lparr>p_xfade := XFADE_UNKNOWN\<rparr>) ?pc = Some (ok, p1, pc1)"
    and res: "(if \<not> ok then Some (False, p1, pc1)
     else if pc_border_pause pc1 then do {
       pc \<leftarrow> pc_idle_add IDLE_PLAYER (pc1\<lparr>pc_state := PLAYER_STATE_PAUSE\<rparr>);
       Some (True, p1\<lparr>p_paused := True\<rparr>, pc)
     } else Some (True, p1, pc1)) = Some (b, p', pc')"
    using assms by (auto simp: player_song_border_def bind_eq_Some_conv)
  have err: "pc_error pc1 = PLAYER_ERROR_PENDING \<longrightarrow> pc_error pc = PLAYER_ERROR_PENDING"
    using w by (auto simp: player_wait_for_decoder_def bind_eq_Some_conv ask_def split: prod.splits if_splits)
  show ?thesis
    using wait_for_decoder_outcome [OF w] res err
    by (auto simp: advances_def playing_rest_def player_dc_at_next_song_def player_dc_at_current_song_def
        pc_idle_add_eq split: if_splits)
qed

lemma round_cross_fade_steady:
  assumes "round_cross_fade E p pc = (p', pc')" shows "steady p pc p' pc'"
  using assms by (auto simp: round_cross_fade_def ask_def Let_def steady_def split: prod.splits if_splits)

lemma round_play_advances:
  assumes "round_play E p pc = Some (b, p', pc')" shows "advances p pc p' pc'"
proof -
  obtain size pc1 where 1: "ask (o_music_pipe_size E) pc = (size, pc1)" by (cases "ask (o_music_pipe_size E) pc")
  obtain busy pc2 where 2: "(if size = 0 then ask (o_audio_output_all_check E) pc1 else (0, pc1)) = (busy, pc2)"
    by (cases "if size = 0 then ask (o_audio_output_all_check E) pc1 else (0, pc1)")
  obtain idle pc3 where 3: "ask (o_decoder_is_idle E) pc2 = (idle, pc3)" by (cases "ask (o_decoder_is_idle E) pc2")
  obtain size' pc4 where 4: "ask (o_music_pipe_size E) pc3 = (size', pc4)"
    by (cases "ask (o_music_pipe_size E) pc3")
  have s3: "steady p pc p pc3"
    using ask_steady [OF 1, of p] 2 ask_steady [OF 3, of p]
    by (auto split: if_splits dest!: ask_steady [of _ _ _ _ p] intro: steady_trans)
  have s4: "steady p pc p pc4" using s3 ask_steady [OF 4] by (rule steady_trans)
  have res: "(if p_paused p then Some (True, p, pc3)
     else if size > 0 then do { (_, player, pc) \<leftarrow> play_next_chunk E p pc3; Some (True, player, pc) }
     else if busy > 0 then Some (True, p, pc3)
     else if player_dc_at_next_song pc3 then player_song_border E p pc3
     else if idle then Some (size' > 0, p, pc4)
     else if p_output_open p then do { player_send_silence p; Some (True, p, pc3) }
     else Some (True, p, pc3)) = Some (b, p', pc')"
    using assms by (simp add: round_play_def 1 2 3 4 cong: if_cong)
  show ?thesis
    using res steady_advances [OF s3] steady_advances [OF s4]
    by (auto simp: bind_eq_Some_conv split: if_splits intro: advances_trans
        dest!: play_next_chunk_steady song_border_advances steady_advances)
qed

lemma dc_start_next_advances:
  assumes "player_dc_start p DC_NEXT_PIPE pc = Some pc'" "p_queued p"
  shows "advances p pc p pc'"
proof -
  obtain t where "pc' = pc\<lparr>pc_thread := t\<rparr>" "th_player t = th_player (pc_thread pc)"
    "th_exited t = th_exited (pc_thread pc)"
    using assms(1) by (auto simp: player_dc_start_def bind_eq_Some_conv Let_def)
  then show ?thesis using assms(2) by (simp add: advances_def playing_rest_def)
qed

lemma do_play_round_advances:
  assumes "do_play_round E p pc = Some (b, p', pc')" shows "advances p pc p' pc'"
proof -
  obtain size pc1 where 1: "ask (o_music_pipe_size E) pc = (size, pc1)" by (cases "ask (o_music_pipe_size E) pc")
  obtain idle pc2 where 2: "ask (o_decoder_is_idle E) pc1 = (idle, pc2)" by (cases "ask (o_decoder_is_idle E) pc1")
  let ?p = "p\<lparr>p_buffering := False\<rparr>"
  have s2: "steady p pc p pc2" using ask_steady [OF 1] ask_steady [OF 2] by (rule steady_trans)
  then have s2': "advances p pc ?p pc2" by (intro steady_advances) (simp add: steady_def)
  show ?thesis
  proof (cases "p_buffering p \<and> size < pc_buffered_before_play pc2 \<and> \<not> idle")
    case True
    obtain busy pc3 where 3: "(if \<not> p_paused p \<and> p_output_open p then ask (o_audio_output_all_check E) pc2
        else (4, pc2)) = (busy, pc3)"
      by (cases "if \<not> p_paused p \<and> p_output_open p then ask (o_audio_output_all_check E) pc2 else (4, pc2)")
    then have "steady p pc p pc3"
      using s2 by (auto split: if_splits dest!: ask_steady [of _ _ _ _ p] intro: steady_trans)
    moreover have "p' = p" "pc' = pc3"
      using assms True 1 2 3 by (auto simp: do_play_round_def bind_eq_Some_conv)
    ultimately show ?thesis by (simp add: steady_advances)
  next
    case buffered: False
    show ?thesis
    proof (cases "p_decoder_starting p")
      case True
      then have "player_check_decoder_startup E ?p pc2 = Some (b, p', pc')"
        using assms buffered 1 2 by (simp add: do_play_round_def)
      from check_decoder_startup_steady [OF this] s2' show ?thesis
        by (blast intro: advances_trans steady_advances)
    next
      case False
      obtain idle3 pc3 where 3: "ask (o_decoder_is_idle E) pc2 = (idle3, pc3)" by (cases "ask (o_decoder_is_idle E) pc2")
      have "do { pc \<leftarrow> (if idle3 \<and> p_queued p \<and> player_dc_at_current_song pc3
            then player_dc_start ?p DC_NEXT_PIPE pc3 else Some pc3);
          let (player, pc) = round_cross_fade E ?p pc;
          round_play E player pc } = Some (b, p', pc')"
        using assms buffered False by (simp add: do_play_round_def 1 2 3 cong: if_cong)
      then obtain pc4 where 4: "(if idle3 \<and> p_queued p \<and> player_dc_at_current_song pc3
          then player_dc_start ?p DC_NEXT_PIPE pc3 else Some pc3) = Some pc4"
        and res: "(let (player, pc) = round_cross_fade E ?p pc4 in round_play E player pc) = Some (b, p', pc')"
        unfolding bind_eq_Some_conv by blast
      have "advances ?p pc3 ?p pc4"
      proof (cases "idle3 \<and> p_queued p \<and> player_dc_at_current_song pc3")
        case True
        then show ?thesis using 4 dc_start_next_advances [of ?p pc3 pc4] by simp
      next
        case False
        then show ?thesis using 4 by (auto intro: steady_advances)
      qed
      moreover obtain p5 pc5 where 5: "round_cross_fade E ?p pc4 = (p5, pc5)"
        by (cases "round_cross_fade E ?p pc4")
      moreover have "advances p5 pc5 p' pc'" using res 5 by (auto intro: round_play_advances)
      ultimately show ?thesis
        using s2' ask_advances [OF 3, of ?p] steady_advances [OF round_cross_fade_steady [OF 5]]
        by (meson advances_trans)
    qed
  qed
qed

text \<open>
  Between two commands the thread may play on or stop, but it only ever consumes \<^verbatim>\<open>next_song\<close>, and a
  structure at rest stays at rest.
\<close>

lemma player_step_rest:
  assumes "player_step E pc = Some pc'" "thread_rest pc" "pc_ok pc"
  shows "thread_rest pc' \<and> pc_ok pc' \<and> (pc_next_song pc' = None \<or> pc_next_song pc' = pc_next_song pc)"
proof (cases "th_player (pc_thread pc)")
  case None
  then show ?thesis using assms by (simp add: player_step_def)
next
  case (Some p)
  have pr: "playing_rest p pc" using assms(2) Some by (auto simp: thread_rest_def playing_rest_def)
  from assms(1) Some obtain go p1 pc1 where r: "do_play_round E p pc = Some (go, p1, pc1)"
    and res: "(if go then Some (pc1\<lparr>pc_thread := (pc_thread pc1)\<lparr>th_player := Some p1\<rparr>\<rparr>)
          else map_option player_task_wait (do_play_end p1 pc1)) = Some pc'"
    by (auto simp: player_step_def bind_eq_Some_conv)
  note a = do_play_round_advances [OF r]
  with pr have pr1: "playing_rest p1 pc1" by (simp add: advances_def)
  show ?thesis
  proof (cases go)
    case True
    with res have "pc' = pc1\<lparr>pc_thread := (pc_thread pc1)\<lparr>th_player := Some p1\<rparr>\<rparr>" by simp
    then show ?thesis
      using a pr1 assms(3)
      by (auto simp: thread_rest_def playing_rest_def advances_def pc_ok_def player_dc_at_next_song_def
          player_dc_at_current_song_def)
  next
    case False
    with res obtain pc2 where 2: "do_play_end p1 pc1 = Some pc2" "pc' = player_task_wait pc2" by auto
    have "p_queued p1 \<longleftrightarrow> pc_next_song pc1 \<noteq> None" using pr1 by (simp add: playing_rest_def)
    from do_play_end_eq [OF 2(1) this] show ?thesis
      using 2(2) a assms(3) by (auto simp: thread_rest_def player_task_wait_def pc_ok_def advances_def)
  qed
qed

end
