(* ===== verification/Player_Theorems.thy ===== *)
theory Player_Theorems
  imports Player_Task_Inv
begin

text \<open>The properties of the player thread and of the commands sent to it, each with an example.\<close>

section \<open>An example\<close>

text \<open>A world in which everything works: the decoder has started, the devices are open.\<close>

definition calm :: "unit outside" where
  "calm = \<lparr>o_decoder_has_failed = (\<lambda>e. (False, e)), o_decoder_is_starting = (\<lambda>e. (False, e)),
     o_decoder_is_idle = (\<lambda>e. (False, e)), o_dc_seek = (\<lambda>e. (True, e)),
     o_dc_in_audio_format = (\<lambda>e. (audio_format_clear, e)), o_dc_out_audio_format = (\<lambda>e. (audio_format_clear, e)),
     o_dc_total_time = (\<lambda>e. (0, e)), o_audio_output_all_open = (\<lambda>e. (True, e)),
     o_audio_output_all_wait = (\<lambda>e. (True, e)), o_audio_output_all_check = (\<lambda>e. (0, e)),
     o_audio_output_all_get_elapsed_time = (\<lambda>e. (0, e)), o_audio_output_all_play = (\<lambda>e. (True, e)),
     o_music_pipe_size = (\<lambda>e. (0, e)), o_next_chunk_ready = (\<lambda>e. (True, e)), o_chunk_bit_rate = (\<lambda>e. (0, e)),
     o_chunk_length = (\<lambda>e. (0, e)), o_cross_fade_calc = (\<lambda>e. (0, e))\<rparr>"

definition waiting_thread :: "unit thread" where
  "waiting_thread = \<lparr>th_player = None, th_dc_pipe = DC_NO_PIPE, th_dc_song = None, th_dc_start_ms = 0,
     th_dc_end_ms = 0, th_exited = False, th_outside = ()\<rparr>"

definition stopped_pc :: "unit thread player_control" where
  "stopped_pc = pc_new 10 2 0 waiting_thread"

definition some_song :: song where
  "some_song = \<lparr>s_addr = 1, s_tag = None, s_parent = None, s_mtime = 0, s_start_ms = 0, s_end_ms = 0,
     s_uri = ''http://a''\<rparr>"

definition some_player :: player where
  "some_player = \<lparr>p_buffering = True, p_decoder_starting = True, p_paused = False, p_queued = False,
     p_output_open = False, p_song = Some some_song, p_xfade = XFADE_UNKNOWN, p_cross_fading = False,
     p_cross_fade_chunks = 0, p_play_audio_format = audio_format_clear, p_elapsed_time = 0\<rparr>"

definition playing_pc :: "unit thread player_control" where
  "playing_pc = stopped_pc\<lparr>pc_state := PLAYER_STATE_PLAY,
     pc_thread := waiting_thread\<lparr>th_player := Some some_player, th_dc_pipe := DC_CURRENT_PIPE\<rparr>\<rparr>"

lemmas example_defs = calm_def waiting_thread_def stopped_pc_def some_song_def some_player_def playing_pc_def pc_new_def

section \<open>The contract\<close>



text \<open>
  C6: The commands that end playback are lost.  While the thread plays, STOP, EXIT and CLOSE_AUDIO,
  and a CANCEL that comes too late, make it leave the playback loop and wait for the next signal
  without acknowledging the command: the main thread waits forever.  So \<^verbatim>\<open>pc_stop\<close>, \<^verbatim>\<open>pc_kill\<close> and
  \<^verbatim>\<open>pc_play\<close> during playback, and \<^verbatim>\<open>pc_cancel\<close> when nothing is queued, do not return.
\<close>

theorem ending_playback_never_returns:
  assumes "th_player (pc_thread pc) = Some p" "pc_state pc \<noteq> PLAYER_STATE_STOP"
  shows "pc_stop (player_answer E) pc = None \<and> pc_kill (player_answer E) pc = None \<and>
    pc_play (player_answer E) pc song = None \<and>
    (pc_next_song pc = None \<longrightarrow> pc_cancel (player_answer E) pc = None)"
proof -
  have req: "pc\<lparr>pc_command := cmd, pc_error := PLAYER_ERROR_PENDING\<rparr> = request pc cmd None (pc_seek_where pc)" for cmd
    by (simp add: request_def)
  have hang: "player_command (player_answer E) pc cmd = None"
    if "ends_playback cmd \<or> cmd = PLAYER_COMMAND_CANCEL \<and> pc_next_song pc = None" for cmd
  proof (cases "player_answer E (request pc cmd None (pc_seek_where pc))")
    case None
    then show ?thesis using req [of cmd] by (simp add: player_command_def)
  next
    case (Some pc')
    then have "\<not> th_exited (pc_thread pc)" by (simp add: player_answer_def request_def split: if_splits)
    then have "pc_error pc' = PLAYER_ERROR_PENDING"
      using ends_playback_pending [OF assms(1) _ _ Some] that by auto
    then show ?thesis using Some req [of cmd] by (simp add: player_command_def)
  qed
  show ?thesis
    using hang assms(2) by (simp add: pc_stop_def pc_kill_def pc_play_def pc_cancel_def ends_playback_def)
qed

theorem ending_playback_never_returns_witness: "pc_stop (player_answer calm) playing_pc = None"
  using ending_playback_never_returns [of playing_pc some_player calm] by (simp add: example_defs)

text \<open>
  Between two commands the thread keeps its invariant: a round of the playback loop, or the end
  of playback, leaves no command half done, does not enqueue a song and drops the enqueued one only by
  consuming it.
\<close>

lemma player_step_keeps_rest:
  assumes "player_step E pc = Some pc'" "thread_rest pc" "pc_ok pc"
  shows "thread_rest pc' \<and> pc_ok pc' \<and> (pc_next_song pc' = None \<or> pc_next_song pc' = pc_next_song pc)"
  by (rule player_step_rest [OF assms])

end
