(* ===== verification/Base_Theorems.thy ===== *)
theory Base_Theorems
  imports Uri Audio_Format Idle
begin

text \<open>The properties of the helper modules: URIs, audio formats, idle flags.\<close>

section \<open>URIs\<close>

text \<open>
  The check that keeps clients inside the music directory.  On a URI without a component of three
  or more dots it ends, and it accepts exactly the URIs none of whose components is empty, a dot or
  two dots.
\<close>

lemma uri_safe_local_rejects_dots:
  assumes "\<forall>s \<in> set (segments uri). \<not> (all_dots s \<and> 2 < length s)"
  shows "uri_safe_local uri = Some (\<forall>s \<in> set (segments uri). s \<notin> {'''', ''.'', ''..''})"
proof -
  have "all_dots s \<longleftrightarrow> s \<in> {'''', ''.'', ''..''}" if "s \<in> set (segments uri)" for s
  proof -
    have "\<not> (all_dots s \<and> 2 < length s)" using assms that by blast
    then have "all_dots s \<longrightarrow> length s = 0 \<or> length s = 1 \<or> length s = 2" by linarith
    then show ?thesis by (auto simp: all_dots_def length_Suc_conv numeral_2_eq_2)
  qed
  then show ?thesis using uri_safe_local_iff [OF assms] by simp
qed


lemma strchr_append: "c \<notin> set a \<Longrightarrow> strchr (a @ c # b) c = Some (c # b)"
  by (induction a) auto

lemma take_host: "CHR ''/'' \<notin> set h \<Longrightarrow> path = [] \<or> hd path = CHR ''/'' \<Longrightarrow>
  takeWhile (\<lambda>c. c \<noteq> CHR ''/'') (h @ path) = h"
  by (cases path) (auto simp: takeWhile_append takeWhile_eq_all_conv)

text \<open>
  User name and password are removed from an http URI, and nothing else; a URI without them, or
  one of another scheme, is left alone.
\<close>

lemma uri_remove_auth_removes:
  assumes "scheme \<in> {''http://'', ''https://''}" "CHR ''@'' \<notin> set auth" "CHR ''/'' \<notin> set auth"
    "CHR ''/'' \<notin> set host" "path = [] \<or> hd path = CHR ''/''"
  shows "uri_remove_auth (scheme @ auth @ ''@'' @ host @ path) = Some (scheme @ host @ path) \<and>
    (CHR ''@'' \<notin> set host \<longrightarrow> uri_remove_auth (scheme @ host @ path) = None)"
proof -
  have h1: "takeWhile (\<lambda>c. c \<noteq> CHR ''/'') (auth @ CHR ''@'' # host @ path) = auth @ CHR ''@'' # host"
    using take_host [of "auth @ CHR ''@'' # host" path] assms by simp
  have h2: "takeWhile (\<lambda>c. c \<noteq> CHR ''/'') (host @ path) = host" using take_host assms by blast
  have s1: "strchr (auth @ CHR ''@'' # host) CHR ''@'' = Some (CHR ''@'' # host)"
    using strchr_append assms(2) by simp
  have s2: "strchr host CHR ''@'' = None" if "CHR ''@'' \<notin> set host" using that by (simp add: strchr_None)
  from assms(1) show ?thesis
    using h1 h2 s1 s2 by (auto simp: uri_remove_auth_def Let_def)
qed

section \<open>Audio formats\<close>

text \<open>
  Applying a mask to a valid audio format gives a valid one, in which the attributes the mask
  defines replace the others; no assertion fails.
\<close>

lemma audio_format_mask_applied:
  assumes "audio_format_valid af" "audio_format_mask_valid msk"
  shows "\<exists>af'. audio_format_mask_apply af msk = Some af' \<and> audio_format_valid af' \<and>
    af_sample_rate af' = (if af_sample_rate msk = 0 then af_sample_rate af else af_sample_rate msk) \<and>
    af_format af' = (if af_format msk = SAMPLE_FORMAT_UNDEFINED then af_format af else af_format msk) \<and>
    af_channels af' = (if af_channels msk = 0 then af_channels af else af_channels msk)"
  by (rule audio_format_mask_apply_Some [OF assms])

text \<open>
  The frame size of a valid format is between 1 and 32 bytes, so sizes computed from it do not
  overflow, and two formats are equal for the code exactly when all of their attributes are.
\<close>

lemma audio_format_frame_size_in_bounds:
  assumes "audio_format_valid af"
  shows "1 \<le> audio_format_frame_size af \<and> audio_format_frame_size af \<le> 32 \<and> (audio_format_equals af b \<longleftrightarrow> af = b)"
  using audio_format_frame_size_bounds [OF assms] audio_format_equals_iff by simp

section \<open>Idle flags\<close>

text \<open>
  No event is lost: after any number of notifications the flags are those that were set before
  and all that were added, and reading them returns them all and clears them.
\<close>

lemma idle_flags_accumulate:
  assumes "for_each idle_add fs old = Some new"
  shows "idle_get new = (new, 0) \<and> idle_set new = idle_set old \<union> (\<Union>f \<in> set fs. idle_set f)"
  using idle_add_all [OF assms] by (simp add: idle_get_def)

end
