(* ===== verification/Fifo_Buffer.thy ===== *)
theory Fifo_Buffer
  imports Mpd_Prelude
begin

unbundle bit_operations_syntax

text \<open>
  The byte FIFO of the client connections, \<^verbatim>\<open>src/fifo_buffer.c\<close>, and the variant that grows,
  \<^verbatim>\<open>src/growing_fifo.c\<close>.  The flexible array member is a list of \<open>size\<close> bytes; a region handed out
  to the caller is its offset and its length.  A \<^verbatim>\<open>size_t\<close> has 64 bits: its additions are written
  with their wrap-around.  Allocations succeed; \<open>mem n\<close> is what \<open>n\<close> bytes of fresh memory hold.

  The locale \<open>byte_fifo\<close> is what the users of a buffer rely on; it is interpreted on the growing
  buffer, and the stream property follows for it.
\<close>

section \<open>The buffer\<close>

record fifo_buffer =
  fb_size :: nat
  fb_start :: nat
  fb_end :: nat
  fb_buffer :: "u8 list"

definition size_add :: "nat \<Rightarrow> nat \<Rightarrow> nat" where
  "size_add a b = (a + b) mod 2 ^ 64"

definition fifo_buffer_new :: "(nat \<Rightarrow> u8 list) \<Rightarrow> nat \<Rightarrow> fifo_buffer option" where
  "fifo_buffer_new mem sz = do {
     assert_that (0 < sz);
     Some \<lparr>fb_size = sz, fb_start = 0, fb_end = 0, fb_buffer = mem sz\<rparr>
   }"

text \<open>\<^verbatim>\<open>memmove\<close> and \<^verbatim>\<open>memcpy\<close> into an array; the source was read before.\<close>

definition put_bytes :: "'a list \<Rightarrow> nat \<Rightarrow> 'a list \<Rightarrow> 'a list option" where
  "put_bytes xs at data =
     (if at + length data \<le> length xs
      then Some (take at xs @ data @ drop (at + length data) xs) else None)"

definition get_bytes :: "'a list \<Rightarrow> nat \<Rightarrow> nat \<Rightarrow> 'a list option" where
  "get_bytes xs at n = (if at + n \<le> length xs then Some (take n (drop at xs)) else None)"

definition fifo_buffer_move :: "fifo_buffer \<Rightarrow> fifo_buffer option" where
  "fifo_buffer_move b =
     (if fb_start b = 0 then Some b
      else do {
        bytes \<leftarrow> (if fb_start b < fb_end b then do {
            data \<leftarrow> get_bytes (fb_buffer b) (fb_start b) (fb_end b - fb_start b);
            put_bytes (fb_buffer b) 0 data
          } else Some (fb_buffer b));
        Some (b\<lparr>fb_buffer := bytes, fb_end := fb_end b - fb_start b, fb_start := 0\<rparr>)
      })"

text \<open>The result \<open>None\<close> inside \<open>Some\<close> is the \<^verbatim>\<open>NULL\<close> of a released or absent buffer.\<close>

definition fifo_buffer_realloc ::
    "(nat \<Rightarrow> u8 list) \<Rightarrow> fifo_buffer option \<Rightarrow> nat \<Rightarrow> fifo_buffer option option" where
  "fifo_buffer_realloc mem buffer new_size =
     (case buffer of
        None \<Rightarrow> if 0 < new_size then map_option Some (fifo_buffer_new mem new_size) else Some None
      | Some b \<Rightarrow> do {
          assert_that (fb_end b - fb_start b \<le> new_size);
          if new_size = 0 then Some None
          else do {
            b \<leftarrow> (if new_size < fb_end b then fifo_buffer_move b else Some b);
            assert_that (fb_end b \<le> new_size);
            Some (Some (b\<lparr>fb_buffer := take new_size (fb_buffer b) @ drop (fb_size b) (mem new_size),
                          fb_size := new_size\<rparr>))
          }
        })"

definition fifo_buffer_capacity :: "fifo_buffer \<Rightarrow> nat" where
  "fifo_buffer_capacity b = fb_size b"

definition fifo_buffer_available :: "fifo_buffer \<Rightarrow> nat" where
  "fifo_buffer_available b = fb_end b - fb_start b"

definition fifo_buffer_clear :: "fifo_buffer \<Rightarrow> fifo_buffer" where
  "fifo_buffer_clear b = b\<lparr>fb_start := 0, fb_end := 0\<rparr>"

text \<open>The bytes at the returned pointer; \<open>None\<close> inside \<open>Some\<close> is \<^verbatim>\<open>NULL\<close>.\<close>

definition fifo_buffer_read :: "fifo_buffer \<Rightarrow> u8 list option option" where
  "fifo_buffer_read b = do {
     assert_that (fb_start b \<le> fb_end b);
     if fb_start b = fb_end b then Some None
     else map_option Some (get_bytes (fb_buffer b) (fb_start b) (fb_end b - fb_start b))
   }"

definition fifo_buffer_consume :: "fifo_buffer \<Rightarrow> nat \<Rightarrow> fifo_buffer option" where
  "fifo_buffer_consume b n = do {
     assert_that (fb_start b \<le> fb_end b);
     assert_that (size_add (fb_start b) n \<le> fb_end b);
     Some (b\<lparr>fb_start := size_add (fb_start b) n\<rparr>)
   }"

text \<open>The region \<open>(offset, max_length)\<close> that may be written, or \<open>None\<close> for \<^verbatim>\<open>NULL\<close>.\<close>

definition fifo_buffer_write :: "fifo_buffer \<Rightarrow> ((nat \<times> nat) option \<times> fifo_buffer) option" where
  "fifo_buffer_write b = do {
     assert_that (fb_end b \<le> fb_size b);
     b \<leftarrow> (if fb_end b = fb_size b then fifo_buffer_move b
           else if 0 < fb_start b \<and> fb_start b = fb_end b then Some (b\<lparr>fb_start := 0, fb_end := 0\<rparr>)
           else Some b);
     Some (if fb_end b = fb_size b then None else Some (fb_end b, fb_size b - fb_end b), b)
   }"

definition fifo_buffer_append :: "fifo_buffer \<Rightarrow> nat \<Rightarrow> fifo_buffer option" where
  "fifo_buffer_append b n = do {
     assert_that (fb_start b \<le> fb_end b);
     assert_that (size_add (fb_end b) n \<le> fb_size b);
     Some (b\<lparr>fb_end := size_add (fb_end b) n\<rparr>)
   }"

definition fifo_buffer_is_empty :: "fifo_buffer \<Rightarrow> bool" where
  "fifo_buffer_is_empty b \<longleftrightarrow> fb_start b = fb_end b"

definition fifo_buffer_is_full :: "fifo_buffer \<Rightarrow> bool" where
  "fifo_buffer_is_full b \<longleftrightarrow> fb_start b = 0 \<and> fb_end b = fb_size b"

section \<open>The growing buffer\<close>

definition GROWING_FIFO_ALIGN :: nat where
  "GROWING_FIFO_ALIGN = 8192"

definition align :: "nat \<Rightarrow> nat" where
  "align sz = unat (((of_nat sz - 1) OR (of_nat GROWING_FIFO_ALIGN - 1)) + 1 :: 64 word)"

definition growing_fifo_new :: "(nat \<Rightarrow> u8 list) \<Rightarrow> fifo_buffer option" where
  "growing_fifo_new mem = fifo_buffer_new mem GROWING_FIFO_ALIGN"

text \<open>The second half of \<^verbatim>\<open>growing_fifo_write\<close>, after a first attempt that found no room.\<close>

definition growing_fifo_grow ::
    "(nat \<Rightarrow> u8 list) \<Rightarrow> fifo_buffer \<Rightarrow> nat \<Rightarrow> (nat \<times> fifo_buffer) option" where
  "growing_fifo_grow mem b n = do {
     let new_size = size_add (fifo_buffer_available b) n;
     assert_that (fifo_buffer_capacity b < new_size);
     r \<leftarrow> fifo_buffer_realloc mem (Some b) (align new_size);
     b \<leftarrow> r;
     (p, b) \<leftarrow> fifo_buffer_write b;
     (offset, max_length) \<leftarrow> p;
     assert_that (n \<le> max_length);
     Some (offset, b)
   }"

definition growing_fifo_write ::
    "(nat \<Rightarrow> u8 list) \<Rightarrow> fifo_buffer \<Rightarrow> nat \<Rightarrow> (nat \<times> fifo_buffer) option" where
  "growing_fifo_write mem b n = do {
     (p, b) \<leftarrow> fifo_buffer_write b;
     case p of
       Some (offset, max_length) \<Rightarrow>
         if n \<le> max_length then Some (offset, b) else growing_fifo_grow mem b n
     | None \<Rightarrow> growing_fifo_grow mem b n
   }"

definition growing_fifo_append ::
    "(nat \<Rightarrow> u8 list) \<Rightarrow> fifo_buffer \<Rightarrow> u8 list \<Rightarrow> fifo_buffer option" where
  "growing_fifo_append mem b data = do {
     (p, b) \<leftarrow> growing_fifo_write mem b (length data);
     bytes \<leftarrow> put_bytes (fb_buffer b) p data;
     fifo_buffer_append (b\<lparr>fb_buffer := bytes\<rparr>) (length data)
   }"

section \<open>Well-formed buffers and their contents\<close>

definition fifo_ok :: "fifo_buffer \<Rightarrow> bool" where
  "fifo_ok b \<longleftrightarrow> fb_start b \<le> fb_end b \<and> fb_end b \<le> fb_size b \<and> 0 < fb_size b \<and>
     fb_size b < 2 ^ 64 \<and> length (fb_buffer b) = fb_size b"

definition fifo_contents :: "fifo_buffer \<Rightarrow> u8 list" where
  "fifo_contents b = take (fb_end b - fb_start b) (drop (fb_start b) (fb_buffer b))"

lemma length_fifo_contents: "fifo_ok b \<Longrightarrow> length (fifo_contents b) = fb_end b - fb_start b"
  by (auto simp: fifo_ok_def fifo_contents_def min_def)

lemma fifo_available_contents: "fifo_ok b \<Longrightarrow> fifo_buffer_available b = length (fifo_contents b)"
  by (simp add: fifo_buffer_available_def length_fifo_contents)

lemma size_add_small [simp]: "a + b < 2 ^ 64 \<Longrightarrow> size_add a b = a + b"
  by (simp add: size_add_def)

lemma fifo_buffer_new_ok:
  assumes "0 < sz" "sz < 2 ^ 64" "length (mem sz) = sz"
  shows "\<exists>b. fifo_buffer_new mem sz = Some b \<and> fifo_ok b \<and> fifo_contents b = []"
  using assms by (simp add: fifo_buffer_new_def fifo_ok_def fifo_contents_def)

lemma fifo_buffer_read_contents:
  "fifo_ok b \<Longrightarrow>
   fifo_buffer_read b = Some (if fifo_contents b = [] then None else Some (fifo_contents b))"
  by (auto simp: fifo_buffer_read_def fifo_ok_def fifo_contents_def get_bytes_def)

lemma fifo_buffer_consume_contents:
  assumes "fifo_ok b" "n \<le> length (fifo_contents b)"
  shows "\<exists>b'. fifo_buffer_consume b n = Some b' \<and> fifo_ok b' \<and>
    fifo_contents b' = drop n (fifo_contents b) \<and> fb_size b' = fb_size b \<and> fb_end b' = fb_end b"
proof -
  from assms have "fb_start b + n \<le> fb_end b" "fb_start b + n < 2 ^ 64"
    by (auto simp: length_fifo_contents fifo_ok_def)
  with assms(1) show ?thesis
    by (simp add: fifo_buffer_consume_def fifo_ok_def fifo_contents_def drop_take add.commute)
qed

lemma fifo_buffer_clear_contents: "fifo_ok b \<Longrightarrow> fifo_ok (fifo_buffer_clear b) \<and> fifo_contents (fifo_buffer_clear b) = []"
  by (simp add: fifo_buffer_clear_def fifo_ok_def fifo_contents_def)

lemma fifo_buffer_is_empty_contents: "fifo_ok b \<Longrightarrow> fifo_buffer_is_empty b \<longleftrightarrow> fifo_contents b = []"
  by (auto simp: fifo_buffer_is_empty_def fifo_contents_def fifo_ok_def)

lemma fifo_buffer_is_full_contents:
  "fifo_ok b \<Longrightarrow> fifo_buffer_is_full b \<longleftrightarrow> length (fifo_contents b) = fifo_buffer_capacity b"
  by (auto simp: fifo_buffer_is_full_def length_fifo_contents fifo_buffer_capacity_def)
    (auto simp: fifo_ok_def)

lemma fifo_buffer_move_contents:
  assumes "fifo_ok b"
  shows "\<exists>b'. fifo_buffer_move b = Some b' \<and> fifo_ok b' \<and> fifo_contents b' = fifo_contents b \<and>
    fb_start b' = 0 \<and> fb_size b' = fb_size b"
  using assms by (auto simp: fifo_buffer_move_def fifo_ok_def fifo_contents_def get_bytes_def put_bytes_def)

text \<open>A region to write to is found unless the buffer is full; it starts behind the last byte.\<close>

lemma fifo_buffer_write_region:
  assumes "fifo_ok b"
  shows "\<exists>p b'. fifo_buffer_write b = Some (p, b') \<and> fifo_ok b' \<and> fifo_contents b' = fifo_contents b \<and>
    fb_size b' = fb_size b \<and>
    p = (if fb_end b' = fb_size b' then None else Some (fb_end b', fb_size b' - fb_end b')) \<and>
    (fb_end b' = fb_size b' \<longleftrightarrow> length (fifo_contents b) = fb_size b) \<and>
    (fifo_contents b = [] \<longrightarrow> fb_start b' = 0) \<and>
    (fb_start b = 0 \<longrightarrow> fb_start b' = 0 \<and> fb_end b' = fb_end b)"
proof -
  obtain m where m: "fifo_buffer_move b = Some m" "fifo_ok m" "fifo_contents m = fifo_contents b"
    "fb_start m = 0" "fb_size m = fb_size b"
    using fifo_buffer_move_contents [OF assms] by blast
  have len: "length (fifo_contents x) = fb_end x - fb_start x" if "fifo_ok x" for x
    using that by (rule length_fifo_contents)
  consider (tail) "fb_end b = fb_size b" | (empty) "fb_end b \<noteq> fb_size b" "0 < fb_start b" "fb_start b = fb_end b"
    | (plain) "fb_end b \<noteq> fb_size b" "\<not> (0 < fb_start b \<and> fb_start b = fb_end b)" by metis
  then show ?thesis
  proof cases
    case tail
    with m assms show ?thesis
      using len [of m] len [of b] by (auto simp: fifo_buffer_write_def fifo_ok_def fifo_buffer_move_def)
  next
    case empty
    with assms show ?thesis by (auto simp: fifo_buffer_write_def fifo_ok_def fifo_contents_def)
  next
    case plain
    with assms show ?thesis
      using len [of b] by (auto simp: fifo_buffer_write_def fifo_ok_def)
  qed
qed

text \<open>Filling the region and committing the bytes appends them.\<close>

lemma fifo_fill_contents:
  assumes "fifo_ok b" "fb_end b + length data \<le> fb_size b"
  shows "\<exists>bytes b'. put_bytes (fb_buffer b) (fb_end b) data = Some bytes \<and>
    fifo_buffer_append (b\<lparr>fb_buffer := bytes\<rparr>) (length data) = Some b' \<and> fifo_ok b' \<and>
    fifo_contents b' = fifo_contents b @ data \<and> fb_size b' = fb_size b"
proof -
  from assms have "fb_end b + length data < 2 ^ 64" by (simp add: fifo_ok_def)
  with assms show ?thesis
    by (simp add: fifo_ok_def fifo_contents_def put_bytes_def fifo_buffer_append_def drop_take)
qed

section \<open>Growing\<close>

lemma or_mask_13: "(a :: nat) OR 8191 = a div 8192 * 8192 + 8191"
proof -
  have m: "(8191 :: nat) = mask 13" by (simp add: mask_eq_exp_minus_1)
  have "a OR mask 13 = push_bit 13 (drop_bit 13 a) OR mask 13"
    by (rule bit_eqI) (auto simp: bit_simps)
  also have "\<dots> = push_bit 13 (drop_bit 13 a) + mask 13"
    by (rule disjunctive_add [symmetric]) (auto simp: bit_simps)
  finally show ?thesis by (simp add: m [symmetric] push_bit_eq_mult drop_bit_eq_div)
qed

lemma unat_of_nat_u64: "m < 2 ^ 64 \<Longrightarrow> unat (of_nat m :: 64 word) = m"
  by (simp add: unat_of_nat take_bit_nat_eq_self)

text \<open>Sizes are rounded up to the next multiple of the alignment.\<close>

lemma align_up:
  assumes "0 < n" "n \<le> 2 ^ 64 - GROWING_FIFO_ALIGN"
  shows "align n = (n - 1) div GROWING_FIFO_ALIGN * GROWING_FIFO_ALIGN + GROWING_FIFO_ALIGN"
proof -
  let ?a = "(n - 1) div 8192 * 8192 + 8191"
  have eq: "((of_nat n - 1) OR (of_nat GROWING_FIFO_ALIGN - 1)) = (of_nat ?a :: 64 word)"
  proof -
    have "(of_nat n - 1 :: 64 word) = of_nat (n - 1)" using assms(1) by (simp add: of_nat_diff)
    moreover have "(of_nat GROWING_FIFO_ALIGN - 1 :: 64 word) = of_nat 8191"
      by (simp add: GROWING_FIFO_ALIGN_def)
    moreover have "(of_nat (n - 1) OR of_nat 8191 :: 64 word) = of_nat ((n - 1) OR 8191)"
      by (rule of_nat_or_eq [symmetric])
    ultimately show ?thesis by (simp only: or_mask_13)
  qed
  have "?a + 1 < 2 ^ 64" if "n - 1 < 2 ^ 64 - 8192"
    using that div_times_less_eq_dividend [of "n - 1" 8192] by simp
  moreover have "n - 1 < 2 ^ 64 - 8192" using assms by (simp add: GROWING_FIFO_ALIGN_def)
  ultimately have "?a + 1 < 2 ^ 64" by simp
  then have "unat (of_nat (?a + 1) :: 64 word) = ?a + 1"
    by (rule unat_of_nat_u64)
  then have "unat (of_nat ?a + 1 :: 64 word) = ?a + 1" by (simp only: of_nat_add of_nat_1)
  then show ?thesis
    unfolding align_def eq by (simp add: GROWING_FIFO_ALIGN_def)
qed

lemma align_bounds:
  assumes "0 < n" "n \<le> 2 ^ 64 - GROWING_FIFO_ALIGN"
  shows "n \<le> align n" "align n < n + GROWING_FIFO_ALIGN" "align n < 2 ^ 64 \<or> n = 2 ^ 64 - GROWING_FIFO_ALIGN"
    "GROWING_FIFO_ALIGN dvd align n"
  using align_up [OF assms] assms div_mult_mod_eq [of "n - 1" GROWING_FIFO_ALIGN]
    mod_less_divisor [of GROWING_FIFO_ALIGN "n - 1"]
  by (auto simp: GROWING_FIFO_ALIGN_def)

text \<open>
  When an append succeeds, exactly.  \<open>write_end\<close> is where the region to write begins: the bytes are
  moved to the front only if they end at the very end of the array.  If the region is too small the
  new size is computed from the bytes in the buffer alone: an unused front counts as room it is not.
\<close>

definition write_end :: "fifo_buffer \<Rightarrow> nat" where
  "write_end b = (if fb_end b = fb_size b \<or> fb_start b = fb_end b
     then fifo_buffer_available b else fb_end b)"

definition growing_fits :: "fifo_buffer \<Rightarrow> nat \<Rightarrow> bool" where
  "growing_fits b n \<longleftrightarrow>
     write_end b < fb_size b \<and> write_end b + n \<le> fb_size b \<or>
     fb_size b < fifo_buffer_available b + n \<and> write_end b + n \<le> align (fifo_buffer_available b + n)"

lemma fifo_buffer_write_end:
  assumes "fifo_ok b" "fifo_buffer_write b = Some (p, b')"
  shows "fb_end b' = write_end b"
  using assms
  by (auto simp: fifo_buffer_write_def fifo_buffer_move_def fifo_buffer_available_def fifo_ok_def
      write_end_def bind_eq_Some_conv split: if_splits)

lemma fifo_buffer_realloc_contents:
  assumes "fifo_ok b" "fb_size b < n" "n < 2 ^ 64" "length (mem n) = n"
  shows "\<exists>b'. fifo_buffer_realloc mem (Some b) n = Some (Some b') \<and> fifo_ok b' \<and>
    fifo_contents b' = fifo_contents b \<and> fb_size b' = n \<and> fb_end b' = fb_end b \<and> fb_start b' = fb_start b"
  using assms by (auto simp: fifo_buffer_realloc_def fifo_ok_def fifo_contents_def drop_take)

lemma growing_fifo_grow_ok:
  assumes b: "fifo_ok b" "fb_start b = fb_end b \<longrightarrow> fb_start b = 0" and mem: "\<And>n. length (mem n) = n"
    and small: "fifo_buffer_available b + n < 2 ^ 64 - GROWING_FIFO_ALIGN"
  shows "if fb_size b < fifo_buffer_available b + n \<and> fb_end b + n \<le> align (fifo_buffer_available b + n)
    then \<exists>b'. growing_fifo_grow mem b n = Some (fb_end b', b') \<and> fifo_ok b' \<and>
      fifo_contents b' = fifo_contents b \<and> fb_end b' + n \<le> fb_size b'
    else growing_fifo_grow mem b n = None"
proof (cases "fb_size b < fifo_buffer_available b + n")
  case True
  let ?s = "fifo_buffer_available b + n"
  have pos: "0 < ?s" "?s \<le> 2 ^ 64 - GROWING_FIFO_ALIGN" using True small by linarith+
  have s: "size_add (fifo_buffer_available b) n = ?s" using small by simp
  note al = align_bounds [OF pos]
  from al True small have "fb_size b < align ?s" "align ?s < 2 ^ 64" by linarith+
  from fifo_buffer_realloc_contents [OF b(1) this, where mem = mem] mem obtain r where
    r: "fifo_buffer_realloc mem (Some b) (align ?s) = Some (Some r)" "fifo_ok r"
      "fifo_contents r = fifo_contents b" "fb_size r = align ?s" "fb_end r = fb_end b" "fb_start r = fb_start b"
    by blast
  obtain p w where w: "fifo_buffer_write r = Some (p, w)" "fifo_ok w" "fifo_contents w = fifo_contents r"
      "fb_size w = fb_size r"
      "p = (if fb_end w = fb_size w then None else Some (fb_end w, fb_size w - fb_end w))"
    using fifo_buffer_write_region [OF r(2)] by blast
  have ne: "fb_end b < align ?s" using b(1) \<open>fb_size b < align ?s\<close> by (simp add: fifo_ok_def)
  then have e: "fb_end w = fb_end b"
    using fifo_buffer_write_end [OF r(2) w(1)] b(2) r(4-6)
    by (auto simp: write_end_def fifo_buffer_available_def)
  show ?thesis
    using True s r w e ne by (auto simp: growing_fifo_grow_def fifo_buffer_capacity_def le_diff_conv2)
next
  case False
  then show ?thesis using small by (simp add: growing_fifo_grow_def fifo_buffer_capacity_def)
qed

lemma growing_fifo_write_iff:
  assumes b: "fifo_ok b" and mem: "\<And>n. length (mem n) = n"
    and small: "fifo_buffer_available b + n < 2 ^ 64 - GROWING_FIFO_ALIGN"
  shows "if growing_fits b n
    then \<exists>b'. growing_fifo_write mem b n = Some (fb_end b', b') \<and> fifo_ok b' \<and>
      fifo_contents b' = fifo_contents b \<and> fb_end b' + n \<le> fb_size b'
    else growing_fifo_write mem b n = None"
proof -
  obtain p w where w: "fifo_buffer_write b = Some (p, w)" "fifo_ok w" "fifo_contents w = fifo_contents b"
      "fb_size w = fb_size b" "fifo_contents b = [] \<longrightarrow> fb_start w = 0"
      "p = (if fb_end w = fb_size w then None else Some (fb_end w, fb_size w - fb_end w))"
    using fifo_buffer_write_region [OF b] by blast
  have e: "fb_end w = write_end b" using fifo_buffer_write_end [OF b w(1)] .
  have av: "fifo_buffer_available w = fifo_buffer_available b"
    by (simp add: fifo_available_contents w b)
  have le: "fb_end w \<le> fb_size w" using w(2) by (simp add: fifo_ok_def)
  have z: "fb_start w = fb_end w \<longrightarrow> fb_start w = 0"
    using w(2,3,5) length_fifo_contents [OF w(2)] by auto
  show ?thesis
  proof (cases "fb_end w < fb_size w \<and> fb_end w + n \<le> fb_size w")
    case True
    then have "growing_fifo_write mem b n = Some (fb_end w, w)" "growing_fits b n"
      using w e by (auto simp: growing_fifo_write_def growing_fits_def)
    with w True show ?thesis by auto
  next
    case False
    then have "growing_fifo_write mem b n = growing_fifo_grow mem w n"
      using w le by (auto simp: growing_fifo_write_def)
    moreover from False have "growing_fits b n \<longleftrightarrow>
        fb_size w < fifo_buffer_available w + n \<and> fb_end w + n \<le> align (fifo_buffer_available w + n)"
      using w e av by (auto simp: growing_fits_def)
    ultimately show ?thesis
      using growing_fifo_grow_ok [OF w(2) z mem, of n] small w(3) av by auto
  qed
qed

lemma growing_fifo_append_iff:
  assumes b: "fifo_ok b" and mem: "\<And>n. length (mem n) = n"
    and small: "fifo_buffer_available b + length data < 2 ^ 64 - GROWING_FIFO_ALIGN"
  shows "if growing_fits b (length data)
    then \<exists>b'. growing_fifo_append mem b data = Some b' \<and> fifo_ok b' \<and>
      fifo_contents b' = fifo_contents b @ data
    else growing_fifo_append mem b data = None"
proof (cases "growing_fits b (length data)")
  case True
  then obtain c where c: "growing_fifo_write mem b (length data) = Some (fb_end c, c)" "fifo_ok c"
      "fifo_contents c = fifo_contents b" "fb_end c + length data \<le> fb_size c"
    using growing_fifo_write_iff [OF b mem small] by auto
  with fifo_fill_contents [OF c(2,4)] True show ?thesis by (auto simp: growing_fifo_append_def)
next
  case False
  then show ?thesis using growing_fifo_write_iff [OF b mem small] by (simp add: growing_fifo_append_def)
qed

text \<open>A buffer that has been read to its end, or never been read from, takes any data.\<close>

lemma growing_fits_front:
  assumes "fifo_ok b" "fb_start b = 0 \<or> fifo_contents b = []" "0 < n"
    "fifo_buffer_available b + n < 2 ^ 64 - GROWING_FIFO_ALIGN"
  shows "growing_fits b n"
proof -
  have "fb_start b = fb_end b" if "fifo_contents b = []" 
    using that assms(1) length_fifo_contents [OF assms(1)] by (simp add: fifo_ok_def)
  with assms(1,2) have "write_end b = fifo_buffer_available b"
    by (auto simp: write_end_def fifo_buffer_available_def)
  moreover have "fifo_buffer_available b + n \<le> align (fifo_buffer_available b + n)"
    using assms(3,4) by (intro align_bounds(1)) simp_all
  ultimately show ?thesis using assms(3) by (auto simp: growing_fits_def)
qed

end
