(* ===== verification/Encoder.thy ===== *)
theory Encoder
  imports Fifo_Buffer Audio_Format
begin

unbundle bit_operations_syntax

text \<open>
  The two encoders that need no codec library, \<^verbatim>\<open>src/encoder/null.c\<close> and \<^verbatim>\<open>src/encoder/wave.c\<close>, and
  the interface \<^verbatim>\<open>src/encoder_plugin.h\<close> through which the HTTP output uses them
  (\<^verbatim>\<open>src/output/httpd.c\<close>).  The machine is little-endian.

  The locale \<open>encoder_plugin\<close> states what an encoder promises its user; the loops of the HTTP output
  are verified in it once, and it is interpreted on both encoders.
\<close>

section \<open>The null encoder\<close>

record null_encoder =
  ne_buffer :: fifo_buffer

definition null_encoder_open :: "(nat \<Rightarrow> u8 list) \<Rightarrow> null_encoder option" where
  "null_encoder_open mem = do {
     b \<leftarrow> growing_fifo_new mem;
     Some \<lparr>ne_buffer = b\<rparr>
   }"

definition null_encoder_write ::
    "(nat \<Rightarrow> u8 list) \<Rightarrow> null_encoder \<Rightarrow> u8 list \<Rightarrow> (nat \<times> null_encoder) option" where
  "null_encoder_write mem e data = do {
     b \<leftarrow> growing_fifo_append mem (ne_buffer e) data;
     Some (length data, e\<lparr>ne_buffer := b\<rparr>)
   }"

text \<open>The bytes that are copied to the caller; their number is the result of the function.\<close>

definition null_encoder_read :: "null_encoder \<Rightarrow> nat \<Rightarrow> (u8 list \<times> null_encoder) option" where
  "null_encoder_read e n = do {
     src \<leftarrow> fifo_buffer_read (ne_buffer e);
     case src of
       None \<Rightarrow> Some ([], e)
     | Some src \<Rightarrow> do {
         let n = (if length src < n then length src else n);
         b \<leftarrow> fifo_buffer_consume (ne_buffer e) n;
         Some (take n src, e\<lparr>ne_buffer := b\<rparr>)
       }
   }"

section \<open>The wave encoder\<close>

record wave_header =
  wh_id_riff :: u32
  wh_riff_size :: u32
  wh_id_wave :: u32
  wh_id_fmt :: u32
  wh_fmt_size :: u32
  wh_format :: u16
  wh_channels :: u16
  wh_freq :: u32
  wh_byterate :: u32
  wh_blocksize :: u16
  wh_bits :: u16
  wh_id_data :: u32
  wh_data_size :: u32

text \<open>The product \<^verbatim>\<open>freq * block_size\<close> is a signed multiplication, which must not overflow.\<close>

definition fill_wave_header :: "nat \<Rightarrow> nat \<Rightarrow> nat \<Rightarrow> nat \<Rightarrow> wave_header option" where
  "fill_wave_header channels bits freq block_size = do {
     let data_size = 0x0FFFFFFF;
     assert_that (freq * block_size < 2 ^ 31);
     Some \<lparr>wh_id_riff = 0x46464952, wh_riff_size = 4 + (8 + 16) + (8 + data_size),
       wh_id_wave = 0x45564157, wh_id_fmt = 0x20746d66, wh_fmt_size = 16, wh_format = 1,
       wh_channels = of_nat channels, wh_freq = of_nat freq, wh_byterate = of_nat (freq * block_size),
       wh_blocksize = of_nat block_size, wh_bits = of_nat bits, wh_id_data = 0x61746164,
       wh_data_size = data_size\<rparr>
   }"

text \<open>The bytes of the structure in memory; its members leave no gaps.\<close>

definition le16 :: "u16 \<Rightarrow> u8 list" where
  "le16 x = [ucast x, ucast (drop_bit 8 x)]"

definition le32 :: "u32 \<Rightarrow> u8 list" where
  "le32 x = [ucast x, ucast (drop_bit 8 x), ucast (drop_bit 16 x), ucast (drop_bit 24 x)]"

definition wave_header_bytes :: "wave_header \<Rightarrow> u8 list" where
  "wave_header_bytes h =
     le32 (wh_id_riff h) @ le32 (wh_riff_size h) @ le32 (wh_id_wave h) @ le32 (wh_id_fmt h) @
     le32 (wh_fmt_size h) @ le16 (wh_format h) @ le16 (wh_channels h) @ le32 (wh_freq h) @
     le32 (wh_byterate h) @ le16 (wh_blocksize h) @ le16 (wh_bits h) @ le32 (wh_id_data h) @
     le32 (wh_data_size h)"

record wave_encoder =
  we_bits :: nat
  we_buffer :: fifo_buffer

definition wave_encoder_bits :: "sample_format \<Rightarrow> nat" where
  "wave_encoder_bits f = (case f of
       SAMPLE_FORMAT_S8 \<Rightarrow> 8
     | SAMPLE_FORMAT_S16 \<Rightarrow> 16
     | SAMPLE_FORMAT_S24_P32 \<Rightarrow> 24
     | SAMPLE_FORMAT_S32 \<Rightarrow> 32
     | _ \<Rightarrow> 16)"

definition wave_encoder_open ::
    "(nat \<Rightarrow> u8 list) \<Rightarrow> audio_format \<Rightarrow> (audio_format \<times> wave_encoder) option" where
  "wave_encoder_open mem af = do {
     assert_that (audio_format_valid af);
     let bits = wave_encoder_bits (af_format af);
     let af = (if af_format af \<in> {SAMPLE_FORMAT_S8, SAMPLE_FORMAT_S16, SAMPLE_FORMAT_S24_P32, SAMPLE_FORMAT_S32}
               then af else af\<lparr>af_format := SAMPLE_FORMAT_S16\<rparr>);
     b \<leftarrow> growing_fifo_new mem;
     (p, b) \<leftarrow> growing_fifo_write mem b 44;
     header \<leftarrow> fill_wave_header (unat (af_channels af)) bits (unat (af_sample_rate af))
       (bits div 8 * unat (af_channels af));
     bytes \<leftarrow> put_bytes (fb_buffer b) p (wave_header_bytes header);
     b \<leftarrow> fifo_buffer_append (b\<lparr>fb_buffer := bytes\<rparr>) 44;
     Some (af, \<lparr>we_bits = bits, we_buffer = b\<rparr>)
   }"

text \<open>The source is read in units of four bytes; what is left over is ignored.\<close>

fun pcm24_to_wave :: "u8 list \<Rightarrow> u8 list" where
  "pcm24_to_wave (a # b # c # d # src) =
     (let val = ucast a OR push_bit 8 (ucast b) OR push_bit 16 (ucast c) OR push_bit 24 (ucast d) :: u32
      in [ucast (val AND 0xFF), ucast (drop_bit 8 val AND 0xFF), ucast (drop_bit 16 val AND 0xFF)]
         @ pcm24_to_wave src)"
| "pcm24_to_wave src = []"

text \<open>The bytes stored and the number of bytes committed.\<close>

definition wave_encoder_write ::
    "(nat \<Rightarrow> u8 list) \<Rightarrow> wave_encoder \<Rightarrow> u8 list \<Rightarrow> (nat \<times> wave_encoder) option" where
  "wave_encoder_write mem e src = do {
     (p, b) \<leftarrow> growing_fifo_write mem (we_buffer e) (length src);
     let (data, n) = (if we_bits e \<in> {8, 16, 32} then (src, length src)
       else if we_bits e = 24 then (pcm24_to_wave src, length (pcm24_to_wave src))
       else ([], length src));
     bytes \<leftarrow> put_bytes (fb_buffer b) p data;
     b \<leftarrow> fifo_buffer_append (b\<lparr>fb_buffer := bytes\<rparr>) n;
     Some (n, e\<lparr>we_buffer := b\<rparr>)
   }"

definition wave_encoder_read :: "wave_encoder \<Rightarrow> nat \<Rightarrow> (u8 list \<times> wave_encoder) option" where
  "wave_encoder_read e n = do {
     src \<leftarrow> fifo_buffer_read (we_buffer e);
     case src of
       None \<Rightarrow> Some ([], e)
     | Some src \<Rightarrow> do {
         let n = (if length src < n then length src else n);
         b \<leftarrow> fifo_buffer_consume (we_buffer e) n;
         Some (take n src, e\<lparr>we_buffer := b\<rparr>)
       }
   }"

section \<open>The HTTP output\<close>

text \<open>
  The part of the HTTP output that feeds an encoder and hands out what it produces.  \<open>h_pages\<close> is the
  sequence of pages broadcast so far.  The encoder's operations are arguments, as in the plugin
  table; neither encoder above has a \<^verbatim>\<open>flush\<close> method.
\<close>

record 'e httpd_output =
  h_encoder :: 'e
  h_unflushed_input :: nat
  h_header :: "u8 list option"
  h_pages :: "u8 list list"

type_synonym 'e encoder_reader = "'e \<Rightarrow> nat \<Rightarrow> (u8 list \<times> 'e) option"
type_synonym 'e encoder_writer = "'e \<Rightarrow> u8 list \<Rightarrow> (nat \<times> 'e) option"

abbreviation httpd_buffer_size :: nat where
  "httpd_buffer_size \<equiv> 32768"

text \<open>The loop of \<^verbatim>\<open>httpd_output_read_page\<close>; \<open>acc\<close> is what is in \<^verbatim>\<open>httpd->buffer\<close>.\<close>

function read_page_loop ::
    "'e encoder_reader \<Rightarrow> 'e httpd_output \<Rightarrow> u8 list \<Rightarrow> (u8 list \<times> 'e httpd_output) option" where
  "read_page_loop rd h acc =
     rd (h_encoder h) (httpd_buffer_size - length acc) \<bind> (\<lambda>(bytes, e).
       if bytes = [] then Some (acc, h\<lparr>h_encoder := e\<rparr>)
       else if length (acc @ bytes) < httpd_buffer_size
       then read_page_loop rd (h\<lparr>h_encoder := e, h_unflushed_input := 0\<rparr>) (acc @ bytes)
       else Some (acc @ bytes, h\<lparr>h_encoder := e, h_unflushed_input := 0\<rparr>))"
  by pat_completeness auto
termination by (relation "measure (\<lambda>(rd, h, acc). httpd_buffer_size - length acc)") (auto simp: neq_Nil_conv)

declare read_page_loop.simps [simp del]

definition httpd_output_read_page ::
    "'e encoder_reader \<Rightarrow> 'e httpd_output \<Rightarrow> (u8 list option \<times> 'e httpd_output) option" where
  "httpd_output_read_page rd h = do {
     let h = (if 65536 \<le> h_unflushed_input h then h\<lparr>h_unflushed_input := 0\<rparr> else h);
     (bytes, h) \<leftarrow> read_page_loop rd h [];
     Some (if bytes = [] then None else Some bytes, h)
   }"

text \<open>The end of \<^verbatim>\<open>httpd_output_encoder_open\<close>, once the encoder is open.\<close>

definition httpd_output_encoder_open ::
    "'e encoder_reader \<Rightarrow> 'e httpd_output \<Rightarrow> 'e \<Rightarrow> 'e httpd_output option" where
  "httpd_output_encoder_open rd h e = do {
     (page, h) \<leftarrow> httpd_output_read_page rd (h\<lparr>h_encoder := e\<rparr>);
     Some (h\<lparr>h_header := page, h_unflushed_input := 0\<rparr>)
   }"

definition httpd_output_broadcast_page :: "'e httpd_output \<Rightarrow> u8 list \<Rightarrow> 'e httpd_output" where
  "httpd_output_broadcast_page h page = h\<lparr>h_pages := h_pages h @ [page]\<rparr>"

partial_function (option) httpd_output_encoder_to_clients ::
    "'e encoder_reader \<Rightarrow> 'e httpd_output \<Rightarrow> 'e httpd_output option" where
  "httpd_output_encoder_to_clients rd h =
     httpd_output_read_page rd h \<bind> (\<lambda>(page, h). case page of
         None \<Rightarrow> Some h
       | Some page \<Rightarrow> httpd_output_encoder_to_clients rd (httpd_output_broadcast_page h page))"

definition httpd_output_encode_and_play ::
    "'e encoder_writer \<Rightarrow> 'e encoder_reader \<Rightarrow> 'e httpd_output \<Rightarrow> u8 list \<Rightarrow> 'e httpd_output option" where
  "httpd_output_encode_and_play wr rd h chunk = do {
     (_, e) \<leftarrow> wr (h_encoder h) chunk;
     httpd_output_encoder_to_clients rd
       (h\<lparr>h_encoder := e, h_unflushed_input := size_add (h_unflushed_input h) (length chunk)\<rparr>)
   }"

section \<open>The contract of an encoder\<close>

text \<open>
  \<open>pending\<close> is what can be read, \<open>encoded e data\<close> what the encoder makes of \<open>data\<close>, and \<open>accepts e\<close> says
  which chunks it takes once everything has been read from it.
\<close>

locale encoder_plugin =
  fixes ok :: "'e \<Rightarrow> bool" and pending :: "'e \<Rightarrow> u8 list"
    and accepts :: "'e \<Rightarrow> u8 list \<Rightarrow> bool" and encoded :: "'e \<Rightarrow> u8 list \<Rightarrow> u8 list"
    and wr :: "'e encoder_writer" and rd :: "'e encoder_reader"
  assumes read_law: "ok e \<Longrightarrow> \<exists>e'. rd e n = Some (take n (pending e), e') \<and> ok e' \<and>
      pending e' = drop n (pending e) \<and> accepts e' = accepts e \<and> encoded e' = encoded e"
    and write_law: "ok e \<Longrightarrow> pending e = [] \<Longrightarrow> accepts e data \<Longrightarrow>
      \<exists>k e'. wr e data = Some (k, e') \<and> ok e' \<and> pending e' = encoded e data \<and>
        accepts e' = accepts e \<and> encoded e' = encoded e"
begin

definition same_encoding :: "'e \<Rightarrow> 'e \<Rightarrow> bool" where
  "same_encoding e e' \<longleftrightarrow> ok e' \<and> accepts e' = accepts e \<and> encoded e' = encoded e"

lemma read_page_loop_takes:
  assumes "ok (h_encoder h)" "length acc < httpd_buffer_size"
  shows "\<exists>h'. read_page_loop rd h acc =
      Some (acc @ take (httpd_buffer_size - length acc) (pending (h_encoder h)), h') \<and>
    same_encoding (h_encoder h) (h_encoder h') \<and> h_pages h' = h_pages h \<and>
    pending (h_encoder h') = drop (httpd_buffer_size - length acc) (pending (h_encoder h))"
proof -
  let ?n = "httpd_buffer_size - length acc" and ?p = "pending (h_encoder h)"
  obtain e where e: "rd (h_encoder h) ?n = Some (take ?n ?p, e)" "pending e = drop ?n ?p"
      "same_encoding (h_encoder h) e"
    using read_law [OF assms(1)] by (auto simp: same_encoding_def)
  show ?thesis
  proof (cases "length acc + length (take ?n ?p) < httpd_buffer_size \<and> ?p \<noteq> []")
    case False
    with e assms(2) show ?thesis
      by (subst read_page_loop.simps) (auto simp: min_def split: if_splits)
  next
    case True
    let ?h = "h\<lparr>h_encoder := e, h_unflushed_input := 0\<rparr>"
    from True have all: "take ?n ?p = ?p" "pending e = []" using e(2) by (auto simp: min_def split: if_splits)
    obtain e2 where e2: "rd e (httpd_buffer_size - length (acc @ ?p)) = Some ([], e2)" "pending e2 = []"
        "same_encoding (h_encoder h) e2"
      using read_law [of e] e(3) all by (auto simp: same_encoding_def)
    have "read_page_loop rd ?h (acc @ ?p) = Some (acc @ ?p, ?h\<lparr>h_encoder := e2\<rparr>)"
      using e2 by (subst read_page_loop.simps) simp
    with e all True e2 assms(2) show ?thesis by (subst read_page_loop.simps) auto
  qed
qed

lemma read_page_takes:
  assumes "ok (h_encoder h)"
  shows "\<exists>h'. httpd_output_read_page rd h =
      Some (if pending (h_encoder h) = [] then None
            else Some (take httpd_buffer_size (pending (h_encoder h))), h') \<and>
    same_encoding (h_encoder h) (h_encoder h') \<and> h_pages h' = h_pages h \<and>
    pending (h_encoder h') = drop httpd_buffer_size (pending (h_encoder h))"
proof -
  let ?h = "if 65536 \<le> h_unflushed_input h then h\<lparr>h_unflushed_input := 0\<rparr> else h"
  have "h_encoder ?h = h_encoder h" "h_pages ?h = h_pages h" by simp_all
  with read_page_loop_takes [of ?h "[]"] assms show ?thesis
    by (auto simp: httpd_output_read_page_def Let_def)
qed

text \<open>Everything the encoder holds is broadcast, in order, in pages that fit the buffer.\<close>

lemma to_clients_broadcasts:
  assumes "ok (h_encoder h)"
  shows "\<exists>h' ps. httpd_output_encoder_to_clients rd h = Some h' \<and> h_pages h' = h_pages h @ ps \<and>
    concat ps = pending (h_encoder h) \<and> (\<forall>p \<in> set ps. p \<noteq> [] \<and> length p \<le> httpd_buffer_size) \<and>
    same_encoding (h_encoder h) (h_encoder h') \<and> pending (h_encoder h') = []"
  using assms
proof (induction "length (pending (h_encoder h))" arbitrary: h rule: less_induct)
  case less
  let ?p = "pending (h_encoder h)"
  obtain h1 where h1: "httpd_output_read_page rd h =
        Some (if ?p = [] then None else Some (take httpd_buffer_size ?p), h1)"
      "same_encoding (h_encoder h) (h_encoder h1)" "h_pages h1 = h_pages h"
      "pending (h_encoder h1) = drop httpd_buffer_size ?p"
    using read_page_takes [OF less.prems] by blast
  show ?case
  proof (cases "?p = []")
    case True
    with h1 show ?thesis by (subst httpd_output_encoder_to_clients.simps) simp
  next
    case False
    let ?h = "httpd_output_broadcast_page h1 (take httpd_buffer_size ?p)"
    have "length (pending (h_encoder ?h)) < length ?p" "ok (h_encoder ?h)"
      using False h1 by (auto simp: httpd_output_broadcast_page_def same_encoding_def)
    from less.hyps [OF this] obtain h2 ps where h2:
        "httpd_output_encoder_to_clients rd ?h = Some h2" "h_pages h2 = h_pages ?h @ ps"
        "concat ps = pending (h_encoder ?h)" "\<forall>p \<in> set ps. p \<noteq> [] \<and> length p \<le> httpd_buffer_size"
        "same_encoding (h_encoder ?h) (h_encoder h2)" "pending (h_encoder h2) = []" by blast
    have s: "h_encoder ?h = h_encoder h1" "h_pages ?h = h_pages h @ [take httpd_buffer_size ?p]"
      using h1(3) by (simp_all add: httpd_output_broadcast_page_def)
    have "httpd_output_encoder_to_clients rd h = Some h2"
      using h1(1) h2(1) False by (subst httpd_output_encoder_to_clients.simps) simp
    moreover have "same_encoding (h_encoder h) (h_encoder h2)"
      using h1(2) h2(5) s(1) by (simp add: same_encoding_def)
    moreover have "concat (take httpd_buffer_size ?p # ps) = ?p" using h2(3) s(1) h1(4) by simp
    ultimately show ?thesis
      using h2 s False by (intro exI [of _ h2] exI [of _ "take httpd_buffer_size ?p # ps"]) simp
  qed
qed

lemma chunks_broadcast:
  assumes "ok (h_encoder h)" "pending (h_encoder h) = []" "\<forall>c \<in> set chunks. accepts (h_encoder h) c"
  shows "\<exists>h' ps. for_each (\<lambda>c h. httpd_output_encode_and_play wr rd h c) chunks h = Some h' \<and>
    h_pages h' = h_pages h @ ps \<and> concat ps = concat (map (encoded (h_encoder h)) chunks) \<and>
    (\<forall>p \<in> set ps. p \<noteq> [] \<and> length p \<le> httpd_buffer_size) \<and>
    same_encoding (h_encoder h) (h_encoder h') \<and> pending (h_encoder h') = []"
  using assms
proof (induction chunks arbitrary: h)
  case Nil
  then show ?case by (simp add: same_encoding_def)
next
  case (Cons c chunks)
  let ?e = "h_encoder h"
  obtain k e where e: "wr ?e c = Some (k, e)" "pending e = encoded ?e c" "same_encoding ?e e"
    using write_law [of ?e c] Cons.prems by (auto simp: same_encoding_def)
  let ?h = "h\<lparr>h_encoder := e, h_unflushed_input := size_add (h_unflushed_input h) (length c)\<rparr>"
  obtain h1 ps where h1: "httpd_output_encoder_to_clients rd ?h = Some h1" "h_pages h1 = h_pages h @ ps"
      "concat ps = encoded ?e c" "\<forall>p \<in> set ps. p \<noteq> [] \<and> length p \<le> httpd_buffer_size" "same_encoding e (h_encoder h1)" "pending (h_encoder h1) = []"
    using to_clients_broadcasts [of ?h] e by (auto simp: same_encoding_def)
  obtain h2 qs where h2: "for_each (\<lambda>c h. httpd_output_encode_and_play wr rd h c) chunks h1 = Some h2"
      "h_pages h2 = h_pages h1 @ qs" "concat qs = concat (map (encoded (h_encoder h1)) chunks)"
      "\<forall>p \<in> set qs. p \<noteq> [] \<and> length p \<le> httpd_buffer_size"
      "same_encoding (h_encoder h1) (h_encoder h2)" "pending (h_encoder h2) = []"
    using Cons.IH [of h1] h1(5,6) e(3) Cons.prems(3) by (auto simp: same_encoding_def)
  show ?case
    using e h1 h2
    by (intro exI [of _ h2] exI [of _ "ps @ qs"])
      (simp add: httpd_output_encode_and_play_def same_encoding_def ball_Un)
qed

text \<open>An output that has read the header of its encoder broadcasts the encoded chunks.\<close>

lemma open_broadcasts:
  assumes "ok e" "pending e \<noteq> []" "length (pending e) \<le> httpd_buffer_size" "\<forall>c \<in> set chunks. accepts e c"
  shows "\<exists>h h' ps. httpd_output_encoder_open rd h0 e = Some h \<and> h_header h = Some (pending e) \<and>
    for_each (\<lambda>c h. httpd_output_encode_and_play wr rd h c) chunks h = Some h' \<and>
    h_pages h' = h_pages h0 @ ps \<and> concat ps = concat (map (encoded e) chunks) \<and>
    (\<forall>p \<in> set ps. p \<noteq> [] \<and> length p \<le> httpd_buffer_size)"
proof -
  obtain h where h: "httpd_output_encoder_open rd h0 e = Some h" "h_header h = Some (pending e)"
      "h_pages h = h_pages h0" "same_encoding e (h_encoder h)" "pending (h_encoder h) = []"
    using read_page_takes [of "h0\<lparr>h_encoder := e\<rparr>"] assms by (auto simp: httpd_output_encoder_open_def)
  from chunks_broadcast [of h chunks] h assms(4) show ?thesis
    by (fastforce simp: same_encoding_def)
qed

end

section \<open>Both encoders keep the contract\<close>

lemma fifo_read_take:
  assumes "fifo_ok b"
  shows "\<exists>b'. fifo_buffer_consume b (min n (length (fifo_contents b))) = Some b' \<and> fifo_ok b' \<and>
    fifo_contents b' = drop n (fifo_contents b)"
  using fifo_buffer_consume_contents [OF assms, of "min n (length (fifo_contents b))"] by (auto simp: min_def)

text \<open>Fresh memory of the right size; chunks of data that leave room for the alignment.\<close>

abbreviation memory :: "(nat \<Rightarrow> u8 list) \<Rightarrow> bool" where
  "memory mem \<equiv> \<forall>n. length (mem n) = n"

abbreviation chunk_ok :: "u8 list \<Rightarrow> bool" where
  "chunk_ok data \<equiv> data \<noteq> [] \<and> length data < 2 ^ 64 - GROWING_FIFO_ALIGN"

interpretation null: encoder_plugin "\<lambda>e. fifo_ok (ne_buffer e)" "\<lambda>e. fifo_contents (ne_buffer e)"
  "\<lambda>e data. memory mem \<and> chunk_ok data" "\<lambda>e data. data" "null_encoder_write mem" null_encoder_read
  for mem
proof
  fix e :: null_encoder and n
  assume ok: "fifo_ok (ne_buffer e)"
  then show "\<exists>e'. null_encoder_read e n = Some (take n (fifo_contents (ne_buffer e)), e') \<and>
      fifo_ok (ne_buffer e') \<and> fifo_contents (ne_buffer e') = drop n (fifo_contents (ne_buffer e)) \<and>
      (\<lambda>data. memory mem \<and> chunk_ok data) = (\<lambda>data. memory mem \<and> chunk_ok data) \<and>
      (\<lambda>data. data) = (\<lambda>data :: u8 list. data)"
    using fifo_read_take [OF ok, of n]
    by (auto simp: null_encoder_read_def fifo_buffer_read_contents min_def split: if_splits)
next
  fix e :: null_encoder and data
  assume ok: "fifo_ok (ne_buffer e)" and "fifo_contents (ne_buffer e) = []" "memory mem \<and> chunk_ok data"
  then have "growing_fits (ne_buffer e) (length data)"
    "fifo_buffer_available (ne_buffer e) + length data < 2 ^ 64 - GROWING_FIFO_ALIGN"
    by (auto intro!: growing_fits_front simp: fifo_available_contents)
  then show "\<exists>k e'. null_encoder_write mem e data = Some (k, e') \<and> fifo_ok (ne_buffer e') \<and>
      fifo_contents (ne_buffer e') = data \<and>
      (\<lambda>data. memory mem \<and> chunk_ok data) = (\<lambda>data. memory mem \<and> chunk_ok data) \<and>
      (\<lambda>data. data) = (\<lambda>data :: u8 list. data)"
    using growing_fifo_append_iff [OF ok, of mem data] \<open>fifo_contents (ne_buffer e) = []\<close>
      \<open>memory mem \<and> chunk_ok data\<close>
    by (auto simp: null_encoder_write_def)
qed

text \<open>
  The wave encoder drops the fourth byte of every sample of 24 bits and keeps the other formats.
\<close>

definition wave_encoded :: "nat \<Rightarrow> u8 list \<Rightarrow> u8 list" where
  "wave_encoded bits data = (if bits = 24 then pcm24_to_wave data else data)"

definition wave_ok :: "wave_encoder \<Rightarrow> bool" where
  "wave_ok e \<longleftrightarrow> fifo_ok (we_buffer e) \<and> we_bits e \<in> {8, 16, 24, 32}"

lemma length_pcm24_to_wave: "length (pcm24_to_wave data) \<le> length data"
  by (induction data rule: pcm24_to_wave.induct) (simp_all add: Let_def)

lemma pcm24_to_wave_bytes: "pcm24_to_wave (a # b # c # d # src) = a # b # c # pcm24_to_wave src"
proof -
  let ?v = "ucast a OR push_bit 8 (ucast b) OR push_bit 16 (ucast c) OR push_bit 24 (ucast d) :: u32"
  have m: "(0xFF :: u32) = mask 8" by (simp add: mask_eq_exp_minus_1)
  have "ucast (?v AND 0xFF) = a" "ucast (drop_bit 8 ?v AND 0xFF) = b" "ucast (drop_bit 16 ?v AND 0xFF) = c"
    unfolding m by (rule bit_eqI; auto simp: bit_simps dest: bit_imp_le_length)+
  then show ?thesis by (simp add: Let_def)
qed

interpretation wave: encoder_plugin wave_ok "\<lambda>e. fifo_contents (we_buffer e)"
  "\<lambda>e data. memory mem \<and> chunk_ok data" "\<lambda>e. wave_encoded (we_bits e)" "wave_encoder_write mem" wave_encoder_read
  for mem
proof
  fix e :: wave_encoder and n
  assume ok: "wave_ok e"
  then have b: "fifo_ok (we_buffer e)" by (simp add: wave_ok_def)
  show "\<exists>e'. wave_encoder_read e n = Some (take n (fifo_contents (we_buffer e)), e') \<and> wave_ok e' \<and>
      fifo_contents (we_buffer e') = drop n (fifo_contents (we_buffer e)) \<and>
      (\<lambda>data. memory mem \<and> chunk_ok data) = (\<lambda>data. memory mem \<and> chunk_ok data) \<and>
      wave_encoded (we_bits e') = wave_encoded (we_bits e)"
    using fifo_read_take [OF b, of n] ok
    by (auto simp: wave_encoder_read_def fifo_buffer_read_contents wave_ok_def min_def split: if_splits)
next
  fix e :: wave_encoder and data
  assume ok: "wave_ok e" and empty: "fifo_contents (we_buffer e) = []" and c: "memory mem \<and> chunk_ok data"
  from ok have b: "fifo_ok (we_buffer e)" by (simp add: wave_ok_def)
  have "growing_fits (we_buffer e) (length data)"
    using b empty c by (intro growing_fits_front) (auto simp: fifo_available_contents)
  then obtain w where w: "growing_fifo_write mem (we_buffer e) (length data) = Some (fb_end w, w)"
      "fifo_ok w" "fifo_contents w = []" "fb_end w + length data \<le> fb_size w"
    using growing_fifo_write_iff [OF b, of mem "length data"] empty c by (auto simp: fifo_available_contents b)
  have "fb_end w + length (wave_encoded (we_bits e) data) \<le> fb_size w"
    using w(4) length_pcm24_to_wave [of data] by (auto simp: wave_encoded_def)
  from fifo_fill_contents [OF w(2) this] w(1,3) ok
  show "\<exists>k e'. wave_encoder_write mem e data = Some (k, e') \<and> wave_ok e' \<and>
      fifo_contents (we_buffer e') = wave_encoded (we_bits e) data \<and>
      (\<lambda>data. memory mem \<and> chunk_ok data) = (\<lambda>data. memory mem \<and> chunk_ok data) \<and>
      wave_encoded (we_bits e') = wave_encoded (we_bits e)"
    by (auto simp: wave_encoder_write_def wave_ok_def wave_encoded_def)
qed

section \<open>Opening\<close>

lemma length_wave_header_bytes [simp]: "length (wave_header_bytes h) = 44"
  by (simp add: wave_header_bytes_def le16_def le32_def)

lemma growing_fifo_new_ok:
  assumes "memory mem"
  shows "\<exists>b. growing_fifo_new mem = Some b \<and> fifo_ok b \<and> fifo_contents b = [] \<and> fb_start b = 0"
  using assms
  by (simp add: growing_fifo_new_def fifo_buffer_new_def fifo_ok_def fifo_contents_def GROWING_FIFO_ALIGN_def)

lemma wave_encoder_open_pending:
  assumes "memory mem" "audio_format_valid af"
    and "fill_wave_header (unat (af_channels af)) (wave_encoder_bits (af_format af)) (unat (af_sample_rate af))
      (wave_encoder_bits (af_format af) div 8 * unat (af_channels af)) = Some header"
  shows "\<exists>af' e. wave_encoder_open mem af = Some (af', e) \<and> wave_ok e \<and>
    we_bits e = wave_encoder_bits (af_format af) \<and> fifo_contents (we_buffer e) = wave_header_bytes header"
proof -
  obtain b where b: "growing_fifo_new mem = Some b" "fifo_ok b" "fifo_contents b = []" "fb_start b = 0"
    using growing_fifo_new_ok [OF assms(1)] by blast
  then have av: "fifo_buffer_available b = 0" by (simp add: fifo_available_contents)
  then have "growing_fits b 44"
    using b by (intro growing_fits_front) (simp_all add: GROWING_FIFO_ALIGN_def)
  then obtain w where w: "growing_fifo_write mem b 44 = Some (fb_end w, w)" "fifo_ok w"
      "fifo_contents w = []" "fb_end w + 44 \<le> fb_size w"
    using growing_fifo_write_iff [OF b(2), of mem 44] assms(1) b(3) av by (auto simp: GROWING_FIFO_ALIGN_def)
  have "wave_encoder_bits f \<in> {8, 16, 24, 32}" for f by (cases f) (simp_all add: wave_encoder_bits_def)
  moreover obtain bytes c where "put_bytes (fb_buffer w) (fb_end w) (wave_header_bytes header) = Some bytes"
      "fifo_buffer_append (w\<lparr>fb_buffer := bytes\<rparr>) 44 = Some c" "fifo_ok c"
      "fifo_contents c = wave_header_bytes header"
    using fifo_fill_contents [OF w(2), of "wave_header_bytes header"] w(3,4) by auto
  ultimately show ?thesis
    using assms b w by (simp add: wave_encoder_open_def wave_ok_def Let_def)
qed

end
