(* ===== verification/Stream_Theorems.thy ===== *)
theory Stream_Theorems
  imports Encoder
begin

text \<open>
  Properties of the byte buffers and of the encoders that use them.
\<close>

text \<open>C22: An HTTP output with the wave encoder first reads the 44 bytes of the wave header, and then
  broadcasts exactly the samples it is given, in order, in their packed form: whatever the sizes of
  the chunks, nothing is lost, repeated or reordered, and no page is larger than the buffer of the
  output.\<close>

theorem httpd_wave_stream:
  assumes "memory mem" "audio_format_valid af" "\<forall>c \<in> set chunks. chunk_ok c"
    and "fill_wave_header (unat (af_channels af)) (wave_encoder_bits (af_format af)) (unat (af_sample_rate af))
      (wave_encoder_bits (af_format af) div 8 * unat (af_channels af)) = Some header"
  shows "\<exists>af' e h h' pages. wave_encoder_open mem af = Some (af', e) \<and>
    httpd_output_encoder_open wave_encoder_read h0 e = Some h \<and>
    h_header h = Some (wave_header_bytes header) \<and>
    for_each (\<lambda>c h. httpd_output_encode_and_play (wave_encoder_write mem) wave_encoder_read h c) chunks h = Some h' \<and>
    h_pages h' = h_pages h0 @ pages \<and>
    concat pages = concat (map (wave_encoded (wave_encoder_bits (af_format af))) chunks) \<and>
    (\<forall>p \<in> set pages. p \<noteq> [] \<and> length p \<le> httpd_buffer_size)"
proof -
  obtain af' e where e: "wave_encoder_open mem af = Some (af', e)" "wave_ok e"
      "we_bits e = wave_encoder_bits (af_format af)" "fifo_contents (we_buffer e) = wave_header_bytes header"
    using wave_encoder_open_pending [OF assms(1,2,4)] by blast
  have "fifo_contents (we_buffer e) \<noteq> []" "length (fifo_contents (we_buffer e)) \<le> httpd_buffer_size"
    "\<forall>c \<in> set chunks. memory mem \<and> chunk_ok c"
    using e(4) length_wave_header_bytes [of header] assms(1,3) by fastforce+
  from wave.open_broadcasts [where mem = mem, OF e(2) this] e(1,3,4) show ?thesis by simp
qed

definition sample_memory :: "nat \<Rightarrow> u8 list" where
  "sample_memory n = replicate n 0"

theorem httpd_wave_stream_witness:
  "\<exists>header af' e h h' pages. wave_encoder_open sample_memory (audio_format_init 44100 SAMPLE_FORMAT_S24_P32 1) = Some (af', e) \<and>
    httpd_output_encoder_open wave_encoder_read
      \<lparr>h_encoder = e, h_unflushed_input = 0, h_header = None, h_pages = []\<rparr> e = Some h \<and>
    h_header h = Some (wave_header_bytes header) \<and>
    for_each (\<lambda>c h. httpd_output_encode_and_play (wave_encoder_write sample_memory) wave_encoder_read h c)
      [[1, 2, 3, 4], [5, 6, 7, 8, 9, 10, 11, 12]] h = Some h' \<and>
    h_pages h' = pages \<and> concat pages = [1, 2, 3, 5, 6, 7, 9, 10, 11]"
proof -
  let ?af = "audio_format_init 44100 SAMPLE_FORMAT_S24_P32 1"
  have c: "wave_encoder_bits (af_format ?af) = 24" "unat (af_channels ?af) = 1" "unat (af_sample_rate ?af) = 44100"
    by (simp_all add: audio_format_init_def wave_encoder_bits_def)
  obtain header where "fill_wave_header 1 24 44100 3 = Some header" by (simp add: fill_wave_header_def)
  then have h: "fill_wave_header (unat (af_channels ?af)) (wave_encoder_bits (af_format ?af)) (unat (af_sample_rate ?af))
      (wave_encoder_bits (af_format ?af) div 8 * unat (af_channels ?af)) = Some header"
    by (simp add: c)
  have v: "memory sample_memory" "audio_format_valid ?af"
    "\<forall>d \<in> set [[1, 2, 3, 4], [5, 6, 7, 8, 9, 10, 11, 12]]. chunk_ok d"
    by (simp_all add: sample_memory_def audio_format_init_def audio_format_valid_def audio_valid_sample_rate_def
        audio_valid_channel_count_def GROWING_FIFO_ALIGN_def)
  have "wave_encoded 24 [1, 2, 3, 4] = [1, 2, 3]"
    "wave_encoded 24 [5, 6, 7, 8, 9, 10, 11, 12] = [5, 6, 7, 9, 10, 11]"
    by (simp_all add: wave_encoded_def pcm24_to_wave_bytes del: pcm24_to_wave.simps(1))
  then have m: "concat (map (wave_encoded (wave_encoder_bits (af_format ?af))) [[1, 2, 3, 4], [5, 6, 7, 8, 9, 10, 11, 12]])
      = [1, 2, 3, 5, 6, 7, 9, 10, 11]" by (simp add: c)
  obtain af' e where "wave_encoder_open sample_memory ?af = Some (af', e)"
    using httpd_wave_stream [OF v h] by blast
  with httpd_wave_stream [OF v h, of "\<lparr>h_encoder = e, h_unflushed_input = 0, h_header = None, h_pages = []\<rparr>"] m
  show ?thesis by (intro exI [of _ header]) auto
qed

section \<open>The growing buffer\<close>

text \<open>C23: Appending to a growing buffer from whose front nothing was consumed, or that is empty, keeps
  its contents and adds the data behind them, however much data there is.  Appending to a buffer with
  a consumed front goes wrong where the data would only fit with that front reclaimed: the buffer is
  then neither moved nor grown, and the write leaves it.\<close>

theorem growing_fifo_append_room:
  assumes "fifo_ok b" "memory mem" "fifo_buffer_available b + length data < 2 ^ 64 - GROWING_FIFO_ALIGN" "data \<noteq> []"
  shows "(fb_start b = 0 \<or> fifo_contents b = [] \<longrightarrow> (\<exists>b'. growing_fifo_append mem b data = Some b' \<and> fifo_ok b' \<and>
      fifo_contents b' = fifo_contents b @ data)) \<and>
    (0 < fb_start b \<and> fb_start b < fb_end b \<and> fb_end b < fb_size b \<and> fb_size b < fb_end b + length data \<and>
      fifo_buffer_available b + length data \<le> fb_size b \<longrightarrow> growing_fifo_append mem b data = None)"
  using growing_fifo_append_iff [OF assms(1) _ assms(3), of mem] assms(2)
    growing_fits_front [OF assms(1) _ _ assms(3)] assms(4)
  by (auto simp: growing_fits_def write_end_def)

theorem growing_fifo_append_room_witness:
  "(\<exists>b'. growing_fifo_append sample_memory \<lparr>fb_size = 4, fb_start = 0, fb_end = 3, fb_buffer = [1, 2, 3, 0]\<rparr> [4, 5, 6] = Some b' \<and>
      fifo_contents b' = [1, 2, 3, 4, 5, 6]) \<and>
   growing_fifo_append sample_memory \<lparr>fb_size = 4, fb_start = 2, fb_end = 3, fb_buffer = [1, 2, 3, 0]\<rparr> [4, 5, 6] = None"
proof -
  let ?b = "\<lambda>i. \<lparr>fb_size = 4, fb_start = i, fb_end = 3, fb_buffer = [1, 2, 3, 0] :: u8 list\<rparr>"
  have ok: "fifo_ok (?b 0)" "fifo_ok (?b 2)" "memory sample_memory" "[4, 5, 6 :: u8] \<noteq> []"
    and c: "fifo_contents (?b 0) = [1, 2, 3]"
    and small: "fifo_buffer_available (?b 0) + length [4, 5, 6 :: u8] < 2 ^ 64 - GROWING_FIFO_ALIGN"
      "fifo_buffer_available (?b 2) + length [4, 5, 6 :: u8] < 2 ^ 64 - GROWING_FIFO_ALIGN"
    by (simp_all add: fifo_ok_def sample_memory_def fifo_contents_def fifo_buffer_available_def GROWING_FIFO_ALIGN_def)
  show ?thesis
    using growing_fifo_append_room [OF ok(1,3) small(1) ok(4)] growing_fifo_append_room [OF ok(2,3) small(2) ok(4)] c
    by (auto simp: fifo_buffer_available_def)
qed

end
