(* ===== verification/Client.thy ===== *)
theory Client
  imports Idle
begin

text \<open>
  The state of a client connection, \<^verbatim>\<open>src/client_internal.h\<close>, and its output side,
  \<^verbatim>\<open>src/client_write.c\<close>: replies are collected in \<open>send_buf\<close>, written to the channel when it is full
  or the command is done, and what the channel does not take is deferred.

  The channel is a parameter: \<open>cl_channel\<close> is its state and \<open>io w data\<close> what a call of
  \<^verbatim>\<open>g_io_channel_write_chars\<close> answers, a status, the number of bytes taken and the next state.  A client
  is expired when the C code has set its channel to \<^verbatim>\<open>NULL\<close>; the state of the channel is kept
  then, so that what has been written can still be named.
\<close>

section \<open>State\<close>

datatype io_status = G_IO_STATUS_NORMAL | G_IO_STATUS_AGAIN | G_IO_STATUS_EOF | G_IO_STATUS_ERROR

record client_message =
  msg_channel :: string
  msg_message :: string

record 'w client =
  cl_channel :: 'w
  cl_expired :: bool
  cl_permission :: u32
  cl_uid :: int
  cl_cmd_list :: "string list"
  cl_cmd_list_OK :: int
  cl_cmd_list_size :: nat
  cl_deferred_send :: "string list"
  cl_deferred_bytes :: nat
  cl_send_buf :: string
  cl_idle_waiting :: bool
  cl_idle_flags :: u32
  cl_idle_subscriptions :: u32
  cl_subscriptions :: "string list"
  cl_num_subscriptions :: nat
  cl_messages :: "client_message list"
  cl_num_messages :: nat

text \<open>The two limits that come from the configuration.\<close>

record client_config =
  client_max_command_list_size :: nat
  client_max_output_buffer_size :: nat

type_synonym 'w io_write = "'w \<Rightarrow> string \<Rightarrow> io_status \<times> nat \<times> 'w"

definition client_new :: "'w \<Rightarrow> u32 \<Rightarrow> int \<Rightarrow> 'w client" where
  "client_new w permission uid =
     \<lparr>cl_channel = w, cl_expired = False, cl_permission = permission, cl_uid = uid, cl_cmd_list = [],
      cl_cmd_list_OK = -1, cl_cmd_list_size = 0, cl_deferred_send = [], cl_deferred_bytes = 0,
      cl_send_buf = [], cl_idle_waiting = False, cl_idle_flags = 0, cl_idle_subscriptions = 0,
      cl_subscriptions = [], cl_num_subscriptions = 0, cl_messages = [], cl_num_messages = 0\<rparr>"

definition client_is_expired :: "'w client \<Rightarrow> bool" where
  "client_is_expired c = cl_expired c"

definition client_set_expired :: "'w client \<Rightarrow> 'w client" where
  "client_set_expired c = c\<lparr>cl_expired := True\<rparr>"

section \<open>Output\<close>

abbreviation send_buf_size :: nat where
  "send_buf_size \<equiv> 16384"

text \<open>\<^verbatim>\<open>sizeof(*buf) - sizeof(buf->data)\<close>: the size member of \<^verbatim>\<open>struct deferred_buffer\<close>.\<close>

abbreviation deferred_header :: nat where
  "deferred_header \<equiv> 8"

definition client_write_deferred_buffer ::
    "'w io_write \<Rightarrow> 'w client \<Rightarrow> string \<Rightarrow> (nat \<times> 'w client) option" where
  "client_write_deferred_buffer io c buf = do {
     assert_that (\<not> cl_expired c);
     let (status, bytes_written, w) = io (cl_channel c) buf;
     let c = c\<lparr>cl_channel := w\<rparr>;
     Some (case status of
         G_IO_STATUS_NORMAL \<Rightarrow> (bytes_written, c)
       | G_IO_STATUS_AGAIN \<Rightarrow> (0, c)
       | G_IO_STATUS_EOF \<Rightarrow> (0, client_set_expired c)
       | G_IO_STATUS_ERROR \<Rightarrow> (0, client_set_expired c))
   }"

text \<open>The loop of \<^verbatim>\<open>client_write_deferred\<close> over the buffers that are still queued.\<close>

fun write_deferred_loop :: "'w io_write \<Rightarrow> string list \<Rightarrow> 'w client \<Rightarrow> 'w client option" where
  "write_deferred_loop io [] c = Some (c\<lparr>cl_deferred_send := []\<rparr>)"
| "write_deferred_loop io (buf # bufs) c = do {
     assert_that (0 < length buf);
     assert_that (length buf \<le> cl_deferred_bytes c);
     (ret, c) \<leftarrow> client_write_deferred_buffer io c buf;
     if ret = 0 then Some (c\<lparr>cl_deferred_send := buf # bufs\<rparr>)
     else if ret < length buf then do {
       assert_that (ret \<le> cl_deferred_bytes c);
       Some (c\<lparr>cl_deferred_bytes := cl_deferred_bytes c - ret, cl_deferred_send := drop ret buf # bufs\<rparr>)
     }
     else do {
       let decr = deferred_header + length buf;
       assert_that (decr \<le> cl_deferred_bytes c);
       write_deferred_loop io bufs (c\<lparr>cl_deferred_bytes := cl_deferred_bytes c - decr\<rparr>)
     }
   }"

definition client_write_deferred :: "'w io_write \<Rightarrow> 'w client \<Rightarrow> 'w client option" where
  "client_write_deferred io c = do {
     c \<leftarrow> write_deferred_loop io (cl_deferred_send c) c;
     assert_that (cl_deferred_send c = [] \<longrightarrow> cl_deferred_bytes c = 0);
     Some c
   }"

definition client_defer_output :: "client_config \<Rightarrow> 'w client \<Rightarrow> string \<Rightarrow> 'w client option" where
  "client_defer_output cfg c data = do {
     assert_that (0 < length data);
     let c = c\<lparr>cl_deferred_bytes := cl_deferred_bytes c + (deferred_header + length data)\<rparr>;
     Some (if client_max_output_buffer_size cfg < cl_deferred_bytes c then client_set_expired c
       else c\<lparr>cl_deferred_send := cl_deferred_send c @ [data]\<rparr>)
   }"

definition client_write_direct ::
    "'w io_write \<Rightarrow> client_config \<Rightarrow> 'w client \<Rightarrow> string \<Rightarrow> 'w client option" where
  "client_write_direct io cfg c data = do {
     assert_that (\<not> cl_expired c);
     assert_that (0 < length data);
     assert_that (cl_deferred_send c = []);
     let (status, bytes_written, w) = io (cl_channel c) data;
     let c = c\<lparr>cl_channel := w\<rparr>;
     if status \<in> {G_IO_STATUS_NORMAL, G_IO_STATUS_AGAIN} then
       (if bytes_written < length data then client_defer_output cfg c (drop bytes_written data) else Some c)
     else Some (client_set_expired c)
   }"

definition client_write_output :: "'w io_write \<Rightarrow> client_config \<Rightarrow> 'w client \<Rightarrow> 'w client option" where
  "client_write_output io cfg c =
     (if client_is_expired c \<or> cl_send_buf c = [] then Some c
      else if cl_deferred_send c \<noteq> [] then do {
        c \<leftarrow> client_defer_output cfg c (cl_send_buf c);
        if client_is_expired c then Some c
        else do {
          c \<leftarrow> client_write_deferred io c;
          Some (c\<lparr>cl_send_buf := []\<rparr>)
        }
      }
      else do {
        c \<leftarrow> client_write_direct io cfg c (cl_send_buf c);
        Some (c\<lparr>cl_send_buf := []\<rparr>)
      })"

function client_write :: "'w io_write \<Rightarrow> client_config \<Rightarrow> 'w client \<Rightarrow> string \<Rightarrow> 'w client option" where
  "client_write io cfg c buffer =
     (if buffer = [] \<or> client_is_expired c then Some c
      else if length (cl_send_buf c) < send_buf_size then
        (let copylen = min (send_buf_size - length (cl_send_buf c)) (length buffer);
             c = c\<lparr>cl_send_buf := cl_send_buf c @ take copylen buffer\<rparr>
         in (if send_buf_size \<le> length (cl_send_buf c) then client_write_output io cfg c else Some c) \<bind>
            (\<lambda>c. client_write io cfg c (drop copylen buffer)))
      else None)"
  by pat_completeness auto
termination by (relation "measure (\<lambda>(io, cfg, c, buffer). length buffer)") auto

declare client_write.simps [simp del]

definition client_puts :: "'w io_write \<Rightarrow> client_config \<Rightarrow> 'w client \<Rightarrow> string \<Rightarrow> 'w client option" where
  "client_puts io cfg c s = client_write io cfg c s"

section \<open>Writing loses nothing\<close>

text \<open>
  What is documented of the channel: it takes a prefix of the data, and none of it when it would
  block.  \<open>sent\<close> is what the peer has received.
\<close>

definition channel_ok :: "'w io_write \<Rightarrow> ('w \<Rightarrow> string) \<Rightarrow> bool" where
  "channel_ok io sent \<longleftrightarrow> (\<forall>w data status n w'. io w data = (status, n, w') \<longrightarrow>
     n \<le> length data \<and> sent w' = sent w @ take n data \<and> (status \<noteq> G_IO_STATUS_NORMAL \<longrightarrow> n = 0))"

lemma channel_okD:
  assumes "channel_ok io sent" "io w data = (status, n, w')"
  shows "n \<le> length data" "sent w' = sent w @ take n data" "status \<noteq> G_IO_STATUS_NORMAL \<Longrightarrow> n = 0"
  using assms by (auto simp: channel_ok_def)

definition deferred_size :: "string list \<Rightarrow> nat" where
  "deferred_size bufs = sum_list (map (\<lambda>b. deferred_header + length b) bufs)"

lemma deferred_size_simps [simp]:
  "deferred_size [] = 0" "deferred_size (b # bs) = deferred_header + length b + deferred_size bs"
  "deferred_size (bs @ cs) = deferred_size bs + deferred_size cs"
  by (simp_all add: deferred_size_def)

text \<open>The accounting of the deferred buffers, for a client that has not expired.\<close>

definition output_ok :: "'w client \<Rightarrow> bool" where
  "output_ok c \<longleftrightarrow> \<not> cl_expired c \<longrightarrow>
     cl_deferred_bytes c = deferred_size (cl_deferred_send c) \<and> (\<forall>b \<in> set (cl_deferred_send c). b \<noteq> [])"

text \<open>Everything the peer has received or will receive.\<close>

definition output_stream :: "('w \<Rightarrow> string) \<Rightarrow> 'w client \<Rightarrow> string" where
  "output_stream sent c = sent (cl_channel c) @ concat (cl_deferred_send c) @ cl_send_buf c"

text \<open>
  \<open>delivers\<close> relates the client before and after an operation that was asked to send \<open>data\<close>: unless the client
  has expired the data is at the end of its output, and the peer never receives anything else.
\<close>

definition rest_same :: "'w client \<Rightarrow> 'w client \<Rightarrow> bool" where
  "rest_same c c' \<longleftrightarrow> c' = c\<lparr>cl_channel := cl_channel c', cl_expired := cl_expired c',
     cl_deferred_send := cl_deferred_send c', cl_deferred_bytes := cl_deferred_bytes c',
     cl_send_buf := cl_send_buf c'\<rparr>"

definition delivers :: "('w \<Rightarrow> string) \<Rightarrow> 'w client \<Rightarrow> string \<Rightarrow> 'w client \<Rightarrow> bool" where
  "delivers sent c data c' \<longleftrightarrow> output_ok c' \<and> rest_same c c' \<and> (cl_expired c \<longrightarrow> c' = c) \<and>
     (\<exists>more. output_stream sent c @ data = sent (cl_channel c') @ more) \<and>
     (\<not> cl_expired c' \<longrightarrow> output_stream sent c' = output_stream sent c @ data)"

lemma rest_same_refl [simp]: "rest_same c c"
  by (simp add: rest_same_def)

lemma rest_same_trans: "rest_same a b \<Longrightarrow> rest_same b c \<Longrightarrow> rest_same a c"
  by (cases a; cases b; cases c; simp add: rest_same_def)

lemma rest_same_update [simp]:
  "rest_same c (c'\<lparr>cl_channel := w\<rparr>) \<longleftrightarrow> rest_same c c'"
  "rest_same c (c'\<lparr>cl_expired := e\<rparr>) \<longleftrightarrow> rest_same c c'"
  "rest_same c (c'\<lparr>cl_deferred_send := ds\<rparr>) \<longleftrightarrow> rest_same c c'"
  "rest_same c (c'\<lparr>cl_deferred_bytes := db\<rparr>) \<longleftrightarrow> rest_same c c'"
  "rest_same c (c'\<lparr>cl_send_buf := sb\<rparr>) \<longleftrightarrow> rest_same c c'"
  "rest_same (c\<lparr>cl_channel := w\<rparr>) c' \<longleftrightarrow> rest_same c c'"
  "rest_same (c\<lparr>cl_deferred_bytes := db\<rparr>) c' \<longleftrightarrow> rest_same c c'"
  "rest_same (c\<lparr>cl_send_buf := sb\<rparr>) c' \<longleftrightarrow> rest_same c c'"
  by (cases c; cases c'; simp add: rest_same_def)+

lemma ex_rest [simp]: "\<exists>more. data = take n data @ more"
  by (metis append_take_drop_id)

lemma client_write_deferred_buffer_sends:
  assumes "channel_ok io sent" "\<not> cl_expired c"
  shows "\<exists>n c'. client_write_deferred_buffer io c buf = Some (n, c') \<and> n \<le> length buf \<and>
    sent (cl_channel c') = sent (cl_channel c) @ take n buf \<and> (0 < n \<longrightarrow> \<not> cl_expired c') \<and>
    rest_same c c' \<and> cl_deferred_bytes c' = cl_deferred_bytes c \<and> cl_send_buf c' = cl_send_buf c"
proof -
  obtain st n w where io: "io (cl_channel c) buf = (st, n, w)" by (metis prod_cases3)
  from channel_okD [OF assms(1) io] assms(2) show ?thesis
    by (cases st) (auto simp: client_write_deferred_buffer_def io client_set_expired_def)
qed

lemma write_deferred_loop_sends:
  assumes "channel_ok io sent" "\<not> cl_expired c" "cl_deferred_bytes c = deferred_size bufs" "\<forall>b \<in> set bufs. b \<noteq> []"
  shows "\<exists>c'. write_deferred_loop io bufs c = Some c' \<and> rest_same c c' \<and> cl_send_buf c' = cl_send_buf c \<and>
    sent (cl_channel c') @ concat (cl_deferred_send c') = sent (cl_channel c) @ concat bufs \<and>
    cl_deferred_bytes c' = deferred_size (cl_deferred_send c') \<and> (\<forall>b \<in> set (cl_deferred_send c'). b \<noteq> [])"
  using assms(2-)
proof (induction bufs arbitrary: c)
  case Nil
  then show ?case by simp
next
  case (Cons buf bufs)
  obtain n c1 where c1: "client_write_deferred_buffer io c buf = Some (n, c1)" "n \<le> length buf"
      "sent (cl_channel c1) = sent (cl_channel c) @ take n buf" "0 < n \<longrightarrow> \<not> cl_expired c1" "rest_same c c1"
      "cl_deferred_bytes c1 = cl_deferred_bytes c" "cl_send_buf c1 = cl_send_buf c"
    using client_write_deferred_buffer_sends [OF assms(1) Cons.prems(1)] by blast
  consider "n = 0" | "0 < n" "n < length buf" | "0 < n" "n = length buf" using c1(2) by linarith
  then show ?case
  proof cases
    case 3
    let ?c = "c1\<lparr>cl_deferred_bytes := cl_deferred_bytes c1 - (deferred_header + length buf)\<rparr>"
    from Cons.IH [of ?c] Cons.prems c1 3 obtain c2 where
      "write_deferred_loop io bufs ?c = Some c2" "rest_same ?c c2" "cl_send_buf c2 = cl_send_buf c"
      "sent (cl_channel c2) @ concat (cl_deferred_send c2) = sent (cl_channel c) @ buf @ concat bufs"
      "cl_deferred_bytes c2 = deferred_size (cl_deferred_send c2)" "\<forall>b \<in> set (cl_deferred_send c2). b \<noteq> []"
      by auto
    moreover from this(2) c1(5) have "rest_same c c2" by (auto elim: rest_same_trans)
    ultimately show ?thesis using Cons.prems c1 3 by simp
  qed (use Cons.prems c1 in auto)
qed

lemma client_write_deferred_delivers:
  assumes "channel_ok io sent" "\<not> cl_expired c" "output_ok c"
  shows "\<exists>c'. client_write_deferred io c = Some c' \<and> output_ok c' \<and> rest_same c c' \<and>
    cl_send_buf c' = cl_send_buf c \<and> output_stream sent c' = output_stream sent c"
  using write_deferred_loop_sends [OF assms(1,2), of "cl_deferred_send c"] assms(2,3)
  by (auto simp: client_write_deferred_def output_ok_def output_stream_def)

lemma client_defer_output_delivers:
  assumes "output_ok c" "\<not> cl_expired c" "data \<noteq> []"
  shows "\<exists>c'. client_defer_output cfg c data = Some c' \<and> output_ok c' \<and> rest_same c c' \<and>
    cl_send_buf c' = cl_send_buf c \<and> cl_channel c' = cl_channel c \<and>
    (\<not> cl_expired c' \<longrightarrow> cl_deferred_send c' = cl_deferred_send c @ [data])"
  using assms by (auto simp: client_defer_output_def output_ok_def client_set_expired_def Let_def)

lemma client_write_direct_delivers:
  assumes ch: "channel_ok io sent" and c: "output_ok c" "\<not> cl_expired c" "data \<noteq> []" "cl_deferred_send c = []"
  shows "\<exists>c'. client_write_direct io cfg c data = Some c' \<and> output_ok c' \<and> rest_same c c' \<and>
    cl_send_buf c' = cl_send_buf c \<and> (\<exists>more. sent (cl_channel c) @ data = sent (cl_channel c') @ more) \<and>
    (\<not> cl_expired c' \<longrightarrow> sent (cl_channel c') @ concat (cl_deferred_send c') = sent (cl_channel c) @ data)"
proof -
  obtain st n w where io: "io (cl_channel c) data = (st, n, w)" by (metis prod_cases3)
  note io_ok = channel_okD [OF ch io]
  let ?c = "c\<lparr>cl_channel := w\<rparr>"
  have ok: "output_ok ?c" "\<not> cl_expired ?c" using c by (simp_all add: output_ok_def)
  have more: "\<exists>more. sent (cl_channel c) @ data = sent w @ more"
    using io_ok(2) by (metis append.assoc append_take_drop_id)
  consider "st \<in> {G_IO_STATUS_NORMAL, G_IO_STATUS_AGAIN}" "n < length data"
    | "st \<in> {G_IO_STATUS_NORMAL, G_IO_STATUS_AGAIN}" "n = length data" | "st \<notin> {G_IO_STATUS_NORMAL, G_IO_STATUS_AGAIN}"
    using io_ok(1) by fastforce
  then show ?thesis
  proof cases
    case 1
    then have "drop n data \<noteq> []" by simp
    from client_defer_output_delivers [OF ok this, of cfg] 1 c io io_ok(2) more show ?thesis
      by (auto simp: client_write_direct_def)
  next
    case 2
    then show ?thesis using c io io_ok(2) more ok by (auto simp: client_write_direct_def)
  next
    case 3
    then show ?thesis using c io more by (auto simp: client_write_direct_def client_set_expired_def output_ok_def)
  qed
qed

lemma client_write_output_delivers:
  assumes ch: "channel_ok io sent" and c: "output_ok c"
  shows "\<exists>c'. client_write_output io cfg c = Some c' \<and> delivers sent c [] c' \<and>
    (\<not> cl_expired c' \<longrightarrow> cl_send_buf c' = [])"
proof (cases "cl_expired c \<or> cl_send_buf c = []")
  case True
  then show ?thesis
    using c by (auto simp: client_write_output_def client_is_expired_def delivers_def output_stream_def)
next
  case False
  then have e: "\<not> cl_expired c" "cl_send_buf c \<noteq> []" by simp_all
  show ?thesis
  proof (cases "cl_deferred_send c = []")
    case True
    from client_write_direct_delivers [OF ch c e True, of cfg] e True show ?thesis
      by (auto simp: client_write_output_def client_is_expired_def delivers_def output_stream_def output_ok_def)
  next
    case False
    obtain c1 where c1: "client_defer_output cfg c (cl_send_buf c) = Some c1" "output_ok c1" "rest_same c c1"
        "cl_channel c1 = cl_channel c" "\<not> cl_expired c1 \<longrightarrow> cl_deferred_send c1 = cl_deferred_send c @ [cl_send_buf c]"
        "cl_send_buf c1 = cl_send_buf c"
      using client_defer_output_delivers [OF c e, of cfg] by blast
    show ?thesis
    proof (cases "cl_expired c1")
      case True
      with c1 e False show ?thesis
        by (auto simp: client_write_output_def client_is_expired_def delivers_def output_stream_def)
    next
      case no: False
      obtain c2 where c2: "client_write_deferred io c1 = Some c2" "output_ok c2" "rest_same c1 c2"
          "cl_send_buf c2 = cl_send_buf c1" "output_stream sent c2 = output_stream sent c1"
        using client_write_deferred_delivers [OF ch no c1(2)] by blast
      have s: "sent (cl_channel c2) @ concat (cl_deferred_send c2) = output_stream sent c"
        using c2(4,5) c1 no by (simp add: output_stream_def)
      have "rest_same c c2" using c1(3) c2(3) by (rule rest_same_trans)
      moreover have "\<exists>more. output_stream sent c = sent (cl_channel c2) @ more" using s by metis
      ultimately show ?thesis
        using c1 c2 e False no s
        by (auto simp: client_write_output_def client_is_expired_def delivers_def output_stream_def output_ok_def)
    qed
  qed
qed

definition buf_room :: "'w client \<Rightarrow> bool" where
  "buf_room c \<longleftrightarrow> cl_expired c \<or> length (cl_send_buf c) < send_buf_size"

lemma delivers_step:
  assumes "delivers sent (c\<lparr>cl_send_buf := cl_send_buf c @ a\<rparr>) [] c1" "delivers sent c1 b c2" "\<not> cl_expired c"
  shows "delivers sent c (a @ b) c2"
proof -
  from assms(1) have s: "output_stream sent (c\<lparr>cl_send_buf := cl_send_buf c @ a\<rparr>) = output_stream sent c @ a"
    by (simp add: output_stream_def)
  from assms(1,2) have "rest_same c c1" "rest_same c1 c2" by (simp_all add: delivers_def)
  then have "rest_same c c2" by (rule rest_same_trans)
  moreover have "\<exists>more. output_stream sent c @ a @ b = sent (cl_channel c2) @ more"
  proof (cases "cl_expired c1")
    case True
    with assms(2) have "c2 = c1" by (simp add: delivers_def)
    moreover obtain more where "output_stream sent c @ a = sent (cl_channel c1) @ more"
      using assms(1) by (auto simp: delivers_def s)
    then have "output_stream sent c @ a @ b = sent (cl_channel c1) @ more @ b"
      by (metis append.assoc)
    ultimately show ?thesis by blast
  next
    case False
    with assms(1) have "output_stream sent c1 = output_stream sent c @ a" by (simp add: delivers_def s)
    with assms(2) show ?thesis by (simp add: delivers_def)
  qed
  moreover have "output_stream sent c2 = output_stream sent c @ a @ b" if "\<not> cl_expired c2"
    using assms(1,2) that by (cases "cl_expired c1") (auto simp: delivers_def s)
  ultimately show ?thesis using assms by (simp add: delivers_def)
qed

lemma full_flushed:
  assumes "channel_ok io sent" "output_ok c"
  shows "\<exists>c'. (if send_buf_size \<le> length (cl_send_buf c) then client_write_output io cfg c else Some c) = Some c' \<and>
    delivers sent c [] c' \<and> buf_room c'"
proof (cases "send_buf_size \<le> length (cl_send_buf c)")
  case True
  with client_write_output_delivers [OF assms, of cfg] show ?thesis by (auto simp: buf_room_def)
next
  case False
  with assms(2) show ?thesis by (simp add: delivers_def output_stream_def buf_room_def)
qed

lemma client_write_delivers:
  assumes "channel_ok io sent" "output_ok c" "buf_room c"
  shows "\<exists>c'. client_write io cfg c data = Some c' \<and> delivers sent c data c' \<and> buf_room c'"
  using assms
proof (induction io cfg c data rule: client_write.induct)
  case (1 io cfg c buffer)
  show ?case
  proof (cases "buffer = [] \<or> cl_expired c")
    case True
    then show ?thesis
      using 1(3,4) by (subst client_write.simps)
        (auto simp: client_is_expired_def delivers_def output_stream_def)
  next
    case False
    then have e: "\<not> cl_expired c" "buffer \<noteq> []" by simp_all
    let ?n = "min (send_buf_size - length (cl_send_buf c)) (length buffer)"
    let ?c = "c\<lparr>cl_send_buf := cl_send_buf c @ take ?n buffer\<rparr>"
    have room: "length (cl_send_buf c) < send_buf_size" using 1(4) e by (simp add: buf_room_def)
    have okc: "output_ok ?c" using 1(3) by (simp add: output_ok_def)
    from full_flushed [OF 1(2) okc, of cfg] obtain c1 where
      c1: "(if send_buf_size \<le> length (cl_send_buf ?c) then client_write_output io cfg ?c else Some ?c) = Some c1"
        "delivers sent ?c [] c1" "buf_room c1" by blast
    have "output_ok c1" using c1(2) by (simp add: delivers_def)
    from 1(1) [OF _ room refl refl c1(1) 1(2) this c1(3)] e obtain c2 where
      c2: "client_write io cfg c1 (drop ?n buffer) = Some c2" "delivers sent c1 (drop ?n buffer) c2" "buf_room c2"
      by (auto simp: client_is_expired_def)
    have "client_write io cfg c buffer = Some c2"
      using c1(1) c2(1) room e by (subst client_write.simps) (simp add: client_is_expired_def Let_def)
    moreover have "delivers sent c (take ?n buffer @ drop ?n buffer) c2"
      using c1(2) c2(2) e(1) by (rule delivers_step)
    ultimately show ?thesis using c2(3) by simp
  qed
qed

text \<open>Output that fits into the send buffer stays there.\<close>

lemma client_write_fits:
  assumes "\<not> cl_expired c" "length (cl_send_buf c) + length data < send_buf_size"
  shows "client_write io cfg c data = Some (c\<lparr>cl_send_buf := cl_send_buf c @ data\<rparr>)"
proof (cases "data = []")
  case True
  then show ?thesis by (subst client_write.simps) simp
next
  case False
  have "client_write io cfg d [] = Some d" for d :: "'a client" by (subst client_write.simps) simp
  with False assms show ?thesis
    by (subst client_write.simps) (simp add: client_is_expired_def Let_def min_def)
qed

end
