(* ===== verification/Client_Session.thy ===== *)
theory Client_Session
  imports Client Fifo_Buffer
begin

text \<open>
  From bytes to commands: \<^verbatim>\<open>src/client_read.c\<close> cuts the input into lines and \<^verbatim>\<open>src/client_process.c\<close>
  executes them, alone or collected in command lists; \<^verbatim>\<open>src/client_idle.c\<close> tells a waiting client what has
  changed, and \<^verbatim>\<open>src/client_subscribe.c\<close> and \<^verbatim>\<open>src/client_message.c\<close> pass messages between clients.

  The input buffer, which \<^verbatim>\<open>client_read.c\<close> alone touches, is kept beside the rest of the client.  The
  command table of \<^verbatim>\<open>src/command.c\<close> is an argument, \<open>cmd c num line\<close>; \<open>isspace\<close> is \<^verbatim>\<open>g_ascii_isspace\<close> of
  glib.
\<close>

section \<open>Executing lines\<close>

text \<open>\<open>COMMAND_RETURN_1\<close> is the value 1, which has no name, of \<^verbatim>\<open>handle_idle\<close>: neither \<^verbatim>\<open>OK\<close> nor an error is printed.\<close>

datatype command_return =
    COMMAND_RETURN_ERROR
  | COMMAND_RETURN_OK
  | COMMAND_RETURN_KILL
  | COMMAND_RETURN_CLOSE
  | COMMAND_RETURN_1

type_synonym 'w command = "'w client \<Rightarrow> nat \<Rightarrow> string \<Rightarrow> (command_return \<times> 'w client) option"

abbreviation newline :: string where
  "newline \<equiv> [CHR 0x0A]"

definition command_success :: "'w io_write \<Rightarrow> client_config \<Rightarrow> 'w client \<Rightarrow> 'w client option" where
  "command_success io cfg c = client_puts io cfg c (''OK'' @ newline)"

fun client_process_command_list ::
    "'w io_write \<Rightarrow> client_config \<Rightarrow> 'w command \<Rightarrow> 'w client \<Rightarrow> bool \<Rightarrow> string list \<Rightarrow> nat \<Rightarrow>
     (command_return \<times> 'w client) option" where
  "client_process_command_list io cfg cmd c list_ok [] num = Some (COMMAND_RETURN_OK, c)"
| "client_process_command_list io cfg cmd c list_ok (s # list) num = do {
     (ret, c) \<leftarrow> cmd c num s;
     if ret \<noteq> COMMAND_RETURN_OK \<or> client_is_expired c then Some (ret, c)
     else do {
       c \<leftarrow> (if list_ok then client_puts io cfg c (''list_OK'' @ newline) else Some c);
       client_process_command_list io cfg cmd c list_ok list (num + 1)
     }
   }"

text \<open>The end of a command or of a command list: the final \<open>OK\<close>, and the output is flushed.\<close>

definition finish_command ::
    "'w io_write \<Rightarrow> client_config \<Rightarrow> command_return \<Rightarrow> 'w client \<Rightarrow> (command_return \<times> 'w client) option" where
  "finish_command io cfg ret c =
     (if ret = COMMAND_RETURN_CLOSE \<or> client_is_expired c then Some (COMMAND_RETURN_CLOSE, c)
      else do {
        c \<leftarrow> (if ret = COMMAND_RETURN_OK then command_success io cfg c else Some c);
        c \<leftarrow> client_write_output io cfg c;
        Some (ret, c)
      })"

definition new_cmd_list_ptr :: "'w client \<Rightarrow> string \<Rightarrow> 'w client" where
  "new_cmd_list_ptr c s = c\<lparr>cl_cmd_list := s # cl_cmd_list c\<rparr>"

definition client_process_line ::
    "'w io_write \<Rightarrow> client_config \<Rightarrow> 'w command \<Rightarrow> 'w client \<Rightarrow> string \<Rightarrow> (command_return \<times> 'w client) option" where
  "client_process_line io cfg cmd c line =
     (if line = ''noidle'' then
        (if cl_idle_waiting c then do {
           c \<leftarrow> command_success io cfg (c\<lparr>cl_idle_waiting := False\<rparr>);
           c \<leftarrow> client_write_output io cfg c;
           Some (COMMAND_RETURN_OK, c)
         }
         else Some (COMMAND_RETURN_OK, c))
      else if cl_idle_waiting c then Some (COMMAND_RETURN_CLOSE, c)
      else if 0 \<le> cl_cmd_list_OK c then
        (if line = ''command_list_end'' then do {
           let c = c\<lparr>cl_cmd_list := rev (cl_cmd_list c)\<rparr>;
           (ret, c) \<leftarrow> client_process_command_list io cfg cmd c (cl_cmd_list_OK c \<noteq> 0) (cl_cmd_list c) 0;
           (ret', c) \<leftarrow> finish_command io cfg ret c;
           Some (ret', if ret' = COMMAND_RETURN_CLOSE then c
                       else c\<lparr>cl_cmd_list := [], cl_cmd_list_OK := -1\<rparr>)
         }
         else do {
           let c = c\<lparr>cl_cmd_list_size := size_add (cl_cmd_list_size c) (length line + 1)\<rparr>;
           Some (if client_max_command_list_size cfg < cl_cmd_list_size c then (COMMAND_RETURN_CLOSE, c)
             else (COMMAND_RETURN_OK, new_cmd_list_ptr c line))
         })
      else if line = ''command_list_begin'' then Some (COMMAND_RETURN_OK, c\<lparr>cl_cmd_list_OK := 0\<rparr>)
      else if line = ''command_list_ok_begin'' then Some (COMMAND_RETURN_OK, c\<lparr>cl_cmd_list_OK := 1\<rparr>)
      else do {
        (ret, c) \<leftarrow> cmd c 0 line;
        finish_command io cfg ret c
      })"

section \<open>Reading lines\<close>

definition g_strchomp :: "(char \<Rightarrow> bool) \<Rightarrow> string \<Rightarrow> string" where
  "g_strchomp isspace s = rev (dropWhile isspace (rev s))"

definition line_text :: "(char \<Rightarrow> bool) \<Rightarrow> u8 list \<Rightarrow> string" where
  "line_text isspace bytes =
     g_strchomp isspace (map (\<lambda>b. char_of (unat b)) (takeWhile (\<lambda>b. b \<noteq> 0) bytes))"

definition client_read_line ::
    "(char \<Rightarrow> bool) \<Rightarrow> fifo_buffer \<Rightarrow> (string option \<times> fifo_buffer) option" where
  "client_read_line isspace input = do {
     p \<leftarrow> fifo_buffer_read input;
     case p of
       None \<Rightarrow> Some (None, input)
     | Some bytes \<Rightarrow>
         if 10 \<notin> set bytes then Some (None, input)
         else do {
           let line = takeWhile (\<lambda>b. b \<noteq> 10) bytes;
           input \<leftarrow> fifo_buffer_consume input (length line + 1);
           Some (Some (line_text isspace line), input)
         }
   }"

text \<open>The loop of \<^verbatim>\<open>client_input_received\<close>, and the function itself.\<close>

partial_function (option) client_input_lines ::
    "(char \<Rightarrow> bool) \<Rightarrow> 'w io_write \<Rightarrow> client_config \<Rightarrow> 'w command \<Rightarrow> 'w client \<Rightarrow> fifo_buffer \<Rightarrow>
     (command_return \<times> 'w client \<times> fifo_buffer) option" where
  "client_input_lines isspace io cfg cmd c input =
     client_read_line isspace input \<bind> (\<lambda>(line, input). case line of
         None \<Rightarrow> Some (COMMAND_RETURN_OK, c, input)
       | Some line \<Rightarrow> client_process_line io cfg cmd c line \<bind> (\<lambda>(ret, c).
           if ret = COMMAND_RETURN_KILL \<or> ret = COMMAND_RETURN_CLOSE then Some (ret, c, input)
           else if client_is_expired c then Some (COMMAND_RETURN_CLOSE, c, input)
           else client_input_lines isspace io cfg cmd c input))"

definition client_input_received ::
    "(char \<Rightarrow> bool) \<Rightarrow> 'w io_write \<Rightarrow> client_config \<Rightarrow> 'w command \<Rightarrow> 'w client \<Rightarrow> fifo_buffer \<Rightarrow> nat \<Rightarrow>
     (command_return \<times> 'w client \<times> fifo_buffer) option" where
  "client_input_received isspace io cfg cmd c input bytesRead = do {
     input \<leftarrow> fifo_buffer_append input bytesRead;
     client_input_lines isspace io cfg cmd c input
   }"

text \<open>\<open>rd max_length\<close> is what \<^verbatim>\<open>g_io_channel_read_chars\<close> answers: a status and the bytes it stores.\<close>

definition client_read ::
    "(char \<Rightarrow> bool) \<Rightarrow> 'w io_write \<Rightarrow> client_config \<Rightarrow> 'w command \<Rightarrow> (nat \<Rightarrow> io_status \<times> u8 list) \<Rightarrow>
     'w client \<Rightarrow> fifo_buffer \<Rightarrow> (command_return \<times> 'w client \<times> fifo_buffer) option" where
  "client_read isspace io cfg cmd rd c input = do {
     assert_that (\<not> cl_expired c);
     (p, input) \<leftarrow> fifo_buffer_write input;
     case p of
       None \<Rightarrow> Some (COMMAND_RETURN_CLOSE, c, input)
     | Some (offset, max_length) \<Rightarrow> (case rd max_length of
           (G_IO_STATUS_NORMAL, data) \<Rightarrow> do {
             bytes \<leftarrow> put_bytes (fb_buffer input) offset data;
             client_input_received isspace io cfg cmd c (input\<lparr>fb_buffer := bytes\<rparr>) (length data)
           }
         | (G_IO_STATUS_AGAIN, _) \<Rightarrow> Some (COMMAND_RETURN_OK, c, input)
         | (G_IO_STATUS_EOF, _) \<Rightarrow> Some (COMMAND_RETURN_CLOSE, c, input)
         | (G_IO_STATUS_ERROR, _) \<Rightarrow> Some (COMMAND_RETURN_CLOSE, c, input))
   }"

section \<open>Lines, as the protocol defines them\<close>

text \<open>The complete lines of a sequence of bytes, without their newlines, and what is left.\<close>

fun lines_of :: "u8 list \<Rightarrow> u8 list list \<times> u8 list" where
  "lines_of [] = ([], [])"
| "lines_of (b # bs) = (case lines_of bs of (ls, rest) \<Rightarrow>
     if b = 10 then ([] # ls, rest)
     else (case ls of [] \<Rightarrow> ([], b # rest) | l # ls \<Rightarrow> ((b # l) # ls, rest)))"

text \<open>Executing lines one after the other, until one of them ends the connection.\<close>

fun run_lines ::
    "'w io_write \<Rightarrow> client_config \<Rightarrow> 'w command \<Rightarrow> string list \<Rightarrow> 'w client \<Rightarrow> (command_return \<times> 'w client) option" where
  "run_lines io cfg cmd [] c = Some (COMMAND_RETURN_OK, c)"
| "run_lines io cfg cmd (l # ls) c = client_process_line io cfg cmd c l \<bind> (\<lambda>(ret, c).
     if ret = COMMAND_RETURN_KILL \<or> ret = COMMAND_RETURN_CLOSE then Some (ret, c)
     else if client_is_expired c then Some (COMMAND_RETURN_CLOSE, c)
     else run_lines io cfg cmd ls c)"

lemma lines_of_none: "10 \<notin> set bs \<Longrightarrow> lines_of bs = ([], bs)"
  by (induction bs) auto

lemma lines_of_next:
  "10 \<in> set bs \<Longrightarrow> lines_of bs =
     (takeWhile (\<lambda>b. b \<noteq> 10) bs # fst (lines_of (drop (length (takeWhile (\<lambda>b. b \<noteq> 10) bs) + 1) bs)),
      snd (lines_of (drop (length (takeWhile (\<lambda>b. b \<noteq> 10) bs) + 1) bs)))"
  by (induction bs) (auto split: prod.split)

lemma lines_of_append:
  "lines_of (a @ b) =
     (fst (lines_of a) @ fst (lines_of (snd (lines_of a) @ b)), snd (lines_of (snd (lines_of a) @ b)))"
  by (induction a) (auto split: prod.split list.split)

lemma lines_of_rest: "10 \<notin> set (snd (lines_of bs))"
  by (induction bs) (auto split: prod.split list.split)

lemma run_lines_append:
  "run_lines io cfg cmd (ls @ ms) c = run_lines io cfg cmd ls c \<bind> (\<lambda>(ret, c).
     if ret = COMMAND_RETURN_OK then run_lines io cfg cmd ms c else Some (ret, c))"
  by (induction ls arbitrary: c) (auto split: bind_splits)

lemma run_lines_ret:
  "run_lines io cfg cmd ls c = Some (ret, c') \<Longrightarrow>
   ret \<in> {COMMAND_RETURN_OK, COMMAND_RETURN_KILL, COMMAND_RETURN_CLOSE}"
  by (induction ls arbitrary: c) (auto simp: bind_eq_Some_conv split: if_splits)

section \<open>The input is read as the protocol defines it\<close>

lemma client_read_line_next:
  assumes "fifo_ok b"
  shows "if 10 \<in> set (fifo_contents b)
    then \<exists>b'. client_read_line isspace b =
        Some (Some (line_text isspace (takeWhile (\<lambda>x. x \<noteq> 10) (fifo_contents b))), b') \<and> fifo_ok b' \<and>
        fifo_contents b' = drop (length (takeWhile (\<lambda>x. x \<noteq> 10) (fifo_contents b)) + 1) (fifo_contents b) \<and>
        fb_size b' = fb_size b
    else client_read_line isspace b = Some (None, b)"
proof (cases "10 \<in> set (fifo_contents b)")
  case True
  then have "length (takeWhile (\<lambda>x. x \<noteq> 10) (fifo_contents b)) < length (fifo_contents b)"
    by (metis (mono_tags) length_takeWhile_le le_neq_implies_less takeWhile_eq_all_conv takeWhile_eq_take take_all_iff nless_le)
  with fifo_buffer_consume_contents [OF assms, of "length (takeWhile (\<lambda>x. x \<noteq> 10) (fifo_contents b)) + 1"] True
  show ?thesis by (auto simp: client_read_line_def fifo_buffer_read_contents [OF assms])
next
  case False
  then show ?thesis by (simp add: client_read_line_def fifo_buffer_read_contents [OF assms])
qed

lemma client_input_lines_run:
  assumes "fifo_ok b"
  shows "\<exists>b'. client_input_lines isspace io cfg cmd c b = map_option (\<lambda>(ret, c'). (ret, c', b'))
      (run_lines io cfg cmd (map (line_text isspace) (fst (lines_of (fifo_contents b)))) c) \<and>
    fifo_ok b' \<and> fb_size b' = fb_size b \<and>
    (\<forall>c'. run_lines io cfg cmd (map (line_text isspace) (fst (lines_of (fifo_contents b)))) c =
        Some (COMMAND_RETURN_OK, c') \<longrightarrow> fifo_contents b' = snd (lines_of (fifo_contents b)))"
  using assms
proof (induction "length (fifo_contents b)" arbitrary: b c rule: less_induct)
  case less
  let ?B = "fifo_contents b"
  show ?case
  proof (cases "10 \<in> set ?B")
    case False
    with client_read_line_next [OF less.prems, of isspace] show ?thesis
      by (subst client_input_lines.simps) (auto simp: lines_of_none less.prems)
  next
    case True
    let ?l = "takeWhile (\<lambda>x. x \<noteq> 10) ?B"
    obtain b1 where b1: "client_read_line isspace b = Some (Some (line_text isspace ?l), b1)" "fifo_ok b1"
        "fifo_contents b1 = drop (length ?l + 1) ?B" "fb_size b1 = fb_size b"
      using client_read_line_next [OF less.prems, of isspace] True by auto
    have ls: "lines_of ?B = (?l # fst (lines_of (fifo_contents b1)), snd (lines_of (fifo_contents b1)))"
      using lines_of_next [OF True] b1(3) by simp
    have "length (fifo_contents b1) < length ?B" using True b1(3) by (cases ?B) auto
    note IH = less.hyps [OF this b1(2)]
    show ?thesis
    proof (cases "client_process_line io cfg cmd c (line_text isspace ?l)")
      case None
      with b1 ls show ?thesis by (subst client_input_lines.simps) (auto intro!: exI [of _ b1])
    next
      case (Some r)
      obtain ret c1 where r: "r = (ret, c1)" by force
      show ?thesis
      proof (cases "ret = COMMAND_RETURN_KILL \<or> ret = COMMAND_RETURN_CLOSE \<or> client_is_expired c1")
        case True
        with Some r b1 ls show ?thesis by (subst client_input_lines.simps) (auto intro!: exI [of _ b1])
      next
        case False
        with IH [of c1] Some r b1 ls show ?thesis by (subst client_input_lines.simps) auto
      qed
    qed
  qed
qed

text \<open>One chunk of input: its lines, together with the beginning of a line left over from before.\<close>

lemma client_read_run:
  assumes "fifo_ok b" "\<not> cl_expired c" "length (fifo_contents b) < fb_size b"
    and "fifo_buffer_write b = Some (Some (offset, max_length), b0)" "length data \<le> max_length"
  shows "\<exists>b'. client_read isspace io cfg cmd (\<lambda>_. (G_IO_STATUS_NORMAL, data)) c b = map_option (\<lambda>(ret, c'). (ret, c', b'))
      (run_lines io cfg cmd (map (line_text isspace) (fst (lines_of (fifo_contents b @ data)))) c) \<and>
    fifo_ok b' \<and> fb_size b' = fb_size b \<and>
    (\<forall>c'. run_lines io cfg cmd (map (line_text isspace) (fst (lines_of (fifo_contents b @ data)))) c =
        Some (COMMAND_RETURN_OK, c') \<longrightarrow> fifo_contents b' = snd (lines_of (fifo_contents b @ data)))"
proof -
  have w: "fifo_ok b0" "fifo_contents b0 = fifo_contents b" "fb_size b0 = fb_size b" "offset = fb_end b0"
      "max_length = fb_size b0 - fb_end b0" "fb_end b0 \<le> fb_size b0"
    using fifo_buffer_write_region [OF assms(1)] assms(4) by (auto simp: fifo_ok_def split: if_splits)
  then have "fb_end b0 + length data \<le> fb_size b0" using assms(5) by simp
  from fifo_fill_contents [OF w(1) this] obtain bytes b1 where
    "put_bytes (fb_buffer b0) (fb_end b0) data = Some bytes"
    "fifo_buffer_append (b0\<lparr>fb_buffer := bytes\<rparr>) (length data) = Some b1" "fifo_ok b1"
    "fifo_contents b1 = fifo_contents b @ data" "fb_size b1 = fb_size b" using w by auto
  with client_input_lines_run [of b1 isspace io cfg cmd c] assms(2,4) w(4) show ?thesis
    by (auto simp: client_read_def client_input_received_def)
qed

section \<open>A connection\<close>

text \<open>
  A peer has sent the bytes \<open>sock\<close>.  The server reads as often as \<open>ks\<close> has elements, and the kernel hands
  out at most the given number of bytes at a time; what is left in the socket is returned.
\<close>

fun client_serve ::
    "(char \<Rightarrow> bool) \<Rightarrow> 'w io_write \<Rightarrow> client_config \<Rightarrow> 'w command \<Rightarrow> nat list \<Rightarrow> u8 list \<Rightarrow> 'w client \<Rightarrow>
     fifo_buffer \<Rightarrow> (command_return \<times> 'w client \<times> fifo_buffer \<times> u8 list) option" where
  "client_serve isspace io cfg cmd [] sock c b = Some (COMMAND_RETURN_OK, c, b, sock)"
| "client_serve isspace io cfg cmd (k # ks) sock c b = do {
     (p, _) \<leftarrow> fifo_buffer_write b;
     let n = (case p of None \<Rightarrow> 0 | Some (offset, max_length) \<Rightarrow> min k max_length);
     (ret, c, b) \<leftarrow> client_read isspace io cfg cmd (\<lambda>_. (G_IO_STATUS_NORMAL, take n sock)) c b;
     if ret = COMMAND_RETURN_OK then client_serve isspace io cfg cmd ks (drop n sock) c b
     else Some (ret, c, b, drop n sock)
   }"

text \<open>No line, complete or not, is as long as the buffer.\<close>

definition short_lines :: "nat \<Rightarrow> u8 list \<Rightarrow> bool" where
  "short_lines n bs \<longleftrightarrow> (\<forall>l \<in> set (fst (lines_of bs)). length l < n) \<and> length (snd (lines_of bs)) < n"

lemma short_lines_rest:
  assumes "short_lines n (a @ b)" "10 \<notin> set a"
  shows "length a < n"
proof (cases "10 \<in> set (a @ b)")
  case True
  have "takeWhile (\<lambda>x. x \<noteq> 10) (a @ b) = a @ takeWhile (\<lambda>x. x \<noteq> 10) b" using assms(2) by (simp add: takeWhile_append)
  with assms(1) lines_of_next [OF True] show ?thesis by (auto simp: short_lines_def)
next
  case False
  with assms(1) lines_of_none [OF False] show ?thesis by (simp add: short_lines_def)
qed

lemma short_lines_append: "short_lines n (a @ b) \<Longrightarrow> short_lines n (snd (lines_of a) @ b)"
  by (simp add: short_lines_def lines_of_append [of a b])

lemma run_lines_alive:
  "run_lines io cfg cmd ls c = Some (COMMAND_RETURN_OK, c') \<Longrightarrow> \<not> cl_expired c \<Longrightarrow> \<not> cl_expired c'"
  by (induction ls arbitrary: c) (auto simp: bind_eq_Some_conv client_is_expired_def split: if_splits)

text \<open>
  However the input is cut into packets, the client ends up as if its lines had been executed one by
  one, and every read makes progress.
\<close>

lemma client_serve_run:
  assumes "fifo_ok b" "\<not> cl_expired c" "10 \<notin> set (fifo_contents b)"
    and "short_lines (fb_size b) (fifo_contents b @ sock)"
    and "run_lines io cfg cmd (map (line_text isspace) (fst (lines_of (fifo_contents b @ sock)))) c =
      Some (COMMAND_RETURN_OK, c')"
  shows "\<exists>used c1 b1. client_serve isspace io cfg cmd ks sock c b = Some (COMMAND_RETURN_OK, c1, b1, drop used sock) \<and>
    run_lines io cfg cmd (map (line_text isspace) (fst (lines_of (fifo_contents b @ take used sock)))) c =
      Some (COMMAND_RETURN_OK, c1) \<and>
    fifo_contents b1 = snd (lines_of (fifo_contents b @ take used sock)) \<and>
    ((\<forall>k \<in> set ks. 0 < k) \<longrightarrow> min (length ks) (length sock) \<le> used)"
  using assms
proof (induction ks arbitrary: sock c b)
  case Nil
  then show ?case by (intro exI [of _ 0]) (simp add: lines_of_none)
next
  case (Cons k ks)
  let ?B = "fifo_contents b" and ?run = "\<lambda>bs. run_lines io cfg cmd (map (line_text isspace) (fst (lines_of bs)))"
  have "length ?B < fb_size b" using Cons.prems(3,4) by (blast intro: short_lines_rest)
  then obtain offset mx b0 where w: "fifo_buffer_write b = Some (Some (offset, mx), b0)" "0 < mx"
    using fifo_buffer_write_region [OF Cons.prems(1)] by (auto simp: fifo_ok_def)
  let ?n = "min k mx"
  have split: "lines_of (?B @ sock) = (fst (lines_of (?B @ take ?n sock)) @
        fst (lines_of (snd (lines_of (?B @ take ?n sock)) @ drop ?n sock)),
      snd (lines_of (snd (lines_of (?B @ take ?n sock)) @ drop ?n sock)))"
    using lines_of_append [of "?B @ take ?n sock" "drop ?n sock"] by simp
  obtain c1 where c1: "?run (?B @ take ?n sock) c = Some (COMMAND_RETURN_OK, c1)"
      "?run (snd (lines_of (?B @ take ?n sock)) @ drop ?n sock) c1 = Some (COMMAND_RETURN_OK, c')"
    using Cons.prems(5) unfolding split by (auto simp: run_lines_append bind_eq_Some_conv split: if_splits)
  have le: "length (take ?n sock) \<le> mx" by (simp add: min_le_iff_disj)
  obtain b1 where b1: "client_read isspace io cfg cmd (\<lambda>_. (G_IO_STATUS_NORMAL, take ?n sock)) c b =
        Some (COMMAND_RETURN_OK, c1, b1)" "fifo_ok b1" "fb_size b1 = fb_size b"
      "fifo_contents b1 = snd (lines_of (?B @ take ?n sock))"
    using client_read_run [OF Cons.prems(1,2) \<open>length ?B < fb_size b\<close> w(1) le, of isspace io cfg cmd] c1(1)
    by auto
  have "short_lines (fb_size b1) (fifo_contents b1 @ drop ?n sock)"
    using Cons.prems(4) short_lines_append [of "fb_size b" "?B @ take ?n sock" "drop ?n sock"] b1(3,4) by simp
  moreover have "\<not> cl_expired c1" using run_lines_alive [OF c1(1) Cons.prems(2)] .
  ultimately obtain used c2 b2 where IH:
      "client_serve isspace io cfg cmd ks (drop ?n sock) c1 b1 = Some (COMMAND_RETURN_OK, c2, b2, drop used (drop ?n sock))"
      "?run (fifo_contents b1 @ take used (drop ?n sock)) c1 = Some (COMMAND_RETURN_OK, c2)"
      "fifo_contents b2 = snd (lines_of (fifo_contents b1 @ take used (drop ?n sock)))"
      "(\<forall>k \<in> set ks. 0 < k) \<longrightarrow> min (length ks) (length (drop ?n sock)) \<le> used"
    using Cons.IH [OF b1(2), of c1 "drop ?n sock"] c1(2) b1(4) lines_of_rest by metis
  have t: "take (?n + used) sock = take ?n sock @ take used (drop ?n sock)" by (simp add: take_add)
  have "lines_of (?B @ take (?n + used) sock) = (fst (lines_of (?B @ take ?n sock)) @
        fst (lines_of (fifo_contents b1 @ take used (drop ?n sock))), fifo_contents b2)"
    using lines_of_append [of "?B @ take ?n sock" "take used (drop ?n sock)"] IH(3) b1(4) t by simp
  then have "?run (?B @ take (?n + used) sock) c = Some (COMMAND_RETURN_OK, c2)"
      "fifo_contents b2 = snd (lines_of (?B @ take (?n + used) sock))"
    using c1(1) IH(2) by (simp_all add: run_lines_append)
  moreover have "client_serve isspace io cfg cmd (k # ks) sock c b =
      Some (COMMAND_RETURN_OK, c2, b2, drop (?n + used) sock)"
    using w(1) b1(1) IH(1) by (simp add: add.commute)
  moreover have "min (length (k # ks)) (length sock) \<le> ?n + used" if "\<forall>k \<in> set (k # ks). 0 < k"
    using IH(4) that w(2) by auto
  ultimately show ?case by blast
qed

section \<open>Command lists\<close>

text \<open>The lines that may stand inside a command list.\<close>

definition list_line :: "string \<Rightarrow> bool" where
  "list_line l \<longleftrightarrow> l \<noteq> ''noidle'' \<and> l \<noteq> ''command_list_end''"

definition list_size :: "string list \<Rightarrow> nat" where
  "list_size ls = sum_list (map (\<lambda>l. length l + 1) ls)"

lemma run_lines_collect:
  assumes "\<forall>l \<in> set ls. list_line l" "\<not> cl_idle_waiting c" "0 \<le> cl_cmd_list_OK c" "\<not> cl_expired c"
    and "cl_cmd_list_size c + list_size ls \<le> client_max_command_list_size cfg"
    and "client_max_command_list_size cfg < 2 ^ 64"
  shows "run_lines io cfg cmd ls c = Some (COMMAND_RETURN_OK,
    c\<lparr>cl_cmd_list := rev ls @ cl_cmd_list c, cl_cmd_list_size := cl_cmd_list_size c + list_size ls\<rparr>)"
  using assms(1-5)
proof (induction ls arbitrary: c)
  case Nil
  then show ?case by (simp add: list_size_def)
next
  case (Cons l ls)
  then have "size_add (cl_cmd_list_size c) (length l + 1) = cl_cmd_list_size c + (length l + 1)"
    using assms(6) by (intro size_add_small) (simp add: list_size_def)
  with Cons show ?case
    by (simp add: client_process_line_def list_line_def list_size_def new_cmd_list_ptr_def client_is_expired_def)
qed

lemma process_list_end:
  assumes "\<not> cl_idle_waiting c" "0 \<le> cl_cmd_list_OK c"
  shows "client_process_line io cfg cmd c ''command_list_end'' =
    client_process_command_list io cfg cmd (c\<lparr>cl_cmd_list := rev (cl_cmd_list c)\<rparr>) (cl_cmd_list_OK c \<noteq> 0)
      (rev (cl_cmd_list c)) 0 \<bind> (\<lambda>r. finish_command io cfg (fst r) (snd r) \<bind> (\<lambda>r.
        Some (fst r, if fst r = COMMAND_RETURN_CLOSE then snd r
                     else (snd r)\<lparr>cl_cmd_list := [], cl_cmd_list_OK := -1\<rparr>)))"
  using assms by (simp add: client_process_line_def Let_def split_def)

text \<open>
  A command list is executed as a whole and in the order in which it was sent.  The count of its bytes
  is not reset at the end.
\<close>

lemma command_list_run:
  assumes "\<forall>l \<in> set ls. list_line l" "\<not> cl_idle_waiting c" "cl_cmd_list_OK c = -1" "cl_cmd_list c = []"
    "\<not> cl_expired c" "start \<in> {''command_list_begin'', ''command_list_ok_begin''}"
    "cl_cmd_list_size c + list_size ls \<le> client_max_command_list_size cfg" "client_max_command_list_size cfg < 2 ^ 64"
  shows "run_lines io cfg cmd (start # ls @ [''command_list_end'']) c =
    client_process_command_list io cfg cmd
      (c\<lparr>cl_cmd_list_OK := of_bool (start = ''command_list_ok_begin''),
         cl_cmd_list_size := cl_cmd_list_size c + list_size ls, cl_cmd_list := ls\<rparr>)
      (start = ''command_list_ok_begin'') ls 0 \<bind> (\<lambda>r. finish_command io cfg (fst r) (snd r) \<bind> (\<lambda>r.
      let c = (if fst r = COMMAND_RETURN_CLOSE then snd r else (snd r)\<lparr>cl_cmd_list := [], cl_cmd_list_OK := -1\<rparr>)
      in Some (if fst r = COMMAND_RETURN_CLOSE \<or> fst r = COMMAND_RETURN_KILL then fst r
               else if cl_expired c then COMMAND_RETURN_CLOSE else COMMAND_RETURN_OK, c)))"
    (is "_ = ?rhs")
proof -
  let ?ok = "start = ''command_list_ok_begin''"
  let ?c = "c\<lparr>cl_cmd_list_OK := of_bool ?ok\<rparr>"
  let ?d = "?c\<lparr>cl_cmd_list := rev ls, cl_cmd_list_size := cl_cmd_list_size c + list_size ls\<rparr>"
  have b: "client_process_line io cfg cmd c start = Some (COMMAND_RETURN_OK, ?c)"
    using assms by (auto simp: client_process_line_def)
  have "run_lines io cfg cmd ls ?c = Some (COMMAND_RETURN_OK, ?d)"
    using run_lines_collect [of ls ?c cfg io cmd] assms by simp
  then have "run_lines io cfg cmd (start # ls @ [''command_list_end'']) c =
      run_lines io cfg cmd [''command_list_end''] ?d"
    using b assms(5) by (simp add: run_lines_append client_is_expired_def)
  also have "\<dots> = client_process_line io cfg cmd ?d ''command_list_end'' \<bind> (\<lambda>r.
      Some (if fst r = COMMAND_RETURN_CLOSE \<or> fst r = COMMAND_RETURN_KILL then fst r
            else if cl_expired (snd r) then COMMAND_RETURN_CLOSE else COMMAND_RETURN_OK, snd r))"
    by (auto simp: client_is_expired_def split: bind_splits)
  also have "\<dots> = ?rhs"
  proof -
    have "client_process_line io cfg cmd ?d ''command_list_end'' = client_process_command_list io cfg cmd
        (c\<lparr>cl_cmd_list_OK := of_bool ?ok, cl_cmd_list_size := cl_cmd_list_size c + list_size ls, cl_cmd_list := ls\<rparr>)
        ?ok ls 0 \<bind> (\<lambda>r. finish_command io cfg (fst r) (snd r) \<bind> (\<lambda>r.
          Some (fst r, if fst r = COMMAND_RETURN_CLOSE then snd r
                       else (snd r)\<lparr>cl_cmd_list := [], cl_cmd_list_OK := -1\<rparr>)))"
      using process_list_end [of ?d io cfg cmd] assms(2) by (cases ?ok) simp_all
    then show ?thesis
      by (simp only: Option.bind_assoc) (intro arg_cong2 [where f = Option.bind] refl ext; simp add: Let_def)
  qed
  finally show ?thesis .
qed

end
