(* ===== verification/Client_Events.thy ===== *)
theory Client_Events
  imports Client_Session
begin

text \<open>
  What a client is told without asking: the idle events of \<^verbatim>\<open>src/client_idle.c\<close> and the messages of
  other clients, \<^verbatim>\<open>src/client_subscribe.c\<close> and \<^verbatim>\<open>src/client_message.c\<close>.  \<open>isalnum\<close> is \<^verbatim>\<open>g_ascii_isalnum\<close> of
  glib; the process-wide idle flags, which a subscription changes, are passed along.
\<close>

unbundle bit_operations_syntax

section \<open>Idle events\<close>

definition client_idle_notify :: "'w io_write \<Rightarrow> client_config \<Rightarrow> 'w client \<Rightarrow> 'w client option" where
  "client_idle_notify io cfg c = do {
     assert_that (cl_idle_waiting c);
     assert_that (cl_idle_flags c \<noteq> 0);
     let flags = cl_idle_flags c;
     c \<leftarrow> for_each (\<lambda>i c.
         if flags AND push_bit i 1 AND cl_idle_subscriptions c \<noteq> 0
         then client_puts io cfg c (''changed: '' @ idle_get_names ! i @ newline) else Some c)
       [0..<length idle_get_names] (c\<lparr>cl_idle_flags := 0, cl_idle_waiting := False\<rparr>);
     client_puts io cfg c (''OK'' @ newline)
   }"

definition client_idle_add :: "'w io_write \<Rightarrow> client_config \<Rightarrow> 'w client \<Rightarrow> u32 \<Rightarrow> 'w client option" where
  "client_idle_add io cfg c flags =
     (if client_is_expired c then Some c
      else do {
        let c = c\<lparr>cl_idle_flags := cl_idle_flags c OR flags\<rparr>;
        if cl_idle_waiting c \<and> cl_idle_flags c AND cl_idle_subscriptions c \<noteq> 0 then do {
          c \<leftarrow> client_idle_notify io cfg c;
          client_write_output io cfg c
        }
        else Some c
      })"

text \<open>\<^verbatim>\<open>client_manager_idle_add\<close>, for the list of all clients.\<close>

fun client_manager_idle_add ::
    "'w io_write \<Rightarrow> client_config \<Rightarrow> 'w client list \<Rightarrow> u32 \<Rightarrow> 'w client list option" where
  "client_manager_idle_add io cfg [] flags = Some []"
| "client_manager_idle_add io cfg (c # cs) flags = do {
     c \<leftarrow> client_idle_add io cfg c flags;
     cs \<leftarrow> client_manager_idle_add io cfg cs flags;
     Some (c # cs)
   }"

definition client_idle_wait ::
    "'w io_write \<Rightarrow> client_config \<Rightarrow> 'w client \<Rightarrow> u32 \<Rightarrow> (bool \<times> 'w client) option" where
  "client_idle_wait io cfg c flags = do {
     assert_that (\<not> cl_idle_waiting c);
     let c = c\<lparr>cl_idle_waiting := True, cl_idle_subscriptions := flags\<rparr>;
     if cl_idle_flags c AND cl_idle_subscriptions c \<noteq> 0 then do {
       c \<leftarrow> client_idle_notify io cfg c;
       Some (True, c)
     }
     else Some (False, c)
   }"

section \<open>Messages between clients\<close>

abbreviation CLIENT_MAX_SUBSCRIPTIONS :: nat where
  "CLIENT_MAX_SUBSCRIPTIONS \<equiv> 16"

abbreviation CLIENT_MAX_MESSAGES :: nat where
  "CLIENT_MAX_MESSAGES \<equiv> 64"

datatype client_subscribe_result =
    CLIENT_SUBSCRIBE_OK
  | CLIENT_SUBSCRIBE_INVALID
  | CLIENT_SUBSCRIBE_ALREADY
  | CLIENT_SUBSCRIBE_FULL

definition valid_channel_char :: "(char \<Rightarrow> bool) \<Rightarrow> char \<Rightarrow> bool" where
  "valid_channel_char isalnum ch \<longleftrightarrow>
     isalnum ch \<or> ch = CHR ''_'' \<or> ch = CHR ''-'' \<or> ch = CHR ''.'' \<or> ch = CHR '':''"

text \<open>The first test reads the terminator of an empty name.\<close>

definition client_message_valid_channel_name :: "(char \<Rightarrow> bool) \<Rightarrow> string \<Rightarrow> bool" where
  "client_message_valid_channel_name isalnum name =
     (if name = [] then valid_channel_char isalnum (CHR 0x00) else list_all (valid_channel_char isalnum) name)"

definition client_find_subscription :: "'w client \<Rightarrow> string \<Rightarrow> bool" where
  "client_find_subscription c channel = list_ex (\<lambda>s. s = channel) (cl_subscriptions c)"

definition client_subscribe ::
    "(char \<Rightarrow> bool) \<Rightarrow> 'w client \<Rightarrow> u32 \<Rightarrow> string \<Rightarrow> (client_subscribe_result \<times> 'w client \<times> u32) option" where
  "client_subscribe isalnum c idle channel =
     (if \<not> client_message_valid_channel_name isalnum channel then Some (CLIENT_SUBSCRIBE_INVALID, c, idle)
      else if client_find_subscription c channel then Some (CLIENT_SUBSCRIBE_ALREADY, c, idle)
      else if CLIENT_MAX_SUBSCRIPTIONS \<le> cl_num_subscriptions c then Some (CLIENT_SUBSCRIBE_FULL, c, idle)
      else do {
        idle \<leftarrow> idle_add IDLE_SUBSCRIPTION idle;
        Some (CLIENT_SUBSCRIBE_OK, c\<lparr>cl_subscriptions := channel # cl_subscriptions c,
          cl_num_subscriptions := cl_num_subscriptions c + 1\<rparr>, idle)
      })"

definition client_unsubscribe :: "'w client \<Rightarrow> u32 \<Rightarrow> string \<Rightarrow> (bool \<times> 'w client \<times> u32) option" where
  "client_unsubscribe c idle channel =
     (if \<not> client_find_subscription c channel then Some (False, c, idle)
      else do {
        assert_that (0 < cl_num_subscriptions c);
        let c = c\<lparr>cl_subscriptions := remove1 channel (cl_subscriptions c),
          cl_num_subscriptions := cl_num_subscriptions c - 1\<rparr>;
        idle \<leftarrow> idle_add IDLE_SUBSCRIPTION idle;
        assert_that ((cl_num_subscriptions c = 0) = (cl_subscriptions c = []));
        Some (True, c, idle)
      })"

definition client_unsubscribe_all :: "'w client \<Rightarrow> 'w client" where
  "client_unsubscribe_all c = c\<lparr>cl_subscriptions := [], cl_num_subscriptions := 0\<rparr>"

definition client_push_message ::
    "'w io_write \<Rightarrow> client_config \<Rightarrow> 'w client \<Rightarrow> client_message \<Rightarrow> (bool \<times> 'w client) option" where
  "client_push_message io cfg c msg =
     (if CLIENT_MAX_MESSAGES \<le> cl_num_messages c \<or> \<not> client_find_subscription c (msg_channel msg)
      then Some (False, c)
      else do {
        c \<leftarrow> (if cl_messages c = [] then client_idle_add io cfg c IDLE_MESSAGE else Some c);
        Some (True, c\<lparr>cl_messages := msg # cl_messages c, cl_num_messages := cl_num_messages c + 1\<rparr>)
      })"

definition client_read_messages :: "'w client \<Rightarrow> client_message list \<times> 'w client" where
  "client_read_messages c = (rev (cl_messages c), c\<lparr>cl_messages := [], cl_num_messages := 0\<rparr>)"

section \<open>Idle events are told\<close>

lemma delivers_refl: "output_ok c \<Longrightarrow> delivers sent c [] c"
  by (simp add: delivers_def output_stream_def)

lemma delivers_trans:
  assumes "delivers sent c a c1" "delivers sent c1 b c2"
  shows "delivers sent c (a @ b) c2"
proof -
  from assms have "rest_same c c1" "rest_same c1 c2" by (simp_all add: delivers_def)
  then have "rest_same c c2" by (rule rest_same_trans)
  moreover have "\<exists>more. output_stream sent c @ a @ b = sent (cl_channel c2) @ more"
  proof (cases "cl_expired c1")
    case True
    with assms(2) have "c2 = c1" by (simp add: delivers_def)
    moreover obtain more where "output_stream sent c @ a = sent (cl_channel c1) @ more"
      using assms(1) by (auto simp: delivers_def)
    then have "output_stream sent c @ a @ b = sent (cl_channel c1) @ more @ b" by (metis append.assoc)
    ultimately show ?thesis by blast
  next
    case False
    with assms show ?thesis by (auto simp: delivers_def)
  qed
  moreover have "output_stream sent c2 = output_stream sent c @ a @ b" if "\<not> cl_expired c2"
    using assms that by (cases "cl_expired c1") (auto simp: delivers_def)
  ultimately show ?thesis using assms by (auto simp: delivers_def)
qed

lemma client_puts_all:
  assumes "channel_ok io sent" "output_ok c" "buf_room c"
  shows "\<exists>c'. for_each (\<lambda>s c. client_puts io cfg c s) ss c = Some c' \<and> delivers sent c (concat ss) c' \<and> buf_room c'"
  using assms(2,3)
proof (induction ss arbitrary: c)
  case Nil
  then show ?case by (simp add: delivers_refl)
next
  case (Cons s ss)
  obtain c1 where c1: "client_puts io cfg c s = Some c1" "delivers sent c s c1" "buf_room c1"
    using client_write_delivers [OF assms(1) Cons.prems] by (auto simp: client_puts_def)
  then have "output_ok c1" by (simp add: delivers_def)
  from Cons.IH [OF this c1(3)] c1 delivers_trans [OF c1(2)] show ?case by auto
qed

text \<open>What a client that is interested in \<open>subs\<close> is told about \<open>flags\<close>.\<close>

definition idle_lines :: "u32 \<Rightarrow> u32 \<Rightarrow> nat list \<Rightarrow> string" where
  "idle_lines flags subs is =
     concat (map (\<lambda>i. if bit flags i \<and> bit subs i then ''changed: '' @ idle_get_names ! i @ newline else []) is)"

lemma idle_bit: "flags AND push_bit i 1 AND subs \<noteq> 0 \<longleftrightarrow> bit flags i \<and> bit (subs :: u32) i"
proof -
  have "bit (flags AND push_bit i 1 AND subs) n \<longleftrightarrow> n = i \<and> bit flags i \<and> bit subs i" for n
    by (auto simp: bit_simps dest: bit_imp_le_length)
  then show ?thesis by (metis bit_eq_iff bit_0_eq bot_fun_def bot_bool_def)
qed

lemma idle_lines_sent:
  assumes "channel_ok io sent" "output_ok c" "buf_room c"
  shows "\<exists>c'. for_each (\<lambda>i c. if flags AND push_bit i 1 AND cl_idle_subscriptions c \<noteq> 0
      then client_puts io cfg c (''changed: '' @ idle_get_names ! i @ newline) else Some c) is c = Some c' \<and>
    delivers sent c (idle_lines flags (cl_idle_subscriptions c) is) c' \<and> buf_room c'"
  using assms(2,3)
proof (induction "is" arbitrary: c)
  case Nil
  then show ?case by (simp add: idle_lines_def delivers_refl)
next
  case (Cons i "is")
  let ?line = "if bit flags i \<and> bit (cl_idle_subscriptions c) i then ''changed: '' @ idle_get_names ! i @ newline else []"
  obtain c1 where c1: "(if flags AND push_bit i 1 AND cl_idle_subscriptions c \<noteq> 0
      then client_puts io cfg c (''changed: '' @ idle_get_names ! i @ newline) else Some c) = Some c1"
      "delivers sent c ?line c1" "buf_room c1"
    unfolding idle_bit
    using client_write_delivers [OF assms(1) Cons.prems, of cfg ?line] delivers_refl [OF Cons.prems(1)] Cons.prems(2)
    by (cases "bit flags i \<and> bit (cl_idle_subscriptions c) i") (auto simp: client_puts_def)
  have sub: "cl_idle_subscriptions c1 = cl_idle_subscriptions c" "output_ok c1"
    using c1(2) by (cases c; cases c1; simp add: delivers_def rest_same_def)+
  obtain c2 where "for_each (\<lambda>i c. if flags AND push_bit i 1 AND cl_idle_subscriptions c \<noteq> 0
      then client_puts io cfg c (''changed: '' @ idle_get_names ! i @ newline) else Some c) is c1 = Some c2"
      "delivers sent c1 (idle_lines flags (cl_idle_subscriptions c1) is) c2" "buf_room c2"
    using Cons.IH [OF sub(2) c1(3)] by blast
  with c1 delivers_trans [OF c1(2)] sub show ?case unfolding idle_bit by (simp add: idle_lines_def)
qed

definition idle_reply :: "u32 \<Rightarrow> u32 \<Rightarrow> string" where
  "idle_reply flags subs = idle_lines flags subs [0..<length idle_get_names] @ ''OK'' @ newline"

lemma client_idle_notify_tells:
  assumes "channel_ok io sent" "output_ok c" "buf_room c" "cl_idle_waiting c" "cl_idle_flags c \<noteq> 0"
  shows "\<exists>c'. client_idle_notify io cfg c = Some c' \<and> buf_room c' \<and>
    delivers sent (c\<lparr>cl_idle_flags := 0, cl_idle_waiting := False\<rparr>)
      (idle_reply (cl_idle_flags c) (cl_idle_subscriptions c)) c'"
proof -
  let ?c = "c\<lparr>cl_idle_flags := 0, cl_idle_waiting := False\<rparr>"
  have ok: "output_ok ?c" "buf_room ?c" using assms(2,3) by (simp_all add: output_ok_def buf_room_def)
  obtain c1 where c1: "for_each (\<lambda>i d. if cl_idle_flags c AND push_bit i 1 AND cl_idle_subscriptions d \<noteq> 0
      then client_puts io cfg d (''changed: '' @ idle_get_names ! i @ newline) else Some d)
      [0..<length idle_get_names] ?c = Some c1"
      "delivers sent ?c (idle_lines (cl_idle_flags c) (cl_idle_subscriptions c) [0..<length idle_get_names]) c1" "buf_room c1"
    using idle_lines_sent [OF assms(1) ok, where flags = "cl_idle_flags c" and cfg = cfg and
        ?is = "[0..<length idle_get_names]"] by (auto simp del: push_bit_of_1)
  have "output_ok c1" using c1(2) by (auto simp: delivers_def)
  then obtain c2 where "client_puts io cfg c1 (''OK'' @ newline) = Some c2" "delivers sent c1 (''OK'' @ newline) c2" "buf_room c2"
    using client_write_delivers [OF assms(1) _ c1(3), of cfg] by (auto simp: client_puts_def)
  with c1 delivers_trans [OF c1(2)] assms(4,5) show ?thesis
    by (simp add: client_idle_notify_def idle_reply_def Let_def del: push_bit_of_1)
qed

text \<open>
  A waiting client is told at once about the events it waits for, together with those that it had not
  been told before; every other event is remembered.
\<close>

lemma client_idle_add_tells:
  assumes "channel_ok io sent" "output_ok c" "buf_room c" "\<not> cl_expired c"
  shows "if cl_idle_waiting c \<and> (cl_idle_flags c OR flags) AND cl_idle_subscriptions c \<noteq> 0
    then \<exists>c'. client_idle_add io cfg c flags = Some c' \<and> buf_room c' \<and>
      delivers sent (c\<lparr>cl_idle_flags := 0, cl_idle_waiting := False\<rparr>)
        (idle_reply (cl_idle_flags c OR flags) (cl_idle_subscriptions c)) c'
    else client_idle_add io cfg c flags = Some (c\<lparr>cl_idle_flags := cl_idle_flags c OR flags\<rparr>)"
proof (cases "cl_idle_waiting c \<and> (cl_idle_flags c OR flags) AND cl_idle_subscriptions c \<noteq> 0")
  case True
  let ?c = "c\<lparr>cl_idle_flags := cl_idle_flags c OR flags\<rparr>"
  have "output_ok ?c" "buf_room ?c" "cl_idle_waiting ?c" "cl_idle_flags ?c \<noteq> 0"
    using assms True by (auto simp: output_ok_def buf_room_def)
  from client_idle_notify_tells [OF assms(1) this, of cfg] obtain c1 where
    c1: "client_idle_notify io cfg ?c = Some c1" "buf_room c1"
      "delivers sent (c\<lparr>cl_idle_flags := 0, cl_idle_waiting := False\<rparr>)
        (idle_reply (cl_idle_flags c OR flags) (cl_idle_subscriptions c)) c1" by auto
  then have "output_ok c1" by (auto simp: delivers_def)
  from client_write_output_delivers [OF assms(1) this, of cfg] obtain c2 where
    c2: "client_write_output io cfg c1 = Some c2" "delivers sent c1 [] c2" "\<not> cl_expired c2 \<longrightarrow> cl_send_buf c2 = []"
    by blast
  from c1 c2 delivers_trans [OF c1(3) c2(2)] True assms(4) show ?thesis
    by (auto simp: client_idle_add_def client_is_expired_def buf_room_def Let_def)
next
  case False
  with assms(4) show ?thesis by (auto simp: client_idle_add_def client_is_expired_def Let_def)
qed

section \<open>Subscriptions and messages\<close>

definition subscriptions_ok :: "'w client \<Rightarrow> bool" where
  "subscriptions_ok c \<longleftrightarrow> distinct (cl_subscriptions c) \<and> cl_num_subscriptions c = length (cl_subscriptions c) \<and>
     cl_num_subscriptions c \<le> CLIENT_MAX_SUBSCRIPTIONS"

definition messages_ok :: "'w client \<Rightarrow> bool" where
  "messages_ok c \<longleftrightarrow> cl_num_messages c = length (cl_messages c) \<and> cl_num_messages c \<le> CLIENT_MAX_MESSAGES"

lemma client_find_subscription_iff: "client_find_subscription c ch \<longleftrightarrow> ch \<in> set (cl_subscriptions c)"
  by (auto simp: client_find_subscription_def list_ex_iff)

lemma IDLE_SUBSCRIPTION_nonzero [simp]: "IDLE_SUBSCRIPTION \<noteq> 0"
  by (simp add: IDLE_SUBSCRIPTION_def)

lemma client_subscribe_ok:
  assumes "subscriptions_ok c"
  shows "\<exists>r c' idle'. client_subscribe isalnum c idle ch = Some (r, c', idle') \<and> subscriptions_ok c' \<and>
    set (cl_subscriptions c') = (if r = CLIENT_SUBSCRIBE_OK then insert ch (set (cl_subscriptions c)) else set (cl_subscriptions c))"
  using assms by (auto simp: client_subscribe_def subscriptions_ok_def client_find_subscription_iff idle_add_def)

lemma client_unsubscribe_ok:
  assumes "subscriptions_ok c"
  shows "\<exists>c' idle'. client_unsubscribe c idle ch = Some (ch \<in> set (cl_subscriptions c), c', idle') \<and> subscriptions_ok c' \<and>
    set (cl_subscriptions c') = set (cl_subscriptions c) - {ch}"
proof (cases "ch \<in> set (cl_subscriptions c)")
  case True
  then have "0 < length (cl_subscriptions c)" by (auto intro: length_pos_if_in_set)
  moreover have "(length (cl_subscriptions c) - 1 = 0) = (remove1 ch (cl_subscriptions c) = [])"
    using True by (metis length_remove1 length_0_conv)
  ultimately show ?thesis using True assms
    by (auto simp: client_unsubscribe_def subscriptions_ok_def client_find_subscription_iff idle_add_def
        length_remove1 Let_def)
next
  case False
  with assms show ?thesis by (simp add: client_unsubscribe_def client_find_subscription_iff)
qed

text \<open>Which messages a client accepts, in the order in which they are offered.\<close>

fun accepted :: "nat \<Rightarrow> string set \<Rightarrow> client_message list \<Rightarrow> client_message list" where
  "accepted room subs [] = []"
| "accepted room subs (m # ms) =
     (if 0 < room \<and> msg_channel m \<in> subs then m # accepted (room - 1) subs ms else accepted room subs ms)"

lemma client_idle_add_keeps:
  assumes "channel_ok io sent" "output_ok c" "buf_room c"
  shows "\<exists>c'. client_idle_add io cfg c flags = Some c' \<and> output_ok c' \<and> buf_room c' \<and>
    cl_messages c' = cl_messages c \<and> cl_num_messages c' = cl_num_messages c \<and> cl_subscriptions c' = cl_subscriptions c"
proof (cases "cl_expired c")
  case True
  with assms show ?thesis by (simp add: client_idle_add_def client_is_expired_def)
next
  case False
  have same: "output_ok c' \<and> cl_messages c' = cl_messages c \<and> cl_num_messages c' = cl_num_messages c \<and>
      cl_subscriptions c' = cl_subscriptions c"
    if "delivers sent (c\<lparr>cl_idle_flags := 0, cl_idle_waiting := False\<rparr>) d c'" for d c'
    using that by (cases c; cases c') (simp add: delivers_def rest_same_def)
  from client_idle_add_tells [OF assms False, of flags cfg] same assms(2,3) show ?thesis
    by (auto simp: output_ok_def buf_room_def split: if_splits)
qed

lemma client_push_message_ok:
  assumes "channel_ok io sent" "output_ok c" "buf_room c" "messages_ok c"
  shows "\<exists>c'. client_push_message io cfg c m =
      Some (cl_num_messages c < CLIENT_MAX_MESSAGES \<and> msg_channel m \<in> set (cl_subscriptions c), c') \<and>
    output_ok c' \<and> buf_room c' \<and> messages_ok c' \<and> cl_subscriptions c' = cl_subscriptions c \<and>
    cl_messages c' = (if cl_num_messages c < CLIENT_MAX_MESSAGES \<and> msg_channel m \<in> set (cl_subscriptions c)
      then m # cl_messages c else cl_messages c)"
  using client_idle_add_keeps [OF assms(1-3), of cfg IDLE_MESSAGE] assms
  by (auto simp: client_push_message_def client_find_subscription_iff messages_ok_def output_ok_def buf_room_def)

lemma client_push_messages:
  assumes "channel_ok io sent" "output_ok c" "buf_room c" "messages_ok c"
  shows "\<exists>c'. for_each (\<lambda>m c. map_option snd (client_push_message io cfg c m)) ms c = Some c' \<and> messages_ok c' \<and>
    fst (client_read_messages c') = fst (client_read_messages c) @
      accepted (CLIENT_MAX_MESSAGES - cl_num_messages c) (set (cl_subscriptions c)) ms"
  using assms(2-)
proof (induction ms arbitrary: c)
  case Nil
  then show ?case by simp
next
  case (Cons m ms)
  obtain c1 where c1: "client_push_message io cfg c m =
      Some (cl_num_messages c < CLIENT_MAX_MESSAGES \<and> msg_channel m \<in> set (cl_subscriptions c), c1)"
      "output_ok c1" "buf_room c1" "messages_ok c1" "cl_subscriptions c1 = cl_subscriptions c"
      "cl_messages c1 = (if cl_num_messages c < CLIENT_MAX_MESSAGES \<and> msg_channel m \<in> set (cl_subscriptions c)
        then m # cl_messages c else cl_messages c)"
    using client_push_message_ok [OF assms(1) Cons.prems] by blast
  moreover from this(4,6) Cons.prems(3) have "CLIENT_MAX_MESSAGES - cl_num_messages c1 =
      CLIENT_MAX_MESSAGES - cl_num_messages c -
      of_bool (cl_num_messages c < CLIENT_MAX_MESSAGES \<and> msg_channel m \<in> set (cl_subscriptions c))"
    by (auto simp: messages_ok_def)
  ultimately show ?case using Cons.IH [OF c1(2-4)] by (auto simp: client_read_messages_def)
qed

end
