(* ===== verification/Client_Theorems.thy ===== *)
theory Client_Theorems
  imports Client_Events
begin

unbundle bit_operations_syntax

text \<open>
  Properties of the client connections: input, output, command lists, idle events and messages.
\<close>

section \<open>A sample connection\<close>

text \<open>A channel that takes at most four bytes at a time, and a command table that echoes the line.\<close>

definition sample_io :: "string io_write" where
  "sample_io w data = (G_IO_STATUS_NORMAL, min 4 (length data), w @ take (min 4 (length data)) data)"

definition sample_config :: client_config where
  "sample_config = \<lparr>client_max_command_list_size = 2048, client_max_output_buffer_size = 8192\<rparr>"

definition sample_command :: "string command" where
  "sample_command c num line =
     map_option (Pair COMMAND_RETURN_OK) (client_puts sample_io sample_config c (line @ newline))"

definition sample_client :: "string client" where
  "sample_client = client_new [] 0 0"

definition sample_input :: fifo_buffer where
  "sample_input = \<lparr>fb_size = 4096, fb_start = 0, fb_end = 0, fb_buffer = replicate 4096 0\<rparr>"


lemma sample_client_ok:
  "output_ok sample_client" "buf_room sample_client" "messages_ok sample_client" "\<not> cl_expired sample_client"
  by (simp_all add: sample_client_def client_new_def output_ok_def buf_room_def messages_ok_def)

lemma sample_input_ok: "fifo_ok sample_input" "fifo_contents sample_input = []" "fb_size sample_input = 4096"
  by (simp_all add: sample_input_def fifo_ok_def fifo_contents_def)

text \<open>Evaluation of the sample connection.\<close>

lemmas sample_simps = sample_client_def client_new_def sample_config_def sample_command_def sample_io_def
  client_process_line_def finish_command_def command_success_def client_puts_def client_write_fits
  client_write_output_def client_write_direct_def client_defer_output_def client_write_deferred_def
  client_write_deferred_buffer_def client_is_expired_def

section \<open>Properties\<close>

text \<open>C19: However the bytes a client sends are cut into packets, the server executes the lines they form,
  one by one and in order, as if every line had arrived alone; a line that is not complete stays in
  the buffer, and every read takes at least one byte off the socket.\<close>

theorem client_input_as_lines:
  assumes "fifo_ok b" "\<not> cl_expired c" "10 \<notin> set (fifo_contents b)"
    and "short_lines (fb_size b) (fifo_contents b @ sock)"
    and "run_lines io cfg cmd (map (line_text isspace) (fst (lines_of (fifo_contents b @ sock)))) c =
      Some (COMMAND_RETURN_OK, c')"
  shows "\<exists>used c1 b1. client_serve isspace io cfg cmd ks sock c b = Some (COMMAND_RETURN_OK, c1, b1, drop used sock) \<and>
    run_lines io cfg cmd (map (line_text isspace) (fst (lines_of (fifo_contents b @ take used sock)))) c =
      Some (COMMAND_RETURN_OK, c1) \<and>
    fifo_contents b1 = snd (lines_of (fifo_contents b @ take used sock)) \<and>
    ((\<forall>k \<in> set ks. 0 < k) \<longrightarrow> min (length ks) (length sock) \<le> used)"
  by (rule client_serve_run [OF assms])

theorem client_input_as_lines_witness:
  "\<exists>used c1 b1. client_serve (\<lambda>ch. ch = CHR '' '') sample_io sample_config sample_command [1, 3, 2, 5]
      [97, 98, 10, 99, 10, 100] sample_client sample_input = Some (COMMAND_RETURN_OK, c1, b1, drop used [97, 98, 10, 99, 10, 100]) \<and>
    4 \<le> used"
proof -
  let ?s = "[97, 98, 10, 99, 10, 100] :: u8 list"
  have l: "lines_of ?s = ([[97, 98], [99]], [100])" by code_simp
  have "map (line_text (\<lambda>ch. ch = CHR '' '')) [[97, 98], [99]] = [''ab'', ''c'']" by code_simp
  moreover have "map_option fst (run_lines sample_io sample_config sample_command [''ab'', ''c''] sample_client) =
      Some COMMAND_RETURN_OK"
    by (simp add: sample_simps)
  ultimately obtain c' where r: "run_lines sample_io sample_config sample_command
      (map (line_text (\<lambda>ch. ch = CHR '' '')) (fst (lines_of (fifo_contents sample_input @ ?s)))) sample_client =
      Some (COMMAND_RETURN_OK, c')" by (auto simp: l sample_input_ok simp del: run_lines.simps list.map)
  have "10 \<notin> set (fifo_contents sample_input)" "short_lines (fb_size sample_input) (fifo_contents sample_input @ ?s)"
    by (simp_all add: sample_input_ok short_lines_def l)
  from client_input_as_lines [OF sample_input_ok(1) sample_client_ok(4) this r, of "[1, 3, 2, 5]"]
  show ?thesis by auto
qed





text \<open>A client that waits for events is told at once when one of them happens: it receives a line for each of
  its subsystems that has changed since it was last told, in a fixed order, and then the final
  \<open>OK\<close>.  As long as nothing it waits for has happened the events are collected.\<close>

lemma client_idle_told:
  assumes "channel_ok io sent" "output_ok c" "buf_room c" "\<not> cl_expired c"
  shows "if cl_idle_waiting c \<and> (cl_idle_flags c OR flags) AND cl_idle_subscriptions c \<noteq> 0
    then \<exists>c'. client_idle_add io cfg c flags = Some c' \<and>
      (\<not> cl_expired c' \<longrightarrow> \<not> cl_idle_waiting c' \<and> cl_idle_flags c' = 0 \<and>
        output_stream sent c' = output_stream sent c @
          concat (map (\<lambda>i. if bit (cl_idle_flags c OR flags) i \<and> bit (cl_idle_subscriptions c) i
            then ''changed: '' @ idle_names ! i @ newline else []) [0..<length idle_names]) @ ''OK'' @ newline)
    else client_idle_add io cfg c flags = Some (c\<lparr>cl_idle_flags := cl_idle_flags c OR flags\<rparr>)"
proof -
  have "\<not> cl_idle_waiting c' \<and> cl_idle_flags c' = 0 \<and> output_stream sent c' = output_stream sent c @ d"
    if "delivers sent (c\<lparr>cl_idle_flags := 0, cl_idle_waiting := False\<rparr>) d c'" "\<not> cl_expired c'" for c' d
    using that by (cases c; cases c') (auto simp: delivers_def rest_same_def output_stream_def)
  note told = this
  show ?thesis
  proof (cases "cl_idle_waiting c \<and> (cl_idle_flags c OR flags) AND cl_idle_subscriptions c \<noteq> 0")
    case True
    with client_idle_add_tells [OF assms, of flags cfg] obtain c' where
      "client_idle_add io cfg c flags = Some c'"
      "delivers sent (c\<lparr>cl_idle_flags := 0, cl_idle_waiting := False\<rparr>)
        (idle_reply (cl_idle_flags c OR flags) (cl_idle_subscriptions c)) c'" by auto
    with told [of _ c'] True show ?thesis
      by (simp add: idle_reply_def idle_lines_def idle_get_names_def cong: if_cong)
  next
    case False
    with client_idle_add_tells [OF assms, of flags cfg] show ?thesis by (simp only: if_not_P if_False)
  qed
qed

text \<open>Messages between clients are delivered in the order in which they were sent: a client receives exactly
  those on its channels, as long as no more than 64 of them are waiting, and the counter of the
  waiting messages is right.\<close>

lemma client_messages_in_order:
  assumes "channel_ok io sent" "output_ok c" "buf_room c" "messages_ok c"
  shows "\<exists>c'. for_each (\<lambda>m c. map_option snd (client_push_message io cfg c m)) ms c = Some c' \<and> messages_ok c' \<and>
    fst (client_read_messages c') = fst (client_read_messages c) @
      accepted (CLIENT_MAX_MESSAGES - cl_num_messages c) (set (cl_subscriptions c)) ms"
  by (rule client_push_messages [OF assms])

end
