(* ===== verification/List_Sort.thy ===== *)
theory List_Sort
  imports Mpd_Prelude
begin

text \<open>
  The merge sort of linked lists, \<^verbatim>\<open>src/util/list_sort.c\<close>.  A list is the sequence of its nodes; \<open>[]\<close> is the
  \<^verbatim>\<open>NULL\<close> of an empty partial list, and the back links, which \<^verbatim>\<open>merge_and_restore_back_links\<close> sets again
  from the sequence, are not represented.  \<open>cmp a b\<close> is the comparison function, which the code calls
  with the nodes to compare.
\<close>

section \<open>Definitions\<close>

abbreviation MAX_LIST_LENGTH_BITS :: nat where
  "MAX_LIST_LENGTH_BITS \<equiv> 20"

fun merge :: "('a \<Rightarrow> 'a \<Rightarrow> int) \<Rightarrow> 'a list \<Rightarrow> 'a list \<Rightarrow> 'a list" where
  "merge cmp (a # as) (b # bs) =
     (if cmp a b \<le> 0 then a # merge cmp as (b # bs) else b # merge cmp (a # as) bs)"
| "merge cmp [] bs = bs"
| "merge cmp as [] = as"

text \<open>The last merge follows the pointers of the merged list, which therefore must not be empty.\<close>

definition merge_and_restore_back_links :: "('a \<Rightarrow> 'a \<Rightarrow> int) \<Rightarrow> 'a list \<Rightarrow> 'a list \<Rightarrow> 'a list option" where
  "merge_and_restore_back_links cmp a b = do {
     assert_that (a \<noteq> [] \<or> b \<noteq> []);
     Some (merge cmp a b)
   }"

text \<open>The inner loop: one more list is merged with the partial lists until an empty slot is found.\<close>

function carry :: "('a \<Rightarrow> 'a \<Rightarrow> int) \<Rightarrow> 'a list list \<Rightarrow> nat \<Rightarrow> 'a list \<Rightarrow> ('a list list \<times> nat) option" where
  "carry cmp part lev cur =
     (if lev < length part
      then if part ! lev = [] then Some (part[lev := cur], lev)
           else carry cmp (part[lev := []]) (lev + 1) (merge cmp (part ! lev) cur)
      else None)"
  by pat_completeness auto
termination by (relation "measure (\<lambda>(cmp, part, lev, cur). length part - lev)") auto

declare carry.simps [simp del]

fun sort_loop :: "('a \<Rightarrow> 'a \<Rightarrow> int) \<Rightarrow> 'a list \<Rightarrow> 'a list list \<Rightarrow> nat \<Rightarrow> ('a list list \<times> nat) option" where
  "sort_loop cmp [] part max_lev = Some (part, max_lev)"
| "sort_loop cmp (x # xs) part max_lev = do {
     (part, lev) \<leftarrow> carry cmp part 0 [x];
     sort_loop cmp xs part (if max_lev < lev then lev else max_lev)
   }"

definition list_sort :: "('a \<Rightarrow> 'a \<Rightarrow> int) \<Rightarrow> 'a list \<Rightarrow> 'a list option" where
  "list_sort cmp xs =
     (if xs = [] then Some []
      else do {
        (part, max_lev) \<leftarrow> sort_loop cmp xs (replicate (MAX_LIST_LENGTH_BITS + 1) []) 0;
        list \<leftarrow> for_each (\<lambda>lev list. do {
            p \<leftarrow> aget part lev;
            Some (if p \<noteq> [] then merge cmp p list else list)
          }) [0..<max_lev] [];
        top \<leftarrow> aget part max_lev;
        merge_and_restore_back_links cmp top list
      })"

section \<open>Stable sorting\<close>

text \<open>A comparison that orders: of two nodes one is not behind the other, and the order is transitive.\<close>

definition ordering :: "('a \<Rightarrow> 'a \<Rightarrow> int) \<Rightarrow> bool" where
  "ordering cmp \<longleftrightarrow> (\<forall>a b. cmp a b \<le> 0 \<or> cmp b a \<le> 0) \<and>
     (\<forall>a b c. cmp a b \<le> 0 \<longrightarrow> cmp b c \<le> 0 \<longrightarrow> cmp a c \<le> 0)"

definition same_rank :: "('a \<Rightarrow> 'a \<Rightarrow> int) \<Rightarrow> 'a \<Rightarrow> 'a \<Rightarrow> bool" where
  "same_rank cmp a b \<longleftrightarrow> cmp a b \<le> 0 \<and> cmp b a \<le> 0"

abbreviation in_order :: "('a \<Rightarrow> 'a \<Rightarrow> int) \<Rightarrow> 'a list \<Rightarrow> bool" where
  "in_order cmp \<equiv> sorted_wrt (\<lambda>a b. cmp a b \<le> 0)"

text \<open>The same nodes, and those of equal rank in the same order.\<close>

definition stable :: "('a \<Rightarrow> 'a \<Rightarrow> int) \<Rightarrow> 'a list \<Rightarrow> 'a list \<Rightarrow> bool" where
  "stable cmp xs ys \<longleftrightarrow> mset xs = mset ys \<and>
     (\<forall>k. filter (same_rank cmp k) xs = filter (same_rank cmp k) ys)"

lemma stable_refl [simp]: "stable cmp xs xs"
  by (simp add: stable_def)

lemma stable_trans: "stable cmp xs ys \<Longrightarrow> stable cmp ys zs \<Longrightarrow> stable cmp xs zs"
  by (simp add: stable_def)

lemma stable_append: "stable cmp xs xs' \<Longrightarrow> stable cmp ys ys' \<Longrightarrow> stable cmp (xs @ ys) (xs' @ ys')"
  by (simp add: stable_def)

lemma orderingD:
  assumes "ordering cmp"
  shows "\<not> cmp a b \<le> 0 \<Longrightarrow> cmp b a \<le> 0" "cmp a b \<le> 0 \<Longrightarrow> cmp b c \<le> 0 \<Longrightarrow> cmp a c \<le> 0"
  using assms by (auto simp: ordering_def)

lemma mset_merge: "mset (merge cmp as bs) = mset as + mset bs"
  by (induction cmp as bs rule: merge.induct) auto

lemma set_merge: "set (merge cmp as bs) = set as \<union> set bs"
  by (metis mset_merge set_mset_mset set_mset_union)

lemma length_merge: "length (merge cmp as bs) = length as + length bs"
  by (metis mset_merge size_mset size_union)

lemma in_order_merge:
  "ordering cmp \<Longrightarrow> in_order cmp as \<Longrightarrow> in_order cmp bs \<Longrightarrow> in_order cmp (merge cmp as bs)"
  by (induction cmp as bs rule: merge.induct) (auto simp: set_merge dest: orderingD)

text \<open>An element that goes first is in front of its equals in the other list.\<close>

lemma filter_merge:
  assumes "ordering cmp" "in_order cmp as" "in_order cmp bs"
  shows "filter (same_rank cmp k) (merge cmp as bs) = filter (same_rank cmp k) as @ filter (same_rank cmp k) bs"
  using assms
proof (induction cmp as bs rule: merge.induct)
  case (1 cmp a as b bs)
  show ?case
  proof (cases "cmp a b \<le> 0")
    case True
    with 1 show ?thesis by simp
  next
    case False
    have "filter (same_rank cmp k) (a # as) = []" if "same_rank cmp k b"
    proof -
      have "\<not> cmp x b \<le> 0" if "x \<in> set (a # as)" for x
        using that 1(4) False orderingD(2) [OF 1(3), of a x b] by auto
      then have "\<not> same_rank cmp k x" if "x \<in> set (a # as)" for x
        using that \<open>same_rank cmp k b\<close> orderingD(2) [OF 1(3), of x k b] by (auto simp: same_rank_def)
      then show ?thesis by (auto simp: filter_empty_conv)
    qed
    with False 1 show ?thesis by auto
  qed
qed simp_all

lemma stable_merge:
  "ordering cmp \<Longrightarrow> in_order cmp as \<Longrightarrow> in_order cmp bs \<Longrightarrow> stable cmp (merge cmp as bs) (as @ bs)"
  by (simp add: stable_def mset_merge filter_merge)

section \<open>The partial lists\<close>

text \<open>The slot of a level is empty or holds a sorted list of the length that belongs to the level.\<close>

definition parts_ok :: "('a \<Rightarrow> 'a \<Rightarrow> int) \<Rightarrow> 'a list list \<Rightarrow> bool" where
  "parts_ok cmp part \<longleftrightarrow> length part = MAX_LIST_LENGTH_BITS + 1 \<and>
     (\<forall>l < length part. in_order cmp (part ! l) \<and> (part ! l = [] \<or> length (part ! l) = 2 ^ l))"

text \<open>The nodes seen so far; those of a higher level came first.\<close>

definition seen :: "'a list list \<Rightarrow> 'a list" where
  "seen part = concat (rev part)"

lemma seen_update:
  assumes "lev < length part" "\<forall>l < lev. part ! l = []"
  shows "seen (part[lev := x]) = seen (drop (Suc lev) part) @ x"
proof -
  have "concat (rev (take lev part)) = []"
    using assms by (auto simp: in_set_conv_nth)
  with assms(1) show ?thesis by (simp add: seen_def upd_conv_take_nth_drop)
qed

lemma seen_at:
  "lev < length part \<Longrightarrow> \<forall>l < lev. part ! l = [] \<Longrightarrow> seen part = seen (drop (Suc lev) part) @ part ! lev"
  using seen_update [of lev part "part ! lev"] by simp

lemma parts_ok_update:
  "parts_ok cmp part \<Longrightarrow> in_order cmp x \<Longrightarrow> x = [] \<or> length x = 2 ^ lev \<Longrightarrow> parts_ok cmp (part[lev := x])"
  by (cases "lev < length part") (auto simp: parts_ok_def nth_list_update)

lemma carry_ok:
  assumes "ordering cmp" "parts_ok cmp part" "\<forall>l < lev. part ! l = []" "length cur = 2 ^ lev" "in_order cmp cur"
    and "length (seen part) + length cur < 2 ^ (MAX_LIST_LENGTH_BITS + 1)"
  shows "\<exists>part' lev'. carry cmp part lev cur = Some (part', lev') \<and> parts_ok cmp part' \<and>
    stable cmp (seen part') (seen part @ cur) \<and> lev \<le> lev' \<and> lev' < length part \<and> part ! lev' = [] \<and> part' ! lev' \<noteq> [] \<and>
    (\<forall>l > lev'. part' ! l = part ! l)"
  using assms
proof (induction cmp part lev cur rule: carry.induct)
  case (1 cmp part lev cur)
  have "(2 :: nat) ^ lev < 2 ^ (MAX_LIST_LENGTH_BITS + 1)" using 1(5,7) by linarith
  then have "lev < MAX_LIST_LENGTH_BITS + 1" by (rule power_less_imp_less_exp [rotated]) simp
  then have lev: "lev < length part" using 1(3) by (simp add: parts_ok_def)
  note at = seen_at [OF lev 1(4)] and upd = seen_update [OF lev 1(4)]
  show ?case
  proof (cases "part ! lev = []")
    case True
    have "parts_ok cmp (part[lev := cur])" using 1(3,5,6) by (simp add: parts_ok_update)
    with True lev at upd [of cur] 1(5) show ?thesis by (subst carry.simps) (auto simp: nth_list_update)
  next
    case False
    let ?p = "part[lev := []]" and ?m = "merge cmp (part ! lev) cur"
    have old: "in_order cmp (part ! lev)" "length (part ! lev) = 2 ^ lev" using 1(3) lev False by (auto simp: parts_ok_def)
    have "parts_ok cmp ?p" using 1(3) by (simp add: parts_ok_update)
    moreover have "\<forall>l < lev + 1. ?p ! l = []" using 1(4) lev by (auto simp: nth_list_update less_Suc_eq)
    moreover have "length ?m = 2 ^ (lev + 1)" using old(2) 1(5) by (simp add: length_merge)
    moreover have "in_order cmp ?m" using 1(2,6) old(1) by (simp add: in_order_merge)
    moreover have "length (seen ?p) + length ?m < 2 ^ (MAX_LIST_LENGTH_BITS + 1)"
      using 1(7) at upd [of "[]"] by (simp add: length_merge)
    ultimately obtain part' lev' where r: "carry cmp ?p (lev + 1) ?m = Some (part', lev')" "parts_ok cmp part'"
        "stable cmp (seen part') (seen ?p @ ?m)" "lev < lev'" "lev' < length part" "?p ! lev' = []" "part' ! lev' \<noteq> []"
        "\<forall>l > lev'. part' ! l = ?p ! l"
      using 1(1) [OF lev False 1(2)] by (auto simp: Suc_le_eq)
    have "stable cmp (seen ?p @ ?m) (seen part @ cur)"
      using stable_append [OF stable_refl stable_merge [OF 1(2) old(1) 1(6)], of "seen (drop (Suc lev) part)"] at upd [of "[]"]
      by simp
    then have "stable cmp (seen part') (seen part @ cur)" using r(3) by (blast intro: stable_trans)
    with r lev False show ?thesis by (subst carry.simps) (auto simp: nth_list_update)
  qed
qed

text \<open>Between two nodes: \<open>max_lev\<close> is the highest level in use.\<close>

definition levels_ok :: "'a list list \<Rightarrow> nat \<Rightarrow> bool" where
  "levels_ok part max_lev \<longleftrightarrow> max_lev < length part \<and> (\<forall>l > max_lev. l < length part \<longrightarrow> part ! l = []) \<and>
     (part ! max_lev = [] \<longrightarrow> max_lev = 0)"

lemma stable_length: "stable cmp xs ys \<Longrightarrow> length xs = length ys"
  by (metis stable_def size_mset)

lemma sort_loop_ok:
  assumes "ordering cmp" "parts_ok cmp part" "levels_ok part max_lev"
    and "length (seen part) + length xs < 2 ^ (MAX_LIST_LENGTH_BITS + 1)"
  shows "\<exists>part' max_lev'. sort_loop cmp xs part max_lev = Some (part', max_lev') \<and> parts_ok cmp part' \<and>
    levels_ok part' max_lev' \<and> stable cmp (seen part') (seen part @ xs)"
  using assms(2-)
proof (induction xs arbitrary: part max_lev)
  case Nil
  then show ?case by simp
next
  case (Cons x xs)
  obtain part1 lev where c: "carry cmp part 0 [x] = Some (part1, lev)" "parts_ok cmp part1"
      "stable cmp (seen part1) (seen part @ [x])" "lev < length part" "part ! lev = []" "part1 ! lev \<noteq> []"
      "\<forall>l > lev. part1 ! l = part ! l"
    using carry_ok [OF assms(1) Cons.prems(1), of 0 "[x]"] Cons.prems(3) by auto
  let ?max = "if max_lev < lev then lev else max_lev"
  have len: "length part1 = length part" using c(2) Cons.prems(1) by (simp add: parts_ok_def)
  have "levels_ok part1 ?max"
    using Cons.prems(2) c(4-7) len by (auto simp: levels_ok_def not_less le_less)
  moreover have "length (seen part1) + length xs < 2 ^ (MAX_LIST_LENGTH_BITS + 1)"
    using Cons.prems(3) stable_length [OF c(3)] by simp
  ultimately obtain part' max_lev' where r: "sort_loop cmp xs part1 ?max = Some (part', max_lev')"
      "parts_ok cmp part'" "levels_ok part' max_lev'" "stable cmp (seen part') (seen part1 @ xs)"
    using Cons.IH [OF c(2)] by blast
  have "stable cmp (seen part1 @ xs) (seen part @ x # xs)"
    using stable_append [OF c(3) stable_refl, of xs] by simp
  then have "stable cmp (seen part') (seen part @ x # xs)" using r(4) by (blast intro: stable_trans)
  with c(1) r show ?case by simp
qed

text \<open>Merging the partial lists from the lowest level up.\<close>

lemma merge_parts_ok:
  assumes "ordering cmp" "parts_ok cmp part" "n \<le> length part"
  shows "\<exists>list. for_each (\<lambda>lev list. do {
      p \<leftarrow> aget part lev;
      Some (if p \<noteq> [] then merge cmp p list else list)
    }) [0..<n] [] = Some list \<and> in_order cmp list \<and> stable cmp list (seen (take n part))"
proof (rule for_each_upt [where Inv = "\<lambda>i list. in_order cmp list \<and> stable cmp list (seen (take i part))"])
  fix i list
  assume "i < n" and inv: "in_order cmp list \<and> stable cmp list (seen (take i part))"
  with assms(2,3) have i: "i < length part" "in_order cmp (part ! i)" by (auto simp: parts_ok_def)
  have s: "seen (take (Suc i) part) = part ! i @ seen (take i part)"
    using i(1) by (simp add: seen_def take_Suc_conv_app_nth)
  have "stable cmp (merge cmp (part ! i) list) (part ! i @ seen (take i part))"
    using inv i(2) assms(1) by (blast intro: stable_trans stable_merge stable_append stable_refl)
  with i inv s assms(1)
  show "\<exists>list'. aget part i \<bind> (\<lambda>p. Some (if p \<noteq> [] then merge cmp p list else list)) = Some list' \<and>
      in_order cmp list' \<and> stable cmp list' (seen (take (Suc i) part))"
    by (auto simp: in_order_merge)
qed (simp_all add: seen_def)

lemma list_sort_sorts:
  assumes "ordering cmp" "length xs < 2 ^ (MAX_LIST_LENGTH_BITS + 1)"
  shows "\<exists>ys. list_sort cmp xs = Some ys \<and> in_order cmp ys \<and> stable cmp ys xs"
proof (cases "xs = []")
  case True
  then show ?thesis by (simp add: list_sort_def)
next
  case False
  let ?p = "replicate (MAX_LIST_LENGTH_BITS + 1) [] :: 'a list list"
  have "parts_ok cmp ?p" "levels_ok ?p 0" and e: "seen ?p = []"
    by (auto simp: parts_ok_def levels_ok_def seen_def nth_replicate simp del: replicate_Suc)
  with sort_loop_ok [OF assms(1), of ?p 0 xs] assms(2) obtain part max_lev where
    p: "sort_loop cmp xs ?p 0 = Some (part, max_lev)" "parts_ok cmp part" "levels_ok part max_lev" "stable cmp (seen part) xs"
    by auto
  from p(3) have m: "max_lev < length part" by (simp add: levels_ok_def)
  with p(2) have top: "in_order cmp (part ! max_lev)" by (auto simp: parts_ok_def)
  obtain list where l: "for_each (\<lambda>lev list. do {
      p \<leftarrow> aget part lev;
      Some (if p \<noteq> [] then merge cmp p list else list)
    }) [0..<max_lev] [] = Some list" "in_order cmp list" "stable cmp list (seen (take max_lev part))"
    using merge_parts_ok [OF assms(1) p(2), of max_lev] m by auto
  have "\<forall>q \<in> set (drop (Suc max_lev) part). q = []"
    using p(3) by (auto simp: levels_ok_def in_set_conv_nth)
  then have "seen part = part ! max_lev @ seen (take max_lev part)"
    using m by (subst id_take_nth_drop [OF m]) (simp add: seen_def)
  moreover have "stable cmp (merge cmp (part ! max_lev) list) (part ! max_lev @ seen (take max_lev part))"
    using stable_merge [OF assms(1) top l(2)] stable_append [OF stable_refl l(3)] by (rule stable_trans)
  ultimately have s: "stable cmp (merge cmp (part ! max_lev) list) xs" using p(4) by (simp add: stable_def)
  then have "merge cmp (part ! max_lev) list \<noteq> []" using False stable_length [OF s] by auto
  then have "part ! max_lev \<noteq> [] \<or> list \<noteq> []" by auto
  then have "list_sort cmp xs = Some (merge cmp (part ! max_lev) list)"
    using False p(1) l(1) m
    by (simp add: list_sort_def merge_and_restore_back_links_def del: replicate_Suc)
  then show ?thesis using s in_order_merge [OF assms(1) top l(2)] by blast
qed

end
