(* ===== verification/Tokenizer.thy ===== *)
theory Tokenizer
  imports Mpd_Prelude
begin

text \<open>
  The tokenizer of command lines, \<^verbatim>\<open>src/tokenizer.c\<close>, and \<^verbatim>\<open>src/string_util.c\<close>.  A pointer into the line is
  the rest of the line behind it; a function returns its result and the new pointer.  The word is cut
  out of the line in place, always in front of the pointer, so the rest is not changed by that.  The
  character classes of glib are arguments.
\<close>

section \<open>Definitions\<close>

text \<open>\<^verbatim>\<open>NULL\<close>, at the end of the line or after an error, \<^verbatim>\<open>ERR_PTR(-CMD_QUOTE)\<close>, or a word.\<close>

datatype token = TOKEN_NULL | TOKEN_ERR | TOKEN string

definition strchug_fast :: "(char \<Rightarrow> bool) \<Rightarrow> string \<Rightarrow> string" where
  "strchug_fast isspace p = dropWhile isspace p"

definition string_array_contains :: "(string \<Rightarrow> string \<Rightarrow> int) \<Rightarrow> string list \<Rightarrow> string \<Rightarrow> bool" where
  "string_array_contains strcasecmp haystack needle = list_ex (\<lambda>s. strcasecmp s needle = 0) haystack"

definition valid_word_first_char :: "(char \<Rightarrow> bool) \<Rightarrow> char \<Rightarrow> bool" where
  "valid_word_first_char isalpha ch = isalpha ch"

definition valid_word_char :: "(char \<Rightarrow> bool) \<Rightarrow> char \<Rightarrow> bool" where
  "valid_word_char isalnum ch \<longleftrightarrow> isalnum ch \<or> ch = CHR ''_''"

definition valid_unquoted_char :: "char \<Rightarrow> bool" where
  "valid_unquoted_char ch \<longleftrightarrow> 0x20 < (of_char ch :: nat) \<and> ch \<noteq> CHR 0x22 \<and> ch \<noteq> CHR 0x27"

text \<open>
  The loop over the characters behind the first one, for words and for unquoted parameters, which
  differ in the characters they allow and in the result for another one.
\<close>

fun word_loop :: "(char \<Rightarrow> bool) \<Rightarrow> (char \<Rightarrow> bool) \<Rightarrow> token \<Rightarrow> string \<Rightarrow> string \<Rightarrow> token \<times> string" where
  "word_loop isspace valid err word [] = (TOKEN word, [])"
| "word_loop isspace valid err word (c # input) =
     (if isspace c then (TOKEN word, strchug_fast isspace input)
      else if \<not> valid c then (err, c # input)
      else word_loop isspace valid err (word @ [c]) input)"

definition tokenizer_next_word ::
    "(char \<Rightarrow> bool) \<Rightarrow> (char \<Rightarrow> bool) \<Rightarrow> (char \<Rightarrow> bool) \<Rightarrow> string \<Rightarrow> token \<times> string" where
  "tokenizer_next_word isspace isalpha isalnum input =
     (case input of
        [] \<Rightarrow> (TOKEN_NULL, input)
      | c # cs \<Rightarrow> if \<not> valid_word_first_char isalpha c then (TOKEN_NULL, input)
                  else word_loop isspace (valid_word_char isalnum) TOKEN_NULL [c] cs)"

definition tokenizer_next_unquoted :: "(char \<Rightarrow> bool) \<Rightarrow> string \<Rightarrow> token \<times> string" where
  "tokenizer_next_unquoted isspace input =
     (case input of
        [] \<Rightarrow> (TOKEN_NULL, input)
      | c # cs \<Rightarrow> if \<not> valid_unquoted_char c then (TOKEN_ERR, input)
                  else word_loop isspace valid_unquoted_char TOKEN_ERR [c] cs)"

text \<open>
  Copying up to the closing quote.  \<open>prev\<close> is the character in front of the pointer: at a missing
  quote the pointer is set back to it.
\<close>

fun string_loop :: "(char \<Rightarrow> bool) \<Rightarrow> char \<Rightarrow> string \<Rightarrow> string \<Rightarrow> token \<times> string" where
  "string_loop isspace prev word [] = (TOKEN_NULL, [prev])"
| "string_loop isspace prev word (c # input) =
     (if c = CHR 0x22 then
        (if input \<noteq> [] \<and> \<not> isspace (hd input) then (TOKEN_NULL, input)
         else (TOKEN word, strchug_fast isspace input))
      else if c = CHR 0x5C then
        (case input of [] \<Rightarrow> (TOKEN_NULL, [c]) | d # input \<Rightarrow> string_loop isspace d (word @ [d]) input)
      else string_loop isspace c (word @ [c]) input)"

definition tokenizer_next_string :: "(char \<Rightarrow> bool) \<Rightarrow> string \<Rightarrow> token \<times> string" where
  "tokenizer_next_string isspace input =
     (case input of
        [] \<Rightarrow> (TOKEN_NULL, input)
      | c # cs \<Rightarrow> if c \<noteq> CHR 0x22 then (TOKEN_NULL, input) else string_loop isspace c [] cs)"

definition tokenizer_next_param :: "(char \<Rightarrow> bool) \<Rightarrow> string \<Rightarrow> token \<times> string" where
  "tokenizer_next_param isspace input =
     (if input \<noteq> [] \<and> hd input = CHR 0x22 then tokenizer_next_string isspace input
      else tokenizer_next_unquoted isspace input)"

section \<open>Quoted parameters are read back\<close>

text \<open>A parameter in quotes, as the protocol documents it.\<close>

definition escape :: "string \<Rightarrow> string" where
  "escape s = concat (map (\<lambda>c. if c = CHR 0x22 \<or> c = CHR 0x5C then [CHR 0x5C, c] else [c]) s)"

definition quote :: "string \<Rightarrow> string" where
  "quote s = CHR 0x22 # escape s @ [CHR 0x22]"

lemma string_loop_escape:
  assumes "rest = [] \<or> isspace (hd rest)"
  shows "string_loop isspace prev word (escape s @ CHR 0x22 # rest) = (TOKEN (word @ s), strchug_fast isspace rest)"
  using assms by (induction s arbitrary: prev word) (auto simp: escape_def)

lemma tokenizer_next_quoted:
  "rest = [] \<or> isspace (hd rest) \<Longrightarrow>
   tokenizer_next_param isspace (quote s @ rest) = (TOKEN s, strchug_fast isspace rest)"
  by (simp add: tokenizer_next_param_def tokenizer_next_string_def quote_def string_loop_escape)

lemma word_loop_valid:
  assumes "list_all (\<lambda>c. valid c \<and> \<not> isspace c) s" "rest = [] \<or> isspace (hd rest)"
  shows "word_loop isspace valid err word (s @ rest) = (TOKEN (word @ s), strchug_fast isspace (tl rest))"
  using assms
proof (induction s arbitrary: word)
  case Nil
  then show ?case by (cases rest) (auto simp: strchug_fast_def)
qed auto

lemma tokenizer_next_plain:
  assumes "s \<noteq> []" "list_all (\<lambda>c. valid_unquoted_char c \<and> \<not> isspace c) s" "rest = [] \<or> isspace (hd rest)"
  shows "tokenizer_next_param isspace (s @ rest) = (TOKEN s, strchug_fast isspace (tl rest))"
proof (cases s)
  case (Cons c cs)
  with assms have "c \<noteq> CHR 0x22" by (auto simp: valid_unquoted_char_def)
  with Cons assms word_loop_valid [of valid_unquoted_char isspace cs rest TOKEN_ERR "[c]"] show ?thesis
    by (simp add: tokenizer_next_param_def tokenizer_next_unquoted_def)
qed (use assms in simp)

text \<open>Every parameter of a line, until the line ends or one of them is malformed.\<close>

fun tokenizer_params :: "nat \<Rightarrow> (char \<Rightarrow> bool) \<Rightarrow> string \<Rightarrow> string list \<times> token \<times> string" where
  "tokenizer_params 0 isspace input = ([], TOKEN_NULL, input)"
| "tokenizer_params (Suc n) isspace input =
     (case tokenizer_next_param isspace input of
        (TOKEN s, rest) \<Rightarrow> (case tokenizer_params n isspace rest of (ss, t) \<Rightarrow> (s # ss, t))
      | (t, rest) \<Rightarrow> ([], t, rest))"

text \<open>The parameters of a line, each in quotes or, where possible, without, and separated by blanks.\<close>

fun join_params :: "(bool \<times> string) list \<Rightarrow> string" where
  "join_params [] = []"
| "join_params [(q, s)] = (if q then quote s else s)"
| "join_params ((q, s) # ps) = (if q then quote s else s) @ CHR '' '' # join_params ps"

definition param_ok :: "(char \<Rightarrow> bool) \<Rightarrow> bool \<times> string \<Rightarrow> bool" where
  "param_ok isspace p \<longleftrightarrow> \<not> fst p \<longrightarrow>
     snd p \<noteq> [] \<and> list_all (\<lambda>c. valid_unquoted_char c \<and> \<not> isspace c) (snd p)"

lemma join_params_head:
  assumes "ps \<noteq> []" "\<forall>p \<in> set ps. param_ok isspace p" "\<not> isspace (CHR 0x22)"
  shows "strchug_fast isspace (join_params ps) = join_params ps"
proof (cases ps rule: join_params.cases)
  case (2 q s)
  with assms show ?thesis by (cases s) (auto simp: strchug_fast_def quote_def param_ok_def)
next
  case (3 q s p ps)
  with assms show ?thesis by (cases s) (auto simp: strchug_fast_def quote_def param_ok_def)
qed (use assms in simp)

lemma tokenizer_params_join:
  assumes "\<forall>p \<in> set ps. param_ok isspace p" "isspace (CHR '' '')" "\<not> isspace (CHR 0x22)" "length ps < n"
  shows "tokenizer_params n isspace (join_params ps) = (map snd ps, TOKEN_NULL, [])"
  using assms(1,4)
proof (induction ps arbitrary: n rule: join_params.induct)
  case 1
  then show ?case
    by (cases n) (auto simp: tokenizer_next_param_def tokenizer_next_unquoted_def)
next
  case (2 q s)
  then obtain m where m: "n = Suc (Suc m)" by (cases n; cases "n - 1") auto
  have "tokenizer_next_param isspace (if q then quote s else s) = (TOKEN s, [])"
    using tokenizer_next_quoted [of "[]" isspace s] tokenizer_next_plain [of s isspace "[]"] 2(1)
    by (auto simp: strchug_fast_def param_ok_def)
  with m show ?case by (simp add: tokenizer_next_param_def tokenizer_next_unquoted_def)
next
  case (3 q s p ps)
  then obtain m where m: "n = Suc m" "length (p # ps) < m" by (cases n) auto
  have "tokenizer_next_param isspace ((if q then quote s else s) @ CHR '' '' # join_params (p # ps)) =
      (TOKEN s, join_params (p # ps))"
    using tokenizer_next_quoted [of "CHR '' '' # join_params (p # ps)" isspace s] assms(2)
      tokenizer_next_plain [of s isspace "CHR '' '' # join_params (p # ps)"] 3(2)
      join_params_head [of "p # ps" isspace] assms(3)
    by (auto simp: strchug_fast_def param_ok_def)
  with 3 m show ?case by simp
qed

end
