(* ===== verification/C_String.thy ===== *)
theory C_String
  imports Mpd_Prelude "HOL-Library.Sublist"
begin

text \<open>
  The number formats of the C library that the program prints and parses: \<^verbatim>\<open>%u\<close> and \<^verbatim>\<open>%i\<close>,
  \<^verbatim>\<open>strtoul\<close>, \<^verbatim>\<open>strtol\<close> and \<^verbatim>\<open>atoi\<close> in base ten, with a \<^verbatim>\<open>long\<close> of 64 bits.  A conversion returns the
  value and the rest of the string; the rest is the whole string when there is nothing to convert.
\<close>

section \<open>Printing\<close>

definition digit_char :: "nat \<Rightarrow> char" where
  "digit_char d = char_of (d + 48)"

fun show_nat :: "nat \<Rightarrow> string" where
  "show_nat n = (if n < 10 then [digit_char n] else show_nat (n div 10) @ [digit_char (n mod 10)])"

declare show_nat.simps [simp del]

definition show_int :: "int \<Rightarrow> string" where
  "show_int i = (if i < 0 then CHR ''-'' # show_nat (nat (- i)) else show_nat (nat i))"

section \<open>Parsing\<close>

definition is_digit :: "char \<Rightarrow> bool" where
  "is_digit c \<longleftrightarrow> 48 \<le> (of_char c :: nat) \<and> (of_char c :: nat) \<le> 57"

definition digit_value :: "char \<Rightarrow> nat" where
  "digit_value c = of_char c - 48"

definition digits_value :: "string \<Rightarrow> nat" where
  "digits_value ds = foldl (\<lambda>v d. 10 * v + digit_value d) 0 ds"

text \<open>\<^verbatim>\<open>isspace\<close> in the C locale.\<close>

definition c_isspace :: "char \<Rightarrow> bool" where
  "c_isspace c \<longleftrightarrow> of_char c = (32 :: nat) \<or> 9 \<le> (of_char c :: nat) \<and> (of_char c :: nat) \<le> 13"

text \<open>White space, a sign, digits: whether the number is negative, its digits and what follows.\<close>

definition scan_number :: "string \<Rightarrow> bool \<times> string \<times> string" where
  "scan_number s =
     (let p = dropWhile c_isspace s;
          neg = (p \<noteq> [] \<and> hd p = CHR ''-'');
          p = (if p \<noteq> [] \<and> hd p \<in> {CHR ''-'', CHR ''+''} then tl p else p)
      in (neg, takeWhile is_digit p, dropWhile is_digit p))"

abbreviation ULONG_MAX :: nat where
  "ULONG_MAX \<equiv> 2 ^ 64 - 1"

definition strtoul :: "string \<Rightarrow> nat \<times> string" where
  "strtoul s = (case scan_number s of (neg, ds, rest) \<Rightarrow>
     if ds = [] then (0, s)
     else (if ULONG_MAX < digits_value ds then ULONG_MAX
           else if neg then (2 ^ 64 - digits_value ds) mod 2 ^ 64 else digits_value ds, rest))"

definition strtol :: "string \<Rightarrow> int \<times> string" where
  "strtol s = (case scan_number s of (neg, ds, rest) \<Rightarrow>
     if ds = [] then (0, s)
     else (if neg then max (- (2 ^ 63)) (- int (digits_value ds))
           else min (2 ^ 63 - 1) (int (digits_value ds)), rest))"

text \<open>The conversion of a \<^verbatim>\<open>long\<close> to an \<^verbatim>\<open>int\<close> keeps the low 32 bits.\<close>

definition atoi :: "string \<Rightarrow> int" where
  "atoi s = (let v = fst (strtol s) mod 2 ^ 32 in if v < 2 ^ 31 then v else v - 2 ^ 32)"

section \<open>What is printed is read back\<close>

definition stops_number :: "string \<Rightarrow> bool" where
  "stops_number rest \<longleftrightarrow> rest = [] \<or> \<not> is_digit (hd rest)"

lemma digit_char_digit [simp]: "d < 10 \<Longrightarrow> is_digit (digit_char d)" "d < 10 \<Longrightarrow> digit_value (digit_char d) = d"
  by (simp_all add: is_digit_def digit_char_def digit_value_def)

lemma show_nat_digits: "list_all is_digit (show_nat n)"
  by (induction n rule: show_nat.induct) (subst show_nat.simps, simp)

lemma show_nat_not_Nil [simp]: "show_nat n \<noteq> []"
  by (subst show_nat.simps) simp

lemma digits_value_show_nat: "digits_value (show_nat n) = n"
  by (induction n rule: show_nat.induct) (subst show_nat.simps, simp add: digits_value_def)

lemma takeWhile_show_nat:
  assumes "stops_number rest"
  shows "takeWhile is_digit (show_nat n @ rest) = show_nat n" "dropWhile is_digit (show_nat n @ rest) = rest"
  using show_nat_digits [of n] assms
  by (simp_all add: takeWhile_append dropWhile_append list_all_iff stops_number_def takeWhile_eq_Nil_iff)
     (cases rest; simp)

lemma digit_not_space: "is_digit c \<Longrightarrow> \<not> c_isspace c \<and> c \<noteq> CHR ''-'' \<and> c \<noteq> CHR ''+''"
  by (auto simp: is_digit_def c_isspace_def)

lemma scan_number_show_nat:
  assumes "stops_number rest"
  shows "scan_number (show_nat n @ rest) = (False, show_nat n, rest)"
proof -
  obtain d ds where d: "show_nat n = d # ds" by (cases "show_nat n") simp_all
  then have "is_digit d" using show_nat_digits [of n] by simp
  from digit_not_space [OF this] takeWhile_show_nat [OF assms, of n] d show ?thesis
    by (simp add: scan_number_def)
qed

lemma strtoul_show_nat: "stops_number rest \<Longrightarrow> n < 2 ^ 64 \<Longrightarrow> strtoul (show_nat n @ rest) = (n, rest)"
  by (simp add: strtoul_def scan_number_show_nat digits_value_show_nat)

lemma strtol_show_nat: "stops_number rest \<Longrightarrow> n < 2 ^ 63 \<Longrightarrow> strtol (show_nat n @ rest) = (int n, rest)"
  by (simp add: strtol_def scan_number_show_nat digits_value_show_nat min_def)

lemma atoi_show_nat: "n < 2 ^ 31 \<Longrightarrow> atoi (show_nat n) = int n"
  using strtol_show_nat [of "[]" n] by (simp add: atoi_def stops_number_def)

lemma strtol_show_int:
  assumes "stops_number rest" "- (2 ^ 63) \<le> i" "i < 2 ^ 63"
  shows "strtol (show_int i @ rest) = (i, rest)"
proof (cases "i < 0")
  case True
  have "scan_number (CHR ''-'' # show_nat (nat (- i)) @ rest) = (True, show_nat (nat (- i)), rest)"
    using takeWhile_show_nat [OF assms(1), of "nat (- i)"] by (simp add: scan_number_def c_isspace_def)
  with True assms(2) show ?thesis by (simp add: strtol_def show_int_def digits_value_show_nat)
next
  case False
  with strtol_show_nat [OF assms(1), of "nat i"] assms(3) show ?thesis by (simp add: show_int_def)
qed

text \<open>A conversion that reports success has consumed something.\<close>

lemma strtoul_rest_length: "strtoul s = (v, rest) \<Longrightarrow> rest \<noteq> s \<Longrightarrow> length rest < length s"
proof -
  assume s: "strtoul s = (v, rest)" "rest \<noteq> s"
  let ?p = "dropWhile c_isspace s"
  let ?q = "if ?p \<noteq> [] \<and> hd ?p \<in> {CHR ''-'', CHR ''+''} then tl ?p else ?p"
  from s have "takeWhile is_digit ?q \<noteq> []" "rest = dropWhile is_digit ?q"
    by (auto simp: strtoul_def scan_number_def Let_def split: if_splits)
  then have "length rest < length ?q"
    by (metis append_Nil length_append less_add_same_cancel2 takeWhile_dropWhile_id length_greater_0_conv)
  moreover have "length ?q \<le> length s"
    using length_dropWhile_le [of c_isspace s] by (auto intro: le_trans [OF diff_le_self])
  ultimately show "length rest < length s" by simp
qed

text \<open>How long a printed number is.\<close>

lemma length_show_nat: "n < 10 ^ k \<Longrightarrow> 0 < k \<Longrightarrow> length (show_nat n) \<le> k"
proof (induction n arbitrary: k rule: show_nat.induct)
  case (1 n)
  show ?case
  proof (cases "n < 10")
    case True
    with 1(3) show ?thesis by (subst show_nat.simps) simp
  next
    case False
    with 1(2) obtain j where j: "k = Suc j" "0 < j" by (cases k; cases "k - 1") auto
    with 1(2) have "n div 10 < 10 ^ j" by (simp add: less_mult_imp_div_less mult.commute)
    with 1(1) [OF False] j False show ?thesis by (subst show_nat.simps) auto
  qed
qed

end
