(* ===== verification/Audio_Parser.thy ===== *)
theory Audio_Parser
  imports Audio_Format C_String
begin

text \<open>
  Audio formats as text: \<^verbatim>\<open>src/audio_parser.c\<close> and \<^verbatim>\<open>src/audio_check.c\<close>, and \<^verbatim>\<open>audio_format_to_string\<close> of
  \<^verbatim>\<open>src/audio_format.c\<close>.  A function returns an error code or its results and the rest of the string.
  A \<^verbatim>\<open>memcmp\<close> with a literal is a prefix test.
\<close>

datatype audio_error = MPD_INVAL | MPD_MISS_VALUE

section \<open>Checks\<close>

text \<open>The argument is an \<^verbatim>\<open>unsigned long\<close>; \<open>audio_valid_sample_rate\<close> takes an \<^verbatim>\<open>unsigned\<close>.\<close>

definition audio_check_sample_rate :: "nat \<Rightarrow> audio_error option" where
  "audio_check_sample_rate sample_rate =
     (if audio_valid_sample_rate (of_nat sample_rate) then None else Some MPD_INVAL)"

definition audio_check_sample_format :: "sample_format \<Rightarrow> audio_error option" where
  "audio_check_sample_format f = (if audio_valid_sample_format f then None else Some MPD_INVAL)"

definition audio_check_channel_count :: "nat \<Rightarrow> audio_error option" where
  "audio_check_channel_count channels =
     (if audio_valid_channel_count (of_nat channels) then None else Some MPD_INVAL)"

definition audio_format_init_checked :: "nat \<Rightarrow> sample_format \<Rightarrow> nat \<Rightarrow> (audio_error + audio_format) option" where
  "audio_format_init_checked sample_rate f channels =
     (case audio_check_sample_rate sample_rate of Some e \<Rightarrow> Some (Inl e) | None \<Rightarrow>
      case audio_check_sample_format f of Some e \<Rightarrow> Some (Inl e) | None \<Rightarrow>
      case audio_check_channel_count channels of Some e \<Rightarrow> Some (Inl e) | None \<Rightarrow> do {
        let af = audio_format_init (of_nat sample_rate) f (of_nat channels);
        assert_that (audio_format_valid af);
        Some (Inr af)
      })"

section \<open>Parsing\<close>

definition parse_sample_rate :: "string \<Rightarrow> bool \<Rightarrow> audio_error + u32 \<times> string" where
  "parse_sample_rate src msk =
     (if msk \<and> src \<noteq> [] \<and> hd src = CHR ''*'' then Inr (0, tl src)
      else let (v, endptr) = strtoul src in
        if endptr = src then Inl MPD_INVAL
        else case audio_check_sample_rate v of Some e \<Rightarrow> Inl e | None \<Rightarrow> Inr (of_nat v, endptr))"

definition parse_sample_format :: "string \<Rightarrow> bool \<Rightarrow> audio_error + sample_format \<times> string" where
  "parse_sample_format src msk =
     (if msk \<and> src \<noteq> [] \<and> hd src = CHR ''*'' then Inr (SAMPLE_FORMAT_UNDEFINED, tl src)
      else if src \<noteq> [] \<and> hd src = CHR ''f'' then Inr (SAMPLE_FORMAT_FLOAT, tl src)
      else if prefix ''dsd'' src then Inr (SAMPLE_FORMAT_DSD, drop 3 src)
      else let (v, endptr) = strtoul src in
        if endptr = src then Inl MPD_INVAL
        else if v = 8 then Inr (SAMPLE_FORMAT_S8, endptr)
        else if v = 16 then Inr (SAMPLE_FORMAT_S16, endptr)
        else if v = 24 then Inr (SAMPLE_FORMAT_S24_P32, if prefix ''_3'' endptr then drop 2 endptr else endptr)
        else if v = 32 then Inr (SAMPLE_FORMAT_S32, endptr)
        else Inl MPD_INVAL)"

text \<open>The count is checked as an \<^verbatim>\<open>unsigned\<close> and stored as an \<^verbatim>\<open>uint8_t\<close>.\<close>

definition parse_channel_count :: "string \<Rightarrow> bool \<Rightarrow> audio_error + u8 \<times> string" where
  "parse_channel_count src msk =
     (if msk \<and> src \<noteq> [] \<and> hd src = CHR ''*'' then Inr (0, tl src)
      else let (v, endptr) = strtoul src in
        if endptr = src then Inl MPD_INVAL
        else case audio_check_channel_count v of Some e \<Rightarrow> Inl e | None \<Rightarrow> Inr (of_nat v, endptr))"

text \<open>The outer \<open>None\<close> is the failure of the final assertion.\<close>

definition audio_format_parse :: "string \<Rightarrow> bool \<Rightarrow> (audio_error + audio_format) option" where
  "audio_format_parse src msk =
     (case parse_sample_rate src msk of Inl e \<Rightarrow> Some (Inl e) | Inr (rate, src) \<Rightarrow>
      if src = [] \<or> hd src \<noteq> CHR '':'' then Some (Inl MPD_MISS_VALUE) else
      case parse_sample_format (tl src) msk of Inl e \<Rightarrow> Some (Inl e) | Inr (f, src) \<Rightarrow>
      if src = [] \<or> hd src \<noteq> CHR '':'' then Some (Inl MPD_MISS_VALUE) else
      case parse_channel_count (tl src) msk of Inl e \<Rightarrow> Some (Inl e) | Inr (channels, src) \<Rightarrow>
      if src \<noteq> [] then Some (Inl MPD_INVAL) else do {
        let dest = audio_format_init rate f channels;
        assert_that (if msk then audio_format_mask_valid dest else audio_format_valid dest);
        Some (Inr dest)
      })"

section \<open>Printing\<close>

text \<open>\<^verbatim>\<open>snprintf\<close> into a buffer of 24 bytes.\<close>

definition audio_format_to_string :: "audio_format \<Rightarrow> string" where
  "audio_format_to_string af = take 23 (show_nat (unat (af_sample_rate af)) @ '':'' @
     sample_format_to_string (af_format af) @ '':'' @ show_nat (unat (af_channels af)))"

section \<open>Properties\<close>

lemma unat_bounds: "unat (r :: u32) < 2 ^ 32" "unat (n :: u8) < 2 ^ 8"
  using unsigned_less [of r] unsigned_less [of n] by simp_all

text \<open>A valid channel count fits into its byte, although it is checked with 32 bits.\<close>

lemma channel_count_byte:
  assumes "audio_valid_channel_count (of_nat v)"
  shows "ucast (of_nat v :: u8) = (of_nat v :: u32)"
proof -
  have u: "unat (of_nat v :: u32) = v mod 2 ^ 32" "unat (of_nat v :: u8) = v mod 2 ^ 8"
    by (simp_all add: unat_of_nat take_bit_eq_mod)
  have "(v mod 2 ^ 32) mod 2 ^ 8 = v mod 2 ^ 8" by (rule mod_mod_cancel) simp
  moreover have "v mod 2 ^ 32 \<le> 8"
    using assms u(1) by (simp add: audio_valid_channel_count_def word_le_nat_alt)
  ultimately have "v mod 2 ^ 8 = v mod 2 ^ 32" by simp
  with u show ?thesis by (metis unat_ucast_u8_u32 word_unat_eq_iff)
qed

text \<open>The assertion at the end of the parser never fails: what it accepts is valid.\<close>

lemma parse_sample_rate_valid:
  "parse_sample_rate src msk = Inr (r, rest) \<Longrightarrow> msk \<and> r = 0 \<or> audio_valid_sample_rate r"
  by (auto simp: parse_sample_rate_def audio_check_sample_rate_def split: prod.splits if_splits)

lemma parse_sample_format_valid:
  "parse_sample_format src msk = Inr (f, rest) \<Longrightarrow> msk \<and> f = SAMPLE_FORMAT_UNDEFINED \<or> audio_valid_sample_format f"
  by (auto simp: parse_sample_format_def split: prod.splits if_splits)

lemma parse_channel_count_valid:
  "parse_channel_count src msk = Inr (n, rest) \<Longrightarrow> msk \<and> n = 0 \<or> audio_valid_channel_count (ucast n)"
  by (auto simp: parse_channel_count_def audio_check_channel_count_def channel_count_byte split: prod.splits if_splits)

lemma audio_format_parse_valid:
  "\<exists>r. audio_format_parse src msk = Some r \<and>
    (\<forall>af. r = Inr af \<longrightarrow> (if msk then audio_format_mask_valid af else audio_format_valid af))"
  using parse_sample_rate_valid [of src msk] parse_sample_format_valid [of _ msk] parse_channel_count_valid [of _ msk]
  by (auto simp: audio_format_parse_def audio_format_mask_valid_def audio_format_valid_def audio_format_init_def Let_def
      split: sum.split prod.split)

text \<open>What is printed for a valid format is read back as that format.\<close>

lemma audio_format_to_string_fits:
  assumes "audio_format_valid af"
  shows "audio_format_to_string af = show_nat (unat (af_sample_rate af)) @ '':'' @
     sample_format_to_string (af_format af) @ '':'' @ show_nat (unat (af_channels af))"
proof -
  have "unat (af_sample_rate af) < 10 ^ 10" "unat (af_channels af) < 10 ^ 3"
    using unat_bounds(1) [of "af_sample_rate af"] unat_bounds(2) [of "af_channels af"]
    by simp_all
  from this [THEN length_show_nat]
  have "length (show_nat (unat (af_sample_rate af))) \<le> 10" "length (show_nat (unat (af_channels af))) \<le> 3" by simp_all
  moreover have "length (sample_format_to_string (af_format af)) \<le> 3" by (cases "af_format af") simp_all
  ultimately show ?thesis by (simp add: audio_format_to_string_def)
qed

lemma stops_number_colon: "stops_number (CHR '':'' # s)" by (simp add: stops_number_def is_digit_def)

lemma show_nat_head [simp]: "hd (show_nat n) \<noteq> CHR ''*''" "[] \<noteq> show_nat n"
  using show_nat_digits [of n] show_nat_not_Nil [of n]
  by (cases "show_nat n"; auto simp: is_digit_def simp del: show_nat_not_Nil)+

lemma parse_sample_rate_print:
  assumes "audio_valid_sample_rate r"
  shows "parse_sample_rate (show_nat (unat r) @ CHR '':'' # s) msk = Inr (r, CHR '':'' # s)"
proof -
  have "unat r < 2 ^ 64" using unat_bounds(1) [of r] by simp
  with strtoul_show_nat [OF stops_number_colon] assms show ?thesis
    by (simp add: parse_sample_rate_def audio_check_sample_rate_def)
qed

lemma parse_channel_count_print:
  assumes "audio_valid_channel_count (ucast n)"
  shows "parse_channel_count (show_nat (unat n)) msk = Inr (n, [])"
proof -
  have "unat n < 2 ^ 64" using unat_bounds(2) [of n] by simp
  with strtoul_show_nat [of "[]" "unat n"] have "strtoul (show_nat (unat n)) = (unat n, [])" by (simp add: stops_number_def)
  moreover have "(of_nat (unat n) :: u32) = ucast n" by simp
  ultimately show ?thesis
    using assms
    by (simp add: parse_channel_count_def audio_check_channel_count_def)
qed

lemma parse_sample_format_print:
  assumes "audio_valid_sample_format f"
  shows "parse_sample_format (sample_format_to_string f @ CHR '':'' # s) msk = Inr (f, CHR '':'' # s)"
proof -
  have n: "show_nat 8 = ''8''" "show_nat 16 = ''16''" "show_nat 24 = ''24''" "show_nat 32 = ''32''" by code_simp+
  note r = strtoul_show_nat [OF stops_number_colon [of s]]
  show ?thesis
    using assms r [of 8] r [of 16] r [of 24] r [of 32]
    by (cases f) (simp_all add: parse_sample_format_def n)
qed

lemma audio_format_parse_print:
  assumes "audio_format_valid af"
  shows "audio_format_parse (audio_format_to_string af) msk = Some (Inr af)"
  using assms parse_sample_rate_print [of "af_sample_rate af"] parse_sample_format_print [of "af_format af"]
    parse_channel_count_print [of "af_channels af"]
  by (auto simp: audio_format_to_string_fits audio_format_parse_def audio_format_valid_def audio_format_init_def Let_def
      audio_format_mask_valid_def intro: audio_format.equality)

end
