(* ===== verification/Playqueue_Save.thy ===== *)
theory Playqueue_Save
  imports Playqueue_Moves Playqueue_Order Uri C_String
begin

text \<open>
  The queue in the state file: \<^verbatim>\<open>src/playqueue_save.c\<close>, and the line reader \<^verbatim>\<open>read_text_line\<close> of
  \<^verbatim>\<open>src/text_file.c\<close>.  A file is what is left to read of it, and writing appends to a string.

  The song database is a parameter: \<open>db uri\<close> is what \<^verbatim>\<open>db_get_song\<close> finds.  A song that is not in the
  database is allocated; \<open>heap\<close> is the address of the next allocation.
\<close>

section \<open>Reading lines\<close>

abbreviation nl :: char where
  "nl \<equiv> CHR 0x0A"

text \<open>
  The buffer grows in steps of 1024 bytes up to half a megabyte; a longer line is returned in pieces
  whose sizes depend on the allocator, which is not covered.  After the newline is taken off, the
  code looks at the character in front of it: there is none if the line is empty.
\<close>

definition max_line :: nat where
  "max_line = 512 * 1024 - 2 * 1024"

definition read_text_line :: "string \<Rightarrow> (string option \<times> string) option" where
  "read_text_line file =
     (if file = [] then Some (None, [])
      else do {
        let line = takeWhile (\<lambda>c. c \<noteq> nl) file;
        assert_that (length line < max_line);
        assert_that (line \<noteq> []);
        Some (Some (if last line = CHR 0x0D then butlast line else line),
              tl (dropWhile (\<lambda>c. c \<noteq> nl) file))
      })"

section \<open>Saving\<close>

abbreviation PRIO_LABEL :: string where
  "PRIO_LABEL \<equiv> ''Prio: ''"

definition queue_save_song :: "nat \<Rightarrow> song \<Rightarrow> string option" where
  "queue_save_song idx song = do {
     uri \<leftarrow> song_get_uri song;
     Some (show_nat idx @ '':'' @ uri @ [nl])
   }"

definition queue_save :: "'g queue \<Rightarrow> string \<Rightarrow> string option" where
  "queue_save q fp = do {
     n \<leftarrow> queue_length q;
     for_each (\<lambda>i fp. do {
         prio \<leftarrow> queue_get_priority_at_position q i;
         song \<leftarrow> queue_get q i;
         line \<leftarrow> queue_save_song i song;
         Some (fp @ (if prio \<noteq> 0 then PRIO_LABEL @ show_nat (unat prio) @ [nl] else []) @ line)
       }) [0..<n] fp
   }"

section \<open>Loading\<close>

definition get_song :: "(string \<Rightarrow> song option) \<Rightarrow> nat \<Rightarrow> string \<Rightarrow> (song option \<times> nat) option" where
  "get_song db heap uri =
     (if uri_has_scheme uri then do {
        song \<leftarrow> song_remote_new heap uri;
        Some (Some song, heap + 1)
      }
      else Some (db uri, heap))"

text \<open>The song on a line that has been read; \<open>priority\<close> comes from the line before.\<close>

definition load_song_line ::
    "(string \<Rightarrow> song option) \<Rightarrow> string \<Rightarrow> u8 \<Rightarrow> 'g queue \<times> nat \<Rightarrow> ('g queue \<times> nat) option" where
  "load_song_line db line priority = (\<lambda>(q, heap).
     let (ret, endptr) = strtol line in
     if ret < 0 \<or> endptr = [] \<or> hd endptr \<noteq> CHR '':'' \<or> tl endptr = [] then Some (q, heap)
     else do {
       (song, heap) \<leftarrow> get_song db heap (tl endptr);
       case song of
         None \<Rightarrow> Some (q, heap)
       | Some song \<Rightarrow> do {
           (_, q) \<leftarrow> queue_append q song priority;
           Some (q, heap)
         }
     })"

definition queue_load_song ::
    "(string \<Rightarrow> song option) \<Rightarrow> string \<Rightarrow> string \<Rightarrow> 'g queue \<times> nat \<Rightarrow> (string \<times> 'g queue \<times> nat) option" where
  "queue_load_song db fp line = (\<lambda>(q, heap). do {
     full \<leftarrow> queue_is_full q;
     if full then Some (fp, q, heap)
     else if prefix PRIO_LABEL line then do {
       let priority = of_nat (fst (strtoul (drop (length PRIO_LABEL) line)));
       (line, fp) \<leftarrow> read_text_line fp;
       case line of
         None \<Rightarrow> Some (fp, q, heap)
       | Some line \<Rightarrow> do {
           r \<leftarrow> load_song_line db line priority (q, heap);
           Some (fp, r)
         }
     }
     else do {
       r \<leftarrow> load_song_line db line 0 (q, heap);
       Some (fp, r)
     }
   })"

text \<open>The loop of \<^verbatim>\<open>playlist_state_load\<close> (\<^verbatim>\<open>src/playlist_state.c\<close>), from a line that has been read.\<close>

partial_function (option) load_songs ::
    "(string \<Rightarrow> song option) \<Rightarrow> string \<Rightarrow> string \<Rightarrow> 'g queue \<times> nat \<Rightarrow> (string \<times> 'g queue \<times> nat) option" where
  "load_songs db fp line st =
     (if prefix ''playlist_end'' line then Some (fp, st)
      else queue_load_song db fp line st \<bind> (\<lambda>(fp, st).
        read_text_line fp \<bind> (\<lambda>(line, fp). case line of
            None \<Rightarrow> Some (fp, st)
          | Some line \<Rightarrow> load_songs db fp line st)))"

section \<open>A saved queue is loaded again\<close>

text \<open>Lines that are read back as they were written.\<close>

definition plain_line :: "string \<Rightarrow> bool" where
  "plain_line l \<longleftrightarrow> l \<noteq> [] \<and> nl \<notin> set l \<and> last l \<noteq> CHR 0x0D \<and> length l < max_line"

lemma read_text_line_plain:
  assumes "plain_line l"
  shows "read_text_line (l @ nl # rest) = Some (Some l, rest)"
proof -
  have "takeWhile (\<lambda>c. c \<noteq> nl) (l @ nl # rest) = l" "dropWhile (\<lambda>c. c \<noteq> nl) (l @ nl # rest) = nl # rest"
    using assms by (auto simp: plain_line_def takeWhile_append dropWhile_append)
  with assms show ?thesis by (simp add: read_text_line_def plain_line_def)
qed

text \<open>
  A song that survives: its URI fits on a line, and looking it up again gives a song with that URI.
\<close>

definition uri_ok :: "string \<Rightarrow> bool" where
  "uri_ok u \<longleftrightarrow> u \<noteq> [] \<and> nl \<notin> set u \<and> last u \<noteq> CHR 0x0D \<and> length u < max_line - 20"

definition found_again :: "(string \<Rightarrow> song option) \<Rightarrow> string \<Rightarrow> bool" where
  "found_again db u \<longleftrightarrow> uri_ok u \<and>
     (uri_has_scheme u \<or> (\<exists>s. db u = Some s \<and> song_get_uri s = Some u \<and> s_uri s \<noteq> []))"

lemma get_song_found:
  assumes "found_again db u"
  shows "\<exists>s heap'. get_song db heap u = Some (Some s, heap') \<and> song_get_uri s = Some u \<and> s_uri s \<noteq> []"
  using assms
  by (auto simp: found_again_def uri_ok_def get_song_def song_remote_new_def song_alloc_def song_get_uri_def)

text \<open>The lines of the songs, numbered from \<open>i\<close>.\<close>

fun songs_text :: "nat \<Rightarrow> (string \<times> u8) list \<Rightarrow> string" where
  "songs_text i [] = []"
| "songs_text i ((u, p) # xs) =
     (if p \<noteq> 0 then PRIO_LABEL @ show_nat (unat p) @ [nl] else []) @ (show_nat i @ '':'' @ u) @ nl # songs_text (i + 1) xs"

text \<open>What a queue looks like to the state file.\<close>

definition saved_view :: "'g queue \<Rightarrow> (string \<times> u8) list" where
  "saved_view q = map (\<lambda>(s, _, p). (the (song_get_uri s), p)) (queue_view q)"

lemma songs_text_append: "songs_text i (xs @ ys) = songs_text i xs @ songs_text (i + length xs) ys"
  by (induction i xs rule: songs_text.induct) auto

lemma queue_save_text:
  assumes "queue_wf q" "\<forall>k \<in> set (queue_view q). s_uri (fst k) \<noteq> []"
  shows "queue_save q fp = Some (fp @ songs_text 0 (saved_view q))"
proof -
  let ?body = "\<lambda>i fp. do {
         prio \<leftarrow> queue_get_priority_at_position q i;
         song \<leftarrow> queue_get q i;
         line \<leftarrow> queue_save_song i song;
         Some (fp @ (if prio \<noteq> 0 then PRIO_LABEL @ show_nat (unat prio) @ [nl] else []) @ line)
       }"
  let ?F = "\<lambda>i. fp @ songs_text 0 (take i (saved_view q))"
  have len: "length (saved_view q) = q_length q" using assms(1) by (simp add: saved_view_def length_queue_view)
  have "?body i (?F i) = Some (?F (Suc i))" if i: "i < q_length q" for i
  proof -
    let ?it = "q_items q ! i"
    have v: "queue_view q ! i = item_key ?it" using assms(1) i by (rule nth_queue_view)
    then have "item_key ?it \<in> set (queue_view q)" using i assms(1) by (metis nth_mem length_queue_view)
    with assms(2) obtain u where u: "song_get_uri (qi_song ?it) = Some u"
      by (auto simp: song_get_uri_def item_key_def)
    then have "saved_view q ! i = (u, qi_priority ?it)"
      using i v len assms(1) by (simp add: saved_view_def length_queue_view item_key_def)
    moreover have "queue_get_priority_at_position q i = Some (qi_priority ?it)"
      using assms(1) i by (simp add: queue_get_priority_at_position_def)
    ultimately show ?thesis
      using i assms(1) len u
      by (simp add: queue_save_song_def take_Suc_conv_app_nth songs_text_append)
  qed
  from for_each_upt_eq [of 0 "q_length q" ?body ?F, OF _ this] show ?thesis
    using assms(1) len by (simp add: queue_save_def)
qed

lemma show_nat_chars: "c \<in> set (show_nat n) \<Longrightarrow> is_digit c"
  using show_nat_digits [of n] by (simp add: list_all_iff)

lemma show_nat_no_nl: "nl \<notin> set (show_nat n)" "last (show_nat n) \<noteq> CHR 0x0D"
  using show_nat_chars [of nl n] show_nat_chars [of "last (show_nat n)" n] by (auto simp: is_digit_def)

lemma plain_song_line:
  assumes "uri_ok u" "i < 10 ^ 10"
  shows "plain_line (show_nat i @ '':'' @ u)"
  using assms length_show_nat [OF assms(2)] show_nat_no_nl [of i]
  by (auto simp: plain_line_def uri_ok_def max_line_def)

lemma plain_prio_line: "plain_line (PRIO_LABEL @ show_nat (unat (p :: u8)))"
proof -
  have "unat p < 10 ^ 3" using unsigned_less [of p, where ?'a = nat] by simp
  from length_show_nat [OF this] show ?thesis
    using show_nat_no_nl [of "unat p"] by (auto simp: plain_line_def max_line_def)
qed

lemma show_nat_not_letter: "\<not> is_digit c \<Longrightarrow> \<not> prefix (c # cs) (show_nat n @ s)"
  using show_nat_digits [of n] by (cases "show_nat n") auto

lemma load_song_line_appends:
  assumes "queue_wf q" "q_length q < q_max_length q" "found_again db u" "i < 2 ^ 63"
  shows "\<exists>s sid heap'. load_song_line db (show_nat i @ '':'' @ u) p (q, heap) = Some (appended q s p sid, heap') \<and>
    queue_wf (appended q s p sid) \<and> queue_view (appended q s p sid) = queue_view q @ [(s, sid, p)] \<and>
    song_get_uri s = Some u \<and> s_uri s \<noteq> []"
proof -
  obtain s heap' where s: "get_song db heap u = Some (Some s, heap')" "song_get_uri s = Some u" "s_uri s \<noteq> []"
    using get_song_found [OF assms(3)] by blast
  obtain sid where sid: "sid < length (q_id_to_position q)" "q_id_to_position q ! sid = -1"
      "queue_append q s p = Some (sid, appended q s p sid)"
    using queue_append_eq [OF assms(1,2)] .
  have "u \<noteq> []" using assms(3) by (simp add: found_again_def uri_ok_def)
  moreover have "strtol (show_nat i @ '':'' @ u) = (int i, '':'' @ u)"
    using assms(4) by (intro strtol_show_nat) (simp_all add: stops_number_def is_digit_def)
  ultimately have "load_song_line db (show_nat i @ '':'' @ u) p (q, heap) = Some (appended q s p sid, heap')"
    using s sid by (simp add: load_song_line_def)
  then show ?thesis
    using appended_wf [OF assms(1,2) sid(1,2)] queue_view_appended [OF assms(1,2)] s by blast
qed

text \<open>Reading on from the next line, as \<^verbatim>\<open>playlist_state_load\<close> does at first and after every song.\<close>

definition load_from :: "(string \<Rightarrow> song option) \<Rightarrow> string \<Rightarrow> 'g queue \<times> nat \<Rightarrow> (string \<times> 'g queue \<times> nat) option" where
  "load_from db fp st = read_text_line fp \<bind> (\<lambda>(line, fp). case line of
     None \<Rightarrow> Some (fp, st)
   | Some line \<Rightarrow> load_songs db fp line st)"

definition options_same :: "'g queue \<Rightarrow> 'g queue \<Rightarrow> bool" where
  "options_same q q' \<longleftrightarrow> q_max_length q' = q_max_length q \<and> q_version q' = q_version q \<and> q_repeat q' = q_repeat q \<and>
     q_single q' = q_single q \<and> q_consume q' = q_consume q \<and> q_random q' = q_random q"

lemma options_same_appended: "options_same q (appended q s p sid)"
  by (simp add: options_same_def appended_def)

lemma load_songs_song:
  assumes "queue_wf q" "q_length q < q_max_length q" "found_again db u" "i < 10 ^ 10"
  shows "\<exists>s sid heap'. load_from db (songs_text i [(u, p)] @ rest) (q, heap) = load_from db rest (appended q s p sid, heap') \<and>
    queue_wf (appended q s p sid) \<and> queue_view (appended q s p sid) = queue_view q @ [(s, sid, p)] \<and>
    song_get_uri s = Some u \<and> s_uri s \<noteq> []"
proof -
  let ?l = "show_nat i @ '':'' @ u"
  have i: "i < 2 ^ 63" using assms(4) by simp
  obtain s sid heap' where s: "load_song_line db ?l p (q, heap) = Some (appended q s p sid, heap')"
      "queue_wf (appended q s p sid)" "queue_view (appended q s p sid) = queue_view q @ [(s, sid, p)]"
      "song_get_uri s = Some u" "s_uri s \<noteq> []"
    using load_song_line_appends [OF assms(1-3) i] by blast
  have uri: "uri_ok u" using assms(3) by (simp add: found_again_def)
  have song: "read_text_line (?l @ nl # rest) = Some (Some ?l, rest)"
    using plain_song_line [OF uri assms(4)] by (rule read_text_line_plain)
  have letters: "\<not> is_digit CHR ''p''" "\<not> is_digit CHR ''P''" by (simp_all add: is_digit_def)
  show ?thesis
  proof (cases "p = 0")
    case True
    have "load_songs db rest ?l (q, heap) = load_from db rest (appended q s p sid, heap')"
      using s True assms(1,2) show_nat_not_letter [OF letters(1)] show_nat_not_letter [OF letters(2)]
      by (subst load_songs.simps) (simp add: queue_load_song_def load_from_def)
    with song s(2-) True show ?thesis by (auto simp: load_from_def)
  next
    case False
    let ?p = "PRIO_LABEL @ show_nat (unat p)"
    have "strtoul (show_nat (unat p)) = (unat p, [])"
      using strtoul_show_nat [of "[]" "unat p"] unsigned_less [of p, where ?'a = nat] by (simp add: stops_number_def)
    moreover have "read_text_line (?p @ nl # ?l @ nl # rest) = Some (Some ?p, ?l @ nl # rest)"
      using plain_prio_line by (rule read_text_line_plain)
    moreover have "load_songs db (?l @ nl # rest) ?p (q, heap) = load_from db rest (appended q s p sid, heap')"
      using calculation(1) song s(1) assms(1,2)
      by (subst load_songs.simps) (simp add: queue_load_song_def load_from_def)
    ultimately show ?thesis using s(2-) False by (auto simp: load_from_def)
  qed
qed

lemma load_from_saved:
  assumes "queue_wf q" "q_length q + length xs \<le> q_max_length q" "\<forall>x \<in> set xs. found_again db (fst x)"
    "i + length xs < 10 ^ 10"
  shows "\<exists>q' heap'. load_from db (songs_text i xs @ ''playlist_end'' @ nl # rest) (q, heap) = Some (rest, q', heap') \<and>
    queue_wf q' \<and> options_same q q' \<and> saved_view q' = saved_view q @ xs \<and>
    ((\<forall>k \<in> set (queue_view q). s_uri (fst k) \<noteq> []) \<longrightarrow> (\<forall>k \<in> set (queue_view q'). s_uri (fst k) \<noteq> [])) \<and>
    (play_order q = [0..<q_length q] \<longrightarrow> play_order q' = [0..<q_length q'])"
  using assms
proof (induction xs arbitrary: i q heap)
  case Nil
  have "plain_line ''playlist_end''" by (simp add: plain_line_def max_line_def)
  then have "load_from db (''playlist_end'' @ nl # rest) (q, heap) = Some (rest, q, heap)"
    by (simp only: load_from_def read_text_line_plain) (simp add: load_songs.simps)
  with Nil show ?case by (simp add: options_same_def)
next
  case (Cons x xs)
  obtain u p where x: "x = (u, p)" by force
  have l: "q_length q < q_max_length q" "found_again db u" "i < 10 ^ 10" using Cons.prems x by simp_all
  let ?rest = "songs_text (i + 1) xs @ ''playlist_end'' @ nl # rest"
  obtain s sid heap' where s: "load_from db (songs_text i [(u, p)] @ ?rest) (q, heap) = load_from db ?rest (appended q s p sid, heap')"
      "queue_wf (appended q s p sid)" "queue_view (appended q s p sid) = queue_view q @ [(s, sid, p)]"
      "song_get_uri s = Some u" "s_uri s \<noteq> []"
    using load_songs_song [OF Cons.prems(1) l, of p ?rest heap] by blast
  have "q_length (appended q s p sid) = q_length q + 1" "q_max_length (appended q s p sid) = q_max_length q"
    by (simp_all add: appended_def)
  with Cons.IH [OF s(2), of "i + 1" heap'] Cons.prems obtain q' h' where
    IH: "load_from db ?rest (appended q s p sid, heap') = Some (rest, q', h')" "queue_wf q'"
      "options_same (appended q s p sid) q'" "saved_view q' = saved_view (appended q s p sid) @ xs"
      "(\<forall>k \<in> set (queue_view (appended q s p sid)). s_uri (fst k) \<noteq> []) \<longrightarrow> (\<forall>k \<in> set (queue_view q'). s_uri (fst k) \<noteq> [])"
      "play_order (appended q s p sid) = [0..<q_length (appended q s p sid)] \<longrightarrow> play_order q' = [0..<q_length q']"
    by auto
  have "play_order (appended q s p sid) = play_order q @ [q_length q]"
    using l(1) queue_wfD [OF Cons.prems(1)] by (simp add: play_order_def appended_def take_Suc_conv_app_nth)
  then have ord: "play_order q = [0..<q_length q] \<longrightarrow> play_order q' = [0..<q_length q']"
    using IH(6) by (simp add: appended_def)
  have "options_same q q'" using IH(3) options_same_appended [of q s p sid] by (simp add: options_same_def)
  moreover have "saved_view q' = saved_view q @ x # xs" using IH(4) s(3,4) x by (simp add: saved_view_def)
  ultimately show ?case using IH s x ord by auto
qed

end
