(* ===== verification/Playlist_State.thy ===== *)
theory Playlist_State
  imports Playlist_Control Playqueue_Save
begin

unbundle bit_operations_syntax

text \<open>
  The playlist in the state file, \<^verbatim>\<open>src/playlist_state.c\<close>.  The environment \<open>E\<close> gives the song database, the
  \<^verbatim>\<open>%f\<close> and \<^verbatim>\<open>atof\<close> of the C library, where \<open>None\<close> is a NaN, and the option \<^verbatim>\<open>restore_paused\<close>.
\<close>

record state_env =
  se_db :: "string \<Rightarrow> song option"
  se_show_float :: "real option \<Rightarrow> string"
  se_atof :: "string \<Rightarrow> real option"
  se_restore_paused :: bool

abbreviation show_bool :: "bool \<Rightarrow> string" where
  "show_bool b \<equiv> (if b then ''1'' else ''0'')"

section \<open>Saving\<close>

definition state_lines :: "state_env \<Rightarrow> 'g playlist \<Rightarrow> 't player_control \<Rightarrow> string list" where
  "state_lines E pl pc =
     [''random: '' @ show_bool (q_random (pl_queue pl)),
      ''repeat: '' @ show_bool (q_repeat (pl_queue pl)),
      ''single: '' @ show_bool (q_single (pl_queue pl)),
      ''consume: '' @ show_bool (q_consume (pl_queue pl)),
      ''crossfade: '' @ show_int (c_trunc (pc_get_cross_fade pc)),
      ''mixrampdb: '' @ se_show_float E (Some (pc_get_mixramp_db pc)),
      ''mixrampdelay: '' @ se_show_float E (pc_get_mixramp_delay pc),
      ''playlist_begin'']"

definition put_lines :: "string list \<Rightarrow> string" where
  "put_lines ls = concat (map (\<lambda>l. l @ [nl]) ls)"

text \<open>\<open>status\<close> is the uninitialised local structure that \<^verbatim>\<open>pc_get_status\<close> fills.\<close>

definition playlist_state_save ::
    "state_env \<Rightarrow> 't player_thread \<Rightarrow> 'g playlist \<Rightarrow> 't player_control \<Rightarrow> player_status \<Rightarrow> string \<Rightarrow>
     (string \<times> 't player_control) option" where
  "playlist_state_save E PT pl pc status fp = do {
     (status, pc) \<leftarrow> pc_get_status PT pc status;
     head \<leftarrow> (if pl_playing pl then do {
         p \<leftarrow> order_to_position pl (pl_current pl);
         Some [''state: '' @ (if st_state status = PLAYER_STATE_PAUSE then ''pause'' else ''play''),
               ''current: '' @ show_nat p, ''time: '' @ show_int (c_trunc (st_elapsed_time status))]
       }
       else if 0 \<le> pl_current pl then do {
         p \<leftarrow> order_to_position pl (pl_current pl);
         Some [''state: stop'', ''current: '' @ show_nat p]
       }
       else Some [''state: stop'']);
     fp \<leftarrow> queue_save (pl_queue pl) (fp @ put_lines (head @ state_lines E pl pc));
     Some (fp @ ''playlist_end'' @ [nl], pc)
   }"

section \<open>Restoring\<close>

text \<open>The files, the next address to allocate and the local variables of \<^verbatim>\<open>playlist_state_restore\<close>.\<close>

record restore_state =
  rs_fp :: string
  rs_heap :: nat
  rs_current :: int
  rs_seek_time :: int
  rs_random_mode :: bool

definition playlist_state_load ::
    "state_env \<Rightarrow> string \<Rightarrow> nat \<Rightarrow> 'g playlist \<Rightarrow> (string \<times> nat \<times> 'g playlist) option" where
  "playlist_state_load E fp heap pl = do {
     (line, fp) \<leftarrow> read_text_line fp;
     case line of
       None \<Rightarrow> Some (fp, heap, pl)
     | Some line \<Rightarrow> do {
         (fp, q, heap) \<leftarrow> load_songs (se_db E) fp line (pl_queue pl, heap);
         q \<leftarrow> queue_increment_version q;
         Some (fp, heap, pl\<lparr>pl_queue := q\<rparr>)
       }
   }"

definition after_label :: "string \<Rightarrow> string \<Rightarrow> string" where
  "after_label label line = drop (length label) line"

text \<open>One line of the state file.\<close>

definition restore_line ::
    "state_env \<Rightarrow> 'g glib \<Rightarrow> 't player_thread \<Rightarrow> string \<Rightarrow> restore_state \<Rightarrow> 'g playlist \<Rightarrow> 't player_control \<Rightarrow>
     (restore_state \<times> ('g, 't) pstate) option" where
  "restore_line E G PT line rs pl pc =
     (if prefix ''time: '' line then Some (rs\<lparr>rs_seek_time := atoi (after_label ''time: '' line)\<rparr>, pl, pc)
      else if prefix ''repeat: '' line then
        map_option (Pair rs) (playlist_set_repeat G PT pl pc (after_label ''repeat: '' line = ''1''))
      else if prefix ''single: '' line then
        map_option (Pair rs) (playlist_set_single G PT pl pc (after_label ''single: '' line = ''1''))
      else if prefix ''consume: '' line then
        map_option (Pair rs) (playlist_set_consume pl pc (after_label ''consume: '' line = ''1''))
      else if prefix ''crossfade: '' line then do {
        pc \<leftarrow> pc_set_cross_fade pc (of_int (atoi (after_label ''crossfade: '' line)));
        Some (rs, pl, pc)
      }
      else if prefix ''mixrampdb: '' line then do {
        db \<leftarrow> se_atof E (after_label ''mixrampdb: '' line);
        pc \<leftarrow> pc_set_mixramp_db pc db;
        Some (rs, pl, pc)
      }
      else if prefix ''mixrampdelay: '' line then do {
        pc \<leftarrow> pc_set_mixramp_delay pc (se_atof E (after_label ''mixrampdelay: '' line));
        Some (rs, pl, pc)
      }
      else if prefix ''random: '' line then
        Some (rs\<lparr>rs_random_mode := (after_label ''random: '' line = ''1'')\<rparr>, pl, pc)
      else if prefix ''current: '' line then
        Some (rs\<lparr>rs_current := atoi (after_label ''current: '' line)\<rparr>, pl, pc)
      else if prefix ''playlist_begin'' line then do {
        (fp, heap, pl) \<leftarrow> playlist_state_load E (rs_fp rs) (rs_heap rs) pl;
        Some (rs\<lparr>rs_fp := fp, rs_heap := heap\<rparr>, pl, pc)
      }
      else Some (rs, pl, pc))"

partial_function (option) restore_lines ::
    "state_env \<Rightarrow> 'g glib \<Rightarrow> 't player_thread \<Rightarrow> restore_state \<Rightarrow> 'g playlist \<Rightarrow> 't player_control \<Rightarrow>
     (restore_state \<times> ('g, 't) pstate) option" where
  "restore_lines E G PT rs pl pc =
     read_text_line (rs_fp rs) \<bind> (\<lambda>(line, fp). case line of
         None \<Rightarrow> Some (rs\<lparr>rs_fp := fp\<rparr>, pl, pc)
       | Some line \<Rightarrow> restore_line E G PT line (rs\<lparr>rs_fp := fp\<rparr>) pl pc \<bind> (\<lambda>(rs, pl, pc).
           restore_lines E G PT rs pl pc))"

text \<open>After the last line: the mode, the current song and playback.\<close>

definition restore_playback ::
    "state_env \<Rightarrow> 'g glib \<Rightarrow> 't player_thread \<Rightarrow> player_state \<Rightarrow> int \<Rightarrow> int \<Rightarrow> 'g playlist \<Rightarrow> 't player_control \<Rightarrow>
     ('g, 't) pstate option" where
  "restore_playback E G PT state current seek_time pl pc =
     (if queue_is_empty (pl_queue pl) then Some (pl, pc)
      else do {
        let current = (if \<not> queue_valid_position (pl_queue pl) (to_unsigned current) then 0 else current);
        let state = (if state = PLAYER_STATE_PLAY \<and> se_restore_paused E then PLAYER_STATE_PAUSE else state);
        pc \<leftarrow> (if state \<noteq> PLAYER_STATE_STOP then pc_update_audio PT pc else Some pc);
        (pl, pc) \<leftarrow> (if state = PLAYER_STATE_STOP then Some (pl\<lparr>pl_current := current\<rparr>, pc)
          else if seek_time = 0 then map_option snd (playlist_play PT pl pc current)
          else map_option snd (playlist_seek_song G PT pl pc (to_unsigned current) (of_int seek_time)));
        pc \<leftarrow> (if state = PLAYER_STATE_PAUSE then pc_pause PT pc else Some pc);
        Some (pl, pc)
      })"

definition playlist_state_restore ::
    "state_env \<Rightarrow> 'g glib \<Rightarrow> 't player_thread \<Rightarrow> string \<Rightarrow> string \<Rightarrow> nat \<Rightarrow> 'g playlist \<Rightarrow> 't player_control \<Rightarrow>
     (bool \<times> string \<times> ('g, 't) pstate) option" where
  "playlist_state_restore E G PT line fp heap pl pc =
     (if \<not> prefix ''state: '' line then Some (False, fp, pl, pc)
      else do {
        let state = (if after_label ''state: '' line = ''play'' then PLAYER_STATE_PLAY
          else if after_label ''state: '' line = ''pause'' then PLAYER_STATE_PAUSE else PLAYER_STATE_STOP);
        (rs, pl, pc) \<leftarrow> restore_lines E G PT
          \<lparr>rs_fp = fp, rs_heap = heap, rs_current = -1, rs_seek_time = 0, rs_random_mode = False\<rparr> pl pc;
        (pl, pc) \<leftarrow> playlist_set_random G PT pl pc (rs_random_mode rs);
        (pl, pc) \<leftarrow> restore_playback E G PT state (rs_current rs) (rs_seek_time rs) pl pc;
        Some (True, rs_fp rs, pl, pc)
      })"

section \<open>The hash that tells whether the state has to be saved\<close>

fun player_state_number :: "player_state \<Rightarrow> u32" where
  "player_state_number PLAYER_STATE_STOP = 0"
| "player_state_number PLAYER_STATE_PAUSE = 1"
| "player_state_number PLAYER_STATE_PLAY = 2"

definition playlist_state_get_hash ::
    "'t player_thread \<Rightarrow> 'g playlist \<Rightarrow> 't player_control \<Rightarrow> player_status \<Rightarrow> (u32 \<times> 't player_control) option" where
  "playlist_state_get_hash PT pl pc status = do {
     (status, pc) \<leftarrow> pc_get_status PT pc status;
     position \<leftarrow> (if 0 \<le> pl_current pl then order_to_position pl (pl_current pl) else Some 0);
     Some (q_version (pl_queue pl) XOR
       (if st_state status \<noteq> PLAYER_STATE_STOP then push_bit 8 (of_int (c_trunc (st_elapsed_time status))) else 0) XOR
       push_bit 16 (of_nat position) XOR
       push_bit 20 (of_int (c_trunc (pc_get_cross_fade pc))) XOR
       push_bit 24 (player_state_number (st_state status)) XOR
       push_bit 27 (of_bool (q_random (pl_queue pl))) XOR
       push_bit 28 (of_bool (q_repeat (pl_queue pl))) XOR
       push_bit 29 (of_bool (q_single (pl_queue pl))) XOR
       push_bit 30 (of_bool (q_consume (pl_queue pl))) XOR
       push_bit 31 (of_bool (q_random (pl_queue pl))), pc)
   }"

section \<open>A saved playlist is restored\<close>

text \<open>A playlist that is not playing changes its options without the player.\<close>

lemma stopped_set_options:
  assumes "\<not> pl_playing pl"
  shows "\<exists>pc'. playlist_set_repeat G PT pl pc b = Some (pl\<lparr>pl_queue := (pl_queue pl)\<lparr>q_repeat := b\<rparr>\<rparr>, pc')"
    "\<exists>pc'. playlist_set_single G PT pl pc b = Some (pl\<lparr>pl_queue := (pl_queue pl)\<lparr>q_single := b\<rparr>\<rparr>, pc')"
    "\<exists>pc'. playlist_set_consume pl pc b = Some (pl\<lparr>pl_queue := (pl_queue pl)\<lparr>q_consume := b\<rparr>\<rparr>, pc')"
  using assms
  by (auto simp: playlist_set_repeat_def playlist_set_single_def playlist_set_consume_def playlist_get_queued_song_def
      playlist_update_queued_song_def pc_idle_add_eq)

lemma restore_lines_step:
  assumes "rs_fp rs = l @ nl # rest" "plain_line l"
  shows "restore_lines E G PT rs pl pc =
    restore_line E G PT l (rs\<lparr>rs_fp := rest\<rparr>) pl pc \<bind> (\<lambda>(rs, pl, pc). restore_lines E G PT rs pl pc)"
  by (subst restore_lines.simps) (simp add: assms(1) read_text_line_plain [OF assms(2)])

text \<open>The printed numbers are lines, and what \<^verbatim>\<open>%f\<close> prints is a number.\<close>

definition float_text_ok :: "state_env \<Rightarrow> bool" where
  "float_text_ok E \<longleftrightarrow> (\<forall>r. plain_line (''mixrampdelay: '' @ se_show_float E r) \<and> plain_line (''mixrampdb: '' @ se_show_float E r) \<and>
     (r \<noteq> None \<longrightarrow> se_atof E (se_show_float E r) \<noteq> None))"

lemma plain_bool_line: "plain_line (label @ show_bool b)" if "plain_line (label @ ''0'')" for label
  using that by (auto simp: plain_line_def)

lemma plain_cross_fade:
  assumes "\<bar>i\<bar> < 2 ^ 31" shows "plain_line (''crossfade: '' @ show_int i)"
proof -
  have "nat \<bar>i\<bar> < 10 ^ 10" using assms by simp
  from length_show_nat [OF this] show ?thesis
    using show_nat_no_nl [of "nat (- i)"] show_nat_no_nl [of "nat i"] show_nat_not_Nil [of "nat (- i)"] show_nat_not_Nil [of "nat i"]
    by (auto simp: plain_line_def show_int_def max_line_def split: if_splits)
qed

lemma restore_line_option:
  "restore_line E G PT (''random: '' @ show_bool b) rs pl pc = Some (rs\<lparr>rs_random_mode := b\<rparr>, pl, pc)"
  "restore_line E G PT (''repeat: '' @ show_bool b) rs pl pc = map_option (Pair rs) (playlist_set_repeat G PT pl pc b)"
  "restore_line E G PT (''single: '' @ show_bool b) rs pl pc = map_option (Pair rs) (playlist_set_single G PT pl pc b)"
  "restore_line E G PT (''consume: '' @ show_bool b) rs pl pc = map_option (Pair rs) (playlist_set_consume pl pc b)"
  "restore_line E G PT ''playlist_begin'' rs pl pc = playlist_state_load E (rs_fp rs) (rs_heap rs) pl \<bind> (\<lambda>(fp, heap, pl).
     Some (rs\<lparr>rs_fp := fp, rs_heap := heap\<rparr>, pl, pc))"
  by (simp_all add: restore_line_def after_label_def)

lemma restore_line_player:
  "\<exists>pc'. restore_line E G PT (''crossfade: '' @ s) rs pl pc = Some (rs, pl, pc')"
  "\<exists>pc'. restore_line E G PT (''mixrampdelay: '' @ s) rs pl pc = Some (rs, pl, pc')"
  "se_atof E s \<noteq> None \<Longrightarrow> \<exists>pc'. restore_line E G PT (''mixrampdb: '' @ s) rs pl pc = Some (rs, pl, pc')"
  by (auto simp: restore_line_def after_label_def pc_set_cross_fade_def pc_set_mixramp_delay_def pc_set_mixramp_db_def
      pc_idle_add_eq)

lemma random_first: "rs\<lparr>rs_fp := fp, rs_random_mode := b\<rparr> = rs\<lparr>rs_random_mode := b, rs_fp := fp\<rparr>"
  by (cases rs) simp

lemma restore_state_lines:
  assumes pl0: "\<not> pl_playing pl0" and E: "float_text_ok E" and cf: "\<bar>c_trunc (pc_get_cross_fade pc)\<bar> < 2 ^ 31"
    and fp: "rs_fp rs = put_lines (state_lines E pl pc) @ rest"
  shows "\<exists>pc'. restore_lines E G PT rs pl0 pc0 =
    playlist_state_load E rest (rs_heap rs) (pl0\<lparr>pl_queue := (pl_queue pl0)\<lparr>q_repeat := q_repeat (pl_queue pl),
      q_single := q_single (pl_queue pl), q_consume := q_consume (pl_queue pl)\<rparr>\<rparr>) \<bind> (\<lambda>(fp, heap, pl').
    restore_lines E G PT (rs\<lparr>rs_random_mode := q_random (pl_queue pl), rs_fp := fp, rs_heap := heap\<rparr>) pl' pc')"
proof -
  let ?q = "pl_queue pl" and ?R = "restore_lines E G PT"
  let ?fp = "\<lambda>i. put_lines (drop i (state_lines E pl pc)) @ rest"
  have step: "?R (r\<lparr>rs_fp := ?fp i\<rparr>) p c =
      restore_line E G PT (state_lines E pl pc ! i) (r\<lparr>rs_fp := ?fp (Suc i)\<rparr>) p c \<bind> (\<lambda>(rs, pl, pc). ?R rs pl pc)"
    if "i < 8" for i r p c
  proof -
    have i: "i < length (state_lines E pl pc)" using that by (simp add: state_lines_def)
    have "\<forall>l \<in> set (state_lines E pl pc). plain_line l"
      using E plain_cross_fade [OF cf]
      by (auto simp: state_lines_def float_text_ok_def) (auto simp: plain_line_def max_line_def)
    then have "plain_line (state_lines E pl pc ! i)" using i by simp
    moreover have "?fp i = state_lines E pl pc ! i @ nl # ?fp (Suc i)"
      using i by (simp add: put_lines_def Cons_nth_drop_Suc [symmetric])
    ultimately show ?thesis
      using restore_lines_step [of "r\<lparr>rs_fp := ?fp i\<rparr>" "state_lines E pl pc ! i" "?fp (Suc i)" E G PT p c] by simp
  qed
  have nth: "state_lines E pl pc ! 0 = ''random: '' @ show_bool (q_random ?q)"
    "state_lines E pl pc ! 1 = ''repeat: '' @ show_bool (q_repeat ?q)"
    "state_lines E pl pc ! 2 = ''single: '' @ show_bool (q_single ?q)"
    "state_lines E pl pc ! 3 = ''consume: '' @ show_bool (q_consume ?q)"
    "state_lines E pl pc ! 4 = ''crossfade: '' @ show_int (c_trunc (pc_get_cross_fade pc))"
    "state_lines E pl pc ! 5 = ''mixrampdb: '' @ se_show_float E (Some (pc_get_mixramp_db pc))"
    "state_lines E pl pc ! 6 = ''mixrampdelay: '' @ se_show_float E (pc_get_mixramp_delay pc)"
    "state_lines E pl pc ! 7 = ''playlist_begin''" "?fp 8 = rest"
    by (simp_all add: state_lines_def put_lines_def del: append.simps)
  let ?rs = "rs\<lparr>rs_random_mode := q_random ?q\<rparr>"
  let ?p1 = "pl0\<lparr>pl_queue := (pl_queue pl0)\<lparr>q_repeat := q_repeat ?q\<rparr>\<rparr>"
  let ?p2 = "?p1\<lparr>pl_queue := (pl_queue ?p1)\<lparr>q_single := q_single ?q\<rparr>\<rparr>"
  let ?p3 = "?p2\<lparr>pl_queue := (pl_queue ?p2)\<lparr>q_consume := q_consume ?q\<rparr>\<rparr>"
  have "rs = rs\<lparr>rs_fp := ?fp 0\<rparr>" using fp by simp
  then have "?R rs pl0 pc0 = ?R (?rs\<lparr>rs_fp := ?fp 1\<rparr>) pl0 pc0"
    using step [of 0 rs pl0 pc0] nth(1) restore_line_option(1) [of E G PT "q_random ?q"]
    by (simp add: random_first)
  also obtain c1 where "\<dots> = ?R (?rs\<lparr>rs_fp := ?fp 2\<rparr>) ?p1 c1"
    using step [of 1 ?rs pl0 pc0] nth(2) restore_line_option(2) [of E G PT "q_repeat ?q"]
      stopped_set_options(1) [OF pl0, of G PT pc0 "q_repeat ?q"] by (auto simp: numeral_2_eq_2)
  also obtain c2 where "\<dots> = ?R (?rs\<lparr>rs_fp := ?fp 3\<rparr>) ?p2 c2"
    using step [of 2 ?rs ?p1 c1] nth(3) restore_line_option(3) [of E G PT "q_single ?q"] pl0
      stopped_set_options(2) [of ?p1 G PT c1 "q_single ?q"] by (auto simp: numeral_2_eq_2 numeral_3_eq_3)
  also obtain c3 where "\<dots> = ?R (?rs\<lparr>rs_fp := ?fp 4\<rparr>) ?p3 c3"
    using step [of 3 ?rs ?p2 c2] nth(4) restore_line_option(4) [of E G PT "q_consume ?q"] pl0
      stopped_set_options(3) [of ?p2 c2 "q_consume ?q"] by (auto simp: eval_nat_numeral)
  also obtain c4 where "\<dots> = ?R (?rs\<lparr>rs_fp := ?fp 5\<rparr>) ?p3 c4"
    using step [of 4 ?rs ?p3 c3] nth(5)
      restore_line_player(1) [of E G PT "show_int (c_trunc (pc_get_cross_fade pc))" "?rs\<lparr>rs_fp := ?fp 5\<rparr>" ?p3 c3]
    by (auto simp: eval_nat_numeral)
  also obtain c5 where "\<dots> = ?R (?rs\<lparr>rs_fp := ?fp 6\<rparr>) ?p3 c5"
    using step [of 5 ?rs ?p3 c4] nth(6) E
      restore_line_player(3) [of E "se_show_float E (Some (pc_get_mixramp_db pc))" G PT "?rs\<lparr>rs_fp := ?fp 6\<rparr>" ?p3 c4]
    by (auto simp: eval_nat_numeral float_text_ok_def)
  also obtain c6 where "\<dots> = ?R (?rs\<lparr>rs_fp := ?fp 7\<rparr>) ?p3 c6"
    using step [of 6 ?rs ?p3 c5] nth(7)
      restore_line_player(2) [of E G PT "se_show_float E (pc_get_mixramp_delay pc)" "?rs\<lparr>rs_fp := ?fp 7\<rparr>" ?p3 c5]
    by (auto simp: eval_nat_numeral)
  also have "\<dots> = playlist_state_load E rest (rs_heap rs) ?p3 \<bind> (\<lambda>(fp, heap, pl').
      ?R (rs\<lparr>rs_random_mode := q_random ?q, rs_fp := fp, rs_heap := heap\<rparr>) pl' c6)"
    using step [of 7 ?rs ?p3 c6] nth(8,9) restore_line_option(5) [of E G PT "?rs\<lparr>rs_fp := ?fp 8\<rparr>" ?p3 c6]
    by (simp add: eval_nat_numeral split_def)
  finally show ?thesis by auto
qed

text \<open>The songs are loaded and the version of the queue is increased.\<close>

lemma first_line_saved:
  assumes "\<forall>x \<in> set xs. found_again db (fst x)" "i < 10 ^ 10"
  shows "\<exists>l r. read_text_line (songs_text i xs @ ''playlist_end'' @ nl # rest) = Some (Some l, r)"
proof (cases xs)
  case Nil
  have "plain_line ''playlist_end''" by (simp add: plain_line_def max_line_def)
  from read_text_line_plain [OF this, of rest] Nil show ?thesis by auto
next
  case (Cons x ys)
  obtain u p where x: "x = (u, p)" by force
  with assms Cons have "uri_ok u" by (simp add: found_again_def)
  note song = read_text_line_plain [OF plain_song_line [OF this assms(2)]] and prio = read_text_line_plain [OF plain_prio_line [of p]]
  show ?thesis
  proof (cases "p = 0")
    case True
    with Cons x song [of "songs_text (i + 1) ys @ ''playlist_end'' @ nl # rest"] show ?thesis by simp
  next
    case False
    with Cons x prio [of "(show_nat i @ '':'' @ u) @ nl # songs_text (i + 1) ys @ ''playlist_end'' @ nl # rest"] show ?thesis
      by simp
  qed
qed

lemma playlist_state_load_saved:
  assumes "queue_wf (pl_queue pl)" "q_length (pl_queue pl) + length xs \<le> q_max_length (pl_queue pl)"
    "\<forall>x \<in> set xs. found_again (se_db E) (fst x)"
  shows "\<exists>q heap'. playlist_state_load E (songs_text 0 xs @ ''playlist_end'' @ nl # rest) heap pl =
      Some (rest, heap', pl\<lparr>pl_queue := incremented q\<rparr>) \<and>
    queue_wf q \<and> options_same (pl_queue pl) q \<and> saved_view q = saved_view (pl_queue pl) @ xs \<and>
    (songs_ok (pl_queue pl) \<longrightarrow> songs_ok q) \<and>
    (play_order (pl_queue pl) = [0..<q_length (pl_queue pl)] \<longrightarrow> play_order q = [0..<q_length q])"
proof -
  have n: "0 + length xs < 10 ^ 10" using assms(2) queue_wfD(4,5) [OF assms(1)] by simp
  obtain q heap' where q: "load_from (se_db E) (songs_text 0 xs @ ''playlist_end'' @ nl # rest) (pl_queue pl, heap) = Some (rest, q, heap')"
      "queue_wf q" "options_same (pl_queue pl) q" "saved_view q = saved_view (pl_queue pl) @ xs"
      "songs_ok (pl_queue pl) \<longrightarrow> songs_ok q"
      "play_order (pl_queue pl) = [0..<q_length (pl_queue pl)] \<longrightarrow> play_order q = [0..<q_length q]"
    using load_from_saved [OF assms n, of rest heap] by (auto simp: songs_ok_def)
  obtain l r where "read_text_line (songs_text 0 xs @ ''playlist_end'' @ nl # rest) = Some (Some l, r)"
    using first_line_saved [OF assms(3), of 0 rest] by auto
  with q(1) have "playlist_state_load E (songs_text 0 xs @ ''playlist_end'' @ nl # rest) heap pl =
      Some (rest, heap', pl\<lparr>pl_queue := incremented q\<rparr>)"
    by (simp add: playlist_state_load_def load_from_def queue_increment_version_eq [OF q(2)])
  with q(2-) show ?thesis by blast
qed

text \<open>What is written for a playlist that is not playing.\<close>

definition current_lines :: "'g playlist \<Rightarrow> string list" where
  "current_lines pl = (case current_pos pl of None \<Rightarrow> [] | Some p \<Rightarrow> [''current: '' @ show_nat p])"

lemma playlist_state_save_text:
  assumes PT: "live_player PT rest" and ok: "playlist_ok rest pl pc" and st: "\<not> pl_playing pl"
  shows "\<exists>pc'. playlist_state_save E PT pl pc status [] =
      Some (put_lines (''state: stop'' # current_lines pl @ state_lines E pl pc') @
        songs_text 0 (saved_view (pl_queue pl)) @ ''playlist_end'' @ [nl], pc')"
proof -
  have pc: "pc_ok pc" "rest pc" using ok by (simp_all add: playlist_ok_def)
  obtain s pc' where s: "pc_get_status PT pc status = Some (s, pc')"
    using player_thread.pc_get_status_returns [OF PT pc] by blast
  have wf: "queue_wf (pl_queue pl)" "songs_ok (pl_queue pl)" "pl_current pl < int (q_length (pl_queue pl))"
    using ok by (simp_all add: playlist_ok_def)
  have head: "(if 0 \<le> pl_current pl then do {
         p \<leftarrow> order_to_position pl (pl_current pl);
         Some [''state: stop'', ''current: '' @ show_nat p]
       }
       else Some [''state: stop'']) = Some (''state: stop'' # current_lines pl)"
    using order_to_position_Some [OF wf(1) _ wf(3)] by (simp add: current_lines_def current_pos_def)
  show ?thesis
    using s st head queue_save_text [OF wf(1)] wf(2)
    by (simp add: playlist_state_save_def songs_ok_def)
qed

text \<open>The line of the current song, the mode and the current song on the way back.\<close>

lemma restore_current_lines:
  assumes "rs_fp rs = put_lines (current_lines pl) @ rest" "\<And>p. current_pos pl = Some p \<Longrightarrow> p < 2 ^ 31"
  shows "restore_lines E G PT rs pl0 pc0 = restore_lines E G PT (rs\<lparr>rs_fp := rest,
    rs_current := (case current_pos pl of None \<Rightarrow> rs_current rs | Some p \<Rightarrow> int p)\<rparr>) pl0 pc0"
proof (cases "current_pos pl")
  case None
  with assms(1) have "rs\<lparr>rs_fp := rest, rs_current := rs_current rs\<rparr> = rs" by (simp add: current_lines_def put_lines_def)
  with None show ?thesis by simp
next
  case (Some p)
  let ?l = "''current: '' @ show_nat p"
  have p: "p < 10 ^ 10" "p < 2 ^ 31" using assms(2) [OF Some] by simp_all
  have plain: "plain_line ?l"
    using length_show_nat [OF p(1)] show_nat_no_nl [of p] show_nat_not_Nil [of p]
    by (auto simp: plain_line_def max_line_def)
  have fp: "rs_fp rs = ?l @ nl # rest" using assms(1) Some by (simp add: current_lines_def put_lines_def)
  show ?thesis
    using restore_lines_step [OF fp plain, of E G PT pl0 pc0] Some atoi_show_nat [OF p(2)]
    by (simp add: restore_line_def after_label_def)
qed

lemma stopped_set_random:
  assumes G: "glib_ok G" and wf: "queue_wf (pl_queue pl)" and st: "\<not> pl_playing pl" "pl_queued pl = -1"
    and r: "\<not> q_random (pl_queue pl)"
  shows "\<exists>pl' pc' q. playlist_set_random G PT pl pc b = Some (pl', pc') \<and> \<not> pl_playing pl' \<and>
    reordered ((pl_queue pl)\<lparr>q_random := b\<rparr>) (pl_queue pl') \<and> (\<not> b \<longrightarrow> pl' = pl)"
proof (cases b)
  case True
  let ?q = "(pl_queue pl)\<lparr>q_random := b\<rparr>"
  have "queue_wf ?q" "q_random ?q" using wf True by simp_all
  from queue_shuffle_order_eq [OF G this] obtain q where
    "queue_shuffle_order G ?q = Some q" "reordered ?q q" by blast
  with True r st show ?thesis
    by (simp add: playlist_set_random_def playlist_get_queued_song_def shuffle_current_first_def
        playlist_update_queued_song_def pc_idle_add_eq)
next
  case False
  have "(pl_queue pl)\<lparr>q_random := False\<rparr> = pl_queue pl" using r by (cases "pl_queue pl") simp
  then have "reordered ((pl_queue pl)\<lparr>q_random := False\<rparr>) (pl_queue pl)" by (simp only: reordered_refl)
  with False r st show ?thesis by (simp add: playlist_set_random_def)
qed

lemma restore_stopped:
  assumes wf: "queue_wf (pl_queue pl)" and c: "current = -1 \<or> 0 \<le> current \<and> nat current < q_length (pl_queue pl)"
  shows "restore_playback E G PT PLAYER_STATE_STOP current t pl pc = Some
    (if q_length (pl_queue pl) = 0 then pl else pl\<lparr>pl_current := (if current = -1 then 0 else current)\<rparr>, pc)"
proof -
  have len: "q_length (pl_queue pl) < 2 ^ 31" using queue_wfD(4,5) [OF wf] by simp
  have "to_unsigned (-1) = 2 ^ 32 - 1" by (simp add: to_unsigned_def)
  moreover have "to_unsigned current = nat current" if "0 \<le> current"
    using that c len by (simp add: to_unsigned_def)
  ultimately show ?thesis
    using c len by (auto simp: restore_playback_def queue_is_empty_def queue_valid_position_def)
qed

text \<open>What of a queue is saved, the random mode apart.\<close>

definition same_saved :: "'g queue \<Rightarrow> 'g queue \<Rightarrow> bool" where
  "same_saved q q' \<longleftrightarrow> saved_view q' = saved_view q \<and> q_repeat q' = q_repeat q \<and> q_single q' = q_single q \<and>
     q_consume q' = q_consume q"

lemma restore_saved_lines:
  assumes ok: "queue_wf (pl_queue pl)" "pl_current pl < int (q_length (pl_queue pl))"
    and db: "\<forall>x \<in> set (saved_view (pl_queue pl)). found_again (se_db E) (fst x)" and E: "float_text_ok E"
    and pl0: "queue_wf (pl_queue pl0)" "q_length (pl_queue pl0) = 0" "\<not> pl_playing pl0"
      "q_length (pl_queue pl) \<le> q_max_length (pl_queue pl0)"
    and cf: "\<bar>c_trunc (pc_get_cross_fade pc)\<bar> < 2 ^ 31"
    and rs: "rs_fp rs = put_lines (current_lines pl) @ put_lines (state_lines E pl pc) @
      songs_text 0 (saved_view (pl_queue pl)) @ ''playlist_end'' @ [nl]"
  shows "\<exists>rs' q pc'. restore_lines E G PT rs pl0 pc0 = Some (rs', pl0\<lparr>pl_queue := q\<rparr>, pc') \<and> rs_fp rs' = [] \<and>
    rs_current rs' = (case current_pos pl of None \<Rightarrow> rs_current rs | Some p \<Rightarrow> int p) \<and>
    rs_random_mode rs' = q_random (pl_queue pl) \<and> queue_wf q \<and> same_saved (pl_queue pl) q \<and>
    q_random q = q_random (pl_queue pl0) \<and> play_order q = [0..<q_length q]"
proof -
  let ?c = "case current_pos pl of None \<Rightarrow> rs_current rs | Some p \<Rightarrow> int p"
  let ?songs = "songs_text 0 (saved_view (pl_queue pl)) @ ''playlist_end'' @ nl # []"
  define pl1 where "pl1 = pl0\<lparr>pl_queue := (pl_queue pl0)\<lparr>q_repeat := q_repeat (pl_queue pl),
    q_single := q_single (pl_queue pl), q_consume := q_consume (pl_queue pl)\<rparr>\<rparr>"
  have pos: "p < 2 ^ 31" if "current_pos pl = Some p" for p
    using that wf_order_less [OF ok(1), of "nat (pl_current pl)"] ok(2) queue_wfD(4,5) [OF ok(1)]
    by (auto simp: current_pos_def nat_less_iff split: if_splits)
  let ?rs1 = "rs\<lparr>rs_fp := put_lines (state_lines E pl pc) @ ?songs, rs_current := ?c\<rparr>"
  have 1: "restore_lines E G PT rs pl0 pc0 = restore_lines E G PT ?rs1 pl0 pc0"
    by (rule restore_current_lines) (use rs pos in simp_all)
  obtain pc' where 2: "restore_lines E G PT ?rs1 pl0 pc0 = playlist_state_load E ?songs (rs_heap ?rs1) pl1 \<bind> (\<lambda>(fp, heap, pl').
      restore_lines E G PT (?rs1\<lparr>rs_random_mode := q_random (pl_queue pl), rs_fp := fp, rs_heap := heap\<rparr>) pl' pc')"
    using restore_state_lines [OF pl0(3) E cf, of ?rs1 pl ?songs G PT pc0] unfolding pl1_def by auto
  have n: "length (saved_view (pl_queue pl)) = q_length (pl_queue pl)"
    by (simp add: saved_view_def length_queue_view [OF ok(1)])
  have wf1: "queue_wf (pl_queue pl1)" "q_length (pl_queue pl1) + length (saved_view (pl_queue pl)) \<le> q_max_length (pl_queue pl1)"
    using pl0 n by (simp_all add: pl1_def)
  obtain q heap' where 3: "playlist_state_load E ?songs (rs_heap ?rs1) pl1 = Some ([], heap', pl1\<lparr>pl_queue := incremented q\<rparr>)"
    "queue_wf q" "options_same (pl_queue pl1) q" "saved_view q = saved_view (pl_queue pl1) @ saved_view (pl_queue pl)"
    "play_order (pl_queue pl1) = [0..<q_length (pl_queue pl1)] \<longrightarrow> play_order q = [0..<q_length q]"
    using playlist_state_load_saved [OF wf1 db, of "[]" "rs_heap ?rs1"] by blast
  have empty: "saved_view (pl_queue pl1) = []" "play_order (pl_queue pl1) = [0..<q_length (pl_queue pl1)]"
    using pl0(2) by (simp_all add: pl1_def saved_view_def queue_view_def play_order_def)
  have view: "saved_view (incremented q) = saved_view q" by (simp add: saved_view_def queue_view_incremented [OF 3(2)])
  have "play_order (incremented q) = [0..<q_length q]" using 3(5) empty(2) by (simp add: play_order_def)
  moreover have "same_saved (pl_queue pl) (incremented q)" "q_random q = q_random (pl_queue pl0)"
    using 3(3,4) empty(1) view by (simp_all add: same_saved_def options_same_def pl1_def)
  moreover have "restore_lines E G PT rs pl0 pc0 = Some (?rs1\<lparr>rs_random_mode := q_random (pl_queue pl), rs_fp := [], rs_heap := heap'\<rparr>,
      pl0\<lparr>pl_queue := incremented q\<rparr>, pc')"
    unfolding 1 2 3(1) by (simp add: restore_lines.simps [of _ _ _ "_\<lparr>rs_heap := _\<rparr>"] read_text_line_def pl1_def)
  ultimately show ?thesis using incremented_wf [OF 3(2)] by (intro exI conjI) (assumption | simp)+
qed

lemma nth_play_order_upt: "play_order q = [0..<q_length q] \<Longrightarrow> p < q_length q \<Longrightarrow> q_order q ! p = p"
  by (metis add_0 diff_zero nth_take nth_upt play_order_def)

lemma playlist_state_restored:
  assumes PT: "live_player PT rest" and G: "glib_ok G" and ok: "playlist_ok rest pl pc" and st: "\<not> pl_playing pl"
    and db: "\<forall>x \<in> set (saved_view (pl_queue pl)). found_again (se_db E) (fst x)" and E: "float_text_ok E"
    and pl0: "queue_wf (pl_queue pl0)" "q_length (pl_queue pl0) = 0" "\<not> pl_playing pl0" "pl_queued pl0 = -1"
      "\<not> q_random (pl_queue pl0)" "q_length (pl_queue pl) \<le> q_max_length (pl_queue pl0)"
  shows "\<exists>file pc'. playlist_state_save E PT pl pc status [] = Some (file, pc') \<and>
    (\<bar>c_trunc (pc_get_cross_fade pc')\<bar> < 2 ^ 31 \<longrightarrow>
     (\<exists>fp pl1 pc1. read_text_line file = Some (Some ''state: stop'', fp) \<and>
       playlist_state_restore E G PT ''state: stop'' fp heap pl0 pc0 = Some (True, [], pl1, pc1) \<and>
       \<not> pl_playing pl1 \<and> same_saved (pl_queue pl) (pl_queue pl1) \<and> q_random (pl_queue pl1) = q_random (pl_queue pl) \<and>
       (\<not> q_random (pl_queue pl) \<and> 0 < q_length (pl_queue pl) \<longrightarrow>
         current_pos pl1 = Some (case current_pos pl of None \<Rightarrow> 0 | Some p \<Rightarrow> p))))"
proof -
  let ?songs = "songs_text 0 (saved_view (pl_queue pl)) @ ''playlist_end'' @ [nl]"
  obtain pc' where save: "playlist_state_save E PT pl pc status [] =
      Some (put_lines (''state: stop'' # current_lines pl @ state_lines E pl pc') @ ?songs, pc')"
    using playlist_state_save_text [OF PT ok st] by blast
  define fp where "fp = put_lines (current_lines pl) @ put_lines (state_lines E pl pc') @ ?songs"
  have "plain_line ''state: stop''" by (simp add: plain_line_def max_line_def)
  from read_text_line_plain [OF this]
  have first: "read_text_line (put_lines (''state: stop'' # current_lines pl @ state_lines E pl pc') @ ?songs) =
      Some (Some ''state: stop'', fp)"
    by (simp add: fp_def put_lines_def)
  let ?rs = "\<lparr>rs_fp = fp, rs_heap = heap, rs_current = -1, rs_seek_time = 0, rs_random_mode = False\<rparr>"
  have wf: "queue_wf (pl_queue pl)" "pl_current pl < int (q_length (pl_queue pl))"
    using ok by (simp_all add: playlist_ok_def)
  show ?thesis
  proof (rule exI, rule exI, rule conjI [OF save], rule impI)
    assume cf: "\<bar>c_trunc (pc_get_cross_fade pc')\<bar> < 2 ^ 31"
    obtain rs' q c1 where 1: "restore_lines E G PT ?rs pl0 pc0 = Some (rs', pl0\<lparr>pl_queue := q\<rparr>, c1)" "rs_fp rs' = []"
      "rs_current rs' = (case current_pos pl of None \<Rightarrow> -1 | Some p \<Rightarrow> int p)"
      "rs_random_mode rs' = q_random (pl_queue pl)" and q: "queue_wf q" "same_saved (pl_queue pl) q"
      "q_random q = q_random (pl_queue pl0)" "play_order q = [0..<q_length q]"
      using restore_saved_lines [OF wf db E pl0(1-3,6) cf, of ?rs G PT pc0] unfolding fp_def restore_state.simps by blast
    obtain pl1 c2 where 2: "playlist_set_random G PT (pl0\<lparr>pl_queue := q\<rparr>) c1 (q_random (pl_queue pl)) = Some (pl1, c2)"
      "\<not> pl_playing pl1" "reordered (q\<lparr>q_random := q_random (pl_queue pl)\<rparr>) (pl_queue pl1)"
      "\<not> q_random (pl_queue pl) \<longrightarrow> pl1 = pl0\<lparr>pl_queue := q\<rparr>"
      using stopped_set_random [OF G, of "pl0\<lparr>pl_queue := q\<rparr>" PT c1 "q_random (pl_queue pl)"] pl0 q by auto
    have "length (saved_view q) = length (saved_view (pl_queue pl))" using q(2) by (simp add: same_saved_def)
    then have n: "q_length q = q_length (pl_queue pl)"
      by (simp add: saved_view_def length_queue_view [OF q(1)] length_queue_view [OF wf(1)])
    note r = reordered_sel [OF 2(3)] and w = reordered_wf [OF 2(3)] and v = reordered_view [OF 2(3)]
    have "rs_current rs' = -1 \<or> 0 \<le> rs_current rs' \<and> nat (rs_current rs') < q_length (pl_queue pl1)"
      using 1(3) r(2) n wf(2) wf_order_less [OF wf(1), of "nat (pl_current pl)"] 
      by (auto simp: current_pos_def nat_less_iff split: if_splits)
    then obtain pl2 where 3: "restore_playback E G PT PLAYER_STATE_STOP (rs_current rs') (rs_seek_time rs') pl1 c2 = Some (pl2, c2)"
        "pl2 = (if q_length (pl_queue pl1) = 0 then pl1 else pl1\<lparr>pl_current := (if rs_current rs' = -1 then 0 else rs_current rs')\<rparr>)"
      using restore_stopped [of pl1 "rs_current rs'" E G PT "rs_seek_time rs'" c2] w q(1) by simp
    have pos: "current_pos pl2 = Some (case current_pos pl of None \<Rightarrow> 0 | Some p \<Rightarrow> p)"
      if a: "\<not> q_random (pl_queue pl) \<and> 0 < q_length (pl_queue pl)"
    proof -
      let ?p = "case current_pos pl of None \<Rightarrow> 0 | Some p \<Rightarrow> p"
      have "pl_current pl2 = int ?p" "pl_queue pl2 = q" using 3(2) 1(3) 2(4) a n by (auto split: option.splits)
      moreover have "?p < q_length q"
        using a n wf(2) wf_order_less [OF wf(1), of "nat (pl_current pl)"] by (auto simp: current_pos_def nat_less_iff)
      ultimately show ?thesis using nth_play_order_upt [OF q(4)] by (simp add: current_pos_def)
    qed
    have "playlist_state_restore E G PT ''state: stop'' fp heap pl0 pc0 = Some (True, [], pl2, c2)"
      using 1(1,2,4) 2(1) 3(1) by (simp add: playlist_state_restore_def after_label_def)
    moreover have "\<not> pl_playing pl2" "q_random (pl_queue pl2) = q_random (pl_queue pl)"
      using 3(2) 2(2) r(9) by simp_all
    moreover have "same_saved (pl_queue pl) (pl_queue pl2)"
      using 3(2) r(6-8) v q(2) by (simp add: same_saved_def saved_view_def)
    ultimately show "\<exists>fp pl1 pc1. read_text_line (put_lines (''state: stop'' # current_lines pl @ state_lines E pl pc') @ ?songs) =
        Some (Some ''state: stop'', fp) \<and> playlist_state_restore E G PT ''state: stop'' fp heap pl0 pc0 = Some (True, [], pl1, pc1) \<and>
      \<not> pl_playing pl1 \<and> same_saved (pl_queue pl) (pl_queue pl1) \<and> q_random (pl_queue pl1) = q_random (pl_queue pl) \<and>
      (\<not> q_random (pl_queue pl) \<and> 0 < q_length (pl_queue pl) \<longrightarrow>
        current_pos pl1 = Some (case current_pos pl of None \<Rightarrow> 0 | Some p \<Rightarrow> p))"
      using first pos by blast
  qed
qed

end
