(* ===== verification/Text_Theorems.thy ===== *)
theory Text_Theorems
  imports List_Sort Tokenizer Audio_Parser Playlist_State Sample
begin

text \<open>
  Properties of what is read from and written to text: the state file, the parameters of a command
  line and the audio formats of the configuration; and of the sort of the database's lists.
\<close>

section \<open>The state file\<close>












section \<open>The parameters of a command line\<close>

text \<open>A line made of parameters, each one in quotes and escaped, or without quotes where its
  characters allow it, and separated by blanks, is read as exactly these parameters, and nothing of
  the line is left.\<close>

lemma tokenizer_reads_params:
  assumes "\<forall>p \<in> set ps. param_ok isspace p" "isspace (CHR '' '')" "\<not> isspace (CHR 0x22)" "length ps < n"
  shows "tokenizer_params n isspace (join_params ps) = (map snd ps, TOKEN_NULL, [])"
  by (rule tokenizer_params_join) (fact assms)+

section \<open>Audio formats\<close>

text \<open>C39: The text of a valid audio format is parsed as that format; and whatever the text, the parser
  ends with an error or with a format that is valid, or valid as a mask where a mask is asked for.\<close>

theorem audio_format_round_trip:
  "(audio_format_valid af \<longrightarrow> audio_format_parse (audio_format_to_string af) msk = Some (Inr af)) \<and>
   (\<exists>r. audio_format_parse src msk = Some r \<and>
     (\<forall>af. r = Inr af \<longrightarrow> (if msk then audio_format_mask_valid af else audio_format_valid af)))"
  using audio_format_parse_print [of af msk] audio_format_parse_valid [of src msk] by blast

theorem audio_format_round_trip_witness:
  "audio_format_parse (audio_format_to_string (audio_format_init 44100 SAMPLE_FORMAT_S16 2)) False =
     Some (Inr (audio_format_init 44100 SAMPLE_FORMAT_S16 2)) \<and>
   (\<exists>r. audio_format_parse ''44100:16'' False = Some r \<and> (\<forall>af. r = Inr af \<longrightarrow> audio_format_valid af))"
proof -
  have "audio_format_valid (audio_format_init 44100 SAMPLE_FORMAT_S16 2)"
    by (simp add: audio_format_init_def audio_format_valid_def audio_valid_sample_rate_def audio_valid_channel_count_def)
  with audio_format_round_trip [of "audio_format_init 44100 SAMPLE_FORMAT_S16 2" False "''44100:16''"] show ?thesis
    by simp
qed

section \<open>Sorting lists\<close>

text \<open>C38: The merge sort returns, for a list of up to two million entries, the same entries in the
  order of the comparison function, and entries that compare as equal stay in the order they had.\<close>

theorem list_sort_stable_sort:
  assumes "ordering cmp" "length xs < 2 ^ (MAX_LIST_LENGTH_BITS + 1)"
  shows "\<exists>ys. list_sort cmp xs = Some ys \<and> in_order cmp ys \<and> stable cmp ys xs"
  by (rule list_sort_sorts) (fact assms)+

theorem list_sort_stable_sort_witness:
  "\<exists>ys. list_sort (\<lambda>a b. fst a - fst b) [(2, ''a''), (1, ''b''), (2, ''c''), (0 :: int, ''d'')] = Some ys \<and>
     in_order (\<lambda>a b. fst a - fst b) ys \<and> filter (\<lambda>x. fst x = 2) ys = [(2, ''a''), (2, ''c'')]"
proof -
  have "ordering (\<lambda>a b. fst a - fst b :: int)" by (auto simp: ordering_def)
  then obtain ys where "list_sort (\<lambda>a b. fst a - fst b) [(2, ''a''), (1, ''b''), (2, ''c''), (0 :: int, ''d'')] = Some ys"
      "in_order (\<lambda>a b. fst a - fst b) ys" "stable (\<lambda>a b. fst a - fst b) ys [(2, ''a''), (1, ''b''), (2, ''c''), (0 :: int, ''d'')]"
    using list_sort_stable_sort [of "\<lambda>a b. fst a - fst b" "[(2, ''a''), (1, ''b''), (2, ''c''), (0 :: int, ''d'')]"]
    by auto
  moreover from this(3) have "filter (same_rank (\<lambda>a b. fst a - fst b) (2, [])) ys =
      filter (same_rank (\<lambda>a b. fst a - fst b) (2, [])) [(2, ''a''), (1, ''b''), (2, ''c''), (0 :: int, ''d'')]"
    unfolding stable_def by blast
  moreover have "same_rank (\<lambda>a b. fst a - fst b) (2, []) = (\<lambda>x :: int \<times> string. fst x = 2)"
    by (auto simp: same_rank_def fun_eq_iff)
  ultimately show ?thesis by auto
qed

end
