(* ===== verification/Command_Args.thy ===== *)
theory Command_Args
  imports Client_Session Playlist_Machine C_String
begin

text \<open>
  The replies and the arguments of commands: \<^verbatim>\<open>src/protocol/result.c\<close>, \<^verbatim>\<open>src/protocol/argparser.c\<close>
  and \<^verbatim>\<open>print_error2\<close> of \<^verbatim>\<open>src/command.c\<close>.

  A command changes the client, the playlist, the player and the two variables of \<^verbatim>\<open>result.c\<close>.
  The \<open>world\<close> holds all but the client; it takes the place of the channel of the client, so that what a
  client executes may change it.  \<open>wd_heap\<close> is the next address to allocate a song at.
\<close>

unbundle bit_operations_syntax

section \<open>The world of a command\<close>

record ('v, 'g, 't) world =
  wd_socket :: 'v
  wd_playlist :: "'g playlist"
  wd_pc :: "'t player_control"
  wd_current_command :: "string option"
  wd_command_list_num :: nat
  wd_heap :: nat

type_synonym ('v, 'g, 't) wclient = "('v, 'g, 't) world client"

definition world_io :: "'v io_write \<Rightarrow> ('v, 'g, 't) world io_write" where
  "world_io io w data = (case io (wd_socket w) data of (status, n, s) \<Rightarrow> (status, n, w\<lparr>wd_socket := s\<rparr>))"

abbreviation c_playlist :: "('v, 'g, 't) wclient \<Rightarrow> 'g playlist" where
  "c_playlist c \<equiv> wd_playlist (cl_channel c)"

abbreviation c_pc :: "('v, 'g, 't) wclient \<Rightarrow> 't player_control" where
  "c_pc c \<equiv> wd_pc (cl_channel c)"

definition put_pstate :: "('g, 't) pstate \<Rightarrow> ('v, 'g, 't) wclient \<Rightarrow> ('v, 'g, 't) wclient" where
  "put_pstate st c = c\<lparr>cl_channel := (cl_channel c)\<lparr>wd_playlist := fst st, wd_pc := snd st\<rparr>\<rparr>"

definition set_current_command :: "string option \<Rightarrow> ('v, 'g, 't) wclient \<Rightarrow> ('v, 'g, 't) wclient" where
  "set_current_command s c = c\<lparr>cl_channel := (cl_channel c)\<lparr>wd_current_command := s\<rparr>\<rparr>"

definition set_command_list_num :: "nat \<Rightarrow> ('v, 'g, 't) wclient \<Rightarrow> ('v, 'g, 't) wclient" where
  "set_command_list_num n c = c\<lparr>cl_channel := (cl_channel c)\<lparr>wd_command_list_num := n\<rparr>\<rparr>"

text \<open>
  What the command code calls and is not modelled: the socket and its limits, glib, the player
  thread, the song database, the files of the system and the formats of \<^verbatim>\<open>float\<close>.
\<close>

record ('v, 'g, 't) command_env =
  ce_io :: "'v io_write"
  ce_config :: client_config
  ce_glib :: "'g glib"
  ce_thread :: "'t player_thread"
  ce_isspace :: "char \<Rightarrow> bool"
  ce_isalpha :: "char \<Rightarrow> bool"
  ce_isalnum :: "char \<Rightarrow> bool"
  ce_strcasecmp :: "string \<Rightarrow> string \<Rightarrow> int"
  ce_strerror :: string
  ce_strtof :: "string \<Rightarrow> real option \<times> string"
  ce_show_float :: "real option \<Rightarrow> string"
  ce_show_elapsed :: "real \<Rightarrow> string"
  ce_status :: player_status
  ce_db_song :: "string \<Rightarrow> song option"
  ce_file_song :: "string \<Rightarrow> song option"
  ce_geteuid :: int
  ce_stat :: "string \<Rightarrow> (int \<times> u32) option"
  ce_supported_scheme :: "string \<Rightarrow> bool"
  ce_password :: "string \<Rightarrow> u32 option"
  ce_volume :: int
  ce_updating :: int

section \<open>Replies\<close>

datatype ack =
    ACK_ERROR_NOT_LIST
  | ACK_ERROR_ARG
  | ACK_ERROR_PASSWORD
  | ACK_ERROR_PERMISSION
  | ACK_ERROR_UNKNOWN
  | ACK_ERROR_NO_EXIST
  | ACK_ERROR_PLAYLIST_MAX
  | ACK_ERROR_SYSTEM
  | ACK_ERROR_PLAYLIST_LOAD
  | ACK_ERROR_UPDATE_ALREADY
  | ACK_ERROR_PLAYER_SYNC
  | ACK_ERROR_EXIST

fun ack_number :: "ack \<Rightarrow> nat" where
  "ack_number ACK_ERROR_NOT_LIST = 1"
| "ack_number ACK_ERROR_ARG = 2"
| "ack_number ACK_ERROR_PASSWORD = 3"
| "ack_number ACK_ERROR_PERMISSION = 4"
| "ack_number ACK_ERROR_UNKNOWN = 5"
| "ack_number ACK_ERROR_NO_EXIST = 50"
| "ack_number ACK_ERROR_PLAYLIST_MAX = 51"
| "ack_number ACK_ERROR_SYSTEM = 52"
| "ack_number ACK_ERROR_PLAYLIST_LOAD = 53"
| "ack_number ACK_ERROR_UPDATE_ALREADY = 54"
| "ack_number ACK_ERROR_PLAYER_SYNC = 55"
| "ack_number ACK_ERROR_EXIST = 56"

definition c_puts :: "('v, 'g, 't) command_env \<Rightarrow> ('v, 'g, 't) wclient \<Rightarrow> string \<Rightarrow> ('v, 'g, 't) wclient option" where
  "c_puts E c s = client_puts (world_io (ce_io E)) (ce_config E) c s"

definition command_error ::
    "('v, 'g, 't) command_env \<Rightarrow> ('v, 'g, 't) wclient \<Rightarrow> ack \<Rightarrow> string \<Rightarrow> ('v, 'g, 't) wclient option" where
  "command_error E c error msg = do {
     current \<leftarrow> wd_current_command (cl_channel c);
     c \<leftarrow> c_puts E c (''ACK ['' @ show_nat (ack_number error) @ ''@'' @ show_nat (wd_command_list_num (cl_channel c)) @ ''] {'' @
       current @ ''} '');
     c \<leftarrow> c_puts E c msg;
     c \<leftarrow> c_puts E c newline;
     Some (set_current_command None c)
   }"

text \<open>A command that fails with a message.\<close>

definition fail_with ::
    "('v, 'g, 't) command_env \<Rightarrow> ('v, 'g, 't) wclient \<Rightarrow> ack \<Rightarrow> string \<Rightarrow> (command_return \<times> ('v, 'g, 't) wclient) option" where
  "fail_with E c error msg = map_option (Pair COMMAND_RETURN_ERROR) (command_error E c error msg)"

fun mpd_err_number :: "playlist_result \<Rightarrow> nat" where
  "mpd_err_number MPD_SUCCESS = 0" | "mpd_err_number MPD_ERR_FIRST = 1" | "mpd_err_number MPD_PERM = 2"
| "mpd_err_number MPD_ACCESS = 3" | "mpd_err_number MPD_MISS_VALUE = 4" | "mpd_err_number MPD_INVAL = 5"
| "mpd_err_number MPD_DUP = 6" | "mpd_err_number MPD_NOENT = 7" | "mpd_err_number MPD_3RD = 8"
| "mpd_err_number MPD_NIMPL = 9" | "mpd_err_number MPD_DISABLED = 10" | "mpd_err_number MPD_UNKNOWN = 11"
| "mpd_err_number PLAYLIST_ERRNO = 12" | "mpd_err_number PLAYLIST_DENIED = 13"
| "mpd_err_number PLAYLIST_NO_SUCH_SONG = 14" | "mpd_err_number PLAYLIST_NO_SUCH_LIST = 15"
| "mpd_err_number PLAYLIST_LIST_EXISTS = 16" | "mpd_err_number PLAYLIST_BAD_NAME = 17"
| "mpd_err_number PLAYLIST_BAD_RANGE = 18" | "mpd_err_number PLAYLIST_NOT_PLAYING = 19"
| "mpd_err_number PLAYLIST_TOO_LARGE = 20" | "mpd_err_number PLAYLIST_DISABLED = 21"
| "mpd_err_number PLAYLIST_LAST = 22" | "mpd_err_number DB_FIRST = 23" | "mpd_err_number DB_DISABLED = 24"
| "mpd_err_number DB_ACCESS = 25" | "mpd_err_number DB_CORRUPT = 26" | "mpd_err_number DB_MALFORM = 27"
| "mpd_err_number DB_DUP = 28" | "mpd_err_number DB_ERRNO = 29" | "mpd_err_number DB_NOENT = 30"
| "mpd_err_number CMD_QUOTE = 31" | "mpd_err_number MPD_ERR_LAST = 32"

definition print_error2 ::
    "('v, 'g, 't) command_env \<Rightarrow> ('v, 'g, 't) wclient \<Rightarrow> playlist_result \<Rightarrow>
     (command_return \<times> ('v, 'g, 't) wclient) option" where
  "print_error2 E c r = (case r of
       MPD_SUCCESS \<Rightarrow> Some (COMMAND_RETURN_OK, c)
     | MPD_PERM \<Rightarrow> fail_with E c ACK_ERROR_PERMISSION ''Access denied''
     | MPD_ACCESS \<Rightarrow> fail_with E c ACK_ERROR_UNKNOWN ''Failed to open/read/write/stat''
     | PLAYLIST_ERRNO \<Rightarrow> fail_with E c ACK_ERROR_SYSTEM (ce_strerror E)
     | PLAYLIST_DENIED \<Rightarrow> fail_with E c ACK_ERROR_PERMISSION ''Access denied''
     | PLAYLIST_NO_SUCH_SONG \<Rightarrow> fail_with E c ACK_ERROR_NO_EXIST ''No such song''
     | PLAYLIST_NO_SUCH_LIST \<Rightarrow> fail_with E c ACK_ERROR_NO_EXIST ''No such playlist''
     | PLAYLIST_LIST_EXISTS \<Rightarrow> fail_with E c ACK_ERROR_EXIST ''Playlist already exists''
     | PLAYLIST_BAD_NAME \<Rightarrow> fail_with E c ACK_ERROR_ARG (''playlist name is invalid: '' @
         ''playlist names may not contain slashes,'' @ '' newlines or carriage returns'')
     | PLAYLIST_BAD_RANGE \<Rightarrow> fail_with E c ACK_ERROR_ARG ''Bad song index''
     | PLAYLIST_NOT_PLAYING \<Rightarrow> fail_with E c ACK_ERROR_PLAYER_SYNC ''Not playing''
     | PLAYLIST_TOO_LARGE \<Rightarrow> fail_with E c ACK_ERROR_PLAYLIST_MAX ''playlist is at the max size''
     | PLAYLIST_DISABLED \<Rightarrow> fail_with E c ACK_ERROR_UNKNOWN ''stored playlist support is disabled''
     | DB_DISABLED \<Rightarrow> fail_with E c ACK_ERROR_NO_EXIST ''Database disabled''
     | DB_NOENT \<Rightarrow> fail_with E c ACK_ERROR_NO_EXIST ''Not found''
     | DB_ACCESS \<Rightarrow> fail_with E c ACK_ERROR_UNKNOWN (''Can'' @ [CHR 0x27] @ ''t access database'')
     | DB_CORRUPT \<Rightarrow> fail_with E c ACK_ERROR_UNKNOWN ''Database corrupted''
     | DB_MALFORM \<Rightarrow> fail_with E c ACK_ERROR_UNKNOWN ''Database corrupted''
     | DB_DUP \<Rightarrow> fail_with E c ACK_ERROR_UNKNOWN ''Database corrupted''
     | CMD_QUOTE \<Rightarrow> fail_with E c ACK_ERROR_UNKNOWN ''Invalid unquoted character''
     | _ \<Rightarrow> fail_with E c ACK_ERROR_UNKNOWN (''Unknown error: '' @ show_nat (mpd_err_number r)))"

section \<open>Arguments\<close>

text \<open>A check returns the value, or \<open>None\<close> when it has printed an error.\<close>

type_synonym ('a, 'v, 'g, 't) arg_check = "('a option \<times> ('v, 'g, 't) wclient) option"

abbreviation G_MAXUINT :: nat where
  "G_MAXUINT \<equiv> 2 ^ 32 - 1"

definition bad_arg ::
    "('v, 'g, 't) command_env \<Rightarrow> ('v, 'g, 't) wclient \<Rightarrow> string \<Rightarrow> ('a, 'v, 'g, 't) arg_check" where
  "bad_arg E c msg = map_option (Pair None) (command_error E c ACK_ERROR_ARG msg)"

definition check_uint32 ::
    "('v, 'g, 't) command_env \<Rightarrow> ('v, 'g, 't) wclient \<Rightarrow> string \<Rightarrow> (u32, 'v, 'g, 't) arg_check" where
  "check_uint32 E c s =
     (let (value, test) = strtoul s in
      if test = s \<or> test \<noteq> [] then bad_arg E c (''Integer expected: '' @ s) else Some (Some (of_nat value), c))"

definition check_int ::
    "('v, 'g, 't) command_env \<Rightarrow> ('v, 'g, 't) wclient \<Rightarrow> string \<Rightarrow> (int, 'v, 'g, 't) arg_check" where
  "check_int E c s =
     (let (value, test) = strtol s in
      if test = s \<or> test \<noteq> [] then bad_arg E c (''Integer expected: '' @ s)
      else if value < - (2 ^ 31) \<or> 2 ^ 31 - 1 < value then bad_arg E c (''Number too large: '' @ s)
      else Some (Some value, c))"

definition check_range ::
    "('v, 'g, 't) command_env \<Rightarrow> ('v, 'g, 't) wclient \<Rightarrow> string \<Rightarrow> (nat \<times> nat, 'v, 'g, 't) arg_check" where
  "check_range E c s =
     (let (value, test) = strtol s in
      if test = s \<or> (test \<noteq> [] \<and> hd test \<noteq> CHR '':'') then bad_arg E c (''Integer or range expected: '' @ s)
      else if value = -1 \<and> test = [] then Some (Some (0, G_MAXUINT), c)
      else if value < 0 then bad_arg E c (''Number is negative: '' @ s)
      else if int G_MAXUINT < value then bad_arg E c (''Number too large: '' @ s)
      else if test \<noteq> [] then
        (let (value2, test2) = strtol (tl test) in
         if test2 \<noteq> [] then bad_arg E c (''Integer or range expected: '' @ s)
         else let value2 = (if tl test = test2 then int G_MAXUINT else value2) in
           if value2 < 0 then bad_arg E c (''Number is negative: '' @ s)
           else if int G_MAXUINT < value2 then bad_arg E c (''Number too large: '' @ s)
           else Some (Some (nat value, nat value2), c))
      else Some (Some (nat value, to_unsigned (value + 1)), c))"

definition check_unsigned ::
    "('v, 'g, 't) command_env \<Rightarrow> ('v, 'g, 't) wclient \<Rightarrow> string \<Rightarrow> (nat, 'v, 'g, 't) arg_check" where
  "check_unsigned E c s =
     (let (value, endptr) = strtoul s in
      if endptr = s \<or> endptr \<noteq> [] then bad_arg E c (''Integer expected: '' @ s)
      else if G_MAXUINT < value then bad_arg E c (''Number too large: '' @ s)
      else Some (Some value, c))"

definition check_bool ::
    "('v, 'g, 't) command_env \<Rightarrow> ('v, 'g, 't) wclient \<Rightarrow> string \<Rightarrow> (bool, 'v, 'g, 't) arg_check" where
  "check_bool E c s =
     (let (value, endptr) = strtol s in
      if endptr = s \<or> endptr \<noteq> [] \<or> (value \<noteq> 0 \<and> value \<noteq> 1) then bad_arg E c (''Boolean (0/1) expected: '' @ s)
      else Some (Some (value \<noteq> 0), c))"

definition check_float ::
    "('v, 'g, 't) command_env \<Rightarrow> ('v, 'g, 't) wclient \<Rightarrow> string \<Rightarrow> (real option, 'v, 'g, 't) arg_check" where
  "check_float E c s =
     (let (value, endptr) = ce_strtof E s in
      if endptr = s \<or> endptr \<noteq> [] then bad_arg E c (''Float expected: '' @ s) else Some (Some value, c))"

text \<open>A handler goes on with the value, or fails when the check has failed.\<close>

definition checked ::
    "('a, 'v, 'g, 't) arg_check \<Rightarrow> ('a \<Rightarrow> ('v, 'g, 't) wclient \<Rightarrow> (command_return \<times> ('v, 'g, 't) wclient) option) \<Rightarrow>
     (command_return \<times> ('v, 'g, 't) wclient) option" where
  "checked m f = m \<bind> (\<lambda>(value, c). case value of None \<Rightarrow> Some (COMMAND_RETURN_ERROR, c) | Some v \<Rightarrow> f v c)"

end
