(* ===== verification/Command.thy ===== *)
theory Command
  imports Command_Args Client_Events Tokenizer Audio_Parser
begin

text \<open>
  The commands of the protocol, \<^verbatim>\<open>src/command.c\<close>: the handlers that work on the playlist, the player and
  the client, the command table and its binary search, the checks of a request, and the execution of a
  line.  The handlers of the other parts of the server, the database, stored playlists, outputs, the
  mixer and stickers, are an argument \<open>other\<close>, by the name of the command; the table is that of a build
  without stickers.
\<close>

unbundle bit_operations_syntax

type_synonym ('v, 'g, 't) handler =
  "('v, 'g, 't) wclient \<Rightarrow> string list \<Rightarrow> (command_return \<times> ('v, 'g, 't) wclient) option"

section \<open>Playback\<close>

definition handle_play :: "('v, 'g, 't) command_env \<Rightarrow> ('v, 'g, 't) handler" where
  "handle_play E c argv =
     checked (if length argv = 2 then check_int E c (argv ! 1) else Some (Some (-1), c)) (\<lambda>song c. do {
       (result, st) \<leftarrow> playlist_play (ce_thread E) (c_playlist c) (c_pc c) song;
       print_error2 E (put_pstate st c) result
     })"

definition handle_playid :: "('v, 'g, 't) command_env \<Rightarrow> ('v, 'g, 't) handler" where
  "handle_playid E c argv =
     checked (if length argv = 2 then check_int E c (argv ! 1) else Some (Some (-1), c)) (\<lambda>sid c. do {
       (result, st) \<leftarrow> playlist_play_id (ce_thread E) (c_playlist c) (c_pc c) sid;
       print_error2 E (put_pstate st c) result
     })"

definition handle_stop :: "('v, 'g, 't) command_env \<Rightarrow> ('v, 'g, 't) handler" where
  "handle_stop E c argv = do {
     st \<leftarrow> playlist_stop (ce_glib E) (ce_thread E) (c_playlist c) (c_pc c);
     Some (COMMAND_RETURN_OK, put_pstate st c)
   }"

definition put_pc :: "'t player_control \<Rightarrow> ('v, 'g, 't) wclient \<Rightarrow> ('v, 'g, 't) wclient" where
  "put_pc pc c = put_pstate (c_playlist c, pc) c"

definition handle_pause :: "('v, 'g, 't) command_env \<Rightarrow> ('v, 'g, 't) handler" where
  "handle_pause E c argv =
     (if length argv = 2 then checked (check_bool E c (argv ! 1)) (\<lambda>pause_flag c. do {
        pc \<leftarrow> pc_set_pause (ce_thread E) (c_pc c) pause_flag;
        Some (COMMAND_RETURN_OK, put_pc pc c)
      })
      else do {
        pc \<leftarrow> pc_pause (ce_thread E) (c_pc c);
        Some (COMMAND_RETURN_OK, put_pc pc c)
      })"

definition handle_next :: "('v, 'g, 't) command_env \<Rightarrow> ('v, 'g, 't) handler" where
  "handle_next E c argv = do {
     let pl = c_playlist c;
     let single = q_single (pl_queue pl);
     (pl, pc) \<leftarrow> playlist_next (ce_glib E) (ce_thread E) (pl\<lparr>pl_queue := (pl_queue pl)\<lparr>q_single := False\<rparr>\<rparr>) (c_pc c);
     Some (COMMAND_RETURN_OK, put_pstate (pl\<lparr>pl_queue := (pl_queue pl)\<lparr>q_single := single\<rparr>\<rparr>, pc) c)
   }"

definition handle_previous :: "('v, 'g, 't) command_env \<Rightarrow> ('v, 'g, 't) handler" where
  "handle_previous E c argv = do {
     st \<leftarrow> playlist_previous (ce_thread E) (c_playlist c) (c_pc c);
     Some (COMMAND_RETURN_OK, put_pstate st c)
   }"

definition handle_seek :: "('v, 'g, 't) command_env \<Rightarrow> ('v, 'g, 't) handler" where
  "handle_seek E c argv =
     checked (check_unsigned E c (argv ! 1)) (\<lambda>song c.
     checked (check_unsigned E c (argv ! 2)) (\<lambda>seek_time c. do {
       (result, st) \<leftarrow> playlist_seek_song (ce_glib E) (ce_thread E) (c_playlist c) (c_pc c) song (of_nat seek_time);
       print_error2 E (put_pstate st c) result
     }))"

definition handle_seekid :: "('v, 'g, 't) command_env \<Rightarrow> ('v, 'g, 't) handler" where
  "handle_seekid E c argv =
     checked (check_unsigned E c (argv ! 1)) (\<lambda>sid c.
     checked (check_unsigned E c (argv ! 2)) (\<lambda>seek_time c. do {
       (result, st) \<leftarrow> playlist_seek_song_id (ce_glib E) (ce_thread E) (c_playlist c) (c_pc c) sid (of_nat seek_time);
       print_error2 E (put_pstate st c) result
     }))"

definition handle_seekcur :: "('v, 'g, 't) command_env \<Rightarrow> ('v, 'g, 't) handler" where
  "handle_seekcur E c argv = do {
     let p = argv ! 1;
     let relative = (p \<noteq> [] \<and> (hd p = CHR ''+'' \<or> hd p = CHR ''-''));
     checked (check_int E c p) (\<lambda>seek_time c. do {
       (result, st) \<leftarrow> playlist_seek_current (ce_glib E) (ce_thread E) (ce_status E) (c_playlist c) (c_pc c)
         (of_int seek_time) relative;
       print_error2 E (put_pstate st c) result
     })
   }"

definition handle_clearerror :: "('v, 'g, 't) handler" where
  "handle_clearerror c argv = Some (COMMAND_RETURN_OK, put_pc (pc_clear_error (c_pc c)) c)"

section \<open>The songs of the playlist\<close>

text \<open>\<^verbatim>\<open>src/client_file.c\<close>: which files a client may add.\<close>

definition client_allow_file :: "('v, 'g, 't) command_env \<Rightarrow> ('v, 'g, 't) wclient \<Rightarrow> string \<Rightarrow> playlist_result" where
  "client_allow_file E c path_fs =
     (let uid = cl_uid c in
      if 0 \<le> uid \<and> uid = ce_geteuid E then MPD_PERM
      else if uid \<le> 0 then MPD_PERM
      else case ce_stat E path_fs of
          None \<Rightarrow> MPD_ACCESS
        | Some (st_uid, st_mode) \<Rightarrow> if st_uid \<noteq> uid \<and> st_mode AND 0x124 \<noteq> 0x124 then MPD_PERM else MPD_SUCCESS)"

text \<open>The next free address is taken for the song object of a URI.\<close>

definition append_uri ::
    "('v, 'g, 't) command_env \<Rightarrow> ('v, 'g, 't) wclient \<Rightarrow> string \<Rightarrow>
     (playlist_result \<times> nat option \<times> ('v, 'g, 't) wclient) option" where
  "append_uri E c uri = do {
     (result, added_id, st) \<leftarrow> playlist_append_uri (ce_glib E) (ce_thread E) (ce_db_song E) (wd_heap (cl_channel c))
       (c_playlist c) (c_pc c) uri;
     let c = put_pstate st c;
     Some (result, added_id, c\<lparr>cl_channel := (cl_channel c)\<lparr>wd_heap := wd_heap (cl_channel c) + 1\<rparr>\<rparr>)
   }"

definition append_file ::
    "('v, 'g, 't) command_env \<Rightarrow> ('v, 'g, 't) wclient \<Rightarrow> string \<Rightarrow>
     (playlist_result \<times> nat option \<times> ('v, 'g, 't) wclient) option" where
  "append_file E c path = do {
     (result, added_id, st) \<leftarrow> playlist_append_file (ce_glib E) (ce_thread E) (c_playlist c) (c_pc c) (ce_file_song E path);
     Some (result, added_id, put_pstate st c)
   }"

text \<open>\<open>addAllIn\<close>, the database walk of \<^verbatim>\<open>src/dbUtils.c\<close>, is an argument.\<close>

definition handle_add ::
    "('v, 'g, 't) command_env \<Rightarrow> (('v, 'g, 't) wclient \<Rightarrow> string \<Rightarrow> (playlist_result \<times> ('v, 'g, 't) wclient) option) \<Rightarrow>
     ('v, 'g, 't) handler" where
  "handle_add E addAllIn c argv = do {
     let uri = argv ! 1;
     if prefix ''file:///'' uri then do {
       let path = drop 7 uri;
       let result = client_allow_file E c path;
       if result = MPD_SUCCESS then print_error2 E c result
       else do {
         (result, _, c) \<leftarrow> append_file E c path;
         print_error2 E c result
       }
     }
     else if uri_has_scheme uri then
       (if \<not> ce_supported_scheme E uri then fail_with E c ACK_ERROR_NO_EXIST ''unsupported URI scheme''
        else do {
          (result, _, c) \<leftarrow> append_uri E c uri;
          print_error2 E c result
        })
     else do {
       (result, c) \<leftarrow> addAllIn c uri;
       print_error2 E c result
     }
   }"

text \<open>The conversion of an \<^verbatim>\<open>unsigned\<close> to an \<^verbatim>\<open>int\<close>.\<close>

definition to_signed :: "nat \<Rightarrow> int" where
  "to_signed n = (if n < 2 ^ 31 then int n else int n - 2 ^ 32)"

definition added ::
    "('v, 'g, 't) command_env \<Rightarrow> ('v, 'g, 't) wclient \<Rightarrow> nat \<Rightarrow> (command_return \<times> ('v, 'g, 't) wclient) option" where
  "added E c added_id = map_option (Pair COMMAND_RETURN_OK) (c_puts E c (''Id: '' @ show_nat added_id @ newline))"

text \<open>The second half of \<^verbatim>\<open>handle_addid\<close>, with the result of the appending.\<close>

definition addid_finish ::
    "('v, 'g, 't) command_env \<Rightarrow> string list \<Rightarrow> playlist_result \<times> nat option \<times> ('v, 'g, 't) wclient \<Rightarrow>
     (command_return \<times> ('v, 'g, 't) wclient) option" where
  "addid_finish E argv = (\<lambda>(result, added_id, c).
     if result \<noteq> MPD_SUCCESS then print_error2 E c result
     else do {
       added_id \<leftarrow> added_id;
       if length argv = 3 then checked (check_unsigned E c (argv ! 2)) (\<lambda>to c. do {
         (result, st) \<leftarrow> playlist_move_id (ce_glib E) (ce_thread E) (c_playlist c) (c_pc c) added_id (to_signed to);
         let c = put_pstate st c;
         if result \<noteq> MPD_SUCCESS then do {
           (ret, c) \<leftarrow> print_error2 E c result;
           (_, st) \<leftarrow> playlist_delete_id (ce_glib E) (ce_thread E) (c_playlist c) (c_pc c) added_id;
           Some (ret, put_pstate st c)
         }
         else added E c added_id
       })
       else added E c added_id
     })"

definition handle_addid :: "('v, 'g, 't) command_env \<Rightarrow> ('v, 'g, 't) handler" where
  "handle_addid E c argv = do {
     let uri = argv ! 1;
     if prefix ''file:///'' uri then do {
       let path = drop 7 uri;
       let result = client_allow_file E c path;
       if result = MPD_SUCCESS then print_error2 E c result
       else append_file E c path \<bind> addid_finish E argv
     }
     else if uri_has_scheme uri \<and> \<not> ce_supported_scheme E uri
     then fail_with E c ACK_ERROR_NO_EXIST ''unsupported URI scheme''
     else append_uri E c uri \<bind> addid_finish E argv
   }"

definition handle_delete :: "('v, 'g, 't) command_env \<Rightarrow> ('v, 'g, 't) handler" where
  "handle_delete E c argv =
     checked (check_range E c (argv ! 1)) (\<lambda>(start, end) c. do {
       (result, st) \<leftarrow> playlist_delete_range (ce_glib E) (ce_thread E) (c_playlist c) (c_pc c) start end;
       print_error2 E (put_pstate st c) result
     })"

definition handle_deleteid :: "('v, 'g, 't) command_env \<Rightarrow> ('v, 'g, 't) handler" where
  "handle_deleteid E c argv =
     checked (check_unsigned E c (argv ! 1)) (\<lambda>sid c. do {
       (result, st) \<leftarrow> playlist_delete_id (ce_glib E) (ce_thread E) (c_playlist c) (c_pc c) sid;
       print_error2 E (put_pstate st c) result
     })"

definition handle_shuffle :: "('v, 'g, 't) command_env \<Rightarrow> ('v, 'g, 't) handler" where
  "handle_shuffle E c argv = do {
     n \<leftarrow> queue_length (pl_queue (c_playlist c));
     checked (if length argv = 2 then check_range E c (argv ! 1) else Some (Some (0, n), c)) (\<lambda>(start, end) c. do {
       st \<leftarrow> playlist_shuffle (ce_glib E) (ce_thread E) (c_playlist c) (c_pc c) start end;
       Some (COMMAND_RETURN_OK, put_pstate st c)
     })
   }"

definition handle_clear :: "('v, 'g, 't) command_env \<Rightarrow> ('v, 'g, 't) handler" where
  "handle_clear E c argv = do {
     st \<leftarrow> playlist_clear (ce_glib E) (ce_thread E) (c_playlist c) (c_pc c);
     Some (COMMAND_RETURN_OK, put_pstate st c)
   }"

definition handle_move :: "('v, 'g, 't) command_env \<Rightarrow> ('v, 'g, 't) handler" where
  "handle_move E c argv =
     checked (check_range E c (argv ! 1)) (\<lambda>(start, end) c.
     checked (check_int E c (argv ! 2)) (\<lambda>to c. do {
       (result, st) \<leftarrow> playlist_move_range (ce_glib E) (ce_thread E) (c_playlist c) (c_pc c) start end to;
       print_error2 E (put_pstate st c) result
     }))"

definition handle_moveid :: "('v, 'g, 't) command_env \<Rightarrow> ('v, 'g, 't) handler" where
  "handle_moveid E c argv =
     checked (check_unsigned E c (argv ! 1)) (\<lambda>sid c.
     checked (check_int E c (argv ! 2)) (\<lambda>to c. do {
       (result, st) \<leftarrow> playlist_move_id (ce_glib E) (ce_thread E) (c_playlist c) (c_pc c) sid to;
       print_error2 E (put_pstate st c) result
     }))"

definition handle_swap :: "('v, 'g, 't) command_env \<Rightarrow> ('v, 'g, 't) handler" where
  "handle_swap E c argv =
     checked (check_unsigned E c (argv ! 1)) (\<lambda>song1 c.
     checked (check_unsigned E c (argv ! 2)) (\<lambda>song2 c. do {
       (result, st) \<leftarrow> playlist_swap_songs (ce_glib E) (ce_thread E) (c_playlist c) (c_pc c) song1 song2;
       print_error2 E (put_pstate st c) result
     }))"

definition handle_swapid :: "('v, 'g, 't) command_env \<Rightarrow> ('v, 'g, 't) handler" where
  "handle_swapid E c argv =
     checked (check_unsigned E c (argv ! 1)) (\<lambda>id1 c.
     checked (check_unsigned E c (argv ! 2)) (\<lambda>id2 c. do {
       (result, st) \<leftarrow> playlist_swap_songs_id (ce_glib E) (ce_thread E) (c_playlist c) (c_pc c) id1 id2;
       print_error2 E (put_pstate st c) result
     }))"

text \<open>The loop of \<^verbatim>\<open>handle_prio\<close> and of \<^verbatim>\<open>handle_prioid\<close>: the first failure ends it.\<close>

fun prio_loop ::
    "('v, 'g, 't) command_env \<Rightarrow> u8 \<Rightarrow> ('v, 'g, 't) handler" where
  "prio_loop E priority c [] = Some (COMMAND_RETURN_OK, c)"
| "prio_loop E priority c (arg # args) =
     checked (check_range E c arg) (\<lambda>(start, end) c. do {
       (result, st) \<leftarrow> playlist_set_priority (ce_glib E) (ce_thread E) (c_playlist c) (c_pc c) start end priority;
       if result \<noteq> MPD_SUCCESS then print_error2 E (put_pstate st c) result
       else prio_loop E priority (put_pstate st c) args
     })"

fun prioid_loop ::
    "('v, 'g, 't) command_env \<Rightarrow> u8 \<Rightarrow> ('v, 'g, 't) handler" where
  "prioid_loop E priority c [] = Some (COMMAND_RETURN_OK, c)"
| "prioid_loop E priority c (arg # args) =
     checked (check_unsigned E c arg) (\<lambda>sid c. do {
       (result, st) \<leftarrow> playlist_set_priority_id (ce_glib E) (ce_thread E) (c_playlist c) (c_pc c) sid priority;
       if result \<noteq> MPD_SUCCESS then print_error2 E (put_pstate st c) result
       else prioid_loop E priority (put_pstate st c) args
     })"

definition handle_prio :: "('v, 'g, 't) command_env \<Rightarrow> ('v, 'g, 't) handler" where
  "handle_prio E c argv =
     checked (check_unsigned E c (argv ! 1)) (\<lambda>priority c.
       if 0xff < priority then fail_with E c ACK_ERROR_ARG (''Priority out of range: '' @ argv ! 1)
       else prio_loop E (of_nat priority) c (drop 2 argv))"

definition handle_prioid :: "('v, 'g, 't) command_env \<Rightarrow> ('v, 'g, 't) handler" where
  "handle_prioid E c argv =
     checked (check_unsigned E c (argv ! 1)) (\<lambda>priority c.
       if 0xff < priority then fail_with E c ACK_ERROR_ARG (''Priority out of range: '' @ argv ! 1)
       else prioid_loop E (of_nat priority) c (drop 2 argv))"

section \<open>Modes\<close>

definition handle_repeat :: "('v, 'g, 't) command_env \<Rightarrow> ('v, 'g, 't) handler" where
  "handle_repeat E c argv = checked (check_bool E c (argv ! 1)) (\<lambda>status c. do {
     st \<leftarrow> playlist_set_repeat (ce_glib E) (ce_thread E) (c_playlist c) (c_pc c) status;
     Some (COMMAND_RETURN_OK, put_pstate st c)
   })"

definition handle_single :: "('v, 'g, 't) command_env \<Rightarrow> ('v, 'g, 't) handler" where
  "handle_single E c argv = checked (check_bool E c (argv ! 1)) (\<lambda>status c. do {
     st \<leftarrow> playlist_set_single (ce_glib E) (ce_thread E) (c_playlist c) (c_pc c) status;
     Some (COMMAND_RETURN_OK, put_pstate st c)
   })"

definition handle_consume :: "('v, 'g, 't) command_env \<Rightarrow> ('v, 'g, 't) handler" where
  "handle_consume E c argv = checked (check_bool E c (argv ! 1)) (\<lambda>status c. do {
     st \<leftarrow> playlist_set_consume (c_playlist c) (c_pc c) status;
     Some (COMMAND_RETURN_OK, put_pstate st c)
   })"

definition handle_random :: "('v, 'g, 't) command_env \<Rightarrow> ('v, 'g, 't) handler" where
  "handle_random E c argv = checked (check_bool E c (argv ! 1)) (\<lambda>status c. do {
     st \<leftarrow> playlist_set_random (ce_glib E) (ce_thread E) (c_playlist c) (c_pc c) status;
     Some (COMMAND_RETURN_OK, put_pstate st c)
   })"

definition handle_crossfade :: "('v, 'g, 't) command_env \<Rightarrow> ('v, 'g, 't) handler" where
  "handle_crossfade E c argv = checked (check_unsigned E c (argv ! 1)) (\<lambda>xfade_time c. do {
     pc \<leftarrow> pc_set_cross_fade (c_pc c) (of_nat xfade_time);
     Some (COMMAND_RETURN_OK, put_pc pc c)
   })"

definition handle_mixrampdb :: "('v, 'g, 't) command_env \<Rightarrow> ('v, 'g, 't) handler" where
  "handle_mixrampdb E c argv = checked (check_float E c (argv ! 1)) (\<lambda>db c. do {
     db \<leftarrow> db;
     pc \<leftarrow> pc_set_mixramp_db (c_pc c) db;
     Some (COMMAND_RETURN_OK, put_pc pc c)
   })"

definition handle_mixrampdelay :: "('v, 'g, 't) command_env \<Rightarrow> ('v, 'g, 't) handler" where
  "handle_mixrampdelay E c argv = checked (check_float E c (argv ! 1)) (\<lambda>delay_secs c. do {
     pc \<leftarrow> pc_set_mixramp_delay (c_pc c) delay_secs;
     Some (COMMAND_RETURN_OK, put_pc pc c)
   })"

section \<open>Status\<close>

abbreviation show_flag :: "bool \<Rightarrow> string" where
  "show_flag b \<equiv> (if b then ''1'' else ''0'')"

definition state_name :: "player_state \<Rightarrow> string" where
  "state_name s = (case s of PLAYER_STATE_STOP \<Rightarrow> ''stop'' | PLAYER_STATE_PAUSE \<Rightarrow> ''pause'' | PLAYER_STATE_PLAY \<Rightarrow> ''play'')"

definition field :: "string \<Rightarrow> string \<Rightarrow> string" where
  "field name value = name @ '': '' @ value @ newline"

text \<open>A song and its id, when there is one.\<close>

definition put_song ::
    "('v, 'g, 't) command_env \<Rightarrow> string \<Rightarrow> string \<Rightarrow> int \<Rightarrow> ('v, 'g, 't) wclient \<Rightarrow> ('v, 'g, 't) wclient option" where
  "put_song E name id_name song c =
     (if 0 \<le> song then do {
        sid \<leftarrow> playlist_get_song_id (c_playlist c) (nat song);
        c_puts E c (field name (show_int song) @ field id_name (show_nat sid))
      }
      else Some c)"

definition handle_status :: "('v, 'g, 't) command_env \<Rightarrow> ('v, 'g, 't) handler" where
  "handle_status E c argv = do {
     (status, pc) \<leftarrow> pc_get_status (ce_thread E) (c_pc c) (ce_status E);
     let c = put_pc pc c;
     let pl = c_playlist c;
     n \<leftarrow> playlist_get_length pl;
     c \<leftarrow> c_puts E c (field ''volume'' (show_int (ce_volume E)) @
       field ''repeat'' (show_flag (playlist_get_repeat pl)) @
       field ''random'' (show_flag (playlist_get_random pl)) @
       field ''single'' (show_flag (playlist_get_single pl)) @
       field ''consume'' (show_flag (playlist_get_consume pl)) @
       field ''playlist'' (show_nat (unat (playlist_get_version pl))) @
       field ''playlistlength'' (show_nat n) @
       field ''xfade'' (show_int (c_trunc (pc_get_cross_fade pc + 0.5))) @
       field ''mixrampdb'' (ce_show_float E (Some (pc_get_mixramp_db pc))) @
       field ''mixrampdelay'' (ce_show_float E (pc_get_mixramp_delay pc)) @
       field ''state'' (state_name (st_state status)));
     song \<leftarrow> playlist_get_current_song pl;
     c \<leftarrow> put_song E ''song'' ''songid'' song c;
     c \<leftarrow> (if st_state status \<noteq> PLAYER_STATE_STOP then do {
         c \<leftarrow> c_puts E c (field ''time'' (show_int (c_trunc (st_elapsed_time status + 0.5)) @ '':'' @
             show_int (c_trunc (st_total_time status + 0.5))) @
           field ''elapsed'' (ce_show_elapsed E (st_elapsed_time status)) @
           field ''bitrate'' (show_nat (unat (st_bit_rate status))));
         if audio_format_defined (st_audio_format status)
         then c_puts E c (field ''audio'' (audio_format_to_string (st_audio_format status)))
         else Some c
       }
       else Some c);
     c \<leftarrow> (if ce_updating E \<noteq> 0 then c_puts E c (field ''updating_db'' (show_int (ce_updating E))) else Some c);
     error \<leftarrow> pc_get_error_message (c_pc c);
     c \<leftarrow> (case error of None \<Rightarrow> Some c | Some error \<Rightarrow> c_puts E c (field ''error'' error));
     song \<leftarrow> playlist_get_next_song pl;
     c \<leftarrow> put_song E ''nextsong'' ''nextsongid'' song c;
     Some (COMMAND_RETURN_OK, c)
   }"

section \<open>The client itself\<close>

definition handle_kill :: "('v, 'g, 't) handler" where
  "handle_kill c argv = Some (COMMAND_RETURN_KILL, c)"

definition handle_close :: "('v, 'g, 't) handler" where
  "handle_close c argv = Some (COMMAND_RETURN_CLOSE, c)"

definition handle_ping :: "('v, 'g, 't) handler" where
  "handle_ping c argv = Some (COMMAND_RETURN_OK, c)"

definition handle_password :: "('v, 'g, 't) command_env \<Rightarrow> ('v, 'g, 't) handler" where
  "handle_password E c argv = (case ce_password E (argv ! 1) of
       None \<Rightarrow> fail_with E c ACK_ERROR_PASSWORD ''incorrect password''
     | Some permission \<Rightarrow> Some (COMMAND_RETURN_OK, c\<lparr>cl_permission := permission\<rparr>))"

text \<open>The flags of the events named by the arguments, or all.\<close>

definition idle_flags_of :: "('v, 'g, 't) command_env \<Rightarrow> string list \<Rightarrow> u32" where
  "idle_flags_of E names =
     (let flags = foldl (\<lambda>flags name. foldl (\<lambda>flags j. if ce_strcasecmp E name (idle_get_names ! j) = 0
        then flags OR push_bit j 1 else flags) flags [0..<length idle_get_names]) 0 names
      in if flags = 0 then NOT 0 else flags)"

definition handle_idle :: "('v, 'g, 't) command_env \<Rightarrow> ('v, 'g, 't) handler" where
  "handle_idle E c argv = do {
     (_, c) \<leftarrow> client_idle_wait (world_io (ce_io E)) (ce_config E) c (idle_flags_of E (tl argv));
     Some (COMMAND_RETURN_1, c)
   }"

definition handle_subscribe :: "('v, 'g, 't) command_env \<Rightarrow> ('v, 'g, 't) handler" where
  "handle_subscribe E c argv = do {
     assert_that (length argv = 2);
     (result, c, idle) \<leftarrow> client_subscribe (ce_isalnum E) c (pc_idle_flags (c_pc c)) (argv ! 1);
     let c = put_pc ((c_pc c)\<lparr>pc_idle_flags := idle\<rparr>) c;
     case result of
       CLIENT_SUBSCRIBE_OK \<Rightarrow> Some (COMMAND_RETURN_OK, c)
     | CLIENT_SUBSCRIBE_INVALID \<Rightarrow> fail_with E c ACK_ERROR_ARG ''invalid channel name''
     | CLIENT_SUBSCRIBE_ALREADY \<Rightarrow> fail_with E c ACK_ERROR_EXIST ''already subscribed to this channel''
     | CLIENT_SUBSCRIBE_FULL \<Rightarrow> fail_with E c ACK_ERROR_EXIST ''subscription list is full''
   }"

definition handle_unsubscribe :: "('v, 'g, 't) command_env \<Rightarrow> ('v, 'g, 't) handler" where
  "handle_unsubscribe E c argv = do {
     assert_that (length argv = 2);
     (found, c, idle) \<leftarrow> client_unsubscribe c (pc_idle_flags (c_pc c)) (argv ! 1);
     let c = put_pc ((c_pc c)\<lparr>pc_idle_flags := idle\<rparr>) c;
     if found then Some (COMMAND_RETURN_OK, c)
     else fail_with E c ACK_ERROR_NO_EXIST ''not subscribed to this channel''
   }"

definition handle_read_messages :: "('v, 'g, 't) command_env \<Rightarrow> ('v, 'g, 't) handler" where
  "handle_read_messages E c argv = do {
     assert_that (length argv = 1);
     let (messages, c) = client_read_messages c;
     c \<leftarrow> for_each (\<lambda>msg c. c_puts E c (field ''channel'' (msg_channel msg) @ field ''message'' (msg_message msg))) messages c;
     Some (COMMAND_RETURN_OK, c)
   }"

section \<open>The command table\<close>

abbreviation PERMISSION_NONE :: u32 where "PERMISSION_NONE \<equiv> 0"
abbreviation PERMISSION_READ :: u32 where "PERMISSION_READ \<equiv> 1"
abbreviation PERMISSION_ADD :: u32 where "PERMISSION_ADD \<equiv> 2"
abbreviation PERMISSION_CONTROL :: u32 where "PERMISSION_CONTROL \<equiv> 4"
abbreviation PERMISSION_ADMIN :: u32 where "PERMISSION_ADMIN \<equiv> 8"

text \<open>An entry, without its handler.\<close>

record command_entry =
  cmd_name :: string
  cmd_permission :: u32
  cmd_min :: int
  cmd_max :: int

definition commands :: "command_entry list" where
  "commands = [
      \<lparr>cmd_name = ''add'', cmd_permission = PERMISSION_ADD, cmd_min = 1, cmd_max = 1\<rparr>,
      \<lparr>cmd_name = ''addid'', cmd_permission = PERMISSION_ADD, cmd_min = 1, cmd_max = 2\<rparr>,
      \<lparr>cmd_name = ''channels'', cmd_permission = PERMISSION_READ, cmd_min = 0, cmd_max = 0\<rparr>,
      \<lparr>cmd_name = ''clear'', cmd_permission = PERMISSION_CONTROL, cmd_min = 0, cmd_max = 0\<rparr>,
      \<lparr>cmd_name = ''clearerror'', cmd_permission = PERMISSION_CONTROL, cmd_min = 0, cmd_max = 0\<rparr>,
      \<lparr>cmd_name = ''close'', cmd_permission = PERMISSION_NONE, cmd_min = -1, cmd_max = -1\<rparr>,
      \<lparr>cmd_name = ''commands'', cmd_permission = PERMISSION_NONE, cmd_min = 0, cmd_max = 0\<rparr>,
      \<lparr>cmd_name = ''config'', cmd_permission = PERMISSION_ADMIN, cmd_min = 0, cmd_max = 0\<rparr>,
      \<lparr>cmd_name = ''consume'', cmd_permission = PERMISSION_CONTROL, cmd_min = 1, cmd_max = 1\<rparr>,
      \<lparr>cmd_name = ''count'', cmd_permission = PERMISSION_READ, cmd_min = 2, cmd_max = -1\<rparr>,
      \<lparr>cmd_name = ''crossfade'', cmd_permission = PERMISSION_CONTROL, cmd_min = 1, cmd_max = 1\<rparr>,
      \<lparr>cmd_name = ''currentsong'', cmd_permission = PERMISSION_READ, cmd_min = 0, cmd_max = 0\<rparr>,
      \<lparr>cmd_name = ''decoders'', cmd_permission = PERMISSION_READ, cmd_min = 0, cmd_max = 0\<rparr>,
      \<lparr>cmd_name = ''delete'', cmd_permission = PERMISSION_CONTROL, cmd_min = 1, cmd_max = 1\<rparr>,
      \<lparr>cmd_name = ''deleteid'', cmd_permission = PERMISSION_CONTROL, cmd_min = 1, cmd_max = 1\<rparr>,
      \<lparr>cmd_name = ''disableoutput'', cmd_permission = PERMISSION_ADMIN, cmd_min = 1, cmd_max = 1\<rparr>,
      \<lparr>cmd_name = ''enableoutput'', cmd_permission = PERMISSION_ADMIN, cmd_min = 1, cmd_max = 1\<rparr>,
      \<lparr>cmd_name = ''find'', cmd_permission = PERMISSION_READ, cmd_min = 2, cmd_max = -1\<rparr>,
      \<lparr>cmd_name = ''findadd'', cmd_permission = PERMISSION_READ, cmd_min = 2, cmd_max = -1\<rparr>,
      \<lparr>cmd_name = ''idle'', cmd_permission = PERMISSION_READ, cmd_min = 0, cmd_max = -1\<rparr>,
      \<lparr>cmd_name = ''kill'', cmd_permission = PERMISSION_ADMIN, cmd_min = -1, cmd_max = -1\<rparr>,
      \<lparr>cmd_name = ''list'', cmd_permission = PERMISSION_READ, cmd_min = 1, cmd_max = -1\<rparr>,
      \<lparr>cmd_name = ''listall'', cmd_permission = PERMISSION_READ, cmd_min = 0, cmd_max = 1\<rparr>,
      \<lparr>cmd_name = ''listallinfo'', cmd_permission = PERMISSION_READ, cmd_min = 0, cmd_max = 1\<rparr>,
      \<lparr>cmd_name = ''listplaylist'', cmd_permission = PERMISSION_READ, cmd_min = 1, cmd_max = 1\<rparr>,
      \<lparr>cmd_name = ''listplaylistinfo'', cmd_permission = PERMISSION_READ, cmd_min = 1, cmd_max = 1\<rparr>,
      \<lparr>cmd_name = ''listplaylists'', cmd_permission = PERMISSION_READ, cmd_min = 0, cmd_max = 0\<rparr>,
      \<lparr>cmd_name = ''load'', cmd_permission = PERMISSION_ADD, cmd_min = 1, cmd_max = 2\<rparr>,
      \<lparr>cmd_name = ''lsinfo'', cmd_permission = PERMISSION_READ, cmd_min = 0, cmd_max = 1\<rparr>,
      \<lparr>cmd_name = ''mixrampdb'', cmd_permission = PERMISSION_CONTROL, cmd_min = 1, cmd_max = 1\<rparr>,
      \<lparr>cmd_name = ''mixrampdelay'', cmd_permission = PERMISSION_CONTROL, cmd_min = 1, cmd_max = 1\<rparr>,
      \<lparr>cmd_name = ''move'', cmd_permission = PERMISSION_CONTROL, cmd_min = 2, cmd_max = 2\<rparr>,
      \<lparr>cmd_name = ''moveid'', cmd_permission = PERMISSION_CONTROL, cmd_min = 2, cmd_max = 2\<rparr>,
      \<lparr>cmd_name = ''next'', cmd_permission = PERMISSION_CONTROL, cmd_min = 0, cmd_max = 0\<rparr>,
      \<lparr>cmd_name = ''notcommands'', cmd_permission = PERMISSION_NONE, cmd_min = 0, cmd_max = 0\<rparr>,
      \<lparr>cmd_name = ''outputs'', cmd_permission = PERMISSION_READ, cmd_min = 0, cmd_max = 0\<rparr>,
      \<lparr>cmd_name = ''password'', cmd_permission = PERMISSION_NONE, cmd_min = 1, cmd_max = 1\<rparr>,
      \<lparr>cmd_name = ''pause'', cmd_permission = PERMISSION_CONTROL, cmd_min = 0, cmd_max = 1\<rparr>,
      \<lparr>cmd_name = ''ping'', cmd_permission = PERMISSION_NONE, cmd_min = 0, cmd_max = 0\<rparr>,
      \<lparr>cmd_name = ''play'', cmd_permission = PERMISSION_CONTROL, cmd_min = 0, cmd_max = 1\<rparr>,
      \<lparr>cmd_name = ''playid'', cmd_permission = PERMISSION_CONTROL, cmd_min = 0, cmd_max = 1\<rparr>,
      \<lparr>cmd_name = ''playlist'', cmd_permission = PERMISSION_READ, cmd_min = 0, cmd_max = 0\<rparr>,
      \<lparr>cmd_name = ''playlistadd'', cmd_permission = PERMISSION_CONTROL, cmd_min = 2, cmd_max = 2\<rparr>,
      \<lparr>cmd_name = ''playlistclear'', cmd_permission = PERMISSION_CONTROL, cmd_min = 1, cmd_max = 1\<rparr>,
      \<lparr>cmd_name = ''playlistdelete'', cmd_permission = PERMISSION_CONTROL, cmd_min = 2, cmd_max = 2\<rparr>,
      \<lparr>cmd_name = ''playlistfind'', cmd_permission = PERMISSION_READ, cmd_min = 2, cmd_max = -1\<rparr>,
      \<lparr>cmd_name = ''playlistid'', cmd_permission = PERMISSION_READ, cmd_min = 0, cmd_max = 1\<rparr>,
      \<lparr>cmd_name = ''playlistinfo'', cmd_permission = PERMISSION_READ, cmd_min = 0, cmd_max = 1\<rparr>,
      \<lparr>cmd_name = ''playlistmove'', cmd_permission = PERMISSION_CONTROL, cmd_min = 3, cmd_max = 3\<rparr>,
      \<lparr>cmd_name = ''playlistsearch'', cmd_permission = PERMISSION_READ, cmd_min = 2, cmd_max = -1\<rparr>,
      \<lparr>cmd_name = ''plchanges'', cmd_permission = PERMISSION_READ, cmd_min = 1, cmd_max = 1\<rparr>,
      \<lparr>cmd_name = ''plchangesposid'', cmd_permission = PERMISSION_READ, cmd_min = 1, cmd_max = 1\<rparr>,
      \<lparr>cmd_name = ''previous'', cmd_permission = PERMISSION_CONTROL, cmd_min = 0, cmd_max = 0\<rparr>,
      \<lparr>cmd_name = ''prio'', cmd_permission = PERMISSION_CONTROL, cmd_min = 2, cmd_max = -1\<rparr>,
      \<lparr>cmd_name = ''prioid'', cmd_permission = PERMISSION_CONTROL, cmd_min = 2, cmd_max = -1\<rparr>,
      \<lparr>cmd_name = ''random'', cmd_permission = PERMISSION_CONTROL, cmd_min = 1, cmd_max = 1\<rparr>,
      \<lparr>cmd_name = ''readmessages'', cmd_permission = PERMISSION_READ, cmd_min = 0, cmd_max = 0\<rparr>,
      \<lparr>cmd_name = ''rename'', cmd_permission = PERMISSION_CONTROL, cmd_min = 2, cmd_max = 2\<rparr>,
      \<lparr>cmd_name = ''repeat'', cmd_permission = PERMISSION_CONTROL, cmd_min = 1, cmd_max = 1\<rparr>,
      \<lparr>cmd_name = ''replay_gain_mode'', cmd_permission = PERMISSION_CONTROL, cmd_min = 1, cmd_max = 1\<rparr>,
      \<lparr>cmd_name = ''replay_gain_status'', cmd_permission = PERMISSION_READ, cmd_min = 0, cmd_max = 0\<rparr>,
      \<lparr>cmd_name = ''rescan'', cmd_permission = PERMISSION_CONTROL, cmd_min = 0, cmd_max = 1\<rparr>,
      \<lparr>cmd_name = ''rm'', cmd_permission = PERMISSION_CONTROL, cmd_min = 1, cmd_max = 1\<rparr>,
      \<lparr>cmd_name = ''save'', cmd_permission = PERMISSION_CONTROL, cmd_min = 1, cmd_max = 1\<rparr>,
      \<lparr>cmd_name = ''search'', cmd_permission = PERMISSION_READ, cmd_min = 2, cmd_max = -1\<rparr>,
      \<lparr>cmd_name = ''searchadd'', cmd_permission = PERMISSION_ADD, cmd_min = 2, cmd_max = -1\<rparr>,
      \<lparr>cmd_name = ''searchaddpl'', cmd_permission = PERMISSION_CONTROL, cmd_min = 3, cmd_max = -1\<rparr>,
      \<lparr>cmd_name = ''seek'', cmd_permission = PERMISSION_CONTROL, cmd_min = 2, cmd_max = 2\<rparr>,
      \<lparr>cmd_name = ''seekcur'', cmd_permission = PERMISSION_CONTROL, cmd_min = 1, cmd_max = 1\<rparr>,
      \<lparr>cmd_name = ''seekid'', cmd_permission = PERMISSION_CONTROL, cmd_min = 2, cmd_max = 2\<rparr>,
      \<lparr>cmd_name = ''sendmessage'', cmd_permission = PERMISSION_CONTROL, cmd_min = 2, cmd_max = 2\<rparr>,
      \<lparr>cmd_name = ''setvol'', cmd_permission = PERMISSION_CONTROL, cmd_min = 1, cmd_max = 1\<rparr>,
      \<lparr>cmd_name = ''shuffle'', cmd_permission = PERMISSION_CONTROL, cmd_min = 0, cmd_max = 1\<rparr>,
      \<lparr>cmd_name = ''single'', cmd_permission = PERMISSION_CONTROL, cmd_min = 1, cmd_max = 1\<rparr>,
      \<lparr>cmd_name = ''stats'', cmd_permission = PERMISSION_READ, cmd_min = 0, cmd_max = 0\<rparr>,
      \<lparr>cmd_name = ''status'', cmd_permission = PERMISSION_READ, cmd_min = 0, cmd_max = 0\<rparr>,
      \<lparr>cmd_name = ''stop'', cmd_permission = PERMISSION_CONTROL, cmd_min = 0, cmd_max = 0\<rparr>,
      \<lparr>cmd_name = ''subscribe'', cmd_permission = PERMISSION_READ, cmd_min = 1, cmd_max = 1\<rparr>,
      \<lparr>cmd_name = ''swap'', cmd_permission = PERMISSION_CONTROL, cmd_min = 2, cmd_max = 2\<rparr>,
      \<lparr>cmd_name = ''swapid'', cmd_permission = PERMISSION_CONTROL, cmd_min = 2, cmd_max = 2\<rparr>,
      \<lparr>cmd_name = ''tagtypes'', cmd_permission = PERMISSION_READ, cmd_min = 0, cmd_max = 0\<rparr>,
      \<lparr>cmd_name = ''unsubscribe'', cmd_permission = PERMISSION_READ, cmd_min = 1, cmd_max = 1\<rparr>,
      \<lparr>cmd_name = ''update'', cmd_permission = PERMISSION_CONTROL, cmd_min = 0, cmd_max = 1\<rparr>,
      \<lparr>cmd_name = ''urlhandlers'', cmd_permission = PERMISSION_READ, cmd_min = 0, cmd_max = 0\<rparr>]"

definition may_use :: "u32 \<Rightarrow> command_entry \<Rightarrow> bool" where
  "may_use permission cmd \<longleftrightarrow> cmd_permission cmd = permission AND cmd_permission cmd"

definition handle_commands :: "('v, 'g, 't) command_env \<Rightarrow> ('v, 'g, 't) handler" where
  "handle_commands E c argv = do {
     let permission = cl_permission c;
     c \<leftarrow> for_each (\<lambda>cmd c. if may_use permission cmd then c_puts E c (field ''command'' (cmd_name cmd)) else Some c) commands c;
     Some (COMMAND_RETURN_OK, c)
   }"

definition handle_not_commands :: "('v, 'g, 't) command_env \<Rightarrow> ('v, 'g, 't) handler" where
  "handle_not_commands E c argv = do {
     let permission = cl_permission c;
     c \<leftarrow> for_each (\<lambda>cmd c. if \<not> may_use permission cmd then c_puts E c (field ''command'' (cmd_name cmd)) else Some c) commands c;
     Some (COMMAND_RETURN_OK, c)
   }"

text \<open>The handlers of the table, by name.\<close>

definition command_handlers ::
    "('v, 'g, 't) command_env \<Rightarrow> (('v, 'g, 't) wclient \<Rightarrow> string \<Rightarrow> (playlist_result \<times> ('v, 'g, 't) wclient) option) \<Rightarrow>
     (string \<times> ('v, 'g, 't) handler) list" where
  "command_handlers E addAllIn = [
      (''add'', handle_add E addAllIn),
      (''addid'', handle_addid E),
      (''clear'', handle_clear E),
      (''clearerror'', handle_clearerror),
      (''close'', handle_close),
      (''commands'', handle_commands E),
      (''consume'', handle_consume E),
      (''crossfade'', handle_crossfade E),
      (''delete'', handle_delete E),
      (''deleteid'', handle_deleteid E),
      (''idle'', handle_idle E),
      (''kill'', handle_kill),
      (''mixrampdb'', handle_mixrampdb E),
      (''mixrampdelay'', handle_mixrampdelay E),
      (''move'', handle_move E),
      (''moveid'', handle_moveid E),
      (''next'', handle_next E),
      (''notcommands'', handle_not_commands E),
      (''password'', handle_password E),
      (''pause'', handle_pause E),
      (''ping'', handle_ping),
      (''play'', handle_play E),
      (''playid'', handle_playid E),
      (''previous'', handle_previous E),
      (''prio'', handle_prio E),
      (''prioid'', handle_prioid E),
      (''random'', handle_random E),
      (''readmessages'', handle_read_messages E),
      (''repeat'', handle_repeat E),
      (''seek'', handle_seek E),
      (''seekcur'', handle_seekcur E),
      (''seekid'', handle_seekid E),
      (''shuffle'', handle_shuffle E),
      (''single'', handle_single E),
      (''status'', handle_status E),
      (''stop'', handle_stop E),
      (''subscribe'', handle_subscribe E),
      (''swap'', handle_swap E),
      (''swapid'', handle_swapid E),
      (''unsubscribe'', handle_unsubscribe E)]"

definition command_handler ::
    "('v, 'g, 't) command_env \<Rightarrow> (('v, 'g, 't) wclient \<Rightarrow> string \<Rightarrow> (playlist_result \<times> ('v, 'g, 't) wclient) option) \<Rightarrow>
     (string \<Rightarrow> ('v, 'g, 't) handler) \<Rightarrow> string \<Rightarrow> ('v, 'g, 't) handler" where
  "command_handler E addAllIn other name =
     (case map_of (command_handlers E addAllIn) name of Some h \<Rightarrow> h | None \<Rightarrow> other name)"

section \<open>Looking up a command\<close>

text \<open>The sign of \<^verbatim>\<open>strcmp\<close>.\<close>

fun strcmp :: "string \<Rightarrow> string \<Rightarrow> int" where
  "strcmp [] [] = 0"
| "strcmp [] (c # cs) = -1"
| "strcmp (c # cs) [] = 1"
| "strcmp (c # cs) (d # ds) =
     (if (of_char c :: nat) < of_char d then -1 else if (of_char d :: nat) < of_char c then 1 else strcmp cs ds)"

text \<open>The loop of the binary search; its body runs at least once.\<close>

function lookup_loop :: "command_entry list \<Rightarrow> string \<Rightarrow> nat \<Rightarrow> nat \<Rightarrow> command_entry option option" where
  "lookup_loop cmds name a b = do {
     let i = (a + b) div 2;
     entry \<leftarrow> aget cmds i;
     let cmp = strcmp name (cmd_name entry);
     if cmp = 0 then Some (Some entry)
     else if cmp < 0 then (if a < i then lookup_loop cmds name a i else Some None)
     else if i + 1 < b then lookup_loop cmds name (i + 1) b else Some None
   }"
  by pat_completeness auto
termination by (relation "measure (\<lambda>(cmds, name, a, b). b - a)") auto

declare lookup_loop.simps [simp del]

definition command_lookup :: "string \<Rightarrow> command_entry option option" where
  "command_lookup name = lookup_loop commands name 0 (length commands)"

section \<open>Executing a line\<close>

definition command_check_request ::
    "('v, 'g, 't) command_env \<Rightarrow> command_entry \<Rightarrow> ('v, 'g, 't) wclient \<Rightarrow> u32 \<Rightarrow> string list \<Rightarrow>
     (bool \<times> ('v, 'g, 't) wclient) option" where
  "command_check_request E cmd c permission argv = do {
     let mn = cmd_min cmd + 1;
     let mx = cmd_max cmd + 1;
     let argc = int (length argv);
     let refuse = (\<lambda>error msg. map_option (Pair False) (command_error E c error msg));
     if \<not> may_use permission cmd then
       refuse ACK_ERROR_PERMISSION (''you don'' @ [CHR 0x27] @ ''t have permission for \"'' @ cmd_name cmd @ ''\"'')
     else if mn = 0 then Some (True, c)
     else if mn = mx \<and> mx \<noteq> argc then refuse ACK_ERROR_ARG (''wrong number of arguments for \"'' @ argv ! 0 @ ''\"'')
     else if argc < mn then refuse ACK_ERROR_ARG (''too few arguments for \"'' @ argv ! 0 @ ''\"'')
     else if mx < argc \<and> mx \<noteq> 0 then refuse ACK_ERROR_ARG (''too many arguments for \"'' @ argv ! 0 @ ''\"'')
     else Some (True, c)
   }"

definition command_checked_lookup ::
    "('v, 'g, 't) command_env \<Rightarrow> ('v, 'g, 't) wclient \<Rightarrow> u32 \<Rightarrow> string list \<Rightarrow>
     (command_entry option \<times> ('v, 'g, 't) wclient) option" where
  "command_checked_lookup E c permission argv = do {
     let c = set_current_command (Some []) c;
     if argv = [] then Some (None, c)
     else do {
       cmd \<leftarrow> command_lookup (argv ! 0);
       case cmd of
         None \<Rightarrow> map_option (Pair None) (command_error E c ACK_ERROR_UNKNOWN (''unknown command \"'' @ argv ! 0 @ ''\"''))
       | Some cmd \<Rightarrow> do {
           (ok, c) \<leftarrow> command_check_request E cmd (set_current_command (Some (cmd_name cmd)) c) permission argv;
           Some (if ok then Some cmd else None, c)
         }
     }
   }"

text \<open>\<^verbatim>\<open>COMMAND_ARGV_MAX\<close>: twice the number of tag types, and two.\<close>

abbreviation COMMAND_ARGV_MAX :: nat where
  "COMMAND_ARGV_MAX \<equiv> 38"

text \<open>\<^verbatim>\<open>print_error2(client, PTR_ERR(token))\<close>: the \<^verbatim>\<open>NULL\<close> pointer counts as success.\<close>

definition token_error ::
    "('v, 'g, 't) command_env \<Rightarrow> ('v, 'g, 't) wclient \<Rightarrow> token \<Rightarrow> (command_return \<times> ('v, 'g, 't) wclient) option" where
  "token_error E c t = print_error2 E c (if t = TOKEN_ERR then CMD_QUOTE else MPD_SUCCESS)"

definition command_process ::
    "('v, 'g, 't) command_env \<Rightarrow> (('v, 'g, 't) wclient \<Rightarrow> string \<Rightarrow> (playlist_result \<times> ('v, 'g, 't) wclient) option) \<Rightarrow>
     (string \<Rightarrow> ('v, 'g, 't) handler) \<Rightarrow> ('v, 'g, 't) world command" where
  "command_process E addAllIn other c num line = do {
     let c = set_command_list_num num c;
     case tokenizer_next_word (ce_isspace E) (ce_isalpha E) (ce_isalnum E) line of
       (TOKEN word, line) \<Rightarrow> do {
         let (args, t, line) = tokenizer_params (COMMAND_ARGV_MAX - 1) (ce_isspace E) line;
         let argv = word # args;
         let c = set_current_command (Some word) c;
         if COMMAND_ARGV_MAX \<le> length argv then do {
           c \<leftarrow> command_error E c ACK_ERROR_ARG ''Too many arguments'';
           Some (COMMAND_RETURN_ERROR, set_current_command None c)
         }
         else if line \<noteq> [] then token_error E (set_current_command None c) t
         else do {
           (cmd, c) \<leftarrow> command_checked_lookup E c (cl_permission c) argv;
           (ret, c) \<leftarrow> (case cmd of
               None \<Rightarrow> Some (COMMAND_RETURN_ERROR, c)
             | Some cmd \<Rightarrow> command_handler E addAllIn other (cmd_name cmd) c argv);
           Some (ret, set_command_list_num 0 (set_current_command None c))
         }
       }
     | (t, line) \<Rightarrow> do {
         let c = set_current_command None c;
         if line = [] then fail_with E c ACK_ERROR_UNKNOWN ''No command given''
         else token_error E c t
       }
   }"

end
