(* ===== verification/Command_Inv.thy ===== *)
theory Command_Inv
  imports Command
begin

text \<open>
  Replies leave everything but the connection alone, the arguments are read as they are printed, and
  the binary search finds what a linear search finds.
\<close>

section \<open>Writing to the socket changes nothing else\<close>

definition io_keeps :: "'w io_write \<Rightarrow> ('w \<Rightarrow> 'a) \<Rightarrow> bool" where
  "io_keeps io f \<longleftrightarrow> (\<forall>w data. f (snd (snd (io w data))) = f w)"

lemma write_deferred_buffer_keeps:
  assumes "io_keeps io f" "client_write_deferred_buffer io c buf = Some (n, c')"
  shows "f (cl_channel c') = f (cl_channel c)"
proof -
  obtain st m w where io: "io (cl_channel c) buf = (st, m, w)" by (metis prod_cases3)
  with assms(1) have "f w = f (cl_channel c)" unfolding io_keeps_def by (metis snd_conv)
  with assms(2) io show ?thesis
    by (cases "cl_expired c"; cases st) (auto simp: client_write_deferred_buffer_def client_set_expired_def)
qed

lemma write_deferred_loop_keeps:
  assumes "io_keeps io f" "write_deferred_loop io bufs c = Some c'"
  shows "f (cl_channel c') = f (cl_channel c)"
  using assms(2)
proof (induction bufs arbitrary: c)
  case (Cons buf bufs)
  obtain n c1 where c1: "client_write_deferred_buffer io c buf = Some (n, c1)"
    using Cons.prems by (auto simp: bind_eq_Some_conv split: if_splits)
  have eq: "f (cl_channel c1) = f (cl_channel c)" by (rule write_deferred_buffer_keeps [OF assms(1) c1])
  let ?c = "c1\<lparr>cl_deferred_bytes := cl_deferred_bytes c1 - (deferred_header + length buf)\<rparr>"
  from Cons.prems c1 have "cl_channel c' = cl_channel c1 \<or> write_deferred_loop io bufs ?c = Some c'"
    by (auto simp: Let_def split: if_splits bind_splits)
  with Cons.IH [of ?c] eq show ?case by auto
qed auto

lemma defer_output_keeps: "client_defer_output cfg c data = Some c' \<Longrightarrow> cl_channel c' = cl_channel c"
  by (auto simp: client_defer_output_def client_set_expired_def Let_def split: if_splits bind_splits)

lemma write_direct_keeps:
  assumes "io_keeps io f" "client_write_direct io cfg c data = Some c'"
  shows "f (cl_channel c') = f (cl_channel c)"
proof -
  obtain st m w where io: "io (cl_channel c) data = (st, m, w)" by (metis prod_cases3)
  with assms(1) have "f w = f (cl_channel c)" unfolding io_keeps_def by (metis snd_conv)
  moreover from assms(2) io have "cl_channel c' = w"
    by (auto simp: client_write_direct_def client_set_expired_def Let_def dest!: defer_output_keeps split: if_splits bind_splits)
  ultimately show ?thesis by simp
qed

lemma client_write_output_keeps:
  assumes "io_keeps io f" "client_write_output io cfg c = Some c'"
  shows "f (cl_channel c') = f (cl_channel c)"
proof -
  consider "c' = c" | c1 where "client_defer_output cfg c (cl_send_buf c) = Some c1" "c' = c1"
    | c1 c2 where "client_defer_output cfg c (cl_send_buf c) = Some c1" "write_deferred_loop io (cl_deferred_send c1) c1 = Some c2"
        "cl_channel c' = cl_channel c2"
    | c1 where "client_write_direct io cfg c (cl_send_buf c) = Some c1" "cl_channel c' = cl_channel c1"
    using assms(2) by (auto simp: client_write_output_def client_write_deferred_def bind_eq_Some_conv split: if_splits)
  then show ?thesis
    by cases (auto dest!: defer_output_keeps write_deferred_loop_keeps [OF assms(1)] write_direct_keeps [OF assms(1)])
qed

lemma client_write_keeps:
  assumes "io_keeps io f" "client_write io cfg c s = Some c'"
  shows "f (cl_channel c') = f (cl_channel c)"
  using assms
proof (induction io cfg c s rule: client_write.induct)
  case (1 io cfg c s)
  show ?case
  proof (cases "s = [] \<or> client_is_expired c")
    case True
    with 1(3) show ?thesis by (subst (asm) client_write.simps) auto
  next
    case False
    let ?n = "min (send_buf_size - length (cl_send_buf c)) (length s)"
    let ?c = "c\<lparr>cl_send_buf := cl_send_buf c @ take ?n s\<rparr>"
    note step = trans [OF client_write.simps [of io cfg c s, symmetric] 1(3)]
    from step False obtain c1 where len: "length (cl_send_buf c) < send_buf_size"
      and c1: "(if send_buf_size \<le> length (cl_send_buf ?c) then client_write_output io cfg ?c else Some ?c) = Some c1"
      and w: "client_write io cfg c1 (drop ?n s) = Some c'"
      by (cases "length (cl_send_buf c) < send_buf_size") (auto simp: Let_def bind_eq_Some_conv simp del: client_write.simps)
    have "f (cl_channel c') = f (cl_channel c1)" by (rule 1(1) [OF False len refl refl c1 1(2) w])
    moreover have "f (cl_channel c1) = f (cl_channel ?c)"
      using c1 client_write_output_keeps [OF 1(2), of cfg ?c c1] by (auto split: if_splits)
    ultimately show ?thesis by simp
  qed
qed

section \<open>Replies\<close>

text \<open>
  \<open>told sent c s c'\<close>: nothing but the output of the client has changed, and \<open>s\<close> is at its end, unless
  the client has expired.  \<open>world_same\<close>: playlist, player and heap are the same.
\<close>

definition world_same :: "('v, 'g, 't) wclient \<Rightarrow> ('v, 'g, 't) wclient \<Rightarrow> bool" where
  "world_same c c' \<longleftrightarrow> c_playlist c' = c_playlist c \<and> c_pc c' = c_pc c \<and> wd_heap (cl_channel c') = wd_heap (cl_channel c)"

definition reply_state :: "('v, 'g, 't) wclient \<Rightarrow> string option \<times> nat" where
  "reply_state c = (wd_current_command (cl_channel c), wd_command_list_num (cl_channel c))"

definition told :: "('v \<Rightarrow> string) \<Rightarrow> ('v, 'g, 't) wclient \<Rightarrow> string \<Rightarrow> ('v, 'g, 't) wclient \<Rightarrow> bool" where
  "told sent c s c' \<longleftrightarrow> output_ok c' \<and> buf_room c' \<and> rest_same c c' \<and>
     (\<not> cl_expired c' \<longrightarrow> \<not> cl_expired c \<and>
       output_stream (\<lambda>w. sent (wd_socket w)) c' = output_stream (\<lambda>w. sent (wd_socket w)) c @ s)"

lemma told_refl [simp]: "output_ok c \<Longrightarrow> buf_room c \<Longrightarrow> told sent c [] c"
  by (simp add: told_def)

lemma told_trans: "told sent c a c1 \<Longrightarrow> told sent c1 b c2 \<Longrightarrow> told sent c (a @ b) c2"
  using rest_same_trans [of c c1 c2] by (auto simp: told_def)

lemma told_channel:
  assumes "wd_socket w = wd_socket (cl_channel c')"
  shows "told sent c s (c'\<lparr>cl_channel := w\<rparr>) \<longleftrightarrow> told sent c s c'"
  using assms by (simp add: told_def output_ok_def buf_room_def output_stream_def)

lemma told_channel_old:
  assumes "wd_socket w = wd_socket (cl_channel c)"
  shows "told sent (c\<lparr>cl_channel := w\<rparr>) s c' \<longleftrightarrow> told sent c s c'"
  using assms by (simp add: told_def output_ok_def buf_room_def output_stream_def)

lemma told_updates [simp]:
  "told sent c s (set_current_command x c') = told sent c s c'" "told sent (set_current_command x c) s c' = told sent c s c'"
  "told sent c s (set_command_list_num n c') = told sent c s c'" "told sent (set_command_list_num n c) s c' = told sent c s c'"
  "told sent c s (put_pstate st c') = told sent c s c'" "told sent (put_pstate st c) s c' = told sent c s c'"
  by (simp_all add: set_current_command_def set_command_list_num_def put_pstate_def told_channel told_channel_old)

lemma world_updates [simp]:
  "c_playlist (set_current_command x c) = c_playlist c" "c_pc (set_current_command x c) = c_pc c"
  "c_playlist (set_command_list_num n c) = c_playlist c" "c_pc (set_command_list_num n c) = c_pc c"
  "c_playlist (put_pstate st c) = fst st" "c_pc (put_pstate st c) = snd st"
  "reply_state (set_current_command x c) = (x, snd (reply_state c))" "reply_state (set_command_list_num n c) = (fst (reply_state c), n)"
  "reply_state (put_pstate st c) = reply_state c" "wd_current_command (cl_channel (set_current_command x c)) = x"
  "cl_permission (set_current_command x c) = cl_permission c" "cl_permission (set_command_list_num n c) = cl_permission c"
  "cl_permission (put_pstate st c) = cl_permission c"
  by (simp_all add: set_current_command_def set_command_list_num_def put_pstate_def reply_state_def)

lemma world_same_updates [simp]:
  "world_same c (set_current_command x c') = world_same c c'" "world_same (set_current_command x c) c' = world_same c c'"
  "world_same (set_command_list_num n c) c' = world_same c c'" "world_same c (set_command_list_num n c') = world_same c c'"
  "world_same c c"
  by (simp_all add: world_same_def set_current_command_def set_command_list_num_def)

lemma world_same_trans: "world_same a b \<Longrightarrow> world_same b c \<Longrightarrow> world_same a c"
  by (simp add: world_same_def)

text \<open>The connection is in order.\<close>

definition conn_ok :: "('v, 'g, 't) command_env \<Rightarrow> ('v \<Rightarrow> string) \<Rightarrow> ('v, 'g, 't) wclient \<Rightarrow> bool" where
  "conn_ok E sent c \<longleftrightarrow> channel_ok (ce_io E) sent \<and> output_ok c \<and> buf_room c"

lemma told_conn_ok: "conn_ok E sent c \<Longrightarrow> told sent c s c' \<Longrightarrow> conn_ok E sent c'"
  by (simp add: conn_ok_def told_def)

lemma conn_ok_updates [simp]:
  "conn_ok E sent (set_current_command x c) = conn_ok E sent c" "conn_ok E sent (set_command_list_num n c) = conn_ok E sent c"
  "conn_ok E sent (put_pstate st c) = conn_ok E sent c"
  by (simp_all add: conn_ok_def set_current_command_def set_command_list_num_def put_pstate_def output_ok_def buf_room_def)

lemma world_io_ok: "channel_ok io sent \<Longrightarrow> channel_ok (world_io io) (\<lambda>w. sent (wd_socket w))"
  by (auto simp: channel_ok_def world_io_def split: prod.splits)

lemma world_io_keeps:
  "io_keeps (world_io io) (\<lambda>w. (wd_playlist w, wd_pc w, wd_heap w, wd_current_command w, wd_command_list_num w))"
  by (simp add: io_keeps_def world_io_def split: prod.splits)

lemma c_puts_told:
  assumes "conn_ok E sent c"
  shows "\<exists>c'. c_puts E c s = Some c' \<and> told sent c s c' \<and> world_same c c' \<and> reply_state c' = reply_state c"
proof -
  obtain c' where c': "client_write (world_io (ce_io E)) (ce_config E) c s = Some c'"
    "delivers (\<lambda>w. sent (wd_socket w)) c s c'" "buf_room c'"
    using client_write_delivers [OF world_io_ok, of "ce_io E" sent c "ce_config E" s] assms by (auto simp: conn_ok_def)
  from client_write_keeps [OF world_io_keeps c'(1)] c' show ?thesis
    by (auto simp: c_puts_def client_puts_def told_def delivers_def world_same_def reply_state_def)
qed

definition ack_text :: "ack \<Rightarrow> nat \<Rightarrow> string \<Rightarrow> string \<Rightarrow> string" where
  "ack_text error num cmd msg =
     ''ACK ['' @ show_nat (ack_number error) @ ''@'' @ show_nat num @ ''] {'' @ cmd @ ''} '' @ msg @ newline"

lemma command_error_told:
  assumes "conn_ok E sent c" "reply_state c = (Some cmd, num)"
  shows "\<exists>c'. command_error E c error msg = Some c' \<and> told sent c (ack_text error num cmd msg) c' \<and> world_same c c'"
proof -
  have st: "wd_current_command (cl_channel c) = Some cmd" "wd_command_list_num (cl_channel c) = num"
    using assms(2) by (simp_all add: reply_state_def)
  let ?a = "''ACK ['' @ show_nat (ack_number error) @ ''@'' @ show_nat num @ ''] {'' @ cmd @ ''} ''"
  obtain c1 where 1: "c_puts E c ?a = Some c1" "told sent c ?a c1" "world_same c c1" using c_puts_told [OF assms(1)] by blast
  obtain c2 where 2: "c_puts E c1 msg = Some c2" "told sent c1 msg c2" "world_same c1 c2"
    using c_puts_told [OF told_conn_ok [OF assms(1) 1(2)]] by blast
  obtain c3 where 3: "c_puts E c2 newline = Some c3" "told sent c2 newline c3" "world_same c2 c3"
    using c_puts_told [OF told_conn_ok [OF told_conn_ok [OF assms(1) 1(2)] 2(2)]] by blast
  have "told sent c (ack_text error num cmd msg) c3"
    using told_trans [OF told_trans [OF 1(2) 2(2)] 3(2)] by (simp add: ack_text_def)
  moreover have "world_same c c3" using 1(3) 2(3) 3(3) by (blast intro: world_same_trans)
  ultimately show ?thesis using 1(1) 2(1) 3(1) st by (simp add: command_error_def)
qed

lemma fail_with_told:
  assumes "conn_ok E sent c" "reply_state c = (Some cmd, num)"
  shows "\<exists>c'. fail_with E c error msg = Some (COMMAND_RETURN_ERROR, c') \<and> told sent c (ack_text error num cmd msg) c' \<and> world_same c c'"
  using command_error_told [OF assms, of error msg] by (auto simp: fail_with_def)

text \<open>Success prints nothing, every error prints one line.\<close>

definition answered :: "('v \<Rightarrow> string) \<Rightarrow> ('v, 'g, 't) wclient \<Rightarrow> string \<Rightarrow> nat \<Rightarrow> command_return \<Rightarrow> ('v, 'g, 't) wclient \<Rightarrow> bool" where
  "answered sent c cmd num ret c' \<longleftrightarrow>
     ret = COMMAND_RETURN_OK \<and> told sent c [] c' \<or>
     ret = COMMAND_RETURN_ERROR \<and> (\<exists>error msg. told sent c (ack_text error num cmd msg) c')"

lemma print_error2_answers:
  assumes "conn_ok E sent c" "reply_state c = (Some cmd, num)"
  shows "\<exists>ret c'. print_error2 E c r = Some (ret, c') \<and> answered sent c cmd num ret c' \<and> world_same c c' \<and>
    (ret = COMMAND_RETURN_OK \<longleftrightarrow> r = MPD_SUCCESS)"
proof (cases "r = MPD_SUCCESS")
  case True
  then show ?thesis using assms(1) by (simp add: print_error2_def answered_def conn_ok_def)
next
  case False
  then obtain error msg where "print_error2 E c r = fail_with E c error msg"
    by (cases r) (simp_all add: print_error2_def)
  with False fail_with_told [OF assms, of error msg] show ?thesis by (auto simp: answered_def)
qed

section \<open>Arguments\<close>

lemma stops_Nil [simp]: "stops_number []" "stops_number (CHR '':'' # s)"
  by (simp_all add: stops_number_def is_digit_def)

lemma check_unsigned_show: "n < 2 ^ 32 \<Longrightarrow> check_unsigned E c (show_nat n) = Some (Some n, c)"
  using strtoul_show_nat [of "[]" n] by (auto simp: check_unsigned_def)

lemma show_int_not_Nil: "show_int i \<noteq> []"
  by (simp add: show_int_def)

lemma check_int_show: "- (2 ^ 31) \<le> i \<Longrightarrow> i < 2 ^ 31 \<Longrightarrow> check_int E c (show_int i) = Some (Some i, c)"
  using strtol_show_int [of "[]" i] show_int_not_Nil [of i] by (auto simp: check_int_def)

lemma check_bool_show: "check_bool E c (show_flag b) = Some (Some b, c)"
proof -
  have "strtol ''0'' = (0, [])" "strtol ''1'' = (1, [])" by code_simp+
  then show ?thesis by (simp add: check_bool_def)
qed

lemma check_range_show:
  assumes "a < 2 ^ 32" "b < 2 ^ 32"
  shows "check_range E c (show_nat a @ '':'' @ show_nat b) = Some (Some (a, b), c)"
proof -
  have "strtol (show_nat a @ CHR '':'' # show_nat b) = (int a, CHR '':'' # show_nat b)"
    using strtol_show_nat [of "CHR '':'' # show_nat b" a] assms by simp
  moreover have "strtol (show_nat b) = (int b, [])" using strtol_show_nat [of "[]" b] assms by simp
  ultimately show ?thesis using assms by (simp add: check_range_def)
qed

section \<open>The binary search\<close>

lemma strcmp_0 [simp]: "strcmp s t = 0 \<longleftrightarrow> s = t"
  by (induction s t rule: strcmp.induct) (auto simp: not_less dest: antisym)

lemma strcmp_refl [simp]: "strcmp s s = 0"
  by simp

lemma strcmp_swap: "strcmp s t < 0 \<longleftrightarrow> 0 < strcmp t s"
  by (induction s t rule: strcmp.induct) auto

lemma strcmp_trans: "strcmp s t < 0 \<Longrightarrow> strcmp t u < 0 \<Longrightarrow> strcmp s u < 0"
proof (induction s t arbitrary: u rule: strcmp.induct)
  case (2 c cs)
  then show ?case by (cases u) auto
next
  case (4 c cs d ds)
  obtain e es where u: "u = e # es" using 4(3) by (cases u) simp_all
  let ?n = "of_char :: char \<Rightarrow> nat"
  have "?n c < ?n d \<or> ?n c = ?n d \<and> strcmp cs ds < 0" "?n d < ?n e \<or> ?n d = ?n e \<and> strcmp ds es < 0"
    using 4(2,3) by (simp_all add: u split: if_splits)
  moreover have "strcmp cs es < 0" if "?n c = ?n d" "strcmp cs ds < 0" "strcmp ds es < 0"
    using 4(1) that by simp
  ultimately show ?case by (auto simp: u)
qed simp_all

abbreviation name_order :: "command_entry \<Rightarrow> command_entry \<Rightarrow> bool" where
  "name_order x y \<equiv> strcmp (cmd_name x) (cmd_name y) < 0"

text \<open>The table is sorted, as \<^verbatim>\<open>command_init\<close> asserts.\<close>

lemma commands_sorted: "sorted_wrt name_order commands"
proof -
  have "successively name_order commands" by code_simp
  moreover have "transp name_order" by (auto simp: transp_def intro: strcmp_trans)
  ultimately show ?thesis by (simp add: successively_conv_sorted_wrt)
qed

lemma lookup_loop_finds:
  assumes "sorted_wrt name_order cmds" "a < b" "b \<le> length cmds"
    "\<forall>j < a. 0 < strcmp name (cmd_name (cmds ! j))" "\<forall>j < length cmds. b \<le> j \<longrightarrow> strcmp name (cmd_name (cmds ! j)) < 0"
  shows "lookup_loop cmds name a b = Some (find (\<lambda>e. cmd_name e = name) cmds)"
  using assms
proof (induction cmds name a b rule: lookup_loop.induct)
  case (1 cmds name a b)
  let ?i = "(a + b) div 2" and ?p = "\<lambda>e. cmd_name e = name"
  have i: "a \<le> ?i" "?i < b" "?i < length cmds" using 1(4,5) by auto
  let ?cmp = "strcmp name (cmd_name (cmds ! ?i))"
  have lt: "j < k \<Longrightarrow> k < length cmds \<Longrightarrow> name_order (cmds ! j) (cmds ! k)" for j k
    using 1(3) by (simp add: sorted_wrt_iff_nth_less)
  have get: "aget cmds ?i = Some (cmds ! ?i)" using i(3) by simp
  have none: "find ?p cmds = None" if "\<forall>j < length cmds. strcmp name (cmd_name (cmds ! j)) \<noteq> 0"
    using that by (auto simp: find_None_iff in_set_conv_nth)
  consider "?cmp = 0" | "?cmp < 0" | "0 < ?cmp" by linarith
  then show ?case
  proof cases
    case 1
    then have n: "cmd_name (cmds ! ?i) = name" by simp
    have "cmd_name (cmds ! j) \<noteq> name" if "j < ?i" for j using lt [OF that i(3)] n by (metis strcmp_0 less_irrefl)
    with n i(3) have "find ?p cmds = Some (cmds ! ?i)" by (auto simp: find_Some_iff)
    then show ?thesis using 1 get by (subst lookup_loop.simps) (auto simp: Let_def)
  next
    case 2
    then have nz: "?cmp \<noteq> 0" by linarith
    have up: "strcmp name (cmd_name (cmds ! j)) < 0" if "?i \<le> j" "j < length cmds" for j
      using 2 lt [of ?i j] that strcmp_trans by (cases "j = ?i") auto
    show ?thesis
    proof (cases "a < ?i")
      case True
      have "lookup_loop cmds name a ?i = Some (find ?p cmds)"
        by (rule "1.IH"(1) [OF refl get refl nz 2 True]) (use 1(3) True i up 1(6) in auto)
      then show ?thesis using 2 True get by (subst lookup_loop.simps) (auto simp: Let_def)
    next
      case False
      then have "a = ?i" using i(1) by simp
      have "\<forall>j < length cmds. strcmp name (cmd_name (cmds ! j)) \<noteq> 0"
        using up 1(6) \<open>a = ?i\<close> by (metis less_irrefl not_less)
      then show ?thesis using 2 False get none by (subst lookup_loop.simps) (auto simp: Let_def)
    qed
  next
    case 3
    then have nz: "?cmp \<noteq> 0" "\<not> ?cmp < 0" by linarith+
    have low: "0 < strcmp name (cmd_name (cmds ! j))" if "j \<le> ?i" for j
      using 3 lt [of j ?i] that i(3) by (cases "j = ?i") (auto simp: strcmp_swap [symmetric] intro: strcmp_trans)
    show ?thesis
    proof (cases "?i + 1 < b")
      case True
      have "lookup_loop cmds name (?i + 1) b = Some (find ?p cmds)"
        by (rule "1.IH"(2) [OF refl get refl nz True]) (use 1(3,5,7) True low in auto)
      then show ?thesis using 3 True get by (subst lookup_loop.simps) (auto simp: Let_def)
    next
      case False
      then have "b = ?i + 1" using i(2) by simp
      have "strcmp name (cmd_name (cmds ! j)) \<noteq> 0" if "j < length cmds" for j
        using low [of j] 1(7) that \<open>b = ?i + 1\<close> by (cases "j \<le> ?i") auto
      then show ?thesis using 3 False get none by (subst lookup_loop.simps) (auto simp: Let_def)
    qed
  qed
qed

lemma command_lookup_finds: "command_lookup name = Some (find (\<lambda>e. cmd_name e = name) commands)"
  unfolding command_lookup_def by (rule lookup_loop_finds [OF commands_sorted]) (simp_all add: commands_def)

end
