(* ===== verification/Command_Serve.thy ===== *)
theory Command_Serve
  imports Command_Inv
begin

text \<open>
  From the text of a command to the playlist: every request of \<open>Playlist_Machine\<close> that a command asks
  for, written as the protocol documents it, is read, checked and carried out.
\<close>

unbundle bit_operations_syntax

section \<open>Requests as command lines\<close>

definition range_text :: "nat \<Rightarrow> nat \<Rightarrow> string" where
  "range_text a b = show_nat a @ '':'' @ show_nat b"

text \<open>The words of a request.  Adding a song is asked for by its URI, and the last requests come from the main loop.\<close>

fun request_words :: "playlist_request \<Rightarrow> string list option" where
  "request_words (Play song) = Some [''play'', show_int song]"
| "request_words Stop = Some [''stop'']"
| "request_words Next = Some [''next'']"
| "request_words Previous = Some [''previous'']"
| "request_words (Seek song t) = Some [''seek'', show_nat song, show_nat (nat \<lfloor>t\<rfloor>)]"
| "request_words (Delete_Songs start end) = Some [''delete'', range_text start end]"
| "request_words (Swap_Songs s1 s2) = Some [''swap'', show_nat s1, show_nat s2]"
| "request_words (Move_Songs start end to) = Some [''move'', range_text start end, show_int (int to)]"
| "request_words (Shuffle start end) = Some [''shuffle'', range_text start end]"
| "request_words (Set_Priority start end v) = Some [''prio'', show_nat (unat v), range_text start end]"
| "request_words (Set_Random b) = Some [''random'', show_flag b]"
| "request_words (Set_Repeat b) = Some [''repeat'', show_flag b]"
| "request_words (Set_Single b) = Some [''single'', show_flag b]"
| "request_words (Set_Consume b) = Some [''consume'', show_flag b]"
| "request_words Clear_All = Some [''clear'']"
| "request_words _ = None"

text \<open>The numbers fit into an \<^verbatim>\<open>unsigned\<close> or an \<^verbatim>\<open>int\<close>, and a time is a whole number of seconds.\<close>

fun request_fits :: "playlist_request \<Rightarrow> bool" where
  "request_fits (Play song) \<longleftrightarrow> - (2 ^ 31) \<le> song \<and> song < 2 ^ 31"
| "request_fits (Seek song t) \<longleftrightarrow> song < 2 ^ 32 \<and> (\<exists>n < 2 ^ 32. t = of_nat n)"
| "request_fits (Delete_Songs start end) \<longleftrightarrow> start < 2 ^ 32 \<and> end < 2 ^ 32"
| "request_fits (Swap_Songs s1 s2) \<longleftrightarrow> s1 < 2 ^ 32 \<and> s2 < 2 ^ 32"
| "request_fits (Move_Songs start end to) \<longleftrightarrow> start < 2 ^ 32 \<and> end < 2 ^ 32 \<and> to < 2 ^ 31"
| "request_fits (Shuffle start end) \<longleftrightarrow> start < 2 ^ 32 \<and> end < 2 ^ 32"
| "request_fits (Set_Priority start end v) \<longleftrightarrow> start < 2 ^ 32 \<and> end < 2 ^ 32"
| "request_fits _ \<longleftrightarrow> True"

text \<open>\<open>next\<close> ignores the single mode.\<close>

definition set_single :: "bool \<Rightarrow> 'g playlist \<Rightarrow> 'g playlist" where
  "set_single b pl = pl\<lparr>pl_queue := (pl_queue pl)\<lparr>q_single := b\<rparr>\<rparr>"

fun execute :: "'g glib \<Rightarrow> 't player_thread \<Rightarrow> playlist_request \<Rightarrow> ('g, 't) pstate \<Rightarrow> ('g, 't) pstate option" where
  "execute G PT Next (pl, pc) = do {
     (pl', pc') \<leftarrow> serve G PT Next (set_single False pl, pc);
     Some (set_single (q_single (pl_queue pl)) pl', pc')
   }"
| "execute G PT r st = serve G PT r st"

fun acceptable :: "playlist_request \<Rightarrow> 'g playlist \<Rightarrow> bool" where
  "acceptable Next pl = admissible Next (set_single False pl)"
| "acceptable r pl = admissible r pl"

lemma playlist_ok_set_single [simp]: "playlist_ok rest (set_single b pl) pc = playlist_ok rest pl pc"
  by (simp add: set_single_def playlist_ok_def songs_ok_def queue_view_def)

lemma execute_served:
  assumes "live_player PT rest" "glib_ok G" "playlist_ok rest pl pc" "acceptable r pl"
  shows "\<exists>pl' pc'. execute G PT r (pl, pc) = Some (pl', pc') \<and> playlist_ok rest pl' pc'"
proof (cases "r = Next")
  case True
  have adm: "admissible Next (set_single False pl)" using assms(4) True by (simp only: acceptable.simps)
  have "playlist_ok rest (set_single False pl) pc" using assms(3) by simp
  from admissible_served [OF assms(1,2) this adm] obtain pl' pc' where "serve G PT Next (set_single False pl, pc) = Some (pl', pc')" "playlist_ok rest pl' pc'"
    unfolding served_def by blast
  with True show ?thesis by (simp del: serve.simps)
next
  case False
  then have "execute G PT r (pl, pc) = serve G PT r (pl, pc)" "acceptable r pl = admissible r pl" by (cases r; simp)+
  with admissible_served [OF assms(1-3), of r] assms(4) show ?thesis by (simp add: served_def)
qed

section \<open>Handlers\<close>

lemma told_permission: "told sent c s c' \<Longrightarrow> cl_permission c' = cl_permission c"
  by (cases c; cases c') (simp add: told_def rest_same_def)


definition carried_out ::
    "('v, 'g, 't) command_env \<Rightarrow> ('v \<Rightarrow> string) \<Rightarrow> ('v, 'g, 't) wclient \<Rightarrow> string \<Rightarrow> nat \<Rightarrow>
     (command_return \<times> ('v, 'g, 't) wclient) option \<Rightarrow> ('g, 't) pstate \<Rightarrow> bool" where
  "carried_out E sent c cmd num m st \<longleftrightarrow> (\<exists>ret c'. m = Some (ret, c') \<and> answered sent c cmd num ret c' \<and>
     cl_permission c' = cl_permission c \<and> (c_playlist c', c_pc c') = st)"

lemma carried_out_OK:
  assumes "conn_ok E sent c"
  shows "carried_out E sent c cmd num (Some (COMMAND_RETURN_OK, put_pstate st c)) st"
  using assms by (simp add: carried_out_def answered_def conn_ok_def)

lemma carried_out_error2:
  assumes "conn_ok E sent c" "reply_state c = (Some cmd, num)"
  shows "carried_out E sent c cmd num (print_error2 E (put_pstate st c) r) st"
proof -
  have "conn_ok E sent (put_pstate st c)" "reply_state (put_pstate st c) = (Some cmd, num)" using assms by simp_all
  from print_error2_answers [OF this, of r] obtain ret c' where
    "print_error2 E (put_pstate st c) r = Some (ret, c')" "answered sent (put_pstate st c) cmd num ret c'"
    "world_same (put_pstate st c) c'" by blast
  moreover from this(2) have "cl_permission c' = cl_permission c"
    by (auto simp: answered_def dest!: told_permission)
  ultimately show ?thesis by (auto simp: carried_out_def answered_def world_same_def)
qed

text \<open>A command on the playlist with the result of the operation, and one without.\<close>

lemma carried_out_result:
  assumes "conn_ok E sent c" "reply_state c = (Some cmd, num)" "map_option snd m = Some st"
  shows "carried_out E sent c cmd num (m \<bind> (\<lambda>(r, st). print_error2 E (put_pstate st c) r)) st"
  using assms(3) carried_out_error2 [OF assms(1,2)] by (auto simp: map_option_eq_Some)

lemma carried_out_plain:
  assumes "conn_ok E sent c" "m = Some st"
  shows "carried_out E sent c cmd num (m \<bind> (\<lambda>st. Some (COMMAND_RETURN_OK, put_pstate st c))) st"
  using carried_out_OK [OF assms(1), of cmd num st] assms(2) by simp

lemma checked_value [simp]: "checked (Some (Some v, c)) f = f v c"
  by (simp add: checked_def)

lemma check_range_text: "a < 2 ^ 32 \<Longrightarrow> b < 2 ^ 32 \<Longrightarrow> check_range E c (range_text a b) = Some (Some (a, b), c)"
  unfolding range_text_def by (rule check_range_show)

text \<open>The handler of a request does what the request asks for.\<close>

lemma handler_Play:
  assumes "conn_ok E sent c" "reply_state c = (Some ''play'', num)" "request_fits (Play song)"
    "serve (ce_glib E) (ce_thread E) (Play song) (c_playlist c, c_pc c) = Some st"
  shows "carried_out E sent c ''play'' num (handle_play E c [''play'', show_int song]) st"
  using carried_out_result [OF assms(1,2)] assms(3,4) by (simp add: handle_play_def check_int_show)

lemma handler_ranges:
  assumes "conn_ok E sent c" "reply_state c = (Some cmd, num)" "start < 2 ^ 32" "end < 2 ^ 32"
  shows "serve (ce_glib E) (ce_thread E) (Delete_Songs start end) (c_playlist c, c_pc c) = Some st \<Longrightarrow>
      carried_out E sent c cmd num (handle_delete E c [cmd, range_text start end]) st"
    "serve (ce_glib E) (ce_thread E) (Shuffle start end) (c_playlist c, c_pc c) = Some st \<Longrightarrow> queue_wf (pl_queue (c_playlist c)) \<Longrightarrow>
      carried_out E sent c cmd num (handle_shuffle E c [cmd, range_text start end]) st"
    "serve (ce_glib E) (ce_thread E) (Move_Songs start end to) (c_playlist c, c_pc c) = Some st \<Longrightarrow> to < 2 ^ 31 \<Longrightarrow>
      carried_out E sent c cmd num (handle_move E c [cmd, range_text start end, show_int (int to)]) st"
  using carried_out_result [OF assms(1,2)] carried_out_plain [OF assms(1)] assms(3,4)
  by (simp_all add: handle_delete_def handle_shuffle_def handle_move_def check_range_text check_int_show)

lemma handler_songs:
  assumes "conn_ok E sent c" "reply_state c = (Some cmd, num)"
  shows "serve (ce_glib E) (ce_thread E) (Seek song (of_nat t)) (c_playlist c, c_pc c) = Some st \<Longrightarrow> song < 2 ^ 32 \<Longrightarrow> t < 2 ^ 32 \<Longrightarrow>
      carried_out E sent c cmd num (handle_seek E c [cmd, show_nat song, show_nat t]) st"
    "serve (ce_glib E) (ce_thread E) (Swap_Songs s1 s2) (c_playlist c, c_pc c) = Some st \<Longrightarrow> s1 < 2 ^ 32 \<Longrightarrow> s2 < 2 ^ 32 \<Longrightarrow>
      carried_out E sent c cmd num (handle_swap E c [cmd, show_nat s1, show_nat s2]) st"
  using carried_out_result [OF assms(1,2)]
  by (simp_all add: handle_seek_def handle_swap_def check_unsigned_show)

lemma handler_modes:
  assumes "conn_ok E sent c"
  shows "serve (ce_glib E) (ce_thread E) (Set_Random b) (c_playlist c, c_pc c) = Some st \<Longrightarrow>
      carried_out E sent c cmd num (handle_random E c [cmd, show_flag b]) st"
    "serve (ce_glib E) (ce_thread E) (Set_Repeat b) (c_playlist c, c_pc c) = Some st \<Longrightarrow>
      carried_out E sent c cmd num (handle_repeat E c [cmd, show_flag b]) st"
    "serve (ce_glib E) (ce_thread E) (Set_Single b) (c_playlist c, c_pc c) = Some st \<Longrightarrow>
      carried_out E sent c cmd num (handle_single E c [cmd, show_flag b]) st"
    "serve (ce_glib E) (ce_thread E) (Set_Consume b) (c_playlist c, c_pc c) = Some st \<Longrightarrow>
      carried_out E sent c cmd num (handle_consume E c [cmd, show_flag b]) st"
  using carried_out_plain [OF assms]
  by (simp_all add: handle_random_def handle_repeat_def handle_single_def handle_consume_def check_bool_show del: if_split)

lemma handler_plain:
  assumes "conn_ok E sent c"
  shows "serve (ce_glib E) (ce_thread E) Stop (c_playlist c, c_pc c) = Some st \<Longrightarrow> carried_out E sent c cmd num (handle_stop E c argv) st"
    "serve (ce_glib E) (ce_thread E) Previous (c_playlist c, c_pc c) = Some st \<Longrightarrow> carried_out E sent c cmd num (handle_previous E c argv) st"
    "serve (ce_glib E) (ce_thread E) Clear_All (c_playlist c, c_pc c) = Some st \<Longrightarrow> carried_out E sent c cmd num (handle_clear E c argv) st"
    "execute (ce_glib E) (ce_thread E) Next (c_playlist c, c_pc c) = Some st \<Longrightarrow> carried_out E sent c cmd num (handle_next E c argv) st"
  using carried_out_plain [OF assms] carried_out_OK [OF assms]
  by (auto simp: handle_stop_def handle_previous_def handle_clear_def handle_next_def set_single_def bind_eq_Some_conv)

lemma handler_Set_Priority:
  assumes "conn_ok E sent c" "reply_state c = (Some cmd, num)" "start < 2 ^ 32" "end < 2 ^ 32"
    "serve (ce_glib E) (ce_thread E) (Set_Priority start end v) (c_playlist c, c_pc c) = Some st"
  shows "carried_out E sent c cmd num (handle_prio E c [cmd, show_nat (unat v), range_text start end]) st"
proof -
  have v: "unat v < 2 ^ 8" using unsigned_less [of v, where ?'a = nat] by simp
  obtain r where r: "playlist_set_priority (ce_glib E) (ce_thread E) (c_playlist c) (c_pc c) start end v = Some (r, st)"
    using assms(5) by auto
  have "carried_out E sent c cmd num (prio_loop E v c [range_text start end]) st"
    using r assms carried_out_OK [OF assms(1), of cmd num st] carried_out_error2 [OF assms(1,2), of st r]
    by (cases "r = MPD_SUCCESS") (simp_all add: check_range_text)
  then show ?thesis using v by (simp add: handle_prio_def check_unsigned_show)
qed

lemma request_handler:
  "command_handler E addAllIn other ''play'' = handle_play E" "command_handler E addAllIn other ''stop'' = handle_stop E"
  "command_handler E addAllIn other ''next'' = handle_next E" "command_handler E addAllIn other ''previous'' = handle_previous E"
  "command_handler E addAllIn other ''seek'' = handle_seek E" "command_handler E addAllIn other ''delete'' = handle_delete E"
  "command_handler E addAllIn other ''swap'' = handle_swap E" "command_handler E addAllIn other ''move'' = handle_move E"
  "command_handler E addAllIn other ''shuffle'' = handle_shuffle E" "command_handler E addAllIn other ''prio'' = handle_prio E"
  "command_handler E addAllIn other ''random'' = handle_random E" "command_handler E addAllIn other ''repeat'' = handle_repeat E"
  "command_handler E addAllIn other ''single'' = handle_single E" "command_handler E addAllIn other ''consume'' = handle_consume E"
  "command_handler E addAllIn other ''clear'' = handle_clear E"
  by (simp_all add: command_handler_def command_handlers_def)

lemma handler_serves:
  assumes "request_words r = Some argv" "request_fits r" "conn_ok E sent c" "reply_state c = (Some (hd argv), num)"
    "queue_wf (pl_queue (c_playlist c))" "execute (ce_glib E) (ce_thread E) r (c_playlist c, c_pc c) = Some st"
  shows "carried_out E sent c (hd argv) num (command_handler E addAllIn other (hd argv) c argv) st"
proof (cases r)
  case (Play song)
  then show ?thesis using handler_Play [of E sent c num song st] assms by (auto simp: request_handler simp del: serve.simps)
next
  case (Seek song t)
  then obtain n where n: "t = of_nat n" "n < 2 ^ 32" using assms(2) by auto
  then show ?thesis
    using Seek handler_songs(1) [OF assms(3,4), of song n st] assms by (auto simp: request_handler simp del: serve.simps)
qed (use assms in \<open>auto simp: request_handler simp del: serve.simps execute.simps(1) split del: if_split
    intro!: handler_ranges handler_songs handler_modes handler_plain handler_Set_Priority\<close>)

section \<open>The line of a request\<close>

text \<open>What is documented of the character classes of glib.\<close>

definition ascii_ok :: "('v, 'g, 't) command_env \<Rightarrow> bool" where
  "ascii_ok E \<longleftrightarrow> (\<forall>c. ce_isspace E c \<longleftrightarrow> (of_char c :: nat) \<in> {9, 10, 12, 13, 32}) \<and>
     (\<forall>c. ce_isalpha E c \<longleftrightarrow> (of_char c :: nat) \<in> {65..90} \<union> {97..122}) \<and>
     (\<forall>c. ce_isalnum E c \<longleftrightarrow> ce_isalpha E c \<or> is_digit c)"

definition word_ok :: "('v, 'g, 't) command_env \<Rightarrow> string \<Rightarrow> bool" where
  "word_ok E w \<longleftrightarrow> w \<noteq> [] \<and> list_all (\<lambda>c. ce_isalpha E c \<and> \<not> ce_isspace E c) w"

lemma next_word_plain:
  assumes "ascii_ok E" "word_ok E w" "rest = [] \<or> ce_isspace E (hd rest)"
  shows "tokenizer_next_word (ce_isspace E) (ce_isalpha E) (ce_isalnum E) (w @ rest) =
    (TOKEN w, strchug_fast (ce_isspace E) (tl rest))"
proof (cases w)
  case (Cons c cs)
  have "list_all (\<lambda>c. valid_word_char (ce_isalnum E) c \<and> \<not> ce_isspace E c) cs"
    using assms(1,2) Cons by (auto simp: list_all_iff word_ok_def valid_word_char_def ascii_ok_def)
  from word_loop_valid [OF this assms(3), of TOKEN_NULL "[c]"] Cons assms(2) show ?thesis
    by (simp add: tokenizer_next_word_def valid_word_first_char_def word_ok_def)
qed (use assms(2) in \<open>simp add: word_ok_def\<close>)

definition command_line :: "string list \<Rightarrow> string" where
  "command_line argv = join_params (map (Pair False) argv)"

lemma command_line_tokens:
  assumes "ascii_ok E" "word_ok E w" "\<forall>a \<in> set args. param_ok (ce_isspace E) (False, a)" "length args < n"
  shows "\<exists>line. tokenizer_next_word (ce_isspace E) (ce_isalpha E) (ce_isalnum E) (command_line (w # args)) = (TOKEN w, line) \<and>
    tokenizer_params n (ce_isspace E) line = (args, TOKEN_NULL, [])"
proof -
  let ?ps = "map (Pair False) args"
  have sp: "ce_isspace E (CHR '' '')" "\<not> ce_isspace E (CHR 0x22)" using assms(1) by (simp_all add: ascii_ok_def)
  have ok: "\<forall>p \<in> set ?ps. param_ok (ce_isspace E) p" using assms(3) by auto
  have params: "tokenizer_params n (ce_isspace E) (join_params ?ps) = (args, TOKEN_NULL, [])"
    using tokenizer_params_join [OF ok sp, of n] assms(4) by (simp add: comp_def)
  have "tokenizer_next_word (ce_isspace E) (ce_isalpha E) (ce_isalnum E) (command_line (w # args)) = (TOKEN w, join_params ?ps)"
  proof (cases args)
    case Nil
    then show ?thesis using next_word_plain [OF assms(1,2), of "[]"] by (simp add: command_line_def strchug_fast_def)
  next
    case (Cons a as)
    then have "?ps \<noteq> []" by simp
    from join_params_head [OF this ok sp(2)] Cons next_word_plain [OF assms(1,2), of "CHR '' '' # join_params ?ps"] sp(1)
    show ?thesis by (simp add: command_line_def)
  qed
  with params show ?thesis by blast
qed

lemma request_entry:
  assumes "request_words r = Some argv"
  shows "\<exists>e. command_lookup (hd argv) = Some (Some e) \<and> cmd_name e = hd argv \<and> cmd_permission e = PERMISSION_CONTROL \<and>
    (may_use permission e \<longrightarrow> command_check_request E e c permission argv = Some (True, c))"
  using assms
  by (cases r) (auto simp: command_lookup_finds commands_def command_check_request_def Let_def split del: if_split)

lemma plain_param:
  assumes "ascii_ok E" "s \<noteq> []" "\<forall>c \<in> set s. is_digit c \<or> c = CHR '':'' \<or> c = CHR ''-''"
  shows "param_ok (ce_isspace E) (False, s)"
proof -
  have "valid_unquoted_char c \<and> \<not> ce_isspace E c" if "is_digit c \<or> c = CHR '':'' \<or> c = CHR ''-''" for c
    using that assms(1) by (auto simp: is_digit_def valid_unquoted_char_def ascii_ok_def)
  with assms(2,3) show ?thesis by (auto simp: param_ok_def list_all_iff)
qed

lemma number_params:
  assumes "ascii_ok E"
  shows "param_ok (ce_isspace E) (False, show_nat n)" "param_ok (ce_isspace E) (False, show_int i)"
    "param_ok (ce_isspace E) (False, range_text a b)" "param_ok (ce_isspace E) (False, show_flag f)"
  using show_nat_digits by (auto intro!: plain_param [OF assms] simp: show_int_def range_text_def list_all_iff is_digit_def)

lemma request_tokens:
  assumes "ascii_ok E" "request_words r = Some argv"
  shows "\<exists>w args. argv = w # args \<and> word_ok E w \<and> (\<forall>a \<in> set args. param_ok (ce_isspace E) (False, a)) \<and> length args < 37"
proof -
  have w: "word_ok E w" if "w \<noteq> []" "list_all (\<lambda>c. 97 \<le> (of_char c :: nat) \<and> (of_char c :: nat) \<le> 122) w" for w
    using that assms(1) by (auto simp: word_ok_def ascii_ok_def list_all_iff)
  show ?thesis
    using assms(2) number_params [OF assms(1)] by (cases r) (auto intro!: w split del: if_split)
qed

lemma command_process_serves:
  assumes "ascii_ok E" "conn_ok E sent c" "request_words r = Some argv" "request_fits r"
    and "live_player (ce_thread E) rest" "glib_ok (ce_glib E)" "playlist_ok rest (c_playlist c) (c_pc c)"
    and "acceptable r (c_playlist c)" "cl_permission c AND PERMISSION_CONTROL = PERMISSION_CONTROL"
  shows "\<exists>ret c'. command_process E addAllIn other c num (command_line argv) = Some (ret, c') \<and>
    answered sent c (hd argv) num ret c' \<and> playlist_ok rest (c_playlist c') (c_pc c') \<and>
    execute (ce_glib E) (ce_thread E) r (c_playlist c, c_pc c) = Some (c_playlist c', c_pc c')"
proof -
  obtain w args where argv: "argv = w # args" "word_ok E w" "\<forall>a \<in> set args. param_ok (ce_isspace E) (False, a)"
    "length args < 37" using request_tokens [OF assms(1,3)] by blast
  obtain line where tok: "tokenizer_next_word (ce_isspace E) (ce_isalpha E) (ce_isalnum E) (command_line argv) = (TOKEN w, line)"
    "tokenizer_params (COMMAND_ARGV_MAX - 1) (ce_isspace E) line = (args, TOKEN_NULL, [])"
    using command_line_tokens [OF assms(1) argv(2,3), of "COMMAND_ARGV_MAX - 1"] argv(1,4) by auto
  let ?c = "set_current_command (Some w) (set_current_command (Some []) (set_current_command (Some w) (set_command_list_num num c)))"
  obtain e where e: "command_lookup w = Some (Some e)" "cmd_name e = w" "cmd_permission e = PERMISSION_CONTROL"
    "may_use (cl_permission c) e \<longrightarrow> command_check_request E e ?c (cl_permission c) argv = Some (True, ?c)"
    using request_entry [OF assms(3), of "cl_permission c" E ?c] argv(1) by auto
  have "may_use (cl_permission c) e" using e(3) assms(9) by (simp add: may_use_def)
  with e have lookup: "command_checked_lookup E (set_current_command (Some w) (set_command_list_num num c)) (cl_permission c) argv =
      Some (Some e, ?c)"
    using argv(1) by (simp add: command_checked_lookup_def Let_def)
  obtain pl' pc' where x: "execute (ce_glib E) (ce_thread E) r (c_playlist c, c_pc c) = Some (pl', pc')" "playlist_ok rest pl' pc'"
    using execute_served [OF assms(5-8)] by blast
  have "carried_out E sent ?c w num (command_handler E addAllIn other w ?c argv) (pl', pc')"
    using handler_serves [OF assms(3,4), of E sent ?c num "(pl', pc')" addAllIn other] assms(2,7) x(1) argv(1)
    by (simp add: playlist_ok_def)
  then obtain ret c' where r: "command_handler E addAllIn other w ?c argv = Some (ret, c')" "answered sent c w num ret c'"
    "c_playlist c' = pl'" "c_pc c' = pc'" by (auto simp: carried_out_def answered_def)
  have "command_process E addAllIn other c num (command_line argv) =
      Some (ret, set_command_list_num 0 (set_current_command None c'))"
    using tok lookup e(2) r(1) argv(1,4) by (simp add: command_process_def Let_def)
  with r x argv(1) show ?thesis by (auto simp: answered_def)
qed

section \<open>Lines of a client\<close>

text \<open>The end of a command: the reply is completed and flushed.\<close>

lemma write_output_told:
  assumes "conn_ok E sent c"
  shows "\<exists>c'. client_write_output (world_io (ce_io E)) (ce_config E) c = Some c' \<and> told sent c [] c' \<and> world_same c c'"
proof -
  have ch: "channel_ok (world_io (ce_io E)) (\<lambda>w. sent (wd_socket w))" using assms by (simp add: conn_ok_def world_io_ok)
  have ok: "output_ok c" "buf_room c" using assms by (simp_all add: conn_ok_def)
  obtain c' where c': "client_write_output (world_io (ce_io E)) (ce_config E) c = Some c'"
    "delivers (\<lambda>w. sent (wd_socket w)) c [] c'" "\<not> cl_expired c' \<longrightarrow> cl_send_buf c' = []"
    using client_write_output_delivers [OF ch ok(1)] by blast
  from client_write_output_keeps [OF world_io_keeps c'(1)] c' show ?thesis
    by (auto simp: told_def delivers_def world_same_def buf_room_def)
qed

definition final_reply :: "command_return \<Rightarrow> string \<Rightarrow> string" where
  "final_reply ret s = (if ret = COMMAND_RETURN_OK then s @ ''OK'' @ newline else s)"

lemma finish_command_told:
  assumes "conn_ok E sent c" "ret \<noteq> COMMAND_RETURN_CLOSE"
  shows "\<exists>ret' c'. finish_command (world_io (ce_io E)) (ce_config E) ret c = Some (ret', c') \<and> told sent c (final_reply ret []) c' \<and>
    world_same c c' \<and> (\<not> cl_expired c \<longrightarrow> ret' = ret)"
proof (cases "cl_expired c")
  case True
  with assms(1) show ?thesis by (auto simp: finish_command_def client_is_expired_def told_def conn_ok_def)
next
  case False
  obtain c1 where c1: "(if ret = COMMAND_RETURN_OK then command_success (world_io (ce_io E)) (ce_config E) c else Some c) = Some c1"
    "told sent c (final_reply ret []) c1" "world_same c c1"
    using c_puts_told [OF assms(1), of "''OK'' @ newline"] assms(1)
    by (cases "ret = COMMAND_RETURN_OK") (auto simp: final_reply_def command_success_def c_puts_def conn_ok_def)
  obtain c2 where c2: "client_write_output (world_io (ce_io E)) (ce_config E) c1 = Some c2" "told sent c1 [] c2" "world_same c1 c2"
    using write_output_told [OF told_conn_ok [OF assms(1) c1(2)]] by blast
  show ?thesis
    using False assms(2) c1 c2 told_trans [OF c1(2) c2(2)] world_same_trans [OF c1(3) c2(3)]
    by (auto simp: finish_command_def client_is_expired_def)
qed

text \<open>The words of a request are none of those that \<^verbatim>\<open>client_process_line\<close> treats itself.\<close>

lemma command_line_special:
  assumes "request_words r = Some argv"
  shows "command_line argv \<notin> {''noidle'', ''command_list_begin'', ''command_list_ok_begin'', ''command_list_end''}"
  using assms by (cases r) (auto simp: command_line_def split del: if_split)

lemma client_line_serves:
  assumes E: "ascii_ok E" "conn_ok E sent c" "request_words r = Some argv" "request_fits r"
      "live_player (ce_thread E) rest" "glib_ok (ce_glib E)" "playlist_ok rest (c_playlist c) (c_pc c)"
      "acceptable r (c_playlist c)" "cl_permission c AND PERMISSION_CONTROL = PERMISSION_CONTROL"
    and c: "\<not> cl_idle_waiting c" "cl_cmd_list_OK c < 0"
  shows "\<exists>ret c' s. client_process_line (world_io (ce_io E)) (ce_config E) (command_process E addAllIn other) c (command_line argv) =
      Some (ret, c') \<and> playlist_ok rest (c_playlist c') (c_pc c') \<and>
    execute (ce_glib E) (ce_thread E) r (c_playlist c, c_pc c) = Some (c_playlist c', c_pc c') \<and>
    (s = ''OK'' @ newline \<or> (\<exists>error msg. s = ack_text error 0 (hd argv) msg)) \<and> told sent c s c'"
proof -
  obtain ret c1 where 1: "command_process E addAllIn other c 0 (command_line argv) = Some (ret, c1)" "answered sent c (hd argv) 0 ret c1"
    "playlist_ok rest (c_playlist c1) (c_pc c1)"
    "execute (ce_glib E) (ce_thread E) r (c_playlist c, c_pc c) = Some (c_playlist c1, c_pc c1)"
    using command_process_serves [OF E] by blast
  obtain s where s: "told sent c s c1" "ret = COMMAND_RETURN_OK \<and> s = [] \<or> ret = COMMAND_RETURN_ERROR \<and> (\<exists>error msg. s = ack_text error 0 (hd argv) msg)"
    using 1(2) by (auto simp: answered_def)
  then have "ret \<noteq> COMMAND_RETURN_CLOSE" by auto
  from finish_command_told [OF told_conn_ok [OF E(2) s(1)] this] obtain ret' c2 where
    2: "finish_command (world_io (ce_io E)) (ce_config E) ret c1 = Some (ret', c2)" "told sent c1 (final_reply ret []) c2" "world_same c1 c2"
    by blast
  have "client_process_line (world_io (ce_io E)) (ce_config E) (command_process E addAllIn other) c (command_line argv) = Some (ret', c2)"
    using command_line_special [OF E(3)] c 1(1) 2(1) by (simp add: client_process_line_def)
  moreover have "told sent c (s @ final_reply ret []) c2" by (rule told_trans [OF s(1) 2(2)])
  moreover have "c_playlist c2 = c_playlist c1" "c_pc c2 = c_pc c1" using 2(3) by (simp_all add: world_same_def)
  moreover have "s @ final_reply ret [] = ''OK'' @ newline \<or> (\<exists>error msg. s @ final_reply ret [] = ack_text error 0 (hd argv) msg)"
    using s(2) by (auto simp: final_reply_def)
  ultimately show ?thesis using 1(3,4) by auto
qed

section \<open>Refused and malformed lines\<close>

lemma find_distinct_key: "distinct (map f xs) \<Longrightarrow> x \<in> set xs \<Longrightarrow> f x = k \<Longrightarrow> find (\<lambda>y. f y = k) xs = Some x"
  by (induction xs) auto

lemma sorted_names_distinct: "sorted_wrt name_order xs \<Longrightarrow> distinct (map cmd_name xs)"
  by (induction xs) auto

lemmas commands_distinct = sorted_names_distinct [OF commands_sorted]

lemma command_process_refuses:
  assumes E: "ascii_ok E" "conn_ok E sent c" and w: "word_ok E w" "\<forall>a \<in> set args. param_ok (ce_isspace E) (False, a)" "length args < 37"
    and e: "e \<in> set commands" "cmd_name e = w" "\<not> may_use (cl_permission c) e"
  shows "\<exists>c' msg. command_process E addAllIn other c num (command_line (w # args)) = Some (COMMAND_RETURN_ERROR, c') \<and>
    told sent c (ack_text ACK_ERROR_PERMISSION num w msg) c' \<and> world_same c c'"
proof -
  obtain line where tok: "tokenizer_next_word (ce_isspace E) (ce_isalpha E) (ce_isalnum E) (command_line (w # args)) = (TOKEN w, line)"
    "tokenizer_params (COMMAND_ARGV_MAX - 1) (ce_isspace E) line = (args, TOKEN_NULL, [])"
    using command_line_tokens [OF E(1) w(1,2), of "COMMAND_ARGV_MAX - 1"] w(3) by auto
  let ?c = "set_current_command (Some w) (set_current_command (Some []) (set_current_command (Some w) (set_command_list_num num c)))"
  have "find (\<lambda>x. cmd_name x = w) commands = Some e"
    by (rule find_distinct_key [OF commands_distinct e(1,2)])
  then have l: "command_lookup w = Some (Some e)" by (simp add: command_lookup_finds)
  let ?msg = "''you don'' @ [CHR 0x27] @ ''t have permission for \"'' @ w @ ''\"''"
  have "conn_ok E sent ?c" "reply_state ?c = (Some w, num)" using E(2) by simp_all
  from command_error_told [OF this, of ACK_ERROR_PERMISSION ?msg] obtain c1 where
    c1: "command_error E ?c ACK_ERROR_PERMISSION ?msg = Some c1" "told sent ?c (ack_text ACK_ERROR_PERMISSION num w ?msg) c1"
    "world_same ?c c1" by blast
  have "command_checked_lookup E (set_current_command (Some w) (set_command_list_num num c)) (cl_permission c) (w # args) = Some (None, c1)"
    using l e c1(1) by (simp add: command_checked_lookup_def command_check_request_def Let_def)
  then have "command_process E addAllIn other c num (command_line (w # args)) =
      Some (COMMAND_RETURN_ERROR, set_command_list_num 0 (set_current_command None c1))"
    using tok w(3) by (simp add: command_process_def Let_def)
  with c1(2,3) show ?thesis by auto
qed

text \<open>A line whose first word or whose quoted parameter is malformed: the tokenizer returns \<^verbatim>\<open>NULL\<close>.\<close>

lemma word_malformed:
  assumes "tokenizer_next_word (ce_isspace E) (ce_isalpha E) (ce_isalnum E) line = (TOKEN_NULL, rest)" "rest \<noteq> []"
  shows "command_process E addAllIn other c num line = Some (COMMAND_RETURN_OK, set_current_command None (set_command_list_num num c))"
  using assms by (simp add: command_process_def token_error_def print_error2_def Let_def)

lemma no_params:
  assumes "tokenizer_next_param isspace line = (t, rest)" "t \<in> {TOKEN_NULL, TOKEN_ERR}" "0 < n"
  shows "tokenizer_params n isspace line = ([], t, rest)"
  using assms by (cases n) auto

lemma param_malformed:
  assumes "ascii_ok E" "word_ok E w" "line \<noteq> []" "\<not> ce_isspace E (hd line)"
    and "tokenizer_next_param (ce_isspace E) line = (t, rest)" "t \<in> {TOKEN_NULL, TOKEN_ERR}" "rest \<noteq> []"
  shows "command_process E addAllIn other c num (w @ CHR '' '' # line) =
    token_error E (set_current_command None (set_current_command (Some w) (set_command_list_num num c))) t"
proof -
  have "ce_isspace E (CHR '' '')" using assms(1) by (simp add: ascii_ok_def)
  with next_word_plain [OF assms(1,2), of "CHR '' '' # line"] have
    "tokenizer_next_word (ce_isspace E) (ce_isalpha E) (ce_isalnum E) (w @ CHR '' '' # line) = (TOKEN w, line)"
    using assms(3,4) by (cases line) (simp_all add: strchug_fast_def)
  moreover have "tokenizer_params (COMMAND_ARGV_MAX - 1) (ce_isspace E) line = ([], t, rest)"
    using assms(5,6) by (auto intro: no_params)
  ultimately show ?thesis using assms(7) by (simp add: command_process_def Let_def)
qed

text \<open>Without the closing quote the string ends at the end of the line.\<close>

lemma string_loop_open: "CHR 0x22 \<notin> set s \<Longrightarrow> \<exists>last. string_loop isspace prev word s = (TOKEN_NULL, [last])"
  by (induction isspace prev word s rule: string_loop.induct) (auto split: list.splits)

lemma set_current_command_again [simp]: "set_current_command a (set_current_command b c) = set_current_command a c"
  by (simp add: set_current_command_def)

lemma no_current_command: "fail_with E (set_current_command None c) error msg = None"
  by (simp add: fail_with_def command_error_def set_current_command_def)

lemma first_letter_missing:
  "line \<noteq> [] \<and> \<not> ce_isalpha E (hd line) \<longrightarrow> command_process E addAllIn other c num line =
    Some (COMMAND_RETURN_OK, set_current_command None (set_command_list_num num c))"
  by (auto intro!: word_malformed simp: tokenizer_next_word_def valid_word_first_char_def split: list.splits)

lemma quote_open:
  assumes "ascii_ok E" "word_ok E w"
  shows "CHR 0x22 \<notin> set s \<longrightarrow> command_process E addAllIn other c num (w @ CHR '' '' # CHR 0x22 # s) =
    Some (COMMAND_RETURN_OK, set_current_command None (set_command_list_num num c))"
proof
  assume "CHR 0x22 \<notin> set s"
  from string_loop_open [OF this, of "ce_isspace E" "CHR 0x22" "[]"] obtain l where l: "tokenizer_next_param (ce_isspace E) (CHR 0x22 # s) = (TOKEN_NULL, [l])"
    by (auto simp: tokenizer_next_param_def tokenizer_next_string_def)
  have "\<not> ce_isspace E (CHR 0x22)" using assms(1) by (simp add: ascii_ok_def)
  with param_malformed [OF assms _ _ l] show "command_process E addAllIn other c num (w @ CHR '' '' # CHR 0x22 # s) =
    Some (COMMAND_RETURN_OK, set_current_command None (set_command_list_num num c))"
    by (simp add: token_error_def print_error2_def)
qed

lemma empty_line: "command_process E addAllIn other c num [] = None"
  by (simp add: command_process_def tokenizer_next_word_def no_current_command Let_def)

lemma quote_bad:
  assumes "ascii_ok E" "word_ok E w"
  shows "command_process E addAllIn other c num (w @ CHR '' '' # CHR 0x27 # s) = None"
proof -
  have p: "tokenizer_next_param (ce_isspace E) (CHR 0x27 # s) = (TOKEN_ERR, CHR 0x27 # s)"
    by (simp add: tokenizer_next_param_def tokenizer_next_unquoted_def valid_unquoted_char_def)
  have "\<not> ce_isspace E (CHR 0x27)" using assms(1) by (simp add: ascii_ok_def)
  with param_malformed [OF assms _ _ p] show ?thesis by (simp add: token_error_def print_error2_def no_current_command)
qed

end
