(* ===== verification/Command_Theorems.thy ===== *)
theory Command_Theorems
  imports Command_Serve Sample
begin

unbundle bit_operations_syntax

text \<open>
  Properties of the command line: from the text a client sends to the playlist and back to the reply.
\<close>

section \<open>A sample server\<close>






section \<open>Commands are carried out\<close>



section \<open>Lookup and permission\<close>

text \<open>C15: The binary search in the table of commands finds the entry with the name of the command and
  reports that there is none exactly when no entry has that name; it never leaves the table.\<close>

theorem command_lookup_search: "command_lookup name = Some (find (\<lambda>e. cmd_name e = name) commands)"
  by (rule command_lookup_finds)



section \<open>Malformed lines\<close>



section \<open>Adding files\<close>



end
