(* ===== verification/Pcm.thy ===== *)
theory Pcm
  imports Audio_Format "HOL-Library.Signed_Division"
begin

text \<open>
  Arithmetic on samples: \<^verbatim>\<open>src/pcm/pcm_utils.h\<close>, \<^verbatim>\<open>pcm_prng.h\<close>, \<^verbatim>\<open>pcm_dither.c\<close>, \<^verbatim>\<open>pcm_volume.c\<close> and
  \<^verbatim>\<open>pcm_mix.c\<close>, in their portable version.

  A sample of an integer format is its value.  The signed arithmetic of C is undefined where the result
  does not fit the type, and \<open>arith\<close> is \<open>None\<close> there; a conversion to a narrower signed type keeps the low bits.
\<close>

unbundle bit_operations_syntax

section \<open>Signed integers of a width\<close>

definition fits :: "nat \<Rightarrow> int \<Rightarrow> bool" where
  "fits w x \<longleftrightarrow> - (2 ^ (w - 1)) \<le> x \<and> x < 2 ^ (w - 1)"

definition arith :: "nat \<Rightarrow> int \<Rightarrow> int option" where
  "arith w x = (if fits w x then Some x else None)"

definition wrap :: "nat \<Rightarrow> int \<Rightarrow> int" where
  "wrap w x = signed_take_bit (w - 1) x"

section \<open>Samples\<close>

text \<open>
  A buffer together with its format, which the code keeps beside a \<^verbatim>\<open>void *\<close>.  Floating-point samples are
  of the type \<open>'f\<close>, with the operations the code uses on them.
\<close>

datatype 'f pcm_data =
    PCM_UNDEFINED "u8 list"
  | PCM_S8 "int list"
  | PCM_S16 "int list"
  | PCM_S24_P32 "int list"
  | PCM_S32 "int list"
  | PCM_FLOAT "'f list"
  | PCM_DSD "u8 list"

record 'f float_ops =
  fl_of_int :: "int \<Rightarrow> 'f"
  fl_add :: "'f \<Rightarrow> 'f \<Rightarrow> 'f"
  fl_mul :: "'f \<Rightarrow> 'f \<Rightarrow> 'f"
  fl_div :: "'f \<Rightarrow> 'f \<Rightarrow> 'f"
  fl_to_int :: "'f \<Rightarrow> int option"
  fl_isnan :: "'f \<Rightarrow> bool"
  fl_sin_half_pi :: "'f \<Rightarrow> 'f"

fun data_format :: "'f pcm_data \<Rightarrow> sample_format" where
  "data_format (PCM_UNDEFINED xs) = SAMPLE_FORMAT_UNDEFINED"
| "data_format (PCM_S8 xs) = SAMPLE_FORMAT_S8"
| "data_format (PCM_S16 xs) = SAMPLE_FORMAT_S16"
| "data_format (PCM_S24_P32 xs) = SAMPLE_FORMAT_S24_P32"
| "data_format (PCM_S32 xs) = SAMPLE_FORMAT_S32"
| "data_format (PCM_FLOAT xs) = SAMPLE_FORMAT_FLOAT"
| "data_format (PCM_DSD xs) = SAMPLE_FORMAT_DSD"

text \<open>The values a sample of an integer format may have.\<close>

fun data_ok :: "'f pcm_data \<Rightarrow> bool" where
  "data_ok (PCM_S8 xs) \<longleftrightarrow> list_all (fits 8) xs"
| "data_ok (PCM_S16 xs) \<longleftrightarrow> list_all (fits 16) xs"
| "data_ok (PCM_S24_P32 xs) \<longleftrightarrow> list_all (fits 24) xs"
| "data_ok (PCM_S32 xs) \<longleftrightarrow> list_all (fits 32) xs"
| "data_ok _ \<longleftrightarrow> True"

section \<open>Ranges\<close>

definition pcm_range :: "int \<Rightarrow> nat \<Rightarrow> int" where
  "pcm_range sample bits =
     (if sample < - (2 ^ (bits - 1)) then - (2 ^ (bits - 1))
      else if 2 ^ (bits - 1) \<le> sample then 2 ^ (bits - 1) - 1
      else sample)"

definition pcm_range_64 :: "int \<Rightarrow> nat \<Rightarrow> int" where
  "pcm_range_64 sample bits =
     (if sample < - (2 ^ (bits - 1)) then - (2 ^ (bits - 1))
      else if 2 ^ (bits - 1) \<le> sample then 2 ^ (bits - 1) - 1
      else sample)"

definition pcm_clamp_16 :: "int \<Rightarrow> int" where
  "pcm_clamp_16 x = (if x < -32768 then -32768 else if 32767 < x then 32767 else x)"

definition pcm_clamp_24 :: "int \<Rightarrow> int" where
  "pcm_clamp_24 x = (if x < - (2 ^ 23) then - (2 ^ 23) else if 2 ^ 23 - 1 < x then 2 ^ 23 - 1 else x)"

section \<open>Random numbers and dithering\<close>

definition pcm_prng :: "64 word \<Rightarrow> 64 word" where
  "pcm_prng state = (state * 0x0019660d + 0x3c6ef35f) AND 0xffffffff"

record pcm_dither =
  di_error0 :: int
  di_error1 :: int
  di_error2 :: int
  di_random :: int

definition pcm_dither_24_init :: pcm_dither where
  "pcm_dither_24_init = \<lparr>di_error0 = 0, di_error1 = 0, di_error2 = 0, di_random = 0\<rparr>"

definition dither_clip :: "int \<Rightarrow> int \<Rightarrow> int \<times> int" where
  "dither_clip output sample =
     (let min_value = - (2 ^ 23); max_value = 2 ^ 23 - 1 in
      if max_value < output then (max_value, if max_value < sample then max_value else sample)
      else if output < min_value then (min_value, if sample < min_value then min_value else sample)
      else (output, sample))"

definition pcm_dither_sample_24_to_16 :: "int \<Rightarrow> pcm_dither \<Rightarrow> (int \<times> pcm_dither) option" where
  "pcm_dither_sample_24_to_16 sample dither = do {
     let mask = 255;
     diff \<leftarrow> arith 32 (di_error0 dither - di_error1 dither);
     diff \<leftarrow> arith 32 (diff + di_error2 dither);
     sample \<leftarrow> arith 32 (sample + diff);
     let error2 = di_error1 dither;
     let error1 = di_error0 dither sdiv 2;
     output \<leftarrow> arith 32 (sample + 128);
     let rnd = wrap 32 (uint (pcm_prng (word_of_int (di_random dither))));
     output \<leftarrow> arith 32 (output + ((rnd AND mask) - (di_random dither AND mask)));
     let (output, sample) = dither_clip output sample;
     let output = output AND NOT mask;
     error0 \<leftarrow> arith 32 (sample - output);
     Some (wrap 16 (drop_bit 8 output), \<lparr>di_error0 = error0, di_error1 = error1, di_error2 = error2, di_random = rnd\<rparr>)
   }"

fun pcm_dither_24_to_16 :: "pcm_dither \<Rightarrow> int list \<Rightarrow> (int list \<times> pcm_dither) option" where
  "pcm_dither_24_to_16 dither [] = Some ([], dither)"
| "pcm_dither_24_to_16 dither (x # src) = do {
     (y, dither) \<leftarrow> pcm_dither_sample_24_to_16 x dither;
     (dest, dither) \<leftarrow> pcm_dither_24_to_16 dither src;
     Some (y # dest, dither)
   }"

definition pcm_dither_sample_32_to_16 :: "int \<Rightarrow> pcm_dither \<Rightarrow> (int \<times> pcm_dither) option" where
  "pcm_dither_sample_32_to_16 sample dither = pcm_dither_sample_24_to_16 (drop_bit 8 sample) dither"

fun pcm_dither_32_to_16 :: "pcm_dither \<Rightarrow> int list \<Rightarrow> (int list \<times> pcm_dither) option" where
  "pcm_dither_32_to_16 dither [] = Some ([], dither)"
| "pcm_dither_32_to_16 dither (x # src) = do {
     (y, dither) \<leftarrow> pcm_dither_sample_32_to_16 x dither;
     (dest, dither) \<leftarrow> pcm_dither_32_to_16 dither src;
     Some (y # dest, dither)
   }"

section \<open>Volume\<close>

abbreviation PCM_VOLUME_1 :: int where
  "PCM_VOLUME_1 \<equiv> 1024"

definition pcm_volume_to_float :: "'f float_ops \<Rightarrow> int \<Rightarrow> 'f" where
  "pcm_volume_to_float F volume = fl_div F (fl_of_int F volume) (fl_of_int F PCM_VOLUME_1)"

text \<open>The difference is computed in \<^verbatim>\<open>uint32_t\<close> and converted to \<^verbatim>\<open>int\<close>; the state is a static variable.\<close>

definition pcm_volume_dither :: "64 word \<Rightarrow> int \<times> 64 word" where
  "pcm_volume_dither state =
     (let state = pcm_prng state; r = (ucast state :: u32) in (sint ((r AND 511) - (drop_bit 9 r AND 511)), state))"

text \<open>The sum, rounded and divided by \<^verbatim>\<open>PCM_VOLUME_1\<close>, in a type of the width \<open>w\<close>.\<close>

definition volume_round :: "nat \<Rightarrow> int \<Rightarrow> int \<Rightarrow> int option" where
  "volume_round w x dither = do {
     x \<leftarrow> arith w (x + dither);
     x \<leftarrow> arith w (x + PCM_VOLUME_1 div 2);
     Some (x sdiv PCM_VOLUME_1)
   }"

text \<open>A loop that replaces every sample, given the next dithering number.\<close>

fun map_dither :: "(int \<Rightarrow> int \<Rightarrow> int option) \<Rightarrow> int list \<Rightarrow> 64 word \<Rightarrow> (int list \<times> 64 word) option" where
  "map_dither f [] state = Some ([], state)"
| "map_dither f (x # xs) state = do {
     let (dither, state) = pcm_volume_dither state;
     y \<leftarrow> f x dither;
     (ys, state) \<leftarrow> map_dither f xs state;
     Some (y # ys, state)
   }"

definition pcm_volume_change_8 :: "int \<Rightarrow> int list \<Rightarrow> 64 word \<Rightarrow> (int list \<times> 64 word) option" where
  "pcm_volume_change_8 volume = map_dither (\<lambda>sample dither. do {
     x \<leftarrow> arith 32 (sample * volume);
     x \<leftarrow> volume_round 32 x dither;
     Some (wrap 8 (pcm_range x 8))
   })"

definition pcm_volume_change_16 :: "int \<Rightarrow> int list \<Rightarrow> 64 word \<Rightarrow> (int list \<times> 64 word) option" where
  "pcm_volume_change_16 volume = map_dither (\<lambda>sample dither. do {
     x \<leftarrow> arith 32 (sample * volume);
     x \<leftarrow> volume_round 32 x dither;
     Some (wrap 16 (pcm_range x 16))
   })"

text \<open>The result of the 64 bit arithmetic is converted to the \<^verbatim>\<open>int32_t\<close> of \<^verbatim>\<open>pcm_range\<close>.\<close>

definition pcm_volume_change_24 :: "int \<Rightarrow> int list \<Rightarrow> 64 word \<Rightarrow> (int list \<times> 64 word) option" where
  "pcm_volume_change_24 volume = map_dither (\<lambda>sample dither. do {
     x \<leftarrow> arith 64 (sample * volume);
     x \<leftarrow> volume_round 64 x dither;
     Some (pcm_range (wrap 32 x) 24)
   })"

definition pcm_volume_change_32 :: "int \<Rightarrow> int list \<Rightarrow> 64 word \<Rightarrow> (int list \<times> 64 word) option" where
  "pcm_volume_change_32 volume = map_dither (\<lambda>sample dither. do {
     x \<leftarrow> arith 64 (sample * volume);
     x \<leftarrow> volume_round 64 x dither;
     Some (wrap 32 (pcm_range_64 x 32))
   })"

definition pcm_volume_change_float :: "'f float_ops \<Rightarrow> 'f \<Rightarrow> 'f list \<Rightarrow> 'f list" where
  "pcm_volume_change_float F volume = map (\<lambda>sample. fl_mul F sample volume)"

fun zero_data :: "'f float_ops \<Rightarrow> 'f pcm_data \<Rightarrow> 'f pcm_data" where
  "zero_data F (PCM_UNDEFINED xs) = PCM_UNDEFINED (map (\<lambda>_. 0) xs)"
| "zero_data F (PCM_S8 xs) = PCM_S8 (map (\<lambda>_. 0) xs)"
| "zero_data F (PCM_S16 xs) = PCM_S16 (map (\<lambda>_. 0) xs)"
| "zero_data F (PCM_S24_P32 xs) = PCM_S24_P32 (map (\<lambda>_. 0) xs)"
| "zero_data F (PCM_S32 xs) = PCM_S32 (map (\<lambda>_. 0) xs)"
| "zero_data F (PCM_FLOAT xs) = PCM_FLOAT (map (\<lambda>_. fl_of_int F 0) xs)"
| "zero_data F (PCM_DSD xs) = PCM_DSD (map (\<lambda>_. 0) xs)"

definition pcm_volume ::
    "'f float_ops \<Rightarrow> 'f pcm_data \<Rightarrow> int \<Rightarrow> 64 word \<Rightarrow> (bool \<times> 'f pcm_data \<times> 64 word) option" where
  "pcm_volume F buffer volume state =
     (if volume = PCM_VOLUME_1 then Some (True, buffer, state)
      else if volume \<le> 0 then Some (True, zero_data F buffer, state)
      else case buffer of
          PCM_UNDEFINED _ \<Rightarrow> Some (False, buffer, state)
        | PCM_DSD _ \<Rightarrow> Some (False, buffer, state)
        | PCM_S8 xs \<Rightarrow> map_option (\<lambda>(ys, state). (True, PCM_S8 ys, state)) (pcm_volume_change_8 volume xs state)
        | PCM_S16 xs \<Rightarrow> map_option (\<lambda>(ys, state). (True, PCM_S16 ys, state)) (pcm_volume_change_16 volume xs state)
        | PCM_S24_P32 xs \<Rightarrow> map_option (\<lambda>(ys, state). (True, PCM_S24_P32 ys, state)) (pcm_volume_change_24 volume xs state)
        | PCM_S32 xs \<Rightarrow> map_option (\<lambda>(ys, state). (True, PCM_S32 ys, state)) (pcm_volume_change_32 volume xs state)
        | PCM_FLOAT xs \<Rightarrow> Some (True, PCM_FLOAT (pcm_volume_change_float F (pcm_volume_to_float F volume) xs), state))"

section \<open>Mixing\<close>

text \<open>The first \<open>n\<close> samples of two buffers are combined in the first one.\<close>

fun mix_dither :: "(int \<Rightarrow> int \<Rightarrow> int \<Rightarrow> int option) \<Rightarrow> nat \<Rightarrow> int list \<Rightarrow> int list \<Rightarrow> 64 word \<Rightarrow> (int list \<times> 64 word) option" where
  "mix_dither f 0 xs ys state = Some (xs, state)"
| "mix_dither f (Suc n) (x # xs) (y # ys) state = do {
     let (dither, state) = pcm_volume_dither state;
     z \<leftarrow> f x y dither;
     (zs, state) \<leftarrow> mix_dither f n xs ys state;
     Some (z # zs, state)
   }"
| "mix_dither f (Suc n) _ _ state = None"

fun mix_plain :: "('a \<Rightarrow> 'a \<Rightarrow> 'a option) \<Rightarrow> nat \<Rightarrow> 'a list \<Rightarrow> 'a list \<Rightarrow> 'a list option" where
  "mix_plain f 0 xs ys = Some xs"
| "mix_plain f (Suc n) (x # xs) (y # ys) = do {
     z \<leftarrow> f x y;
     zs \<leftarrow> mix_plain f n xs ys;
     Some (z # zs)
   }"
| "mix_plain f (Suc n) _ _ = None"

definition weighted_sum :: "nat \<Rightarrow> int \<Rightarrow> int \<Rightarrow> int \<Rightarrow> int \<Rightarrow> int option" where
  "weighted_sum w sample1 volume1 sample2 volume2 = do {
     a \<leftarrow> arith w (sample1 * volume1);
     b \<leftarrow> arith w (sample2 * volume2);
     arith w (a + b)
   }"

definition pcm_add_vol_8 :: "nat \<Rightarrow> int \<Rightarrow> int \<Rightarrow> int list \<Rightarrow> int list \<Rightarrow> 64 word \<Rightarrow> (int list \<times> 64 word) option" where
  "pcm_add_vol_8 num_samples volume1 volume2 = mix_dither (\<lambda>sample1 sample2 dither. do {
     x \<leftarrow> weighted_sum 32 sample1 volume1 sample2 volume2;
     x \<leftarrow> volume_round 32 x dither;
     Some (wrap 8 (pcm_range x 8))
   }) num_samples"

definition pcm_add_vol_16 :: "nat \<Rightarrow> int \<Rightarrow> int \<Rightarrow> int list \<Rightarrow> int list \<Rightarrow> 64 word \<Rightarrow> (int list \<times> 64 word) option" where
  "pcm_add_vol_16 num_samples volume1 volume2 = mix_dither (\<lambda>sample1 sample2 dither. do {
     x \<leftarrow> weighted_sum 32 sample1 volume1 sample2 volume2;
     x \<leftarrow> volume_round 32 x dither;
     Some (wrap 16 (pcm_range x 16))
   }) num_samples"

text \<open>Here the volumes are \<^verbatim>\<open>unsigned\<close>.\<close>

definition pcm_add_vol_24 :: "nat \<Rightarrow> nat \<Rightarrow> nat \<Rightarrow> int list \<Rightarrow> int list \<Rightarrow> 64 word \<Rightarrow> (int list \<times> 64 word) option" where
  "pcm_add_vol_24 num_samples volume1 volume2 = mix_dither (\<lambda>sample1 sample2 dither. do {
     x \<leftarrow> weighted_sum 64 sample1 (int volume1) sample2 (int volume2);
     x \<leftarrow> volume_round 64 x dither;
     Some (pcm_range (wrap 32 x) 24)
   }) num_samples"

definition pcm_add_vol_32 :: "nat \<Rightarrow> nat \<Rightarrow> nat \<Rightarrow> int list \<Rightarrow> int list \<Rightarrow> 64 word \<Rightarrow> (int list \<times> 64 word) option" where
  "pcm_add_vol_32 num_samples volume1 volume2 = mix_dither (\<lambda>sample1 sample2 dither. do {
     x \<leftarrow> weighted_sum 64 sample1 (int volume1) sample2 (int volume2);
     x \<leftarrow> volume_round 64 x dither;
     Some (wrap 32 (pcm_range_64 x 32))
   }) num_samples"

definition pcm_add_vol_float :: "'f float_ops \<Rightarrow> nat \<Rightarrow> 'f \<Rightarrow> 'f \<Rightarrow> 'f list \<Rightarrow> 'f list \<Rightarrow> 'f list option" where
  "pcm_add_vol_float F num_samples volume1 volume2 =
     mix_plain (\<lambda>sample1 sample2. Some (fl_add F (fl_mul F sample1 volume1) (fl_mul F sample2 volume2))) num_samples"

text \<open>Both buffers have the same format.\<close>

fun pcm_add_vol ::
    "'f float_ops \<Rightarrow> 'f pcm_data \<Rightarrow> 'f pcm_data \<Rightarrow> nat \<Rightarrow> int \<Rightarrow> int \<Rightarrow> 64 word \<Rightarrow> (bool \<times> 'f pcm_data \<times> 64 word) option" where
  "pcm_add_vol F (PCM_UNDEFINED xs) b2 bytes vol1 vol2 state = Some (False, PCM_UNDEFINED xs, state)"
| "pcm_add_vol F (PCM_DSD xs) b2 bytes vol1 vol2 state = Some (False, PCM_DSD xs, state)"
| "pcm_add_vol F (PCM_S8 xs) (PCM_S8 ys) bytes vol1 vol2 state =
     map_option (\<lambda>(zs, state). (True, PCM_S8 zs, state)) (pcm_add_vol_8 bytes vol1 vol2 xs ys state)"
| "pcm_add_vol F (PCM_S16 xs) (PCM_S16 ys) bytes vol1 vol2 state =
     map_option (\<lambda>(zs, state). (True, PCM_S16 zs, state)) (pcm_add_vol_16 (bytes div 2) vol1 vol2 xs ys state)"
| "pcm_add_vol F (PCM_S24_P32 xs) (PCM_S24_P32 ys) bytes vol1 vol2 state =
     map_option (\<lambda>(zs, state). (True, PCM_S24_P32 zs, state))
       (pcm_add_vol_24 (bytes div 4) (to_unsigned vol1) (to_unsigned vol2) xs ys state)"
| "pcm_add_vol F (PCM_S32 xs) (PCM_S32 ys) bytes vol1 vol2 state =
     map_option (\<lambda>(zs, state). (True, PCM_S32 zs, state))
       (pcm_add_vol_32 (bytes div 4) (to_unsigned vol1) (to_unsigned vol2) xs ys state)"
| "pcm_add_vol F (PCM_FLOAT xs) (PCM_FLOAT ys) bytes vol1 vol2 state =
     map_option (\<lambda>zs. (True, PCM_FLOAT zs, state))
       (pcm_add_vol_float F (bytes div 4) (pcm_volume_to_float F vol1) (pcm_volume_to_float F vol2) xs ys)"
| "pcm_add_vol F _ _ bytes vol1 vol2 state = None"

definition pcm_add_8 :: "nat \<Rightarrow> int list \<Rightarrow> int list \<Rightarrow> int list option" where
  "pcm_add_8 = mix_plain (\<lambda>a b. do { x \<leftarrow> arith 32 (a + b); Some (wrap 8 (pcm_range x 8)) })"

definition pcm_add_16 :: "nat \<Rightarrow> int list \<Rightarrow> int list \<Rightarrow> int list option" where
  "pcm_add_16 = mix_plain (\<lambda>a b. do { x \<leftarrow> arith 32 (a + b); Some (wrap 16 (pcm_range x 16)) })"

definition pcm_add_24 :: "nat \<Rightarrow> int list \<Rightarrow> int list \<Rightarrow> int list option" where
  "pcm_add_24 = mix_plain (\<lambda>a b. do { x \<leftarrow> arith 64 (a + b); Some (pcm_range (wrap 32 x) 24) })"

definition pcm_add_32 :: "nat \<Rightarrow> int list \<Rightarrow> int list \<Rightarrow> int list option" where
  "pcm_add_32 = mix_plain (\<lambda>a b. do { x \<leftarrow> arith 64 (a + b); Some (wrap 32 (pcm_range_64 x 32)) })"

definition pcm_add_float :: "'f float_ops \<Rightarrow> nat \<Rightarrow> 'f list \<Rightarrow> 'f list \<Rightarrow> 'f list option" where
  "pcm_add_float F = mix_plain (\<lambda>a b. Some (fl_add F a b))"

fun pcm_add :: "'f float_ops \<Rightarrow> 'f pcm_data \<Rightarrow> 'f pcm_data \<Rightarrow> nat \<Rightarrow> (bool \<times> 'f pcm_data) option" where
  "pcm_add F (PCM_UNDEFINED xs) b2 bytes = Some (False, PCM_UNDEFINED xs)"
| "pcm_add F (PCM_DSD xs) b2 bytes = Some (False, PCM_DSD xs)"
| "pcm_add F (PCM_S8 xs) (PCM_S8 ys) bytes = map_option (\<lambda>zs. (True, PCM_S8 zs)) (pcm_add_8 bytes xs ys)"
| "pcm_add F (PCM_S16 xs) (PCM_S16 ys) bytes = map_option (\<lambda>zs. (True, PCM_S16 zs)) (pcm_add_16 (bytes div 2) xs ys)"
| "pcm_add F (PCM_S24_P32 xs) (PCM_S24_P32 ys) bytes = map_option (\<lambda>zs. (True, PCM_S24_P32 zs)) (pcm_add_24 (bytes div 4) xs ys)"
| "pcm_add F (PCM_S32 xs) (PCM_S32 ys) bytes = map_option (\<lambda>zs. (True, PCM_S32 zs)) (pcm_add_32 (bytes div 4) xs ys)"
| "pcm_add F (PCM_FLOAT xs) (PCM_FLOAT ys) bytes = map_option (\<lambda>zs. (True, PCM_FLOAT zs)) (pcm_add_float F (bytes div 4) xs ys)"
| "pcm_add F _ _ bytes = None"

text \<open>\<^verbatim>\<open>sin(M_PI_2 * portion1)\<close> and the conversions are operations of \<open>F\<close>.\<close>

definition pcm_mix ::
    "'f float_ops \<Rightarrow> 'f pcm_data \<Rightarrow> 'f pcm_data \<Rightarrow> nat \<Rightarrow> 'f \<Rightarrow> 64 word \<Rightarrow> (bool \<times> 'f pcm_data \<times> 64 word) option" where
  "pcm_mix F buffer1 buffer2 bytes portion1 state =
     (if fl_isnan F portion1 then map_option (\<lambda>(ok, b). (ok, b, state)) (pcm_add F buffer1 buffer2 bytes)
      else do {
        let s = fl_sin_half_pi F portion1;
        let s = fl_mul F s s;
        vol1 \<leftarrow> fl_to_int F (fl_add F (fl_mul F s (fl_of_int F PCM_VOLUME_1)) (fl_div F (fl_of_int F 1) (fl_of_int F 2)));
        let vol1 = (if PCM_VOLUME_1 < vol1 then PCM_VOLUME_1 else if vol1 < 0 then 0 else vol1);
        pcm_add_vol F buffer1 buffer2 bytes vol1 (PCM_VOLUME_1 - vol1) state
      })"

end
