(* ===== verification/Pcm_Inv.thy ===== *)
theory Pcm_Inv
  imports Pcm
begin

text \<open>
  The arithmetic on samples stays in its types, and its results are close to the exact ones.
\<close>

unbundle bit_operations_syntax

section \<open>Integers of a width\<close>

lemma wrap_fits [simp]: "fits w x \<Longrightarrow> wrap w x = x"
  by (simp add: fits_def wrap_def signed_take_bit_int_eq_self)

lemma arith_fits [simp]: "fits w x \<Longrightarrow> arith w x = Some x"
  by (simp add: arith_def)

lemma fits_wrap: "fits w (wrap w x)"
  using signed_take_bit_int_greater_eq_minus_exp [of "w - 1" x] signed_take_bit_int_less_exp [of "w - 1" x]
  by (simp add: fits_def wrap_def)

definition clamp :: "nat \<Rightarrow> int \<Rightarrow> int" where
  "clamp bits x = max (- (2 ^ (bits - 1))) (min (2 ^ (bits - 1) - 1) x)"

lemma fits_clamp [simp]: "fits bits (clamp bits x)"
proof -
  have "(1 :: int) \<le> 2 ^ (bits - 1)" by simp
  then show ?thesis unfolding fits_def clamp_def by linarith
qed

lemma clamp_fits: "fits bits x \<Longrightarrow> clamp bits x = x"
  by (auto simp: fits_def clamp_def)

lemma pcm_range_clamp [simp]: "pcm_range x bits = clamp bits x" "pcm_range_64 x bits = clamp bits x"
proof -
  have "(1 :: int) \<le> 2 ^ (bits - 1)" by simp
  then show "pcm_range x bits = clamp bits x" "pcm_range_64 x bits = clamp bits x"
    by (auto simp: pcm_range_def pcm_range_64_def clamp_def)
qed

lemma and_not_mask_int: "(x :: int) AND - 256 = 256 * (x div 256)"
proof -
  have "x AND NOT (mask 8) = push_bit 8 (drop_bit 8 x)" by (rule bit_eqI) (auto simp: bit_simps)
  then show ?thesis by (simp add: mask_eq_exp_minus_1 push_bit_eq_mult drop_bit_eq_div mult.commute)
qed

lemma and_mask_int: "0 \<le> (x :: int) AND 255" "(x :: int) AND 255 \<le> 255"
  by simp_all

lemma sdiv_bounds:
  assumes "(0 :: int) < n"
  shows "0 \<le> x \<Longrightarrow> n * (x sdiv n) \<le> x \<and> x < n * (x sdiv n) + n" "x \<le> 0 \<Longrightarrow> x \<le> n * (x sdiv n) \<and> n * (x sdiv n) < x + n"
proof -
  have m: "n * (y div n) \<le> y \<and> y < n * (y div n) + n" for y
    using assms mult_div_mod_eq [of n y] pos_mod_sign [of n y] pos_mod_bound [of n y] by linarith
  show "0 \<le> x \<Longrightarrow> n * (x sdiv n) \<le> x \<and> x < n * (x sdiv n) + n"
    using m [of x] assms by (cases "x = 0") (auto simp: signed_divide_int_def)
  show "x \<le> 0 \<Longrightarrow> x \<le> n * (x sdiv n) \<and> n * (x sdiv n) < x + n"
    using m [of "- x"] assms by (cases "x = 0") (auto simp: signed_divide_int_def sgn_if abs_if)
qed

section \<open>Rounding\<close>

lemma volume_dither_bounds: "\<bar>fst (pcm_volume_dither state)\<bar> \<le> 511"
proof -
  let ?r = "ucast (pcm_prng state) :: u32"
  have s: "sint (x AND 511) = uint (x AND 511) \<and> uint (x AND 511) \<le> 511" for x :: u32
  proof -
    have "x AND 511 \<le> 511" by (simp add: word_and_le1)
    then have b: "uint (x AND 511) \<le> 511" by (simp add: word_le_def)
    have "- (2 ^ 31) \<le> uint (x AND 511)" by (rule order_trans [OF _ unsigned_greater_eq]) simp
    with b have "signed_take_bit 31 (uint (x AND 511)) = uint (x AND 511)" by (intro signed_take_bit_int_eq_self) simp_all
    with b show ?thesis by (simp add: sint_uint)
  qed
  have "sint ((?r AND 511) - (drop_bit 9 ?r AND 511)) = signed_take_bit 31 (uint (?r AND 511) - uint (drop_bit 9 ?r AND 511))"
    using s by (simp add: sint_word_diff)
  moreover have "\<bar>uint (?r AND 511) - uint (drop_bit 9 ?r AND 511)\<bar> \<le> 511"
    using s [of ?r] s [of "drop_bit 9 ?r"] unsigned_greater_eq [of "?r AND 511", where ?'a = int]
      unsigned_greater_eq [of "drop_bit 9 ?r AND 511", where ?'a = int] by linarith
  ultimately show ?thesis by (simp add: pcm_volume_dither_def Let_def signed_take_bit_int_eq_self)
qed

text \<open>The value is within two units of the exact quotient, and never further from zero than the next integer.\<close>

definition towards_zero :: "int \<Rightarrow> int \<Rightarrow> bool" where
  "towards_zero p q \<longleftrightarrow> (0 \<le> p \<longrightarrow> 0 \<le> q \<and> 1024 * q \<le> p + 1023) \<and> (p < 0 \<longrightarrow> q \<le> 0 \<and> p < 1024 * q)"

lemma volume_round_spec:
  assumes "\<bar>d\<bar> \<le> 511" "fits w (p - 1023)" "fits w (p + 1023)"
  shows "\<exists>q. volume_round w p d = Some q \<and> \<bar>1024 * q - p\<bar> \<le> 2046 \<and> towards_zero p q"
proof -
  define x where "x = p + d + 512"
  have x: "p + 1 \<le> x" "x \<le> p + 1023" using assms(1) by (auto simp: x_def)
  have f: "fits w (p + d)" "fits w x" using assms x by (auto simp: fits_def x_def)
  let ?q = "x sdiv 1024"
  note s = sdiv_bounds [of 1024 x, simplified]
  have "volume_round w p d = Some ?q" using f by (simp add: volume_round_def x_def)
  moreover have "\<bar>1024 * ?q - p\<bar> \<le> 2046" using s x by linarith
  moreover have "0 \<le> ?q \<and> 1024 * ?q \<le> p + 1023" if "0 \<le> p" using that x s(1) by linarith
  moreover have "?q \<le> 0 \<and> p < 1024 * ?q" if "p < 0"
  proof (cases "0 \<le> x")
    case True
    then have "?q = 0" using that x s(1) by linarith
    then show ?thesis using that by simp
  next
    case False
    then show ?thesis using s(2) x by linarith
  qed
  ultimately show ?thesis unfolding towards_zero_def by blast
qed

text \<open>A sample of so many bits that results from the product or sum \<open>p\<close>.\<close>

definition rounded :: "nat \<Rightarrow> int \<Rightarrow> int \<Rightarrow> bool" where
  "rounded bits p y \<longleftrightarrow> (\<exists>q. \<bar>1024 * q - p\<bar> \<le> 2046 \<and> y = clamp bits q)"

lemma rounded_fits: "rounded bits p y \<Longrightarrow> fits bits y"
  by (auto simp: rounded_def)

lemma towards_zero_clamp: "towards_zero p q \<Longrightarrow> towards_zero p (clamp bits q)"
proof -
  have "(1 :: int) \<le> 2 ^ (bits - 1)" by simp
  then have "0 \<le> q \<Longrightarrow> 0 \<le> clamp bits q \<and> clamp bits q \<le> q" "q \<le> 0 \<Longrightarrow> clamp bits q \<le> 0 \<and> q \<le> clamp bits q"
    unfolding clamp_def by linarith+
  then show "towards_zero p q \<Longrightarrow> towards_zero p (clamp bits q)" unfolding towards_zero_def by auto
qed

text \<open>What one step of a loop does with a dithering number.\<close>

definition rounds :: "nat \<Rightarrow> (int \<Rightarrow> int option) \<Rightarrow> int \<Rightarrow> bool" where
  "rounds bits step p \<longleftrightarrow> (\<forall>d. \<bar>d\<bar> \<le> 511 \<longrightarrow> (\<exists>y. step d = Some y \<and> rounded bits p y \<and> towards_zero p y))"

lemma rounds_step:
  assumes "\<And>q. \<bar>1024 * q - p\<bar> \<le> 2046 \<Longrightarrow> final q = clamp bits q" "fits w (p - 1023)" "fits w (p + 1023)"
  shows "rounds bits (\<lambda>d. volume_round w p d \<bind> (\<lambda>x. Some (final x))) p"
  unfolding rounds_def
proof (intro allI impI)
  fix d :: int
  assume "\<bar>d\<bar> \<le> 511"
  from volume_round_spec [OF this assms(2,3)] obtain q where q: "volume_round w p d = Some q" "\<bar>1024 * q - p\<bar> \<le> 2046" "towards_zero p q"
    by blast
  show "\<exists>y. volume_round w p d \<bind> (\<lambda>x. Some (final x)) = Some y \<and> rounded bits p y \<and> towards_zero p y"
    using q assms(1) towards_zero_clamp [OF q(3), of bits] by (auto simp: rounded_def intro: exI [of _ "clamp bits q"])
qed

section \<open>Loops\<close>

lemma map_dither_rounds:
  assumes "list_all (\<lambda>x. rounds bits (f x) (p x)) xs"
  shows "\<exists>ys state'. map_dither f xs state = Some (ys, state') \<and> list_all2 (\<lambda>x y. rounded bits (p x) y \<and> towards_zero (p x) y) xs ys"
  using assms
proof (induction xs arbitrary: state)
  case (Cons x xs)
  obtain d state1 where d: "pcm_volume_dither state = (d, state1)" by fastforce
  then have "\<bar>d\<bar> \<le> 511" using volume_dither_bounds [of state] by simp
  then obtain y where y: "f x d = Some y" "rounded bits (p x) y" "towards_zero (p x) y" using Cons.prems by (auto simp: rounds_def)
  obtain ys state2 where ys: "map_dither f xs state1 = Some (ys, state2)"
    "list_all2 (\<lambda>x y. rounded bits (p x) y \<and> towards_zero (p x) y) xs ys" using Cons.IH [of state1] Cons.prems by auto
  show ?case using d y ys by simp
qed simp

lemma mix_dither_rounds:
  assumes "n \<le> length xs" "n \<le> length ys" "\<forall>i < n. rounds bits (f (xs ! i) (ys ! i)) (p (xs ! i) (ys ! i))"
  shows "\<exists>zs state'. mix_dither f n xs ys state = Some (zs, state') \<and> length zs = length xs \<and> drop n zs = drop n xs \<and>
    (\<forall>i < n. rounded bits (p (xs ! i) (ys ! i)) (zs ! i))"
  using assms
proof (induction f n xs ys state rule: mix_dither.induct)
  case (2 f n x xs y ys state)
  obtain d state1 where d: "pcm_volume_dither state = (d, state1)" by fastforce
  then have "\<bar>d\<bar> \<le> 511" using volume_dither_bounds [of state] by simp
  then obtain z where z: "f x y d = Some z" "rounded bits (p x y) z" using "2.prems"(3) by (force simp: rounds_def)
  have "\<forall>i < n. rounds bits (f (xs ! i) (ys ! i)) (p (xs ! i) (ys ! i))" using "2.prems"(3) by force
  then obtain zs state2 where zs: "mix_dither f n xs ys state1 = Some (zs, state2)" "length zs = length xs" "drop n zs = drop n xs"
    "\<forall>i < n. rounded bits (p (xs ! i) (ys ! i)) (zs ! i)"
    using "2.IH" [OF d [symmetric] refl z(1)] "2.prems" by auto
  have "\<forall>i < Suc n. rounded bits (p ((x # xs) ! i) ((y # ys) ! i)) ((z # zs) ! i)"
    using z(2) zs(4) by (auto simp: less_Suc_eq_0_disj)
  then show ?case using d z zs by (intro exI [of _ "z # zs"]) simp
qed auto

lemma mix_plain_values:
  assumes "n \<le> length xs" "n \<le> length ys" "\<forall>i < n. f (xs ! i) (ys ! i) = Some (g (xs ! i) (ys ! i))"
  shows "mix_plain f n xs ys = Some (map2 g (take n xs) (take n ys) @ drop n xs)"
  using assms
proof (induction f n xs ys rule: mix_plain.induct)
  case (2 f n x xs y ys)
  have "\<forall>i < n. f (xs ! i) (ys ! i) = Some (g (xs ! i) (ys ! i))" using "2.prems"(3) by force
  moreover have "f x y = Some (g x y)" using "2.prems"(3) by force
  ultimately show ?case using "2.IH" "2.prems" by auto
qed auto

section \<open>Volume of a buffer\<close>

text \<open>The width and the values of a buffer of an integer format.\<close>

fun int_samples :: "'f pcm_data \<Rightarrow> (nat \<times> int list) option" where
  "int_samples (PCM_S8 xs) = Some (8, xs)"
| "int_samples (PCM_S16 xs) = Some (16, xs)"
| "int_samples (PCM_S24_P32 xs) = Some (24, xs)"
| "int_samples (PCM_S32 xs) = Some (32, xs)"
| "int_samples _ = None"

definition int_data :: "nat \<Rightarrow> int list \<Rightarrow> 'f pcm_data" where
  "int_data bits xs = (if bits = 8 then PCM_S8 xs else if bits = 16 then PCM_S16 xs else if bits = 24 then PCM_S24_P32 xs else PCM_S32 xs)"

definition bits_of :: "sample_format \<Rightarrow> nat" where
  "bits_of f = (case f of SAMPLE_FORMAT_S8 \<Rightarrow> 8 | SAMPLE_FORMAT_S16 \<Rightarrow> 16 | SAMPLE_FORMAT_S24_P32 \<Rightarrow> 24 | _ \<Rightarrow> 32)"

lemma product_bounds:
  assumes "fits bits (x :: int)" "0 \<le> v" "v \<le> m"
  shows "- (2 ^ (bits - 1)) * m \<le> x * v" "x * v \<le> 2 ^ (bits - 1) * m"
proof -
  have x: "- (2 ^ (bits - 1)) \<le> x" "x \<le> 2 ^ (bits - 1)" using assms(1) by (simp_all add: fits_def)
  have "- (2 ^ (bits - 1)) * m \<le> - (2 ^ (bits - 1)) * v" using assms(3) by simp
  also have "\<dots> \<le> x * v" using x(1) assms(2) by (rule mult_right_mono)
  finally show "- (2 ^ (bits - 1)) * m \<le> x * v" .
  have "x * v \<le> 2 ^ (bits - 1) * v" using x(2) assms(2) by (rule mult_right_mono)
  also have "\<dots> \<le> 2 ^ (bits - 1) * m" using assms(3) by simp
  finally show "x * v \<le> 2 ^ (bits - 1) * m" .
qed

lemma product_fits:
  assumes "0 \<le> v" "v < 2 ^ 16"
  shows "fits 8 x \<Longrightarrow> fits 32 (x * v - 1023) \<and> fits 32 (x * v + 1023)"
    "fits 16 x \<Longrightarrow> fits 32 (x * v - 1023) \<and> fits 32 (x * v + 1023)"
    "fits 24 x \<Longrightarrow> fits 64 (x * v - 1023) \<and> fits 64 (x * v + 1023)"
    "fits 24 x \<Longrightarrow> \<bar>1024 * q - x * v\<bar> \<le> 2046 \<Longrightarrow> fits 32 q"
    "fits 32 x \<Longrightarrow> fits 64 (x * v - 1023) \<and> fits 64 (x * v + 1023)"
  using product_bounds [of 8 x v "2 ^ 16 - 1"] product_bounds [of 16 x v "2 ^ 16 - 1"]
    product_bounds [of 24 x v "2 ^ 16 - 1"] product_bounds [of 32 x v "2 ^ 16 - 1"] assms
  by (auto simp: fits_def abs_le_iff)

text \<open>The loops over samples compute the exact value \<open>p\<close> first.\<close>

lemma rounds_checked:
  assumes "\<And>q. \<bar>1024 * q - p\<bar> \<le> 2046 \<Longrightarrow> final q = clamp bits q" "fits w (p - 1023) \<and> fits w (p + 1023)" "m = Some p"
  shows "rounds bits (\<lambda>d. do { p \<leftarrow> m; q \<leftarrow> volume_round w p d; Some (final q) }) p"
  using rounds_step [of p final bits w] assms by simp

lemma arith_between: "fits w (p - 1023) \<and> fits w (p + 1023) \<Longrightarrow> arith w p = Some p"
  by (auto simp: fits_def arith_def)

lemma volume_rounds:
  assumes "0 < v" "v < 2 ^ 16"
  shows "fits 8 x \<Longrightarrow> rounds 8 (\<lambda>d. do { p \<leftarrow> arith 32 (x * v); q \<leftarrow> volume_round 32 p d; Some (wrap 8 (pcm_range q 8)) }) (x * v)"
    "fits 16 x \<Longrightarrow> rounds 16 (\<lambda>d. do { p \<leftarrow> arith 32 (x * v); q \<leftarrow> volume_round 32 p d; Some (wrap 16 (pcm_range q 16)) }) (x * v)"
    "fits 24 x \<Longrightarrow> rounds 24 (\<lambda>d. do { p \<leftarrow> arith 64 (x * v); q \<leftarrow> volume_round 64 p d; Some (pcm_range (wrap 32 q) 24) }) (x * v)"
    "fits 32 x \<Longrightarrow> rounds 32 (\<lambda>d. do { p \<leftarrow> arith 64 (x * v); q \<leftarrow> volume_round 64 p d; Some (wrap 32 (pcm_range_64 q 32)) }) (x * v)"
  by (rule rounds_checked; use product_fits [of v x] assms in \<open>simp add: arith_between\<close>)+

text \<open>A volume below the full one never makes a sample louder.\<close>

lemma towards_zero_quieter:
  assumes "towards_zero (x * v) y" "0 < v" "v < 1024"
  shows "\<bar>y\<bar> \<le> \<bar>x\<bar>"
proof (cases "0 \<le> x")
  case True
  then have "0 \<le> x * v" "x * v \<le> x * 1023" using assms(2,3) by (auto intro: mult_left_mono)
  then have "0 \<le> y" "1024 * y \<le> x * 1023 + 1023" using assms(1) by (auto simp: towards_zero_def)
  then show ?thesis using True by linarith
next
  case False
  then have "x * 1023 \<le> x * v" "x * v < 0" using assms(2,3) by (simp_all add: mult_neg_pos mult_left_mono_neg)
  then have "y \<le> 0" "x * 1023 < 1024 * y" using assms(1) by (auto simp: towards_zero_def)
  then show ?thesis using False by linarith
qed

definition scaled :: "nat \<Rightarrow> int \<Rightarrow> int \<Rightarrow> int \<Rightarrow> bool" where
  "scaled bits v x y \<longleftrightarrow> rounded bits (x * v) y \<and> (v < 1024 \<longrightarrow> \<bar>y\<bar> \<le> \<bar>x\<bar>)"

lemma map_dither_scales:
  assumes "0 < v" "\<And>x. fits bits x \<Longrightarrow> rounds bits (f x) (x * v)" "list_all (fits bits) xs"
  shows "\<exists>ys state'. map_dither f xs state = Some (ys, state') \<and> list_all2 (scaled bits v) xs ys"
proof -
  have r: "list_all (\<lambda>x. rounds bits (f x) (x * v)) xs" using assms(2,3) by (simp add: list_all_iff)
  obtain ys state' where ys: "map_dither f xs state = Some (ys, state')"
    "list_all2 (\<lambda>x y. rounded bits (x * v) y \<and> towards_zero (x * v) y) xs ys" using map_dither_rounds [OF r, of state] by blast
  have "list_all2 (scaled bits v) xs ys"
    using ys(2) by (rule list_all2_mono) (use towards_zero_quieter [OF _ assms(1)] in \<open>simp add: scaled_def\<close>)
  with ys(1) show ?thesis by blast
qed

lemma volume_changes:
  assumes "0 < v" "v < 2 ^ 16"
  shows "list_all (fits 8) xs \<Longrightarrow> \<exists>ys state'. pcm_volume_change_8 v xs state = Some (ys, state') \<and> list_all2 (scaled 8 v) xs ys"
    "list_all (fits 16) xs \<Longrightarrow> \<exists>ys state'. pcm_volume_change_16 v xs state = Some (ys, state') \<and> list_all2 (scaled 16 v) xs ys"
    "list_all (fits 24) xs \<Longrightarrow> \<exists>ys state'. pcm_volume_change_24 v xs state = Some (ys, state') \<and> list_all2 (scaled 24 v) xs ys"
    "list_all (fits 32) xs \<Longrightarrow> \<exists>ys state'. pcm_volume_change_32 v xs state = Some (ys, state') \<and> list_all2 (scaled 32 v) xs ys"
  unfolding pcm_volume_change_8_def pcm_volume_change_16_def pcm_volume_change_24_def pcm_volume_change_32_def
  by - (rule map_dither_scales [OF assms(1)], erule volume_rounds [OF assms], assumption)+

lemma pcm_volume_scales_data:
  assumes "int_samples b = Some (bits, xs)" "list_all (fits bits) xs" "0 < v" "v < 2 ^ 16" "v \<noteq> 1024"
  shows "\<exists>b' ys state'. pcm_volume F b v state = Some (True, b', state') \<and> int_samples b' = Some (bits, ys) \<and> list_all2 (scaled bits v) xs ys"
  using assms volume_changes [OF assms(3,4), of xs state]
  by (cases b) (auto simp: pcm_volume_def)

section \<open>Mixing\<close>

lemma fade_bounds:
  assumes "fits bits (x :: int)" "fits bits y" "0 \<le> v" "v \<le> 1024"
  shows "\<bar>x * v + y * (1024 - v)\<bar> \<le> 2 ^ (bits - 1) * 1024" "\<bar>x * v\<bar> \<le> 2 ^ (bits - 1) * 1024" "\<bar>y * (1024 - v)\<bar> \<le> 2 ^ (bits - 1) * 1024"
proof -
  have a: "\<bar>x * v\<bar> \<le> 2 ^ (bits - 1) * v" "\<bar>y * (1024 - v)\<bar> \<le> 2 ^ (bits - 1) * (1024 - v)"
    using assms by (auto simp: abs_mult fits_def intro!: mult_right_mono)
  have "2 ^ (bits - 1) * v + 2 ^ (bits - 1) * (1024 - v) = (2 ^ (bits - 1) * 1024 :: int)" by (simp add: algebra_simps)
  with a show "\<bar>x * v + y * (1024 - v)\<bar> \<le> 2 ^ (bits - 1) * 1024" by linarith
  have "(2 :: int) ^ (bits - 1) * v \<le> 2 ^ (bits - 1) * 1024" "(2 :: int) ^ (bits - 1) * (1024 - v) \<le> 2 ^ (bits - 1) * 1024"
    using assms(3,4) by simp_all
  with a show "\<bar>x * v\<bar> \<le> 2 ^ (bits - 1) * 1024" "\<bar>y * (1024 - v)\<bar> \<le> 2 ^ (bits - 1) * 1024" by linarith+
qed

lemma weighted_sum_fits:
  assumes "fits w (x * v)" "fits w (y * u)" "fits w (x * v + y * u)"
  shows "weighted_sum w x v y u = Some (x * v + y * u)"
  using assms by (simp add: weighted_sum_def)

lemma fade_fits:
  assumes "0 \<le> v" "v \<le> 1024"
  shows "fits 8 x \<Longrightarrow> fits 8 y \<Longrightarrow> weighted_sum 32 x v y (1024 - v) = Some (x * v + y * (1024 - v))"
    "fits 16 x \<Longrightarrow> fits 16 y \<Longrightarrow> weighted_sum 32 x v y (1024 - v) = Some (x * v + y * (1024 - v))"
    "fits 24 x \<Longrightarrow> fits 24 y \<Longrightarrow> weighted_sum 64 x v y (1024 - v) = Some (x * v + y * (1024 - v))"
    "fits 32 x \<Longrightarrow> fits 32 y \<Longrightarrow> weighted_sum 64 x v y (1024 - v) = Some (x * v + y * (1024 - v))"
  using fade_bounds [of 8 x y v] fade_bounds [of 16 x y v] fade_bounds [of 24 x y v] fade_bounds [of 32 x y v] assms
  by - (rule weighted_sum_fits; simp add: fits_def abs_le_iff)+

lemma fade_sum_fits:
  assumes "0 \<le> v" "v \<le> 1024" "p = x * v + y * (1024 - v)"
  shows "fits 8 x \<Longrightarrow> fits 8 y \<Longrightarrow> fits 32 (p - 1023) \<and> fits 32 (p + 1023)"
    "fits 16 x \<Longrightarrow> fits 16 y \<Longrightarrow> fits 32 (p - 1023) \<and> fits 32 (p + 1023)"
    "fits 24 x \<Longrightarrow> fits 24 y \<Longrightarrow> fits 64 (p - 1023) \<and> fits 64 (p + 1023)"
    "fits 24 x \<Longrightarrow> fits 24 y \<Longrightarrow> \<bar>1024 * q - p\<bar> \<le> 2046 \<Longrightarrow> fits 32 q"
    "fits 32 x \<Longrightarrow> fits 32 y \<Longrightarrow> fits 64 (p - 1023) \<and> fits 64 (p + 1023)"
  using fade_bounds(1) [of 8 x y v] fade_bounds(1) [of 16 x y v] fade_bounds(1) [of 24 x y v] fade_bounds(1) [of 32 x y v] assms
  by (auto simp: fits_def abs_le_iff)

lemma fade_rounds:
  assumes "0 \<le> v" "v \<le> 1024"
  shows "fits 8 x \<Longrightarrow> fits 8 y \<Longrightarrow> rounds 8 (\<lambda>d. do { p \<leftarrow> weighted_sum 32 x v y (1024 - v); q \<leftarrow> volume_round 32 p d; Some (wrap 8 (pcm_range q 8)) }) (x * v + y * (1024 - v))"
    "fits 16 x \<Longrightarrow> fits 16 y \<Longrightarrow> rounds 16 (\<lambda>d. do { p \<leftarrow> weighted_sum 32 x v y (1024 - v); q \<leftarrow> volume_round 32 p d; Some (wrap 16 (pcm_range q 16)) }) (x * v + y * (1024 - v))"
    "fits 24 x \<Longrightarrow> fits 24 y \<Longrightarrow> rounds 24 (\<lambda>d. do { p \<leftarrow> weighted_sum 64 x v y (1024 - v); q \<leftarrow> volume_round 64 p d; Some (pcm_range (wrap 32 q) 24) }) (x * v + y * (1024 - v))"
    "fits 32 x \<Longrightarrow> fits 32 y \<Longrightarrow> rounds 32 (\<lambda>d. do { p \<leftarrow> weighted_sum 64 x v y (1024 - v); q \<leftarrow> volume_round 64 p d; Some (wrap 32 (pcm_range_64 q 32)) }) (x * v + y * (1024 - v))"
  by (rule rounds_checked; use fade_sum_fits [OF assms refl, of x y] fade_fits [OF assms, of x y] in \<open>simp\<close>)+

lemma mix_dither_fades:
  assumes "n \<le> length xs" "n \<le> length ys" "list_all (fits bits) xs" "list_all (fits bits) ys"
    and "\<And>x y. fits bits x \<Longrightarrow> fits bits y \<Longrightarrow> rounds bits (f x y) (x * v + y * (1024 - v))"
  shows "\<exists>zs state'. mix_dither f n xs ys state = Some (zs, state') \<and> length zs = length xs \<and> drop n zs = drop n xs \<and>
    (\<forall>i < n. rounded bits (xs ! i * v + ys ! i * (1024 - v)) (zs ! i))"
  using assms by (intro mix_dither_rounds) (auto simp: list_all_length)

definition faded :: "nat \<Rightarrow> nat \<Rightarrow> int \<Rightarrow> int list \<Rightarrow> int list \<Rightarrow> int list \<Rightarrow> bool" where
  "faded bits n v xs ys zs \<longleftrightarrow> length zs = length xs \<and> drop n zs = drop n xs \<and>
     (\<forall>i < n. rounded bits (xs ! i * v + ys ! i * (1024 - v)) (zs ! i))"

lemma add_vols:
  assumes "n \<le> length xs" "n \<le> length ys" "0 \<le> v" "v \<le> 1024"
  shows "list_all (fits 8) xs \<Longrightarrow> list_all (fits 8) ys \<Longrightarrow> \<exists>zs state'. pcm_add_vol_8 n v (1024 - v) xs ys state = Some (zs, state') \<and> faded 8 n v xs ys zs"
    "list_all (fits 16) xs \<Longrightarrow> list_all (fits 16) ys \<Longrightarrow> \<exists>zs state'. pcm_add_vol_16 n v (1024 - v) xs ys state = Some (zs, state') \<and> faded 16 n v xs ys zs"
    "list_all (fits 24) xs \<Longrightarrow> list_all (fits 24) ys \<Longrightarrow>
      \<exists>zs state'. pcm_add_vol_24 n (to_unsigned v) (to_unsigned (1024 - v)) xs ys state = Some (zs, state') \<and> faded 24 n v xs ys zs"
    "list_all (fits 32) xs \<Longrightarrow> list_all (fits 32) ys \<Longrightarrow>
      \<exists>zs state'. pcm_add_vol_32 n (to_unsigned v) (to_unsigned (1024 - v)) xs ys state = Some (zs, state') \<and> faded 32 n v xs ys zs"
proof -
  have "int (to_unsigned v) = v" "int (to_unsigned (1024 - v)) = 1024 - v" using assms by (simp_all add: to_unsigned_def)
  note defs = pcm_add_vol_8_def pcm_add_vol_16_def pcm_add_vol_24_def pcm_add_vol_32_def faded_def this
  show "list_all (fits 8) xs \<Longrightarrow> list_all (fits 8) ys \<Longrightarrow> \<exists>zs state'. pcm_add_vol_8 n v (1024 - v) xs ys state = Some (zs, state') \<and> faded 8 n v xs ys zs"
    unfolding defs by (rule mix_dither_fades [OF assms(1,2)], assumption, assumption, rule fade_rounds(1) [OF assms(3,4)])
  show "list_all (fits 16) xs \<Longrightarrow> list_all (fits 16) ys \<Longrightarrow> \<exists>zs state'. pcm_add_vol_16 n v (1024 - v) xs ys state = Some (zs, state') \<and> faded 16 n v xs ys zs"
    unfolding defs by (rule mix_dither_fades [OF assms(1,2)], assumption, assumption, rule fade_rounds(2) [OF assms(3,4)])
  show "list_all (fits 24) xs \<Longrightarrow> list_all (fits 24) ys \<Longrightarrow>
      \<exists>zs state'. pcm_add_vol_24 n (to_unsigned v) (to_unsigned (1024 - v)) xs ys state = Some (zs, state') \<and> faded 24 n v xs ys zs"
    unfolding defs by (rule mix_dither_fades [OF assms(1,2)], assumption, assumption, rule fade_rounds(3) [OF assms(3,4)])
  show "list_all (fits 32) xs \<Longrightarrow> list_all (fits 32) ys \<Longrightarrow>
      \<exists>zs state'. pcm_add_vol_32 n (to_unsigned v) (to_unsigned (1024 - v)) xs ys state = Some (zs, state') \<and> faded 32 n v xs ys zs"
    unfolding defs by (rule mix_dither_fades [OF assms(1,2)], assumption, assumption, rule fade_rounds(4) [OF assms(3,4)])
qed

lemma pcm_add_vol_fades:
  assumes "int_samples b1 = Some (bits, xs)" "int_samples b2 = Some (bits, ys)" "n = bytes div sample_format_size (data_format b1)"
    and "n \<le> length xs" "n \<le> length ys" "list_all (fits bits) xs" "list_all (fits bits) ys" "0 \<le> v" "v \<le> 1024"
  shows "\<exists>b' zs state'. pcm_add_vol F b1 b2 bytes v (1024 - v) state = Some (True, b', state') \<and> int_samples b' = Some (bits, zs) \<and>
    faded bits n v xs ys zs"
  using assms(1-3,6,7) add_vols [OF assms(4,5,8,9), of state]
  by (cases b1; cases b2) auto

definition saturated :: "nat \<Rightarrow> nat \<Rightarrow> int list \<Rightarrow> int list \<Rightarrow> int list" where
  "saturated bits n xs ys = map2 (\<lambda>x y. clamp bits (x + y)) (take n xs) (take n ys) @ drop n xs"

lemma mix_plain_saturates:
  assumes "n \<le> length xs" "n \<le> length ys" "list_all (fits bits) xs" "list_all (fits bits) ys"
    and "\<And>x y. fits bits x \<Longrightarrow> fits bits y \<Longrightarrow> f x y = Some (clamp bits (x + y))"
  shows "mix_plain f n xs ys = Some (saturated bits n xs ys)"
  unfolding saturated_def using assms by (intro mix_plain_values) (auto simp: list_all_length)

lemma sum_fits:
  "fits 8 x \<Longrightarrow> fits 8 y \<Longrightarrow> fits 32 (x + y)" "fits 16 x \<Longrightarrow> fits 16 y \<Longrightarrow> fits 32 (x + y)"
  "fits 24 x \<Longrightarrow> fits 24 y \<Longrightarrow> fits 32 (x + y)" "fits 24 x \<Longrightarrow> fits 24 y \<Longrightarrow> fits 64 (x + y)" "fits 32 x \<Longrightarrow> fits 32 y \<Longrightarrow> fits 64 (x + y)"
  by (auto simp: fits_def)

lemma adds:
  assumes "n \<le> length xs" "n \<le> length ys"
  shows "list_all (fits 8) xs \<Longrightarrow> list_all (fits 8) ys \<Longrightarrow> pcm_add_8 n xs ys = Some (saturated 8 n xs ys)"
    "list_all (fits 16) xs \<Longrightarrow> list_all (fits 16) ys \<Longrightarrow> pcm_add_16 n xs ys = Some (saturated 16 n xs ys)"
    "list_all (fits 24) xs \<Longrightarrow> list_all (fits 24) ys \<Longrightarrow> pcm_add_24 n xs ys = Some (saturated 24 n xs ys)"
    "list_all (fits 32) xs \<Longrightarrow> list_all (fits 32) ys \<Longrightarrow> pcm_add_32 n xs ys = Some (saturated 32 n xs ys)"
  unfolding pcm_add_8_def pcm_add_16_def pcm_add_24_def pcm_add_32_def
  by - (rule mix_plain_saturates [OF assms], assumption, assumption, simp add: sum_fits)+

lemma pcm_add_saturates:
  assumes "int_samples b1 = Some (bits, xs)" "int_samples b2 = Some (bits, ys)" "n = bytes div sample_format_size (data_format b1)"
    and "n \<le> length xs" "n \<le> length ys" "list_all (fits bits) xs" "list_all (fits bits) ys"
  shows "\<exists>b'. pcm_add F b1 b2 bytes = Some (True, b') \<and> int_samples b' = Some (bits, saturated bits n xs ys)"
  using assms(1-3,6,7) adds [OF assms(4,5)] by (cases b1; cases b2) auto

text \<open>The level from which \<^verbatim>\<open>pcm_mix\<close> computes the volume of the first buffer.\<close>

definition fade_level :: "'f float_ops \<Rightarrow> 'f \<Rightarrow> 'f" where
  "fade_level F portion1 = (let s = fl_sin_half_pi F portion1; s = fl_mul F s s in
     fl_add F (fl_mul F s (fl_of_int F PCM_VOLUME_1)) (fl_div F (fl_of_int F 1) (fl_of_int F 2)))"

lemma pcm_mix_fades:
  assumes "int_samples b1 = Some (bits, xs)" "int_samples b2 = Some (bits, ys)" "n = bytes div sample_format_size (data_format b1)"
    and "n \<le> length xs" "n \<le> length ys" "list_all (fits bits) xs" "list_all (fits bits) ys"
    and "\<not> fl_isnan F portion1" "fl_to_int F (fade_level F portion1) = Some level"
  shows "\<exists>b' zs state'. pcm_mix F b1 b2 bytes portion1 state = Some (True, b', state') \<and> int_samples b' = Some (bits, zs) \<and>
    faded bits n (max 0 (min 1024 level)) xs ys zs"
proof -
  have "pcm_mix F b1 b2 bytes portion1 state =
      pcm_add_vol F b1 b2 bytes (max 0 (min 1024 level)) (1024 - max 0 (min 1024 level)) state"
    using assms(8,9) by (auto simp: pcm_mix_def fade_level_def Let_def)
  with pcm_add_vol_fades [OF assms(1-7), of "max 0 (min 1024 level)"] show ?thesis by simp
qed

lemma pcm_mix_adds:
  assumes "int_samples b1 = Some (bits, xs)" "int_samples b2 = Some (bits, ys)" "n = bytes div sample_format_size (data_format b1)"
    and "n \<le> length xs" "n \<le> length ys" "list_all (fits bits) xs" "list_all (fits bits) ys" "fl_isnan F portion1"
  shows "\<exists>b'. pcm_mix F b1 b2 bytes portion1 state = Some (True, b', state) \<and>
    int_samples b' = Some (bits, saturated bits n xs ys)"
  using pcm_add_saturates [OF assms(1-7), of F] assms(8) by (auto simp: pcm_mix_def)

section \<open>Dithering\<close>

text \<open>The errors that are fed back stay small.\<close>

definition dither_ok :: "pcm_dither \<Rightarrow> bool" where
  "dither_ok d \<longleftrightarrow> \<bar>di_error0 d\<bar> \<le> 383 \<and> \<bar>di_error1 d\<bar> \<le> 191 \<and> \<bar>di_error2 d\<bar> \<le> 191"

lemma dither_init_ok: "dither_ok pcm_dither_24_init"
  by (simp add: dither_ok_def pcm_dither_24_init_def)

lemma dither_sample:
  assumes "dither_ok d" "fits 24 x"
  shows "\<exists>y d'. pcm_dither_sample_24_to_16 x d = Some (y, d') \<and> dither_ok d' \<and> fits 16 y \<and> \<bar>256 * y - x\<bar> \<le> 1148"
proof -
  define diff where "diff = di_error0 d - di_error1 d + di_error2 d"
  define rnd where "rnd = wrap 32 (uint (pcm_prng (word_of_int (di_random d))))"
  define out where "out = x + diff + 128 + ((rnd AND 255) - (di_random d AND 255))"
  have e: "\<bar>di_error0 d\<bar> \<le> 383" "\<bar>di_error1 d\<bar> \<le> 191" "\<bar>di_error2 d\<bar> \<le> 191" using assms(1) by (simp_all add: dither_ok_def)
  have diff: "\<bar>diff\<bar> \<le> 765" using e by (simp add: diff_def)
  have x: "- 8388608 \<le> x" "x < 8388608" using assms(2) by (simp_all add: fits_def)
  have out: "x + diff - 127 \<le> out" "out \<le> x + diff + 383"
    using and_mask_int [of rnd] and_mask_int [of "di_random d"] unfolding out_def by linarith+
  obtain o' s' where c: "dither_clip out (x + diff) = (o', s')" by fastforce
  define y where "y = o' div 256"
  have o': "- 8388608 \<le> o'" "o' \<le> 8388607" using c by (auto simp: dither_clip_def Let_def split: if_splits)
  have s': "o' - 383 \<le> s'" "s' \<le> o' + 128" "\<bar>s' - x\<bar> \<le> 765"
    using c out diff x by (auto simp: dither_clip_def Let_def split: if_splits)
  have q: "256 * y \<le> o'" "o' \<le> 256 * y + 255" by (simp_all add: y_def)
  have y: "fits 16 y" using o' q by (simp add: fits_def)
  have err: "\<bar>s' - 256 * y\<bar> \<le> 383" using s' q by linarith
  have half: "\<bar>di_error0 d sdiv 2\<bar> \<le> 191" using sdiv_bounds [of 2 "di_error0 d"] e(1) by linarith
  have fit: "fits 32 (di_error0 d - di_error1 d)" "fits 32 diff" "fits 32 (x + diff)" "fits 32 (x + diff + 128)" "fits 32 out" "fits 32 (s' - 256 * y)"
    using e diff x out err by (auto simp: fits_def)
  have "pcm_dither_sample_24_to_16 x d = Some (y, \<lparr>di_error0 = s' - 256 * y, di_error1 = di_error0 d sdiv 2, di_error2 = di_error1 d, di_random = rnd\<rparr>)"
    using fit y c
    by (simp add: pcm_dither_sample_24_to_16_def Let_def and_not_mask_int drop_bit_eq_div
        flip: diff_def rnd_def out_def y_def)
  moreover have "\<bar>256 * y - x\<bar> \<le> 1148" using err s'(3) by linarith
  ultimately show ?thesis using y err half e by (auto simp: dither_ok_def)
qed

lemma dither_loop:
  assumes "\<And>x d. P x \<Longrightarrow> dither_ok d \<Longrightarrow> \<exists>y d'. f x d = Some (y, d') \<and> dither_ok d' \<and> Q x y"
    and "\<And>d. loop d [] = Some ([], d)"
    and "\<And>d x xs. loop d (x # xs) = do { (y, d) \<leftarrow> f x d; (ys, d) \<leftarrow> loop d xs; Some (y # ys, d) }"
    and "list_all P xs" "dither_ok d"
  shows "\<exists>ys d'. loop d xs = Some (ys, d') \<and> dither_ok d' \<and> list_all2 Q xs ys"
  using assms(4,5)
proof (induction xs arbitrary: d)
  case (Cons x xs)
  obtain y d1 where 1: "f x d = Some (y, d1)" "dither_ok d1" "Q x y" using assms(1) [of x d] Cons.prems by auto
  with Cons.IH [of d1] Cons.prems obtain ys d2 where "loop d1 xs = Some (ys, d2)" "dither_ok d2" "list_all2 Q xs ys" by auto
  with 1 show ?case by (simp add: assms(3))
qed (simp add: assms(2))

text \<open>A sample of \<open>bits\<close> bits is replaced by one of 16 bits close to it.\<close>

definition dithered :: "nat \<Rightarrow> int \<Rightarrow> int \<Rightarrow> bool" where
  "dithered bits x y \<longleftrightarrow> fits 16 y \<and> \<bar>2 ^ (bits - 16) * y - x\<bar> \<le> 1149 * 2 ^ (bits - 24)"

lemma dither_24_to_16:
  assumes "list_all (fits 24) xs" "dither_ok d"
  shows "\<exists>ys d'. pcm_dither_24_to_16 d xs = Some (ys, d') \<and> dither_ok d' \<and> list_all2 (dithered 24) xs ys"
proof -
  have "\<exists>y d'. pcm_dither_sample_24_to_16 x d = Some (y, d') \<and> dither_ok d' \<and> dithered 24 x y" if "fits 24 x" "dither_ok d" for x d
    using dither_sample [OF that(2,1)] by (fastforce simp: dithered_def)
  from dither_loop [where loop = pcm_dither_24_to_16, OF this _ _ assms] show ?thesis by simp
qed

lemma dither_32_to_16:
  assumes "list_all (fits 32) xs" "dither_ok d"
  shows "\<exists>ys d'. pcm_dither_32_to_16 d xs = Some (ys, d') \<and> dither_ok d' \<and> list_all2 (dithered 32) xs ys"
proof -
  have "\<exists>y d'. pcm_dither_sample_32_to_16 x d = Some (y, d') \<and> dither_ok d' \<and> dithered 32 x y" if x: "fits 32 x" "dither_ok d" for x d
  proof -
    have q: "256 * (x div 256) \<le> x" "x \<le> 256 * (x div 256) + 255" by simp_all
    then have "fits 24 (x div 256)" using x(1) by (simp add: fits_def)
    from dither_sample [OF x(2) this] obtain y d' where
      "pcm_dither_sample_24_to_16 (x div 256) d = Some (y, d')" "dither_ok d'" "fits 16 y" "\<bar>256 * y - x div 256\<bar> \<le> 1148" by blast
    moreover from this(4) q have "\<bar>65536 * y - x\<bar> \<le> 294144" by linarith
    ultimately show ?thesis by (simp add: pcm_dither_sample_32_to_16_def drop_bit_eq_div dithered_def)
  qed
  from dither_loop [where loop = pcm_dither_32_to_16, OF this _ _ assms] show ?thesis by simp
qed

end
