(* ===== verification/Pcm_Convert.thy ===== *)
theory Pcm_Convert
  imports Pcm_Inv
begin

text \<open>
  The conversion of audio data: \<^verbatim>\<open>src/pcm/pcm_buffer.[ch]\<close>, \<^verbatim>\<open>pcm_format.c\<close>, \<^verbatim>\<open>pcm_channels.c\<close>,
  \<^verbatim>\<open>pcm_resample_fallback.c\<close>, \<^verbatim>\<open>pcm_resample.c\<close> in a build without libsamplerate, and \<^verbatim>\<open>pcm_convert.c\<close>.

  A destination buffer is represented by the samples written to it; of \<^verbatim>\<open>struct pcm_buffer\<close> only the size of the
  allocation is left.  \<open>None\<close> is a failed assertion, a read outside of the source, a division by
  zero or an overflow; the \<^verbatim>\<open>NULL\<close> of a conversion that is not implemented is \<open>None\<close> inside of the result.
\<close>

unbundle bit_operations_syntax

section \<open>Buffers\<close>

record pcm_buffer =
  pb_size :: nat

definition pcm_buffer_init :: pcm_buffer where
  "pcm_buffer_init = \<lparr>pb_size = 0\<rparr>"

definition align_8k :: "nat \<Rightarrow> nat" where
  "align_8k n = ((n - 1) OR 0x1fff) + 1"

definition pcm_buffer_get :: "pcm_buffer \<Rightarrow> nat \<Rightarrow> pcm_buffer option" where
  "pcm_buffer_get buffer n = do {
     let n = (if n = 0 then 1 else n);
     let buffer = (if pb_size buffer < n then buffer\<lparr>pb_size := align_8k n\<rparr> else buffer);
     assert_that (n \<le> pb_size buffer);
     Some buffer
   }"

section \<open>Sample formats\<close>

definition pcm_convert_8_to_16 :: "int list \<Rightarrow> int list" where
  "pcm_convert_8_to_16 = map (\<lambda>x. wrap 16 (push_bit 8 x))"

definition pcm_convert_float_to_16 :: "'f float_ops \<Rightarrow> 'f list \<Rightarrow> int list option" where
  "pcm_convert_float_to_16 F xs =
     those (map (\<lambda>x. map_option pcm_clamp_16 (fl_to_int F (fl_mul F x (fl_of_int F (2 ^ 15))))) xs)"

definition pcm_allocate_8_to_16 :: "pcm_buffer \<Rightarrow> int list \<Rightarrow> (int list \<times> pcm_buffer) option" where
  "pcm_allocate_8_to_16 buffer src = do {
     buffer \<leftarrow> pcm_buffer_get buffer (length src * 2);
     Some (pcm_convert_8_to_16 src, buffer)
   }"

definition pcm_allocate_24p32_to_16 ::
    "pcm_buffer \<Rightarrow> pcm_dither \<Rightarrow> int list \<Rightarrow> (int list \<times> pcm_buffer \<times> pcm_dither) option" where
  "pcm_allocate_24p32_to_16 buffer dither src = do {
     let bytes = length src * 4;
     assert_that (bytes div 2 = bytes div 4 * 2);
     buffer \<leftarrow> pcm_buffer_get buffer (bytes div 2);
     (dest, dither) \<leftarrow> pcm_dither_24_to_16 dither src;
     Some (dest, buffer, dither)
   }"

definition pcm_allocate_32_to_16 ::
    "pcm_buffer \<Rightarrow> pcm_dither \<Rightarrow> int list \<Rightarrow> (int list \<times> pcm_buffer \<times> pcm_dither) option" where
  "pcm_allocate_32_to_16 buffer dither src = do {
     let bytes = length src * 4;
     assert_that (bytes div 2 = bytes div 4 * 2);
     buffer \<leftarrow> pcm_buffer_get buffer (bytes div 2);
     (dest, dither) \<leftarrow> pcm_dither_32_to_16 dither src;
     Some (dest, buffer, dither)
   }"

definition pcm_allocate_float_to_16 :: "'f float_ops \<Rightarrow> pcm_buffer \<Rightarrow> 'f list \<Rightarrow> (int list \<times> pcm_buffer) option" where
  "pcm_allocate_float_to_16 F buffer src = do {
     let bytes = length src * 4;
     assert_that (bytes div 2 = bytes div 4 * 2);
     buffer \<leftarrow> pcm_buffer_get buffer (bytes div 2);
     dest \<leftarrow> pcm_convert_float_to_16 F src;
     Some (dest, buffer)
   }"

text \<open>The assertion divides by the size of a sample, which is 0 for an undefined format.\<close>

fun pcm_convert_to_16 ::
    "'f float_ops \<Rightarrow> pcm_buffer \<Rightarrow> pcm_dither \<Rightarrow> 'f pcm_data \<Rightarrow> (int list option \<times> pcm_buffer \<times> pcm_dither) option" where
  "pcm_convert_to_16 F buffer dither (PCM_UNDEFINED src) = None"
| "pcm_convert_to_16 F buffer dither (PCM_DSD src) = Some (None, buffer, dither)"
| "pcm_convert_to_16 F buffer dither (PCM_S8 src) = do {
     (dest, buffer) \<leftarrow> pcm_allocate_8_to_16 buffer src;
     Some (Some dest, buffer, dither)
   }"
| "pcm_convert_to_16 F buffer dither (PCM_S16 src) = Some (Some src, buffer, dither)"
| "pcm_convert_to_16 F buffer dither (PCM_S24_P32 src) = do {
     (dest, buffer, dither) \<leftarrow> pcm_allocate_24p32_to_16 buffer dither src;
     Some (Some dest, buffer, dither)
   }"
| "pcm_convert_to_16 F buffer dither (PCM_S32 src) = do {
     (dest, buffer, dither) \<leftarrow> pcm_allocate_32_to_16 buffer dither src;
     Some (Some dest, buffer, dither)
   }"
| "pcm_convert_to_16 F buffer dither (PCM_FLOAT src) = do {
     (dest, buffer) \<leftarrow> pcm_allocate_float_to_16 F buffer src;
     Some (Some dest, buffer, dither)
   }"

definition pcm_convert_8_to_24 :: "int list \<Rightarrow> int list" where
  "pcm_convert_8_to_24 = map (\<lambda>x. wrap 32 (push_bit 16 x))"

definition pcm_convert_16_to_24 :: "int list \<Rightarrow> int list" where
  "pcm_convert_16_to_24 = map (\<lambda>x. wrap 32 (push_bit 8 x))"

definition pcm_convert_32_to_24 :: "int list \<Rightarrow> int list" where
  "pcm_convert_32_to_24 = map (\<lambda>x. drop_bit 8 x)"

definition pcm_convert_float_to_24 :: "'f float_ops \<Rightarrow> 'f list \<Rightarrow> int list option" where
  "pcm_convert_float_to_24 F xs =
     those (map (\<lambda>x. map_option pcm_clamp_24 (fl_to_int F (fl_mul F x (fl_of_int F (2 ^ 23))))) xs)"

definition pcm_allocate_8_to_24 :: "pcm_buffer \<Rightarrow> int list \<Rightarrow> (int list \<times> pcm_buffer) option" where
  "pcm_allocate_8_to_24 buffer src = do {
     buffer \<leftarrow> pcm_buffer_get buffer (length src * 4);
     Some (pcm_convert_8_to_24 src, buffer)
   }"

definition pcm_allocate_16_to_24 :: "pcm_buffer \<Rightarrow> int list \<Rightarrow> (int list \<times> pcm_buffer) option" where
  "pcm_allocate_16_to_24 buffer src = do {
     let bytes = length src * 2;
     assert_that (bytes * 2 = bytes div 2 * 4);
     buffer \<leftarrow> pcm_buffer_get buffer (bytes * 2);
     Some (pcm_convert_16_to_24 src, buffer)
   }"

definition pcm_allocate_32_to_24 :: "pcm_buffer \<Rightarrow> int list \<Rightarrow> (int list \<times> pcm_buffer) option" where
  "pcm_allocate_32_to_24 buffer src = do {
     buffer \<leftarrow> pcm_buffer_get buffer (length src * 4);
     Some (pcm_convert_32_to_24 src, buffer)
   }"

definition pcm_allocate_float_to_24 :: "'f float_ops \<Rightarrow> pcm_buffer \<Rightarrow> 'f list \<Rightarrow> (int list \<times> pcm_buffer) option" where
  "pcm_allocate_float_to_24 F buffer src = do {
     buffer \<leftarrow> pcm_buffer_get buffer (length src * 4);
     dest \<leftarrow> pcm_convert_float_to_24 F src;
     Some (dest, buffer)
   }"

text \<open>The result of a conversion that allocates its destination.\<close>

definition converted :: "('a list \<times> pcm_buffer) option \<Rightarrow> ('a list option \<times> pcm_buffer) option" where
  "converted = map_option (\<lambda>(dest, buffer). (Some dest, buffer))"

fun pcm_convert_to_24 :: "'f float_ops \<Rightarrow> pcm_buffer \<Rightarrow> 'f pcm_data \<Rightarrow> (int list option \<times> pcm_buffer) option" where
  "pcm_convert_to_24 F buffer (PCM_UNDEFINED src) = None"
| "pcm_convert_to_24 F buffer (PCM_DSD src) = Some (None, buffer)"
| "pcm_convert_to_24 F buffer (PCM_S8 src) = converted (pcm_allocate_8_to_24 buffer src)"
| "pcm_convert_to_24 F buffer (PCM_S16 src) = converted (pcm_allocate_16_to_24 buffer src)"
| "pcm_convert_to_24 F buffer (PCM_S24_P32 src) = Some (Some src, buffer)"
| "pcm_convert_to_24 F buffer (PCM_S32 src) = converted (pcm_allocate_32_to_24 buffer src)"
| "pcm_convert_to_24 F buffer (PCM_FLOAT src) = converted (pcm_allocate_float_to_24 F buffer src)"

definition pcm_convert_8_to_32 :: "int list \<Rightarrow> int list" where
  "pcm_convert_8_to_32 = map (\<lambda>x. wrap 32 (push_bit 24 x))"

definition pcm_convert_16_to_32 :: "int list \<Rightarrow> int list" where
  "pcm_convert_16_to_32 = map (\<lambda>x. wrap 32 (push_bit 16 x))"

definition pcm_convert_24_to_32 :: "int list \<Rightarrow> int list" where
  "pcm_convert_24_to_32 = map (\<lambda>x. wrap 32 (push_bit 8 x))"

definition pcm_allocate_8_to_32 :: "pcm_buffer \<Rightarrow> int list \<Rightarrow> (int list \<times> pcm_buffer) option" where
  "pcm_allocate_8_to_32 buffer src = do {
     buffer \<leftarrow> pcm_buffer_get buffer (length src * 4);
     Some (pcm_convert_8_to_32 src, buffer)
   }"

definition pcm_allocate_16_to_32 :: "pcm_buffer \<Rightarrow> int list \<Rightarrow> (int list \<times> pcm_buffer) option" where
  "pcm_allocate_16_to_32 buffer src = do {
     let bytes = length src * 2;
     assert_that (bytes * 2 = bytes div 2 * 4);
     buffer \<leftarrow> pcm_buffer_get buffer (bytes * 2);
     Some (pcm_convert_16_to_32 src, buffer)
   }"

definition pcm_allocate_24p32_to_32 :: "pcm_buffer \<Rightarrow> int list \<Rightarrow> (int list \<times> pcm_buffer) option" where
  "pcm_allocate_24p32_to_32 buffer src = do {
     buffer \<leftarrow> pcm_buffer_get buffer (length src * 4);
     Some (pcm_convert_24_to_32 src, buffer)
   }"

definition pcm_allocate_float_to_32 :: "'f float_ops \<Rightarrow> pcm_buffer \<Rightarrow> 'f list \<Rightarrow> (int list \<times> pcm_buffer) option" where
  "pcm_allocate_float_to_32 F buffer src = do {
     (dest, buffer) \<leftarrow> pcm_allocate_float_to_24 F buffer src;
     Some (pcm_convert_24_to_32 dest, buffer)
   }"

fun pcm_convert_to_32 :: "'f float_ops \<Rightarrow> pcm_buffer \<Rightarrow> 'f pcm_data \<Rightarrow> (int list option \<times> pcm_buffer) option" where
  "pcm_convert_to_32 F buffer (PCM_UNDEFINED src) = None"
| "pcm_convert_to_32 F buffer (PCM_DSD src) = Some (None, buffer)"
| "pcm_convert_to_32 F buffer (PCM_S8 src) = converted (pcm_allocate_8_to_32 buffer src)"
| "pcm_convert_to_32 F buffer (PCM_S16 src) = converted (pcm_allocate_16_to_32 buffer src)"
| "pcm_convert_to_32 F buffer (PCM_S24_P32 src) = converted (pcm_allocate_24p32_to_32 buffer src)"
| "pcm_convert_to_32 F buffer (PCM_S32 src) = Some (Some src, buffer)"
| "pcm_convert_to_32 F buffer (PCM_FLOAT src) = converted (pcm_allocate_float_to_32 F buffer src)"

text \<open>The four conversions to \<^verbatim>\<open>float\<close> differ in the constant factor.\<close>

definition int_to_float :: "'f float_ops \<Rightarrow> 'f \<Rightarrow> int list \<Rightarrow> 'f list" where
  "int_to_float F factor = map (\<lambda>x. fl_mul F (fl_of_int F x) factor)"

definition pcm_convert_8_to_float :: "'f float_ops \<Rightarrow> int list \<Rightarrow> 'f list" where
  "pcm_convert_8_to_float F = int_to_float F (fl_div F (fl_of_int F 2) (fl_of_int F (2 ^ 8)))"

definition pcm_convert_16_to_float :: "'f float_ops \<Rightarrow> int list \<Rightarrow> 'f list" where
  "pcm_convert_16_to_float F = int_to_float F (fl_div F (fl_of_int F 2) (fl_of_int F (2 ^ 16)))"

definition pcm_convert_24_to_float :: "'f float_ops \<Rightarrow> int list \<Rightarrow> 'f list" where
  "pcm_convert_24_to_float F = int_to_float F (fl_div F (fl_of_int F 2) (fl_of_int F (2 ^ 24)))"

definition pcm_convert_32_to_float :: "'f float_ops \<Rightarrow> int list \<Rightarrow> 'f list" where
  "pcm_convert_32_to_float F =
     int_to_float F (fl_div F (fl_div F (fl_of_int F 1) (fl_of_int F 2)) (fl_of_int F (2 ^ 30)))"

definition pcm_allocate_8_to_float :: "'f float_ops \<Rightarrow> pcm_buffer \<Rightarrow> int list \<Rightarrow> ('f list \<times> pcm_buffer) option" where
  "pcm_allocate_8_to_float F buffer src = do {
     buffer \<leftarrow> pcm_buffer_get buffer (length src * 4);
     Some (pcm_convert_8_to_float F src, buffer)
   }"

definition pcm_allocate_16_to_float :: "'f float_ops \<Rightarrow> pcm_buffer \<Rightarrow> int list \<Rightarrow> ('f list \<times> pcm_buffer) option" where
  "pcm_allocate_16_to_float F buffer src = do {
     let bytes = length src * 2;
     assert_that (bytes * 2 = bytes div 2 * 4);
     buffer \<leftarrow> pcm_buffer_get buffer (bytes * 2);
     Some (pcm_convert_16_to_float F src, buffer)
   }"

definition pcm_allocate_24p32_to_float :: "'f float_ops \<Rightarrow> pcm_buffer \<Rightarrow> int list \<Rightarrow> ('f list \<times> pcm_buffer) option" where
  "pcm_allocate_24p32_to_float F buffer src = do {
     buffer \<leftarrow> pcm_buffer_get buffer (length src * 4);
     Some (pcm_convert_24_to_float F src, buffer)
   }"

definition pcm_allocate_32_to_float :: "'f float_ops \<Rightarrow> pcm_buffer \<Rightarrow> int list \<Rightarrow> ('f list \<times> pcm_buffer) option" where
  "pcm_allocate_32_to_float F buffer src = do {
     buffer \<leftarrow> pcm_buffer_get buffer (length src * 4);
     Some (pcm_convert_32_to_float F src, buffer)
   }"

fun pcm_convert_to_float :: "'f float_ops \<Rightarrow> pcm_buffer \<Rightarrow> 'f pcm_data \<Rightarrow> ('f list option \<times> pcm_buffer) option" where
  "pcm_convert_to_float F buffer (PCM_UNDEFINED src) = Some (None, buffer)"
| "pcm_convert_to_float F buffer (PCM_DSD src) = Some (None, buffer)"
| "pcm_convert_to_float F buffer (PCM_S8 src) = converted (pcm_allocate_8_to_float F buffer src)"
| "pcm_convert_to_float F buffer (PCM_S16 src) = converted (pcm_allocate_16_to_float F buffer src)"
| "pcm_convert_to_float F buffer (PCM_S24_P32 src) = converted (pcm_allocate_24p32_to_float F buffer src)"
| "pcm_convert_to_float F buffer (PCM_S32 src) = converted (pcm_allocate_32_to_float F buffer src)"
| "pcm_convert_to_float F buffer (PCM_FLOAT src) = Some (Some src, buffer)"

section \<open>Channels\<close>

definition pcm_convert_channels_16_1_to_2 :: "int list \<Rightarrow> int list" where
  "pcm_convert_channels_16_1_to_2 src = concat (map (\<lambda>value. [value, value]) src)"

fun pcm_convert_channels_16_2_to_1 :: "int list \<Rightarrow> int list option" where
  "pcm_convert_channels_16_2_to_1 [] = Some []"
| "pcm_convert_channels_16_2_to_1 [a] = None"
| "pcm_convert_channels_16_2_to_1 (a # b # src) = do {
     acc \<leftarrow> arith 32 (a + b);
     dest \<leftarrow> pcm_convert_channels_16_2_to_1 src;
     Some (wrap 16 (acc sdiv 2) # dest)
   }"

text \<open>The inner loop over the channels of a frame, with a sum of the width \<open>w\<close>.\<close>

fun channel_sum :: "nat \<Rightarrow> nat \<Rightarrow> int \<Rightarrow> int list \<Rightarrow> int option" where
  "channel_sum w 0 acc src = Some acc"
| "channel_sum w (Suc c) acc (x # src) = do {
     acc \<leftarrow> arith w (acc + x);
     channel_sum w c acc src
   }"
| "channel_sum w (Suc c) acc [] = None"

function pcm_convert_channels_16_n_to_2 :: "nat \<Rightarrow> int list \<Rightarrow> int list option" where
  "pcm_convert_channels_16_n_to_2 src_channels src =
     (if src_channels = 0 then None
      else if src = [] then Some []
      else do {
        acc \<leftarrow> channel_sum 32 src_channels 0 src;
        let value = wrap 16 (acc sdiv int src_channels);
        dest \<leftarrow> pcm_convert_channels_16_n_to_2 src_channels (drop src_channels src);
        Some (value # value # dest)
      })"
  by pat_completeness auto
termination by (relation "measure (\<lambda>(n, src). length src)") auto

definition pcm_convert_channels_16 ::
    "pcm_buffer \<Rightarrow> nat \<Rightarrow> nat \<Rightarrow> int list \<Rightarrow> (int list option \<times> pcm_buffer) option" where
  "pcm_convert_channels_16 buffer dest_channels src_channels src = do {
     assert_that (src_channels \<noteq> 0 \<and> (length src * 2) mod (2 * src_channels) = 0);
     buffer \<leftarrow> pcm_buffer_get buffer (length src * 2 div src_channels * dest_channels);
     if src_channels = 1 \<and> dest_channels = 2 then Some (Some (pcm_convert_channels_16_1_to_2 src), buffer)
     else if src_channels = 2 \<and> dest_channels = 1
     then map_option (\<lambda>dest. (Some dest, buffer)) (pcm_convert_channels_16_2_to_1 src)
     else if dest_channels = 2
     then map_option (\<lambda>dest. (Some dest, buffer)) (pcm_convert_channels_16_n_to_2 src_channels src)
     else Some (None, buffer)
   }"

definition pcm_convert_channels_24_1_to_2 :: "int list \<Rightarrow> int list" where
  "pcm_convert_channels_24_1_to_2 src = concat (map (\<lambda>value. [value, value]) src)"

fun pcm_convert_channels_24_2_to_1 :: "int list \<Rightarrow> int list option" where
  "pcm_convert_channels_24_2_to_1 [] = Some []"
| "pcm_convert_channels_24_2_to_1 [a] = None"
| "pcm_convert_channels_24_2_to_1 (a # b # src) = do {
     acc \<leftarrow> arith 32 (a + b);
     dest \<leftarrow> pcm_convert_channels_24_2_to_1 src;
     Some (acc sdiv 2 # dest)
   }"

function pcm_convert_channels_24_n_to_2 :: "nat \<Rightarrow> int list \<Rightarrow> int list option" where
  "pcm_convert_channels_24_n_to_2 src_channels src =
     (if src_channels = 0 then None
      else if src = [] then Some []
      else do {
        acc \<leftarrow> channel_sum 32 src_channels 0 src;
        let value = acc sdiv int src_channels;
        dest \<leftarrow> pcm_convert_channels_24_n_to_2 src_channels (drop src_channels src);
        Some (value # value # dest)
      })"
  by pat_completeness auto
termination by (relation "measure (\<lambda>(n, src). length src)") auto

definition pcm_convert_channels_24 ::
    "pcm_buffer \<Rightarrow> nat \<Rightarrow> nat \<Rightarrow> int list \<Rightarrow> (int list option \<times> pcm_buffer) option" where
  "pcm_convert_channels_24 buffer dest_channels src_channels src = do {
     assert_that (src_channels \<noteq> 0 \<and> (length src * 4) mod (4 * src_channels) = 0);
     buffer \<leftarrow> pcm_buffer_get buffer (length src * 4 div src_channels * dest_channels);
     if src_channels = 1 \<and> dest_channels = 2 then Some (Some (pcm_convert_channels_24_1_to_2 src), buffer)
     else if src_channels = 2 \<and> dest_channels = 1
     then map_option (\<lambda>dest. (Some dest, buffer)) (pcm_convert_channels_24_2_to_1 src)
     else if dest_channels = 2
     then map_option (\<lambda>dest. (Some dest, buffer)) (pcm_convert_channels_24_n_to_2 src_channels src)
     else Some (None, buffer)
   }"

fun pcm_convert_channels_32_2_to_1 :: "int list \<Rightarrow> int list option" where
  "pcm_convert_channels_32_2_to_1 [] = Some []"
| "pcm_convert_channels_32_2_to_1 [a] = None"
| "pcm_convert_channels_32_2_to_1 (a # b # src) = do {
     acc \<leftarrow> arith 64 (a + b);
     dest \<leftarrow> pcm_convert_channels_32_2_to_1 src;
     Some (wrap 32 (acc sdiv 2) # dest)
   }"

function pcm_convert_channels_32_n_to_2 :: "nat \<Rightarrow> int list \<Rightarrow> int list option" where
  "pcm_convert_channels_32_n_to_2 src_channels src =
     (if src_channels = 0 then None
      else if src = [] then Some []
      else do {
        acc \<leftarrow> channel_sum 64 src_channels 0 src;
        let value = wrap 32 (acc sdiv int src_channels);
        dest \<leftarrow> pcm_convert_channels_32_n_to_2 src_channels (drop src_channels src);
        Some (value # value # dest)
      })"
  by pat_completeness auto
termination by (relation "measure (\<lambda>(n, src). length src)") auto

definition pcm_convert_channels_32 ::
    "pcm_buffer \<Rightarrow> nat \<Rightarrow> nat \<Rightarrow> int list \<Rightarrow> (int list option \<times> pcm_buffer) option" where
  "pcm_convert_channels_32 buffer dest_channels src_channels src = do {
     assert_that (src_channels \<noteq> 0 \<and> (length src * 4) mod (4 * src_channels) = 0);
     buffer \<leftarrow> pcm_buffer_get buffer (length src * 4 div src_channels * dest_channels);
     if src_channels = 1 \<and> dest_channels = 2 then Some (Some (pcm_convert_channels_24_1_to_2 src), buffer)
     else if src_channels = 2 \<and> dest_channels = 1
     then map_option (\<lambda>dest. (Some dest, buffer)) (pcm_convert_channels_32_2_to_1 src)
     else if dest_channels = 2
     then map_option (\<lambda>dest. (Some dest, buffer)) (pcm_convert_channels_32_n_to_2 src_channels src)
     else Some (None, buffer)
   }"

declare pcm_convert_channels_16_n_to_2.simps [simp del]
declare pcm_convert_channels_24_n_to_2.simps [simp del]
declare pcm_convert_channels_32_n_to_2.simps [simp del]

section \<open>Sample rates\<close>

text \<open>
  \<^verbatim>\<open>pcm_resample_fallback_16\<close> and \<^verbatim>\<open>pcm_resample_fallback_32\<close> only copy samples and differ in their type.
  The counts and positions are \<^verbatim>\<open>unsigned\<close>.  With more than two channels nothing is written, and the result is what
  the buffer held before, \<open>stale\<close>.
\<close>

definition pcm_resample_fallback ::
    "(nat \<Rightarrow> 'a) \<Rightarrow> nat \<Rightarrow> pcm_buffer \<Rightarrow> u32 \<Rightarrow> u32 \<Rightarrow> 'a list \<Rightarrow> u32 \<Rightarrow> ('a list \<times> pcm_buffer) option" where
  "pcm_resample_fallback stale sample_size buffer channels src_rate src dest_rate = do {
     assert_that (channels \<noteq> 0 \<and> src_rate \<noteq> 0 \<and> dest_rate \<noteq> 0);
     let src_frames = (of_nat (length src div unat channels) :: u32);
     let dest_frames = (src_frames * dest_rate + src_rate - 1) div src_rate;
     let dest_samples = unat (dest_frames * channels);
     buffer \<leftarrow> pcm_buffer_get buffer (dest_samples * sample_size);
     assert_that (length src mod unat channels = 0);
     let src_pos = (\<lambda>dest_pos. of_nat dest_pos * src_rate div dest_rate);
     dest \<leftarrow> (if channels = 1 then those (map (\<lambda>dest_pos. aget src (unat (src_pos dest_pos))) [0..<dest_samples])
       else if channels = 2 then map_option concat (those (map (\<lambda>i. do {
           let pos = unat (src_pos (2 * i) AND NOT 1);
           a \<leftarrow> aget src pos;
           b \<leftarrow> aget src (pos + 1);
           Some [a, b]
         }) [0..<dest_samples div 2]))
       else Some (map stale [0..<dest_samples]));
     Some (dest, buffer)
   }"

definition pcm_resample_fallback_16 ::
    "(nat \<Rightarrow> int) \<Rightarrow> pcm_buffer \<Rightarrow> u32 \<Rightarrow> u32 \<Rightarrow> int list \<Rightarrow> u32 \<Rightarrow> (int list \<times> pcm_buffer) option" where
  "pcm_resample_fallback_16 stale = pcm_resample_fallback stale 2"

definition pcm_resample_fallback_32 ::
    "(nat \<Rightarrow> 'a) \<Rightarrow> pcm_buffer \<Rightarrow> u32 \<Rightarrow> u32 \<Rightarrow> 'a list \<Rightarrow> u32 \<Rightarrow> ('a list \<times> pcm_buffer) option" where
  "pcm_resample_fallback_32 stale = pcm_resample_fallback stale 4"

definition pcm_resample_16 ::
    "(nat \<Rightarrow> int) \<Rightarrow> pcm_buffer \<Rightarrow> u32 \<Rightarrow> u32 \<Rightarrow> int list \<Rightarrow> u32 \<Rightarrow> (int list \<times> pcm_buffer) option" where
  "pcm_resample_16 stale = pcm_resample_fallback_16 stale"

definition pcm_resample_32 ::
    "(nat \<Rightarrow> int) \<Rightarrow> pcm_buffer \<Rightarrow> u32 \<Rightarrow> u32 \<Rightarrow> int list \<Rightarrow> u32 \<Rightarrow> (int list \<times> pcm_buffer) option" where
  "pcm_resample_32 stale = pcm_resample_fallback_32 stale"

definition pcm_resample_float ::
    "(nat \<Rightarrow> 'f) \<Rightarrow> pcm_buffer \<Rightarrow> u32 \<Rightarrow> u32 \<Rightarrow> 'f list \<Rightarrow> u32 \<Rightarrow> ('f list \<times> pcm_buffer) option" where
  "pcm_resample_float stale = pcm_resample_fallback_32 stale"

section \<open>The converter\<close>

text \<open>
  The state of a converter; \<open>'d\<close> is the state of the DSD filters, whose translation to \<^verbatim>\<open>float\<close> is an
  argument \<open>dsd\<close>.  \<^verbatim>\<open>pcm_resample_24\<close> is \<^verbatim>\<open>pcm_resample_32\<close>.
\<close>

record 'd pcm_convert_state =
  cs_dsd :: 'd
  cs_resample :: pcm_buffer
  cs_dither :: pcm_dither
  cs_format_buffer :: pcm_buffer
  cs_channels_buffer :: pcm_buffer

definition pcm_convert_init :: "'d \<Rightarrow> 'd pcm_convert_state" where
  "pcm_convert_init dsd = \<lparr>cs_dsd = dsd, cs_resample = pcm_buffer_init, cs_dither = pcm_dither_24_init,
     cs_format_buffer = pcm_buffer_init, cs_channels_buffer = pcm_buffer_init\<rparr>"

text \<open>The converted data, \<^verbatim>\<open>ERR_PTR(-MPD_NIMPL)\<close> or \<^verbatim>\<open>NULL\<close>.\<close>

datatype 'a conversion = CONVERTED 'a | CONVERT_NIMPL | CONVERT_NULL

type_synonym ('a, 'd) converting = "('a conversion \<times> 'd pcm_convert_state) option"

definition pcm_convert_channels ::
    "pcm_buffer \<Rightarrow> nat \<Rightarrow> nat \<Rightarrow> 'f pcm_data \<Rightarrow> ('f pcm_data conversion \<times> pcm_buffer) option" where
  "pcm_convert_channels buffer dest_channels src_channels src = do {
     let result = (\<lambda>C (dest, buffer). (case dest of None \<Rightarrow> CONVERT_NIMPL | Some xs \<Rightarrow> CONVERTED (C xs), buffer));
     case src of
       PCM_S16 xs \<Rightarrow> map_option (result PCM_S16) (pcm_convert_channels_16 buffer dest_channels src_channels xs)
     | PCM_S24_P32 xs \<Rightarrow> map_option (result PCM_S24_P32) (pcm_convert_channels_24 buffer dest_channels src_channels xs)
     | PCM_S32 xs \<Rightarrow> map_option (result PCM_S32) (pcm_convert_channels_32 buffer dest_channels src_channels xs)
     | _ \<Rightarrow> Some (CONVERT_NIMPL, buffer)
   }"

text \<open>The second half of \<^verbatim>\<open>pcm_convert_16\<close>, \<^verbatim>\<open>pcm_convert_24\<close> and \<^verbatim>\<open>pcm_convert_32\<close>: channels, then the rate.\<close>

definition convert_rest ::
    "(pcm_buffer \<Rightarrow> u32 \<Rightarrow> u32 \<Rightarrow> int list \<Rightarrow> u32 \<Rightarrow> (int list \<times> pcm_buffer) option) \<Rightarrow>
     (pcm_buffer \<Rightarrow> nat \<Rightarrow> nat \<Rightarrow> int list \<Rightarrow> (int list option \<times> pcm_buffer) option) \<Rightarrow>
     'd pcm_convert_state \<Rightarrow> audio_format \<Rightarrow> audio_format \<Rightarrow> int list \<Rightarrow> (int list, 'd) converting" where
  "convert_rest resample channels state src_format dest_format buf = do {
     (buf, state) \<leftarrow> (if af_channels src_format \<noteq> af_channels dest_format then do {
         (buf, b) \<leftarrow> channels (cs_channels_buffer state) (unat (af_channels dest_format)) (unat (af_channels src_format)) buf;
         Some (buf, state\<lparr>cs_channels_buffer := b\<rparr>)
       } else Some (Some buf, state));
     case buf of
       None \<Rightarrow> Some (CONVERT_NIMPL, state)
     | Some buf \<Rightarrow>
         if af_sample_rate src_format \<noteq> af_sample_rate dest_format then do {
           (buf, b) \<leftarrow> resample (cs_resample state) (ucast (af_channels dest_format))
             (af_sample_rate src_format) buf (af_sample_rate dest_format);
           Some (CONVERTED buf, state\<lparr>cs_resample := b\<rparr>)
         }
         else Some (CONVERTED buf, state)
   }"

definition pcm_convert_16 ::
    "(nat \<Rightarrow> int) \<Rightarrow> 'f float_ops \<Rightarrow> 'd pcm_convert_state \<Rightarrow> audio_format \<Rightarrow> 'f pcm_data \<Rightarrow> audio_format \<Rightarrow> (int list, 'd) converting" where
  "pcm_convert_16 stale F state src_format src dest_format = do {
     assert_that (af_format dest_format = SAMPLE_FORMAT_S16);
     (buf, b, dither) \<leftarrow> pcm_convert_to_16 F (cs_format_buffer state) (cs_dither state) src;
     let state = state\<lparr>cs_format_buffer := b, cs_dither := dither\<rparr>;
     case buf of
       None \<Rightarrow> Some (CONVERT_NIMPL, state)
     | Some buf \<Rightarrow> convert_rest (pcm_resample_16 stale) pcm_convert_channels_16 state src_format dest_format buf
   }"

definition pcm_convert_24 ::
    "(nat \<Rightarrow> int) \<Rightarrow> 'f float_ops \<Rightarrow> 'd pcm_convert_state \<Rightarrow> audio_format \<Rightarrow> 'f pcm_data \<Rightarrow> audio_format \<Rightarrow> (int list, 'd) converting" where
  "pcm_convert_24 stale F state src_format src dest_format = do {
     assert_that (af_format dest_format = SAMPLE_FORMAT_S24_P32);
     (buf, b) \<leftarrow> pcm_convert_to_24 F (cs_format_buffer state) src;
     let state = state\<lparr>cs_format_buffer := b\<rparr>;
     case buf of
       None \<Rightarrow> Some (CONVERT_NIMPL, state)
     | Some buf \<Rightarrow> convert_rest (pcm_resample_32 stale) pcm_convert_channels_24 state src_format dest_format buf
   }"

definition pcm_convert_32 ::
    "(nat \<Rightarrow> int) \<Rightarrow> 'f float_ops \<Rightarrow> 'd pcm_convert_state \<Rightarrow> audio_format \<Rightarrow> 'f pcm_data \<Rightarrow> audio_format \<Rightarrow> (int list, 'd) converting" where
  "pcm_convert_32 stale F state src_format src dest_format = do {
     assert_that (af_format dest_format = SAMPLE_FORMAT_S32);
     (buf, b) \<leftarrow> pcm_convert_to_32 F (cs_format_buffer state) src;
     let state = state\<lparr>cs_format_buffer := b\<rparr>;
     case buf of
       None \<Rightarrow> Some (CONVERT_NIMPL, state)
     | Some buf \<Rightarrow> convert_rest (pcm_resample_32 stale) pcm_convert_channels_32 state src_format dest_format buf
   }"

definition pcm_convert_float ::
    "(nat \<Rightarrow> 'f) \<Rightarrow> 'f float_ops \<Rightarrow> 'd pcm_convert_state \<Rightarrow> audio_format \<Rightarrow> 'f pcm_data \<Rightarrow> audio_format \<Rightarrow> ('f list, 'd) converting" where
  "pcm_convert_float stale F state src_format src dest_format = do {
     assert_that (af_format dest_format = SAMPLE_FORMAT_FLOAT);
     (buffer, state) \<leftarrow> (if af_channels dest_format \<noteq> af_channels src_format then do {
         (buffer, b) \<leftarrow> pcm_convert_channels (cs_channels_buffer state) (unat (af_channels dest_format)) (unat (af_channels src_format)) src;
         Some (buffer, state\<lparr>cs_channels_buffer := b\<rparr>)
       } else Some (CONVERTED src, state));
     case buffer of
       CONVERT_NIMPL \<Rightarrow> Some (CONVERT_NIMPL, state)
     | CONVERT_NULL \<Rightarrow> Some (CONVERT_NULL, state)
     | CONVERTED src \<Rightarrow> do {
         (buffer, b) \<leftarrow> pcm_convert_to_float F (cs_format_buffer state) src;
         let state = state\<lparr>cs_format_buffer := b\<rparr>;
         case buffer of
           None \<Rightarrow> Some (CONVERT_NIMPL, state)
         | Some buffer \<Rightarrow>
             if af_sample_rate src_format \<noteq> af_sample_rate dest_format then do {
               (buffer, b) \<leftarrow> pcm_resample_float stale (cs_resample state) (ucast (af_channels dest_format))
                 (af_sample_rate src_format) buffer (af_sample_rate dest_format);
               Some (CONVERTED buffer, state\<lparr>cs_resample := b\<rparr>)
             }
             else Some (CONVERTED buffer, state)
       }
   }"

definition map_conversion :: "('a \<Rightarrow> 'b) \<Rightarrow> ('a, 'd) converting \<Rightarrow> ('b, 'd) converting" where
  "map_conversion C = map_option (\<lambda>(r, state). (case r of CONVERTED x \<Rightarrow> CONVERTED (C x)
     | CONVERT_NIMPL \<Rightarrow> CONVERT_NIMPL | CONVERT_NULL \<Rightarrow> CONVERT_NULL, state))"

definition convert_pcm ::
    "(nat \<Rightarrow> int) \<Rightarrow> (nat \<Rightarrow> 'f) \<Rightarrow> 'f float_ops \<Rightarrow> 'd pcm_convert_state \<Rightarrow> audio_format \<Rightarrow> 'f pcm_data \<Rightarrow> audio_format \<Rightarrow>
     ('f pcm_data, 'd) converting" where
  "convert_pcm stale fstale F state src_format src dest_format =
     (case af_format dest_format of
        SAMPLE_FORMAT_S16 \<Rightarrow> map_conversion PCM_S16 (pcm_convert_16 stale F state src_format src dest_format)
      | SAMPLE_FORMAT_S24_P32 \<Rightarrow> map_conversion PCM_S24_P32 (pcm_convert_24 stale F state src_format src dest_format)
      | SAMPLE_FORMAT_S32 \<Rightarrow> map_conversion PCM_S32 (pcm_convert_32 stale F state src_format src dest_format)
      | SAMPLE_FORMAT_FLOAT \<Rightarrow> map_conversion PCM_FLOAT (pcm_convert_float fstale F state src_format src dest_format)
      | _ \<Rightarrow> Some (CONVERT_NIMPL, state))"

definition pcm_convert ::
    "(nat \<Rightarrow> int) \<Rightarrow> (nat \<Rightarrow> 'f) \<Rightarrow> 'f float_ops \<Rightarrow> ('d \<Rightarrow> u8 \<Rightarrow> u8 list \<Rightarrow> ('f list option \<times> 'd) option) \<Rightarrow>
     'd pcm_convert_state \<Rightarrow> audio_format \<Rightarrow> 'f pcm_data \<Rightarrow> audio_format \<Rightarrow> ('f pcm_data, 'd) converting" where
  "pcm_convert stale fstale F dsd state src_format src dest_format =
     (case src of
        PCM_DSD bytes \<Rightarrow> do {
          (f, d) \<leftarrow> dsd (cs_dsd state) (af_channels src_format) bytes;
          let state = state\<lparr>cs_dsd := d\<rparr>;
          case f of
            None \<Rightarrow> Some (CONVERT_NULL, state)
          | Some f \<Rightarrow> convert_pcm stale fstale F state (src_format\<lparr>af_format := SAMPLE_FORMAT_FLOAT\<rparr>) (PCM_FLOAT f) dest_format
        }
      | _ \<Rightarrow> convert_pcm stale fstale F state src_format src dest_format)"

end
