(* ===== verification/Pcm_Export.thy ===== *)
theory Pcm_Export
  imports Pcm_Convert Encoder
begin

text \<open>
  Samples as bytes: \<^verbatim>\<open>src/util/byte_reverse.c\<close>, \<^verbatim>\<open>src/util/bit_reverse.[ch]\<close>, \<^verbatim>\<open>src/pcm/pcm_pack.c\<close>,
  \<^verbatim>\<open>pcm_dsd_usb.c\<close> and \<^verbatim>\<open>pcm_export.[ch]\<close>, on a little-endian machine.  A pointer that is cast to a pointer to
  wider integers is read and written through \<open>words16\<close>, \<open>words32\<close>, \<open>words64\<close> and \<open>le16\<close>, \<open>le32\<close>, \<open>le64\<close>.
\<close>

unbundle bit_operations_syntax

section \<open>Bytes and words\<close>

definition le64 :: "64 word \<Rightarrow> u8 list" where
  "le64 w = map (\<lambda>i. ucast (drop_bit (8 * i) w)) [0..<8]"

fun words16 :: "u8 list \<Rightarrow> u16 list" where
  "words16 (a # b # bs) = (ucast a OR push_bit 8 (ucast b)) # words16 bs"
| "words16 _ = []"

fun words32 :: "u8 list \<Rightarrow> u32 list" where
  "words32 (a # b # c # d # bs) =
     (ucast a OR push_bit 8 (ucast b) OR push_bit 16 (ucast c) OR push_bit 24 (ucast d)) # words32 bs"
| "words32 _ = []"

fun words64 :: "u8 list \<Rightarrow> 64 word list" where
  "words64 (a # b # c # d # e # f # g # h # bs) =
     (ucast a OR push_bit 8 (ucast b) OR push_bit 16 (ucast c) OR push_bit 24 (ucast d) OR
      push_bit 32 (ucast e) OR push_bit 40 (ucast f) OR push_bit 48 (ucast g) OR push_bit 56 (ucast h)) # words64 bs"
| "words64 _ = []"

section \<open>Byte order\<close>

definition GUINT16_SWAP_LE_BE :: "u16 \<Rightarrow> u16" where
  "GUINT16_SWAP_LE_BE x = drop_bit 8 x OR push_bit 8 x"

definition GUINT32_SWAP_LE_BE :: "u32 \<Rightarrow> u32" where
  "GUINT32_SWAP_LE_BE x =
     push_bit 24 (x AND 0x000000ff) OR push_bit 8 (x AND 0x0000ff00) OR drop_bit 8 (x AND 0x00ff0000) OR
     drop_bit 24 (x AND 0xff000000)"

definition GUINT64_SWAP_LE_BE :: "64 word \<Rightarrow> 64 word" where
  "GUINT64_SWAP_LE_BE x =
     push_bit 56 (x AND 0x00000000000000ff) OR push_bit 40 (x AND 0x000000000000ff00) OR
     push_bit 24 (x AND 0x0000000000ff0000) OR push_bit 8 (x AND 0x00000000ff000000) OR
     drop_bit 8 (x AND 0x000000ff00000000) OR drop_bit 24 (x AND 0x0000ff0000000000) OR
     drop_bit 40 (x AND 0x00ff000000000000) OR drop_bit 56 (x AND 0xff00000000000000)"

definition reverse_bytes_16 :: "u16 list \<Rightarrow> u16 list" where
  "reverse_bytes_16 = map GUINT16_SWAP_LE_BE"

definition reverse_bytes_32 :: "u32 list \<Rightarrow> u32 list" where
  "reverse_bytes_32 = map GUINT32_SWAP_LE_BE"

definition reverse_bytes_64 :: "64 word list \<Rightarrow> 64 word list" where
  "reverse_bytes_64 = map GUINT64_SWAP_LE_BE"

text \<open>\<open>src\<close> is read from \<open>src[n - 1]\<close> down to \<open>src[0]\<close>.\<close>

fun reverse_bytes_linear :: "u8 list \<Rightarrow> nat \<Rightarrow> u8 list option" where
  "reverse_bytes_linear src 0 = Some []"
| "reverse_bytes_linear src (Suc n) = do {
     b \<leftarrow> aget src n;
     dest \<leftarrow> reverse_bytes_linear src n;
     Some (b # dest)
   }"

function reverse_bytes_generic :: "nat \<Rightarrow> u8 list \<Rightarrow> u8 list option" where
  "reverse_bytes_generic frame_size src =
     (if frame_size = 0 then None
      else if src = [] then Some []
      else do {
        frame \<leftarrow> reverse_bytes_linear src frame_size;
        dest \<leftarrow> reverse_bytes_generic frame_size (drop frame_size src);
        Some (frame @ dest)
      })"
  by pat_completeness auto
termination by (relation "measure (\<lambda>(n, src). length src)") auto

declare reverse_bytes_generic.simps [simp del]

definition reverse_bytes :: "u8 list \<Rightarrow> nat \<Rightarrow> u8 list option" where
  "reverse_bytes src frame_size = do {
     assert_that (0 < frame_size \<and> length src mod frame_size = 0);
     if frame_size = 2 then Some (concat (map le16 (reverse_bytes_16 (words16 src))))
     else if frame_size = 4 then Some (concat (map le32 (reverse_bytes_32 (words32 src))))
     else if frame_size = 8 then Some (concat (map le64 (reverse_bytes_64 (words64 src))))
     else reverse_bytes_generic frame_size src
   }"

section \<open>Bit order\<close>

definition R2 :: "u8 \<Rightarrow> u8 list" where
  "R2 n = [n, n + 2 * 64, n + 1 * 64, n + 3 * 64]"

definition R4 :: "u8 \<Rightarrow> u8 list" where
  "R4 n = R2 n @ R2 (n + 2 * 16) @ R2 (n + 1 * 16) @ R2 (n + 3 * 16)"

definition R6 :: "u8 \<Rightarrow> u8 list" where
  "R6 n = R4 n @ R4 (n + 2 * 4) @ R4 (n + 1 * 4) @ R4 (n + 3 * 4)"

definition bit_reverse_table :: "u8 list" where
  "bit_reverse_table = R6 0 @ R6 2 @ R6 1 @ R6 3"

definition bit_reverse :: "u8 \<Rightarrow> u8" where
  "bit_reverse x = bit_reverse_table ! unat x"

section \<open>Packed samples\<close>

text \<open>The lower three of the four bytes of a sample.\<close>

definition pack_sample :: "int \<Rightarrow> u8 list" where
  "pack_sample x = take 3 (le32 (word_of_int x))"

definition pcm_pack_24 :: "int list \<Rightarrow> u8 list" where
  "pcm_pack_24 src = concat (map pack_sample src)"

definition unpack_sample :: "u8 \<Rightarrow> u8 \<Rightarrow> u8 \<Rightarrow> int" where
  "unpack_sample a b c =
     sint (ucast a OR push_bit 8 (ucast b) OR push_bit 16 (ucast c) OR
       push_bit 24 (if c AND 0x80 \<noteq> 0 then 0xff else 0x00) :: u32)"

fun pcm_unpack_24 :: "u8 list \<Rightarrow> int list option" where
  "pcm_unpack_24 [] = Some []"
| "pcm_unpack_24 (a # b # c # src) = map_option ((#) (unpack_sample a b c)) (pcm_unpack_24 src)"
| "pcm_unpack_24 _ = None"

section \<open>DSD over USB\<close>

definition pcm_two_dsd_to_usb_marker1 :: "u8 \<Rightarrow> u8 \<Rightarrow> u32" where
  "pcm_two_dsd_to_usb_marker1 a b = 0xff050000 OR push_bit 8 (ucast a) OR ucast b"

definition pcm_two_dsd_to_usb_marker2 :: "u8 \<Rightarrow> u8 \<Rightarrow> u32" where
  "pcm_two_dsd_to_usb_marker2 a b = 0xfffa0000 OR push_bit 8 (ucast a) OR ucast b"

definition usb_frame :: "(u8 \<Rightarrow> u8 \<Rightarrow> u32) \<Rightarrow> nat \<Rightarrow> u8 list \<Rightarrow> u32 list option" where
  "usb_frame marker channels src = those (map (\<lambda>c. do {
     a \<leftarrow> aget src c;
     b \<leftarrow> aget src (c + channels);
     Some (marker a b)
   }) [0..<channels])"

fun usb_loop :: "nat \<Rightarrow> nat \<Rightarrow> u8 list \<Rightarrow> u32 list option" where
  "usb_loop 0 channels src = Some []"
| "usb_loop (Suc i) channels src = do {
     frame1 \<leftarrow> usb_frame pcm_two_dsd_to_usb_marker1 channels src;
     let src = drop (2 * channels) src;
     frame2 \<leftarrow> usb_frame pcm_two_dsd_to_usb_marker2 channels src;
     let src = drop (2 * channels) src;
     dest \<leftarrow> usb_loop i channels src;
     Some (frame1 @ frame2 @ dest)
   }"

text \<open>The loop writes two frames at a time; \<open>stale\<close> is what the destination holds where nothing is written.\<close>

definition pcm_dsd_to_usb :: "(nat \<Rightarrow> u32) \<Rightarrow> pcm_buffer \<Rightarrow> nat \<Rightarrow> u8 list \<Rightarrow> (u32 list \<times> pcm_buffer) option" where
  "pcm_dsd_to_usb stale buffer channels src = do {
     assert_that (1 \<le> channels \<and> channels \<le> 8);
     assert_that (0 < length src \<and> length src mod channels = 0);
     let num_src_samples = length src mod 2 ^ 32;
     let num_src_frames = num_src_samples div channels;
     let num_frames = num_src_frames div 2;
     let num_samples = num_frames * channels;
     buffer \<leftarrow> pcm_buffer_get buffer (num_samples * 4 mod 2 ^ 32);
     dest \<leftarrow> usb_loop (num_frames div 2) channels src;
     Some (dest @ map stale [length dest..<num_samples], buffer)
   }"

section \<open>Export\<close>

record pcm_export_state =
  ex_dsd_buffer :: pcm_buffer
  ex_pack_buffer :: pcm_buffer
  ex_reverse_buffer :: pcm_buffer
  ex_channels :: u8
  ex_dsd_usb :: bool
  ex_shift8 :: bool
  ex_pack24 :: bool
  ex_reverse_endian :: nat

definition pcm_export_init :: "pcm_export_state \<Rightarrow> pcm_export_state" where
  "pcm_export_init state = state\<lparr>ex_reverse_buffer := pcm_buffer_init, ex_pack_buffer := pcm_buffer_init, ex_dsd_buffer := pcm_buffer_init\<rparr>"

definition pcm_export_open ::
    "pcm_export_state \<Rightarrow> sample_format \<Rightarrow> u32 \<Rightarrow> bool \<Rightarrow> bool \<Rightarrow> bool \<Rightarrow> bool \<Rightarrow> pcm_export_state option" where
  "pcm_export_open state sample_format channels dsd_usb shift8 pack reverse_endian = do {
     assert_that (audio_valid_sample_format sample_format);
     assert_that (\<not> dsd_usb \<or> audio_valid_channel_count channels);
     let usb = (dsd_usb \<and> sample_format = SAMPLE_FORMAT_DSD);
     let sample_format = (if usb then SAMPLE_FORMAT_S24_P32 else sample_format);
     let shift = (shift8 \<and> sample_format = SAMPLE_FORMAT_S24_P32);
     let pack24 = (pack \<and> sample_format = SAMPLE_FORMAT_S24_P32);
     assert_that (\<not> shift \<or> \<not> pack24);
     let sample_size = (if pack24 then 3 else sample_format_size sample_format);
     assert_that (\<not> reverse_endian \<or> sample_size \<le> 0xff);
     Some (state\<lparr>ex_channels := ucast channels, ex_dsd_usb := usb, ex_shift8 := shift, ex_pack24 := pack24,
       ex_reverse_endian := (if reverse_endian \<and> 1 < sample_size then sample_size else 0)\<rparr>)
   }"

definition pcm_export_frame_size :: "pcm_export_state \<Rightarrow> audio_format \<Rightarrow> nat" where
  "pcm_export_frame_size state audio_format =
     (if ex_pack24 state then unat (af_channels audio_format) * 3
      else if ex_dsd_usb state then unat (af_channels audio_format) * 4
      else audio_format_frame_size audio_format)"

definition pcm_export :: "(nat \<Rightarrow> u32) \<Rightarrow> pcm_export_state \<Rightarrow> u8 list \<Rightarrow> (u8 list \<times> pcm_export_state) option" where
  "pcm_export stale state data = do {
     (data, state) \<leftarrow> (if ex_dsd_usb state then do {
         (dest, b) \<leftarrow> pcm_dsd_to_usb stale (ex_dsd_buffer state) (unat (ex_channels state)) data;
         Some (concat (map le32 dest), state\<lparr>ex_dsd_buffer := b\<rparr>)
       } else Some (data, state));
     (data, state) \<leftarrow> (if ex_pack24 state then do {
         assert_that (length data mod 4 = 0);
         b \<leftarrow> pcm_buffer_get (ex_pack_buffer state) (length data div 4 * 3);
         Some (pcm_pack_24 (map sint (words32 data)), state\<lparr>ex_pack_buffer := b\<rparr>)
       }
       else if ex_shift8 state then do {
         assert_that (length data mod 4 = 0);
         b \<leftarrow> pcm_buffer_get (ex_pack_buffer state) (length data);
         Some (concat (map (\<lambda>x. le32 (push_bit 8 x)) (words32 data)), state\<lparr>ex_pack_buffer := b\<rparr>)
       }
       else Some (data, state));
     if 0 < ex_reverse_endian state then do {
       assert_that (2 \<le> ex_reverse_endian state);
       b \<leftarrow> pcm_buffer_get (ex_reverse_buffer state) (length data);
       dest \<leftarrow> reverse_bytes data (ex_reverse_endian state);
       Some (dest, state\<lparr>ex_reverse_buffer := b\<rparr>)
     }
     else Some (data, state)
   }"

definition pcm_export_source_size :: "pcm_export_state \<Rightarrow> nat \<Rightarrow> nat" where
  "pcm_export_source_size state n =
     (let n = (if ex_pack24 state then n div 3 * 4 else n) in if ex_dsd_usb state then n div 2 else n)"

end
