(* ===== verification/Pcm_Convert_Inv.thy ===== *)
theory Pcm_Convert_Inv
  imports Pcm_Convert
begin

text \<open>
  Conversions between integer formats: what they do to the values, and that the data they give has the
  format, the number of frames and the range it should have.
\<close>

unbundle bit_operations_syntax

section \<open>Buffers\<close>

lemma align_8k_props: "n \<le> align_8k n" "align_8k n mod 8192 = 0"
proof -
  have "int (n - 1) \<le> int (n - 1) OR 8191" by (rule or_greater_eq) simp
  then have "n - 1 \<le> (n - 1) OR 8191" by (metis of_nat_le_iff of_nat_numeral of_nat_or_eq)
  then show "n \<le> align_8k n" by (simp add: align_8k_def)
  have "take_bit 13 ((n - 1) OR mask 13) = mask 13" by (rule bit_eqI) (auto simp: bit_simps)
  then have "((n - 1) OR 8191) mod 8192 = 8191" by (simp add: take_bit_eq_mod mask_eq_exp_minus_1)
  then show "align_8k n mod 8192 = 0" by (simp add: align_8k_def mod_Suc)
qed

text \<open>The buffer always gets large enough.\<close>

definition grown :: "pcm_buffer \<Rightarrow> nat \<Rightarrow> pcm_buffer" where
  "grown buffer n = (if pb_size buffer < max 1 n then \<lparr>pb_size = align_8k (max 1 n)\<rparr> else buffer)"

lemma pcm_buffer_get_grown [simp]: "pcm_buffer_get buffer n = Some (grown buffer n)"
  using align_8k_props(1) [of n] align_8k_props(1) [of 1]
  by (cases buffer) (auto simp: pcm_buffer_get_def grown_def Let_def max_def)

lemma grown_size: "n \<le> pb_size (grown buffer n)"
  using align_8k_props(1) [of "max 1 n"] by (auto simp: grown_def)

section \<open>Sample formats\<close>

lemma shifts_fit:
  "fits 8 x \<Longrightarrow> fits 16 (256 * x)" "fits 8 x \<Longrightarrow> fits 24 (65536 * x)" "fits 8 x \<Longrightarrow> fits 32 (16777216 * x)"
  "fits 16 x \<Longrightarrow> fits 24 (256 * x)" "fits 16 x \<Longrightarrow> fits 32 (65536 * x)" "fits 24 x \<Longrightarrow> fits 32 (256 * x)"
  "fits 8 x \<Longrightarrow> fits 32 (65536 * x)" "fits 16 x \<Longrightarrow> fits 32 (256 * x)" "fits 32 x \<Longrightarrow> fits 24 (x div 256)"
  by (auto simp: fits_def)

lemma push_bit_values:
  "push_bit 8 x = 256 * (x :: int)" "push_bit 16 x = 65536 * (x :: int)" "push_bit 24 x = 16777216 * (x :: int)"
  by (simp_all add: push_bit_eq_mult)

text \<open>The value of a sample in a format with more bits, or with the low bits cut off.\<close>

definition rescaled :: "nat \<Rightarrow> nat \<Rightarrow> int \<Rightarrow> int" where
  "rescaled b c x = (if b \<le> c then 2 ^ (c - b) * x else x div 2 ^ (b - c))"

lemma rescaled_values:
  "rescaled 8 16 x = 256 * x" "rescaled 8 24 x = 65536 * x" "rescaled 8 32 x = 16777216 * x" "rescaled 16 24 x = 256 * x"
  "rescaled 16 32 x = 65536 * x" "rescaled 24 32 x = 256 * x" "rescaled 32 24 x = x div 256" "rescaled b b x = x"
  by (simp_all add: rescaled_def)

lemma rescaled_fits:
  assumes "fits b x" "b \<in> {8, 16, 24, 32}" "c \<in> {24, 32}"
  shows "fits c (rescaled b c x)"
  using assms by (auto simp: rescaled_values shifts_fit)

lemma int_samples_bits: "int_samples b = Some (bits, xs) \<Longrightarrow> bits \<in> {8, 16, 24, 32}"
  by (cases b) auto

lemma pcm_convert_values:
  "list_all (fits 8) xs \<Longrightarrow> pcm_convert_8_to_16 xs = map (rescaled 8 16) xs"
  "list_all (fits 8) xs \<Longrightarrow> pcm_convert_8_to_24 xs = map (rescaled 8 24) xs"
  "list_all (fits 8) xs \<Longrightarrow> pcm_convert_8_to_32 xs = map (rescaled 8 32) xs"
  "list_all (fits 16) xs \<Longrightarrow> pcm_convert_16_to_24 xs = map (rescaled 16 24) xs"
  "list_all (fits 16) xs \<Longrightarrow> pcm_convert_16_to_32 xs = map (rescaled 16 32) xs"
  "list_all (fits 24) xs \<Longrightarrow> pcm_convert_24_to_32 xs = map (rescaled 24 32) xs"
  "pcm_convert_32_to_24 xs = map (rescaled 32 24) xs"
  by (auto simp: pcm_convert_8_to_16_def pcm_convert_8_to_24_def pcm_convert_8_to_32_def pcm_convert_16_to_24_def
      pcm_convert_16_to_32_def pcm_convert_24_to_32_def pcm_convert_32_to_24_def list_all_iff push_bit_values drop_bit_eq_div
      shifts_fit rescaled_values)

lemmas allocate_defs = pcm_allocate_8_to_16_def pcm_allocate_24p32_to_16_def pcm_allocate_32_to_16_def
  pcm_allocate_8_to_24_def pcm_allocate_16_to_24_def pcm_allocate_32_to_24_def
  pcm_allocate_8_to_32_def pcm_allocate_16_to_32_def pcm_allocate_24p32_to_32_def converted_def Let_def

lemma map_rescaled_same [simp]: "map (rescaled b b) xs = xs"
  by (induction xs) (simp_all add: rescaled_values)

lemma pcm_convert_to_24_values:
  assumes "int_samples src = Some (bits, xs)" "list_all (fits bits) xs"
  shows "\<exists>b. pcm_convert_to_24 F buffer src = Some (Some (map (rescaled bits 24) xs), b)"
  using assms by (cases src) (auto simp: allocate_defs pcm_convert_values)

lemma pcm_convert_to_32_values:
  assumes "int_samples src = Some (bits, xs)" "list_all (fits bits) xs"
  shows "\<exists>b. pcm_convert_to_32 F buffer src = Some (Some (map (rescaled bits 32) xs), b)"
  using assms by (cases src) (auto simp: allocate_defs pcm_convert_values)

text \<open>To 16 bits: exact where the format has fewer bits, otherwise dithered.\<close>

definition to_16 :: "nat \<Rightarrow> int \<Rightarrow> int \<Rightarrow> bool" where
  "to_16 bits x y \<longleftrightarrow> fits 16 y \<and> (if bits \<le> 16 then y = rescaled bits 16 x else dithered bits x y)"

lemma dithered_to_16: "16 < bits \<Longrightarrow> list_all2 (dithered bits) xs ys \<Longrightarrow> list_all2 (to_16 bits) xs ys"
  by (erule list_all2_mono) (simp add: to_16_def dithered_def)

lemma pcm_convert_to_16_values:
  assumes "int_samples src = Some (bits, xs)" "list_all (fits bits) xs" "dither_ok d"
  shows "\<exists>ys b d'. pcm_convert_to_16 F buffer d src = Some (Some ys, b, d') \<and> list_all2 (to_16 bits) xs ys \<and> dither_ok d'"
proof (cases src)
  case (PCM_S8 zs)
  have "list_all2 (to_16 8) xs (map (rescaled 8 16) xs)" if "list_all (fits 8) xs"
    using that by (auto simp: list_all2_conv_all_nth to_16_def list_all_length rescaled_values shifts_fit)
  with PCM_S8 assms show ?thesis by (auto simp: allocate_defs pcm_convert_values)
next
  case (PCM_S16 zs)
  have "list_all2 (to_16 16) xs xs" if "list_all (fits 16) xs"
    using that by (auto simp: list_all2_conv_all_nth to_16_def list_all_length rescaled_values)
  with PCM_S16 assms show ?thesis by auto
next
  case (PCM_S24_P32 zs)
  with assms dither_24_to_16 [of xs d] dithered_to_16 [of 24 xs] show ?thesis by (auto simp: allocate_defs)
next
  case (PCM_S32 zs)
  with assms dither_32_to_16 [of xs d] dithered_to_16 [of 32 xs] show ?thesis by (auto simp: allocate_defs)
qed (use assms in auto)

section \<open>Channels\<close>

text \<open>Every frame is replaced by copies of its average.\<close>

definition average :: "nat \<Rightarrow> int list \<Rightarrow> nat \<Rightarrow> int" where
  "average n src i = sum_list (take n (drop (i * n) src)) sdiv int n"

definition remix :: "nat \<Rightarrow> nat \<Rightarrow> int list \<Rightarrow> int list" where
  "remix n m src = concat (map (\<lambda>i. replicate m (average n src i)) [0..<length src div n])"

lemma remix_Nil [simp]: "remix n m [] = []"
  by (simp add: remix_def)

lemma remix_step:
  assumes "0 < n" "n \<le> length src"
  shows "remix n m src = replicate m (sum_list (take n src) sdiv int n) @ remix n m (drop n src)"
proof -
  have "length src div n = Suc ((length src - n) div n)" using assms by (simp add: le_div_geq)
  moreover have "average n src (Suc i) = average n (drop n src) i" for i by (simp add: average_def add.commute)
  ultimately show ?thesis
    by (simp add: remix_def upt_conv_Cons average_def comp_def del: upt_Suc flip: map_Suc_upt)
qed

lemma length_remix: "length (remix n m src) = length src div n * m"
  by (simp add: remix_def length_concat comp_def sum_list_triv)

lemma sdiv_mean_fits:
  assumes "0 < n" "- (int n * 2 ^ (bits - 1)) \<le> s" "s \<le> int n * (2 ^ (bits - 1) - 1)"
  shows "fits bits (s sdiv int n)"
proof -
  let ?M = "2 ^ (bits - 1) :: int" and ?q = "s sdiv int n"
  have M: "1 \<le> ?M" by simp
  note sd = sdiv_bounds [of "int n" s]
  have n: "0 < int n" using assms(1) by simp
  have "- ?M \<le> ?q \<and> ?q \<le> ?M - 1"
  proof (cases "0 \<le> s")
    case True
    then have "int n * ?q \<le> int n * (?M - 1)" "int n * (- 1) < int n * ?q" using sd(1) [OF n] assms(3) by linarith+
    then have "?q \<le> ?M - 1" "- 1 < ?q" using n by (simp_all only: mult_le_cancel_left_pos mult_less_cancel_left_pos)
    then show ?thesis using M by linarith
  next
    case False
    then have "int n * (- ?M) \<le> int n * ?q" "int n * ?q < int n * 1" using sd(2) [OF n] assms(2) unfolding mult_minus_right mult_1_right by linarith+
    then have "- ?M \<le> ?q" "?q < 1" using n by (simp_all only: mult_le_cancel_left_pos mult_less_cancel_left_pos)
    then show ?thesis using M by linarith
  qed
  then show ?thesis by (simp add: fits_def)
qed

lemma frame_bounds:
  "list_all (fits bits) xs \<Longrightarrow>
   - (int (length xs) * 2 ^ (bits - 1)) \<le> sum_list xs \<and> sum_list xs \<le> int (length xs) * (2 ^ (bits - 1) - 1)"
  by (induction xs) (auto simp: fits_def algebra_simps)

lemma list_all_take_drop: "list_all P xs \<Longrightarrow> list_all P (take n xs) \<and> list_all P (drop n xs)"
  using set_take_subset [of n xs] set_drop_subset [of n xs] by (auto simp: list_all_iff)

lemma frame_mean_fits:
  assumes "list_all (fits bits) src" "0 < n" "n \<le> length src"
  shows "fits bits (sum_list (take n src) sdiv int n)"
  using sdiv_mean_fits [of n bits "sum_list (take n src)"] frame_bounds [of bits "take n src"] list_all_take_drop [OF assms(1)] assms(2,3)
  by (simp add: min_absorb2)

text \<open>The sum does not overflow.\<close>

lemma channel_sum_value:
  assumes "list_all (fits bits) src" "n \<le> length src"
    and "- (int k * 2 ^ (bits - 1)) \<le> acc" "acc \<le> int k * 2 ^ (bits - 1)" "int (k + n) * 2 ^ (bits - 1) < 2 ^ (w - 1)"
  shows "channel_sum w n acc src = Some (acc + sum_list (take n src))"
  using assms
proof (induction w n acc src arbitrary: k rule: channel_sum.induct)
  case (2 w c acc x src)
  let ?M = "2 ^ (bits - 1) :: int"
  have x: "- ?M \<le> x" "x < ?M" using "2.prems"(1) by (simp_all add: fits_def)
  have b: "- (int (Suc k) * ?M) \<le> acc + x" "acc + x \<le> int (Suc k) * ?M" using x "2.prems"(3,4) by (simp_all add: algebra_simps)
  have m: "int (Suc k) * ?M \<le> int (k + Suc c) * ?M" by (rule mult_right_mono) simp_all
  have "fits w (acc + x)" unfolding fits_def using b m "2.prems"(5) by linarith
  moreover have "channel_sum w c (acc + x) src = Some (acc + x + sum_list (take c src))"
    using "2.IH" [of "acc + x" "Suc k"] "2.prems" b calculation by simp
  ultimately show ?case by (simp add: add.assoc)
qed auto

lemma remix_loop:
  assumes "\<And>src. loop src = (if src = [] then Some [] else do {
       acc \<leftarrow> channel_sum w n 0 src; let value = final (acc sdiv int n); dest \<leftarrow> loop (drop n src); Some (value # value # dest) })"
    and "\<And>x. fits bits x \<Longrightarrow> final x = x" "0 < n" "int n * 2 ^ (bits - 1) < 2 ^ (w - 1)"
    and "list_all (fits bits) src" "length src = k * n"
  shows "loop src = Some (remix n 2 src)"
  using assms(5,6)
proof (induction k arbitrary: src)
  case 0
  then show ?case by (simp add: assms(1))
next
  case (Suc k)
  then have n: "n \<le> length src" "src \<noteq> []" using assms(3) by auto
  have "channel_sum w n 0 src = Some (0 + sum_list (take n src))"
    by (rule channel_sum_value [where k = 0 and bits = bits]) (use Suc.prems n assms(4) in simp_all)
  moreover have "loop (drop n src) = Some (remix n 2 (drop n src))"
    using Suc.IH [of "drop n src"] Suc.prems list_all_take_drop [OF Suc.prems(1)] by simp
  moreover have "final (sum_list (take n src) sdiv int n) = sum_list (take n src) sdiv int n"
    by (rule assms(2)) (rule frame_mean_fits [OF Suc.prems(1) assms(3) n(1)])
  ultimately show ?case
    using assms(1) [of src] n remix_step [OF assms(3) n(1), of 2] by (simp add: numeral_2_eq_2 Let_def)
qed

text \<open>Stereo to mono, and mono to stereo.\<close>

lemma stereo_loop:
  assumes "loop [] = Some []"
    and "\<And>a b src. loop (a # b # src) = do { acc \<leftarrow> arith w (a + b); dest \<leftarrow> loop src; Some (final (acc sdiv 2) # dest) }"
    and "\<And>x. fits bits x \<Longrightarrow> final x = x" "\<And>a b. fits bits a \<Longrightarrow> fits bits b \<Longrightarrow> fits w (a + b)"
    and "list_all (fits bits) src" "length src = k * 2"
  shows "loop src = Some (remix 2 1 src)"
  using assms(5,6)
proof (induction k arbitrary: src)
  case (Suc k)
  then obtain a b rest where src: "src = a # b # rest" by (cases src; cases "tl src") auto
  have "final ((a + b) sdiv 2) = (a + b) sdiv 2"
    using assms(3) frame_mean_fits [OF Suc.prems(1), of 2] src by simp
  then show ?case using Suc src remix_step [of 2 src 1] assms(2,4) by simp
qed (simp add: assms(1))

lemma remix_mono: "remix 1 m src = concat (map (\<lambda>value. replicate m value) src)"
proof (induction src)
  case (Cons x src)
  then show ?case using remix_step [of 1 "x # src" m] by simp
qed simp

lemma duplicate_remix: "concat (map (\<lambda>value. [value, value]) src) = remix (Suc 0) 2 src"
  using remix_mono [of 2 src] by (simp add: numeral_2_eq_2)

definition channels_implemented :: "nat \<Rightarrow> nat \<Rightarrow> bool" where
  "channels_implemented sc dc \<longleftrightarrow> dc = 2 \<or> sc = 2 \<and> dc = 1"

lemma mean_bound: "n \<le> 255 \<Longrightarrow> int n * 32768 < 2147483648" "n \<le> 255 \<Longrightarrow> int n * 8388608 < 2147483648"
  "n \<le> 255 \<Longrightarrow> int n * 2147483648 < 9223372036854775808"
  by simp_all

lemma n_to_2_values:
  assumes "0 < n" "n \<le> 255" "length src = k * n"
  shows "list_all (fits 16) src \<Longrightarrow> pcm_convert_channels_16_n_to_2 n src = Some (remix n 2 src)"
    "list_all (fits 24) src \<Longrightarrow> pcm_convert_channels_24_n_to_2 n src = Some (remix n 2 src)"
    "list_all (fits 32) src \<Longrightarrow> pcm_convert_channels_32_n_to_2 n src = Some (remix n 2 src)"
proof -
  show "list_all (fits 16) src \<Longrightarrow> pcm_convert_channels_16_n_to_2 n src = Some (remix n 2 src)"
    by (rule remix_loop [where w = 32 and bits = 16 and k = k and final = "wrap 16"])
      (use assms mean_bound in \<open>simp_all add: pcm_convert_channels_16_n_to_2.simps [of n] del: of_nat_le_iff\<close>)
  show "list_all (fits 24) src \<Longrightarrow> pcm_convert_channels_24_n_to_2 n src = Some (remix n 2 src)"
    by (rule remix_loop [where w = 32 and bits = 24 and k = k and final = "\<lambda>x. x"])
      (use assms mean_bound in \<open>simp_all add: pcm_convert_channels_24_n_to_2.simps [of n]\<close>)
  show "list_all (fits 32) src \<Longrightarrow> pcm_convert_channels_32_n_to_2 n src = Some (remix n 2 src)"
    by (rule remix_loop [where w = 64 and bits = 32 and k = k and final = "wrap 32"])
      (use assms mean_bound in \<open>simp_all add: pcm_convert_channels_32_n_to_2.simps [of n]\<close>)
qed

lemma two_to_1_values:
  assumes "length src = k * 2"
  shows "list_all (fits 16) src \<Longrightarrow> pcm_convert_channels_16_2_to_1 src = Some (remix 2 1 src)"
    "list_all (fits 24) src \<Longrightarrow> pcm_convert_channels_24_2_to_1 src = Some (remix 2 1 src)"
    "list_all (fits 32) src \<Longrightarrow> pcm_convert_channels_32_2_to_1 src = Some (remix 2 1 src)"
  by (rule stereo_loop [where w = 32 and bits = 16 and k = k and final = "wrap 16"]
      stereo_loop [where w = 32 and bits = 24 and k = k and final = "\<lambda>x. x"]
      stereo_loop [where w = 64 and bits = 32 and k = k and final = "wrap 32"]; use assms in \<open>simp add: sum_fits\<close>)+

lemma pcm_convert_channels_values:
  assumes "0 < sc" "sc \<le> 255" "length src = k * sc" "channels_implemented sc dc"
  shows "list_all (fits 16) src \<Longrightarrow> \<exists>b. pcm_convert_channels_16 buffer dc sc src = Some (Some (remix sc dc src), b)"
    "list_all (fits 24) src \<Longrightarrow> \<exists>b. pcm_convert_channels_24 buffer dc sc src = Some (Some (remix sc dc src), b)"
    "list_all (fits 32) src \<Longrightarrow> \<exists>b. pcm_convert_channels_32 buffer dc sc src = Some (Some (remix sc dc src), b)"
  using assms n_to_2_values [OF assms(1-3)] two_to_1_values [of src k]
  by (auto simp: pcm_convert_channels_16_def pcm_convert_channels_24_def pcm_convert_channels_32_def channels_implemented_def
      pcm_convert_channels_16_1_to_2_def pcm_convert_channels_24_1_to_2_def duplicate_remix)

lemma remix_fits:
  assumes "0 < n" "length src = k * n" "list_all (fits bits) src"
  shows "list_all (fits bits) (remix n m src)"
  using assms(2,3)
proof (induction k arbitrary: src)
  case (Suc k)
  then have n: "n \<le> length src" by simp
  show ?case
    using Suc.IH [of "drop n src"] Suc.prems list_all_take_drop [OF Suc.prems(2), of n] remix_step [OF assms(1) n, of m]
      frame_mean_fits [OF Suc.prems(2) assms(1) n] by (auto simp: list_all_iff)
qed simp

section \<open>Sample rates\<close>

text \<open>Every frame of the result is the frame of the source at the same time.\<close>

definition dest_frames :: "nat \<Rightarrow> nat \<Rightarrow> nat \<Rightarrow> nat" where
  "dest_frames frames src_rate dest_rate = (frames * dest_rate + src_rate - 1) div src_rate"

definition resampled :: "nat \<Rightarrow> nat \<Rightarrow> nat \<Rightarrow> 'a list \<Rightarrow> 'a list" where
  "resampled channels src_rate dest_rate src =
     concat (map (\<lambda>j. take channels (drop (j * src_rate div dest_rate * channels) src))
       [0..<dest_frames (length src div channels) src_rate dest_rate])"

lemma those_map_Some: "(\<And>x. x \<in> set xs \<Longrightarrow> f x = Some (g x)) \<Longrightarrow> those (map f xs) = Some (map g xs)"
  by (induction xs) auto

lemma source_frame_less:
  assumes "0 < sr" "0 < dr" "j < dest_frames frames sr dr"
  shows "j * sr div dr < frames"
proof -
  have "j * sr + sr \<le> dest_frames frames sr dr * sr" using assms(3) by (metis add.commute mult_Suc mult_le_mono1 Suc_leI)
  also have "\<dots> \<le> frames * dr + sr - 1" by (simp add: dest_frames_def)
  finally have "j * sr < frames * dr" using assms(1) by linarith
  then show ?thesis using assms(2) by (simp add: div_less_iff_less_mult)
qed

lemma clear_low_bits: "(w :: u32) AND NOT (mask n) = push_bit n (drop_bit n w)"
  by (rule bit_eqI) (auto simp: bit_simps)

lemma unat_clear_bit: "unat ((w :: u32) AND NOT 1) = 2 * (unat w div 2)"
proof -
  have "unat w < 2 ^ 32" using unsigned_less [of w, where ?'a = nat] by simp
  then have "unat (2 :: u32) * unat (w div 2) < 2 ^ LENGTH(32)" by (simp add: unat_div)
  then have "unat (2 * (w div 2)) = 2 * (unat w div 2)" using unat_mult_lem [of 2 "w div 2"] by (simp add: unat_div)
  with clear_low_bits [of w 1] show ?thesis by (simp add: push_bit_eq_mult drop_bit_eq_div mult.commute)
qed

lemma unat_source_pos:
  assumes "p * unat sr < 2 ^ 32"
  shows "unat (of_nat p * sr div dr :: u32) = p * unat sr div unat dr"
proof (cases "unat sr = 0")
  case True
  then have "sr = 0" by (simp add: unat_eq_0)
  then show ?thesis by simp
next
  case False
  then have "p \<le> p * unat sr" by simp
  then have "p < 2 ^ 32" using assms by linarith
  then have "unat (of_nat p * sr) = p * unat sr" using assms by (simp add: unat_mult_lem [THEN iffD1] unat_of_nat take_bit_nat_eq_self)
  then show ?thesis by (simp add: unat_div)
qed

lemma unat_dest_frames:
  assumes "sr \<noteq> 0" "dr \<noteq> 0" "frames * unat dr + unat sr < 2 ^ 32"
  shows "unat ((of_nat frames * dr + sr - 1) div sr :: u32) = dest_frames frames (unat sr) (unat dr)"
proof -
  have dr: "0 < unat dr" "0 < unat sr" using assms(1,2) by (simp_all add: unat_gt_0)
  then have "frames \<le> frames * unat dr" by simp
  then have "frames < 2 ^ 32" using assms(3) by linarith
  then have f: "unat (of_nat frames :: u32) = frames" by (simp add: unat_of_nat take_bit_nat_eq_self)
  then have p: "unat (of_nat frames * dr) = frames * unat dr" using assms(3) by (simp add: unat_mult_lem [THEN iffD1])
  then have s: "unat (of_nat frames * dr + sr) = frames * unat dr + unat sr" using assms(3) by (simp add: unat_add_lem [THEN iffD1])
  then have "of_nat frames * dr + sr \<noteq> 0" using dr(2) by (metis add_gr_0 unat_eq_0 not_gr_zero)
  then show ?thesis using s by (simp add: unat_div unat_minus_one dest_frames_def)
qed

lemma take_frame:
  "p < length xs \<Longrightarrow> take (Suc 0) (drop p xs) = [xs ! p]"
  "p + 1 < length xs \<Longrightarrow> take 2 (drop p xs) = [xs ! p, xs ! (p + 1)]"
  by (simp_all add: numeral_2_eq_2 take_Suc_conv_app_nth)

lemma resample_mono:
  fixes sr dr :: u32
  assumes "\<And>j. j < k \<Longrightarrow> j * unat sr < 2 ^ 32 \<and> j * unat sr div unat dr < length src"
  shows "those (map (\<lambda>p. aget src (unat (of_nat p * sr div dr))) [0..<k]) =
    Some (concat (map (\<lambda>j. take 1 (drop (j * unat sr div unat dr) src)) [0..<k]))"
proof -
  have "map (\<lambda>j. take 1 (drop (j * unat sr div unat dr) src)) [0..<k] = map (\<lambda>j. [src ! (j * unat sr div unat dr)]) [0..<k]"
    by (rule map_cong [OF refl]) (use assms in \<open>simp add: take_frame\<close>)
  then have "concat (map (\<lambda>j. take 1 (drop (j * unat sr div unat dr) src)) [0..<k]) = map (\<lambda>j. src ! (j * unat sr div unat dr)) [0..<k]"
    by (simp only: concat_map_singleton)
  moreover have "those (map (\<lambda>p. aget src (unat (of_nat p * sr div dr))) [0..<k]) = Some (map (\<lambda>j. src ! (j * unat sr div unat dr)) [0..<k])"
    by (rule those_map_Some) (use assms in \<open>simp add: unat_source_pos\<close>)
  ultimately show ?thesis by (simp only:)
qed

lemma resample_stereo:
  fixes sr dr :: u32
  assumes "\<And>j. j < k \<Longrightarrow> 2 * j * unat sr < 2 ^ 32 \<and> j * unat sr div unat dr * 2 + 1 < length src"
  shows "those (map (\<lambda>i. do { let pos = unat (of_nat (2 * i) * sr div dr AND NOT 1); a \<leftarrow> aget src pos; b \<leftarrow> aget src (pos + 1); Some [a, b] }) [0..<k]) =
    Some (map (\<lambda>j. take 2 (drop (j * unat sr div unat dr * 2) src)) [0..<k])"
proof (rule those_map_Some)
  fix j
  assume "j \<in> set [0..<k]"
  then have j: "2 * j * unat sr < 2 ^ 32" "j * unat sr div unat dr * 2 + 1 < length src" using assms by simp_all
  have "2 * j * unat sr div unat dr div 2 = 2 * (j * unat sr) div (2 * unat dr)"
    by (simp only: div_mult2_eq [symmetric] mult.assoc mult.commute [of "unat dr" 2])
  also have "\<dots> = j * unat sr div unat dr" by simp
  finally have "unat (of_nat (2 * j) * sr div dr AND NOT 1) = j * unat sr div unat dr * 2"
    by (simp only: unat_clear_bit unat_source_pos [OF j(1), of dr] mult.commute [of 2 "j * unat sr div unat dr"])
  then show "(do { let pos = unat (of_nat (2 * j) * sr div dr AND NOT 1); a \<leftarrow> aget src pos; b \<leftarrow> aget src (pos + 1); Some [a, b] }) =
      Some (take 2 (drop (j * unat sr div unat dr * 2) src))"
    using j(2) take_frame(2) [OF j(2)] by (simp add: Let_def)
qed

lemma pcm_resample_fallback_frames:
  assumes rates: "src_rate \<noteq> 0" "dest_rate \<noteq> 0" and ch: "channels \<in> {1, 2}" and len: "length src = frames * unat channels"
    and fit: "frames * unat dest_rate + unat src_rate < 2 ^ 32"
      "dest_frames frames (unat src_rate) (unat dest_rate) * unat channels * unat src_rate < 2 ^ 32"
  shows "\<exists>b. pcm_resample_fallback stale n buffer channels src_rate src dest_rate =
    Some (resampled (unat channels) (unat src_rate) (unat dest_rate) src, b)"
proof -
  let ?sr = "unat src_rate" and ?dr = "unat dest_rate"
  define k where "k = dest_frames frames ?sr ?dr"
  have pos: "0 < ?sr" "0 < ?dr" using rates by (simp_all add: unat_gt_0)
  have less: "j * ?sr div ?dr < frames" if "j < k" for j using source_frame_less [OF pos] that by (simp add: k_def)
  have small: "p * ?sr < 2 ^ 32" if "p \<le> k * unat channels" for p
  proof -
    have "p * ?sr \<le> k * unat channels * ?sr" using that by (rule mult_le_mono1)
    then show ?thesis using fit(2) unfolding k_def by linarith
  qed
  have "k * unat channels \<le> k * unat channels * ?sr" using pos(1) by simp
  then have kc: "k * unat channels < 2 ^ 32" using fit(2) unfolding k_def by linarith
  have "unat ((of_nat frames * dest_rate + src_rate - 1) div src_rate) = k" using unat_dest_frames [OF rates fit(1)] by (simp add: k_def)
  then have s: "unat ((of_nat frames * dest_rate + src_rate - 1) div src_rate * channels) = k * unat channels"
    using kc by (simp add: unat_mult_lem [THEN iffD1])
  from ch consider "channels = 1" | "channels = 2" by blast
  then show ?thesis
  proof cases
    case 1
    then have "those (map (\<lambda>p. aget src (unat (of_nat p * src_rate div dest_rate))) [0..<k]) =
        Some (concat (map (\<lambda>j. take 1 (drop (j * ?sr div ?dr) src)) [0..<k]))"
      using small less len by (intro resample_mono) simp
    then show ?thesis using 1 s len rates by (simp add: pcm_resample_fallback_def resampled_def k_def Let_def)
  next
    case 2
    have "2 * j * ?sr < 2 ^ 32 \<and> j * ?sr div ?dr * 2 + 1 < length src" if "j < k" for j
      using small [of "2 * j"] less [OF that] that 2 len by (simp add: mult.assoc)
    from resample_stereo [OF this] 2 s len rates show ?thesis by (simp add: pcm_resample_fallback_def resampled_def k_def Let_def)
  qed
qed

section \<open>The converter\<close>

text \<open>What is done to the samples after their format has been converted.\<close>

definition relayout :: "audio_format \<Rightarrow> audio_format \<Rightarrow> int list \<Rightarrow> int list" where
  "relayout sf df xs =
     (let sc = unat (af_channels sf); dc = unat (af_channels df); sr = unat (af_sample_rate sf); dr = unat (af_sample_rate df);
          ys = (if sc = dc then xs else remix sc dc xs)
      in if sr = dr then ys else resampled dc sr dr ys)"

text \<open>The channels and the rates can be converted, and the 32 bit counters of the resampler suffice.\<close>

definition convertible :: "audio_format \<Rightarrow> audio_format \<Rightarrow> nat \<Rightarrow> bool" where
  "convertible sf df frames \<longleftrightarrow>
     (let sc = unat (af_channels sf); dc = unat (af_channels df); sr = unat (af_sample_rate sf); dr = unat (af_sample_rate df)
      in 0 < sc \<and> 0 < sr \<and> 0 < dr \<and> (sc = dc \<or> channels_implemented sc dc) \<and>
         (sr = dr \<or> dc \<in> {1, 2} \<and> frames * dr + sr < 2 ^ 32 \<and> dest_frames frames sr dr * dc * sr < 2 ^ 32))"

lemma remix_frames: "0 < n \<Longrightarrow> length src = frames * n \<Longrightarrow> length (remix n m src) = frames * m"
  by (simp add: length_remix)

lemma unat_le_255: "unat (c :: u8) \<le> 255"
  using unsigned_less [of c, where ?'a = nat] by simp

lemma convert_rest_relayout:
  assumes "convertible sf df frames" "length xs = frames * unat (af_channels sf)"
    and "\<And>sc dc buffer. 0 < sc \<Longrightarrow> sc \<le> 255 \<Longrightarrow> length xs = frames * sc \<Longrightarrow> channels_implemented sc dc \<Longrightarrow>
      \<exists>b. channels buffer dc sc xs = Some (Some (remix sc dc xs), b)"
  shows "\<exists>state'. convert_rest (pcm_resample_fallback stale n) channels state sf df xs = Some (CONVERTED (relayout sf df xs), state') \<and> cs_dither state' = cs_dither state"
proof -
  let ?sc = "unat (af_channels sf)" and ?dc = "unat (af_channels df)" and ?sr = "af_sample_rate sf" and ?dr = "af_sample_rate df"
  let ?ys = "if ?sc = ?dc then xs else remix ?sc ?dc xs"
  have c: "0 < ?sc" "0 < unat ?sr" "0 < unat ?dr" "?sc = ?dc \<or> channels_implemented ?sc ?dc" using assms(1) by (simp_all add: convertible_def Let_def)
  have ch: "\<exists>b. channels buffer ?dc ?sc xs = Some (Some (remix ?sc ?dc xs), b)" if "?sc \<noteq> ?dc" for buffer
    using assms(3) [OF c(1) unat_le_255 assms(2)] c(4) that by blast
  have len: "length ?ys = frames * ?dc" using remix_frames [OF c(1) assms(2)] assms(2) by simp
  have r: "\<exists>b. pcm_resample_fallback stale n buffer (ucast (af_channels df)) ?sr ?ys ?dr = Some (resampled ?dc (unat ?sr) (unat ?dr) ?ys, b)"
    if "unat ?sr \<noteq> unat ?dr" for buffer
  proof -
    have d: "?dc \<in> {1, 2}" "frames * unat ?dr + unat ?sr < 2 ^ 32" "dest_frames frames (unat ?sr) (unat ?dr) * ?dc * unat ?sr < 2 ^ 32"
      using assms(1) that by (simp_all add: convertible_def Let_def)
    have "(ucast (af_channels df) :: u32) \<in> {1, 2}"
      using d(1) by (auto simp: unat_ucast_u8_u32 simp flip: word_unat_eq_iff intro!: word_unat_eq_iff [THEN iffD2])
    with pcm_resample_fallback_frames [of ?sr ?dr "ucast (af_channels df)" ?ys frames stale n buffer] c(2,3) d(2,3) len
    show ?thesis by (simp add: unat_gt_0)
  qed
  show ?thesis
    using ch [of "cs_channels_buffer state"] r [of "cs_resample state"]
    by (auto simp: convert_rest_def relayout_def Let_def word_unat_eq_iff split: if_splits)
qed

text \<open>A sample converted from one integer format to another.\<close>

definition requantised :: "nat \<Rightarrow> nat \<Rightarrow> int \<Rightarrow> int \<Rightarrow> bool" where
  "requantised b c x y \<longleftrightarrow> fits c y \<and> (if 16 < b \<and> c = 16 then dithered b x y else y = rescaled b c x)"

lemma requantised_map:
  assumes "list_all (fits b) xs" "b \<in> {8, 16, 24, 32}" "c \<in> {24, 32}"
  shows "list_all2 (requantised b c) xs (map (rescaled b c) xs)"
  using assms rescaled_fits [OF _ assms(2,3)] by (auto simp: list_all2_conv_all_nth requantised_def list_all_length)

lemma list_all2_fits: "list_all2 (requantised b c) xs ys \<Longrightarrow> list_all (fits c) ys"
  by (auto simp: list_all2_conv_all_nth list_all_length requantised_def)

lemma convert_rests:
  assumes "convertible sf df frames" "length xs = frames * unat (af_channels sf)"
  shows "list_all (fits 16) xs \<Longrightarrow> \<exists>state'. convert_rest (pcm_resample_fallback stale n) pcm_convert_channels_16 state sf df xs =
      Some (CONVERTED (relayout sf df xs), state') \<and> cs_dither state' = cs_dither state"
    "list_all (fits 24) xs \<Longrightarrow> \<exists>state'. convert_rest (pcm_resample_fallback stale n) pcm_convert_channels_24 state sf df xs =
      Some (CONVERTED (relayout sf df xs), state') \<and> cs_dither state' = cs_dither state"
    "list_all (fits 32) xs \<Longrightarrow> \<exists>state'. convert_rest (pcm_resample_fallback stale n) pcm_convert_channels_32 state sf df xs =
      Some (CONVERTED (relayout sf df xs), state') \<and> cs_dither state' = cs_dither state"
  by - (rule convert_rest_relayout [OF assms], erule pcm_convert_channels_values, assumption+)+

lemma pcm_convert_integers:
  assumes src: "int_samples src = Some (bits, xs)" "list_all (fits bits) xs" and d: "dither_ok (cs_dither state)"
    and c: "convertible sf df frames" "length xs = frames * unat (af_channels sf)"
    and df: "af_format df \<in> {SAMPLE_FORMAT_S16, SAMPLE_FORMAT_S24_P32, SAMPLE_FORMAT_S32}"
  shows "\<exists>ys dest state'. pcm_convert stale fstale F dsd state sf src df = Some (CONVERTED dest, state') \<and>
    list_all2 (requantised bits (bits_of (af_format df))) xs ys \<and> int_samples dest = Some (bits_of (af_format df), relayout sf df ys) \<and>
    data_format dest = af_format df \<and> dither_ok (cs_dither state')"
proof -
  note bits = int_samples_bits [OF src(1)]
  have conv: "pcm_convert stale fstale F dsd state sf src df = convert_pcm stale fstale F state sf src df"
    using src(1) by (cases src) (auto simp: pcm_convert_def)
  consider "af_format df = SAMPLE_FORMAT_S16" | "af_format df = SAMPLE_FORMAT_S24_P32" | "af_format df = SAMPLE_FORMAT_S32" using df by blast
  then show ?thesis
  proof cases
    case 1
    obtain ys b d' where ys: "pcm_convert_to_16 F (cs_format_buffer state) (cs_dither state) src = Some (Some ys, b, d')"
      "list_all2 (to_16 bits) xs ys" "dither_ok d'" using pcm_convert_to_16_values [OF src d] by blast
    have q: "list_all2 (requantised bits 16) xs ys" using ys(2) by (rule list_all2_mono) (auto simp: to_16_def requantised_def split: if_splits)
    have len: "length ys = frames * unat (af_channels sf)" using c(2) list_all2_lengthD [OF q] by simp
    let ?st = "state\<lparr>cs_format_buffer := b, cs_dither := d'\<rparr>"
    obtain state' where "convert_rest (pcm_resample_16 stale) pcm_convert_channels_16 ?st sf df ys = Some (CONVERTED (relayout sf df ys), state')"
      "cs_dither state' = d'" using convert_rests(1) [OF c(1) len list_all2_fits [OF q], of stale 2 ?st]
      by (auto simp: pcm_resample_16_def pcm_resample_fallback_16_def)
    with 1 ys(1,3) q show ?thesis
      by (auto simp: conv convert_pcm_def pcm_convert_16_def map_conversion_def bits_of_def Let_def)
  next
    case 2
    let ?ys = "map (rescaled bits 24) xs"
    obtain b where b: "pcm_convert_to_24 F (cs_format_buffer state) src = Some (Some ?ys, b)" using pcm_convert_to_24_values [OF src] by blast
    have q: "list_all2 (requantised bits 24) xs ?ys" using requantised_map [OF src(2) bits] by simp
    obtain state' where "convert_rest (pcm_resample_32 stale) pcm_convert_channels_24 (state\<lparr>cs_format_buffer := b\<rparr>) sf df ?ys =
        Some (CONVERTED (relayout sf df ?ys), state')" "cs_dither state' = cs_dither state"
      using convert_rests(2) [OF c(1) _ list_all2_fits [OF q], of stale 4 "state\<lparr>cs_format_buffer := b\<rparr>"] c(2)
      by (auto simp: pcm_resample_32_def pcm_resample_fallback_32_def)
    with 2 b d q show ?thesis
      by (auto simp: conv convert_pcm_def pcm_convert_24_def map_conversion_def bits_of_def Let_def)
  next
    case 3
    let ?ys = "map (rescaled bits 32) xs"
    obtain b where b: "pcm_convert_to_32 F (cs_format_buffer state) src = Some (Some ?ys, b)" using pcm_convert_to_32_values [OF src] by blast
    have q: "list_all2 (requantised bits 32) xs ?ys" using requantised_map [OF src(2) bits] by simp
    obtain state' where "convert_rest (pcm_resample_32 stale) pcm_convert_channels_32 (state\<lparr>cs_format_buffer := b\<rparr>) sf df ?ys =
        Some (CONVERTED (relayout sf df ?ys), state')" "cs_dither state' = cs_dither state"
      using convert_rests(3) [OF c(1) _ list_all2_fits [OF q], of stale 4 "state\<lparr>cs_format_buffer := b\<rparr>"] c(2)
      by (auto simp: pcm_resample_32_def pcm_resample_fallback_32_def)
    with 3 b d q show ?thesis
      by (auto simp: conv convert_pcm_def pcm_convert_32_def map_conversion_def bits_of_def Let_def)
  qed
qed

text \<open>The number of samples of the result, and their range.\<close>

lemma resampled_length:
  assumes "0 < c" "0 < sr" "0 < dr" "length src = frames * c"
  shows "length (resampled c sr dr src) = dest_frames frames sr dr * c"
proof -
  have "length (take c (drop (j * sr div dr * c) src)) = c" if "j < dest_frames frames sr dr" for j
  proof -
    have "Suc (j * sr div dr) * c \<le> frames * c" using source_frame_less [OF assms(2,3) that] by (intro mult_le_mono1) simp
    then show ?thesis using assms(4) by simp
  qed
  then have "map (\<lambda>j. length (take c (drop (j * sr div dr * c) src))) [0..<dest_frames frames sr dr] = map (\<lambda>_. c) [0..<dest_frames frames sr dr]"
    by (intro map_cong [OF refl]) simp
  then show ?thesis using assms(1,4) by (simp add: resampled_def length_concat comp_def sum_list_triv del: length_take length_drop map_eq_conv)
qed

lemma resampled_subset: "set (resampled c sr dr src) \<subseteq> set src"
  by (auto simp: resampled_def dest: in_set_takeD in_set_dropD)

lemma relayout_ok:
  assumes "convertible sf df frames" "length xs = frames * unat (af_channels sf)" "list_all (fits bits) xs"
  shows "list_all (fits bits) (relayout sf df xs)"
    "length (relayout sf df xs) = (if af_sample_rate sf = af_sample_rate df then frames
       else dest_frames frames (unat (af_sample_rate sf)) (unat (af_sample_rate df))) * unat (af_channels df)"
proof -
  let ?sc = "unat (af_channels sf)" and ?dc = "unat (af_channels df)" and ?sr = "unat (af_sample_rate sf)" and ?dr = "unat (af_sample_rate df)"
  let ?ys = "if ?sc = ?dc then xs else remix ?sc ?dc xs"
  have c: "0 < ?sc" "0 < ?sr" "0 < ?dr" and dc: "?sr \<noteq> ?dr \<longrightarrow> 0 < ?dc"
    using assms(1) by (auto simp: convertible_def Let_def)
  have ys: "length ?ys = frames * ?dc" "list_all (fits bits) ?ys"
    using remix_frames [OF c(1) assms(2)] assms(2) remix_fits [OF c(1) assms(2,3)] assms(3) by simp_all
  show "list_all (fits bits) (relayout sf df xs)"
    using ys(2) resampled_subset [of ?dc ?sr ?dr ?ys] by (auto simp: relayout_def Let_def list_all_iff)
  show "length (relayout sf df xs) = (if af_sample_rate sf = af_sample_rate df then frames
       else dest_frames frames (unat (af_sample_rate sf)) (unat (af_sample_rate df))) * unat (af_channels df)"
    using ys(1) resampled_length [OF _ c(2,3) ys(1)] dc by (auto simp: relayout_def Let_def word_unat_eq_iff)
qed

end
