(* ===== verification/Pcm_Export_Inv.thy ===== *)
theory Pcm_Export_Inv
  imports Pcm_Export Pcm_Convert_Inv
begin

text \<open>
  The byte routines against plain lists: reversing the bytes of every frame, cutting off the padding of packed
  samples, and the export of samples.
\<close>

unbundle bit_operations_syntax

section \<open>Frames of bytes\<close>

definition chunks :: "nat \<Rightarrow> 'a list \<Rightarrow> 'a list list" where
  "chunks n xs = map (\<lambda>i. take n (drop (i * n) xs)) [0..<length xs div n]"

lemma chunks_Nil [simp]: "chunks n [] = []"
  by (simp add: chunks_def)

lemma chunks_step:
  assumes "0 < n" "n \<le> length xs"
  shows "chunks n xs = take n xs # chunks n (drop n xs)"
proof -
  have "length xs div n = Suc ((length xs - n) div n)" using assms by (simp add: le_div_geq)
  then show ?thesis by (simp add: chunks_def upt_conv_Cons comp_def add.commute del: upt_Suc flip: map_Suc_upt)
qed

lemma chunks_append: "0 < n \<Longrightarrow> length a = n \<Longrightarrow> chunks n (a @ bs) = a # chunks n bs"
  by (simp add: chunks_step)

lemma chunk_induct [consumes 2, case_names Nil Cons]:
  assumes "0 < n" "length xs mod n = 0" "P []" "\<And>a bs. length a = n \<Longrightarrow> length bs mod n = 0 \<Longrightarrow> P bs \<Longrightarrow> P (a @ bs)"
  shows "P xs"
  using assms(2)
proof (induction "length xs" arbitrary: xs rule: less_induct)
  case less
  show ?case
  proof (cases "xs = []")
    case False
    then have "n \<le> length xs" using less.prems assms(1) by (metis length_0_conv mod_less not_le)
    then have "P (take n xs @ drop n xs)" using assms(1) less by (intro assms(4)) (auto simp: le_mod_geq)
    then show ?thesis by simp
  qed (use assms(3) in simp)
qed

lemma length2: "length xs = 2 \<Longrightarrow> \<exists>a b. xs = [a, b]"
  by (auto simp: numeral_2_eq_2 length_Suc_conv)

lemma length4: "length xs = 4 \<Longrightarrow> \<exists>a b c d. xs = [a, b, c, d]"
  by (auto simp: eval_nat_numeral length_Suc_conv)

lemma length8: "length xs = 8 \<Longrightarrow> \<exists>a b c d e f g h. xs = [a, b, c, d, e, f, g, h]"
  by (auto simp: eval_nat_numeral length_Suc_conv)

section \<open>Byte order\<close>

lemma byte_masks32:
  "(0xff :: u32) = push_bit 0 (mask 8)" "(0xff00 :: u32) = push_bit 8 (mask 8)" "(0xff0000 :: u32) = push_bit 16 (mask 8)"
  "(0xff000000 :: u32) = push_bit 24 (mask 8)"
  by (simp_all add: mask_eq_exp_minus_1)

lemma byte_masks64:
  "(0xff :: 64 word) = push_bit 0 (mask 8)" "(0xff00 :: 64 word) = push_bit 8 (mask 8)" "(0xff0000 :: 64 word) = push_bit 16 (mask 8)"
  "(0xff000000 :: 64 word) = push_bit 24 (mask 8)" "(0xff00000000 :: 64 word) = push_bit 32 (mask 8)"
  "(0xff0000000000 :: 64 word) = push_bit 40 (mask 8)" "(0xff000000000000 :: 64 word) = push_bit 48 (mask 8)"
  "(0xff00000000000000 :: 64 word) = push_bit 56 (mask 8)"
  by (simp_all add: mask_eq_exp_minus_1)

lemma no_high_bit [simp]: "8 \<le> n \<Longrightarrow> \<not> bit (a :: u8) n"
  by (rule impossible_bit) simp

lemma swap16: "le16 (GUINT16_SWAP_LE_BE (ucast a OR push_bit 8 (ucast b))) = [b, a]"
  unfolding le16_def GUINT16_SWAP_LE_BE_def list.inject
  by (intro conjI refl; rule bit_word_eqI; auto simp: bit_simps)

lemma swap32:
  "le32 (GUINT32_SWAP_LE_BE (ucast a OR push_bit 8 (ucast b) OR push_bit 16 (ucast c) OR push_bit 24 (ucast d))) = [d, c, b, a]"
  unfolding le32_def GUINT32_SWAP_LE_BE_def list.inject byte_masks32
  by (intro conjI refl; rule bit_word_eqI; auto simp: bit_simps)

lemma le64_bytes: "le64 w = [ucast w, ucast (drop_bit 8 w), ucast (drop_bit 16 w), ucast (drop_bit 24 w),
    ucast (drop_bit 32 w), ucast (drop_bit 40 w), ucast (drop_bit 48 w), ucast (drop_bit 56 w)]"
  by (simp add: le64_def upt_rec)

lemma swap64:
  "le64 (GUINT64_SWAP_LE_BE (ucast a OR push_bit 8 (ucast b) OR push_bit 16 (ucast c) OR push_bit 24 (ucast d) OR
     push_bit 32 (ucast e) OR push_bit 40 (ucast f) OR push_bit 48 (ucast g) OR push_bit 56 (ucast h))) = [h, g, f, e, d, c, b, a]"
  unfolding le64_bytes GUINT64_SWAP_LE_BE_def list.inject byte_masks64
  by (intro conjI refl; rule bit_word_eqI; simp add: bit_simps; linarith?)

lemma reverse_bytes_linear_rev: "n \<le> length src \<Longrightarrow> reverse_bytes_linear src n = Some (rev (take n src))"
  by (induction n) (simp_all add: take_Suc_conv_app_nth)

definition reversed :: "nat \<Rightarrow> 'a list \<Rightarrow> 'a list" where
  "reversed n src = concat (map rev (chunks n src))"

lemma reversed_append [simp]: "0 < n \<Longrightarrow> length a = n \<Longrightarrow> reversed n (a @ bs) = rev a @ reversed n bs"
  by (simp add: reversed_def chunks_append)

lemma reversed_Nil [simp]: "reversed n [] = []"
  by (simp add: reversed_def)

lemma reverse_bytes_generic_reversed:
  assumes "0 < n" "length src mod n = 0"
  shows "reverse_bytes_generic n src = Some (reversed n src)"
  using assms
proof (induction rule: chunk_induct)
  case (Cons a bs)
  then show ?case using assms(1) by (simp add: reverse_bytes_generic.simps [of n "a @ bs"] reverse_bytes_linear_rev)
qed (simp add: reverse_bytes_generic.simps assms(1))

lemma reverse_words:
  "length src mod 2 = 0 \<Longrightarrow> concat (map le16 (reverse_bytes_16 (words16 src))) = reversed 2 src"
  "length src mod 4 = 0 \<Longrightarrow> concat (map le32 (reverse_bytes_32 (words32 src))) = reversed 4 src"
  "length src mod 8 = 0 \<Longrightarrow> concat (map le64 (reverse_bytes_64 (words64 src))) = reversed 8 src"
proof -
  have "concat (map le16 (reverse_bytes_16 (words16 src))) = reversed 2 src" if "length src mod 2 = 0"
    using zero_less_numeral that
  proof (induction rule: chunk_induct)
    case (Cons a bs)
    then show ?case using length2 [OF Cons(1)] reversed_append [of 2 a bs] by (auto simp: reverse_bytes_16_def swap16)
  qed (simp add: reverse_bytes_16_def)
  then show "length src mod 2 = 0 \<Longrightarrow> concat (map le16 (reverse_bytes_16 (words16 src))) = reversed 2 src" .
  have "concat (map le32 (reverse_bytes_32 (words32 src))) = reversed 4 src" if "length src mod 4 = 0"
    using zero_less_numeral that
  proof (induction rule: chunk_induct)
    case (Cons a bs)
    then show ?case using length4 [OF Cons(1)] reversed_append [of 4 a bs] by (auto simp: reverse_bytes_32_def swap32)
  qed (simp add: reverse_bytes_32_def)
  then show "length src mod 4 = 0 \<Longrightarrow> concat (map le32 (reverse_bytes_32 (words32 src))) = reversed 4 src" .
  have "concat (map le64 (reverse_bytes_64 (words64 src))) = reversed 8 src" if "length src mod 8 = 0"
    using zero_less_numeral that
  proof (induction rule: chunk_induct)
    case (Cons a bs)
    then show ?case using length8 [OF Cons(1)] reversed_append [of 8 a bs] by (auto simp: reverse_bytes_64_def swap64)
  qed (simp add: reverse_bytes_64_def)
  then show "length src mod 8 = 0 \<Longrightarrow> concat (map le64 (reverse_bytes_64 (words64 src))) = reversed 8 src" .
qed

lemma reverse_bytes_reversed:
  assumes "0 < n" "length src mod n = 0"
  shows "reverse_bytes src n = Some (reversed n src)"
  using assms reverse_words [of src] reverse_bytes_generic_reversed [OF assms] by (auto simp: reverse_bytes_def)

lemma length_reversed: "0 < n \<Longrightarrow> length src mod n = 0 \<Longrightarrow> length (reversed n src) = length src"
proof (induction rule: chunk_induct)
  case (Cons a bs)
  then show ?case by (cases "n = 0") simp_all
qed simp

lemma reversed_reversed: "0 < n \<Longrightarrow> length src mod n = 0 \<Longrightarrow> reversed n (reversed n src) = src"
proof (induction rule: chunk_induct)
  case (Cons a bs)
  then show ?case by (cases "n = 0") simp_all
qed simp

section \<open>Bit order\<close>

definition rev8 :: "u8 \<Rightarrow> u8" where
  "rev8 x = horner_sum of_bool 2 (rev (map (bit x) [0..<8]))"

lemma bit_rev8: "i < 8 \<Longrightarrow> bit (rev8 x) i = bit x (7 - i)"
  by (simp add: rev8_def bit_horner_sum_bit_iff rev_nth)

lemma bit_reverse_table_entries: "map rev8 (map word_of_nat [0..<256]) = bit_reverse_table"
  by code_simp

lemma bit_reverse_rev8: "bit_reverse x = rev8 x"
proof -
  have "unat x < 256" using unsigned_less [of x, where ?'a = nat] by simp
  then have "map rev8 (map word_of_nat [0..<256]) ! unat x = rev8 x" by simp
  then show ?thesis unfolding bit_reverse_def bit_reverse_table_entries .
qed

section \<open>Packed samples\<close>

lemma sign_bits: "fits 24 x \<Longrightarrow> 23 \<le> n \<Longrightarrow> bit x n = bit x 23"
  using bit_signed_take_bit_iff [of 23 x n] by (simp add: fits_def signed_take_bit_int_eq_self min_absorb1)

lemma unpack_packed:
  assumes "fits 24 x" "pack_sample x = [a, b, c]"
  shows "unpack_sample a b c = x"
proof -
  have bits: "bit a n \<longleftrightarrow> n < 8 \<and> bit x n" "bit b n \<longleftrightarrow> n < 8 \<and> bit x (8 + n)" "bit c n \<longleftrightarrow> n < 8 \<and> bit x (16 + n)" for n
    using assms(2) by (auto simp: pack_sample_def le32_def bit_simps)
  have neg: "c AND 0x80 \<noteq> 0 \<longleftrightarrow> bit x 23"
    using bit_iff_and_push_bit_not_eq_0 [of c 7] bits(3) [of 7] by simp
  let ?w = "ucast a OR push_bit 8 (ucast b) OR push_bit 16 (ucast c) OR push_bit 24 (if c AND 0x80 \<noteq> 0 then 0xff else 0x00) :: u32"
  have "?w = word_of_int x"
  proof (rule bit_word_eqI)
    fix n
    assume "n < LENGTH(32)"
    then have n: "n < 32" by simp
    have "bit (if c AND 0x80 \<noteq> 0 then 0xff else 0x00 :: u32) m \<longleftrightarrow> bit x 23 \<and> m < 8" for m
      unfolding neg byte_masks32(1) by (auto simp: bit_simps)
    then show "bit ?w n = bit (word_of_int x :: u32) n"
      using n bits sign_bits [OF assms(1), of n] by (cases "23 \<le> n"; cases "16 \<le> n") (auto simp: bit_simps not_less)
  qed
  moreover have "signed_take_bit 31 x = x" using assms(1) by (simp add: fits_def signed_take_bit_int_eq_self)
  ultimately show ?thesis by (simp add: unpack_sample_def sint_sbintrunc')
qed

lemma pack_sample_bytes: "\<exists>a b c. pack_sample x = [a, b, c]"
  by (simp add: pack_sample_def le32_def)

lemma pack_24_round_trip: "list_all (fits 24) xs \<Longrightarrow> pcm_unpack_24 (pcm_pack_24 xs) = Some xs"
proof (induction xs)
  case (Cons x xs)
  then show ?case using pack_sample_bytes [of x] unpack_packed [of x] by (auto simp: pcm_pack_24_def)
qed (simp add: pcm_pack_24_def)

section \<open>Export\<close>

lemma le32_word: "le32 (ucast a OR push_bit 8 (ucast b) OR push_bit 16 (ucast c) OR push_bit 24 (ucast d)) = [a, b, c, d]"
  unfolding le32_def list.inject by (intro conjI refl; rule bit_word_eqI; auto simp: bit_simps)

lemma le32_shift: "le32 (push_bit 8 (ucast a OR push_bit 8 (ucast b) OR push_bit 16 (ucast c) OR push_bit 24 (ucast d))) = [0, a, b, c]"
  unfolding le32_def list.inject by (intro conjI refl; rule bit_word_eqI; auto simp: bit_simps)

lemma pack_words:
  assumes "length data mod 4 = 0"
  shows "pcm_pack_24 (map sint (words32 data)) = concat (map (take 3) (chunks 4 data))"
  using zero_less_numeral assms
proof (induction rule: chunk_induct)
  case (Cons a bs)
  then show ?case using length4 [OF Cons(1)] chunks_append [of 4 a bs] by (auto simp: pcm_pack_24_def pack_sample_def le32_word)
qed (simp add: pcm_pack_24_def)

lemma shift_words:
  assumes "length data mod 4 = 0"
  shows "concat (map (\<lambda>x. le32 (push_bit 8 x)) (words32 data)) = concat (map (\<lambda>f. 0 # take 3 f) (chunks 4 data))"
  using zero_less_numeral assms
proof (induction rule: chunk_induct)
  case (Cons a bs)
  then show ?case using length4 [OF Cons(1)] chunks_append [of 4 a bs] le32_shift by auto
qed simp

lemma chunks_length: "f \<in> set (chunks n xs) \<Longrightarrow> length f = n"
proof -
  assume "f \<in> set (chunks n xs)"
  then obtain i where i: "i < length xs div n" "f = take n (drop (i * n) xs)" by (auto simp: chunks_def)
  then have "Suc i * n \<le> length xs div n * n" by (intro mult_le_mono1) simp
  moreover have "length xs div n * n \<le> length xs" by simp
  ultimately have "i * n + n \<le> length xs" unfolding mult_Suc by linarith
  then show "length f = n" using i(2) by simp
qed

lemma length_concat_const: "\<forall>f \<in> set fs. length f = m \<Longrightarrow> length (concat fs) = m * length fs"
  by (induction fs) simp_all

lemma chunks_concat: "0 < n \<Longrightarrow> \<forall>f \<in> set fs. length f = n \<Longrightarrow> chunks n (concat fs) = fs"
  by (induction fs) (simp_all add: chunks_append)

lemma concat_chunks: "0 < n \<Longrightarrow> length xs mod n = 0 \<Longrightarrow> concat (chunks n xs) = xs"
proof (induction rule: chunk_induct)
  case (Cons a bs)
  then show ?case by (cases "n = 0") (simp_all add: chunks_append)
qed simp

text \<open>The bytes of one sample as they are exported.\<close>

definition exported :: "pcm_export_state \<Rightarrow> u8 list \<Rightarrow> u8 list" where
  "exported st f =
     (let f = (if ex_pack24 st then take 3 f else if ex_shift8 st then 0 # take 3 f else f)
      in if 0 < ex_reverse_endian st then rev f else f)"

definition export_ok :: "pcm_export_state \<Rightarrow> nat \<Rightarrow> bool" where
  "export_ok st n \<longleftrightarrow> 0 < n \<and> ((ex_pack24 st \<or> ex_shift8 st) \<longrightarrow> n = 4) \<and>
     (0 < ex_reverse_endian st \<longrightarrow> ex_reverse_endian st = (if ex_pack24 st then 3 else n) \<and> 2 \<le> ex_reverse_endian st)"

lemma pcm_export_open_ok:
  assumes "pcm_export_open st format channels dsd_usb shift8 pack reverse = Some st'" "format \<noteq> SAMPLE_FORMAT_DSD"
  shows "export_ok st' (sample_format_size format)" "\<not> ex_dsd_usb st'"
  using assms by (cases format; auto simp: pcm_export_open_def export_ok_def Let_def bind_eq_Some_conv split: if_splits)+

lemma pcm_export_samples:
  assumes "export_ok st n" "\<not> ex_dsd_usb st" "length data mod n = 0"
  shows "\<exists>st'. pcm_export stale st data = Some (concat (map (exported st) (chunks n data)), st')"
proof -
  have n: "0 < n" using assms(1) by (simp add: export_ok_def)
  let ?g = "\<lambda>f. if ex_pack24 st then take 3 f else if ex_shift8 st then 0 # take 3 f else f"
  let ?fs = "map ?g (chunks n data)"
  let ?m = "if ex_pack24 st then 3 else n"
  have m: "0 < ?m" "\<forall>f \<in> set ?fs. length f = ?m"
    using n assms(1) chunks_length [of _ n data] by (auto simp: export_ok_def split: if_splits)
  have fs: "concat ?fs = (if ex_pack24 st then pcm_pack_24 (map sint (words32 data))
      else if ex_shift8 st then concat (map (\<lambda>x. le32 (push_bit 8 x)) (words32 data)) else data)"
    using assms(1,3) pack_words [of data] shift_words [of data] concat_chunks [OF n assms(3)] by (auto simp: export_ok_def)
  have "length (concat ?fs) mod ?m = 0" unfolding length_concat_const [OF m(2)] by simp
  then have rev: "reverse_bytes (concat ?fs) ?m = Some (concat (map rev ?fs))"
    using reverse_bytes_reversed [OF m(1), of "concat ?fs"] chunks_concat [OF m] by (simp add: reversed_def)
  have q: "concat (map (exported st) (chunks n data)) = (if 0 < ex_reverse_endian st then concat (map rev ?fs) else concat ?fs)"
    by (simp add: exported_def [abs_def] comp_def Let_def)
  show ?thesis
    unfolding q using assms fs rev by (auto simp: pcm_export_def export_ok_def Let_def comp_def split: if_splits)
qed

lemma exported_length:
  assumes "export_ok st n" "length f = n"
  shows "length (exported st f) = (if ex_pack24 st then 3 else n)"
  using assms by (auto simp: exported_def export_ok_def Let_def)

lemma export_source_size:
  assumes "export_ok st n" "\<not> ex_dsd_usb st" "length data mod n = 0"
  shows "pcm_export_source_size st (length (concat (map (exported st) (chunks n data)))) = length data"
proof -
  have n: "0 < n" using assms(1) by (simp add: export_ok_def)
  have "\<forall>f \<in> set (map (exported st) (chunks n data)). length f = (if ex_pack24 st then 3 else n)"
    using exported_length [OF assms(1)] chunks_length [of _ n data] by fastforce
  from length_concat_const [OF this] have "length (concat (map (exported st) (chunks n data))) = (if ex_pack24 st then 3 else n) * (length data div n)"
    by (simp add: chunks_def)
  moreover have "length data div n * n = length data" using assms(3) by auto
  ultimately show ?thesis using assms(1,2) by (auto simp: pcm_export_source_size_def export_ok_def mult.commute)
qed

section \<open>DSD over USB\<close>

definition usb_sample :: "nat \<Rightarrow> u8 list \<Rightarrow> nat \<Rightarrow> nat \<Rightarrow> u32" where
  "usb_sample channels src j c =
     (if even j then pcm_two_dsd_to_usb_marker1 else pcm_two_dsd_to_usb_marker2)
       (src ! (2 * j * channels + c)) (src ! (2 * j * channels + c + channels))"

definition usb_frames :: "nat \<Rightarrow> u8 list \<Rightarrow> nat \<Rightarrow> u32 list" where
  "usb_frames channels src k = concat (map (\<lambda>j. map (usb_sample channels src j) [0..<channels]) [0..<k])"

lemma usb_frame_value:
  assumes "2 * channels \<le> length src"
  shows "usb_frame marker channels src = Some (map (\<lambda>c. marker (src ! c) (src ! (c + channels))) [0..<channels])"
  unfolding usb_frame_def by (rule those_map_Some) (use assms in simp)

lemma usb_frames_step:
  assumes "4 * channels \<le> length src"
  shows "usb_frames channels src (2 * Suc i) =
    map (\<lambda>c. pcm_two_dsd_to_usb_marker1 (src ! c) (src ! (c + channels))) [0..<channels] @
    map (\<lambda>c. pcm_two_dsd_to_usb_marker2 (drop (2 * channels) src ! c) (drop (2 * channels) src ! (c + channels))) [0..<channels] @
    usb_frames channels (drop (4 * channels) src) (2 * i)"
proof -
  have shift: "usb_sample channels src (Suc (Suc j)) = usb_sample channels (drop (4 * channels) src) j" for j
    by (rule ext) (use assms in \<open>simp add: usb_sample_def algebra_simps\<close>)
  have "[0..<2 * Suc i] = 0 # Suc 0 # map (Suc \<circ> Suc) [0..<2 * i]"
    using map_add_upt [of 2 "2 * i"] by (simp add: upt_conv_Cons comp_def numeral_2_eq_2 del: upt_Suc)
  then show ?thesis
    using assms by (simp add: usb_frames_def shift comp_def usb_sample_def del: upt_Suc)
qed

lemma usb_loop_frames: "4 * channels * i \<le> length src \<Longrightarrow> usb_loop i channels src = Some (usb_frames channels src (2 * i))"
proof (induction i arbitrary: src)
  case 0
  then show ?case by (simp add: usb_frames_def)
next
  case (Suc i)
  then have l: "4 * channels \<le> length src" by simp
  have "usb_loop i channels (drop (4 * channels) src) = Some (usb_frames channels (drop (4 * channels) src) (2 * i))"
    using Suc.prems by (intro Suc.IH) simp
  then show ?case using l usb_frame_value [of channels src] usb_frame_value [of channels "drop (2 * channels) src"] usb_frames_step [OF l, of i]
    by (simp add: Let_def)
qed

lemma length_usb_frames: "length (usb_frames channels src k) = k * channels"
  by (simp add: usb_frames_def length_concat comp_def sum_list_triv)

lemma pcm_dsd_to_usb_frames:
  assumes "1 \<le> channels" "channels \<le> 8" "0 < length src" "length src < 2 ^ 32" "length src mod channels = 0"
    and "frames = length src div channels div 2"
  shows "\<exists>b. pcm_dsd_to_usb stale buffer channels src =
    Some (usb_frames channels src (2 * (frames div 2)) @ map stale [2 * (frames div 2) * channels..<frames * channels], b)"
proof -
  have "4 * (frames div 2) \<le> length src div channels" using assms(6) by linarith
  then have "channels * (4 * (frames div 2)) \<le> channels * (length src div channels)" by (rule mult_le_mono2)
  also have "\<dots> \<le> length src" by simp
  finally have "4 * channels * (frames div 2) \<le> length src" by (simp only: ac_simps)
  from usb_loop_frames [OF this] show ?thesis
    using assms by (simp add: pcm_dsd_to_usb_def length_usb_frames Let_def)
qed

end
