(* ===== verification/Pcm_Theorems.thy ===== *)
theory Pcm_Theorems
  imports Pcm_Export_Inv
begin

text \<open>
  Properties of the audio data: volume, mixing, conversion and export.
\<close>

unbundle bit_operations_syntax

section \<open>A sample environment\<close>

text \<open>Integers in place of floating-point numbers, and an export of packed samples in reverse byte order.\<close>

definition sample_floats :: "int float_ops" where
  "sample_floats = \<lparr>fl_of_int = (\<lambda>i. i), fl_add = (+), fl_mul = (*), fl_div = (div), fl_to_int = Some, fl_isnan = (\<lambda>x. x = -1), fl_sin_half_pi = (\<lambda>x. x)\<rparr>"

definition sample_export :: pcm_export_state where
  "sample_export = \<lparr>ex_dsd_buffer = pcm_buffer_init, ex_pack_buffer = pcm_buffer_init, ex_reverse_buffer = pcm_buffer_init, ex_channels = 2,
     ex_dsd_usb = False, ex_shift8 = False, ex_pack24 = True, ex_reverse_endian = 3\<rparr>"

section \<open>Sample values\<close>

text \<open>C25: Changing the volume of samples of an integer format succeeds without overflow, in all four
  formats and up to 64 times the full volume.  Every sample becomes a value of its format that is,
  before it is cut to the range of the format, within two units of the sample times the volume; below the full volume
  no sample becomes louder.\<close>

theorem pcm_volume_scales:
  assumes "int_samples buffer = Some (bits, xs)" "list_all (fits bits) xs" "0 < volume" "volume < 2 ^ 16" "volume \<noteq> PCM_VOLUME_1"
  shows "\<exists>buffer' ys state'. pcm_volume F buffer volume state = Some (True, buffer', state') \<and> int_samples buffer' = Some (bits, ys) \<and>
    list_all2 (\<lambda>x y. (\<exists>q. \<bar>1024 * q - x * volume\<bar> \<le> 2046 \<and> y = clamp bits q) \<and> (volume < PCM_VOLUME_1 \<longrightarrow> \<bar>y\<bar> \<le> \<bar>x\<bar>)) xs ys"
  using pcm_volume_scales_data [OF assms, of F state] unfolding scaled_def [abs_def] rounded_def by blast

theorem pcm_volume_scales_witness:
  "\<exists>buffer' ys state'. pcm_volume sample_floats (PCM_S16 [1000, -32768, 0]) 512 0 = Some (True, buffer', state') \<and>
    int_samples buffer' = Some (16, ys) \<and>
    list_all2 (\<lambda>x y. (\<exists>q. \<bar>1024 * q - x * 512\<bar> \<le> 2046 \<and> y = clamp 16 q) \<and> ((512 :: int) < PCM_VOLUME_1 \<longrightarrow> \<bar>y\<bar> \<le> \<bar>x\<bar>)) [1000, -32768, 0] ys"
  by (rule pcm_volume_scales) (simp_all add: fits_def)



section \<open>Conversion\<close>

text \<open>C24: Converting samples of an integer format to 16, 24 or 32 bits, to other channels and to another rate.  The
  converter returns data of the format asked for.  Each sample is requantised: scaled exactly to more bits,
  cut to 24 bits, or dithered to 16 bits with a bounded error; then each frame is averaged to the channels of the
  destination, and each frame of the result is the source frame at its time.  No arithmetic overflows and no access leaves
  the source.  The result has the right number of samples, in the range of the format.\<close>

theorem pcm_convert_converts:
  assumes "int_samples src = Some (bits, xs)" "list_all (fits bits) xs" "dither_ok (cs_dither state)"
    and "convertible src_format dest_format frames" "length xs = frames * unat (af_channels src_format)"
    and "af_format dest_format \<in> {SAMPLE_FORMAT_S16, SAMPLE_FORMAT_S24_P32, SAMPLE_FORMAT_S32}"
  shows "\<exists>ys dest state'. pcm_convert stale fstale F dsd state src_format src dest_format = Some (CONVERTED dest, state') \<and>
    data_format dest = af_format dest_format \<and> dither_ok (cs_dither state') \<and>
    list_all2 (requantised bits (bits_of (af_format dest_format))) xs ys \<and>
    int_samples dest = Some (bits_of (af_format dest_format), relayout src_format dest_format ys) \<and>
    list_all (fits (bits_of (af_format dest_format))) (relayout src_format dest_format ys) \<and>
    length (relayout src_format dest_format ys) = (if af_sample_rate src_format = af_sample_rate dest_format then frames
       else dest_frames frames (unat (af_sample_rate src_format)) (unat (af_sample_rate dest_format))) * unat (af_channels dest_format)"
proof -
  obtain ys dest state' where y: "pcm_convert stale fstale F dsd state src_format src dest_format = Some (CONVERTED dest, state')"
    "list_all2 (requantised bits (bits_of (af_format dest_format))) xs ys"
    "int_samples dest = Some (bits_of (af_format dest_format), relayout src_format dest_format ys)"
    "data_format dest = af_format dest_format" "dither_ok (cs_dither state')" using pcm_convert_integers [OF assms] by blast
  have "length ys = frames * unat (af_channels src_format)" using assms(5) list_all2_lengthD [OF y(2)] by simp
  from relayout_ok [OF assms(4) this list_all2_fits [OF y(2)]] y show ?thesis by blast
qed

theorem pcm_convert_converts_witness:
  "\<exists>ys dest state'. pcm_convert (\<lambda>_. 0) (\<lambda>_. 0) sample_floats (\<lambda>d _ _. None) (pcm_convert_init ()) (audio_format_init 22050 SAMPLE_FORMAT_S24_P32 2)
      (PCM_S24_P32 [100000, -100000, 256, 512]) (audio_format_init 44100 SAMPLE_FORMAT_S16 1) = Some (CONVERTED dest, state') \<and>
    list_all2 (requantised 24 16) [100000, -100000, 256, 512] ys \<and>
    int_samples dest = Some (16, relayout (audio_format_init 22050 SAMPLE_FORMAT_S24_P32 2) (audio_format_init 44100 SAMPLE_FORMAT_S16 1) ys) \<and>
    length (relayout (audio_format_init 22050 SAMPLE_FORMAT_S24_P32 2) (audio_format_init 44100 SAMPLE_FORMAT_S16 1) ys) = 4"
proof -
  let ?sf = "audio_format_init 22050 SAMPLE_FORMAT_S24_P32 2" and ?df = "audio_format_init 44100 SAMPLE_FORMAT_S16 1"
  let ?xs = "[100000, -100000, 256, 512] :: int list"
  have c: "convertible ?sf ?df 2" by (simp add: convertible_def audio_format_init_def channels_implemented_def dest_frames_def)
  have f: "list_all (fits 24) ?xs" by (simp add: fits_def)
  have d: "dither_ok (cs_dither (pcm_convert_init ()))" by (simp add: pcm_convert_init_def dither_init_ok)
  have "bits_of (af_format ?df) = 16" "dest_frames 2 22050 44100 = 4" by (simp_all add: bits_of_def audio_format_init_def dest_frames_def)
  with pcm_convert_converts [of "PCM_S24_P32 ?xs" 24 ?xs "pcm_convert_init ()" ?sf ?df 2 "\<lambda>_. 0" "\<lambda>_. 0" sample_floats "\<lambda>d _ _. None"] c f d
  show ?thesis by (fastforce simp: audio_format_init_def)
qed

section \<open>Bytes\<close>

text \<open>C27: Reversing the bytes of frames, whichever of the word-wise and the byte-wise routines is used, is
  equivalent to reversing each frame; doing it twice gives the original bytes.\<close>

theorem reverse_bytes_reverses:
  assumes "0 < frame_size" "length src mod frame_size = 0"
  shows "\<exists>dest. reverse_bytes src frame_size = Some dest \<and> dest = concat (map rev (chunks frame_size src)) \<and>
    reverse_bytes dest frame_size = Some src"
  using reverse_bytes_reversed [OF assms] reverse_bytes_reversed [OF assms(1), of "reversed frame_size src"]
    length_reversed [OF assms] reversed_reversed [OF assms] assms(2) by (simp add: reversed_def)

theorem reverse_bytes_reverses_witness:
  "\<exists>dest. reverse_bytes [1, 2, 3, 4, 5, 6, 7, 8] 4 = Some dest \<and> dest = concat (map rev (chunks 4 [1, 2, 3, 4, 5, 6, 7, 8])) \<and>
    reverse_bytes dest 4 = Some [1, 2, 3, 4, 5, 6, 7, 8]"
  by (rule reverse_bytes_reverses) simp_all

text \<open>Samples of 24 bits that are packed into three bytes each are unpacked as the same samples.\<close>

lemma pcm_pack_24_round_trip:
  assumes "list_all (fits 24) xs"
  shows "pcm_unpack_24 (pcm_pack_24 xs) = Some xs"
  using assms by (rule pack_24_round_trip)

text \<open>An export that was opened for a format other than DSD turns every sample into its bytes: the
  lower three of four bytes when samples are packed, shifted by one byte when that is asked for, and in reverse order
  when the byte order differs.  The size computed back from the exported bytes is that of the data.\<close>

lemma pcm_export_exports:
  assumes "pcm_export_open st0 format channels dsd_usb shift8 pack reverse_endian = Some st" "format \<noteq> SAMPLE_FORMAT_DSD"
    and "length data mod sample_format_size format = 0"
  shows "\<exists>dest st'. pcm_export stale st data = Some (dest, st') \<and> dest = concat (map (exported st) (chunks (sample_format_size format) data)) \<and>
    pcm_export_source_size st (length dest) = length data"
  using pcm_export_samples [OF pcm_export_open_ok [OF assms(1,2)] assms(3)] export_source_size [OF pcm_export_open_ok [OF assms(1,2)] assms(3)] by blast

text \<open>DSD over USB packs two bytes of each channel into a sample with alternating markers, but always two
  frames at a time: if the number of frames is odd, the last frame of the result is what the buffer held before.\<close>

lemma pcm_dsd_to_usb_stale:
  assumes "1 \<le> channels" "channels \<le> 8" "0 < length src" "length src < 2 ^ 32" "length src mod channels = 0"
    and "frames = length src div channels div 2"
  shows "\<exists>b. pcm_dsd_to_usb stale buffer channels src =
    Some (usb_frames channels src (2 * (frames div 2)) @ map stale [2 * (frames div 2) * channels..<frames * channels], b)"
  by (rule pcm_dsd_to_usb_frames) (fact assms)+

text \<open>The table of reversed bytes: the lookup gives the byte with its bits in reverse order.\<close>

lemma bit_reverse_reverses: "i < 8 \<Longrightarrow> bit (bit_reverse x) i = bit x (7 - i)"
  by (simp add: bit_reverse_rev8 bit_rev8)

end
