(* ===== verification/Directory.thy ===== *)
theory Directory
  imports Playlist List_Sort C_String Uri
begin

text \<open>
  The directory tree of the database, \<^verbatim>\<open>src/directory.c\<close> and \<^verbatim>\<open>src/directory.h\<close>, its lists of playlists
  (\<^verbatim>\<open>src/playlist_vector.c\<close>) and the order of songs (\<^verbatim>\<open>src/song_sort.c\<close>).

  A directory is a node of a tree: its identity, which its songs refer to as their parent (the path, and
  whether there is a parent), its attributes and its three linked lists.  A function that returns a
  \<^verbatim>\<open>struct directory *\<close> returns the subtree, with \<open>None\<close> for \<^verbatim>\<open>NULL\<close>; one that changes a directory returns
  it updated.  The database lock is not represented.  \<^verbatim>\<open>g_utf8_collate\<close> is the parameter \<open>collate\<close>.
\<close>

record playlist_metadata =
  pm_name :: string
  pm_mtime :: int

record dir_stat =
  ds_inode :: nat
  ds_device :: nat
  ds_have_stat :: bool

datatype node =
  Node (nd_dir: directory) (nd_mtime: int) (nd_stat: dir_stat)
    (nd_children: "node list") (nd_songs: "song list") (nd_playlists: "playlist_metadata list")

abbreviation slash :: char where
  "slash \<equiv> CHR ''/''"

section \<open>Loops over the tree\<close>

lemma for_each_cong [fundef_cong]:
  "xs = ys \<Longrightarrow> s = t \<Longrightarrow> (\<And>x s. x \<in> set ys \<Longrightarrow> f x s = g x s) \<Longrightarrow> for_each f xs s = for_each g ys t"
  by (induction ys arbitrary: xs s t) (auto split: bind_splits)

text \<open>A loop whose body may return an error, which ends it; \<open>ctx\<close> is the state of the callbacks.\<close>

fun visit_each :: "('a \<Rightarrow> 'c \<Rightarrow> playlist_result \<times> 'c) \<Rightarrow> 'a list \<Rightarrow> 'c \<Rightarrow> playlist_result \<times> 'c" where
  "visit_each f [] ctx = (MPD_SUCCESS, ctx)"
| "visit_each f (x # xs) ctx = (case f x ctx of (ret, ctx) \<Rightarrow>
     if ret \<noteq> MPD_SUCCESS then (ret, ctx) else visit_each f xs ctx)"

lemma visit_each_cong [fundef_cong]:
  "xs = ys \<Longrightarrow> c = d \<Longrightarrow> (\<And>x c. x \<in> set ys \<Longrightarrow> f x c = g x c) \<Longrightarrow> visit_each f xs c = visit_each g ys d"
  by (induction ys arbitrary: xs c d) (auto split: prod.splits)

text \<open>Replacing every element of a list by what a failing operation makes of it.\<close>

fun map_option_list :: "('a \<Rightarrow> 'b option) \<Rightarrow> 'a list \<Rightarrow> 'b list option" where
  "map_option_list f [] = Some []"
| "map_option_list f (x # xs) = do {
     y \<leftarrow> f x;
     ys \<leftarrow> map_option_list f xs;
     Some (y # ys)
   }"

lemma map_option_list_cong [fundef_cong]:
  "xs = ys \<Longrightarrow> (\<And>x. x \<in> set ys \<Longrightarrow> f x = g x) \<Longrightarrow> map_option_list f xs = map_option_list g ys"
  by (induction ys arbitrary: xs) (auto split: bind_splits)

section \<open>Directories\<close>

definition isRootDirectory :: "string \<Rightarrow> bool" where
  "isRootDirectory name \<longleftrightarrow> name = [] \<or> name = [slash]"

definition directory_new :: "string \<Rightarrow> directory option \<Rightarrow> node option" where
  "directory_new path parent = do {
     assert_that ((path = []) = (parent = None));
     Some (Node \<lparr>dir_path = path, dir_has_parent = (parent \<noteq> None)\<rparr> 0
       \<lparr>ds_inode = 0, ds_device = 0, ds_have_stat = False\<rparr> [] [] [])
   }"

definition directory_new_root :: "node option" where
  "directory_new_root = directory_new [] None"

definition directory_is_empty :: "node \<Rightarrow> bool" where
  "directory_is_empty d \<longleftrightarrow> nd_children d = [] \<and> nd_songs d = [] \<and> nd_playlists d = []"

fun directory_free :: "node \<Rightarrow> tag_lib \<Rightarrow> tag_lib option" where
  "directory_free (Node d m st children songs playlists) lib = do {
     lib \<leftarrow> for_each (\<lambda>song lib. song_free lib song) songs lib;
     for_each directory_free children lib
   }"

text \<open>\<open>parent\<close> is the directory that \<^verbatim>\<open>directory->parent\<close> points to.\<close>

definition directory_get_name :: "directory \<Rightarrow> directory \<Rightarrow> string option" where
  "directory_get_name parent d = do {
     assert_that (\<not> directory_is_root d);
     let sl = strrchr (dir_path d) slash;
     assert_that ((sl = None) = directory_is_root parent);
     Some (case sl of Some s \<Rightarrow> tl s | None \<Rightarrow> dir_path d)
   }"

definition add_child :: "node \<Rightarrow> node \<Rightarrow> node" where
  "add_child p c = Node (nd_dir p) (nd_mtime p) (nd_stat p) (nd_children p @ [c]) (nd_songs p) (nd_playlists p)"

text \<open>The new directory, which \<open>add_child\<close> puts at the end of the list of its parent.\<close>

definition directory_new_child :: "node \<Rightarrow> string \<Rightarrow> node option" where
  "directory_new_child parent name_utf8 = do {
     assert_that (name_utf8 \<noteq> []);
     directory_new
       (if directory_is_root (nd_dir parent) then name_utf8
        else build_db_filename (directory_get_path (nd_dir parent)) name_utf8)
       (Some (nd_dir parent))
   }"

fun get_child_loop :: "directory \<Rightarrow> string \<Rightarrow> node list \<Rightarrow> node option option" where
  "get_child_loop parent name [] = Some None"
| "get_child_loop parent name (c # cs) = do {
     n \<leftarrow> directory_get_name parent (nd_dir c);
     if n = name then Some (Some c) else get_child_loop parent name cs
   }"

definition directory_get_child :: "node \<Rightarrow> string \<Rightarrow> node option option" where
  "directory_get_child d name = get_child_loop (nd_dir d) name (nd_children d)"

definition directory_make_child :: "node \<Rightarrow> string \<Rightarrow> (node \<times> node) option" where
  "directory_make_child d name_utf8 = do {
     child \<leftarrow> directory_get_child d name_utf8;
     case child of
       Some c \<Rightarrow> Some (d, c)
     | None \<Rightarrow> do {
         c \<leftarrow> directory_new_child d name_utf8;
         Some (add_child d c, c)
       }
   }"

text \<open>A child is taken off the list of its parent and freed; it is told by its path.\<close>

definition directory_delete :: "node \<Rightarrow> node \<Rightarrow> tag_lib \<Rightarrow> (node \<times> tag_lib) option" where
  "directory_delete parent d lib = do {
     assert_that (dir_has_parent (nd_dir d));
     lib \<leftarrow> directory_free d lib;
     Some (Node (nd_dir parent) (nd_mtime parent) (nd_stat parent)
       (filter (\<lambda>c. nd_dir c \<noteq> nd_dir d) (nd_children parent)) (nd_songs parent) (nd_playlists parent), lib)
   }"

text \<open>
  Every child is pruned, and then deleted if nothing is left in it; a deleted child has no songs, so
  that freeing it does not change the pool of tag values.
\<close>

fun directory_prune_empty :: "node \<Rightarrow> node" where
  "directory_prune_empty (Node d m st children songs playlists) =
     Node d m st (filter (\<lambda>c. \<not> directory_is_empty c) (map directory_prune_empty children)) songs playlists"

lemma strchr_tl_shorter: "strchr p c = Some q \<Longrightarrow> length q - Suc 0 < length p"
  using strchr_length [of p c q] by (cases q) auto

text \<open>One step of the loop splits the name at its first slash.\<close>

function lookup_directory_loop :: "node \<Rightarrow> string \<Rightarrow> node option option" where
  "lookup_directory_loop d name =
     (let sl = strchr name slash;
          first = takeWhile (\<lambda>c. c \<noteq> slash) name
      in if sl = Some name then Some None
         else case directory_get_child d first of
             None \<Rightarrow> None
           | Some None \<Rightarrow> Some None
           | Some (Some child) \<Rightarrow>
               (case sl of None \<Rightarrow> Some (Some child) | Some s \<Rightarrow> lookup_directory_loop child (tl s)))"
  by pat_completeness auto
termination
  by (relation "measure (\<lambda>(d, name). length name)") (simp_all add: strchr_tl_shorter)

declare lookup_directory_loop.simps [simp del]

definition directory_lookup_directory :: "node \<Rightarrow> string \<Rightarrow> node option option" where
  "directory_lookup_directory d uri =
     (if isRootDirectory uri then Some (Some d) else lookup_directory_loop d uri)"

section \<open>Songs of a directory\<close>

definition directory_add_song :: "node \<Rightarrow> song \<Rightarrow> node option" where
  "directory_add_song d song = do {
     assert_that (s_parent song = Some (nd_dir d));
     Some (Node (nd_dir d) (nd_mtime d) (nd_stat d) (nd_children d) (nd_songs d @ [song]) (nd_playlists d))
   }"

text \<open>The song is on the list of its parent, from which its links take it off.\<close>

definition directory_remove_song :: "node \<Rightarrow> song \<Rightarrow> node option" where
  "directory_remove_song d song = do {
     assert_that (s_parent song = Some (nd_dir d));
     assert_that (list_ex (song_same song) (nd_songs d));
     Some (Node (nd_dir d) (nd_mtime d) (nd_stat d) (nd_children d)
       (filter (\<lambda>s. \<not> song_same song s) (nd_songs d)) (nd_playlists d))
   }"

fun get_song_loop :: "directory \<Rightarrow> string \<Rightarrow> song list \<Rightarrow> song option option" where
  "get_song_loop d name [] = Some None"
| "get_song_loop d name (s # songs) = do {
     assert_that (s_parent s = Some d);
     if s_uri s = name then Some (Some s) else get_song_loop d name songs
   }"

definition directory_get_song :: "node \<Rightarrow> string \<Rightarrow> song option option" where
  "directory_get_song d name_utf8 = get_song_loop (nd_dir d) name_utf8 (nd_songs d)"

definition directory_lookup_song :: "node \<Rightarrow> string \<Rightarrow> song option option" where
  "directory_lookup_song d uri = (case strrchr uri slash of
     Some base \<Rightarrow> do {
       dir \<leftarrow> directory_lookup_directory d (take (length uri - length base) uri);
       case dir of None \<Rightarrow> Some None | Some dir \<Rightarrow> directory_get_song dir (tl base)
     }
   | None \<Rightarrow> directory_get_song d uri)"

section \<open>Playlists of a directory\<close>

definition playlist_vector_find :: "playlist_metadata list \<Rightarrow> string \<Rightarrow> playlist_metadata option" where
  "playlist_vector_find pv name = List.find (\<lambda>pm. pm_name pm = name) pv"

definition playlist_vector_add :: "playlist_metadata list \<Rightarrow> string \<Rightarrow> int \<Rightarrow> playlist_metadata list" where
  "playlist_vector_add pv name mtime = pv @ [\<lparr>pm_name = name, pm_mtime = mtime\<rparr>]"

text \<open>The first entry of a name is the one that the loop finds and changes.\<close>

fun set_mtime :: "string \<Rightarrow> int \<Rightarrow> playlist_metadata list \<Rightarrow> playlist_metadata list" where
  "set_mtime name mtime [] = []"
| "set_mtime name mtime (pm # pv) =
     (if pm_name pm = name then pm\<lparr>pm_mtime := mtime\<rparr> # pv else pm # set_mtime name mtime pv)"

definition playlist_vector_update_or_add :: "playlist_metadata list \<Rightarrow> string \<Rightarrow> int \<Rightarrow> playlist_metadata list \<times> bool" where
  "playlist_vector_update_or_add pv name mtime = (case playlist_vector_find pv name of
     Some pm \<Rightarrow> if mtime = pm_mtime pm then (pv, False) else (set_mtime name mtime pv, True)
   | None \<Rightarrow> (playlist_vector_add pv name mtime, True))"

fun delete_playlist :: "string \<Rightarrow> playlist_metadata list \<Rightarrow> playlist_metadata list" where
  "delete_playlist name [] = []"
| "delete_playlist name (pm # pv) = (if pm_name pm = name then pv else pm # delete_playlist name pv)"

definition playlist_vector_remove :: "playlist_metadata list \<Rightarrow> string \<Rightarrow> playlist_metadata list \<times> bool" where
  "playlist_vector_remove pv name = (case playlist_vector_find pv name of
     None \<Rightarrow> (pv, False) | Some pm \<Rightarrow> (delete_playlist name pv, True))"

section \<open>Sorting\<close>

definition tag_get_value_checked :: "tag option \<Rightarrow> tag_type \<Rightarrow> string option option" where
  "tag_get_value_checked tag type = (case tag of None \<Rightarrow> Some None | Some t \<Rightarrow> tag_get_value t type)"

definition compare_utf8_string :: "(string \<Rightarrow> string \<Rightarrow> int) \<Rightarrow> string option \<Rightarrow> string option \<Rightarrow> int" where
  "compare_utf8_string collate a b = (case (a, b) of
     (None, None) \<Rightarrow> 0 | (None, _) \<Rightarrow> -1 | (_, None) \<Rightarrow> 1 | (Some a, Some b) \<Rightarrow> collate a b)"

text \<open>The difference of two \<^verbatim>\<open>long\<close> values is converted to the \<^verbatim>\<open>int\<close> that is returned.\<close>

definition long_to_int :: "int \<Rightarrow> int" where
  "long_to_int x = sint (word_of_int x :: u32)"

definition compare_number_string :: "string option \<Rightarrow> string option \<Rightarrow> int" where
  "compare_number_string a b =
     (let ai = (case a of None \<Rightarrow> 0 | Some s \<Rightarrow> fst (strtol s));
          bi = (case b of None \<Rightarrow> 0 | Some s \<Rightarrow> fst (strtol s))
      in if ai \<le> 0 then (if bi \<le> 0 then 0 else -1)
         else if bi \<le> 0 then 1 else long_to_int (ai - bi))"

definition first_value :: "tag option \<Rightarrow> tag_type \<Rightarrow> string option" where
  "first_value tag type = (case tag_get_value_checked tag type of Some v \<Rightarrow> v | None \<Rightarrow> None)"

text \<open>\<open>song_cmp\<close> only asks for the types album, disc and track, for which the assertion of \<^verbatim>\<open>tag_get_value\<close> holds.\<close>

definition song_cmp :: "(string \<Rightarrow> string \<Rightarrow> int) \<Rightarrow> song \<Rightarrow> song \<Rightarrow> int" where
  "song_cmp collate a b =
     (let ret = compare_utf8_string collate (first_value (s_tag a) TAG_ALBUM) (first_value (s_tag b) TAG_ALBUM)
      in if ret \<noteq> 0 then ret
         else let ret = compare_number_string (first_value (s_tag a) TAG_DISC) (first_value (s_tag b) TAG_DISC)
              in if ret \<noteq> 0 then ret
                 else let ret = compare_number_string (first_value (s_tag a) TAG_TRACK) (first_value (s_tag b) TAG_TRACK)
                      in if ret \<noteq> 0 then ret else collate (s_uri a) (s_uri b))"

definition song_list_sort :: "(string \<Rightarrow> string \<Rightarrow> int) \<Rightarrow> song list \<Rightarrow> song list option" where
  "song_list_sort collate songs = list_sort (song_cmp collate) songs"

definition directory_cmp :: "(string \<Rightarrow> string \<Rightarrow> int) \<Rightarrow> node \<Rightarrow> node \<Rightarrow> int" where
  "directory_cmp collate a b = collate (dir_path (nd_dir a)) (dir_path (nd_dir b))"

text \<open>Sorting loses no node and adds none, whatever the comparison does.\<close>

lemma carry_set:
  "carry cmp part lev cur = Some (part', lev') \<Longrightarrow> set (concat part') \<subseteq> set (concat part) \<union> set cur"
proof (induction cmp part lev cur rule: carry.induct)
  case (1 cmp part lev cur)
  show ?case
  proof (cases "lev < length part")
    case True
    have m: "set (concat (part[lev := x])) \<subseteq> set (concat part) \<union> set x" for x
      using set_update_subset_insert [of part lev x] by fastforce
    have "set (part ! lev) \<subseteq> set (concat part)" using nth_mem [OF True] by auto
    with True 1 m [of cur] m [of "[]"] show ?thesis
      by (subst (asm) (2) carry.simps) (force simp: set_merge split: if_splits)
  qed (use 1 in \<open>simp add: carry.simps\<close>)
qed

lemma sort_loop_set:
  "sort_loop cmp xs part ml = Some (part', ml') \<Longrightarrow> set (concat part') \<subseteq> set (concat part) \<union> set xs"
  by (induction cmp xs part ml rule: sort_loop.induct) (fastforce simp: bind_eq_Some_conv dest: carry_set)+

lemma merge_parts_set:
  "for_each (\<lambda>lev list. do {
      p \<leftarrow> aget part lev;
      Some (if p \<noteq> [] then merge cmp p list else list)
    }) is list = Some list' \<Longrightarrow> set list' \<subseteq> set (concat part) \<union> set list"
proof (induction "is" arbitrary: list)
  case (Cons i "is")
  then obtain p where p: "aget part i = Some p" by (auto simp: bind_eq_Some_conv)
  then have "set p \<subseteq> set (concat part)" by (auto simp: aget_eq_Some dest: nth_mem)
  with Cons.IH [of "if p \<noteq> [] then merge cmp p list else list"] Cons.prems p show ?case
    by (auto simp: set_merge split: if_splits)
qed simp

lemma list_sort_set:
  assumes "list_sort cmp xs = Some ys"
  shows "set ys \<subseteq> set xs"
proof (cases "xs = []")
  case False
  with assms obtain part ml list top where
    "sort_loop cmp xs (replicate (MAX_LIST_LENGTH_BITS + 1) []) 0 = Some (part, ml)"
    "set list \<subseteq> set (concat part)" "aget part ml = Some top" "ys = merge cmp top list"
    by (auto simp: list_sort_def merge_and_restore_back_links_def bind_eq_Some_conv dest!: merge_parts_set
      simp del: set_concat replicate_Suc)
  moreover have "set (concat (replicate n [] :: 'a list list)) = {}" for n by (induction n) simp_all
  with sort_loop_set [OF calculation(1)] have "set (concat part) \<subseteq> set xs" by (simp only: Un_empty_left)
  moreover have "set top \<subseteq> set (concat part)" using \<open>aget part ml = Some top\<close> by (auto simp: aget_eq_Some dest: nth_mem)
  ultimately show ?thesis by (auto simp: set_merge simp del: set_concat)
qed (use assms in \<open>simp add: list_sort_def\<close>)

function directory_sort :: "(string \<Rightarrow> string \<Rightarrow> int) \<Rightarrow> node \<Rightarrow> node option" where
  "directory_sort collate (Node d m st children songs playlists) =
     (case list_sort (directory_cmp collate) children of
        None \<Rightarrow> None
      | Some sorted_children \<Rightarrow> do {
          songs \<leftarrow> song_list_sort collate songs;
          children \<leftarrow> map_option_list (directory_sort collate) sorted_children;
          Some (Node d m st children songs playlists)
        })"
  by pat_completeness auto
termination
proof (relation "measure (\<lambda>(collate, d). size d)", goal_cases)
  case (2 collate d m st children songs playlists sorted_children x2 c)
  then have "c \<in> set children" using list_sort_set by blast
  then have "size c < Suc (size_list size children)" by (simp add: less_Suc_eq_le size_list_estimation')
  then show ?case by simp
qed simp

section \<open>Walking\<close>

text \<open>The three optional methods of a \<^verbatim>\<open>struct db_visitor\<close>.\<close>

record 'c db_visitor =
  dv_directory :: "(node \<Rightarrow> 'c \<Rightarrow> playlist_result \<times> 'c) option"
  dv_song :: "(song \<Rightarrow> 'c \<Rightarrow> playlist_result \<times> 'c) option"
  dv_playlist :: "(playlist_metadata \<Rightarrow> directory \<Rightarrow> 'c \<Rightarrow> playlist_result \<times> 'c) option"

definition call_directory :: "'c db_visitor \<Rightarrow> node \<Rightarrow> 'c \<Rightarrow> playlist_result \<times> 'c" where
  "call_directory v d ctx = (case dv_directory v of None \<Rightarrow> (MPD_SUCCESS, ctx) | Some f \<Rightarrow> f d ctx)"

fun directory_walk :: "node \<Rightarrow> bool \<Rightarrow> 'c db_visitor \<Rightarrow> 'c \<Rightarrow> playlist_result \<times> 'c" where
  "directory_walk (Node d m st children songs playlists) recursive v ctx =
     (case (case dv_song v of None \<Rightarrow> (MPD_SUCCESS, ctx) | Some f \<Rightarrow> visit_each f songs ctx) of (ret, ctx) \<Rightarrow>
      if ret \<noteq> MPD_SUCCESS then (ret, ctx)
      else case (case dv_playlist v of None \<Rightarrow> (MPD_SUCCESS, ctx)
          | Some f \<Rightarrow> visit_each (\<lambda>i. f i d) playlists ctx) of (ret, ctx) \<Rightarrow>
        if ret \<noteq> MPD_SUCCESS then (ret, ctx)
        else visit_each (\<lambda>child ctx. case call_directory v child ctx of (ret, ctx) \<Rightarrow>
            if ret \<noteq> MPD_SUCCESS then (ret, ctx)
            else if recursive then directory_walk child recursive v ctx else (MPD_SUCCESS, ctx)) children ctx)"

end
