(* ===== verification/Simple_Db.thy ===== *)
theory Simple_Db
  imports Directory Playqueue_Save Tokenizer
begin

text \<open>
  The database plugin that keeps the tree in a text file, \<^verbatim>\<open>src/db/simple_db_plugin.c\<close>.

  A file being written is the text written so far, a file being read the text that is left.  The record
  \<open>db_env\<close> has what the plugin asks of its surroundings: whether writing has failed so far (\<^verbatim>\<open>ferror\<close>), the
  character set, the version, the file system, and of GLib \<^verbatim>\<open>g_ascii_isspace\<close>, \<^verbatim>\<open>g_path_get_basename\<close>,
  \<^verbatim>\<open>g_path_get_dirname\<close> and \<^verbatim>\<open>g_utf8_collate\<close>.  The build is one without a compressed database.  Loading threads the tag
  library, the address of the next song and the file through; a function that loads returns the error code
  of the source, \<open>MPD_SUCCESS\<close> if there is none.
\<close>

record db_stat =
  st_is_dir :: bool
  st_is_reg :: bool
  st_mtime :: int

record db_env =
  dbe_tag :: tag_env
  dbe_isspace :: "char \<Rightarrow> bool"
  dbe_basename :: "string \<Rightarrow> string"
  dbe_dirname :: "string \<Rightarrow> string"
  dbe_collate :: "string \<Rightarrow> string \<Rightarrow> int"
  dbe_charset :: "string option"
  dbe_version :: string
  dbe_ferror :: "string \<Rightarrow> bool"
  dbe_fopen_read :: "string \<Rightarrow> string option"
  dbe_fopen_write :: "string \<Rightarrow> bool"
  dbe_access :: "string \<Rightarrow> string \<Rightarrow> bool"
  dbe_stat :: "string \<Rightarrow> db_stat option"

record load_state =
  ls_lib :: tag_lib
  ls_next :: nat
  ls_file :: string

abbreviation DB_FORMAT :: int where
  "DB_FORMAT \<equiv> 1"

text \<open>The lines of the file.\<close>

definition DIRECTORY_INFO_BEGIN :: string where
  "DIRECTORY_INFO_BEGIN = ''info_begin''"

definition DIRECTORY_INFO_END :: string where
  "DIRECTORY_INFO_END = ''info_end''"

definition DB_FORMAT_PREFIX :: string where
  "DB_FORMAT_PREFIX = ''format: ''"

definition DIRECTORY_MPD_VERSION :: string where
  "DIRECTORY_MPD_VERSION = ''mpd_version: ''"

definition DIRECTORY_FS_CHARSET :: string where
  "DIRECTORY_FS_CHARSET = ''fs_charset: ''"

definition DB_TAG_PREFIX :: string where
  "DB_TAG_PREFIX = ''tag: ''"

definition DIRECTORY_DIR :: string where
  "DIRECTORY_DIR = ''directory: ''"

definition DIRECTORY_MTIME :: string where
  "DIRECTORY_MTIME = ''mtime: ''"

definition DIRECTORY_BEGIN :: string where
  "DIRECTORY_BEGIN = ''begin: ''"

definition DIRECTORY_END :: string where
  "DIRECTORY_END = ''end: ''"

definition SONG_BEGIN :: string where
  "SONG_BEGIN = ''song_begin: ''"

definition SONG_END :: string where
  "SONG_END = ''song_end''"

definition PLAYLIST_META_BEGIN :: string where
  "PLAYLIST_META_BEGIN = ''playlist_begin: ''"

definition SONG_MTIME :: string where
  "SONG_MTIME = ''mtime''"

lemmas db_labels = DIRECTORY_INFO_BEGIN_def DIRECTORY_INFO_END_def DB_FORMAT_PREFIX_def DIRECTORY_MPD_VERSION_def DIRECTORY_FS_CHARSET_def DB_TAG_PREFIX_def DIRECTORY_DIR_def DIRECTORY_MTIME_def DIRECTORY_BEGIN_def DIRECTORY_END_def SONG_BEGIN_def
  SONG_END_def PLAYLIST_META_BEGIN_def SONG_MTIME_def

section \<open>Saving\<close>

definition save_item :: "tag_item \<Rightarrow> string \<Rightarrow> string option" where
  "save_item item fp = do {
     name \<leftarrow> aget tag_item_names (tag_type_number (ti_type item));
     Some (fp @ name @ '': '' @ ti_value item @ [nl])
   }"

definition simple_db_tag_save :: "string \<Rightarrow> tag \<Rightarrow> string option" where
  "simple_db_tag_save fp tag =
     for_each save_item (tag_items tag)
       (fp @ (if 0 \<le> tag_time tag then ''Time: '' @ show_int (tag_time tag) @ [nl] else []) @
             (if tag_has_playlist tag then ''Playlist: yes'' @ [nl] else []))"

definition simple_db_song_save :: "song \<Rightarrow> string \<Rightarrow> string option" where
  "simple_db_song_save song fp = do {
     let fp = fp @ SONG_BEGIN @ s_uri song @ [nl];
     let fp = fp @
       (if 0 < s_end_ms song
        then ''Range: '' @ show_nat (unat (s_start_ms song)) @ ''-'' @ show_nat (unat (s_end_ms song)) @ [nl]
        else if 0 < s_start_ms song then ''Range: '' @ show_nat (unat (s_start_ms song)) @ ''-'' @ [nl]
        else []);
     fp \<leftarrow> (case s_tag song of None \<Rightarrow> Some fp | Some tag \<Rightarrow> simple_db_tag_save fp tag);
     Some (fp @ SONG_MTIME @ '': '' @ show_int (s_mtime song) @ [nl] @ SONG_END @ [nl])
   }"

definition simple_db_playlist_vector_save :: "string \<Rightarrow> playlist_metadata list \<Rightarrow> string" where
  "simple_db_playlist_vector_save fp pv =
     foldl (\<lambda>fp pm. fp @ PLAYLIST_META_BEGIN @ pm_name pm @ [nl] @ ''mtime: '' @ show_int (pm_mtime pm) @ [nl] @
       ''playlist_end'' @ [nl]) fp pv"

text \<open>The loop over the children ends early when writing has failed, and nothing more is written then.\<close>

fun save_children :: "db_env \<Rightarrow> (node \<Rightarrow> string \<Rightarrow> string option) \<Rightarrow> node list \<Rightarrow> string \<Rightarrow> (bool \<times> string) option" where
  "save_children E save [] fp = Some (True, fp)"
| "save_children E save (cur # cs) fp = do {
     fp \<leftarrow> save cur (fp @ DIRECTORY_DIR @ dbe_basename E (dir_path (nd_dir cur)) @ [nl]);
     if dbe_ferror E fp then Some (False, fp) else save_children E save cs fp
   }"

lemma save_children_cong [fundef_cong]:
  "xs = ys \<Longrightarrow> s = t \<Longrightarrow> (\<And>x s. x \<in> set ys \<Longrightarrow> f x s = g x s) \<Longrightarrow> save_children E f xs s = save_children E g ys t"
  by (induction ys arbitrary: xs s t) (auto split: bind_splits)

fun simple_db_directory_save :: "db_env \<Rightarrow> node \<Rightarrow> string \<Rightarrow> string option" where
  "simple_db_directory_save E (Node d m st children songs playlists) fp = do {
     let fp = (if directory_is_root d then fp
       else fp @ DIRECTORY_MTIME @ show_nat (nat (m mod 2 ^ 64)) @ [nl] @ DIRECTORY_BEGIN @ directory_get_path d @ [nl]);
     (go_on, fp) \<leftarrow> save_children E (simple_db_directory_save E) children fp;
     if \<not> go_on then Some fp
     else do {
       fp \<leftarrow> for_each simple_db_song_save songs fp;
       let fp = simple_db_playlist_vector_save fp playlists;
       Some (if directory_is_root d then fp else fp @ DIRECTORY_END @ directory_get_path d @ [nl])
     }
   }"

definition tag_line :: "tag_lib \<Rightarrow> nat \<Rightarrow> string \<Rightarrow> string option" where
  "tag_line lib i fp = do {
     ignored \<leftarrow> aget (tl_ignore lib) i;
     name \<leftarrow> aget tag_item_names i;
     Some (if ignored then fp else fp @ DB_TAG_PREFIX @ name @ [nl])
   }"

text \<open>A character set that is not known is printed by the C library as \<^verbatim>\<open>(null)\<close>.\<close>

definition simple_db_save_internal :: "db_env \<Rightarrow> tag_lib \<Rightarrow> node \<Rightarrow> string \<Rightarrow> string option" where
  "simple_db_save_internal E lib music_root fp = do {
     let fp = fp @ DIRECTORY_INFO_BEGIN @ [nl] @ DB_FORMAT_PREFIX @ show_int DB_FORMAT @ [nl] @
       DIRECTORY_MPD_VERSION @ dbe_version E @ [nl] @
       DIRECTORY_FS_CHARSET @ (case dbe_charset E of None \<Rightarrow> ''(null)'' | Some c \<Rightarrow> c) @ [nl];
     fp \<leftarrow> for_each (tag_line lib) [0..<18] fp;
     simple_db_directory_save E music_root (fp @ DIRECTORY_INFO_END @ [nl])
   }"

section \<open>Loading songs and playlists\<close>

text \<open>
  A line is split at its first colon; \<open>None\<close> is a line without one, or without a name in front of it.
\<close>

definition split_line :: "(char \<Rightarrow> bool) \<Rightarrow> string \<Rightarrow> (string \<times> string) option" where
  "split_line isspace line = (case strchr line CHR '':'' of
     None \<Rightarrow> None
   | Some colon \<Rightarrow> if colon = line then None
       else Some (takeWhile (\<lambda>c. c \<noteq> CHR '':'') line, strchug_fast isspace (tl colon)))"

text \<open>The first line of a tag creates it and begins to fill it.\<close>

definition song_tag :: "tag_lib \<Rightarrow> song \<Rightarrow> (tag_lib \<times> tag) option" where
  "song_tag lib song = (case s_tag song of None \<Rightarrow> tag_begin_add lib tag_new | Some tag \<Rightarrow> Some (lib, tag))"

definition song_end_tag :: "tag_lib \<Rightarrow> song \<Rightarrow> (tag_lib \<times> song) option" where
  "song_end_tag lib song = (case s_tag song of
     None \<Rightarrow> Some (lib, song)
   | Some tag \<Rightarrow> do {
       (lib, tag) \<leftarrow> tag_end_add lib tag;
       Some (lib, song\<lparr>s_tag := Some tag\<rparr>)
     })"

text \<open>One line of a song; the inner \<open>None\<close> is an unknown line.\<close>

definition song_load_line :: "db_env \<Rightarrow> string \<Rightarrow> tag_lib \<Rightarrow> song \<Rightarrow> (tag_lib \<times> song) option option" where
  "song_load_line E line lib song = (case split_line (dbe_isspace E) line of
     None \<Rightarrow> Some None
   | Some (name, v) \<Rightarrow>
       if tag_name_parse name \<noteq> TAG_NUM_OF_ITEM_TYPES then do {
         (lib, tag) \<leftarrow> song_tag lib song;
         (lib, tag) \<leftarrow> tag_add_item_n (dbe_tag E) lib tag (tag_name_parse name) v;
         Some (Some (lib, song\<lparr>s_tag := Some tag\<rparr>))
       }
       else if name = ''Time'' then do {
         (lib, tag) \<leftarrow> song_tag lib song;
         Some (Some (lib, song\<lparr>s_tag := Some (tag\<lparr>tag_time := atoi v\<rparr>)\<rparr>))
       }
       else if name = ''Playlist'' then do {
         (lib, tag) \<leftarrow> song_tag lib song;
         Some (Some (lib, song\<lparr>s_tag := Some (tag\<lparr>tag_has_playlist := (v = ''yes'')\<rparr>)\<rparr>))
       }
       else if name = SONG_MTIME then Some (Some (lib, song\<lparr>s_mtime := atoi v\<rparr>))
       else if name = ''Range'' then
         let (start, rest) = strtoul v;
             song = song\<lparr>s_start_ms := of_nat start\<rparr>
         in Some (Some (lib, if rest \<noteq> [] \<and> hd rest = CHR ''-''
              then song\<lparr>s_end_ms := of_nat (fst (strtoul (tl rest)))\<rparr> else song))
       else Some None)"

lemma read_text_line_shorter:
  "read_text_line file = Some (Some line, rest) \<Longrightarrow> length rest < length file"
proof -
  assume "read_text_line file = Some (Some line, rest)"
  then have "file \<noteq> []" "rest = tl (dropWhile (\<lambda>c. c \<noteq> nl) file)"
    by (auto simp: read_text_line_def bind_eq_Some_conv Let_def split: if_splits)
  moreover have "length (dropWhile (\<lambda>c. c \<noteq> nl) file) \<le> length file" by (rule length_dropWhile_le)
  ultimately show "length rest < length file" by (cases "dropWhile (\<lambda>c. c \<noteq> nl) file") auto
qed

function song_load_loop :: "db_env \<Rightarrow> tag_lib \<Rightarrow> song \<Rightarrow> string \<Rightarrow> (song option \<times> tag_lib \<times> string) option" where
  "song_load_loop E lib song file = (case read_text_line file of
     None \<Rightarrow> None
   | Some (None, file) \<Rightarrow> do {
       (lib, song) \<leftarrow> song_end_tag lib song;
       Some (Some song, lib, file)
     }
   | Some (Some line, file) \<Rightarrow>
       if line = SONG_END then do {
         (lib, song) \<leftarrow> song_end_tag lib song;
         Some (Some song, lib, file)
       }
       else case song_load_line E line lib song of
           None \<Rightarrow> None
         | Some None \<Rightarrow> do {
             (lib, song) \<leftarrow> song_end_tag lib song;
             lib \<leftarrow> song_free lib song;
             Some (None, lib, file)
           }
         | Some (Some (lib, song)) \<Rightarrow> song_load_loop E lib song file)"
  by pat_completeness auto
termination
  by (relation "measure (\<lambda>(E, lib, song, file). length file)") (auto dest: read_text_line_shorter)

declare song_load_loop.simps [simp del]

text \<open>\<open>None\<close> in the first component is the error \<open>DB_MALFORM\<close>.\<close>

definition simple_db_song_load ::
    "db_env \<Rightarrow> load_state \<Rightarrow> directory option \<Rightarrow> string \<Rightarrow> (song option \<times> load_state) option" where
  "simple_db_song_load E st parent uri = do {
     song \<leftarrow> (case parent of
         Some d \<Rightarrow> song_file_new (ls_next st) uri (Some d)
       | None \<Rightarrow> song_remote_new (ls_next st) uri);
     (song, lib, file) \<leftarrow> song_load_loop E (ls_lib st) song (ls_file st);
     Some (song, \<lparr>ls_lib = lib, ls_next = ls_next st + 1, ls_file = file\<rparr>)
   }"

function playlist_metadata_loop :: "db_env \<Rightarrow> int \<Rightarrow> string \<Rightarrow> (int option \<times> string) option" where
  "playlist_metadata_loop E mtime file = (case read_text_line file of
     None \<Rightarrow> None
   | Some (None, file) \<Rightarrow> Some (Some mtime, file)
   | Some (Some line, file) \<Rightarrow>
       if line = ''playlist_end'' then Some (Some mtime, file)
       else case split_line (dbe_isspace E) line of
           None \<Rightarrow> Some (None, file)
         | Some (name, v) \<Rightarrow>
             if name = ''mtime'' then playlist_metadata_loop E (fst (strtol v)) file else Some (None, file))"
  by pat_completeness auto
termination
  by (relation "measure (\<lambda>(E, mtime, file). length file)") (auto dest: read_text_line_shorter)

declare playlist_metadata_loop.simps [simp del]

definition playlist_metadata_load ::
    "db_env \<Rightarrow> playlist_metadata list \<Rightarrow> string \<Rightarrow> string \<Rightarrow> (playlist_result \<times> playlist_metadata list \<times> string) option" where
  "playlist_metadata_load E pv name file = do {
     (mtime, file) \<leftarrow> playlist_metadata_loop E 0 file;
     Some (case mtime of
         None \<Rightarrow> (DB_MALFORM, pv, file)
       | Some mtime \<Rightarrow> (MPD_SUCCESS, fst (playlist_vector_update_or_add pv name mtime), file))
   }"

section \<open>Loading directories\<close>

text \<open>The conversion of an unsigned number of 64 bits to a \<^verbatim>\<open>time_t\<close>.\<close>

definition to_time_t :: "nat \<Rightarrow> int" where
  "to_time_t n = (if n < 2 ^ 63 then int n else int n - 2 ^ 64)"

definition set_dir_mtime :: "int \<Rightarrow> node \<Rightarrow> node" where
  "set_dir_mtime m d = Node (nd_dir d) m (nd_stat d) (nd_children d) (nd_songs d) (nd_playlists d)"

definition set_playlists :: "playlist_metadata list \<Rightarrow> node \<Rightarrow> node" where
  "set_playlists pv d = Node (nd_dir d) (nd_mtime d) (nd_stat d) (nd_children d) (nd_songs d) pv"

text \<open>A directory that could not be loaded is taken off its parent, to which it is added when it is complete, and freed.\<close>

definition discard :: "playlist_result \<Rightarrow> node \<Rightarrow> node \<Rightarrow> load_state \<Rightarrow> (playlist_result \<times> node \<times> load_state) option" where
  "discard ret parent d st = do {
     lib \<leftarrow> directory_free d (ls_lib st);
     Some (ret, parent, st\<lparr>ls_lib := lib\<rparr>)
   }"

definition read_line :: "load_state \<Rightarrow> (string option \<times> load_state) option" where
  "read_line st = do {
     (line, file) \<leftarrow> read_text_line (ls_file st);
     Some (line, st\<lparr>ls_file := file\<rparr>)
   }"

text \<open>
  The two functions call each other.  Every call reads a line first, so the number of lines, and
  hence the length of the file, bounds the depth of the recursion: \<open>n\<close> is that bound.
\<close>

fun simple_db_directory_load :: "nat \<Rightarrow> db_env \<Rightarrow> node \<Rightarrow> load_state \<Rightarrow> (playlist_result \<times> node \<times> load_state) option"
  and simple_db_directory_load_subdir ::
    "nat \<Rightarrow> db_env \<Rightarrow> node \<Rightarrow> string \<Rightarrow> load_state \<Rightarrow> (playlist_result \<times> node \<times> load_state) option" where
  "simple_db_directory_load 0 E d st = None"
| "simple_db_directory_load (Suc n) E d st = do {
     (line, st) \<leftarrow> read_line st;
     case line of
       None \<Rightarrow> Some (MPD_SUCCESS, d, st)
     | Some line \<Rightarrow>
         if prefix DIRECTORY_END line then Some (MPD_SUCCESS, d, st)
         else if prefix DIRECTORY_DIR line then do {
           (ret, d, st) \<leftarrow> simple_db_directory_load_subdir n E d (drop (length DIRECTORY_DIR) line) st;
           if ret \<noteq> MPD_SUCCESS then Some (ret, d, st) else simple_db_directory_load n E d st
         }
         else if prefix SONG_BEGIN line then do {
           found \<leftarrow> directory_get_song d (drop (length SONG_BEGIN) line);
           if found \<noteq> None then Some (DB_DUP, d, st)
           else do {
             (song, st) \<leftarrow> simple_db_song_load E st (Some (nd_dir d)) (drop (length SONG_BEGIN) line);
             case song of
               None \<Rightarrow> Some (DB_MALFORM, d, st)
             | Some song \<Rightarrow> do {
                 d \<leftarrow> directory_add_song d song;
                 simple_db_directory_load n E d st
               }
           }
         }
         else if prefix PLAYLIST_META_BEGIN line then do {
           (ret, pv, file) \<leftarrow> playlist_metadata_load E (nd_playlists d) (drop (length PLAYLIST_META_BEGIN) line) (ls_file st);
           let d = set_playlists pv d;
           let st = st\<lparr>ls_file := file\<rparr>;
           if ret \<noteq> MPD_SUCCESS then Some (ret, d, st) else simple_db_directory_load n E d st
         }
         else Some (DB_MALFORM, d, st)
   }"
| "simple_db_directory_load_subdir n E parent name st = do {
     found \<leftarrow> directory_get_child parent name;
     if found \<noteq> None then Some (DB_DUP, parent, st)
     else do {
       d \<leftarrow> directory_new_child parent name;
       (line, st) \<leftarrow> read_line st;
       case line of
         None \<Rightarrow> discard DB_CORRUPT parent d st
       | Some line \<Rightarrow> do {
           (line, d, st) \<leftarrow> (if prefix DIRECTORY_MTIME line then do {
               (line2, st) \<leftarrow> read_line st;
               Some (line2, set_dir_mtime (to_time_t (fst (strtoul (drop (length DIRECTORY_MTIME) line)))) d, st)
             }
             else Some (Some line, d, st));
           case line of
             None \<Rightarrow> discard DB_CORRUPT parent d st
           | Some line \<Rightarrow>
               if \<not> prefix DIRECTORY_BEGIN line then discard DB_MALFORM parent d st
               else do {
                 (ret, d, st) \<leftarrow> simple_db_directory_load n E d st;
                 if ret \<noteq> MPD_SUCCESS then discard ret parent d st
                 else Some (MPD_SUCCESS, add_child parent d, st)
               }
         }
     }
   }"

section \<open>Loading the database\<close>

record db_info =
  di_format :: int
  di_charset :: bool
  di_version :: bool
  di_tags :: "bool list"

text \<open>One line of the header; the inner \<open>None\<close> is a line that makes the database malformed.\<close>

definition info_line :: "db_env \<Rightarrow> string \<Rightarrow> db_info \<Rightarrow> db_info option option" where
  "info_line E line info =
     (if prefix DB_FORMAT_PREFIX line then Some (Some (info\<lparr>di_format := atoi (drop (length DB_FORMAT_PREFIX) line)\<rparr>))
      else if prefix DIRECTORY_MPD_VERSION line then
        Some (if di_version info then None else Some (info\<lparr>di_version := True\<rparr>))
      else if prefix DIRECTORY_FS_CHARSET line then
        Some (if di_charset info then None
              else case dbe_charset E of
                  None \<Rightarrow> Some (info\<lparr>di_charset := True\<rparr>)
                | Some old_charset \<Rightarrow>
                    if drop (length DIRECTORY_FS_CHARSET) line \<noteq> old_charset then None else Some (info\<lparr>di_charset := True\<rparr>))
      else if prefix DB_TAG_PREFIX line then
        let t = tag_name_parse (drop (length DB_TAG_PREFIX) line)
        in if t = TAG_NUM_OF_ITEM_TYPES then Some None
           else do {
             tags \<leftarrow> aset (di_tags info) (tag_type_number t) True;
             Some (Some (info\<lparr>di_tags := tags\<rparr>))
           }
      else Some None)"

function info_loop :: "db_env \<Rightarrow> db_info \<Rightarrow> string \<Rightarrow> (db_info option \<times> string) option" where
  "info_loop E info file = (case read_text_line file of
     None \<Rightarrow> None
   | Some (None, file) \<Rightarrow> Some (Some info, file)
   | Some (Some line, file) \<Rightarrow>
       if line = DIRECTORY_INFO_END then Some (Some info, file)
       else case info_line E line info of
           None \<Rightarrow> None
         | Some None \<Rightarrow> Some (None, file)
         | Some (Some info) \<Rightarrow> info_loop E info file)"
  by pat_completeness auto
termination
  by (relation "measure (\<lambda>(E, info, file). length file)") (auto dest: read_text_line_shorter)

declare info_loop.simps [simp del]

definition tags_listed :: "tag_lib \<Rightarrow> db_info \<Rightarrow> bool option" where
  "tags_listed lib info = for_each (\<lambda>i ok. do {
       ignored \<leftarrow> aget (tl_ignore lib) i;
       listed \<leftarrow> aget (di_tags info) i;
       Some (ok \<and> (ignored \<or> listed))
     }) [0..<18] True"

definition simple_db_load_internal ::
    "db_env \<Rightarrow> node \<Rightarrow> load_state \<Rightarrow> (playlist_result \<times> node \<times> load_state) option" where
  "simple_db_load_internal E music_root st = do {
     (line, st) \<leftarrow> read_line st;
     if line \<noteq> Some DIRECTORY_INFO_BEGIN then Some (DB_CORRUPT, music_root, st)
     else do {
       (info, file) \<leftarrow> info_loop E \<lparr>di_format = 0, di_charset = False, di_version = False, di_tags = replicate 18 False\<rparr>
         (ls_file st);
       let st = st\<lparr>ls_file := file\<rparr>;
       case info of
         None \<Rightarrow> Some (DB_MALFORM, music_root, st)
       | Some info \<Rightarrow>
           if di_format info \<noteq> DB_FORMAT then Some (DB_MALFORM, music_root, st)
           else do {
             ok \<leftarrow> tags_listed (ls_lib st) info;
             if \<not> ok then Some (DB_MALFORM, music_root, st)
             else simple_db_directory_load (Suc (length file)) E music_root st
           }
     }
   }"

section \<open>The plugin\<close>

text \<open>\<open>sdb_root\<close> is \<open>None\<close> while the pointer does not point to a tree.\<close>

record simple_db =
  sdb_path :: string
  sdb_root :: "node option"
  sdb_mtime :: int

text \<open>A database block without a path is an error; the root and the time of a new plugin are not set yet.\<close>

definition simple_db_init :: "string option \<Rightarrow> simple_db option" where
  "simple_db_init path = map_option (\<lambda>p. \<lparr>sdb_path = p, sdb_root = None, sdb_mtime = 0\<rparr>) path"

definition simple_db_check :: "db_env \<Rightarrow> simple_db \<Rightarrow> playlist_result" where
  "simple_db_check E db =
     (if \<not> dbe_access E (sdb_path db) ''F'' then
        let dirPath = dbe_dirname E (sdb_path db)
        in case dbe_stat E dirPath of
             None \<Rightarrow> DB_ACCESS
           | Some st \<Rightarrow> if \<not> st_is_dir st then DB_ACCESS
               else if \<not> dbe_access E dirPath ''XW'' then DB_ACCESS else MPD_SUCCESS
      else case dbe_stat E (sdb_path db) of
          None \<Rightarrow> DB_ACCESS
        | Some st \<Rightarrow> if \<not> st_is_reg st then DB_ACCESS
            else if \<not> dbe_access E (sdb_path db) ''RW'' then DB_ACCESS else MPD_SUCCESS)"

definition file_mtime :: "db_env \<Rightarrow> simple_db \<Rightarrow> simple_db" where
  "file_mtime E db = (case dbe_stat E (sdb_path db) of None \<Rightarrow> db | Some st \<Rightarrow> db\<lparr>sdb_mtime := st_mtime st\<rparr>)"

definition simple_db_load ::
    "db_env \<Rightarrow> simple_db \<Rightarrow> tag_lib \<Rightarrow> nat \<Rightarrow> (playlist_result \<times> simple_db \<times> tag_lib \<times> nat) option" where
  "simple_db_load E db lib nxt = do {
     root \<leftarrow> sdb_root db;
     case dbe_fopen_read E (sdb_path db) of
       None \<Rightarrow> Some (DB_ERRNO, db, lib, nxt)
     | Some file \<Rightarrow> do {
         (ret, root, st) \<leftarrow> simple_db_load_internal E root \<lparr>ls_lib = lib, ls_next = nxt, ls_file = file\<rparr>;
         let db = db\<lparr>sdb_root := Some root\<rparr>;
         Some (ret, if ret \<noteq> MPD_SUCCESS then db else file_mtime E db, ls_lib st, ls_next st)
       }
   }"

text \<open>A database that cannot be loaded is replaced by an empty one, if its file could be written.\<close>

definition simple_db_open ::
    "db_env \<Rightarrow> simple_db \<Rightarrow> tag_lib \<Rightarrow> nat \<Rightarrow> (playlist_result \<times> simple_db \<times> tag_lib \<times> nat) option" where
  "simple_db_open E db lib nxt = do {
     root \<leftarrow> directory_new_root;
     (ret, db, lib, nxt) \<leftarrow> simple_db_load E (db\<lparr>sdb_root := Some root, sdb_mtime := 0\<rparr>) lib nxt;
     if ret \<noteq> MPD_SUCCESS then do {
       root \<leftarrow> sdb_root db;
       lib \<leftarrow> directory_free root lib;
       let db = db\<lparr>sdb_root := None\<rparr>;
       let ret = simple_db_check E db;
       if ret \<noteq> MPD_SUCCESS then Some (ret, db, lib, nxt)
       else do {
         root \<leftarrow> directory_new_root;
         Some (MPD_SUCCESS, db\<lparr>sdb_root := Some root\<rparr>, lib, nxt)
       }
     }
     else Some (MPD_SUCCESS, db, lib, nxt)
   }"

definition simple_db_close :: "simple_db \<Rightarrow> tag_lib \<Rightarrow> (simple_db \<times> tag_lib) option" where
  "simple_db_close db lib = do {
     root \<leftarrow> sdb_root db;
     lib \<leftarrow> directory_free root lib;
     Some (db\<lparr>sdb_root := None\<rparr>, lib)
   }"

definition simple_db_lookup_directory :: "simple_db \<Rightarrow> string \<Rightarrow> node option option" where
  "simple_db_lookup_directory db uri = do {
     root \<leftarrow> sdb_root db;
     directory_lookup_directory root uri
   }"

definition simple_db_get_song :: "simple_db \<Rightarrow> string \<Rightarrow> song option option" where
  "simple_db_get_song db uri = do {
     root \<leftarrow> sdb_root db;
     directory_lookup_song root uri
   }"

definition simple_db_visit ::
    "simple_db \<Rightarrow> string \<Rightarrow> bool \<Rightarrow> 'c db_visitor \<Rightarrow> 'c \<Rightarrow> (playlist_result \<times> 'c) option" where
  "simple_db_visit db uri recursive v ctx = do {
     dir \<leftarrow> simple_db_lookup_directory db uri;
     case dir of
       None \<Rightarrow> (case dv_song v of
           None \<Rightarrow> Some (DB_NOENT, ctx)
         | Some f \<Rightarrow> do {
             song \<leftarrow> simple_db_get_song db uri;
             Some (case song of None \<Rightarrow> (DB_NOENT, ctx) | Some s \<Rightarrow> f s ctx)
           })
     | Some d \<Rightarrow>
         (case (if recursive then call_directory v d ctx else (MPD_SUCCESS, ctx)) of (ret, ctx) \<Rightarrow>
           Some (if ret \<noteq> MPD_SUCCESS then (ret, ctx) else directory_walk d recursive v ctx))
   }"

definition simple_db_get_root :: "simple_db \<Rightarrow> node option" where
  "simple_db_get_root db = sdb_root db"

definition simple_db_get_mtime :: "simple_db \<Rightarrow> int option" where
  "simple_db_get_mtime db = do {
     root \<leftarrow> sdb_root db;
     Some (sdb_mtime db)
   }"

text \<open>Saving prunes and sorts the tree first; the text of the file is returned with the result.\<close>

definition simple_db_save ::
    "db_env \<Rightarrow> tag_lib \<Rightarrow> simple_db \<Rightarrow> (playlist_result \<times> string option \<times> simple_db) option" where
  "simple_db_save E lib db = do {
     root \<leftarrow> sdb_root db;
     root \<leftarrow> directory_sort (dbe_collate E) (directory_prune_empty root);
     let db = db\<lparr>sdb_root := Some root\<rparr>;
     if \<not> dbe_fopen_write E (sdb_path db) then Some (DB_ACCESS, None, db)
     else do {
       fp \<leftarrow> simple_db_save_internal E lib root [];
       if dbe_ferror E fp then Some (DB_ACCESS, Some fp, db)
       else Some (MPD_SUCCESS, Some fp, file_mtime E db)
     }
   }"

end
