(* ===== verification/Directory_Inv.thy ===== *)
theory Directory_Inv
  imports Directory
begin

text \<open>
  What the operations of the directory tree promise: walking calls the visitor for the entries of a
  tree in a fixed order, looking up finds exactly what is in a well-formed tree, pruning and sorting
  keep its contents.
\<close>

section \<open>The entries of a tree\<close>

datatype entry = ESong song | EPlaylist playlist_metadata directory | EDirectory node

fun entries :: "bool \<Rightarrow> node \<Rightarrow> entry list" where
  "entries recursive (Node d m st cs ss ps) =
     map ESong ss @ map (\<lambda>p. EPlaylist p d) ps @
     concat (map (\<lambda>c. EDirectory c # (if recursive then entries recursive c else [])) cs)"

definition visit_entry :: "'c db_visitor \<Rightarrow> entry \<Rightarrow> 'c \<Rightarrow> playlist_result \<times> 'c" where
  "visit_entry v e ctx = (case e of
     ESong s \<Rightarrow> (case dv_song v of None \<Rightarrow> (MPD_SUCCESS, ctx) | Some f \<Rightarrow> f s ctx)
   | EPlaylist p d \<Rightarrow> (case dv_playlist v of None \<Rightarrow> (MPD_SUCCESS, ctx) | Some f \<Rightarrow> f p d ctx)
   | EDirectory c \<Rightarrow> call_directory v c ctx)"

lemma visit_each_append:
  "visit_each f (xs @ ys) ctx = (case visit_each f xs ctx of (ret, ctx) \<Rightarrow>
     if ret \<noteq> MPD_SUCCESS then (ret, ctx) else visit_each f ys ctx)"
  by (induction xs arbitrary: ctx) (auto split: prod.splits)

lemma visit_each_concat:
  "visit_each f (concat xss) ctx = visit_each (visit_each f) xss ctx"
  by (induction xss arbitrary: ctx) (auto simp: visit_each_append split: prod.splits)

lemma visit_each_map: "visit_each f (map g xs) ctx = visit_each (\<lambda>x. f (g x)) xs ctx"
  by (induction xs arbitrary: ctx) (auto split: prod.splits)

lemma visit_each_skip: "visit_each (\<lambda>x ctx. (MPD_SUCCESS, ctx)) xs ctx = (MPD_SUCCESS, ctx)"
  by (induction xs) auto

lemma directory_walk_entries:
  "directory_walk d recursive v ctx = visit_each (visit_entry v) (entries recursive d) ctx"
proof (induction d arbitrary: ctx)
  case (Node d m st cs ss ps)
  have s: "visit_each (visit_entry v) (map ESong ss) c =
      (case dv_song v of None \<Rightarrow> (MPD_SUCCESS, c) | Some f \<Rightarrow> visit_each f ss c)" for c
    by (cases "dv_song v") (simp_all add: visit_each_map visit_entry_def [abs_def] visit_each_skip)
  have p: "visit_each (visit_entry v) (map (\<lambda>p. EPlaylist p d) ps) c =
      (case dv_playlist v of None \<Rightarrow> (MPD_SUCCESS, c) | Some f \<Rightarrow> visit_each (\<lambda>i. f i d) ps c)" for c
    by (cases "dv_playlist v") (simp_all add: visit_each_map visit_entry_def [abs_def] visit_each_skip)
  have c: "visit_each (visit_entry v) (concat (map (\<lambda>c. EDirectory c # (if recursive then entries recursive c else [])) cs)) c =
      visit_each (\<lambda>child ctx. case call_directory v child ctx of (ret, ctx) \<Rightarrow>
        if ret \<noteq> MPD_SUCCESS then (ret, ctx)
        else if recursive then visit_each (visit_entry v) (entries recursive child) ctx else (MPD_SUCCESS, ctx)) cs c" for c
    by (simp add: visit_each_concat visit_each_map, intro visit_each_cong)
      (auto simp: visit_entry_def split: prod.splits)
  have w: "visit_each (\<lambda>child ctx. case call_directory v child ctx of (ret, ctx) \<Rightarrow>
        if ret \<noteq> MPD_SUCCESS then (ret, ctx)
        else if recursive then visit_each (visit_entry v) (entries recursive child) ctx else (MPD_SUCCESS, ctx)) cs c =
      visit_each (\<lambda>child ctx. case call_directory v child ctx of (ret, ctx) \<Rightarrow>
        if ret \<noteq> MPD_SUCCESS then (ret, ctx)
        else if recursive then directory_walk child recursive v ctx else (MPD_SUCCESS, ctx)) cs c" for c
    using Node by (intro visit_each_cong) (auto split: prod.splits)
  show ?case
    by (simp only: directory_walk.simps entries.simps visit_each_append s p c w)
qed

section \<open>Well-formed trees\<close>

definition child_path :: "directory \<Rightarrow> string \<Rightarrow> string" where
  "child_path d n = (if directory_is_root d then n else build_db_filename (dir_path d) n)"

definition child_name :: "directory \<Rightarrow> directory \<Rightarrow> string" where
  "child_name d c = (if directory_is_root d then dir_path c else drop (length (dir_path d) + 1) (dir_path c))"

definition name_part :: "string \<Rightarrow> bool" where
  "name_part n \<longleftrightarrow> n \<noteq> [] \<and> slash \<notin> set n"

definition child_of :: "directory \<Rightarrow> directory \<Rightarrow> bool" where
  "child_of d c \<longleftrightarrow> dir_has_parent c \<and> name_part (child_name d c) \<and> dir_path c = child_path d (child_name d c)"

text \<open>
  The path of every child is the one of its directory with a name behind it; names of children, songs
  and playlists are unique in a directory; every song knows its directory.
\<close>

fun tree_ok :: "node \<Rightarrow> bool" where
  "tree_ok (Node d m st cs ss ps) \<longleftrightarrow>
     (\<forall>c \<in> set cs. child_of d (nd_dir c) \<and> tree_ok c) \<and> distinct (map (\<lambda>c. child_name d (nd_dir c)) cs) \<and>
     (\<forall>s \<in> set ss. s_parent s = Some d \<and> name_part (s_uri s)) \<and> distinct (map s_uri ss) \<and> distinct (map pm_name ps)"

fun tree_songs :: "node \<Rightarrow> song list" where
  "tree_songs (Node d m st cs ss ps) = ss @ concat (map tree_songs cs)"

fun tree_playlists :: "node \<Rightarrow> (string \<times> playlist_metadata) list" where
  "tree_playlists (Node d m st cs ss ps) = map (Pair (dir_path d)) ps @ concat (map tree_playlists cs)"

text \<open>The directories below one.\<close>

fun tree_dirs :: "node \<Rightarrow> node list" where
  "tree_dirs (Node d m st cs ss ps) = concat (map (\<lambda>c. c # tree_dirs c) cs)"

lemma child_path_inj [simp]: "child_path d a = child_path d b \<longleftrightarrow> a = b"
  by (simp add: child_path_def build_db_filename_def)

lemma child_of_not_root: "child_of d c \<Longrightarrow> \<not> directory_is_root c"
  by (simp add: child_of_def directory_is_root_def)

lemma child_path_child: "child_of d c \<Longrightarrow> child_path c r = child_path d (child_name d c @ slash # r)"
  using child_of_not_root [of d c] by (auto simp: child_of_def child_path_def build_db_filename_def)

lemma strrchr_None: "strrchr s c = None \<longleftrightarrow> c \<notin> set s"
  by (induction s) (auto split: option.splits)

lemma strrchr_notin [simp]: "c \<notin> set s \<Longrightarrow> strrchr s c = None"
  by (simp add: strrchr_None)

lemma strrchr_append: "c \<notin> set n \<Longrightarrow> strrchr (s @ c # n) c = Some (c # n)"
  by (induction s) auto

lemma directory_get_name_child: "child_of d c \<Longrightarrow> directory_get_name d c = Some (child_name d c)"
  by (auto simp: child_of_def directory_get_name_def directory_is_root_def child_path_def build_db_filename_def
    name_part_def strrchr_append strrchr_None Let_def)

lemma tree_okD:
  assumes "tree_ok t"
  shows "c \<in> set (nd_children t) \<Longrightarrow> child_of (nd_dir t) (nd_dir c)"
    "c \<in> set (nd_children t) \<Longrightarrow> tree_ok c"
    "distinct (map (\<lambda>c. child_name (nd_dir t) (nd_dir c)) (nd_children t))"
    "x \<in> set (nd_songs t) \<Longrightarrow> s_parent x = Some (nd_dir t)" "x \<in> set (nd_songs t) \<Longrightarrow> name_part (s_uri x)"
    "distinct (map s_uri (nd_songs t))" "distinct (map pm_name (nd_playlists t))"
  using assms by (cases t; simp)+

lemma tree_songs_Node: "set (tree_songs t) = set (nd_songs t) \<union> (\<Union>c \<in> set (nd_children t). set (tree_songs c))"
  by (cases t) auto

lemma tree_dirs_Node: "set (tree_dirs t) = (\<Union>c \<in> set (nd_children t). insert c (set (tree_dirs c)))"
  by (cases t) auto

lemma tree_songs_dirs: "set (tree_songs t) = set (nd_songs t) \<union> (\<Union>d \<in> set (tree_dirs t). set (nd_songs d))"
proof (induction t)
  case (Node d m st cs ss ps)
  then show ?case by (force simp: tree_songs_Node [of "Node d m st cs ss ps"] tree_dirs_Node [of "Node d m st cs ss ps"])
qed

lemma get_child_loop_find:
  "(\<forall>c \<in> set cs. child_of d (nd_dir c)) \<Longrightarrow>
   get_child_loop d n cs = Some (List.find (\<lambda>c. child_name d (nd_dir c) = n) cs)"
  by (induction cs) (auto simp: directory_get_name_child)

lemma get_song_loop_find:
  "(\<forall>s \<in> set ss. s_parent s = Some d) \<Longrightarrow> get_song_loop d n ss = Some (List.find (\<lambda>s. s_uri s = n) ss)"
  by (induction ss) auto

lemma find_distinct: "distinct (map f xs) \<Longrightarrow> List.find (\<lambda>x. f x = n) xs = Some x \<longleftrightarrow> x \<in> set xs \<and> f x = n"
  by (induction xs) (auto simp: image_iff)

lemma directory_get_child_find:
  "tree_ok t \<Longrightarrow> directory_get_child t n = Some (List.find (\<lambda>c. child_name (nd_dir t) (nd_dir c) = n) (nd_children t))"
  by (simp add: directory_get_child_def get_child_loop_find tree_okD)

lemma directory_get_song_iff:
  assumes "tree_ok t"
  shows "\<exists>r. directory_get_song t n = Some r \<and> (\<forall>s. r = Some s \<longleftrightarrow> s \<in> set (nd_songs t) \<and> s_uri s = n)"
proof -
  have a: "\<forall>s \<in> set (nd_songs t). s_parent s = Some (nd_dir t)" "distinct (map s_uri (nd_songs t))"
    using tree_okD [OF assms] by simp_all
  have "directory_get_song t n = Some (List.find (\<lambda>s. s_uri s = n) (nd_songs t))"
    using get_song_loop_find [OF a(1)] by (simp add: directory_get_song_def)
  with find_distinct [OF a(2)] show ?thesis by auto
qed

section \<open>Looking up\<close>

text \<open>Every directory below has a path that starts with the path of the tree.\<close>

lemma tree_dirs_path:
  "tree_ok t \<Longrightarrow> x \<in> set (tree_dirs t) \<Longrightarrow>
   (\<exists>r. dir_path (nd_dir x) = child_path (nd_dir t) r \<and> r \<noteq> [] \<and> hd r \<noteq> slash) \<and> \<not> directory_is_root (nd_dir x) \<and> tree_ok x"
proof (induction t)
  case (Node d m st cs ss ps)
  from Node.prems obtain c where c: "c \<in> set cs" "x = c \<or> x \<in> set (tree_dirs c)" by auto
  with Node.prems have "child_of d (nd_dir c)" "tree_ok c" by auto
  from this(1) have n: "child_name d (nd_dir c) \<noteq> []" "hd (child_name d (nd_dir c)) \<noteq> slash"
    by (auto simp: child_of_def name_part_def) (metis list.set_sel(1))
  from c(2) show ?case
  proof
    assume "x = c"
    with \<open>child_of d (nd_dir c)\<close> \<open>tree_ok c\<close> n show ?thesis by (auto simp: child_of_def directory_is_root_def)
  next
    assume "x \<in> set (tree_dirs c)"
    from Node.IH [OF c(1) \<open>tree_ok c\<close> this] obtain r where
      "dir_path (nd_dir x) = child_path (nd_dir c) r" "\<not> directory_is_root (nd_dir x)" "tree_ok x" by auto
    with child_path_child [OF \<open>child_of d (nd_dir c)\<close>] n show ?thesis
      by (intro conjI exI [of _ "child_name d (nd_dir c) @ slash # r"]) simp_all
  qed
qed

lemma dirs_cases:
  assumes "tree_ok t"
  shows "x \<in> set (tree_dirs t) \<and> dir_path (nd_dir x) = child_path (nd_dir t) name \<longleftrightarrow>
    (\<exists>c \<in> set (nd_children t). x = c \<and> child_name (nd_dir t) (nd_dir c) = name \<or>
      (\<exists>rest. name = child_name (nd_dir t) (nd_dir c) @ slash # rest \<and> x \<in> set (tree_dirs c) \<and>
        dir_path (nd_dir x) = child_path (nd_dir c) rest))"
proof -
  have c: "child_path (nd_dir c) r = child_path (nd_dir t) (child_name (nd_dir t) (nd_dir c) @ slash # r)"
    "dir_path (nd_dir c) = child_path (nd_dir t) (child_name (nd_dir t) (nd_dir c))"
    if "c \<in> set (nd_children t)" for c r
    using tree_okD(1) [OF assms that] child_path_child by (auto simp: child_of_def)
  have "(x \<in> insert c (set (tree_dirs c)) \<and> dir_path (nd_dir x) = child_path (nd_dir t) name) \<longleftrightarrow>
      (x = c \<and> child_name (nd_dir t) (nd_dir c) = name \<or>
      (\<exists>rest. name = child_name (nd_dir t) (nd_dir c) @ slash # rest \<and> x \<in> set (tree_dirs c) \<and>
        dir_path (nd_dir x) = child_path (nd_dir c) rest))" if "c \<in> set (nd_children t)" for c
    using c [OF that] tree_dirs_path [OF tree_okD(2) [OF assms that], of x] by auto
  then show ?thesis unfolding tree_dirs_Node [of t] by blast
qed

lemma strchr_takeWhile:
  "strchr name c = (if c \<in> set name then Some (dropWhile (\<lambda>x. x \<noteq> c) name) else None)"
  by (induction name) auto

lemma split_at_slash:
  assumes "slash \<notin> set n"
  shows "name = n @ slash # rest \<longleftrightarrow>
    slash \<in> set name \<and> takeWhile (\<lambda>c. c \<noteq> slash) name = n \<and> tl (dropWhile (\<lambda>c. c \<noteq> slash) name) = rest"
proof
  assume "slash \<in> set name \<and> takeWhile (\<lambda>c. c \<noteq> slash) name = n \<and> tl (dropWhile (\<lambda>c. c \<noteq> slash) name) = rest"
  moreover from this have "dropWhile (\<lambda>c. c \<noteq> slash) name \<noteq> []" "hd (dropWhile (\<lambda>c. c \<noteq> slash) name) = slash"
    using hd_dropWhile [of "\<lambda>c. c \<noteq> slash" name] by auto
  ultimately show "name = n @ slash # rest"
    by (metis list.collapse takeWhile_dropWhile_id)
qed (use assms in \<open>auto simp: takeWhile_append dropWhile_append\<close>)

lemma lookup_directory_loop_iff:
  "tree_ok t \<Longrightarrow> \<exists>r. lookup_directory_loop t name = Some r \<and>
     (\<forall>x. r = Some x \<longleftrightarrow> x \<in> set (tree_dirs t) \<and> dir_path (nd_dir x) = child_path (nd_dir t) name)"
proof (induction t name rule: lookup_directory_loop.induct)
  case (1 t name)
  let ?first = "takeWhile (\<lambda>c. c \<noteq> slash) name"
  let ?rest = "tl (dropWhile (\<lambda>c. c \<noteq> slash) name)"
  let ?n = "\<lambda>c. child_name (nd_dir t) (nd_dir c)"
  have np: "?n c \<noteq> []" "slash \<notin> set (?n c)" if "c \<in> set (nd_children t)" for c
    using tree_okD(1) [OF 1(2) that] by (auto simp: child_of_def name_part_def)
  have one: "(x = c \<and> ?n c = name \<or> (\<exists>rest. name = ?n c @ slash # rest \<and> x \<in> set (tree_dirs c) \<and>
        dir_path (nd_dir x) = child_path (nd_dir c) rest)) \<longleftrightarrow>
      ?n c = ?first \<and>
        (if slash \<in> set name then x \<in> set (tree_dirs c) \<and> dir_path (nd_dir x) = child_path (nd_dir c) ?rest else x = c)"
    if "c \<in> set (nd_children t)" for c x
  proof (cases "slash \<in> set name")
    case True
    then have "?n c \<noteq> name" using np(2) [OF that] by auto
    with True show ?thesis by (simp only: split_at_slash [OF np(2) [OF that]]) auto
  next
    case False
    then have "?first = name" by (auto simp: takeWhile_eq_all_conv)
    moreover have "name \<noteq> ?n c @ slash # rest" for rest using False by auto
    ultimately show ?thesis using False by (simp only: if_False) blast
  qed
  have cases: "x \<in> set (tree_dirs t) \<and> dir_path (nd_dir x) = child_path (nd_dir t) name \<longleftrightarrow>
      (\<exists>c \<in> set (nd_children t). ?n c = ?first \<and>
        (if slash \<in> set name then x \<in> set (tree_dirs c) \<and> dir_path (nd_dir x) = child_path (nd_dir c) ?rest else x = c))" for x
    unfolding dirs_cases [OF 1(2)] by (rule bex_cong [OF refl]) (rule one)
  show ?case
  proof (cases "List.find (\<lambda>c. ?n c = ?first) (nd_children t)")
    case None
    then have "\<nexists>c. c \<in> set (nd_children t) \<and> ?n c = ?first" by (simp add: find_None_iff)
    then show ?thesis unfolding cases using None
      by (subst lookup_directory_loop.simps) (auto simp: directory_get_child_find [OF 1(2)] Let_def)
  next
    case (Some c)
    then have c: "c \<in> set (nd_children t)" "?n c = ?first" by (auto simp: find_Some_iff)
    have u: "c' = c" if "c' \<in> set (nd_children t)" "?n c' = ?first" for c'
      using that find_distinct [OF tree_okD(3) [OF 1(2)], of ?first c'] Some by simp
    have unique: "(\<exists>c' \<in> set (nd_children t). ?n c' = ?first \<and> P c') = P c" for P using c u by blast
    have "strchr name slash \<noteq> Some name"
      using np [OF c(1)] c(2) by (cases name) (auto dest: strchr_length)
    with Some c have e: "lookup_directory_loop t name =
        (if slash \<in> set name then lookup_directory_loop c ?rest else Some (Some c))"
      by (subst lookup_directory_loop.simps) (simp add: directory_get_child_find [OF 1(2)] Let_def strchr_takeWhile)
    show ?thesis
    proof (cases "slash \<in> set name")
      case True
      then have "strchr name slash = Some (dropWhile (\<lambda>c. c \<noteq> slash) name)" by (simp add: strchr_takeWhile)
      with "1.IH" [OF refl refl \<open>strchr name slash \<noteq> Some name\<close>, of "Some c" c] Some tree_okD(2) [OF 1(2) c(1)]
      obtain r where "lookup_directory_loop c ?rest = Some r"
        "\<And>x. r = Some x \<longleftrightarrow> x \<in> set (tree_dirs c) \<and> dir_path (nd_dir x) = child_path (nd_dir c) ?rest"
        by (auto simp: directory_get_child_find [OF 1(2)])
      then show ?thesis unfolding cases e unique using True by simp
    next
      case False
      then show ?thesis unfolding cases e unique by auto
    qed
  qed
qed

lemma directory_lookup_directory_iff:
  assumes "tree_ok t" "directory_is_root (nd_dir t)" "\<not> isRootDirectory uri"
  shows "\<exists>r. directory_lookup_directory t uri = Some r \<and>
    (\<forall>x. r = Some x \<longleftrightarrow> x \<in> set (tree_dirs t) \<and> dir_path (nd_dir x) = uri)"
  using lookup_directory_loop_iff [OF assms(1), of uri] assms(2,3)
  by (auto simp: directory_lookup_directory_def child_path_def)

lemma strrchr_Some: "strrchr s c = Some q \<Longrightarrow> \<exists>p n. s = p @ c # n \<and> q = c # n \<and> c \<notin> set n"
proof (induction s)
  case (Cons x s)
  then show ?case
    by (cases "strrchr s c") (auto simp: strrchr_None split: if_splits intro: exI [of _ "[]"] exI [of _ "x # _"])
qed simp

lemma last_split:
  fixes c :: char
  shows "c \<notin> set a \<Longrightarrow> c \<notin> set b \<Longrightarrow> p @ c # a = q @ c # b \<longleftrightarrow> p = q \<and> a = b"
  using strrchr_append [of c a p] strrchr_append [of c b q] by (cases "p @ c # a = q @ c # b") auto

lemma song_get_uri_in:
  "s_uri s \<noteq> [] \<Longrightarrow> s_parent s = Some d \<Longrightarrow> song_get_uri s = Some (child_path d (s_uri s))"
  by (simp add: song_get_uri_def child_path_def directory_get_path_def)

lemma song_uri_child:
  assumes "tree_ok t" "s \<in> set (nd_songs t)"
  shows "song_get_uri s = Some (child_path (nd_dir t) (s_uri s))" "name_part (s_uri s)"
  using tree_okD(4,5) [OF assms] song_get_uri_in [of s "nd_dir t"] by (auto simp: name_part_def)

lemma directory_lookup_song_iff:
  assumes "tree_ok t" "directory_is_root (nd_dir t)" "hd uri \<noteq> slash"
  shows "\<exists>r. directory_lookup_song t uri = Some r \<and>
    (\<forall>s. r = Some s \<longleftrightarrow> s \<in> set (tree_songs t) \<and> song_get_uri s = Some uri)"
proof (cases "strrchr uri slash")
  case None
  then have ns: "slash \<notin> set uri" by (simp add: strrchr_None)
  have "\<not> (s \<in> set (nd_songs d) \<and> song_get_uri s = Some uri)" if "d \<in> set (tree_dirs t)" for s d
    using tree_dirs_path [OF assms(1) that] song_uri_child [of d s] ns by (auto simp: child_path_def build_db_filename_def)
  moreover have "(s \<in> set (nd_songs t) \<and> song_get_uri s = Some uri) = (s \<in> set (nd_songs t) \<and> s_uri s = uri)" for s
    using song_uri_child [OF assms(1), of s] assms(2) by (auto simp: child_path_def)
  ultimately have "s \<in> set (tree_songs t) \<and> song_get_uri s = Some uri \<longleftrightarrow> s \<in> set (nd_songs t) \<and> s_uri s = uri" for s
    unfolding tree_songs_dirs [of t] by blast
  then show ?thesis
    using None directory_get_song_iff [OF assms(1), of uri] by (simp add: directory_lookup_song_def)
next
  case (Some q)
  then obtain p n where u: "uri = p @ slash # n" "q = slash # n" "slash \<notin> set n" using strrchr_Some by blast
  with assms(3) have p: "p \<noteq> []" "hd p \<noteq> slash" by (cases p; simp)+
  then have "\<not> isRootDirectory p" by (auto simp: isRootDirectory_def)
  from directory_lookup_directory_iff [OF assms(1,2) this] obtain r where
    r: "directory_lookup_directory t p = Some r" "\<And>x. r = Some x \<longleftrightarrow> x \<in> set (tree_dirs t) \<and> dir_path (nd_dir x) = p" by auto
  have songs: "(\<exists>d \<in> set (tree_dirs t). s \<in> set (nd_songs d) \<and> song_get_uri s = Some uri) \<longleftrightarrow>
      (\<exists>d. r = Some d \<and> s \<in> set (nd_songs d) \<and> s_uri s = n)" for s
  proof -
    have "song_get_uri s = Some uri \<longleftrightarrow> dir_path (nd_dir d) = p \<and> s_uri s = n"
      if "d \<in> set (tree_dirs t)" "s \<in> set (nd_songs d)" for d
    proof -
      have d: "\<not> directory_is_root (nd_dir d)" "tree_ok d" using tree_dirs_path [OF assms(1) that(1)] by auto
      have "slash \<notin> set (s_uri s)" using song_uri_child(2) [OF d(2) that(2)] by (simp add: name_part_def)
      with u(3) show ?thesis using song_uri_child(1) [OF d(2) that(2)] d(1) u(1)
        by (simp add: child_path_def build_db_filename_def last_split)
    qed
    then show ?thesis unfolding r(2) by auto
  qed
  have root: "\<not> (s \<in> set (nd_songs t) \<and> song_get_uri s = Some uri)" for s
    using song_uri_child [OF assms(1), of s] assms(2) u(1) by (auto simp: child_path_def name_part_def)
  have l: "directory_lookup_song t uri = (case r of None \<Rightarrow> Some None | Some dir \<Rightarrow> directory_get_song dir n)"
    using Some r(1) u by (simp add: directory_lookup_song_def)
  show ?thesis
  proof (cases r)
    case None
    with l songs root show ?thesis by (auto simp: tree_songs_dirs [of t])
  next
    case (Some d)
    then have "tree_ok d" using tree_dirs_path [OF assms(1)] r(2) by blast
    from directory_get_song_iff [OF this, of n] l Some songs root show ?thesis by (auto simp: tree_songs_dirs [of t])
  qed
qed

section \<open>Pruning\<close>

lemma prune_dir [simp]: "nd_dir (directory_prune_empty t) = nd_dir t" "nd_songs (directory_prune_empty t) = nd_songs t"
  "nd_playlists (directory_prune_empty t) = nd_playlists t"
  by (cases t; simp)+

lemma empty_tree: "directory_is_empty t \<Longrightarrow> tree_songs t = [] \<and> tree_playlists t = []"
  by (cases t) (simp add: directory_is_empty_def)

lemma concat_not_empty:
  "(\<And>x. directory_is_empty x \<Longrightarrow> f x = []) \<Longrightarrow>
   concat (map f (filter (\<lambda>c. \<not> directory_is_empty c) xs)) = concat (map f xs)"
  by (induction xs) auto

lemma prune_keeps:
  "tree_songs (directory_prune_empty t) = tree_songs t \<and> tree_playlists (directory_prune_empty t) = tree_playlists t"
proof (induction t)
  case (Node d m st cs ss ps)
  then have "map tree_songs (map directory_prune_empty cs) = map tree_songs cs"
    "map tree_playlists (map directory_prune_empty cs) = map tree_playlists cs" by simp_all
  then show ?case by (simp add: concat_not_empty empty_tree del: map_map)
qed

text \<open>What is left: the directories with a song or a playlist in them or below.\<close>

definition occupied :: "node \<Rightarrow> bool" where
  "occupied t \<longleftrightarrow> tree_songs t \<noteq> [] \<or> tree_playlists t \<noteq> []"

lemma prune_empty_iff: "directory_is_empty (directory_prune_empty t) \<longleftrightarrow> \<not> occupied t"
proof (induction t)
  case (Node d m st cs ss ps)
  then have "filter (\<lambda>c. \<not> directory_is_empty c) (map directory_prune_empty cs) = map directory_prune_empty (filter occupied cs)"
    by (induction cs) auto
  then show ?case by (auto simp: directory_is_empty_def occupied_def filter_empty_conv)
qed

lemma prune_children: "nd_children (directory_prune_empty t) = map directory_prune_empty (filter occupied (nd_children t))"
  by (cases t) (simp add: filter_map comp_def prune_empty_iff)

lemma occupied_below: "x \<in> set (tree_dirs t) \<Longrightarrow> occupied x \<Longrightarrow> occupied t"
proof (induction t)
  case (Node d m st cs ss ps)
  then show ?case by (fastforce simp: occupied_def)
qed

lemma prune_dirs: "tree_dirs (directory_prune_empty t) = map directory_prune_empty (filter occupied (tree_dirs t))"
proof (induction t)
  case (Node d m st cs ss ps)
  have none: "filter occupied (tree_dirs c) = []" if "\<not> occupied c" for c
    using that occupied_below by (auto simp: filter_empty_conv)
  have "concat (map ((\<lambda>c. c # tree_dirs c) \<circ> directory_prune_empty) (filter occupied cs)) =
      map directory_prune_empty (filter occupied (concat (map (\<lambda>c. c # tree_dirs c) cs)))"
    using Node by (induction cs) (auto simp: none)
  then show ?case using prune_children [of "Node d m st cs ss ps"] by simp
qed

lemma tree_ok_prune: "tree_ok t \<Longrightarrow> tree_ok (directory_prune_empty t)"
proof (induction t)
  case (Node d m st cs ss ps)
  then show ?case
    by (auto simp: comp_def distinct_map filter_map inj_on_def)
qed

section \<open>Freeing\<close>

text \<open>The references that the songs of a tree hold.\<close>

definition song_refs :: "song \<Rightarrow> tag_item multiset" where
  "song_refs s = (case s_tag s of None \<Rightarrow> {#} | Some tag \<Rightarrow> mset (tag_items tag))"

definition tree_refs :: "node \<Rightarrow> tag_item multiset" where
  "tree_refs t = sum_list (map song_refs (tree_songs t))"

definition no_bulk :: "song \<Rightarrow> bool" where
  "no_bulk s \<longleftrightarrow> (case s_tag s of None \<Rightarrow> True | Some tag \<Rightarrow> \<not> tag_bulk tag)"

lemma song_free_ok:
  assumes "lib_ok lib" "song_refs s \<subseteq># lib_refs lib" "no_bulk s"
  shows "\<exists>lib'. song_free lib s = Some lib' \<and> lib_ok lib' \<and> lib_refs lib = song_refs s + lib_refs lib'"
  using assms tag_free_frees [of lib] by (auto simp: song_free_def song_refs_def no_bulk_def split: option.splits)

lemma for_each_frees:
  assumes "\<And>x lib. x \<in> set xs \<Longrightarrow> lib_ok lib \<Longrightarrow> refs x \<subseteq># lib_refs lib \<Longrightarrow>
      \<exists>lib'. f x lib = Some lib' \<and> lib_ok lib' \<and> lib_refs lib = refs x + lib_refs lib'"
    and "lib_ok lib" "sum_list (map refs xs) \<subseteq># lib_refs lib"
  shows "\<exists>lib'. for_each f xs lib = Some lib' \<and> lib_ok lib' \<and> lib_refs lib = sum_list (map refs xs) + lib_refs lib'"
  using assms
proof (induction xs arbitrary: lib)
  case (Cons x xs)
  have "refs x \<subseteq># lib_refs lib" using Cons.prems(3) by simp (metis mset_subset_eq_add_left subset_mset.order_trans)
  then obtain l where l: "f x lib = Some l" "lib_ok l" "lib_refs lib = refs x + lib_refs l"
    using Cons.prems(1) [of x lib] Cons.prems(2) by auto
  with Cons.prems(3) have "sum_list (map refs xs) \<subseteq># lib_refs l" by simp
  from Cons.IH [OF Cons.prems(1) l(2) this] l show ?case by auto
qed simp

lemma tree_refs_Node: "tree_refs (Node d m st cs ss ps) = sum_list (map song_refs ss) + sum_list (map tree_refs cs)"
proof -
  have "sum_list (map song_refs (concat (map tree_songs cs))) = sum_list (map tree_refs cs)"
    by (induction cs) (simp_all add: tree_refs_def)
  then show ?thesis by (simp add: tree_refs_def)
qed

lemma directory_free_ok:
  "lib_ok lib \<Longrightarrow> tree_refs t \<subseteq># lib_refs lib \<Longrightarrow> list_all no_bulk (tree_songs t) \<Longrightarrow>
   \<exists>lib'. directory_free t lib = Some lib' \<and> lib_ok lib' \<and> lib_refs lib = tree_refs t + lib_refs lib'"
proof (induction t arbitrary: lib)
  case (Node d m st cs ss ps)
  have nb: "list_all no_bulk ss" "\<forall>c \<in> set cs. list_all no_bulk (tree_songs c)" using Node.prems(3) by (auto simp: list_all_iff)
  have "sum_list (map song_refs ss) \<subseteq># lib_refs lib"
    using Node.prems(2) by (simp add: tree_refs_Node) (metis mset_subset_eq_add_left subset_mset.order_trans)
  then obtain l where l: "for_each (\<lambda>song lib. song_free lib song) ss lib = Some l" "lib_ok l"
      "lib_refs lib = sum_list (map song_refs ss) + lib_refs l"
    using for_each_frees [of ss song_refs "\<lambda>song lib. song_free lib song" lib] song_free_ok nb(1) Node.prems(1)
    by (auto simp: list_all_iff)
  have "sum_list (map tree_refs cs) \<subseteq># lib_refs l" using Node.prems(2) l(3) by (simp add: tree_refs_Node)
  then obtain l' where "for_each directory_free cs l = Some l'" "lib_ok l'" "lib_refs l = sum_list (map tree_refs cs) + lib_refs l'"
    using for_each_frees [of cs tree_refs directory_free l] Node.IH nb(2) l(2) by blast
  with l show ?case by (simp add: tree_refs_Node)
qed

end
