(* ===== verification/Directory_Sort.thy ===== *)
theory Directory_Sort
  imports Directory_Inv
begin

text \<open>
  Sorting the directory tree.  The comparison of two songs is an order as long as their disc and track numbers fit
  into an \<^verbatim>\<open>int\<close>; sorting keeps the contents of every directory and puts its lists in order.
\<close>

section \<open>The merge sort looks at the elements only\<close>

definition agree :: "'a set \<Rightarrow> ('a \<Rightarrow> 'a \<Rightarrow> int) \<Rightarrow> ('a \<Rightarrow> 'a \<Rightarrow> int) \<Rightarrow> bool" where
  "agree X f g \<longleftrightarrow> (\<forall>a \<in> X. \<forall>b \<in> X. f a b \<le> 0 \<longleftrightarrow> g a b \<le> 0)"

lemma agree_subset: "agree X f g \<Longrightarrow> Y \<subseteq> X \<Longrightarrow> agree Y f g"
  by (auto simp: agree_def)

lemma merge_agree: "agree X f g \<Longrightarrow> set as \<union> set bs \<subseteq> X \<Longrightarrow> merge f as bs = merge g as bs"
  by (induction f as bs rule: merge.induct) (auto simp: agree_def)

lemma concat_update_subset: "set (concat (xs[i := y])) \<subseteq> set (concat xs) \<union> set y"
  using set_update_subset_insert [of xs i y] by fastforce

lemma carry_agree:
  "agree X f g \<Longrightarrow> set (concat part) \<union> set cur \<subseteq> X \<Longrightarrow> carry f part lev cur = carry g part lev cur"
proof (induction f part lev cur rule: carry.induct)
  case (1 f part lev cur)
  show ?case
  proof (cases "lev < length part \<and> part ! lev \<noteq> []")
    case True
    then have "part ! lev \<in> set part" by simp
    then have sub: "set (part ! lev) \<subseteq> set (concat part)" by auto
    then have m: "merge f (part ! lev) cur = merge g (part ! lev) cur" using 1(2,3) by (intro merge_agree [of X]) auto
    have "set (concat (part[lev := []])) \<union> set (merge f (part ! lev) cur) \<subseteq> X"
      using 1(3) sub concat_update_subset [of part lev "[]"] by (auto simp: set_merge)
    then have "carry f (part[lev := []]) (lev + 1) (merge f (part ! lev) cur) = carry g (part[lev := []]) (lev + 1) (merge f (part ! lev) cur)"
      using 1(1) [OF _ _ 1(2)] True by simp
    with m True show ?thesis by (simp add: carry.simps [of _ part])
  qed (auto simp: carry.simps [of _ part])
qed

lemma sort_loop_agree:
  assumes "agree X f g"
  shows "set (concat part) \<union> set xs \<subseteq> X \<Longrightarrow> sort_loop f xs part ml = sort_loop g xs part ml"
proof (induction xs arbitrary: part ml)
  case (Cons x xs)
  have c: "carry f part 0 [x] = carry g part 0 [x]" using Cons.prems by (intro carry_agree [OF assms]) auto
  show ?case
  proof (cases "carry g part 0 [x]")
    case None
    then show ?thesis by (simp add: c)
  next
    case (Some r)
    obtain part' lev where r: "r = (part', lev)" by (cases r)
    have "set (concat part') \<subseteq> set (concat part) \<union> set [x]" using carry_set [of g part 0 "[x]" part' lev] Some r by simp
    then have "set (concat part') \<union> set xs \<subseteq> X" using Cons.prems by (simp del: set_concat) blast
    then show ?thesis using Cons.IH c Some r by (simp del: set_concat)
  qed
qed simp

lemma list_sort_agree:
  assumes "agree (set xs) f g"
  shows "list_sort f xs = list_sort g xs"
proof -
  let ?p = "replicate (MAX_LIST_LENGTH_BITS + 1) [] :: 'a list list"
  have e: "set (concat (replicate n [] :: 'a list list)) = {}" for n by (induction n) simp_all
  have s: "sort_loop f xs ?p 0 = sort_loop g xs ?p 0"
    using assms e by (intro sort_loop_agree [of "set xs"]) (simp_all only: Un_empty_left order_refl)
  show ?thesis
  proof (cases "sort_loop g xs ?p 0")
    case None
    then show ?thesis unfolding list_sort_def s by simp
  next
    case (Some r)
    obtain part ml where r: "r = (part, ml)" by (cases r)
    have sub: "set (concat part) \<subseteq> set xs" using sort_loop_set [of g xs ?p 0 part ml] Some r e by (simp only: Un_empty_left)
    have nth: "set p \<subseteq> set xs" if "aget part i = Some p" for i p
      using that sub nth_mem [of i part] by (fastforce simp: aget_eq_Some)
    let ?loop = "\<lambda>f. for_each (\<lambda>lev list. do {
        p \<leftarrow> aget part lev;
        Some (if p \<noteq> [] then merge f p list else list)
      })"
    have loop: "?loop f is list = ?loop g is list" if "set list \<subseteq> set xs" for list "is"
      using that
    proof (induction "is" arbitrary: list)
      case (Cons i "is")
      show ?case
      proof (cases "aget part i")
        case (Some p)
        then have "merge f p list = merge g p list" "set (merge g p list) \<subseteq> set xs"
          using nth [OF Some] Cons.prems merge_agree [OF assms, of p list] by (auto simp: set_merge)
        with Cons Some show ?thesis by simp
      qed simp
    qed simp
    have last: "merge_and_restore_back_links f a b = merge_and_restore_back_links g a b" if "set a \<union> set b \<subseteq> set xs" for a b
      using merge_agree [OF assms that] by (simp add: merge_and_restore_back_links_def)
    have "?loop g [0..<ml] [] = Some list \<Longrightarrow> set list \<subseteq> set xs" for list
      using merge_parts_set [of part g "[0..<ml]" "[]" list] sub by (simp del: set_concat)
    then show ?thesis
      unfolding list_sort_def s Some r
      by (cases "?loop g [0..<ml] []"; cases "aget part ml") (simp_all add: loop last nth)
  qed
qed

section \<open>Comparisons\<close>

text \<open>A comparison function in the sense of C: the sign changes with the sides, and it is transitive.\<close>

definition comparator :: "('a \<Rightarrow> 'a \<Rightarrow> int) \<Rightarrow> bool" where
  "comparator f \<longleftrightarrow> (\<forall>a b. f a b < 0 \<longleftrightarrow> 0 < f b a) \<and> (\<forall>a b c. f a b \<le> 0 \<longrightarrow> f b c \<le> 0 \<longrightarrow> f a c \<le> 0)"

lemma comparator_trans: "comparator f \<Longrightarrow> f a b \<le> 0 \<Longrightarrow> f b c \<le> 0 \<Longrightarrow> f a c \<le> 0"
  unfolding comparator_def by blast

lemma comparator_sign: "comparator f \<Longrightarrow> f a b < 0 \<longleftrightarrow> 0 < f b a"
  unfolding comparator_def by blast

lemma comparator_flip:
  assumes "comparator f"
  shows "f b a \<le> 0 \<longleftrightarrow> 0 \<le> f a b" "f b a = 0 \<longleftrightarrow> f a b = 0"
  using comparator_sign [OF assms, of a b] comparator_sign [OF assms, of b a] by linarith+

lemma comparator_ordering:
  assumes "comparator f"
  shows "ordering f"
proof -
  have "f a b \<le> 0 \<or> f b a \<le> 0" for a b using comparator_sign [OF assms, of a b] by linarith
  with comparator_trans [OF assms] show ?thesis unfolding ordering_def by blast
qed

lemma comparator_key: "comparator f \<Longrightarrow> comparator (\<lambda>a b. f (k a) (k b))"
  unfolding comparator_def by blast

lemma comparator_then:
  assumes "comparator f" "comparator g"
  shows "comparator (\<lambda>a b. if f a b \<noteq> 0 then f a b else g a b)"
proof -
  let ?h = "\<lambda>a b. if f a b \<noteq> 0 then f a b else g a b"
  have "?h a b < 0 \<longleftrightarrow> 0 < ?h b a" for a b
    using comparator_sign [OF assms(1), of a b] comparator_flip(2) [OF assms(1), of b a] comparator_sign [OF assms(2), of a b] by simp
  moreover have "?h a c \<le> 0" if "?h a b \<le> 0" "?h b c \<le> 0" for a b c
  proof -
    have f: "f a b \<le> 0" "f b c \<le> 0" using that by (simp_all split: if_splits)
    then have ac: "f a c \<le> 0" by (rule comparator_trans [OF assms(1)])
    show ?thesis
    proof (cases "f a c = 0")
      case True
      then have ca: "f c a \<le> 0" using comparator_flip(1) [OF assms(1), of c a] by simp
      have "f b a \<le> 0" "f c b \<le> 0" using comparator_trans [OF assms(1)] f ca by blast+
      then have "f a b = 0" "f b c = 0"
        using f comparator_flip(1) [OF assms(1), of b a] comparator_flip(1) [OF assms(1), of c b] by simp_all
      with that True show ?thesis using comparator_trans [OF assms(2), of a b c] by simp
    qed (use ac in simp)
  qed
  ultimately show ?thesis unfolding comparator_def by blast
qed

section \<open>The order of songs\<close>

definition number_of_string :: "string option \<Rightarrow> int" where
  "number_of_string a = (case a of None \<Rightarrow> 0 | Some s \<Rightarrow> fst (strtol s))"

definition number_key :: "string option \<Rightarrow> int" where
  "number_key a = max 0 (number_of_string a)"

text \<open>The order the code means: by album, disc number, track number and file name.\<close>

definition song_order :: "(string \<Rightarrow> string \<Rightarrow> int) \<Rightarrow> song \<Rightarrow> song \<Rightarrow> int" where
  "song_order collate a b =
     (let alb = compare_utf8_string collate (first_value (s_tag a) TAG_ALBUM) (first_value (s_tag b) TAG_ALBUM);
          disc = number_key (first_value (s_tag a) TAG_DISC) - number_key (first_value (s_tag b) TAG_DISC);
          track = number_key (first_value (s_tag a) TAG_TRACK) - number_key (first_value (s_tag b) TAG_TRACK)
      in if alb \<noteq> 0 then alb else if disc \<noteq> 0 then disc else if track \<noteq> 0 then track else collate (s_uri a) (s_uri b))"

definition small_numbers :: "song \<Rightarrow> bool" where
  "small_numbers s \<longleftrightarrow> number_of_string (first_value (s_tag s) TAG_DISC) < 2 ^ 31 \<and>
     number_of_string (first_value (s_tag s) TAG_TRACK) < 2 ^ 31"

lemma long_to_int_small: "- (2 ^ 31) \<le> x \<Longrightarrow> x < 2 ^ 31 \<Longrightarrow> long_to_int x = x"
  by (simp add: long_to_int_def sint_sbintrunc' signed_take_bit_int_eq_self)

lemma compare_number_sign:
  assumes "number_of_string a < 2 ^ 31" "number_of_string b < 2 ^ 31"
  shows "sgn (compare_number_string a b) = sgn (number_key a - number_key b)"
proof -
  let ?a = "number_of_string a" and ?b = "number_of_string b"
  have "compare_number_string a b = (if ?a \<le> 0 then (if ?b \<le> 0 then 0 else -1) else if ?b \<le> 0 then 1 else long_to_int (?a - ?b))"
    by (simp add: compare_number_string_def number_of_string_def Let_def)
  moreover have "long_to_int (?a - ?b) = ?a - ?b" if "0 < ?a" "0 < ?b"
    using that assms by (intro long_to_int_small) simp_all
  ultimately show ?thesis by (simp add: number_key_def sgn_if)
qed

lemma comparator_diff: "comparator (\<lambda>a b. k a - k b)" for k :: "'a \<Rightarrow> int"
  unfolding comparator_def by auto

lemma comparator_utf8:
  assumes "comparator collate"
  shows "comparator (compare_utf8_string collate)"
proof -
  have "compare_utf8_string collate a b < 0 \<longleftrightarrow> 0 < compare_utf8_string collate b a" for a b
    using comparator_sign [OF assms] by (cases a; cases b) (auto simp: compare_utf8_string_def)
  moreover have "compare_utf8_string collate a c \<le> 0" if "compare_utf8_string collate a b \<le> 0" "compare_utf8_string collate b c \<le> 0" for a b c
    using that comparator_trans [OF assms] by (cases a; cases b; cases c) (auto simp: compare_utf8_string_def)
  ultimately show ?thesis unfolding comparator_def by blast
qed

lemma song_order_comparator:
  assumes "comparator collate"
  shows "comparator (song_order collate)"
  unfolding song_order_def Let_def
  by (intro comparator_then comparator_diff comparator_key [where k = s_uri] assms
    comparator_key [where k = "\<lambda>s. first_value (s_tag s) TAG_ALBUM", OF comparator_utf8 [OF assms]])

text \<open>Both comparisons have the same sign, and the merge sort asks for nothing more.\<close>

lemma song_cmp_order:
  assumes "small_numbers a" "small_numbers b"
  shows "sgn (song_cmp collate a b) = sgn (song_order collate a b)"
proof -
  have d: "sgn (compare_number_string (first_value (s_tag a) TAG_DISC) (first_value (s_tag b) TAG_DISC)) =
      sgn (number_key (first_value (s_tag a) TAG_DISC) - number_key (first_value (s_tag b) TAG_DISC))"
    and t: "sgn (compare_number_string (first_value (s_tag a) TAG_TRACK) (first_value (s_tag b) TAG_TRACK)) =
      sgn (number_key (first_value (s_tag a) TAG_TRACK) - number_key (first_value (s_tag b) TAG_TRACK))"
    using assms by (auto simp: small_numbers_def intro: compare_number_sign)
  have z: "x = 0 \<longleftrightarrow> y = 0" if "sgn x = sgn y" for x y :: int using that by (metis sgn_0_0)
  show ?thesis using d t z [OF d] z [OF t] by (simp add: song_cmp_def song_order_def Let_def)
qed

section \<open>The sorted tree\<close>

text \<open>The same tree, with the children and the songs of every directory in another order.\<close>

inductive rearranged :: "node \<Rightarrow> node \<Rightarrow> bool" where
  rearrange: "mset cs1 = mset cs \<Longrightarrow> list_all2 rearranged cs1 cs' \<Longrightarrow> mset ss' = mset ss \<Longrightarrow>
    rearranged (Node d m st cs ss ps) (Node d m st cs' ss' ps)"
  monos list_all2_mono

inductive_cases rearrangedE: "rearranged t t'"

fun sorted_tree :: "(string \<Rightarrow> string \<Rightarrow> int) \<Rightarrow> node \<Rightarrow> bool" where
  "sorted_tree collate (Node d m st cs ss ps) \<longleftrightarrow>
     in_order (directory_cmp collate) cs \<and> in_order (song_order collate) ss \<and> (\<forall>c \<in> set cs. sorted_tree collate c)"

text \<open>The lists must be short enough for the merge sort, and the numbers small enough for the comparison.\<close>

fun sortable :: "node \<Rightarrow> bool" where
  "sortable (Node d m st cs ss ps) \<longleftrightarrow>
     length cs < 2 ^ (MAX_LIST_LENGTH_BITS + 1) \<and> length ss < 2 ^ (MAX_LIST_LENGTH_BITS + 1) \<and>
     list_all small_numbers ss \<and> (\<forall>c \<in> set cs. sortable c)"

lemma map_option_list_all2:
  "(\<And>x. x \<in> set xs \<Longrightarrow> \<exists>y. f x = Some y \<and> P x y) \<Longrightarrow> \<exists>ys. map_option_list f xs = Some ys \<and> list_all2 P xs ys"
proof (induction xs)
  case (Cons x xs)
  then obtain y ys where "f x = Some y" "P x y" "map_option_list f xs = Some ys" "list_all2 P xs ys" by (metis list.set_intros)
  then show ?case by simp
qed simp

lemma rearranged_dir: "rearranged t t' \<Longrightarrow> nd_dir t' = nd_dir t \<and> nd_mtime t' = nd_mtime t \<and> nd_playlists t' = nd_playlists t"
  by (erule rearrangedE) simp

lemma in_order_map: "sorted_wrt (\<lambda>a b. r (k a) (k b)) xs \<longleftrightarrow> sorted_wrt r (map k xs)"
  by (simp add: sorted_wrt_map)

lemma directory_sort_ok:
  assumes "comparator collate"
  shows "sortable t \<Longrightarrow> \<exists>t'. directory_sort collate t = Some t' \<and> rearranged t t' \<and> sorted_tree collate t'"
proof (induction t)
  case (Node d m st cs ss ps)
  have "ordering (directory_cmp collate)"
    unfolding directory_cmp_def by (intro comparator_ordering comparator_key [where k = "\<lambda>a. dir_path (nd_dir a)"] assms)
  with list_sort_sorts [of "directory_cmp collate" cs] Node.prems obtain cs1 where
    1: "list_sort (directory_cmp collate) cs = Some cs1" "in_order (directory_cmp collate) cs1" "mset cs1 = mset cs"
    by (auto simp: stable_def)
  have sg: "sgn x = sgn y \<Longrightarrow> x \<le> 0 \<longleftrightarrow> y \<le> 0" for x y :: int by (auto simp: sgn_if split: if_splits)
  have "song_cmp collate a b \<le> 0 \<longleftrightarrow> song_order collate a b \<le> 0" if "a \<in> set ss" "b \<in> set ss" for a b
    by (rule sg, rule song_cmp_order) (use that Node.prems in \<open>simp_all add: list_all_iff\<close>)
  then have "agree (set ss) (song_cmp collate) (song_order collate)" by (simp add: agree_def)
  then have "list_sort (song_cmp collate) ss = list_sort (song_order collate) ss" by (rule list_sort_agree)
  with list_sort_sorts [OF comparator_ordering [OF song_order_comparator [OF assms]], of ss] Node.prems obtain ss' where
    2: "song_list_sort collate ss = Some ss'" "in_order (song_order collate) ss'" "mset ss' = mset ss"
    by (auto simp: stable_def song_list_sort_def)
  have "\<exists>y. directory_sort collate x = Some y \<and> rearranged x y \<and> sorted_tree collate y" if "x \<in> set cs1" for x
    using that Node 1(3) by (metis sortable.simps mset_eq_setD)
  from map_option_list_all2 [of cs1 "directory_sort collate" "\<lambda>x y. rearranged x y \<and> sorted_tree collate y", OF this] obtain cs' where
    3: "map_option_list (directory_sort collate) cs1 = Some cs'" "list_all2 (\<lambda>x y. rearranged x y \<and> sorted_tree collate y) cs1 cs'"
    by auto
  then have r: "list_all2 rearranged cs1 cs'" and s: "\<forall>c \<in> set cs'. sorted_tree collate c"
    by (auto simp: list_all2_conv_all_nth in_set_conv_nth)
  then have "map (\<lambda>a. dir_path (nd_dir a)) cs' = map (\<lambda>a. dir_path (nd_dir a)) cs1"
    by (auto simp: list_all2_conv_all_nth intro!: nth_equalityI dest!: rearranged_dir)
  with 1(2) have "in_order (directory_cmp collate) cs'"
    unfolding directory_cmp_def in_order_map [of "\<lambda>a b. collate a b \<le> 0" "\<lambda>a. dir_path (nd_dir a)"] by simp
  with 1 2 3 r s show ?case by (auto intro: rearrange)
qed

lemma list_all2_sum_mset:
  "list_all2 (\<lambda>x y. mset (f x) = mset (g y)) xs ys \<Longrightarrow> mset (concat (map f xs)) = mset (concat (map g ys))"
  by (induction rule: list_all2_induct) auto

lemma mset_concat_map: "mset xs = mset ys \<Longrightarrow> mset (concat (map f xs)) = mset (concat (map f ys))"
  by (simp only: mset_concat map_map mset_map sum_mset_sum_list [symmetric] image_mset.compositionality)

lemma rearranged_songs: "rearranged t t' \<Longrightarrow> mset (tree_songs t') = mset (tree_songs t)"
proof (induction rule: rearranged.induct)
  case (rearrange cs1 cs cs' ss' ss d m st ps)
  have "list_all2 (\<lambda>x y. mset (tree_songs x) = mset (tree_songs y)) cs1 cs'"
    using rearrange.IH by (rule list_all2_mono) auto
  then have "mset (concat (map tree_songs cs1)) = mset (concat (map tree_songs cs'))" by (rule list_all2_sum_mset)
  then show ?case using mset_concat_map [OF rearrange.hyps(1), of tree_songs] rearrange.hyps(2) by simp
qed

lemma rearranged_playlists: "rearranged t t' \<Longrightarrow> mset (tree_playlists t') = mset (tree_playlists t)"
proof (induction rule: rearranged.induct)
  case (rearrange cs1 cs cs' ss' ss d m st ps)
  have "list_all2 (\<lambda>x y. mset (tree_playlists x) = mset (tree_playlists y)) cs1 cs'"
    using rearrange.IH by (rule list_all2_mono) auto
  then have "mset (concat (map tree_playlists cs1)) = mset (concat (map tree_playlists cs'))" by (rule list_all2_sum_mset)
  then show ?case using mset_concat_map [OF rearrange.hyps(1), of tree_playlists] by simp
qed

lemma list_all2_zip_sets:
  "list_all2 P xs ys \<Longrightarrow> y \<in> set ys \<Longrightarrow> \<exists>x \<in> set xs. P x y"
  by (induction rule: list_all2_induct) auto

lemma rearranged_ok: "rearranged t t' \<Longrightarrow> tree_ok t \<Longrightarrow> tree_ok t'"
proof (induction rule: rearranged.induct)
  case (rearrange cs1 cs cs' ss' ss d m st ps)
  have "map (\<lambda>c. nd_dir c) cs' = map (\<lambda>c. nd_dir c) cs1"
    using rearrange.IH by (auto simp: list_all2_conv_all_nth intro!: nth_equalityI dest!: rearranged_dir)
  then have n: "map (\<lambda>c. child_name d (nd_dir c)) cs' = map (\<lambda>c. child_name d (nd_dir c)) cs1"
    by (metis (no_types, lifting) list.map_comp comp_def map_eq_conv)
  have "mset (map (\<lambda>c. child_name d (nd_dir c)) cs1) = mset (map (\<lambda>c. child_name d (nd_dir c)) cs)" using rearrange.hyps(1) by simp
  then have dn: "distinct (map (\<lambda>c. child_name d (nd_dir c)) cs')"
    using rearrange.prems n mset_eq_imp_distinct_iff by fastforce
  have "mset (map s_uri ss') = mset (map s_uri ss)" using rearrange.hyps(2) by simp
  then have du: "distinct (map s_uri ss')" using rearrange.prems mset_eq_imp_distinct_iff by fastforce
  have "child_of d (nd_dir c) \<and> tree_ok c" if "c \<in> set cs'" for c
    using list_all2_zip_sets [OF rearrange.IH that] rearrange.prems mset_eq_setD [OF rearrange.hyps(1)] rearranged_dir by fastforce
  then show ?case using dn du rearrange.prems mset_eq_setD [OF rearrange.hyps(2)] by simp
qed

end
