(* ===== verification/Simple_Db_Inv.thy ===== *)
theory Simple_Db_Inv
  imports Simple_Db Directory_Sort
begin

text \<open>
  A saved database is loaded as it was: the lines of a tree as a specification of saving, and loading
  them line by line.
\<close>

section \<open>What is compared\<close>

definition tag_norm :: "tag option \<Rightarrow> int \<times> bool \<times> tag_contents" where
  "tag_norm tag = (case tag of None \<Rightarrow> (-1, False, []) | Some t \<Rightarrow> (tag_time t, tag_has_playlist t, tag_view t))"

type_synonym song_contents = "string \<times> directory option \<times> int \<times> u32 \<times> u32 \<times> int \<times> bool \<times> tag_contents"

definition song_view :: "song \<Rightarrow> song_contents" where
  "song_view s = (s_uri s, s_parent s, s_mtime s, s_start_ms s, s_end_ms s, tag_norm (s_tag s))"

datatype dir_view = DirView directory int "dir_view list" "song_contents list" "playlist_metadata list"

text \<open>
  Everything but the addresses of the songs, the device and inode numbers, and the difference between no tag
  and an empty one.
\<close>

fun tree_view :: "node \<Rightarrow> dir_view" where
  "tree_view (Node d m st cs ss ps) = DirView d m (map tree_view cs) (map song_view ss) ps"

section \<open>What can be stored\<close>

definition stored_item :: "db_env \<Rightarrow> bool list \<Rightarrow> tag_type \<times> string \<Rightarrow> bool" where
  "stored_item E ig i \<longleftrightarrow> fst i \<noteq> TAG_NUM_OF_ITEM_TYPES \<and> \<not> ig ! tag_type_number (fst i) \<and>
     clean_value (dbe_tag E) (snd i) \<and> \<not> dbe_isspace E (hd (snd i)) \<and> plain_line (tag_name (fst i) @ '': '' @ snd i)"

definition stored_tag :: "db_env \<Rightarrow> bool list \<Rightarrow> tag \<Rightarrow> bool" where
  "stored_tag E ig t \<longleftrightarrow> -1 \<le> tag_time t \<and> tag_time t < 2 ^ 31 \<and> list_all (stored_item E ig) (tag_view t)"

text \<open>Songs must have been changed before 2038.\<close>

definition stored_song :: "db_env \<Rightarrow> bool list \<Rightarrow> song \<Rightarrow> bool" where
  "stored_song E ig s \<longleftrightarrow> plain_line (SONG_BEGIN @ s_uri s) \<and> - (2 ^ 31) \<le> s_mtime s \<and> s_mtime s < 2 ^ 31 \<and>
     (case s_tag s of None \<Rightarrow> True | Some t \<Rightarrow> stored_tag E ig t)"

definition stored_playlist :: "playlist_metadata \<Rightarrow> bool" where
  "stored_playlist pm \<longleftrightarrow> plain_line (PLAYLIST_META_BEGIN @ pm_name pm) \<and> - (2 ^ 63) \<le> pm_mtime pm \<and> pm_mtime pm < 2 ^ 63"

fun stored_tree :: "db_env \<Rightarrow> bool list \<Rightarrow> node \<Rightarrow> bool" where
  "stored_tree E ig (Node d m st cs ss ps) \<longleftrightarrow>
     (directory_is_root d \<longrightarrow> m = 0) \<and> - (2 ^ 63) \<le> m \<and> m < 2 ^ 63 \<and> length (dir_path d) < max_line - 20 \<and>
     nl \<notin> set (dir_path d) \<and> (dir_path d \<noteq> [] \<longrightarrow> last (dir_path d) \<noteq> CHR 0x0D) \<and>
     (\<forall>c \<in> set cs. stored_tree E ig c) \<and> list_all (stored_song E ig) ss \<and> list_all stored_playlist ps"

text \<open>The surroundings: nothing fails, and GLib does what its documentation says.\<close>

definition isspace_ok :: "db_env \<Rightarrow> bool" where
  "isspace_ok E \<longleftrightarrow> dbe_isspace E CHR '' '' \<and>
     (\<forall>c. 32 < (of_char c :: nat) \<longrightarrow> (of_char c :: nat) < 127 \<longrightarrow> \<not> dbe_isspace E c)"

definition basename_ok :: "db_env \<Rightarrow> bool" where
  "basename_ok E \<longleftrightarrow> (\<forall>p n. name_part n \<longrightarrow> dbe_basename E (p @ slash # n) = n \<and> dbe_basename E n = n)"

definition db_env_ok :: "db_env \<Rightarrow> bool" where
  "db_env_ok E \<longleftrightarrow> isspace_ok E \<and> basename_ok E \<and> (\<forall>fp. \<not> dbe_ferror E fp)"

section \<open>The lines of a database\<close>

definition text_of :: "string list \<Rightarrow> string" where
  "text_of ls = concat (map (\<lambda>l. l @ [nl]) ls)"

definition item_line :: "tag_type \<times> string \<Rightarrow> string" where
  "item_line i = tag_name (fst i) @ '': '' @ snd i"

definition tag_lines :: "tag option \<Rightarrow> string list" where
  "tag_lines tag = (case tag of None \<Rightarrow> [] | Some t \<Rightarrow>
     (if 0 \<le> tag_time t then [''Time: '' @ show_int (tag_time t)] else []) @
     (if tag_has_playlist t then [''Playlist: yes''] else []) @ map item_line (tag_view t))"

definition range_lines :: "song \<Rightarrow> string list" where
  "range_lines s = (if 0 < s_end_ms s then [''Range: '' @ show_nat (unat (s_start_ms s)) @ ''-'' @ show_nat (unat (s_end_ms s))]
     else if 0 < s_start_ms s then [''Range: '' @ show_nat (unat (s_start_ms s)) @ ''-''] else [])"

definition song_body :: "song \<Rightarrow> string list" where
  "song_body s = range_lines s @ tag_lines (s_tag s) @ [SONG_MTIME @ '': '' @ show_int (s_mtime s)]"

definition song_lines :: "song \<Rightarrow> string list" where
  "song_lines s = [SONG_BEGIN @ s_uri s] @ song_body s @ [SONG_END]"

definition playlist_lines :: "playlist_metadata \<Rightarrow> string list" where
  "playlist_lines pm = [PLAYLIST_META_BEGIN @ pm_name pm, ''mtime: '' @ show_int (pm_mtime pm), ''playlist_end'']"

definition dir_head :: "directory \<Rightarrow> int \<Rightarrow> string list" where
  "dir_head d m = (if directory_is_root d then [] else [DIRECTORY_MTIME @ show_nat (nat (m mod 2 ^ 64)), DIRECTORY_BEGIN @ dir_path d])"

definition dir_tail :: "directory \<Rightarrow> string list" where
  "dir_tail d = (if directory_is_root d then [] else [DIRECTORY_END @ dir_path d])"

fun node_lines :: "node \<Rightarrow> string list" where
  "node_lines (Node d m st cs ss ps) = dir_head d m @
     concat (map (\<lambda>c. (DIRECTORY_DIR @ child_name d (nd_dir c)) # node_lines c) cs) @
     concat (map song_lines ss) @ concat (map playlist_lines ps) @ dir_tail d"

lemma text_of_simps [simp]:
  "text_of [] = []" "text_of (l # ls) = l @ nl # text_of ls" "text_of (xs @ ys) = text_of xs @ text_of ys"
  by (simp_all add: text_of_def)

lemma tag_name_get: "t \<noteq> TAG_NUM_OF_ITEM_TYPES \<Longrightarrow> aget tag_item_names (tag_type_number t) = Some (tag_name t)"
  using tag_types_number(3) [of t] by (simp add: tag_name_def aget_def tag_item_names_def)

lemma save_items:
  "\<forall>i \<in> set is. ti_type i \<noteq> TAG_NUM_OF_ITEM_TYPES \<Longrightarrow>
   for_each save_item is fp = Some (fp @ text_of (map item_line (map item_contents is)))"
  by (induction "is" arbitrary: fp) (auto simp: save_item_def tag_name_get item_line_def item_contents_def)

lemma stored_types: "stored_tag E ig t \<Longrightarrow> \<forall>i \<in> set (tag_items t). ti_type i \<noteq> TAG_NUM_OF_ITEM_TYPES"
  by (auto simp: stored_tag_def stored_item_def tag_view_def item_contents_def list_all_iff)

lemma song_save_lines:
  assumes "stored_song E ig s"
  shows "simple_db_song_save s fp = Some (fp @ text_of (song_lines s))"
proof -
  have "(case s_tag s of None \<Rightarrow> Some fp | Some tag \<Rightarrow> simple_db_tag_save fp tag) = Some (fp @ text_of (tag_lines (s_tag s)))" for fp
    using assms stored_types [of E ig]
    by (auto simp: stored_song_def simple_db_tag_save_def tag_lines_def save_items tag_view_def simp del: map_map split: option.splits)
  then show ?thesis
    by (simp add: simple_db_song_save_def song_lines_def song_body_def range_lines_def Let_def)
qed

lemma songs_save_lines:
  "list_all (stored_song E ig) ss \<Longrightarrow> for_each simple_db_song_save ss fp = Some (fp @ text_of (concat (map song_lines ss)))"
  by (induction ss arbitrary: fp) (auto simp: song_save_lines)

lemma playlists_save_lines: "simple_db_playlist_vector_save fp ps = fp @ text_of (concat (map playlist_lines ps))"
  by (induction ps arbitrary: fp) (auto simp: simple_db_playlist_vector_save_def playlist_lines_def)

lemma basename_child: "basename_ok E \<Longrightarrow> child_of d c \<Longrightarrow> dbe_basename E (dir_path c) = child_name d c"
  by (metis basename_ok_def build_db_filename_def child_of_def child_path_def append_Cons append_Nil)

lemma save_children_lines:
  assumes "db_env_ok E" "\<forall>c \<in> set cs. child_of d (nd_dir c)"
    "\<And>c fp. c \<in> set cs \<Longrightarrow> save c fp = Some (fp @ text_of (node_lines c))"
  shows "save_children E save cs fp =
    Some (True, fp @ text_of (concat (map (\<lambda>c. (DIRECTORY_DIR @ child_name d (nd_dir c)) # node_lines c) cs)))"
  using assms(2,3) assms(1)
  by (induction cs arbitrary: fp) (auto simp: db_env_ok_def basename_child)

lemma directory_save_lines:
  "db_env_ok E \<Longrightarrow> tree_ok t \<Longrightarrow> stored_tree E ig t \<Longrightarrow>
   simple_db_directory_save E t fp = Some (fp @ text_of (node_lines t))"
proof (induction t arbitrary: fp)
  case (Node d m st cs ss ps)
  have "save_children E (simple_db_directory_save E) cs fp =
      Some (True, fp @ text_of (concat (map (\<lambda>c. (DIRECTORY_DIR @ child_name d (nd_dir c)) # node_lines c) cs)))" for fp
    using Node by (intro save_children_lines) auto
  with Node.prems(3) show ?case
    by (simp add: songs_save_lines [of E ig] playlists_save_lines dir_head_def dir_tail_def Let_def directory_get_path_def)
qed

section \<open>Reading the lines back\<close>

lemma split_line_label:
  assumes "dbe_isspace E CHR '' ''" "n \<noteq> []" "CHR '':'' \<notin> set n" "v = [] \<or> \<not> dbe_isspace E (hd v)"
  shows "split_line (dbe_isspace E) (n @ '': '' @ v) = Some (n, v)"
proof -
  have "takeWhile (\<lambda>c. c \<noteq> CHR '':'') (n @ '': '' @ v) = n"
    using assms(3) by (simp add: takeWhile_append)
  moreover have "strchr (n @ '': '' @ v) CHR '':'' = Some ('': '' @ v)"
    using assms(3) by (induction n) auto
  moreover have "dropWhile (dbe_isspace E) v = v" using assms(4) by (cases v) auto
  ultimately show ?thesis using assms(1,2) by (simp add: split_line_def strchug_fast_def)
qed

lemma digit_not_isspace: "isspace_ok E \<Longrightarrow> is_digit c \<Longrightarrow> \<not> dbe_isspace E c"
  by (simp add: isspace_ok_def is_digit_def)

lemma show_nat_hd: "is_digit (hd (show_nat n))"
  using show_nat_digits [of n] show_nat_not_Nil [of n] by (metis list.set_sel(1) list_all_iff)

lemma show_int_not_isspace: "isspace_ok E \<Longrightarrow> \<not> dbe_isspace E (hd (show_int i))" "show_int i \<noteq> []"
  using show_nat_hd by (auto simp: show_int_def digit_not_isspace) (simp add: isspace_ok_def)

lemma length_show_int: "- (2 ^ 63) \<le> i \<Longrightarrow> i < 2 ^ 63 \<Longrightarrow> length (show_int i) \<le> 20"
proof -
  assume "- (2 ^ 63) \<le> i" "i < 2 ^ 63"
  then have "nat i < 10 ^ 19" "nat (- i) < 10 ^ 19" by simp_all
  then show ?thesis using length_show_nat [of "nat i" 19] length_show_nat [of "nat (- i)" 19] by (simp add: show_int_def)
qed

lemma show_int_chars: "c \<in> set (show_int i) \<Longrightarrow> c = CHR ''-'' \<or> is_digit c"
  by (auto simp: show_int_def dest: show_nat_chars split: if_splits)

lemma plain_labelled:
  assumes "plain_line n" "length n < 40" "\<And>c. c \<in> set v \<Longrightarrow> c = CHR ''-'' \<or> is_digit c" "length v \<le> 50"
  shows "plain_line (n @ v)"
proof -
  have "c \<noteq> nl \<and> c \<noteq> CHR 0x0D" if "c \<in> set v" for c using assms(3) [OF that] by (auto simp: is_digit_def)
  then have "nl \<notin> set v" "v \<noteq> [] \<Longrightarrow> last v \<noteq> CHR 0x0D" by auto
  with assms(1,2,4) show ?thesis by (auto simp: plain_line_def last_append max_line_def)
qed

lemma atoi_show_int: "- (2 ^ 31) \<le> i \<Longrightarrow> i < 2 ^ 31 \<Longrightarrow> atoi (show_int i) = i"
proof -
  assume i: "- (2 ^ 31) \<le> i" "i < 2 ^ 31"
  then have "fst (strtol (show_int i)) = i" using strtol_show_int [of "[]" i] by (simp add: stops_number_def)
  moreover have "i mod 2 ^ 32 = (if i < 0 then i + 2 ^ 32 else i)"
  proof (cases "i < 0")
    case True
    then have "(i + 2 ^ 32) mod 2 ^ 32 = i + 2 ^ 32" using i by (intro mod_pos_pos_trivial) simp_all
    with True show ?thesis by simp
  qed (use i in simp)
  ultimately show ?thesis using i by (simp add: atoi_def Let_def)
qed

section \<open>Loading a song\<close>

text \<open>A tag that is being filled uses the bulk list or has outgrown it.\<close>

definition filling :: "bool list \<Rightarrow> tag_lib \<Rightarrow> song \<Rightarrow> bool" where
  "filling ig lib song \<longleftrightarrow> lib_ok lib \<and> tl_ignore lib = ig \<and> (case s_tag song of
     None \<Rightarrow> \<not> tl_busy lib | Some t \<Rightarrow> tl_busy lib \<and> (tag_bulk t \<longrightarrow> length (tag_items t) < BULK_MAX))"

text \<open>\<open>grown\<close>: the song is now worth \<open>v\<close>, and the references to the pool changed by what its tag gained.\<close>

definition grown :: "bool list \<Rightarrow> tag_lib \<Rightarrow> song \<Rightarrow> song_contents \<Rightarrow> tag_lib \<Rightarrow> song \<Rightarrow> bool" where
  "grown ig lib song v lib' song' \<longleftrightarrow> filling ig lib' song' \<and> song_view song' = v \<and>
     lib_refs lib' + song_refs song = lib_refs lib + song_refs song'"

lemma song_tag_ok:
  assumes "filling ig lib song"
  obtains lib1 t where "song_tag lib song = Some (lib1, t)" "filling ig lib1 (song\<lparr>s_tag := Some t\<rparr>)"
    "tag_norm (Some t) = tag_norm (s_tag song)" "lib_refs lib1 = lib_refs lib" "mset (tag_items t) = song_refs song"
proof (cases "s_tag song")
  case None
  then show thesis using assms
    by (intro that [of "lib\<lparr>tl_busy := True\<rparr>" "tag_new\<lparr>tag_bulk := True\<rparr>"])
      (auto simp: song_tag_def tag_begin_add_def filling_def tag_new_def lib_ok_def tag_norm_def tag_view_def song_refs_def)
next
  case (Some t)
  then show thesis using assms by (intro that [of lib t]) (auto simp: song_tag_def song_refs_def filling_def)
qed

lemma names_no_colon: "t \<noteq> TAG_NUM_OF_ITEM_TYPES \<Longrightarrow> CHR '':'' \<notin> set (tag_name t) \<and> tag_name t \<noteq> []"
  by (cases t) (simp_all add: tag_name_def tag_item_names_def)

lemma load_item_line:
  assumes E: "isspace_ok E" and f: "filling ig lib song" and i: "stored_item E ig i"
    and v: "song_view song = (u, p, m, a, b, tm, pl, is)"
  shows "\<exists>lib' song'. song_load_line E (item_line i) lib song = Some (Some (lib', song')) \<and>
    grown ig lib song (u, p, m, a, b, tm, pl, is @ [i]) lib' song'"
proof -
  obtain ty w where i': "i = (ty, w)" by (cases i)
  from i have t: "ty \<noteq> TAG_NUM_OF_ITEM_TYPES" "\<not> ig ! tag_type_number ty" "clean_value (dbe_tag E) w" "\<not> dbe_isspace E (hd w)"
    by (simp_all add: stored_item_def i')
  have s: "split_line (dbe_isspace E) (item_line i) = Some (tag_name ty, w)"
    using split_line_label [of E "tag_name ty" w] E t names_no_colon [OF t(1)] by (simp add: item_line_def i' isspace_ok_def)
  obtain lib1 t1 where 1: "song_tag lib song = Some (lib1, t1)" "filling ig lib1 (song\<lparr>s_tag := Some t1\<rparr>)"
    "tag_norm (Some t1) = tag_norm (s_tag song)" "lib_refs lib1 = lib_refs lib" "mset (tag_items t1) = song_refs song"
    by (rule song_tag_ok [OF f])
  have 2: "lib_ok lib1" "tl_ignore lib1 = ig" "tl_busy lib1" "tag_bulk t1 \<longrightarrow> length (tag_items t1) < BULK_MAX"
    using 1(2) by (simp_all add: filling_def)
  obtain item pool where a: "tag_add_item_n (dbe_tag E) lib1 t1 ty w =
      Some (lib1\<lparr>tl_pool := pool\<rparr>, t1\<lparr>tag_items := tag_items t1 @ [item],
        tag_bulk := tag_bulk t1 \<and> Suc (length (tag_items t1)) < BULK_MAX\<rparr>)"
    "pool_ok pool" "item_contents item = (ty, w)" "pool_refs pool = add_mset item (lib_refs lib1)"
    using tag_add_item_clean [OF 2(1) t(1), of "dbe_tag E" w t1] t 2 by auto
  show ?thesis using s t(1) 1 2 a v
    by (auto simp: song_load_line_def tag_name_parse_name grown_def filling_def lib_ok_def song_view_def tag_norm_def
      tag_view_def song_refs_def i')
qed

definition advances :: "db_env \<Rightarrow> bool list \<Rightarrow> tag_lib \<Rightarrow> song \<Rightarrow> string list \<Rightarrow> song_contents \<Rightarrow> bool" where
  "advances E ig lib song ls v \<longleftrightarrow> (\<exists>lib' song'. grown ig lib song v lib' song' \<and>
     (\<forall>rest. song_load_loop E lib song (text_of ls @ rest) = song_load_loop E lib' song' rest))"

lemma grown_trans: "grown ig lib song v lib1 song1 \<Longrightarrow> grown ig lib1 song1 w lib2 song2 \<Longrightarrow> grown ig lib song w lib2 song2"
proof -
  have "a + s0 = b + s2" if "a + s1 = c + s2" "c + s0 = b + s1" for a b c s0 s1 s2 :: "tag_item multiset"
  proof -
    have "(a + s0) + (c + s1) = (a + s1) + (c + s0)" by (simp only: ac_simps)
    also have "\<dots> = (b + s2) + (c + s1)" unfolding that by (simp only: ac_simps)
    finally show ?thesis by simp
  qed
  then show "grown ig lib song v lib1 song1 \<Longrightarrow> grown ig lib1 song1 w lib2 song2 \<Longrightarrow> grown ig lib song w lib2 song2"
    unfolding grown_def by blast
qed

lemma advances_Nil: "filling ig lib song \<Longrightarrow> song_view song = v \<Longrightarrow> advances E ig lib song [] v"
  by (auto simp: advances_def grown_def)

lemma advances_append:
  assumes "advances E ig lib song xs v"
    "\<And>lib' song'. filling ig lib' song' \<Longrightarrow> song_view song' = v \<Longrightarrow> advances E ig lib' song' ys w"
  shows "advances E ig lib song (xs @ ys) w"
proof -
  obtain lib1 song1 where 1: "grown ig lib song v lib1 song1"
    "\<And>rest. song_load_loop E lib song (text_of xs @ rest) = song_load_loop E lib1 song1 rest"
    using assms(1) by (auto simp: advances_def)
  with assms(2) [of lib1 song1] obtain lib2 song2 where 2: "grown ig lib1 song1 w lib2 song2"
    "\<And>rest. song_load_loop E lib1 song1 (text_of ys @ rest) = song_load_loop E lib2 song2 rest"
    by (auto simp: advances_def grown_def)
  show ?thesis unfolding advances_def
    by (intro exI [of _ lib2] exI [of _ song2]) (simp add: 1 2 grown_trans [OF 1(1) 2(1)])
qed

lemma advances_line:
  assumes "plain_line l" "l \<noteq> SONG_END" "song_load_line E l lib song = Some (Some (lib', song'))" "grown ig lib song v lib' song'"
  shows "advances E ig lib song [l] v"
  using assms unfolding advances_def
  by (intro exI [of _ lib'] exI [of _ song']) (simp add: song_load_loop.simps [of E lib song] read_text_line_plain)

lemma labelled_not_end: "CHR '':'' \<in> set l \<Longrightarrow> l \<noteq> SONG_END"
  by (auto simp: SONG_END_def)

lemma advances_items:
  assumes "isspace_ok E"
  shows "list_all (stored_item E ig) is' \<Longrightarrow> filling ig lib song \<Longrightarrow> song_view song = (u, p, m, a, b, tm, pl, is) \<Longrightarrow>
    advances E ig lib song (map item_line is') (u, p, m, a, b, tm, pl, is @ is')"
proof (induction is' arbitrary: lib song "is")
  case Nil
  then show ?case by (simp add: advances_Nil)
next
  case (Cons i is')
  have "plain_line (item_line i)" "CHR '':'' \<in> set (item_line i)" using Cons.prems(1) by (simp_all add: stored_item_def item_line_def)
  then have "advances E ig lib song [item_line i] (u, p, m, a, b, tm, pl, is @ [i])"
    using load_item_line [OF assms Cons.prems(2) _ Cons.prems(3), of i] Cons.prems(1) labelled_not_end
    by (auto intro: advances_line)
  from advances_append [OF this, of "map item_line is'"] Cons.IH [of _ _ "is @ [i]"] Cons.prems(1) show ?case by simp
qed

text \<open>The lines with a number or a flag.\<close>

lemma song_view_iff:
  "song_view s = (u, p, m, a, b, tm, pl, is) \<longleftrightarrow> s_uri s = u \<and> s_parent s = p \<and> s_mtime s = m \<and> s_start_ms s = a \<and>
     s_end_ms s = b \<and> tag_norm (s_tag s) = (tm, pl, is)"
  by (auto simp: song_view_def)

lemma other_names:
  "tag_name_parse ''Time'' = TAG_NUM_OF_ITEM_TYPES" "tag_name_parse ''Playlist'' = TAG_NUM_OF_ITEM_TYPES"
  "tag_name_parse SONG_MTIME = TAG_NUM_OF_ITEM_TYPES" "tag_name_parse ''Range'' = TAG_NUM_OF_ITEM_TYPES"
  by code_simp+

lemma advances_tag_line:
  fixes g :: "tag \<Rightarrow> tag"
  assumes E: "isspace_ok E" and f: "filling ig lib song" and v: "song_view song = (u, p, m, a, b, tm, pl, is)"
    and l: "plain_line (n @ '': '' @ w)" "n = ''Time'' \<and> g = tag_time_update (\<lambda>_. atoi w) \<and> pl' = pl \<and> tm' = atoi w \<or>
      n = ''Playlist'' \<and> g = tag_has_playlist_update (\<lambda>_. w = ''yes'') \<and> pl' = (w = ''yes'') \<and> tm' = tm"
    "w \<noteq> []" "\<not> dbe_isspace E (hd w)"
  shows "advances E ig lib song [n @ '': '' @ w] (u, p, m, a, b, tm', pl', is)"
proof -
  obtain lib1 t1 where 1: "song_tag lib song = Some (lib1, t1)" "filling ig lib1 (song\<lparr>s_tag := Some t1\<rparr>)"
    "tag_norm (Some t1) = tag_norm (s_tag song)" "lib_refs lib1 = lib_refs lib" "mset (tag_items t1) = song_refs song"
    by (rule song_tag_ok [OF f])
  have "split_line (dbe_isspace E) (n @ '': '' @ w) = Some (n, w)"
    using l E by (intro split_line_label) (auto simp: isspace_ok_def)
  moreover have "tag_name_parse n = TAG_NUM_OF_ITEM_TYPES" using l(2) other_names by metis
  moreover have "SONG_MTIME \<noteq> ''Time''" "SONG_MTIME \<noteq> ''Playlist''" by (simp_all add: SONG_MTIME_def)
  ultimately have "song_load_line E (n @ '': '' @ w) lib song = Some (Some (lib1, song\<lparr>s_tag := Some (g t1)\<rparr>))"
    using l(2) 1(1) by (elim disjE conjE) (simp_all add: song_load_line_def)
  moreover have "grown ig lib song (u, p, m, a, b, tm', pl', is) lib1 (song\<lparr>s_tag := Some (g t1)\<rparr>)"
    using 1 v l(2) by (elim disjE conjE) (simp_all add: grown_def song_view_iff filling_def tag_norm_def tag_view_def song_refs_def)
  moreover have "n @ '': '' @ w \<noteq> SONG_END" by (rule labelled_not_end) simp
  ultimately show ?thesis using l(1) by (intro advances_line)
qed

lemma advances_tag:
  assumes E: "isspace_ok E" and f: "filling ig lib song" and v: "song_view song = (u, p, m, a, b, -1, False, [])"
    and t: "case tag of None \<Rightarrow> True | Some t \<Rightarrow> stored_tag E ig t" "tag_norm tag = (tm, pl, is)"
  shows "advances E ig lib song (tag_lines tag) (u, p, m, a, b, tm, pl, is)"
proof (cases tag)
  case None
  then show ?thesis using t f v by (simp add: tag_lines_def tag_norm_def advances_Nil)
next
  case (Some t)
  with assms have st: "stored_tag E ig t" and tv: "tag_time t = tm" "tag_has_playlist t = pl" "tag_view t = is"
    by (auto simp: tag_norm_def)
  have ti: "- 1 \<le> tm" "tm < 2 ^ 31" "list_all (stored_item E ig) is" using st tv by (auto simp: stored_tag_def)
  have 1: "advances E ig lib song (if 0 \<le> tm then [''Time: '' @ show_int tm] else []) (u, p, m, a, b, tm, False, [])"
  proof (cases "0 \<le> tm")
    case True
    have "plain_line (''Time: '' @ show_int tm)"
      using ti length_show_int [of tm] show_int_chars [of _ tm] by (intro plain_labelled) (auto simp: plain_line_def max_line_def)
    then show ?thesis
      using advances_tag_line [OF E f v, of "''Time''" "show_int tm" "tag_time_update (\<lambda>_. tm)" False tm] True ti show_int_not_isspace(1) [OF E] show_int_not_isspace(2)
      by (simp add: atoi_show_int)
  next
    case False
    then have "tm = -1" using ti by simp
    then show ?thesis using advances_Nil [OF f v] by simp
  qed
  have 2: "advances E ig lib' song' (if pl then [''Playlist: yes''] else []) (u, p, m, a, b, tm, pl, [])"
    if "filling ig lib' song'" "song_view song' = (u, p, m, a, b, tm, False, [])" for lib' song'
    using advances_tag_line [OF E that, of "''Playlist''" "''yes''" "tag_has_playlist_update (\<lambda>_. True)" True tm] advances_Nil [OF that] E
    by (auto simp: plain_line_def max_line_def isspace_ok_def)
  have 3: "advances E ig lib' song' (map item_line is) (u, p, m, a, b, tm, pl, is)"
    if "filling ig lib' song'" "song_view song' = (u, p, m, a, b, tm, pl, [])" for lib' song'
    using advances_items [OF E ti(3) that] by simp
  have "tag_lines tag = (if 0 \<le> tm then [''Time: '' @ show_int tm] else []) @
      (if pl then [''Playlist: yes''] else []) @ map item_line is"
    using Some tv by (simp add: tag_lines_def)
  moreover have "advances E ig lib song ((if 0 \<le> tm then [''Time: '' @ show_int tm] else []) @
      (if pl then [''Playlist: yes''] else []) @ map item_line is) (u, p, m, a, b, tm, pl, is)"
    by (rule advances_append [OF 1]) (rule advances_append [OF 2 3])
  ultimately show ?thesis by (simp only:)
qed

lemma advances_plain_line:
  assumes E: "isspace_ok E" and f: "filling ig lib song" and n: "plain_line (n @ '': '' @ w)" "CHR '':'' \<notin> set n" "n \<noteq> []"
    "w \<noteq> []" "\<not> dbe_isspace E (hd w)"
    and l: "\<And>lib song. split_line (dbe_isspace E) (n @ '': '' @ w) = Some (n, w) \<Longrightarrow>
      song_load_line E (n @ '': '' @ w) lib song = Some (Some (lib, g song))"
    and g: "s_tag (g song) = s_tag song" "song_view (g song) = v"
  shows "advances E ig lib song [n @ '': '' @ w] v"
proof -
  have "split_line (dbe_isspace E) (n @ '': '' @ w) = Some (n, w)"
    using n E by (intro split_line_label) (auto simp: isspace_ok_def)
  moreover have "grown ig lib song v lib (g song)"
    using f g by (simp add: grown_def filling_def song_refs_def)
  moreover have "n @ '': '' @ w \<noteq> SONG_END" by (rule labelled_not_end) simp
  ultimately show ?thesis using n(1) l by (intro advances_line)
qed

lemma advances_mtime:
  assumes E: "isspace_ok E" and f: "filling ig lib song" and v: "song_view song = (u, p, m0, a, b, tg)"
    and m: "- (2 ^ 31) \<le> m" "m < 2 ^ 31"
  shows "advances E ig lib song [SONG_MTIME @ '': '' @ show_int m] (u, p, m, a, b, tg)"
proof (rule advances_plain_line [OF E f, where g = "\<lambda>song. song\<lparr>s_mtime := m\<rparr>"])
  show "plain_line (SONG_MTIME @ '': '' @ show_int m)"
    using plain_labelled [of "''mtime: ''" "show_int m"] m length_show_int [of m] show_int_chars [of _ m]
    by (simp add: plain_line_def max_line_def SONG_MTIME_def)
qed (use v m show_int_not_isspace(1) [OF E] show_int_not_isspace(2) other_names in
    \<open>auto simp: song_load_line_def atoi_show_int song_view_def SONG_MTIME_def\<close>)

lemma advances_range:
  assumes E: "isspace_ok E" and f: "filling ig lib song" and v: "song_view song = (u, p, m, 0, 0, tg)"
  shows "advances E ig lib song (range_lines s) (u, p, m, s_start_ms s, s_end_ms s, tg)"
proof -
  let ?a = "show_nat (unat (s_start_ms s))" and ?b = "show_nat (unat (s_end_ms s))"
  have lt: "unat x < 4294967296" for x :: u32 using unsigned_less [of x, where ?'a = nat] by simp
  have len: "length ?a \<le> 10" "length ?b \<le> 10"
    using length_show_nat [of "unat (s_start_ms s)" 10] length_show_nat [of "unat (s_end_ms s)" 10]
      lt [of "s_start_ms s"] lt [of "s_end_ms s"] by simp_all
  have st: "strtoul (?a @ CHR ''-'' # r) = (unat (s_start_ms s), CHR ''-'' # r)" for r
    using strtoul_show_nat [of "CHR ''-'' # r" "unat (s_start_ms s)"] lt [of "s_start_ms s"]
    by (simp add: stops_number_def is_digit_def)
  have en: "strtoul ?b = (unat (s_end_ms s), [])" "strtoul [] = (0, [])"
    using strtoul_show_nat [of "[]" "unat (s_end_ms s)"] lt [of "s_end_ms s"]
    by (simp_all add: stops_number_def strtoul_def scan_number_def)
  have line: "advances E ig lib song [''Range'' @ '': '' @ ?a @ ''-'' @ e] (u, p, m, s_start_ms s, s_end_ms s, tg)"
    if "e = ?b \<or> e = [] \<and> s_end_ms s = 0" for e
  proof (rule advances_plain_line [OF E f, where g = "\<lambda>song. song\<lparr>s_start_ms := s_start_ms s, s_end_ms := s_end_ms s\<rparr>"])
    have "plain_line (''Range: '' @ (?a @ ''-'' @ e))"
      by (rule plain_labelled) (use that len show_nat_chars in \<open>auto simp: plain_line_def max_line_def\<close>)
    then show "plain_line (''Range'' @ '': '' @ ?a @ ''-'' @ e)" by simp
    show "song_load_line E (''Range'' @ '': '' @ ?a @ ''-'' @ e) lib song =
        Some (Some (lib, song\<lparr>s_start_ms := s_start_ms s, s_end_ms := s_end_ms s\<rparr>))"
      if "split_line (dbe_isspace E) (''Range'' @ '': '' @ ?a @ ''-'' @ e) = Some (''Range'', ?a @ ''-'' @ e)" for lib song
      using that \<open>e = ?b \<or> e = [] \<and> s_end_ms s = 0\<close> st en other_names
      by (auto simp: song_load_line_def SONG_MTIME_def)
  qed (use v digit_not_isspace [OF E show_nat_hd] in \<open>auto simp: song_view_def hd_append\<close>)
  show ?thesis
  proof (cases "0 < s_end_ms s")
    case True
    then show ?thesis using line [of ?b] by (simp add: range_lines_def)
  next
    case False
    then have "s_end_ms s = 0" by (simp add: word_gt_0)
    then show ?thesis using line [of "[]"] advances_Nil [OF f v] by (auto simp: range_lines_def word_gt_0)
  qed
qed

lemma advances_body:
  assumes E: "isspace_ok E" and f: "filling ig lib song" and v: "song_view song = (s_uri s, s_parent s, 0, 0, 0, -1, False, [])"
    and s: "stored_song E ig s"
  shows "advances E ig lib song (song_body s) (song_view s)"
proof -
  have t: "case s_tag s of None \<Rightarrow> True | Some t \<Rightarrow> stored_tag E ig t" and m: "- (2 ^ 31) \<le> s_mtime s" "s_mtime s < 2 ^ 31"
    using s by (simp_all add: stored_song_def)
  obtain tm pl "is" where n: "tag_norm (s_tag s) = (tm, pl, is)" by (cases "tag_norm (s_tag s)")
  have "advances E ig lib song (range_lines s @ tag_lines (s_tag s) @ [SONG_MTIME @ '': '' @ show_int (s_mtime s)])
      (s_uri s, s_parent s, s_mtime s, s_start_ms s, s_end_ms s, tm, pl, is)"
    by (rule advances_append [OF advances_range [OF E f v]])
      (rule advances_append [OF advances_tag [OF E _ _ t n]], assumption+, rule advances_mtime [OF E _ _ m], assumption+)
  then show ?thesis by (simp add: song_body_def song_view_def n)
qed

text \<open>Between the entries of a directory no tag is being filled.\<close>

definition ready :: "bool list \<Rightarrow> load_state \<Rightarrow> bool" where
  "ready ig st \<longleftrightarrow> lib_ok (ls_lib st) \<and> tl_ignore (ls_lib st) = ig \<and> \<not> tl_busy (ls_lib st)"

abbreviation st_refs :: "load_state \<Rightarrow> tag_item multiset" where
  "st_refs st \<equiv> lib_refs (ls_lib st)"

lemma song_end_tag_ok:
  assumes "filling ig lib song"
  shows "\<exists>lib' song'. song_end_tag lib song = Some (lib', song') \<and> lib_ok lib' \<and> tl_ignore lib' = ig \<and> \<not> tl_busy lib' \<and>
    song_view song' = song_view song \<and> song_refs song' = song_refs song \<and> lib_refs lib' = lib_refs lib \<and> no_bulk song'"
  using assms
  by (cases "s_tag song") (auto simp: song_end_tag_def filling_def tag_end_add_def lib_ok_def song_view_def tag_norm_def
    tag_view_def song_refs_def no_bulk_def)

lemma song_loads:
  assumes E: "isspace_ok E" and st: "ready ig st" and s: "stored_song E ig s" "name_part (s_uri s)" "s_parent s = Some d"
    and fl: "ls_file st = text_of (song_body s @ [SONG_END]) @ rest"
  shows "\<exists>s' st'. simple_db_song_load E st (Some d) (s_uri s) = Some (Some s', st') \<and> song_view s' = song_view s \<and>
    ready ig st' \<and> ls_file st' = rest \<and> st_refs st' = st_refs st + song_refs s' \<and> no_bulk s'"
proof -
  let ?s0 = "\<lparr>s_addr = ls_next st, s_tag = None, s_parent = Some d, s_mtime = 0, s_start_ms = 0, s_end_ms = 0, s_uri = s_uri s\<rparr>"
  have u: "s_uri s \<noteq> []" "hd (s_uri s) \<noteq> slash" using s(2) by (auto simp: name_part_def) (metis list.set_sel(1))
  have "filling ig (ls_lib st) ?s0" using st by (simp add: ready_def filling_def)
  moreover have "song_view ?s0 = (s_uri s, s_parent s, 0, 0, 0, -1, False, [])"
    using s(3) by (simp add: song_view_def tag_norm_def)
  ultimately have "advances E ig (ls_lib st) ?s0 (song_body s) (song_view s)" by (rule advances_body [OF E _ _ s(1)])
  then obtain lib1 s1 where 1: "grown ig (ls_lib st) ?s0 (song_view s) lib1 s1"
    "\<And>rest. song_load_loop E (ls_lib st) ?s0 (text_of (song_body s) @ rest) = song_load_loop E lib1 s1 rest"
    unfolding advances_def by blast
  then have f: "filling ig lib1 s1" "song_view s1 = song_view s" "lib_refs lib1 = st_refs st + song_refs s1"
    by (auto simp: grown_def song_refs_def)
  obtain lib2 s2 where 2: "song_end_tag lib1 s1 = Some (lib2, s2)" "lib_ok lib2" "tl_ignore lib2 = ig" "\<not> tl_busy lib2"
    "song_view s2 = song_view s" "song_refs s2 = song_refs s1" "lib_refs lib2 = lib_refs lib1" "no_bulk s2"
    using song_end_tag_ok [OF f(1)] f(2) by auto
  have "plain_line SONG_END" by (simp add: plain_line_def max_line_def SONG_END_def)
  then have "song_load_loop E lib1 s1 (SONG_END @ nl # rest) = Some (Some s2, lib2, rest)"
    using 2(1) by (simp add: song_load_loop.simps [of E lib1 s1] read_text_line_plain)
  with 1(2) [of "SONG_END @ nl # rest"] fl have "song_load_loop E (ls_lib st) ?s0 (ls_file st) = Some (Some s2, lib2, rest)"
    by simp
  then show ?thesis using u 2 f(3)
    by (simp add: simple_db_song_load_def song_file_new_def song_alloc_def ready_def)
qed

section \<open>Loading a directory\<close>

definition filled :: "node \<Rightarrow> bool" where
  "filled d \<longleftrightarrow> list_all no_bulk (tree_songs d)"

lemma filled_Node: "filled (Node d m st cs ss ps) \<longleftrightarrow> list_all no_bulk ss \<and> list_all filled cs"
  by (auto simp: filled_def [abs_def] list_all_iff)

definition dir_loads :: "db_env \<Rightarrow> bool list \<Rightarrow> node \<Rightarrow> string list \<Rightarrow> dir_view \<Rightarrow> bool" where
  "dir_loads E ig d ls v \<longleftrightarrow> (\<forall>n st rest. ready ig st \<longrightarrow> ls_file st = text_of ls @ rest \<longrightarrow> length (ls_file st) < n \<longrightarrow>
     (\<exists>n' d' st'. simple_db_directory_load n E d st = simple_db_directory_load n' E d' st' \<and> ready ig st' \<and>
        ls_file st' = rest \<and> length rest < n' \<and> tree_view d' = v \<and> st_refs st' + tree_refs d = st_refs st + tree_refs d' \<and>
        (filled d \<longrightarrow> filled d')))"

lemma dir_loadsD:
  assumes "dir_loads E ig d ls v" "ready ig st" "ls_file st = text_of ls @ rest" "length (ls_file st) < n"
  obtains n' d' st' where "simple_db_directory_load n E d st = simple_db_directory_load n' E d' st'" "ready ig st'"
    "ls_file st' = rest" "length rest < n'" "tree_view d' = v" "st_refs st' + tree_refs d = st_refs st + tree_refs d'"
    "filled d \<longrightarrow> filled d'"
  using assms unfolding dir_loads_def by blast

lemma dir_loads_Nil: "tree_view d = v \<Longrightarrow> dir_loads E ig d [] v"
  by (auto simp: dir_loads_def)

lemma refs_trans:
  fixes a b c s0 s1 s2 :: "tag_item multiset"
  assumes "a + s1 = c + s2" "c + s0 = b + s1"
  shows "a + s0 = b + s2"
proof -
  have "(a + s0) + (c + s1) = (a + s1) + (c + s0)" by (simp only: ac_simps)
  also have "\<dots> = (b + s2) + (c + s1)" unfolding assms by (simp only: ac_simps)
  finally show ?thesis by simp
qed

lemma dir_loads_append:
  assumes "dir_loads E ig d xs v" "\<And>d'. tree_view d' = v \<Longrightarrow> dir_loads E ig d' ys w"
  shows "dir_loads E ig d (xs @ ys) w"
  unfolding dir_loads_def
proof (intro allI impI)
  fix n st rest
  assume a: "ready ig st" "ls_file st = text_of (xs @ ys) @ rest" "length (ls_file st) < n"
  have "ls_file st = text_of xs @ text_of ys @ rest" using a(2) by simp
  then obtain n1 d1 st1 where 1: "simple_db_directory_load n E d st = simple_db_directory_load n1 E d1 st1" "ready ig st1"
    "ls_file st1 = text_of ys @ rest" "length (text_of ys @ rest) < n1" "tree_view d1 = v" "st_refs st1 + tree_refs d = st_refs st + tree_refs d1"
    "filled d \<longrightarrow> filled d1"
    using dir_loadsD [OF assms(1) a(1) _ a(3)] by metis
  then obtain n2 d2 st2 where 2: "simple_db_directory_load n1 E d1 st1 = simple_db_directory_load n2 E d2 st2"
    "ready ig st2" "ls_file st2 = rest" "length rest < n2" "tree_view d2 = w" "st_refs st2 + tree_refs d1 = st_refs st1 + tree_refs d2"
    "filled d1 \<longrightarrow> filled d2"
    using dir_loadsD [OF assms(2) [OF 1(5)] 1(2,3)] by metis
  show "\<exists>n' d' st'. simple_db_directory_load n E d st = simple_db_directory_load n' E d' st' \<and> ready ig st' \<and>
      ls_file st' = rest \<and> length rest < n' \<and> tree_view d' = w \<and> st_refs st' + tree_refs d = st_refs st + tree_refs d' \<and>
      (filled d \<longrightarrow> filled d')"
    using 1 2 refs_trans [OF 2(6) 1(6)] by auto
qed

text \<open>What a directory is known by: its own view.\<close>

fun view_dir :: "dir_view \<Rightarrow> directory" where
  "view_dir (DirView d m cs ss ps) = d"

lemma tree_view_parts:
  assumes "tree_view t = DirView d m cs ss ps"
  shows "nd_dir t = d" "nd_mtime t = m" "map tree_view (nd_children t) = cs" "map song_view (nd_songs t) = ss" "nd_playlists t = ps"
  using assms by (cases t; simp)+

lemma nd_dir_view: "nd_dir t = view_dir (tree_view t)"
  by (cases t) simp

lemma read_line_plain:
  "plain_line l \<Longrightarrow> ls_file st = l @ nl # rest \<Longrightarrow> read_line st = Some (Some l, st\<lparr>ls_file := rest\<rparr>)"
  by (simp add: read_line_def read_text_line_plain)

lemma label_prefixes:
  "\<not> prefix DIRECTORY_END (DIRECTORY_DIR @ x)" "\<not> prefix DIRECTORY_END (SONG_BEGIN @ x)" "\<not> prefix DIRECTORY_DIR (SONG_BEGIN @ x)"
  "\<not> prefix DIRECTORY_END (PLAYLIST_META_BEGIN @ x)" "\<not> prefix DIRECTORY_DIR (PLAYLIST_META_BEGIN @ x)"
  "\<not> prefix SONG_BEGIN (PLAYLIST_META_BEGIN @ x)"
  by (simp_all add: db_labels)

lemma dir_loads_song:
  assumes E: "isspace_ok E" and d: "tree_view d = DirView dd m cs ss ps"
    and s: "stored_song E ig s" "name_part (s_uri s)" "s_parent s = Some dd"
    and ss: "\<forall>v \<in> set ss. fst (snd v) = Some dd \<and> fst v \<noteq> s_uri s"
  shows "dir_loads E ig d (song_lines s) (DirView dd m cs (ss @ [song_view s]) ps)"
  unfolding dir_loads_def
proof (intro allI impI)
  fix n st rest
  assume a: "ready ig st" "ls_file st = text_of (song_lines s) @ rest" "length (ls_file st) < n"
  note p = tree_view_parts [OF d]
  obtain n' where n: "n = Suc n'" using a(3) by (cases n) auto
  let ?st = "st\<lparr>ls_file := text_of (song_body s @ [SONG_END]) @ rest\<rparr>"
  have "plain_line (SONG_BEGIN @ s_uri s)" using s(1) by (simp add: stored_song_def)
  then have r: "read_line st = Some (Some (SONG_BEGIN @ s_uri s), ?st)"
    using a(2) read_line_plain [of "SONG_BEGIN @ s_uri s" st "text_of (song_body s @ [SONG_END]) @ rest"] by (simp add: song_lines_def)
  have ss': "\<forall>x \<in> set (nd_songs d). s_parent x = Some dd \<and> s_uri x \<noteq> s_uri s"
    using ss unfolding p(4) [symmetric] by (auto simp: song_view_def)
  then have "get_song_loop (nd_dir d) (s_uri s) (nd_songs d) = Some (List.find (\<lambda>x. s_uri x = s_uri s) (nd_songs d))"
    using p(1) by (intro get_song_loop_find) simp
  moreover have "List.find (\<lambda>x. s_uri x = s_uri s) (nd_songs d) = None"
    using ss' by (simp add: find_None_iff)
  ultimately have g: "directory_get_song d (s_uri s) = Some None" by (simp add: directory_get_song_def)
  obtain s' st' where l: "simple_db_song_load E ?st (Some dd) (s_uri s) = Some (Some s', st')" "song_view s' = song_view s"
    "ready ig st'" "ls_file st' = rest" "st_refs st' = st_refs st + song_refs s'" "no_bulk s'"
    using song_loads [OF E _ s, of ?st rest] a(1) by (auto simp: ready_def)
  have sp: "s_parent s' = Some dd" using l(2) s(3) by (simp add: song_view_def)
  let ?d = "Node (nd_dir d) (nd_mtime d) (nd_stat d) (nd_children d) (nd_songs d @ [s']) (nd_playlists d)"
  have "simple_db_directory_load n E d st = simple_db_directory_load n' E ?d st'"
    using r g l(1) p(1) sp by (simp add: n label_prefixes directory_add_song_def)
  moreover have "tree_view ?d = DirView dd m cs (ss @ [song_view s]) ps" using p l(2) by simp
  moreover have "tree_refs ?d = tree_refs d + song_refs s'" "filled d \<longrightarrow> filled ?d"
    using l(6) by (cases d; simp add: tree_refs_Node filled_Node)+
  moreover have "length rest < n'" using a(2,3) by (simp add: n song_lines_def)
  ultimately show "\<exists>n' d' st'. simple_db_directory_load n E d st = simple_db_directory_load n' E d' st' \<and> ready ig st' \<and>
      ls_file st' = rest \<and> length rest < n' \<and> tree_view d' = DirView dd m cs (ss @ [song_view s]) ps \<and>
      st_refs st' + tree_refs d = st_refs st + tree_refs d' \<and> (filled d \<longrightarrow> filled d')"
    using l by (intro exI [of _ n'] exI [of _ ?d] exI [of _ st'] conjI) (simp_all add: ac_simps)
qed

text \<open>One playlist.\<close>

lemma playlist_loads:
  assumes E: "isspace_ok E" and p: "stored_playlist pm"
  shows "playlist_metadata_loop E 0 (text_of [''mtime: '' @ show_int (pm_mtime pm), ''playlist_end''] @ rest) =
    Some (Some (pm_mtime pm), rest)"
proof -
  have m: "- (2 ^ 63) \<le> pm_mtime pm" "pm_mtime pm < 2 ^ 63" using p by (simp_all add: stored_playlist_def)
  let ?l = "''mtime: '' @ show_int (pm_mtime pm)"
  have "plain_line ?l"
    using m length_show_int [OF m] show_int_chars [of _ "pm_mtime pm"] by (intro plain_labelled) (auto simp: plain_line_def max_line_def)
  then have "read_text_line (?l @ nl # ''playlist_end'' @ nl # rest) = Some (Some ?l, ''playlist_end'' @ nl # rest)"
    by (rule read_text_line_plain)
  moreover have "split_line (dbe_isspace E) ?l = Some (''mtime'', show_int (pm_mtime pm))"
    using split_line_label [of E "''mtime''" "show_int (pm_mtime pm)"] E show_int_not_isspace(1) [OF E] by (simp add: isspace_ok_def)
  moreover have "fst (strtol (show_int (pm_mtime pm))) = pm_mtime pm"
    using strtol_show_int [of "[]", OF _ m] by (simp add: stops_number_def)
  moreover have "read_text_line (''playlist_end'' @ nl # rest) = Some (Some ''playlist_end'', rest)"
    by (rule read_text_line_plain) (simp add: plain_line_def max_line_def)
  ultimately show ?thesis
    by (simp add: playlist_metadata_loop.simps [of E "pm_mtime pm"] playlist_metadata_loop.simps [of E 0])
qed

lemma dir_loads_playlist:
  assumes E: "isspace_ok E" and d: "tree_view d = DirView dd m cs ss ps"
    and p: "stored_playlist pm" "pm_name pm \<notin> pm_name ` set ps"
  shows "dir_loads E ig d (playlist_lines pm) (DirView dd m cs ss (ps @ [pm]))"
  unfolding dir_loads_def
proof (intro allI impI)
  fix n st rest
  assume a: "ready ig st" "ls_file st = text_of (playlist_lines pm) @ rest" "length (ls_file st) < n"
  note v = tree_view_parts [OF d]
  obtain n' where n: "n = Suc n'" using a(3) by (cases n) auto
  let ?body = "text_of [''mtime: '' @ show_int (pm_mtime pm), ''playlist_end''] @ rest"
  have "plain_line (PLAYLIST_META_BEGIN @ pm_name pm)" using p(1) by (simp add: stored_playlist_def)
  then have r: "read_line st = Some (Some (PLAYLIST_META_BEGIN @ pm_name pm), st\<lparr>ls_file := ?body\<rparr>)"
    using a(2) read_line_plain [of "PLAYLIST_META_BEGIN @ pm_name pm" st ?body] by (simp add: playlist_lines_def)
  have "playlist_vector_find ps (pm_name pm) = None" 
    using p(2) unfolding playlist_vector_find_def find_None_iff by (metis image_eqI)
  then have l: "playlist_metadata_load E (nd_playlists d) (pm_name pm) ?body = Some (MPD_SUCCESS, ps @ [pm], rest)"
    using playlist_loads [OF E p(1), of rest] v(5)
    by (simp add: playlist_metadata_load_def playlist_vector_update_or_add_def playlist_vector_add_def)
  let ?d = "set_playlists (ps @ [pm]) d" and ?st = "st\<lparr>ls_file := rest\<rparr>"
  have "simple_db_directory_load n E d st = simple_db_directory_load n' E ?d ?st"
    using r l by (simp add: n label_prefixes Let_def)
  moreover have "tree_view ?d = DirView dd m cs ss (ps @ [pm])" using v by (simp add: set_playlists_def)
  moreover have "tree_refs ?d = tree_refs d" "filled d \<longrightarrow> filled ?d"
    by (cases d; simp add: tree_refs_Node filled_Node set_playlists_def)+
  moreover have "length rest < n'" using a(2,3) by (simp add: n playlist_lines_def)
  ultimately show "\<exists>n' d' st'. simple_db_directory_load n E d st = simple_db_directory_load n' E d' st' \<and> ready ig st' \<and>
      ls_file st' = rest \<and> length rest < n' \<and> tree_view d' = DirView dd m cs ss (ps @ [pm]) \<and>
      st_refs st' + tree_refs d = st_refs st + tree_refs d' \<and> (filled d \<longrightarrow> filled d')"
    using a(1) by (intro exI [of _ n'] exI [of _ ?d] exI [of _ ?st] conjI) (simp_all add: ready_def)
qed

text \<open>Lists of songs and playlists.\<close>

lemma song_view_fst: "fst (song_view s) = s_uri s" "fst (snd (song_view s)) = s_parent s"
  by (simp_all add: song_view_def)

lemma dir_loads_songs:
  assumes E: "isspace_ok E"
  shows "list_all (stored_song E ig) ss' \<Longrightarrow> \<forall>s \<in> set ss'. s_parent s = Some dd \<and> name_part (s_uri s) \<Longrightarrow>
    distinct (map fst ss @ map s_uri ss') \<Longrightarrow> \<forall>v \<in> set ss. fst (snd v) = Some dd \<Longrightarrow> tree_view d = DirView dd m cs ss ps \<Longrightarrow>
    dir_loads E ig d (concat (map song_lines ss')) (DirView dd m cs (ss @ map song_view ss') ps)"
proof (induction ss' arbitrary: d ss)
  case Nil
  then show ?case by (simp add: dir_loads_Nil)
next
  case (Cons s ss')
  have "dir_loads E ig d (song_lines s) (DirView dd m cs (ss @ [song_view s]) ps)"
    using Cons.prems by (intro dir_loads_song [OF E]) (auto simp: image_iff)
  moreover have "dir_loads E ig d' (concat (map song_lines ss')) (DirView dd m cs (ss @ map song_view (s # ss')) ps)"
    if "tree_view d' = DirView dd m cs (ss @ [song_view s]) ps" for d'
    using Cons.IH [of "ss @ [song_view s]" d'] Cons.prems that by (auto simp: song_view_fst)
  ultimately show ?case by (simp add: dir_loads_append)
qed

lemma dir_loads_playlists:
  assumes E: "isspace_ok E"
  shows "list_all stored_playlist ps' \<Longrightarrow> distinct (map pm_name (ps @ ps')) \<Longrightarrow> tree_view d = DirView dd m cs ss ps \<Longrightarrow>
    dir_loads E ig d (concat (map playlist_lines ps')) (DirView dd m cs ss (ps @ ps'))"
proof (induction ps' arbitrary: d ps)
  case Nil
  then show ?case by (simp add: dir_loads_Nil)
next
  case (Cons pm ps')
  have "dir_loads E ig d (playlist_lines pm) (DirView dd m cs ss (ps @ [pm]))"
    using Cons.prems by (intro dir_loads_playlist [OF E]) auto
  moreover have "dir_loads E ig d' (concat (map playlist_lines ps')) (DirView dd m cs ss (ps @ pm # ps'))"
    if "tree_view d' = DirView dd m cs ss (ps @ [pm])" for d'
    using Cons.IH [of "ps @ [pm]" d'] Cons.prems that by simp
  ultimately show ?case by (simp add: dir_loads_append)
qed

section \<open>Loading a tree\<close>

fun body_lines :: "node \<Rightarrow> string list" where
  "body_lines (Node d m st cs ss ps) =
     concat (map (\<lambda>c. (DIRECTORY_DIR @ child_name d (nd_dir c)) # node_lines c) cs) @
     concat (map song_lines ss) @ concat (map playlist_lines ps)"

lemma node_lines_body: "node_lines t = dir_head (nd_dir t) (nd_mtime t) @ body_lines t @ dir_tail (nd_dir t)"
  by (cases t) simp

lemma stored_path:
  assumes "stored_tree E ig c"
  shows "length (dir_path (nd_dir c)) < max_line - 20" "nl \<notin> set (dir_path (nd_dir c))"
    "dir_path (nd_dir c) \<noteq> [] \<Longrightarrow> last (dir_path (nd_dir c)) \<noteq> CHR 0x0D" "- (2 ^ 63) \<le> nd_mtime c" "nd_mtime c < 2 ^ 63"
  using assms by (cases c; simp)+

lemma plain_path:
  assumes "plain_line l" "length l < 20" "p \<noteq> []" "length p < max_line - 20" "nl \<notin> set p" "last p \<noteq> CHR 0x0D"
  shows "plain_line (l @ p)"
  using assms by (auto simp: plain_line_def)

lemma to_time_t_mod: "- (2 ^ 63) \<le> m \<Longrightarrow> m < 2 ^ 63 \<Longrightarrow> to_time_t (nat (m mod 2 ^ 64)) = m"
proof -
  assume m: "- (2 ^ 63) \<le> m" "m < 2 ^ 63"
  have "m mod 2 ^ 64 = (if m < 0 then m + 2 ^ 64 else m)"
  proof (cases "m < 0")
    case True
    then have "(m + 2 ^ 64) mod 2 ^ 64 = m + 2 ^ 64" using m by (intro mod_pos_pos_trivial) simp_all
    with True show ?thesis by simp
  qed (use m in simp)
  then show ?thesis using m by (auto simp: to_time_t_def)
qed

lemma child_paths:
  assumes "child_of d (nd_dir c)" "stored_tree E ig c"
  shows "plain_line (DIRECTORY_DIR @ child_name d (nd_dir c))" "plain_line (DIRECTORY_BEGIN @ dir_path (nd_dir c))"
    "plain_line (DIRECTORY_END @ dir_path (nd_dir c))" "plain_line (DIRECTORY_MTIME @ show_nat (nat (nd_mtime c mod 2 ^ 64)))"
    "strtoul (show_nat (nat (nd_mtime c mod 2 ^ 64))) = (nat (nd_mtime c mod 2 ^ 64), [])"
proof -
  note s = stored_path [OF assms(2)]
  obtain q where q: "dir_path (nd_dir c) = q @ child_name d (nd_dir c)" and n: "child_name d (nd_dir c) \<noteq> []"
    using assms(1) by (auto simp: child_of_def child_path_def build_db_filename_def name_part_def split: if_splits)
  then have ne: "dir_path (nd_dir c) \<noteq> []" by simp
  show "plain_line (DIRECTORY_DIR @ child_name d (nd_dir c))"
    using n q s by (intro plain_path) (auto simp: DIRECTORY_DIR_def plain_line_def max_line_def)
  show "plain_line (DIRECTORY_BEGIN @ dir_path (nd_dir c))" "plain_line (DIRECTORY_END @ dir_path (nd_dir c))"
    using ne s by (intro plain_path; simp add: db_labels plain_line_def max_line_def)+
  have b: "nat (nd_mtime c mod 2 ^ 64) < 2 ^ 64" by (simp add: nat_less_iff)
  then have "length (show_nat (nat (nd_mtime c mod 2 ^ 64))) \<le> 20"
    using length_show_nat [of "nat (nd_mtime c mod 2 ^ 64)" 20] by simp
  then show "plain_line (DIRECTORY_MTIME @ show_nat (nat (nd_mtime c mod 2 ^ 64)))"
    using show_nat_chars by (intro plain_labelled) (auto simp: DIRECTORY_MTIME_def plain_line_def max_line_def)
  show "strtoul (show_nat (nat (nd_mtime c mod 2 ^ 64))) = (nat (nd_mtime c mod 2 ^ 64), [])"
    using strtoul_show_nat [of "[]", OF _ b] by (simp add: stops_number_def)
qed

lemma new_child_of:
  assumes "child_of (nd_dir d) c"
  shows "directory_new_child d (child_name (nd_dir d) c) = Some (Node c 0 \<lparr>ds_inode = 0, ds_device = 0, ds_have_stat = False\<rparr> [] [] [])"
proof -
  have "child_path (nd_dir d) (child_name (nd_dir d) c) = dir_path c" "dir_has_parent c" "child_name (nd_dir d) c \<noteq> []"
    using assms by (auto simp: child_of_def name_part_def)
  moreover from this have "dir_path c \<noteq> []" by (auto simp: child_path_def build_db_filename_def split: if_splits)
  ultimately show ?thesis
    by (cases c) (auto simp: directory_new_child_def directory_new_def child_path_def directory_get_path_def)
qed

lemma dir_loads_child:
  assumes E: "isspace_ok E" and d: "tree_view d = DirView dd m cs ss ps"
    and c: "child_of dd (nd_dir c)" "stored_tree E ig c"
    and cs: "\<forall>v \<in> set cs. child_of dd (view_dir v) \<and> child_name dd (view_dir v) \<noteq> child_name dd (nd_dir c)"
    and IH: "\<And>d0. tree_view d0 = DirView (nd_dir c) (nd_mtime c) [] [] [] \<Longrightarrow> dir_loads E ig d0 (body_lines c) (tree_view c)"
  shows "dir_loads E ig d ((DIRECTORY_DIR @ child_name dd (nd_dir c)) # node_lines c) (DirView dd m (cs @ [tree_view c]) ss ps)"
  unfolding dir_loads_def
proof (intro allI impI)
  fix n st rest
  let ?name = "child_name dd (nd_dir c)"
  assume a: "ready ig st" "ls_file st = text_of ((DIRECTORY_DIR @ ?name) # node_lines c) @ rest" "length (ls_file st) < n"
  note v = tree_view_parts [OF d] and pl = child_paths [OF c]
  obtain n' where n: "n = Suc n'" using a(3) by (cases n) auto
  have nr: "\<not> directory_is_root (nd_dir c)" using c(1) by (rule child_of_not_root)
  let ?f4 = "(DIRECTORY_END @ dir_path (nd_dir c)) @ nl # rest"
  let ?f3 = "text_of (body_lines c) @ ?f4"
  let ?f2 = "(DIRECTORY_BEGIN @ dir_path (nd_dir c)) @ nl # ?f3"
  let ?f1 = "(DIRECTORY_MTIME @ show_nat (nat (nd_mtime c mod 2 ^ 64))) @ nl # ?f2"
  have f: "ls_file st = (DIRECTORY_DIR @ ?name) @ nl # ?f1"
    using a(2) nr by (simp add: node_lines_body dir_head_def dir_tail_def)
  have r0: "read_line st = Some (Some (DIRECTORY_DIR @ ?name), st\<lparr>ls_file := ?f1\<rparr>)"
    by (rule read_line_plain [OF pl(1) f])
  have r1: "read_line (st\<lparr>ls_file := ?f1\<rparr>) = Some (Some (DIRECTORY_MTIME @ show_nat (nat (nd_mtime c mod 2 ^ 64))), st\<lparr>ls_file := ?f2\<rparr>)"
    using read_line_plain [OF pl(4), of "st\<lparr>ls_file := ?f1\<rparr>" ?f2] by simp
  have r2: "read_line (st\<lparr>ls_file := ?f2\<rparr>) = Some (Some (DIRECTORY_BEGIN @ dir_path (nd_dir c)), st\<lparr>ls_file := ?f3\<rparr>)"
    using read_line_plain [OF pl(2), of "st\<lparr>ls_file := ?f2\<rparr>" ?f3] by simp
  have ch: "\<forall>x \<in> set (nd_children d). child_of (nd_dir d) (nd_dir x) \<and> child_name (nd_dir d) (nd_dir x) \<noteq> ?name"
    using cs unfolding v(3) [symmetric] by (simp add: nd_dir_view d)
  then have "directory_get_child d ?name = Some (List.find (\<lambda>x. child_name (nd_dir d) (nd_dir x) = ?name) (nd_children d))"
    unfolding directory_get_child_def by (intro get_child_loop_find) blast
  moreover have "List.find (\<lambda>x. child_name (nd_dir d) (nd_dir x) = ?name) (nd_children d) = None"
    using ch by (simp add: find_None_iff)
  ultimately have g: "directory_get_child d ?name = Some None" by simp
  let ?d0 = "Node (nd_dir c) (nd_mtime c) \<lparr>ds_inode = 0, ds_device = 0, ds_have_stat = False\<rparr> [] [] []"
  have nc: "directory_new_child d ?name = Some (Node (nd_dir c) 0 \<lparr>ds_inode = 0, ds_device = 0, ds_have_stat = False\<rparr> [] [] [])"
    using new_child_of [of d "nd_dir c"] c(1) v(1) by simp
  have "length (ls_file (st\<lparr>ls_file := ?f3\<rparr>)) < n'" using a(3) f by (simp add: n)
  then obtain n2 d2 st2 where l: "simple_db_directory_load n' E ?d0 (st\<lparr>ls_file := ?f3\<rparr>) = simple_db_directory_load n2 E d2 st2"
    "ready ig st2" "ls_file st2 = ?f4" "length ?f4 < n2" "tree_view d2 = tree_view c"
    "st_refs st2 + tree_refs ?d0 = st_refs (st\<lparr>ls_file := ?f3\<rparr>) + tree_refs d2" "filled d2"
    using dir_loadsD [OF IH [of ?d0], of "st\<lparr>ls_file := ?f3\<rparr>" ?f4 n'] a(1) by (auto simp: ready_def filled_Node)
  obtain n3 where n3: "n2 = Suc n3" using l(4) by (cases n2) auto
  have "read_line st2 = Some (Some (DIRECTORY_END @ dir_path (nd_dir c)), st2\<lparr>ls_file := rest\<rparr>)"
    by (rule read_line_plain [OF pl(3) l(3)])
  then have "simple_db_directory_load n' E ?d0 (st\<lparr>ls_file := ?f3\<rparr>) = Some (MPD_SUCCESS, d2, st2\<lparr>ls_file := rest\<rparr>)"
    using l(1) by (simp add: n3)
  then have "simple_db_directory_load_subdir n' E d ?name (st\<lparr>ls_file := ?f1\<rparr>) = Some (MPD_SUCCESS, add_child d d2, st2\<lparr>ls_file := rest\<rparr>)"
    using g nc r1 r2 pl(5) to_time_t_mod [OF stored_path(4,5) [OF c(2)]] by (simp add: set_dir_mtime_def)
  then have "simple_db_directory_load n E d st = simple_db_directory_load n' E (add_child d d2) (st2\<lparr>ls_file := rest\<rparr>)"
    using r0 by (simp add: n label_prefixes del: simple_db_directory_load_subdir.simps)
  moreover have "tree_view (add_child d d2) = DirView dd m (cs @ [tree_view c]) ss ps" using v l(5) by (simp add: add_child_def)
  moreover have "tree_refs (add_child d d2) = tree_refs d + tree_refs d2" "filled d \<longrightarrow> filled (add_child d d2)"
    using l(7) by (cases d; simp add: tree_refs_Node filled_Node add_child_def ac_simps)+
  moreover have "length rest < n'" using a(3) f by (simp add: n)
  ultimately show "\<exists>n' d' st'. simple_db_directory_load n E d st = simple_db_directory_load n' E d' st' \<and> ready ig st' \<and>
      ls_file st' = rest \<and> length rest < n' \<and> tree_view d' = DirView dd m (cs @ [tree_view c]) ss ps \<and>
      st_refs st' + tree_refs d = st_refs st + tree_refs d' \<and> (filled d \<longrightarrow> filled d')"
    using l(2,6) by (intro exI [of _ n'] exI [of _ "add_child d d2"] exI [of _ "st2\<lparr>ls_file := rest\<rparr>"] conjI)
      (simp_all add: ready_def tree_refs_Node ac_simps)
qed

lemma dir_loads_children:
  assumes E: "isspace_ok E" and c: "\<forall>c \<in> set cs'. child_of dd (nd_dir c) \<and> stored_tree E ig c"
    and IH: "\<And>c d0. c \<in> set cs' \<Longrightarrow> tree_view d0 = DirView (nd_dir c) (nd_mtime c) [] [] [] \<Longrightarrow>
      dir_loads E ig d0 (body_lines c) (tree_view c)"
    and d: "tree_view d = DirView dd m cs ss ps"
    and cs: "\<forall>v \<in> set cs. child_of dd (view_dir v)"
      "distinct (map (\<lambda>v. child_name dd (view_dir v)) cs @ map (\<lambda>c. child_name dd (nd_dir c)) cs')"
  shows "dir_loads E ig d (concat (map (\<lambda>c. (DIRECTORY_DIR @ child_name dd (nd_dir c)) # node_lines c) cs'))
    (DirView dd m (cs @ map tree_view cs') ss ps)"
  using c IH d cs
proof (induction cs' arbitrary: d cs)
  case Nil
  then show ?case by (simp add: dir_loads_Nil)
next
  case (Cons c cs')
  let ?l = "(DIRECTORY_DIR @ child_name dd (nd_dir c)) # node_lines c"
  let ?ls = "concat (map (\<lambda>c. (DIRECTORY_DIR @ child_name dd (nd_dir c)) # node_lines c) cs')"
  have "dir_loads E ig d ?l (DirView dd m (cs @ [tree_view c]) ss ps)"
    using Cons.prems by (intro dir_loads_child [OF E]) (auto simp: image_iff)
  moreover have "dir_loads E ig d' ?ls (DirView dd m (cs @ map tree_view (c # cs')) ss ps)"
    if "tree_view d' = DirView dd m (cs @ [tree_view c]) ss ps" for d'
    using Cons.IH [OF _ _ that] Cons.prems by (auto simp: nd_dir_view)
  ultimately have "dir_loads E ig d (?l @ ?ls) (DirView dd m (cs @ map tree_view (c # cs')) ss ps)"
    by (rule dir_loads_append)
  then show ?case by simp
qed

lemma dir_loads_tree:
  assumes E: "isspace_ok E"
  shows "tree_ok t \<Longrightarrow> stored_tree E ig t \<Longrightarrow> tree_view d0 = DirView (nd_dir t) (nd_mtime t) [] [] [] \<Longrightarrow>
    dir_loads E ig d0 (body_lines t) (tree_view t)"
proof (induction t arbitrary: d0)
  case (Node d m st cs ss ps)
  let ?v1 = "DirView d m (map tree_view cs) [] []" and ?v2 = "DirView d m (map tree_view cs) (map song_view ss) []"
  have 1: "dir_loads E ig d0 (concat (map (\<lambda>c. (DIRECTORY_DIR @ child_name d (nd_dir c)) # node_lines c) cs)) ?v1"
    using dir_loads_children [OF E, of cs d ig d0 m "[]" "[]" "[]"] Node by simp
  have 2: "dir_loads E ig d1 (concat (map song_lines ss)) ?v2" if "tree_view d1 = ?v1" for d1
    using dir_loads_songs [OF E, of ig ss d "[]" d1 m "map tree_view cs" "[]"] Node.prems that by simp
  have 3: "dir_loads E ig d2 (concat (map playlist_lines ps)) (tree_view (Node d m st cs ss ps))" if "tree_view d2 = ?v2" for d2
    using dir_loads_playlists [OF E, of ps "[]" d2 d m "map tree_view cs" "map song_view ss" ig] Node.prems that by simp
  show ?case
    unfolding body_lines.simps by (rule dir_loads_append [OF 1]) (rule dir_loads_append [OF 2 3])
qed

section \<open>The header\<close>

definition header_lines :: "db_env \<Rightarrow> bool list \<Rightarrow> string list" where
  "header_lines E ig =
     [DB_FORMAT_PREFIX @ show_int DB_FORMAT, DIRECTORY_MPD_VERSION @ dbe_version E,
      DIRECTORY_FS_CHARSET @ (case dbe_charset E of None \<Rightarrow> ''(null)'' | Some c \<Rightarrow> c)] @
     map (\<lambda>i. DB_TAG_PREFIX @ tag_item_names ! i) (filter (\<lambda>i. \<not> ig ! i) [0..<18])"

definition header_ok :: "db_env \<Rightarrow> bool" where
  "header_ok E \<longleftrightarrow> plain_line (DIRECTORY_MPD_VERSION @ dbe_version E) \<and>
     plain_line (DIRECTORY_FS_CHARSET @ (case dbe_charset E of None \<Rightarrow> ''(null)'' | Some c \<Rightarrow> c))"

lemma tag_lines_saved:
  assumes "length (tl_ignore lib) = 18"
  shows "n \<le> 18 \<Longrightarrow> for_each (tag_line lib) [0..<n] fp =
    Some (fp @ text_of (map (\<lambda>i. DB_TAG_PREFIX @ tag_item_names ! i) (filter (\<lambda>i. \<not> tl_ignore lib ! i) [0..<n])))"
proof (induction n)
  case (Suc n)
  then have "aget tag_item_names n = Some (tag_item_names ! n)" by (simp add: tag_item_names_def)
  with Suc assms show ?case by (simp add: for_each_append tag_line_def)
qed simp

lemma save_internal_lines:
  assumes "db_env_ok E" "tree_ok t" "stored_tree E (tl_ignore lib) t" "lib_ok lib"
  shows "simple_db_save_internal E lib t [] =
    Some (text_of ([DIRECTORY_INFO_BEGIN] @ header_lines E (tl_ignore lib) @ [DIRECTORY_INFO_END] @ node_lines t))"
  using assms tag_lines_saved [of lib 18] directory_save_lines [OF assms(1-3)]
  by (simp add: simple_db_save_internal_def header_lines_def lib_ok_def Let_def)

lemma info_loop_line:
  "plain_line l \<Longrightarrow> l \<noteq> DIRECTORY_INFO_END \<Longrightarrow> info_line E l info = Some (Some info') \<Longrightarrow>
   info_loop E info (l @ nl # rest) = info_loop E info' rest"
  by (simp add: info_loop.simps [of E info] read_text_line_plain)

lemma tag_item_name:
  assumes "i < 18"
  shows "tag_name_parse (tag_item_names ! i) = tag_types ! i" "tag_types ! i \<noteq> TAG_NUM_OF_ITEM_TYPES"
    "plain_line (DB_TAG_PREFIX @ tag_item_names ! i)"
proof -
  have t: "tag_type_number (tag_types ! i) = i" using assms by (rule tag_types_number(1))
  have "tag_type_number (tag_types ! i) \<noteq> 18" using t assms by simp
  then show n: "tag_types ! i \<noteq> TAG_NUM_OF_ITEM_TYPES" by auto
  have "tag_name (tag_types ! i) = tag_item_names ! i" by (simp add: tag_name_def t)
  then show "tag_name_parse (tag_item_names ! i) = tag_types ! i" using tag_name_parse_name [OF n] by simp
  have "list_all (\<lambda>n. plain_line (DB_TAG_PREFIX @ n)) tag_item_names"
    by (simp add: tag_item_names_def plain_line_def max_line_def DB_TAG_PREFIX_def)
  then show "plain_line (DB_TAG_PREFIX @ tag_item_names ! i)" using assms by (simp add: list_all_length tag_item_names_def)
qed

lemma info_prefixes:
  "\<not> prefix DB_FORMAT_PREFIX (DB_TAG_PREFIX @ x)" "\<not> prefix DIRECTORY_MPD_VERSION (DB_TAG_PREFIX @ x)"
  "\<not> prefix DIRECTORY_FS_CHARSET (DB_TAG_PREFIX @ x)" "\<not> prefix DB_FORMAT_PREFIX (DIRECTORY_MPD_VERSION @ x)"
  "\<not> prefix DB_FORMAT_PREFIX (DIRECTORY_FS_CHARSET @ x)" "\<not> prefix DIRECTORY_MPD_VERSION (DIRECTORY_FS_CHARSET @ x)"
  "DB_TAG_PREFIX @ x \<noteq> DIRECTORY_INFO_END" "DB_FORMAT_PREFIX @ x \<noteq> DIRECTORY_INFO_END"
  "DIRECTORY_MPD_VERSION @ x \<noteq> DIRECTORY_INFO_END" "DIRECTORY_FS_CHARSET @ x \<noteq> DIRECTORY_INFO_END"
  by (simp_all add: db_labels)

lemma info_loop_tags:
  "length (di_tags info) = 18 \<Longrightarrow> \<forall>i \<in> set is. i < 18 \<Longrightarrow>
   \<exists>tags. info_loop E info (text_of (map (\<lambda>i. DB_TAG_PREFIX @ tag_item_names ! i) is) @ rest) = info_loop E (info\<lparr>di_tags := tags\<rparr>) rest \<and>
     length tags = 18 \<and> (\<forall>i < 18. tags ! i \<longleftrightarrow> di_tags info ! i \<or> i \<in> set is)"
proof (induction "is" arbitrary: info)
  case Nil
  then show ?case by (auto intro!: exI [of _ "di_tags info"])
next
  case (Cons i "is")
  let ?info = "info\<lparr>di_tags := (di_tags info)[i := True]\<rparr>"
  have i: "i < 18" using Cons.prems by simp
  note n = tag_item_name [OF i]
  have "info_line E (DB_TAG_PREFIX @ tag_item_names ! i) info = Some (Some ?info)"
    using n Cons.prems(1) i by (simp add: info_line_def info_prefixes tag_types_number(1))
  with n(3) have "info_loop E info (text_of (map (\<lambda>i. DB_TAG_PREFIX @ tag_item_names ! i) (i # is)) @ rest) =
      info_loop E ?info (text_of (map (\<lambda>i. DB_TAG_PREFIX @ tag_item_names ! i) is) @ rest)"
    by (simp add: info_loop_line [of "DB_TAG_PREFIX @ tag_item_names ! i", simplified] info_prefixes)
  moreover obtain tags where "info_loop E ?info (text_of (map (\<lambda>i. DB_TAG_PREFIX @ tag_item_names ! i) is) @ rest) =
      info_loop E (info\<lparr>di_tags := tags\<rparr>) rest" "length tags = 18" "\<forall>j < 18. tags ! j \<longleftrightarrow> (di_tags info)[i := True] ! j \<or> j \<in> set is"
    using Cons.IH [of ?info] Cons.prems by auto
  moreover have "(di_tags info)[i := True] ! j \<longleftrightarrow> j = i \<or> di_tags info ! j" if "j < 18" for j
    using that Cons.prems(1) by (cases "j = i") simp_all
  ultimately show ?case by (intro exI [of _ tags]) auto
qed

lemma info_loop_header:
  assumes "header_ok E"
  shows "\<exists>info. info_loop E \<lparr>di_format = 0, di_charset = False, di_version = False, di_tags = replicate 18 False\<rparr>
      (text_of (header_lines E ig @ [DIRECTORY_INFO_END]) @ rest) = Some (Some info, rest) \<and> di_format info = DB_FORMAT \<and>
    length (di_tags info) = 18 \<and> (\<forall>i < 18. di_tags info ! i \<longleftrightarrow> \<not> ig ! i)"
proof -
  let ?cs = "case dbe_charset E of None \<Rightarrow> ''(null)'' | Some c \<Rightarrow> c"
  let ?tags = "map (\<lambda>i. DB_TAG_PREFIX @ tag_item_names ! i) (filter (\<lambda>i. \<not> ig ! i) [0..<18])"
  let ?i0 = "\<lparr>di_format = 0, di_charset = False, di_version = False, di_tags = replicate 18 False\<rparr>"
  let ?i3 = "\<lparr>di_format = 1, di_charset = True, di_version = True, di_tags = replicate 18 False\<rparr>"
  have "plain_line (DB_FORMAT_PREFIX @ show_int DB_FORMAT)"
    using length_show_int [of 1] show_int_chars [of _ 1] by (intro plain_labelled) (auto simp: DB_FORMAT_PREFIX_def plain_line_def max_line_def)
  then have 1: "info_loop E ?i0 ((DB_FORMAT_PREFIX @ show_int DB_FORMAT) @ nl # r) = info_loop E (?i0\<lparr>di_format := 1\<rparr>) r" for r
    by (rule info_loop_line) (simp_all add: info_prefixes info_line_def atoi_show_int)
  have 2: "info_loop E (?i0\<lparr>di_format := 1\<rparr>) ((DIRECTORY_MPD_VERSION @ dbe_version E) @ nl # r) =
      info_loop E (?i0\<lparr>di_format := 1, di_version := True\<rparr>) r" for r
    using assms by (intro info_loop_line) (simp_all add: header_ok_def info_prefixes info_line_def)
  have 3: "info_loop E (?i0\<lparr>di_format := 1, di_version := True\<rparr>) ((DIRECTORY_FS_CHARSET @ ?cs) @ nl # r) = info_loop E ?i3 r" for r
    using assms by (intro info_loop_line) (auto simp: header_ok_def info_prefixes info_line_def split: option.splits)
  have 4: "info_loop E info (DIRECTORY_INFO_END @ nl # rest) = Some (Some info, rest)" for info
    using read_text_line_plain [of DIRECTORY_INFO_END rest]
    by (simp add: info_loop.simps [of E info] DIRECTORY_INFO_END_def plain_line_def max_line_def)
  obtain tags where t: "info_loop E ?i3 (text_of ?tags @ DIRECTORY_INFO_END @ nl # rest) =
      info_loop E (?i3\<lparr>di_tags := tags\<rparr>) (DIRECTORY_INFO_END @ nl # rest)" "length tags = 18"
    "\<forall>i < 18. tags ! i \<longleftrightarrow> \<not> ig ! i"
    using info_loop_tags [of ?i3 "filter (\<lambda>i. \<not> ig ! i) [0..<18]" E "DIRECTORY_INFO_END @ nl # rest"] by auto
  have "info_loop E ?i0 (text_of (header_lines E ig @ [DIRECTORY_INFO_END]) @ rest) =
      info_loop E ?i3 (text_of ?tags @ DIRECTORY_INFO_END @ nl # rest)"
    using 1 2 3 by (simp add: header_lines_def)
  with t 4 show ?thesis by simp
qed

lemma tags_listed_ok:
  assumes "length (tl_ignore lib) = 18" "length (di_tags info) = 18" "\<forall>i < 18. di_tags info ! i \<longleftrightarrow> \<not> tl_ignore lib ! i"
  shows "tags_listed lib info = Some True"
proof -
  have "\<exists>s'. for_each (\<lambda>i ok. do {
       ignored \<leftarrow> aget (tl_ignore lib) i;
       listed \<leftarrow> aget (di_tags info) i;
       Some (ok \<and> (ignored \<or> listed))
     }) [0..<18] True = Some s' \<and> s'"
    using assms by (intro for_each_upt [where Inv = "\<lambda>_ ok. ok"]) auto
  then show ?thesis by (auto simp: tags_listed_def)
qed

text \<open>Together: what is saved is loaded.\<close>

lemma load_saved:
  assumes E: "db_env_ok E" "header_ok E" and t: "tree_ok t" "stored_tree E ig t" "nd_dir t = \<lparr>dir_path = [], dir_has_parent = False\<rparr>"
    and lib: "lib_ok lib" "tl_ignore lib = ig" and st: "ready ig st"
  shows "\<exists>fp root t' st'. simple_db_save_internal E lib t [] = Some fp \<and> directory_new_root = Some root \<and>
    simple_db_load_internal E root (st\<lparr>ls_file := fp\<rparr>) = Some (MPD_SUCCESS, t', st') \<and>
    tree_view t' = tree_view t \<and> ready ig st' \<and> st_refs st' = st_refs st + tree_refs t' \<and> filled t'"
proof -
  have r: "directory_is_root (nd_dir t)" using t(3) by (simp add: directory_is_root_def)
  let ?root = "Node (nd_dir t) 0 \<lparr>ds_inode = 0, ds_device = 0, ds_have_stat = False\<rparr> [] [] []"
  let ?body = "text_of (body_lines t)"
  let ?fp = "text_of ([DIRECTORY_INFO_BEGIN] @ header_lines E ig @ [DIRECTORY_INFO_END] @ node_lines t)"
  have save: "simple_db_save_internal E lib t [] = Some ?fp"
    using save_internal_lines [OF E(1) t(1)] t(2) lib by simp
  have root: "directory_new_root = Some ?root" using t(3) by (simp add: directory_new_root_def directory_new_def)
  have m: "nd_mtime t = 0" using t(2) r by (cases t) simp
  have nl: "text_of (node_lines t) = ?body" using r by (simp add: node_lines_body dir_head_def dir_tail_def)
  have r1: "read_line (st\<lparr>ls_file := ?fp\<rparr>) =
      Some (Some DIRECTORY_INFO_BEGIN, st\<lparr>ls_file := text_of (header_lines E ig @ [DIRECTORY_INFO_END]) @ ?body\<rparr>)"
    using read_line_plain [of DIRECTORY_INFO_BEGIN "st\<lparr>ls_file := ?fp\<rparr>" "text_of (header_lines E ig @ [DIRECTORY_INFO_END]) @ ?body"]
    by (simp add: nl DIRECTORY_INFO_BEGIN_def plain_line_def max_line_def)
  obtain info where i: "info_loop E \<lparr>di_format = 0, di_charset = False, di_version = False, di_tags = replicate 18 False\<rparr>
      (text_of (header_lines E ig @ [DIRECTORY_INFO_END]) @ ?body) = Some (Some info, ?body)" "di_format info = DB_FORMAT"
    "length (di_tags info) = 18" "\<forall>i < 18. di_tags info ! i \<longleftrightarrow> \<not> ig ! i"
    using info_loop_header [OF E(2)] by blast
  have ok: "tags_listed (ls_lib st) info = Some True"
    using tags_listed_ok [of "ls_lib st" info] st i by (auto simp: ready_def lib_ok_def)
  have "dir_loads E ig ?root (body_lines t) (tree_view t)"
    using dir_loads_tree [of E t ig ?root] E(1) t m by (simp add: db_env_ok_def)
  then obtain n d' st' where l: "simple_db_directory_load (Suc (length ?body)) E ?root (st\<lparr>ls_file := ?body\<rparr>) = simple_db_directory_load n E d' st'"
    "ready ig st'" "ls_file st' = []" "0 < n" "tree_view d' = tree_view t"
    "st_refs st' + tree_refs ?root = st_refs (st\<lparr>ls_file := ?body\<rparr>) + tree_refs d'" "filled d'"
    using dir_loadsD [of E ig ?root "body_lines t" "tree_view t" "st\<lparr>ls_file := ?body\<rparr>" "[]" "Suc (length ?body)"] st
    by (auto simp: ready_def filled_Node)
  obtain n' where n': "n = Suc n'" using l(4) by (cases n) auto
  have e: "read_line st' = Some (None, st'\<lparr>ls_file := []\<rparr>)" using l(3) by (simp add: read_line_def read_text_line_def)
  have "simple_db_directory_load n E d' st' = Some (MPD_SUCCESS, d', st'\<lparr>ls_file := []\<rparr>)" using e by (simp add: n')
  then have "simple_db_load_internal E ?root (st\<lparr>ls_file := ?fp\<rparr>) = Some (MPD_SUCCESS, d', st'\<lparr>ls_file := []\<rparr>)"
    using r1 i ok l(1) by (simp add: simple_db_load_internal_def Let_def del: simple_db_directory_load.simps)
  then show ?thesis using save root l by (auto simp: ready_def tree_refs_Node)
qed

section \<open>Pruned and sorted trees can be stored\<close>

lemma stored_prune: "stored_tree E ig t \<Longrightarrow> stored_tree E ig (directory_prune_empty t)"
  by (induction t) auto

lemma sortable_prune: "sortable t \<Longrightarrow> sortable (directory_prune_empty t)"
proof (induction t)
  case (Node d m st cs ss ps)
  have "length (filter ((\<lambda>c. \<not> directory_is_empty c) \<circ> directory_prune_empty) cs) < 2097152"
    by (rule order_le_less_trans [OF length_filter_le]) (use Node.prems in simp)
  with Node show ?case by auto
qed

lemma rearranged_stored: "rearranged t t' \<Longrightarrow> stored_tree E ig t \<Longrightarrow> stored_tree E ig t'"
proof (induction rule: rearranged.induct)
  case (rearrange cs1 cs cs' ss' ss d m st ps)
  have "stored_tree E ig c" if "c \<in> set cs'" for c
    using list_all2_zip_sets [OF rearrange.IH that] rearrange.prems mset_eq_setD [OF rearrange.hyps(1)] by auto
  then show ?case using rearrange.prems mset_eq_setD [OF rearrange.hyps(2)] by (simp add: list_all_iff)
qed

end
