(* ===== verification/Sample_Db.thy ===== *)
theory Sample_Db
  imports Simple_Db_Inv
begin

text \<open>
  A concrete database for the witnesses: a song, a playlist and an empty directory, with simple versions of the functions of
  GLib and of the file system.
\<close>

definition sample_tag_env :: tag_env where
  "sample_tag_env = \<lparr>te_validate = length, te_convert = Some, te_strcasecmp = (\<lambda>a b. if a = b then 0 else 1), te_strstrip = id\<rparr>"

definition sample_db_env :: db_env where
  "sample_db_env = \<lparr>dbe_tag = sample_tag_env, dbe_isspace = (\<lambda>c. c = CHR '' ''),
     dbe_basename = (\<lambda>p. rev (takeWhile (\<lambda>c. c \<noteq> slash) (rev p))), dbe_dirname = id,
     dbe_collate = (\<lambda>a b. int (length a) - int (length b)), dbe_charset = Some ''UTF-8'', dbe_version = ''0.18'',
     dbe_ferror = (\<lambda>_. False), dbe_fopen_read = (\<lambda>_. None), dbe_fopen_write = (\<lambda>_. True), dbe_access = (\<lambda>_ _. True),
     dbe_stat = (\<lambda>_. None)\<rparr>"

definition sample_lib :: tag_lib where
  "sample_lib = \<lparr>tl_pool = empty_pool, tl_busy = False, tl_ignore = replicate 18 False\<rparr>"

definition root_dir :: directory where
  "root_dir = \<lparr>dir_path = [], dir_has_parent = False\<rparr>"

definition dir_a :: directory where
  "dir_a = \<lparr>dir_path = ''a'', dir_has_parent = True\<rparr>"

definition no_stat :: dir_stat where
  "no_stat = \<lparr>ds_inode = 0, ds_device = 0, ds_have_stat = False\<rparr>"

definition sample_title :: tag_item where
  "sample_title = \<lparr>ti_addr = 1, ti_type = TAG_TITLE, ti_value = ''T''\<rparr>"

definition sample_file :: song where
  "sample_file = \<lparr>s_addr = 1, s_tag = Some \<lparr>tag_time = 10, tag_has_playlist = False, tag_items = [sample_title], tag_bulk = False\<rparr>,
     s_parent = Some dir_a, s_mtime = 7, s_start_ms = 0, s_end_ms = 0, s_uri = ''b.ogg''\<rparr>"

text \<open>A song and a playlist in one directory, and an empty directory.\<close>

definition sample_tree :: node where
  "sample_tree = Node root_dir 0 no_stat
     [Node dir_a 5 no_stat [] [sample_file] [\<lparr>pm_name = ''p.m3u'', pm_mtime = 3\<rparr>],
      Node \<lparr>dir_path = ''e'', dir_has_parent = True\<rparr> 6 no_stat [] [] []] [] []"

definition sample_db :: simple_db where
  "sample_db = \<lparr>sdb_path = ''db'', sdb_root = Some sample_tree, sdb_mtime = 0\<rparr>"

lemmas sample_db_defs = sample_tree_def sample_file_def sample_title_def dir_a_def root_dir_def no_stat_def

lemma sample_tree_ok: "tree_ok sample_tree"
  by (simp add: sample_db_defs child_of_def child_name_def child_path_def name_part_def directory_is_root_def)

lemma sample_lib_ok: "lib_ok sample_lib" "\<not> tl_busy sample_lib"
  by (simp_all add: lib_ok_def sample_lib_def empty_pool_ok)

lemma sample_basename: "basename_ok sample_db_env"
proof -
  have "rev (takeWhile (\<lambda>c. c \<noteq> slash) (rev n @ r)) = n" if "name_part n" "r = [] \<or> hd r = slash" for n r
  proof (cases r)
    case Nil
    then have "takeWhile (\<lambda>c. c \<noteq> slash) (rev n) = rev n" using that(1) 
      by (auto simp: name_part_def takeWhile_eq_all_conv)
    with Nil show ?thesis by (simp del: takeWhile_eq_all_conv)
  qed (use that in \<open>auto simp: name_part_def takeWhile_append\<close>)
  from this [of _ "slash # rev _"] this [of _ "[]"] show ?thesis by (simp add: basename_ok_def sample_db_env_def)
qed

lemma sample_env_ok: "db_env_ok sample_db_env" "header_ok sample_db_env" "comparator (dbe_collate sample_db_env)"
proof -
  have "isspace_ok sample_db_env" by (auto simp: isspace_ok_def sample_db_env_def)
  then show "db_env_ok sample_db_env" using sample_basename by (simp add: db_env_ok_def sample_db_env_def)
  show "header_ok sample_db_env"
    by (simp add: header_ok_def sample_db_env_def plain_line_def max_line_def db_labels)
  show "comparator (dbe_collate sample_db_env)"
    using comparator_diff [of "\<lambda>s. int (length s)"] by (simp add: sample_db_env_def)
qed

lemma sample_sortable: "sortable sample_tree"
  by (simp add: sample_db_defs small_numbers_def first_value_def tag_get_value_checked_def tag_get_value_def number_of_string_def)

lemma sample_stored: "stored_tree sample_db_env (tl_ignore sample_lib) sample_tree"
  by (simp add: sample_db_defs stored_song_def stored_tag_def stored_item_def stored_playlist_def plain_line_def max_line_def db_labels
    clean_value_def sample_db_env_def sample_tag_env_def sample_lib_def tag_view_def item_contents_def tag_name_def tag_item_names_def
    char_is_non_printable_def directory_is_root_def)

end
