(* ===== verification/Db_Theorems.thy ===== *)
theory Db_Theorems
  imports Sample_Db
begin

text \<open>
  The properties of tags, of the directory tree and of the database file.
\<close>

section \<open>The database file\<close>

lemma stored_tree_env: "stored_tree (E\<lparr>dbe_fopen_read := f\<rparr>) ig t = stored_tree E ig t"
proof (induction t)
  case (Node d m st cs ss ps)
  have "stored_song (E\<lparr>dbe_fopen_read := f\<rparr>) ig = stored_song E ig"
    by (intro ext) (simp add: stored_song_def stored_tag_def stored_item_def [abs_def] split: option.splits)
  with Node show ?case by simp
qed

lemma save_sorted:
  assumes "db_env_ok E" "comparator (dbe_collate E)" "dbe_fopen_write E (sdb_path db)" "sdb_root db = Some t" "tree_ok t"
    "sortable t" "stored_tree E (tl_ignore lib) t" "lib_ok lib"
  shows "\<exists>t1 db1. simple_db_save E lib db = Some (MPD_SUCCESS,
      Some (text_of ([DIRECTORY_INFO_BEGIN] @ header_lines E (tl_ignore lib) @ [DIRECTORY_INFO_END] @ node_lines t1)), db1) \<and>
    sdb_root db1 = Some t1 \<and> rearranged (directory_prune_empty t) t1 \<and> tree_ok t1 \<and> stored_tree E (tl_ignore lib) t1"
proof -
  obtain t1 where t1: "directory_sort (dbe_collate E) (directory_prune_empty t) = Some t1" "rearranged (directory_prune_empty t) t1"
    using directory_sort_ok [OF assms(2) sortable_prune [OF assms(6)]] by blast
  have ok: "tree_ok t1" "stored_tree E (tl_ignore lib) t1"
    using rearranged_ok [OF t1(2) tree_ok_prune [OF assms(5)]] rearranged_stored [OF t1(2) stored_prune [OF assms(7)]] by simp_all
  have "\<not> dbe_ferror E fp" for fp using assms(1) by (simp add: db_env_ok_def)
  then show ?thesis
    using save_internal_lines [OF assms(1) ok assms(8)] t1 ok assms(3,4)
    by (simp add: simple_db_save_def file_mtime_def Let_def split: option.splits)
qed

text \<open>
  C9: A database is saved and opened again.  Saving deletes the empty directories and sorts the tree;
  opening the text that was written gives a tree with the same directories, modification times, songs, ranges, tags and
  playlists in the same order, and closing it returns every reference to the pool of tag values.  The
  hypotheses say that writing does not fail, that GLib's functions do what they should, and that the tree is well formed and
  can be stored: every string fits on a line, tag values are clean and of types in use, and songs were changed before 2038.
\<close>

theorem database_round_trip:
  assumes "db_env_ok E" "header_ok E" "comparator (dbe_collate E)" "dbe_fopen_write E (sdb_path db)"
    and "sdb_root db = Some t" "nd_dir t = \<lparr>dir_path = [], dir_has_parent = False\<rparr>" "tree_ok t" "sortable t"
    and "stored_tree E (tl_ignore lib) t" "lib_ok lib"
    and "lib_ok lib2" "\<not> tl_busy lib2" "tl_ignore lib2 = tl_ignore lib"
  shows "\<exists>text db1 t1 db2 t2 lib3 nxt3 db4 lib4.
    simple_db_save E lib db = Some (MPD_SUCCESS, Some text, db1) \<and> sdb_root db1 = Some t1 \<and>
    rearranged (directory_prune_empty t) t1 \<and>
    simple_db_open (E\<lparr>dbe_fopen_read := \<lambda>_. Some text\<rparr>) db0 lib2 nxt = Some (MPD_SUCCESS, db2, lib3, nxt3) \<and>
    sdb_root db2 = Some t2 \<and> tree_view t2 = tree_view t1 \<and>
    simple_db_close db2 lib3 = Some (db4, lib4) \<and> lib_refs lib4 = lib_refs lib2"
proof -
  obtain t1 db1 where s: "simple_db_save E lib db = Some (MPD_SUCCESS,
      Some (text_of ([DIRECTORY_INFO_BEGIN] @ header_lines E (tl_ignore lib) @ [DIRECTORY_INFO_END] @ node_lines t1)), db1)"
    "sdb_root db1 = Some t1" "rearranged (directory_prune_empty t) t1" "tree_ok t1" "stored_tree E (tl_ignore lib) t1"
    using save_sorted [OF assms(1,3-5,7-10)] by blast
  let ?fp = "text_of ([DIRECTORY_INFO_BEGIN] @ header_lines E (tl_ignore lib) @ [DIRECTORY_INFO_END] @ node_lines t1)"
  let ?E = "E\<lparr>dbe_fopen_read := \<lambda>_. Some ?fp\<rparr>" and ?st = "\<lparr>ls_lib = lib2, ls_next = nxt, ls_file = ?fp\<rparr>"
  have E: "db_env_ok ?E" "header_ok ?E"
    using assms(1,2) by (simp_all add: db_env_ok_def isspace_ok_def basename_ok_def header_ok_def)
  have "nd_dir t1 = \<lparr>dir_path = [], dir_has_parent = False\<rparr>" using rearranged_dir [OF s(3)] assms(6) by simp
  moreover have "simple_db_save_internal ?E lib t1 [] = Some ?fp"
    using save_internal_lines [OF E(1) s(4) _ assms(10)] s(5) by (simp add: stored_tree_env header_lines_def)
  moreover have "ready (tl_ignore lib) ?st" using assms(11-13) by (simp add: ready_def)
  ultimately obtain root t2 st2 where l: "directory_new_root = Some root"
    "simple_db_load_internal ?E root ?st = Some (MPD_SUCCESS, t2, st2)" "tree_view t2 = tree_view t1" "ready (tl_ignore lib) st2"
    "st_refs st2 = lib_refs lib2 + tree_refs t2" "filled t2"
    using load_saved [OF E s(4) _ _ assms(10) refl, of ?st] s(5) by (auto simp: stored_tree_env)
  obtain lib4 where f: "directory_free t2 (ls_lib st2) = Some lib4" "st_refs st2 = tree_refs t2 + lib_refs lib4"
    using directory_free_ok [of "ls_lib st2" t2] l(4-6) by (auto simp: ready_def filled_def)
  let ?db = "db0\<lparr>sdb_mtime := 0, sdb_root := Some t2\<rparr>"
  have "simple_db_load ?E (db0\<lparr>sdb_root := Some root, sdb_mtime := 0\<rparr>) lib2 nxt =
      Some (MPD_SUCCESS, file_mtime ?E ?db, ls_lib st2, ls_next st2)"
    using l(2) by (simp add: simple_db_load_def Let_def)
  then have o: "simple_db_open ?E db0 lib2 nxt = Some (MPD_SUCCESS, file_mtime ?E ?db, ls_lib st2, ls_next st2)"
    unfolding simple_db_open_def l(1) by simp
  have r: "sdb_root (file_mtime ?E ?db) = Some t2" by (simp add: file_mtime_def split: option.splits)
  have "simple_db_close (file_mtime ?E ?db) (ls_lib st2) = Some ((file_mtime ?E ?db)\<lparr>sdb_root := None\<rparr>, lib4)"
    using r f(1) by (simp add: simple_db_close_def)
  moreover have "lib_refs lib4 = lib_refs lib2" using f(2) l(5) by simp
  ultimately show ?thesis using s(1-3) o r l(3) by blast
qed

theorem database_round_trip_witness:
  "\<exists>text db1 t1 db2 t2 lib3 nxt3 db4 lib4.
    simple_db_save sample_db_env sample_lib sample_db = Some (MPD_SUCCESS, Some text, db1) \<and> sdb_root db1 = Some t1 \<and>
    rearranged (directory_prune_empty sample_tree) t1 \<and>
    simple_db_open (sample_db_env\<lparr>dbe_fopen_read := \<lambda>_. Some text\<rparr>) sample_db sample_lib 9 = Some (MPD_SUCCESS, db2, lib3, nxt3) \<and>
    sdb_root db2 = Some t2 \<and> tree_view t2 = tree_view t1 \<and>
    simple_db_close db2 lib3 = Some (db4, lib4) \<and> lib_refs lib4 = lib_refs sample_lib"
  by (rule database_round_trip [OF sample_env_ok _ _ _ sample_tree_ok sample_sortable sample_stored sample_lib_ok(1) sample_lib_ok refl])
    (simp_all add: sample_db_def sample_db_env_def sample_tree_def root_dir_def)

section \<open>The directory tree\<close>



text \<open>
  C29: Deleting the empty directories.  No song and no playlist is lost, exactly the directories with a song or a playlist
  somewhere below are left, each pruned in the same way and in the old order, and the tree stays well formed.
\<close>

theorem directory_prune_empty_keeps:
  "tree_songs (directory_prune_empty t) = tree_songs t \<and> tree_playlists (directory_prune_empty t) = tree_playlists t \<and>
   tree_dirs (directory_prune_empty t) = map directory_prune_empty (filter occupied (tree_dirs t)) \<and>
   (tree_ok t \<longrightarrow> tree_ok (directory_prune_empty t))"
  using prune_keeps [of t] prune_dirs [of t] tree_ok_prune [of t] by blast

theorem directory_prune_empty_keeps_witness:
  "tree_songs (directory_prune_empty sample_tree) = tree_songs sample_tree \<and>
   map (\<lambda>d. dir_path (nd_dir d)) (tree_dirs (directory_prune_empty sample_tree)) = [''a''] \<and> tree_ok (directory_prune_empty sample_tree)"
  using directory_prune_empty_keeps [of sample_tree] sample_tree_ok
  by (simp add: sample_tree_def occupied_def dir_a_def del: directory_prune_empty.simps)

text \<open>
  C30: Walking the tree.  A walk is the loop over the list of its entries: the songs, then the playlists, then every child directory,
  with its own entries behind it when the walk is recursive.  It calls the visitor's function for each in this order and stops at
  the first one that fails.
\<close>

theorem directory_walk_visits:
  "directory_walk d recursive v ctx = visit_each (visit_entry v) (entries recursive d) ctx"
  by (rule directory_walk_entries)

text \<open>
  C31: Sorting the tree.  With a collation that is an order, and lists and numbers that the code has been written for, sorting
  succeeds: the children of every directory are in order of their paths, the songs by album, disc, track and file name, and no song, playlist or
  directory is lost or moved to another directory.
\<close>

theorem directory_sort_sorts:
  assumes "comparator collate" "sortable t"
  shows "\<exists>t'. directory_sort collate t = Some t' \<and> sorted_tree collate t' \<and> rearranged t t' \<and>
    mset (tree_songs t') = mset (tree_songs t) \<and> mset (tree_playlists t') = mset (tree_playlists t) \<and> (tree_ok t \<longrightarrow> tree_ok t')"
  using directory_sort_ok [OF assms] rearranged_songs rearranged_playlists rearranged_ok by metis

theorem directory_sort_sorts_witness:
  "\<exists>t'. directory_sort (dbe_collate sample_db_env) sample_tree = Some t' \<and> sorted_tree (dbe_collate sample_db_env) t' \<and>
    rearranged sample_tree t' \<and> mset (tree_songs t') = {#sample_file#} \<and> tree_ok t'"
  using directory_sort_sorts [OF sample_env_ok(3) sample_sortable] sample_tree_ok
  by (auto simp: sample_tree_def)

section \<open>Tags\<close>

text \<open>
  C28: The pool of tag values is a bag of references.  Getting a value adds a reference to an item with this type and value;
  duplicating one that is out adds another, to the same item or, when its eight bit counter is full, to a copy; putting one back removes it, and the
  slot is freed with the last one.  None of them fails an assertion, and the hash table stays consistent.
\<close>

theorem tag_pool_counts:
  assumes "pool_ok pool"
  shows "(\<exists>item pool'. tag_pool_get_item t v pool = Some (item, pool') \<and> pool_ok pool' \<and>
      item_contents item = (t, v) \<and> pool_refs pool' = add_mset item (pool_refs pool)) \<and>
    (item \<in># pool_refs pool \<longrightarrow>
      (\<exists>item' pool'. tag_pool_dup_item item pool = Some (item', pool') \<and> pool_ok pool' \<and>
        item_contents item' = item_contents item \<and> pool_refs pool' = add_mset item' (pool_refs pool)) \<and>
      (\<exists>pool'. tag_pool_put_item item pool = Some pool' \<and> pool_ok pool' \<and> pool_refs pool = add_mset item (pool_refs pool')))"
  using tag_pool_get_item_ok [OF assms, of t v] tag_pool_dup_item_ok [OF assms, of item] tag_pool_put_item_ok [OF assms, of item]
  by (auto simp: item_contents_def)

theorem tag_pool_counts_witness:
  "\<exists>item pool1 pool2. tag_pool_get_item TAG_TITLE ''T'' empty_pool = Some (item, pool1) \<and>
     tag_pool_put_item item pool1 = Some pool2 \<and> pool_refs pool2 = {#}"
proof -
  obtain item pool1 where g: "tag_pool_get_item TAG_TITLE ''T'' empty_pool = Some (item, pool1)" "pool_ok pool1" "pool_refs pool1 = {#item#}"
    using tag_pool_counts [OF empty_pool_ok(1), of TAG_TITLE "''T''"] empty_pool_ok(2) by auto
  with tag_pool_counts [OF g(2), of TAG_TITLE "''T''" item] show ?thesis by auto
qed

text \<open>
  C32: Merging two tags.  The result has the items of the second tag, behind them those of the first whose types the second has not, and the
  second's time if it has one; both tags are freed, so the pool holds the references of the result in place of theirs.
  The flag for an embedded playlist is lost.
\<close>

theorem tag_merge_replace_merges:
  assumes "lib_ok lib" "mset (tag_items base) + mset (tag_items add) \<subseteq># lib_refs lib" "types_ok base"
    and "\<not> tag_bulk base" "\<not> tag_bulk add"
  shows "\<exists>lib' tag. tag_merge_replace lib (Some base) (Some add) = Some (lib', Some tag) \<and> lib_ok lib' \<and>
    tag_view tag = tag_view add @ filter (\<lambda>(t, v). t \<notin> fst ` set (tag_view add)) (tag_view base) \<and>
    tag_time tag = (if 0 < tag_time add then tag_time add else tag_time base) \<and> \<not> tag_has_playlist tag \<and>
    lib_refs lib' + mset (tag_items base) + mset (tag_items add) = lib_refs lib + mset (tag_items tag)"
proof -
  have sub: "mset (tag_items base) \<subseteq># lib_refs lib" "mset (tag_items add) \<subseteq># lib_refs lib"
    using assms(2) by (metis mset_subset_eq_add_left mset_subset_eq_add_right subset_mset.trans)+
  then have "set (tag_items base) \<union> set (tag_items add) \<subseteq> set_mset (lib_refs lib)"
    by (metis Un_least set_mset_mono set_mset_mset)
  from tag_merge_ok [OF assms(1) this assms(3)] obtain lib1 tag where
    1: "tag_merge lib base add = Some (lib1, tag)" "lib_ok lib1"
    "tag_view tag = tag_view add @ filter (\<lambda>(t, v). t \<notin> fst ` set (tag_view add)) (tag_view base)"
    "tag_time tag = (if 0 < tag_time add then tag_time add else tag_time base)" "\<not> tag_has_playlist tag"
    "lib_refs lib1 = mset (tag_items tag) + lib_refs lib" by auto
  have "mset (tag_items base) \<subseteq># lib_refs lib1" using sub(1) 1(6) by (simp add: subset_mset.add_increasing)
  from tag_free_frees [OF 1(2) this] assms(4) obtain lib2 where
    2: "tag_free lib1 base = Some lib2" "lib_ok lib2" "lib_refs lib1 = mset (tag_items base) + lib_refs lib2" by auto
  have "mset (tag_items base) + mset (tag_items add) \<subseteq># mset (tag_items base) + lib_refs lib2"
    using assms(2) 1(6) 2(3) by (metis subset_mset.add_increasing empty_le)
  then have "mset (tag_items add) \<subseteq># lib_refs lib2" by simp
  from tag_free_frees [OF 2(2) this] assms(5) obtain lib3 where
    3: "tag_free lib2 add = Some lib3" "lib_ok lib3" "lib_refs lib2 = mset (tag_items add) + lib_refs lib3" by auto
  have "lib_refs lib3 + mset (tag_items base) + mset (tag_items add) = lib_refs lib + mset (tag_items tag)"
    using 1(6) 2(3) 3(3) by (simp add: ac_simps)
  with 1 2(1) 3 show ?thesis by (auto simp: tag_merge_replace_def)
qed

definition title_pool :: tag_pool where
  "title_pool = (case tag_pool_get_item TAG_TITLE ''T'' empty_pool of Some (item, pool) \<Rightarrow> pool | None \<Rightarrow> empty_pool)"

theorem tag_merge_replace_merges_witness:
  "\<exists>item lib' tag. tag_merge_replace (sample_lib\<lparr>tl_pool := title_pool\<rparr>) (Some (tag_new\<lparr>tag_time := 5, tag_items := [item]\<rparr>)) (Some tag_new) =
     Some (lib', Some tag) \<and> tag_view tag = [(TAG_TITLE, ''T'')] \<and> tag_time tag = 5"
proof -
  obtain item pool where g: "tag_pool_get_item TAG_TITLE ''T'' empty_pool = Some (item, pool)" "pool_ok pool"
    "ti_type item = TAG_TITLE" "ti_value item = ''T''" "pool_refs pool = {#item#}"
    using tag_pool_get_item_ok [OF empty_pool_ok(1), of TAG_TITLE "''T''"] empty_pool_ok(2) by auto
  then have p: "title_pool = pool" by (simp add: title_pool_def)
  have "\<exists>lib' tag. tag_merge_replace (sample_lib\<lparr>tl_pool := title_pool\<rparr>) (Some (tag_new\<lparr>tag_time := 5, tag_items := [item]\<rparr>)) (Some tag_new) =
     Some (lib', Some tag) \<and> tag_view tag = [(TAG_TITLE, ''T'')] \<and> tag_time tag = 5"
    using tag_merge_replace_merges [of "sample_lib\<lparr>tl_pool := title_pool\<rparr>" "tag_new\<lparr>tag_time := 5, tag_items := [item]\<rparr>" tag_new] g p
    by (auto simp: lib_ok_def sample_lib_def types_ok_def tag_view_def item_contents_def tag_new_def)
  then show ?thesis by blast
qed

text \<open>
  C33: The setting \<^verbatim>\<open>metadata_to_use\<close>.  A list of names that are tag types, separated by single commas, puts
  exactly the named types to use; but with one more comma at the end the loop runs past the zero byte of
  the string.
\<close>

theorem metadata_to_use_read:
  assumes "ns \<noteq> []" "list_all (name_ok E) ns" "length (tl_ignore lib) = 18"
    and "te_strcasecmp E (comma_list ns) ''none'' \<noteq> 0" "te_strcasecmp E (comma_list ns @ '','') ''none'' \<noteq> 0"
  shows "(\<exists>lib'. tag_lib_init E (Some (comma_list ns)) lib = Some (Inr lib') \<and>
      (\<forall>t. t \<noteq> TAG_NUM_OF_ITEM_TYPES \<longrightarrow>
        (\<not> tl_ignore lib' ! tag_type_number t \<longleftrightarrow> t \<in> (\<lambda>n. tag_name_parse_i E (te_strstrip E n)) ` set ns))) \<and>
    tag_lib_init E (Some (comma_list ns @ '','')) lib = None"
proof -
  obtain ig where c: "aset (tl_ignore lib) (tag_type_number TAG_COMMENT) True = Some ig" using assms(3) by (simp add: aset_def)
  have "tag_type_number t < 18" if "t \<noteq> TAG_NUM_OF_ITEM_TYPES" for t using that tag_types_number(3) by auto
  then have "\<not> use_types E ns (replicate 18 True) ! tag_type_number t \<longleftrightarrow> t \<in> (\<lambda>n. tag_name_parse_i E (te_strstrip E n)) ` set ns"
    if "t \<noteq> TAG_NUM_OF_ITEM_TYPES" for t using that use_types_nth [of "replicate 18 True" E ns t] assms(2) by simp
  then have "\<exists>lib'. tag_lib_init E (Some (comma_list ns)) lib = Some (Inr lib') \<and>
      (\<forall>t. t \<noteq> TAG_NUM_OF_ITEM_TYPES \<longrightarrow>
        (\<not> tl_ignore lib' ! tag_type_number t \<longleftrightarrow> t \<in> (\<lambda>n. tag_name_parse_i E (te_strstrip E n)) ` set ns))"
    using metadata_names(1) [OF assms(1,2), of 0 "[]" "replicate 18 True"] assms(4) c by (simp add: tag_lib_init_def)
  moreover have "tag_lib_init E (Some (comma_list ns @ '','')) lib = None"
    using metadata_names(2) [OF assms(1,2), of 0 "[]" "replicate 18 True"] assms(5) c by (simp add: tag_lib_init_def)
  ultimately show ?thesis by blast
qed

theorem metadata_to_use_read_witness:
  "\<exists>lib'. tag_lib_init sample_tag_env (Some ''Title,Date'') sample_lib = Some (Inr lib') \<and>
     \<not> tl_ignore lib' ! tag_type_number TAG_DATE \<and> tl_ignore lib' ! tag_type_number TAG_ARTIST"
proof -
  have n: "list_all (name_ok sample_tag_env) [''Title'', ''Date'']"
    by (simp add: name_ok_def sample_tag_env_def tag_name_parse_i_def tag_item_names_def tag_types_def)
  have p: "tag_name_parse_i sample_tag_env (te_strstrip sample_tag_env ''Title'') = TAG_TITLE"
    "tag_name_parse_i sample_tag_env (te_strstrip sample_tag_env ''Date'') = TAG_DATE"
    by (simp_all add: sample_tag_env_def tag_name_parse_i_def tag_item_names_def tag_types_def)
  have "te_strcasecmp sample_tag_env s ''none'' \<noteq> 0" if "s \<noteq> ''none''" for s using that by (simp add: sample_tag_env_def)
  then obtain lib' where "tag_lib_init sample_tag_env (Some ''Title,Date'') sample_lib = Some (Inr lib')"
    "\<And>t. t \<noteq> TAG_NUM_OF_ITEM_TYPES \<Longrightarrow> \<not> tl_ignore lib' ! tag_type_number t \<longleftrightarrow> t \<in> {TAG_TITLE, TAG_DATE}"
    using metadata_to_use_read [OF _ n, of sample_lib] p by (auto simp: sample_lib_def)
  from this(1) this(2) [of TAG_DATE] this(2) [of TAG_ARTIST] show ?thesis by blast
qed

end
