(* ===== verification/Locate.thy ===== *)
theory Locate
  imports Directory_Inv
begin

text \<open>
  The criteria of the search commands, \<^verbatim>\<open>src/locate.c\<close>.

  A criterion is the number of a tag type, or one of the two numbers above them for the file name and for
  anything.  \<^verbatim>\<open>g_utf8_casefold\<close> is the argument \<open>casefold\<close>.
\<close>

definition LOCATE_TAG_FILE_TYPE :: nat where
  "LOCATE_TAG_FILE_TYPE = 18 + 10"

definition LOCATE_TAG_ANY_TYPE :: nat where
  "LOCATE_TAG_ANY_TYPE = 18 + 20"

record locate_item =
  li_tag :: nat
  li_needle :: string

text \<open>\<open>None\<close> is the result \<open>-1\<close> for a name that is not known.\<close>

definition locate_parse_type :: "tag_env \<Rightarrow> string \<Rightarrow> nat option" where
  "locate_parse_type E str =
     (if te_strcasecmp E str ''file'' = 0 \<or> te_strcasecmp E str ''filename'' = 0 then Some LOCATE_TAG_FILE_TYPE
      else if te_strcasecmp E str ''any'' = 0 then Some LOCATE_TAG_ANY_TYPE
      else let i = tag_name_parse_i E str
           in if i \<noteq> TAG_NUM_OF_ITEM_TYPES then Some (tag_type_number i) else None)"

definition locate_item_init :: "tag_env \<Rightarrow> string \<Rightarrow> string \<Rightarrow> locate_item option" where
  "locate_item_init E type_string needle = do {
     tag \<leftarrow> locate_parse_type E type_string;
     Some \<lparr>li_tag = tag, li_needle = needle\<rparr>
   }"

text \<open>\<open>None\<close> is the \<^verbatim>\<open>NULL\<close> for an odd number of arguments or an unknown type.\<close>

fun locate_item_list_parse :: "tag_env \<Rightarrow> string list \<Rightarrow> locate_item list option" where
  "locate_item_list_parse E [] = Some []"
| "locate_item_list_parse E [a] = None"
| "locate_item_list_parse E (a # b # argv) = do {
     item \<leftarrow> locate_item_init E a b;
     items \<leftarrow> locate_item_list_parse E argv;
     Some (item # items)
   }"

definition locate_item_list_casefold :: "(string \<Rightarrow> string) \<Rightarrow> locate_item list \<Rightarrow> locate_item list" where
  "locate_item_list_casefold casefold list = map (\<lambda>i. i\<lparr>li_needle := casefold (li_needle i)\<rparr>) list"

section \<open>Searching\<close>

text \<open>The loop over the items: the value of \<^verbatim>\<open>ret\<close> and the array \<^verbatim>\<open>visited_types\<close>.\<close>

fun search_loop :: "(string \<Rightarrow> string) \<Rightarrow> nat \<Rightarrow> string \<Rightarrow> tag_item list \<Rightarrow> bool list \<Rightarrow> (bool \<times> bool list) option" where
  "search_loop casefold type str [] visited = Some (False, visited)"
| "search_loop casefold type str (i # items) visited = do {
     visited \<leftarrow> aset visited (tag_type_number (ti_type i)) True;
     if type \<noteq> LOCATE_TAG_ANY_TYPE \<and> tag_type_number (ti_type i) \<noteq> type then search_loop casefold type str items visited
     else if str \<noteq> [] \<and> sublist str (casefold (ti_value i)) then Some (True, visited)
     else search_loop casefold type str items visited
   }"

definition locate_tag_search :: "(string \<Rightarrow> string) \<Rightarrow> song \<Rightarrow> nat \<Rightarrow> string \<Rightarrow> bool option" where
  "locate_tag_search casefold song type str = do {
     ret \<leftarrow> (if type = LOCATE_TAG_FILE_TYPE \<or> type = LOCATE_TAG_ANY_TYPE then do {
         uri \<leftarrow> song_get_uri song;
         Some (sublist str (casefold uri))
       }
       else Some False);
     if ret \<or> type = LOCATE_TAG_FILE_TYPE then Some ret
     else case s_tag song of
         None \<Rightarrow> Some False
       | Some tag \<Rightarrow> do {
           (ret, visited) \<leftarrow> search_loop casefold type str (tag_items tag) (replicate 18 False);
           if str = [] then do {
             v \<leftarrow> aget visited type;
             Some (if \<not> v then True else ret)
           }
           else Some ret
         }
   }"

fun locate_song_search :: "(string \<Rightarrow> string) \<Rightarrow> song \<Rightarrow> locate_item list \<Rightarrow> bool option" where
  "locate_song_search casefold song [] = Some True"
| "locate_song_search casefold song (i # criteria) = do {
     found \<leftarrow> locate_tag_search casefold song (li_tag i) (li_needle i);
     if \<not> found then Some False else locate_song_search casefold song criteria
   }"

section \<open>Matching\<close>

fun match_loop :: "nat \<Rightarrow> string \<Rightarrow> tag_item list \<Rightarrow> bool list \<Rightarrow> (bool \<times> bool list) option" where
  "match_loop type str [] visited = Some (False, visited)"
| "match_loop type str (i # items) visited = do {
     visited \<leftarrow> aset visited (tag_type_number (ti_type i)) True;
     if type \<noteq> LOCATE_TAG_ANY_TYPE \<and> tag_type_number (ti_type i) \<noteq> type then match_loop type str items visited
     else if str = ti_value i then Some (True, visited)
     else match_loop type str items visited
   }"

definition locate_tag_match :: "song \<Rightarrow> nat \<Rightarrow> string \<Rightarrow> bool option" where
  "locate_tag_match song type str = do {
     matches \<leftarrow> (if type = LOCATE_TAG_FILE_TYPE \<or> type = LOCATE_TAG_ANY_TYPE then do {
         uri \<leftarrow> song_get_uri song;
         Some (str = uri)
       }
       else Some False);
     if matches then Some True
     else if type = LOCATE_TAG_FILE_TYPE then Some False
     else case s_tag song of
         None \<Rightarrow> Some False
       | Some tag \<Rightarrow> do {
           (found, visited) \<leftarrow> match_loop type str (tag_items tag) (replicate 18 False);
           if found then Some True
           else if str = [] then do {
             v \<leftarrow> aget visited type;
             Some (\<not> v)
           }
           else Some False
         }
   }"

fun locate_song_match :: "song \<Rightarrow> locate_item list \<Rightarrow> bool option" where
  "locate_song_match song [] = Some True"
| "locate_song_match song (i # criteria) = do {
     matches \<leftarrow> locate_tag_match song (li_tag i) (li_needle i);
     if \<not> matches then Some False else locate_song_match song criteria
   }"

section \<open>What is found\<close>

text \<open>
  The items of a tag that a criterion looks at, and the criteria the parser makes: the type of a tag, the file or anything.
\<close>

definition looked_at :: "nat \<Rightarrow> tag_contents \<Rightarrow> string list" where
  "looked_at type items = map snd (filter (\<lambda>(t, v). type = LOCATE_TAG_ANY_TYPE \<or> tag_type_number t = type) items)"

definition locate_type :: "nat \<Rightarrow> bool" where
  "locate_type type \<longleftrightarrow> type < 18 \<or> type = LOCATE_TAG_FILE_TYPE \<or> type = LOCATE_TAG_ANY_TYPE"

definition song_tag_view :: "song \<Rightarrow> tag_contents" where
  "song_tag_view s = (case s_tag s of None \<Rightarrow> [] | Some tag \<Rightarrow> tag_view tag)"

definition song_ok :: "song \<Rightarrow> bool" where
  "song_ok s \<longleftrightarrow> s_uri s \<noteq> [] \<and> TAG_NUM_OF_ITEM_TYPES \<notin> fst ` set (song_tag_view s)"

definition full_uri :: "song \<Rightarrow> string" where
  "full_uri s = (case song_get_uri s of Some u \<Rightarrow> u | None \<Rightarrow> [])"

text \<open>
  What a criterion means, for a comparison with URIs and one with values.  An empty needle also asks for the songs that
  have a tag, but no item of this type.
\<close>

definition criterion_holds :: "(string \<Rightarrow> string \<Rightarrow> bool) \<Rightarrow> (string \<Rightarrow> string \<Rightarrow> bool) \<Rightarrow> song \<Rightarrow> locate_item \<Rightarrow> bool" where
  "criterion_holds mu mv s i \<longleftrightarrow>
     (18 \<le> li_tag i \<and> mu (li_needle i) (full_uri s)) \<or>
     (li_tag i \<noteq> LOCATE_TAG_FILE_TYPE \<and>
      ((\<exists>v \<in> set (looked_at (li_tag i) (song_tag_view s)). mv (li_needle i) v) \<or>
       (li_needle i = [] \<and> s_tag s \<noteq> None \<and> looked_at (li_tag i) (song_tag_view s) = [])))"

definition search_holds :: "(string \<Rightarrow> string) \<Rightarrow> song \<Rightarrow> locate_item \<Rightarrow> bool" where
  "search_holds casefold =
     criterion_holds (\<lambda>n u. sublist n (casefold u)) (\<lambda>n v. n \<noteq> [] \<and> sublist n (casefold v))"

definition match_holds :: "song \<Rightarrow> locate_item \<Rightarrow> bool" where
  "match_holds = criterion_holds (\<lambda>n u. n = u) (\<lambda>n v. n = v)"

lemmas locate_numbers = LOCATE_TAG_FILE_TYPE_def LOCATE_TAG_ANY_TYPE_def

lemma song_get_full_uri: "song_ok s \<Longrightarrow> song_get_uri s = Some (full_uri s) \<and> full_uri s \<noteq> []"
  by (auto simp: song_ok_def full_uri_def song_get_uri_def build_db_filename_def split: option.splits)

text \<open>After a loop that has not found anything, the array says which types there are.\<close>

lemma search_loop_ok:
  assumes "\<forall>i \<in> set items. ti_type i \<noteq> TAG_NUM_OF_ITEM_TYPES" "length visited = 18"
  shows "\<exists>visited'. search_loop casefold type str items visited =
      Some (\<exists>v \<in> set (looked_at type (map item_contents items)). str \<noteq> [] \<and> sublist str (casefold v), visited') \<and>
    length visited' = 18 \<and>
    (str = [] \<longrightarrow> (\<forall>t < 18. visited' ! t \<longleftrightarrow> visited ! t \<or> (\<exists>i \<in> set items. tag_type_number (ti_type i) = t)))"
  using assms
proof (induction items arbitrary: visited)
  case (Cons i items)
  let ?n = "tag_type_number (ti_type i)" and ?hit = "type = LOCATE_TAG_ANY_TYPE \<or> tag_type_number (ti_type i) = type"
  have n: "?n < 18" using Cons.prems(1) tag_types_number(3) by simp
  then have a: "aset visited ?n True = Some (visited[?n := True])" using Cons.prems(2) by (simp add: aset_def)
  have l: "looked_at type (map item_contents (i # items)) =
      (if ?hit then ti_value i # looked_at type (map item_contents items) else looked_at type (map item_contents items))"
    by (simp add: looked_at_def item_contents_def)
  show ?case
  proof (cases "?hit \<and> str \<noteq> [] \<and> sublist str (casefold (ti_value i))")
    case True
    then show ?thesis using a l Cons.prems(2) by auto
  next
    case False
    then have e: "search_loop casefold type str (i # items) visited = search_loop casefold type str items (visited[?n := True])"
      using a by auto
    from Cons.IH [of "visited[?n := True]"] Cons.prems obtain visited' where
      v: "search_loop casefold type str items (visited[?n := True]) =
        Some (\<exists>v \<in> set (looked_at type (map item_contents items)). str \<noteq> [] \<and> sublist str (casefold v), visited')"
      "length visited' = 18"
      "str = [] \<longrightarrow> (\<forall>t < 18. visited' ! t \<longleftrightarrow> visited[?n := True] ! t \<or> (\<exists>i \<in> set items. tag_type_number (ti_type i) = t))"
      by auto
    have "(\<exists>v \<in> set (looked_at type (map item_contents (i # items))). str \<noteq> [] \<and> sublist str (casefold v)) \<longleftrightarrow>
        (\<exists>v \<in> set (looked_at type (map item_contents items)). str \<noteq> [] \<and> sublist str (casefold v))"
      using False unfolding l by auto
    with e v n Cons.prems(2) show ?thesis by (auto simp: nth_list_update)
  qed
qed (simp add: looked_at_def)

lemma match_loop_ok:
  assumes "\<forall>i \<in> set items. ti_type i \<noteq> TAG_NUM_OF_ITEM_TYPES" "length visited = 18"
  shows "\<exists>visited'. match_loop type str items visited =
      Some (str \<in> set (looked_at type (map item_contents items)), visited') \<and> length visited' = 18 \<and>
    (str \<notin> set (looked_at type (map item_contents items)) \<longrightarrow>
      (\<forall>t < 18. visited' ! t \<longleftrightarrow> visited ! t \<or> (\<exists>i \<in> set items. tag_type_number (ti_type i) = t)))"
  using assms
proof (induction items arbitrary: visited)
  case (Cons i items)
  let ?n = "tag_type_number (ti_type i)" and ?hit = "type = LOCATE_TAG_ANY_TYPE \<or> tag_type_number (ti_type i) = type"
  have n: "?n < 18" using Cons.prems(1) tag_types_number(3) by simp
  then have a: "aset visited ?n True = Some (visited[?n := True])" using Cons.prems(2) by (simp add: aset_def)
  have l: "looked_at type (map item_contents (i # items)) =
      (if ?hit then ti_value i # looked_at type (map item_contents items) else looked_at type (map item_contents items))"
    by (simp add: looked_at_def item_contents_def)
  show ?case
  proof (cases "?hit \<and> str = ti_value i")
    case True
    then show ?thesis using a l Cons.prems(2) by auto
  next
    case False
    then have e: "match_loop type str (i # items) visited = match_loop type str items (visited[?n := True])"
      using a by auto
    from Cons.IH [of "visited[?n := True]"] Cons.prems obtain visited' where
      v: "match_loop type str items (visited[?n := True]) = Some (str \<in> set (looked_at type (map item_contents items)), visited')"
      "length visited' = 18"
      "str \<notin> set (looked_at type (map item_contents items)) \<longrightarrow>
        (\<forall>t < 18. visited' ! t \<longleftrightarrow> visited[?n := True] ! t \<or> (\<exists>i \<in> set items. tag_type_number (ti_type i) = t))"
      by auto
    have "str \<in> set (looked_at type (map item_contents (i # items))) \<longleftrightarrow> str \<in> set (looked_at type (map item_contents items))"
      using False unfolding l by auto
    with e v n Cons.prems(2) show ?thesis by (auto simp: nth_list_update)
  qed
qed (simp add: looked_at_def)

lemma looked_at_empty:
  "type < 18 \<Longrightarrow> looked_at type (map item_contents items) = [] \<longleftrightarrow> (\<forall>i \<in> set items. tag_type_number (ti_type i) \<noteq> type)"
  by (auto simp: looked_at_def filter_empty_conv item_contents_def locate_numbers)

lemma song_ok_items: "song_ok s \<Longrightarrow> s_tag s = Some tag \<Longrightarrow> i \<in> set (tag_items tag) \<Longrightarrow> ti_type i \<noteq> TAG_NUM_OF_ITEM_TYPES"
  by (force simp: song_ok_def song_tag_view_def tag_view_def item_contents_def)

lemma locate_tag_search_iff:
  assumes "song_ok s" "locate_type (li_tag i)"
  shows "locate_tag_search casefold s (li_tag i) (li_needle i) = Some (search_holds casefold s i)"
proof -
  note u = song_get_full_uri [OF assms(1)]
  show ?thesis
  proof (cases "s_tag s")
    case None
    then show ?thesis using u assms(2)
      by (auto simp: locate_tag_search_def search_holds_def criterion_holds_def song_tag_view_def looked_at_def locate_type_def locate_numbers)
  next
    case (Some tag)
    have "\<forall>i \<in> set (tag_items tag). ti_type i \<noteq> TAG_NUM_OF_ITEM_TYPES" using song_ok_items [OF assms(1) Some] by blast
    from search_loop_ok [OF this, of "replicate 18 False" casefold "li_tag i" "li_needle i"] obtain visited where
      v: "search_loop casefold (li_tag i) (li_needle i) (tag_items tag) (replicate 18 False) =
        Some (\<exists>v \<in> set (looked_at (li_tag i) (tag_view tag)). li_needle i \<noteq> [] \<and> sublist (li_needle i) (casefold v), visited)"
      "length visited = 18"
      "li_needle i = [] \<longrightarrow> (\<forall>t < 18. visited ! t \<longleftrightarrow> (\<exists>i \<in> set (tag_items tag). tag_type_number (ti_type i) = t))"
      by (auto simp: tag_view_def)
    consider "li_tag i < 18" | "li_tag i = LOCATE_TAG_FILE_TYPE" | "li_tag i = LOCATE_TAG_ANY_TYPE" using assms(2) by (auto simp: locate_type_def)
    then show ?thesis
    proof cases
      case 1
      with v Some looked_at_empty [OF 1, of "tag_items tag"] show ?thesis
        by (auto simp: locate_tag_search_def search_holds_def criterion_holds_def song_tag_view_def locate_numbers aget_def tag_view_def)
    qed (use u v Some in \<open>auto simp: locate_tag_search_def search_holds_def criterion_holds_def song_tag_view_def locate_numbers\<close>)
  qed
qed

text \<open>Asking for an empty value of any type reads the array outside of its bounds.\<close>

lemma locate_tag_match_iff:
  assumes "song_ok s" "locate_type (li_tag i)"
  shows "locate_tag_match s (li_tag i) (li_needle i) =
    (if li_tag i = LOCATE_TAG_ANY_TYPE \<and> li_needle i = [] \<and> s_tag s \<noteq> None \<and> [] \<notin> snd ` set (song_tag_view s)
     then None else Some (match_holds s i))"
proof -
  note u = song_get_full_uri [OF assms(1)]
  show ?thesis
  proof (cases "s_tag s")
    case None
    then show ?thesis using u assms(2)
      by (auto simp: locate_tag_match_def match_holds_def criterion_holds_def song_tag_view_def looked_at_def locate_type_def locate_numbers)
  next
    case (Some tag)
    have "\<forall>i \<in> set (tag_items tag). ti_type i \<noteq> TAG_NUM_OF_ITEM_TYPES" using song_ok_items [OF assms(1) Some] by blast
    from match_loop_ok [OF this, of "replicate 18 False" "li_tag i" "li_needle i"] obtain visited where
      v: "match_loop (li_tag i) (li_needle i) (tag_items tag) (replicate 18 False) =
        Some (li_needle i \<in> set (looked_at (li_tag i) (tag_view tag)), visited)"
      "length visited = 18"
      "li_needle i \<notin> set (looked_at (li_tag i) (tag_view tag)) \<longrightarrow>
        (\<forall>t < 18. visited ! t \<longleftrightarrow> (\<exists>i \<in> set (tag_items tag). tag_type_number (ti_type i) = t))"
      by (auto simp: tag_view_def)
    consider "li_tag i < 18" | "li_tag i = LOCATE_TAG_FILE_TYPE" | "li_tag i = LOCATE_TAG_ANY_TYPE" using assms(2) by (auto simp: locate_type_def)
    then show ?thesis
    proof cases
      case 1
      with v Some looked_at_empty [OF 1, of "tag_items tag"] show ?thesis
        by (auto simp: locate_tag_match_def match_holds_def criterion_holds_def song_tag_view_def locate_numbers aget_def tag_view_def)
    next
      case 2
      with u Some show ?thesis
        by (auto simp: locate_tag_match_def match_holds_def criterion_holds_def song_tag_view_def locate_numbers)
    next
      case 3
      have "looked_at LOCATE_TAG_ANY_TYPE xs = map snd xs" for xs by (simp add: looked_at_def split_def)
      with 3 u v Some show ?thesis
        by (auto simp: locate_tag_match_def match_holds_def criterion_holds_def song_tag_view_def locate_numbers aget_def)
    qed
  qed
qed

lemma locate_song_search_iff:
  "song_ok s \<Longrightarrow> list_all (\<lambda>i. locate_type (li_tag i)) criteria \<Longrightarrow>
   locate_song_search casefold s criteria = Some (list_all (search_holds casefold s) criteria)"
  by (induction criteria) (simp_all add: locate_tag_search_iff)

definition no_empty_any :: "locate_item \<Rightarrow> bool" where
  "no_empty_any i \<longleftrightarrow> locate_type (li_tag i) \<and> (li_tag i = LOCATE_TAG_ANY_TYPE \<longrightarrow> li_needle i \<noteq> [])"

lemma locate_song_match_iff:
  "song_ok s \<Longrightarrow> list_all no_empty_any criteria \<Longrightarrow>
   locate_song_match s criteria = Some (list_all (match_holds s) criteria)"
  by (induction criteria) (auto simp: locate_tag_match_iff no_empty_any_def)

lemma locate_parse_ok: "locate_item_list_parse E argv = Some criteria \<Longrightarrow> list_all (\<lambda>i. locate_type (li_tag i)) criteria"
proof (induction E argv arbitrary: criteria rule: locate_item_list_parse.induct)
  case (3 E a b argv)
  then show ?case
    by (auto simp: bind_eq_Some_conv locate_item_init_def locate_parse_type_def locate_type_def Let_def tag_types_number(3) split: if_splits)
qed simp_all

end
