(* ===== verification/Strset.thy ===== *)
theory Strset
  imports Tag_Pool
begin

text \<open>
  The set of strings, \<^verbatim>\<open>src/strset.c\<close>: a hash table with the first string of a bucket in the array and the others in a
  chain behind it.  A bucket is the list of its strings; \<open>ss_current\<close> is the slot the iteration stands on, with the chain that follows it.
\<close>

definition STRSET_SLOTS :: nat where
  "STRSET_SLOTS = 16384"

record strset =
  ss_size :: u32
  ss_current :: "string list"
  ss_next :: nat
  ss_slots :: "string list list"

definition strset_new :: strset where
  "strset_new = \<lparr>ss_size = 0, ss_current = [], ss_next = 0, ss_slots = replicate STRSET_SLOTS []\<rparr>"

definition strset_hash :: "string \<Rightarrow> u32" where
  "strset_hash p = foldl hash_step 5381 p"

definition strset_add :: "strset \<Rightarrow> string \<Rightarrow> strset option" where
  "strset_add ss v = do {
     let i = unat (strset_hash v) mod STRSET_SLOTS;
     slot \<leftarrow> aget (ss_slots ss) i;
     case slot of
       [] \<Rightarrow> Some (ss\<lparr>ss_slots := (ss_slots ss)[i := [v]], ss_size := ss_size ss + 1\<rparr>)
     | base # chain \<Rightarrow>
         if v \<in> set slot then Some ss
         else Some (ss\<lparr>ss_slots := (ss_slots ss)[i := base # v # chain], ss_size := ss_size ss + 1\<rparr>)
   }"

text \<open>The lookup leaves the hash as it is, without the remainder, and begins with the second slot.\<close>

definition strset_get :: "strset \<Rightarrow> string \<Rightarrow> bool option" where
  "strset_get ss v = do {
     slot \<leftarrow> aget (ss_slots ss) (unat (strset_hash v));
     Some (slot \<noteq> [] \<and> v \<in> set (tl slot))
   }"

definition strset_size :: "strset \<Rightarrow> u32" where
  "strset_size ss = ss_size ss"

definition strset_rewind :: "strset \<Rightarrow> strset" where
  "strset_rewind ss = ss\<lparr>ss_current := [], ss_next := 0\<rparr>"

function next_slot_loop :: "string list list \<Rightarrow> nat \<Rightarrow> nat" where
  "next_slot_loop slots n = (if n < length slots \<and> slots ! n = [] then next_slot_loop slots (n + 1) else n)"
  by pat_completeness auto
termination by (relation "measure (\<lambda>(slots, n). length slots - n)") auto

declare next_slot_loop.simps [simp del]

definition strset_next :: "strset \<Rightarrow> string option \<times> strset" where
  "strset_next ss =
     (if ss_current ss \<noteq> [] \<and> tl (ss_current ss) \<noteq> []
      then (Some (hd (tl (ss_current ss))), ss\<lparr>ss_current := tl (ss_current ss)\<rparr>)
      else let n = next_slot_loop (ss_slots ss) (ss_next ss)
           in if length (ss_slots ss) \<le> n then (None, ss\<lparr>ss_next := n\<rparr>)
              else (Some (hd (ss_slots ss ! n)), ss\<lparr>ss_current := ss_slots ss ! n, ss_next := n + 1\<rparr>))"

section \<open>The set that is represented\<close>

definition strset_values :: "strset \<Rightarrow> string list" where
  "strset_values ss = concat (ss_slots ss)"

definition strset_ok :: "strset \<Rightarrow> bool" where
  "strset_ok ss \<longleftrightarrow> length (ss_slots ss) = STRSET_SLOTS \<and>
     (\<forall>i < STRSET_SLOTS. distinct (ss_slots ss ! i) \<and>
       (\<forall>v \<in> set (ss_slots ss ! i). unat (strset_hash v) mod STRSET_SLOTS = i)) \<and>
     ss_size ss = of_nat (length (strset_values ss))"

lemma concat_update_mset:
  "i < length xs \<Longrightarrow> mset (concat (xs[i := ys])) + mset (xs ! i) = mset (concat xs) + mset ys"
proof (induction xs arbitrary: i)
  case (Cons x xs)
  then show ?case by (cases i) (simp_all add: ac_simps)
qed simp

lemma distinct_buckets:
  assumes "strset_ok ss"
  shows "distinct (strset_values ss)"
proof -
  have "distinct (concat xs)" if "\<forall>i < length xs. distinct (xs ! i) \<and> (\<forall>v \<in> set (xs ! i). h v = i + k)"
    for xs :: "string list list" and h k
    using that
  proof (induction xs arbitrary: k)
    case (Cons x xs)
    have "distinct (concat xs)" using Cons.prems by (intro Cons.IH [of "Suc k"]) (metis add_Suc_shift length_Cons nth_Cons_Suc Suc_less_eq)
    moreover have "h v = k" if "v \<in> set x" for v using Cons.prems that by (metis add_0 length_greater_0_conv list.distinct(1) nth_Cons_0)
    moreover have "h v \<noteq> k" if y: "y \<in> set xs" and v: "v \<in> set y" for v y
    proof -
      obtain i where "i < length xs" "xs ! i = y" using y unfolding in_set_conv_nth by blast
      with Cons.prems v show ?thesis by (metis Suc_less_eq add_Suc length_Cons nth_Cons_Suc not_add_less2 less_Suc_eq)
    qed
    moreover have "distinct x" using Cons.prems by force
    ultimately show ?case by auto
  qed simp
  from this [of "ss_slots ss" "\<lambda>v. unat (strset_hash v) mod STRSET_SLOTS" 0] show ?thesis
    using assms by (simp add: strset_ok_def strset_values_def)
qed

lemma strset_new_ok: "strset_ok strset_new" "strset_values strset_new = []"
  by (simp_all add: strset_ok_def strset_new_def strset_values_def)

lemma bucket_of_value:
  assumes "strset_ok ss" "v \<in> set (strset_values ss)"
  shows "v \<in> set (ss_slots ss ! (unat (strset_hash v) mod STRSET_SLOTS))"
  using assms by (auto simp: strset_ok_def strset_values_def in_set_conv_nth [of _ "ss_slots ss"])

lemma strset_add_ok:
  assumes "strset_ok ss"
  shows "\<exists>ss'. strset_add ss v = Some ss' \<and> strset_ok ss' \<and>
    set (strset_values ss') = insert v (set (strset_values ss))"
proof -
  let ?i = "unat (strset_hash v) mod STRSET_SLOTS"
  have i: "?i < length (ss_slots ss)" "length (ss_slots ss) = STRSET_SLOTS"
    using assms by (simp_all add: strset_ok_def STRSET_SLOTS_def)
  have slot: "aget (ss_slots ss) ?i = Some (ss_slots ss ! ?i)" using i by (simp add: aget_def)
  show ?thesis
  proof (cases "v \<in> set (ss_slots ss ! ?i)")
    case True
    then have "v \<in> set (strset_values ss)" using i nth_mem [of ?i "ss_slots ss"] by (auto simp: strset_values_def)
    with True slot assms show ?thesis by (auto simp: strset_add_def Let_def insert_absorb split: list.split)
  next
    case False
    obtain ys where ys: "mset ys = add_mset v (mset (ss_slots ss ! ?i))"
      "strset_add ss v = Some (ss\<lparr>ss_slots := (ss_slots ss)[?i := ys], ss_size := ss_size ss + 1\<rparr>)"
      using slot False that [of "[v]"] that [of "hd (ss_slots ss ! ?i) # v # tl (ss_slots ss ! ?i)"]
      by (cases "ss_slots ss ! ?i") (simp_all add: strset_add_def Let_def add_mset_commute)
    let ?ss = "ss\<lparr>ss_slots := (ss_slots ss)[?i := ys], ss_size := ss_size ss + 1\<rparr>"
    have m: "mset (strset_values ?ss) = add_mset v (mset (strset_values ss))"
      using concat_update_mset [OF i(1), of ys] ys(1) by (simp add: strset_values_def)
    have d: "distinct ys" "set ys = insert v (set (ss_slots ss ! ?i))"
    proof -
      have "distinct (v # ss_slots ss ! ?i)" using False assms i by (simp add: strset_ok_def)
      then show "distinct ys" using ys(1) mset_eq_imp_distinct_iff [of ys "v # ss_slots ss ! ?i"] by simp
      show "set ys = insert v (set (ss_slots ss ! ?i))" using ys(1) mset_eq_setD [of ys "v # ss_slots ss ! ?i"] by simp
    qed
    have "ss_size ss + 1 = of_nat (length (strset_values ?ss))"
      using m assms by (metis mset.simps(2) size_mset length_Cons of_nat_Suc strset_ok_def add.commute)
    with assms i d have "strset_ok ?ss" by (auto simp: strset_ok_def nth_list_update)
    moreover have "set (strset_values ?ss) = insert v (set (strset_values ss))"
      using mset_eq_setD [of "strset_values ?ss" "v # strset_values ss"] m by simp
    ultimately show ?thesis using ys(2) by blast
  qed
qed

text \<open>With less than \<open>2 ^ 32\<close> elements the size is their number.\<close>

lemma strset_size_card:
  assumes "strset_ok ss" "card (set (strset_values ss)) < 2 ^ 32"
  shows "unat (strset_size ss) = card (set (strset_values ss))"
  using assms distinct_card [OF distinct_buckets [OF assms(1)]]
  by (simp add: strset_ok_def strset_size_def unat_of_nat take_bit_nat_eq_self unsigned_of_nat)

section \<open>Iteration\<close>

definition values_left :: "strset \<Rightarrow> string list" where
  "values_left ss = tl (ss_current ss) @ concat (drop (ss_next ss) (ss_slots ss))"

lemma next_slot_loop_ok:
  "n \<le> length slots \<Longrightarrow> next_slot_loop slots n \<le> length slots \<and> concat (drop (next_slot_loop slots n) slots) = concat (drop n slots) \<and>
   (next_slot_loop slots n < length slots \<longrightarrow> slots ! next_slot_loop slots n \<noteq> [])"
proof (induction slots n rule: next_slot_loop.induct)
  case (1 slots n)
  then show ?case
    by (cases "n < length slots \<and> slots ! n = []")
      (auto simp: next_slot_loop.simps [of slots n] Cons_nth_drop_Suc [symmetric])
qed

text \<open>Each call takes the first of the values that are left.\<close>

lemma strset_next_left:
  assumes "ss_next ss \<le> length (ss_slots ss)"
  shows "\<exists>ss'. strset_next ss = (case values_left ss of [] \<Rightarrow> None | v # _ \<Rightarrow> Some v, ss') \<and>
    values_left ss' = tl (values_left ss) \<and> ss_slots ss' = ss_slots ss \<and> ss_next ss' \<le> length (ss_slots ss')"
proof -
  let ?n = "next_slot_loop (ss_slots ss) (ss_next ss)"
  note n = next_slot_loop_ok [OF assms]
  show ?thesis
  proof (cases "tl (ss_current ss) = []")
    case False
    then have "ss_current ss \<noteq> []" by auto
    with False assms show ?thesis by (cases "tl (ss_current ss)") (auto simp: strset_next_def values_left_def)
  next
    case True
    show ?thesis
    proof (cases "?n < length (ss_slots ss)")
      case t: True
      then have "concat (drop (ss_next ss) (ss_slots ss)) = ss_slots ss ! ?n @ concat (drop (Suc ?n) (ss_slots ss))"
        using n by (metis Cons_nth_drop_Suc concat.simps(2))
      with n t True show ?thesis by (cases "ss_slots ss ! ?n") (auto simp: strset_next_def values_left_def Let_def)
    next
      case False
      then have "concat (drop (ss_next ss) (ss_slots ss)) = []" using n by simp
      with False n True show ?thesis by (simp add: strset_next_def values_left_def Let_def del: concat_eq_Nil_conv)
    qed
  qed
qed

lemma values_left_rewind: "values_left (strset_rewind ss) = strset_values ss"
  by (simp add: values_left_def strset_rewind_def strset_values_def)

end
