(* ===== verification/Database.thy ===== *)
theory Database
  imports Simple_Db Locate Strset
begin

text \<open>
  The database of the server, \<^verbatim>\<open>src/database.c\<close>, and what walks over it: adding songs to the queue (\<^verbatim>\<open>src/dbUtils.c\<close>) and
  counting (\<^verbatim>\<open>src/stats.c\<close>); and the queue of updates, \<^verbatim>\<open>src/update_queue.c\<close>.

  A visitor that works on other parts of the server may fail an assertion there.  Its context is then gone
  (\<open>lift_visit\<close>) and the walk as a whole is \<open>None\<close>.  The functions that return \<^verbatim>\<open>true\<close> where an error code is expected
  return the code with the number 1, \<open>MPD_ERR_FIRST\<close>.
\<close>

record database =
  dbs_db :: "simple_db option"
  dbs_is_open :: bool

section \<open>Walking over songs\<close>

definition lift_visit :: "('a \<Rightarrow> 'c \<Rightarrow> (playlist_result \<times> 'c) option) \<Rightarrow> 'a \<Rightarrow> 'c option \<Rightarrow> playlist_result \<times> 'c option" where
  "lift_visit f x ctx = (case ctx of
     None \<Rightarrow> (MPD_SUCCESS, None)
   | Some c \<Rightarrow> (case f x c of None \<Rightarrow> (MPD_SUCCESS, None) | Some (ret, c) \<Rightarrow> (ret, Some c)))"

definition song_visitor :: "(song \<Rightarrow> 'c \<Rightarrow> (playlist_result \<times> 'c) option) \<Rightarrow> 'c option db_visitor" where
  "song_visitor f = \<lparr>dv_directory = None, dv_song = Some (lift_visit f), dv_playlist = None\<rparr>"

definition db_visit :: "database \<Rightarrow> string \<Rightarrow> bool \<Rightarrow> 'c option db_visitor \<Rightarrow> 'c \<Rightarrow> (playlist_result \<times> 'c) option" where
  "db_visit db uri recursive v ctx = (case dbs_db db of
     None \<Rightarrow> Some (DB_DISABLED, ctx)
   | Some sdb \<Rightarrow> do {
       (ret, ctx) \<leftarrow> simple_db_visit sdb uri recursive v (Some ctx);
       ctx \<leftarrow> ctx;
       Some (ret, ctx)
     })"

definition db_walk :: "database \<Rightarrow> string \<Rightarrow> 'c option db_visitor \<Rightarrow> 'c \<Rightarrow> (playlist_result \<times> 'c) option" where
  "db_walk db uri v ctx = db_visit db uri True v ctx"

section \<open>Statistics\<close>

record stats =
  stat_song_count :: u32
  stat_song_duration :: "64 word"
  stat_artist_count :: u32
  stat_album_count :: u32

record visit_data =
  vd_stats :: stats
  vd_artists :: strset
  vd_albums :: strset

definition visit_item :: "tag_item \<Rightarrow> visit_data \<Rightarrow> visit_data option" where
  "visit_item item data =
     (if ti_type item = TAG_ARTIST then do {
        s \<leftarrow> strset_add (vd_artists data) (ti_value item);
        Some (data\<lparr>vd_artists := s\<rparr>)
      }
      else if ti_type item = TAG_ALBUM then do {
        s \<leftarrow> strset_add (vd_albums data) (ti_value item);
        Some (data\<lparr>vd_albums := s\<rparr>)
      }
      else Some data)"

definition visit_tag :: "tag \<Rightarrow> visit_data \<Rightarrow> visit_data option" where
  "visit_tag tag data = do {
     let st = vd_stats data;
     let data = (if 0 < tag_time tag
       then data\<lparr>vd_stats := st\<lparr>stat_song_duration := stat_song_duration st + word_of_int (tag_time tag)\<rparr>\<rparr> else data);
     for_each visit_item (tag_items tag) data
   }"

definition collect_stats_song :: "song \<Rightarrow> visit_data \<Rightarrow> (playlist_result \<times> visit_data) option" where
  "collect_stats_song song data = do {
     let st = vd_stats data;
     let data = data\<lparr>vd_stats := st\<lparr>stat_song_count := stat_song_count st + 1\<rparr>\<rparr>;
     data \<leftarrow> (case s_tag song of None \<Rightarrow> Some data | Some tag \<Rightarrow> visit_tag tag data);
     Some (MPD_SUCCESS, data)
   }"

text \<open>A walk that fails leaves the statistics as far as they have come.\<close>

definition stats_update :: "database \<Rightarrow> stats \<Rightarrow> stats option" where
  "stats_update db st = do {
     let data = \<lparr>vd_stats = st\<lparr>stat_song_count := 0, stat_song_duration := 0, stat_artist_count := 0\<rparr>,
       vd_artists = strset_new, vd_albums = strset_new\<rparr>;
     (ret, data) \<leftarrow> db_walk db [] (song_visitor collect_stats_song) data;
     Some ((vd_stats data)\<lparr>stat_artist_count := strset_size (vd_artists data), stat_album_count := strset_size (vd_albums data)\<rparr>)
   }"

section \<open>The database\<close>

text \<open>\<open>path\<close> is the value of the setting \<^verbatim>\<open>db_file\<close>.\<close>

definition db_init :: "string option \<Rightarrow> database \<Rightarrow> (playlist_result \<times> database) option" where
  "db_init path db = do {
     assert_that (dbs_db db = None);
     assert_that (\<not> dbs_is_open db);
     case path of
       None \<Rightarrow> Some (MPD_ERR_FIRST, db)
     | Some p \<Rightarrow> do {
         sdb \<leftarrow> simple_db_init (Some p);
         Some (MPD_SUCCESS, db\<lparr>dbs_db := Some sdb\<rparr>)
       }
   }"

definition db_finish :: "database \<Rightarrow> tag_lib \<Rightarrow> tag_lib option" where
  "db_finish db lib =
     (if dbs_is_open db then do {
        sdb \<leftarrow> dbs_db db;
        (sdb, lib) \<leftarrow> simple_db_close sdb lib;
        Some lib
      }
      else Some lib)"

definition db_get_root :: "database \<Rightarrow> node option" where
  "db_get_root db = do {
     sdb \<leftarrow> dbs_db db;
     simple_db_get_root sdb
   }"

definition db_get_directory :: "database \<Rightarrow> string option \<Rightarrow> node option option" where
  "db_get_directory db name =
     (if dbs_db db = None then Some None
      else do {
        music_root \<leftarrow> db_get_root db;
        case name of None \<Rightarrow> Some (Some music_root) | Some n \<Rightarrow> directory_lookup_directory music_root n
      })"

definition db_get_song :: "database \<Rightarrow> string \<Rightarrow> song option option" where
  "db_get_song db uri = (case dbs_db db of None \<Rightarrow> Some None | Some sdb \<Rightarrow> simple_db_get_song sdb uri)"

definition db_save :: "db_env \<Rightarrow> tag_lib \<Rightarrow> database \<Rightarrow> (playlist_result \<times> string option \<times> database) option" where
  "db_save E lib db = do {
     sdb \<leftarrow> dbs_db db;
     assert_that (dbs_is_open db);
     (ret, fp, sdb) \<leftarrow> simple_db_save E lib sdb;
     Some (ret, fp, db\<lparr>dbs_db := Some sdb\<rparr>)
   }"

definition db_load ::
    "db_env \<Rightarrow> database \<Rightarrow> tag_lib \<Rightarrow> nat \<Rightarrow> stats \<Rightarrow> (playlist_result \<times> database \<times> tag_lib \<times> nat \<times> stats) option" where
  "db_load E db lib nxt st = do {
     sdb \<leftarrow> dbs_db db;
     assert_that (\<not> dbs_is_open db);
     (ret, sdb, lib, nxt) \<leftarrow> simple_db_open E sdb lib nxt;
     let db = db\<lparr>dbs_db := Some sdb\<rparr>;
     if ret \<noteq> MPD_SUCCESS then Some (ret, db, lib, nxt, st)
     else do {
       let db = db\<lparr>dbs_is_open := True\<rparr>;
       st \<leftarrow> stats_update db st;
       Some (MPD_SUCCESS, db, lib, nxt, st)
     }
   }"

definition db_get_mtime :: "database \<Rightarrow> int option" where
  "db_get_mtime db = do {
     sdb \<leftarrow> dbs_db db;
     assert_that (dbs_is_open db);
     simple_db_get_mtime sdb
   }"

section \<open>Adding songs\<close>

definition add_to_queue_song ::
    "'g glib \<Rightarrow> 't player_thread \<Rightarrow> song \<Rightarrow> ('g, 't) pstate \<Rightarrow> (playlist_result \<times> ('g, 't) pstate) option" where
  "add_to_queue_song G PT song st = (case st of (pl, pc) \<Rightarrow> do {
     (result, sid, st) \<leftarrow> playlist_append_song G PT pl pc song;
     Some (result, st)
   })"

definition addAllIn ::
    "'g glib \<Rightarrow> 't player_thread \<Rightarrow> database \<Rightarrow> string \<Rightarrow> ('g, 't) pstate \<Rightarrow> (playlist_result \<times> ('g, 't) pstate) option" where
  "addAllIn G PT db uri st = db_walk db uri (song_visitor (add_to_queue_song G PT)) st"

text \<open>A song that does not match is answered with \<^verbatim>\<open>true\<close>.\<close>

definition find_add_song ::
    "'g glib \<Rightarrow> 't player_thread \<Rightarrow> locate_item list \<Rightarrow> song \<Rightarrow> ('g, 't) pstate \<Rightarrow>
     (playlist_result \<times> ('g, 't) pstate) option" where
  "find_add_song G PT criteria song st = do {
     matches \<leftarrow> locate_song_match song criteria;
     if \<not> matches then Some (MPD_ERR_FIRST, st) else add_to_queue_song G PT song st
   }"

definition findAddIn ::
    "'g glib \<Rightarrow> 't player_thread \<Rightarrow> database \<Rightarrow> string \<Rightarrow> locate_item list \<Rightarrow> ('g, 't) pstate \<Rightarrow>
     (playlist_result \<times> ('g, 't) pstate) option" where
  "findAddIn G PT db name criteria st = db_walk db name (song_visitor (find_add_song G PT criteria)) st"

definition searchadd_visitor_song ::
    "'g glib \<Rightarrow> 't player_thread \<Rightarrow> (string \<Rightarrow> string) \<Rightarrow> locate_item list \<Rightarrow> song \<Rightarrow> ('g, 't) pstate \<Rightarrow>
     (playlist_result \<times> ('g, 't) pstate) option" where
  "searchadd_visitor_song G PT casefold criteria song st = do {
     found \<leftarrow> locate_song_search casefold song criteria;
     if \<not> found then Some (MPD_SUCCESS, st) else add_to_queue_song G PT song st
   }"

definition search_add_songs ::
    "'g glib \<Rightarrow> 't player_thread \<Rightarrow> (string \<Rightarrow> string) \<Rightarrow> database \<Rightarrow> string \<Rightarrow> locate_item list \<Rightarrow> ('g, 't) pstate \<Rightarrow>
     (playlist_result \<times> ('g, 't) pstate) option" where
  "search_add_songs G PT casefold db uri criteria st =
     db_walk db uri (song_visitor (searchadd_visitor_song G PT casefold (locate_item_list_casefold casefold criteria))) st"

text \<open>\<^verbatim>\<open>spl_append_song\<close> of \<^verbatim>\<open>stored_playlist.c\<close>, which appends to a file, is an argument.\<close>

definition add_to_spl_song ::
    "(string \<Rightarrow> song \<Rightarrow> 'f \<Rightarrow> (playlist_result \<times> 'f) option) \<Rightarrow> string \<Rightarrow> song \<Rightarrow> 'f \<Rightarrow> (playlist_result \<times> 'f) option" where
  "add_to_spl_song spl_append_song path song fs = spl_append_song path song fs"

definition addAllInToStoredPlaylist ::
    "(string \<Rightarrow> song \<Rightarrow> 'f \<Rightarrow> (playlist_result \<times> 'f) option) \<Rightarrow> database \<Rightarrow> string \<Rightarrow> string \<Rightarrow> 'f \<Rightarrow>
     (playlist_result \<times> 'f) option" where
  "addAllInToStoredPlaylist spl_append_song db uri_utf8 path_utf8 fs =
     db_walk db uri_utf8 (song_visitor (add_to_spl_song spl_append_song path_utf8)) fs"

definition searchaddpl_visitor_song ::
    "(string \<Rightarrow> song \<Rightarrow> 'f \<Rightarrow> (playlist_result \<times> 'f) option) \<Rightarrow> (string \<Rightarrow> string) \<Rightarrow> string \<Rightarrow> locate_item list \<Rightarrow> song \<Rightarrow> 'f \<Rightarrow>
     (playlist_result \<times> 'f) option" where
  "searchaddpl_visitor_song spl_append_song casefold playlist criteria song fs = do {
     found \<leftarrow> locate_song_search casefold song criteria;
     if \<not> found then Some (MPD_SUCCESS, fs) else spl_append_song playlist song fs
   }"

definition search_add_to_playlist ::
    "(string \<Rightarrow> song \<Rightarrow> 'f \<Rightarrow> (playlist_result \<times> 'f) option) \<Rightarrow> (string \<Rightarrow> string) \<Rightarrow> database \<Rightarrow> string \<Rightarrow> string \<Rightarrow>
     locate_item list \<Rightarrow> 'f \<Rightarrow> (playlist_result \<times> 'f) option" where
  "search_add_to_playlist spl_append_song casefold db uri path_utf8 criteria fs =
     db_walk db uri (song_visitor (searchaddpl_visitor_song spl_append_song casefold path_utf8
       (locate_item_list_casefold casefold criteria))) fs"

section \<open>The update queue\<close>

type_synonym update_queue = "(string \<times> bool) list"

definition UPDATE_QUEUE_SIZE :: nat where
  "UPDATE_QUEUE_SIZE = 32"

definition update_queue_push :: "update_queue \<Rightarrow> string option \<Rightarrow> bool \<Rightarrow> u32 \<Rightarrow> (u32 \<times> update_queue) option" where
  "update_queue_push q path disc base = do {
     assert_that (length q \<le> UPDATE_QUEUE_SIZE);
     if length q = UPDATE_QUEUE_SIZE then Some (0, q)
     else do {
       let q = q @ [(case path of None \<Rightarrow> [] | Some p \<Rightarrow> p, disc)];
       Some (base + of_nat (length q), q)
     }
   }"

definition update_queue_shift :: "update_queue \<Rightarrow> (string \<times> bool) option \<times> update_queue" where
  "update_queue_shift q = (case q of [] \<Rightarrow> (None, []) | (path, disc) # q \<Rightarrow> (Some (path, disc), q))"

end
