(* ===== verification/Database_Inv.thy ===== *)
theory Database_Inv
  imports Database Playlist_Edit
begin

text \<open>
  What a walk over the database does: it calls its visitor for the songs of the directory, in the order of the tree, until one call fails.
\<close>

section \<open>The loop over songs\<close>

fun visit_list :: "('a \<Rightarrow> 'c \<Rightarrow> (playlist_result \<times> 'c) option) \<Rightarrow> 'a list \<Rightarrow> 'c \<Rightarrow> (playlist_result \<times> 'c) option" where
  "visit_list f [] c = Some (MPD_SUCCESS, c)"
| "visit_list f (x # xs) c = do {
     (ret, c) \<leftarrow> f x c;
     if ret \<noteq> MPD_SUCCESS then Some (ret, c) else visit_list f xs c
   }"

definition walk_result :: "playlist_result \<times> 'c option \<Rightarrow> (playlist_result \<times> 'c) option" where
  "walk_result r = (case r of (ret, c) \<Rightarrow> map_option (Pair ret) c)"

lemma lift_visit_simps [simp]:
  "lift_visit f x None = (MPD_SUCCESS, None)"
  "lift_visit f x (Some c) = (case f x c of None \<Rightarrow> (MPD_SUCCESS, None) | Some (ret, c) \<Rightarrow> (ret, Some c))"
  by (simp_all add: lift_visit_def)

lemma visit_each_lift_None: "visit_each (lift_visit f) xs None = (MPD_SUCCESS, None)"
  by (induction xs) simp_all

lemma visit_each_lift: "walk_result (visit_each (lift_visit f) xs (Some c)) = visit_list f xs c"
proof (induction xs arbitrary: c)
  case (Cons x xs)
  show ?case
  proof (cases "f x c")
    case None
    then show ?thesis by (simp add: visit_each_lift_None walk_result_def)
  next
    case (Some r)
    obtain ret c' where r: "r = (ret, c')" by (cases r)
    then show ?thesis using Some Cons [of c'] by (simp add: walk_result_def)
  qed
qed (simp add: walk_result_def)

lemma visit_entries_songs:
  "visit_each (visit_entry (song_visitor f)) (entries True t) ctx = visit_each (lift_visit f) (tree_songs t) ctx"
proof (induction t arbitrary: ctx)
  case (Node d m st cs ss ps)
  have e: "visit_entry (song_visitor f) (ESong x) = lift_visit f x"
    "visit_entry (song_visitor f) (EPlaylist p d) = (\<lambda>c. (MPD_SUCCESS, c))"
    "visit_entry (song_visitor f) (EDirectory y) = (\<lambda>c. (MPD_SUCCESS, c))" for x p y
    by (simp_all add: fun_eq_iff visit_entry_def song_visitor_def call_directory_def)
  have s: "visit_each (visit_entry (song_visitor f)) (map ESong ss) c = visit_each (lift_visit f) ss c" for c
    by (simp add: visit_each_map e)
  have p: "visit_each (visit_entry (song_visitor f)) (map (\<lambda>p. EPlaylist p d) ps) c = (MPD_SUCCESS, c)" for c
    by (simp add: visit_each_map e visit_each_skip)
  have c: "visit_each (visit_entry (song_visitor f)) (concat (map (\<lambda>c. EDirectory c # entries True c) cs)) c =
      visit_each (lift_visit f) (concat (map tree_songs cs)) c" for c
    unfolding visit_each_concat visit_each_map
    by (intro visit_each_cong) (use Node in \<open>simp_all add: e\<close>)
  show ?case by (cases "visit_each (lift_visit f) ss ctx") (simp add: visit_each_append s p c)
qed

lemma db_walk_songs:
  assumes "dbs_db db = Some sdb" "sdb_root sdb = Some t"
  shows "db_walk db uri (song_visitor f) ctx = do {
     dir \<leftarrow> directory_lookup_directory t uri;
     case dir of
       Some d \<Rightarrow> visit_list f (tree_songs d) ctx
     | None \<Rightarrow> do {
         song \<leftarrow> directory_lookup_song t uri;
         case song of None \<Rightarrow> Some (DB_NOENT, ctx) | Some s \<Rightarrow> visit_list f [s] ctx
       }
   }"
proof (cases "directory_lookup_directory t uri")
  case None
  then show ?thesis using assms
    by (simp add: db_walk_def db_visit_def simple_db_visit_def simple_db_lookup_directory_def)
next
  case (Some dir)
  show ?thesis
  proof (cases dir)
    case (Some d)
    have "(\<lambda>(ret, ctx). do { ctx \<leftarrow> ctx; Some (ret, ctx) }) r = walk_result r" for r :: "playlist_result \<times> 'a option"
      by (cases r; cases "snd r") (auto simp: walk_result_def)
    then show ?thesis
      using assms Some \<open>directory_lookup_directory t uri = Some dir\<close> visit_each_lift [of f "tree_songs d" ctx]
      by (simp add: db_walk_def db_visit_def simple_db_visit_def simple_db_lookup_directory_def call_directory_def
        directory_walk_entries visit_entries_songs split: prod.splits) (simp add: song_visitor_def)
  next
    case None
    then show ?thesis
      using assms \<open>directory_lookup_directory t uri = Some dir\<close>
      by (auto simp: db_walk_def db_visit_def simple_db_visit_def simple_db_lookup_directory_def simple_db_get_song_def
        song_visitor_def lift_visit_def split: option.splits bind_splits)
  qed
qed

lemma db_walk_root:
  assumes "dbs_db db = Some sdb" "sdb_root sdb = Some t"
  shows "db_walk db [] (song_visitor f) ctx = visit_list f (tree_songs t) ctx"
  by (subst db_walk_songs [OF assms]) (simp add: directory_lookup_directory_def isRootDirectory_def)

section \<open>Adding songs\<close>

lemma add_to_queue_ok:
  assumes "live_player PT rest" "glib_ok G" "playlist_ok rest pl pc" "q_length (pl_queue pl) < q_max_length (pl_queue pl)" "s_uri s \<noteq> []"
    "\<not> q_random (pl_queue pl)"
  obtains pl' pc' where "add_to_queue_song G PT s (pl, pc) = Some (MPD_SUCCESS, pl', pc')" "playlist_ok rest pl' pc'"
    "map fst (queue_view (pl_queue pl')) = map fst (queue_view (pl_queue pl)) @ [s]" "current_id pl' = current_id pl"
    "pl_playing pl' = pl_playing pl" "\<not> q_random (pl_queue pl')" "q_max_length (pl_queue pl') = q_max_length (pl_queue pl)"
    "q_length (pl_queue pl') = Suc (q_length (pl_queue pl))"
proof -
  have r: "q_random (pl_queue pl) \<longrightarrow> pl_queued pl < 0 \<or> pl_current pl \<le> pl_queued pl" using assms(6) by simp
  obtain sid pl' pc' where 1: "playlist_append_song G PT pl pc s = Some (MPD_SUCCESS, Some sid, pl', pc')" "playlist_ok rest pl' pc'"
    "queue_view (pl_queue pl') = queue_view (pl_queue pl) @ [(s, sid, 0)]" "current_id pl' = current_id pl" "pl_playing pl' = pl_playing pl"
    "q_random (pl_queue pl') = q_random (pl_queue pl)" "q_max_length (pl_queue pl') = q_max_length (pl_queue pl)"
    by (rule playlist_append_song_returns [OF assms(1-5) r])
  have "length (queue_view (pl_queue pl')) = Suc (length (queue_view (pl_queue pl)))" using 1(3) by simp
  then have "q_length (pl_queue pl') = Suc (q_length (pl_queue pl))"
    using length_queue_view [of "pl_queue pl'"] length_queue_view [of "pl_queue pl"] 1(2) assms(3) by (simp add: playlist_ok_def)
  then show ?thesis using that 1 assms(6) by (simp add: add_to_queue_song_def)
qed

text \<open>Songs that \<open>P\<close> holds of go to the end of the queue, as long as there is room.\<close>

lemma visit_adds:
  assumes PT: "live_player PT rest" and G: "glib_ok G" and "playlist_ok rest pl pc" "\<not> q_random (pl_queue pl)"
    and "\<And>s st. s \<in> set xs \<Longrightarrow> f s st = (if P s then add_to_queue_song G PT s st else Some (MPD_SUCCESS, st))"
    and "\<forall>s \<in> set xs. s_uri s \<noteq> []"
  shows "\<exists>pl' pc'. visit_list f xs (pl, pc) =
      Some (if length (filter P xs) \<le> q_max_length (pl_queue pl) - q_length (pl_queue pl) then MPD_SUCCESS else PLAYLIST_TOO_LARGE, pl', pc') \<and>
    playlist_ok rest pl' pc' \<and> current_id pl' = current_id pl \<and> pl_playing pl' = pl_playing pl \<and>
    map fst (queue_view (pl_queue pl')) = map fst (queue_view (pl_queue pl)) @
      take (q_max_length (pl_queue pl) - q_length (pl_queue pl)) (filter P xs)"
  using assms(3-)
proof (induction xs arbitrary: pl pc)
  case (Cons x xs)
  let ?q = "pl_queue pl"
  have wf: "queue_wf ?q" using Cons.prems(1) by (simp add: playlist_ok_def)
  show ?case
  proof (cases "P x")
    case False
    then show ?thesis using Cons.IH [OF Cons.prems(1,2)] Cons.prems(3,4) by simp
  next
    case True
    show ?thesis
    proof (cases "q_length ?q < q_max_length ?q")
      case room: True
      have "s_uri x \<noteq> []" using Cons.prems(4) by simp
      from add_to_queue_ok [OF PT G Cons.prems(1) room this Cons.prems(2)] obtain pl1 pc1 where
        1: "add_to_queue_song G PT x (pl, pc) = Some (MPD_SUCCESS, pl1, pc1)" "playlist_ok rest pl1 pc1"
        "map fst (queue_view (pl_queue pl1)) = map fst (queue_view ?q) @ [x]" "current_id pl1 = current_id pl"
        "pl_playing pl1 = pl_playing pl" "\<not> q_random (pl_queue pl1)" "q_max_length (pl_queue pl1) = q_max_length ?q"
        "q_length (pl_queue pl1) = Suc (q_length ?q)" .
      have "q_max_length ?q - q_length ?q = Suc (q_max_length ?q - Suc (q_length ?q))" using room by simp
      then show ?thesis using Cons.IH [OF 1(2,6)] Cons.prems(3,4) True 1 by simp
    next
      case False
      then have full: "q_length ?q = q_max_length ?q" using queue_wfD(4) [OF wf] by simp
      then have "playlist_append_song G PT pl pc x = Some (PLAYLIST_TOO_LARGE, None, pl, pc)"
        using wf by (simp add: playlist_append_song_def)
      then show ?thesis using True Cons.prems full by (simp add: add_to_queue_song_def)
    qed
  qed
qed simp

text \<open>A visitor that fails for the other songs adds the ones in front of the first of them.\<close>

lemma visit_adds_until:
  assumes PT: "live_player PT rest" and G: "glib_ok G" and "playlist_ok rest pl pc" "\<not> q_random (pl_queue pl)"
    and "\<And>s st. s \<in> set xs \<Longrightarrow> f s st = (if P s then add_to_queue_song G PT s st else Some (e, st))" "e \<noteq> MPD_SUCCESS"
    and "\<forall>s \<in> set xs. s_uri s \<noteq> []"
    and "length (takeWhile P xs) \<le> q_max_length (pl_queue pl) - q_length (pl_queue pl)"
  shows "\<exists>pl' pc'. visit_list f xs (pl, pc) = Some (if list_all P xs then MPD_SUCCESS else e, pl', pc') \<and>
    playlist_ok rest pl' pc' \<and>
    map fst (queue_view (pl_queue pl')) = map fst (queue_view (pl_queue pl)) @ takeWhile P xs"
  using assms(3-)
proof (induction xs arbitrary: pl pc)
  case (Cons x xs)
  let ?q = "pl_queue pl"
  show ?case
  proof (cases "P x")
    case False
    then show ?thesis using Cons.prems by simp
  next
    case True
    then have room: "q_length ?q < q_max_length ?q" using Cons.prems(6) by simp
    have "s_uri x \<noteq> []" using Cons.prems(5) by simp
    from add_to_queue_ok [OF PT G Cons.prems(1) room this Cons.prems(2)] obtain pl1 pc1 where
      1: "add_to_queue_song G PT x (pl, pc) = Some (MPD_SUCCESS, pl1, pc1)" "playlist_ok rest pl1 pc1"
      "map fst (queue_view (pl_queue pl1)) = map fst (queue_view ?q) @ [x]" "\<not> q_random (pl_queue pl1)"
      "q_max_length (pl_queue pl1) = q_max_length ?q" "q_length (pl_queue pl1) = Suc (q_length ?q)" .
    then show ?thesis using Cons.IH [OF 1(2,4)] Cons.prems(3-6) True room by simp
  qed
qed simp

section \<open>Counting\<close>

definition song_values :: "tag_type \<Rightarrow> song \<Rightarrow> string set" where
  "song_values t s = {v. (t, v) \<in> set (song_tag_view s)}"

definition play_time :: "song \<Rightarrow> int" where
  "play_time s = (case s_tag s of None \<Rightarrow> 0 | Some tag \<Rightarrow> max 0 (tag_time tag))"

definition visit_ok :: "visit_data \<Rightarrow> bool" where
  "visit_ok data \<longleftrightarrow> strset_ok (vd_artists data) \<and> strset_ok (vd_albums data)"

lemma visit_items_ok:
  "visit_ok data \<Longrightarrow> \<exists>data'. for_each visit_item items data = Some data' \<and> visit_ok data' \<and> vd_stats data' = vd_stats data \<and>
    set (strset_values (vd_artists data')) = set (strset_values (vd_artists data)) \<union> {v. (TAG_ARTIST, v) \<in> set (map item_contents items)} \<and>
    set (strset_values (vd_albums data')) = set (strset_values (vd_albums data)) \<union> {v. (TAG_ALBUM, v) \<in> set (map item_contents items)}"
proof (induction items arbitrary: data)
  case (Cons i items)
  obtain a b where ab: "strset_add (vd_artists data) (ti_value i) = Some a" "strset_ok a"
    "set (strset_values a) = insert (ti_value i) (set (strset_values (vd_artists data)))"
    "strset_add (vd_albums data) (ti_value i) = Some b" "strset_ok b"
    "set (strset_values b) = insert (ti_value i) (set (strset_values (vd_albums data)))"
    using strset_add_ok [of "vd_artists data" "ti_value i"] strset_add_ok [of "vd_albums data" "ti_value i"] Cons.prems
    by (auto simp: visit_ok_def)
  let ?data = "if ti_type i = TAG_ARTIST then data\<lparr>vd_artists := a\<rparr> else if ti_type i = TAG_ALBUM then data\<lparr>vd_albums := b\<rparr> else data"
  have v: "visit_item i data = Some ?data" using ab by (simp add: visit_item_def)
  have "visit_ok ?data" using ab Cons.prems by (simp add: visit_ok_def)
  from Cons.IH [OF this] v ab show ?case by (fastforce simp: item_contents_def)
qed simp

lemma collect_stats_ok:
  assumes "visit_ok data"
  shows "\<exists>data'. visit_list collect_stats_song xs data = Some (MPD_SUCCESS, data') \<and> visit_ok data' \<and>
    stat_song_count (vd_stats data') = stat_song_count (vd_stats data) + of_nat (length xs) \<and>
    stat_song_duration (vd_stats data') = stat_song_duration (vd_stats data) + word_of_int (sum_list (map play_time xs)) \<and>
    set (strset_values (vd_artists data')) = set (strset_values (vd_artists data)) \<union> \<Union> (song_values TAG_ARTIST ` set xs) \<and>
    set (strset_values (vd_albums data')) = set (strset_values (vd_albums data)) \<union> \<Union> (song_values TAG_ALBUM ` set xs)"
  using assms
proof (induction xs arbitrary: data)
  case (Cons s xs)
  let ?st = "vd_stats data"
  let ?st1 = "?st\<lparr>stat_song_count := stat_song_count ?st + 1,
    stat_song_duration := stat_song_duration ?st + word_of_int (play_time s)\<rparr>"
  have "\<exists>data1. collect_stats_song s data = Some (MPD_SUCCESS, data1) \<and> visit_ok data1 \<and> vd_stats data1 = ?st1 \<and>
    set (strset_values (vd_artists data1)) = set (strset_values (vd_artists data)) \<union> song_values TAG_ARTIST s \<and>
    set (strset_values (vd_albums data1)) = set (strset_values (vd_albums data)) \<union> song_values TAG_ALBUM s"
  proof (cases "s_tag s")
    case None
    then show ?thesis using Cons.prems
      by (simp add: collect_stats_song_def visit_ok_def play_time_def song_values_def song_tag_view_def Let_def)
  next
    case (Some tag)
    let ?d = "data\<lparr>vd_stats := ?st1\<rparr>"
    have "visit_ok ?d" using Cons.prems by (simp add: visit_ok_def)
    moreover have "collect_stats_song s data = map_option (Pair MPD_SUCCESS) (for_each visit_item (tag_items tag) ?d)"
      using Some by (cases "0 < tag_time tag"; cases "for_each visit_item (tag_items tag) ?d")
        (simp_all add: collect_stats_song_def visit_tag_def play_time_def Let_def max_absorb1 max_absorb2)
    ultimately show ?thesis
      using visit_items_ok [of ?d "tag_items tag"] Some by (auto simp: song_values_def song_tag_view_def tag_view_def)
  qed
  then obtain data1 where 1: "collect_stats_song s data = Some (MPD_SUCCESS, data1)" "visit_ok data1" "vd_stats data1 = ?st1"
    "set (strset_values (vd_artists data1)) = set (strset_values (vd_artists data)) \<union> song_values TAG_ARTIST s"
    "set (strset_values (vd_albums data1)) = set (strset_values (vd_albums data)) \<union> song_values TAG_ALBUM s" by blast
  from Cons.IH [OF 1(2)] obtain data' where "visit_list collect_stats_song xs data1 = Some (MPD_SUCCESS, data')" "visit_ok data'"
    "stat_song_count (vd_stats data') = stat_song_count (vd_stats data1) + of_nat (length xs)"
    "stat_song_duration (vd_stats data') = stat_song_duration (vd_stats data1) + word_of_int (sum_list (map play_time xs))"
    "set (strset_values (vd_artists data')) = set (strset_values (vd_artists data1)) \<union> \<Union> (song_values TAG_ARTIST ` set xs)"
    "set (strset_values (vd_albums data')) = set (strset_values (vd_albums data1)) \<union> \<Union> (song_values TAG_ALBUM ` set xs)"
    by blast
  with 1 show ?case by (simp add: Un_assoc add.assoc)
qed simp

end
