(* ===== verification/Cue_Parser.thy ===== *)
theory Cue_Parser
  imports Song C_String Tokenizer Uri
begin

text \<open>
  The parser of cue sheets, \<^verbatim>\<open>src/cue/cue_parser.c\<close>, and the playlist plugins that read with it,
  \<^verbatim>\<open>src/playlist/cue.c\<close> and \<^verbatim>\<open>src/playlist/embcue.c\<close>.

  The parser walks over a line with a pointer and writes zero bytes behind the words.  A pointer is the
  text from there on, and \<open>None\<close> is the address behind the terminating zero, from which nothing may be read.
  \<open>isspace\<close> is \<^verbatim>\<open>g_ascii_isspace\<close>.  The functions thread the tag library and the address of the next song through.
\<close>

datatype cue_state = HEADER | WAVE | IGNORE_FILE | TRACK | IGNORE_TRACK

record cue_parser =
  cp_state :: cue_state
  cp_tag :: tag
  cp_filename :: "string option"
  cp_current :: "song option"
  cp_previous :: "song option"
  cp_finished :: "song option"
  cp_last_updated :: bool
  cp_end :: bool

text \<open>The member \<^verbatim>\<open>last_updated\<close> is not set here; it is not read before a track has been begun.\<close>

definition cue_parser_new :: cue_parser where
  "cue_parser_new = \<lparr>cp_state = HEADER, cp_tag = tag_new, cp_filename = None, cp_current = None, cp_previous = None,
     cp_finished = None, cp_last_updated = False, cp_end = False\<rparr>"

definition free_song_opt :: "song option \<Rightarrow> tag_lib \<Rightarrow> tag_lib option" where
  "free_song_opt song lib = (case song of None \<Rightarrow> Some lib | Some s \<Rightarrow> song_free lib s)"

definition cue_parser_free :: "cue_parser \<Rightarrow> tag_lib \<Rightarrow> tag_lib option" where
  "cue_parser_free parser lib = do {
     lib \<leftarrow> tag_free lib (cp_tag parser);
     lib \<leftarrow> free_song_opt (cp_current parser) lib;
     lib \<leftarrow> free_song_opt (cp_previous parser) lib;
     free_song_opt (cp_finished parser) lib
   }"

section \<open>Words\<close>

text \<open>The pointer is set one behind the byte that ends the word, even if that is the end of the line.\<close>

definition cue_next_word :: "(char \<Rightarrow> bool) \<Rightarrow> string \<Rightarrow> string \<times> string option" where
  "cue_next_word isspace p =
     (takeWhile (\<lambda>c. \<not> isspace c) p, case dropWhile (\<lambda>c. \<not> isspace c) p of [] \<Rightarrow> None | _ # r \<Rightarrow> Some r)"

definition cue_next_quoted :: "string \<Rightarrow> string \<times> string option" where
  "cue_next_quoted p = (case strchr p CHR 0x22 of
     None \<Rightarrow> (p, Some [])
   | Some q \<Rightarrow> (take (length p - length q) p, Some (tl q)))"

definition cue_next_token :: "(char \<Rightarrow> bool) \<Rightarrow> string option \<Rightarrow> (string option \<times> string option) option" where
  "cue_next_token isspace pp = do {
     p \<leftarrow> pp;
     let p = strchug_fast isspace p;
     if p = [] then Some (None, pp)
     else (case cue_next_word isspace p of (word, pp) \<Rightarrow> Some (Some word, pp))
   }"

definition cue_next_value :: "(char \<Rightarrow> bool) \<Rightarrow> string option \<Rightarrow> (string option \<times> string option) option" where
  "cue_next_value isspace pp = do {
     p \<leftarrow> pp;
     let p = strchug_fast isspace p;
     if p = [] then Some (None, pp)
     else (case (if hd p = CHR 0x22 then cue_next_quoted (tl p) else cue_next_word isspace p) of
        (word, pp) \<Rightarrow> Some (Some word, pp))
   }"

section \<open>Tags and positions\<close>

definition cue_add_tag ::
    "tag_env \<Rightarrow> (char \<Rightarrow> bool) \<Rightarrow> tag_lib \<Rightarrow> tag \<Rightarrow> tag_type \<Rightarrow> string option \<Rightarrow> (tag_lib \<times> tag) option" where
  "cue_add_tag E isspace lib tag type p = do {
     (v, p) \<leftarrow> cue_next_value isspace p;
     case v of None \<Rightarrow> Some (lib, tag) | Some v \<Rightarrow> tag_add_item_n E lib tag type v
   }"

definition cue_parse_rem :: "tag_env \<Rightarrow> (char \<Rightarrow> bool) \<Rightarrow> string option \<Rightarrow> tag_lib \<Rightarrow> tag \<Rightarrow> (tag_lib \<times> tag) option" where
  "cue_parse_rem E isspace p lib tag = do {
     (type, p) \<leftarrow> cue_next_token isspace p;
     case type of
       None \<Rightarrow> Some (lib, tag)
     | Some t \<Rightarrow>
         let type2 = tag_name_parse_i E t
         in if type2 \<noteq> TAG_NUM_OF_ITEM_TYPES then cue_add_tag E isspace lib tag type2 p else Some (lib, tag)
   }"

text \<open>The outer \<open>None\<close> is the access to a current song that is not there.\<close>

definition cue_current_tag :: "cue_parser \<Rightarrow> tag option option" where
  "cue_current_tag parser =
     (if cp_state parser = HEADER then Some (Some (cp_tag parser))
      else if cp_state parser = TRACK then do {
        song \<leftarrow> cp_current parser;
        Some (s_tag song)
      }
      else Some None)"

text \<open>The tag that \<open>cue_current_tag\<close> points to has been changed.\<close>

definition put_current_tag :: "tag \<Rightarrow> cue_parser \<Rightarrow> cue_parser" where
  "put_current_tag tag parser =
     (if cp_state parser = HEADER then parser\<lparr>cp_tag := tag\<rparr>
      else parser\<lparr>cp_current := map_option (\<lambda>s. s\<lparr>s_tag := Some tag\<rparr>) (cp_current parser)\<rparr>)"

definition cue_parse_position :: "string \<Rightarrow> int" where
  "cue_parse_position p =
     (let (minutes, e) = strtoul p
      in if e = p \<or> e = [] \<or> hd e \<noteq> CHR '':'' then -1
         else let p = tl e; (seconds, e) = strtoul p
              in if e = p \<or> e = [] \<or> hd e \<noteq> CHR '':'' then -1
                 else let p = tl e; (frames, e) = strtoul p
                      in if e = p \<or> e \<noteq> [] then -1
                         else sint (ucast (of_nat minutes * 60000 + of_nat seconds * 1000 + (of_nat frames * 1000) div 75 :: 64 word) :: 32 word))"

section \<open>Lines\<close>

definition cue_parser_commit :: "cue_parser \<Rightarrow> cue_parser option" where
  "cue_parser_commit parser = do {
     assert_that (cp_finished parser = None);
     assert_that (\<not> cp_end parser);
     Some (if cp_current parser = None then parser
       else parser\<lparr>cp_finished := cp_previous parser, cp_previous := cp_current parser, cp_current := None\<rparr>)
   }"

type_synonym cue = "cue_parser \<times> tag_lib \<times> nat"

text \<open>What a line does to the tag the parser is filling.\<close>

definition feed_tag :: "(tag_lib \<Rightarrow> tag \<Rightarrow> (tag_lib \<times> tag) option) \<Rightarrow> cue \<Rightarrow> cue option" where
  "feed_tag f cue = (case cue of (parser, lib, nxt) \<Rightarrow> do {
     tag \<leftarrow> cue_current_tag parser;
     case tag of
       None \<Rightarrow> Some cue
     | Some tag \<Rightarrow> do {
         (lib, tag) \<leftarrow> f lib tag;
         Some (put_current_tag tag parser, lib, nxt)
       }
   })"

definition feed_file :: "(char \<Rightarrow> bool) \<Rightarrow> string option \<Rightarrow> cue \<Rightarrow> cue option" where
  "feed_file isspace p cue = (case cue of (parser, lib, nxt) \<Rightarrow> do {
     parser \<leftarrow> cue_parser_commit parser;
     (filename, p) \<leftarrow> cue_next_value isspace p;
     case filename of
       None \<Rightarrow> Some (parser, lib, nxt)
     | Some filename \<Rightarrow> do {
         (type, p) \<leftarrow> cue_next_token isspace p;
         case type of
           None \<Rightarrow> Some (parser, lib, nxt)
         | Some type \<Rightarrow>
             if type \<notin> {''WAVE'', ''MP3'', ''AIFF''} then Some (parser\<lparr>cp_state := IGNORE_FILE\<rparr>, lib, nxt)
             else Some (parser\<lparr>cp_state := WAVE, cp_filename := Some filename\<rparr>, lib, nxt)
       }
   })"

definition feed_track :: "tag_env \<Rightarrow> (char \<Rightarrow> bool) \<Rightarrow> string option \<Rightarrow> cue \<Rightarrow> cue option" where
  "feed_track E isspace p cue = (case cue of (parser, lib, nxt) \<Rightarrow> do {
     parser \<leftarrow> cue_parser_commit parser;
     (nr, p) \<leftarrow> cue_next_token isspace p;
     case nr of
       None \<Rightarrow> Some (parser, lib, nxt)
     | Some nr \<Rightarrow> do {
         (type, p) \<leftarrow> cue_next_token isspace p;
         case type of
           None \<Rightarrow> Some (parser, lib, nxt)
         | Some type \<Rightarrow>
             if type \<noteq> ''AUDIO'' then Some (parser\<lparr>cp_state := IGNORE_TRACK\<rparr>, lib, nxt)
             else do {
               filename \<leftarrow> cp_filename parser;
               song \<leftarrow> song_remote_new nxt filename;
               (lib, tag) \<leftarrow> tag_dup lib (Some (cp_tag parser));
               tag \<leftarrow> tag;
               (lib, tag) \<leftarrow> tag_add_item_n E lib tag TAG_TRACK nr;
               Some (parser\<lparr>cp_state := TRACK, cp_current := Some (song\<lparr>s_tag := Some tag\<rparr>), cp_last_updated := False\<rparr>,
                 lib, nxt + 1)
             }
       }
   })"

text \<open>The song before the current one ends where the current one starts.\<close>

definition end_previous :: "u32 \<Rightarrow> cue_parser \<Rightarrow> cue_parser option" where
  "end_previous pos parser = (case cp_previous parser of
     None \<Rightarrow> Some parser
   | Some prev \<Rightarrow>
       if \<not> cp_last_updated parser \<and> s_start_ms prev < pos then do {
         tag \<leftarrow> s_tag prev;
         let tag = tag\<lparr>tag_time := sint ((pos - s_start_ms prev + 500) div 1000)\<rparr>;
         Some (parser\<lparr>cp_last_updated := True, cp_previous := Some (prev\<lparr>s_end_ms := pos, s_tag := Some tag\<rparr>)\<rparr>)
       }
       else Some parser)"

definition feed_index :: "(char \<Rightarrow> bool) \<Rightarrow> string option \<Rightarrow> cue \<Rightarrow> cue option" where
  "feed_index isspace p cue = (case cue of (parser, lib, nxt) \<Rightarrow> do {
     (nr, p) \<leftarrow> cue_next_token isspace p;
     case nr of
       None \<Rightarrow> Some cue
     | Some nr \<Rightarrow> do {
         (position, p) \<leftarrow> cue_next_token isspace p;
         case position of
           None \<Rightarrow> Some cue
         | Some position \<Rightarrow>
             let position_ms = cue_parse_position position
             in if position_ms < 0 then Some cue
                else do {
                  parser \<leftarrow> end_previous (word_of_int position_ms) parser;
                  song \<leftarrow> cp_current parser;
                  Some (parser\<lparr>cp_current := Some (song\<lparr>s_start_ms := word_of_int position_ms\<rparr>)\<rparr>, lib, nxt)
                }
       }
   })"

definition cue_parser_feed2 :: "tag_env \<Rightarrow> (char \<Rightarrow> bool) \<Rightarrow> string \<Rightarrow> cue \<Rightarrow> cue option" where
  "cue_parser_feed2 E isspace line cue = (let parser = fst cue in do {
     assert_that (\<not> cp_end parser);
     (command, p) \<leftarrow> cue_next_token isspace (Some line);
     case command of
       None \<Rightarrow> Some cue
     | Some command \<Rightarrow>
         if command = ''REM'' then feed_tag (cue_parse_rem E isspace p) cue
         else if command = ''PERFORMER'' then
           let type = (if cp_state parser = TRACK then TAG_ARTIST else TAG_ALBUM_ARTIST)
           in feed_tag (\<lambda>lib tag. cue_add_tag E isspace lib tag type p) cue
         else if command = ''TITLE'' then
           if cp_state parser = HEADER \<or> cp_state parser = TRACK then
             let type = (if cp_state parser = TRACK then TAG_TITLE else TAG_ALBUM)
             in feed_tag (\<lambda>lib tag. cue_add_tag E isspace lib tag type p) cue
           else Some cue
         else if command = ''FILE'' then feed_file isspace p cue
         else if cp_state parser = IGNORE_FILE then Some cue
         else if command = ''TRACK'' then feed_track E isspace p cue
         else if cp_state parser = IGNORE_TRACK then Some cue
         else if cp_state parser = TRACK \<and> command = ''INDEX'' then feed_index isspace p cue
         else Some cue
   })"

definition cue_parser_feed :: "tag_env \<Rightarrow> (char \<Rightarrow> bool) \<Rightarrow> string \<Rightarrow> cue \<Rightarrow> cue option" where
  "cue_parser_feed E isspace line cue = do {
     assert_that (\<not> cp_end (fst cue));
     cue_parser_feed2 E isspace line cue
   }"

definition cue_parser_finish :: "cue_parser \<Rightarrow> cue_parser option" where
  "cue_parser_finish parser =
     (if cp_end parser then Some parser
      else do {
        parser \<leftarrow> cue_parser_commit parser;
        Some (parser\<lparr>cp_end := True\<rparr>)
      })"

definition cue_parser_get :: "cue_parser \<Rightarrow> (song option \<times> cue_parser) option" where
  "cue_parser_get parser = do {
     parser \<leftarrow> (if cp_finished parser = None \<and> cp_end parser then do {
         assert_that (cp_current parser = None);
         Some (parser\<lparr>cp_finished := cp_previous parser, cp_previous := None\<rparr>)
       }
       else Some parser);
     Some (cp_finished parser, parser\<lparr>cp_finished := None\<rparr>)
   }"

section \<open>The playlist plugins\<close>

text \<open>A stream is the list of the lines that are left; a plugin returns one song at a time.\<close>

fun cue_playlist_loop :: "tag_env \<Rightarrow> (char \<Rightarrow> bool) \<Rightarrow> string list \<Rightarrow> cue \<Rightarrow> (song option \<times> string list \<times> cue) option" where
  "cue_playlist_loop E isspace [] cue = (case cue of (parser, lib, nxt) \<Rightarrow> do {
     parser \<leftarrow> cue_parser_finish parser;
     (song, parser) \<leftarrow> cue_parser_get parser;
     Some (song, [], parser, lib, nxt)
   })"
| "cue_playlist_loop E isspace (line # tis) cue = do {
     (parser, lib, nxt) \<leftarrow> cue_parser_feed E isspace line cue;
     (song, parser) \<leftarrow> cue_parser_get parser;
     if song \<noteq> None then Some (song, tis, parser, lib, nxt) else cue_playlist_loop E isspace tis (parser, lib, nxt)
   }"

definition cue_playlist_read ::
    "tag_env \<Rightarrow> (char \<Rightarrow> bool) \<Rightarrow> string list \<Rightarrow> cue \<Rightarrow> (song option \<times> string list \<times> cue) option" where
  "cue_playlist_read E isspace tis cue = (case cue of (parser, lib, nxt) \<Rightarrow> do {
     (song, parser) \<leftarrow> cue_parser_get parser;
     if song \<noteq> None then Some (song, tis, parser, lib, nxt) else cue_playlist_loop E isspace tis (parser, lib, nxt)
   })"

text \<open>An embedded cue sheet is cut into lines at each carriage return and each newline.\<close>

definition is_eol :: "char \<Rightarrow> bool" where
  "is_eol c \<longleftrightarrow> c = CHR 0x0D \<or> c = CHR 0x0A"

function embcue_loop ::
    "tag_env \<Rightarrow> (char \<Rightarrow> bool) \<Rightarrow> string \<Rightarrow> string \<Rightarrow> cue \<Rightarrow> (song option \<times> string \<times> cue) option" where
  "embcue_loop E isspace filename next cue =
     (if next = [] then (case cue of (parser, lib, nxt) \<Rightarrow> do {
        parser \<leftarrow> cue_parser_finish parser;
        (song, parser) \<leftarrow> cue_parser_get parser;
        case song of
          None \<Rightarrow> Some (None, [], parser, lib, nxt)
        | Some s \<Rightarrow> do {
            s \<leftarrow> song_replace_uri nxt s filename;
            Some (Some s, [], parser, lib, nxt + 1)
          }
      })
      else do {
        (parser, lib, nxt) \<leftarrow> cue_parser_feed E isspace (takeWhile (\<lambda>c. \<not> is_eol c) next) cue;
        (song, parser) \<leftarrow> cue_parser_get parser;
        let next = (case dropWhile (\<lambda>c. \<not> is_eol c) next of [] \<Rightarrow> [] | _ # r \<Rightarrow> r);
        case song of
          Some s \<Rightarrow> do {
            s \<leftarrow> song_replace_uri nxt s filename;
            Some (Some s, next, parser, lib, nxt + 1)
          }
        | None \<Rightarrow> embcue_loop E isspace filename next (parser, lib, nxt)
      })"
  by pat_completeness auto
termination
proof (relation "measure (\<lambda>(E, isspace, filename, next, cue). length next)", goal_cases)
  case (2 E isspace filename "next")
  then show ?case
    by (cases "dropWhile (\<lambda>c. \<not> is_eol c) next")
      (auto, metis Suc_le_lessD length_Cons length_dropWhile_le)
qed simp

declare embcue_loop.simps [simp del]

definition embcue_playlist_read ::
    "tag_env \<Rightarrow> (char \<Rightarrow> bool) \<Rightarrow> string \<Rightarrow> string \<Rightarrow> cue \<Rightarrow> (song option \<times> string \<times> cue) option" where
  "embcue_playlist_read E isspace filename next cue = (case cue of (parser, lib, nxt) \<Rightarrow> do {
     (song, parser) \<leftarrow> cue_parser_get parser;
     if song \<noteq> None then Some (song, next, parser, lib, nxt) else embcue_loop E isspace filename next (parser, lib, nxt)
   })"

end
