(* ===== verification/Cue_Inv.thy ===== *)
theory Cue_Inv
  imports Cue_Parser
begin

text \<open>
  The parser of cue sheets on sheets that are written as they should be.  A view of the parser leaves out addresses and
  references to the pool; feeding the text of a line does to the view what \<open>view_step\<close> says.
\<close>

section \<open>Views\<close>

record cue_track =
  ct_uri :: string
  ct_items :: tag_contents
  ct_time :: int
  ct_start :: nat
  ct_end :: nat

record cue_view =
  cv_state :: cue_state
  cv_tag :: tag_contents
  cv_filename :: "string option"
  cv_current :: "cue_track option"
  cv_previous :: "cue_track option"
  cv_finished :: "cue_track option"
  cv_updated :: bool

definition track_of :: "song \<Rightarrow> cue_track" where
  "track_of s = \<lparr>ct_uri = s_uri s, ct_items = (case s_tag s of None \<Rightarrow> [] | Some tag \<Rightarrow> tag_view tag),
     ct_time = (case s_tag s of None \<Rightarrow> -1 | Some tag \<Rightarrow> tag_time tag), ct_start = unat (s_start_ms s), ct_end = unat (s_end_ms s)\<rparr>"

definition view_of :: "cue_parser \<Rightarrow> cue_view" where
  "view_of p = \<lparr>cv_state = cp_state p, cv_tag = tag_view (cp_tag p), cv_filename = cp_filename p,
     cv_current = map_option track_of (cp_current p), cv_previous = map_option track_of (cp_previous p),
     cv_finished = map_option track_of (cp_finished p), cv_updated = cp_last_updated p\<rparr>"

lemma view_of_simps [simp]:
  "cv_state (view_of p) = cp_state p" "cv_tag (view_of p) = tag_view (cp_tag p)" "cv_filename (view_of p) = cp_filename p"
  "cv_current (view_of p) = map_option track_of (cp_current p)" "cv_previous (view_of p) = map_option track_of (cp_previous p)"
  "cv_finished (view_of p) = map_option track_of (cp_finished p)" "cv_updated (view_of p) = cp_last_updated p"
  by (simp_all add: view_of_def)

section \<open>Lines\<close>

datatype cue_line = Tag_Line tag_type string | File_Line string | Track_Line string | Index_Line nat nat nat

definition position_ms :: "nat \<Rightarrow> nat \<Rightarrow> nat \<Rightarrow> nat" where
  "position_ms m s f = m * 60000 + s * 1000 + f * 1000 div 75"

fun cue_text :: "cue_state \<Rightarrow> cue_line \<Rightarrow> string" where
  "cue_text st (Tag_Line t v) =
     (if t = (if st = TRACK then TAG_ARTIST else TAG_ALBUM_ARTIST) then ''PERFORMER''
      else if t = (if st = TRACK then TAG_TITLE else TAG_ALBUM) then ''TITLE''
      else ''REM '' @ tag_name t) @ [CHR '' '', CHR 0x22] @ v @ [CHR 0x22]"
| "cue_text st (File_Line f) = ''FILE '' @ [CHR 0x22] @ f @ [CHR 0x22] @ '' WAVE''"
| "cue_text st (Track_Line nr) = ''TRACK '' @ nr @ '' AUDIO''"
| "cue_text st (Index_Line m s f) = ''INDEX 01 '' @ show_nat m @ '':'' @ show_nat s @ '':'' @ show_nat f"

definition commit_view :: "cue_view \<Rightarrow> cue_view" where
  "commit_view v = (if cv_current v = None then v
     else v\<lparr>cv_finished := cv_previous v, cv_previous := cv_current v, cv_current := None\<rparr>)"

text \<open>A track ends where the next one starts, if it has been given a start before that.\<close>

definition end_at :: "nat \<Rightarrow> cue_track \<Rightarrow> cue_track" where
  "end_at pos t = (if ct_start t < pos then t\<lparr>ct_end := pos, ct_time := int ((pos - ct_start t + 500) div 1000)\<rparr> else t)"

fun view_step :: "cue_line \<Rightarrow> cue_view \<Rightarrow> cue_view" where
  "view_step (Tag_Line t x) v =
     (if cv_state v = HEADER then v\<lparr>cv_tag := cv_tag v @ [(t, x)]\<rparr>
      else v\<lparr>cv_current := map_option (\<lambda>c. c\<lparr>ct_items := ct_items c @ [(t, x)]\<rparr>) (cv_current v)\<rparr>)"
| "view_step (File_Line f) v = (commit_view v)\<lparr>cv_state := WAVE, cv_filename := Some f\<rparr>"
| "view_step (Track_Line nr) v = (commit_view v)\<lparr>cv_state := TRACK, cv_updated := False,
     cv_current := map_option (\<lambda>f. \<lparr>ct_uri = f, ct_items = cv_tag v @ [(TAG_TRACK, nr)], ct_time = -1, ct_start = 0, ct_end = 0\<rparr>) (cv_filename v)\<rparr>"
| "view_step (Index_Line m s f) v =
     (let pos = position_ms m s f
      in v\<lparr>cv_previous := (if cv_updated v then cv_previous v else map_option (end_at pos) (cv_previous v)),
        cv_updated := (cv_updated v \<or> (\<exists>p. cv_previous v = Some p \<and> ct_start p < pos)),
        cv_current := map_option (\<lambda>c. c\<lparr>ct_start := pos\<rparr>) (cv_current v)\<rparr>)"

section \<open>Words of a line\<close>

definition space_ok :: "(char \<Rightarrow> bool) \<Rightarrow> bool" where
  "space_ok isspace \<longleftrightarrow> isspace CHR '' '' \<and> (\<forall>c. 32 < (of_char c :: nat) \<longrightarrow> (of_char c :: nat) < 127 \<longrightarrow> \<not> isspace c)"

definition plain_word :: "(char \<Rightarrow> bool) \<Rightarrow> string \<Rightarrow> bool" where
  "plain_word isspace w \<longleftrightarrow> w \<noteq> [] \<and> list_all (\<lambda>c. \<not> isspace c) w"

lemma plain_word_ascii:
  "space_ok isspace \<Longrightarrow> w \<noteq> [] \<Longrightarrow> list_all (\<lambda>c. 32 < (of_char c :: nat) \<and> (of_char c :: nat) < 127) w \<Longrightarrow> plain_word isspace w"
  by (auto simp: plain_word_def space_ok_def list_all_iff)

lemma plain_word_drop: "plain_word isspace w \<Longrightarrow> strchug_fast isspace (w @ r) = w @ r"
  by (cases w) (simp_all add: plain_word_def strchug_fast_def)

lemma takeWhile_word: "list_all (\<lambda>c. \<not> isspace c) w \<Longrightarrow> r = [] \<or> isspace (hd r) \<Longrightarrow>
  takeWhile (\<lambda>c. \<not> isspace c) (w @ r) = w \<and> dropWhile (\<lambda>c. \<not> isspace c) (w @ r) = r"
  by (induction w; cases r) auto

lemma cue_next_token_word:
  assumes "plain_word isspace w" "isspace sp"
  shows "cue_next_token isspace (Some (w @ sp # r)) = Some (Some w, Some r)" "cue_next_token isspace (Some w) = Some (Some w, None)"
    "cue_next_token isspace (Some (sp # w)) = Some (Some w, None)"
proof -
  have "w \<noteq> []" using assms(1) by (simp add: plain_word_def)
  moreover note takeWhile_word [of isspace w "sp # r"] takeWhile_word [of isspace w "[]"] plain_word_drop [OF assms(1), of "sp # r"]
    plain_word_drop [OF assms(1), of "[]"]
  moreover have "strchug_fast isspace (sp # w) = strchug_fast isspace w" using assms(2) by (simp add: strchug_fast_def)
  ultimately show "cue_next_token isspace (Some (w @ sp # r)) = Some (Some w, Some r)" "cue_next_token isspace (Some w) = Some (Some w, None)"
    "cue_next_token isspace (Some (sp # w)) = Some (Some w, None)"
    using assms by (simp_all add: cue_next_token_def cue_next_word_def plain_word_def del: dropWhile_eq_Nil_conv takeWhile_eq_all_conv)
qed

lemma strchr_first: "c \<notin> set v \<Longrightarrow> strchr (v @ c # r) c = Some (c # r)"
  by (induction v) auto

lemma cue_next_value_quoted:
  assumes "\<not> isspace CHR 0x22" "CHR 0x22 \<notin> set v"
  shows "cue_next_value isspace (Some (CHR 0x22 # v @ CHR 0x22 # r)) = Some (Some v, Some r)"
  using assms strchr_first [OF assms(2), of r]
  by (simp add: cue_next_value_def strchug_fast_def cue_next_quoted_def Let_def)

lemma cue_position_text:
  assumes "position_ms m s f < 2 ^ 31"
  shows "cue_parse_position (show_nat m @ CHR '':'' # show_nat s @ CHR '':'' # show_nat f) = int (position_ms m s f)"
proof -
  have b: "m < 2 ^ 31" "s < 2 ^ 31" "f * 1000 < 2 ^ 40" using assms by (auto simp: position_ms_def)
  have st: "stops_number (CHR '':'' # r)" "stops_number []" for r by (simp_all add: stops_number_def is_digit_def)
  have r: "strtoul (show_nat m @ CHR '':'' # show_nat s @ CHR '':'' # show_nat f) = (m, CHR '':'' # show_nat s @ CHR '':'' # show_nat f)"
    "strtoul (show_nat s @ CHR '':'' # show_nat f) = (s, CHR '':'' # show_nat f)" "strtoul (show_nat f) = (f, [])"
    using strtoul_show_nat [OF st(1), of m] strtoul_show_nat [OF st(1), of s] strtoul_show_nat [OF st(2), of f] b by simp_all
  let ?w = "of_nat m * 60000 + of_nat s * 1000 + (of_nat f * 1000) div 75 :: 64 word"
  have "(of_nat n :: 64 word) div 75 = of_nat (n div 75)" if "n < 2 ^ 64" for n
    using that by (simp add: word_arith_nat_div unsigned_of_nat take_bit_nat_eq_self)
  from this [of "f * 1000"] b(3) have d: "(of_nat f * 1000) div 75 = (of_nat (f * 1000 div 75) :: 64 word)" by simp
  have "?w = of_nat (position_ms m s f)" unfolding d by (simp add: position_ms_def)
  then have "ucast ?w = (of_nat (position_ms m s f) :: 32 word)" using assms by (simp add: unsigned_of_nat take_bit_nat_eq_self)
  moreover have "sint (of_nat n :: 32 word) = int n" if "n < 2 ^ 31" for n
    using that by (simp add: signed_of_nat signed_take_bit_int_eq_self)
  ultimately show ?thesis
    using r assms show_nat_not_Nil [of f, symmetric] by (simp add: cue_parse_position_def Let_def)
qed

section \<open>The state of the parser\<close>

definition good_song :: "song \<Rightarrow> bool" where
  "good_song s \<longleftrightarrow> (\<exists>tag. s_tag s = Some tag \<and> \<not> tag_bulk tag)"

definition cue_ok :: "cue \<Rightarrow> bool" where
  "cue_ok cue \<longleftrightarrow> (case cue of (p, lib, nxt) \<Rightarrow>
     lib_ok lib \<and> \<not> cp_end p \<and> \<not> tag_bulk (cp_tag p) \<and> tag_time (cp_tag p) = -1 \<and>
     set (tag_items (cp_tag p)) \<subseteq> set_mset (lib_refs lib) \<and>
     pred_option good_song (cp_current p) \<and> pred_option good_song (cp_previous p) \<and> pred_option good_song (cp_finished p))"

text \<open>What can be written into a sheet for a parser in this state, with these types in use.\<close>

definition value_ok :: "tag_env \<Rightarrow> bool list \<Rightarrow> tag_type \<Rightarrow> string \<Rightarrow> bool" where
  "value_ok E ig t v \<longleftrightarrow> t \<noteq> TAG_NUM_OF_ITEM_TYPES \<and> \<not> ig ! tag_type_number t \<and> clean_value E v"

fun line_ok :: "tag_env \<Rightarrow> (char \<Rightarrow> bool) \<Rightarrow> bool list \<Rightarrow> cue_line \<Rightarrow> cue_view \<Rightarrow> bool" where
  "line_ok E isspace ig (Tag_Line t x) v \<longleftrightarrow> value_ok E ig t x \<and> CHR 0x22 \<notin> set x \<and>
     (cv_state v = HEADER \<or> cv_state v = TRACK \<and> cv_current v \<noteq> None)"
| "line_ok E isspace ig (File_Line f) v \<longleftrightarrow> CHR 0x22 \<notin> set f \<and> cv_finished v = None"
| "line_ok E isspace ig (Track_Line nr) v \<longleftrightarrow> value_ok E ig TAG_TRACK nr \<and> plain_word isspace nr \<and> cv_finished v = None \<and>
     cv_state v \<in> {WAVE, TRACK} \<and> (\<exists>f. cv_filename v = Some f \<and> f \<noteq> [])"
| "line_ok E isspace ig (Index_Line m s f) v \<longleftrightarrow> position_ms m s f < 2 ^ 31 \<and> cv_state v = TRACK \<and> cv_current v \<noteq> None"

definition names_parsed :: "tag_env \<Rightarrow> bool" where
  "names_parsed E \<longleftrightarrow> (\<forall>t. t \<noteq> TAG_NUM_OF_ITEM_TYPES \<longrightarrow> tag_name_parse_i E (tag_name t) = t)"

lemma add_item_view:
  assumes "lib_ok lib" "value_ok E (tl_ignore lib) t v" "\<not> tag_bulk tag"
  obtains item pool where
    "tag_add_item_n E lib tag t v = Some (lib\<lparr>tl_pool := pool\<rparr>, tag\<lparr>tag_items := tag_items tag @ [item]\<rparr>)"
    "lib_ok (lib\<lparr>tl_pool := pool\<rparr>)" "item_contents item = (t, v)" "pool_refs pool = add_mset item (lib_refs lib)"
proof -
  obtain item pool where "tag_add_item_n E lib tag t v =
      Some (lib\<lparr>tl_pool := pool\<rparr>, tag\<lparr>tag_items := tag_items tag @ [item],
        tag_bulk := tag_bulk tag \<and> Suc (length (tag_items tag)) < BULK_MAX\<rparr>)"
    "pool_ok pool" "item_contents item = (t, v)" "pool_refs pool = add_mset item (lib_refs lib)"
    using tag_add_item_clean [of lib t E v tag] assms by (auto simp: value_ok_def)
  moreover have "tag\<lparr>tag_items := is, tag_bulk := False\<rparr> = tag\<lparr>tag_items := is\<rparr>" for "is" using assms(3) by (cases tag) simp
  ultimately show ?thesis using that [of pool item] assms(1,3) by (simp add: lib_ok_def)
qed

text \<open>An item for the tag of the header or of the current track.\<close>

lemma feed_tag_item:
  assumes "cue_ok cue" "cp_state (fst cue) = HEADER \<or> cp_state (fst cue) = TRACK \<and> cp_current (fst cue) \<noteq> None"
    "value_ok E (tl_ignore (fst (snd cue))) t v"
  obtains cue' where "feed_tag (\<lambda>lib tag. tag_add_item_n E lib tag t v) cue = Some cue'" "cue_ok cue'"
    "view_of (fst cue') = view_step (Tag_Line t v) (view_of (fst cue))" "tl_ignore (fst (snd cue')) = tl_ignore (fst (snd cue))"
proof -
  obtain p lib nxt where c: "cue = (p, lib, nxt)" by (cases cue)
  have l: "lib_ok lib" "value_ok E (tl_ignore lib) t v" using assms c by (simp_all add: cue_ok_def)
  show ?thesis
  proof (cases "cp_state p = HEADER")
    case True
    have b: "\<not> tag_bulk (cp_tag p)" using assms c by (simp add: cue_ok_def)
    obtain item pool where a: "tag_add_item_n E lib (cp_tag p) t v =
        Some (lib\<lparr>tl_pool := pool\<rparr>, (cp_tag p)\<lparr>tag_items := tag_items (cp_tag p) @ [item]\<rparr>)"
      "lib_ok (lib\<lparr>tl_pool := pool\<rparr>)" "item_contents item = (t, v)" "pool_refs pool = add_mset item (lib_refs lib)"
      by (rule add_item_view [OF l b])
    show ?thesis
      by (rule that [of "(p\<lparr>cp_tag := (cp_tag p)\<lparr>tag_items := tag_items (cp_tag p) @ [item]\<rparr>\<rparr>, lib\<lparr>tl_pool := pool\<rparr>, nxt)"])
        (use a assms(1) c True in \<open>auto simp: feed_tag_def cue_current_tag_def put_current_tag_def cue_ok_def view_of_def tag_view_def\<close>)
  next
    case False
    with assms c obtain s tag where s: "cp_state p = TRACK" "cp_current p = Some s" "s_tag s = Some tag" "\<not> tag_bulk tag"
      by (auto simp: cue_ok_def good_song_def)
    obtain item pool where a: "tag_add_item_n E lib tag t v =
        Some (lib\<lparr>tl_pool := pool\<rparr>, tag\<lparr>tag_items := tag_items tag @ [item]\<rparr>)"
      "lib_ok (lib\<lparr>tl_pool := pool\<rparr>)" "item_contents item = (t, v)" "pool_refs pool = add_mset item (lib_refs lib)"
      by (rule add_item_view [OF l s(4)])
    show ?thesis
      by (rule that [of "(p\<lparr>cp_current := Some (s\<lparr>s_tag := Some (tag\<lparr>tag_items := tag_items tag @ [item]\<rparr>)\<rparr>)\<rparr>, lib\<lparr>tl_pool := pool\<rparr>, nxt)"])
        (use a assms(1) c s in \<open>auto simp: feed_tag_def cue_current_tag_def put_current_tag_def cue_ok_def view_of_def track_of_def tag_view_def good_song_def\<close>)
  qed
qed

lemma ascii_words:
  assumes "space_ok isspace"
  shows "plain_word isspace ''PERFORMER''" "plain_word isspace ''TITLE''" "plain_word isspace ''REM''" "plain_word isspace ''FILE''"
    "plain_word isspace ''WAVE''" "plain_word isspace ''TRACK''" "plain_word isspace ''AUDIO''" "plain_word isspace ''INDEX''"
    "plain_word isspace ''01''" "isspace CHR '' ''" "\<not> isspace CHR 0x22"
  using assms plain_word_ascii [OF assms] by (simp_all add: space_ok_def)

lemma plain_tag_name:
  assumes "space_ok isspace" "t \<noteq> TAG_NUM_OF_ITEM_TYPES"
  shows "plain_word isspace (tag_name t)"
  using assms(2) by (intro plain_word_ascii [OF assms(1)]) (cases t; simp add: tag_name_def tag_item_names_def)+

section \<open>Feeding lines\<close>

text \<open>The word that a line begins with selects what is done.\<close>

lemma feed_command:
  assumes "plain_word isspace w" "isspace CHR '' ''" "\<not> cp_end (fst cue)"
  shows "cue_parser_feed E isspace (w @ CHR '' '' # r) cue =
    (let parser = fst cue; p = Some r in
      if w = ''REM'' then feed_tag (cue_parse_rem E isspace p) cue
      else if w = ''PERFORMER'' then
        feed_tag (\<lambda>lib tag. cue_add_tag E isspace lib tag (if cp_state parser = TRACK then TAG_ARTIST else TAG_ALBUM_ARTIST) p) cue
      else if w = ''TITLE'' then
        if cp_state parser = HEADER \<or> cp_state parser = TRACK then
          feed_tag (\<lambda>lib tag. cue_add_tag E isspace lib tag (if cp_state parser = TRACK then TAG_TITLE else TAG_ALBUM) p) cue
        else Some cue
      else if w = ''FILE'' then feed_file isspace p cue
      else if cp_state parser = IGNORE_FILE then Some cue
      else if w = ''TRACK'' then feed_track E isspace p cue
      else if cp_state parser = IGNORE_TRACK then Some cue
      else if cp_state parser = TRACK \<and> w = ''INDEX'' then feed_index isspace p cue
      else Some cue)"
  using cue_next_token_word(1) [OF assms(1,2), of r] assms(3)
  by (simp add: cue_parser_feed_def cue_parser_feed2_def Let_def)

lemma cue_add_tag_quoted:
  assumes "\<not> isspace CHR 0x22" "CHR 0x22 \<notin> set v"
  shows "cue_add_tag E isspace lib tag t (Some (CHR 0x22 # v @ [CHR 0x22])) = tag_add_item_n E lib tag t v"
  using cue_next_value_quoted [where isspace = isspace, OF assms, of "[]"] by (simp add: cue_add_tag_def)

lemma cue_parse_rem_quoted:
  assumes "space_ok isspace" "names_parsed E" "t \<noteq> TAG_NUM_OF_ITEM_TYPES" "CHR 0x22 \<notin> set v"
  shows "cue_parse_rem E isspace (Some (tag_name t @ CHR '' '' # CHR 0x22 # v @ [CHR 0x22])) lib tag = tag_add_item_n E lib tag t v"
  using cue_next_token_word(1) [OF plain_tag_name [OF assms(1,3)] ascii_words(10) [OF assms(1)], of "CHR 0x22 # v @ [CHR 0x22]"]
    cue_add_tag_quoted [where isspace = isspace, OF ascii_words(11) [OF assms(1)] assms(4)] assms(2,3)
  by (simp add: cue_parse_rem_def names_parsed_def Let_def)

lemma feed_tag_line:
  assumes "space_ok isspace" "names_parsed E" "cue_ok cue" "line_ok E isspace (tl_ignore (fst (snd cue))) (Tag_Line t x) (view_of (fst cue))"
  shows "cue_parser_feed E isspace (cue_text (cp_state (fst cue)) (Tag_Line t x)) cue = feed_tag (\<lambda>lib tag. tag_add_item_n E lib tag t x) cue"
proof -
  note w = ascii_words [OF assms(1)]
  have e: "\<not> cp_end (fst cue)" using assms(3) by (auto simp: cue_ok_def)
  have t: "t \<noteq> TAG_NUM_OF_ITEM_TYPES" "CHR 0x22 \<notin> set x" using assms(4) by (simp_all add: value_ok_def)
  have st: "cp_state (fst cue) = HEADER \<or> cp_state (fst cue) = TRACK" using assms(4) by auto
  note c = feed_command [OF w(1,10) e, of E "CHR 0x22 # x @ [CHR 0x22]"] feed_command [OF w(2,10) e, of E "CHR 0x22 # x @ [CHR 0x22]"]
    feed_command [OF w(3,10) e, of E "tag_name t @ CHR '' '' # CHR 0x22 # x @ [CHR 0x22]"]
  note q = cue_add_tag_quoted [where isspace = isspace, OF w(11) t(2)]
  have r: "cue_parse_rem E isspace (Some (tag_name t @ CHR '' '' # CHR 0x22 # x @ [CHR 0x22])) = (\<lambda>lib tag. tag_add_item_n E lib tag t x)"
    using cue_parse_rem_quoted [OF assms(1,2) t] by (intro ext)
  from st show ?thesis
  proof
    assume h: "cp_state (fst cue) = HEADER"
    consider "t = TAG_ALBUM_ARTIST" | "t = TAG_ALBUM" | "t \<noteq> TAG_ALBUM_ARTIST" "t \<noteq> TAG_ALBUM" by blast
    then show ?thesis by cases (use c h q r in simp_all)
  next
    assume h: "cp_state (fst cue) = TRACK"
    consider "t = TAG_ARTIST" | "t = TAG_TITLE" | "t \<noteq> TAG_ARTIST" "t \<noteq> TAG_TITLE" by blast
    then show ?thesis by cases (use c h q r in simp_all)
  qed
qed

lemma commit_ok:
  assumes "cue_ok (p, lib, nxt)" "cp_finished p = None"
  obtains p' where "cue_parser_commit p = Some p'" "cue_ok (p', lib, nxt)" "view_of p' = commit_view (view_of p)"
    "cp_filename p' = cp_filename p" "cp_tag p' = cp_tag p" "cp_state p' = cp_state p"
proof -
  let ?p = "if cp_current p = None then p else p\<lparr>cp_finished := cp_previous p, cp_previous := cp_current p, cp_current := None\<rparr>"
  show ?thesis
    by (rule that [of ?p]) (use assms in \<open>auto simp: cue_parser_commit_def cue_ok_def view_of_def commit_view_def\<close>)
qed

lemma feed_file_line:
  assumes "space_ok isspace" "cue_ok cue" "line_ok E isspace ig (File_Line f) (view_of (fst cue))"
  obtains cue' where "cue_parser_feed E isspace (cue_text st (File_Line f)) cue = Some cue'" "cue_ok cue'"
    "view_of (fst cue') = view_step (File_Line f) (view_of (fst cue))" "tl_ignore (fst (snd cue')) = tl_ignore (fst (snd cue))"
proof -
  obtain p lib nxt where c: "cue = (p, lib, nxt)" by (cases cue)
  note w = ascii_words [OF assms(1)]
  have ok: "cue_ok (p, lib, nxt)" "cp_finished p = None" "CHR 0x22 \<notin> set f" "\<not> cp_end (fst cue)"
    using assms c by (auto simp: cue_ok_def)
  obtain p' where p': "cue_parser_commit p = Some p'" "cue_ok (p', lib, nxt)" "view_of p' = commit_view (view_of p)"
    by (rule commit_ok [OF ok(1,2)])
  have "feed_file isspace (Some (CHR 0x22 # f @ CHR 0x22 # '' WAVE'')) (p, lib, nxt) =
      Some (p'\<lparr>cp_state := WAVE, cp_filename := Some f\<rparr>, lib, nxt)"
    using cue_next_value_quoted [where isspace = isspace, OF w(11) ok(3), of "'' WAVE''"] cue_next_token_word(3) [OF w(5,10)] p'(1)
    by (simp add: feed_file_def)
  then have "cue_parser_feed E isspace (cue_text st (File_Line f)) cue = Some (p'\<lparr>cp_state := WAVE, cp_filename := Some f\<rparr>, lib, nxt)"
    using feed_command [OF w(4,10) ok(4), of E "CHR 0x22 # f @ CHR 0x22 # '' WAVE''"] c by simp
  moreover have "view_of (p'\<lparr>cp_state := WAVE, cp_filename := Some f\<rparr>) = (view_of p')\<lparr>cv_state := WAVE, cv_filename := Some f\<rparr>"
    by (simp add: view_of_def)
  moreover have "cue_ok (p'\<lparr>cp_state := WAVE, cp_filename := Some f\<rparr>, lib, nxt)" using p'(2) by (simp add: cue_ok_def)
  ultimately show ?thesis using that p'(3) c by simp
qed

lemma feed_track_line:
  assumes "space_ok isspace" "cue_ok cue" "line_ok E isspace (tl_ignore (fst (snd cue))) (Track_Line nr) (view_of (fst cue))"
  obtains cue' where "cue_parser_feed E isspace (cue_text st (Track_Line nr)) cue = Some cue'" "cue_ok cue'"
    "view_of (fst cue') = view_step (Track_Line nr) (view_of (fst cue))" "tl_ignore (fst (snd cue')) = tl_ignore (fst (snd cue))"
proof -
  obtain p lib nxt where c: "cue = (p, lib, nxt)" by (cases cue)
  note w = ascii_words [OF assms(1)]
  obtain f where ok: "cue_ok (p, lib, nxt)" "cp_finished p = None" "plain_word isspace nr" "value_ok E (tl_ignore lib) TAG_TRACK nr"
    "cp_state p \<in> {WAVE, TRACK}" "cp_filename p = Some f" "f \<noteq> []" "\<not> cp_end (fst cue)"
    using assms c by (auto simp: cue_ok_def)
  obtain p' where p': "cue_parser_commit p = Some p'" "cue_ok (p', lib, nxt)" "view_of p' = commit_view (view_of p)"
    "cp_filename p' = cp_filename p" "cp_tag p' = cp_tag p" "cp_state p' = cp_state p"
    by (rule commit_ok [OF ok(1,2)])
  have l: "lib_ok lib" "set (tag_items (cp_tag p)) \<subseteq> set_mset (lib_refs lib)" "tag_time (cp_tag p) = -1" using ok(1) by (simp_all add: cue_ok_def)
  obtain lib1 tag1 where d: "tag_dup lib (Some (cp_tag p)) = Some (lib1, Some tag1)" "lib_ok lib1" "tl_ignore lib1 = tl_ignore lib"
    "tag_view tag1 = tag_view (cp_tag p)" "tag_time tag1 = tag_time (cp_tag p)" "lib_refs lib1 = mset (tag_items tag1) + lib_refs lib"
    using tag_dup_copies [OF l(1,2)] by auto
  have nb: "\<not> tag_bulk tag1" using d(1) by (auto simp: tag_dup_def tag_new_def bind_eq_Some_conv)
  have v1: "value_ok E (tl_ignore lib1) TAG_TRACK nr" using ok(4) d(3) by simp
  obtain item pool where a: "tag_add_item_n E lib1 tag1 TAG_TRACK nr =
      Some (lib1\<lparr>tl_pool := pool\<rparr>, tag1\<lparr>tag_items := tag_items tag1 @ [item]\<rparr>)"
    "lib_ok (lib1\<lparr>tl_pool := pool\<rparr>)" "item_contents item = (TAG_TRACK, nr)" "pool_refs pool = add_mset item (lib_refs lib1)"
    by (rule add_item_view [OF d(2) v1 nb])
  let ?s = "\<lparr>s_addr = nxt, s_tag = Some (tag1\<lparr>tag_items := tag_items tag1 @ [item]\<rparr>), s_parent = None, s_mtime = 0,
    s_start_ms = 0, s_end_ms = 0, s_uri = f\<rparr>"
  let ?p = "p'\<lparr>cp_state := TRACK, cp_current := Some ?s, cp_last_updated := False\<rparr>"
  have "feed_track E isspace (Some (nr @ CHR '' '' # ''AUDIO'')) (p, lib, nxt) = Some (?p, lib1\<lparr>tl_pool := pool\<rparr>, nxt + 1)"
    using cue_next_token_word(1) [OF ok(3) w(10), of "''AUDIO''"] cue_next_token_word(2) [OF w(7,10)] p'(1,4,5) ok(6,7) d(1) a(1)
    by (simp add: feed_track_def song_remote_new_def song_alloc_def)
  then have "cue_parser_feed E isspace (cue_text st (Track_Line nr)) cue = Some (?p, lib1\<lparr>tl_pool := pool\<rparr>, nxt + 1)"
    using feed_command [OF w(6,10) ok(8), of E "nr @ CHR '' '' # ''AUDIO''"] c ok(5) by (auto simp: Let_def)
  moreover have "cue_ok (?p, lib1\<lparr>tl_pool := pool\<rparr>, nxt + 1)"
    using p'(2,5) a(2,4) d(6) nb l(2) by (auto simp: cue_ok_def good_song_def)
  moreover have "view_of ?p = (view_of p')\<lparr>cv_state := TRACK, cv_updated := False, cv_current := Some (track_of ?s)\<rparr>" by (simp add: view_of_def)
  moreover have "track_of ?s = \<lparr>ct_uri = f, ct_items = tag_view (cp_tag p) @ [(TAG_TRACK, nr)], ct_time = -1, ct_start = 0, ct_end = 0\<rparr>"
    using d(4,5) a(3) l(3) by (simp add: track_of_def tag_view_def)
  ultimately show ?thesis using that p'(3) c ok(6) d(3) by simp
qed

lemma time_word:
  assumes "start < pos" "pos < 2 ^ 31"
  shows "sint ((of_nat pos - of_nat start + 500) div 1000 :: 32 word) = int ((pos - start + 500) div 1000)"
proof -
  have e: "(of_nat pos - of_nat start + 500 :: 32 word) = of_nat (pos - start + 500)" using assms(1) by (simp add: of_nat_diff)
  have "(of_nat n :: 32 word) div 1000 = of_nat (n div 1000)" if "n < 2 ^ 32" for n
    using that by (simp add: word_arith_nat_div unsigned_of_nat take_bit_nat_eq_self)
  moreover have "sint (of_nat n :: 32 word) = int n" if "n < 2 ^ 31" for n
    using that by (simp add: signed_of_nat signed_take_bit_int_eq_self)
  ultimately show ?thesis unfolding e using assms(2) by (simp del: of_nat_add)
qed

lemma end_previous_ok:
  assumes "pos < 2 ^ 31" "pred_option good_song (cp_previous p)"
  obtains p' where "end_previous (of_nat pos) p = Some p'" "p' = p\<lparr>cp_previous := cp_previous p', cp_last_updated := cp_last_updated p'\<rparr>"
    "pred_option good_song (cp_previous p')"
    "map_option track_of (cp_previous p') =
      (if cp_last_updated p then map_option track_of (cp_previous p) else map_option (end_at pos) (map_option track_of (cp_previous p)))"
    "cp_last_updated p' \<longleftrightarrow> cp_last_updated p \<or> (\<exists>t. map_option track_of (cp_previous p) = Some t \<and> ct_start t < pos)"
proof (cases "cp_previous p")
  case None
  show ?thesis by (rule that [of p]) (use None in \<open>simp_all add: end_previous_def\<close>)
next
  case (Some s)
  with assms(2) obtain tag where s: "s_tag s = Some tag" "\<not> tag_bulk tag" by (auto simp: good_song_def)
  have u: "unat (of_nat pos :: 32 word) = pos" using assms(1) by (simp add: unsigned_of_nat take_bit_nat_eq_self)
  then have lt: "s_start_ms s < of_nat pos \<longleftrightarrow> unat (s_start_ms s) < pos" by (simp add: word_less_nat_alt)
  have t: "sint ((of_nat pos - s_start_ms s + 500) div 1000) = int ((pos - unat (s_start_ms s) + 500) div 1000)" if "unat (s_start_ms s) < pos"
    using time_word [OF that assms(1)] by simp
  show ?thesis
  proof (cases "\<not> cp_last_updated p \<and> unat (s_start_ms s) < pos")
    case True
    let ?s = "s\<lparr>s_end_ms := of_nat pos, s_tag := Some (tag\<lparr>tag_time := int ((pos - unat (s_start_ms s) + 500) div 1000)\<rparr>)\<rparr>"
    have e: "track_of ?s = end_at pos (track_of s)" using True s u by (simp add: track_of_def end_at_def tag_view_def)
    show ?thesis
      by (rule that [of "p\<lparr>cp_last_updated := True, cp_previous := Some ?s\<rparr>"])
        (use Some True s t lt e in \<open>simp_all add: end_previous_def good_song_def track_of_def\<close>)
  next
    case False
    have "track_of s = end_at pos (track_of s)" if "\<not> cp_last_updated p" using that False by (simp add: end_at_def track_of_def)
    with Some False lt assms(2) show ?thesis
      by (intro that [of p]) (auto simp: end_previous_def track_of_def)
  qed
qed

lemma plain_position:
  assumes "space_ok isspace"
  shows "plain_word isspace (show_nat m @ CHR '':'' # show_nat s @ CHR '':'' # show_nat f)"
proof -
  have "32 < (of_char c :: nat) \<and> (of_char c :: nat) < 127" if "c \<in> set (show_nat n)" for c n
    using show_nat_digits [of n] that by (auto simp: list_all_iff is_digit_def)
  then show ?thesis by (intro plain_word_ascii [OF assms]) (auto simp: list_all_iff)
qed

lemma feed_index_line:
  assumes "space_ok isspace" "cue_ok cue" "line_ok E isspace ig (Index_Line m s f) (view_of (fst cue))"
  obtains cue' where "cue_parser_feed E isspace (cue_text st (Index_Line m s f)) cue = Some cue'" "cue_ok cue'"
    "view_of (fst cue') = view_step (Index_Line m s f) (view_of (fst cue))" "tl_ignore (fst (snd cue')) = tl_ignore (fst (snd cue))"
proof -
  obtain p lib nxt where c: "cue = (p, lib, nxt)" by (cases cue)
  note w = ascii_words [OF assms(1)]
  let ?pos = "position_ms m s f" and ?t = "show_nat m @ CHR '':'' # show_nat s @ CHR '':'' # show_nat f"
  obtain song where ok: "?pos < 2 ^ 31" "cp_state p = TRACK" "cp_current p = Some song" "good_song song" "\<not> cp_end (fst cue)"
    "pred_option good_song (cp_previous p)"
    using assms c by (auto simp: cue_ok_def)
  obtain p' where p': "end_previous (of_nat ?pos) p = Some p'" "p' = p\<lparr>cp_previous := cp_previous p', cp_last_updated := cp_last_updated p'\<rparr>"
    "pred_option good_song (cp_previous p')"
    "map_option track_of (cp_previous p') =
      (if cp_last_updated p then map_option track_of (cp_previous p) else map_option (end_at ?pos) (map_option track_of (cp_previous p)))"
    "cp_last_updated p' \<longleftrightarrow> cp_last_updated p \<or> (\<exists>t. map_option track_of (cp_previous p) = Some t \<and> ct_start t < ?pos)"
    by (rule end_previous_ok [OF ok(1,6)])
  let ?s = "song\<lparr>s_start_ms := of_nat ?pos\<rparr>" and ?u = "cp_last_updated p'" and ?v = "cp_previous p'"
  let ?p = "p\<lparr>cp_previous := ?v, cp_last_updated := ?u, cp_current := Some ?s\<rparr>"
  have cur: "cp_current p' = Some song" using p'(2) ok(3) by (metis cue_parser.select_convs(4) cue_parser.update_convs(5,7) cue_parser.surjective)
  have upd: "p'\<lparr>cp_current := Some ?s\<rparr> = ?p" by (subst p'(2)) simp
  have i: "feed_index isspace (Some (''01'' @ CHR '' '' # ?t)) (p, lib, nxt) = Some (p'\<lparr>cp_current := Some ?s\<rparr>, lib, nxt)"
    using cue_next_token_word(1) [OF w(9,10), of ?t] cue_next_token_word(2) [OF plain_position [OF assms(1)] w(10), of m s f]
      cue_position_text [OF ok(1)] p'(1) cur
    by (simp add: feed_index_def Let_def)
  have "cue_parser_feed E isspace (cue_text st (Index_Line m s f)) cue = Some (?p, lib, nxt)"
    using feed_command [OF w(8,10) ok(5), of E "''01'' @ CHR '' '' # ?t"] c ok(2) i upd by simp
  moreover have "cue_ok (?p, lib, nxt)" using assms(2) c p'(3) ok(4) by (simp add: cue_ok_def good_song_def)
  moreover have "track_of ?s = (track_of song)\<lparr>ct_start := ?pos\<rparr>"
    using ok(1) by (simp add: track_of_def unsigned_of_nat take_bit_nat_eq_self)
  then have "view_of ?p = view_step (Index_Line m s f) (view_of p)" using p'(4,5) ok(3) by (simp add: view_of_def Let_def)
  ultimately show ?thesis using that c by simp
qed

text \<open>Every line that fits does to the view what it says.\<close>

lemma feed_line:
  assumes "space_ok isspace" "names_parsed E" "cue_ok cue" "line_ok E isspace (tl_ignore (fst (snd cue))) l (view_of (fst cue))"
  obtains cue' where "cue_parser_feed E isspace (cue_text (cp_state (fst cue)) l) cue = Some cue'" "cue_ok cue'"
    "view_of (fst cue') = view_step l (view_of (fst cue))" "tl_ignore (fst (snd cue')) = tl_ignore (fst (snd cue))"
proof (cases l)
  case (Tag_Line t x)
  have "cp_state (fst cue) = HEADER \<or> cp_state (fst cue) = TRACK \<and> cp_current (fst cue) \<noteq> None" "value_ok E (tl_ignore (fst (snd cue))) t x"
    using assms(4) Tag_Line by auto
  from feed_tag_item [OF assms(3) this] feed_tag_line [OF assms(1-3), of t x] assms(4) Tag_Line that show ?thesis by metis
next
  case (File_Line f)
  with feed_file_line [OF assms(1,3), of E _ f] assms(4) that show ?thesis by metis
next
  case (Track_Line nr)
  with feed_track_line [OF assms(1,3), of E nr] assms(4) that show ?thesis by metis
next
  case (Index_Line m s f)
  with feed_index_line [OF assms(1,3), of E _ m s f] assms(4) that show ?thesis by metis
qed

section \<open>Reading a sheet\<close>

text \<open>Reading songs from the plugin until it returns \<^verbatim>\<open>NULL\<close>, at most \<open>n\<close> times.\<close>

fun cue_songs :: "nat \<Rightarrow> tag_env \<Rightarrow> (char \<Rightarrow> bool) \<Rightarrow> string list \<Rightarrow> cue \<Rightarrow> (song list \<times> cue) option" where
  "cue_songs 0 E isspace tis cue = None"
| "cue_songs (Suc n) E isspace tis cue = do {
     (song, tis, cue) \<leftarrow> cue_playlist_read E isspace tis cue;
     case song of
       None \<Rightarrow> Some ([], cue)
     | Some s \<Rightarrow> do {
         (songs, cue) \<leftarrow> cue_songs n E isspace tis cue;
         Some (s # songs, cue)
       }
   }"

fun cue_texts :: "cue_line list \<Rightarrow> cue_view \<Rightarrow> string list" where
  "cue_texts [] v = []"
| "cue_texts (l # ls) v = cue_text (cv_state v) l # cue_texts ls ((view_step l v)\<lparr>cv_finished := None\<rparr>)"

fun lines_ok :: "tag_env \<Rightarrow> (char \<Rightarrow> bool) \<Rightarrow> bool list \<Rightarrow> cue_line list \<Rightarrow> cue_view \<Rightarrow> bool" where
  "lines_ok E isspace ig [] v \<longleftrightarrow> True"
| "lines_ok E isspace ig (l # ls) v \<longleftrightarrow> line_ok E isspace ig l v \<and> lines_ok E isspace ig ls ((view_step l v)\<lparr>cv_finished := None\<rparr>)"

definition opt_list :: "'a option \<Rightarrow> 'a list" where
  "opt_list x = (case x of None \<Rightarrow> [] | Some y \<Rightarrow> [y])"

lemma opt_list_simps [simp]: "opt_list None = []" "opt_list (Some x) = [x]"
  by (simp_all add: opt_list_def)

fun view_songs :: "cue_line list \<Rightarrow> cue_view \<Rightarrow> cue_track list" where
  "view_songs [] v = opt_list (cv_previous v) @ opt_list (cv_current v)"
| "view_songs (l # ls) v =
     opt_list (cv_finished (view_step l v)) @ view_songs ls ((view_step l v)\<lparr>cv_finished := None\<rparr>)"

lemma parser_eq_None: "cp_finished p = None \<Longrightarrow> p\<lparr>cp_finished := None\<rparr> = p"
  by simp

lemma view_eq_None: "cv_finished v = None \<Longrightarrow> v\<lparr>cv_finished := None\<rparr> = v"
  by simp

lemma cue_read_fresh:
  assumes "cp_finished (fst cue) = None" "\<not> cp_end (fst cue)"
  shows "cue_playlist_read E isspace tis cue = cue_playlist_loop E isspace tis cue"
  using assms by (auto simp: cue_playlist_read_def cue_parser_get_def parser_eq_None split: prod.splits)

text \<open>One line more: a finished song is returned, or the loop goes on.\<close>

lemma cue_songs_line:
  assumes "cp_finished (fst cue) = None" "\<not> cp_end (fst cue)" "cue_parser_feed E isspace line cue = Some (p, lib, nxt)" "\<not> cp_end p"
  shows "cue_songs (Suc n) E isspace (line # tis) cue = (case cp_finished p of
     None \<Rightarrow> cue_songs (Suc n) E isspace tis (p, lib, nxt)
   | Some s \<Rightarrow> do {
       (songs, cue) \<leftarrow> cue_songs n E isspace tis (p\<lparr>cp_finished := None\<rparr>, lib, nxt);
       Some (s # songs, cue)
     })"
proof (cases "cp_finished p")
  case None
  then show ?thesis using assms cue_read_fresh [of "(p, lib, nxt)" E isspace tis]
    by (simp add: cue_read_fresh cue_parser_get_def parser_eq_None)
next
  case (Some s)
  with assms show ?thesis by (simp add: cue_read_fresh cue_parser_get_def)
qed

text \<open>At the end the last two songs are delivered.\<close>

lemma cue_songs_end:
  assumes "cue_ok cue" "cp_finished (fst cue) = None"
  shows "\<exists>songs cue'. cue_songs (Suc (length (view_songs [] (view_of (fst cue))))) E isspace [] cue = Some (songs, cue') \<and>
    map track_of songs = view_songs [] (view_of (fst cue))"
proof -
  obtain p lib nxt where c: "cue = (p, lib, nxt)" by (cases cue)
  have e: "\<not> cp_end p" using assms(1) c by (simp add: cue_ok_def)
  show ?thesis
    using assms(2) c e
    by (cases "cp_current p"; cases "cp_previous p")
      (simp_all add: cue_playlist_read_def cue_parser_get_def cue_parser_finish_def cue_parser_commit_def)
qed

lemma cue_songs_lines:
  assumes "space_ok isspace" "names_parsed E"
  shows "cue_ok cue \<Longrightarrow> cp_finished (fst cue) = None \<Longrightarrow> lines_ok E isspace (tl_ignore (fst (snd cue))) ls (view_of (fst cue)) \<Longrightarrow>
    \<exists>songs cue'. cue_songs (Suc (length (view_songs ls (view_of (fst cue))))) E isspace (cue_texts ls (view_of (fst cue))) cue =
      Some (songs, cue') \<and> map track_of songs = view_songs ls (view_of (fst cue))"
proof (induction ls arbitrary: cue)
  case Nil
  then show ?case using cue_songs_end [of cue E isspace] by simp
next
  case (Cons l ls)
  let ?v = "view_of (fst cue)"
  have "line_ok E isspace (tl_ignore (fst (snd cue))) l ?v" using Cons.prems(3) by simp
  from feed_line [OF assms Cons.prems(1) this] obtain cue1 where
    1: "cue_parser_feed E isspace (cue_text (cp_state (fst cue)) l) cue = Some cue1" "cue_ok cue1" "view_of (fst cue1) = view_step l ?v"
    "tl_ignore (fst (snd cue1)) = tl_ignore (fst (snd cue))" .
  obtain p lib nxt where c: "cue1 = (p, lib, nxt)" by (cases cue1)
  let ?p = "p\<lparr>cp_finished := None\<rparr>"
  have e: "\<not> cp_end (fst cue)" "\<not> cp_end p" using Cons.prems(1) 1(2) c by (auto simp: cue_ok_def)
  have v: "view_of ?p = (view_step l ?v)\<lparr>cv_finished := None\<rparr>" "map_option track_of (cp_finished p) = cv_finished (view_step l ?v)"
  proof -
    have "view_of ?p = (view_of p)\<lparr>cv_finished := None\<rparr>" by (simp add: view_of_def)
    then show "view_of ?p = (view_step l ?v)\<lparr>cv_finished := None\<rparr>" unfolding 1(3) [symmetric] c by (simp only: fst_conv)
    show "map_option track_of (cp_finished p) = cv_finished (view_step l ?v)" unfolding 1(3) [symmetric] c by simp
  qed
  have ok: "cue_ok (?p, lib, nxt)" using 1(2) c by (simp add: cue_ok_def)
  from Cons.IH [OF ok] Cons.prems(3) 1(4) c v(1) obtain songs cue' where
    2: "cue_songs (Suc (length (view_songs ls (view_of ?p)))) E isspace (cue_texts ls (view_of ?p)) (?p, lib, nxt) = Some (songs, cue')"
    "map track_of songs = view_songs ls (view_of ?p)" by auto
  note line = cue_songs_line [OF Cons.prems(2) e(1) 1(1) [unfolded c] e(2)]
  show ?case
  proof (cases "cp_finished p")
    case None
    then have "?p = p" by (rule parser_eq_None)
    with None v(2) have f: "cv_finished (view_step l ?v) = None" by simp
    show ?thesis
      using 2 [unfolded v(1), unfolded \<open>?p = p\<close>] line [of _ "cue_texts ls ((view_step l ?v)\<lparr>cv_finished := None\<rparr>)"] None f
      by (cases cue') (simp del: cue_songs.simps)
  next
    case (Some s)
    with v(2) have f: "cv_finished (view_step l ?v) = Some (track_of s)" by simp
    show ?thesis
      using 2 [unfolded v(1)] line [of _ "cue_texts ls ((view_step l ?v)\<lparr>cv_finished := None\<rparr>)"] Some f
      by (cases cue') (simp del: cue_songs.simps)
  qed
qed

section \<open>A whole sheet\<close>

text \<open>A track has a number, items and a position.\<close>

type_synonym sheet_track = "string \<times> tag_contents \<times> (nat \<times> nat \<times> nat)"

fun track_lines :: "sheet_track \<Rightarrow> cue_line list" where
  "track_lines (nr, items, (m, s, f)) = Track_Line nr # map (\<lambda>(t, x). Tag_Line t x) items @ [Index_Line m s f]"

definition sheet_lines :: "tag_contents \<Rightarrow> string \<Rightarrow> sheet_track list \<Rightarrow> cue_line list" where
  "sheet_lines h f ts = map (\<lambda>(t, x). Tag_Line t x) h @ File_Line f # concat (map track_lines ts)"

text \<open>The lines as text; only performers and titles are written differently in the header and in a track.\<close>

definition sheet_text :: "tag_contents \<Rightarrow> string \<Rightarrow> sheet_track list \<Rightarrow> string list" where
  "sheet_text h f ts = map (\<lambda>(t, x). cue_text HEADER (Tag_Line t x)) h @ cue_text HEADER (File_Line f) #
     concat (map (\<lambda>t. map (cue_text TRACK) (track_lines t)) ts)"

fun track_start :: "sheet_track \<Rightarrow> nat" where
  "track_start (nr, items, (m, s, f)) = position_ms m s f"

text \<open>The songs of a sheet: each ends where the next one starts, the last one is open.\<close>

definition close_track :: "sheet_track list \<Rightarrow> cue_track \<Rightarrow> cue_track" where
  "close_track ts c = (case ts of [] \<Rightarrow> c | t # _ \<Rightarrow> end_at (track_start t) c)"

fun open_track :: "tag_contents \<Rightarrow> string \<Rightarrow> sheet_track \<Rightarrow> cue_track" where
  "open_track h f (nr, items, pos) =
     \<lparr>ct_uri = f, ct_items = h @ (TAG_TRACK, nr) # items, ct_time = -1, ct_start = track_start (nr, items, pos), ct_end = 0\<rparr>"

fun sheet_songs :: "tag_contents \<Rightarrow> string \<Rightarrow> sheet_track list \<Rightarrow> cue_track list" where
  "sheet_songs h f [] = []"
| "sheet_songs h f (t # ts) = close_track ts (open_track h f t) # sheet_songs h f ts"

definition track_ok :: "tag_env \<Rightarrow> (char \<Rightarrow> bool) \<Rightarrow> bool list \<Rightarrow> sheet_track \<Rightarrow> bool" where
  "track_ok E isspace ig t \<longleftrightarrow> (case t of (nr, items, (m, s, f)) \<Rightarrow>
     value_ok E ig TAG_TRACK nr \<and> plain_word isspace nr \<and> position_ms m s f < 2 ^ 31 \<and>
     list_all (\<lambda>(t, x). value_ok E ig t x \<and> CHR 0x22 \<notin> set x) items)"

definition sheet_ok :: "tag_env \<Rightarrow> (char \<Rightarrow> bool) \<Rightarrow> bool list \<Rightarrow> tag_contents \<Rightarrow> string \<Rightarrow> sheet_track list \<Rightarrow> bool" where
  "sheet_ok E isspace ig h f ts \<longleftrightarrow> list_all (\<lambda>(t, x). value_ok E ig t x \<and> CHR 0x22 \<notin> set x) h \<and>
     f \<noteq> [] \<and> CHR 0x22 \<notin> set f \<and> list_all (track_ok E isspace ig) ts"

text \<open>A run of lines, for an induction over the parts of a sheet: what is written, what must hold, and what comes out.\<close>

lemma run_items:
  assumes "cv_finished v = None"
    "cv_state v = HEADER \<and> v' = v\<lparr>cv_tag := cv_tag v @ items\<rparr> \<or>
     cv_state v = TRACK \<and> cv_current v = Some c \<and> v' = v\<lparr>cv_current := Some (c\<lparr>ct_items := ct_items c @ items\<rparr>)\<rparr>"
    "list_all (\<lambda>(t, x). value_ok E ig t x \<and> CHR 0x22 \<notin> set x) items"
  shows "cue_texts (map (\<lambda>(t, x). Tag_Line t x) items @ ls) v = map (\<lambda>(t, x). cue_text (cv_state v) (Tag_Line t x)) items @ cue_texts ls v'"
    "lines_ok E isspace ig (map (\<lambda>(t, x). Tag_Line t x) items @ ls) v \<longleftrightarrow> lines_ok E isspace ig ls v'"
    "view_songs (map (\<lambda>(t, x). Tag_Line t x) items @ ls) v = view_songs ls v'"
proof -
  have "cue_texts (map (\<lambda>(t, x). Tag_Line t x) items @ ls) v = map (\<lambda>(t, x). cue_text (cv_state v) (Tag_Line t x)) items @ cue_texts ls v' \<and>
    (lines_ok E isspace ig (map (\<lambda>(t, x). Tag_Line t x) items @ ls) v \<longleftrightarrow> lines_ok E isspace ig ls v') \<and>
    view_songs (map (\<lambda>(t, x). Tag_Line t x) items @ ls) v = view_songs ls v'"
    using assms
  proof (induction items arbitrary: v c)
    case Nil
    then have "v' = v" by auto
    then show ?case by simp
  next
    case (Cons i items)
    obtain t x where i: "i = (t, x)" by (cases i)
    let ?v = "view_step (Tag_Line t x) v"
    have f: "cv_finished ?v = None" using Cons.prems(1,2) by auto
    have st: "cv_state ?v = cv_state v" using Cons.prems(2) by auto
    have nx: "cv_state ?v = HEADER \<and> v' = ?v\<lparr>cv_tag := cv_tag ?v @ items\<rparr> \<or>
       cv_state ?v = TRACK \<and> cv_current ?v = Some (c\<lparr>ct_items := ct_items c @ [(t, x)]\<rparr>) \<and>
       v' = ?v\<lparr>cv_current := Some (c\<lparr>ct_items := ct_items c @ [(t, x)], ct_items := (ct_items c @ [(t, x)]) @ items\<rparr>)\<rparr>"
      using Cons.prems(2) i by auto
    have "line_ok E isspace ig (Tag_Line t x) v" using Cons.prems(2,3) i by auto
    then show ?case
      using Cons.IH [OF f, of "c\<lparr>ct_items := ct_items c @ [(t, x)]\<rparr>"] nx Cons.prems(3) i f st
      by (simp add: view_eq_None del: view_step.simps line_ok.simps cue_text.simps)
  qed
  then show "cue_texts (map (\<lambda>(t, x). Tag_Line t x) items @ ls) v = map (\<lambda>(t, x). cue_text (cv_state v) (Tag_Line t x)) items @ cue_texts ls v'"
    "lines_ok E isspace ig (map (\<lambda>(t, x). Tag_Line t x) items @ ls) v \<longleftrightarrow> lines_ok E isspace ig ls v'"
    "view_songs (map (\<lambda>(t, x). Tag_Line t x) items @ ls) v = view_songs ls v'" by blast+
qed

text \<open>One track: the song before the previous one comes out, the previous one is closed, and the track is open.\<close>

lemma run_track:
  assumes "track_ok E isspace ig (nr, items, m, s, f)" "cv_state v \<in> {WAVE, TRACK}" "cv_finished v = None" "cv_filename v = Some g" "g \<noteq> []"
    "cv_current v = None \<longrightarrow> cv_previous v = None"
    "v' = \<lparr>cv_state = TRACK, cv_tag = cv_tag v, cv_filename = Some g, cv_current = Some (open_track (cv_tag v) g (nr, items, m, s, f)),
       cv_previous = map_option (end_at (position_ms m s f)) (cv_current v), cv_finished = None,
       cv_updated = (\<exists>c. cv_current v = Some c \<and> ct_start c < position_ms m s f)\<rparr>"
  shows "cue_texts (track_lines (nr, items, m, s, f) @ ls) v = map (cue_text TRACK) (track_lines (nr, items, m, s, f)) @ cue_texts ls v'"
    "lines_ok E isspace ig (track_lines (nr, items, m, s, f) @ ls) v \<longleftrightarrow> lines_ok E isspace ig ls v'"
    "view_songs (track_lines (nr, items, m, s, f) @ ls) v = opt_list (cv_previous v) @ view_songs ls v'"
proof -
  let ?v1 = "(view_step (Track_Line nr) v)\<lparr>cv_finished := None\<rparr>"
  let ?c = "\<lparr>ct_uri = g, ct_items = cv_tag v @ [(TAG_TRACK, nr)], ct_time = -1, ct_start = 0, ct_end = 0\<rparr>"
  let ?v2 = "?v1\<lparr>cv_current := Some (?c\<lparr>ct_items := ct_items ?c @ items\<rparr>)\<rparr>"
  have 1: "cv_finished ?v1 = None" "cv_state ?v1 = TRACK" "cv_current ?v1 = Some ?c" using assms(4) by simp_all
  have it: "list_all (\<lambda>(t, x). value_ok E ig t x \<and> CHR 0x22 \<notin> set x) items" using assms(1) by (simp add: track_ok_def)
  have l: "line_ok E isspace ig (Track_Line nr) v" using assms by (auto simp: track_ok_def)
  have 2: "line_ok E isspace ig (Index_Line m s f) ?v2" using assms(1) by (simp add: track_ok_def)
  have 3: "(view_step (Index_Line m s f) ?v2)\<lparr>cv_finished := None\<rparr> = v'" "cv_finished (view_step (Index_Line m s f) ?v2) = None"
    using assms(2-7) by (auto simp: commit_view_def Let_def)
  have fin: "cv_finished (view_step (Track_Line nr) v) = cv_previous v" using assms(3,6) by (auto simp: commit_view_def)
  have nx: "cv_state ?v1 = HEADER \<and> ?v2 = ?v1\<lparr>cv_tag := cv_tag ?v1 @ items\<rparr> \<or>
     cv_state ?v1 = TRACK \<and> cv_current ?v1 = Some ?c \<and> ?v2 = ?v1\<lparr>cv_current := Some (?c\<lparr>ct_items := ct_items ?c @ items\<rparr>)\<rparr>"
    using 1 by blast
  note r = run_items [OF 1(1) nx it, where ls = "Index_Line m s f # ls"]
  show "cue_texts (track_lines (nr, items, m, s, f) @ ls) v = map (cue_text TRACK) (track_lines (nr, items, m, s, f)) @ cue_texts ls v'"
    using r(1) 1 3 by (simp add: comp_def split_def del: view_step.simps)
  show "lines_ok E isspace ig (track_lines (nr, items, m, s, f) @ ls) v \<longleftrightarrow> lines_ok E isspace ig ls v'"
    using r(2) 1 2 3 l by (simp del: view_step.simps line_ok.simps)
  show "view_songs (track_lines (nr, items, m, s, f) @ ls) v = opt_list (cv_previous v) @ view_songs ls v'"
    using r(3) 1 3 fin by (simp del: view_step.simps)
qed

lemma run_tracks:
  assumes "list_all (track_ok E isspace ig) ts" "cv_state v \<in> {WAVE, TRACK}" "cv_finished v = None" "cv_filename v = Some g" "g \<noteq> []"
    "cv_current v = None \<longrightarrow> cv_previous v = None"
  shows "cue_texts (concat (map track_lines ts)) v = concat (map (\<lambda>t. map (cue_text TRACK) (track_lines t)) ts) \<and>
    lines_ok E isspace ig (concat (map track_lines ts)) v \<and>
    view_songs (concat (map track_lines ts)) v =
      opt_list (cv_previous v) @ map (close_track ts) (opt_list (cv_current v)) @ sheet_songs (cv_tag v) g ts"
  using assms
proof (induction ts arbitrary: v)
  case Nil
  then show ?case by (cases "cv_current v") (simp_all add: close_track_def)
next
  case (Cons t ts)
  obtain nr items m s f where t: "t = (nr, items, m, s, f)" by (cases t)
  let ?v = "\<lparr>cv_state = TRACK, cv_tag = cv_tag v, cv_filename = Some g, cv_current = Some (open_track (cv_tag v) g t),
    cv_previous = map_option (end_at (position_ms m s f)) (cv_current v), cv_finished = None,
    cv_updated = (\<exists>c. cv_current v = Some c \<and> ct_start c < position_ms m s f)\<rparr>"
  have ok: "track_ok E isspace ig (nr, items, m, s, f)" using Cons.prems(1) t by simp
  note r = run_track [OF ok Cons.prems(2-6), of ?v, where ls = "concat (map track_lines ts)"]
  from Cons.IH [of ?v] Cons.prems(1,5) have
    1: "cue_texts (concat (map track_lines ts)) ?v = concat (map (\<lambda>t. map (cue_text TRACK) (track_lines t)) ts)"
    "lines_ok E isspace ig (concat (map track_lines ts)) ?v"
    "view_songs (concat (map track_lines ts)) ?v = opt_list (map_option (end_at (position_ms m s f)) (cv_current v)) @
      close_track ts (open_track (cv_tag v) g t) # sheet_songs (cv_tag v) g ts" by simp_all
  have c: "map (close_track (t # ts)) (opt_list (cv_current v)) = opt_list (map_option (end_at (position_ms m s f)) (cv_current v))"
    using t by (cases "cv_current v") (simp_all add: close_track_def)
  from r 1 t show ?case unfolding c by (simp del: track_lines.simps open_track.simps)
qed

lemma run_sheet:
  assumes "sheet_ok E isspace ig h f ts" "v = view_of cue_parser_new"
  shows "cue_texts (sheet_lines h f ts) v = sheet_text h f ts \<and> lines_ok E isspace ig (sheet_lines h f ts) v \<and>
    view_songs (sheet_lines h f ts) v = sheet_songs h f ts"
proof -
  let ?v1 = "v\<lparr>cv_tag := cv_tag v @ h\<rparr>"
  let ?v2 = "?v1\<lparr>cv_state := WAVE, cv_filename := Some f\<rparr>"
  have v: "cv_state v = HEADER" "cv_tag v = []" "cv_current v = None" "cv_previous v = None" "cv_finished v = None"
    using assms(2) by (simp_all add: view_of_def cue_parser_new_def tag_new_def tag_view_def)
  have h: "list_all (\<lambda>(t, x). value_ok E ig t x \<and> CHR 0x22 \<notin> set x) h" "f \<noteq> []" "CHR 0x22 \<notin> set f" "list_all (track_ok E isspace ig) ts"
    using assms(1) by (simp_all add: sheet_ok_def)
  note r = run_items [OF v(5) disjI1 [OF conjI [OF v(1) refl]] h(1), where ls = "File_Line f # concat (map track_lines ts)"]
  have 2: "(view_step (File_Line f) ?v1)\<lparr>cv_finished := None\<rparr> = ?v2" "cv_finished (view_step (File_Line f) ?v1) = None"
    using v by (simp_all add: commit_view_def)
  have "list_all (track_ok E isspace ig) ts \<Longrightarrow> cue_texts (concat (map track_lines ts)) ?v2 = concat (map (\<lambda>t. map (cue_text TRACK) (track_lines t)) ts) \<and>
    lines_ok E isspace ig (concat (map track_lines ts)) ?v2 \<and>
    view_songs (concat (map track_lines ts)) ?v2 = sheet_songs h f ts"
    using run_tracks [of E isspace ig ts ?v2 f] h(2) v by simp
  with r 2 v h show ?thesis
    by (simp add: sheet_lines_def sheet_text_def del: view_step.simps)
qed

text \<open>The songs that are read from the text of a sheet.\<close>

lemma cue_sheet_songs:
  assumes "space_ok isspace" "names_parsed E" "lib_ok lib" "sheet_ok E isspace (tl_ignore lib) h f ts"
  shows "\<exists>songs cue'. cue_songs (Suc (length ts)) E isspace (sheet_text h f ts) (cue_parser_new, lib, nxt) = Some (songs, cue') \<and>
    map track_of songs = sheet_songs h f ts"
proof -
  let ?cue = "(cue_parser_new, lib, nxt)"
  have ok: "cue_ok ?cue" "cp_finished (fst ?cue) = None" using assms(3) by (simp_all add: cue_ok_def cue_parser_new_def tag_new_def)
  have l: "length (sheet_songs h f ts) = length ts" by (induction ts) simp_all
  from cue_songs_lines [OF assms(1,2) ok, of "sheet_lines h f ts"] run_sheet [OF assms(4) refl] show ?thesis
    by (simp add: l del: cue_songs.simps)
qed

end
