(* ===== verification/Library_Theorems.thy ===== *)
theory Library_Theorems
  imports Database_Inv Cue_Inv Sample Sample_Db
begin

text \<open>
  The properties of what works with the songs of the database and of cue sheets: the search criteria, adding songs to the queue,
  the statistics, and the parser of cue sheets.
\<close>

section \<open>Criteria\<close>

text \<open>
  C34: The criteria of a search.  For criteria made from the arguments of a command, searching never fails, and finds a song exactly when
  every criterion holds: the folded needle is part of the URI, or of a value of the type, or it is empty and the tag has no such
  value.  Matching compares whole values in the same way; but looking for an empty value of any type in a song with a
  tag reads the array of visited types outside of its bounds.
\<close>

theorem locate_finds:
  assumes "locate_item_list_parse E argv = Some criteria" "song_ok s"
  shows "locate_song_search casefold s criteria = Some (list_all (search_holds casefold s) criteria) \<and>
    (list_all no_empty_any criteria \<longrightarrow> locate_song_match s criteria = Some (list_all (match_holds s) criteria)) \<and>
    (s_tag s \<noteq> None \<longrightarrow> [] \<notin> snd ` set (song_tag_view s) \<longrightarrow>
       locate_song_match s [\<lparr>li_tag = LOCATE_TAG_ANY_TYPE, li_needle = []\<rparr>] = None)"
  using locate_song_search_iff [OF assms(2) locate_parse_ok [OF assms(1)], of casefold] locate_song_match_iff [OF assms(2), of criteria]
    locate_tag_match_iff [OF assms(2), of "\<lparr>li_tag = LOCATE_TAG_ANY_TYPE, li_needle = []\<rparr>"]
  by (auto simp: locate_type_def)

lemma sample_song_ok: "song_ok sample_file"
  by (simp add: song_ok_def sample_file_def sample_title_def song_tag_view_def tag_view_def item_contents_def)

lemma sample_uri: "song_get_uri sample_file = Some ''a/b.ogg''"
  by (simp add: sample_db_defs song_get_uri_def directory_get_path_def build_db_filename_def directory_is_root_def)

theorem locate_finds_witness:
  "locate_song_search id sample_file [\<lparr>li_tag = LOCATE_TAG_FILE_TYPE, li_needle = ''.ogg''\<rparr>] = Some True \<and>
   locate_song_match sample_file [\<lparr>li_tag = LOCATE_TAG_ANY_TYPE, li_needle = []\<rparr>] = None"
proof -
  let ?c = "[\<lparr>li_tag = LOCATE_TAG_FILE_TYPE, li_needle = ''.ogg''\<rparr>]"
  have p: "locate_item_list_parse sample_tag_env [''file'', ''.ogg''] = Some ?c"
    by (simp add: locate_item_init_def locate_parse_type_def sample_tag_env_def)
  have "sublist ''.ogg'' ''a/b.ogg''" unfolding sublist_def by (rule exI [of _ "''a/b''"]) simp
  then have "list_all (search_holds id sample_file) ?c"
    using sample_uri by (simp add: search_holds_def criterion_holds_def full_uri_def locate_numbers)
  moreover have "s_tag sample_file \<noteq> None" "[] \<notin> snd ` set (song_tag_view sample_file)"
    by (simp_all add: sample_file_def sample_title_def song_tag_view_def tag_view_def item_contents_def)
  ultimately show ?thesis using locate_finds [OF p sample_song_ok, of id] by simp
qed

section \<open>Adding songs of the database\<close>


definition sample_database :: database where
  "sample_database = \<lparr>dbs_db = Some sample_db, dbs_is_open = True\<rparr>"

lemma sample_database_songs:
  "dbs_db sample_database = Some sample_db" "sdb_root sample_db = Some sample_tree" "tree_songs sample_tree = [sample_file]"
  "list_all song_ok (tree_songs sample_tree)"
  using sample_song_ok by (simp_all add: sample_database_def sample_db_def sample_tree_def)




section \<open>Statistics\<close>

text \<open>
  C36: The statistics of the database.  Their update counts the songs, adds up the known play times, and counts the different
  artists and albums, each modulo the width of its counter.
\<close>

theorem stats_update_counts:
  assumes "dbs_db db = Some sdb" "sdb_root sdb = Some t"
  shows "stats_update db st = Some \<lparr>stat_song_count = of_nat (length (tree_songs t)),
    stat_song_duration = word_of_int (sum_list (map play_time (tree_songs t))),
    stat_artist_count = of_nat (card (\<Union> (song_values TAG_ARTIST ` set (tree_songs t)))),
    stat_album_count = of_nat (card (\<Union> (song_values TAG_ALBUM ` set (tree_songs t))))\<rparr>"
proof -
  let ?d = "\<lparr>vd_stats = st\<lparr>stat_song_count := 0, stat_song_duration := 0, stat_artist_count := 0\<rparr>, vd_artists = strset_new, vd_albums = strset_new\<rparr>"
  have "visit_ok ?d" by (simp add: visit_ok_def strset_new_ok)
  from collect_stats_ok [OF this, of "tree_songs t"] obtain d where
    d: "visit_list collect_stats_song (tree_songs t) ?d = Some (MPD_SUCCESS, d)" "visit_ok d"
    "stat_song_count (vd_stats d) = of_nat (length (tree_songs t))"
    "stat_song_duration (vd_stats d) = word_of_int (sum_list (map play_time (tree_songs t)))"
    "set (strset_values (vd_artists d)) = \<Union> (song_values TAG_ARTIST ` set (tree_songs t))"
    "set (strset_values (vd_albums d)) = \<Union> (song_values TAG_ALBUM ` set (tree_songs t))" by (auto simp: strset_new_ok)
  have "strset_size ss = of_nat (card (set (strset_values ss)))" if "strset_ok ss" for ss
    using that distinct_card [OF distinct_buckets [OF that]] by (simp add: strset_size_def strset_ok_def)
  with d(2,5,6) have "strset_size (vd_artists d) = of_nat (card (\<Union> (song_values TAG_ARTIST ` set (tree_songs t))))"
    "strset_size (vd_albums d) = of_nat (card (\<Union> (song_values TAG_ALBUM ` set (tree_songs t))))" by (simp_all add: visit_ok_def)
  with d(1,3,4) show ?thesis by (simp add: stats_update_def db_walk_root [OF assms] Let_def)
qed

theorem stats_update_counts_witness:
  "stats_update sample_database \<lparr>stat_song_count = 9, stat_song_duration = 9, stat_artist_count = 9, stat_album_count = 9\<rparr> =
    Some \<lparr>stat_song_count = 1, stat_song_duration = 10, stat_artist_count = 0, stat_album_count = 0\<rparr>"
proof -
  have "play_time sample_file = 10" "song_values TAG_ARTIST sample_file = {}" "song_values TAG_ALBUM sample_file = {}"
    by (simp_all add: play_time_def song_values_def song_tag_view_def sample_file_def sample_title_def tag_view_def item_contents_def)
  then show ?thesis using stats_update_counts [OF sample_database_songs(1,2)] by (simp add: sample_database_songs(3))
qed

section \<open>Cue sheets\<close>

text \<open>
  C12: Reading a cue sheet.  The songs read from the text of a sheet with items in its header, a file and tracks are its tracks in
  order: each has the items of the header, its number and its own items, starts at its position, ends where the next one starts, and has a play time
  rounded to seconds.  The plugin returns them one by one and then \<^verbatim>\<open>NULL\<close>.
\<close>

theorem cue_sheet_read:
  assumes "space_ok isspace" "names_parsed E" "lib_ok lib" "sheet_ok E isspace (tl_ignore lib) h f ts"
  shows "\<exists>songs cue'. cue_songs (Suc (length ts)) E isspace (sheet_text h f ts) (cue_parser_new, lib, nxt) = Some (songs, cue') \<and>
    map track_of songs = sheet_songs h f ts"
  by (rule cue_sheet_songs [OF assms])

lemma sample_names: "names_parsed sample_tag_env"
  unfolding names_parsed_def
proof (intro allI impI)
  fix t assume "t \<noteq> TAG_NUM_OF_ITEM_TYPES"
  then show "tag_name_parse_i sample_tag_env (tag_name t) = t"
    by (cases t) (simp_all add: tag_name_parse_i_def sample_tag_env_def tag_name_def tag_types_def tag_item_names_def)
qed

lemma sample_space: "space_ok (\<lambda>c. c = CHR '' '')"
  by (auto simp: space_ok_def)

definition sample_sheet :: "sheet_track list" where
  "sample_sheet = [(''1'', [(TAG_TITLE, ''x'')], (0, 0, 0)), (''2'', [], (0, 2, 0))]"

theorem cue_sheet_read_witness:
  "\<exists>songs cue'. cue_songs 3 sample_tag_env (\<lambda>c. c = CHR '' '') (sheet_text [] ''f'' sample_sheet) (cue_parser_new, sample_lib, 1) = Some (songs, cue') \<and>
    map track_of songs =
      [\<lparr>ct_uri = ''f'', ct_items = [(TAG_TRACK, ''1''), (TAG_TITLE, ''x'')], ct_time = 2, ct_start = 0, ct_end = 2000\<rparr>,
       \<lparr>ct_uri = ''f'', ct_items = [(TAG_TRACK, ''2'')], ct_time = -1, ct_start = 2000, ct_end = 0\<rparr>]"
proof -
  have s: "sheet_ok sample_tag_env (\<lambda>c. c = CHR '' '') (tl_ignore sample_lib) [] ''f'' sample_sheet"
    by (simp add: sheet_ok_def sample_sheet_def track_ok_def value_ok_def plain_word_def clean_value_def char_is_non_printable_def
      sample_tag_env_def sample_lib_def position_ms_def)
  have "sheet_songs [] ''f'' sample_sheet =
      [\<lparr>ct_uri = ''f'', ct_items = [(TAG_TRACK, ''1''), (TAG_TITLE, ''x'')], ct_time = 2, ct_start = 0, ct_end = 2000\<rparr>,
       \<lparr>ct_uri = ''f'', ct_items = [(TAG_TRACK, ''2'')], ct_time = -1, ct_start = 2000, ct_end = 0\<rparr>]"
    by (simp add: sample_sheet_def close_track_def end_at_def position_ms_def)
  then show ?thesis
    using cue_sheet_read [OF sample_space sample_names sample_lib_ok(1) s, of 1] by (simp add: sample_sheet_def numeral_3_eq_3 del: cue_songs.simps)
qed

text \<open>
  C37: Incomplete lines of a cue sheet.  A command without its arguments makes the parser read behind the end of the line; and a
  \<^verbatim>\<open>TRACK\<close> line that ends behind a space commits the current track but stays in it, so that the next title is
  written through a null pointer.
\<close>

theorem cue_incomplete_lines:
  assumes "space_ok isspace" "\<not> cp_end p" "cp_finished p = None" "w \<in> {''TITLE'', ''PERFORMER'', ''REM'', ''FILE'', ''TRACK''}"
  shows "(cp_state p = HEADER \<longrightarrow> cue_parser_feed E isspace w (p, lib, nxt) = None) \<and>
    (cp_state p = TRACK \<and> cp_current p \<noteq> None \<longrightarrow>
      (\<exists>cue. cue_parser_feed E isspace ''TRACK '' (p, lib, nxt) = Some cue \<and> cue_parser_feed E isspace ''TITLE x'' cue = None))"
proof -
  note a = ascii_words [OF assms(1)]
  have pw: "plain_word isspace w" using assms(4) a by blast
  have "cue_next_token isspace (Some w) = Some (Some w, None)" by (rule cue_next_token_word(2) [OF pw a(10)])
  then have "cue_parser_feed E isspace w (p, lib, nxt) = None" if "cp_state p = HEADER"
    using that assms(2-4)
    by (auto simp: cue_parser_feed_def cue_parser_feed2_def feed_tag_def cue_current_tag_def cue_parse_rem_def cue_add_tag_def
      cue_next_token_def cue_next_value_def feed_file_def feed_track_def cue_parser_commit_def Let_def)
  moreover have "\<exists>cue. cue_parser_feed E isspace ''TRACK '' (p, lib, nxt) = Some cue \<and> cue_parser_feed E isspace ''TITLE x'' cue = None"
    if "cp_state p = TRACK" "cp_current p \<noteq> None"
  proof -
    let ?p = "p\<lparr>cp_finished := cp_previous p, cp_previous := cp_current p, cp_current := None\<rparr>"
    have "cue_parser_feed E isspace ''TRACK '' (p, lib, nxt) = Some (?p, lib, nxt)"
      using feed_command [OF a(6,10), of "(p, lib, nxt)" E "[]"] that assms(2,3)
      by (simp add: feed_track_def cue_parser_commit_def cue_next_token_def strchug_fast_def)
    moreover have "cue_parser_feed E isspace ''TITLE x'' (?p, lib, nxt) = None"
      using feed_command [OF a(2,10), of "(?p, lib, nxt)" E "''x''"] that assms(2)
      by (simp add: feed_tag_def cue_current_tag_def)
    ultimately show ?thesis by blast
  qed
  ultimately show ?thesis by blast
qed

theorem cue_incomplete_lines_witness:
  "cue_parser_feed sample_tag_env (\<lambda>c. c = CHR '' '') ''TITLE'' (cue_parser_new, sample_lib, 1) = None"
  using cue_incomplete_lines [OF sample_space, of cue_parser_new "''TITLE''" sample_tag_env sample_lib 1] by (simp add: cue_parser_new_def)

end
