(* ===== verification/Spec2Isabelle.thy ===== *)
theory Spec2Isabelle
  imports Queue_Theorems Playlist_Theorems Player_Theorems Base_Theorems Stream_Theorems Client_Theorems Text_Theorems Command_Theorems Pcm_Theorems Db_Theorems Library_Theorems
begin

text \<open>
  A verification of the core of the Music Player Daemon.

  \<^bold>\<open>The program.\<close>  A client connects and sends lines.  The lines are cut out of an input buffer
  (\<^verbatim>\<open>client_read.c\<close>), collected into command lists or executed (\<^verbatim>\<open>client_process.c\<close>), and split into
  parameters (\<^verbatim>\<open>tokenizer.c\<close>).  Most commands work on the playlist (\<^verbatim>\<open>playlist*.c\<close>), which keeps its songs in
  the queue (\<^verbatim>\<open>playqueue.c\<close>) and drives the player through \<^verbatim>\<open>player_control.c\<close>: the main thread stores a
  command and waits until the player thread (\<^verbatim>\<open>player_thread.c\<close>) has acknowledged it.  Changes set idle
  flags (\<^verbatim>\<open>idle.c\<close>), which are told to waiting clients (\<^verbatim>\<open>client_idle.c\<close>).  Replies go through an output
  buffer to the channel (\<^verbatim>\<open>client_write.c\<close>).  At shutdown the playlist goes to a state file
  (\<^verbatim>\<open>playlist_state.c\<close>, \<^verbatim>\<open>playqueue_save.c\<close>) and comes back from it at the next start.  Encoders and byte
  buffers (\<^verbatim>\<open>encoder/\<close>, \<^verbatim>\<open>fifo_buffer.c\<close>) sit between the player and the HTTP output (\<^verbatim>\<open>output/httpd.c\<close>).  The songs
  of the music collection hang in a tree of directories (\<^verbatim>\<open>directory.c\<close>), with tags whose values are shared in a pool
  (\<^verbatim>\<open>tag.c\<close>, \<^verbatim>\<open>tag_pool.c\<close>); a plugin keeps the tree in a text file (\<^verbatim>\<open>db/simple_db_plugin.c\<close>).
  Commands search it by criteria (\<^verbatim>\<open>locate.c\<close>) and add what they find to the queue (\<^verbatim>\<open>dbUtils.c\<close>).  A cue sheet is parsed
  into the songs it describes (\<^verbatim>\<open>cue/cue_parser.c\<close>).

  \<^bold>\<open>How C becomes HOL.\<close>  A structure is a record whose fields carry a prefix and the name of the member,
  an enumeration is a datatype.  A function of the source is a definition of the same name that takes
  the structures it changes and returns them.  The result is an \<open>option\<close>: \<open>None\<close> is a failed assertion,
  an access outside of an array, or a loop that does not end, so that a theorem that a function
  returns \<open>Some\<close> also says that the code is safe there.  Error codes of the source are values of a datatype.
  \<^verbatim>\<open>unsigned\<close> and \<^verbatim>\<open>int\<close> are words where they may wrap (versions, flags, hashes), and otherwise natural
  numbers and integers with the conversions written out (\<open>to_unsigned\<close>).  Loops over a range are \<open>for_each\<close>,
  other loops are functions with a termination proof, or partial functions of which the theorems say
  that they return.

  \<^bold>\<open>The theories.\<close>
  \<^item> \<open>Mpd_Prelude\<close>: assertions, array access, \<open>for_each\<close> and its rules.
  \<^item> \<open>Idle\<close>, \<open>Audio_Format\<close>, \<open>Uri\<close>, \<open>Song\<close>: \<^verbatim>\<open>idle.c\<close>, \<^verbatim>\<open>audio_format.[ch]\<close>, \<^verbatim>\<open>uri.c\<close>, \<^verbatim>\<open>song.c\<close>.
  \<^item> \<open>Playqueue\<close> (\<^verbatim>\<open>playqueue.[ch]\<close>): the queue with its item, order and id arrays.  \<open>Playqueue_Inv\<close> has the
    invariant \<open>queue_wf\<close> and the abstraction \<open>queue_view\<close> to a list; \<open>Playqueue_Order\<close>, \<open>Playqueue_Moves\<close>,
    \<open>Playqueue_Shuffle\<close> and \<open>Playqueue_Priority\<close> have the effect of each operation on both; \<open>Playqueue_Spec\<close>
    has the edits of a plain list as the specification, its locale and the interpretation on the queue.
  \<^item> \<open>Player_Control\<close> (\<^verbatim>\<open>player_control.[ch]\<close>): the commands, over a player thread that is an argument \<open>PT\<close>; the
    locale \<open>player_thread\<close> states what the main thread relies on.  \<open>Player_Task\<close> (\<^verbatim>\<open>player_thread.c\<close>) models
    the thread itself and \<open>Player_Task_Inv\<close> interprets the locale on it.
  \<^item> \<open>Playlist\<close> (\<^verbatim>\<open>playlist.c\<close>, \<^verbatim>\<open>playlist_control.c\<close>, \<^verbatim>\<open>playlist_edit.c\<close>): all operations.  \<open>Playlist_Inv\<close> has the
    invariant \<open>playlist_ok\<close>, and \<open>Playlist_Play\<close>, \<open>Playlist_Control\<close>, \<open>Playlist_Delete\<close>, \<open>Playlist_Edit\<close> and
    \<open>Playlist_Move\<close> a lemma per operation: it returns, keeps the invariant, and does what it should.
    \<open>Playlist_Machine\<close> has the requests and player events as a step relation with its reachable states.
  \<^item> \<open>Fifo_Buffer\<close> (\<^verbatim>\<open>fifo_buffer.c\<close>, \<^verbatim>\<open>growing_fifo.c\<close>), \<open>Encoder\<close> (\<^verbatim>\<open>encoder/null.c\<close>, \<^verbatim>\<open>encoder/wave.c\<close>, the
    encoding part of \<^verbatim>\<open>output/httpd.c\<close>): the locale \<open>encoder_plugin\<close> is the contract of an encoder, the HTTP
    output is verified against it, and both encoders are interpretations.
  \<^item> \<open>Client\<close> (\<^verbatim>\<open>client_internal.h\<close>, \<^verbatim>\<open>client_write.c\<close>), \<open>Client_Session\<close> (\<^verbatim>\<open>client_read.c\<close>,
    \<^verbatim>\<open>client_process.c\<close>), \<open>Client_Events\<close> (\<^verbatim>\<open>client_idle.c\<close>, \<^verbatim>\<open>client_subscribe.c\<close>, \<^verbatim>\<open>client_message.c\<close>).
  \<^item> \<open>C_String\<close>: the number conversions of the C library; \<open>Audio_Parser\<close> (\<^verbatim>\<open>audio_parser.c\<close>,
    \<^verbatim>\<open>audio_check.c\<close>), \<open>Tokenizer\<close> (\<^verbatim>\<open>tokenizer.c\<close>), \<open>List_Sort\<close> (\<^verbatim>\<open>util/list_sort.c\<close>), \<open>Playqueue_Save\<close>
    (\<^verbatim>\<open>playqueue_save.c\<close>, \<^verbatim>\<open>text_file.c\<close>) and \<open>Playlist_State\<close> (\<^verbatim>\<open>playlist_state.c\<close>).
  \<^item> \<open>Command_Args\<close> (\<^verbatim>\<open>protocol/argparser.c\<close>, \<^verbatim>\<open>protocol/result.c\<close>) and \<open>Command\<close> (\<^verbatim>\<open>command.c\<close>,
    \<^verbatim>\<open>client_file.c\<close>): the table of commands, their lookup and checks, and the handlers that work on the
    playlist, the player, the options, the connection and its messages.  The playlist, the player and the
    variables of \<^verbatim>\<open>result.c\<close> form the \<open>world\<close>, which stands where the channel of a client stands in
    \<open>Client\<close>, so that a command may change it.  \<open>Command_Inv\<close> says what is sent and what is left alone by
    the replies, and that the search in the table is right; \<open>Command_Serve\<close> follows a line from the client to the
    handler and back.
  \<^item> \<open>Pcm\<close> (\<^verbatim>\<open>pcm/pcm_utils.h\<close>, \<^verbatim>\<open>pcm_dither.c\<close>, \<^verbatim>\<open>pcm_volume.c\<close>, \<^verbatim>\<open>pcm_mix.c\<close>), \<open>Pcm_Convert\<close>
    (\<^verbatim>\<open>pcm_format.c\<close>, \<^verbatim>\<open>pcm_channels.c\<close>, \<^verbatim>\<open>pcm_resample_fallback.c\<close>, \<^verbatim>\<open>pcm_convert.c\<close>) and \<open>Pcm_Export\<close>
    (\<^verbatim>\<open>pcm_pack.c\<close>, \<^verbatim>\<open>pcm_dsd_usb.c\<close>, \<^verbatim>\<open>pcm_export.c\<close>, \<^verbatim>\<open>util/byte_reverse.c\<close>, \<^verbatim>\<open>util/bit_reverse.c\<close>): the audio data,
    as values of their format and as bytes.  Signed arithmetic is checked against its width, so that \<open>None\<close> is an overflow.
    \<open>Pcm_Inv\<close>, \<open>Pcm_Convert_Inv\<close> and \<open>Pcm_Export_Inv\<close> compare each routine with exact arithmetic and plain lists.
  \<^item> \<open>Tag_Pool\<close> (\<^verbatim>\<open>tag_pool.c\<close>): the hash table of tag values with their eight bit reference counts, and the invariant \<open>pool_ok\<close>
    that it is a bag of references; the locale \<open>item_pool\<close> is what tags rely on and the table is its interpretation.  \<open>Tag\<close>
    (\<^verbatim>\<open>tag.c\<close>): filling, copying, merging and freeing tags, the repair of their values, and the metadata setting.
  \<^item> \<open>Directory\<close> (\<^verbatim>\<open>directory.c\<close>, \<^verbatim>\<open>playlist_vector.c\<close>, \<^verbatim>\<open>song_sort.c\<close>): the tree and its operations.  \<open>Directory_Inv\<close> has
    the invariant \<open>tree_ok\<close> and what lookup, walking, pruning and freeing do; \<open>Directory_Sort\<close> relates the comparison of songs
    to an order and sorting to the merge sort of \<open>List_Sort\<close>.
  \<^item> \<open>Simple_Db\<close> (\<^verbatim>\<open>db/simple_db_plugin.c\<close>): saving and loading, opening and closing the database.  \<open>Simple_Db_Inv\<close> describes
    the file as a list of lines and follows the loader over them.
  \<^item> \<open>Locate\<close> (\<^verbatim>\<open>locate.c\<close>) with what a criterion means, \<open>Strset\<close> (\<^verbatim>\<open>strset.c\<close>) with the set it represents, and \<open>Database\<close>
    (\<^verbatim>\<open>database.c\<close>, \<^verbatim>\<open>dbUtils.c\<close>, \<^verbatim>\<open>stats.c\<close>, \<^verbatim>\<open>update_queue.c\<close>), which walks over the tree of \<open>Simple_Db\<close> and calls the playlist;
    \<open>Database_Inv\<close> reduces a walk to a loop over the songs of the tree.
  \<^item> \<open>Cue_Parser\<close> (\<^verbatim>\<open>cue/cue_parser.c\<close>, \<^verbatim>\<open>playlist/cue.c\<close>, \<^verbatim>\<open>playlist/embcue.c\<close>): the state machine of the parser, fed line by line.
    \<open>Cue_Inv\<close> has the view of a parser without addresses and references, the step that each kind of line makes on it, and the
    refinement between the two.
  \<^item> \<open>Sample\<close> and \<open>Sample_Db\<close>: a concrete queue, playlist, player thread and random generator, and a concrete database, for the witnesses.

  \<^bold>\<open>What is shown.\<close>  The properties are in the theories whose names end in \<open>_Theorems\<close>.
  \<^item> \<open>Queue_Theorems\<close>: any sequence of in-range edits refines the same edits of a list; ids are
    unique and found; appending terminates with a fresh id; lemmas on the effect of each edit and on the play order.
  \<^item> \<open>Playlist_Theorems\<close>: in every reachable state the invariant holds and the next admissible request
    is served; what playing, stopping, skipping, seeking, deleting, moving, shuffling and the modes do to
    the songs, the current song and playback; errors change nothing.
  \<^item> \<open>Player_Theorems\<close>: which commands the player thread acknowledges, and that those that end playback
    are not acknowledged.
  \<^item> \<open>Client_Theorems\<close>: output is delivered in order without loss; input is processed line by line,
    however it is cut into pieces; command lists run in order; lemmas on idle events and messages.
  \<^item> \<open>Command_Theorems\<close>: the text of a playlist command is carried out and answered by one reply; the lookup
    finds every command; permissions are enforced; malformed lines are not reported; the check of file
    access is inverted.
  \<^item> \<open>Pcm_Theorems\<close>: changing the volume, mixing and converting never overflow and are as close to the exact
    result as the dithering allows; packing is undone by unpacking; the word-wise byte reversals agree with the byte-wise
    one; what an export consists of.
  \<^item> \<open>Text_Theorems\<close>: the state file, command parameters and audio formats are read back as they were
    written; the merge sort is a stable sort.
  \<^item> \<open>Stream_Theorems\<close>: the HTTP output sends the wave header and all samples; when the growing buffer has room.
  \<^item> \<open>Db_Theorems\<close>: a database that is saved and opened again is the same, and closing it leaks no reference; lookups find what is there;
    pruning, sorting and walking the tree; the pool of tag values, merging tags, and reading the metadata setting.
  \<^item> \<open>Library_Theorems\<close>: which songs a search finds, and that they are added to the queue; that finding and adding stops too early;
    what the statistics count; that the text of a cue sheet is read as the tracks it was written from, and what incomplete lines do.
  \<^item> \<open>Base_Theorems\<close>: the path check and the removal of passwords in \<^verbatim>\<open>uri.c\<close>, and audio format masks.

  \<^bold>\<open>Hypotheses.\<close>  The playlist theorems assume \<open>live_player PT rest\<close>: the player thread answers each
  well-formed command and leaves \<open>next_song\<close> as agreed.  The thread of \<^verbatim>\<open>player_thread.c\<close> fulfils all of this
  but for the commands that end playback, of which \<open>Player_Theorems.ending_playback_never_returns\<close> shows that the
  waiting main thread is not released; the hypothesis is the contract the playlist was written against.
  \<open>glib_ok G\<close> says that glib's random numbers lie in the range asked for and that its sort sorts.
  The round trip of the database assumes that writing does not fail and that GLib's functions on paths, characters and UTF-8 do what
  they are documented to do (\<open>db_env_ok\<close>), and that the strings of the tree can stand on a line (\<open>stored_tree\<close>).
  \<open>playlist_ok\<close> bounds the capacity of the queue so that ids fit into an \<^verbatim>\<open>int\<close>.

  \<^bold>\<open>Bounds.\<close>  Buffer sizes are below \<^verbatim>\<open>SIZE_MAX\<close> less the alignment; lines of the state file are shorter than
  the 510 kB at which \<^verbatim>\<open>read_text_line\<close> begins to cut; the merge sort has 21 slots for partial lists and so
  takes lists of fewer than \<open>2 ^ 21\<close> nodes; disc and track numbers are below \<open>2 ^ 31\<close> where the order of songs is concerned.  Only
  \<open>simple_db_directory_load\<close> has fuel, for the depth of its calls: \<open>simple_db_load_internal\<close> gives it one more than the length of the
  file, and each call reads a line.  \<open>cue_songs\<close> counts the calls of a reader, and one more than the number of tracks is shown to be
  enough.  \<open>tokenizer_params\<close> counts parameters, as the loop of the command parser does.

  \<^bold>\<open>Not modelled.\<close>  Locks, condition variables and the interleaving of threads inside of a command: a
  command is answered in one step.  Decoders, output devices, mixers, input streams and archives, which
  are calls to third-party libraries; \<^verbatim>\<open>pipe.c\<close> and \<^verbatim>\<open>decoder_control.c\<close>, which do not compile at this
  commit.  The update of the database and its compressed form; the
  printing of selections; for the playlist the songs of the database are an argument.  The handlers of
  the database, stored playlist, output and mixer commands and \<^verbatim>\<open>addAllIn\<close> of \<^verbatim>\<open>dbUtils.c\<close> are arguments of
  \<open>command_process\<close>, and the build is one without stickers.  Sockets, the event loop,
  configuration, logging and start-up.  Floating-point arithmetic on samples and the DSD filter are arguments;
  libsamplerate and the assembly versions are left out.  Memory is not exhausted, and freeing is modelled only for songs, tags and directories.
\<close>

end
